(* ===== verification/Prelude.thy ===== *)
theory Prelude
  imports Main "HOL-Library.Word"
begin

text \<open>
  Shared vocabulary of the development: machine integers, byte buffers and the
  little-endian layout of packed structures.

  KickCAT handles everything it receives or sends as raw memory: a packed structure is
  overlaid on a byte buffer with \<open>pointData\<close> and its fields are read and written in place
  with \<open>memcpy\<close>. A buffer is modelled as a list of bytes and a pointer into it as an offset.
  \<open>peek\<close> and \<open>poke\<close> are the unchecked accesses; \<open>mem_read\<close> and \<open>mem_write\<close> are the checked
  ones, \<open>None\<close> standing for an access outside the buffer, which is undefined behaviour in C++.

  The locale \<open>packed\<close> is the interface of a packed structure (an encoder and a decoder of a
  fixed width); every structure of the wire format interprets it.
\<close>

unbundle bit_operations_syntax

type_synonym u8 = "8 word"
type_synonym u16 = "16 word"
type_synonym u32 = "32 word"
type_synonym u64 = "64 word"
type_synonym bytes = "u8 list"

named_theorems le_unfold \<open>little-endian codecs at the widths of the program\<close>
named_theorems pack_defs \<open>definitions of the packed structures\<close>
named_theorems reg_defs \<open>constants of the protocol\<close>

section \<open>Byte buffers\<close>

definition peek :: "'a list \<Rightarrow> nat \<Rightarrow> nat \<Rightarrow> 'a list" where
  "peek b off n = take n (drop off b)"

definition poke :: "'a list \<Rightarrow> nat \<Rightarrow> 'a list \<Rightarrow> 'a list" where
  "poke b off d = take off b @ d @ drop (off + length d) b"

definition mem_read :: "'a list \<Rightarrow> nat \<Rightarrow> nat \<Rightarrow> 'a list option" where
  "mem_read b off n = (if off + n \<le> length b then Some (peek b off n) else None)"

definition mem_write :: "'a list \<Rightarrow> nat \<Rightarrow> 'a list \<Rightarrow> 'a list option" where
  "mem_write b off d = (if off + length d \<le> length b then Some (poke b off d) else None)"

lemma length_peek [simp]: "off + n \<le> length b \<Longrightarrow> length (peek b off n) = n"
  by (simp add: peek_def)

lemma length_poke [simp]:
  "off + length d \<le> length b \<Longrightarrow> length (poke b off d) = length b"
  by (simp add: poke_def)

lemma peek_0 [simp]: "peek b off 0 = []"
  by (simp add: peek_def)

lemma poke_Nil [simp]: "poke b off [] = b"
  by (simp add: poke_def)

lemma peek_poke_same [simp]:
  "off + length d \<le> length b \<Longrightarrow> n = length d \<Longrightarrow> peek (poke b off d) off n = d"
  by (simp add: peek_def poke_def)

lemma peek_poke_before:
  assumes "i + n \<le> off" and "off + length d \<le> length b"
  shows "peek (poke b off d) i n = peek b i n"
proof -
  have "n \<le> off - i" using assms(1) by arith
  then have "take n (drop i (take off b)) = take n (drop i b)"
    by (simp add: drop_take min_absorb1)
  then show ?thesis using assms by (simp add: peek_def poke_def)
qed

lemma peek_poke_after:
  assumes "off + length d \<le> i" and "off + length d \<le> length b"
  shows "peek (poke b off d) i n = peek b i n"
proof -
  have "drop i (poke b off d) = drop (i - off - length d) (drop (off + length d) b)"
    using assms by (simp add: poke_def)
  then have "drop i (poke b off d) = drop i b"
    using assms by (simp add: drop_drop)
  then show ?thesis by (simp add: peek_def)
qed

lemma peek_poke_inside:
  assumes "off \<le> i" and "i + n \<le> off + length d" and "off + length d \<le> length b"
  shows "peek (poke b off d) i n = peek d (i - off) n"
  using assms by (simp add: peek_def poke_def)

lemma nth_poke:
  assumes "off + length d \<le> length b" and "i < length b"
  shows "poke b off d ! i =
    (if off \<le> i \<and> i < off + length d then d ! (i - off) else b ! i)"
  using assms by (auto simp: poke_def nth_append)

lemma nth_poke_outside [simp]:
  assumes "off + length d \<le> length b" and "i < off \<or> off + length d \<le> i" and "i < length b"
  shows "poke b off d ! i = b ! i"
  using assms by (auto simp: nth_poke)

lemma mem_write_Some [simp]:
  "off + length d \<le> length b \<Longrightarrow> mem_write b off d = Some (poke b off d)"
  by (simp add: mem_write_def)

lemma mem_read_Some [simp]:
  "off + n \<le> length b \<Longrightarrow> mem_read b off n = Some (peek b off n)"
  by (simp add: mem_read_def)

lemma mem_write_eq_Some_iff:
  "mem_write b off d = Some b' \<longleftrightarrow> off + length d \<le> length b \<and> b' = poke b off d"
  by (auto simp: mem_write_def)

lemma mem_read_eq_Some_iff:
  "mem_read b off n = Some d \<longleftrightarrow> off + n \<le> length b \<and> d = peek b off n"
  by (auto simp: mem_read_def)

lemma peek_append_left [simp]: "n = length xs \<Longrightarrow> peek (xs @ ys) 0 n = xs"
  by (simp add: peek_def)

lemma peek_append_right: "off = length xs \<Longrightarrow> peek (xs @ ys) off n = take n ys"
  by (simp add: peek_def)

text \<open>\<open>at b off xs\<close>: the buffer \<open>b\<close> holds the bytes \<open>xs\<close> at offset \<open>off\<close>, all of them inside it.\<close>

definition at :: "'a list \<Rightarrow> nat \<Rightarrow> 'a list \<Rightarrow> bool" where
  "at b off xs \<longleftrightarrow> off + length xs \<le> length b \<and> peek b off (length xs) = xs"

lemma at_Nil [simp]: "at b off [] \<longleftrightarrow> off \<le> length b"
  by (simp add: at_def)

lemma at_bound: "at b off xs \<Longrightarrow> off + length xs \<le> length b"
  by (simp add: at_def)

lemma at_peek: "at b off xs \<Longrightarrow> n = length xs \<Longrightarrow> peek b off n = xs"
  by (simp add: at_def)

lemma at_mem_read: "at b off xs \<Longrightarrow> n = length xs \<Longrightarrow> mem_read b off n = Some xs"
  by (simp add: at_def)

lemma at_append: "at b off (xs @ ys) \<longleftrightarrow> at b off xs \<and> at b (off + length xs) ys"
proof -
  have "take (length xs + length ys) (drop off b) =
      take (length xs) (drop off b) @ take (length ys) (drop (off + length xs) b)"
    by (simp add: take_add add.commute)
  then show ?thesis
    by (auto simp: at_def peek_def append_eq_append_conv)
qed

lemma at_poke_same: "off + length xs \<le> length b \<Longrightarrow> at (poke b off xs) off xs"
  by (simp add: at_def)

lemma at_poke_disjoint:
  assumes "at b i xs" and "i + length xs \<le> off \<or> off + length d \<le> i"
    and "off + length d \<le> length b"
  shows "at (poke b off d) i xs"
  using assms by (auto simp: at_def peek_poke_before peek_poke_after)

section \<open>Little-endian integers\<close>

text \<open>
  The targets are little-endian, and so is EtherCAT: copying an integer to memory lays its
  least significant byte first.
\<close>

primrec to_le :: "nat \<Rightarrow> 'w::len word \<Rightarrow> bytes" where
  "to_le 0 w = []"
| "to_le (Suc n) w = ucast w # to_le n (drop_bit 8 w)"

primrec from_le :: "bytes \<Rightarrow> 'w::len word" where
  "from_le [] = 0"
| "from_le (b # bs) = ucast b OR push_bit 8 (from_le bs)"

abbreviation le16 :: "u16 \<Rightarrow> bytes" where "le16 \<equiv> to_le 2"
abbreviation le32 :: "u32 \<Rightarrow> bytes" where "le32 \<equiv> to_le 4"
abbreviation le64 :: "u64 \<Rightarrow> bytes" where "le64 \<equiv> to_le 8"

abbreviation get16 :: "bytes \<Rightarrow> nat \<Rightarrow> u16" where "get16 b off \<equiv> from_le (peek b off 2)"
abbreviation get32 :: "bytes \<Rightarrow> nat \<Rightarrow> u32" where "get32 b off \<equiv> from_le (peek b off 4)"
abbreviation get64 :: "bytes \<Rightarrow> nat \<Rightarrow> u64" where "get64 b off \<equiv> from_le (peek b off 8)"

lemma length_to_le [simp]: "length (to_le n w) = n"
  by (induction n arbitrary: w) simp_all

lemma to_le_eq_Nil [simp]: "to_le n w = [] \<longleftrightarrow> n = 0"
  by (metis length_to_le length_0_conv)

lemma from_le_to_le_take: "from_le (to_le n w) = take_bit (8 * n) w"
proof (induction n arbitrary: w)
  case 0
  show ?case by simp
next
  case (Suc n)
  have "ucast (ucast w :: u8) OR push_bit 8 (take_bit (8 * n) (drop_bit 8 w)) = take_bit (8 * Suc n) w"
    by (rule bit_word_eqI) (auto simp: bit_simps not_less)
  with Suc show ?case by simp
qed

lemma from_le_to_le: "LENGTH('w) \<le> 8 * n \<Longrightarrow> from_le (to_le n w) = (w :: 'w::len word)"
  by (simp add: from_le_to_le_take take_bit_word_eq_self)

lemma to_le_from_le:
  "8 * length bs \<le> LENGTH('w) \<Longrightarrow> to_le (length bs) (from_le bs :: 'w::len word) = bs"
proof (induction bs)
  case Nil
  show ?case by simp
next
  case (Cons b bs)
  have len: "8 * length bs + 8 \<le> LENGTH('w)" using Cons.prems by simp
  have low: "ucast (ucast b OR push_bit 8 (from_le bs) :: 'w word) = b"
    using len by (intro bit_word_eqI) (auto simp: bit_simps)
  have high: "drop_bit 8 (ucast b OR push_bit 8 (from_le bs) :: 'w word) =
      take_bit (LENGTH('w) - 8) (from_le bs)"
    using len by (intro bit_word_eqI) (auto simp: bit_simps dest: bit_imp_le_length)
  have cut: "to_le m (take_bit k w) = to_le m w" if "8 * m \<le> k" for m k and w :: "'w word"
    using that
  proof (induction m arbitrary: k w)
    case (Suc m)
    have "ucast (take_bit k w) = (ucast w :: u8)"
      using Suc.prems by (intro bit_word_eqI) (auto simp: bit_simps)
    moreover have "drop_bit 8 (take_bit k w) = take_bit (k - 8) (drop_bit 8 w)"
      by (simp add: drop_bit_take_bit)
    ultimately show ?case using Suc.IH [of "k - 8" "drop_bit 8 w"] Suc.prems by simp
  qed simp
  have "to_le (length bs) (take_bit (LENGTH('w) - 8) (from_le bs) :: 'w word) = bs"
    using len Cons.IH by (simp add: cut)
  with low high show ?case by simp
qed

lemma le_roundtrip [simp]:
  "from_le (le16 a) = a" "from_le (le32 c) = c" "from_le (le64 d) = d" "from_le [e] = (e :: u8)"
  by (simp_all add: from_le_to_le)

lemma le_roundtrip_rev [simp]:
  "length bs = 2 \<Longrightarrow> le16 (from_le bs) = bs"
  "length bs = 4 \<Longrightarrow> le32 (from_le bs) = bs"
  "length bs = 8 \<Longrightarrow> le64 (from_le bs) = bs"
  using to_le_from_le [where 'w = 16, of bs] to_le_from_le [where 'w = 32, of bs]
    to_le_from_le [where 'w = 64, of bs] by simp_all

declare to_le.simps [simp del, le_unfold] from_le.simps [simp del, le_unfold]

lemma to_le_2 [le_unfold]: "to_le 2 w = [ucast w, ucast (drop_bit 8 w)]"
  by (simp add: eval_nat_numeral to_le.simps)

lemma to_le_4 [le_unfold]:
  "to_le 4 w = [ucast w, ucast (drop_bit 8 w), ucast (drop_bit 16 w), ucast (drop_bit 24 w)]"
  by (simp add: eval_nat_numeral to_le.simps drop_bit_drop_bit)

lemma peek_literal:
  "peek (x # xs) 0 (Suc n) = x # take n xs"
  "peek (x # xs) (Suc m) n = peek xs m n"
  by (simp_all add: peek_def)

text \<open>Lists of the sizes of the packed structures, element by element.\<close>

lemma length_4:
  "length bs = 4 \<longleftrightarrow> (\<exists>b0 b1 b2 b3. bs = [b0, b1, b2, b3])"
  by (auto simp: eval_nat_numeral length_Suc_conv)

lemma length_6:
  "length bs = 6 \<longleftrightarrow> (\<exists>b0 b1 b2 b3 b4 b5. bs = [b0, b1, b2, b3, b4, b5])"
  by (auto simp: eval_nat_numeral length_Suc_conv)

lemma length_8:
  "length bs = 8 \<longleftrightarrow> (\<exists>b0 b1 b2 b3 b4 b5 b6 b7. bs = [b0, b1, b2, b3, b4, b5, b6, b7])"
  by (auto simp: eval_nat_numeral length_Suc_conv)

lemma length_10:
  "length bs = 10 \<longleftrightarrow> (\<exists>b0 b1 b2 b3 b4 b5 b6 b7 b8 b9. bs = [b0, b1, b2, b3, b4, b5, b6, b7, b8, b9])"
  by (auto simp: eval_nat_numeral length_Suc_conv)

lemma length_16:
  "length bs = 16 \<longleftrightarrow> (\<exists>b0 b1 b2 b3 b4 b5 b6 b7 b8 b9 b10 b11 b12 b13 b14 b15. bs = [b0, b1, b2, b3, b4, b5, b6, b7, b8, b9, b10, b11, b12, b13, b14, b15])"
  by (auto simp: eval_nat_numeral length_Suc_conv)

section \<open>Bit fields\<close>

lemma bit_beyond: "LENGTH('w) \<le> n \<Longrightarrow> bit (w :: 'w::len word) n \<longleftrightarrow> False"
  using bit_imp_le_length by fastforce

text \<open>Two words are equal when their bits are, checked position by position.\<close>

lemma word_eq_by_bits:
  "list_all (\<lambda>n. bit a n \<longleftrightarrow> bit b n) [0..<LENGTH('w)] \<Longrightarrow> a = (b :: 'w::len word)"
  by (rule bit_word_eqI) (simp add: list_all_iff)

lemma upt_positions:
  "[0..<1] = [0 :: nat]" "[0..<Suc 0] = [0]"
  "[0..<2] = [0, 1]"
  "[0..<3] = [0, 1, 2]"
  "[0..<4] = [0, 1, 2, 3]"
  "[0..<6] = [0, 1, 2, 3, 4, 5]"
  "[0..<7] = [0, 1, 2, 3, 4, 5, 6]"
  "[0..<8] = [0, 1, 2, 3, 4, 5, 6, 7]"
  "[0..<9] = [0, 1, 2, 3, 4, 5, 6, 7, 8]"
  "[0..<11] = [0, 1, 2, 3, 4, 5, 6, 7, 8, 9, 10]"
  "[0..<16] = [0, 1, 2, 3, 4, 5, 6, 7, 8, 9, 10, 11, 12, 13, 14, 15]"
  by (simp_all add: upt_conv_Cons)

lemmas bitfield = bit_simps bit_beyond upt_positions

section \<open>Arithmetic\<close>

lemma unat_add_small:
  "unat (a :: 'w::len word) + unat b < 2 ^ LENGTH('w) \<Longrightarrow> unat (a + b) = unat a + unat b"
  by (simp add: unat_word_ariths)

lemma unat_of_nat_small: "n < 2 ^ LENGTH('w) \<Longrightarrow> unat (of_nat n :: 'w::len word) = n"
  by (simp add: unsigned_of_nat take_bit_nat_eq_self)

lemma unat_and_mask: "unat (w AND mask n :: 'w::len word) < 2 ^ n"
  by (simp add: take_bit_eq_mask [symmetric] unsigned_take_bit_eq)

section \<open>Packed structures\<close>

text \<open>
  A packed structure has an encoder of fixed width and a decoder. The two round trips are
  what overlaying the structure on a buffer relies on: a field that is not written keeps its
  bits, and a field that is written reads back.
\<close>

locale packed =
  fixes enc :: "'a \<Rightarrow> bytes"
    and dec :: "bytes \<Rightarrow> 'a"
    and width :: nat
  assumes length_enc: "length (enc x) = width"
    and dec_enc: "dec (enc x) = x"
    and enc_dec: "length bs = width \<Longrightarrow> enc (dec bs) = bs"
begin

lemma enc_inject: "enc x = enc y \<longleftrightarrow> x = y"
  by (metis dec_enc)

lemma read_back:
  "off + width \<le> length b \<Longrightarrow> dec (peek (poke b off (enc x)) off width) = x"
  by (simp add: length_enc dec_enc)

lemma write_back:
  assumes "off + width \<le> length b"
  shows "poke b off (enc (dec (peek b off width))) = b"
proof -
  have "enc (dec (peek b off width)) = peek b off width"
    using assms by (simp add: enc_dec)
  then show ?thesis
    using assms by (simp add: poke_def peek_def)
      (metis add.commute append_take_drop_id drop_drop)
qed

lemma dec_append: "dec (peek (enc x @ rest) 0 width) = x"
  by (simp add: length_enc dec_enc)

end

interpretation p16: packed le16 from_le 2
  by unfold_locales simp_all

interpretation p32: packed le32 from_le 4
  by unfold_locales simp_all

interpretation p64: packed le64 from_le 8
  by unfold_locales simp_all

end
