(* ===== verification/Wire.thy ===== *)
theory Wire
  imports Prelude
begin

text \<open>
  The wire format: constants, enumerations and packed structures of
  \<open>lib/include/kickcat/protocol.h\<close> and \<open>lib/include/kickcat/CoE/protocol.h\<close>.

  A bit field of width \<open>n\<close> is an \<open>n word\<close>, so that a structure has exactly the values its C++
  counterpart has. Each structure has an encoder \<open>enc_*\<close> and a decoder \<open>dec_*\<close> and interprets
  the locale \<open>packed\<close>: the interpretation's proof is the check that no field overlaps another
  and that every bit of the structure is covered.
\<close>

section \<open>Sizes and addressing helpers (protocol.h)\<close>

definition ETH_HEADER_SIZE :: nat where [simp, reg_defs]: "ETH_HEADER_SIZE = 14"
definition ETH_MTU_SIZE :: nat where [simp, reg_defs]: "ETH_MTU_SIZE = 1500"
definition ETH_FCS_SIZE :: nat where [simp, reg_defs]: "ETH_FCS_SIZE = 4"
definition ETH_MAX_SIZE :: nat where
  [simp, reg_defs]: "ETH_MAX_SIZE = ETH_HEADER_SIZE + ETH_MTU_SIZE + ETH_FCS_SIZE"
definition ETH_MIN_SIZE :: nat where [simp, reg_defs]: "ETH_MIN_SIZE = 60"
definition ETHERCAT_HEADER_SIZE :: nat where [simp, reg_defs]: "ETHERCAT_HEADER_SIZE = 2"
definition MAX_ETHERCAT_DATAGRAMS :: nat where [simp, reg_defs]: "MAX_ETHERCAT_DATAGRAMS = 15"
definition DATAGRAM_HEADER_SIZE :: nat where [simp, reg_defs]: "DATAGRAM_HEADER_SIZE = 10"
definition MAILBOX_HEADER_SIZE :: nat where [simp, reg_defs]: "MAILBOX_HEADER_SIZE = 6"
definition COE_HEADER_SIZE :: nat where [simp, reg_defs]: "COE_HEADER_SIZE = 2"
definition SERVICE_DATA_SIZE :: nat where [simp, reg_defs]: "SERVICE_DATA_SIZE = 4"

text \<open>Host to network byte order, for the two widths the template accepts.\<close>

definition hton16 :: "u16 \<Rightarrow> u16" where
  "hton16 value = push_bit 8 value OR (drop_bit 8 value AND 0xff)"

definition hton32 :: "u32 \<Rightarrow> u32" where
  "hton32 value = push_bit 24 value OR (push_bit 8 value AND 0x00ff0000)
     OR (drop_bit 8 value AND 0x0000ff00) OR (drop_bit 24 value AND 0xff)"

definition ETH_ETHERCAT_TYPE :: u16 where
  "ETH_ETHERCAT_TYPE = hton16 0x88A4"

lemma ETH_ETHERCAT_TYPE_value [simp, reg_defs]: "ETH_ETHERCAT_TYPE = 0xA488"
  by (simp add: ETH_ETHERCAT_TYPE_def hton16_def)

text \<open>Integral promotions of the C++ helpers: the sum is computed wide and then truncated.\<close>

definition datagram_size :: "u16 \<Rightarrow> u16" where
  "datagram_size data_size = of_nat (DATAGRAM_HEADER_SIZE + unat data_size + 2)"

definition createAddress :: "u16 \<Rightarrow> u16 \<Rightarrow> u32" where
  "createAddress position offset = push_bit 16 (ucast offset) OR ucast position"

definition extractAddress :: "u32 \<Rightarrow> u16 \<times> u16" where
  "extractAddress address =
     (let offset = ucast (drop_bit 16 address); position = ucast (address AND 0xFFFF)
      in (position, offset))"

lemma extract_create: "extractAddress (createAddress p off) = (p, off)"
proof -
  have "ucast (drop_bit 16 (createAddress p off)) = off"
    unfolding createAddress_def by (rule bit_word_eqI) (auto simp: bit_simps bit_beyond)
  moreover have "ucast (createAddress p off AND 0xFFFF) = p"
  proof -
    have m: "(0xFFFF :: u32) = mask 16" by (simp add: mask_eq_exp_minus_1)
    show ?thesis
      unfolding createAddress_def m by (rule bit_word_eqI) (auto simp: bit_simps)
  qed
  ultimately show ?thesis by (simp add: extractAddress_def Let_def)
qed

lemma create_extract: "createAddress (fst (extractAddress a)) (snd (extractAddress a)) = a"
proof -
  have m: "(0xFFFF :: u32) = mask 16" by (simp add: mask_eq_exp_minus_1)
  show ?thesis
    unfolding createAddress_def extractAddress_def m Let_def fst_conv snd_conv
    by (rule bit_word_eqI) (auto simp: bit_simps not_less)
qed

lemma hton16_involution: "hton16 (hton16 v) = v"
proof -
  have m: "(0xff :: u16) = mask 8" by (simp add: mask_eq_exp_minus_1)
  show ?thesis
    unfolding hton16_def m by (rule bit_word_eqI) (auto simp: bit_simps not_less)
qed

lemma hton16_to_le: "le16 (hton16 v) = rev (le16 v)"
proof -
  have m: "(0xff :: u16) = mask 8" by (simp add: mask_eq_exp_minus_1)
  have "ucast (hton16 v) = (ucast (drop_bit 8 v) :: u8)"
    unfolding hton16_def m by (rule bit_word_eqI) (auto simp: bit_simps)
  moreover have "ucast (drop_bit 8 (hton16 v)) = (ucast v :: u8)"
    unfolding hton16_def m by (rule bit_word_eqI) (auto simp: bit_simps)
  ultimately show ?thesis by (simp add: to_le_2)
qed

section \<open>Commands\<close>

datatype Command = NOP | APRD | APWR | APRW | FPRD | FPWR | FPRW | BRD | BWR | BRW
  | LRD | LWR | LRW | ARMW | FRMW

fun command_code :: "Command \<Rightarrow> u8" where
  "command_code NOP = 0"
| "command_code APRD = 1"
| "command_code APWR = 2"
| "command_code APRW = 3"
| "command_code FPRD = 4"
| "command_code FPWR = 5"
| "command_code FPRW = 6"
| "command_code BRD = 7"
| "command_code BWR = 8"
| "command_code BRW = 9"
| "command_code LRD = 10"
| "command_code LWR = 11"
| "command_code LRW = 12"
| "command_code ARMW = 13"
| "command_code FRMW = 14"

text \<open>
  A received header may carry any byte as its command; the code only ever compares it with
  the enumerators. \<open>None\<close> stands for a byte that is no enumerator.
\<close>

definition all_commands :: "Command list" where
  "all_commands = [NOP, APRD, APWR, APRW, FPRD, FPWR, FPRW, BRD, BWR, BRW, LRD, LWR, LRW, ARMW, FRMW]"

definition command_of :: "u8 \<Rightarrow> Command option" where
  "command_of c = find (\<lambda>k. command_code k = c) all_commands"

lemma command_of_code [simp]: "command_of (command_code c) = Some c"
  by (cases c) (simp_all add: command_of_def all_commands_def)

lemma command_code_inject: "command_code a = command_code b \<longleftrightarrow> a = b"
  by (metis command_of_code option.inject)

section \<open>EtherCAT and datagram headers\<close>

record ethercat_header =
  eh_len :: "11 word"
  eh_reserved :: "1 word"
  eh_type :: "4 word"

definition enc_ethercat_header :: "ethercat_header \<Rightarrow> bytes" where
  [pack_defs]: "enc_ethercat_header h =
     le16 (ucast (eh_len h) OR push_bit 11 (ucast (eh_reserved h)) OR push_bit 12 (ucast (eh_type h)))"

definition dec_ethercat_header :: "bytes \<Rightarrow> ethercat_header" where
  [pack_defs]: "dec_ethercat_header bs =
     (let w = from_le bs :: u16
      in \<lparr>eh_len = ucast w, eh_reserved = ucast (drop_bit 11 w), eh_type = ucast (drop_bit 12 w)\<rparr>)"

lemma pack_11_1_4:
  "ucast (ucast (a :: 11 word) OR push_bit 11 (ucast (b :: 1 word)) OR push_bit 12 (ucast (c :: 4 word)) :: u16) = a"
  "ucast (drop_bit 11 (ucast a OR push_bit 11 (ucast b) OR push_bit 12 (ucast c) :: u16)) = b"
  "ucast (drop_bit 12 (ucast a OR push_bit 11 (ucast b) OR push_bit 12 (ucast c) :: u16)) = c"
  by (rule word_eq_by_bits; simp add: bitfield)+

lemma unpack_11_1_4:
  "ucast (ucast w :: 11 word) OR push_bit 11 (ucast (ucast (drop_bit 11 w) :: 1 word))
     OR push_bit 12 (ucast (ucast (drop_bit 12 w) :: 4 word)) = (w :: u16)"
  by (rule word_eq_by_bits) (simp add: bitfield)

interpretation eh: packed enc_ethercat_header dec_ethercat_header 2
  by unfold_locales (simp_all add: pack_defs Let_def pack_11_1_4 unpack_11_1_4 del: drop_bit_or)

lemma pack_11_3_1_1:
  fixes a :: "11 word" and b :: "3 word" and c :: "1 word" and d :: "1 word"
  shows
  "ucast (ucast a OR push_bit 11 (ucast b) OR push_bit 14 (ucast c) OR push_bit 15 (ucast d) :: u16) = a"
  "ucast (drop_bit 11 (ucast a OR push_bit 11 (ucast b) OR push_bit 14 (ucast c) OR push_bit 15 (ucast d) :: u16)) = b"
  "ucast (drop_bit 14 (ucast a OR push_bit 11 (ucast b) OR push_bit 14 (ucast c) OR push_bit 15 (ucast d) :: u16)) = c"
  "ucast (drop_bit 15 (ucast a OR push_bit 11 (ucast b) OR push_bit 14 (ucast c) OR push_bit 15 (ucast d) :: u16)) = d"
  by (rule word_eq_by_bits; simp add: bitfield)+

lemma unpack_11_3_1_1:
  "ucast (ucast w :: 11 word)
     OR push_bit 11 (ucast (ucast (drop_bit 11 w) :: 3 word))
     OR push_bit 14 (ucast (ucast (drop_bit 14 w) :: 1 word))
     OR push_bit 15 (ucast (ucast (drop_bit 15 w) :: 1 word)) = (w :: u16)"
  by (rule word_eq_by_bits) (simp add: bitfield)

record datagram_header =
  dg_command :: u8
  dg_index :: u8
  dg_address :: u32
  dg_len :: "11 word"
  dg_reserved :: "3 word"
  dg_circulating :: "1 word"
  dg_multiple :: "1 word"
  dg_irq :: u16

definition enc_datagram_header :: "datagram_header \<Rightarrow> bytes" where
  [pack_defs]: "enc_datagram_header h =
     [dg_command h]
     @ [dg_index h]
     @ le32 (dg_address h)
     @ le16 (ucast (dg_len h)
        OR push_bit 11 (ucast (dg_reserved h))
        OR push_bit 14 (ucast (dg_circulating h))
        OR push_bit 15 (ucast (dg_multiple h)))
     @ le16 (dg_irq h)"

definition dec_datagram_header :: "bytes \<Rightarrow> datagram_header" where
  [pack_defs]: "dec_datagram_header bs =
     (let w6 = get16 bs 6
      in \<lparr>dg_command = bs ! 0,
        dg_index = bs ! 1,
        dg_address = get32 bs 2,
        dg_len = ucast w6,
        dg_reserved = ucast (drop_bit 11 w6),
        dg_circulating = ucast (drop_bit 14 w6),
        dg_multiple = ucast (drop_bit 15 w6),
        dg_irq = get16 bs 8\<rparr>)"

interpretation dg: packed enc_datagram_header dec_datagram_header 10
  by unfold_locales
    (auto simp: pack_defs Let_def length_10 pack_11_3_1_1 unpack_11_3_1_1 nth_append peek_append_right peek_def
      simp del: drop_bit_or)

section \<open>Mailbox and CoE headers\<close>

lemma pack_6_2:
  fixes a :: "6 word" and b :: "2 word"
  shows
  "ucast (ucast a OR push_bit 6 (ucast b) :: u8) = a"
  "ucast (drop_bit 6 (ucast a OR push_bit 6 (ucast b) :: u8)) = b"
  by (rule word_eq_by_bits; simp add: bitfield)+

lemma unpack_6_2:
  "ucast (ucast w :: 6 word)
     OR push_bit 6 (ucast (ucast (drop_bit 6 w) :: 2 word)) = (w :: u8)"
  by (rule word_eq_by_bits) (simp add: bitfield)

lemma pack_4_3_1:
  fixes a :: "4 word" and b :: "3 word" and c :: "1 word"
  shows
  "ucast (ucast a OR push_bit 4 (ucast b) OR push_bit 7 (ucast c) :: u8) = a"
  "ucast (drop_bit 4 (ucast a OR push_bit 4 (ucast b) OR push_bit 7 (ucast c) :: u8)) = b"
  "ucast (drop_bit 7 (ucast a OR push_bit 4 (ucast b) OR push_bit 7 (ucast c) :: u8)) = c"
  by (rule word_eq_by_bits; simp add: bitfield)+

lemma unpack_4_3_1:
  "ucast (ucast w :: 4 word)
     OR push_bit 4 (ucast (ucast (drop_bit 4 w) :: 3 word))
     OR push_bit 7 (ucast (ucast (drop_bit 7 w) :: 1 word)) = (w :: u8)"
  by (rule word_eq_by_bits) (simp add: bitfield)

record mailbox_header =
  mh_len :: u16
  mh_address :: u16
  mh_channel :: "6 word"
  mh_priority :: "2 word"
  mh_type :: "4 word"
  mh_count :: "3 word"
  mh_reserved :: "1 word"

definition enc_mailbox_header :: "mailbox_header \<Rightarrow> bytes" where
  [pack_defs]: "enc_mailbox_header h =
     le16 (mh_len h)
     @ le16 (mh_address h)
     @ [ucast (mh_channel h)
        OR push_bit 6 (ucast (mh_priority h))]
     @ [ucast (mh_type h)
        OR push_bit 4 (ucast (mh_count h))
        OR push_bit 7 (ucast (mh_reserved h))]"

definition dec_mailbox_header :: "bytes \<Rightarrow> mailbox_header" where
  [pack_defs]: "dec_mailbox_header bs =
     (let w4 = bs ! 4; w5 = bs ! 5
      in \<lparr>mh_len = get16 bs 0,
        mh_address = get16 bs 2,
        mh_channel = ucast w4,
        mh_priority = ucast (drop_bit 6 w4),
        mh_type = ucast w5,
        mh_count = ucast (drop_bit 4 w5),
        mh_reserved = ucast (drop_bit 7 w5)\<rparr>)"

interpretation mh: packed enc_mailbox_header dec_mailbox_header 6
  by unfold_locales
    (auto simp: pack_defs Let_def length_6 pack_6_2 unpack_6_2 pack_4_3_1 unpack_4_3_1 nth_append peek_append_right peek_def
      simp del: drop_bit_or)

record mailbox_error =
  me_type :: u16
  me_detail :: u16

definition enc_mailbox_error :: "mailbox_error \<Rightarrow> bytes" where
  [pack_defs]: "enc_mailbox_error h =
     le16 (me_type h)
     @ le16 (me_detail h)"

definition dec_mailbox_error :: "bytes \<Rightarrow> mailbox_error" where
  [pack_defs]: "dec_mailbox_error bs =
     \<lparr>me_type = get16 bs 0,
        me_detail = get16 bs 2\<rparr>"

interpretation me: packed enc_mailbox_error dec_mailbox_error 4
  by unfold_locales
    (auto simp: pack_defs Let_def length_4  nth_append peek_append_right peek_def
      simp del: drop_bit_or)

lemma pack_9_3_4:
  fixes a :: "9 word" and b :: "3 word" and c :: "4 word"
  shows
  "ucast (ucast a OR push_bit 9 (ucast b) OR push_bit 12 (ucast c) :: u16) = a"
  "ucast (drop_bit 9 (ucast a OR push_bit 9 (ucast b) OR push_bit 12 (ucast c) :: u16)) = b"
  "ucast (drop_bit 12 (ucast a OR push_bit 9 (ucast b) OR push_bit 12 (ucast c) :: u16)) = c"
  by (rule word_eq_by_bits; simp add: bitfield)+

lemma unpack_9_3_4:
  "ucast (ucast w :: 9 word)
     OR push_bit 9 (ucast (ucast (drop_bit 9 w) :: 3 word))
     OR push_bit 12 (ucast (ucast (drop_bit 12 w) :: 4 word)) = (w :: u16)"
  by (rule word_eq_by_bits) (simp add: bitfield)

record coe_header =
  coe_number :: "9 word"
  coe_reserved :: "3 word"
  coe_service :: "4 word"

definition enc_coe_header :: "coe_header \<Rightarrow> bytes" where
  [pack_defs]: "enc_coe_header h =
     le16 (ucast (coe_number h)
        OR push_bit 9 (ucast (coe_reserved h))
        OR push_bit 12 (ucast (coe_service h)))"

definition dec_coe_header :: "bytes \<Rightarrow> coe_header" where
  [pack_defs]: "dec_coe_header bs =
     (let w0 = get16 bs 0
      in \<lparr>coe_number = ucast w0,
        coe_reserved = ucast (drop_bit 9 w0),
        coe_service = ucast (drop_bit 12 w0)\<rparr>)"

interpretation coe: packed enc_coe_header dec_coe_header 2
  by unfold_locales (simp_all add: pack_defs Let_def pack_9_3_4 unpack_9_3_4 peek_def del: drop_bit_or)

lemma pack_1_1_2_1_3:
  fixes a :: "1 word" and b :: "1 word" and c :: "2 word" and d :: "1 word" and e :: "3 word"
  shows
  "ucast (ucast a OR push_bit 1 (ucast b) OR push_bit 2 (ucast c) OR push_bit 4 (ucast d) OR push_bit 5 (ucast e) :: u8) = a"
  "ucast (drop_bit 1 (ucast a OR push_bit 1 (ucast b) OR push_bit 2 (ucast c) OR push_bit 4 (ucast d) OR push_bit 5 (ucast e) :: u8)) = b"
  "ucast (drop_bit 2 (ucast a OR push_bit 1 (ucast b) OR push_bit 2 (ucast c) OR push_bit 4 (ucast d) OR push_bit 5 (ucast e) :: u8)) = c"
  "ucast (drop_bit 4 (ucast a OR push_bit 1 (ucast b) OR push_bit 2 (ucast c) OR push_bit 4 (ucast d) OR push_bit 5 (ucast e) :: u8)) = d"
  "ucast (drop_bit 5 (ucast a OR push_bit 1 (ucast b) OR push_bit 2 (ucast c) OR push_bit 4 (ucast d) OR push_bit 5 (ucast e) :: u8)) = e"
  by (rule word_eq_by_bits; simp add: bitfield del: One_nat_def push_bit_Suc)+

lemma unpack_1_1_2_1_3:
  "ucast (ucast w :: 1 word)
     OR push_bit 1 (ucast (ucast (drop_bit 1 w) :: 1 word))
     OR push_bit 2 (ucast (ucast (drop_bit 2 w) :: 2 word))
     OR push_bit 4 (ucast (ucast (drop_bit 4 w) :: 1 word))
     OR push_bit 5 (ucast (ucast (drop_bit 5 w) :: 3 word)) = (w :: u8)"
  by (rule word_eq_by_bits) (simp add: bitfield del: One_nat_def push_bit_Suc, simp add: numeral_2_eq_2 numeral_3_eq_3)

record service_data =
  sd_size_indicator :: "1 word"
  sd_transfer_type :: "1 word"
  sd_block_size :: "2 word"
  sd_complete_access :: "1 word"
  sd_command :: "3 word"
  sd_index :: u16
  sd_subindex :: u8

definition enc_service_data :: "service_data \<Rightarrow> bytes" where
  [pack_defs]: "enc_service_data h =
     [ucast (sd_size_indicator h)
        OR push_bit 1 (ucast (sd_transfer_type h))
        OR push_bit 2 (ucast (sd_block_size h))
        OR push_bit 4 (ucast (sd_complete_access h))
        OR push_bit 5 (ucast (sd_command h))]
     @ le16 (sd_index h)
     @ [sd_subindex h]"

definition dec_service_data :: "bytes \<Rightarrow> service_data" where
  [pack_defs]: "dec_service_data bs =
     (let w0 = bs ! 0
      in \<lparr>sd_size_indicator = ucast w0,
        sd_transfer_type = ucast (drop_bit 1 w0),
        sd_block_size = ucast (drop_bit 2 w0),
        sd_complete_access = ucast (drop_bit 4 w0),
        sd_command = ucast (drop_bit 5 w0),
        sd_index = get16 bs 1,
        sd_subindex = bs ! 3\<rparr>)"

interpretation sd: packed enc_service_data dec_service_data 4
  by unfold_locales
    (auto simp: pack_defs Let_def length_4 pack_1_1_2_1_3 unpack_1_1_2_1_3 nth_append peek_append_right peek_def drop_Cons'
      simp del: drop_bit_or One_nat_def push_bit_Suc)

lemma pack_7_1_8:
  fixes a :: "7 word" and b :: "1 word" and c :: "8 word"
  shows
  "ucast (ucast a OR push_bit 7 (ucast b) OR push_bit 8 (ucast c) :: u16) = a"
  "ucast (drop_bit 7 (ucast a OR push_bit 7 (ucast b) OR push_bit 8 (ucast c) :: u16)) = b"
  "ucast (drop_bit 8 (ucast a OR push_bit 7 (ucast b) OR push_bit 8 (ucast c) :: u16)) = c"
  by (rule word_eq_by_bits; simp add: bitfield)+

lemma unpack_7_1_8:
  "ucast (ucast w :: 7 word)
     OR push_bit 7 (ucast (ucast (drop_bit 7 w) :: 1 word))
     OR push_bit 8 (ucast (ucast (drop_bit 8 w) :: 8 word)) = (w :: u16)"
  by (rule word_eq_by_bits) (simp add: bitfield)

record service_data_info =
  si_opcode :: "7 word"
  si_incomplete :: "1 word"
  si_reserved :: "8 word"
  si_fragments_left :: u16

definition enc_service_data_info :: "service_data_info \<Rightarrow> bytes" where
  [pack_defs]: "enc_service_data_info h =
     le16 (ucast (si_opcode h)
        OR push_bit 7 (ucast (si_incomplete h))
        OR push_bit 8 (ucast (si_reserved h)))
     @ le16 (si_fragments_left h)"

definition dec_service_data_info :: "bytes \<Rightarrow> service_data_info" where
  [pack_defs]: "dec_service_data_info bs =
     (let w0 = get16 bs 0
      in \<lparr>si_opcode = ucast w0,
        si_incomplete = ucast (drop_bit 7 w0),
        si_reserved = ucast (drop_bit 8 w0),
        si_fragments_left = get16 bs 2\<rparr>)"

interpretation si: packed enc_service_data_info dec_service_data_info 4
  by unfold_locales
    (auto simp: pack_defs Let_def length_4 pack_7_1_8 unpack_7_1_8 nth_append peek_append_right peek_def
      simp del: drop_bit_or)

section \<open>ESC registers and SII entries\<close>

record sm_register =
  sm_start_address :: u16
  sm_length :: u16
  sm_control :: u8
  sm_status :: u8
  sm_activate :: u8
  sm_pdi_control :: u8

definition enc_sm_register :: "sm_register \<Rightarrow> bytes" where
  [pack_defs]: "enc_sm_register h =
     le16 (sm_start_address h)
     @ le16 (sm_length h)
     @ [sm_control h]
     @ [sm_status h]
     @ [sm_activate h]
     @ [sm_pdi_control h]"

definition dec_sm_register :: "bytes \<Rightarrow> sm_register" where
  [pack_defs]: "dec_sm_register bs =
     \<lparr>sm_start_address = get16 bs 0,
        sm_length = get16 bs 2,
        sm_control = bs ! 4,
        sm_status = bs ! 5,
        sm_activate = bs ! 6,
        sm_pdi_control = bs ! 7\<rparr>"

interpretation sm: packed enc_sm_register dec_sm_register 8
  by unfold_locales
    (auto simp: pack_defs Let_def length_8  nth_append peek_append_right peek_def
      simp del: drop_bit_or)

record fmmu_register =
  fm_logical_address :: u32
  fm_length :: u16
  fm_logical_start_bit :: u8
  fm_logical_stop_bit :: u8
  fm_physical_address :: u16
  fm_physical_start_bit :: u8
  fm_type :: u8
  fm_activate :: u8
  fm_reserved0 :: u8
  fm_reserved1 :: u8
  fm_reserved2 :: u8

definition enc_fmmu_register :: "fmmu_register \<Rightarrow> bytes" where
  [pack_defs]: "enc_fmmu_register h =
     le32 (fm_logical_address h)
     @ le16 (fm_length h)
     @ [fm_logical_start_bit h]
     @ [fm_logical_stop_bit h]
     @ le16 (fm_physical_address h)
     @ [fm_physical_start_bit h]
     @ [fm_type h]
     @ [fm_activate h]
     @ [fm_reserved0 h]
     @ [fm_reserved1 h]
     @ [fm_reserved2 h]"

definition dec_fmmu_register :: "bytes \<Rightarrow> fmmu_register" where
  [pack_defs]: "dec_fmmu_register bs =
     \<lparr>fm_logical_address = get32 bs 0,
        fm_length = get16 bs 4,
        fm_logical_start_bit = bs ! 6,
        fm_logical_stop_bit = bs ! 7,
        fm_physical_address = get16 bs 8,
        fm_physical_start_bit = bs ! 10,
        fm_type = bs ! 11,
        fm_activate = bs ! 12,
        fm_reserved0 = bs ! 13,
        fm_reserved1 = bs ! 14,
        fm_reserved2 = bs ! 15\<rparr>"

interpretation fm: packed enc_fmmu_register dec_fmmu_register 16
  by unfold_locales
    (auto simp: pack_defs Let_def length_16  nth_append peek_append_right peek_def
      simp del: drop_bit_or)

record sm_entry =
  se_start_address :: u16
  se_length :: u16
  se_control_register :: u8
  se_status_register :: u8
  se_enable :: u8
  se_type :: u8

definition enc_sm_entry :: "sm_entry \<Rightarrow> bytes" where
  [pack_defs]: "enc_sm_entry h =
     le16 (se_start_address h)
     @ le16 (se_length h)
     @ [se_control_register h]
     @ [se_status_register h]
     @ [se_enable h]
     @ [se_type h]"

definition dec_sm_entry :: "bytes \<Rightarrow> sm_entry" where
  [pack_defs]: "dec_sm_entry bs =
     \<lparr>se_start_address = get16 bs 0,
        se_length = get16 bs 2,
        se_control_register = bs ! 4,
        se_status_register = bs ! 5,
        se_enable = bs ! 6,
        se_type = bs ! 7\<rparr>"

interpretation se: packed enc_sm_entry dec_sm_entry 8
  by unfold_locales
    (auto simp: pack_defs Let_def length_8  nth_append peek_append_right peek_def
      simp del: drop_bit_or)

record pdo_entry =
  pe_index :: u16
  pe_subindex :: u8
  pe_name :: u8
  pe_data_type :: u8
  pe_bitlen :: u8
  pe_flags :: u16

definition enc_pdo_entry :: "pdo_entry \<Rightarrow> bytes" where
  [pack_defs]: "enc_pdo_entry h =
     le16 (pe_index h)
     @ [pe_subindex h]
     @ [pe_name h]
     @ [pe_data_type h]
     @ [pe_bitlen h]
     @ le16 (pe_flags h)"

definition dec_pdo_entry :: "bytes \<Rightarrow> pdo_entry" where
  [pack_defs]: "dec_pdo_entry bs =
     \<lparr>pe_index = get16 bs 0,
        pe_subindex = bs ! 2,
        pe_name = bs ! 3,
        pe_data_type = bs ! 4,
        pe_bitlen = bs ! 5,
        pe_flags = get16 bs 6\<rparr>"

interpretation pe: packed enc_pdo_entry dec_pdo_entry 8
  by unfold_locales
    (auto simp: pack_defs Let_def length_8  nth_append peek_append_right peek_def
      simp del: drop_bit_or)

end
