(* ===== verification/Frames.thy ===== *)
theory Frames
  imports Wire "HOL-Library.Monad_Syntax"
begin

text \<open>
  The Ethernet frame of \<open>lib/include/kickcat/Frame.h\<close> and \<open>lib/src/Frame.cc\<close>.

  A \<open>frame\<close> record is the object: the raw Ethernet buffer, the pointers \<open>last_datagram_\<close> and
  \<open>next_datagram_\<close> as offsets into it (the second may be null), the datagram counter and the
  availability flag. Every operation returns an option: \<open>None\<close> is an access outside the
  buffer or through a null pointer, i.e. undefined behaviour of the C++ code. Sockets are not
  part of the model: \<open>readFrame\<close> takes what \<open>socket.read\<close> returned and wrote, \<open>writeFrame\<close> takes
  \<open>socket.write\<close> as a function.

  The abstraction is a list of datagrams (\<open>carries\<close>): writing appends to it without ever
  leaving the buffer, finalizing keeps it, and reading back yields exactly that list.
\<close>

section \<open>The frame object\<close>

record frame =
  fr_data :: bytes
  fr_last :: nat
  fr_next :: "nat option"
  fr_counter :: nat
  fr_available :: bool

definition FIRST_DATAGRAM :: nat where
  [simp]: "FIRST_DATAGRAM = ETH_HEADER_SIZE + ETHERCAT_HEADER_SIZE"

definition frame_header :: "frame \<Rightarrow> ethercat_header" where
  "frame_header f = dec_ethercat_header (peek (fr_data f) ETH_HEADER_SIZE 2)"

definition set_frame_header :: "ethercat_header \<Rightarrow> frame \<Rightarrow> frame" where
  "set_frame_header h f = f\<lparr>fr_data := poke (fr_data f) ETH_HEADER_SIZE (enc_ethercat_header h)\<rparr>"

definition resetContext :: "frame \<Rightarrow> frame" where
  "resetContext f = f\<lparr>fr_next := Some FIRST_DATAGRAM, fr_last := FIRST_DATAGRAM,
     fr_counter := 0, fr_available := False\<rparr>"

definition Frame_new :: frame where
  "Frame_new =
     (let b0 = replicate ETH_MAX_SIZE 0;
          b1 = poke b0 0 (replicate 6 0xFF);
          b2 = poke b1 12 (le16 ETH_ETHERCAT_TYPE);
          h = dec_ethercat_header (peek b2 ETH_HEADER_SIZE 2);
          b3 = poke b2 ETH_HEADER_SIZE (enc_ethercat_header (h\<lparr>eh_type := 1, eh_len := 0\<rparr>))
      in resetContext \<lparr>fr_data = b3, fr_last = 0, fr_next = None, fr_counter = 0, fr_available = False\<rparr>)"

text \<open>
  Building a frame from received bytes. The storage of the object is not initialised before
  the copy: its content \<open>junk\<close> (of the size of the frame) is a parameter.
\<close>

definition Frame_of :: "bytes \<Rightarrow> bytes \<Rightarrow> frame option" where
  "Frame_of junk data = do {
     b \<leftarrow> mem_write junk 0 data;
     Some ((resetContext \<lparr>fr_data = b, fr_last = 0, fr_next = None, fr_counter = 0,
       fr_available = False\<rparr>)\<lparr>fr_available := True\<rparr>)
   }"

definition clear :: "frame \<Rightarrow> frame" where
  "clear f = set_frame_header ((frame_header f)\<lparr>eh_len := 0\<rparr>) f"

definition setIsDatagramAvailable :: "frame \<Rightarrow> frame" where
  "setIsDatagramAvailable f = f\<lparr>fr_available := True\<rparr>"

definition setSourceMAC :: "bytes \<Rightarrow> frame \<Rightarrow> frame" where
  "setSourceMAC src f = f\<lparr>fr_data := poke (fr_data f) 6 (take 6 src)\<rparr>"

text \<open>The arithmetic on the null pointer is undefined behaviour, hence the option.\<close>

definition freeSpace :: "frame \<Rightarrow> int option" where
  "freeSpace f = (case fr_next f of None \<Rightarrow> None
     | Some next \<Rightarrow> Some (int ETH_MTU_SIZE - int ETHERCAT_HEADER_SIZE - (int next - int FIRST_DATAGRAM)))"

definition isFull :: "frame \<Rightarrow> bool option" where
  "isFull f =
     (if fr_counter f \<ge> MAX_ETHERCAT_DATAGRAMS then Some True
      else do { space \<leftarrow> freeSpace f; Some (space < int (unat (datagram_size 0))) })"

section \<open>Adding datagrams\<close>

text \<open>
  What \<open>addDatagram\<close> copies after the header, for a non-empty payload: read-only commands
  clear the area, the read-multiple-write ones keep the caller's data when there is some, all
  the others copy it. A null source or one that is too short is undefined behaviour.
\<close>

definition copy_source :: "bytes option \<Rightarrow> nat \<Rightarrow> bytes option" where
  "copy_source data n = do { d \<leftarrow> data; mem_read d 0 n }"

fun datagram_payload :: "Command \<Rightarrow> bytes option \<Rightarrow> nat \<Rightarrow> bytes option" where
  "datagram_payload NOP data n = Some (replicate n 0)"
| "datagram_payload BRD data n = Some (replicate n 0)"
| "datagram_payload APRD data n = Some (replicate n 0)"
| "datagram_payload FPRD data n = Some (replicate n 0)"
| "datagram_payload LRD data n = Some (replicate n 0)"
| "datagram_payload FRMW data n = (if data = None then Some (replicate n 0) else copy_source data n)"
| "datagram_payload ARMW data n = (if data = None then Some (replicate n 0) else copy_source data n)"
| "datagram_payload _ data n = copy_source data n"

definition addDatagram :: "u8 \<Rightarrow> Command \<Rightarrow> u32 \<Rightarrow> bytes option \<Rightarrow> u16 \<Rightarrow> frame \<Rightarrow> frame option" where
  "addDatagram index command address data data_size f = do {
     next \<leftarrow> fr_next f;
     raw \<leftarrow> mem_read (fr_data f) next DATAGRAM_HEADER_SIZE;
     let header = (dec_datagram_header raw)\<lparr>
           dg_index := index, dg_command := command_code command, dg_address := address,
           dg_len := ucast (data_size AND 0x7ff), dg_circulating := 0, dg_multiple := 1, dg_irq := 0\<rparr>;
     b1 \<leftarrow> mem_write (fr_data f) next (enc_datagram_header header);
     let pos = next + DATAGRAM_HEADER_SIZE;
     b2 \<leftarrow> (if data_size > 0
            then do { payload \<leftarrow> datagram_payload command data (unat data_size);
                      mem_write b1 pos payload }
            else Some b1);
     let pos = pos + unat data_size;
     b3 \<leftarrow> mem_write b2 pos [0, 0];
     let g = f\<lparr>fr_data := b3\<rparr>;
     let eh = frame_header g;
     let g = set_frame_header (eh\<lparr>eh_len := eh_len eh + ucast (of_nat (DATAGRAM_HEADER_SIZE + unat data_size + 2) AND 0x7ff :: u32)\<rparr>) g;
     Some (g\<lparr>fr_last := next, fr_next := Some (pos + 2), fr_counter := Suc (fr_counter f)\<rparr>)
   }"

definition finalize :: "frame \<Rightarrow> (nat \<times> frame) option" where
  "finalize f = do {
     raw \<leftarrow> mem_read (fr_data f) (fr_last f) DATAGRAM_HEADER_SIZE;
     b1 \<leftarrow> mem_write (fr_data f) (fr_last f)
            (enc_datagram_header ((dec_datagram_header raw)\<lparr>dg_multiple := 0\<rparr>));
     let pos = fr_next f;
     let g = resetContext (f\<lparr>fr_data := b1\<rparr>);
     let to_write = unat (eh_len (frame_header g)) + ETH_HEADER_SIZE + ETHERCAT_HEADER_SIZE;
     if to_write < ETH_MIN_SIZE
     then do {
       p \<leftarrow> pos;
       b2 \<leftarrow> mem_write (fr_data g) p (replicate (ETH_MIN_SIZE - to_write) 0);
       Some (ETH_MIN_SIZE, g\<lparr>fr_data := b2\<rparr>)
     }
     else Some (to_write, g)
   }"

section \<open>Reading datagrams\<close>

text \<open>
  The returned pointers are offsets into the frame: the callers read, and on the redundant
  link also write, through them.
\<close>

definition datagram_at :: "frame \<Rightarrow> nat \<Rightarrow> datagram_header" where
  "datagram_at f pos = dec_datagram_header (peek (fr_data f) pos DATAGRAM_HEADER_SIZE)"

definition nextDatagram :: "frame \<Rightarrow> ((nat \<times> nat \<times> u16) \<times> frame) option" where
  "nextDatagram f = do {
     next \<leftarrow> fr_next f;
     raw \<leftarrow> mem_read (fr_data f) next DATAGRAM_HEADER_SIZE;
     let header = dec_datagram_header raw;
     let data = next + DATAGRAM_HEADER_SIZE;
     let wkc_addr = data + unat (dg_len header);
     wkc \<leftarrow> mem_read (fr_data f) wkc_addr 2;
     let g = f\<lparr>fr_next := Some (wkc_addr + 2)\<rparr>;
     let g = (if dg_multiple header = 0 then resetContext g else g);
     Some ((next, data, from_le wkc), g)
   }"

definition peekDatagram :: "frame \<Rightarrow> ((nat \<times> nat \<times> nat) option \<times> frame) option" where
  "peekDatagram f = (case fr_next f of
     None \<Rightarrow> Some (None, f)
   | Some next \<Rightarrow> do {
       raw \<leftarrow> mem_read (fr_data f) next DATAGRAM_HEADER_SIZE;
       let header = dec_datagram_header raw;
       let data = next + DATAGRAM_HEADER_SIZE;
       let wkc = data + unat (dg_len header);
       let g = f\<lparr>fr_next := Some (wkc + 2)\<rparr>;
       let g = (if dg_multiple header = 0 then g\<lparr>fr_next := None\<rparr> else g);
       Some (Some (next, data, wkc), g)
     })"

section \<open>Reading and writing on a socket\<close>

definition ENOMSG :: int where [simp]: "ENOMSG = 42"
definition EIO :: int where [simp]: "EIO = 5"

text \<open>\<open>ret\<close> is the value \<open>socket.read\<close> returned, \<open>received\<close> the bytes it stored in the buffer.\<close>

definition readFrame :: "int \<Rightarrow> bytes \<Rightarrow> frame \<Rightarrow> (int \<times> frame) option" where
  "readFrame ret received f = do {
     b \<leftarrow> mem_write (fr_data f) 0 received;
     let g = f\<lparr>fr_data := b\<rparr>;
     if ret < 0 then Some (ret, g)
     else if ret = 0 then Some (ret, g)
     else if get16 b 12 \<noteq> ETH_ETHERCAT_TYPE then Some (- ENOMSG, g)
     else do {
       let expected = unat (eh_len (frame_header g)) + ETH_HEADER_SIZE + ETHERCAT_HEADER_SIZE;
       let g = clear g;
       let expected = (if expected < ETH_MIN_SIZE then ETH_MIN_SIZE else expected);
       if ret \<noteq> int expected then Some (- EIO, g)
       else Some (ret, setIsDatagramAvailable g)
     }
   }"

definition writeFrame :: "(bytes \<Rightarrow> int) \<Rightarrow> bytes \<Rightarrow> frame \<Rightarrow> (int \<times> frame) option" where
  "writeFrame write src f = do {
     (toWrite, g) \<leftarrow> finalize (setSourceMAC src f);
     let written = write (take toWrite (fr_data g));
     let g = clear g;
     if written < 0 then Some (written, g)
     else if written \<noteq> int toWrite then Some (- EIO, g)
     else Some (written, g)
   }"

section \<open>The datagrams a frame carries\<close>

record dgram =
  d_header :: datagram_header
  d_payload :: bytes
  d_wkc :: u16

definition enc_dgram :: "dgram \<Rightarrow> bytes" where
  "enc_dgram d = enc_datagram_header (d_header d) @ d_payload d @ le16 (d_wkc d)"

definition wf_dgram :: "dgram \<Rightarrow> bool" where
  "wf_dgram d \<longleftrightarrow> length (d_payload d) = unat (dg_len (d_header d))"

definition layout :: "dgram list \<Rightarrow> bytes" where
  "layout ds = concat (map enc_dgram ds)"

text \<open>
  \<open>carries f ds\<close>: the frame is being filled, it holds exactly the datagrams \<open>ds\<close>, all of them
  marked as followed by another one, and its pointers, its counter and the length in its
  EtherCAT header agree with them.
\<close>

definition carries :: "frame \<Rightarrow> dgram list \<Rightarrow> bool" where
  "carries f ds \<longleftrightarrow>
     length (fr_data f) = ETH_MAX_SIZE \<and> at (fr_data f) FIRST_DATAGRAM (layout ds)
     \<and> at (fr_data f) 12 (le16 ETH_ETHERCAT_TYPE)
     \<and> fr_next f = Some (FIRST_DATAGRAM + length (layout ds))
     \<and> fr_last f = FIRST_DATAGRAM + length (layout (butlast ds))
     \<and> fr_counter f = length ds
     \<and> list_all wf_dgram ds \<and> list_all (\<lambda>d. dg_multiple (d_header d) = 1) ds
     \<and> unat (eh_len (frame_header f)) = length (layout ds)
     \<and> ETHERCAT_HEADER_SIZE + length (layout ds) \<le> ETH_MTU_SIZE"

lemma layout_simps [simp]:
  "layout [] = []" "layout (d # ds) = enc_dgram d @ layout ds" "layout (ds @ es) = layout ds @ layout es"
  by (simp_all add: layout_def)

lemma length_enc_dgram [simp]: "length (enc_dgram d) = 12 + length (d_payload d)"
  by (simp add: enc_dgram_def dg.length_enc)

lemma frame_header_poke_beyond:
  assumes "16 \<le> off" and "off + length d \<le> length (fr_data f)"
  shows "frame_header (f\<lparr>fr_data := poke (fr_data f) off d\<rparr>) = frame_header f"
  using assms by (simp add: frame_header_def peek_poke_before)

lemma frame_header_set [simp]:
  "16 \<le> length (fr_data f) \<Longrightarrow> frame_header (set_frame_header h f) = h"
  by (simp add: frame_header_def set_frame_header_def eh.read_back)

lemma frame_header_cong:
  "peek (fr_data f) 14 2 = peek (fr_data g) 14 2 \<Longrightarrow> frame_header f = frame_header g"
  by (simp add: frame_header_def)

lemma data_set_frame_header [simp]:
  "16 \<le> length (fr_data f) \<Longrightarrow> length (fr_data (set_frame_header h f)) = length (fr_data f)"
  by (simp add: set_frame_header_def eh.length_enc)

lemma at_set_frame_header:
  "at (fr_data f) off xs \<Longrightarrow> 16 \<le> off \<Longrightarrow> at (fr_data (set_frame_header h f)) off xs"
  unfolding set_frame_header_def
  by (auto simp: eh.length_enc dest: at_bound intro!: at_poke_disjoint)

lemma at_before_set_frame_header:
  "at (fr_data f) off xs \<Longrightarrow> off + length xs \<le> 14 \<Longrightarrow> 16 \<le> length (fr_data f)
    \<Longrightarrow> at (fr_data (set_frame_header h f)) off xs"
  unfolding set_frame_header_def by (auto simp: eh.length_enc intro!: at_poke_disjoint)

lemma set_frame_header_select [simp]:
  "fr_next (set_frame_header h f) = fr_next f" "fr_last (set_frame_header h f) = fr_last f"
  "fr_counter (set_frame_header h f) = fr_counter f"
  "fr_available (set_frame_header h f) = fr_available f"
  by (simp_all add: set_frame_header_def)

lemma carries_new: "carries Frame_new []"
proof -
  let ?b = "poke (poke (replicate 1518 (0 :: u8)) 0 (replicate 6 0xFF)) 12 (le16 ETH_ETHERCAT_TYPE)"
  have "length (fr_data Frame_new) = 1518"
    by (simp add: Frame_new_def resetContext_def eh.length_enc Let_def)
  moreover have "frame_header Frame_new = (dec_ethercat_header (peek ?b 14 2))\<lparr>eh_type := 1, eh_len := 0\<rparr>"
    by (simp add: frame_header_def Frame_new_def resetContext_def eh.read_back Let_def)
  moreover have "at (fr_data Frame_new) 12 (le16 ETH_ETHERCAT_TYPE)"
    by (auto simp: Frame_new_def resetContext_def Let_def eh.length_enc
        intro!: at_poke_disjoint at_poke_same)
  ultimately show ?thesis
    by (simp add: carries_def Frame_new_def resetContext_def Let_def)
qed

text \<open>The checks of \<open>addDatagram\<close> on its source operand, and the size they give.\<close>

definition payload_of :: "Command \<Rightarrow> bytes option \<Rightarrow> u16 \<Rightarrow> bytes option" where
  "payload_of command data data_size =
     (if data_size > 0 then datagram_payload command data (unat data_size) else Some [])"

lemma length_datagram_payload:
  "datagram_payload c data n = Some p \<Longrightarrow> length p = n"
  by (cases c; auto simp: copy_source_def mem_read_eq_Some_iff bind_eq_Some_conv split: if_splits)

lemma length_payload_of: "payload_of c data n = Some p \<Longrightarrow> length p = unat n"
  by (auto simp: payload_of_def word_neq_0_conv [symmetric] dest: length_datagram_payload split: if_splits)

definition added_header :: "frame \<Rightarrow> u8 \<Rightarrow> Command \<Rightarrow> u32 \<Rightarrow> u16 \<Rightarrow> datagram_header" where
  "added_header f index command address data_size =
     (datagram_at f (the (fr_next f)))\<lparr>
       dg_index := index, dg_command := command_code command, dg_address := address,
       dg_len := ucast (data_size AND 0x7ff), dg_circulating := 0, dg_multiple := 1, dg_irq := 0\<rparr>"

text \<open>One call of \<open>addDatagram\<close>, all its copies merged into one write of the encoded datagram.\<close>

lemma poke_poke_adjacent:
  assumes "off + length xs + length ys \<le> length b" and "off' = off + length xs"
  shows "poke (poke b off xs) off' ys = poke b off (xs @ ys)"
  using assms by (simp add: poke_def ac_simps)

lemma addDatagram_merged:
  assumes nxt: "fr_next f = Some pos" and size: "length (fr_data f) = ETH_MAX_SIZE"
    and payload: "payload_of command data n = Some p"
    and fit: "pos + 12 + unat n \<le> ETH_MAX_SIZE" and beyond: "16 \<le> pos"
  shows "addDatagram index command address data n f =
    (let d = \<lparr>d_header = added_header f index command address n, d_payload = p, d_wkc = 0\<rparr>;
         g = f\<lparr>fr_data := poke (fr_data f) pos (enc_dgram d)\<rparr>;
         eh = frame_header f
     in Some ((set_frame_header (eh\<lparr>eh_len := eh_len eh + ucast (of_nat (12 + unat n) AND 0x7ff :: u32)\<rparr>) g)
          \<lparr>fr_last := pos, fr_next := Some (pos + 12 + unat n), fr_counter := Suc (fr_counter f)\<rparr>))"
proof -
  let ?h = "added_header f index command address n"
  have len_p: "length p = unat n" using payload by (rule length_payload_of)
  have zero: "[0, 0] = le16 (0 :: u16)" by (simp add: to_le_2)
  let ?b1 = "poke (fr_data f) pos (enc_datagram_header ?h)"
  have b2: "(if n > 0 then do { payload \<leftarrow> datagram_payload command data (unat n);
        mem_write ?b1 (pos + 10) payload } else Some ?b1) = Some (poke ?b1 (pos + 10) p)"
    using payload fit size len_p
    by (auto simp: payload_of_def dg.length_enc split: if_splits)
  have b3: "mem_write (poke ?b1 (pos + 10) p) (pos + 10 + unat n) (le16 0)
      = Some (poke (fr_data f) pos (enc_dgram \<lparr>d_header = ?h, d_payload = p, d_wkc = 0\<rparr>))"
    using fit size len_p
    by (simp add: dg.length_enc poke_poke_adjacent enc_dgram_def)
  have hdr: "frame_header (f\<lparr>fr_data := poke (fr_data f) pos (enc_dgram d)\<rparr>) = frame_header f"
    if "length (d_payload d) = unat n" for d
    using that fit size beyond by (intro frame_header_poke_beyond) simp_all
  have raw: "mem_read (fr_data f) pos 10 = Some (peek (fr_data f) pos 10)"
    using fit size by simp
  have h: "(dec_datagram_header (peek (fr_data f) pos 10))\<lparr>
      dg_index := index, dg_command := command_code command, dg_address := address,
      dg_len := ucast (n AND 0x7ff), dg_circulating := 0, dg_multiple := 1, dg_irq := 0\<rparr> = ?h"
    using nxt by (simp add: added_header_def datagram_at_def)
  have b1: "mem_write (fr_data f) pos (enc_datagram_header ?h) = Some ?b1"
    using fit size by (simp add: dg.length_enc)
  have sums: "10 + unat n + 2 = 12 + unat n" "pos + 10 + unat n + 2 = pos + 12 + unat n" by simp_all
  show ?thesis
    unfolding addDatagram_def zero nxt raw DATAGRAM_HEADER_SIZE_def Option.bind.simps h Let_def b1 b2 b3 sums
    using hdr [of "\<lparr>d_header = ?h, d_payload = p, d_wkc = 0\<rparr>"] len_p by simp
qed


section \<open>Filling a frame\<close>

lemma len_field:
  assumes "unat (n :: u16) < 2048"
  shows "unat (ucast (n AND 0x7ff) :: 11 word) = unat n"
proof -
  have m: "(0x7ff :: u16) = mask 11" by (simp add: mask_eq_exp_minus_1)
  have "(ucast (n AND 0x7ff) :: 11 word) = ucast n"
    unfolding m by (rule bit_word_eqI) (auto simp: bit_simps)
  then show ?thesis
    using assms by (simp add: unsigned_ucast_eq take_bit_nat_eq_self)
qed

lemma len_increment:
  assumes "k < 2048"
  shows "unat (ucast (of_nat k AND 0x7ff :: u32) :: 11 word) = k"
proof -
  have m: "(0x7ff :: u32) = mask 11" by (simp add: mask_eq_exp_minus_1)
  have "(ucast (of_nat k AND 0x7ff :: u32) :: 11 word) = ucast (of_nat k :: u32)"
    unfolding m by (rule bit_word_eqI) (auto simp: bit_simps)
  moreover have "unat (of_nat k :: u32) = k"
    using assms by (simp add: unat_of_nat take_bit_nat_eq_self)
  ultimately show ?thesis
    using assms by (simp add: unsigned_ucast_eq take_bit_nat_eq_self)
qed

lemma carries_freeSpace:
  "carries f ds \<Longrightarrow> freeSpace f = Some (1498 - int (length (layout ds)))"
  by (auto simp: carries_def freeSpace_def FIRST_DATAGRAM_def)

lemma carries_add:
  fixes index :: u8 and address :: u32
  assumes c: "carries f ds" and payload: "payload_of command data n = Some p"
    and fit: "length (layout ds) + 12 + unat n \<le> 1498"
  defines "d \<equiv> \<lparr>d_header = added_header f index command address n, d_payload = p, d_wkc = 0\<rparr>"
  shows "\<exists>f'. addDatagram index command address data n f = Some f' \<and> carries f' (ds @ [d])"
proof -
  let ?pos = "16 + length (layout ds)"
  let ?g = "f\<lparr>fr_data := poke (fr_data f) ?pos (enc_dgram d)\<rparr>"
  let ?eh = "(frame_header f)\<lparr>eh_len := eh_len (frame_header f) + ucast (of_nat (12 + unat n) AND 0x7ff :: u32)\<rparr>"
  let ?f' = "(set_frame_header ?eh ?g)
          \<lparr>fr_last := ?pos, fr_next := Some (?pos + 12 + unat n), fr_counter := Suc (fr_counter f)\<rparr>"
  have nxt: "fr_next f = Some ?pos" and size: "length (fr_data f) = 1518"
    and ats: "at (fr_data f) 16 (layout ds)" and len: "unat (eh_len (frame_header f)) = length (layout ds)"
    using c by (simp_all add: carries_def FIRST_DATAGRAM_def)
  have len_p: "length p = unat n" using payload by (rule length_payload_of)
  then have len_d: "length (enc_dgram d) = 12 + unat n" by (simp add: d_def)
  have eq: "addDatagram index command address data n f = Some ?f'"
    using addDatagram_merged [OF nxt _ payload] size fit by (simp add: d_def Let_def)
  have "at (fr_data ?g) 16 (layout ds @ enc_dgram d)"
    using ats size fit len_d by (auto simp: at_append intro!: at_poke_disjoint at_poke_same)
  then have "at (fr_data ?f') 16 (layout (ds @ [d]))"
    using at_set_frame_header [of ?g 16] by simp
  moreover have "length (fr_data ?f') = 1518"
    using size fit len_d by (simp add: set_frame_header_def eh.length_enc)
  moreover have "wf_dgram d" "dg_multiple (d_header d) = 1"
    using len_p fit by (simp_all add: wf_dgram_def d_def added_header_def len_field)
  moreover have "unat (eh_len ?eh) = length (layout ds) + (12 + unat n)"
  proof -
    let ?inc = "ucast (of_nat (12 + unat n) AND 0x7ff :: u32) :: 11 word"
    have inc: "unat ?inc = 12 + unat n" using fit by (intro len_increment) simp
    then have "unat (eh_len (frame_header f) + ?inc) = length (layout ds) + (12 + unat n)"
      using len fit by (subst unat_add_small) (simp_all only: inc len, simp)
    then show ?thesis by simp
  qed
  moreover have "frame_header ?f' = ?eh"
    using size fit len_d by (simp add: frame_header_def set_frame_header_def eh.read_back)
  moreover have "at (fr_data ?f') 12 (le16 ETH_ETHERCAT_TYPE)"
    using c size fit len_d
    by (auto simp: carries_def intro!: at_before_set_frame_header at_poke_disjoint)
  ultimately have "carries ?f' (ds @ [d])"
    using c fit len_d by (simp add: carries_def FIRST_DATAGRAM_def)
  with eq show ?thesis by blast
qed

section \<open>Sealing a frame and reading it back\<close>

definition seal :: "dgram list \<Rightarrow> dgram list" where
  "seal ds = (if ds = [] then []
     else butlast ds @ [(last ds)\<lparr>d_header := (d_header (last ds))\<lparr>dg_multiple := 0\<rparr>\<rparr>])"

lemma seal_snoc [simp]:
  "seal (ds @ [d]) = ds @ [d\<lparr>d_header := (d_header d)\<lparr>dg_multiple := 0\<rparr>\<rparr>]"
  by (simp add: seal_def)

lemma length_layout_seal [simp]: "length (layout (seal ds)) = length (layout ds)"
  by (cases ds rule: rev_cases) (simp_all add: seal_def)

lemma at_reseal:
  assumes "at b off (enc_dgram d)"
  shows "at (poke b off (enc_datagram_header h)) off (enc_dgram (d\<lparr>d_header := h\<rparr>))"
  using assms
  by (auto simp: enc_dgram_def at_append dg.length_enc dest: at_bound intro!: at_poke_same at_poke_disjoint)

lemma carries_finalize:
  assumes c: "carries f ds" and ne: "ds \<noteq> []"
  defines "len \<equiv> 16 + length (layout ds)"
  shows "\<exists>g. finalize f = Some (max 60 len, g)
    \<and> length (fr_data g) = ETH_MAX_SIZE
    \<and> at (fr_data g) 16 (layout (seal ds) @ replicate (60 - len) 0)
    \<and> at (fr_data g) 12 (le16 ETH_ETHERCAT_TYPE)
    \<and> fr_next g = Some 16 \<and> fr_last g = 16 \<and> fr_counter g = 0 \<and> \<not> fr_available g
    \<and> frame_header g = frame_header f"
proof -
  obtain es d where ds: "ds = es @ [d]" using ne by (cases ds rule: rev_cases) auto
  let ?last = "16 + length (layout es)"
  have size: "length (fr_data f) = 1518" and last: "fr_last f = ?last" and nxt: "fr_next f = Some len"
    and eh: "unat (eh_len (frame_header f)) = length (layout ds)" and bound: "len \<le> 1514"
    and at_es: "at (fr_data f) 16 (layout es)" and at_d: "at (fr_data f) ?last (enc_dgram d)"
    using c by (simp_all add: carries_def ds len_def at_append)
  have len': "len = ?last + 12 + length (d_payload d)" by (simp add: len_def ds)
  have fit: "?last + 10 \<le> 1518" "len + (60 - len) \<le> 1518" using bound len' by simp_all
  let ?h = "(d_header d)\<lparr>dg_multiple := 0\<rparr>"
  let ?b1 = "poke (fr_data f) ?last (enc_datagram_header ?h)"
  let ?b2 = "poke ?b1 len (replicate (60 - len) 0)"
  let ?g = "resetContext (f\<lparr>fr_data := ?b2\<rparr>)"
  have raw: "mem_read (fr_data f) ?last 10 = Some (enc_datagram_header (d_header d))"
    using at_d by (intro at_mem_read) (simp_all add: enc_dgram_def at_append dg.length_enc)
  have hdr1: "frame_header (f\<lparr>fr_data := ?b1\<rparr>) = frame_header f"
    using size fit by (intro frame_header_poke_beyond) (simp_all add: dg.length_enc)
  have hdr2: "frame_header (f\<lparr>fr_data := ?b2\<rparr>) = frame_header f"
    using hdr1 size fit frame_header_poke_beyond [of len "replicate (60 - len) 0" "f\<lparr>fr_data := ?b1\<rparr>"]
    by (simp add: dg.length_enc len_def)
  have reset: "frame_header (resetContext k) = frame_header k" "fr_data (resetContext k) = fr_data k"
      "(resetContext k)\<lparr>fr_data := bs\<rparr> = resetContext (k\<lparr>fr_data := bs\<rparr>)" for k bs
    by (simp_all add: frame_header_def resetContext_def)
  have fin: "finalize f = Some (max 60 len, ?g)"
    using raw last nxt size fit bound eh hdr1
    by (auto simp: finalize_def dg.length_enc dg.dec_enc reset Let_def len_def max_def)
  have "at ?b1 16 (layout (seal ds))"
    using at_es at_d size fit
    by (auto simp: ds at_append dg.length_enc intro!: at_poke_disjoint at_reseal)
  then have "at ?b2 16 (layout (seal ds) @ replicate (60 - len) 0)"
    using size fit
    by (auto simp: at_append len_def dg.length_enc intro!: at_poke_disjoint at_poke_same)
  moreover have "at ?b2 12 (le16 ETH_ETHERCAT_TYPE)"
    using c size fit
    by (auto simp: carries_def dg.length_enc len_def intro!: at_poke_disjoint)
  ultimately show ?thesis
    using fin size fit hdr2 reset(1) [of "f\<lparr>fr_data := ?b2\<rparr>"]
    by (intro exI [of _ ?g]) (simp add: resetContext_def dg.length_enc)
qed

text \<open>
  The loop of the clients: extract datagrams while some are available. The fuel bounds the
  number of iterations; \<open>None\<close> is an access outside the frame or a loop that goes on.
\<close>

fun drain :: "nat \<Rightarrow> frame \<Rightarrow> (dgram list \<times> frame) option" where
  "drain 0 f = (if fr_available f then None else Some ([], f))"
| "drain (Suc n) f =
     (if fr_available f then do {
        ((h, d, wkc), g) \<leftarrow> nextDatagram f;
        (ds, g') \<leftarrow> drain n g;
        Some (\<lparr>d_header = datagram_at f h,
               d_payload = peek (fr_data f) d (unat (dg_len (datagram_at f h))),
               d_wkc = wkc\<rparr> # ds, g')
      } else Some ([], f))"

fun chained :: "dgram list \<Rightarrow> bool" where
  "chained [] = False"
| "chained [d] = (dg_multiple (d_header d) = 0)"
| "chained (d # ds) = (dg_multiple (d_header d) = 1 \<and> chained ds)"

lemma chained_seal:
  "ds \<noteq> [] \<Longrightarrow> list_all (\<lambda>d. dg_multiple (d_header d) = 1) ds \<Longrightarrow> chained (seal ds)"
proof (induction ds rule: rev_induct)
  case (snoc d ds)
  have "chained (ds @ [e])"
    if "list_all (\<lambda>d. dg_multiple (d_header d) = 1) ds" "dg_multiple (d_header e) = 0" for e
    using that by (induction ds rule: induct_list012) auto
  then show ?case using snoc.prems by simp
qed simp

lemma nextDatagram_at:
  assumes nxt: "fr_next f = Some pos" and d: "at (fr_data f) pos (enc_dgram d)" and wf: "wf_dgram d"
  shows "nextDatagram f = Some ((pos, pos + 10, d_wkc d),
      if dg_multiple (d_header d) = 0 then resetContext f
      else f\<lparr>fr_next := Some (pos + length (enc_dgram d))\<rparr>)"
    and "datagram_at f pos = d_header d"
    and "peek (fr_data f) (pos + 10) (unat (dg_len (d_header d))) = d_payload d"
proof -
  have hdr: "at (fr_data f) pos (enc_datagram_header (d_header d))"
    and pay: "at (fr_data f) (pos + 10) (d_payload d)"
    and wkc: "at (fr_data f) (pos + 10 + length (d_payload d)) (le16 (d_wkc d))"
    using d by (simp_all add: enc_dgram_def at_append dg.length_enc)
  have raw: "mem_read (fr_data f) pos 10 = Some (enc_datagram_header (d_header d))"
    using hdr by (rule at_mem_read) (simp add: dg.length_enc)
  have w: "mem_read (fr_data f) (pos + 10 + length (d_payload d)) 2 = Some (le16 (d_wkc d))"
    using wkc by (rule at_mem_read) simp
  have len: "unat (dg_len (d_header d)) = length (d_payload d)" using wf by (simp add: wf_dgram_def)
  show "nextDatagram f = Some ((pos, pos + 10, d_wkc d),
      if dg_multiple (d_header d) = 0 then resetContext f
      else f\<lparr>fr_next := Some (pos + length (enc_dgram d))\<rparr>)"
    using nxt raw w len by (simp add: nextDatagram_def dg.dec_enc Let_def resetContext_def)
  show "datagram_at f pos = d_header d"
    using hdr by (simp add: datagram_at_def at_peek dg.length_enc dg.dec_enc)
  show "peek (fr_data f) (pos + 10) (unat (dg_len (d_header d))) = d_payload d"
    using pay len by (simp add: at_peek)
qed

lemma drain_layout:
  "chained ds \<Longrightarrow> list_all wf_dgram ds \<Longrightarrow> at (fr_data f) pos (layout ds) \<Longrightarrow> fr_next f = Some pos
    \<Longrightarrow> fr_available f \<Longrightarrow> drain (length ds) f = Some (ds, resetContext f)"
proof (induction ds arbitrary: f pos rule: chained.induct)
  case (2 d)
  have "at (fr_data f) pos (enc_dgram d)" "wf_dgram d" using "2.prems" by simp_all
  note next_d = nextDatagram_at [OF \<open>fr_next f = Some pos\<close> this]
  have "drain 0 (resetContext f) = Some ([], resetContext f)" by (simp add: resetContext_def)
  then show ?case using "2.prems" next_d by simp
next
  case (3 d e es)
  let ?g = "f\<lparr>fr_next := Some (pos + length (enc_dgram d))\<rparr>"
  have "at (fr_data f) pos (enc_dgram d)" and wf: "wf_dgram d"
    using "3.prems" by (simp_all add: at_append)
  note next_d = nextDatagram_at [OF \<open>fr_next f = Some pos\<close> this]
  have "drain (length (e # es)) ?g = Some (e # es, resetContext ?g)"
    using "3.prems" by (intro "3.IH") (simp_all add: at_append)
  moreover have "resetContext ?g = resetContext f" by (simp add: resetContext_def)
  ultimately show ?case using "3.prems" next_d by simp
qed simp

lemma wf_seal: "list_all wf_dgram ds \<Longrightarrow> list_all wf_dgram (seal ds)"
  by (cases ds rule: rev_cases) (auto simp: seal_def wf_dgram_def)

lemma finalize_drain:
  assumes c: "carries f ds" and ne: "ds \<noteq> []"
  shows "\<exists>g. finalize f = Some (max 60 (16 + length (layout ds)), g)
    \<and> drain (length ds) (setIsDatagramAvailable g) = Some (seal ds, g)"
proof -
  obtain g where g: "finalize f = Some (max 60 (16 + length (layout ds)), g)"
      "at (fr_data g) 16 (layout (seal ds))" "fr_next g = Some 16" "fr_last g = 16"
      "fr_counter g = 0" "\<not> fr_available g"
    using carries_finalize [OF assms] by (auto simp: at_append)
  have "chained (seal ds)" "list_all wf_dgram (seal ds)"
    using assms by (auto simp: carries_def intro!: chained_seal wf_seal)
  then have "drain (length (seal ds)) (setIsDatagramAvailable g) = Some (seal ds, resetContext (setIsDatagramAvailable g))"
    using g by (intro drain_layout [where pos = 16]) (simp_all add: setIsDatagramAvailable_def)
  moreover have "resetContext (setIsDatagramAvailable g) = g"
    using g by (simp add: resetContext_def setIsDatagramAvailable_def)
  moreover have "length (seal ds) = length ds" using ne by (simp add: seal_def)
  ultimately show ?thesis using g(1) by auto
qed

section \<open>Whole requests\<close>

text \<open>A request is the argument list of \<open>addDatagram\<close>; \<open>addAll\<close> adds several in order.\<close>

type_synonym request = "u8 \<times> Command \<times> u32 \<times> bytes option \<times> u16"

fun addAll :: "request list \<Rightarrow> frame \<Rightarrow> frame option" where
  "addAll [] f = Some f"
| "addAll ((index, command, address, data, n) # rs) f = do {
     g \<leftarrow> addDatagram index command address data n f;
     addAll rs g
   }"

fun request_size :: "request \<Rightarrow> nat" where
  "request_size (index, command, address, data, n) = 12 + unat n"

fun request_payload :: "request \<Rightarrow> bytes option" where
  "request_payload (index, command, address, data, n) = payload_of command data n"

fun answers :: "request \<Rightarrow> dgram \<Rightarrow> bool" where
  "answers (index, command, address, data, n) d \<longleftrightarrow>
     dg_index (d_header d) = index \<and> dg_command (d_header d) = command_code command
     \<and> dg_address (d_header d) = address \<and> unat (dg_len (d_header d)) = unat n
     \<and> dg_circulating (d_header d) = 0 \<and> dg_irq (d_header d) = 0
     \<and> payload_of command data n = Some (d_payload d) \<and> d_wkc d = 0"

lemma addAll_carries:
  assumes "carries f ds" and "list_all (\<lambda>r. request_payload r \<noteq> None) rs"
    and "length (layout ds) + sum_list (map request_size rs) \<le> 1498"
  shows "\<exists>f' es. addAll rs f = Some f' \<and> carries f' (ds @ es) \<and> list_all2 answers rs es
    \<and> length (layout es) = sum_list (map request_size rs)"
  using assms
proof (induction rs arbitrary: f ds)
  case Nil
  then show ?case by (intro exI [of _ f] exI [of _ "[]"]) simp
next
  case (Cons r rs)
  obtain index command address data n where r: "r = (index, command, address, data, n)"
    by (cases r) auto
  obtain p where p: "payload_of command data n = Some p" using Cons.prems by (auto simp: r)
  let ?d = "\<lparr>d_header = added_header f index command address n, d_payload = p, d_wkc = 0\<rparr>"
  have fit: "length (layout ds) + 12 + unat n \<le> 1498" using Cons.prems by (simp add: r)
  obtain g where g: "addDatagram index command address data n f = Some g" "carries g (ds @ [?d])"
    using carries_add [OF Cons.prems(1) p fit, of index address] by blast
  have len: "length p = unat n" using p by (rule length_payload_of)
  obtain f' es where f': "addAll rs g = Some f'" "carries f' ((ds @ [?d]) @ es)" "list_all2 answers rs es"
      "length (layout es) = sum_list (map request_size rs)"
    using Cons.IH [OF g(2)] Cons.prems len by (auto simp: r)
  have "answers r ?d" using p fit by (simp add: r added_header_def len_field)
  then show ?case
    using g f' len by (intro exI [of _ f'] exI [of _ "?d # es"]) (simp add: r)
qed

lemma answers_seal: "list_all2 answers rs ds \<Longrightarrow> list_all2 answers rs (seal ds)"
proof (cases ds rule: rev_cases)
  case (snoc es d)
  assume "list_all2 answers rs ds"
  then obtain qs r where "rs = qs @ [r]" "list_all2 answers qs es" "answers r d"
    unfolding snoc list_all2_append2 by (auto simp: list_all2_Cons2)
  then show ?thesis by (cases r) (auto simp: snoc intro!: list_all2_appendI)
qed (simp add: seal_def)

lemma carries_setSourceMAC:
  assumes "carries f ds" and "6 \<le> length src"
  shows "carries (setSourceMAC src f) ds"
proof -
  have "frame_header (setSourceMAC src f) = frame_header f"
    using assms by (intro frame_header_cong) (simp add: setSourceMAC_def carries_def peek_poke_after)
  then show ?thesis
    using assms by (auto simp: carries_def setSourceMAC_def intro!: at_poke_disjoint)
qed

lemma at_take: "at b off xs \<Longrightarrow> off + length xs \<le> n \<Longrightarrow> at (take n b) off xs"
  by (simp add: at_def peek_def drop_take min_absorb1)

lemma at_poke_start: "at d off xs \<Longrightarrow> length d \<le> length b \<Longrightarrow> at (poke b 0 d) off xs"
  by (auto simp: at_def peek_poke_inside)

lemma at_frame_header:
  "at b 14 (enc_ethercat_header h) \<longleftrightarrow> 16 \<le> length b \<and> frame_header (f\<lparr>fr_data := b\<rparr>) = h"
  using eh.enc_dec [of "peek b 14 2"]
  by (auto simp: at_def eh.length_enc frame_header_def eh.dec_enc)

lemma readFrame_sealed:
  assumes size: "length (fr_data f0) = ETH_MAX_SIZE" and idle: "fr_next f0 = Some 16"
    and ty: "at sent 12 (le16 ETH_ETHERCAT_TYPE)" and eh: "at sent 14 (enc_ethercat_header h)"
    and ds: "at sent 16 (layout ds)" "chained ds" "list_all wf_dgram ds"
    and len: "length sent = max 60 (16 + unat (eh_len h))" "length sent \<le> ETH_MAX_SIZE"
  shows "\<exists>g. readFrame (int (length sent)) sent f0 = Some (int (length sent), g)
    \<and> drain (length ds) g = Some (ds, resetContext g)"
proof -
  let ?b = "poke (fr_data f0) 0 sent"
  let ?g = "setIsDatagramAvailable (clear (f0\<lparr>fr_data := ?b\<rparr>))"
  have len_b: "length ?b = 1518" using size len by simp
  have hdr: "frame_header (f0\<lparr>fr_data := ?b\<rparr>) = h"
    using at_poke_start [OF eh, of "fr_data f0"] size len at_frame_header by auto
  have "get16 ?b 12 = ETH_ETHERCAT_TYPE"
    using at_peek [OF at_poke_start [OF ty, of "fr_data f0"]] size len by simp
  then have read: "readFrame (int (length sent)) sent f0 = Some (int (length sent), ?g)"
    using size len hdr by (auto simp: readFrame_def Let_def max_def)
  have "at (fr_data ?g) 16 (layout ds)"
    using at_poke_start [OF ds(1), of "fr_data f0"] size len
    by (auto simp: setIsDatagramAvailable_def clear_def intro!: at_set_frame_header)
  then have "drain (length ds) ?g = Some (ds, resetContext ?g)"
    using ds idle by (intro drain_layout [where pos = 16]) (simp_all add: setIsDatagramAvailable_def clear_def)
  with read show ?thesis by blast
qed

section \<open>Properties\<close>

text \<open>(C1) A frame filled with any requests that fit in an Ethernet frame, written on the wire and
  read back into an idle frame on the other side, is accepted with the length that was sent, and
  extracting its datagrams yields one datagram per request, in order, with the index, command,
  address, length and payload of the request and a null working counter; after the last one the
  reading frame is ready to be filled again. No access leaves the frame buffers.\<close>

theorem frame_wire_roundtrip:
  assumes fit: "sum_list (map request_size rs) \<le> ETH_MTU_SIZE - ETHERCAT_HEADER_SIZE"
    and ne: "rs \<noteq> []" and sources: "list_all (\<lambda>r. request_payload r \<noteq> None) rs"
    and mac: "length src = 6"
    and rx: "length (fr_data f0) = ETH_MAX_SIZE" "fr_next f0 = Some FIRST_DATAGRAM"
  shows "\<exists>f n g h ds. addAll rs Frame_new = Some f \<and> finalize (setSourceMAC src f) = Some (n, g)
    \<and> n = max ETH_MIN_SIZE (16 + sum_list (map request_size rs))
    \<and> readFrame (int n) (take n (fr_data g)) f0 = Some (int n, h)
    \<and> drain (length rs) h = Some (ds, resetContext h) \<and> list_all2 answers rs ds"
proof -
  obtain f ds where f: "addAll rs Frame_new = Some f" "carries f ds" "list_all2 answers rs ds"
      "length (layout ds) = sum_list (map request_size rs)"
    using addAll_carries [OF carries_new sources] fit by auto
  have nds: "ds \<noteq> []" and len_ds: "length ds = length rs"
    using f(3) ne by (auto dest: list_all2_lengthD)
  have c: "carries (setSourceMAC src f) ds" using carries_setSourceMAC f(2) mac by simp
  let ?n = "max 60 (16 + length (layout ds))"
  obtain g where g: "finalize (setSourceMAC src f) = Some (?n, g)" "length (fr_data g) = ETH_MAX_SIZE"
      "at (fr_data g) 16 (layout (seal ds))" "at (fr_data g) 12 (le16 ETH_ETHERCAT_TYPE)"
      "frame_header g = frame_header (setSourceMAC src f)"
    using carries_finalize [OF c nds] by (auto simp: at_append)
  have eh_len: "unat (eh_len (frame_header g)) = length (layout ds)"
    using c g(5) by (simp add: carries_def)
  have bound: "?n \<le> 1514" using f(4) fit by simp
  let ?sent = "take ?n (fr_data g)"
  have len: "length ?sent = ?n" using g(2) bound by simp
  have "at (fr_data g) 14 (enc_ethercat_header (frame_header g))"
    using at_frame_header [of "fr_data g" "frame_header g" g] g(2) by simp
  then have "at ?sent 14 (enc_ethercat_header (frame_header g))" "at ?sent 12 (le16 ETH_ETHERCAT_TYPE)"
      "at ?sent 16 (layout (seal ds))"
    using g(3,4) by (intro at_take; simp add: eh.length_enc)+
  moreover have "chained (seal ds)" "list_all wf_dgram (seal ds)"
    using f(2) nds by (auto simp: carries_def intro!: chained_seal wf_seal)
  ultimately obtain h where h: "readFrame (int (length ?sent)) ?sent f0 = Some (int (length ?sent), h)"
      "drain (length (seal ds)) h = Some (seal ds, resetContext h)"
    using readFrame_sealed [OF rx(1), of ?sent "frame_header g" "seal ds"] rx(2) len bound eh_len by auto
  have "length (seal ds) = length rs" using ne nds len_ds by (simp add: seal_def)
  then show ?thesis
    using f g(1) h len answers_seal [OF f(3)]
    by (intro exI [of _ f] exI [of _ ?n] exI [of _ g] exI [of _ h] exI [of _ "seal ds"]) simp
qed

theorem frame_wire_roundtrip_witness:
  defines "rs \<equiv> [(7, FPWR, 0x01200001, Some [1, 2, 3, 4], 2), (8, BRD, 0x0130, None, 2)] :: request list"
  shows "\<exists>f n g h ds. addAll rs Frame_new = Some f \<and> finalize (setSourceMAC [1, 2, 3, 4, 5, 6] f) = Some (n, g)
    \<and> n = max ETH_MIN_SIZE (16 + sum_list (map request_size rs))
    \<and> readFrame (int n) (take n (fr_data g)) Frame_new = Some (int n, h)
    \<and> drain (length rs) h = Some (ds, resetContext h) \<and> list_all2 answers rs ds"
proof (rule frame_wire_roundtrip)
  show "length (fr_data Frame_new) = ETH_MAX_SIZE" "fr_next Frame_new = Some FIRST_DATAGRAM"
    using carries_new by (simp_all add: carries_def)
qed (simp_all add: rs_def payload_of_def copy_source_def)

text \<open>Adding a datagram whose total size does not exceed \<open>freeSpace\<close> never writes outside the
  frame, and appends exactly that datagram to the ones the frame already carries: the earlier ones
  keep their bytes, and the EtherCAT length, the counter and the pointers follow.\<close>

theorem addDatagram_appends:
  fixes index :: u8 and address :: u32
  assumes "carries f ds" and "payload_of command data n = Some p"
    and "freeSpace f = Some space" and "int (12 + unat n) \<le> space"
  shows "\<exists>f'. addDatagram index command address data n f = Some f'
    \<and> carries f' (ds @ [\<lparr>d_header = added_header f index command address n, d_payload = p, d_wkc = 0\<rparr>])
    \<and> freeSpace f' = Some (space - int (12 + unat n))"
proof -
  have space: "space = 1498 - int (length (layout ds))" using assms(1,3) carries_freeSpace by simp
  then have "length (layout ds) + 12 + unat n \<le> 1498" using assms(4) by linarith
  then obtain f' where f': "addDatagram index command address data n f = Some f'"
      "carries f' (ds @ [\<lparr>d_header = added_header f index command address n, d_payload = p, d_wkc = 0\<rparr>])"
    using carries_add [OF assms(1,2)] by blast
  then show ?thesis
    using carries_freeSpace [OF f'(2)] space length_payload_of [OF assms(2)] by simp
qed

theorem addDatagram_appends_witness:
  "\<exists>f'. addDatagram 3 LWR 0x1000 (Some [1, 2, 3]) 3 Frame_new = Some f'
    \<and> carries f' ([] @ [\<lparr>d_header = added_header Frame_new 3 LWR 0x1000 3, d_payload = [1, 2, 3], d_wkc = 0\<rparr>])
    \<and> freeSpace f' = Some (1498 - int (12 + unat (3 :: u16)))"
  by (rule addDatagram_appends)
    (simp_all add: carries_new carries_freeSpace [OF carries_new] payload_of_def copy_source_def mem_read_def peek_def)

text \<open>Finalizing a frame that carries datagrams gives the number of bytes to send, between the
  Ethernet minimum and the maximum without checksum; only the \<open>multiple\<close> bit of the last datagram
  changes, the padding up to the minimum is zero, and the frame's cursors are reset.\<close>

theorem finalize_seals:
  assumes "carries f ds" and "ds \<noteq> []"
  shows "\<exists>n g. finalize f = Some (n, g) \<and> n = max ETH_MIN_SIZE (16 + length (layout ds))
    \<and> ETH_MIN_SIZE \<le> n \<and> n \<le> ETH_MAX_SIZE - ETH_FCS_SIZE
    \<and> at (fr_data g) FIRST_DATAGRAM (layout (seal ds) @ replicate (60 - (16 + length (layout ds))) 0)
    \<and> fr_next g = Some FIRST_DATAGRAM \<and> fr_counter g = 0 \<and> frame_header g = frame_header f"
proof -
  have "16 + length (layout ds) \<le> 1514" using assms(1) by (simp add: carries_def)
  then show ?thesis using carries_finalize [OF assms] by auto
qed

theorem finalize_seals_witness:
  "\<exists>f n g. addDatagram 3 LWR 0x1000 (Some [1, 2, 3]) 3 Frame_new = Some f \<and> finalize f = Some (n, g) \<and> n = 60"
proof -
  have p: "payload_of LWR (Some [1, 2, 3]) 3 = Some [1, 2, 3]"
    by (simp add: payload_of_def copy_source_def mem_read_def peek_def)
  obtain f where f: "addDatagram 3 LWR 0x1000 (Some [1, 2, 3]) 3 Frame_new = Some f"
      "carries f ([] @ [\<lparr>d_header = added_header Frame_new 3 LWR 0x1000 3, d_payload = [1, 2, 3], d_wkc = 0\<rparr>])"
    using carries_add [OF carries_new p, of 3 "0x1000"] by auto
  show ?thesis using finalize_seals [OF f(2)] f(1) by auto
qed

text \<open>A received frame makes its datagrams available exactly when its type is EtherCAT and the
  number of bytes read is the length announced by its header (or the Ethernet minimum); otherwise
  the call returns the error of the failed check and the availability does not change.\<close>

theorem readFrame_accepts_iff:
  assumes "length received \<le> length (fr_data f)" and "0 < ret"
  defines "b \<equiv> poke (fr_data f) 0 received"
  defines "expected \<equiv> max ETH_MIN_SIZE (unat (eh_len (frame_header (f\<lparr>fr_data := b\<rparr>))) + 16)"
  shows "\<exists>r g. readFrame ret received f = Some (r, g)
    \<and> r = (if get16 b 12 \<noteq> ETH_ETHERCAT_TYPE then - ENOMSG else if ret \<noteq> int expected then - EIO else ret)
    \<and> fr_available g = (fr_available f \<or> (get16 b 12 = ETH_ETHERCAT_TYPE \<and> ret = int expected))"
  using assms(1,2)
  by (auto simp: readFrame_def Let_def b_def expected_def max_def setIsDatagramAvailable_def clear_def)

theorem readFrame_accepts_iff_witness:
  "\<exists>r g. readFrame 60 (replicate 60 0) Frame_new = Some (r, g) \<and> r = - ENOMSG"
proof -
  have len: "length (replicate 60 0 :: bytes) \<le> length (fr_data Frame_new)"
    using carries_new by (simp add: carries_def)
  have "get16 (poke (fr_data Frame_new) 0 (replicate 60 0)) 12 = (0 :: u16)"
    using len by (subst peek_poke_inside) (simp_all add: peek_def numeral_2_eq_2 from_le.simps)
  then show ?thesis
    using readFrame_accepts_iff [OF len, of 60] by auto
qed

end
