(* ===== verification/Checksums.thy ===== *)
theory Checksums
  imports Prelude
begin

text \<open>
  The two checksums of \<open>lib/include/kickcat/checksum\<close>: the CRC of the Ethernet frame check
  sequence, computed byte by byte with a table, and the Adler-32 sum.

  The table is shown to be the one of the Ethernet polynomial by comparing the byte-wise
  algorithm with the bit-wise division; the CRC detects every error confined to four
  consecutive bytes. The Adler sum is shown to be its mathematical definition, without overflow.
\<close>

section \<open>Ethernet CRC (crc32.h)\<close>

definition TABLE :: "u32 list" where
  "TABLE = [
     0x00000000, 0x77073096, 0xee0e612c, 0x990951ba, 0x076dc419, 0x706af48f, 0xe963a535, 0x9e6495a3,
     0x0edb8832, 0x79dcb8a4, 0xe0d5e91e, 0x97d2d988, 0x09b64c2b, 0x7eb17cbd, 0xe7b82d07, 0x90bf1d91,
     0x1db71064, 0x6ab020f2, 0xf3b97148, 0x84be41de, 0x1adad47d, 0x6ddde4eb, 0xf4d4b551, 0x83d385c7,
     0x136c9856, 0x646ba8c0, 0xfd62f97a, 0x8a65c9ec, 0x14015c4f, 0x63066cd9, 0xfa0f3d63, 0x8d080df5,
     0x3b6e20c8, 0x4c69105e, 0xd56041e4, 0xa2677172, 0x3c03e4d1, 0x4b04d447, 0xd20d85fd, 0xa50ab56b,
     0x35b5a8fa, 0x42b2986c, 0xdbbbc9d6, 0xacbcf940, 0x32d86ce3, 0x45df5c75, 0xdcd60dcf, 0xabd13d59,
     0x26d930ac, 0x51de003a, 0xc8d75180, 0xbfd06116, 0x21b4f4b5, 0x56b3c423, 0xcfba9599, 0xb8bda50f,
     0x2802b89e, 0x5f058808, 0xc60cd9b2, 0xb10be924, 0x2f6f7c87, 0x58684c11, 0xc1611dab, 0xb6662d3d,
     0x76dc4190, 0x01db7106, 0x98d220bc, 0xefd5102a, 0x71b18589, 0x06b6b51f, 0x9fbfe4a5, 0xe8b8d433,
     0x7807c9a2, 0x0f00f934, 0x9609a88e, 0xe10e9818, 0x7f6a0dbb, 0x086d3d2d, 0x91646c97, 0xe6635c01,
     0x6b6b51f4, 0x1c6c6162, 0x856530d8, 0xf262004e, 0x6c0695ed, 0x1b01a57b, 0x8208f4c1, 0xf50fc457,
     0x65b0d9c6, 0x12b7e950, 0x8bbeb8ea, 0xfcb9887c, 0x62dd1ddf, 0x15da2d49, 0x8cd37cf3, 0xfbd44c65,
     0x4db26158, 0x3ab551ce, 0xa3bc0074, 0xd4bb30e2, 0x4adfa541, 0x3dd895d7, 0xa4d1c46d, 0xd3d6f4fb,
     0x4369e96a, 0x346ed9fc, 0xad678846, 0xda60b8d0, 0x44042d73, 0x33031de5, 0xaa0a4c5f, 0xdd0d7cc9,
     0x5005713c, 0x270241aa, 0xbe0b1010, 0xc90c2086, 0x5768b525, 0x206f85b3, 0xb966d409, 0xce61e49f,
     0x5edef90e, 0x29d9c998, 0xb0d09822, 0xc7d7a8b4, 0x59b33d17, 0x2eb40d81, 0xb7bd5c3b, 0xc0ba6cad,
     0xedb88320, 0x9abfb3b6, 0x03b6e20c, 0x74b1d29a, 0xead54739, 0x9dd277af, 0x04db2615, 0x73dc1683,
     0xe3630b12, 0x94643b84, 0x0d6d6a3e, 0x7a6a5aa8, 0xe40ecf0b, 0x9309ff9d, 0x0a00ae27, 0x7d079eb1,
     0xf00f9344, 0x8708a3d2, 0x1e01f268, 0x6906c2fe, 0xf762575d, 0x806567cb, 0x196c3671, 0x6e6b06e7,
     0xfed41b76, 0x89d32be0, 0x10da7a5a, 0x67dd4acc, 0xf9b9df6f, 0x8ebeeff9, 0x17b7be43, 0x60b08ed5,
     0xd6d6a3e8, 0xa1d1937e, 0x38d8c2c4, 0x4fdff252, 0xd1bb67f1, 0xa6bc5767, 0x3fb506dd, 0x48b2364b,
     0xd80d2bda, 0xaf0a1b4c, 0x36034af6, 0x41047a60, 0xdf60efc3, 0xa867df55, 0x316e8eef, 0x4669be79,
     0xcb61b38c, 0xbc66831a, 0x256fd2a0, 0x5268e236, 0xcc0c7795, 0xbb0b4703, 0x220216b9, 0x5505262f,
     0xc5ba3bbe, 0xb2bd0b28, 0x2bb45a92, 0x5cb36a04, 0xc2d7ffa7, 0xb5d0cf31, 0x2cd99e8b, 0x5bdeae1d,
     0x9b64c2b0, 0xec63f226, 0x756aa39c, 0x026d930a, 0x9c0906a9, 0xeb0e363f, 0x72076785, 0x05005713,
     0x95bf4a82, 0xe2b87a14, 0x7bb12bae, 0x0cb61b38, 0x92d28e9b, 0xe5d5be0d, 0x7cdcefb7, 0x0bdbdf21,
     0x86d3d2d4, 0xf1d4e242, 0x68ddb3f8, 0x1fda836e, 0x81be16cd, 0xf6b9265b, 0x6fb077e1, 0x18b74777,
     0x88085ae6, 0xff0f6a70, 0x66063bca, 0x11010b5c, 0x8f659eff, 0xf862ae69, 0x616bffd3, 0x166ccf45,
     0xa00ae278, 0xd70dd2ee, 0x4e048354, 0x3903b3c2, 0xa7672661, 0xd06016f7, 0x4969474d, 0x3e6e77db,
     0xaed16a4a, 0xd9d65adc, 0x40df0b66, 0x37d83bf0, 0xa9bcae53, 0xdebb9ec5, 0x47b2cf7f, 0x30b5ffe9,
     0xbdbdf21c, 0xcabac28a, 0x53b39330, 0x24b4a3a6, 0xbad03605, 0xcdd70693, 0x54de5729, 0x23d967bf,
     0xb3667a2e, 0xc4614ab8, 0x5d681b02, 0x2a6f2b94, 0xb40bbe37, 0xc30c8ea1, 0x5a05df1b, 0x2d02ef8d]"

definition crc32_step :: "u32 \<Rightarrow> u8 \<Rightarrow> u32" where
  "crc32_step crc b = TABLE ! unat ((crc XOR ucast b) AND 0xff) XOR drop_bit 8 crc"

definition crc32 :: "bytes \<Rightarrow> u32" where
  "crc32 buffer = foldl crc32_step 0xffffffff buffer XOR 0xffffffff"

text \<open>
  The reference: division of the message, least significant bit first, by the polynomial
  \<open>0x4c11db7\<close>, whose reflection is \<open>0xedb88320\<close>.
\<close>

definition crc_bit :: "u32 \<Rightarrow> u32" where
  "crc_bit c = (if bit c 0 then drop_bit 1 c XOR 0xedb88320 else drop_bit 1 c)"

definition crc_byte :: "u32 \<Rightarrow> u8 \<Rightarrow> u32" where
  "crc_byte c b = (crc_bit ^^ 8) (c XOR ucast b)"

definition crc32_ref :: "bytes \<Rightarrow> u32" where
  "crc32_ref buffer = NOT (foldl crc_byte (NOT 0) buffer)"

lemma xor_cancel_right: "a XOR c = b XOR c \<longleftrightarrow> a = (b :: 'w::len word)"
  by (auto simp: bit_eq_iff bit_simps)

lemma xor_cancel_left: "c XOR a = c XOR b \<longleftrightarrow> a = (b :: 'w::len word)"
  by (auto simp: bit_eq_iff bit_simps)

lemma crc_bit_xor: "crc_bit (a XOR b) = crc_bit a XOR crc_bit b"
  unfolding crc_bit_def by (rule bit_word_eqI) (auto simp: bit_simps)

lemma crc_bits_xor: "(crc_bit ^^ n) (a XOR b) = (crc_bit ^^ n) a XOR (crc_bit ^^ n) b"
  by (induction n) (simp_all add: crc_bit_xor)

lemma crc_bits_zero_low:
  "(\<forall>i < n. \<not> bit c i) \<Longrightarrow> (crc_bit ^^ n) c = drop_bit n c"
proof (induction n)
  case (Suc n)
  then have "\<not> bit (drop_bit n c) 0" by (simp add: bit_simps)
  with Suc show ?case by (simp add: crc_bit_def)
qed simp

lemma bit_edb88320_31: "bit (0xedb88320 :: u32) 31"
  by simp

lemma crc_bit_inj: "inj crc_bit"
proof (rule injI)
  fix a b :: u32
  assume eq: "crc_bit a = crc_bit b"
  have top: "bit (crc_bit c) 31 \<longleftrightarrow> bit c 0" for c
    by (simp add: crc_bit_def bit_simps bit_beyond)
  have low: "bit a 0 \<longleftrightarrow> bit b 0" using eq top by metis
  have "drop_bit 1 a = drop_bit 1 b"
  proof (cases "bit a 0")
    case True
    then have "drop_bit 1 a XOR 0xedb88320 = drop_bit 1 b XOR 0xedb88320"
      using eq low by (simp add: crc_bit_def)
    then show ?thesis by (simp add: xor_cancel_right)
  next
    case False
    then show ?thesis using eq low by (simp add: crc_bit_def)
  qed
  then have "bit a (Suc i) \<longleftrightarrow> bit b (Suc i)" for i
    by (metis bit_drop_bit_eq comp_apply plus_1_eq_Suc)
  with low show "a = b"
    by (intro bit_word_eqI) (metis not0_implies_Suc)
qed

text \<open>
  The table is determined by its entries at the powers of two, since the division steps are
  linear; each doubling of the prefix xors one more of them.
\<close>

lemma crc_bit_values:
  "crc_bit 0x1 = 0xedb88320"
  "crc_bit 0xedb88320 = 0x76dc4190"
  "crc_bit 0x76dc4190 = 0x3b6e20c8"
  "crc_bit 0x3b6e20c8 = 0x1db71064"
  "crc_bit 0x1db71064 = 0xedb8832"
  "crc_bit 0xedb8832 = 0x76dc419"
  "crc_bit 0x76dc419 = 0xee0e612c"
  "crc_bit 0xee0e612c = 0x77073096"
  "crc_bit 2 = 1" "crc_bit 4 = 2" "crc_bit 8 = 4" "crc_bit 16 = 8" "crc_bit 32 = 16"
  "crc_bit 64 = 32" "crc_bit 128 = 64"
  by (simp_all add: crc_bit_def)

lemma funpow_8: "(f ^^ 8) x = f (f (f (f (f (f (f (f x)))))))"
  by (simp add: eval_nat_numeral)

lemma crc_byte_basis:
  "(crc_bit ^^ 8) 1 = 0x77073096"
  "(crc_bit ^^ 8) 2 = 0xee0e612c"
  "(crc_bit ^^ 8) 4 = 0x76dc419"
  "(crc_bit ^^ 8) 8 = 0xedb8832"
  "(crc_bit ^^ 8) 16 = 0x1db71064"
  "(crc_bit ^^ 8) 32 = 0x3b6e20c8"
  "(crc_bit ^^ 8) 64 = 0x76dc4190"
  "(crc_bit ^^ 8) 128 = 0xedb88320"
  by (simp_all add: funpow_8 crc_bit_values)

lemma table_doubling:
  "TABLE = foldl (\<lambda>t v. t @ map ((XOR) v) t) [0]
     [0x77073096, 0xee0e612c, 0x76dc419, 0xedb8832,
      0x1db71064, 0x3b6e20c8, 0x76dc4190, 0xedb88320]"
  by (simp add: TABLE_def)

lemma doubling:
  "k \<le> 32 \<Longrightarrow> foldl (\<lambda>t v. t @ map ((XOR) v) t) [0] (map (\<lambda>j. (crc_bit ^^ 8) (2 ^ j)) [0..<k])
    = map (\<lambda>i. (crc_bit ^^ 8) (of_nat i)) [0..<2 ^ k]"
proof (induction k)
  case 0
  show ?case by (simp add: funpow_8 crc_bit_def)
next
  case (Suc k)
  have xor: "(2 ^ k + of_nat i :: u32) = 2 ^ k XOR of_nat i" if "i < 2 ^ k" for i
  proof -
    have "take_bit k (of_nat i :: u32) = of_nat i"
      using that by (metis take_bit_nat_eq_self take_bit_of_nat)
    then have "\<not> bit (of_nat i :: u32) k" by (metis bit_take_bit_iff less_irrefl)
    then have "(2 ^ k :: u32) AND of_nat i = 0"
      by (intro bit_word_eqI) (auto simp: bit_simps)
    then show ?thesis by (simp add: disjunctive_add_eq_xor)
  qed
  have "[0..<2 ^ Suc k] = [0..<2 ^ k] @ map (\<lambda>i. 2 ^ k + i) [0..<2 ^ k]"
    by (simp add: map_add_upt upt_add_eq_append [of 0 "2 ^ k" "2 ^ k", simplified] mult_2 add.commute)
  then show ?case using Suc by (auto simp: xor crc_bits_xor)
qed

lemma table_checked: "map (\<lambda>i. (crc_bit ^^ 8) (of_nat i)) [0..<2 ^ 8] = TABLE"
proof -
  have "map (\<lambda>j. (crc_bit ^^ 8) (2 ^ j)) [0..<8] =
     [0x77073096, 0xee0e612c, 0x76dc419, 0xedb8832,
      0x1db71064, 0x3b6e20c8, 0x76dc4190, 0xedb88320]"
    by (simp add: upt_positions crc_byte_basis)
  then show ?thesis
    using doubling [of 8] by (simp only: table_doubling)
qed

lemma table_entry: "i < 256 \<Longrightarrow> TABLE ! i = (crc_bit ^^ 8) (of_nat i)"
  unfolding table_checked [symmetric] by simp

lemma crc32_step_eq: "crc32_step c b = crc_byte c b"
proof -
  let ?x = "c XOR ucast b"
  let ?lo = "?x AND 0xff"
  have m: "(0xff :: u32) = mask 8" by (simp add: mask_eq_exp_minus_1)
  have split: "?x = ?lo XOR (c AND NOT (mask 8))"
    unfolding m by (rule bit_word_eqI) (auto simp: bit_simps dest: bit_imp_le_length)
  have "unat ?lo < 2 ^ 8"
    unfolding m by (rule unat_and_mask)
  then have table: "TABLE ! unat ?lo = (crc_bit ^^ 8) ?lo"
    by (simp add: table_entry)
  have "(crc_bit ^^ 8) (c AND NOT (mask 8)) = drop_bit 8 (c AND NOT (mask 8))"
    by (rule crc_bits_zero_low) (simp add: bit_simps)
  also have "\<dots> = drop_bit 8 c"
    by (rule bit_word_eqI) (auto simp: bit_simps dest: bit_imp_le_length)
  finally have high: "(crc_bit ^^ 8) (c AND NOT (mask 8)) = drop_bit 8 c" .
  have "crc_byte c b = (crc_bit ^^ 8) (?lo XOR (c AND NOT (mask 8)))"
    unfolding crc_byte_def by (subst split) simp
  also have "\<dots> = TABLE ! unat ?lo XOR drop_bit 8 c"
    unfolding crc_bits_xor high table ..
  finally show ?thesis by (simp add: crc32_step_def)
qed

lemma crc_byte_inj_state: "crc_byte c b = crc_byte d b \<longleftrightarrow> c = d"
proof
  assume "crc_byte c b = crc_byte d b"
  moreover have "inj (crc_bit ^^ 8)" using crc_bit_inj by (rule inj_fn)
  ultimately have "c XOR ucast b = d XOR ucast b"
    unfolding crc_byte_def by (rule injD [rotated])
  then show "c = d" by (simp add: xor_cancel_right)
qed simp

lemma crc_run_inj_state: "foldl crc_byte c bs = foldl crc_byte d bs \<longleftrightarrow> c = d"
  by (induction bs arbitrary: c d) (simp_all add: crc_byte_inj_state)

text \<open>Processing up to four bytes is \<open>8 n\<close> division steps on the state xored with their value.\<close>

lemma crc_run_word:
  "length bs \<le> 4 \<Longrightarrow> foldl crc_byte c bs = (crc_bit ^^ (8 * length bs)) (c XOR from_le bs)"
proof (induction bs rule: rev_induct)
  case Nil
  show ?case by (simp add: from_le.simps)
next
  case (snoc b bs)
  let ?n = "8 * length bs"
  have app: "(from_le (bs @ [b]) :: u32) = from_le bs XOR push_bit ?n (ucast b)"
    using snoc.prems
  proof (induction bs)
    case Nil
    show ?case by (simp add: from_le.simps)
  next
    case (Cons x xs)
    have *: "ucast (x :: u8) OR push_bit 8 (r XOR push_bit (8 * length xs) (ucast b))
        = (ucast x OR push_bit 8 r) XOR push_bit (8 + 8 * length xs) (ucast b :: u32)" for r
      by (rule bit_word_eqI) (auto simp: bit_simps dest: bit_imp_le_length)
    show ?case using Cons by (simp add: from_le.simps * del: push_bit_xor)
  qed
  have "(crc_bit ^^ ?n) (push_bit ?n (ucast b)) = drop_bit ?n (push_bit ?n (ucast b :: u32))"
    by (rule crc_bits_zero_low) (simp add: bit_simps)
  also have "\<dots> = ucast b"
    using snoc.prems by (intro bit_word_eqI) (auto simp: bit_simps dest: bit_imp_le_length)
  finally have shift: "(crc_bit ^^ ?n) (push_bit ?n (ucast b)) = ucast b" .
  have "(crc_bit ^^ (8 * length (bs @ [b]))) (c XOR from_le (bs @ [b]))
      = (crc_bit ^^ 8) ((crc_bit ^^ ?n) ((c XOR from_le bs) XOR push_bit ?n (ucast b)))"
    unfolding app by (simp add: funpow_add xor.assoc)
  also have "\<dots> = crc_byte ((crc_bit ^^ ?n) (c XOR from_le bs)) b"
    unfolding crc_bits_xor shift crc_byte_def ..
  finally show ?case using snoc by simp
qed

lemma crc_run_inj_word:
  assumes "length xs \<le> 4" and "length xs = length ys"
    and "foldl crc_byte c xs = foldl crc_byte c ys"
  shows "xs = ys"
proof -
  have "inj (crc_bit ^^ (8 * length xs))" using crc_bit_inj by (rule inj_fn)
  then have "c XOR from_le xs = c XOR from_le ys"
    using assms by (auto simp: crc_run_word dest: injD)
  then have "(from_le xs :: u32) = from_le ys"
    by (simp add: xor_cancel_left)
  moreover have "to_le (length xs) (from_le xs :: u32) = xs"
    by (rule to_le_from_le) (use assms(1) in simp)
  moreover have "to_le (length ys) (from_le ys :: u32) = ys"
    by (rule to_le_from_le) (use assms(1,2) in simp)
  ultimately show ?thesis using assms(2) by metis
qed

section \<open>Adler-32 (adler32.cc)\<close>

definition MOD_ADLER :: u32 where "MOD_ADLER = 65521"

definition adler32_step :: "u32 \<times> u32 \<Rightarrow> u8 \<Rightarrow> u32 \<times> u32" where
  "adler32_step = (\<lambda>(a, b) d.
     let a = (a + ucast d) mod MOD_ADLER; b = (b + a) mod MOD_ADLER in (a, b))"

definition adler32Sum :: "bytes \<Rightarrow> u32" where
  "adler32Sum buffer = (let (a, b) = foldl adler32_step (1, 0) buffer in push_bit 16 b OR a)"

text \<open>The definition of the sum, over the natural numbers.\<close>

fun adler_a :: "bytes \<Rightarrow> nat" where
  "adler_a ds = (1 + sum_list (map unat ds)) mod 65521"

fun adler_b :: "bytes \<Rightarrow> nat" where
  "adler_b ds = sum_list (map (\<lambda>n. adler_a (take n ds)) [1..<Suc (length ds)]) mod 65521"

lemma adler32_run:
  "foldl adler32_step (1, 0) ds = (of_nat (adler_a ds), of_nat (adler_b ds))"
proof (induction ds rule: rev_induct)
  case Nil
  show ?case by simp
next
  case (snoc d ds)
  have bound: "adler_a ds < 65521" "adler_b ds < 65521" "unat d < 256"
    using unsigned_less [of d, where 'a = nat] by simp_all
  have step: "(of_nat x + ucast d) mod MOD_ADLER = (of_nat ((x + unat d) mod 65521) :: u32)"
    if "x < 65521" for x
    using that bound(3)
    by (intro word_unat_eq_iff [THEN iffD2])
      (simp add: MOD_ADLER_def unat_mod_distrib unat_add_small unsigned_ucast_eq take_bit_nat_eq_self unat_of_nat)
  have step2: "(of_nat x + of_nat y) mod MOD_ADLER = (of_nat ((x + y) mod 65521) :: u32)"
    if "x < 65521" "y < 65521" for x y
    using that
    by (intro word_unat_eq_iff [THEN iffD2])
      (simp add: MOD_ADLER_def unat_mod_distrib take_bit_nat_eq_self unat_of_nat
        flip: of_nat_add)
  have a: "(adler_a ds + unat d) mod 65521 = adler_a (ds @ [d])"
    by (simp add: mod_simps add.assoc)
  have prefix: "map (\<lambda>n. adler_a (take n (ds @ [d]))) [1..<Suc (length ds)]
      = map (\<lambda>n. adler_a (take n ds)) [1..<Suc (length ds)]"
    by (rule map_cong) (auto simp del: adler_a.simps)
  have "[1..<Suc (length (ds @ [d]))] = [1..<Suc (length ds)] @ [Suc (length ds)]" by simp
  then have all: "map (\<lambda>n. adler_a (take n (ds @ [d]))) [1..<Suc (length (ds @ [d]))]
      = map (\<lambda>n. adler_a (take n ds)) [1..<Suc (length ds)] @ [adler_a (ds @ [d])]"
    by (simp only: map_append prefix) simp
  have b: "(adler_b ds + adler_a (ds @ [d])) mod 65521 = adler_b (ds @ [d])"
    unfolding adler_b.simps all sum_list_append by (simp only: mod_add_left_eq sum_list_simps add_0_right)
  have lt: "adler_a (ds @ [d]) < 65521" by simp
  have "adler32_step (of_nat (adler_a ds), of_nat (adler_b ds)) d
      = (of_nat (adler_a (ds @ [d])), of_nat (adler_b (ds @ [d])))"
    using step [OF bound(1)] step2 [OF bound(2) lt]
    by (simp add: adler32_step_def Let_def a b del: adler_a.simps adler_b.simps)
  then show ?case by (simp only: foldl_append foldl.simps snoc)
qed

section \<open>Properties\<close>

text \<open>(C13) The table-driven CRC is the bit-by-bit division by the Ethernet polynomial with an
  all-ones start and a complemented result: every one of the 256 table entries is right.\<close>

theorem crc32_is_polynomial_division: "crc32 buffer = crc32_ref buffer"
proof -
  have "foldl crc32_step c bs = foldl crc_byte c bs" for c bs
    by (induction bs arbitrary: c) (simp_all add: crc32_step_eq)
  moreover have ones: "(0xffffffff :: u32) = NOT 0" by simp
  moreover have "w XOR NOT 0 = NOT w" for w :: u32 by simp
  ultimately show ?thesis
    by (simp only: crc32_def crc32_ref_def)
qed

text \<open>The CRC detects every corruption confined to four consecutive bytes: two messages that
  differ only there and have the same CRC are equal.\<close>

theorem crc32_detects_bursts:
  assumes burst: "length xs = length ys" "length xs \<le> 4"
    and same: "crc32 (before @ xs @ after) = crc32 (before @ ys @ after)"
  shows "xs = ys"
proof -
  have step: "foldl crc32_step c bs = foldl crc_byte c bs" for c bs
    by (induction bs arbitrary: c) (simp_all add: crc32_step_eq)
  have "foldl crc_byte (foldl crc_byte 0xffffffff before) xs
      = foldl crc_byte (foldl crc_byte 0xffffffff before) ys"
    using same by (simp add: crc32_def step xor_cancel_right crc_run_inj_state)
  then show ?thesis using crc_run_inj_word burst by blast
qed

theorem crc32_detects_bursts_witness:
  "crc32 ([1, 2] @ [3, 4, 5] @ [6]) \<noteq> crc32 ([1, 2] @ [3, 7, 5] @ [6])"
  using crc32_detects_bursts [of "[3, 4, 5]" "[3, 7, 5]" "[1, 2]" "[6]"] by fastforce

text \<open>The Adler sum has the sum of the bytes plus one in its low half and the sum of the
  successive values of that sum in its high half, both modulo 65521: the 32-bit arithmetic never
  overflows and the two halves never overlap.\<close>

theorem adler32Sum_correct:
  "unat (adler32Sum buffer) = adler_b buffer * 2 ^ 16 + adler_a buffer"
proof -
  let ?a = "of_nat (adler_a buffer) :: u32" and ?b = "of_nat (adler_b buffer) :: u32"
  have lt: "adler_a buffer < 2 ^ 16" "adler_b buffer < 2 ^ 16"
    by (simp_all add: order.strict_trans [OF mod_less_divisor])
  then have small: "take_bit 16 ?a = ?a" "take_bit 16 ?b = ?b"
    by (simp_all only: take_bit_of_nat take_bit_nat_eq_self)
  have "push_bit 16 ?b AND ?a = 0"
    by (subst small(1) [symmetric]) (rule bit_word_eqI, auto simp: bit_simps)
  then have "push_bit 16 ?b OR ?a = push_bit 16 ?b + ?a"
    by (simp add: disjunctive_add_eq_or)
  also have "\<dots> = of_nat (adler_b buffer * 2 ^ 16 + adler_a buffer)"
    by (simp add: push_bit_eq_mult del: adler_a.simps adler_b.simps)
  finally have "adler32Sum buffer = of_nat (adler_b buffer * 2 ^ 16 + adler_a buffer)"
    by (simp add: adler32Sum_def adler32_run)
  moreover have "adler_b buffer * 2 ^ 16 + adler_a buffer < 2 ^ 32"
    using lt by (simp del: adler_a.simps adler_b.simps)
  ultimately show ?thesis
    by (simp only: unat_of_nat take_bit_nat_eq_self len_num1 len_bit0 len_bit1 mult_1_right) simp
qed

end
