(* ===== verification/RingQueue.thy ===== *)
theory RingQueue
  imports Prelude "HOL-Library.Multiset"
begin

text \<open>
  The bounded queues the link layer and the simulator exchange frames with: \<open>Ring\<close>
  (\<open>lib/include/kickcat/Ring.h\<close>), its locked wrapper \<open>LockedRing\<close>
  (\<open>lib/include/kickcat/LockedRing.h\<close>) and the zero-copy buffer pool \<open>SBufQueue\<close>
  (\<open>lib/include/kickcat/SBufQueue.h\<close>).

  The head and the tail of a ring are free-running 32-bit counters: only their difference and
  their low bits matter, and the proofs go through the wrap-around. The locale
  \<open>bounded_queue\<close> is the contract of a bounded queue; the ring interprets it, and the buffer
  pool is a client of it.
\<close>

section \<open>The contract of a bounded queue\<close>

datatype 'a queue_op = Push 'a | Pop

locale bounded_queue =
  fixes push :: "'a \<Rightarrow> 'q \<Rightarrow> bool \<times> 'q"
    and pop :: "'q \<Rightarrow> 'a option \<times> 'q"
    and contents :: "'q \<Rightarrow> 'a list"
    and cap :: nat
    and ok :: "'q \<Rightarrow> bool"
  assumes contents_bound: "ok q \<Longrightarrow> length (contents q) \<le> cap"
    and push_room: "ok q \<Longrightarrow> length (contents q) < cap \<Longrightarrow> push x q = (b, q')
      \<Longrightarrow> b \<and> ok q' \<and> contents q' = contents q @ [x]"
    and push_full: "ok q \<Longrightarrow> length (contents q) = cap \<Longrightarrow> push x q = (False, q)"
    and pop_some: "ok q \<Longrightarrow> contents q = x # xs \<Longrightarrow> pop q = (r, q')
      \<Longrightarrow> r = Some x \<and> ok q' \<and> contents q' = xs"
    and pop_none: "ok q \<Longrightarrow> contents q = [] \<Longrightarrow> pop q = (None, q)"
begin

text \<open>
  A run of operations: what the pops delivered and what the pushes accepted, in order.
\<close>

fun run :: "'a queue_op list \<Rightarrow> 'q \<Rightarrow> 'a list \<times> 'a list \<times> 'q" where
  "run [] q = ([], [], q)"
| "run (Push x # ops) q =
     (let (b, q1) = push x q; (out, acc, q2) = run ops q1 in (out, (if b then x # acc else acc), q2))"
| "run (Pop # ops) q =
     (let (r, q1) = pop q; (out, acc, q2) = run ops q1
      in ((case r of None \<Rightarrow> out | Some x \<Rightarrow> x # out), acc, q2))"

lemma push_cases:
  assumes "ok q" and "push x q = (b, q')"
  obtains (stored) "b" "ok q'" "contents q' = contents q @ [x]" "length (contents q) < cap"
  | (rejected) "\<not> b" "q' = q" "length (contents q) = cap"
proof (cases "length (contents q) < cap")
  case True
  then show thesis using push_room assms stored by blast
next
  case False
  then have "length (contents q) = cap" using contents_bound assms(1) by fastforce
  then show thesis using push_full assms rejected by fastforce
qed

lemma pop_cases:
  assumes "ok q" and "pop q = (r, q')"
  obtains (got) x where "r = Some x" "ok q'" "contents q = x # contents q'"
  | (empty) "r = None" "q' = q" "contents q = []"
proof (cases "contents q")
  case Nil
  then show thesis using pop_none assms empty by fastforce
next
  case (Cons x xs)
  then show thesis using pop_some assms got by blast
qed

lemma run_ok: "ok q \<Longrightarrow> run ops q = (out, acc, q') \<Longrightarrow> ok q'"
proof (induction ops q arbitrary: out acc rule: run.induct)
  case (2 x ops q)
  obtain b q1 where p: "push x q = (b, q1)" by fastforce
  then have "ok q1" using \<open>ok q\<close> by (auto elim: push_cases)
  with 2 p show ?case by (auto split: prod.splits)
next
  case (3 ops q)
  obtain r q1 where p: "pop q = (r, q1)" by fastforce
  then have "ok q1" using \<open>ok q\<close> by (auto elim: pop_cases)
  with 3 p show ?case by (auto split: prod.splits)
qed simp

text \<open>First in, first out, nothing lost and nothing invented, whatever the operations.\<close>

lemma run_fifo:
  "ok q \<Longrightarrow> run ops q = (out, acc, q') \<Longrightarrow> out @ contents q' = contents q @ acc"
proof (induction ops q arbitrary: out acc rule: run.induct)
  case (2 x ops q)
  obtain b q1 where p: "push x q = (b, q1)" by fastforce
  obtain out1 acc1 where r: "run ops q1 = (out1, acc1, q')" "out = out1" "acc = (if b then x # acc1 else acc1)"
    using 2 p by (auto split: prod.splits)
  from \<open>ok q\<close> p show ?case
  proof (cases rule: push_cases)
    case stored
    then show ?thesis using "2.IH" p r by auto
  next
    case rejected
    then show ?thesis using "2.IH" p r \<open>ok q\<close> by auto
  qed
next
  case (3 ops q)
  obtain r q1 where p: "pop q = (r, q1)" by fastforce
  obtain out1 where run: "run ops q1 = (out1, acc, q')"
      "out = (case r of None \<Rightarrow> out1 | Some x \<Rightarrow> x # out1)"
    using 3 p by (auto split: prod.splits)
  from \<open>ok q\<close> p show ?case
  proof (cases rule: pop_cases)
    case (got x)
    then show ?thesis using "3.IH" p run by auto
  next
    case empty
    then show ?thesis using "3.IH" p run \<open>ok q\<close> by auto
  qed
qed simp

lemma run_bound: "ok q \<Longrightarrow> run ops q = (out, acc, q') \<Longrightarrow> length (contents q') \<le> cap"
  using run_ok contents_bound by blast

end

section \<open>Ring\<close>

record 'a ring =
  r_head :: u32
  r_tail :: u32
  r_data :: "'a list"

text \<open>The template parameter \<open>N\<close> is the length of the storage.\<close>

definition ring_capacity :: "'a ring \<Rightarrow> u32" where
  "ring_capacity r = of_nat (length (r_data r))"

definition ring_size :: "'a ring \<Rightarrow> u32" where
  "ring_size r = r_head r - r_tail r"

definition ring_available :: "'a ring \<Rightarrow> u32" where
  "ring_available r = ring_capacity r - ring_size r"

definition ring_isFull :: "'a ring \<Rightarrow> bool" where
  "ring_isFull r \<longleftrightarrow> ring_size r = ring_capacity r"

definition ring_isEmpty :: "'a ring \<Rightarrow> bool" where
  "ring_isEmpty r \<longleftrightarrow> ring_size r = 0"

definition ring_reset :: "'a ring \<Rightarrow> 'a ring" where
  "ring_reset r = r\<lparr>r_head := 0, r_tail := 0\<rparr>"

definition ring_push :: "'a \<Rightarrow> 'a ring \<Rightarrow> bool \<times> 'a ring" where
  "ring_push entry r =
     (if ring_isFull r then (False, r)
      else let index = r_head r AND (ring_capacity r - 1)
           in (True, r\<lparr>r_data := (r_data r)[unat index := entry], r_head := r_head r + 1\<rparr>))"

definition ring_pop :: "'a ring \<Rightarrow> 'a option \<times> 'a ring" where
  "ring_pop r =
     (if ring_isEmpty r then (None, r)
      else let index = r_tail r AND (ring_capacity r - 1)
           in (Some (r_data r ! unat index), r\<lparr>r_tail := r_tail r + 1\<rparr>))"

text \<open>
  The static assertion of the template (the capacity is a power of two) and the bound on the
  two counters; the queue's elements, oldest first.
\<close>

definition ring_ok :: "nat \<Rightarrow> 'a ring \<Rightarrow> bool" where
  "ring_ok k r \<longleftrightarrow> k < 32 \<and> length (r_data r) = 2 ^ k \<and> unat (ring_size r) \<le> 2 ^ k"

definition ring_contents :: "'a ring \<Rightarrow> 'a list" where
  "ring_contents r = map (\<lambda>i. r_data r ! ((unat (r_tail r) + i) mod length (r_data r))) [0..<unat (ring_size r)]"

lemma pow_dvd_32: "k < 32 \<Longrightarrow> (2 :: nat) ^ k dvd 4294967296"
  using le_imp_power_dvd [of k 32 "2 :: nat"] by simp

lemma pow_less_32: "k < 32 \<Longrightarrow> (2 :: nat) ^ k < 4294967296"
  using power_strict_increasing [of k 32 "2 :: nat"] by simp

lemma index_mod:
  assumes "k < 32" and "length (r_data r) = 2 ^ k"
  shows "unat (w AND (ring_capacity r - 1)) = unat w mod 2 ^ k"
proof -
  have "ring_capacity r - 1 = mask k"
    using assms by (simp add: ring_capacity_def mask_eq_exp_minus_1)
  then have "w AND (ring_capacity r - 1) = take_bit k w"
    by (simp add: take_bit_eq_mask)
  then show ?thesis by (simp add: unsigned_take_bit_eq flip: take_bit_eq_mod)
qed

lemma unat_capacity: "k < 32 \<Longrightarrow> length (r_data r) = 2 ^ k \<Longrightarrow> unat (ring_capacity r) = 2 ^ k"
  using pow_less_32 [of k] unsigned_of_nat [where 'b = 32 and 'a = nat, of "2 ^ k"]
  by (simp add: ring_capacity_def take_bit_nat_eq_self)

lemma head_mod:
  assumes "k < 32"
  shows "unat (r_head r) mod 2 ^ k = (unat (r_tail r) + unat (ring_size r)) mod 2 ^ k"
proof -
  have "r_head r = r_tail r + ring_size r" by (simp add: ring_size_def)
  then have "unat (r_head r) = (unat (r_tail r) + unat (ring_size r)) mod 2 ^ 32"
    by (simp add: unat_word_ariths)
  moreover have "(2 :: nat) ^ k dvd 2 ^ 32" using pow_dvd_32 [OF assms] by simp
  ultimately show ?thesis by (simp add: mod_mod_cancel)
qed

lemma mod_offset_neq:
  assumes "i < n" and "n < (m :: nat)"
  shows "(a + i) mod m \<noteq> (a + n) mod m"
proof
  assume "(a + i) mod m = (a + n) mod m"
  then have "m dvd (a + n) - (a + i)"
    using assms by (metis add_le_cancel_left less_imp_le mod_eq_dvd_iff_nat)
  then show False using assms by (auto dest: dvd_imp_le)
qed

lemma isFull_iff: "ring_ok k r \<Longrightarrow> ring_isFull r \<longleftrightarrow> length (ring_contents r) = 2 ^ k"
  by (auto simp: ring_isFull_def ring_ok_def ring_contents_def word_unat_eq_iff unat_capacity)

lemma isEmpty_iff: "ring_isEmpty r \<longleftrightarrow> ring_contents r = []"
  by (simp add: ring_isEmpty_def ring_contents_def unat_eq_0)

lemma size_incr:
  assumes "unat (ring_size r) < 2 ^ k" and "k < 32"
  shows "unat (r_head r + 1 - r_tail r) = Suc (unat (ring_size r))"
proof -
  have eq: "r_head r + 1 - r_tail r = ring_size r + 1" by (simp add: ring_size_def)
  have "(2 :: nat) ^ k < 2 ^ 32" using pow_less_32 [OF assms(2)] by simp
  then have "unat (ring_size r) + 1 < 2 ^ 32" using assms(1) by linarith
  then show ?thesis unfolding eq by (simp add: unat_word_ariths)
qed

lemma ring_push_room:
  assumes ok: "ring_ok k r" and room: "length (ring_contents r) < 2 ^ k"
    and push: "ring_push x r = (b, r')"
  shows "b \<and> ring_ok k r' \<and> ring_contents r' = ring_contents r @ [x]"
proof -
  let ?n = "unat (ring_size r)" and ?N = "(2 :: nat) ^ k" and ?t = "unat (r_tail r)"
  have k: "k < 32" and len: "length (r_data r) = ?N" and n: "?n < ?N"
    using ok room by (simp_all add: ring_ok_def ring_contents_def)
  have idx: "unat (r_head r AND (ring_capacity r - 1)) = (?t + ?n) mod ?N"
    using index_mod [OF k len] head_mod [OF k, of r] by simp
  have r': "b" "r' = r\<lparr>r_data := (r_data r)[(?t + ?n) mod ?N := x], r_head := r_head r + 1\<rparr>"
    using push isFull_iff [OF ok] room by (auto simp: ring_push_def Let_def idx)
  have size: "unat (ring_size r') = Suc ?n"
    using size_incr [OF n k] by (simp add: r' ring_size_def)
  have "(?t + ?n) mod ?N \<noteq> (?t + i) mod ?N" if "i < ?n" for i
    using mod_offset_neq [OF that n] by metis
  then have "ring_contents r' = ring_contents r @ [x]"
    using size by (auto simp: ring_contents_def r' len)
  then show ?thesis using r' size n k len by (simp add: ring_ok_def)
qed

lemma ring_pop_some:
  assumes ok: "ring_ok k r" and cont: "ring_contents r = x # xs" and pop: "ring_pop r = (e, r')"
  shows "e = Some x \<and> ring_ok k r' \<and> ring_contents r' = xs"
proof -
  let ?n = "unat (ring_size r)" and ?N = "(2 :: nat) ^ k" and ?t = "unat (r_tail r)"
  have k: "k < 32" and len: "length (r_data r) = ?N" and n: "?n \<le> ?N"
    using ok by (simp_all add: ring_ok_def)
  have pos: "0 < ?n" using cont by (cases ?n) (auto simp: ring_contents_def)
  have r': "e = Some (r_data r ! (?t mod ?N))" "r' = r\<lparr>r_tail := r_tail r + 1\<rparr>"
    using pop cont isEmpty_iff [of r] index_mod [OF k len] by (auto simp: ring_pop_def Let_def)
  have "ring_size r' = ring_size r - 1" by (simp add: r' ring_size_def)
  then have size: "unat (ring_size r') = ?n - 1"
    using pos by (simp add: unat_minus_one unat_gt_0)
  have dvd: "?N dvd 2 ^ 32" using pow_dvd_32 [OF k] by simp
  have tail: "(unat (r_tail r + 1) + i) mod ?N = (?t + Suc i) mod ?N" for i
  proof -
    have "unat (r_tail r + 1) mod ?N = Suc ?t mod ?N"
      using dvd by (simp add: unat_word_ariths mod_mod_cancel)
    then show ?thesis by (metis add_Suc_right add_Suc_shift mod_add_left_eq)
  qed
  have "ring_contents r = r_data r ! (?t mod ?N) # map (\<lambda>i. r_data r ! ((?t + Suc i) mod ?N)) [0..<?n - 1]"
  proof -
    have "[0..<?n] = 0 # map Suc [0..<?n - 1]"
      using pos by (simp add: map_Suc_upt upt_conv_Cons)
    then show ?thesis by (simp add: ring_contents_def len)
  qed
  moreover have "ring_contents r' = map (\<lambda>i. r_data r ! ((?t + Suc i) mod ?N)) [0..<?n - 1]"
    by (simp add: ring_contents_def size len) (simp add: r' tail len)
  ultimately show ?thesis using cont r' size n k len by (simp add: ring_ok_def)
qed

interpretation rq: bounded_queue ring_push ring_pop ring_contents "2 ^ k" "ring_ok k" for k
proof unfold_locales
  fix q :: "'a ring"
  assume ok: "ring_ok k q"
  then show "length (ring_contents q) \<le> 2 ^ k" by (simp add: ring_ok_def ring_contents_def)
  show "ring_push x q = (False, q)" if "length (ring_contents q) = 2 ^ k" for x
    using that isFull_iff [OF ok] by (simp add: ring_push_def)
  show "ring_pop q = (None, q)" if "ring_contents q = []"
    using that by (simp add: ring_pop_def isEmpty_iff)
  show "b \<and> ring_ok k q' \<and> ring_contents q' = ring_contents q @ [x]"
    if "length (ring_contents q) < 2 ^ k" "ring_push x q = (b, q')" for x b q'
    using ring_push_room [OF ok that] .
  show "r = Some x \<and> ring_ok k q' \<and> ring_contents q' = xs"
    if "ring_contents q = x # xs" "ring_pop q = (r, q')" for x xs r q'
    using ring_pop_some [OF ok that] .
qed

section \<open>LockedRing\<close>

text \<open>
  Every operation holds the mutex, so it is one atomic step on the ring; \<open>lr_signals\<close> counts the
  signals sent on the condition variable. Waiting releases the mutex: \<open>wait\<close> and \<open>wait_until\<close>
  stand for the condition variable of the operating system and give the queue as it is when the
  mutex is taken again, after what the other thread did to it.
\<close>

record 'a locked_ring =
  lr_ring :: "'a ring"
  lr_signals :: nat

definition lr_init :: "'a locked_ring \<Rightarrow> 'a locked_ring" where
  "lr_init q = q\<lparr>lr_ring := ring_reset (lr_ring q)\<rparr>"

definition lr_push :: "'a \<Rightarrow> 'a locked_ring \<Rightarrow> bool \<times> 'a locked_ring" where
  "lr_push value q =
     (let (pushed, r) = ring_push value (lr_ring q)
      in if \<not> pushed then (False, q\<lparr>lr_ring := r\<rparr>)
         else (True, q\<lparr>lr_ring := r, lr_signals := Suc (lr_signals q)\<rparr>))"

definition lr_tryPop :: "'a locked_ring \<Rightarrow> 'a option \<times> 'a locked_ring" where
  "lr_tryPop q = (let (e, r) = ring_pop (lr_ring q) in (e, q\<lparr>lr_ring := r\<rparr>))"

definition lr_popWait ::
  "('a locked_ring \<Rightarrow> 'a locked_ring) \<Rightarrow> (int \<Rightarrow> 'a locked_ring \<Rightarrow> int \<times> 'a locked_ring) \<Rightarrow> int
    \<Rightarrow> 'a locked_ring \<Rightarrow> 'a option \<times> 'a locked_ring" where
  "lr_popWait wait wait_until timeout q =
     (if timeout < 0 then lr_tryPop (wait q)
      else let (rc, q1) = wait_until (timeout + 1000000) q
           in if rc \<noteq> 0 then (None, q1) else lr_tryPop q1)"

definition lr_size :: "'a locked_ring \<Rightarrow> u32" where
  "lr_size q = ring_size (lr_ring q)"

section \<open>SBufQueue\<close>

definition SBUF_INVALID_INDEX :: u32 where "SBUF_INVALID_INDEX = 0xFFFFFFFF"

text \<open>An address is the position of a buffer in the pool; \<open>None\<close> is the null pointer.\<close>

record item =
  i_index :: u32
  i_len :: u32
  i_address :: "nat option"

record 't sbuf =
  sb_free :: "item locked_ring"
  sb_ready :: "item locked_ring"
  sb_buffers :: "'t list"

definition initContext :: "'t sbuf \<Rightarrow> 't sbuf" where
  "initContext s =
     (let free = lr_init (sb_free s); ready = lr_init (sb_ready s)
      in s\<lparr>sb_ready := ready,
           sb_free := fold (\<lambda>i q. snd (lr_push \<lparr>i_index = of_nat i, i_len = 0, i_address = None\<rparr> q))
             [0..<length (r_data (lr_ring free))] free\<rparr>)"

definition sbuf_pop ::
  "(item locked_ring \<Rightarrow> item locked_ring) \<Rightarrow> (int \<Rightarrow> item locked_ring \<Rightarrow> int \<times> item locked_ring) \<Rightarrow> int
    \<Rightarrow> item locked_ring \<Rightarrow> item \<times> item locked_ring" where
  "sbuf_pop wait wait_until timeout queue =
     (case lr_popWait wait wait_until timeout queue of
        (None, q) \<Rightarrow> (\<lparr>i_index = SBUF_INVALID_INDEX, i_len = 0, i_address = None\<rparr>, q)
      | (Some item, q) \<Rightarrow> (item\<lparr>i_address := Some (unat (i_index item))\<rparr>, q))"

definition allocate where
  "allocate wait wait_until timeout s =
     (let (item, q) = sbuf_pop wait wait_until timeout (sb_free s) in (item, s\<lparr>sb_free := q\<rparr>))"

definition ready :: "item \<Rightarrow> 't sbuf \<Rightarrow> 't sbuf" where
  "ready item s = s\<lparr>sb_ready := snd (lr_push item (sb_ready s))\<rparr>"

definition get_item where
  "get_item wait wait_until timeout s =
     (let (item, q) = sbuf_pop wait wait_until timeout (sb_ready s) in (item, s\<lparr>sb_ready := q\<rparr>))"

definition free_item :: "item \<Rightarrow> 't sbuf \<Rightarrow> 't sbuf" where
  "free_item item s = s\<lparr>sb_free := snd (lr_push item (sb_free s))\<rparr>"

definition freed :: "'t sbuf \<Rightarrow> u32" where
  "freed s = lr_size (sb_free s)"

definition readied :: "'t sbuf \<Rightarrow> u32" where
  "readied s = lr_size (sb_ready s)"

section \<open>The buffers of a pool, held and queued\<close>

text \<open>
  The condition variable seen by one atomic step: a wait with a predicate returns at once when
  the predicate holds, and a bounded one gives a non-zero code when it does not. Everything the
  other side does while a thread waits is a step of its own, before this one.
\<close>

definition now :: "item locked_ring \<Rightarrow> item locked_ring" where
  "now q = q"

definition now_or_timeout :: "int \<Rightarrow> item locked_ring \<Rightarrow> int \<times> item locked_ring" where
  "now_or_timeout t q = (if ring_isEmpty (lr_ring q) then (1, q) else (0, q))"

text \<open>
  Two sides share a pool: the producer holds the items it allocated and has not made ready, the
  consumer the ones it got and has not freed. They interleave their steps in any order.
\<close>

type_synonym 't world = "'t sbuf \<times> item list \<times> item list"

definition hold :: "item \<Rightarrow> item list \<Rightarrow> item list" where
  "hold it held = (if i_index it = SBUF_INVALID_INDEX then held else it # held)"

inductive sbuf_step :: "'t world \<Rightarrow> 't world \<Rightarrow> bool" where
  Allocate: "0 \<le> timeout \<Longrightarrow> allocate now now_or_timeout timeout s = (it, s')
    \<Longrightarrow> sbuf_step (s, P, C) (s', hold it P, C)"
| Ready: "P = xs @ it # ys \<Longrightarrow> sbuf_step (s, P, C) (ready (it\<lparr>i_len := n\<rparr>) s, xs @ ys, C)"
| Get: "0 \<le> timeout \<Longrightarrow> get_item now now_or_timeout timeout s = (it, s')
    \<Longrightarrow> sbuf_step (s, P, C) (s', P, hold it C)"
| Free: "C = xs @ it # ys \<Longrightarrow> sbuf_step (s, P, C) (free_item it s, P, xs @ ys)"

definition indices :: "'t world \<Rightarrow> u32 list" where
  "indices = (\<lambda>(s, P, C). map i_index (ring_contents (lr_ring (sb_free s)) @ P
      @ ring_contents (lr_ring (sb_ready s)) @ C))"

definition sbuf_inv :: "nat \<Rightarrow> 't world \<Rightarrow> bool" where
  "sbuf_inv k = (\<lambda>w. let (s, P, C) = w in
     ring_ok k (lr_ring (sb_free s)) \<and> ring_ok k (lr_ring (sb_ready s))
     \<and> mset (indices w) = mset (map of_nat [0..<2 ^ k]))"

lemma indices_small:
  assumes "sbuf_inv k w" and "i \<in> set (indices w)"
  shows "unat i < 2 ^ k" and "i \<noteq> SBUF_INVALID_INDEX"
proof -
  obtain s P C where w: "w = (s, P, C)" by (cases w)
  have k: "k < 32" using assms(1) by (simp add: sbuf_inv_def ring_ok_def w)
  have "mset (indices w) = mset (map of_nat [0..<2 ^ k])"
    using assms(1) unfolding sbuf_inv_def w Let_def prod.case by blast
  from mset_eq_setD [OF this] have "set (indices w) = of_nat ` {0..<2 ^ k}" by simp
  then obtain j where j: "i = of_nat j" "j < 2 ^ k" using assms(2) by auto
  then have lt: "j < 4294967296" using pow_less_32 [OF k] by simp
  then have unat_i: "unat i = j" by (simp add: j(1) unsigned_of_nat take_bit_nat_eq_self)
  then show "unat i < 2 ^ k" using j(2) by simp
  have "j \<noteq> 4294967295"
  proof
    assume "j = 4294967295"
    then have "(4294967295 :: nat) < 2 ^ k" using j(2) by simp
    moreover have "(2 :: nat) ^ k \<le> 2 ^ 31" using k by (intro power_increasing) simp_all
    ultimately have "(4294967295 :: nat) < 2 ^ 31" by linarith
    then show False by simp
  qed
  then show "i \<noteq> SBUF_INVALID_INDEX" using unat_i by (auto simp: SBUF_INVALID_INDEX_def)
qed

lemma mset_total:
  assumes "sbuf_inv k (s, P, C)"
  shows "length (ring_contents (lr_ring (sb_free s))) + length P
    + length (ring_contents (lr_ring (sb_ready s))) + length C = 2 ^ k"
proof -
  have "size (mset (indices (s, P, C))) = 2 ^ k"
    using assms by (simp add: sbuf_inv_def)
  then show ?thesis by (simp add: indices_def)
qed

lemma lr_push_room:
  assumes "ring_ok k (lr_ring q)" and "length (ring_contents (lr_ring q)) < 2 ^ k"
    and "lr_push x q = (b, q')"
  shows "b \<and> ring_ok k (lr_ring q') \<and> ring_contents (lr_ring q') = ring_contents (lr_ring q) @ [x]
    \<and> lr_signals q' = Suc (lr_signals q)"
proof -
  obtain p r where r: "ring_push x (lr_ring q) = (p, r)" by fastforce
  show ?thesis using rq.push_room [OF assms(1,2) r] assms(3) r by (auto simp: lr_push_def)
qed

lemma sbuf_pop_now:
  assumes ok: "ring_ok k (lr_ring q)" and t: "0 \<le> timeout"
    and pop: "sbuf_pop now now_or_timeout timeout q = (it, q')"
  shows "(it = \<lparr>i_index = SBUF_INVALID_INDEX, i_len = 0, i_address = None\<rparr> \<and> q' = q
      \<and> ring_contents (lr_ring q) = [])
    \<or> (\<exists>x xs. ring_contents (lr_ring q) = x # xs \<and> ring_ok k (lr_ring q')
      \<and> ring_contents (lr_ring q') = xs \<and> it = x\<lparr>i_address := Some (unat (i_index x))\<rparr>)"
proof (cases "ring_contents (lr_ring q)")
  case Nil
  then show ?thesis
    using pop t by (auto simp: sbuf_pop_def lr_popWait_def now_or_timeout_def isEmpty_iff)
next
  case (Cons x xs)
  obtain e r where r: "ring_pop (lr_ring q) = (e, r)" by fastforce
  then have "e = Some x" "ring_ok k r" "ring_contents r = xs"
    using rq.pop_some [OF ok Cons r] by auto
  then show ?thesis
    using pop t Cons r
    by (auto simp: sbuf_pop_def lr_popWait_def lr_tryPop_def now_or_timeout_def isEmpty_iff)
qed

lemma sbuf_step_inv: "sbuf_step w w' \<Longrightarrow> sbuf_inv k w \<Longrightarrow> sbuf_inv k w'"
proof (induction rule: sbuf_step.induct)
  case (Allocate timeout s it s' P C)
  obtain q where q: "sbuf_pop now now_or_timeout timeout (sb_free s) = (it, q)" "s' = s\<lparr>sb_free := q\<rparr>"
    using Allocate by (auto simp: allocate_def split: prod.splits)
  have ok: "ring_ok k (lr_ring (sb_free s))" using Allocate by (simp add: sbuf_inv_def)
  from sbuf_pop_now [OF ok \<open>0 \<le> timeout\<close> q(1)] show ?case
  proof (elim disjE exE conjE)
    fix x xs
    assume x: "ring_contents (lr_ring (sb_free s)) = x # xs" "ring_contents (lr_ring q) = xs"
      "ring_ok k (lr_ring q)" "it = x\<lparr>i_address := Some (unat (i_index x))\<rparr>"
    then have "i_index x \<noteq> SBUF_INVALID_INDEX"
      using indices_small(2) [OF Allocate.prems, of "i_index x"] by (simp add: indices_def)
    then show ?thesis using Allocate.prems x q by (simp add: sbuf_inv_def indices_def hold_def Let_def)
  qed (use Allocate.prems q in \<open>simp add: hold_def\<close>)
next
  case (Get timeout s it s' P C)
  obtain q where q: "sbuf_pop now now_or_timeout timeout (sb_ready s) = (it, q)" "s' = s\<lparr>sb_ready := q\<rparr>"
    using Get by (auto simp: get_item_def split: prod.splits)
  have ok: "ring_ok k (lr_ring (sb_ready s))" using Get by (simp add: sbuf_inv_def)
  from sbuf_pop_now [OF ok \<open>0 \<le> timeout\<close> q(1)] show ?case
  proof (elim disjE exE conjE)
    fix x xs
    assume x: "ring_contents (lr_ring (sb_ready s)) = x # xs" "ring_contents (lr_ring q) = xs"
      "ring_ok k (lr_ring q)" "it = x\<lparr>i_address := Some (unat (i_index x))\<rparr>"
    then have "i_index x \<noteq> SBUF_INVALID_INDEX"
      using indices_small(2) [OF Get.prems, of "i_index x"] by (simp add: indices_def)
    then show ?thesis using Get.prems x q by (simp add: sbuf_inv_def indices_def hold_def Let_def)
  qed (use Get.prems q in \<open>simp add: hold_def\<close>)
next
  case (Ready P xs it ys s C n)
  obtain b q where q: "lr_push (it\<lparr>i_len := n\<rparr>) (sb_ready s) = (b, q)" by fastforce
  have ok: "ring_ok k (lr_ring (sb_ready s))" using Ready by (simp add: sbuf_inv_def)
  have "length (ring_contents (lr_ring (sb_ready s))) < 2 ^ k"
    using mset_total [OF Ready.prems] Ready.hyps by simp
  from lr_push_room [OF ok this q] show ?case
    using Ready q by (simp add: sbuf_inv_def indices_def ready_def Let_def)
next
  case (Free C xs it ys s P)
  obtain b q where q: "lr_push it (sb_free s) = (b, q)" by fastforce
  have ok: "ring_ok k (lr_ring (sb_free s))" using Free by (simp add: sbuf_inv_def)
  have "length (ring_contents (lr_ring (sb_free s))) < 2 ^ k"
    using mset_total [OF Free.prems] Free.hyps by simp
  from lr_push_room [OF ok this q] show ?case
    using Free q by (simp add: sbuf_inv_def indices_def free_item_def Let_def)
qed

lemma fill_free:
  assumes "ring_ok k (lr_ring q)" and "ring_contents (lr_ring q) = []" and "n \<le> 2 ^ k"
  shows "let q' = fold (\<lambda>i q. snd (lr_push \<lparr>i_index = of_nat i, i_len = 0, i_address = None\<rparr> q)) [0..<n] q
    in ring_ok k (lr_ring q') \<and> map i_index (ring_contents (lr_ring q')) = map of_nat [0..<n]"
  using assms(3)
proof (induction n)
  case 0
  then show ?case using assms by simp
next
  case (Suc n)
  let ?push = "\<lambda>i q. snd (lr_push \<lparr>i_index = of_nat i, i_len = 0, i_address = None\<rparr> q)"
  let ?q = "fold ?push [0..<n] q"
  have ih: "ring_ok k (lr_ring ?q)" "map i_index (ring_contents (lr_ring ?q)) = map of_nat [0..<n]"
    using Suc by (simp_all add: Let_def)
  have "length (ring_contents (lr_ring ?q)) = n" using arg_cong [OF ih(2), of length] by simp
  then have room: "length (ring_contents (lr_ring ?q)) < 2 ^ k" using Suc.prems by simp
  obtain b q' where p: "lr_push \<lparr>i_index = of_nat n, i_len = 0, i_address = None\<rparr> ?q = (b, q')" by fastforce
  show ?case using lr_push_room [OF ih(1) room p] ih(2) p by (simp add: Let_def)
qed

lemma initContext_inv:
  assumes "k < 32" and "length (r_data (lr_ring (sb_free s))) = 2 ^ k"
    and "length (r_data (lr_ring (sb_ready s))) = 2 ^ k"
  shows "sbuf_inv k (initContext s, [], [])"
proof -
  have f: "ring_ok k (lr_ring (lr_init (sb_free s)))" "ring_contents (lr_ring (lr_init (sb_free s))) = []"
      "length (r_data (lr_ring (lr_init (sb_free s)))) = 2 ^ k"
    and r: "ring_ok k (lr_ring (lr_init (sb_ready s)))" "ring_contents (lr_ring (lr_init (sb_ready s))) = []"
    using assms by (simp_all add: lr_init_def ring_reset_def ring_ok_def ring_contents_def ring_size_def)
  show ?thesis
    using fill_free [OF f(1,2), of "2 ^ k"] r f(3)
    by (simp add: sbuf_inv_def indices_def initContext_def Let_def)
qed

section \<open>Properties\<close>

text \<open>(C14) Whatever the order of the pushes and pops, and however often the 32-bit counters of the
  ring have wrapped around, the elements popped followed by the ones still queued are the ones
  that were queued at the start followed by the accepted pushes, in order; the queue never holds
  more than its capacity.\<close>

theorem ring_fifo:
  assumes "ring_ok k r" and "rq.run ops r = (out, acc, r')"
  shows "out @ ring_contents r' = ring_contents r @ acc \<and> ring_ok k r'
    \<and> length (ring_contents r') \<le> 2 ^ k"
  using rq.run_fifo [OF assms] rq.run_ok [OF assms] rq.run_bound [OF assms] by simp

theorem ring_fifo_witness:
  "\<exists>out acc r'. rq.run [Push (1 :: nat), Push 2, Pop, Push 3, Push 4, Pop]
      \<lparr>r_head = - 1, r_tail = - 1, r_data = [0, 0]\<rparr> = (out, acc, r')
    \<and> out @ ring_contents r' = ring_contents \<lparr>r_head = - 1, r_tail = - 1, r_data = [0, 0 :: nat]\<rparr> @ acc"
proof -
  let ?r = "\<lparr>r_head = - 1, r_tail = - 1, r_data = [0, 0 :: nat]\<rparr>"
  obtain out acc r' where run: "rq.run [Push 1, Push 2, Pop, Push 3, Push 4, Pop] ?r = (out, acc, r')"
    by (metis prod_cases3)
  have "ring_ok 1 ?r" by (simp add: ring_ok_def ring_size_def)
  from ring_fifo [OF this run] run show ?thesis by blast
qed

text \<open>A push is refused exactly when the ring holds as many elements as its capacity, and then
  changes nothing; a pop fails exactly on an empty ring; the available space is the difference.\<close>

theorem ring_guards:
  assumes "ring_ok k r"
  shows "fst (ring_push x r) = (length (ring_contents r) < 2 ^ k)
    \<and> (fst (ring_push x r) \<or> snd (ring_push x r) = r)
    \<and> (fst (ring_pop r) = None) = (ring_contents r = [])
    \<and> unat (ring_available r) = 2 ^ k - length (ring_contents r)"
proof -
  have k: "k < 32" "length (r_data r) = 2 ^ k" "unat (ring_size r) \<le> 2 ^ k"
    using assms by (simp_all add: ring_ok_def)
  have "unat (ring_available r) = 2 ^ k - unat (ring_size r)"
    using k unat_capacity [OF k(1,2)] by (simp add: ring_available_def unat_sub word_le_nat_alt)
  moreover have "length (ring_contents r) \<le> 2 ^ k" using rq.contents_bound [OF assms] .
  ultimately show ?thesis
    using isFull_iff [OF assms] isEmpty_iff [of r]
    by (auto simp: ring_push_def ring_pop_def Let_def ring_contents_def)
qed

theorem ring_guards_witness:
  "fst (ring_push 5 \<lparr>r_head = 1, r_tail = - 1, r_data = [7, 8 :: nat]\<rparr>) = False"
proof -
  have "ring_ok 1 \<lparr>r_head = 1, r_tail = - 1, r_data = [7, 8 :: nat]\<rparr>"
    by (simp add: ring_ok_def ring_size_def)
  from ring_guards [OF this, of 5] show ?thesis
    by (simp add: ring_contents_def ring_size_def)
qed

text \<open>(C12) No buffer of a pool is ever lost, duplicated or shared: in every state that any
  interleaving of the producer's and the consumer's steps reaches from an initialised pool of
  \<open>2 ^ k\<close> buffers, the indices that are free, held by the producer, ready and held by the
  consumer are together exactly the indices of the pool, each once.\<close>

theorem sbuf_conserves_buffers:
  assumes "k < 32" and "length (r_data (lr_ring (sb_free s))) = 2 ^ k"
    and "length (r_data (lr_ring (sb_ready s))) = 2 ^ k"
    and "sbuf_step\<^sup>*\<^sup>* (initContext s, [], []) w"
  shows "mset (indices w) = mset (map of_nat [0..<2 ^ k]) \<and> distinct (indices w)"
proof -
  from assms(4) have inv: "sbuf_inv k w"
    by (induction rule: rtranclp_induct) (auto intro: initContext_inv [OF assms(1-3)] sbuf_step_inv)
  then have m: "mset (indices w) = mset (map of_nat [0..<2 ^ k])"
    by (cases w) (simp add: sbuf_inv_def Let_def)
  have "inj_on (of_nat :: nat \<Rightarrow> u32) {0..<2 ^ k}"
  proof (rule inj_onI)
    fix x y assume "x \<in> {0..<2 ^ k}" "y \<in> {0..<2 ^ k}" and eq: "(of_nat x :: u32) = of_nat y"
    then have "x < 4294967296" "y < 4294967296" using pow_less_32 [OF assms(1)] by simp_all
    then have "unat (of_nat x :: u32) = x" "unat (of_nat y :: u32) = y"
      by (simp_all add: unsigned_of_nat take_bit_nat_eq_self)
    then show "x = y" using eq by metis
  qed
  then have "distinct (map (of_nat :: nat \<Rightarrow> u32) [0..<2 ^ k])" by (simp add: distinct_map)
  then have "distinct (indices w)" using m by (metis mset_eq_imp_distinct_iff)
  with m show ?thesis by simp
qed

theorem sbuf_conserves_buffers_witness:
  defines "q \<equiv> \<lparr>lr_ring = \<lparr>r_head = 0, r_tail = 0, r_data = replicate 4 \<lparr>i_index = 0, i_len = 0, i_address = None\<rparr>\<rparr>, lr_signals = 0\<rparr>"
  defines "s \<equiv> \<lparr>sb_free = q, sb_ready = q, sb_buffers = [(), (), (), ()]\<rparr>"
  shows "mset (indices (initContext s, [], [])) = mset (map of_nat [0..<2 ^ 2])"
  using sbuf_conserves_buffers [of 2 s "(initContext s, [], [])"]
  by (simp add: s_def q_def del: upt_rec_numeral)

text \<open>Since a pool never holds more items than buffers, making an allocated buffer ready and
  freeing a consumed one always succeed (the code ignores the result of the two pushes), and each
  wakes up the other side.\<close>

theorem sbuf_push_never_full:
  assumes "sbuf_inv k (s, P, C)"
  shows "(P \<noteq> [] \<longrightarrow> fst (lr_push it (sb_ready s)) \<and> lr_signals (sb_ready (ready it s)) = Suc (lr_signals (sb_ready s)))
    \<and> (C \<noteq> [] \<longrightarrow> fst (lr_push it (sb_free s)) \<and> lr_signals (sb_free (free_item it s)) = Suc (lr_signals (sb_free s)))"
proof -
  have ok: "ring_ok k (lr_ring (sb_ready s))" "ring_ok k (lr_ring (sb_free s))"
    using assms by (simp_all add: sbuf_inv_def)
  obtain b q b' q' where p: "lr_push it (sb_ready s) = (b, q)" "lr_push it (sb_free s) = (b', q')"
    by fastforce
  have "P \<noteq> [] \<Longrightarrow> length (ring_contents (lr_ring (sb_ready s))) < 2 ^ k"
    "C \<noteq> [] \<Longrightarrow> length (ring_contents (lr_ring (sb_free s))) < 2 ^ k"
    using mset_total [OF assms] by (cases P; cases C; simp)+
  then show ?thesis
    using lr_push_room [OF ok(1) _ p(1)] lr_push_room [OF ok(2) _ p(2)] p
    by (auto simp: ready_def free_item_def)
qed

theorem sbuf_push_never_full_witness:
  defines "q \<equiv> \<lparr>lr_ring = \<lparr>r_head = 0, r_tail = 0, r_data = [\<lparr>i_index = 0, i_len = 0, i_address = None\<rparr>]\<rparr>, lr_signals = 0\<rparr>"
  defines "s \<equiv> \<lparr>sb_free = q, sb_ready = q, sb_buffers = [()]\<rparr>"
  shows "fst (lr_push \<lparr>i_index = 0, i_len = 4, i_address = Some 0\<rparr> (sb_ready s))"
proof -
  let ?it = "\<lparr>i_index = 0, i_len = 4, i_address = Some 0\<rparr>"
  have "sbuf_inv 0 (s, [?it], [])"
    by (simp add: sbuf_inv_def indices_def ring_ok_def ring_contents_def ring_size_def s_def q_def)
  from sbuf_push_never_full [OF this, of ?it] show ?thesis by simp
qed

end
