(* ===== verification/SII.thy ===== *)
theory SII
  imports Wire "HOL-Library.Monad_Syntax"
begin

text \<open>
  The slave information interface: the content of a slave's EEPROM, parsed into a structure and
  serialized back (\<open>lib/src/SIIParser.cc\<close>, \<open>lib/include/kickcat/SIIParser.h\<close>).

  A pointer into the EEPROM image together with its end is modelled by the bytes that remain, so
  that \<open>pos += n\<close> drops \<open>n\<close> of them and \<open>end - pos\<close> is their number; a read beyond the end gives
  \<open>None\<close>. The information and general areas, which the code copies as a whole, are kept raw.
\<close>

section \<open>Data\<close>

definition INFO_SIZE :: nat where [simp]: "INFO_SIZE = 128"
definition GENERAL_SIZE :: nat where [simp]: "GENERAL_SIZE = 32"
definition START_CATEGORY :: nat where [simp]: "START_CATEGORY = 0x40"

definition CAT_Strings :: u16 where [simp]: "CAT_Strings = 10"
definition CAT_DataTypes :: u16 where [simp]: "CAT_DataTypes = 20"
definition CAT_General :: u16 where [simp]: "CAT_General = 30"
definition CAT_FMMU :: u16 where [simp]: "CAT_FMMU = 40"
definition CAT_SyncM :: u16 where [simp]: "CAT_SyncM = 41"
definition CAT_TxPDO :: u16 where [simp]: "CAT_TxPDO = 50"
definition CAT_RxPDO :: u16 where [simp]: "CAT_RxPDO = 51"
definition CAT_DC :: u16 where [simp]: "CAT_DC = 60"
definition CAT_End :: u16 where [simp]: "CAT_End = 0xFFFF"

record pdo_mapping =
  pm_index :: u16
  pm_sync_manager :: u8
  pm_synchronization :: u8
  pm_name_index :: u8
  pm_flags :: u16
  pm_entries :: "pdo_entry list"

record raw_category =
  rc_type :: u16
  rc_data :: bytes

record sii =
  sii_info :: bytes
  sii_strings :: "bytes list"
  sii_general :: bytes
  sii_fmmus :: bytes
  sii_syncManagers :: "sm_entry list"
  sii_TxPDO :: "pdo_mapping list"
  sii_RxPDO :: "pdo_mapping list"
  sii_dc :: bytes
  sii_dataTypes :: bytes
  sii_unknown :: "raw_category list"

definition eepromSizeBytes :: "sii \<Rightarrow> u32" where
  "eepromSizeBytes s = (ucast (get16 (sii_info s) 124) + 1) * 128"

definition getString :: "sii \<Rightarrow> u8 \<Rightarrow> bytes" where
  "getString s index =
     (if index = 0 \<or> unat index \<ge> length (sii_strings s) then [] else sii_strings s ! unat index)"

section \<open>Parsing\<close>

text \<open>\<open>parseStrings\<close>: a count, then length-prefixed strings, as many as the section really holds.\<close>

fun parseStrings_loop :: "nat \<Rightarrow> bytes \<Rightarrow> bytes list \<Rightarrow> bytes list" where
  "parseStrings_loop 0 rest acc = acc"
| "parseStrings_loop (Suc n) [] acc = acc"
| "parseStrings_loop (Suc n) (len # rest) acc =
     (if unat len > length rest then acc
      else parseStrings_loop n (drop (unat len) rest) (acc @ [take (unat len) rest]))"

definition parseStrings :: "bytes \<Rightarrow> bytes list \<Rightarrow> bytes list" where
  "parseStrings section strings =
     (case section of
        [] \<Rightarrow> strings @ [[]]
      | number_of_strings # rest \<Rightarrow> parseStrings_loop (unat number_of_strings) rest (strings @ [[]]))"

definition parseFMMU :: "bytes \<Rightarrow> bytes \<Rightarrow> bytes" where
  "parseFMMU section fmmus = fold (\<lambda>i acc. acc @ [section ! i]) [0..<length section] fmmus"

function parseSyncM :: "bytes \<Rightarrow> sm_entry list \<Rightarrow> sm_entry list option" where
  "parseSyncM rest sms =
     (if length rest \<ge> 8 then do {
        raw \<leftarrow> mem_read rest 0 8;
        parseSyncM (drop 8 rest) (sms @ [dec_sm_entry raw])
      } else Some sms)"
  by pat_completeness auto
termination by (relation "measure (length o fst)") auto

fun parsePDO_entries :: "nat \<Rightarrow> bytes \<Rightarrow> pdo_entry list \<Rightarrow> (bool \<times> bytes \<times> pdo_entry list) option" where
  "parsePDO_entries 0 rest acc = Some (False, rest, acc)"
| "parsePDO_entries (Suc n) rest acc =
     (if length rest < 8 then Some (True, rest, acc)
      else do {
        raw \<leftarrow> mem_read rest 0 8;
        parsePDO_entries n (drop 8 rest) (acc @ [dec_pdo_entry raw])
      })"

text \<open>The eight bytes of a PDO header, at most 255 entries: the category's loop on the PDOs.\<close>

lemma parsePDO_entries_shrinks:
  "parsePDO_entries n rest acc = Some (t, rest', es) \<Longrightarrow> length rest' \<le> length rest"
  by (induction n rest acc rule: parsePDO_entries.induct)
    (auto simp: mem_read_def split: if_splits)

function parsePDO :: "bytes \<Rightarrow> pdo_mapping list \<Rightarrow> pdo_mapping list option" where
  "parsePDO rest pdos =
     (if length rest \<ge> 8 then do {
        index \<leftarrow> mem_read rest 0 2;
        head \<leftarrow> mem_read rest 2 4;
        flags \<leftarrow> mem_read rest 6 2;
        (truncated, rest', entries) \<leftarrow> parsePDO_entries (unat (head ! 0)) (drop 8 rest) [];
        let mapping = \<lparr>pm_index = from_le index, pm_sync_manager = head ! 1,
              pm_synchronization = head ! 2, pm_name_index = head ! 3,
              pm_flags = from_le flags, pm_entries = entries\<rparr>;
        if truncated then Some (pdos @ [mapping]) else parsePDO rest' (pdos @ [mapping])
      } else Some pdos)"
  by pat_completeness auto
termination
  by (relation "measure (length o fst)") (auto dest: parsePDO_entries_shrinks)

definition parse_category :: "u16 \<Rightarrow> bytes \<Rightarrow> sii \<Rightarrow> sii option" where
  "parse_category category_type section s =
     (if category_type = CAT_Strings then Some (s\<lparr>sii_strings := parseStrings section (sii_strings s)\<rparr>)
      else if category_type = CAT_DataTypes then Some (s\<lparr>sii_dataTypes := section\<rparr>)
      else if category_type = CAT_General then
        Some (s\<lparr>sii_general := poke (replicate GENERAL_SIZE 0) 0 (take (min (length section) GENERAL_SIZE) section)\<rparr>)
      else if category_type = CAT_FMMU then Some (s\<lparr>sii_fmmus := parseFMMU section (sii_fmmus s)\<rparr>)
      else if category_type = CAT_SyncM then
        do { sms \<leftarrow> parseSyncM section (sii_syncManagers s); Some (s\<lparr>sii_syncManagers := sms\<rparr>) }
      else if category_type = CAT_TxPDO then
        do { pdos \<leftarrow> parsePDO section (sii_TxPDO s); Some (s\<lparr>sii_TxPDO := pdos\<rparr>) }
      else if category_type = CAT_RxPDO then
        do { pdos \<leftarrow> parsePDO section (sii_RxPDO s); Some (s\<lparr>sii_RxPDO := pdos\<rparr>) }
      else if category_type = CAT_DC then Some (s\<lparr>sii_dc := section\<rparr>)
      else Some (s\<lparr>sii_unknown := sii_unknown s @ [\<lparr>rc_type = category_type, rc_data = section\<rparr>]\<rparr>))"

text \<open>
  The loop on the categories; \<open>category_size\<close> is a 16-bit product, which wraps around when the
  category announces 32768 words or more.
\<close>

function parse_categories :: "bytes \<Rightarrow> sii \<Rightarrow> sii option" where
  "parse_categories rest s =
     (if length rest > 4 then do {
        ty \<leftarrow> mem_read rest 0 2;
        words \<leftarrow> mem_read rest 2 2;
        let category_type = (from_le ty :: u16);
        let category_size = unat (from_le words * 2 :: u16);
        let category_data = drop 4 rest;
        if category_size > length category_data then Some s
        else do {
          section \<leftarrow> mem_read category_data 0 category_size;
          if category_type = CAT_End then Some s
          else do {
            s' \<leftarrow> parse_category category_type section s;
            parse_categories (drop category_size category_data) s'
          }
        }
      } else Some s)"
  by pat_completeness auto
termination by (relation "measure (length o fst)") auto

definition SII_parse :: "bytes \<Rightarrow> sii \<Rightarrow> (string + sii) option" where
  "SII_parse data s =
     (if length data < INFO_SIZE then Some (Inl ''EEPROM data too small for InfoEntry header'')
      else do {
        info \<leftarrow> mem_read data 0 INFO_SIZE;
        let s0 = \<lparr>sii_info = info, sii_strings = [], sii_general = replicate GENERAL_SIZE 0, sii_fmmus = [],
              sii_syncManagers = [], sii_TxPDO = [], sii_RxPDO = [], sii_dc = [], sii_dataTypes = [],
              sii_unknown = []\<rparr>;
        let category_start = START_CATEGORY * 2;
        if length data \<le> category_start + 4 then Some (Inr s0)
        else map_option Inr (parse_categories (drop category_start data) s0)
      })"

section \<open>Serializing\<close>

fun crc8_bits :: "nat \<Rightarrow> u8 \<Rightarrow> u8" where
  "crc8_bits 0 crc = crc"
| "crc8_bits (Suc n) crc =
     crc8_bits n (if crc AND 0x80 \<noteq> 0 then push_bit 1 crc XOR 0x07 else push_bit 1 crc)"

definition crc8_step :: "u8 \<Rightarrow> u8 \<Rightarrow> u8" where
  "crc8_step crc d = crc8_bits 8 (crc XOR d)"

definition computeInfoCRC :: "bytes \<Rightarrow> u16" where
  "computeInfoCRC info = ucast (foldl crc8_step 0xFF (take 14 info))"

definition appendCategory :: "u16 \<Rightarrow> bytes \<Rightarrow> bytes" where
  "appendCategory ty data = le16 ty @ le16 (of_nat (length data div 2)) @ data"

definition pad_even :: "bytes \<Rightarrow> bytes" where
  "pad_even d = (if length d mod 2 \<noteq> 0 then d @ [0] else d)"

definition string_data :: "bytes \<Rightarrow> bytes" where
  "string_data str = (let len = (if length str > 0xFF then 0xFF else length str)
     in of_nat len # take len str)"

definition strings_section :: "bytes list \<Rightarrow> bytes" where
  "strings_section strings =
     pad_even (of_nat (length strings - 1) # concat (map string_data (tl strings)))"

definition pdo_section :: "pdo_mapping \<Rightarrow> bytes" where
  "pdo_section m =
     le16 (pm_index m)
     @ [of_nat (length (pm_entries m)), pm_sync_manager m, pm_synchronization m, pm_name_index m]
     @ le16 (pm_flags m) @ concat (map enc_pdo_entry (pm_entries m))"

definition SII_serialize :: "sii \<Rightarrow> bytes" where
  "SII_serialize s =
     poke (sii_info s) 14 (le16 (computeInfoCRC (sii_info s)))
     @ (if length (sii_strings s) > 1 then appendCategory CAT_Strings (strings_section (sii_strings s)) else [])
     @ (if sii_dataTypes s \<noteq> [] then appendCategory CAT_DataTypes (sii_dataTypes s) else [])
     @ appendCategory CAT_General (sii_general s)
     @ (if sii_fmmus s \<noteq> [] then appendCategory CAT_FMMU (pad_even (sii_fmmus s)) else [])
     @ (if sii_syncManagers s \<noteq> []
        then appendCategory CAT_SyncM (concat (map enc_sm_entry (sii_syncManagers s))) else [])
     @ concat (map (\<lambda>m. appendCategory CAT_TxPDO (pdo_section m)) (sii_TxPDO s))
     @ concat (map (\<lambda>m. appendCategory CAT_RxPDO (pdo_section m)) (sii_RxPDO s))
     @ (if sii_dc s \<noteq> [] then appendCategory CAT_DC (sii_dc s) else [])
     @ concat (map (\<lambda>r. appendCategory (rc_type r) (rc_data r)) (sii_unknown s))
     @ le16 CAT_End @ le16 0"

definition registerString :: "bytes \<Rightarrow> sii \<Rightarrow> u8 \<times> sii" where
  "registerString text s =
     (let strings = (if sii_strings s = [] then [[]] else sii_strings s);
          s = s\<lparr>sii_strings := strings\<rparr>
      in if text = [] then (0, s)
         else case find (\<lambda>i. strings ! i = text) [1..<length strings] of
           Some i \<Rightarrow> (of_nat i, s)
         | None \<Rightarrow> if length strings > 0xFF then (0, s)
                   else (of_nat (length strings), s\<lparr>sii_strings := strings @ [text]\<rparr>))"

declare parseSyncM.simps [simp del] parsePDO.simps [simp del] parse_categories.simps [simp del]

section \<open>Parsing stays inside the image\<close>

lemma parseSyncM_total: "\<exists>sms'. parseSyncM rest sms = Some sms'"
proof (induction rest sms rule: parseSyncM.induct)
  case (1 rest sms)
  then show ?case by (subst parseSyncM.simps) simp
qed

lemma parsePDO_entries_total: "\<exists>t rest' es. parsePDO_entries n rest acc = Some (t, rest', es)"
  by (induction n rest acc rule: parsePDO_entries.induct) auto

lemma parsePDO_total: "\<exists>pdos'. parsePDO rest pdos = Some pdos'"
proof (induction rest pdos rule: parsePDO.induct)
  case (1 rest pdos)
  show ?case
  proof (cases "length rest \<ge> 8")
    case True
    obtain t rest' es where e:
      "parsePDO_entries (unat (peek rest 2 4 ! 0)) (drop 8 rest) [] = Some (t, rest', es)"
      using parsePDO_entries_total by blast
    show ?thesis
      using 1 [OF True] e True by (subst parsePDO.simps) (auto simp: Let_def)
  qed (simp add: parsePDO.simps)
qed

lemma parse_category_total: "\<exists>s'. parse_category ty sec s = Some s'"
proof -
  obtain a b c where "parseSyncM sec (sii_syncManagers s) = Some a" "parsePDO sec (sii_TxPDO s) = Some b"
      "parsePDO sec (sii_RxPDO s) = Some c"
    using parseSyncM_total parsePDO_total by blast
  then show ?thesis by (simp add: parse_category_def)
qed

lemma parse_categories_total: "\<exists>s'. parse_categories rest s = Some s'"
proof (induction rest s rule: parse_categories.induct)
  case (1 rest s)
  show ?case
  proof (cases "length rest > 4")
    case True
    obtain s' where "parse_category (from_le (peek rest 0 2))
        (peek (drop 4 rest) 0 (unat (from_le (peek rest 2 2) * 2 :: u16))) s = Some s'"
      using parse_category_total by blast
    then show ?thesis
      using 1 [OF True] True by (subst parse_categories.simps) (auto simp: Let_def)
  qed (simp add: parse_categories.simps)
qed

section \<open>Serialized sections parse back\<close>

lemma parse_category_step:
  assumes "even (length d)" and "length d < 65536" and "ty \<noteq> CAT_End" and "rest \<noteq> []"
  shows "parse_categories (appendCategory ty d @ rest) s = parse_category ty d s \<bind> parse_categories rest"
proof -
  have "(of_nat (length d div 2) * 2 :: u16) = of_nat (length d div 2 * 2)" by simp
  moreover have "unat (of_nat (length d) :: u16) = length d"
    using assms(2) by (intro unat_of_nat_small) simp
  ultimately have size: "unat (of_nat (length d div 2) * 2 :: u16) = length d"
    using assms(1) by simp
  have *: "length (appendCategory ty d @ rest) > 4" using assms(4) by (simp add: appendCategory_def)
  have rd: "mem_read (appendCategory ty d @ rest) 0 2 = Some (le16 ty)"
      "mem_read (appendCategory ty d @ rest) 2 2 = Some (le16 (of_nat (length d div 2)))"
      "drop 4 (appendCategory ty d @ rest) = d @ rest" "mem_read (d @ rest) 0 (length d) = Some d"
    by (simp_all add: appendCategory_def mem_read_def peek_def)
  show ?thesis
    using * assms(3)
    by (subst parse_categories.simps) (simp add: rd size Let_def del: drop_append length_append, simp)
qed

text \<open>A sequence of categories, and what parsing them one after the other does.\<close>

type_synonym category = "u16 \<times> bytes"

definition good_category :: "category \<Rightarrow> bool" where
  "good_category c \<longleftrightarrow> even (length (snd c)) \<and> length (snd c) < 65536 \<and> fst c \<noteq> CAT_End"

fun parse_all :: "category list \<Rightarrow> sii \<Rightarrow> sii option" where
  "parse_all [] s = Some s"
| "parse_all (c # cs) s = parse_category (fst c) (snd c) s \<bind> parse_all cs"

lemma parse_all_append: "parse_all (cs @ ds) s = parse_all cs s \<bind> parse_all ds"
  by (induction cs arbitrary: s) (auto simp: bind_eq_Some_conv split: option.splits Option.bind_splits)

definition enc_categories :: "category list \<Rightarrow> bytes" where
  "enc_categories cs = concat (map (\<lambda>c. appendCategory (fst c) (snd c)) cs)"

lemma parse_enc_categories:
  "list_all good_category cs \<Longrightarrow> length tail = 4
    \<Longrightarrow> parse_categories (enc_categories cs @ tail) s = parse_all cs s"
proof (induction cs arbitrary: s)
  case Nil
  then show ?case by (simp add: enc_categories_def parse_categories.simps)
next
  case (Cons c cs)
  have ne: "enc_categories cs @ tail \<noteq> []" using Cons.prems by auto
  have "parse_categories (enc_categories (c # cs) @ tail) s =
      parse_category (fst c) (snd c) s \<bind> parse_categories (enc_categories cs @ tail)"
    using Cons.prems parse_category_step [OF _ _ _ ne, of "snd c" "fst c" s]
    by (simp add: enc_categories_def good_category_def)
  moreover have "parse_categories (enc_categories cs @ tail) = parse_all cs"
    using Cons by (intro ext) simp
  ultimately show ?case by simp
qed

lemma parseStrings_loop_section:
  "list_all (\<lambda>x. length x \<le> 255) ss
    \<Longrightarrow> parseStrings_loop (length ss) (concat (map string_data ss) @ pad) acc = acc @ ss"
proof (induction ss arbitrary: acc)
  case (Cons x xs)
  then have "unat (of_nat (length x) :: u8) = length x" by (intro unat_of_nat_small) simp
  with Cons show ?case by (simp add: string_data_def)
qed simp

lemma parseStrings_section:
  assumes "hd strs = []" and "strs \<noteq> []" and "length strs \<le> 256" and "list_all (\<lambda>x. length x \<le> 255) strs"
  shows "parseStrings (strings_section strs) [] = strs"
proof -
  obtain ss where strs: "strs = [] # ss" using assms by (cases strs) auto
  have "unat (of_nat (length ss) :: u8) = length ss"
    using assms(3) by (intro unat_of_nat_small) (simp add: strs)
  moreover obtain pad where "strings_section strs = (of_nat (length ss) # concat (map string_data ss)) @ pad"
  proof -
    have "\<exists>pad. pad_even d = d @ pad" for d by (auto simp: pad_even_def)
    then show thesis using that unfolding strings_section_def strs by (metis diff_Suc_1 length_Cons list.sel(3))
  qed
  ultimately show ?thesis
    using assms(4) parseStrings_loop_section [of ss pad "[[]]"] by (simp add: parseStrings_def strs)
qed

lemma parseFMMU_append: "parseFMMU sec acc = acc @ sec"
proof -
  have "fold (\<lambda>i acc. acc @ [sec ! i]) is acc = acc @ map ((!) sec) is" for "is" acc
    by (induction "is" arbitrary: acc) simp_all
  then show ?thesis by (simp add: parseFMMU_def map_nth)
qed

lemma parseSyncM_section: "parseSyncM (concat (map enc_sm_entry es)) acc = Some (acc @ es)"
proof (induction es arbitrary: acc)
  case Nil
  show ?case by (simp add: parseSyncM.simps)
next
  case (Cons e es)
  have "parseSyncM (concat (map enc_sm_entry (e # es))) acc = parseSyncM (concat (map enc_sm_entry es)) (acc @ [e])"
    by (subst parseSyncM.simps) (simp add: se.length_enc mem_read_def se.dec_append se.dec_enc)
  then show ?case using Cons by simp
qed

lemma parsePDO_entries_section:
  "parsePDO_entries (length es) (concat (map enc_pdo_entry es)) acc = Some (False, [], acc @ es)"
  by (induction es arbitrary: acc) (simp_all add: pe.length_enc mem_read_def pe.dec_append pe.dec_enc)

lemma parsePDO_section:
  assumes "length (pm_entries m) \<le> 255"
  shows "parsePDO (pdo_section m) acc = Some (acc @ [m])"
proof -
  let ?es = "concat (map enc_pdo_entry (pm_entries m))"
  have count: "unat (of_nat (length (pm_entries m)) :: u8) = length (pm_entries m)"
    using assms by (intro unat_of_nat_small) simp
  have rd: "mem_read (pdo_section m) 0 2 = Some (le16 (pm_index m))"
      "mem_read (pdo_section m) 2 4 = Some [of_nat (length (pm_entries m)), pm_sync_manager m,
         pm_synchronization m, pm_name_index m]"
      "mem_read (pdo_section m) 6 2 = Some (le16 (pm_flags m))" "drop 8 (pdo_section m) = ?es"
    by (simp_all add: pdo_section_def mem_read_def peek_def)
  have "length (pdo_section m) \<ge> 8" by (simp add: pdo_section_def)
  then show ?thesis
    using parsePDO_entries_section [of "pm_entries m" "[]"]
    by (subst parsePDO.simps) (simp add: rd count Let_def parsePDO.simps)
qed

lemma parse_all_TxPDO:
  "list_all (\<lambda>m. length (pm_entries m) \<le> 255) ms \<Longrightarrow>
    parse_all (map (\<lambda>m. (CAT_TxPDO, pdo_section m)) ms) s = Some (s\<lparr>sii_TxPDO := sii_TxPDO s @ ms\<rparr>)"
  by (induction ms arbitrary: s) (simp_all add: parse_category_def parsePDO_section)

lemma parse_all_RxPDO:
  "list_all (\<lambda>m. length (pm_entries m) \<le> 255) ms \<Longrightarrow>
    parse_all (map (\<lambda>m. (CAT_RxPDO, pdo_section m)) ms) s = Some (s\<lparr>sii_RxPDO := sii_RxPDO s @ ms\<rparr>)"
  by (induction ms arbitrary: s) (simp_all add: parse_category_def parsePDO_section)

definition known_categories :: "u16 set" where
  "known_categories = {CAT_Strings, CAT_DataTypes, CAT_General, CAT_FMMU, CAT_SyncM, CAT_TxPDO,
     CAT_RxPDO, CAT_DC, CAT_End}"

lemma parse_all_unknown:
  "list_all (\<lambda>r. rc_type r \<notin> known_categories) rs \<Longrightarrow>
    parse_all (map (\<lambda>r. (rc_type r, rc_data r)) rs) s = Some (s\<lparr>sii_unknown := sii_unknown s @ rs\<rparr>)"
  by (induction rs arbitrary: s) (simp_all add: parse_category_def known_categories_def)

section \<open>What a serializable structure is\<close>

definition wf_strings :: "bytes list \<Rightarrow> bool" where
  "wf_strings strs \<longleftrightarrow> length strs \<le> 1 \<or>
     (hd strs = [] \<and> length strs \<le> 256 \<and> list_all (\<lambda>x. length x \<le> 255) strs
      \<and> length (strings_section strs) < 65536)"

definition wf_sii :: "sii \<Rightarrow> bool" where
  "wf_sii s \<longleftrightarrow> length (sii_info s) = INFO_SIZE \<and> length (sii_general s) = GENERAL_SIZE
     \<and> wf_strings (sii_strings s)
     \<and> even (length (sii_dataTypes s)) \<and> length (sii_dataTypes s) < 65536
     \<and> length (sii_fmmus s) < 65535 \<and> 8 * length (sii_syncManagers s) < 65536
     \<and> list_all (\<lambda>m. length (pm_entries m) \<le> 255) (sii_TxPDO s)
     \<and> list_all (\<lambda>m. length (pm_entries m) \<le> 255) (sii_RxPDO s)
     \<and> even (length (sii_dc s)) \<and> length (sii_dc s) < 65536
     \<and> list_all (\<lambda>r. rc_type r \<notin> known_categories \<and> even (length (rc_data r)) \<and> length (rc_data r) < 65536)
         (sii_unknown s)"

text \<open>What serializing settles: the checksum of the information area, the padding of the FMMU list.\<close>

definition settled :: "sii \<Rightarrow> sii" where
  "settled s = s\<lparr>sii_info := poke (sii_info s) 14 (le16 (computeInfoCRC (sii_info s))),
     sii_strings := (if length (sii_strings s) > 1 then sii_strings s else []),
     sii_fmmus := pad_even (sii_fmmus s)\<rparr>"

definition categories :: "sii \<Rightarrow> category list" where
  "categories s =
     (if length (sii_strings s) > 1 then [(CAT_Strings, strings_section (sii_strings s))] else [])
     @ (if sii_dataTypes s \<noteq> [] then [(CAT_DataTypes, sii_dataTypes s)] else [])
     @ [(CAT_General, sii_general s)]
     @ (if sii_fmmus s \<noteq> [] then [(CAT_FMMU, pad_even (sii_fmmus s))] else [])
     @ (if sii_syncManagers s \<noteq> []
        then [(CAT_SyncM, concat (map enc_sm_entry (sii_syncManagers s)))] else [])
     @ map (\<lambda>m. (CAT_TxPDO, pdo_section m)) (sii_TxPDO s)
     @ map (\<lambda>m. (CAT_RxPDO, pdo_section m)) (sii_RxPDO s)
     @ (if sii_dc s \<noteq> [] then [(CAT_DC, sii_dc s)] else [])
     @ map (\<lambda>r. (rc_type r, rc_data r)) (sii_unknown s)"

lemma serialize_categories:
  "SII_serialize s = poke (sii_info s) 14 (le16 (computeInfoCRC (sii_info s)))
     @ enc_categories (categories s) @ (le16 CAT_End @ le16 0)"
  by (simp add: SII_serialize_def categories_def enc_categories_def comp_def)

lemma even_pad: "even (length (pad_even d))" "length (pad_even d) \<le> Suc (length d)"
  by (simp_all add: pad_even_def flip: even_iff_mod_2_eq_zero)

lemma length_concat_const: "(\<And>x. length (f x) = n) \<Longrightarrow> length (concat (map f xs)) = n * length xs"
  by (induction xs) simp_all

lemma length_pdo_section: "length (pdo_section m) = 8 + 8 * length (pm_entries m)"
  by (simp add: pdo_section_def length_concat_const [of enc_pdo_entry 8] pe.length_enc)

lemma categories_good:
  assumes "wf_sii s"
  shows "list_all good_category (categories s)"
proof -
  have "good_category (CAT_FMMU, pad_even (sii_fmmus s))"
    using assms even_pad [of "sii_fmmus s"] by (simp add: wf_sii_def good_category_def)
  moreover have "good_category (CAT_SyncM, concat (map enc_sm_entry (sii_syncManagers s)))"
    using assms by (simp add: wf_sii_def good_category_def length_concat_const [of enc_sm_entry 8] se.length_enc)
  moreover have "good_category (CAT_Strings, strings_section (sii_strings s))" if "length (sii_strings s) > 1"
    using assms that even_pad by (simp add: wf_sii_def good_category_def wf_strings_def strings_section_def)
  ultimately show ?thesis
    using assms
    by (auto simp: categories_def wf_sii_def good_category_def length_pdo_section known_categories_def list_all_iff)
qed

lemma parse_all_categories:
  assumes wf: "wf_sii s"
  shows "parse_all (categories s)
      \<lparr>sii_info = info, sii_strings = [], sii_general = replicate GENERAL_SIZE 0, sii_fmmus = [],
       sii_syncManagers = [], sii_TxPDO = [], sii_RxPDO = [], sii_dc = [], sii_dataTypes = [],
       sii_unknown = []\<rparr>
    = Some (settled s\<lparr>sii_info := info\<rparr>)"
proof -
  have general: "poke (replicate 32 0) 0 (take (min (length (sii_general s)) 32) (sii_general s)) = sii_general s"
    using wf by (simp add: wf_sii_def poke_def)
  have strings: "parseStrings (strings_section (sii_strings s)) [] = sii_strings s" if "length (sii_strings s) > 1"
    using wf that by (intro parseStrings_section) (auto simp: wf_sii_def wf_strings_def)
  have pad_Nil: "pad_even [] = []" by (simp add: pad_even_def)
  have pdos: "list_all (\<lambda>m. length (pm_entries m) \<le> 255) (sii_TxPDO s)"
      "list_all (\<lambda>m. length (pm_entries m) \<le> 255) (sii_RxPDO s)"
      "list_all (\<lambda>r. rc_type r \<notin> known_categories) (sii_unknown s)"
    using wf by (auto simp: wf_sii_def list_all_iff)
  show ?thesis
    by (cases "length (sii_strings s) > 1"; cases "sii_dataTypes s = []"; cases "sii_fmmus s = []";
        cases "sii_syncManagers s = []"; cases "sii_dc s = []")
      (simp_all add: categories_def parse_all_append parse_all_TxPDO [simplified] parse_all_RxPDO [simplified] parse_all_unknown pdos
        parse_category_def general strings parseFMMU_append parseSyncM_section settled_def pad_Nil)
qed

lemma crc8_bits_inj: "crc8_bits n a = crc8_bits n b \<Longrightarrow> a = b"
proof (induction n arbitrary: a b)
  case (Suc n)
  define f where "f crc = (if crc AND 0x80 \<noteq> 0 then push_bit 1 crc XOR 0x07 else push_bit 1 crc)" for crc :: u8
  have top: "(crc AND 0x80 \<noteq> 0) = bit crc 7" for crc :: u8
  proof -
    have "(0x80 :: u8) = 2 ^ 7" by simp
    then show ?thesis by (simp only: and_exp_eq_0_iff_not_bit not_not)
  qed
  have eq: "f a = f b" by (rule Suc.IH) (use Suc.prems in \<open>simp only: crc8_bits.simps f_def\<close>)
  have low: "bit (f c) 0 = bit c 7" for c :: u8
  proof -
    have "\<not> bit (push_bit 1 c) 0" by (simp add: bit_0)
    moreover have "bit (7 :: u8) 0" by simp
    ultimately show ?thesis by (simp only: f_def top bit_xor_iff split: if_split) simp
  qed
  have up: "bit (f c) (Suc i) = (bit c i \<noteq> (bit c 7 \<and> bit (7 :: u8) (Suc i)))" if "i < 7" for c :: u8 and i
  proof -
    have "bit (push_bit 1 c) (Suc i) = bit c i"
      using that by (simp only: bit_push_bit_iff possible_bit_word) simp
    then show ?thesis by (cases "bit c 7") (simp_all only: f_def top if_True if_False bit_xor_iff simp_thms)
  qed
  have "bit (f a) 0 = bit (f b) 0" by (simp only: eq)
  then have high: "bit a 7 = bit b 7" by (simp only: low)
  have "bit a i = bit b i" if "i < 7" for i
  proof -
    have "bit (f a) (Suc i) = bit (f b) (Suc i)" by (simp only: eq)
    then show ?thesis unfolding up [OF that] high by blast
  qed
  then have "list_all (\<lambda>n. bit a n = bit b n) [0..<8]" using high by (simp add: upt_positions)
  then show "a = b" by (intro word_eq_by_bits) simp
qed simp

lemma crc8_run_inj: "foldl crc8_step c ds = foldl crc8_step d ds \<Longrightarrow> c = d"
proof (induction ds arbitrary: c d)
  case (Cons x xs)
  then have "crc8_step c x = crc8_step d x" by simp
  then have "c XOR x = d XOR x" unfolding crc8_step_def by (rule crc8_bits_inj)
  then show ?case by (auto simp: bit_eq_iff bit_simps)
qed simp

section \<open>Properties\<close>

lemma parse_serialized:
  assumes wf: "wf_sii s"
  shows "SII_parse (SII_serialize s) s0 = Some (Inr (settled s))"
proof -
  let ?info = "poke (sii_info s) 14 (le16 (computeInfoCRC (sii_info s)))"
  let ?tail = "le16 CAT_End @ le16 0"
  have len: "length ?info = 128" using wf by (simp add: wf_sii_def)
  have "enc_categories (categories s) \<noteq> []"
    by (simp add: categories_def enc_categories_def appendCategory_def)
  then have long: "length (SII_serialize s) > 132"
    using len by (simp add: serialize_categories)
  have info: "mem_read (SII_serialize s) 0 128 = Some ?info"
    and rest: "drop 128 (SII_serialize s) = enc_categories (categories s) @ ?tail"
    using len long by (simp_all add: serialize_categories)
  have "parse_categories (enc_categories (categories s) @ ?tail) s' = parse_all (categories s) s'" for s'
    using categories_good [OF wf] by (intro parse_enc_categories) simp_all
  moreover have "settled s\<lparr>sii_info := ?info\<rparr> = settled s" by (simp add: settled_def)
  ultimately show ?thesis
    using long info rest parse_all_categories [OF wf, of ?info]
    by (simp add: SII_parse_def Let_def)
qed

text \<open>(C18) Parsing the serialization of any structure that fits the format gives the structure back:
  every string, FMMU, sync manager, PDO and vendor category survives in order, the checksum of the
  information area is the computed one and the FMMU list is padded to a whole word.\<close>

theorem sii_roundtrip:
  assumes "wf_sii s"
  shows "SII_parse (SII_serialize s) s0 = Some (Inr (settled s))"
  using assms by (rule parse_serialized)

theorem sii_roundtrip_witness:
  defines "s \<equiv> \<lparr>sii_info = replicate 128 1, sii_strings = [[], [75, 67]], sii_general = replicate 32 2,
    sii_fmmus = [1, 2, 3], sii_syncManagers = [], sii_TxPDO = [\<lparr>pm_index = 0x1A00, pm_sync_manager = 3,
    pm_synchronization = 0, pm_name_index = 1, pm_flags = 0, pm_entries = []\<rparr>], sii_RxPDO = [], sii_dc = [],
    sii_dataTypes = [], sii_unknown = [\<lparr>rc_type = 0x0801, rc_data = [9, 9]\<rparr>]\<rparr>"
  shows "SII_parse (SII_serialize s) s = Some (Inr (settled s))"
  by (rule sii_roundtrip)
    (simp add: wf_sii_def wf_strings_def strings_section_def pad_even_def string_data_def known_categories_def s_def)

text \<open>Whatever the bytes of the EEPROM, and however wrong the sizes its categories announce,
  parsing returns, never reads outside the image, and fails only on an image that is smaller than
  the information area.\<close>

theorem sii_parse_total:
  "\<exists>r. SII_parse data s = Some r \<and> (isl r \<longleftrightarrow> length data < INFO_SIZE)"
proof (cases "length data \<le> 132")
  case True
  then show ?thesis by (auto simp: SII_parse_def Let_def)
next
  case False
  obtain s' where "parse_categories (drop 128 data) \<lparr>sii_info = peek data 0 128, sii_strings = [],
      sii_general = replicate 32 0, sii_fmmus = [], sii_syncManagers = [], sii_TxPDO = [], sii_RxPDO = [],
      sii_dc = [], sii_dataTypes = [], sii_unknown = []\<rparr> = Some s'"
    using parse_categories_total by blast
  then show ?thesis using False by (simp add: SII_parse_def Let_def)
qed

text \<open>The checksum that serializing writes in the information area detects the corruption of
  any one of the fourteen bytes it covers.\<close>

theorem info_crc_detects_byte:
  assumes "length info = INFO_SIZE" and "i < 14" and "b \<noteq> info ! i"
  shows "computeInfoCRC (info[i := b]) \<noteq> computeInfoCRC info"
proof
  assume "computeInfoCRC (info[i := b]) = computeInfoCRC info"
  then have eq: "foldl crc8_step 0xFF (take 14 (info[i := b])) = foldl crc8_step 0xFF (take 14 info)"
  proof -
    have narrow: "ucast (ucast c :: u16) = c" for c :: u8 by (rule bit_word_eqI) (auto simp: bit_simps)
    assume "computeInfoCRC (info[i := b]) = computeInfoCRC info"
    then show ?thesis unfolding computeInfoCRC_def by (metis narrow)
  qed
  let ?pre = "take i info" and ?post = "drop (Suc i) (take 14 info)"
  have "i < length (take 14 info)" using assms by simp
  then have split: "take 14 info = ?pre @ info ! i # ?post" "take 14 (info[i := b]) = ?pre @ b # ?post"
    using assms(2) id_take_nth_drop [of i "take 14 info"] upd_conv_take_nth_drop [of i "take 14 info" b]
    by (simp_all add: take_update_swap min_absorb1)
  have "foldl crc8_step 0xFF (?pre @ b # ?post) = foldl crc8_step 0xFF (?pre @ info ! i # ?post)"
    using eq by (simp only: split [symmetric])
  then have "foldl crc8_step (crc8_step (foldl crc8_step 0xFF ?pre) b) ?post
      = foldl crc8_step (crc8_step (foldl crc8_step 0xFF ?pre) (info ! i)) ?post"
    by (simp only: foldl_append foldl.simps)
  then have "crc8_step (foldl crc8_step 0xFF ?pre) b = crc8_step (foldl crc8_step 0xFF ?pre) (info ! i)"
    by (rule crc8_run_inj)
  then have "foldl crc8_step 0xFF ?pre XOR b = foldl crc8_step 0xFF ?pre XOR info ! i"
    unfolding crc8_step_def by (rule crc8_bits_inj)
  then have "b = info ! i" by (auto simp: bit_eq_iff bit_simps)
  with assms(3) show False by simp
qed

theorem info_crc_detects_byte_witness:
  "computeInfoCRC ((replicate 128 0)[3 := 1]) \<noteq> computeInfoCRC (replicate 128 0)"
  by (rule info_crc_detects_byte) simp_all

text \<open>Registering a string gives an index under which the pool returns that string, and no
  index given before changes its meaning; the only refusal is a pool that already has 255 strings
  and not this one.\<close>

theorem registerString_lookup:
  assumes "length (sii_strings s) \<le> 256" and "text \<noteq> []" and "registerString text s = (i, s')"
  shows "length (sii_strings s') \<le> 256
    \<and> (if i = 0 then length (sii_strings s) = 256 \<and> text \<notin> set (tl (sii_strings s)) else getString s' i = text)
    \<and> (\<forall>j. getString s j \<noteq> [] \<longrightarrow> getString s' j = getString s j)"
proof -
  define strs where "strs = (if sii_strings s = [] then [[]] else sii_strings s)"
  have ne: "strs \<noteq> []" and len: "length strs \<le> 256" using assms(1) by (auto simp: strs_def)
  have old: "getString s j = (if j = 0 \<or> unat j \<ge> length strs then [] else strs ! unat j)" for j
    by (auto simp: getString_def strs_def word_unat_eq_iff)
  have small: "unat (of_nat k :: u8) = k" if "k \<le> 255" for k
    using that by (intro unat_of_nat_small) simp
  show ?thesis
  proof (cases "find (\<lambda>k. strs ! k = text) [1..<length strs]")
    case (Some k)
    then have k: "1 \<le> k" "k < length strs" "strs ! k = text"
      by (auto simp: find_Some_iff)
    have r: "i = of_nat k" "s' = s\<lparr>sii_strings := strs\<rparr>"
      using assms(2,3) Some by (simp_all add: registerString_def strs_def Let_def)
    have "unat i = k" using k len small by (simp add: r)
    then show ?thesis
      using k len old by (auto simp: r getString_def)
  next
    case None
    then have absent: "text \<notin> set (tl strs)"
      by (auto simp: find_None_iff in_set_conv_nth nth_tl)
    show ?thesis
    proof (cases "length strs > 255")
      case True
      then have "i = 0" "s' = s\<lparr>sii_strings := strs\<rparr>"
        using assms(2,3) None by (simp_all add: registerString_def strs_def Let_def)
      then show ?thesis
        using True len absent old by (auto simp: getString_def strs_def split: if_splits)
    next
      case False
      have r: "i = of_nat (length strs)" "s' = s\<lparr>sii_strings := strs @ [text]\<rparr>"
        using assms(2,3) None False by (simp_all add: registerString_def strs_def Let_def)
      have "unat i = length strs" using False small by (simp add: r)
      then show ?thesis
        using False len ne old by (auto simp: r getString_def nth_append)
    qed
  qed
qed

theorem registerString_lookup_witness:
  defines "s \<equiv> \<lparr>sii_info = [], sii_strings = [[], [65]], sii_general = [], sii_fmmus = [], sii_syncManagers = [],
    sii_TxPDO = [], sii_RxPDO = [], sii_dc = [], sii_dataTypes = [], sii_unknown = []\<rparr>"
  shows "getString (snd (registerString [66] s)) (fst (registerString [66] s)) = [66]"
proof -
  have "registerString [66] s = (2, s\<lparr>sii_strings := [[], [65], [66]]\<rparr>)"
    by (simp add: registerString_def s_def)
  from registerString_lookup [OF _ _ this] this show ?thesis by (simp add: s_def)
qed

end
