(* ===== verification/ObjectDict.thy ===== *)
theory ObjectDict
  imports Prelude "HOL-Library.Monad_Syntax"
begin

text \<open>
  The CoE object dictionary (\<open>lib/include/kickcat/CoE/OD.h\<close>, \<open>lib/src/CoE/OD.cc\<close>): objects, their
  entries and the storage behind the entries.

  An entry points to its value through a raw pointer that the PDO mapping later redirects into
  the process image, so the storage is an explicit heap of blocks and a pointer is a block with
  an offset. Reads and writes through an invalid pointer give \<open>None\<close>.
\<close>

section \<open>Heap\<close>

type_synonym ptr = "nat \<times> nat"

record heap =
  hp_fresh :: nat
  hp_blocks :: "nat \<Rightarrow> bytes option"

definition alloc :: "bytes \<Rightarrow> heap \<Rightarrow> ptr \<times> heap" where
  "alloc init h =
     ((hp_fresh h, 0), h\<lparr>hp_fresh := Suc (hp_fresh h), hp_blocks := (hp_blocks h)(hp_fresh h \<mapsto> init)\<rparr>)"

definition dealloc :: "ptr \<Rightarrow> heap \<Rightarrow> heap option" where
  "dealloc p h = (if snd p = 0 \<and> hp_blocks h (fst p) \<noteq> None
     then Some (h\<lparr>hp_blocks := (hp_blocks h)(fst p := None)\<rparr>) else None)"

definition load :: "ptr \<Rightarrow> nat \<Rightarrow> heap \<Rightarrow> bytes option" where
  "load p n h = do { b \<leftarrow> hp_blocks h (fst p); mem_read b (snd p) n }"

definition store :: "ptr \<Rightarrow> bytes \<Rightarrow> heap \<Rightarrow> heap option" where
  "store p d h = do {
     b \<leftarrow> hp_blocks h (fst p);
     b' \<leftarrow> mem_write b (snd p) d;
     Some (h\<lparr>hp_blocks := (hp_blocks h)(fst p \<mapsto> b')\<rparr>)
   }"

definition wf_heap :: "heap \<Rightarrow> bool" where
  "wf_heap h \<longleftrightarrow> (\<forall>b. hp_blocks h b \<noteq> None \<longrightarrow> b < hp_fresh h)"

lemma load_store_same: "store p d h = Some h' \<Longrightarrow> load p (length d) h' = Some d"
  by (auto simp: store_def load_def bind_eq_Some_conv mem_write_eq_Some_iff)

lemma load_store_other:
  "store p d h = Some h' \<Longrightarrow> fst q \<noteq> fst p \<Longrightarrow> load q n h' = load q n h"
  by (auto simp: store_def load_def bind_eq_Some_conv)

lemma load_alloc_new: "alloc d h = (p, h') \<Longrightarrow> load p (length d) h' = Some d"
  by (auto simp: alloc_def load_def peek_def)

lemma load_alloc_old:
  "wf_heap h \<Longrightarrow> alloc d h = (p, h') \<Longrightarrow> load q n h = Some v \<Longrightarrow> load q n h' = Some v"
  by (auto simp: alloc_def load_def wf_heap_def bind_eq_Some_conv)

lemma wf_alloc: "wf_heap h \<Longrightarrow> alloc d h = (p, h') \<Longrightarrow> wf_heap h'"
  by (auto simp: alloc_def wf_heap_def less_Suc_eq)

section \<open>Objects and entries\<close>

datatype ObjectCode = NIL | DOMAIN | DEFTYPE | DEFSTRUCT | VAR | ARRAY | RECORD

record entry =
  en_subindex :: u8
  en_bitlen :: u16
  en_bitoff :: u16
  en_access :: u16
  en_type :: u16
  en_description :: string
  en_data :: "ptr option"
  en_is_mapped :: bool

record object =
  ob_index :: u16
  ob_code :: ObjectCode
  ob_name :: string
  ob_entries :: "entry list"

type_synonym dictionary = "object list"

definition ACCESS_READ :: u16 where [simp]: "ACCESS_READ = 0x07"
definition ACCESS_WRITE :: u16 where [simp]: "ACCESS_WRITE = 0x38"

definition Entry_new :: "u8 \<Rightarrow> u16 \<Rightarrow> u16 \<Rightarrow> u16 \<Rightarrow> u16 \<Rightarrow> string \<Rightarrow> entry" where
  "Entry_new subindex bitlen bitoff access ty description =
     \<lparr>en_subindex = subindex, en_bitlen = bitlen, en_bitoff = bitoff, en_access = access, en_type = ty,
      en_description = description, en_data = None, en_is_mapped = False\<rparr>"

definition Entry_delete :: "entry \<Rightarrow> heap \<Rightarrow> heap option" where
  "Entry_delete e h = (case en_data e of
     Some p \<Rightarrow> if \<not> en_is_mapped e then dealloc p h else Some h
   | None \<Rightarrow> Some h)"

text \<open>The data types the tools treat as scalars or strings, by their codes.\<close>

definition isBasic :: "u16 \<Rightarrow> bool" where
  "isBasic ty \<longleftrightarrow> ty \<in> set [0x0001, 0x001E, 0x001F, 0x0020, 0x0031, 0x0032, 0x0033, 0x0034, 0x0035, 0x0036,
     0x0037, 0x0002, 0x0003, 0x0010, 0x0004, 0x0012, 0x0013, 0x0014, 0x0015, 0x0005, 0x0006, 0x0016, 0x0007,
     0x0018, 0x0019, 0x001A, 0x001B, 0x0008, 0x0011, 0x0009]"

text \<open>Positions stand for the pointers to the object and to the entry.\<close>

fun find_pos :: "('a \<Rightarrow> bool) \<Rightarrow> 'a list \<Rightarrow> nat option" where
  "find_pos P [] = None"
| "find_pos P (x # xs) = (if P x then Some 0 else map_option Suc (find_pos P xs))"

lemma find_pos_Some:
  "find_pos P xs = Some i \<longleftrightarrow> i < length xs \<and> P (xs ! i) \<and> (\<forall>j < i. \<not> P (xs ! j))"
proof (induction xs arbitrary: i)
  case (Cons x xs)
  then show ?case by (cases i) (auto simp: less_Suc_eq_0_disj)
qed simp

lemma find_pos_None: "find_pos P xs = None \<longleftrightarrow> (\<forall>x \<in> set xs. \<not> P x)"
  by (induction xs) auto

definition findObject :: "dictionary \<Rightarrow> u16 \<Rightarrow> u8 \<Rightarrow> nat option \<times> nat option" where
  "findObject dict index subindex =
     (case find_pos (\<lambda>ob. ob_index ob = index) dict of
        None \<Rightarrow> (None, None)
      | Some o_pos \<Rightarrow>
          (case find_pos (\<lambda>e. en_subindex e = subindex) (ob_entries (dict ! o_pos)) of
             None \<Rightarrow> (Some o_pos, None)
           | Some e_pos \<Rightarrow> (Some o_pos, Some e_pos)))"

definition entry_at :: "dictionary \<Rightarrow> nat \<Rightarrow> nat \<Rightarrow> entry" where
  "entry_at dict o_pos e_pos = ob_entries (dict ! o_pos) ! e_pos"

definition set_entry_at :: "dictionary \<Rightarrow> nat \<Rightarrow> nat \<Rightarrow> entry \<Rightarrow> dictionary" where
  "set_entry_at dict o_pos e_pos e =
     dict[o_pos := (dict ! o_pos)\<lparr>ob_entries := (ob_entries (dict ! o_pos))[e_pos := e]\<rparr>]"

text \<open>The entry of an index and subindex, when there is one.\<close>

definition lookup :: "dictionary \<Rightarrow> u16 \<Rightarrow> u8 \<Rightarrow> entry option" where
  "lookup dict index subindex =
     (case findObject dict index subindex of (Some i, Some j) \<Rightarrow> Some (entry_at dict i j) | _ \<Rightarrow> None)"

definition addEntry :: "u8 \<Rightarrow> u16 \<Rightarrow> u16 \<Rightarrow> u16 \<Rightarrow> u16 \<Rightarrow> string \<Rightarrow> bytes \<Rightarrow> object \<Rightarrow> heap \<Rightarrow> (object \<times> heap) option" where
  "addEntry subindex bitlen bitoff access ty description data ob h = do {
     let size = (unat bitlen + 7) div 8;
     let size = (if size = 0 then 1 else size);
     let (p, h) = alloc (replicate size 0) h;
     value \<leftarrow> mem_read data 0 size;
     h \<leftarrow> store p value h;
     let e = (Entry_new subindex bitlen bitoff access ty description)\<lparr>en_data := Some p\<rparr>;
     Some (ob\<lparr>ob_entries := ob_entries ob @ [e]\<rparr>, h)
   }"

section \<open>Well-formedness\<close>

text \<open>The messages of \<open>validateDictionary\<close>, by what they report.\<close>

datatype problem = NoEntries u16 | NullCount u16 | NullData u16 u8 bool

definition is_complex :: "object \<Rightarrow> bool" where
  "is_complex ob \<longleftrightarrow> ob_code ob = ARRAY \<or> ob_code ob = RECORD"

definition validate_entry :: "u16 \<Rightarrow> entry \<Rightarrow> problem list" where
  "validate_entry index e =
     (let readable = en_access e AND ACCESS_READ \<noteq> 0; writable = en_access e AND ACCESS_WRITE \<noteq> 0
      in if (readable \<or> writable) \<and> en_bitlen e \<noteq> 0 \<and> en_data e = None
         then [NullData index (en_subindex e) readable] else [])"

definition validate_object :: "object \<Rightarrow> problem list" where
  "validate_object ob =
     (if is_complex ob then
        (case ob_entries ob of
           [] \<Rightarrow> [NoEntries (ob_index ob)]
         | e # _ \<Rightarrow> if en_data e = None then [NullCount (ob_index ob)] else [])
      else [])
     @ concat (map (validate_entry (ob_index ob)) (ob_entries ob))"

definition validateDictionary :: "dictionary \<Rightarrow> problem list" where
  "validateDictionary dict = concat (map validate_object dict)"

definition ensure :: "entry \<Rightarrow> heap \<Rightarrow> entry \<times> heap" where
  "ensure e h =
     (if en_data e \<noteq> None \<or> en_bitlen e = 0 then (e, h)
      else let size = (unat (en_bitlen e) + 7) div 8;
               size = (if size = 0 then 1 else size);
               (p, h) = alloc (replicate size 0) h
           in (e\<lparr>en_data := Some p\<rparr>, h))"

fun ensure_accessible :: "entry list \<Rightarrow> heap \<Rightarrow> entry list \<times> heap" where
  "ensure_accessible [] h = ([], h)"
| "ensure_accessible (e # es) h =
     (let (e', h1) = (if en_access e AND (ACCESS_READ OR ACCESS_WRITE) \<noteq> 0 then ensure e h else (e, h));
          (es', h2) = ensure_accessible es h1
      in (e' # es', h2))"

definition materialize_object :: "object \<Rightarrow> heap \<Rightarrow> object \<times> heap" where
  "materialize_object ob h =
     (let (es, h1) = (case ob_entries ob of
            [] \<Rightarrow> ([], h)
          | e # es \<Rightarrow> if is_complex ob then let (e', h1) = ensure e h in (e' # es, h1) else (e # es, h));
          (es', h2) = ensure_accessible es h1
      in (ob\<lparr>ob_entries := es'\<rparr>, h2))"

fun materializeStorage :: "dictionary \<Rightarrow> heap \<Rightarrow> dictionary \<times> heap" where
  "materializeStorage [] h = ([], h)"
| "materializeStorage (ob # obs) h =
     (let (ob', h1) = materialize_object ob h; (obs', h2) = materializeStorage obs h1 in (ob' # obs', h2))"

section \<open>What materializing does\<close>

definition extends_heap :: "heap \<Rightarrow> heap \<Rightarrow> bool" where
  "extends_heap h h' \<longleftrightarrow> (\<forall>q n v. load q n h = Some v \<longrightarrow> load q n h' = Some v)"

lemma extends_heap_refl [simp]: "extends_heap h h" by (simp add: extends_heap_def)

lemma extends_heap_trans: "extends_heap a b \<Longrightarrow> extends_heap b c \<Longrightarrow> extends_heap a c"
  by (simp add: extends_heap_def)

text \<open>An entry afterwards: unchanged, or given a zeroed block of its size.\<close>

definition grown :: "heap \<Rightarrow> entry \<Rightarrow> entry \<Rightarrow> bool" where
  "grown h e e' \<longleftrightarrow> e' = e \<or>
     (en_data e = None \<and> en_bitlen e \<noteq> 0 \<and>
      (\<exists>p. e' = e\<lparr>en_data := Some p\<rparr> \<and>
        load p ((unat (en_bitlen e) + 7) div 8) h = Some (replicate ((unat (en_bitlen e) + 7) div 8) 0)))"

lemma grown_ext: "grown h e e' \<Longrightarrow> extends_heap h h' \<Longrightarrow> grown h' e e'"
  unfolding grown_def extends_heap_def by blast

lemma grown_trans: "grown h a b \<Longrightarrow> grown h b c \<Longrightarrow> grown h a c"
  by (auto simp: grown_def)

lemma grown_select:
  "grown h e e' \<Longrightarrow> en_access e' = en_access e \<and> en_bitlen e' = en_bitlen e \<and> en_subindex e' = en_subindex e
    \<and> (en_data e \<noteq> None \<longrightarrow> en_data e' = en_data e)"
  by (auto simp: grown_def)

lemma ensure_spec:
  assumes "wf_heap h" and "ensure e h = (e', h')"
  shows "wf_heap h' \<and> extends_heap h h' \<and> grown h' e e' \<and> (en_bitlen e \<noteq> 0 \<longrightarrow> en_data e' \<noteq> None)"
proof (cases "en_data e \<noteq> None \<or> en_bitlen e = 0")
  case True
  then show ?thesis using assms by (auto simp: ensure_def grown_def)
next
  case False
  then have "unat (en_bitlen e) > 0" by (simp add: unat_gt_0)
  then have size: "(unat (en_bitlen e) + 7) div 8 \<noteq> 0" by simp
  obtain p h1 where a: "alloc (replicate ((unat (en_bitlen e) + 7) div 8) 0) h = (p, h1)" by fastforce
  have r: "e' = e\<lparr>en_data := Some p\<rparr>" "h' = h1"
    using assms(2) False a size by (simp_all add: ensure_def Let_def)
  have "wf_heap h1" using wf_alloc [OF assms(1) a] .
  moreover have "extends_heap h h1" using load_alloc_old [OF assms(1) a] by (simp add: extends_heap_def)
  ultimately show ?thesis
    using r False load_alloc_new [OF a] unfolding grown_def by (auto simp del: split_paired_Ex split_paired_All)
qed

lemma ensure_accessible_spec:
  "wf_heap h \<Longrightarrow> ensure_accessible es h = (es', h') \<Longrightarrow>
    wf_heap h' \<and> extends_heap h h' \<and> list_all2 (grown h') es es'
    \<and> list_all (\<lambda>e. en_access e AND (ACCESS_READ OR ACCESS_WRITE) \<noteq> 0 \<and> en_bitlen e \<noteq> 0 \<longrightarrow> en_data e \<noteq> None) es'"
proof (induction es arbitrary: h es' h')
  case (Cons e es)
  let ?acc = "en_access e AND (ACCESS_READ OR ACCESS_WRITE) \<noteq> 0"
  obtain e1 h1 where e1: "(if ?acc then ensure e h else (e, h)) = (e1, h1)" by fastforce
  obtain es2 h2 where es2: "ensure_accessible es h1 = (es2, h2)" by fastforce
  have out: "es' = e1 # es2" "h' = h2" using Cons.prems e1 es2 by (auto simp: Let_def)
  have one: "wf_heap h1 \<and> extends_heap h h1 \<and> grown h1 e e1 \<and> (?acc \<and> en_bitlen e \<noteq> 0 \<longrightarrow> en_data e1 \<noteq> None)"
    using e1 ensure_spec [OF Cons.prems(1)] Cons.prems(1) by (cases ?acc) (auto simp: grown_def)
  then have rest: "wf_heap h2" "extends_heap h1 h2" "list_all2 (grown h2) es es2"
      "list_all (\<lambda>e. en_access e AND (ACCESS_READ OR ACCESS_WRITE) \<noteq> 0 \<and> en_bitlen e \<noteq> 0 \<longrightarrow> en_data e \<noteq> None) es2"
    using Cons.IH [OF _ es2] by blast+
  have "grown h2 e e1" using one rest(2) grown_ext by blast
  then show ?case
    using one rest extends_heap_trans grown_select [of h2 e e1] by (auto simp: out)
qed simp

definition countable_entries :: "object \<Rightarrow> bool" where
  "countable_entries ob \<longleftrightarrow> is_complex ob \<longrightarrow>
     (case ob_entries ob of [] \<Rightarrow> False | e # _ \<Rightarrow> en_data e \<noteq> None \<or> en_bitlen e \<noteq> 0)"

definition grown_object :: "heap \<Rightarrow> object \<Rightarrow> object \<Rightarrow> bool" where
  "grown_object h ob ob' \<longleftrightarrow> ob_index ob' = ob_index ob \<and> ob_code ob' = ob_code ob \<and> ob_name ob' = ob_name ob
     \<and> list_all2 (grown h) (ob_entries ob) (ob_entries ob')"

lemma list_all2_grown_refl [simp]: "list_all2 (grown h) es es"
  by (simp add: list_all2_refl grown_def)

lemma and_or_eq_0: "a AND (r OR w) = 0 \<longleftrightarrow> a AND r = 0 \<and> a AND w = (0 :: 'w::len word)"
  by (auto simp: bit_eq_iff bit_simps)

lemma materialize_object_spec:
  assumes "wf_heap h" and "materialize_object ob h = (ob', h')"
  shows "wf_heap h' \<and> extends_heap h h' \<and> grown_object h' ob ob'
    \<and> (countable_entries ob \<longrightarrow> validate_object ob' = [])"
proof -
  let ?es = "ob_entries ob"
  obtain es1 h1 where first: "(case ?es of [] \<Rightarrow> ([], h)
      | e # es \<Rightarrow> if is_complex ob then let (e', h1) = ensure e h in (e' # es, h1) else (e # es, h)) = (es1, h1)"
    by fastforce
  obtain es2 h2 where second: "ensure_accessible es1 h1 = (es2, h2)" by fastforce
  have out: "ob' = ob\<lparr>ob_entries := es2\<rparr>" "h' = h2"
    using assms(2) first second by (simp_all add: materialize_object_def)
  have one: "wf_heap h1 \<and> extends_heap h h1 \<and> list_all2 (grown h1) ?es es1
      \<and> (countable_entries ob \<and> is_complex ob \<longrightarrow> es1 \<noteq> [] \<and> en_data (hd es1) \<noteq> None)"
  proof (cases ?es)
    case Nil
    then show ?thesis using first assms(1) by (auto simp: countable_entries_def)
  next
    case (Cons e es)
    obtain e' h'' where e': "ensure e h = (e', h'')" by fastforce
    note spec = ensure_spec [OF assms(1) e']
    show ?thesis
    proof (cases "is_complex ob")
      case True
      have "es1 = e' # es" "h1 = h''" using first Cons e' True by simp_all
      moreover have "en_data e' \<noteq> None" if "en_data e \<noteq> None \<or> en_bitlen e \<noteq> 0"
        using that spec grown_select [of h'' e e'] by metis
      ultimately show ?thesis using spec Cons True by (simp add: countable_entries_def)
    next
      case False
      then show ?thesis using first Cons assms(1) by simp
    qed
  qed
  then have two: "wf_heap h2" "extends_heap h1 h2" "list_all2 (grown h2) es1 es2"
      "list_all (\<lambda>e. en_access e AND (ACCESS_READ OR ACCESS_WRITE) \<noteq> 0 \<and> en_bitlen e \<noteq> 0 \<longrightarrow> en_data e \<noteq> None) es2"
    using ensure_accessible_spec [OF _ second] by blast+
  have "list_all2 (grown h2) ?es es1"
    using one two(2) grown_ext by (auto elim!: list_all2_mono)
  then have grown: "list_all2 (grown h2) ?es es2"
    using two(3) grown_trans list_all2_trans [of "grown h2" "grown h2" "grown h2"] by blast
  have "en_access e AND (ACCESS_READ OR ACCESS_WRITE) \<noteq> 0"
    if "en_access e AND ACCESS_READ \<noteq> 0 \<or> en_access e AND ACCESS_WRITE \<noteq> 0" for e :: entry
    using that by (simp only: and_or_eq_0) blast
  then have entries: "concat (map (validate_entry i) es2) = []" for i
    using two(4) by (auto simp: validate_entry_def list_all_iff Let_def)
  have "es2 \<noteq> [] \<and> en_data (hd es2) \<noteq> None" if "countable_entries ob" "is_complex ob"
    using one that two(3) grown_select by (cases es1; cases es2) auto
  then have "validate_object ob' = []" if "countable_entries ob"
    using that entries by (cases es2) (auto simp: validate_object_def out is_complex_def)
  then show ?thesis
    using one two(1,2) extends_heap_trans grown by (auto simp: out grown_object_def)
qed

lemma grown_object_ext: "grown_object h ob ob' \<Longrightarrow> extends_heap h h' \<Longrightarrow> grown_object h' ob ob'"
  unfolding grown_object_def using grown_ext by (auto elim!: list_all2_mono)

lemma materializeStorage_spec:
  "wf_heap h \<Longrightarrow> materializeStorage dict h = (dict', h') \<Longrightarrow>
    wf_heap h' \<and> extends_heap h h' \<and> list_all2 (grown_object h') dict dict'
    \<and> (list_all countable_entries dict \<longrightarrow> validateDictionary dict' = [])"
proof (induction dict arbitrary: h dict' h')
  case (Cons ob obs)
  obtain ob1 h1 where one: "materialize_object ob h = (ob1, h1)" by fastforce
  obtain obs2 h2 where two: "materializeStorage obs h1 = (obs2, h2)" by fastforce
  have out: "dict' = ob1 # obs2" "h' = h2" using Cons.prems one two by auto
  note s1 = materialize_object_spec [OF Cons.prems(1) one]
  then have s2: "wf_heap h2 \<and> extends_heap h1 h2 \<and> list_all2 (grown_object h2) obs obs2
      \<and> (list_all countable_entries obs \<longrightarrow> validateDictionary obs2 = [])"
    using Cons.IH [OF _ two] by blast
  then show ?case
    using s1 extends_heap_trans grown_object_ext by (auto simp: out validateDictionary_def)
qed (auto simp: validateDictionary_def)

section \<open>Properties\<close>

text \<open>Looking an entry up gives the first object of that index and, in it, the first entry of
  that subindex; a missing object and a missing entry are told apart.\<close>

theorem findObject_spec:
  "findObject dict index subindex = r \<longleftrightarrow>
    (case r of
       (None, ep) \<Rightarrow> ep = None \<and> (\<forall>ob \<in> set dict. ob_index ob \<noteq> index)
     | (Some i, ep) \<Rightarrow> i < length dict \<and> ob_index (dict ! i) = index \<and> (\<forall>k < i. ob_index (dict ! k) \<noteq> index)
         \<and> (case ep of
              None \<Rightarrow> \<forall>e \<in> set (ob_entries (dict ! i)). en_subindex e \<noteq> subindex
            | Some j \<Rightarrow> j < length (ob_entries (dict ! i)) \<and> en_subindex (entry_at dict i j) = subindex
                \<and> (\<forall>k < j. en_subindex (entry_at dict i k) \<noteq> subindex)))"
  (is "_ \<longleftrightarrow> ?R")
proof -
  have "?R = (find_pos (\<lambda>ob. ob_index ob = index) dict = fst r \<and>
      (case fst r of None \<Rightarrow> snd r = None
       | Some i \<Rightarrow> find_pos (\<lambda>e. en_subindex e = subindex) (ob_entries (dict ! i)) = snd r))"
    by (cases r; cases "fst r"; cases "snd r")
      (auto simp: find_pos_Some find_pos_None entry_at_def)
  then show ?thesis
    by (cases r) (auto simp: findObject_def split: option.splits)
qed

theorem findObject_spec_witness:
  "findObject [] 0x1000 0 = (None, None)"
  using findObject_spec [of "[]" "0x1000" 0 "(None, None)"] by simp

text \<open>Materializing the storage of a dictionary is additive and makes it safe to serve: entries
  that have storage keep it with its content, the others that are accessible get a zeroed block of
  their size, and validation then reports nothing, provided each array or record has a first
  entry with a size or a value (the case the code cannot repair).\<close>

theorem materializeStorage_validates:
  assumes "wf_heap h" and "list_all countable_entries dict" and "materializeStorage dict h = (dict', h')"
  shows "validateDictionary dict' = [] \<and> extends_heap h h' \<and> list_all2 (grown_object h') dict dict'"
  using materializeStorage_spec [OF assms(1,3)] assms(2) by simp

theorem materializeStorage_validates_witness:
  defines "e \<equiv> Entry_new 0 8 0 ACCESS_READ 5 ''count''"
  defines "d \<equiv> [\<lparr>ob_index = 0x1018, ob_code = RECORD, ob_name = ''identity'', ob_entries = [e]\<rparr>]"
  defines "h \<equiv> \<lparr>hp_fresh = 0, hp_blocks = (\<lambda>_. None)\<rparr>"
  shows "validateDictionary (fst (materializeStorage d h)) = []"
proof -
  obtain d' h' where m: "materializeStorage d h = (d', h')" by fastforce
  have "wf_heap h" "list_all countable_entries d"
    by (simp_all add: h_def d_def e_def wf_heap_def countable_entries_def Entry_new_def)
  from materializeStorage_validates [OF this m] m show ?thesis by simp
qed

end
