(* ===== verification/SlaveIO.thy ===== *)
theory SlaveIO
  imports Wire ObjectDict
begin

text \<open>
  How a slave drives its EtherCAT slave controller (ESC): the sync-manager helpers of
  \<open>lib/slave/src/AbstractESC.cc\<close>, the process data object of \<open>lib/slave/src/PDO.cc\<close> and the
  part of the response mailbox (\<open>lib/src/Mailbox.cc\<close>) that configures its sync managers.

  \<open>AbstractESC\<close> is an interface with two virtual functions; they are the record \<open>esc_ops\<close> and
  every operation takes it as its first argument. The locale \<open>esc_device\<close> states what a device
  promises about its register space, and the lemmas about the helpers are proved in it.
\<close>

section \<open>Constants\<close>

definition REG_SYNC_MANAGER :: nat where [simp, reg_defs]: "REG_SYNC_MANAGER = 0x800"
definition REG_SM_STATS :: nat where [simp, reg_defs]: "REG_SM_STATS = 5"
definition REG_AL_CONTROL :: u16 where [simp, reg_defs]: "REG_AL_CONTROL = 0x120"
definition REG_AL_STATUS :: u16 where [simp, reg_defs]: "REG_AL_STATUS = 0x130"
definition REG_AL_STATUS_CODE :: u16 where [simp, reg_defs]: "REG_AL_STATUS_CODE = 0x134"
definition REG_WDOG_STATUS :: u16 where [simp, reg_defs]: "REG_WDOG_STATUS = 0x440"

definition SM_CONTROL_OPERATION_MODE_MASK :: u8 where [simp]: "SM_CONTROL_OPERATION_MODE_MASK = 0x03"
definition SM_CONTROL_MODE_BUFFERED :: u8 where [simp]: "SM_CONTROL_MODE_BUFFERED = 0x00"
definition SM_CONTROL_MODE_MAILBOX :: u8 where [simp]: "SM_CONTROL_MODE_MAILBOX = 0x02"
definition SM_CONTROL_DIRECTION_MASK :: u8 where [simp]: "SM_CONTROL_DIRECTION_MASK = 0x0C"
definition SM_CONTROL_DIRECTION_READ :: u8 where [simp]: "SM_CONTROL_DIRECTION_READ = 0x00"
definition SM_CONTROL_DIRECTION_WRITE :: u8 where [simp]: "SM_CONTROL_DIRECTION_WRITE = 0x04"
definition SM_ACTIVATE_ENABLE :: u8 where [simp]: "SM_ACTIVATE_ENABLE = 0x01"

definition EAGAIN :: int where [simp]: "EAGAIN = 11"
definition EOVERFLOW :: int where [simp]: "EOVERFLOW = 75"

definition ECAT_NO_ERROR :: u16 where [simp]: "ECAT_NO_ERROR = 0x0000"
definition INVALID_OUTPUT_CONFIGURATION :: u16 where [simp]: "INVALID_OUTPUT_CONFIGURATION = 0x001D"
definition INVALID_INPUT_CONFIGURATION :: u16 where [simp]: "INVALID_INPUT_CONFIGURATION = 0x001E"

section \<open>Sync managers (AbstractESC.cc)\<close>

text \<open>
  \<open>esc_read a buffer e\<close> gives the returned count, the buffer afterwards and the device;
  \<open>esc_uninit\<close> is the byte an uninitialised local variable holds when a read does not fill it.
\<close>

record 'e esc_ops =
  esc_read :: "u16 \<Rightarrow> bytes \<Rightarrow> 'e \<Rightarrow> int \<times> bytes \<times> 'e"
  esc_write :: "u16 \<Rightarrow> bytes \<Rightarrow> 'e \<Rightarrow> int \<times> 'e"
  esc_uninit :: u8

datatype sm_type = SM_Unused | SM_MailboxOut | SM_MailboxIn | SM_Output | SM_Input

record sm_config =
  sc_index :: u8
  sc_start_address :: u16
  sc_length :: u16
  sc_control :: u8
  sc_type :: sm_type

definition SYNC_MANAGER_PI_IN :: "u8 \<Rightarrow> u16 \<Rightarrow> u16 \<Rightarrow> sm_config" where
  "SYNC_MANAGER_PI_IN index address len =
     \<lparr>sc_index = index, sc_start_address = address, sc_length = len, sc_control = 0x20, sc_type = SM_Input\<rparr>"

definition SYNC_MANAGER_PI_OUT :: "u8 \<Rightarrow> u16 \<Rightarrow> u16 \<Rightarrow> sm_config" where
  "SYNC_MANAGER_PI_OUT index address len =
     \<lparr>sc_index = index, sc_start_address = address, sc_length = len, sc_control = 0x64, sc_type = SM_Output\<rparr>"

definition SYNC_MANAGER_MBX_IN :: "u8 \<Rightarrow> u16 \<Rightarrow> u16 \<Rightarrow> sm_config" where
  "SYNC_MANAGER_MBX_IN index address len =
     \<lparr>sc_index = index, sc_start_address = address, sc_length = len, sc_control = 0x02, sc_type = SM_MailboxIn\<rparr>"

definition SYNC_MANAGER_MBX_OUT :: "u8 \<Rightarrow> u16 \<Rightarrow> u16 \<Rightarrow> sm_config" where
  "SYNC_MANAGER_MBX_OUT index address len =
     \<lparr>sc_index = index, sc_start_address = address, sc_length = len, sc_control = 0x06, sc_type = SM_MailboxOut\<rparr>"

definition SM_NONE :: sm_config where
  "SM_NONE = \<lparr>sc_index = 0, sc_start_address = 0, sc_length = 0, sc_control = 0, sc_type = SM_Unused\<rparr>"

definition addressSM :: "u8 \<Rightarrow> u16" where
  "addressSM index = of_nat (REG_SYNC_MANAGER + unat index * 8)"

fun findSm_from :: "'e esc_ops \<Rightarrow> u16 \<Rightarrow> nat \<Rightarrow> nat \<Rightarrow> 'e \<Rightarrow> (string + u8 \<times> sm_register) \<times> 'e" where
  "findSm_from ops controlMode i 0 e = (Inl ''SyncManager not found'', e)"
| "findSm_from ops controlMode i (Suc n) e =
     (let (rc, raw, e) = esc_read ops (of_nat (REG_SYNC_MANAGER + 8 * i)) (replicate 8 0) e;
          sync = dec_sm_register raw
      in if ucast (sm_control sync) AND 0x0F = controlMode AND 0x0F then (Inr (of_nat i, sync), e)
         else findSm_from ops controlMode (Suc i) n e)"

definition findSm :: "'e esc_ops \<Rightarrow> u16 \<Rightarrow> 'e \<Rightarrow> (string + u8 \<times> sm_register) \<times> 'e" where
  "findSm ops controlMode e = findSm_from ops controlMode 0 REG_SM_STATS e"

definition isSmValid :: "'e esc_ops \<Rightarrow> sm_config \<Rightarrow> 'e \<Rightarrow> bool \<times> 'e" where
  "isSmValid ops sm_ref e =
     (let (rc, raw, e) = esc_read ops (addressSM (sc_index sm_ref)) (replicate 8 (esc_uninit ops)) e;
          sm_read = dec_sm_register raw
      in (sm_start_address sm_read = sc_start_address sm_ref \<and> sm_length sm_read = sc_length sm_ref
          \<and> sm_control sm_read AND SM_CONTROL_OPERATION_MODE_MASK = sc_control sm_ref AND SM_CONTROL_OPERATION_MODE_MASK
          \<and> sm_control sm_read AND SM_CONTROL_DIRECTION_MASK = sc_control sm_ref AND SM_CONTROL_DIRECTION_MASK
          \<and> sm_activate sm_read AND SM_ACTIVATE_ENABLE \<noteq> 0, e))"

text \<open>
  Both waiting loops read the register until its first bit has the wanted value. A device that
  never reports it keeps them running: \<open>None\<close> when the fuel is used up.
\<close>

fun pdi_wait :: "'e esc_ops \<Rightarrow> nat \<Rightarrow> u16 \<Rightarrow> bool \<Rightarrow> bytes \<Rightarrow> 'e \<Rightarrow> 'e option" where
  "pdi_wait ops 0 address deactivated buffer e = None"
| "pdi_wait ops (Suc n) address deactivated buffer e =
     (let (rc, buffer, e) = esc_read ops address buffer e
      in if (hd buffer AND 1 = 1) = deactivated then Some e
         else pdi_wait ops n address deactivated buffer e)"

definition activateSm :: "'e esc_ops \<Rightarrow> nat \<Rightarrow> sm_config \<Rightarrow> 'e \<Rightarrow> 'e option" where
  "activateSm ops fuel sm_conf e =
     (let address = addressSM (sc_index sm_conf) + 7;
          (rc, buffer, e) = esc_read ops address [esc_uninit ops] e;
          pdi_control = hd buffer AND NOT 1;
          (rc, e) = esc_write ops address [pdi_control] e
      in pdi_wait ops fuel address False [pdi_control] e)"

definition deactivateSm :: "'e esc_ops \<Rightarrow> nat \<Rightarrow> sm_config \<Rightarrow> 'e \<Rightarrow> 'e option" where
  "deactivateSm ops fuel sm_conf e =
     (let address = addressSM (sc_index sm_conf) + 7;
          (rc, buffer, e) = esc_read ops address [esc_uninit ops] e;
          pdi_control = hd buffer OR 1;
          (rc, e) = esc_write ops address [pdi_control] e
      in pdi_wait ops fuel address True [pdi_control] e)"

fun setSmActivate :: "'e esc_ops \<Rightarrow> nat \<Rightarrow> sm_config list \<Rightarrow> bool \<Rightarrow> 'e \<Rightarrow> 'e option" where
  "setSmActivate ops fuel [] is_activated e = Some e"
| "setSmActivate ops fuel (sm_conf # sms) is_activated e = do {
     e \<leftarrow> (if is_activated then activateSm ops fuel sm_conf e else deactivateSm ops fuel sm_conf e);
     setSmActivate ops fuel sms is_activated e
   }"

section \<open>Process data (PDO.cc)\<close>

record pdo =
  pd_input :: "ptr option"
  pd_input_size :: u32
  pd_sm_input :: sm_config
  pd_output :: "ptr option"
  pd_output_size :: u32
  pd_sm_output :: sm_config

definition hasInput :: "pdo \<Rightarrow> bool" where
  "hasInput p \<longleftrightarrow> sc_type (pd_sm_input p) \<noteq> SM_Unused"

definition hasOutput :: "pdo \<Rightarrow> bool" where
  "hasOutput p \<longleftrightarrow> sc_type (pd_sm_output p) \<noteq> SM_Unused"

definition PDO_configure :: "'e esc_ops \<Rightarrow> pdo \<Rightarrow> 'e \<Rightarrow> int \<times> pdo \<times> 'e" where
  "PDO_configure ops p e =
     (let p = p\<lparr>pd_sm_input := SM_NONE, pd_sm_output := SM_NONE\<rparr>;
          (r, e) = findSm ops (ucast (SM_CONTROL_MODE_BUFFERED OR SM_CONTROL_DIRECTION_READ)) e;
          p = (case r of Inr (indexIn, pdoIn) \<Rightarrow>
                 if sm_length pdoIn > 0
                 then p\<lparr>pd_sm_input := SYNC_MANAGER_PI_IN indexIn (sm_start_address pdoIn) (sm_length pdoIn)\<rparr> else p
               | Inl _ \<Rightarrow> p);
          (r, e) = findSm ops (ucast (SM_CONTROL_MODE_BUFFERED OR SM_CONTROL_DIRECTION_WRITE)) e;
          p = (case r of Inr (indexOut, pdoOut) \<Rightarrow>
                 if sm_length pdoOut > 0
                 then p\<lparr>pd_sm_output := SYNC_MANAGER_PI_OUT indexOut (sm_start_address pdoOut) (sm_length pdoOut)\<rparr> else p
               | Inl _ \<Rightarrow> p)
      in (0, p, e))"

definition PDO_isConfigOk :: "'e esc_ops \<Rightarrow> pdo \<Rightarrow> 'e \<Rightarrow> u16 \<times> 'e" where
  "PDO_isConfigOk ops p e =
     (let (in_ok, e) = (if sc_type (pd_sm_input p) \<noteq> SM_Unused then isSmValid ops (pd_sm_input p) e else (True, e))
      in if \<not> in_ok then (INVALID_INPUT_CONFIGURATION, e)
         else let (out_ok, e) = (if sc_type (pd_sm_output p) \<noteq> SM_Unused then isSmValid ops (pd_sm_output p) e else (True, e))
              in if \<not> out_ok then (INVALID_OUTPUT_CONFIGURATION, e) else (ECAT_NO_ERROR, e))"

definition activateOutput :: "'e esc_ops \<Rightarrow> nat \<Rightarrow> bool \<Rightarrow> pdo \<Rightarrow> 'e \<Rightarrow> 'e option" where
  "activateOutput ops fuel is_activated p e =
     (if sc_type (pd_sm_output p) \<noteq> SM_Unused then setSmActivate ops fuel [pd_sm_output p] is_activated e else Some e)"

definition activateInput :: "'e esc_ops \<Rightarrow> nat \<Rightarrow> bool \<Rightarrow> pdo \<Rightarrow> 'e \<Rightarrow> 'e option" where
  "activateInput ops fuel is_activated p e =
     (if sc_type (pd_sm_input p) \<noteq> SM_Unused then setSmActivate ops fuel [pd_sm_input p] is_activated e else Some e)"

definition setInput :: "ptr option \<Rightarrow> u32 \<Rightarrow> pdo \<Rightarrow> pdo" where
  "setInput buffer sz p = p\<lparr>pd_input := buffer, pd_input_size := sz\<rparr>"

definition setOutput :: "ptr option \<Rightarrow> u32 \<Rightarrow> pdo \<Rightarrow> pdo" where
  "setOutput buffer sz p = p\<lparr>pd_output := buffer, pd_output_size := sz\<rparr>"

text \<open>The image is copied between the application's buffer and the ESC; a short buffer is undefined.\<close>

definition updateInput :: "'e esc_ops \<Rightarrow> pdo \<Rightarrow> heap \<Rightarrow> 'e \<Rightarrow> 'e option" where
  "updateInput ops p h e =
     (case pd_input p of
        None \<Rightarrow> Some e
      | Some buf \<Rightarrow>
          if sc_type (pd_sm_input p) = SM_Unused then Some e
          else do {
            d \<leftarrow> load buf (unat (sc_length (pd_sm_input p))) h;
            Some (snd (esc_write ops (sc_start_address (pd_sm_input p)) d e))
          })"

definition updateOutput :: "'e esc_ops \<Rightarrow> pdo \<Rightarrow> heap \<Rightarrow> 'e \<Rightarrow> (heap \<times> 'e) option" where
  "updateOutput ops p h e =
     (case pd_output p of
        None \<Rightarrow> Some (h, e)
      | Some buf \<Rightarrow>
          if sc_type (pd_sm_output p) = SM_Unused then Some (h, e)
          else do {
            d \<leftarrow> load buf (unat (sc_length (pd_sm_output p))) h;
            let (rc, d, e) = esc_read ops (sc_start_address (pd_sm_output p)) d e;
            h \<leftarrow> store buf d h;
            Some (h, e)
          })"

text \<open>
  The PDO assignment and mapping loops count with an 8-bit index. \<open>OutOfFuel\<close> is a loop that
  goes on, \<open>Undefined\<close> an access through an invalid pointer.
\<close>

datatype 'a outcome = Returns 'a | Undefined | OutOfFuel

definition load8 :: "ptr option \<Rightarrow> heap \<Rightarrow> u8 option" where
  "load8 p h = do { q \<leftarrow> p; d \<leftarrow> load q 1 h; Some (hd d) }"

definition load16 :: "ptr option \<Rightarrow> heap \<Rightarrow> u16 option" where
  "load16 p h = do { q \<leftarrow> p; d \<leftarrow> load q 2 h; Some (from_le d) }"

definition load32 :: "ptr option \<Rightarrow> heap \<Rightarrow> u32 option" where
  "load32 p h = do { q \<leftarrow> p; d \<leftarrow> load q 4 h; Some (from_le d) }"

fun parseAssignment_loop ::
  "nat \<Rightarrow> dictionary \<Rightarrow> heap \<Rightarrow> u16 \<Rightarrow> u8 \<Rightarrow> u8 \<Rightarrow> u16 list \<Rightarrow> u16 list outcome" where
  "parseAssignment_loop 0 dict h assign_idx count i acc = OutOfFuel"
| "parseAssignment_loop (Suc n) dict h assign_idx count i acc =
     (if i \<le> count then
        (case lookup dict assign_idx i of
           None \<Rightarrow> parseAssignment_loop n dict h assign_idx count (i + 1) acc
         | Some e \<Rightarrow>
             (case load16 (en_data e) h of
                None \<Rightarrow> Undefined
              | Some idx \<Rightarrow> parseAssignment_loop n dict h assign_idx count (i + 1) (acc @ [idx])))
      else Returns acc)"

definition parseAssignment :: "nat \<Rightarrow> dictionary \<Rightarrow> heap \<Rightarrow> u16 \<Rightarrow> u16 list outcome" where
  "parseAssignment fuel dict h assign_idx =
     (case lookup dict assign_idx 0 of
        None \<Rightarrow> Returns []
      | Some entry0 \<Rightarrow>
          (case load8 (en_data entry0) h of
             None \<Rightarrow> Undefined
           | Some count \<Rightarrow> parseAssignment_loop fuel dict h assign_idx count 1 []))"

text \<open>Redirecting the storage of one mapped object into the process image.\<close>

definition alias_entry ::
  "nat \<Rightarrow> nat \<Rightarrow> ptr option \<Rightarrow> u16 \<Rightarrow> u8 \<Rightarrow> dictionary \<times> heap \<Rightarrow> (dictionary \<times> heap) option" where
  "alias_entry i j buffer bit_offset bits = (\<lambda>(dict, h). do {
     let e = entry_at dict i j;
     (blk, off) \<leftarrow> buffer;
     let new_ptr = (blk, off + unat bit_offset div 8);
     let dict = set_entry_at dict i j (e\<lparr>en_data := Some new_ptr, en_is_mapped := True\<rparr>);
     (case en_data e of
        None \<Rightarrow> Some (dict, h)
      | Some old_data \<Rightarrow> do {
          d \<leftarrow> load old_data ((unat bits + 7) div 8) h;
          h \<leftarrow> store new_ptr d h;
          h \<leftarrow> (if \<not> en_is_mapped e then dealloc old_data h else Some h);
          Some (dict, h)
        })
   })"

fun parsePdoMap_loop ::
  "nat \<Rightarrow> u16 \<Rightarrow> ptr option \<Rightarrow> u32 \<Rightarrow> u8 \<Rightarrow> u8 \<Rightarrow> u16 \<Rightarrow> dictionary \<times> heap
    \<Rightarrow> (bool \<times> u16 \<times> dictionary \<times> heap) outcome" where
  "parsePdoMap_loop 0 pdo_idx buffer max_size count i bit_offset w = OutOfFuel"
| "parsePdoMap_loop (Suc n) pdo_idx buffer max_size count i bit_offset w =
     (if i \<le> count then
        (case lookup (fst w) pdo_idx i of
           None \<Rightarrow> Returns (False, bit_offset, w)
         | Some e \<Rightarrow>
             (case load32 (en_data e) (snd w) of
                None \<Rightarrow> Undefined
              | Some mapping \<Rightarrow>
                  let index = ucast (drop_bit 16 (mapping AND 0xFFFF0000)) :: u16;
                      sub = ucast (drop_bit 8 (mapping AND 0x0000FF00)) :: u8;
                      bits = ucast (mapping AND 0x000000FF) :: u8
                  in if max_size > 0 \<and> (unat bit_offset + unat bits + 7) div 8 > unat max_size
                     then Returns (False, bit_offset, w)
                     else if index = 0
                     then parsePdoMap_loop n pdo_idx buffer max_size count (i + 1) (bit_offset + ucast bits) w
                     else (case findObject (fst w) index sub of
                       (Some oi, Some ei) \<Rightarrow>
                         (case alias_entry oi ei buffer bit_offset bits w of
                            None \<Rightarrow> Undefined
                          | Some w \<Rightarrow>
                              parsePdoMap_loop n pdo_idx buffer max_size count (i + 1) (bit_offset + ucast bits) w)
                     | _ \<Rightarrow> Returns (False, bit_offset, w))))
      else Returns (True, bit_offset, w))"

definition parsePdoMap ::
  "nat \<Rightarrow> u16 \<Rightarrow> ptr option \<Rightarrow> u16 \<Rightarrow> u32 \<Rightarrow> dictionary \<times> heap \<Rightarrow> (bool \<times> u16 \<times> dictionary \<times> heap) outcome" where
  "parsePdoMap fuel pdo_idx buffer bit_offset max_size w =
     (case lookup (fst w) pdo_idx 0 of
        None \<Rightarrow> Returns (False, bit_offset, w)
      | Some entry0 \<Rightarrow>
          (case load8 (en_data entry0) (snd w) of
             None \<Rightarrow> Undefined
           | Some count \<Rightarrow> parsePdoMap_loop fuel pdo_idx buffer max_size count 1 bit_offset w))"

fun map_pdos ::
  "nat \<Rightarrow> u16 list \<Rightarrow> ptr option \<Rightarrow> u16 \<Rightarrow> u32 \<Rightarrow> dictionary \<times> heap \<Rightarrow> (bool \<times> dictionary \<times> heap) outcome" where
  "map_pdos fuel [] buffer bit_offset max_size w = Returns (True, w)"
| "map_pdos fuel (pdo # pdos) buffer bit_offset max_size w =
     (case parsePdoMap fuel pdo buffer bit_offset max_size w of
        Undefined \<Rightarrow> Undefined
      | OutOfFuel \<Rightarrow> OutOfFuel
      | Returns (ok, bit_offset, w) \<Rightarrow>
          if ok then map_pdos fuel pdos buffer bit_offset max_size w else Returns (False, w))"

text \<open>One direction of \<open>configureMapping\<close>: all PDOs assigned to its sync manager, in order.\<close>

definition map_direction ::
  "nat \<Rightarrow> sm_config \<Rightarrow> ptr option \<Rightarrow> u32 \<Rightarrow> dictionary \<times> heap \<Rightarrow> (bool \<times> dictionary \<times> heap) outcome" where
  "map_direction fuel sm buffer max_size w =
     (if sc_type sm = SM_Unused then Returns (True, w)
      else case parseAssignment fuel (fst w) (snd w) (of_nat (0x1C10 + unat (sc_index sm))) of
        Undefined \<Rightarrow> Undefined
      | OutOfFuel \<Rightarrow> OutOfFuel
      | Returns pdos \<Rightarrow> map_pdos fuel pdos buffer 0 max_size w)"

definition configureMapping :: "nat \<Rightarrow> pdo \<Rightarrow> dictionary \<times> heap \<Rightarrow> (u16 \<times> dictionary \<times> heap) outcome" where
  "configureMapping fuel p w =
     (case map_direction fuel (pd_sm_input p) (pd_input p) (pd_input_size p) w of
        Undefined \<Rightarrow> Undefined
      | OutOfFuel \<Rightarrow> OutOfFuel
      | Returns (False, w) \<Rightarrow> Returns (INVALID_INPUT_CONFIGURATION, w)
      | Returns (True, w) \<Rightarrow>
          (case map_direction fuel (pd_sm_output p) (pd_output p) (pd_output_size p) w of
             Undefined \<Rightarrow> Undefined
           | OutOfFuel \<Rightarrow> OutOfFuel
           | Returns (ok, w) \<Rightarrow> Returns (if ok then ECAT_NO_ERROR else INVALID_OUTPUT_CONFIGURATION, w)))"

section \<open>Sync managers of the response mailbox (Mailbox.cc)\<close>

record mbx_config =
  mc_in :: sm_config
  mc_out :: sm_config
  mc_max_allocated_ram_by_msg :: u16

definition Mailbox_configure :: "'e esc_ops \<Rightarrow> mbx_config \<Rightarrow> 'e \<Rightarrow> int \<times> mbx_config \<times> 'e" where
  "Mailbox_configure ops m e =
     (let (r, e) = findSm ops (ucast (SM_CONTROL_MODE_MAILBOX OR SM_CONTROL_DIRECTION_READ)) e
      in case r of
           Inl _ \<Rightarrow> (- EAGAIN, m, e)
         | Inr (indexIn, mailboxIn) \<Rightarrow>
             let (r, e) = findSm ops (ucast (SM_CONTROL_MODE_MAILBOX OR SM_CONTROL_DIRECTION_WRITE)) e
             in case r of
                  Inl _ \<Rightarrow> (- EAGAIN, m, e)
                | Inr (indexOut, mailboxOut) \<Rightarrow>
                    if sm_length mailboxIn \<noteq> sm_length mailboxOut
                       \<or> sm_length mailboxIn > mc_max_allocated_ram_by_msg m
                    then (- EOVERFLOW, m, e)
                    else (0, m\<lparr>mc_in := SYNC_MANAGER_MBX_IN indexIn (sm_start_address mailboxIn) (sm_length mailboxIn),
                               mc_out := SYNC_MANAGER_MBX_OUT indexOut (sm_start_address mailboxOut) (sm_length mailboxOut)\<rparr>, e))"

definition Mailbox_isConfigOk :: "'e esc_ops \<Rightarrow> mbx_config \<Rightarrow> 'e \<Rightarrow> bool \<times> 'e" where
  "Mailbox_isConfigOk ops m e =
     (if sc_type (mc_in m) = SM_Unused \<or> sc_type (mc_out m) = SM_Unused then (False, e)
      else let (v1, e) = isSmValid ops (mc_in m) e; (v2, e) = isSmValid ops (mc_out m) e in (v1 \<and> v2, e))"

definition Mailbox_activate :: "'e esc_ops \<Rightarrow> nat \<Rightarrow> bool \<Rightarrow> mbx_config \<Rightarrow> 'e \<Rightarrow> 'e option" where
  "Mailbox_activate ops fuel is_activated m e =
     (if sc_type (mc_in m) \<noteq> SM_Unused \<and> sc_type (mc_out m) \<noteq> SM_Unused
      then setSmActivate ops fuel [mc_in m, mc_out m] is_activated e else Some e)"

section \<open>What a device promises about its registers\<close>

text \<open>
  The register space is the first 4096 bytes of an ESC. \<open>regs\<close> reads it off the device's state;
  a register access is a plain copy and says how many bytes it copied.
\<close>

lemma and_one_iff: "(x AND 1 = 1) = bit (x :: 'w::len word) 0"
  by (simp add: and_one_eq bit_0 odd_iff_mod_2_eq_one)

locale esc_device =
  fixes ops :: "'e esc_ops"
    and regs :: "'e \<Rightarrow> bytes"
    and ok :: "'e \<Rightarrow> bool"
  assumes regs_length: "ok e \<Longrightarrow> length (regs e) = 4096"
    and read_reg: "ok e \<Longrightarrow> 0 < length buffer \<Longrightarrow> unat a + length buffer \<le> 4096 \<Longrightarrow>
      esc_read ops a buffer e = (int (length buffer), peek (regs e) (unat a) (length buffer), e)"
    and write_reg: "ok e \<Longrightarrow> 0 < length d \<Longrightarrow> unat a + length d \<le> 4096 \<Longrightarrow>
      \<exists>e'. esc_write ops a d e = (int (length d), e') \<and> ok e' \<and> regs e' = poke (regs e) (unat a) d"
    and read_keeps: "ok e \<Longrightarrow> esc_read ops a buffer e = (rc, buffer', e') \<Longrightarrow> ok e' \<and> length buffer' = length buffer"
    and write_keeps: "ok e \<Longrightarrow> esc_write ops a d e = (rc, e') \<Longrightarrow> ok e'"
begin

definition sm_reg :: "'e \<Rightarrow> nat \<Rightarrow> sm_register" where
  "sm_reg e i = dec_sm_register (peek (regs e) (0x800 + 8 * i) 8)"

lemma sm_address: "i < 256 \<Longrightarrow> unat (of_nat (0x800 + 8 * i) :: u16) = 0x800 + 8 * i"
  by (rule unat_of_nat_small) simp

lemma addressSM_value: "unat (addressSM index) = 0x800 + 8 * unat index"
proof -
  have "unat index < 256" using unsigned_less [of index, where 'a = nat] by simp
  then show ?thesis using sm_address [of "unat index"] by (simp add: addressSM_def mult.commute)
qed

lemma unat_index_small: "unat (index :: u8) < 256"
  using unsigned_less [of index, where 'a = nat] by simp

text \<open>\<open>findSm\<close> gives the first of the five sync managers with the wanted mode and direction.\<close>

lemma findSm_from_spec:
  assumes "ok e"
  shows "i + n \<le> 256 \<Longrightarrow> findSm_from ops mode i n e =
    ((case find (\<lambda>k. ucast (sm_control (sm_reg e k)) AND 0x0F = mode AND 0x0F) [i..<i + n] of
        None \<Rightarrow> Inl ''SyncManager not found'' | Some k \<Rightarrow> Inr (of_nat k, sm_reg e k)), e)"
proof (induction n arbitrary: i)
  case (Suc n)
  have rd: "esc_read ops (of_nat (0x800 + 8 * i)) (replicate 8 0) e =
      (8, peek (regs e) (0x800 + 8 * i) 8, e)"
    using read_reg [OF assms, of "replicate 8 0" "of_nat (0x800 + 8 * i)"] Suc.prems sm_address [of i] by simp
  have upt: "[i..<i + Suc n] = i # [Suc i..<Suc i + n]" by (simp add: upt_conv_Cons)
  show ?case
    unfolding findSm_from.simps REG_SYNC_MANAGER_def rd upt
    using Suc by (simp add: sm_reg_def)
qed simp

lemma findSm_spec:
  "ok e \<Longrightarrow> findSm ops mode e =
    ((case find (\<lambda>k. ucast (sm_control (sm_reg e k)) AND 0x0F = mode AND 0x0F) [0..<5] of
        None \<Rightarrow> Inl ''SyncManager not found'' | Some k \<Rightarrow> Inr (of_nat k, sm_reg e k)), e)"
  using findSm_from_spec [of e 0 5] by (simp add: findSm_def)

lemma findSm_state: "ok e \<Longrightarrow> snd (findSm ops mode e) = e"
  by (simp add: findSm_spec)

lemma isSmValid_spec:
  assumes "ok e"
  shows "isSmValid ops sm e =
    (let r = sm_reg e (unat (sc_index sm)) in
      sm_start_address r = sc_start_address sm \<and> sm_length r = sc_length sm
      \<and> sm_control r AND 3 = sc_control sm AND 3 \<and> sm_control r AND 0x0C = sc_control sm AND 0x0C
      \<and> sm_activate r AND 1 \<noteq> 0, e)"
proof -
  have "esc_read ops (addressSM (sc_index sm)) (replicate 8 (esc_uninit ops)) e =
      (8, peek (regs e) (0x800 + 8 * unat (sc_index sm)) 8, e)"
    using read_reg [OF assms, of "replicate 8 (esc_uninit ops)" "addressSM (sc_index sm)"]
      addressSM_value unat_index_small [of "sc_index sm"] by simp
  then show ?thesis by (simp add: isSmValid_def sm_reg_def Let_def)
qed

lemma PDO_isConfigOk_state: "ok e \<Longrightarrow> snd (PDO_isConfigOk ops p e) = e"
  by (simp add: PDO_isConfigOk_def isSmValid_spec Let_def)

lemma Mailbox_isConfigOk_state: "ok e \<Longrightarrow> snd (Mailbox_isConfigOk ops m e) = e"
  by (simp add: Mailbox_isConfigOk_def isSmValid_spec Let_def)

lemma PDO_configure_state: "ok e \<Longrightarrow> snd (snd (PDO_configure ops p e)) = e \<and> fst (PDO_configure ops p e) = 0"
  by (simp add: PDO_configure_def findSm_spec Let_def split: option.splits)

lemma Mailbox_configure_state: "ok e \<Longrightarrow> snd (snd (Mailbox_configure ops m e)) = e"
  by (auto simp: Mailbox_configure_def findSm_spec Let_def split: option.splits sum.splits)

text \<open>The byte that activates or deactivates a sync manager, and that the wait ends at once.\<close>

lemma pdi_control_address: "unat (addressSM index + 7) = 0x807 + 8 * unat index"
proof -
  have "unat (addressSM index) + unat (7 :: u16) < 65536"
    using unat_index_small [of index] by (simp add: addressSM_value)
  then show ?thesis using unat_add_small [of "addressSM index" 7] by (simp add: addressSM_value)
qed

lemma pdi_switch:
  fixes sm :: sm_config and active :: bool
  assumes e: "ok e" and n: "0 < fuel"
  defines "a \<equiv> 0x807 + 8 * unat (sc_index sm)"
  shows "\<exists>e'. (if active then activateSm ops fuel sm e else deactivateSm ops fuel sm e) = Some e' \<and> ok e'
    \<and> regs e' = poke (regs e) a [if active then regs e ! a AND NOT 1 else regs e ! a OR 1]"
proof -
  let ?addr = "addressSM (sc_index sm) + 7"
  let ?v = "if active then regs e ! a AND NOT 1 else regs e ! a OR 1"
  have a: "unat ?addr = a" "a < 4096"
    using pdi_control_address [of "sc_index sm"] unat_index_small [of "sc_index sm"] by (simp_all add: a_def)
  have one: "peek bs a 1 = [bs ! a]" if "length bs = 4096" for bs :: bytes
    using that a by (simp add: peek_def take_Suc_conv_app_nth Cons_nth_drop_Suc [symmetric])
  have rd: "esc_read ops ?addr [x] e = (1, [regs e ! a], e)" for x
    using read_reg [OF e, of "[x]" ?addr] a one [OF regs_length [OF e]] by simp
  obtain e' where wr: "esc_write ops ?addr [?v] e = (1, e')" "ok e'" "regs e' = poke (regs e) a [?v]"
    using write_reg [OF e, of "[?v]" ?addr] a by auto
  have "peek (poke (regs e) a [?v]) a 1 = [?v]" using a regs_length [OF e] by simp
  then have rd': "esc_read ops ?addr [x] e' = (1, [?v], e')" for x
    using read_reg [OF wr(2), of "[x]" ?addr] a wr(3) by simp
  have bit: "(?v AND 1 = 1) = (\<not> active)"
    by (cases active) (simp_all only: and_one_iff if_True if_False bit_and_iff bit_or_iff bit_not_iff bit_1_iff, simp_all)
  obtain m where m: "fuel = Suc m" using n by (cases fuel) auto
  show ?thesis
    using wr rd' bit by (cases active) (simp_all add: activateSm_def deactivateSm_def rd m Let_def)
qed

lemma setSmActivate_ok:
  "ok e \<Longrightarrow> 0 < fuel \<Longrightarrow> \<exists>e'. setSmActivate ops fuel sms active e = Some e' \<and> ok e'"
proof (induction sms arbitrary: e)
  case (Cons sm sms)
  obtain e1 where "(if active then activateSm ops fuel sm e else deactivateSm ops fuel sm e) = Some e1" "ok e1"
    using pdi_switch [OF Cons.prems, of active sm] by blast
  with Cons show ?case by auto
qed simp

lemma activate_ok:
  assumes "ok e" and "0 < fuel"
  shows "\<exists>e'. activateOutput ops fuel active p e = Some e' \<and> ok e'"
    and "\<exists>e'. activateInput ops fuel active p e = Some e' \<and> ok e'"
    and "\<exists>e'. Mailbox_activate ops fuel active m e = Some e' \<and> ok e'"
  using setSmActivate_ok [OF assms] assms(1)
  by (simp_all add: activateOutput_def activateInput_def Mailbox_activate_def del: setSmActivate.simps)

lemma updateInput_ok:
  assumes "ok e" and "\<And>buf. pd_input p = Some buf \<Longrightarrow> load buf (unat (sc_length (pd_sm_input p))) h \<noteq> None"
  shows "\<exists>e'. updateInput ops p h e = Some e' \<and> ok e'"
proof (cases "pd_input p")
  case (Some buf)
  then obtain d where "load buf (unat (sc_length (pd_sm_input p))) h = Some d" using assms(2) by blast
  moreover obtain rc e' where "esc_write ops (sc_start_address (pd_sm_input p)) d e = (rc, e')" by fastforce
  ultimately show ?thesis
    using Some assms(1) write_keeps by (auto simp: updateInput_def)
qed (use assms in \<open>simp add: updateInput_def\<close>)

lemma updateOutput_ok:
  assumes "ok e" and "\<And>buf. pd_output p = Some buf \<Longrightarrow> load buf (unat (sc_length (pd_sm_output p))) h \<noteq> None"
  shows "\<exists>h' e'. updateOutput ops p h e = Some (h', e') \<and> ok e'"
proof (cases "pd_output p")
  case (Some buf)
  let ?n = "unat (sc_length (pd_sm_output p))"
  obtain d where d: "load buf ?n h = Some d" using assms(2) Some by blast
  obtain rc d' e' where rd: "esc_read ops (sc_start_address (pd_sm_output p)) d e = (rc, d', e')"
    by (metis prod_cases3)
  have keep: "ok e'" "length d' = length d" using read_keeps [OF assms(1) rd] by simp_all
  obtain b where b: "hp_blocks h (fst buf) = Some b" "snd buf + ?n \<le> length b" "length d = ?n"
    using d by (auto simp: load_def bind_eq_Some_conv mem_read_eq_Some_iff)
  then have "\<exists>h'. store buf d' h = Some h'" using keep by (simp add: store_def)
  then show ?thesis
    using Some assms(1) d rd keep by (auto simp: updateOutput_def)
qed (use assms in \<open>simp add: updateOutput_def\<close>)

end

section \<open>Reading the PDO assignment\<close>

text \<open>What \<open>parseAssignment\<close> should list: the PDOs of the existing subindices, in order.\<close>

definition assigned_pdos :: "dictionary \<Rightarrow> heap \<Rightarrow> u16 \<Rightarrow> nat list \<Rightarrow> u16 list" where
  "assigned_pdos dict h idx subs =
     concat (map (\<lambda>i. case lookup dict idx (of_nat i) of None \<Rightarrow> [] | Some e \<Rightarrow> [the (load16 (en_data e) h)]) subs)"

definition readable_subs :: "dictionary \<Rightarrow> heap \<Rightarrow> u16 \<Rightarrow> u8 \<Rightarrow> bool" where
  "readable_subs dict h idx count \<longleftrightarrow>
     (\<forall>i. 0 < i \<and> i \<le> count \<longrightarrow> (case lookup dict idx i of None \<Rightarrow> True | Some e \<Rightarrow> load16 (en_data e) h \<noteq> None))"

lemma parseAssignment_loop_lists:
  fixes count i :: u8
  assumes "readable_subs dict h idx count" and "unat count < 255"
  shows "Suc (unat count) < unat i + fuel \<Longrightarrow> 0 < unat i \<Longrightarrow> unat i \<le> Suc (unat count) \<Longrightarrow>
    parseAssignment_loop fuel dict h idx count i acc =
      Returns (acc @ assigned_pdos dict h idx [unat i..<Suc (unat count)])"
proof (induction fuel arbitrary: i acc)
  case (Suc n)
  show ?case
  proof (cases "i \<le> count")
    case True
    then have le: "unat i \<le> unat count" by (simp add: word_le_nat_alt)
    have next_i: "unat (i + 1) = Suc (unat i)"
      using unat_add_small [of i 1] le assms(2) by simp
    have upt: "[unat i..<Suc (unat count)] = unat i # [unat (i + 1)..<Suc (unat count)]"
      using le by (simp add: next_i upt_conv_Cons)
    have ok: "case lookup dict idx i of None \<Rightarrow> True | Some e \<Rightarrow> load16 (en_data e) h \<noteq> None"
      using assms(1) True Suc.prems(2) by (simp add: readable_subs_def word_less_nat_alt)
    have step: "parseAssignment_loop n dict h idx count (i + 1) acc' =
        Returns (acc' @ assigned_pdos dict h idx [unat (i + 1)..<Suc (unat count)])" for acc'
      using Suc le next_i by simp
    show ?thesis
      unfolding upt using True ok by (auto simp: step assigned_pdos_def split: option.splits)
  next
    case False
    then have "unat i = Suc (unat count)" using Suc.prems by (simp add: word_le_nat_alt)
    then show ?thesis using False by (simp add: assigned_pdos_def)
  qed
qed (simp)

lemma parseAssignment_loop_endless:
  "parseAssignment_loop fuel dict h idx 255 i acc \<noteq> Returns pdos"
proof (induction fuel arbitrary: i acc)
  case (Suc n)
  have "i \<le> (255 :: u8)" using unsigned_less [of i, where 'a = nat] by (simp add: word_le_nat_alt)
  with Suc show ?case by (simp split: option.splits)
qed simp

text \<open>\<open>parseAssignment\<close> returns the PDOs of the first \<open>count\<close> subindices in their order, within
  \<open>count + 1\<close> tests of its loop, when the count is below 255 and the entries have their storage.\<close>

theorem parseAssignment_lists:
  assumes "lookup dict idx 0 = Some e0" and "load8 (en_data e0) h = Some count" and "unat count < 255"
    and "readable_subs dict h idx count" and "unat count < fuel"
  shows "parseAssignment fuel dict h idx = Returns (assigned_pdos dict h idx [1..<Suc (unat count)])"
  using parseAssignment_loop_lists [OF assms(4,3), of 1 fuel "[]"] assms by (simp add: parseAssignment_def)

definition sample_heap :: "u8 \<Rightarrow> heap" where
  "sample_heap count = \<lparr>hp_fresh = 3, hp_blocks = (Map.empty)(0 \<mapsto> [count], 1 \<mapsto> [0x00, 0x1A], 2 \<mapsto> [0x01, 0x1A])\<rparr>"

definition sample_dict :: dictionary where
  "sample_dict = [\<lparr>ob_index = 0x1C12, ob_code = ARRAY, ob_name = ''assign'', ob_entries =
     [(Entry_new 0 8 0 7 5 [])\<lparr>en_data := Some (0, 0)\<rparr>, (Entry_new 1 16 0 7 6 [])\<lparr>en_data := Some (1, 0)\<rparr>,
      (Entry_new 2 16 0 7 6 [])\<lparr>en_data := Some (2, 0)\<rparr>]\<rparr>]"

lemma sample_lookup:
  "lookup sample_dict 0x1C12 0 = Some ((Entry_new 0 8 0 7 5 [])\<lparr>en_data := Some (0, 0)\<rparr>)"
  "lookup sample_dict 0x1C12 1 = Some ((Entry_new 1 16 0 7 6 [])\<lparr>en_data := Some (1, 0)\<rparr>)"
  "lookup sample_dict 0x1C12 2 = Some ((Entry_new 2 16 0 7 6 [])\<lparr>en_data := Some (2, 0)\<rparr>)"
  "i \<noteq> 0 \<Longrightarrow> i \<noteq> 1 \<Longrightarrow> i \<noteq> 2 \<Longrightarrow> lookup sample_dict 0x1C12 i = None"
  by (simp_all add: lookup_def findObject_def sample_dict_def Entry_new_def entry_at_def)

lemma sample_load:
  "load8 (Some (0, 0)) (sample_heap n) = Some n"
  "load16 (Some (1, 0)) (sample_heap n) = Some 0x1A00"
  "load16 (Some (2, 0)) (sample_heap n) = Some 0x1A01"
  by (simp_all add: load8_def load16_def load_def sample_heap_def peek_def from_le_def)

theorem parseAssignment_lists_witness:
  "parseAssignment 3 sample_dict (sample_heap 2) 0x1C12 = Returns [0x1A00, 0x1A01]"
proof -
  have "i = 1 \<or> i = 2" if "0 < i" "i \<le> 2" for i :: u8
    using that by (simp add: word_less_nat_alt word_le_nat_alt word_unat_eq_iff) linarith
  moreover have "case lookup sample_dict 0x1C12 i of None \<Rightarrow> True | Some e \<Rightarrow> load16 (en_data e) (sample_heap 2) \<noteq> None"
    if "i = 1 \<or> i = 2" for i
    using that by (auto simp: sample_lookup sample_load Entry_new_def simp del: One_nat_def)
  ultimately have "readable_subs sample_dict (sample_heap 2) 0x1C12 2"
    unfolding readable_subs_def by blast
  from parseAssignment_lists [OF sample_lookup(1) _ _ this, of 3] show ?thesis
    by (simp add: sample_load Entry_new_def assigned_pdos_def sample_lookup upt_rec del: One_nat_def)
qed

text \<open>With 255 assigned PDOs \<open>parseAssignment\<close> never returns: its 8-bit loop index wraps to 0
  before it can pass the count.\<close>

theorem parseAssignment_255_never_returns:
  assumes "lookup dict idx 0 = Some e0" and "load8 (en_data e0) h = Some 255"
  shows "parseAssignment fuel dict h idx \<noteq> Returns pdos"
  using assms parseAssignment_loop_endless by (simp add: parseAssignment_def)

theorem parseAssignment_255_never_returns_witness:
  "parseAssignment 1000 sample_dict (sample_heap 255) 0x1C12 \<noteq> Returns [0x1A00, 0x1A01]"
  by (rule parseAssignment_255_never_returns [OF sample_lookup(1)]) (simp add: sample_load Entry_new_def)

section \<open>Mapped objects stay in the process image\<close>

text \<open>
  What mapping may change: an entry is redirected into the image and nothing else of it changes,
  and a heap block keeps its bytes, the image's own bytes apart, unless it is freed.
\<close>

definition redirected :: "ptr \<Rightarrow> nat \<Rightarrow> entry \<Rightarrow> entry \<Rightarrow> bool" where
  "redirected buf sz e e' \<longleftrightarrow> (\<exists>k \<le> sz. e' = e\<lparr>en_data := Some (fst buf, snd buf + k), en_is_mapped := True\<rparr>)"

definition same_entries :: "(entry \<Rightarrow> entry \<Rightarrow> bool) \<Rightarrow> dictionary \<Rightarrow> dictionary \<Rightarrow> bool" where
  "same_entries R dict dict' \<longleftrightarrow>
     list_all2 (\<lambda>ob ob'. ob' = ob\<lparr>ob_entries := ob_entries ob'\<rparr> \<and> list_all2 R (ob_entries ob) (ob_entries ob')) dict dict'"

definition same_outside :: "ptr \<Rightarrow> nat \<Rightarrow> heap \<Rightarrow> heap \<Rightarrow> bool" where
  "same_outside buf sz h h' \<longleftrightarrow> (\<forall>b new. hp_blocks h' b = Some new \<longrightarrow>
     (\<exists>old. hp_blocks h b = Some old \<and> length new = length old
        \<and> (\<forall>k < length old. b = fst buf \<and> snd buf \<le> k \<and> k < snd buf + sz \<or> new ! k = old ! k)))"

definition maps_within :: "ptr \<Rightarrow> nat \<Rightarrow> dictionary \<times> heap \<Rightarrow> dictionary \<times> heap \<Rightarrow> bool" where
  "maps_within buf sz w w' \<longleftrightarrow>
     same_entries (\<lambda>e e'. e' = e \<or> redirected buf sz e e') (fst w) (fst w') \<and> same_outside buf sz (snd w) (snd w')"

lemma maps_within_refl: "maps_within buf sz w w"
  by (auto simp: maps_within_def same_entries_def same_outside_def intro!: list.rel_refl)

lemma redirected_trans:
  "e' = e \<or> redirected buf sz e e' \<Longrightarrow> e'' = e' \<or> redirected buf sz e' e'' \<Longrightarrow> e'' = e \<or> redirected buf sz e e''"
  by (auto simp: redirected_def)

lemma same_object_trans:
  "ob' = ob\<lparr>ob_entries := ob_entries ob'\<rparr> \<Longrightarrow> ob'' = ob'\<lparr>ob_entries := ob_entries ob''\<rparr> \<Longrightarrow>
   ob'' = (ob\<lparr>ob_entries := ob_entries ob''\<rparr> :: object)"
  by (cases ob; cases ob'; cases ob'') simp

lemma same_entries_trans:
  assumes R: "\<And>x y z. R x y \<Longrightarrow> R y z \<Longrightarrow> R x z"
    and "same_entries R d d'" and "same_entries R d' d''"
  shows "same_entries R d d''"
  unfolding same_entries_def
proof (rule list_all2_trans [OF _ assms(2,3) [unfolded same_entries_def]])
  fix a b c :: object
  assume ab: "b = a\<lparr>ob_entries := ob_entries b\<rparr> \<and> list_all2 R (ob_entries a) (ob_entries b)"
    and bc: "c = b\<lparr>ob_entries := ob_entries c\<rparr> \<and> list_all2 R (ob_entries b) (ob_entries c)"
  have "list_all2 R (ob_entries a) (ob_entries c)"
    by (rule list_all2_trans [OF _ conjunct2 [OF ab] conjunct2 [OF bc]]) (rule R)
  with same_object_trans [OF conjunct1 [OF ab] conjunct1 [OF bc]]
  show "c = a\<lparr>ob_entries := ob_entries c\<rparr> \<and> list_all2 R (ob_entries a) (ob_entries c)" ..
qed

lemma same_outside_trans:
  assumes "same_outside buf sz h h'" and "same_outside buf sz h' h''"
  shows "same_outside buf sz h h''"
  unfolding same_outside_def
proof (intro allI impI)
  fix b new assume "hp_blocks h'' b = Some new"
  then obtain mid where mid: "hp_blocks h' b = Some mid" "length new = length mid"
      "\<forall>k < length mid. b = fst buf \<and> snd buf \<le> k \<and> k < snd buf + sz \<or> new ! k = mid ! k"
    using assms(2) unfolding same_outside_def by blast
  obtain old where old: "hp_blocks h b = Some old" "length mid = length old"
      "\<forall>k < length old. b = fst buf \<and> snd buf \<le> k \<and> k < snd buf + sz \<or> mid ! k = old ! k"
    using assms(1) mid(1) unfolding same_outside_def by blast
  show "\<exists>old. hp_blocks h b = Some old \<and> length new = length old
      \<and> (\<forall>k < length old. b = fst buf \<and> snd buf \<le> k \<and> k < snd buf + sz \<or> new ! k = old ! k)"
  proof (intro exI [of _ old] conjI allI impI)
    show "b = fst buf \<and> snd buf \<le> k \<and> k < snd buf + sz \<or> new ! k = old ! k" if "k < length old" for k
      using mid(3) [rule_format, OF that [folded old(2)]] old(3) [rule_format, OF that] by argo
  qed (use mid(2) old(1,2) in simp_all)
qed

lemma maps_within_trans: "maps_within buf sz w w' \<Longrightarrow> maps_within buf sz w' w'' \<Longrightarrow> maps_within buf sz w w''"
  unfolding maps_within_def
  by (elim conjE, intro conjI, erule (1) same_entries_trans [rotated], erule (1) redirected_trans, erule (1) same_outside_trans)

lemma same_entries_set:
  assumes "i < length dict" and "R (entry_at dict i j) e" and "\<And>x. R x x"
  shows "same_entries R dict (set_entry_at dict i j e)"
proof -
  have "list_all2 R (ob_entries (dict ! i)) ((ob_entries (dict ! i))[j := e])"
    unfolding list_all2_conv_all_nth
  proof (intro conjI allI impI)
    show "R (ob_entries (dict ! i) ! k) ((ob_entries (dict ! i))[j := e] ! k)"
      if "k < length (ob_entries (dict ! i))" for k
      using that assms by (cases "k = j") (simp_all add: entry_at_def)
  qed simp
  then show ?thesis
    using assms(1,3) by (auto simp: same_entries_def set_entry_at_def list_all2_conv_all_nth nth_list_update)
qed

lemma same_outside_store:
  assumes "store (fst buf, snd buf + k) d h = Some h'" and "k + length d \<le> sz"
  shows "same_outside buf sz h h'"
  using assms by (auto simp: store_def same_outside_def bind_eq_Some_conv mem_write_eq_Some_iff nth_poke split: if_splits)

lemma same_outside_dealloc: "dealloc p h = Some h' \<Longrightarrow> same_outside buf sz h h'"
  by (auto simp: dealloc_def same_outside_def split: if_splits)

lemma image_bytes_fit: "(o' + b + 7) div 8 \<le> (s :: nat) \<Longrightarrow> o' div 8 + (b + 7) div 8 \<le> s"
  using div_add1_eq [of o' "b + 7" 8] by (simp add: add.assoc)

lemma alias_entry_within:
  assumes "alias_entry i j (Some buf) bit_offset bits (dict, h) = Some w'" and i: "i < length dict"
    and fit: "(unat bit_offset + unat bits + 7) div 8 \<le> sz"
  shows "maps_within buf sz (dict, h) w'"
proof -
  let ?k = "unat bit_offset div 8"
  let ?e = "entry_at dict i j"
  let ?q = "(fst buf, snd buf + ?k)"
  have fit': "?k + (unat bits + 7) div 8 \<le> sz" using image_bytes_fit [OF fit] .
  have "?k \<le> sz" using fit' by linarith
  then have red: "redirected buf sz ?e (?e\<lparr>en_data := Some ?q, en_is_mapped := True\<rparr>)"
    unfolding redirected_def by blast
  have dict: "same_entries (\<lambda>e e'. e' = e \<or> redirected buf sz e e') dict
      (set_entry_at dict i j (?e\<lparr>en_data := Some ?q, en_is_mapped := True\<rparr>))"
    by (rule same_entries_set [OF i]) (use red in simp_all)
  show ?thesis
  proof (cases "en_data ?e")
    case None
    then show ?thesis
      using assms(1) dict maps_within_refl [of buf sz "(dict, h)"] by (auto simp: alias_entry_def maps_within_def split: prod.splits)
  next
    case (Some old)
    obtain d h1 h2 where *: "load old ((unat bits + 7) div 8) h = Some d" "store ?q d h = Some h1"
        "(if \<not> en_is_mapped ?e then dealloc old h1 else Some h1) = Some h2"
        "w' = (set_entry_at dict i j (?e\<lparr>en_data := Some ?q, en_is_mapped := True\<rparr>), h2)"
      using assms(1) Some by (auto simp: alias_entry_def bind_eq_Some_conv Let_def split: prod.splits)
    have "length d = (unat bits + 7) div 8"
      using *(1) by (auto simp: load_def bind_eq_Some_conv mem_read_eq_Some_iff)
    then have "same_outside buf sz h h1" using *(2) fit' by (intro same_outside_store) auto
    moreover have "same_outside buf sz h1 h2"
      using *(3) same_outside_dealloc maps_within_refl [of buf sz "(dict, h1)"]
      by (auto simp: maps_within_def split: if_splits)
    ultimately show ?thesis using dict *(4) same_outside_trans by (auto simp: maps_within_def)
  qed
qed

lemma findObject_bound: "findObject dict index sub = (Some i, Some j) \<Longrightarrow> i < length dict"
  by (auto simp: findObject_def find_pos_Some split: option.splits)

lemma parsePdoMap_loop_within:
  assumes "0 < max_size"
  shows "parsePdoMap_loop n pdo_idx (Some buf) max_size count i bit_offset w = Returns (r, bit_offset', w') \<Longrightarrow>
    maps_within buf (unat max_size) w w'"
proof (induction n arbitrary: i bit_offset w)
  case (Suc n)
  let ?go = "parsePdoMap_loop n pdo_idx (Some buf) max_size count (i + 1)"
  show ?case
  proof (cases "i \<le> count")
    case True
    show ?thesis
    proof (cases "lookup (fst w) pdo_idx i")
      case (Some e)
      then obtain mapping where m: "load32 (en_data e) (snd w) = Some mapping"
        using Suc.prems True by (auto split: option.splits)
      define index sub bits where "index = (ucast (drop_bit 16 (mapping AND 0xFFFF0000)) :: u16)"
        and "sub = (ucast (drop_bit 8 (mapping AND 0x0000FF00)) :: u8)" and "bits = (ucast (mapping AND 0x000000FF) :: u8)"
      have body: "(if 0 < max_size \<and> unat max_size < (unat bit_offset + unat bits + 7) div 8
          then Returns (False, bit_offset, w)
          else if index = 0 then ?go (bit_offset + ucast bits) w
            else case findObject (fst w) index sub of
              (Some oi, Some ei) \<Rightarrow> (case alias_entry oi ei (Some buf) bit_offset bits w of
                  None \<Rightarrow> Undefined | Some w \<Rightarrow> ?go (bit_offset + ucast bits) w)
            | _ \<Rightarrow> Returns (False, bit_offset, w)) = Returns (r, bit_offset', w')"
        using Suc.prems True unfolding index_def sub_def bits_def
        by (simp only: parsePdoMap_loop.simps Let_def Some m option.case if_True)
      show ?thesis
      proof (cases "(unat bit_offset + unat bits + 7) div 8 > unat max_size")
        case False
        then have run: "(if index = 0 then ?go (bit_offset + ucast bits) w
            else case findObject (fst w) index sub of
              (Some oi, Some ei) \<Rightarrow> (case alias_entry oi ei (Some buf) bit_offset bits w of
                  None \<Rightarrow> Undefined | Some w \<Rightarrow> ?go (bit_offset + ucast bits) w)
            | _ \<Rightarrow> Returns (False, bit_offset, w)) = Returns (r, bit_offset', w')"
          using body by simp
        show ?thesis
        proof (cases "index = 0")
          case nz: False
          show ?thesis
          proof (cases "\<exists>oi ei. findObject (fst w) index sub = (Some oi, Some ei)")
            case True
            then obtain oi ei where f: "findObject (fst w) index sub = (Some oi, Some ei)" by blast
            then obtain w1 where w1: "alias_entry oi ei (Some buf) bit_offset bits w = Some w1"
                "?go (bit_offset + ucast bits) w1 = Returns (r, bit_offset', w')"
              using run nz by (auto split: option.splits)
            have "maps_within buf (unat max_size) w w1"
              using alias_entry_within [of oi ei buf bit_offset bits "fst w" "snd w"] w1(1) findObject_bound [OF f] False
              by simp
            then show ?thesis using Suc.IH [OF w1(2)] maps_within_trans by blast
          qed (use run nz in \<open>auto simp: maps_within_refl split: option.splits prod.splits\<close>)
        qed (use run Suc.IH in simp)
      qed (use body assms in \<open>simp add: maps_within_refl\<close>)
    qed (use Suc.prems True in \<open>simp add: maps_within_refl\<close>)
  qed (use Suc.prems in \<open>simp add: maps_within_refl\<close>)
qed simp

lemma map_pdos_within:
  assumes "0 < max_size"
  shows "map_pdos fuel pdos (Some buf) bit_offset max_size w = Returns (r, w') \<Longrightarrow>
    maps_within buf (unat max_size) w w'"
proof (induction pdos arbitrary: bit_offset w)
  case (Cons pdo pdos)
  from Cons.prems obtain r1 bo1 w1 where one: "parsePdoMap fuel pdo (Some buf) bit_offset max_size w = Returns (r1, bo1, w1)"
      "(if r1 then map_pdos fuel pdos (Some buf) bo1 max_size w1 else Returns (False, w1)) = Returns (r, w')"
    by (auto split: outcome.splits)
  have "maps_within buf (unat max_size) w w1"
    using one(1) parsePdoMap_loop_within [OF assms] maps_within_refl
    by (auto simp: parsePdoMap_def split: option.splits)
  with one(2) Cons.IH [of bo1 w1] maps_within_trans show ?case by (cases r1) auto
qed (simp add: maps_within_refl)

lemma map_direction_within:
  assumes "0 < max_size" and "map_direction fuel sm (Some buf) max_size w = Returns (r, w')"
  shows "maps_within buf (unat max_size) w w'"
  using assms map_pdos_within [OF assms(1)] maps_within_refl
  by (auto simp: map_direction_def split: if_splits outcome.splits)

text \<open>Whenever the mapping returns, it has redirected entries into the image of their direction only
  and written inside the images only.\<close>

lemma configureMapping_within:
  assumes "configureMapping fuel p w = Returns (code, w')"
    and "pd_input p = Some ibuf" and "0 < pd_input_size p" and "pd_output p = Some obuf" and "0 < pd_output_size p"
  shows "\<exists>w1. maps_within ibuf (unat (pd_input_size p)) w w1 \<and> maps_within obuf (unat (pd_output_size p)) w1 w'"
proof -
  obtain r1 w1 where one: "map_direction fuel (pd_sm_input p) (Some ibuf) (pd_input_size p) w = Returns (r1, w1)"
    using assms(1,2) by (auto simp: configureMapping_def split: outcome.splits)
  have in_ok: "maps_within ibuf (unat (pd_input_size p)) w w1" using map_direction_within [OF assms(3) one] .
  show ?thesis
  proof (cases r1)
    case True
    then obtain r2 where "map_direction fuel (pd_sm_output p) (Some obuf) (pd_output_size p) w1 = Returns (r2, w')"
      using assms(1,2,4) one by (auto simp: configureMapping_def split: outcome.splits)
    then show ?thesis using in_ok map_direction_within [OF assms(5)] by blast
  next
    case False
    then have "w' = w1" using assms(1,2) one by (simp add: configureMapping_def)
    then show ?thesis using in_ok maps_within_refl by blast
  qed
qed

end
