(* ===== verification/PdoMapping.thy ===== *)
theory PdoMapping
  imports SlaveIO
begin

text \<open>
  The PDO mapping of a slave over sound storage: which dictionaries the mapping loops of PDO.cc
  get through, that they then return, and that the storage of all entries is sound afterwards.
\<close>

section \<open>Sound storage\<close>

definition room :: "ptr \<Rightarrow> nat \<Rightarrow> heap \<Rightarrow> bool" where
  "room p n h \<longleftrightarrow> (case hp_blocks h (fst p) of None \<Rightarrow> False | Some b \<Rightarrow> snd p + n \<le> length b)"

lemma room_load: "room p n h \<longleftrightarrow> load p n h \<noteq> None"
  by (auto simp: room_def load_def mem_read_def split: option.splits)

lemma room_le: "room p n h \<Longrightarrow> k + m \<le> n \<Longrightarrow> room (fst p, snd p + k) m h"
  by (auto simp: room_def split: option.splits)

definition listed :: "dictionary \<Rightarrow> nat \<Rightarrow> nat \<Rightarrow> bool" where
  "listed dict i j \<longleftrightarrow> i < length dict \<and> j < length (ob_entries (dict ! i))"

definition value_bytes :: "entry \<Rightarrow> nat" where
  "value_bytes e = (unat (en_bitlen e) + 7) div 8"

text \<open>The entries with storage: allocated for the entry alone, or part of a process image.\<close>

definition held :: "bool \<Rightarrow> dictionary \<Rightarrow> nat \<Rightarrow> nat \<Rightarrow> ptr \<Rightarrow> bool" where
  "held mapped dict i j p \<longleftrightarrow> listed dict i j \<and> en_data (entry_at dict i j) = Some p \<and> en_is_mapped (entry_at dict i j) = mapped"

definition image_blocks :: "(ptr \<times> nat) set \<Rightarrow> nat set" where
  "image_blocks images = (\<lambda>(buf, sz). fst buf) ` images"

text \<open>
  The images have room for their size, an entry that is not mapped has a block of its own at least as
  long as its value, and a mapped entry lies in an image with its whole value.
\<close>

definition stored :: "(ptr \<times> nat) set \<Rightarrow> dictionary \<times> heap \<Rightarrow> bool" where
  "stored images = (\<lambda>(dict, h).
     (\<forall>(buf, sz) \<in> images. room buf sz h)
     \<and> (\<forall>i j p. held False dict i j p \<longrightarrow> snd p = 0 \<and> fst p \<notin> image_blocks images \<and> room p (value_bytes (entry_at dict i j)) h)
     \<and> (\<forall>i j p. held True dict i j p \<longrightarrow> fst p \<in> image_blocks images \<and> room p (value_bytes (entry_at dict i j)) h)
     \<and> (\<forall>i j p i' j' p'. held False dict i j p \<and> held False dict i' j' p' \<and> fst p = fst p' \<longrightarrow> i = i' \<and> j = j'))"

lemma storedD:
  assumes "stored images (dict, h)"
  shows "(buf, sz) \<in> images \<Longrightarrow> room buf sz h"
    and "held False dict i j p \<Longrightarrow> snd p = 0 \<and> fst p \<notin> image_blocks images \<and> room p (value_bytes (entry_at dict i j)) h"
    and "held True dict i j p \<Longrightarrow> fst p \<in> image_blocks images \<and> room p (value_bytes (entry_at dict i j)) h"
    and "held False dict i j p \<Longrightarrow> held False dict i' j' p' \<Longrightarrow> fst p = fst p' \<Longrightarrow> i = i' \<and> j = j'"
  using assms unfolding stored_def by blast+

section \<open>Changing one entry of a dictionary\<close>

lemma find_pos_map: "find_pos (\<lambda>x. f x = v) xs = find_pos (\<lambda>y. y = v) (map f xs)"
  by (induction xs) simp_all

lemma entry_at_set:
  assumes "listed dict i j"
  shows "entry_at (set_entry_at dict i j e) i' j' = (if i' = i \<and> j' = j then e else entry_at dict i' j')"
  using assms by (auto simp: listed_def entry_at_def set_entry_at_def nth_list_update)

lemma listed_set: "listed (set_entry_at dict i j e) i' j' = listed dict i' j'"
  by (cases "i' = i") (auto simp: listed_def set_entry_at_def)

lemma findObject_set:
  assumes "listed dict i j" "en_subindex e = en_subindex (entry_at dict i j)"
  shows "findObject (set_entry_at dict i j e) = findObject dict"
proof -
  have subs: "map en_subindex (ob_entries (set_entry_at dict i j e ! k)) = map en_subindex (ob_entries (dict ! k))" for k
    using assms by (auto simp: listed_def entry_at_def set_entry_at_def nth_list_update intro!: nth_equalityI)
  have "map ob_index (set_entry_at dict i j e) = map ob_index dict"
    using assms(1) by (auto simp: listed_def set_entry_at_def nth_list_update intro!: nth_equalityI)
  then show ?thesis
    unfolding findObject_def find_pos_map [of ob_index] find_pos_map [of en_subindex] by (simp only: subs)
qed

lemma findObject_listed:
  "findObject dict index sub = (Some i, Some j) \<Longrightarrow> listed dict i j \<and> ob_index (dict ! i) = index"
  by (auto simp: findObject_def find_pos_Some listed_def split: option.splits)

section \<open>Redirecting one entry\<close>

text \<open>
  What a mapping step leaves alone, for the indexes \<open>control\<close> of the assignment and mapping objects:
  where objects are found, the lengths of the entries, the control entries and their blocks.
\<close>

definition carried :: "u16 set \<Rightarrow> dictionary \<times> heap \<Rightarrow> dictionary \<times> heap \<Rightarrow> bool" where
  "carried control w w' \<longleftrightarrow> findObject (fst w') = findObject (fst w)
     \<and> (\<forall>i j. en_bitlen (entry_at (fst w') i j) = en_bitlen (entry_at (fst w) i j))
     \<and> (\<forall>index \<in> control. \<forall>sub e. lookup (fst w) index sub = Some e \<longrightarrow> lookup (fst w') index sub = Some e
          \<and> (\<forall>p. en_data e = Some p \<longrightarrow> hp_blocks (snd w') (fst p) = hp_blocks (snd w) (fst p)))"

lemma carried_refl [simp]: "carried control w w"
  by (simp add: carried_def)

lemma carried_trans: "carried control a b \<Longrightarrow> carried control b c \<Longrightarrow> carried control a c"
  unfolding carried_def by metis

lemma carried_lookup:
  assumes "carried control w w'" "index \<in> control"
  shows "lookup (fst w') index sub = lookup (fst w) index sub"
proof (cases "lookup (fst w) index sub")
  case None
  have "findObject (fst w') index sub = findObject (fst w) index sub" using assms(1) by (simp add: carried_def)
  then show ?thesis using None by (auto simp: lookup_def split: option.splits prod.splits)
qed (use assms in \<open>simp add: carried_def\<close>)

lemma carried_load:
  assumes "carried control w w'" "index \<in> control" "lookup (fst w) index sub = Some e"
  shows "load8 (en_data e) (snd w') = load8 (en_data e) (snd w)" "load16 (en_data e) (snd w') = load16 (en_data e) (snd w)"
    "load32 (en_data e) (snd w') = load32 (en_data e) (snd w)"
proof -
  have "hp_blocks (snd w') (fst p) = hp_blocks (snd w) (fst p)" if "en_data e = Some p" for p
    using that assms unfolding carried_def by blast
  then have "load p n (snd w') = load p n (snd w)" if "en_data e = Some p" for p n
    using that by (simp add: load_def)
  then show "load8 (en_data e) (snd w') = load8 (en_data e) (snd w)" "load16 (en_data e) (snd w') = load16 (en_data e) (snd w)"
    "load32 (en_data e) (snd w') = load32 (en_data e) (snd w)"
    by (cases "en_data e"; simp add: load8_def load16_def load32_def)+
qed

definition control_owned :: "u16 set \<Rightarrow> dictionary \<Rightarrow> bool" where
  "control_owned control dict \<longleftrightarrow> (\<forall>index \<in> control. \<forall>sub e. lookup dict index sub = Some e \<longrightarrow> \<not> en_is_mapped e)"

lemma carried_owned: "carried control w w' \<Longrightarrow> control_owned control (fst w) \<Longrightarrow> control_owned control (fst w')"
  by (simp add: control_owned_def carried_lookup)

text \<open>The value moves from its old place into the image, and a block of its own is freed.\<close>

lemma move_value:
  assumes st: "stored images (dict, h)" and old: "held m dict i j old" and img: "(buf, sz) \<in> images"
    and fit: "k + value_bytes (entry_at dict i j) \<le> sz"
  obtains d h1 h2 where "load old (value_bytes (entry_at dict i j)) h = Some d" "store (fst buf, snd buf + k) d h = Some h1"
    "(if \<not> m then dealloc old h1 else Some h1) = Some h2"
    "\<And>b. b \<noteq> fst buf \<Longrightarrow> m \<or> b \<noteq> fst old \<Longrightarrow> hp_blocks h2 b = hp_blocks h b"
    "\<And>p n. room p n h \<Longrightarrow> m \<or> fst p \<noteq> fst old \<Longrightarrow> room p n h2"
proof -
  let ?n = "value_bytes (entry_at dict i j)"
  have "room old ?n h" using storedD(2,3) [OF st, of i j old] old by (cases m) simp_all
  then obtain d where d: "load old ?n h = Some d" "length d = ?n"
    by (auto simp: room_load load_def bind_eq_Some_conv mem_read_eq_Some_iff)
  have "room (fst buf, snd buf + k) ?n h" by (rule room_le [OF storedD(1) [OF st img] fit])
  then obtain blk where blk: "hp_blocks h (fst buf) = Some blk" "snd buf + k + ?n \<le> length blk"
    by (auto simp: room_def split: option.splits)
  define h1 where "h1 = h\<lparr>hp_blocks := (hp_blocks h)(fst buf \<mapsto> poke blk (snd buf + k) d)\<rparr>"
  have h1: "store (fst buf, snd buf + k) d h = Some h1"
    using blk d(2) by (simp add: store_def h1_def)
  have room1: "room p n h1" if "room p n h" for p n
    using that blk d(2) by (auto simp: room_def h1_def split: option.splits if_splits)
  show ?thesis
  proof (cases m)
    case True
    show ?thesis by (rule that [OF d(1) h1, of h1]) (use True room1 in \<open>auto simp: h1_def\<close>)
  next
    case False
    have own: "snd old = 0" "fst old \<notin> image_blocks images" "room old ?n h" using storedD(2) [OF st, of i j old] old False by simp_all
    then have ne: "fst old \<noteq> fst buf" using img by (force simp: image_blocks_def)
    have "hp_blocks h1 (fst old) \<noteq> None" using own(3) ne by (auto simp: room_def h1_def split: option.splits)
    then have "dealloc old h1 = Some (h1\<lparr>hp_blocks := (hp_blocks h1)(fst old := None)\<rparr>)" using own by (simp add: dealloc_def)
    then show ?thesis
      by (intro that [OF d(1) h1, of "h1\<lparr>hp_blocks := (hp_blocks h1)(fst old := None)\<rparr>"])
        (use False room1 in \<open>simp_all add: room_def\<close>, simp add: h1_def)
  qed
qed


lemma carried_set:
  assumes "listed dict i j" "ob_index (dict ! i) \<notin> control" "en_subindex e = en_subindex (entry_at dict i j)"
    "en_bitlen e = en_bitlen (entry_at dict i j)"
    and blocks: "\<And>index sub x p. index \<in> control \<Longrightarrow> lookup dict index sub = Some x \<Longrightarrow> en_data x = Some p
      \<Longrightarrow> hp_blocks h' (fst p) = hp_blocks h (fst p)"
  shows "carried control (dict, h) (set_entry_at dict i j e, h')"
proof -
  note found = findObject_set [OF assms(1,3)]
  have "lookup (set_entry_at dict i j e) index sub = Some x"
    if c: "index \<in> control" and x: "lookup dict index sub = Some x" for index sub x
  proof -
    obtain i' j' where at: "findObject dict index sub = (Some i', Some j')" "x = entry_at dict i' j'"
      using x by (auto simp: lookup_def split: option.splits prod.splits)
    then have "i' \<noteq> i" using findObject_listed c assms(2) by blast
    then show ?thesis using at found by (simp add: lookup_def entry_at_set [OF assms(1)])
  qed
  then show ?thesis
    using found assms(4) blocks by (auto simp: carried_def entry_at_set [OF assms(1)])
qed

lemma lookup_held:
  assumes "lookup dict index sub = Some x" "en_data x = Some p"
  obtains i j where "held (en_is_mapped x) dict i j p" "x = entry_at dict i j" "ob_index (dict ! i) = index"
proof -
  obtain i j where at: "findObject dict index sub = (Some i, Some j)" "x = entry_at dict i j"
    using assms(1) by (auto simp: lookup_def split: option.splits prod.splits)
  show ?thesis by (rule that [of i j]) (use at findObject_listed [OF at(1)] assms(2) in \<open>simp_all add: held_def\<close>)
qed

lemma alias_entry_stored:
  assumes st: "stored images (dict, h)" and own: "control_owned control dict" and img: "(buf, sz) \<in> images"
    and o: "findObject dict index sub = (Some i, Some j)" and index: "index \<notin> control"
    and bits: "unat bits = unat (en_bitlen (entry_at dict i j))" and fit: "(unat bit_offset + unat bits + 7) div 8 \<le> sz"
  obtains w' where "alias_entry i j (Some buf) bit_offset bits (dict, h) = Some w'" "stored images w'" "carried control (dict, h) w'"
proof -
  have ij: "listed dict i j" and at: "ob_index (dict ! i) \<notin> control" using findObject_listed [OF o] index by simp_all
  let ?k = "unat bit_offset div 8" and ?e = "entry_at dict i j"
  let ?new = "(fst buf, snd buf + ?k)"
  let ?dict = "set_entry_at dict i j (?e\<lparr>en_data := Some ?new, en_is_mapped := True\<rparr>)"
  have n: "(unat bits + 7) div 8 = value_bytes ?e" using bits by (simp add: value_bytes_def)
  have fits: "?k + value_bytes ?e \<le> sz" using image_bytes_fit [OF fit] n by simp
  have held: "held m ?dict i' j' p \<longleftrightarrow> (if i' = i \<and> j' = j then m \<and> p = ?new else held m dict i' j' p)" for m i' j' p
    using ij by (auto simp: held_def listed_set entry_at_set [OF ij])
  have size: "value_bytes (entry_at ?dict i' j') = value_bytes (entry_at dict i' j')" for i' j'
    by (simp add: entry_at_set [OF ij] value_bytes_def)
  have blk: "fst buf \<in> image_blocks images" using img by (force simp: image_blocks_def)
  have sound: "stored images (?dict, h')"
    if keep: "\<And>p n. room p n h \<Longrightarrow> (\<And>old. held False dict i j old \<Longrightarrow> fst p \<noteq> fst old) \<Longrightarrow> room p n h'" for h'
  proof -
    have image: "room b s h'" if "(b, s) \<in> images" for b s
      using keep [OF storedD(1) [OF st that]] storedD(2) [OF st] that by (force simp: image_blocks_def)
    have new: "room ?new (value_bytes ?e) h'" by (rule room_le [OF image [OF img] fits])
    show ?thesis
      unfolding stored_def prod.case
    proof (intro conjI allI impI)
      show "\<forall>(buf, sz) \<in> images. room buf sz h'" using image by blast
    next
      fix i' j' p assume "held False ?dict i' j' p"
      then have old: "held False dict i' j' p" "\<not> (i' = i \<and> j' = j)" by (auto simp: held split: if_splits)
      show "snd p = 0" "fst p \<notin> image_blocks images" using storedD(2) [OF st old(1)] by blast+
      show "room p (value_bytes (entry_at ?dict i' j')) h'"
        unfolding size using keep storedD(2) [OF st old(1)] storedD(4) [OF st old(1)] old(2) by blast
    next
      fix i' j' p assume p: "held True ?dict i' j' p"
      show "fst p \<in> image_blocks images" using p storedD(3) [OF st, of i' j' p] blk by (auto simp: held split: if_splits)
      show "room p (value_bytes (entry_at ?dict i' j')) h'"
      proof (cases "i' = i \<and> j' = j")
        case True
        then show ?thesis using p new unfolding size by (simp add: held)
      next
        case False
        then have "held True dict i' j' p" using p unfolding held by simp
        from storedD(3) [OF st this]
        have in_image: "fst p \<in> image_blocks images" and was: "room p (value_bytes (entry_at dict i' j')) h" by blast+
        have "fst p \<noteq> fst old" if "held False dict i j old" for old using storedD(2) [OF st that] in_image by metis
        from keep [OF was this] show ?thesis unfolding size .
      qed
    next
      fix i1 j1 p1 i2 j2 p2 assume "held False ?dict i1 j1 p1 \<and> held False ?dict i2 j2 p2 \<and> fst p1 = fst p2"
      then show "i1 = i2" "j1 = j2" using storedD(4) [OF st, of i1 j1 p1 i2 j2 p2] by (auto simp: held split: if_splits)
    qed
  qed
  have control: "carried control (dict, h) (?dict, h')"
    if same: "\<And>b. b \<notin> image_blocks images \<Longrightarrow> (\<And>old. held False dict i j old \<Longrightarrow> b \<noteq> fst old) \<Longrightarrow> hp_blocks h' b = hp_blocks h b" for h'
  proof (rule carried_set [OF ij at])
    fix index sub x p assume x: "index \<in> control" "lookup dict index sub = Some x" "en_data x = Some p"
    have "\<not> en_is_mapped x" using x own by (auto simp: control_owned_def)
    then obtain i' j' where i': "held False dict i' j' p" "ob_index (dict ! i') = index"
      using lookup_held [OF x(2,3)] by metis
    then have "i' \<noteq> i" using at x(1) by blast
    then show "hp_blocks h' (fst p) = hp_blocks h (fst p)"
      using same storedD(2) [OF st i'(1)] storedD(4) [OF st i'(1)] by blast
  qed simp_all
  show ?thesis
  proof (cases "en_data ?e")
    case None
    then have "alias_entry i j (Some buf) bit_offset bits (dict, h) = Some (?dict, h)"
      by (simp add: alias_entry_def Let_def split_def)
    then show ?thesis using that sound [of h] control [of h] by blast
  next
    case (Some old)
    define m where "m = en_is_mapped ?e"
    have old: "held m dict i j old" using Some ij by (simp add: held_def m_def)
    obtain d h1 h2 where d: "load old (value_bytes ?e) h = Some d" "store ?new d h = Some h1"
      "(if \<not> m then dealloc old h1 else Some h1) = Some h2"
      and h2: "\<And>b. b \<noteq> fst buf \<Longrightarrow> m \<or> b \<noteq> fst old \<Longrightarrow> hp_blocks h2 b = hp_blocks h b"
        "\<And>p n. room p n h \<Longrightarrow> m \<or> fst p \<noteq> fst old \<Longrightarrow> room p n h2"
      using move_value [OF st old img fits] by blast
    have moved: "alias_entry i j (Some buf) bit_offset bits (dict, h) = Some (?dict, h2)"
      using Some d by (simp add: alias_entry_def Let_def split_def n m_def)
    have freed: "m \<or> b \<noteq> fst old" if "\<And>old. held False dict i j old \<Longrightarrow> b \<noteq> fst old" for b
      using that old by (cases m) auto
    have "stored images (?dict, h2)" by (rule sound) (use h2(2) freed in blast)
    moreover have "carried control (dict, h) (?dict, h2)"
    proof (rule control)
      fix b assume "b \<notin> image_blocks images" and other: "\<And>old. held False dict i j old \<Longrightarrow> b \<noteq> fst old"
      then have "b \<noteq> fst buf" using blk by blast
      then show "hp_blocks h2 b = hp_blocks h b" by (rule h2(1) [OF _ freed [OF other]])
    qed
    ultimately show ?thesis using that moved by blast
  qed
qed


section \<open>The mapping loops return\<close>

text \<open>
  What the dictionary has to say for a mapping to be read: a mapped object is not itself an
  assignment or mapping object, and its length is the mapped one.
\<close>

definition target_ok :: "u16 set \<Rightarrow> dictionary \<Rightarrow> u32 \<Rightarrow> bool" where
  "target_ok control dict mapping =
     (let index = ucast (drop_bit 16 (mapping AND 0xFFFF0000)) :: u16;
          sub = ucast (drop_bit 8 (mapping AND 0x0000FF00)) :: u8;
          bits = ucast (mapping AND 0x000000FF) :: u8
      in index = 0 \<or> index \<notin> control
         \<and> (\<forall>i j. findObject dict index sub = (Some i, Some j) \<longrightarrow> unat bits = unat (en_bitlen (entry_at dict i j))))"

definition counts :: "dictionary \<times> heap \<Rightarrow> u16 \<Rightarrow> (entry \<Rightarrow> bool) \<Rightarrow> bool" where
  "counts w index ok \<longleftrightarrow> (\<forall>e0. lookup (fst w) index 0 = Some e0 \<longrightarrow>
     (\<exists>count. load8 (en_data e0) (snd w) = Some count \<and> unat count < 255
        \<and> (\<forall>i e. 0 < i \<and> i \<le> count \<and> lookup (fst w) index i = Some e \<longrightarrow> ok e)))"

definition assignment_ok :: "u16 set \<Rightarrow> dictionary \<times> heap \<Rightarrow> u16 \<Rightarrow> bool" where
  "assignment_ok pdos w index \<longleftrightarrow> counts w index (\<lambda>e. \<exists>pdo \<in> pdos. load16 (en_data e) (snd w) = Some pdo)"

definition mapping_ok :: "u16 set \<Rightarrow> dictionary \<times> heap \<Rightarrow> u16 \<Rightarrow> bool" where
  "mapping_ok control w index \<longleftrightarrow>
     counts w index (\<lambda>e. \<exists>mapping. load32 (en_data e) (snd w) = Some mapping \<and> target_ok control (fst w) mapping)"

lemma carried_counts:
  assumes "carried control w w'" "index \<in> control" "counts w index ok"
    and "\<And>i e. lookup (fst w) index i = Some e \<Longrightarrow> ok e \<Longrightarrow> ok' e"
  shows "counts w' index ok'"
  using assms(3,4) carried_load(1) [OF assms(1,2)] unfolding counts_def carried_lookup [OF assms(1,2)] by metis

lemma carried_target: "carried control w w' \<Longrightarrow> target_ok control (fst w) mapping \<Longrightarrow> target_ok control (fst w') mapping"
  by (simp add: carried_def target_ok_def Let_def)

lemma carried_assignment:
  assumes "carried control w w'" "index \<in> control" "assignment_ok pdos w index"
  shows "assignment_ok pdos w' index"
  unfolding assignment_ok_def
  by (rule carried_counts [OF assms(1,2) assms(3) [unfolded assignment_ok_def]])
    (simp add: carried_load(2) [OF assms(1,2)])

lemma carried_mapping:
  assumes "carried control w w'" "index \<in> control" "mapping_ok control w index"
  shows "mapping_ok control w' index"
  unfolding mapping_ok_def
  by (rule carried_counts [OF assms(1,2) assms(3) [unfolded mapping_ok_def]])
    (use carried_load(3) [OF assms(1,2)] carried_target [OF assms(1)] in auto)

lemma next_index: "i \<le> (count :: u8) \<Longrightarrow> unat count < 255 \<Longrightarrow> unat (i + 1) = Suc (unat i)"
  using unat_add_small [of i 1] by (simp add: word_le_nat_alt)

text \<open>The state of a mapping run: sound storage and the control objects of its start.\<close>

definition running :: "(ptr \<times> nat) set \<Rightarrow> u16 set \<Rightarrow> dictionary \<times> heap \<Rightarrow> dictionary \<times> heap \<Rightarrow> bool" where
  "running images control w0 w \<longleftrightarrow> stored images w \<and> control_owned control (fst w) \<and> carried control w0 w"

definition finishes :: "('a \<Rightarrow> bool) \<Rightarrow> 'a outcome \<Rightarrow> bool" where
  "finishes P out \<longleftrightarrow> (case out of Returns x \<Rightarrow> P x | _ \<Rightarrow> False)"

lemma finishes_Returns [simp]: "finishes P (Returns x) \<longleftrightarrow> P x"
  by (simp add: finishes_def)

lemma finishesE:
  assumes "finishes P out" obtains x where "out = Returns x" "P x"
  using assms by (auto simp: finishes_def split: outcome.splits)

lemma running_alias:
  assumes run: "running images control w0 w" and img: "(buf, unat max_size) \<in> images" and m: "target_ok control (fst w0) mapping"
  defines "index \<equiv> ucast (drop_bit 16 (mapping AND 0xFFFF0000)) :: u16"
    and "sub \<equiv> ucast (drop_bit 8 (mapping AND 0x0000FF00)) :: u8" and "bits \<equiv> ucast (mapping AND 0x000000FF) :: u8"
  assumes nz: "index \<noteq> 0" and fit: "(unat bit_offset + unat bits + 7) div 8 \<le> unat max_size"
    and o: "findObject (fst w) index sub = (Some i, Some j)"
  obtains w' where "alias_entry i j (Some buf) bit_offset bits w = Some w'" "running images control w0 w'"
proof -
  have c: "stored images (fst w, snd w)" "control_owned control (fst w)" "carried control w0 w" using run by (simp_all add: running_def)
  have t: "index \<notin> control" "unat bits = unat (en_bitlen (entry_at (fst w) i j))"
    using carried_target [OF c(3) m] nz o by (auto simp: target_ok_def index_def sub_def bits_def Let_def)
  obtain w' where w': "alias_entry i j (Some buf) bit_offset bits (fst w, snd w) = Some w'" "stored images w'"
    "carried control (fst w, snd w) w'"
    by (rule alias_entry_stored [OF c(1,2) img o t fit])
  show ?thesis
    by (rule that [of w']) (use w' c carried_trans carried_owned in \<open>auto simp: running_def\<close>)
qed


lemma parsePdoMap_loop_returns:
  assumes img: "(buf, unat max_size) \<in> images" "0 < max_size" and idx: "idx \<in> control" and count: "unat count < 255"
    and ok: "\<And>i e. 0 < i \<Longrightarrow> i \<le> count \<Longrightarrow> lookup (fst w0) idx i = Some e \<Longrightarrow>
      \<exists>mapping. load32 (en_data e) (snd w0) = Some mapping \<and> target_ok control (fst w0) mapping"
  shows "running images control w0 w \<Longrightarrow> Suc (unat count) < unat i + fuel \<Longrightarrow> 0 < unat i \<Longrightarrow> unat i \<le> Suc (unat count) \<Longrightarrow>
    finishes (\<lambda>(r, bit_offset', w'). running images control w0 w') (parsePdoMap_loop fuel idx (Some buf) max_size count i bit_offset w)"
proof (induction fuel arbitrary: i bit_offset w)
  case (Suc n)
  have c: "carried control w0 w" using Suc.prems(1) by (simp add: running_def)
  show ?case
  proof (cases "i \<le> count \<and> lookup (fst w) idx i \<noteq> None")
    case False
    then show ?thesis using Suc.prems(1) by auto
  next
    case True
    then obtain e where i: "i \<le> count" and e: "lookup (fst w) idx i = Some e" by auto
    have e0: "lookup (fst w0) idx i = Some e" using e carried_lookup [OF c idx] by simp
    obtain mapping where m: "load32 (en_data e) (snd w) = Some mapping" "target_ok control (fst w0) mapping"
      using ok [OF _ i e0] Suc.prems(3) carried_load(3) [OF c idx e0] by (auto simp: word_less_nat_alt)
    define index sub bits where "index = (ucast (drop_bit 16 (mapping AND 0xFFFF0000)) :: u16)"
      and "sub = (ucast (drop_bit 8 (mapping AND 0x0000FF00)) :: u8)" and "bits = (ucast (mapping AND 0x000000FF) :: u8)"
    let ?go = "parsePdoMap_loop n idx (Some buf) max_size count (i + 1) (bit_offset + ucast bits)"
    have body: "parsePdoMap_loop (Suc n) idx (Some buf) max_size count i bit_offset w =
        (if unat max_size < (unat bit_offset + unat bits + 7) div 8 then Returns (False, bit_offset, w)
         else if index = 0 then ?go w
         else case findObject (fst w) index sub of
             (Some oi, Some ei) \<Rightarrow> (case alias_entry oi ei (Some buf) bit_offset bits w of None \<Rightarrow> Undefined | Some w \<Rightarrow> ?go w)
           | _ \<Rightarrow> Returns (False, bit_offset, w))"
      using i img(2) by (simp only: parsePdoMap_loop.simps Let_def e m(1) option.case if_True index_def sub_def bits_def simp_thms)
    have go: "finishes (\<lambda>(r, bit_offset', w'). running images control w0 w') (?go w')"
      if "running images control w0 w'" for w'
      using Suc.IH [OF that] Suc.prems next_index [OF i count] i by (simp add: word_le_nat_alt)
    show ?thesis
    proof (cases "unat max_size < (unat bit_offset + unat bits + 7) div 8 \<or> index = 0 \<or> (\<nexists>oi ei. findObject (fst w) index sub = (Some oi, Some ei))")
      case True
      then show ?thesis
        unfolding body using Suc.prems(1) go [OF Suc.prems(1)] by (auto split: option.splits prod.splits)
    next
      case False
      then obtain oi ei where o: "findObject (fst w) index sub = (Some oi, Some ei)" by blast
      have fit: "(unat bit_offset + unat bits + 7) div 8 \<le> unat max_size" using False by linarith
      obtain w' where "alias_entry oi ei (Some buf) bit_offset bits w = Some w'" "running images control w0 w'"
        using running_alias [OF Suc.prems(1) img(1) m(2)] False fit o unfolding index_def sub_def bits_def by blast
      then show ?thesis unfolding body using False o go by simp
    qed
  qed
qed simp


lemma parsePdoMap_returns:
  assumes img: "(buf, unat max_size) \<in> images" "0 < max_size" and idx: "idx \<in> control" and run: "running images control w0 w"
    and ok: "mapping_ok control w0 idx" and fuel: "256 \<le> fuel"
  shows "finishes (\<lambda>(r, bit_offset', w'). running images control w0 w') (parsePdoMap fuel idx (Some buf) bit_offset max_size w)"
proof (cases "lookup (fst w) idx 0")
  case None
  then show ?thesis using run by (simp add: parsePdoMap_def)
next
  case (Some e0)
  have c: "carried control w0 w" using run by (simp add: running_def)
  have e0: "lookup (fst w0) idx 0 = Some e0" using Some carried_lookup [OF c idx] by simp
  obtain count where count: "load8 (en_data e0) (snd w) = Some count" "unat count < 255"
    and subs: "\<And>i e. 0 < i \<Longrightarrow> i \<le> count \<Longrightarrow> lookup (fst w0) idx i = Some e \<Longrightarrow>
      \<exists>mapping. load32 (en_data e) (snd w0) = Some mapping \<and> target_ok control (fst w0) mapping"
    using ok e0 carried_load(1) [OF c idx e0] by (auto simp: mapping_ok_def counts_def)
  show ?thesis
    using parsePdoMap_loop_returns [OF img idx count(2) subs run, where i = 1 and fuel = fuel and bit_offset = bit_offset] count fuel
    by (simp add: parsePdoMap_def Some)
qed

lemma map_pdos_returns:
  assumes img: "(buf, unat max_size) \<in> images" "0 < max_size"
    and ok: "\<And>pdo. pdo \<in> control' \<Longrightarrow> mapping_ok control w0 pdo" "control' \<subseteq> control" and fuel: "256 \<le> fuel"
  shows "set pdos \<subseteq> control' \<Longrightarrow> running images control w0 w \<Longrightarrow>
    finishes (\<lambda>(r, w'). running images control w0 w') (map_pdos fuel pdos (Some buf) bit_offset max_size w)"
proof (induction pdos arbitrary: bit_offset w)
  case Nil
  then show ?case by simp
next
  case (Cons pdo pdos)
  then have "pdo \<in> control" "mapping_ok control w0 pdo" using ok by auto
  from parsePdoMap_returns [OF img this(1) Cons.prems(2) this(2) fuel, of bit_offset]
  obtain r bit_offset' w' where "parsePdoMap fuel pdo (Some buf) bit_offset max_size w = Returns (r, bit_offset', w')"
    "running images control w0 w'" by (auto elim: finishesE)
  then show ?case using Cons.IH [of w' bit_offset'] Cons.prems(1) by simp
qed

lemma parseAssignment_returns:
  assumes idx: "idx \<in> control" and run: "carried control w0 w" and ok: "assignment_ok pdos w0 idx" and fuel: "256 \<le> fuel"
  obtains assigned where "parseAssignment fuel (fst w) (snd w) idx = Returns assigned" "set assigned \<subseteq> pdos"
proof (cases "lookup (fst w) idx 0")
  case None
  then show ?thesis using that [of "[]"] by (simp add: parseAssignment_def)
next
  case (Some e0)
  obtain count where count: "load8 (en_data e0) (snd w) = Some count" "unat count < 255"
    and subs: "\<And>i e. 0 < i \<Longrightarrow> i \<le> count \<Longrightarrow> lookup (fst w) idx i = Some e \<Longrightarrow> \<exists>pdo \<in> pdos. load16 (en_data e) (snd w) = Some pdo"
    using carried_assignment [OF run idx ok] Some by (auto simp: assignment_ok_def counts_def)
  have "readable_subs (fst w) (snd w) idx count"
    using subs by (fastforce simp: readable_subs_def split: option.splits)
  from parseAssignment_lists [OF Some count this, of fuel] have
    run: "parseAssignment fuel (fst w) (snd w) idx = Returns (assigned_pdos (fst w) (snd w) idx [1..<Suc (unat count)])"
    using count fuel by simp
  have "the (load16 (en_data e) (snd w)) \<in> pdos" if "k \<in> {1..<Suc (unat count)}" "lookup (fst w) idx (of_nat k) = Some e" for k e
  proof -
    have "unat (of_nat k :: u8) = k" using that(1) count(2) by (simp add: unat_of_nat_small)
    then show ?thesis using subs [of "of_nat k" e] that by (auto simp: word_less_nat_alt word_le_nat_alt)
  qed
  then have "set (assigned_pdos (fst w) (snd w) idx [1..<Suc (unat count)]) \<subseteq> pdos"
    by (auto simp: assigned_pdos_def simp del: upt_Suc split: option.splits)
  then show ?thesis by (rule that [OF run])
qed


section \<open>The whole mapping\<close>

definition assignment_index :: "sm_config \<Rightarrow> u16" where
  "assignment_index sm = of_nat (0x1C10 + unat (sc_index sm))"

definition assignments :: "pdo \<Rightarrow> u16 set" where
  "assignments p = (if hasInput p then {assignment_index (pd_sm_input p)} else {})
     \<union> (if hasOutput p then {assignment_index (pd_sm_output p)} else {})"

definition process_images :: "pdo \<Rightarrow> (ptr \<times> nat) set" where
  "process_images p = (case pd_input p of None \<Rightarrow> {} | Some buf \<Rightarrow> {(buf, unat (pd_input_size p))})
     \<union> (case pd_output p of None \<Rightarrow> {} | Some buf \<Rightarrow> {(buf, unat (pd_output_size p))})"

text \<open>
  A dictionary that can be mapped, \<open>pdos\<close> being the indexes of its mapping objects: the storage is
  sound, the sync managers are assigned mapping objects only, the mappings name objects of the mapped
  length, no count is 255, and the assignment and mapping objects themselves are not mapped.
\<close>

definition mappable :: "u16 set \<Rightarrow> pdo \<Rightarrow> dictionary \<times> heap \<Rightarrow> bool" where
  "mappable pdos p w \<longleftrightarrow> stored (process_images p) w \<and> control_owned (assignments p \<union> pdos) (fst w)
     \<and> (\<forall>a \<in> assignments p. assignment_ok pdos w a) \<and> (\<forall>pdo \<in> pdos. mapping_ok (assignments p \<union> pdos) w pdo)"

lemma map_direction_returns:
  assumes img: "(buf, unat max_size) \<in> images" "0 < max_size" and ok: "\<And>pdo. pdo \<in> pdos \<Longrightarrow> mapping_ok control w0 pdo" "pdos \<subseteq> control"
    and a: "sc_type sm \<noteq> SM_Unused \<Longrightarrow> assignment_index sm \<in> control \<and> assignment_ok pdos w0 (assignment_index sm)"
    and fuel: "256 \<le> fuel" and run: "running images control w0 w"
  shows "finishes (\<lambda>(r, w'). running images control w0 w') (map_direction fuel sm (Some buf) max_size w)"
proof (cases "sc_type sm = SM_Unused")
  case True
  then show ?thesis using run by (simp add: map_direction_def)
next
  case False
  obtain assigned where "parseAssignment fuel (fst w) (snd w) (assignment_index sm) = Returns assigned" "set assigned \<subseteq> pdos"
    using parseAssignment_returns [of "assignment_index sm" control w0 w pdos fuel] a [OF False] run fuel
    by (auto simp: running_def)
  then show ?thesis
    using False map_pdos_returns [OF img ok fuel _ run] by (simp add: map_direction_def assignment_index_def)
qed

lemma configureMapping_finishes:
  assumes inp: "pd_input p = Some ibuf" "0 < pd_input_size p" and outp: "pd_output p = Some obuf" "0 < pd_output_size p"
    and m: "mappable pdos p w" and fuel: "256 \<le> fuel"
  shows "finishes (\<lambda>(code, w'). stored (process_images p) w') (configureMapping fuel p w)"
proof -
  define control where "control = assignments p \<union> pdos"
  let ?run = "running (process_images p) control w"
  have img: "(ibuf, unat (pd_input_size p)) \<in> process_images p" "(obuf, unat (pd_output_size p)) \<in> process_images p"
    using inp outp by (simp_all add: process_images_def)
  have maps: "mapping_ok control w pdo" if "pdo \<in> pdos" for pdo using m that by (simp add: mappable_def control_def)
  have pdos: "pdos \<subseteq> control" by (simp add: control_def)
  have assigned: "sc_type sm \<noteq> SM_Unused \<Longrightarrow> assignment_index sm \<in> control \<and> assignment_ok pdos w (assignment_index sm)"
    if "sm = pd_sm_input p \<or> sm = pd_sm_output p" for sm
    using m that by (auto simp: mappable_def control_def assignments_def hasInput_def hasOutput_def)
  have "?run w" using m by (simp add: running_def mappable_def control_def)
  from map_direction_returns [OF img(1) inp(2) maps pdos assigned fuel this, of "pd_sm_input p"]
  obtain r1 w1 where one: "map_direction fuel (pd_sm_input p) (pd_input p) (pd_input_size p) w = Returns (r1, w1)" "?run w1"
    using inp(1) by (auto elim: finishesE)
  from map_direction_returns [OF img(2) outp(2) maps pdos assigned fuel one(2), of "pd_sm_output p"]
  obtain r2 w2 where two: "map_direction fuel (pd_sm_output p) (pd_output p) (pd_output_size p) w1 = Returns (r2, w2)" "?run w2"
    using outp(1) by (auto elim: finishesE)
  show ?thesis using one two by (cases r1) (simp_all add: configureMapping_def running_def)
qed

text \<open>(C23) The PDO mapping returns and is confined to the process images. For a slave with both
  images, of known size, and a dictionary that can be mapped, the loops of \<open>configureMapping\<close> end:
  256 tests of each are enough. Whether the mapping is accepted or rejected half-way, entries are
  only redirected into the image of their direction, nothing is written outside the images, and every
  entry with storage still has room for its whole value there.\<close>

theorem configureMapping_stays_in_images:
  assumes "pd_input p = Some ibuf" and "0 < pd_input_size p" and "pd_output p = Some obuf" and "0 < pd_output_size p"
    and "mappable pdos p w" and "256 \<le> fuel"
  shows "\<exists>code w1 w'. configureMapping fuel p w = Returns (code, w')
    \<and> maps_within ibuf (unat (pd_input_size p)) w w1 \<and> maps_within obuf (unat (pd_output_size p)) w1 w'
    \<and> stored (process_images p) w'"
proof -
  obtain code w' where "configureMapping fuel p w = Returns (code, w')" "stored (process_images p) w'"
    using configureMapping_finishes [OF assms] by (auto elim: finishesE)
  then show ?thesis using configureMapping_within [OF _ assms(1-4)] by blast
qed

definition map_heap :: heap where
  "map_heap = \<lparr>hp_fresh = 10, hp_blocks = (Map.empty)(0 \<mapsto> [1], 1 \<mapsto> [0x00, 0x1A], 2 \<mapsto> [1], 9 \<mapsto> [8, 1, 0, 0x60],
     4 \<mapsto> [0x2A], 5 \<mapsto> [0, 0], 6 \<mapsto> [0, 0])\<rparr>"

definition map_object :: "u16 \<Rightarrow> (u8 \<times> u16 \<times> nat) list \<Rightarrow> object" where
  "map_object index es = \<lparr>ob_index = index, ob_code = RECORD, ob_name = [], ob_entries =
     map (\<lambda>(sub, bits, b). (Entry_new sub bits 0 7 5 [])\<lparr>en_data := Some (b, 0)\<rparr>) es\<rparr>"

definition map_dict :: dictionary where
  "map_dict = [map_object 0x1C13 [(0, 8, 0), (1, 16, 1)], map_object 0x1A00 [(0, 8, 2), (1, 32, 9)], map_object 0x6000 [(1, 8, 4)]]"

definition map_pdo :: pdo where
  "map_pdo = \<lparr>pd_input = Some (5, 0), pd_input_size = 2, pd_sm_input = SYNC_MANAGER_PI_IN 3 0x1100 2,
     pd_output = Some (6, 0), pd_output_size = 2, pd_sm_output = SM_NONE\<rparr>"

lemma map_lookups:
  "lookup map_dict 0x1C13 0 = Some ((Entry_new 0 8 0 7 5 [])\<lparr>en_data := Some (0, 0)\<rparr>)"
  "lookup map_dict 0x1C13 1 = Some ((Entry_new 1 16 0 7 5 [])\<lparr>en_data := Some (1, 0)\<rparr>)"
  "lookup map_dict 0x1A00 0 = Some ((Entry_new 0 8 0 7 5 [])\<lparr>en_data := Some (2, 0)\<rparr>)"
  "lookup map_dict 0x1A00 1 = Some ((Entry_new 1 32 0 7 5 [])\<lparr>en_data := Some (9, 0)\<rparr>)"
  "findObject map_dict 0x6000 1 = (Some 2, Some 0)"
  by (simp_all add: lookup_def findObject_def map_dict_def map_object_def Entry_new_def entry_at_def)

lemma map_loads:
  "load8 (Some (0, 0)) map_heap = Some 1" "load16 (Some (1, 0)) map_heap = Some 0x1A00"
  "load8 (Some (2, 0)) map_heap = Some 1" "load32 (Some (9, 0)) map_heap = Some 0x60000108"
  by (simp_all add: load8_def load16_def load32_def load_def map_heap_def peek_def from_le_def)

lemma map_listed: "listed map_dict i j \<longleftrightarrow> (i, j) \<in> {(0, 0), (0, 1), (1, 0), (1, 1), (2, 0)}"
proof -
  consider "i = 0" | "i = 1" | "i = 2" | "3 \<le> i" by linarith
  then show ?thesis by cases (auto simp: listed_def map_dict_def map_object_def)
qed

lemma map_entries:
  "entry_at map_dict 0 0 = (Entry_new 0 8 0 7 5 [])\<lparr>en_data := Some (0, 0)\<rparr>"
  "entry_at map_dict 0 1 = (Entry_new 1 16 0 7 5 [])\<lparr>en_data := Some (1, 0)\<rparr>"
  "entry_at map_dict 1 0 = (Entry_new 0 8 0 7 5 [])\<lparr>en_data := Some (2, 0)\<rparr>"
  "entry_at map_dict 1 1 = (Entry_new 1 32 0 7 5 [])\<lparr>en_data := Some (9, 0)\<rparr>"
  "entry_at map_dict 2 0 = (Entry_new 1 8 0 7 5 [])\<lparr>en_data := Some (4, 0)\<rparr>"
  by (simp_all add: entry_at_def map_dict_def map_object_def)

lemma map_held:
  "held m map_dict i j p \<longleftrightarrow> \<not> m \<and> (i, j, p) \<in> {(0, 0, 0, 0), (0, 1, 1, 0), (1, 0, 2, 0), (1, 1, 9, 0), (2, 0, 4, 0)}"
  unfolding held_def map_listed using map_entries by (auto simp: Entry_new_def simp del: One_nat_def)

lemma map_unmapped: "lookup map_dict index sub = Some e \<Longrightarrow> \<not> en_is_mapped e"
proof -
  assume "lookup map_dict index sub = Some e"
  then obtain i j where "listed map_dict i j" "e = entry_at map_dict i j"
    using findObject_listed by (fastforce simp: lookup_def split: option.splits prod.splits)
  then show ?thesis using map_entries by (auto simp: map_listed Entry_new_def simp del: One_nat_def)
qed

lemma map_mappable: "mappable {0x1A00} map_pdo (map_dict, map_heap)"
proof -
  have images: "process_images map_pdo = {((5, 0), 2), ((6, 0), 2)}" by (auto simp: process_images_def map_pdo_def)
  have assign: "assignments map_pdo = {0x1C13}"
    by (simp add: assignments_def assignment_index_def hasInput_def hasOutput_def map_pdo_def SYNC_MANAGER_PI_IN_def SM_NONE_def)
  have blocks: "image_blocks {((5, 0), 2), ((6, 0), 2)} = {5, 6}" by (auto simp: image_blocks_def)
  have "stored (process_images map_pdo) (map_dict, map_heap)"
    unfolding stored_def images blocks map_held prod.case
    by (auto simp: room_def map_heap_def value_bytes_def map_entries Entry_new_def simp del: One_nat_def)
  moreover have "control_owned control map_dict" for control using map_unmapped by (simp add: control_owned_def)
  moreover have one: "i = 1" if "0 < i" "i \<le> 1" for i :: u8
    using that by (simp add: word_less_nat_alt word_le_nat_alt word_unat_eq_iff)
  have "assignment_ok {0x1A00} (map_dict, map_heap) 0x1C13"
    by (auto simp: assignment_ok_def counts_def map_lookups map_loads Entry_new_def dest!: one simp del: One_nat_def)
  moreover have "target_ok {0x1C13, 0x1A00} map_dict 0x60000108"
    by (simp add: target_ok_def map_lookups map_entries Entry_new_def)
  then have "mapping_ok {0x1C13, 0x1A00} (map_dict, map_heap) 0x1A00"
    by (auto simp: mapping_ok_def counts_def map_lookups map_loads Entry_new_def dest!: one simp del: One_nat_def)
  ultimately show ?thesis by (simp add: mappable_def assign insert_commute)
qed

theorem configureMapping_stays_in_images_witness:
  "\<exists>code w1 w'. configureMapping 256 map_pdo (map_dict, map_heap) = Returns (code, w')
    \<and> maps_within (5, 0) 2 (map_dict, map_heap) w1 \<and> maps_within (6, 0) 2 w1 w' \<and> stored (process_images map_pdo) w'"
  using configureMapping_stays_in_images [OF _ _ _ _ map_mappable, of "(5, 0)" "(6, 0)" 256] by (simp add: map_pdo_def)

end
