(* ===== verification/ESM.thy ===== *)
theory ESM
  imports SlaveIO
begin

text \<open>
  The EtherCAT state machine of a slave (\<open>lib/slave/src/ESM.cc\<close>, \<open>lib/slave/src/ESMStates.cc\<close>)
  and the slave that plays it (\<open>lib/slave/src/slave/Slave.cc\<close>).

  The four state objects share the ESC, the process data, the mailbox and the dictionary, so one
  record holds them together with the status and the current state. Playing the machine is one
  step; \<open>None\<close> is an invalid memory access or a sync manager that never reports its activation.
\<close>

section \<open>Data\<close>

definition ST_INIT :: u8 where [simp]: "ST_INIT = 0x01"
definition ST_PRE_OP :: u8 where [simp]: "ST_PRE_OP = 0x02"
definition ST_BOOT :: u8 where [simp]: "ST_BOOT = 0x03"
definition ST_SAFE_OP :: u8 where [simp]: "ST_SAFE_OP = 0x04"
definition ST_OPERATIONAL :: u8 where [simp]: "ST_OPERATIONAL = 0x08"
definition MASK_STATE :: u16 where [simp]: "MASK_STATE = 0x0f"
definition ERROR_ACK :: u16 where [simp]: "ERROR_ACK = 0x10"

definition INVALID_REQUESTED_STATE_CHANGE :: u16 where [simp]: "INVALID_REQUESTED_STATE_CHANGE = 0x0011"
definition UNKNOWN_REQUESTED_STATE :: u16 where [simp]: "UNKNOWN_REQUESTED_STATE = 0x0012"
definition BOOTSTRAP_NOT_SUPPORTED :: u16 where [simp]: "BOOTSTRAP_NOT_SUPPORTED = 0x0013"
definition INVALID_MAILBOX_CONFIGURATION_PREOP :: u16 where [simp]: "INVALID_MAILBOX_CONFIGURATION_PREOP = 0x0016"
definition INVALID_SYNC_MANAGER_CONFIGURATION :: u16 where [simp]: "INVALID_SYNC_MANAGER_CONFIGURATION = 0x0017"
definition SYNC_MANAGER_WATCHDOG :: u16 where [simp]: "SYNC_MANAGER_WATCHDOG = 0x001B"

record cx =
  al_status :: u16
  al_status_code :: u16
  al_watchdog_process_data :: u16
  is_valid_output_data :: bool

definition requestedState :: "u16 \<Rightarrow> u8" where
  "requestedState control = ucast (control AND MASK_STATE)"

definition cx_state :: "cx \<Rightarrow> u8" where
  "cx_state c = ucast (al_status c AND MASK_STATE)"

definition hasExpiredWatchdog :: "cx \<Rightarrow> bool" where
  "hasExpiredWatchdog c \<longleftrightarrow> al_watchdog_process_data c AND 1 = 0"

text \<open>Both arguments are 8-bit wide in the code, whatever the caller passes.\<close>

definition Context_build :: "u8 \<Rightarrow> u16 \<Rightarrow> cx" where
  "Context_build st code =
     (let statusCode = ucast code :: u8
      in if statusCode = 0
         then \<lparr>al_status = ucast st, al_status_code = ucast statusCode, al_watchdog_process_data = 0,
               is_valid_output_data = False\<rparr>
         else \<lparr>al_status = ucast st OR ERROR_ACK, al_status_code = ucast statusCode,
               al_watchdog_process_data = 0, is_valid_output_data = False\<rparr>)"

datatype esm_state = Init | PreOP | SafeOP | OP

fun state_id :: "esm_state \<Rightarrow> u8" where
  "state_id Init = ST_INIT"
| "state_id PreOP = ST_PRE_OP"
| "state_id SafeOP = ST_SAFE_OP"
| "state_id OP = ST_OPERATIONAL"

record 'e slave =
  sl_esc :: 'e
  sl_pdo :: pdo
  sl_heap :: heap
  sl_dict :: "dictionary option"
  sl_mbx :: "mbx_config option"
  sl_status :: cx
  sl_current :: esm_state

definition Slave_new :: "'e \<Rightarrow> pdo \<Rightarrow> heap \<Rightarrow> 'e slave" where
  "Slave_new e p h =
     \<lparr>sl_esc = e, sl_pdo = p, sl_heap = h, sl_dict = None, sl_mbx = None,
      sl_status = \<lparr>al_status = ucast (state_id Init), al_status_code = 0, al_watchdog_process_data = 0,
                   is_valid_output_data = False\<rparr>, sl_current = Init\<rparr>"

definition setMailbox :: "mbx_config option \<Rightarrow> 'e slave \<Rightarrow> 'e slave" where
  "setMailbox mbx s = s\<lparr>sl_mbx := mbx\<rparr>"

definition setDictionary :: "dictionary option \<Rightarrow> 'e slave \<Rightarrow> 'e slave" where
  "setDictionary dict s = s\<lparr>sl_dict := dict\<rparr>"

definition validateOutputData :: "'e slave \<Rightarrow> 'e slave" where
  "validateOutputData s = s\<lparr>sl_status := (sl_status s)\<lparr>is_valid_output_data := True\<rparr>\<rparr>"

section \<open>Entering a state\<close>

definition mbx_activate :: "'e esc_ops \<Rightarrow> nat \<Rightarrow> bool \<Rightarrow> 'e slave \<Rightarrow> 'e slave option" where
  "mbx_activate ops fuel active s = (case sl_mbx s of
     None \<Rightarrow> Some s
   | Some m \<Rightarrow> do { e \<leftarrow> Mailbox_activate ops fuel active m (sl_esc s); Some (s\<lparr>sl_esc := e\<rparr>) })"

definition pdo_activate_output :: "'e esc_ops \<Rightarrow> nat \<Rightarrow> bool \<Rightarrow> 'e slave \<Rightarrow> 'e slave option" where
  "pdo_activate_output ops fuel active s =
     do { e \<leftarrow> activateOutput ops fuel active (sl_pdo s) (sl_esc s); Some (s\<lparr>sl_esc := e\<rparr>) }"

definition pdo_activate_input :: "'e esc_ops \<Rightarrow> nat \<Rightarrow> bool \<Rightarrow> 'e slave \<Rightarrow> 'e slave option" where
  "pdo_activate_input ops fuel active s =
     do { e \<leftarrow> activateInput ops fuel active (sl_pdo s) (sl_esc s); Some (s\<lparr>sl_esc := e\<rparr>) }"

fun onEntry :: "'e esc_ops \<Rightarrow> nat \<Rightarrow> esm_state \<Rightarrow> cx \<Rightarrow> cx \<Rightarrow> 'e slave \<Rightarrow> 'e slave option" where
  "onEntry ops fuel Init oldStatus newStatus s = do {
     s \<leftarrow> mbx_activate ops fuel False s;
     s \<leftarrow> pdo_activate_input ops fuel False s;
     pdo_activate_output ops fuel False s
   }"
| "onEntry ops fuel PreOP oldStatus newStatus s = do {
     s \<leftarrow> mbx_activate ops fuel True s;
     s \<leftarrow> pdo_activate_output ops fuel False s;
     pdo_activate_input ops fuel False s
   }"
| "onEntry ops fuel SafeOP oldStatus newStatus s =
     (if cx_state oldStatus = ST_OPERATIONAL \<and> al_status_code newStatus \<noteq> ECAT_NO_ERROR
      then pdo_activate_output ops fuel False s
      else do { s \<leftarrow> pdo_activate_output ops fuel True s; pdo_activate_input ops fuel True s })"
| "onEntry ops fuel OP oldStatus newStatus s = Some s"

section \<open>The routine of a state\<close>

definition mbx_config_ok :: "'e esc_ops \<Rightarrow> 'e slave \<Rightarrow> bool \<times> 'e slave" where
  "mbx_config_ok ops s = (case sl_mbx s of
     None \<Rightarrow> (True, s)
   | Some m \<Rightarrow> let (ok, e) = Mailbox_isConfigOk ops m (sl_esc s) in (ok, s\<lparr>sl_esc := e\<rparr>))"

definition pdo_config_ok :: "'e esc_ops \<Rightarrow> 'e slave \<Rightarrow> u16 \<times> 'e slave" where
  "pdo_config_ok ops s = (let (rc, e) = PDO_isConfigOk ops (sl_pdo s) (sl_esc s) in (rc, s\<lparr>sl_esc := e\<rparr>))"

definition Init_routineInternal :: "'e esc_ops \<Rightarrow> u16 \<Rightarrow> 'e slave \<Rightarrow> cx \<times> 'e slave" where
  "Init_routineInternal ops control s =
     (let req = requestedState control;
          rest = (\<lambda>s. if req = ST_SAFE_OP \<or> req = ST_OPERATIONAL
                     then (Context_build ST_INIT INVALID_REQUESTED_STATE_CHANGE, s)
                     else if req = ST_BOOT then (Context_build (state_id Init) BOOTSTRAP_NOT_SUPPORTED, s)
                     else (Context_build ST_INIT ECAT_NO_ERROR, s))
      in if req = ST_PRE_OP then
           (case sl_mbx s of
              None \<Rightarrow> (Context_build ST_PRE_OP ECAT_NO_ERROR, s)
            | Some m \<Rightarrow>
                let (rc, m, e) = Mailbox_configure ops m (sl_esc s);
                    s = s\<lparr>sl_mbx := Some m, sl_esc := e\<rparr>
                in if rc = 0 then
                     let (ok, e) = Mailbox_isConfigOk ops m (sl_esc s); s = s\<lparr>sl_esc := e\<rparr>
                     in if ok then (Context_build ST_PRE_OP ECAT_NO_ERROR, s)
                        else (Context_build ST_INIT INVALID_MAILBOX_CONFIGURATION_PREOP, s)
                   else rest s)
         else rest s)"

definition PreOP_routineInternal :: "'e esc_ops \<Rightarrow> nat \<Rightarrow> u16 \<Rightarrow> 'e slave \<Rightarrow> (cx \<times> 'e slave) option" where
  "PreOP_routineInternal ops fuel control s =
     (let req = requestedState control; (mbx_ok, s) = mbx_config_ok ops s
      in if \<not> mbx_ok then Some (Context_build ST_INIT INVALID_MAILBOX_CONFIGURATION_PREOP, s)
         else if req = ST_SAFE_OP then
           (let (rc, p, e) = PDO_configure ops (sl_pdo s) (sl_esc s);
                s = s\<lparr>sl_pdo := p, sl_esc := e\<rparr>
            in if rc \<noteq> 0 then Some (Context_build (state_id PreOP) INVALID_SYNC_MANAGER_CONFIGURATION, s)
               else do {
                 (mapping_rc, s) \<leftarrow> (case sl_dict s of
                    None \<Rightarrow> Some (ECAT_NO_ERROR, s)
                  | Some d \<Rightarrow> (case configureMapping fuel (sl_pdo s) (d, sl_heap s) of
                        Returns (rc, d, h) \<Rightarrow> Some (rc, s\<lparr>sl_dict := Some d, sl_heap := h\<rparr>)
                      | _ \<Rightarrow> None));
                 if mapping_rc \<noteq> ECAT_NO_ERROR then Some (Context_build (state_id PreOP) mapping_rc, s)
                 else let (sm_rc, s) = pdo_config_ok ops s
                      in if sm_rc \<noteq> ECAT_NO_ERROR then Some (Context_build (state_id PreOP) sm_rc, s)
                         else Some (Context_build ST_SAFE_OP ECAT_NO_ERROR, s)
               })
         else if req = ST_INIT then Some (Context_build ST_INIT ECAT_NO_ERROR, s)
         else if req = ST_OPERATIONAL \<or> req = ST_BOOT
         then Some (Context_build (state_id PreOP) INVALID_REQUESTED_STATE_CHANGE, s)
         else Some (Context_build (state_id PreOP) ECAT_NO_ERROR, s))"

definition update_images :: "'e esc_ops \<Rightarrow> 'e slave \<Rightarrow> 'e slave option" where
  "update_images ops s = do {
     e \<leftarrow> updateInput ops (sl_pdo s) (sl_heap s) (sl_esc s);
     (h, e) \<leftarrow> updateOutput ops (sl_pdo s) (sl_heap s) e;
     Some (s\<lparr>sl_heap := h, sl_esc := e\<rparr>)
   }"

definition SafeOP_routineInternal :: "'e esc_ops \<Rightarrow> cx \<Rightarrow> u16 \<Rightarrow> 'e slave \<Rightarrow> (cx \<times> 'e slave) option" where
  "SafeOP_routineInternal ops currentStatus control s = do {
     s \<leftarrow> update_images ops s;
     let req = requestedState control;
     let (mbx_ok, s) = mbx_config_ok ops s;
     if \<not> mbx_ok then Some (Context_build ST_INIT INVALID_MAILBOX_CONFIGURATION_PREOP, s)
     else do {
       let (sm_rc, s) = pdo_config_ok ops s;
       if sm_rc \<noteq> ECAT_NO_ERROR then Some (Context_build ST_PRE_OP sm_rc, s)
       else do {
         let outputs_valid = (is_valid_output_data currentStatus \<or> \<not> hasOutput (sl_pdo s));
         if req = ST_OPERATIONAL \<and> outputs_valid then Some (Context_build ST_OPERATIONAL ECAT_NO_ERROR, s)
         else if req = ST_PRE_OP \<or> req = ST_INIT then Some (Context_build req ECAT_NO_ERROR, s)
         else if req = ST_BOOT then Some (Context_build ST_SAFE_OP INVALID_REQUESTED_STATE_CHANGE, s)
         else Some (Context_build ST_SAFE_OP ECAT_NO_ERROR, s)
       }
     }
   }"

definition OP_routineInternal :: "'e esc_ops \<Rightarrow> cx \<Rightarrow> u16 \<Rightarrow> 'e slave \<Rightarrow> (cx \<times> 'e slave) option" where
  "OP_routineInternal ops currentStatus control s = do {
     s \<leftarrow> update_images ops s;
     let req = requestedState control;
     if hasExpiredWatchdog currentStatus then Some (Context_build ST_SAFE_OP SYNC_MANAGER_WATCHDOG, s)
     else do {
       let (mbx_ok, s) = mbx_config_ok ops s;
       if \<not> mbx_ok then Some (Context_build ST_INIT INVALID_MAILBOX_CONFIGURATION_PREOP, s)
       else do {
         let (sm_rc, s) = pdo_config_ok ops s;
         if sm_rc \<noteq> ECAT_NO_ERROR then Some (Context_build ST_PRE_OP sm_rc, s)
         else if req = ST_BOOT then Some (Context_build ST_SAFE_OP INVALID_REQUESTED_STATE_CHANGE, s)
         else if req = ST_PRE_OP \<or> req = ST_INIT \<or> req = ST_SAFE_OP then Some (Context_build req ECAT_NO_ERROR, s)
         else if req \<noteq> ST_BOOT \<and> req \<noteq> ST_INIT \<and> req \<noteq> ST_PRE_OP \<and> req \<noteq> ST_SAFE_OP \<and> req \<noteq> ST_OPERATIONAL
         then Some (Context_build ST_SAFE_OP UNKNOWN_REQUESTED_STATE, s)
         else Some (Context_build req ECAT_NO_ERROR, s)
       }
     }
   }"

definition routineInternal :: "'e esc_ops \<Rightarrow> nat \<Rightarrow> esm_state \<Rightarrow> cx \<Rightarrow> u16 \<Rightarrow> 'e slave \<Rightarrow> (cx \<times> 'e slave) option" where
  "routineInternal ops fuel st currentStatus control s = (case st of
     Init \<Rightarrow> Some (Init_routineInternal ops control s)
   | PreOP \<Rightarrow> PreOP_routineInternal ops fuel control s
   | SafeOP \<Rightarrow> SafeOP_routineInternal ops currentStatus control s
   | OP \<Rightarrow> OP_routineInternal ops currentStatus control s)"

definition routine :: "'e esc_ops \<Rightarrow> nat \<Rightarrow> esm_state \<Rightarrow> cx \<Rightarrow> u16 \<Rightarrow> 'e slave \<Rightarrow> (cx \<times> 'e slave) option" where
  "routine ops fuel st currentStatus control s =
     (if al_status currentStatus AND ERROR_ACK \<noteq> 0 \<and> control AND ERROR_ACK = 0 then
        (if requestedState control = ST_INIT then Some (Context_build ST_INIT ECAT_NO_ERROR, s)
         else Some (Context_build (ucast (al_status currentStatus)) (al_status_code currentStatus), s))
      else let req = requestedState control
        in if cx_state currentStatus \<noteq> ST_OPERATIONAL \<and> req \<noteq> ST_BOOT \<and> req \<noteq> ST_INIT \<and> req \<noteq> ST_PRE_OP
              \<and> req \<noteq> ST_SAFE_OP \<and> req \<noteq> ST_OPERATIONAL
           then Some (Context_build (state_id st) UNKNOWN_REQUESTED_STATE, s)
           else routineInternal ops fuel st currentStatus control s)"

section \<open>Playing the machine\<close>

definition findState :: "u8 \<Rightarrow> esm_state option" where
  "findState i = find (\<lambda>st. state_id st = i) [Init, PreOP, SafeOP, OP]"

definition ESM_start :: "'e esc_ops \<Rightarrow> nat \<Rightarrow> 'e slave \<Rightarrow> 'e slave option" where
  "ESM_start ops fuel s = onEntry ops fuel (sl_current s) (sl_status s) (sl_status s) s"

text \<open>
  One play: poll the two registers, run the routine of the current state, enter another state
  when the answer asks for it, publish the status when it changed. The status code is written
  before the status.
\<close>

definition al_control_of :: "'e esc_ops \<Rightarrow> 'e slave \<Rightarrow> u16" where
  "al_control_of ops s = from_le (fst (snd (esc_read ops REG_AL_CONTROL [esc_uninit ops, esc_uninit ops] (sl_esc s))))"

definition polled :: "'e esc_ops \<Rightarrow> 'e slave \<Rightarrow> 'e slave" where
  "polled ops s =
     (let (rc, raw, e) = esc_read ops REG_AL_CONTROL [esc_uninit ops, esc_uninit ops] (sl_esc s);
          (rc, wd, e) = esc_read ops REG_WDOG_STATUS (le16 (al_watchdog_process_data (sl_status s))) e
      in s\<lparr>sl_esc := e, sl_status := (sl_status s)\<lparr>al_watchdog_process_data := from_le wd\<rparr>\<rparr>)"

definition change_state :: "'e esc_ops \<Rightarrow> nat \<Rightarrow> cx \<Rightarrow> 'e slave \<Rightarrow> (cx \<times> 'e slave) option" where
  "change_state ops fuel newStatus s =
     (if cx_state newStatus \<noteq> state_id (sl_current s) then
        let (newState, newStatus) = (case findState (cx_state newStatus) of
              Some st \<Rightarrow> (st, newStatus)
            | None \<Rightarrow> (Init, newStatus\<lparr>al_status := ucast (state_id Init), al_status_code := UNKNOWN_REQUESTED_STATE\<rparr>))
        in if newState \<noteq> sl_current s then do {
             s \<leftarrow> onEntry ops fuel newState (sl_status s) newStatus s;
             Some (newStatus, s\<lparr>sl_current := newState\<rparr>)
           } else Some (newStatus, s)
      else Some (newStatus, s))"

definition publish :: "'e esc_ops \<Rightarrow> cx \<Rightarrow> 'e slave \<Rightarrow> 'e slave" where
  "publish ops newStatus s =
     (if al_status (sl_status s) \<noteq> al_status newStatus \<or> al_status_code (sl_status s) \<noteq> al_status_code newStatus then
        let (rc, e) = esc_write ops REG_AL_STATUS_CODE (le16 (al_status_code newStatus)) (sl_esc s);
            (rc, e) = esc_write ops REG_AL_STATUS (le16 (al_status newStatus)) e
        in s\<lparr>sl_status := newStatus, sl_esc := e\<rparr>
      else s)"

definition ESM_play :: "'e esc_ops \<Rightarrow> nat \<Rightarrow> 'e slave \<Rightarrow> 'e slave option" where
  "ESM_play ops fuel s = do {
     let control = al_control_of ops s;
     let s = polled ops s;
     (newStatus, s) \<leftarrow> routine ops fuel (sl_current s) (sl_status s) control s;
     (newStatus, s) \<leftarrow> change_state ops fuel newStatus s;
     Some (publish ops newStatus s)
   }"

section \<open>Which states a routine may ask for\<close>

text \<open>No state is skipped on the way up; any state may be left downwards.\<close>

fun may_reach :: "esm_state \<Rightarrow> esm_state \<Rightarrow> bool" where
  "may_reach Init st = (st = Init \<or> st = PreOP)"
| "may_reach PreOP st = (st \<noteq> OP)"
| "may_reach SafeOP st = True"
| "may_reach OP st = True"

text \<open>The parts of a slave that a routine does not touch.\<close>

definition keeps :: "'e slave \<Rightarrow> 'e slave \<Rightarrow> bool" where
  "keeps s s' \<longleftrightarrow> sl_current s' = sl_current s \<and> sl_status s' = sl_status s"

lemma keeps_refl [simp]: "keeps s s" by (simp add: keeps_def)

lemma keeps_trans: "keeps a b \<Longrightarrow> keeps b c \<Longrightarrow> keeps a c" by (simp add: keeps_def)

lemma keeps_update [simp]:
  "keeps s (s\<lparr>sl_esc := e\<rparr>)" "keeps s (s\<lparr>sl_pdo := p, sl_esc := e\<rparr>)"
  "keeps s (s\<lparr>sl_mbx := m, sl_esc := e\<rparr>)" "keeps s (s\<lparr>sl_dict := d, sl_heap := h\<rparr>)"
  "keeps s (s\<lparr>sl_heap := h, sl_esc := e\<rparr>)"
  by (simp_all add: keeps_def)

lemma mbx_config_ok_keeps: "mbx_config_ok ops s = (b, s') \<Longrightarrow> keeps s s' \<and> sl_pdo s' = sl_pdo s"
  by (auto simp: mbx_config_ok_def split: option.splits prod.splits)

lemma pdo_config_ok_keeps: "pdo_config_ok ops s = (rc, s') \<Longrightarrow> keeps s s' \<and> sl_pdo s' = sl_pdo s"
  by (auto simp: pdo_config_ok_def split: prod.splits)

lemma update_images_keeps: "update_images ops s = Some s' \<Longrightarrow> keeps s s' \<and> sl_pdo s' = sl_pdo s"
  by (auto simp: update_images_def bind_eq_Some_conv)

lemma activate_keeps:
  "mbx_activate ops fuel b s = Some s' \<Longrightarrow> keeps s s'"
  "pdo_activate_output ops fuel b s = Some s' \<Longrightarrow> keeps s s'"
  "pdo_activate_input ops fuel b s = Some s' \<Longrightarrow> keeps s s'"
  by (auto simp: mbx_activate_def pdo_activate_output_def pdo_activate_input_def bind_eq_Some_conv
      split: option.splits)

lemma onEntry_keeps: "onEntry ops fuel st old new s = Some s' \<Longrightarrow> keeps s s'"
  by (cases st) (auto simp: bind_eq_Some_conv split: if_splits intro: keeps_trans dest!: activate_keeps)

text \<open>What a routine answers: a state it may reach, and a status code.\<close>

definition answers_state :: "esm_state \<Rightarrow> cx \<Rightarrow> bool" where
  "answers_state st c \<longleftrightarrow> (\<exists>st' code. c = Context_build (state_id st') code \<and> may_reach st st')"

lemma answersI: "c = Context_build i code \<Longrightarrow> i = state_id st' \<Longrightarrow> may_reach st st' \<Longrightarrow> answers_state st c"
  by (auto simp: answers_state_def)

lemma answers_simps [simp]:
  "answers_state st (Context_build 1 code)" (is ?A)
  "st \<noteq> OP \<or> True \<Longrightarrow> answers_state st (Context_build 2 code)" (is "_ \<Longrightarrow> ?B")
  "st \<noteq> Init \<Longrightarrow> answers_state st (Context_build 4 code)" (is "_ \<Longrightarrow> ?C")
  "st = SafeOP \<or> st = OP \<Longrightarrow> answers_state st (Context_build 8 code)" (is "_ \<Longrightarrow> ?D")
proof -
  show ?A by (rule answersI [where st' = Init, OF refl]) (cases st; simp)+
  show ?B by (rule answersI [where st' = PreOP, OF refl]) (cases st; simp)+
  show ?C if "st \<noteq> Init" by (rule answersI [where st' = SafeOP, OF refl]) (use that in \<open>cases st; simp\<close>)+
  show ?D if "st = SafeOP \<or> st = OP" by (rule answersI [where st' = OP, OF refl]) (use that in auto)
qed

lemma Init_answers: "Init_routineInternal ops control s = (c, s') \<Longrightarrow> answers_state Init c \<and> keeps s s'"
  by (auto simp: Init_routineInternal_def Let_def split: option.splits if_splits prod.splits)

lemma PreOP_answers:
  assumes "PreOP_routineInternal ops fuel control s = Some (c, s')"
  shows "answers_state PreOP c \<and> keeps s s'"
proof -
  obtain b s1 where m: "mbx_config_ok ops s = (b, s1)" by fastforce
  obtain rc p e where conf: "PDO_configure ops (sl_pdo s1) (sl_esc s1) = (rc, p, e)" by (metis prod_cases3)
  have k1: "keeps s s1" using mbx_config_ok_keeps [OF m] by simp
  show ?thesis
  proof (cases "b \<and> requestedState control = 4 \<and> rc = 0")
    case False
    then show ?thesis
      using assms m conf k1
      by (auto simp: PreOP_routineInternal_def Let_def keeps_def split: if_splits)
  next
    case True
    let ?t = "s1\<lparr>sl_pdo := p, sl_esc := e\<rparr>"
    define mapping where "mapping = (case sl_dict ?t of None \<Rightarrow> Some (ECAT_NO_ERROR, ?t)
      | Some d \<Rightarrow> (case configureMapping fuel (sl_pdo ?t) (d, sl_heap ?t) of
          Returns (rc, d, h) \<Rightarrow> Some (rc, ?t\<lparr>sl_dict := Some d, sl_heap := h\<rparr>) | _ \<Rightarrow> None))"
    have k2: "keeps s ?t" using k1 by (simp add: keeps_def)
    have "PreOP_routineInternal ops fuel control s = do {
        (mrc, s) \<leftarrow> mapping;
        if mrc \<noteq> ECAT_NO_ERROR then Some (Context_build (state_id PreOP) mrc, s)
        else let (sm_rc, s) = pdo_config_ok ops s
             in if sm_rc \<noteq> ECAT_NO_ERROR then Some (Context_build (state_id PreOP) sm_rc, s)
                else Some (Context_build ST_SAFE_OP ECAT_NO_ERROR, s) }"
      using True m conf unfolding mapping_def by (simp add: PreOP_routineInternal_def Let_def)
    note eq = trans [OF this [symmetric] assms]
    then obtain mrc s2 where mp: "mapping = Some (mrc, s2)" by (cases mapping) auto
    obtain r s3 where q: "pdo_config_ok ops s2 = (r, s3)" by fastforce
    have "(c = Context_build 2 mrc \<and> s' = s2) \<or> (s' = s3 \<and> (c = Context_build 2 r \<or> c = Context_build 4 0))"
      using eq by (simp add: mp q split: if_splits)
    moreover have "keeps s s2"
      using mp k2 by (auto simp: mapping_def keeps_def split: option.splits outcome.splits prod.splits)
    ultimately show ?thesis
      using pdo_config_ok_keeps [OF q] keeps_trans by auto
  qed
qed

lemma SafeOP_answers:
  assumes "SafeOP_routineInternal ops status control s = Some (c, s')"
  shows "answers_state SafeOP c \<and> keeps s s' \<and> sl_pdo s' = sl_pdo s
    \<and> (cx_state c = ST_OPERATIONAL \<longrightarrow> requestedState control = ST_OPERATIONAL
         \<and> (is_valid_output_data status \<or> \<not> hasOutput (sl_pdo s)))"
proof -
  obtain s1 where u: "update_images ops s = Some s1"
    using assms by (auto simp: SafeOP_routineInternal_def bind_eq_Some_conv)
  obtain b s2 where m: "mbx_config_ok ops s1 = (b, s2)" by fastforce
  obtain rc s3 where q: "pdo_config_ok ops s2 = (rc, s3)" by fastforce
  have k: "keeps s s2" "keeps s s3" "sl_pdo s2 = sl_pdo s" "sl_pdo s3 = sl_pdo s"
    using update_images_keeps [OF u] mbx_config_ok_keeps [OF m] pdo_config_ok_keeps [OF q]
    by (auto intro: keeps_trans)
  have st: "cx_state (Context_build 1 x) = 1" "cx_state (Context_build 2 x) = 2" "cx_state (Context_build 4 x) = 4"
    for x by (simp_all add: cx_state_def Context_build_def Let_def)
  show ?thesis
    using assms u m q k st by (auto simp: SafeOP_routineInternal_def Let_def split: if_splits)
qed

lemma OP_answers:
  assumes "OP_routineInternal ops status control s = Some (c, s')"
  shows "answers_state OP c \<and> keeps s s' \<and> sl_pdo s' = sl_pdo s
    \<and> (hasExpiredWatchdog status \<longrightarrow> c = Context_build ST_SAFE_OP SYNC_MANAGER_WATCHDOG)"
proof -
  obtain s1 where u: "update_images ops s = Some s1"
    using assms by (auto simp: OP_routineInternal_def bind_eq_Some_conv)
  obtain b s2 where m: "mbx_config_ok ops s1 = (b, s2)" by fastforce
  obtain rc s3 where q: "pdo_config_ok ops s2 = (rc, s3)" by fastforce
  have k: "keeps s s1" "keeps s s2" "keeps s s3" "sl_pdo s1 = sl_pdo s" "sl_pdo s2 = sl_pdo s" "sl_pdo s3 = sl_pdo s"
    using update_images_keeps [OF u] mbx_config_ok_keeps [OF m] pdo_config_ok_keeps [OF q]
    by (auto intro: keeps_trans)
  show ?thesis
    using assms u m q k by (auto simp: OP_routineInternal_def Let_def split: if_splits)
qed

section \<open>The status always describes the current state\<close>

definition status_matches :: "esm_state \<Rightarrow> cx \<Rightarrow> bool" where
  "status_matches st c \<longleftrightarrow> al_status_code c = ucast (ucast (al_status_code c) :: u8)
     \<and> al_status c = (if al_status_code c = 0 then ucast (state_id st) else ucast (state_id st) OR ERROR_ACK)"

lemma ucast_u8_u16_eq_0: "(ucast (x :: u8) :: u16) = 0 \<longleftrightarrow> x = 0"
  by (auto simp: bit_eq_iff bit_simps) (use bit_imp_le_length in fastforce)

lemma narrow_wide: "ucast (ucast (x :: u8) :: u16) = x"
  by (rule bit_word_eqI) (auto simp: bit_simps)

lemma build_matches [simp]: "status_matches st (Context_build (state_id st) code)"
  by (auto simp: status_matches_def Context_build_def Let_def ucast_u8_u16_eq_0 narrow_wide)

lemma matches_state: "status_matches st c \<Longrightarrow> cx_state c = state_id st"
  by (cases st) (auto simp: status_matches_def cx_state_def split: if_splits)

lemma state_id_inject: "state_id a = state_id b \<longleftrightarrow> a = b"
  by (cases a; cases b) simp_all

lemma findState_id [simp]: "findState (state_id st) = Some st"
  by (cases st) (simp_all add: findState_def)

lemma may_reach_refl [simp]: "may_reach st st"
  by (cases st) simp_all

lemma may_reach_Init [simp]: "may_reach st Init"
  by (cases st) simp_all

lemma latched_same:
  assumes m: "status_matches st c" and err: "al_status c AND ERROR_ACK \<noteq> 0"
  defines "c' \<equiv> Context_build (ucast (al_status c)) (al_status_code c)"
  shows "al_status c' = al_status c \<and> al_status_code c' = al_status_code c"
proof -
  have code: "al_status_code c \<noteq> 0"
    using m err by (cases st) (auto simp: status_matches_def)
  then have "al_status c = ucast (state_id st) OR 0x10" using m by (simp add: status_matches_def)
  then have "ucast (ucast (al_status c) :: u8) OR (0x10 :: u16) = al_status c" by (cases st) simp_all
  moreover have "ucast (al_status_code c) \<noteq> (0 :: u8)"
    using m code by (metis status_matches_def ucast_u8_u16_eq_0)
  ultimately show ?thesis
    using m by (simp add: c'_def Context_build_def Let_def status_matches_def)
qed

lemma answers_matches: "answers_state st c \<Longrightarrow> \<exists>st'. may_reach st st' \<and> status_matches st' c"
  unfolding answers_state_def using build_matches by blast

lemma routine_spec:
  assumes m: "status_matches st c" and r: "routine ops fuel st c control s = Some (c', s')"
  shows "keeps s s' \<and> (\<exists>st'. may_reach st st' \<and> cx_state c' = state_id st'
    \<and> (status_matches st' c' \<or> (st' = st \<and> al_status c' = al_status c \<and> al_status_code c' = al_status_code c)))"
proof (cases "al_status c AND ERROR_ACK \<noteq> 0 \<and> control AND ERROR_ACK = 0")
  case True
  show ?thesis
  proof (cases "requestedState control = ST_INIT")
    case True
    then have "c' = Context_build (state_id Init) 0" "s' = s"
      using r \<open>al_status c AND ERROR_ACK \<noteq> 0 \<and> control AND ERROR_ACK = 0\<close> by (simp_all add: routine_def)
    moreover have "status_matches Init (Context_build (state_id Init) 0)" by (rule build_matches)
    ultimately have "status_matches Init c'" "s' = s" by simp_all
    then show ?thesis using matches_state [of Init c'] by (intro conjI exI [of _ Init]) simp_all
  next
    case False
    then have "c' = Context_build (ucast (al_status c)) (al_status_code c)" "s' = s"
      using r True by (simp_all add: routine_def)
    then have "al_status c' = al_status c \<and> al_status_code c' = al_status_code c" "s' = s"
      using latched_same [OF m] True by simp_all
    moreover have "cx_state c' = state_id st"
      using calculation(1) matches_state [OF m] by (simp add: cx_state_def)
    ultimately show ?thesis by (intro conjI exI [of _ st]) simp_all
  qed
next
  case False
  have internal: "answers_state st c' \<and> keeps s s'" if "routineInternal ops fuel st c control s = Some (c', s')"
    using that Init_answers [of ops control s c' s'] PreOP_answers [of ops fuel control s c' s']
      SafeOP_answers [of ops c control s c' s'] OP_answers [of ops c control s c' s']
    by (cases st) (simp_all add: routineInternal_def)
  have "answers_state st c' \<and> keeps s s'"
    using r False internal by (auto simp: routine_def Let_def answers_state_def split: if_splits)
  then show ?thesis using answers_matches matches_state by metis
qed

definition consistent :: "'e slave \<Rightarrow> bool" where
  "consistent s \<longleftrightarrow> status_matches (sl_current s) (sl_status s)"

lemma matches_watchdog [simp]:
  "status_matches st (c\<lparr>al_watchdog_process_data := w\<rparr>) = status_matches st c"
  "status_matches st (c\<lparr>is_valid_output_data := v\<rparr>) = status_matches st c"
  by (simp_all add: status_matches_def)

lemma polled_keeps: "sl_current (polled ops s) = sl_current s" "sl_pdo (polled ops s) = sl_pdo s"
  "consistent (polled ops s) = consistent s"
  "al_status (sl_status (polled ops s)) = al_status (sl_status s)"
  "al_status_code (sl_status (polled ops s)) = al_status_code (sl_status s)"
  "is_valid_output_data (sl_status (polled ops s)) = is_valid_output_data (sl_status s)"
  by (simp_all add: polled_def consistent_def split: prod.splits)

lemma play_cases:
  assumes cons: "consistent s" and play: "ESM_play ops fuel s = Some s'"
  obtains c s1 st where
    "routine ops fuel (sl_current s) (sl_status (polled ops s)) (al_control_of ops s) (polled ops s) = Some (c, s1)"
    "cx_state c = state_id st" "may_reach (sl_current s) st" "keeps (polled ops s) s1"
    "status_matches st c \<or> (st = sl_current s \<and> al_status c = al_status (sl_status s) \<and> al_status_code c = al_status_code (sl_status s))"
    "st = sl_current s \<and> s' = publish ops c s1
     \<or> st \<noteq> sl_current s \<and> (\<exists>s2. onEntry ops fuel st (sl_status (polled ops s)) c s1 = Some s2
          \<and> s' = publish ops c (s2\<lparr>sl_current := st\<rparr>))"
proof -
  let ?p = "polled ops s"
  obtain c s1 where r: "routine ops fuel (sl_current ?p) (sl_status ?p) (al_control_of ops s) ?p = Some (c, s1)"
    using play by (auto simp: ESM_play_def Let_def bind_eq_Some_conv)
  have m: "status_matches (sl_current ?p) (sl_status ?p)" using cons polled_keeps(3) [of ops s] by (simp add: consistent_def)
  obtain st where st: "keeps ?p s1" "may_reach (sl_current s) st" "cx_state c = state_id st"
      "status_matches st c \<or> (st = sl_current s \<and> al_status c = al_status (sl_status s) \<and> al_status_code c = al_status_code (sl_status s))"
    using routine_spec [OF m r] polled_keeps by metis
  have cur: "sl_current s1 = sl_current s" "sl_status s1 = sl_status ?p"
    using st(1) polled_keeps by (simp_all add: keeps_def)
  have ch: "change_state ops fuel c s1 \<bind> (\<lambda>(c, s). Some (publish ops c s)) = Some s'"
    using play r by (simp add: ESM_play_def Let_def)
  have "st = sl_current s \<and> s' = publish ops c s1
     \<or> st \<noteq> sl_current s \<and> (\<exists>s2. onEntry ops fuel st (sl_status ?p) c s1 = Some s2
          \<and> s' = publish ops c (s2\<lparr>sl_current := st\<rparr>))"
  proof (cases "st = sl_current s")
    case True
    then show ?thesis using ch by (simp add: change_state_def st(3) cur)
  next
    case False
    then show ?thesis
      using ch by (auto simp: change_state_def st(3) cur state_id_inject bind_eq_Some_conv)
  qed
  with r st that show thesis using polled_keeps by metis
qed

lemma publish_status:
  "al_status (sl_status (publish ops c s)) = al_status c"
  "al_status_code (sl_status (publish ops c s)) = al_status_code c"
  "sl_current (publish ops c s) = sl_current s"
  by (auto simp: publish_def Let_def split: prod.splits)

lemma matches_cong:
  "al_status c = al_status d \<Longrightarrow> al_status_code c = al_status_code d \<Longrightarrow> status_matches st c = status_matches st d"
  by (simp add: status_matches_def)

lemma play_consistent:
  assumes cons: "consistent s" and play: "ESM_play ops fuel s = Some s'"
  shows "consistent s' \<and> may_reach (sl_current s) (sl_current s')"
  using cons play
proof (cases rule: play_cases)
  case (1 c s1 st)
  have m: "status_matches st c"
    using 1 cons matches_cong [of c "sl_status s" st] by (auto simp: consistent_def)
  have cur: "sl_current s1 = sl_current s" using 1 polled_keeps by (simp add: keeps_def)
  obtain t where t: "s' = publish ops c t" "sl_current t = st" using 1 cur by auto
  then have "status_matches st (sl_status s')"
    using m publish_status by (metis matches_cong)
  then show ?thesis using 1 t by (simp add: consistent_def publish_status)
qed

section \<open>Runs\<close>

text \<open>
  What can happen to a slave: it plays its machine, the application validates its outputs,
  writes its memory or attaches a mailbox or a dictionary, and the master changes the ESC
  behind its back, in any order.
\<close>

inductive slave_run :: "'e esc_ops \<Rightarrow> nat \<Rightarrow> 'e slave \<Rightarrow> bool" for ops fuel where
  New: "slave_run ops fuel (Slave_new e p h)"
| Start: "slave_run ops fuel s \<Longrightarrow> ESM_start ops fuel s = Some s' \<Longrightarrow> slave_run ops fuel s'"
| Play: "slave_run ops fuel s \<Longrightarrow> ESM_play ops fuel s = Some s' \<Longrightarrow> slave_run ops fuel s'"
| Validate: "slave_run ops fuel s \<Longrightarrow> slave_run ops fuel (validateOutputData s)"
| Attach: "slave_run ops fuel s \<Longrightarrow> slave_run ops fuel (setMailbox m (setDictionary d s))"
| Environment: "slave_run ops fuel s \<Longrightarrow> slave_run ops fuel (s\<lparr>sl_esc := e, sl_heap := h\<rparr>)"

lemma slave_run_consistent: "slave_run ops fuel s \<Longrightarrow> consistent s"
proof (induction rule: slave_run.induct)
  case (Start s s')
  then show ?case using onEntry_keeps by (fastforce simp: ESM_start_def keeps_def consistent_def)
next
  case (Play s s')
  then show ?case using play_consistent by blast
qed (simp_all add: consistent_def status_matches_def Slave_new_def validateOutputData_def setMailbox_def
      setDictionary_def)

section \<open>Properties\<close>

text \<open>(C15) Whatever the master writes and the application does, the published status always
  describes the current state: its low bits are the identifier of that state, and its error bit
  is set exactly when the status code is not zero.\<close>

theorem esm_status_consistent:
  assumes "slave_run ops fuel s"
  shows "cx_state (sl_status s) = state_id (sl_current s)
    \<and> al_status (sl_status s) AND 0xFFEF = ucast (state_id (sl_current s))
    \<and> (al_status (sl_status s) AND ERROR_ACK \<noteq> 0 \<longleftrightarrow> al_status_code (sl_status s) \<noteq> 0)"
proof -
  have m: "status_matches (sl_current s) (sl_status s)"
    using slave_run_consistent [OF assms] by (simp add: consistent_def)
  then show ?thesis
    using matches_state [OF m] by (cases "sl_current s") (auto simp: status_matches_def split: if_splits)
qed

definition null_esc :: "unit esc_ops" where
  "null_esc = \<lparr>esc_read = (\<lambda>a b e. (int (length b), replicate (length b) 0, e)),
     esc_write = (\<lambda>a d e. (int (length d), e)), esc_uninit = 0\<rparr>"

definition null_pdo :: pdo where
  "null_pdo = \<lparr>pd_input = None, pd_input_size = 0, pd_sm_input = SM_NONE, pd_output = None,
     pd_output_size = 0, pd_sm_output = SM_NONE\<rparr>"

lemma null_play:
  "\<exists>s'. ESM_play null_esc 1 (Slave_new () null_pdo h) = Some s'"
proof -
  have two: "replicate 2 (0 :: u8) = [0, 0]" by (simp add: numeral_2_eq_2)
  have zero: "from_le [0, 0] = (0 :: u16)" by (simp add: from_le.simps)
  show ?thesis
    by (simp add: ESM_play_def al_control_of_def polled_def null_esc_def Slave_new_def routine_def two zero
        requestedState_def change_state_def cx_state_def Context_build_def Let_def)
qed

theorem esm_status_consistent_witness:
  "cx_state (sl_status (Slave_new () null_pdo \<lparr>hp_fresh = 0, hp_blocks = (\<lambda>_. None)\<rparr>)) = 1"
  using esm_status_consistent [OF slave_run.New [of null_esc 1 "()" null_pdo "\<lparr>hp_fresh = 0, hp_blocks = (\<lambda>_. None)\<rparr>"]]
  by (simp add: Slave_new_def)

text \<open>No play skips a state on the way up: from INIT only PRE-OP can follow, and OP is only
  entered from SAFE-OP.\<close>

theorem esm_never_skips:
  assumes "slave_run ops fuel s" and "ESM_play ops fuel s = Some s'"
  shows "may_reach (sl_current s) (sl_current s')"
  using play_consistent [OF slave_run_consistent [OF assms(1)] assms(2)] by simp

theorem esm_never_skips_witness:
  "\<exists>s'. ESM_play null_esc 1 (Slave_new () null_pdo \<lparr>hp_fresh = 0, hp_blocks = (\<lambda>_. None)\<rparr>) = Some s'
    \<and> may_reach Init (sl_current s')"
proof -
  let ?s = "Slave_new () null_pdo \<lparr>hp_fresh = 0, hp_blocks = (\<lambda>_. None)\<rparr>"
  obtain s' where s': "ESM_play null_esc 1 ?s = Some s'" using null_play by blast
  from esm_never_skips [OF slave_run.New s'] s' show ?thesis by (auto simp: Slave_new_def)
qed

text \<open>A routine answers with a new context, whose outputs are not validated.\<close>

lemma routine_unvalidated:
  assumes "routine ops fuel st c control s = Some (c', s')"
  shows "\<not> is_valid_output_data c'"
proof -
  have build: "\<not> is_valid_output_data (Context_build i code)" for i code by (simp add: Context_build_def Let_def)
  have "answers_state st c'" if "routineInternal ops fuel st c control s = Some (c', s')"
    using that Init_answers [of ops control s c' s'] PreOP_answers [of ops fuel control s c' s']
      SafeOP_answers [of ops c control s c' s'] OP_answers [of ops c control s c' s']
    by (cases st) (simp_all add: routineInternal_def)
  then show ?thesis using assms build by (auto simp: routine_def Let_def answers_state_def split: if_splits)
qed

lemma play_unvalidated:
  assumes "consistent s" and "ESM_play ops fuel s = Some s'" and "\<not> is_valid_output_data (sl_status s)"
  shows "\<not> is_valid_output_data (sl_status s')"
  using assms(1,2)
proof (cases rule: play_cases)
  case (1 c s1 st)
  have pub: "\<not> is_valid_output_data (sl_status (publish ops c t))" if "sl_status t = sl_status (polled ops s)" for t
    using that routine_unvalidated [OF 1(1)] assms(3) by (auto simp: publish_def Let_def polled_keeps split: prod.splits)
  have "sl_status s2 = sl_status (polled ops s)" if "onEntry ops fuel st (sl_status (polled ops s)) c s1 = Some s2" for s2
    using 1(4) onEntry_keeps [OF that] by (simp add: keeps_def)
  then show ?thesis using 1(4,6) pub by (auto simp: keeps_def)
qed

text \<open>The ways into OP, and that being there keeps the process data configuration.\<close>

lemma play_to_OP:
  assumes cons: "consistent s" and play: "ESM_play ops fuel s = Some s'" and op: "sl_current s' = OP"
  shows "sl_pdo s' = sl_pdo s \<and> (sl_current s = OP \<or> sl_current s = SafeOP
    \<and> requestedState (al_control_of ops s) = ST_OPERATIONAL \<and> (is_valid_output_data (sl_status s) \<or> \<not> hasOutput (sl_pdo s)))"
  using cons play
proof (cases rule: play_cases)
  case (1 c s1 st)
  let ?p = "polled ops s"
  have st: "cx_state c = 8" "st = OP" using 1 op by (auto simp: publish_status keeps_def polled_keeps)
  have from_state: "sl_current s = SafeOP \<or> sl_current s = OP" using 1(3) st by (cases "sl_current s") auto
  have pub: "sl_pdo (publish ops c t) = sl_pdo t" for t by (auto simp: publish_def Let_def split: prod.splits)
  have s': "sl_pdo s' = sl_pdo s1" using 1(6) st pub by auto
  have m: "status_matches (sl_current s) (sl_status ?p)"
    using cons polled_keeps(3) [of ops s] by (simp add: consistent_def polled_keeps)
  show ?thesis
  proof (cases "al_status (sl_status ?p) AND ERROR_ACK \<noteq> 0 \<and> al_control_of ops s AND ERROR_ACK = 0")
    case True
    then have "s1 = ?p" "cx_state c = state_id (sl_current s) \<or> cx_state c = 1"
      using 1(1) latched_same [OF m] matches_state [OF m]
      by (auto simp: routine_def cx_state_def Context_build_def Let_def split: if_splits)
    then have "sl_current s = OP" using st by (cases "sl_current s") auto
    then show ?thesis using s' \<open>s1 = ?p\<close> by (simp add: polled_keeps)
  next
    case False
    then have *: "sl_current s = SafeOP \<and> SafeOP_routineInternal ops (sl_status ?p) (al_control_of ops s) ?p = Some (c, s1)
      \<or> sl_current s = OP \<and> (s1 = ?p \<or> OP_routineInternal ops (sl_status ?p) (al_control_of ops s) ?p = Some (c, s1))"
      using 1(1) from_state st
      by (auto simp: routine_def routineInternal_def Let_def cx_state_def Context_build_def split: if_splits)
    then show ?thesis
      using SafeOP_answers [of ops "sl_status ?p" "al_control_of ops s" ?p c s1]
        OP_answers [of ops "sl_status ?p" "al_control_of ops s" ?p c s1] st s' by (auto simp: polled_keeps)
  qed
qed

text \<open>(C16) OP is entered only from SAFE-OP, when the master asked for it, and, unless the slave has no output sync manager,
  when the application has validated its outputs since the last change of status.\<close>

theorem esm_op_needs_valid_outputs:
  assumes "slave_run ops fuel s" and "sl_current s \<noteq> OP" and "ESM_play ops fuel s = Some s'" and "sl_current s' = OP"
  shows "sl_current s = SafeOP \<and> requestedState (al_control_of ops s) = ST_OPERATIONAL
    \<and> (is_valid_output_data (sl_status s) \<or> \<not> hasOutput (sl_pdo s))"
  using play_to_OP [OF slave_run_consistent [OF assms(1)] assms(3,4)] assms(2) by simp

text \<open>What can happen to a slave while its application does not validate any output.\<close>

inductive unvalidated_run :: "'e esc_ops \<Rightarrow> nat \<Rightarrow> 'e slave \<Rightarrow> 'e slave \<Rightarrow> bool" for ops fuel s where
  Here: "unvalidated_run ops fuel s s"
| Start: "unvalidated_run ops fuel s s1 \<Longrightarrow> ESM_start ops fuel s1 = Some s2 \<Longrightarrow> unvalidated_run ops fuel s s2"
| Play: "unvalidated_run ops fuel s s1 \<Longrightarrow> ESM_play ops fuel s1 = Some s2 \<Longrightarrow> unvalidated_run ops fuel s s2"
| Attach: "unvalidated_run ops fuel s s1 \<Longrightarrow> unvalidated_run ops fuel s (setMailbox m (setDictionary d s1))"
| Environment: "unvalidated_run ops fuel s s1 \<Longrightarrow> unvalidated_run ops fuel s (s1\<lparr>sl_esc := e, sl_heap := h\<rparr>)"

lemma onEntry_pdo: "onEntry ops fuel st old new s = Some s' \<Longrightarrow> sl_pdo s' = sl_pdo s"
  by (cases st) (auto simp: bind_eq_Some_conv mbx_activate_def pdo_activate_output_def pdo_activate_input_def
      split: if_splits option.splits)

lemma unvalidated_invariant:
  assumes "slave_run ops fuel s" and "\<not> is_valid_output_data (sl_status s)" and "sl_current s \<noteq> OP"
  shows "unvalidated_run ops fuel s s' \<Longrightarrow> slave_run ops fuel s' \<and> \<not> is_valid_output_data (sl_status s')
    \<and> (sl_current s' = OP \<longrightarrow> \<not> hasOutput (sl_pdo s'))"
proof (induction rule: unvalidated_run.induct)
  case (Start s1 s2)
  then have "keeps s1 s2" "sl_pdo s2 = sl_pdo s1" using onEntry_keeps onEntry_pdo by (auto simp: ESM_start_def)
  then show ?case using Start slave_run.Start by (auto simp: keeps_def)
next
  case (Play s1 s2)
  have cons: "consistent s1" using Play.IH slave_run_consistent by blast
  show ?case
    using Play slave_run.Play play_unvalidated [OF cons Play.hyps(2)] play_to_OP [OF cons Play.hyps(2)] by auto
qed (use assms slave_run.Attach slave_run.Environment in \<open>auto simp: setMailbox_def setDictionary_def\<close>)

text \<open>(C17) A slave with outputs does not reach OP on its own. However long a slave plays its machine from a state other than
  OP, whatever its master asks for and whatever is in the controller, if the application does not validate the
  outputs the slave is never in OP with an output sync manager.\<close>

theorem esm_unvalidated_outputs_stay_safe:
  assumes "slave_run ops fuel s" and "\<not> is_valid_output_data (sl_status s)" and "sl_current s \<noteq> OP"
    and "unvalidated_run ops fuel s s'" and "hasOutput (sl_pdo s')"
  shows "sl_current s' \<noteq> OP"
  using unvalidated_invariant [OF assms(1-4)] assms(5) by blast

text \<open>A device that only reports the state its master asks for, for concrete runs.\<close>

definition asking_esc :: "u16 esc_ops" where
  "asking_esc = \<lparr>esc_read = (\<lambda>a b e. (int (length b), if a = REG_AL_CONTROL then le16 e else replicate (length b) 0, e)),
     esc_write = (\<lambda>a d e. (int (length d), e)), esc_uninit = 0\<rparr>"

definition sample :: "u16 \<Rightarrow> u16 \<Rightarrow> u16 \<Rightarrow> esm_state \<Rightarrow> u16 slave" where
  "sample control status code st =
     \<lparr>sl_esc = control, sl_pdo = null_pdo, sl_heap = \<lparr>hp_fresh = 0, hp_blocks = (\<lambda>_. None)\<rparr>, sl_dict = None, sl_mbx = None,
      sl_status = \<lparr>al_status = status, al_status_code = code, al_watchdog_process_data = 0, is_valid_output_data = False\<rparr>,
      sl_current = st\<rparr>"

lemma sample_select [simp]:
  "sl_current (sample k a c st) = st" "al_status (sl_status (sample k a c st)) = a"
  "al_status_code (sl_status (sample k a c st)) = c"
  by (simp_all add: sample_def)

lemma asking_zeros: "esc_read asking_esc a (replicate 8 0) e =
    (8, if a = 0x120 then le16 e else replicate 8 0, e)"
  "dec_sm_register (replicate 8 0) = \<lparr>sm_start_address = 0, sm_length = 0, sm_control = 0, sm_status = 0,
     sm_activate = 0, sm_pdi_control = 0\<rparr>"
  by (simp_all add: asking_esc_def dec_sm_register_def peek_def numeral_eq_Suc from_le.simps)

lemma asking_find:
  "findSm asking_esc 0 e = (Inr (0, dec_sm_register (replicate 8 0)), e)"
  "findSm asking_esc 4 e = (Inl ''SyncManager not found'', e)"
proof -
  have five: "REG_SM_STATS = Suc (Suc (Suc (Suc (Suc 0))))" by simp
  show "findSm asking_esc 0 e = (Inr (0, dec_sm_register (replicate 8 0)), e)"
    "findSm asking_esc 4 e = (Inl ''SyncManager not found'', e)"
    unfolding findSm_def five by (simp_all add: asking_zeros)
qed

lemma asking_polled: "polled asking_esc (sample k a c st) = sample k a c st"
proof -
  have "replicate 2 (0 :: u8) = [0, 0]" by (simp add: numeral_2_eq_2)
  then show ?thesis by (simp add: polled_def asking_esc_def sample_def from_le.simps)
qed

lemma asking_control: "al_control_of asking_esc (sample k a c st) = k"
  by (simp add: al_control_of_def asking_esc_def sample_def)

lemma asking_plays:
  "ESM_play asking_esc 1 (sample 2 1 0 Init) = Some (sample 2 2 0 PreOP)"
  "ESM_play asking_esc 1 (sample 4 2 0 PreOP) = Some (sample 4 4 0 SafeOP)"
  "ESM_play asking_esc 1 (sample 8 4 0 SafeOP) = Some (sample 8 8 0 OP)"
  "ESM_play asking_esc 1 (sample 8 8 0 OP) = Some (sample 8 0x14 0x1B SafeOP)"
  unfolding ESM_play_def asking_polled asking_control Let_def
     apply (simp add: sample_def routine_def routineInternal_def Init_routineInternal_def requestedState_def
      Context_build_def change_state_def cx_state_def findState_def mbx_activate_def pdo_activate_output_def
      pdo_activate_input_def activateOutput_def activateInput_def null_pdo_def SM_NONE_def publish_def asking_esc_def Let_def)
    apply (simp add: sample_def routine_def routineInternal_def PreOP_routineInternal_def requestedState_def
      Context_build_def change_state_def cx_state_def findState_def pdo_activate_output_def mbx_config_ok_def
      PDO_configure_def asking_find asking_zeros pdo_config_ok_def PDO_isConfigOk_def
      pdo_activate_input_def activateOutput_def activateInput_def null_pdo_def SM_NONE_def publish_def Let_def)
    apply (simp add: asking_esc_def)
   apply (simp add: sample_def routine_def routineInternal_def SafeOP_routineInternal_def requestedState_def
      Context_build_def change_state_def cx_state_def findState_def update_images_def updateInput_def updateOutput_def
      mbx_config_ok_def pdo_config_ok_def PDO_isConfigOk_def hasOutput_def null_pdo_def SM_NONE_def publish_def Let_def)
   apply (simp add: asking_esc_def)
  apply (simp add: sample_def routine_def routineInternal_def OP_routineInternal_def requestedState_def
      Context_build_def change_state_def cx_state_def findState_def update_images_def updateInput_def updateOutput_def
      hasExpiredWatchdog_def null_pdo_def SM_NONE_def publish_def pdo_activate_output_def activateOutput_def Let_def)
  apply (simp add: asking_esc_def)
  done

lemma asking_run: "slave_run asking_esc 1 (sample 8 4 0 SafeOP)" "slave_run asking_esc 1 (sample 8 8 0 OP)"
  "slave_run asking_esc 1 (sample 8 0x14 0x1B SafeOP)"
proof -
  let ?h = "\<lparr>hp_fresh = 0, hp_blocks = (\<lambda>_. None)\<rparr>"
  have env: "(sample k a c st)\<lparr>sl_esc := k', sl_heap := ?h\<rparr> = sample k' a c st" for k k' a c st
    by (simp add: sample_def)
  have "Slave_new 2 null_pdo ?h = sample 2 1 0 Init" by (simp add: Slave_new_def sample_def)
  then have "slave_run asking_esc 1 (sample 2 1 0 Init)" by (metis slave_run.New)
  then have "slave_run asking_esc 1 (sample 2 2 0 PreOP)" using asking_plays(1) slave_run.Play by blast
  then have "slave_run asking_esc 1 (sample 4 2 0 PreOP)" by (metis slave_run.Environment env)
  then have "slave_run asking_esc 1 (sample 4 4 0 SafeOP)" using asking_plays(2) slave_run.Play by blast
  then show safe: "slave_run asking_esc 1 (sample 8 4 0 SafeOP)" by (metis slave_run.Environment env)
  then show op: "slave_run asking_esc 1 (sample 8 8 0 OP)" using asking_plays(3) slave_run.Play by blast
  then show "slave_run asking_esc 1 (sample 8 0x14 0x1B SafeOP)" using asking_plays(4) slave_run.Play by blast
qed

text \<open>A device whose second sync manager is configured for one byte of outputs.\<close>

definition output_esc :: "u16 esc_ops" where
  "output_esc = \<lparr>esc_read = (\<lambda>a b e. (int (length b), if a = REG_AL_CONTROL then le16 e
       else if a = 0x808 then [0x00, 0x10, 0x01, 0x00, 0x64, 0x00, 0x01, 0x00] else replicate (length b) 0, e)),
     esc_write = (\<lambda>a d e. (int (length d), e)), esc_uninit = 0\<rparr>"

definition output_pdo :: pdo where
  "output_pdo = null_pdo\<lparr>pd_sm_output := SYNC_MANAGER_PI_OUT 1 0x1000 1\<rparr>"

definition output_sample :: "u16 \<Rightarrow> u16 \<Rightarrow> bool \<Rightarrow> pdo \<Rightarrow> esm_state \<Rightarrow> u16 slave" where
  "output_sample control status valid p st =
     \<lparr>sl_esc = control, sl_pdo = p, sl_heap = \<lparr>hp_fresh = 0, hp_blocks = (\<lambda>_. None)\<rparr>, sl_dict = None, sl_mbx = None,
      sl_status = \<lparr>al_status = status, al_status_code = 0, al_watchdog_process_data = 0, is_valid_output_data = valid\<rparr>,
      sl_current = st\<rparr>"

lemma output_registers:
  "esc_read output_esc a (replicate 8 0) e =
    (8, if a = 0x120 then le16 e else if a = 0x808 then [0, 0x10, 1, 0, 0x64, 0, 1, 0] else replicate 8 0, e)"
  "dec_sm_register [0, 0x10, 1, 0, 0x64, 0, 1, 0] = \<lparr>sm_start_address = 0x1000, sm_length = 1, sm_control = 0x64, sm_status = 0,
     sm_activate = 1, sm_pdi_control = 0\<rparr>"
  by (simp add: output_esc_def) code_simp

lemma output_find:
  "findSm output_esc 0 e = (Inr (0, dec_sm_register (replicate 8 0)), e)"
  "findSm output_esc 4 e = (Inr (1, dec_sm_register [0, 0x10, 1, 0, 0x64, 0, 1, 0]), e)"
proof -
  have five: "REG_SM_STATS = Suc (Suc (Suc (Suc (Suc 0))))" by simp
  show "findSm output_esc 0 e = (Inr (0, dec_sm_register (replicate 8 0)), e)"
    "findSm output_esc 4 e = (Inr (1, dec_sm_register [0, 0x10, 1, 0, 0x64, 0, 1, 0]), e)"
    unfolding findSm_def five by (simp_all add: output_registers asking_zeros)
qed

lemma output_valid: "isSmValid output_esc (SYNC_MANAGER_PI_OUT 1 0x1000 1) e = (True, e)"
proof -
  have "esc_uninit output_esc = 0" by (simp add: output_esc_def)
  moreover have "addressSM 1 = 0x808" by (simp add: addressSM_def)
  ultimately show ?thesis by (simp add: isSmValid_def output_registers SYNC_MANAGER_PI_OUT_def Let_def)
qed

lemma output_activate: "activateOutput output_esc 1 True output_pdo e = Some e"
proof -
  have "addressSM 1 + 7 = 0x80F" by (simp add: addressSM_def)
  then show ?thesis
    by (simp add: activateOutput_def output_pdo_def SYNC_MANAGER_PI_OUT_def activateSm_def output_esc_def Let_def)
qed

lemma output_polled: "polled output_esc (output_sample k a v p st) = output_sample k a v p st"
proof -
  have "replicate 2 (0 :: u8) = [0, 0]" by (simp add: numeral_2_eq_2)
  then show ?thesis by (simp add: polled_def output_esc_def output_sample_def from_le.simps)
qed

lemma output_control: "al_control_of output_esc (output_sample k a v p st) = k"
  by (simp add: al_control_of_def output_esc_def output_sample_def)

lemma output_plays:
  "ESM_play output_esc 1 (output_sample 2 1 False null_pdo Init) = Some (output_sample 2 2 False null_pdo PreOP)"
  "ESM_play output_esc 1 (output_sample 4 2 False null_pdo PreOP) = Some (output_sample 4 4 False output_pdo SafeOP)"
  "ESM_play output_esc 1 (output_sample 8 4 False output_pdo SafeOP) = Some (output_sample 8 4 False output_pdo SafeOP)"
  "ESM_play output_esc 1 (output_sample 8 4 True output_pdo SafeOP) = Some (output_sample 8 8 False output_pdo OP)"
proof -
  have wr: "esc_write output_esc a d e = (int (length d), e)" for a d e by (simp add: output_esc_def)
  note common = ESM_play_def output_polled output_control Let_def routine_def routineInternal_def requestedState_def
    Context_build_def change_state_def cx_state_def findState_def publish_def wr
  show "ESM_play output_esc 1 (output_sample 2 1 False null_pdo Init) = Some (output_sample 2 2 False null_pdo PreOP)"
    unfolding common by (simp add: output_sample_def Init_routineInternal_def mbx_activate_def pdo_activate_output_def
        pdo_activate_input_def activateOutput_def activateInput_def null_pdo_def SM_NONE_def common)
  show "ESM_play output_esc 1 (output_sample 4 2 False null_pdo PreOP) = Some (output_sample 4 4 False output_pdo SafeOP)"
    unfolding common using output_activate output_valid
    by (simp add: output_sample_def PreOP_routineInternal_def mbx_config_ok_def PDO_configure_def output_find output_registers
        asking_zeros pdo_config_ok_def PDO_isConfigOk_def pdo_activate_output_def pdo_activate_input_def activateInput_def
        null_pdo_def output_pdo_def SM_NONE_def common)
  have op: "hasOutput output_pdo" "PDO_isConfigOk output_esc output_pdo e = (0, e)" for e
    using output_valid by (simp_all add: hasOutput_def output_pdo_def SYNC_MANAGER_PI_OUT_def PDO_isConfigOk_def null_pdo_def SM_NONE_def)
  have images: "update_images output_esc (output_sample k a v output_pdo st) = Some (output_sample k a v output_pdo st)" for k a v st
    by (simp add: update_images_def updateInput_def updateOutput_def output_pdo_def null_pdo_def output_sample_def)
  show "ESM_play output_esc 1 (output_sample 8 4 False output_pdo SafeOP) = Some (output_sample 8 4 False output_pdo SafeOP)"
    "ESM_play output_esc 1 (output_sample 8 4 True output_pdo SafeOP) = Some (output_sample 8 8 False output_pdo OP)"
    unfolding ESM_play_def output_polled output_control Let_def
    by (simp_all add: output_sample_def routine_def routineInternal_def SafeOP_routineInternal_def images [unfolded output_sample_def]
        mbx_config_ok_def pdo_config_ok_def op common)
qed

lemma output_run: "slave_run output_esc 1 (output_sample 8 4 False output_pdo SafeOP)"
proof -
  let ?h = "\<lparr>hp_fresh = 0, hp_blocks = (\<lambda>_. None)\<rparr>"
  have env: "(output_sample k a v p st)\<lparr>sl_esc := k', sl_heap := ?h\<rparr> = output_sample k' a v p st" for k k' a v p st
    by (simp add: output_sample_def)
  have "Slave_new 2 null_pdo ?h = output_sample 2 1 False null_pdo Init" by (simp add: Slave_new_def output_sample_def)
  then have "slave_run output_esc 1 (output_sample 2 1 False null_pdo Init)" by (metis slave_run.New)
  then have "slave_run output_esc 1 (output_sample 2 2 False null_pdo PreOP)" using output_plays(1) slave_run.Play by blast
  then have "slave_run output_esc 1 (output_sample 4 2 False null_pdo PreOP)" by (metis slave_run.Environment env)
  then have "slave_run output_esc 1 (output_sample 4 4 False output_pdo SafeOP)" using output_plays(2) slave_run.Play by blast
  then show ?thesis by (metis slave_run.Environment env)
qed

lemma output_has: "hasOutput output_pdo"
  by (simp add: hasOutput_def output_pdo_def SYNC_MANAGER_PI_OUT_def)

theorem esm_op_needs_valid_outputs_witness:
  "ESM_play output_esc 1 (validateOutputData (output_sample 8 4 False output_pdo SafeOP)) = Some (output_sample 8 8 False output_pdo OP)
    \<and> is_valid_output_data (sl_status (validateOutputData (output_sample 8 4 False output_pdo SafeOP)))"
proof -
  let ?s = "validateOutputData (output_sample 8 4 False output_pdo SafeOP)"
  have play: "ESM_play output_esc 1 ?s = Some (output_sample 8 8 False output_pdo OP)"
    using output_plays(4) by (simp add: validateOutputData_def output_sample_def)
  have "\<not> \<not> hasOutput (sl_pdo ?s)" using output_has by (simp add: validateOutputData_def output_sample_def)
  then show ?thesis
    using esm_op_needs_valid_outputs [OF slave_run.Validate [OF output_run] _ play] play
    by (simp add: validateOutputData_def output_sample_def)
qed

theorem esm_unvalidated_outputs_stay_safe_witness:
  "\<exists>s'. ESM_play output_esc 1 (output_sample 8 4 False output_pdo SafeOP) = Some s' \<and> hasOutput (sl_pdo s')
    \<and> requestedState (al_control_of output_esc s') = ST_OPERATIONAL \<and> sl_current s' \<noteq> OP"
proof -
  let ?s = "output_sample 8 4 False output_pdo SafeOP"
  have run: "unvalidated_run output_esc 1 ?s ?s"
    by (rule unvalidated_run.Play [OF unvalidated_run.Here output_plays(3)])
  have has: "hasOutput (sl_pdo ?s)" using output_has by (simp add: output_sample_def)
  have "sl_current ?s \<noteq> OP"
    by (rule esm_unvalidated_outputs_stay_safe [OF output_run _ _ run has]) (simp_all add: output_sample_def)
  then show ?thesis using output_plays(3) has by (simp add: output_control requestedState_def)
qed

text \<open>An error stays latched: until the master acknowledges it or asks for INIT, a play changes
  neither the state nor the status and writes nothing to the ESC.\<close>

theorem esm_error_latched:
  assumes "slave_run ops fuel s" and "al_status_code (sl_status s) \<noteq> 0"
    and "al_control_of ops s AND ERROR_ACK = 0" and "requestedState (al_control_of ops s) \<noteq> ST_INIT"
  shows "ESM_play ops fuel s = Some (polled ops s) \<and> sl_current (polled ops s) = sl_current s
    \<and> al_status (sl_status (polled ops s)) = al_status (sl_status s)
    \<and> al_status_code (sl_status (polled ops s)) = al_status_code (sl_status s)"
proof -
  let ?p = "polled ops s"
  let ?c = "Context_build (ucast (al_status (sl_status ?p))) (al_status_code (sl_status ?p))"
  have m: "status_matches (sl_current s) (sl_status ?p)"
    using slave_run_consistent [OF assms(1)] polled_keeps(3) [of ops s] by (simp add: consistent_def polled_keeps)
  have code: "al_status_code (sl_status ?p) \<noteq> 0" using assms(2) by (simp add: polled_keeps)
  have err: "al_status (sl_status ?p) AND ERROR_ACK \<noteq> 0"
    using m code by (cases "sl_current s") (auto simp: status_matches_def)
  have same: "al_status ?c = al_status (sl_status ?p)" "al_status_code ?c = al_status_code (sl_status ?p)"
    using latched_same [OF m err] by simp_all
  have r: "routine ops fuel (sl_current ?p) (sl_status ?p) (al_control_of ops s) ?p = Some (?c, ?p)"
    using err assms(3,4) by (simp add: routine_def)
  have "cx_state ?c = state_id (sl_current ?p)"
    using same(1) matches_state [OF m] by (simp add: cx_state_def polled_keeps)
  then have "ESM_play ops fuel s = Some (publish ops ?c ?p)"
    using r by (simp add: ESM_play_def Let_def change_state_def)
  then show ?thesis using same by (simp add: publish_def polled_keeps)
qed

theorem esm_error_latched_witness:
  "ESM_play asking_esc 1 (sample 8 0x14 0x1B SafeOP) = Some (polled asking_esc (sample 8 0x14 0x1B SafeOP))"
  using esm_error_latched [OF asking_run(3)]
  by (simp add: asking_control requestedState_def)

text \<open>In OP an expired process-data watchdog drops the slave to SAFE-OP with the watchdog error,
  whatever the master asks for, and deactivates the output sync manager.\<close>

theorem esm_watchdog_drops:
  assumes "slave_run ops fuel s" and "sl_current s = OP" and "al_status_code (sl_status s) = 0"
    and "hasExpiredWatchdog (sl_status (polled ops s))" and "ESM_play ops fuel s = Some s'"
  shows "sl_current s' = SafeOP \<and> al_status (sl_status s') = 0x14 \<and> al_status_code (sl_status s') = SYNC_MANAGER_WATCHDOG
    \<and> (\<exists>e e'. activateOutput ops fuel False (sl_pdo s) e = Some e'
         \<and> sl_esc s' = snd (esc_write ops REG_AL_STATUS (le16 0x14)
             (snd (esc_write ops REG_AL_STATUS_CODE (le16 SYNC_MANAGER_WATCHDOG) e'))))"
  using slave_run_consistent [OF assms(1)] assms(5)
proof (cases rule: play_cases)
  case (1 c s1 st)
  let ?p = "polled ops s"
  have m: "status_matches OP (sl_status ?p)"
    using slave_run_consistent [OF assms(1)] polled_keeps(3) [of ops s] assms(2)
    by (simp add: consistent_def polled_keeps)
  have status: "al_status (sl_status ?p) = 8" "al_status_code (sl_status ?p) = 0"
    using m assms(3) by (simp_all add: status_matches_def polled_keeps)
  then have "OP_routineInternal ops (sl_status ?p) (al_control_of ops s) ?p = Some (c, s1)"
    using 1(1) assms(2) by (simp add: routine_def routineInternal_def cx_state_def Let_def)
  from OP_answers [OF this] assms(4)
  have c: "c = Context_build 4 0x1B" "keeps ?p s1" "sl_pdo s1 = sl_pdo s" by (simp_all add: polled_keeps)
  then have "st = SafeOP" using 1(2) by (cases st) (simp_all add: cx_state_def Context_build_def)
  then obtain s2 where s2: "onEntry ops fuel SafeOP (sl_status ?p) c s1 = Some s2"
      "s' = publish ops c (s2\<lparr>sl_current := SafeOP\<rparr>)" using 1(6) assms(2) by auto
  then obtain e' where e': "activateOutput ops fuel False (sl_pdo s) (sl_esc s1) = Some e'" "s2 = s1\<lparr>sl_esc := e'\<rparr>"
    using c status by (auto simp: cx_state_def Context_build_def pdo_activate_output_def bind_eq_Some_conv)
  have pub: "sl_current s' = SafeOP" "al_status (sl_status s') = 0x14" "al_status_code (sl_status s') = SYNC_MANAGER_WATCHDOG"
    "sl_esc s' = snd (esc_write ops REG_AL_STATUS (le16 0x14)
       (snd (esc_write ops REG_AL_STATUS_CODE (le16 SYNC_MANAGER_WATCHDOG) e')))"
    using s2(2) e'(2) c status
    by (simp_all add: publish_def Context_build_def keeps_def Let_def split: prod.splits)
  then show ?thesis using e'(1) by blast
qed

theorem esm_watchdog_drops_witness:
  "sl_current (sample 8 0x14 0x1B SafeOP) = SafeOP \<and> al_status (sl_status (sample 8 0x14 0x1B SafeOP)) = 0x14"
proof -
  have "hasExpiredWatchdog (sl_status (polled asking_esc (sample 8 8 0 OP)))"
    unfolding asking_polled by (simp add: sample_def hasExpiredWatchdog_def)
  from esm_watchdog_drops [OF asking_run(2) _ _ this asking_plays(4)] show ?thesis by simp
qed

end
