(* ===== verification/EmuESC.thy ===== *)
theory EmuESC
  imports SlaveIO "HOL-Library.Signed_Division"
begin

text \<open>
  The emulated slave controller (\<open>lib/slave/src/ESC/EmulatedESC.cc\<close>): its 64 KiB memory, the
  access rules of sync managers and FMMUs, the datagram commands, the EEPROM interface, the
  process-data watchdog and the distributed-clock time loop.

  The memory is the list of its bytes and the fields of \<open>struct Memory\<close> are read and written at
  their offsets. A pointer into the memory is its offset. An access outside an array gives \<open>None\<close>.
  Every call of a clock takes the next reading of that clock; the local oscillator, computed in
  floating point from the wall clock, is such a clock. Signed 64-bit nanosecond counts are
  integers: their overflow is undefined behaviour in the source and is left out.
\<close>

section \<open>State\<close>

datatype esc_access = PDI_READ | PDI_WRITE | ECAT_READ | ECAT_WRITE

fun access_code :: "esc_access \<Rightarrow> u8" where
  "access_code PDI_READ = 0x01"
| "access_code PDI_WRITE = 0x02"
| "access_code ECAT_READ = 0x04"
| "access_code ECAT_WRITE = 0x08"

record esc_sm =
  sy_access :: u8
  sy_address :: u16
  sy_size :: u16
  sy_registers :: nat

record esc_fmmu =
  fu_logical_address :: u32
  fu_physical :: nat
  fu_bit_length :: u32
  fu_logical_start_bit :: u8
  fu_physical_start_bit :: u8
  fu_is_input :: bool

record esc_clock =
  ck_now :: "nat \<Rightarrow> int"
  ck_now_calls :: nat
  ck_local :: "nat \<Rightarrow> int"
  ck_local_calls :: nat

record emu =
  em_mem :: bytes
  em_eeprom :: "u16 list"
  em_syncs :: "esc_sm list"
  em_fmmus :: "esc_fmmu list"
  em_has_output_fmmu :: bool
  em_lastLogicalWrite :: int
  em_last_write_eeprom :: int
  em_dc_correction :: int
  em_dc_diff_filtered :: int
  em_clock_jitter :: int
  em_jitter_rng :: u64
  em_clock :: esc_clock

abbreviation ESC_MEMORY_SIZE :: nat where "ESC_MEMORY_SIZE \<equiv> 65536"

definition reg16 :: "emu \<Rightarrow> nat \<Rightarrow> u16" where "reg16 e a = get16 (em_mem e) a"
definition reg32 :: "emu \<Rightarrow> nat \<Rightarrow> u32" where "reg32 e a = get32 (em_mem e) a"
definition reg64 :: "emu \<Rightarrow> nat \<Rightarrow> u64" where "reg64 e a = get64 (em_mem e) a"
definition reg8 :: "emu \<Rightarrow> nat \<Rightarrow> u8" where "reg8 e a = em_mem e ! a"

definition set_reg :: "emu \<Rightarrow> nat \<Rightarrow> bytes \<Rightarrow> emu" where
  "set_reg e a d = e\<lparr>em_mem := poke (em_mem e) a d\<rparr>"

definition esc_now :: "emu \<Rightarrow> int \<times> emu" where
  "esc_now e = (ck_now (em_clock e) (ck_now_calls (em_clock e)),
     e\<lparr>em_clock := (em_clock e)\<lparr>ck_now_calls := Suc (ck_now_calls (em_clock e))\<rparr>\<rparr>)"

definition esc_local :: "emu \<Rightarrow> int \<times> emu" where
  "esc_local e = (ck_local (em_clock e) (ck_local_calls (em_clock e)),
     e\<lparr>em_clock := (em_clock e)\<lparr>ck_local_calls := Suc (ck_local_calls (em_clock e))\<rparr>\<rparr>)"

section \<open>Construction and EEPROM image\<close>

text \<open>The constructor's assignments to the memory, in their order.\<close>

definition set_regs :: "(nat \<times> bytes) list \<Rightarrow> emu \<Rightarrow> emu" where
  "set_regs ws e = fold (\<lambda>(a, d) e. set_reg e a d) ws e"

definition ESC_CONSTANTS :: "(nat \<times> bytes) list" where
  "ESC_CONSTANTS = [(0x0, [0x04]), (0x1, [3]), (0x2, le16 0x0301), (0x4, [8]), (0x5, [8]), (0x6, [60]),
     (0x7, [0x0f]), (0x8, le16 0x01cc), (0x120, le16 1), (0x130, le16 1)]"

definition ESC_RESET_VALUES :: "(nat \<times> bytes) list" where
  "ESC_RESET_VALUES = [(0x930, le16 0x1000), (0x934, [4]), (0x935, [12]), (0x440, le16 1), (0x800, replicate 128 0)]"

definition power_on :: "esc_clock \<Rightarrow> emu" where
  "power_on ck =
     (let e = \<lparr>em_mem = replicate ESC_MEMORY_SIZE 0, em_eeprom = [], em_syncs = [], em_fmmus = [],
               em_has_output_fmmu = False, em_lastLogicalWrite = 0, em_last_write_eeprom = 0,
               em_dc_correction = 0, em_dc_diff_filtered = 0, em_clock_jitter = 0,
               em_jitter_rng = 0x2545f4914f6cdd1d, em_clock = ck\<rparr>;
          (t, e) = esc_now e; e = e\<lparr>em_lastLogicalWrite := t\<rparr>;
          (t, e) = esc_now e
      in e\<lparr>em_last_write_eeprom := t\<rparr>)"

definition EmulatedESC_new :: "esc_clock \<Rightarrow> emu" where
  "EmulatedESC_new ck =
     (let e = set_regs ESC_CONSTANTS (power_on ck);
          e = set_reg e 0x502 (le16 (reg16 e 0x502 AND NOT 0x8000))
      in set_regs ESC_RESET_VALUES e)"

definition loadEeprom :: "emu \<Rightarrow> emu" where
  "loadEeprom e =
     (if length (em_eeprom e) \<le> 4 then e
      else let e = set_reg e 0x141 [ucast (drop_bit 8 (em_eeprom e ! 0))]
           in set_reg e 0x12 (le16 (em_eeprom e ! 4)))"

definition loadEeprom_words :: "u16 list \<Rightarrow> emu \<Rightarrow> emu" where
  "loadEeprom_words eeprom_data e = loadEeprom (e\<lparr>em_eeprom := eeprom_data\<rparr>)"

fun words_of :: "bytes \<Rightarrow> u16 list" where
  "words_of [] = []"
| "words_of [b] = [from_le [b, 0]]"
| "words_of (b # c # bs) = from_le [b, c] # words_of bs"

definition loadEeprom_image :: "bytes \<Rightarrow> emu \<Rightarrow> emu" where
  "loadEeprom_image img e = loadEeprom (e\<lparr>em_eeprom := words_of img\<rparr>)"

section \<open>Distributed clock\<close>

definition localSystemTime :: "emu \<Rightarrow> int \<times> emu" where
  "localSystemTime e =
     (let off = sint (reg64 e 0x920); (t, e) = esc_local e in (t + off + em_dc_correction e, e))"

definition jitter_next :: "u64 \<Rightarrow> u64" where
  "jitter_next r =
     (let r = r XOR push_bit 13 r; r = r XOR drop_bit 7 r in r XOR push_bit 17 r)"

definition dcSystemTimeRead :: "u16 \<Rightarrow> nat \<Rightarrow> emu \<Rightarrow> emu" where
  "dcSystemTimeRead offset size' e =
     (if unat offset \<ge> 0x918 \<or> unat offset + size' \<le> 0x910 then e
      else let (now, e) = localSystemTime e;
               t = (word_of_int now :: u64);
               (t, e) = (if em_clock_jitter e > 0 then
                  let rng = jitter_next (em_jitter_rng e);
                      span = 2 * em_clock_jitter e + 1;
                      noise = uint (rng mod word_of_int span) - em_clock_jitter e
                  in (word_of_int (sint t + noise), e\<lparr>em_jitter_rng := rng\<rparr>)
                else (t, e))
           in set_reg e 0x910 (le64 t))"

definition clamp :: "int \<Rightarrow> int \<Rightarrow> int" where
  "clamp bound dt =
     (let step = dt; step = (if step > bound then bound else step) in if step < - bound then - bound else step)"

definition filter_diff :: "u8 \<Rightarrow> int \<Rightarrow> int \<Rightarrow> int" where
  "filter_diff depth dt filtered =
     (if depth = 0 then dt else filtered + (dt - filtered) sdiv (2 ^ unat depth))"

definition sign_magnitude :: "int \<Rightarrow> u32" where
  "sign_magnitude d =
     (let magnitude = (if d \<ge> 0 then d else - d);
          magnitude = (if magnitude > 0x7FFFFFFF then 0x7FFFFFFF else magnitude);
          raw = word_of_int magnitude
      in if d \<ge> 0 then raw OR 0x80000000 else raw)"

definition dcTimeLoopWrite :: "u16 \<Rightarrow> nat \<Rightarrow> emu \<Rightarrow> emu" where
  "dcTimeLoopWrite offset size' e =
     (if unat offset > 0x935 \<or> unat offset + size' \<le> 0x910 then e
      else
        let e = (if unat offset < 0x918 \<and> unat offset + size' > 0x910 then
               let received = reg64 e 0x910;
                   delay = reg32 e 0x928;
                   (now, e) = localSystemTime e;
                   dt = (now - uint delay) - sint received;
                   bound = uint (reg16 e 0x930 AND 0x7FFF);
                   step = clamp bound dt;
                   e = e\<lparr>em_dc_correction := em_dc_correction e - step\<rparr>;
                   depth = reg8 e 0x934 AND 0x0F;
                   e = e\<lparr>em_dc_diff_filtered := filter_diff depth dt (em_dc_diff_filtered e)\<rparr>
               in set_reg e 0x92C (le32 (sign_magnitude (em_dc_diff_filtered e)))
             else e)
        in if unat offset + size' > 0x930
           then set_reg (e\<lparr>em_dc_diff_filtered := 0\<rparr>) 0x92C (le32 0)
           else e)"

section \<open>Memory access\<close>

definition EACCES :: int where [simp]: "EACCES = 13"
definition SM_STATUS_MAILBOX :: u8 where [simp]: "SM_STATUS_MAILBOX = 0x08"

abbreviation sm_status_at :: "nat \<Rightarrow> nat" where "sm_status_at i \<equiv> 0x805 + 8 * i"
abbreviation sm_control_at :: "nat \<Rightarrow> nat" where "sm_control_at i \<equiv> 0x804 + 8 * i"

definition copy_out :: "u16 \<Rightarrow> nat \<Rightarrow> bytes \<Rightarrow> emu \<Rightarrow> bytes" where
  "copy_out address to_copy buffer e = poke buffer 0 (peek (em_mem e) (unat address) to_copy)"

definition copy_in :: "u16 \<Rightarrow> nat \<Rightarrow> bytes \<Rightarrow> emu \<Rightarrow> emu" where
  "copy_in address to_copy buffer e = set_reg e (unat address) (take to_copy buffer)"

text \<open>The copy through the first sync manager that allows it; \<open>None\<close> when there is none.\<close>

fun sm_access :: "u16 \<Rightarrow> bytes \<Rightarrow> esc_access \<Rightarrow> nat \<Rightarrow> emu \<Rightarrow> esc_sm list \<Rightarrow> (int \<times> bytes \<times> emu) option" where
  "sm_access address buffer access to_copy e [] = None"
| "sm_access address buffer access to_copy e (sync # syncs) =
     (let st = sm_status_at (sy_registers sync); ct = sm_control_at (sy_registers sync);
          mailbox_full = (reg8 e st AND SM_STATUS_MAILBOX \<noteq> 0); buffered_1 = (reg8 e ct AND 0x3 \<noteq> 0);
          last_byte = (unat address + length buffer = unat (sy_address sync) + unat (sy_size sync))
      in if access_code access AND sy_access sync = 0 then sm_access address buffer access to_copy e syncs
         else if unat address < unat (sy_address sync)
           \<or> unat address + to_copy > unat (sy_address sync) + unat (sy_size sync)
         then sm_access address buffer access to_copy e syncs
         else if access = PDI_READ \<or> access = ECAT_READ then
           if \<not> mailbox_full \<and> buffered_1 then Some (- EAGAIN, buffer, e)
           else Some (int to_copy, copy_out address to_copy buffer e,
                      if last_byte then set_reg e st [reg8 e st AND NOT SM_STATUS_MAILBOX] else e)
         else
           if mailbox_full \<and> buffered_1 then Some (- EAGAIN, buffer, e)
           else let e = copy_in address to_copy buffer e
                in Some (int to_copy, buffer, if last_byte then set_reg e st [reg8 e st OR SM_STATUS_MAILBOX] else e))"

definition fmmu_spans :: "u16 \<Rightarrow> nat \<Rightarrow> esc_fmmu \<Rightarrow> bool" where
  "fmmu_spans address to_copy f \<longleftrightarrow>
     \<not> (unat address < fu_physical f \<or> unat address + to_copy > fu_physical f + unat (fu_bit_length f div 8))"

definition computeInternalMemoryAccess :: "u16 \<Rightarrow> bytes \<Rightarrow> esc_access \<Rightarrow> emu \<Rightarrow> int \<times> bytes \<times> emu" where
  "computeInternalMemoryAccess address buffer access e =
     (if unat address \<ge> 0x1000 then
        let to_copy = min (length buffer) (0xFFFF - unat address) in
        case sm_access address buffer access to_copy e (em_syncs e) of
          Some r \<Rightarrow> r
        | None \<Rightarrow>
            if access = PDI_READ \<and> list_ex (\<lambda>f. \<not> fu_is_input f \<and> fmmu_spans address to_copy f) (em_fmmus e)
            then (int to_copy, copy_out address to_copy buffer e, e)
            else if access = PDI_WRITE \<and> list_ex (\<lambda>f. fu_is_input f \<and> fmmu_spans address to_copy f) (em_fmmus e)
            then (int to_copy, buffer, copy_in address to_copy buffer e)
            else (- EACCES, buffer, e)
      else
        let to_copy = min (length buffer) (0x1000 - unat address) in
        case access of
          PDI_READ \<Rightarrow> (int to_copy, copy_out address to_copy buffer e, e)
        | ECAT_READ \<Rightarrow> (int to_copy, copy_out address to_copy buffer e, e)
        | PDI_WRITE \<Rightarrow> (int to_copy, buffer, copy_in address to_copy buffer e)
        | ECAT_WRITE \<Rightarrow> (int to_copy, buffer, copy_in address to_copy buffer e))"

definition emu_write :: "u16 \<Rightarrow> bytes \<Rightarrow> emu \<Rightarrow> int \<times> emu" where
  "emu_write address data e =
     (let (rc, buffer, e) = computeInternalMemoryAccess address data PDI_WRITE e in (rc, e))"

definition emu_read :: "u16 \<Rightarrow> bytes \<Rightarrow> emu \<Rightarrow> int \<times> bytes \<times> emu" where
  "emu_read address data e = computeInternalMemoryAccess address data PDI_READ e"

section \<open>Logical addressing\<close>

definition copy_bit :: "u8 \<Rightarrow> nat \<Rightarrow> u8 \<Rightarrow> nat \<Rightarrow> u8" where
  "copy_bit src soff dst doff =
     (let b = drop_bit soff src AND 1 in (dst AND NOT (push_bit doff 1)) OR push_bit doff b)"

text \<open>One turn of the bit loop, on whether a bit was hit, the frame's payload and the memory.\<close>

definition fmmu_bit ::
  "esc_fmmu \<Rightarrow> bool \<Rightarrow> u32 \<Rightarrow> u32 \<Rightarrow> nat \<Rightarrow> bool \<times> bytes \<times> bytes \<Rightarrow> (bool \<times> bytes \<times> bytes) option" where
  "fmmu_bit f read start stop b = (\<lambda>(hit, frame, mem).
     let logical_bit = ucast (fu_logical_start_bit f) + of_nat b :: u32;
         logical_byte = fu_logical_address f + logical_bit div 8
     in if logical_byte < start \<or> logical_byte \<ge> stop then Some (hit, frame, mem)
        else
          let frame_byte = unat (logical_byte - start);
              loff = unat (logical_bit mod 8);
              physical_bit = ucast (fu_physical_start_bit f) + of_nat b :: u32;
              phys_byte = fu_physical f + unat (physical_bit div 8);
              poff = unat (physical_bit mod 8)
          in if frame_byte < length frame \<and> phys_byte < length mem then
               if read
               then Some (True, frame[frame_byte := copy_bit (mem ! phys_byte) poff (frame ! frame_byte) loff], mem)
               else Some (True, frame, mem[phys_byte := copy_bit (frame ! frame_byte) loff (mem ! phys_byte) poff])
             else None)"

primrec for_upto :: "(nat \<Rightarrow> 's \<Rightarrow> 's option) \<Rightarrow> nat \<Rightarrow> 's \<Rightarrow> 's option" where
  "for_upto body 0 s = Some s"
| "for_upto body (Suc n) s = do { s \<leftarrow> for_upto body n s; body n s }"

definition touch_watchdog :: "emu \<Rightarrow> emu" where
  "touch_watchdog e = (let (t, e) = esc_now e in e\<lparr>em_lastLogicalWrite := t\<rparr>)"

definition copyFmmu_bits :: "esc_fmmu \<Rightarrow> bool \<Rightarrow> u32 \<Rightarrow> u32 \<Rightarrow> bytes \<Rightarrow> emu \<Rightarrow> (bool \<times> bytes \<times> emu) option" where
  "copyFmmu_bits f read start stop frame e = do {
     (hit, frame, mem) \<leftarrow> for_upto (fmmu_bit f read start stop) (unat (fu_bit_length f)) (False, frame, em_mem e);
     let e = e\<lparr>em_mem := mem\<rparr>;
     Some (hit, frame, if hit \<and> \<not> read then touch_watchdog e else e)
   }"

definition copyFmmu_bytes :: "esc_fmmu \<Rightarrow> bool \<Rightarrow> u32 \<Rightarrow> u32 \<Rightarrow> bytes \<Rightarrow> emu \<Rightarrow> (bool \<times> bytes \<times> emu) option" where
  "copyFmmu_bytes f read start stop frame e =
     (let size' = fu_bit_length f div 8;
          lo = max start (fu_logical_address f);
          hi = min stop (fu_logical_address f + size')
      in if hi \<le> lo then Some (False, frame, e)
         else
           let to_copy = unat (hi - lo);
               frame_p = unat (lo - start);
               phys_p = fu_physical f + unat (lo - fu_logical_address f)
           in if read then do {
                d \<leftarrow> mem_read (em_mem e) phys_p to_copy;
                frame \<leftarrow> mem_write frame frame_p d;
                Some (True, frame, e)
              } else do {
                d \<leftarrow> mem_read frame frame_p to_copy;
                mem \<leftarrow> mem_write (em_mem e) phys_p d;
                Some (True, frame, touch_watchdog (e\<lparr>em_mem := mem\<rparr>))
              })"

definition copyFmmu :: "esc_fmmu \<Rightarrow> bool \<Rightarrow> datagram_header \<Rightarrow> bytes \<Rightarrow> emu \<Rightarrow> (bool \<times> bytes \<times> emu) option" where
  "copyFmmu f read header frame e =
     (let start = dg_address header; stop = start + ucast (dg_len header)
      in if fu_logical_start_bit f = 0 \<and> fu_physical_start_bit f = 0 \<and> fu_bit_length f mod 8 = 0
         then copyFmmu_bytes f read start stop frame e
         else copyFmmu_bits f read start stop frame e)"

fun processFmmus_list ::
  "esc_fmmu list \<Rightarrow> bool \<Rightarrow> datagram_header \<Rightarrow> bytes \<Rightarrow> emu \<Rightarrow> (bool \<times> bytes \<times> emu) option" where
  "processFmmus_list [] read header frame e = Some (False, frame, e)"
| "processFmmus_list (f # fs) read header frame e =
     (if fu_is_input f \<noteq> read then processFmmus_list fs read header frame e
      else do {
        (h1, frame, e) \<leftarrow> copyFmmu f read header frame e;
        (h2, frame, e) \<leftarrow> processFmmus_list fs read header frame e;
        Some (h1 \<or> h2, frame, e)
      })"

definition processFmmus :: "bool \<Rightarrow> datagram_header \<Rightarrow> bytes \<Rightarrow> emu \<Rightarrow> (bool \<times> bytes \<times> emu) option" where
  "processFmmus read header frame e = processFmmus_list (em_fmmus e) read header frame e"

definition MAX_ETHERCAT_PAYLOAD_SIZE :: nat where [simp]: "MAX_ETHERCAT_PAYLOAD_SIZE = 1486"

definition processLRD :: "datagram_header \<Rightarrow> bytes \<Rightarrow> u16 \<Rightarrow> emu \<Rightarrow> (bytes \<times> u16 \<times> emu) option" where
  "processLRD header data wkc e = do {
     (hit, data, e) \<leftarrow> processFmmus True header data e;
     Some (data, if hit then wkc + 1 else wkc, e)
   }"

definition processLWR :: "datagram_header \<Rightarrow> bytes \<Rightarrow> u16 \<Rightarrow> emu \<Rightarrow> (bytes \<times> u16 \<times> emu) option" where
  "processLWR header data wkc e = do {
     (hit, data, e) \<leftarrow> processFmmus False header data e;
     Some (data, if hit then wkc + 1 else wkc, e)
   }"

text \<open>The commands that read and write keep a copy of the payload in a local array.\<close>

definition swap_copy :: "datagram_header \<Rightarrow> bytes \<Rightarrow> bytes option" where
  "swap_copy header data =
     (if unat (dg_len header) \<le> MAX_ETHERCAT_PAYLOAD_SIZE then mem_read data 0 (unat (dg_len header)) else None)"

definition processLRW :: "datagram_header \<Rightarrow> bytes \<Rightarrow> u16 \<Rightarrow> emu \<Rightarrow> (bytes \<times> u16 \<times> emu) option" where
  "processLRW header data wkc e = do {
     swap \<leftarrow> swap_copy header data;
     (r, data, e) \<leftarrow> processFmmus True header data e;
     (w, swap, e) \<leftarrow> processFmmus False header swap e;
     let wkc = (if r then wkc + 1 else wkc);
     Some (data, if w then wkc + 2 else wkc, e)
   }"

section \<open>Physical addressing\<close>

text \<open>The payload \<open>data\<close> of a datagram has the length its header says.\<close>

definition matchesConfiguredAddress :: "u16 \<Rightarrow> emu \<Rightarrow> bool" where
  "matchesConfiguredAddress position e \<longleftrightarrow>
     (if position = reg16 e 0x10 then True
      else if reg32 e 0x100 AND 0x01000000 = 0 then False
      else reg16 e 0x12 \<noteq> 0 \<and> position = reg16 e 0x12)"

definition processReadCommand :: "bytes \<Rightarrow> u16 \<Rightarrow> u16 \<Rightarrow> emu \<Rightarrow> bytes \<times> u16 \<times> emu" where
  "processReadCommand data wkc offset e =
     (let e = dcSystemTimeRead offset (length data) e;
          (r, data, e) = computeInternalMemoryAccess offset data ECAT_READ e
      in (data, if r > 0 then wkc + 1 else wkc, e))"

definition processWriteCommand :: "bytes \<Rightarrow> u16 \<Rightarrow> u16 \<Rightarrow> emu \<Rightarrow> bytes \<times> u16 \<times> emu" where
  "processWriteCommand data wkc offset e =
     (let (written, data, e) = computeInternalMemoryAccess offset data ECAT_WRITE e
      in if written > 0 then (data, wkc + 1, dcTimeLoopWrite offset (length data) e) else (data, wkc, e))"

text \<open>The local array is read only as far as it was filled.\<close>

definition or_into :: "bytes \<Rightarrow> bytes \<Rightarrow> nat \<Rightarrow> bytes" where
  "or_into frame buffer n = map (\<lambda>(i, x). if i < n then x OR buffer ! i else x) (enumerate 0 frame)"

definition readOrIntoFrame :: "u16 \<Rightarrow> bytes \<Rightarrow> emu \<Rightarrow> (int \<times> bytes \<times> emu) option" where
  "readOrIntoFrame offset data e =
     (if length data > MAX_ETHERCAT_PAYLOAD_SIZE then None
      else let e = dcSystemTimeRead offset (length data) e;
               (r, buffer, e) = computeInternalMemoryAccess offset (replicate (length data) 0) ECAT_READ e
           in Some (r, or_into data buffer (nat r), e))"

definition processBroadcastReadCommand :: "bytes \<Rightarrow> u16 \<Rightarrow> u16 \<Rightarrow> emu \<Rightarrow> (bytes \<times> u16 \<times> emu) option" where
  "processBroadcastReadCommand data wkc offset e = do {
     (r, data, e) \<leftarrow> readOrIntoFrame offset data e;
     Some (data, if r > 0 then wkc + 1 else wkc, e)
   }"

definition processBroadcastReadWriteCommand ::
  "datagram_header \<Rightarrow> bytes \<Rightarrow> u16 \<Rightarrow> u16 \<Rightarrow> emu \<Rightarrow> (bytes \<times> u16 \<times> emu) option" where
  "processBroadcastReadWriteCommand header data wkc offset e = do {
     swap \<leftarrow> swap_copy header data;
     (r, data, e) \<leftarrow> readOrIntoFrame offset data e;
     let (written, swap, e) = computeInternalMemoryAccess offset swap ECAT_WRITE e;
     let wkc = (if r > 0 then wkc + 1 else wkc);
     Some (if written > 0 then (data, wkc + 2, dcTimeLoopWrite offset (length data) e) else (data, wkc, e))
   }"

definition processReadWriteCommand ::
  "datagram_header \<Rightarrow> bytes \<Rightarrow> u16 \<Rightarrow> u16 \<Rightarrow> emu \<Rightarrow> (bytes \<times> u16 \<times> emu) option" where
  "processReadWriteCommand header data wkc offset e = do {
     swap \<leftarrow> swap_copy header data;
     let e = dcSystemTimeRead offset (length data) e;
     let (r, data, e) = computeInternalMemoryAccess offset data ECAT_READ e;
     let (written, swap, e) = computeInternalMemoryAccess offset swap ECAT_WRITE e;
     let wkc = (if r > 0 then wkc + 1 else wkc);
     Some (if written > 0 then (data, wkc + 2, dcTimeLoopWrite offset (length data) e) else (data, wkc, e))
   }"

definition next_position :: "u16 \<Rightarrow> u16 \<Rightarrow> datagram_header \<Rightarrow> datagram_header" where
  "next_position position offset header = header\<lparr>dg_address := createAddress (position + 1) offset\<rparr>"

definition processEcatRequest ::
  "datagram_header \<Rightarrow> bytes \<Rightarrow> u16 \<Rightarrow> emu \<Rightarrow> (datagram_header \<times> bytes \<times> u16 \<times> emu) option" where
  "processEcatRequest header data wkc e =
     (let (position, offset) = extractAddress (dg_address header);
          here = (position = 0); mine = matchesConfiguredAddress position e;
          hop = next_position position offset header;
          skip = (data, wkc, e);
          rd = processReadCommand data wkc offset e;
          wr = processWriteCommand data wkc offset e
      in case command_of (dg_command header) of
           Some APRD \<Rightarrow> Some (hop, if here then rd else skip)
         | Some APWR \<Rightarrow> Some (hop, if here then wr else skip)
         | Some APRW \<Rightarrow> do {
             r \<leftarrow> (if here then processReadWriteCommand header data wkc offset e else Some skip); Some (hop, r) }
         | Some FPRD \<Rightarrow> Some (header, if mine then rd else skip)
         | Some FPWR \<Rightarrow> Some (header, if mine then wr else skip)
         | Some FPRW \<Rightarrow> do {
             r \<leftarrow> (if mine then processReadWriteCommand header data wkc offset e else Some skip); Some (header, r) }
         | Some BRD \<Rightarrow> do { r \<leftarrow> processBroadcastReadCommand data wkc offset e; Some (hop, r) }
         | Some BWR \<Rightarrow> Some (hop, wr)
         | Some BRW \<Rightarrow> do { r \<leftarrow> processBroadcastReadWriteCommand header data wkc offset e; Some (hop, r) }
         | Some LRD \<Rightarrow> do { r \<leftarrow> processLRD header data wkc e; Some (header, r) }
         | Some LWR \<Rightarrow> do { r \<leftarrow> processLWR header data wkc e; Some (header, r) }
         | Some LRW \<Rightarrow> do { r \<leftarrow> processLRW header data wkc e; Some (header, r) }
         | Some ARMW \<Rightarrow> Some (hop, if here then rd else wr)
         | Some FRMW \<Rightarrow> Some (header, if mine then rd else wr)
         | Some NOP \<Rightarrow> Some (header, skip)
         | None \<Rightarrow> Some (header, skip))"

section \<open>Internal logic\<close>

definition AL_STATUS_ERR_IND :: u16 where [simp]: "AL_STATUS_ERR_IND = 0x10"
definition AL_CONTROL_ERR_ACK :: u16 where [simp]: "AL_CONTROL_ERR_ACK = 0x10"

definition sync_manager_at :: "emu \<Rightarrow> nat \<Rightarrow> sm_register" where
  "sync_manager_at e i = dec_sm_register (peek (em_mem e) (0x800 + 8 * i) 8)"

definition fmmu_at :: "emu \<Rightarrow> nat \<Rightarrow> fmmu_register" where
  "fmmu_at e i = dec_fmmu_register (peek (em_mem e) (0x600 + 16 * i) 16)"

definition configure_sm :: "emu \<Rightarrow> nat \<Rightarrow> esc_sm list" where
  "configure_sm e i =
     (let sm = sync_manager_at e i
      in if sm_activate sm = 0 then []
         else if sm_control sm AND 0x3 = 0 then []
         else [\<lparr>sy_access = (if sm_control sm AND 0x4 \<noteq> 0 then access_code ECAT_WRITE OR access_code PDI_READ
                             else access_code ECAT_READ OR access_code PDI_WRITE),
                sy_address = sm_start_address sm, sy_size = sm_length sm, sy_registers = i\<rparr>])"

definition configureSMs :: "emu \<Rightarrow> emu" where
  "configureSMs e = e\<lparr>em_syncs := concat (map (configure_sm e) [0..<16])\<rparr>"

definition fmmu_bit_length :: "fmmu_register \<Rightarrow> u32" where
  "fmmu_bit_length fm =
     (ucast (fm_length fm) - 1) * 8 + (ucast (fm_logical_stop_bit fm) - ucast (fm_logical_start_bit fm) + 1)"

definition fmmu_physical_bytes :: "fmmu_register \<Rightarrow> u32" where
  "fmmu_physical_bytes fm = (ucast (fm_physical_start_bit fm) + fmmu_bit_length fm + 7) div 8"

definition configure_fmmu :: "emu \<Rightarrow> nat \<Rightarrow> esc_fmmu list" where
  "configure_fmmu e i =
     (let fm = fmmu_at e i
      in if fm_activate fm = 0 then []
         else if fm_type fm \<noteq> 1 \<and> fm_type fm \<noteq> 2 then []
         else if fm_logical_stop_bit fm < fm_logical_start_bit fm then []
         else if unat (fm_physical_address fm) + unat (fmmu_physical_bytes fm) > ESC_MEMORY_SIZE then []
         else [\<lparr>fu_logical_address = fm_logical_address fm, fu_physical = unat (fm_physical_address fm),
                fu_bit_length = fmmu_bit_length fm, fu_logical_start_bit = fm_logical_start_bit fm,
                fu_physical_start_bit = fm_physical_start_bit fm, fu_is_input = (fm_type fm = 1)\<rparr>])"

definition configureFmmus :: "emu \<Rightarrow> emu" where
  "configureFmmus e =
     (let fs = concat (map (configure_fmmu e) [0..<16])
      in touch_watchdog (e\<lparr>em_fmmus := fs, em_has_output_fmmu := list_ex (\<lambda>f. \<not> fu_is_input f) fs\<rparr>))"

definition pdiWatchdog :: "emu \<Rightarrow> int" where
  "pdiWatchdog e = uint (reg16 e 0x410) * ((uint (reg16 e 0x400) + 2) * 40)"

definition pdoWatchdog :: "emu \<Rightarrow> int" where
  "pdoWatchdog e = uint (reg16 e 0x420) * ((uint (reg16 e 0x400) + 2) * 40)"

definition checkWatchdog :: "emu \<Rightarrow> emu" where
  "checkWatchdog e =
     (if \<not> em_has_output_fmmu e then e
      else let delay = pdoWatchdog e
      in if delay = 0 then e
      else let (current, e) = esc_now e
      in if current < em_lastLogicalWrite e + delay then set_reg e 0x440 (le16 1)
      else if reg16 e 0x440 = 1 then
        let e = set_reg e 0x440 (le16 0);
            e = (if reg8 e 0x442 < 0xFF then set_reg e 0x442 [reg8 e 0x442 + 1] else e)
        in if reg8 e 0x141 AND 0x01 \<noteq> 0 then
             let e = set_reg e 0x130 (le16 ((reg16 e 0x130 AND 0xFFF0) OR 4 OR AL_STATUS_ERR_IND))
             in set_reg e 0x134 (le16 0x1B)
           else e
      else e)"

definition esm_transition :: "emu \<Rightarrow> emu" where
  "esm_transition e =
     (if reg16 e 0x120 \<noteq> reg16 e 0x130 then
        let before = reg16 e 0x130 AND 0xf; current = reg16 e 0x120 AND 0xf
        in if current = 2 then if before = 1 then configureSMs e else e
           else if current = 4 then if before = 2 then configureFmmus e else e
           else e
      else e)"

definition mirror_al_status :: "emu \<Rightarrow> emu" where
  "mirror_al_status e =
     (if reg8 e 0x141 AND 0x01 \<noteq> 0 then
        if reg16 e 0x130 AND AL_STATUS_ERR_IND \<noteq> 0 then
          if reg16 e 0x120 AND AL_CONTROL_ERR_ACK \<noteq> 0
          then set_reg e 0x130 (le16 (reg16 e 0x120 AND NOT AL_CONTROL_ERR_ACK)) else e
        else set_reg e 0x130 (le16 (reg16 e 0x120))
      else e)"

definition ctrl_and :: "emu \<Rightarrow> u16 \<Rightarrow> emu" where
  "ctrl_and e m = set_reg e 0x502 (le16 (reg16 e 0x502 AND m))"

definition ctrl_or :: "emu \<Rightarrow> u16 \<Rightarrow> emu" where
  "ctrl_or e m = set_reg e 0x502 (le16 (reg16 e 0x502 OR m))"

definition eeprom_read :: "emu \<Rightarrow> emu option" where
  "eeprom_read e = do {
     let addr = reg32 e 0x504;
     e \<leftarrow> (if unat (addr + 2) \<le> length (em_eeprom e) then do {
              ws \<leftarrow> mem_read (em_eeprom e) (unat addr) 2;
              Some (set_reg e 0x508 (concat (map le16 ws)))
            } else Some (set_reg e 0x508 (le64 (- 1))));
     Some (ctrl_and e (NOT 0x0700))
   }"

definition elapsed :: "int \<Rightarrow> emu \<Rightarrow> int \<times> emu" where
  "elapsed since e = (let (t, e) = esc_now e in (t - since, e))"

definition eeprom_write :: "emu \<Rightarrow> emu" where
  "eeprom_write e =
     (if reg16 e 0x502 AND 0x0001 = 0 then ctrl_or (ctrl_and e (NOT 0x0700)) 0x4000
      else
        let addr = unat (reg32 e 0x504);
            e = (if addr \<ge> length (em_eeprom e)
                 then e\<lparr>em_eeprom := em_eeprom e @ replicate (addr + 1 - length (em_eeprom e)) 0xFFFF\<rparr> else e);
            e = ctrl_and e (NOT 0x0700);
            (d, e) = elapsed (em_last_write_eeprom e) e;
            e = (if d < 2000000 then ctrl_or e 0x8000 else e);
            (d, e) = elapsed (em_last_write_eeprom e) e
        in if d < 4000000 then ctrl_or e 0x2000
           else
             let (t, e) = esc_now e;
                 e = e\<lparr>em_last_write_eeprom := t\<rparr>;
                 e = e\<lparr>em_eeprom := (em_eeprom e)[addr := reg16 e 0x508]\<rparr>;
                 e = ctrl_and e (NOT 0x0700)
             in ctrl_and e (NOT 0x0001))"

definition eeprom_access :: "emu \<Rightarrow> emu option" where
  "eeprom_access e =
     (let order = reg16 e 0x502 AND 0x0700
      in if order = 0x0100 then eeprom_read e
         else if order = 0x0200 then Some (eeprom_write e)
         else if order = 0x0000 then Some (ctrl_and e (NOT (0x2000 OR 0x4000)))
         else if order = 0x0400 then Some (ctrl_and (loadEeprom e) (NOT 0x0700))
         else Some e)"

definition processInternalLogic :: "emu \<Rightarrow> emu option" where
  "processInternalLogic e = do {
     e \<leftarrow> eeprom_access (mirror_al_status (esm_transition e));
     Some (checkWatchdog e)
   }"

definition processDatagram ::
  "datagram_header \<Rightarrow> bytes \<Rightarrow> u16 \<Rightarrow> emu \<Rightarrow> (datagram_header \<times> bytes \<times> u16 \<times> emu) option" where
  "processDatagram header data wkc e = do {
     (header, data, wkc, e) \<leftarrow> processEcatRequest header data wkc e;
     e \<leftarrow> processInternalLogic e;
     Some (header, data, wkc, e)
   }"

section \<open>Invariant\<close>

definition good_fmmu :: "esc_fmmu \<Rightarrow> bool" where
  "good_fmmu f \<longleftrightarrow> unat (fu_physical_start_bit f) + unat (fu_bit_length f) + 7 < 2 ^ 32
     \<and> fu_physical f + (unat (fu_physical_start_bit f) + unat (fu_bit_length f) + 7) div 8 \<le> ESC_MEMORY_SIZE"

definition wf_emu :: "emu \<Rightarrow> bool" where
  "wf_emu e \<longleftrightarrow> length (em_mem e) = ESC_MEMORY_SIZE \<and> (\<forall>s \<in> set (em_syncs e). sy_registers s < 16)
     \<and> (\<forall>f \<in> set (em_fmmus e). good_fmmu f)"

text \<open>Writes to the memory, clock readings and counters keep the configuration.\<close>

definition same_config :: "emu \<Rightarrow> emu \<Rightarrow> bool" where
  "same_config e e' \<longleftrightarrow> length (em_mem e') = length (em_mem e) \<and> em_syncs e' = em_syncs e \<and> em_fmmus e' = em_fmmus e
     \<and> em_has_output_fmmu e' = em_has_output_fmmu e \<and> em_eeprom e' = em_eeprom e"

lemma same_config_refl [simp]: "same_config e e"
  by (simp add: same_config_def)

lemma same_config_trans: "same_config e e' \<Longrightarrow> same_config e' e'' \<Longrightarrow> same_config e e''"
  by (simp add: same_config_def)

lemma wf_same_config: "wf_emu e \<Longrightarrow> same_config e e' \<Longrightarrow> wf_emu e'"
  by (simp add: wf_emu_def same_config_def)

lemma wf_length: "wf_emu e \<Longrightarrow> length (em_mem e) = ESC_MEMORY_SIZE"
  by (simp add: wf_emu_def)

lemma same_config_set_reg: "a + length d \<le> length (em_mem e) \<Longrightarrow> same_config e (set_reg e a d)"
  by (simp add: same_config_def set_reg_def)

lemma same_config_clock: "same_config e (snd (esc_now e))" "same_config e (snd (esc_local e))"
    "same_config e (touch_watchdog e)"
  by (simp_all add: same_config_def esc_now_def esc_local_def touch_watchdog_def)

lemma unat_u16: "unat (a :: u16) < 65536"
  using unsigned_less [of a, where 'a = nat] by simp

lemma sm_access_config:
  assumes "wf_emu e"
  shows "sm_access address buffer access to_copy e syncs = Some (r, buffer', e') \<Longrightarrow>
    set syncs \<subseteq> set (em_syncs e) \<Longrightarrow> to_copy \<le> length buffer \<Longrightarrow> unat address + to_copy \<le> ESC_MEMORY_SIZE \<Longrightarrow>
    same_config e e' \<and> length buffer' = length buffer \<and> r \<le> int (length buffer)"
proof (induction syncs)
  case (Cons sync syncs)
  have len: "length (em_mem e) = ESC_MEMORY_SIZE" using assms by (rule wf_length)
  have reg: "sm_status_at (sy_registers sync) + 1 \<le> ESC_MEMORY_SIZE"
    using assms Cons.prems(2) by (auto simp: wf_emu_def)
  have cin: "same_config e (copy_in address to_copy buffer e)"
    using Cons.prems(3,4) len by (auto simp: copy_in_def intro!: same_config_set_reg)
  have st: "same_config e2 (set_reg e2 (sm_status_at (sy_registers sync)) [v])" if "same_config e e2" for e2 v
    by (rule same_config_set_reg) (use that reg len in \<open>simp add: same_config_def\<close>)
  have out: "length (copy_out address to_copy buffer e) = length buffer"
    using Cons.prems(3,4) len by (simp add: copy_out_def)
  show ?case
    using Cons.prems Cons.IH cin st out
    by (auto simp: Let_def split: if_splits intro: same_config_trans)
qed simp

lemma access_config:
  assumes wf: "wf_emu e" and acc: "computeInternalMemoryAccess address buffer access e = (r, buffer', e')"
  shows "same_config e e' \<and> length buffer' = length buffer \<and> r \<le> int (length buffer)"
proof -
  have len: "length (em_mem e) = ESC_MEMORY_SIZE" using wf by (rule wf_length)
  define n where "n = min (length buffer) ((if unat address \<ge> 0x1000 then 0xFFFF else 0x1000) - unat address)"
  have n: "n \<le> length buffer" "unat address + n \<le> ESC_MEMORY_SIZE"
    using unat_u16 [of address] by (auto simp: n_def)
  have out: "length (copy_out address n buffer e) = length buffer"
    using n len by (simp add: copy_out_def)
  have cin: "same_config e (copy_in address n buffer e)"
    using n len by (auto simp: copy_in_def intro!: same_config_set_reg)
  show ?thesis
  proof (cases "unat address \<ge> 0x1000")
    case True
    then have nd: "n = min (length buffer) (0xFFFF - unat address)" by (simp add: n_def)
    show ?thesis
    proof (cases "sm_access address buffer access n e (em_syncs e)")
      case None
      then show ?thesis
        using acc True out cin n by (auto simp: computeInternalMemoryAccess_def nd [symmetric] Let_def split: if_splits)
    next
      case (Some x)
      then show ?thesis
        using acc True sm_access_config [OF wf, of address buffer access n "em_syncs e"] n
        by (cases x) (simp add: computeInternalMemoryAccess_def nd [symmetric])
    qed
  next
    case False
    then have "n = min (length buffer) (0x1000 - unat address)" by (simp add: n_def)
    then show ?thesis
      using acc False out cin n
      by (cases access) (auto simp: computeInternalMemoryAccess_def Let_def)
  qed
qed

lemma dcSystemTimeRead_config: "wf_emu e \<Longrightarrow> same_config e (dcSystemTimeRead offset n e)"
  using wf_length [of e]
  by (auto simp: dcSystemTimeRead_def localSystemTime_def esc_local_def Let_def same_config_def set_reg_def)

lemma dcTimeLoopWrite_config: "wf_emu e \<Longrightarrow> same_config e (dcTimeLoopWrite offset n e)"
  using wf_length [of e]
  by (auto simp: dcTimeLoopWrite_def localSystemTime_def esc_local_def Let_def same_config_def set_reg_def)

section \<open>The emulated controller is a slave device\<close>

definition emu_ops :: "u8 \<Rightarrow> emu esc_ops" where
  "emu_ops x = \<lparr>esc_read = emu_read, esc_write = emu_write, esc_uninit = x\<rparr>"

definition emu_regs :: "emu \<Rightarrow> bytes" where
  "emu_regs e = take 4096 (em_mem e)"

lemma poke_all: "length d = length b \<Longrightarrow> poke b 0 d = d"
  by (simp add: poke_def)

lemma peek_take: "a + n \<le> m \<Longrightarrow> peek (take m b) a n = peek b a n"
  by (simp add: peek_def drop_take min_absorb1)

lemma poke_take: "a + length d \<le> m \<Longrightarrow> m \<le> length b \<Longrightarrow> take m (poke b a d) = poke (take m b) a d"
  by (simp add: poke_def drop_take min_absorb2)

lemma access_register:
  assumes "unat address < 0x1000"
  shows "computeInternalMemoryAccess address buffer access e =
    (let n = min (length buffer) (0x1000 - unat address)
     in if access = PDI_READ \<or> access = ECAT_READ then (int n, copy_out address n buffer e, e)
        else (int n, buffer, copy_in address n buffer e))"
  using assms by (cases access) (simp_all add: computeInternalMemoryAccess_def not_le [symmetric] Let_def)

lemma emu_read_reg:
  assumes "wf_emu e" and "0 < length buffer" and "unat a + length buffer \<le> 4096"
  shows "emu_read a buffer e = (int (length buffer), peek (emu_regs e) (unat a) (length buffer), e)"
proof -
  have n: "min (length buffer) (0x1000 - unat a) = length buffer" and a: "unat a < 0x1000" using assms(2,3) by linarith+
  show ?thesis
    using assms wf_length [OF assms(1)]
    by (simp add: emu_read_def access_register [OF a] n copy_out_def poke_all emu_regs_def peek_take Let_def)
qed

lemma emu_write_reg:
  assumes "wf_emu e" and "0 < length d" and "unat a + length d \<le> 4096"
  shows "\<exists>e'. emu_write a d e = (int (length d), e') \<and> wf_emu e' \<and> emu_regs e' = poke (emu_regs e) (unat a) d"
proof -
  have n: "min (length d) (0x1000 - unat a) = length d" and a: "unat a < 0x1000" using assms(2,3) by linarith+
  have len: "length (em_mem e) = ESC_MEMORY_SIZE" using assms(1) by (rule wf_length)
  have "same_config e (set_reg e (unat a) d)" by (rule same_config_set_reg) (use assms len in simp)
  with assms n len show ?thesis
    by (auto simp: emu_write_def access_register [OF a] copy_in_def emu_regs_def set_reg_def poke_take Let_def
        intro: wf_same_config)
qed

interpretation emu: esc_device "emu_ops x" emu_regs wf_emu
proof unfold_locales
  show "length (emu_regs e) = 4096" if "wf_emu e" for e
    using wf_length [OF that] by (simp add: emu_regs_def)
  show "wf_emu e' \<and> length buffer' = length buffer"
    if "wf_emu e" "esc_read (emu_ops x) a buffer e = (rc, buffer', e')" for e e' a buffer buffer' rc
    using access_config [OF that(1)] that(2) wf_same_config [OF that(1)] by (auto simp: emu_ops_def emu_read_def)
  show "wf_emu e'" if "wf_emu e" "esc_write (emu_ops x) a d e = (rc, e')" for e e' a d rc
    using access_config [OF that(1)] that(2) wf_same_config [OF that(1)]
    by (auto simp: emu_ops_def emu_write_def split: prod.splits)
qed (simp_all add: emu_ops_def emu_read_reg emu_write_reg)

section \<open>Requests stay in memory\<close>

lemma for_upto_inv:
  assumes "I s" and "\<And>b s. b < n \<Longrightarrow> I s \<Longrightarrow> \<exists>s'. body b s = Some s' \<and> I s'"
  shows "\<exists>s'. for_upto body n s = Some s' \<and> I s'"
  using assms(2)
proof (induction n)
  case (Suc n)
  then obtain s' where "for_upto body n s = Some s'" "I s'" by (metis less_Suc_eq)
  then show ?case using Suc.prems [of n s'] by auto
qed (use assms(1) in simp)

lemma div8_of_bits: "unat (x div 8 :: u32) = unat x div 8" "unat (x mod 8 :: u32) = unat x mod 8"
  by (simp_all add: unat_div unat_mod)

lemma unat_ucast_u8: "unat (ucast (x :: u8) :: u32) = unat x"
proof -
  have "unat x < 2 ^ 32" using unsigned_less [of x, where 'a = nat] by simp
  then show ?thesis by (simp add: unsigned_ucast_eq take_bit_nat_eq_self)
qed

lemma physical_bit_value:
  assumes "good_fmmu f" and "b < unat (fu_bit_length f)"
  shows "unat (ucast (fu_physical_start_bit f) + of_nat b :: u32) = unat (fu_physical_start_bit f) + b"
proof -
  have b: "unat (of_nat b :: u32) = b"
    by (rule unat_of_nat_small) (use assms in \<open>simp add: good_fmmu_def\<close>)
  have psb: "unat (ucast (fu_physical_start_bit f) :: u32) = unat (fu_physical_start_bit f)"
    by (rule unat_ucast_u8)
  have "unat (ucast (fu_physical_start_bit f) :: u32) + unat (of_nat b :: u32) < 2 ^ 32"
    using assms b psb by (simp add: good_fmmu_def)
  then show ?thesis using unat_add_small [of "ucast (fu_physical_start_bit f) :: u32" "of_nat b"] b psb by simp
qed

lemma physical_byte_bound:
  assumes "good_fmmu f" and "b < unat (fu_bit_length f)"
  shows "fu_physical f + unat ((ucast (fu_physical_start_bit f) + of_nat b :: u32) div 8) < ESC_MEMORY_SIZE"
  using assms physical_bit_value [OF assms] unfolding good_fmmu_def div8_of_bits by linarith

lemma frame_byte_bound:
  fixes x start len :: u32
  assumes "\<not> (x < start \<or> x \<ge> start + len)" and "unat len \<le> n"
  shows "unat (x - start) < n"
proof -
  have "unat start \<le> unat x" "unat x < unat (start + len)" using assms(1) by (simp_all add: word_le_nat_alt word_less_nat_alt)
  moreover have "unat (start + len) \<le> unat start + unat len"
    by (simp add: unat_word_ariths(1) mod_less_eq_dividend)
  moreover have "unat (x - start) = unat x - unat start" using calculation(1) by (simp add: unat_sub word_le_nat_alt)
  ultimately show ?thesis using assms(2) by linarith
qed

lemma unat_add_le: "unat (x + y :: u32) \<le> unat x + unat y"
  by (simp add: unat_word_ariths(1) mod_less_eq_dividend)

lemma unat_max_min: "unat (max x y :: u32) = max (unat x) (unat y)" "unat (min x y :: u32) = min (unat x) (unat y)"
  by (auto simp: max_def min_def word_le_nat_alt)

lemma unat_diff: "(y :: u32) \<le> x \<Longrightarrow> unat (x - y) = unat x - unat y"
  by (simp add: unat_sub)

text \<open>The byte ranges of the fast path.\<close>

lemma aligned_ranges:
  fixes start len la sz :: u32
  defines "lo \<equiv> max start la" and "hi \<equiv> min (start + len) (la + sz)"
  assumes "lo < hi"
  shows "unat (hi - lo) = unat hi - unat lo" and "unat (lo - start) = unat lo - unat start"
    and "unat (lo - la) = unat lo - unat la" and "unat start \<le> unat lo" and "unat la \<le> unat lo" and "unat lo < unat hi"
    and "unat hi \<le> unat start + unat len" and "unat hi \<le> unat la + unat sz"
proof -
  have le: "lo \<le> hi" using assms(3) by (rule less_imp_le)
  have "start \<le> lo" "la \<le> lo" by (simp_all add: lo_def)
  note le = le this
  show "unat (hi - lo) = unat hi - unat lo" "unat (lo - start) = unat lo - unat start" "unat (lo - la) = unat lo - unat la"
    using le by (simp_all only: unat_diff)
  show "unat start \<le> unat lo" "unat la \<le> unat lo" "unat lo < unat hi"
    using le assms(3) by (simp_all add: word_le_nat_alt word_less_nat_alt)
  show "unat hi \<le> unat start + unat len" "unat hi \<le> unat la + unat sz"
    using unat_add_le [of start len] unat_add_le [of la sz] by (simp_all add: hi_def unat_max_min)
qed

lemma copyFmmu_bytes_safe:
  assumes f: "good_fmmu f" and e: "length (em_mem e) = ESC_MEMORY_SIZE" and len: "unat len = length frame"
  shows "\<exists>hit frame' e'. copyFmmu_bytes f read start (start + len) frame e = Some (hit, frame', e')
    \<and> length frame' = length frame \<and> same_config e e'"
proof -
  let ?sz = "fu_bit_length f div 8" and ?la = "fu_logical_address f"
  let ?lo = "max start ?la" and ?hi = "min (start + len) (?la + ?sz)"
  show ?thesis
  proof (cases "?hi \<le> ?lo")
    case False
    then have lt: "?lo < ?hi" by (simp only: not_le)
    note r = aligned_ranges [OF lt]
    have sz: "unat ?sz = unat (fu_bit_length f) div 8" by (rule div8_of_bits)
    have phys: "fu_physical f + unat ?sz \<le> ESC_MEMORY_SIZE" using f unfolding good_fmmu_def sz by linarith
    have bounds: "fu_physical f + unat (?lo - ?la) + unat (?hi - ?lo) \<le> ESC_MEMORY_SIZE"
      "unat (?lo - start) + unat (?hi - ?lo) \<le> length frame"
      using r phys len by linarith+
    have "same_config e (touch_watchdog (e\<lparr>em_mem := m\<rparr>))" if "length m = length (em_mem e)" for m
      using that by (simp add: touch_watchdog_def esc_now_def same_config_def)
    with bounds False e show ?thesis by (auto simp: copyFmmu_bytes_def Let_def)
  qed (auto simp: copyFmmu_bytes_def)
qed

lemma copyFmmu_bits_safe:
  assumes f: "good_fmmu f" and e: "length (em_mem e) = ESC_MEMORY_SIZE" and len: "unat len = length frame"
  shows "\<exists>hit frame' e'. copyFmmu_bits f read start (start + len) frame e = Some (hit, frame', e')
    \<and> length frame' = length frame \<and> same_config e e'"
proof -
  let ?I = "\<lambda>(hit :: bool, fr, mem). length fr = length frame \<and> length mem = ESC_MEMORY_SIZE"
  have "\<exists>s'. for_upto (fmmu_bit f read start (start + len)) (unat (fu_bit_length f)) (False, frame, em_mem e) = Some s' \<and> ?I s'"
  proof (rule for_upto_inv)
    fix b and s :: "bool \<times> bytes \<times> bytes" assume b: "b < unat (fu_bit_length f)" and s: "?I s"
    note pb = physical_byte_bound [OF f b]
    note fb = frame_byte_bound [of _ start len "length frame"]
    show "\<exists>s'. fmmu_bit f read start (start + len) b s = Some s' \<and> ?I s'"
      using s pb fb len by (auto simp: fmmu_bit_def Let_def split: prod.splits)
  qed (use e in simp)
  then obtain hit fr mem where run: "for_upto (fmmu_bit f read start (start + len)) (unat (fu_bit_length f)) (False, frame, em_mem e)
      = Some (hit, fr, mem)" "length fr = length frame" "length mem = ESC_MEMORY_SIZE" by auto
  then show ?thesis
    using e by (auto simp: copyFmmu_bits_def touch_watchdog_def esc_now_def same_config_def Let_def)
qed

lemma unat_dg_len: "unat (ucast (dg_len h) :: u32) = unat (dg_len h)"
proof -
  have "unat (dg_len h) < 2 ^ 32" using unsigned_less [of "dg_len h", where 'a = nat] by simp
  then show ?thesis by (simp add: unsigned_ucast_eq take_bit_nat_eq_self)
qed

lemma copyFmmu_safe:
  assumes "good_fmmu f" and "length (em_mem e) = ESC_MEMORY_SIZE" and "length frame = unat (dg_len header)"
  shows "\<exists>hit frame' e'. copyFmmu f read header frame e = Some (hit, frame', e')
    \<and> length frame' = length frame \<and> same_config e e'"
  using copyFmmu_bytes_safe [OF assms(1,2), of "ucast (dg_len header)" frame]
    copyFmmu_bits_safe [OF assms(1,2), of "ucast (dg_len header)" frame] assms(3)
  by (simp add: copyFmmu_def Let_def unat_dg_len)

lemma processFmmus_list_safe:
  assumes "length (em_mem e) = ESC_MEMORY_SIZE" and "\<forall>f \<in> set fs. good_fmmu f" and "length frame = unat (dg_len header)"
  shows "\<exists>hit frame' e'. processFmmus_list fs read header frame e = Some (hit, frame', e')
    \<and> length frame' = length frame \<and> same_config e e'"
  using assms
proof (induction fs arbitrary: frame e)
  case (Cons f fs)
  show ?case
  proof (cases "fu_is_input f = read")
    case True
    obtain h1 fr1 e1 where one: "copyFmmu f read header frame e = Some (h1, fr1, e1)"
        "length fr1 = length frame" "same_config e e1"
      using copyFmmu_safe [of f e frame header read] Cons.prems by auto
    have "length (em_mem e1) = ESC_MEMORY_SIZE" using one(3) Cons.prems(1) by (simp add: same_config_def)
    then obtain h2 fr2 e2 where "processFmmus_list fs read header fr1 e1 = Some (h2, fr2, e2)"
        "length fr2 = length fr1" "same_config e1 e2"
      using Cons.IH [of e1 fr1] Cons.prems one(2) by auto
    then show ?thesis using one True by (auto intro: same_config_trans)
  qed (use Cons in auto)
qed auto

lemma processFmmus_safe:
  assumes "wf_emu e" and "length frame = unat (dg_len header)"
  shows "\<exists>hit frame' e'. processFmmus read header frame e = Some (hit, frame', e')
    \<and> length frame' = length frame \<and> same_config e e'"
  using processFmmus_list_safe [of e "em_fmmus e" frame header read] assms by (simp add: processFmmus_def wf_emu_def)

text \<open>What every command keeps: the configuration, the payload's length, and a working counter that
  grows by at most three.\<close>

definition answered :: "bytes \<Rightarrow> u16 \<Rightarrow> emu \<Rightarrow> bytes \<times> u16 \<times> emu \<Rightarrow> bool" where
  "answered data wkc e = (\<lambda>(data', wkc', e').
     same_config e e' \<and> length data' = length data \<and> wkc' \<in> {wkc, wkc + 1, wkc + 2, wkc + 3})"

lemma answered_skip: "answered data wkc e (data, wkc, e)"
  by (simp add: answered_def)

lemma processReadCommand_answers:
  assumes "wf_emu e"
  shows "answered data wkc e (processReadCommand data wkc offset e)"
proof -
  let ?e1 = "dcSystemTimeRead offset (length data) e"
  have c1: "same_config e ?e1" by (rule dcSystemTimeRead_config [OF assms])
  obtain r d e2 where acc: "computeInternalMemoryAccess offset data ECAT_READ ?e1 = (r, d, e2)" by (metis prod_cases3)
  then show ?thesis
    using access_config [OF wf_same_config [OF assms c1] acc] c1
    by (auto simp: processReadCommand_def answered_def Let_def intro: same_config_trans)
qed

lemma processWriteCommand_answers:
  assumes "wf_emu e"
  shows "answered data wkc e (processWriteCommand data wkc offset e)"
proof -
  obtain r d e2 where acc: "computeInternalMemoryAccess offset data ECAT_WRITE e = (r, d, e2)" by (metis prod_cases3)
  have c: "same_config e e2" "length d = length data" using access_config [OF assms acc] by simp_all
  have "same_config e (dcTimeLoopWrite offset (length d) e2)"
    using c(1) dcTimeLoopWrite_config [OF wf_same_config [OF assms c(1)]] by (rule same_config_trans)
  with acc c show ?thesis by (auto simp: processWriteCommand_def answered_def)
qed

lemma readOrIntoFrame_answers:
  assumes "wf_emu e" and "length data \<le> MAX_ETHERCAT_PAYLOAD_SIZE"
  shows "\<exists>r d e'. readOrIntoFrame offset data e = Some (r, d, e') \<and> same_config e e' \<and> length d = length data"
proof -
  let ?e1 = "dcSystemTimeRead offset (length data) e"
  have c1: "same_config e ?e1" by (rule dcSystemTimeRead_config [OF assms(1)])
  obtain r b e2 where acc: "computeInternalMemoryAccess offset (replicate (length data) 0) ECAT_READ ?e1 = (r, b, e2)"
    by (metis prod_cases3)
  then show ?thesis
    using access_config [OF wf_same_config [OF assms(1) c1] acc] c1 assms(2)
    by (auto simp: readOrIntoFrame_def or_into_def Let_def intro: same_config_trans)
qed

lemma processBroadcastReadCommand_answers:
  assumes "wf_emu e" and "length data \<le> MAX_ETHERCAT_PAYLOAD_SIZE"
  shows "\<exists>r. processBroadcastReadCommand data wkc offset e = Some r \<and> answered data wkc e r"
  using readOrIntoFrame_answers [OF assms, of offset] by (auto simp: processBroadcastReadCommand_def answered_def)

lemma swap_copy_all:
  "length data = unat (dg_len header) \<Longrightarrow> length data \<le> MAX_ETHERCAT_PAYLOAD_SIZE \<Longrightarrow> swap_copy header data = Some data"
  by (simp add: swap_copy_def peek_def)

text \<open>The write half shared by the two commands that read and write.\<close>

lemma write_half_answers:
  assumes "wf_emu e" and "same_config e e1" and "length d = length data"
    and "computeInternalMemoryAccess offset swap ECAT_WRITE e1 = (w, swap', e2)"
  shows "answered data wkc e (if w > 0 then (d, (if r > 0 then wkc + 1 else wkc) + 2, dcTimeLoopWrite offset n e2)
    else (d, if (r :: int) > 0 then wkc + 1 else wkc, e2))"
proof -
  have wf1: "wf_emu e1" by (rule wf_same_config [OF assms(1,2)])
  have c2: "same_config e e2" using assms(2) access_config [OF wf1 assms(4)] same_config_trans by blast
  then have "same_config e (dcTimeLoopWrite offset n e2)"
    using dcTimeLoopWrite_config [OF wf_same_config [OF assms(1)]] same_config_trans by blast
  with c2 assms(3) show ?thesis by (auto simp: answered_def add.assoc)
qed

lemma processBroadcastReadWriteCommand_answers:
  assumes "wf_emu e" and "length data = unat (dg_len header)" and "length data \<le> MAX_ETHERCAT_PAYLOAD_SIZE"
  shows "\<exists>r. processBroadcastReadWriteCommand header data wkc offset e = Some r \<and> answered data wkc e r"
proof -
  obtain r d e1 where rd: "readOrIntoFrame offset data e = Some (r, d, e1)" "same_config e e1" "length d = length data"
    using readOrIntoFrame_answers [OF assms(1,3)] by blast
  obtain w sw e2 where wr: "computeInternalMemoryAccess offset data ECAT_WRITE e1 = (w, sw, e2)" by (metis prod_cases3)
  show ?thesis
    using write_half_answers [OF assms(1) rd(2,3) wr, of wkc r "length d"] rd wr swap_copy_all [OF assms(2,3)]
    by (simp add: processBroadcastReadWriteCommand_def Let_def)
qed

lemma processReadWriteCommand_answers:
  assumes "wf_emu e" and "length data = unat (dg_len header)" and "length data \<le> MAX_ETHERCAT_PAYLOAD_SIZE"
  shows "\<exists>r. processReadWriteCommand header data wkc offset e = Some r \<and> answered data wkc e r"
proof -
  let ?e0 = "dcSystemTimeRead offset (length data) e"
  have c0: "same_config e ?e0" by (rule dcSystemTimeRead_config [OF assms(1)])
  obtain r d e1 where rd: "computeInternalMemoryAccess offset data ECAT_READ ?e0 = (r, d, e1)" by (metis prod_cases3)
  have c1: "same_config e e1" "length d = length data"
    using access_config [OF wf_same_config [OF assms(1) c0] rd] c0 same_config_trans by blast+
  obtain w sw e2 where wr: "computeInternalMemoryAccess offset data ECAT_WRITE e1 = (w, sw, e2)" by (metis prod_cases3)
  show ?thesis
    using write_half_answers [OF assms(1) c1 wr, of wkc r "length d"] rd wr swap_copy_all [OF assms(2,3)]
    by (simp add: processReadWriteCommand_def Let_def)
qed

lemma logical_answers:
  assumes "wf_emu e" and "length data = unat (dg_len header)" and "length data \<le> MAX_ETHERCAT_PAYLOAD_SIZE"
  shows "\<exists>r. processLRD header data wkc e = Some r \<and> answered data wkc e r"
    and "\<exists>r. processLWR header data wkc e = Some r \<and> answered data wkc e r"
    and "\<exists>r. processLRW header data wkc e = Some r \<and> answered data wkc e r"
proof -
  note safe = processFmmus_safe [OF assms(1,2)]
  show "\<exists>r. processLRD header data wkc e = Some r \<and> answered data wkc e r"
    using safe [of True] by (auto simp: processLRD_def answered_def)
  show "\<exists>r. processLWR header data wkc e = Some r \<and> answered data wkc e r"
    using safe [of False] by (auto simp: processLWR_def answered_def)
  obtain r d e1 where rd: "processFmmus True header data e = Some (r, d, e1)" "length d = length data" "same_config e e1"
    using safe by blast
  obtain w d' e2 where wr: "processFmmus False header data e1 = Some (w, d', e2)" "same_config e1 e2"
    using processFmmus_safe [OF wf_same_config [OF assms(1) rd(3)] assms(2)] by blast
  show "\<exists>r. processLRW header data wkc e = Some r \<and> answered data wkc e r"
    using rd wr swap_copy_all [OF assms(2,3)] same_config_trans [OF rd(3) wr(2)]
    by (auto simp: processLRW_def answered_def Let_def add.assoc)
qed

text \<open>One request on a controller whose FMMUs lie in the memory.\<close>

lemma request_answered:
  assumes "wf_emu e" and "length data = unat (dg_len header)" and "length data \<le> MAX_ETHERCAT_PAYLOAD_SIZE"
  shows "\<exists>header' data' wkc' e'. processEcatRequest header data wkc e = Some (header', data', wkc', e')
    \<and> wf_emu e' \<and> length data' = length data \<and> wkc' - wkc \<in> {0, 1, 2, 3}"
proof -
  obtain position offset where addr: "extractAddress (dg_address header) = (position, offset)" by fastforce
  have "\<exists>h r. processEcatRequest header data wkc e = Some (h, r) \<and> answered data wkc e r"
    using processReadCommand_answers [OF assms(1), of data wkc offset]
      processWriteCommand_answers [OF assms(1), of data wkc offset]
      processReadWriteCommand_answers [OF assms, of wkc offset]
      processBroadcastReadCommand_answers [OF assms(1,3), of wkc offset]
      processBroadcastReadWriteCommand_answers [OF assms, of wkc offset]
      logical_answers [OF assms, of wkc] answered_skip [of data wkc e]
    by (cases "command_of (dg_command header)"; cases "the (command_of (dg_command header))")
       (auto simp: processEcatRequest_def addr Let_def)
  then obtain h d w e' where "processEcatRequest header data wkc e = Some (h, d, w, e')" "answered data wkc e (d, w, e')"
    by auto
  then show ?thesis
    using wf_same_config [OF assms(1)] by (auto simp: answered_def)
qed

section \<open>Internal logic stays in memory\<close>

lemma unat_u8: "unat (a :: u8) < 256"
  using unsigned_less [of a, where 'a = nat] by simp

lemma ucast_as_nat: "(ucast (x :: 'a::len word) :: 'b::len word) = of_nat (unat x)"
  by (simp add: word_unat_eq_iff unsigned_ucast_eq unsigned_of_nat)

lemma fmmu_bit_length_value:
  assumes "fm_length fm \<noteq> 0" and "fm_logical_start_bit fm \<le> fm_logical_stop_bit fm"
  shows "unat (fmmu_bit_length fm) = (unat (fm_length fm) - 1) * 8
    + (unat (fm_logical_stop_bit fm) - unat (fm_logical_start_bit fm) + 1)"
proof -
  let ?n = "unat (fm_length fm)" and ?a = "unat (fm_logical_start_bit fm)" and ?z = "unat (fm_logical_stop_bit fm)"
  have n: "0 < ?n" "?n < 65536" using assms(1) unat_u16 [of "fm_length fm"] by (simp_all add: unat_gt_0)
  have az: "?a \<le> ?z" "?z < 256" using assms(2) unat_u8 by (simp_all add: word_le_nat_alt)
  have "fmmu_bit_length fm = (of_nat ?n - 1) * 8 + (of_nat ?z - of_nat ?a + 1)"
    unfolding fmmu_bit_length_def by (simp only: ucast_as_nat)
  also have "\<dots> = of_nat ((?n - 1) * 8 + (?z - ?a + 1))"
    using n(1) az(1) by (simp add: of_nat_diff)
  finally have "fmmu_bit_length fm = of_nat ((?n - 1) * 8 + (?z - ?a + 1))" .
  then show ?thesis using n az by (simp only:) (rule unat_of_nat_small, simp)
qed

lemma configure_fmmu_good:
  assumes "f \<in> set (configure_fmmu e i)" and "fm_length (fmmu_at e i) \<noteq> 0"
  shows "good_fmmu f"
proof -
  let ?fm = "fmmu_at e i"
  have le: "fm_logical_start_bit ?fm \<le> fm_logical_stop_bit ?fm"
    and phys: "unat (fm_physical_address ?fm) + unat (fmmu_physical_bytes ?fm) \<le> ESC_MEMORY_SIZE"
    and f: "f = \<lparr>fu_logical_address = fm_logical_address ?fm, fu_physical = unat (fm_physical_address ?fm),
        fu_bit_length = fmmu_bit_length ?fm, fu_logical_start_bit = fm_logical_start_bit ?fm,
        fu_physical_start_bit = fm_physical_start_bit ?fm, fu_is_input = (fm_type ?fm = 1)\<rparr>"
    using assms(1) by (auto simp: configure_fmmu_def Let_def split: if_splits)
  let ?bits = "unat (fm_physical_start_bit ?fm) + unat (fmmu_bit_length ?fm) + 7"
  have small: "?bits < 600000"
    using fmmu_bit_length_value [OF assms(2) le] unat_u8 [of "fm_physical_start_bit ?fm"]
      unat_u8 [of "fm_logical_stop_bit ?fm"] unat_u16 [of "fm_length ?fm"] by linarith
  have "fmmu_physical_bytes ?fm = of_nat ?bits div 8"
    by (simp add: fmmu_physical_bytes_def)
  moreover have "unat (of_nat ?bits :: u32) = ?bits" by (rule unat_of_nat_small) (use small in simp)
  ultimately have "unat (fmmu_physical_bytes ?fm) = ?bits div 8" by (simp only: div8_of_bits)
  then show ?thesis using phys small f by (simp add: good_fmmu_def)
qed

lemma configure_sm_index: "s \<in> set (configure_sm e i) \<Longrightarrow> sy_registers s = i"
  by (auto simp: configure_sm_def Let_def split: if_splits)

definition sane_fmmus :: "emu \<Rightarrow> bool" where
  "sane_fmmus e \<longleftrightarrow> (\<forall>i < 16. fm_activate (fmmu_at e i) \<noteq> 0 \<longrightarrow> fm_length (fmmu_at e i) \<noteq> 0)"

lemma configure_fmmu_active: "f \<in> set (configure_fmmu e i) \<Longrightarrow> fm_activate (fmmu_at e i) \<noteq> 0"
  by (auto simp: configure_fmmu_def Let_def split: if_splits)

lemma configureFmmus_wf: "wf_emu e \<Longrightarrow> sane_fmmus e \<Longrightarrow> wf_emu (configureFmmus e)"
  using configure_fmmu_good configure_fmmu_active
  by (auto simp: configureFmmus_def Let_def wf_emu_def touch_watchdog_def esc_now_def sane_fmmus_def)

lemma configureSMs_wf: "wf_emu e \<Longrightarrow> wf_emu (configureSMs e)"
  using configure_sm_index by (fastforce simp: configureSMs_def wf_emu_def)

lemma esm_transition_wf: "wf_emu e \<Longrightarrow> sane_fmmus e \<Longrightarrow> wf_emu (esm_transition e)"
  by (simp add: esm_transition_def Let_def configureSMs_wf configureFmmus_wf)

lemma esm_transition_mem: "em_mem (esm_transition e) = em_mem e" "em_eeprom (esm_transition e) = em_eeprom e"
  by (simp_all add: esm_transition_def configureSMs_def configureFmmus_def touch_watchdog_def esc_now_def Let_def)

lemma wf_set_reg: "wf_emu e \<Longrightarrow> a + length d \<le> ESC_MEMORY_SIZE \<Longrightarrow> wf_emu (set_reg e a d)"
  using wf_same_config [OF _ same_config_set_reg] wf_length by auto

lemma wf_ctrl: "wf_emu e \<Longrightarrow> wf_emu (ctrl_and e m)" "wf_emu e \<Longrightarrow> wf_emu (ctrl_or e m)"
  by (simp_all add: ctrl_and_def ctrl_or_def wf_set_reg)

lemma wf_fields: "wf_emu e \<Longrightarrow> wf_emu (e\<lparr>em_eeprom := w\<rparr>)" "wf_emu e \<Longrightarrow> wf_emu (e\<lparr>em_last_write_eeprom := t\<rparr>)"
    "wf_emu e \<Longrightarrow> wf_emu (snd (elapsed s e))" "wf_emu e \<Longrightarrow> wf_emu (snd (esc_now e))"
  by (simp_all add: wf_emu_def elapsed_def esc_now_def)

lemma mirror_al_status_wf: "wf_emu e \<Longrightarrow> wf_emu (mirror_al_status e)"
  by (simp add: mirror_al_status_def wf_set_reg)

lemma loadEeprom_wf: "wf_emu e \<Longrightarrow> wf_emu (loadEeprom e)"
  by (simp add: loadEeprom_def Let_def wf_set_reg)

lemma wf_if: "wf_emu a \<Longrightarrow> wf_emu b \<Longrightarrow> wf_emu (if c then a else b)"
  by simp

lemma eeprom_write_wf: "wf_emu e \<Longrightarrow> wf_emu (eeprom_write e)"
  unfolding eeprom_write_def Let_def split_def by (intro wf_if wf_ctrl wf_fields)

lemma checkWatchdog_wf: "wf_emu e \<Longrightarrow> wf_emu (checkWatchdog e)"
  using wf_fields(4) [of e] by (auto simp: checkWatchdog_def Let_def wf_set_reg split: prod.splits)

lemma eeprom_read_total:
  assumes "unat (reg32 e 0x504) + 2 < 2 ^ 32" and "wf_emu e"
  shows "\<exists>e'. eeprom_read e = Some e' \<and> wf_emu e'"
proof -
  have "unat (reg32 e 0x504 + 2) = unat (reg32 e 0x504) + 2"
    using unat_add_small [of "reg32 e 0x504" 2] assms(1) by simp
  moreover have "length (concat (map le16 (peek (em_eeprom e) (unat (reg32 e 0x504)) 2))) \<le> 4"
    by (simp add: peek_def length_concat comp_def sum_list_triv)
  ultimately show ?thesis
    using assms(2) by (auto simp: eeprom_read_def Let_def wf_set_reg wf_ctrl)
qed

lemma mirror_eeprom_address: "wf_emu e \<Longrightarrow> reg32 (mirror_al_status e) 0x504 = reg32 e 0x504"
  using wf_length [of e] by (simp add: mirror_al_status_def reg32_def set_reg_def peek_poke_after)

text \<open>The controller's own logic after a request stays in its memory too, when no active FMMU
  register has length 0 and the EEPROM address is not one of the two highest.\<close>

theorem internal_logic_stays_in_memory:
  assumes "wf_emu e" and "sane_fmmus e" and "unat (reg32 e 0x504) + 2 < 2 ^ 32"
  shows "\<exists>e'. processInternalLogic e = Some e' \<and> wf_emu e'"
proof -
  let ?e1 = "mirror_al_status (esm_transition e)"
  have wf: "wf_emu (esm_transition e)" by (rule esm_transition_wf [OF assms(1,2)])
  have wf1: "wf_emu ?e1" by (rule mirror_al_status_wf [OF wf])
  have "reg32 ?e1 0x504 = reg32 e 0x504"
    using mirror_eeprom_address [OF wf] by (simp add: reg32_def esm_transition_mem)
  then obtain e2 where "eeprom_read ?e1 = Some e2" "wf_emu e2"
    using eeprom_read_total [OF _ wf1] assms(3) by auto
  then have "\<exists>e3. eeprom_access ?e1 = Some e3 \<and> wf_emu e3"
    using wf1 by (simp add: eeprom_access_def Let_def wf_ctrl eeprom_write_wf loadEeprom_wf)
  then show ?thesis using checkWatchdog_wf by (auto simp: processInternalLogic_def)
qed

text \<open>Concrete controllers for the examples: all clocks stand still.\<close>

definition still_clock :: esc_clock where
  "still_clock = \<lparr>ck_now = (\<lambda>_. 0), ck_now_calls = 0, ck_local = (\<lambda>_. 0), ck_local_calls = 0\<rparr>"

definition fresh_esc :: emu where
  "fresh_esc = EmulatedESC_new still_clock"

lemma set_regs_outside:
  assumes "\<forall>(a, d) \<in> set ws. a + length d \<le> length (em_mem e) \<and> (p < a \<or> a + length d \<le> p)" and "p < length (em_mem e)"
  shows "em_mem (set_regs ws e) ! p = em_mem e ! p \<and> length (em_mem (set_regs ws e)) = length (em_mem e)"
  using assms
proof (induction ws arbitrary: e)
  case (Cons w ws)
  then show ?case by (cases w) (auto simp: set_regs_def set_reg_def nth_poke)
qed (simp add: set_regs_def)

lemma set_regs_config:
  "\<forall>(a, d) \<in> set ws. a + length d \<le> length (em_mem e) \<Longrightarrow> same_config e (set_regs ws e)"
proof (induction ws arbitrary: e)
  case (Cons w ws)
  obtain a d where w: "w = (a, d)" by (cases w)
  have c: "same_config e (set_reg e a d)" by (rule same_config_set_reg) (use Cons.prems w in simp)
  moreover have "same_config (set_reg e a d) (set_regs ws (set_reg e a d))"
    by (rule Cons.IH) (use c Cons.prems in \<open>auto simp: same_config_def\<close>)
  ultimately show ?case using w by (auto simp: set_regs_def intro: same_config_trans)
qed (simp add: set_regs_def)

lemma power_on_config:
  "em_mem (power_on ck) = replicate ESC_MEMORY_SIZE 0" "em_syncs (power_on ck) = []" "em_fmmus (power_on ck) = []"
  "em_eeprom (power_on ck) = []" "\<not> em_has_output_fmmu (power_on ck)"
  by (simp_all only: power_on_def esc_now_def Let_def prod.case emu.simps not_False_eq_True)

lemma new_esc_steps:
  fixes ck :: esc_clock
  obtains e2 where "EmulatedESC_new ck = set_regs ESC_RESET_VALUES e2" "same_config (power_on ck) e2"
    "\<And>a. 0x503 < a \<Longrightarrow> a < 0x800 \<Longrightarrow> em_mem e2 ! a = 0" "length (em_mem e2) = ESC_MEMORY_SIZE"
proof
  let ?e = "power_on ck" and ?e1 = "set_regs ESC_CONSTANTS (power_on ck)"
  let ?e2 = "set_reg ?e1 0x502 (le16 (reg16 ?e1 0x502 AND NOT 0x8000))"
  have len: "length (em_mem ?e) = ESC_MEMORY_SIZE" by (simp only: power_on_config length_replicate)
  have c1: "same_config ?e ?e1" by (rule set_regs_config) (simp add: len ESC_CONSTANTS_def)
  have len1: "length (em_mem ?e1) = ESC_MEMORY_SIZE" using c1 len by (simp only: same_config_def)
  have c2: "same_config ?e1 ?e2" by (rule same_config_set_reg) (simp add: len1)
  show "EmulatedESC_new ck = set_regs ESC_RESET_VALUES ?e2" by (simp only: EmulatedESC_new_def Let_def)
  show "same_config ?e ?e2" by (rule same_config_trans [OF c1 c2])
  show "length (em_mem ?e2) = ESC_MEMORY_SIZE" using c2 len1 by (simp only: same_config_def)
  show "em_mem ?e2 ! a = 0" if "0x503 < a" "a < 0x800" for a
  proof -
    have "em_mem ?e1 ! a = em_mem ?e ! a \<and> length (em_mem ?e1) = length (em_mem ?e)"
      by (rule set_regs_outside) (use that in \<open>simp_all add: len ESC_CONSTANTS_def\<close>)
    moreover have "em_mem ?e ! a = 0" using that by (simp only: power_on_config nth_replicate)
    ultimately show ?thesis using that len1 by (simp add: set_reg_def nth_poke)
  qed
qed

lemma new_esc_config:
  "length (em_mem (EmulatedESC_new ck)) = ESC_MEMORY_SIZE" "em_syncs (EmulatedESC_new ck) = []"
  "em_fmmus (EmulatedESC_new ck) = []" "em_eeprom (EmulatedESC_new ck) = []" "\<not> em_has_output_fmmu (EmulatedESC_new ck)"
proof -
  obtain e2 where e2: "EmulatedESC_new ck = set_regs ESC_RESET_VALUES e2" "same_config (power_on ck) e2"
      "length (em_mem e2) = ESC_MEMORY_SIZE" by (rule new_esc_steps)
  have "same_config e2 (EmulatedESC_new ck)"
    unfolding e2(1) by (rule set_regs_config) (simp add: e2(3) ESC_RESET_VALUES_def)
  with same_config_trans [OF e2(2)] have c: "same_config (power_on ck) (EmulatedESC_new ck)" .
  then show "length (em_mem (EmulatedESC_new ck)) = ESC_MEMORY_SIZE" "em_syncs (EmulatedESC_new ck) = []"
    "em_fmmus (EmulatedESC_new ck) = []" "em_eeprom (EmulatedESC_new ck) = []" "\<not> em_has_output_fmmu (EmulatedESC_new ck)"
    by (simp_all only: same_config_def power_on_config length_replicate not_False_eq_True)
qed

lemma new_esc_wf: "wf_emu (EmulatedESC_new ck)"
  by (simp add: wf_emu_def new_esc_config)

lemma new_esc_zero:
  assumes "0x503 < a" and "a < 0x800"
  shows "em_mem (EmulatedESC_new ck) ! a = 0"
proof -
  obtain e2 where e2: "EmulatedESC_new ck = set_regs ESC_RESET_VALUES e2" "em_mem e2 ! a = 0"
      "length (em_mem e2) = ESC_MEMORY_SIZE" using new_esc_steps [of ck] assms by metis
  have "em_mem (EmulatedESC_new ck) ! a = em_mem e2 ! a \<and> length (em_mem (EmulatedESC_new ck)) = length (em_mem e2)"
    unfolding e2(1) by (rule set_regs_outside) (use assms e2(3) in \<open>simp_all add: ESC_RESET_VALUES_def\<close>)
  then show ?thesis using e2(2) by simp
qed

lemma zeros_peek: "a + n \<le> length b \<Longrightarrow> (\<And>i. a \<le> i \<Longrightarrow> i < a + n \<Longrightarrow> b ! i = 0) \<Longrightarrow> peek b a n = replicate n 0"
  by (rule nth_equalityI) (simp_all add: peek_def)

lemma new_esc_peek: "0x503 < a \<Longrightarrow> a + n \<le> 0x800 \<Longrightarrow> peek (em_mem (EmulatedESC_new ck)) a n = replicate n 0"
  by (rule zeros_peek) (simp_all add: new_esc_config new_esc_zero)

lemma fresh_sane: "sane_fmmus (EmulatedESC_new ck)"
  by (simp add: sane_fmmus_def fmmu_at_def new_esc_peek dec_fmmu_register_def)

theorem internal_logic_stays_in_memory_witness:
  "\<exists>e'. processInternalLogic fresh_esc = Some e' \<and> wf_emu e'"
proof -
  have "reg32 (EmulatedESC_new still_clock) 0x504 = from_le [0, 0, 0, 0]"
    by (simp add: reg32_def new_esc_peek numeral_eq_Suc)
  then have "unat (reg32 (EmulatedESC_new still_clock) 0x504) + 2 < 2 ^ 32" by (simp add: from_le_def)
  from internal_logic_stays_in_memory [OF new_esc_wf fresh_sane this] show ?thesis by (simp add: fresh_esc_def)
qed

section \<open>Runs of a controller\<close>

text \<open>
  What can happen to a controller, in any order: the EEPROM is loaded, the master's requests arrive, the slave reads and
  writes through the process data interface, and the internal logic runs. The logic runs under a proviso, without which it
  can take over an FMMU that leaves the memory or read outside the EEPROM (shown below): no active FMMU register has length
  0, and the EEPROM address is not one of the two highest.
\<close>

inductive esc_run :: "emu \<Rightarrow> bool" where
  New: "esc_run (EmulatedESC_new ck)"
| Load: "esc_run e \<Longrightarrow> esc_run (loadEeprom_words ws e)"
| Request: "esc_run e \<Longrightarrow> length data = unat (dg_len header) \<Longrightarrow> length data \<le> MAX_ETHERCAT_PAYLOAD_SIZE \<Longrightarrow>
    processEcatRequest header data wkc e = Some (header', data', wkc', e') \<Longrightarrow> esc_run e'"
| Read: "esc_run e \<Longrightarrow> emu_read address data e = (r, data', e') \<Longrightarrow> esc_run e'"
| Write: "esc_run e \<Longrightarrow> emu_write address data e = (r, e') \<Longrightarrow> esc_run e'"
| Logic: "esc_run e \<Longrightarrow> sane_fmmus e \<Longrightarrow> unat (reg32 e 0x504) + 2 < 2 ^ 32 \<Longrightarrow>
    processInternalLogic e = Some e' \<Longrightarrow> esc_run e'"

lemma esc_run_wf: "esc_run e \<Longrightarrow> wf_emu e"
proof (induction rule: esc_run.induct)
  case (Load e ws)
  then show ?case by (simp add: loadEeprom_words_def loadEeprom_wf wf_fields)
next
  case (Request e data header wkc header' data' wkc' e')
  then show ?case using request_answered [of e data header wkc] by auto
next
  case (Read e address data r data' e')
  then show ?case using access_config [of e address data PDI_READ] wf_same_config by (auto simp: emu_read_def)
next
  case (Write e address data r e')
  then show ?case using access_config [of e address data PDI_WRITE] wf_same_config by (auto simp: emu_write_def split: prod.splits)
next
  case (Logic e e')
  then show ?case using internal_logic_stays_in_memory [of e] by auto
qed (rule new_esc_wf)

text \<open>(C24) In every such run each request of at most 1486 bytes is answered without leaving the controller's memory, the payload
  or the local arrays: it is answered, the payload keeps its length, the working counter grows by at most three, and
  the controller is again one of a run; and the internal logic after it ends in the memory too, under the proviso of runs.\<close>

theorem request_stays_in_memory:
  assumes "esc_run e" and "length data = unat (dg_len header)" and "length data \<le> MAX_ETHERCAT_PAYLOAD_SIZE"
  shows "\<exists>header' data' wkc' e'. processEcatRequest header data wkc e = Some (header', data', wkc', e')
    \<and> esc_run e' \<and> length (em_mem e') = ESC_MEMORY_SIZE \<and> length data' = length data \<and> wkc' - wkc \<in> {0, 1, 2, 3}
    \<and> (sane_fmmus e' \<and> unat (reg32 e' 0x504) + 2 < 2 ^ 32 \<longrightarrow> (\<exists>e''. processInternalLogic e' = Some e'' \<and> esc_run e''))"
proof -
  obtain h d w e' where r: "processEcatRequest header data wkc e = Some (h, d, w, e')"
      "length d = length data" "w - wkc \<in> {0, 1, 2, 3}"
    using request_answered [OF esc_run_wf [OF assms(1)] assms(2,3)] by blast
  have run: "esc_run e'" by (rule esc_run.Request [OF assms r(1)])
  have "\<exists>e''. processInternalLogic e' = Some e'' \<and> esc_run e''" if ok: "sane_fmmus e'" "unat (reg32 e' 0x504) + 2 < 2 ^ 32"
    using internal_logic_stays_in_memory [OF esc_run_wf [OF run] ok] esc_run.Logic [OF run ok] by blast
  with r run wf_length [OF esc_run_wf [OF run]] show ?thesis by blast
qed

theorem request_stays_in_memory_witness:
  "\<exists>header' data' wkc' e'. processEcatRequest
      \<lparr>dg_command = 7, dg_index = 0, dg_address = 0x01300000, dg_len = 2, dg_reserved = 0, dg_circulating = 0,
       dg_multiple = 0, dg_irq = 0\<rparr> [0, 0] 0 fresh_esc = Some (header', data', wkc', e') \<and> esc_run e' \<and> length data' = 2"
  using request_stays_in_memory [OF esc_run.New, of "[0, 0]"
      "\<lparr>dg_command = 7, dg_index = 0, dg_address = 0x01300000, dg_len = 2, dg_reserved = 0, dg_circulating = 0,
       dg_multiple = 0, dg_irq = 0\<rparr>" 0 still_clock]
  by (auto simp: fresh_esc_def)

text \<open>What an access may do: nothing when it is refused; otherwise it copies as many bytes as it returns, between the caller's
  buffer and the memory at the address, all inside both, and at most changes a mailbox flag in the status of a sync manager.\<close>

definition flagged :: "emu \<Rightarrow> emu \<Rightarrow> bool" where
  "flagged e e' \<longleftrightarrow> e' = e \<or> (\<exists>s \<in> set (em_syncs e). let st = sm_status_at (sy_registers s)
     in e' = set_reg e st [reg8 e st AND NOT SM_STATUS_MAILBOX] \<or> e' = set_reg e st [reg8 e st OR SM_STATUS_MAILBOX])"

definition copied :: "u16 \<Rightarrow> bytes \<Rightarrow> esc_access \<Rightarrow> emu \<Rightarrow> int \<times> bytes \<times> emu \<Rightarrow> bool" where
  "copied address buffer access e = (\<lambda>(r, buffer', e').
     if r < 0 then buffer' = buffer \<and> e' = e
     else if access = PDI_READ \<or> access = ECAT_READ
     then nat r \<le> length buffer \<and> (\<exists>bytes. mem_read (em_mem e) (unat address) (nat r) = Some bytes
       \<and> buffer' = bytes @ drop (nat r) buffer \<and> flagged e e')
     else nat r \<le> length buffer \<and> buffer' = buffer \<and> (\<exists>mem. mem_write (em_mem e) (unat address) (take (nat r) buffer) = Some mem
       \<and> flagged (e\<lparr>em_mem := mem\<rparr>) e'))"

lemma copied_out:
  assumes "n \<le> length buffer" and "unat address + n \<le> length (em_mem e)" and "access = PDI_READ \<or> access = ECAT_READ" and "flagged e e'"
  shows "copied address buffer access e (int n, copy_out address n buffer e, e')"
  using assms by (auto simp: copied_def copy_out_def mem_read_def poke_def)

lemma copied_in:
  assumes "n \<le> length buffer" and "unat address + n \<le> length (em_mem e)" and "\<not> (access = PDI_READ \<or> access = ECAT_READ)"
    and "flagged (copy_in address n buffer e) e'"
  shows "copied address buffer access e (int n, buffer, e')"
  using assms by (auto simp: copied_def copy_in_def mem_write_def set_reg_def)

lemma copied_refused: "0 < c \<Longrightarrow> copied address buffer access e (- c, buffer, e)"
  by (simp add: copied_def)

lemma copy_in_syncs: "em_syncs (copy_in address n buffer e) = em_syncs e"
  by (simp add: copy_in_def set_reg_def)

lemma sm_access_copied:
  assumes "n \<le> length buffer" and "unat address + n \<le> length (em_mem e)"
  shows "sm_access address buffer access n e syncs = Some x \<Longrightarrow> set syncs \<subseteq> set (em_syncs e) \<Longrightarrow> copied address buffer access e x"
proof (induction syncs)
  case (Cons s syncs)
  let ?st = "sm_status_at (sy_registers s)"
  have flag: "flagged e2 (set_reg e2 ?st [reg8 e2 ?st AND NOT SM_STATUS_MAILBOX])" "flagged e2 (set_reg e2 ?st [reg8 e2 ?st OR SM_STATUS_MAILBOX])"
      "flagged e2 e2" if "em_syncs e2 = em_syncs e" for e2
    using that Cons.prems(2) by (auto simp: flagged_def Let_def)
  have out: "copied address buffer access e (int n, copy_out address n buffer e, set_reg e ?st [reg8 e ?st AND NOT SM_STATUS_MAILBOX])"
      "copied address buffer access e (int n, copy_out address n buffer e, e)" if "access = PDI_READ \<or> access = ECAT_READ"
    using that copied_out [OF assms _ flag(1) [OF refl]] copied_out [OF assms _ flag(3) [OF refl]] by blast+
  have inn: "copied address buffer access e (int n, buffer, set_reg (copy_in address n buffer e) ?st [reg8 (copy_in address n buffer e) ?st OR SM_STATUS_MAILBOX])"
      "copied address buffer access e (int n, buffer, copy_in address n buffer e)" if "\<not> (access = PDI_READ \<or> access = ECAT_READ)"
    using that copied_in [OF assms _ flag(2) [OF copy_in_syncs]] copied_in [OF assms _ flag(3) [OF copy_in_syncs]] by blast+
  have refused: "copied address buffer access e (- EAGAIN, buffer, e)" by (simp add: copied_refused)
  show ?case
  proof (cases "access_code access AND sy_access s = 0 \<or> unat address < unat (sy_address s)
      \<or> unat address + n > unat (sy_address s) + unat (sy_size s)")
    case True
    then show ?thesis using Cons by (simp add: Let_def split: if_splits)
  next
    case False
    then show ?thesis
      using Cons.prems(1) out inn refused
      by (cases "access = PDI_READ \<or> access = ECAT_READ") (auto simp: Let_def split: if_splits)
  qed
qed simp

text \<open>(C25) Every access to the memory of a controller, by the master or by the slave, at any address and of any length, is
  either refused, and then changes nothing, or copies exactly the bytes it reports, inside the memory and the caller's
  buffer; besides them it changes at most one mailbox flag.\<close>

theorem memory_access_in_bounds:
  assumes "esc_run e"
  shows "copied address buffer access e (computeInternalMemoryAccess address buffer access e)"
proof -
  have len: "length (em_mem e) = ESC_MEMORY_SIZE" using esc_run_wf [OF assms] by (rule wf_length)
  define n where "n = min (length buffer) ((if unat address \<ge> 0x1000 then 0xFFFF else 0x1000) - unat address)"
  have n: "n \<le> length buffer" "unat address + n \<le> length (em_mem e)"
    using unat_u16 [of address] len by (auto simp: n_def)
  have plain: "flagged e2 e2" for e2 by (simp add: flagged_def)
  show ?thesis
  proof (cases "unat address \<ge> 0x1000")
    case True
    then have nd: "n = min (length buffer) (0xFFFF - unat address)" by (simp add: n_def)
    show ?thesis
    proof (cases "sm_access address buffer access n e (em_syncs e)")
      case None
      then show ?thesis
        using True copied_out [OF n _ plain] copied_in [OF n _ plain] copied_refused [of 13 address buffer access e]
        by (auto simp: computeInternalMemoryAccess_def nd [symmetric] Let_def)
    next
      case (Some x)
      then show ?thesis
        using True sm_access_copied [OF n Some] by (simp add: computeInternalMemoryAccess_def nd [symmetric])
    qed
  next
    case False
    then have "n = min (length buffer) (0x1000 - unat address)" by (simp add: n_def)
    then show ?thesis
      using False copied_out [OF n _ plain] copied_in [OF n _ plain]
      by (cases access) (simp_all add: computeInternalMemoryAccess_def Let_def)
  qed
qed

theorem memory_access_in_bounds_witness:
  "copied 0xFFFF [1, 2, 3] ECAT_WRITE fresh_esc (computeInternalMemoryAccess 0xFFFF [1, 2, 3] ECAT_WRITE fresh_esc)
    \<and> copied 0x0FFE [1, 2, 3] ECAT_READ fresh_esc (computeInternalMemoryAccess 0x0FFE [1, 2, 3] ECAT_READ fresh_esc)"
  using memory_access_in_bounds [OF esc_run.New [of still_clock]] by (simp add: fresh_esc_def)

section \<open>Two ways out of the memory\<close>

lemma for_upto_none:
  assumes "\<And>s. I s \<Longrightarrow> body k s = None" and "\<And>b s s'. I s \<Longrightarrow> body b s = Some s' \<Longrightarrow> I s'" and "I s" and "k < n"
  shows "for_upto body n s = None"
proof -
  have inv: "for_upto body m s = Some s' \<Longrightarrow> I s'" for m s'
    by (induction m arbitrary: s') (use assms(2,3) in \<open>auto simp: bind_eq_Some_conv\<close>)
  show ?thesis
    using assms(4)
  proof (induction n)
    case (Suc n)
    show ?case
    proof (cases "k = n")
      case True
      then show ?thesis using assms(1) inv [of n] by (cases "for_upto body n s") auto
    qed (use Suc in simp)
  qed simp
qed

lemma fmmu_bit_keeps_length:
  "fmmu_bit f read start stop b s = Some s' \<Longrightarrow> length (snd (snd s')) = length (snd (snd s))"
  by (auto simp: fmmu_bit_def Let_def split: prod.splits if_splits)

text \<open>An active FMMU register of length 0 with one logical bit passes the bounds check of
  \<open>configureFmmus\<close>, because the 32-bit span wraps around, and a later logical read beyond its address
  leaves the controller's memory.\<close>

theorem zero_length_fmmu_escapes:
  assumes fm: "fm_activate (fmmu_at e i) \<noteq> 0" "fm_type (fmmu_at e i) = 1" "fm_length (fmmu_at e i) = 0"
      "fm_logical_start_bit (fmmu_at e i) = 0" "fm_logical_stop_bit (fmmu_at e i) = 0"
      "fm_physical_start_bit (fmmu_at e i) = 0"
    and hdr: "dg_address header = fm_logical_address (fmmu_at e i) + 70000" "0 < dg_len header"
      "unat (fm_logical_address (fmmu_at e i)) + 70000 + unat (dg_len header) < 2 ^ 32"
    and mem: "length (em_mem e') = ESC_MEMORY_SIZE"
  shows "\<exists>f. configure_fmmu e i = [f] \<and> copyFmmu f True header frame e' = None"
proof -
  let ?fm = "fmmu_at e i"
  define f where "f = \<lparr>fu_logical_address = fm_logical_address ?fm, fu_physical = unat (fm_physical_address ?fm),
    fu_bit_length = 0xFFFFFFF9, fu_logical_start_bit = 0, fu_physical_start_bit = 0, fu_is_input = True\<rparr>"
  have bits: "fmmu_bit_length ?fm = 0xFFFFFFF9" using fm by (simp add: fmmu_bit_length_def)
  have "fmmu_physical_bytes ?fm = 0" using fm by (simp add: fmmu_physical_bytes_def bits)
  then have conf: "configure_fmmu e i = [f]"
    using fm bits unat_u16 [of "fm_physical_address ?fm"] by (simp add: configure_fmmu_def Let_def f_def)
  let ?start = "dg_address header" and ?stop = "dg_address header + ucast (dg_len header)"
  have start: "unat ?start = unat (fm_logical_address ?fm) + 70000"
    using unat_add_small [of "fm_logical_address ?fm" 70000] hdr by simp
  have stop: "unat ?stop = unat ?start + unat (dg_len header)"
    using unat_add_small [of ?start "ucast (dg_len header)"] hdr(3) start by (simp add: unat_dg_len)
  have inside: "?start < ?stop" using stop hdr(2) by (simp add: word_less_nat_alt)
  have escape: "fmmu_bit f True ?start ?stop 560000 s = None" if "length (snd (snd s)) = ESC_MEMORY_SIZE" for s
  proof -
    have "fu_logical_address f + (560000 :: u32) div 8 = ?start" using hdr(1) by (simp add: f_def)
    then show ?thesis using that inside by (cases s) (simp add: fmmu_bit_def f_def Let_def)
  qed
  have "for_upto (fmmu_bit f True ?start ?stop) (unat (fu_bit_length f)) (False, frame, em_mem e') = None"
    by (rule for_upto_none [where I = "\<lambda>s. length (snd (snd s)) = ESC_MEMORY_SIZE" and k = 560000])
       (use escape fmmu_bit_keeps_length mem in \<open>auto simp: f_def\<close>)
  then have "copyFmmu f True header frame e' = None"
    by (simp add: copyFmmu_def copyFmmu_bits_def Let_def f_def)
  with conf show ?thesis by blast
qed

definition bad_fmmu :: fmmu_register where
  "bad_fmmu = \<lparr>fm_logical_address = 0x1000, fm_length = 0, fm_logical_start_bit = 0, fm_logical_stop_bit = 0,
     fm_physical_address = 0x1000, fm_physical_start_bit = 0, fm_type = 1, fm_activate = 1,
     fm_reserved0 = 0, fm_reserved1 = 0, fm_reserved2 = 0\<rparr>"

lemma bad_fmmu_at: "fmmu_at (set_reg fresh_esc 0x600 (enc_fmmu_register bad_fmmu)) 0 = bad_fmmu"
  by (simp add: fmmu_at_def set_reg_def fresh_esc_def new_esc_config fm.length_enc fm.dec_enc)

theorem zero_length_fmmu_escapes_witness:
  "\<exists>f. configure_fmmu (set_reg fresh_esc 0x600 (enc_fmmu_register bad_fmmu)) 0 = [f]
    \<and> copyFmmu f True \<lparr>dg_command = 10, dg_index = 0, dg_address = 74096, dg_len = 1, dg_reserved = 0,
      dg_circulating = 0, dg_multiple = 0, dg_irq = 0\<rparr> [0] fresh_esc = None"
  by (rule zero_length_fmmu_escapes)
     (simp_all add: bad_fmmu_at, simp_all add: bad_fmmu_def fresh_esc_def new_esc_config)

text \<open>An EEPROM read at one of the two highest word addresses passes the size check, which adds 2
  in 32 bits, and leaves the EEPROM image.\<close>

theorem eeprom_read_escapes:
  assumes "reg32 e 0x504 = 0xFFFFFFFE \<or> reg32 e 0x504 = 0xFFFFFFFF" and "em_eeprom e \<noteq> []"
    and "length (em_eeprom e) < 2 ^ 32"
  shows "eeprom_read e = None"
  using assms by (auto simp: eeprom_read_def Let_def mem_read_def Suc_le_eq)

theorem eeprom_read_escapes_witness:
  "eeprom_read (set_reg (fresh_esc\<lparr>em_eeprom := [0]\<rparr>) 0x504 (le32 0xFFFFFFFE)) = None"
proof -
  have "reg32 (set_reg (fresh_esc\<lparr>em_eeprom := [0]\<rparr>) 0x504 (le32 0xFFFFFFFE)) 0x504 = 0xFFFFFFFE"
    by (simp add: reg32_def set_reg_def fresh_esc_def new_esc_config)
  then show ?thesis using eeprom_read_escapes by (simp add: set_reg_def)
qed

end
