(* ===== verification/EscBehaviour.thy ===== *)
theory EscBehaviour
  imports EmuESC
begin

text \<open>
  What the emulated slave controller does with a request: the bits an FMMU moves between the
  frame and the memory, the mailbox handshake of a sync manager, the process-data watchdog and
  the working counter.
\<close>

section \<open>Bits moved by an FMMU\<close>

text \<open>
  Bit \<open>k\<close> of a byte sequence counts from the least significant bit of its first byte. An FMMU
  maps \<open>fu_bit_length\<close> bits from the logical bit address \<open>lbase\<close> to the physical one \<open>pbase\<close>.
\<close>

definition bit_at :: "bytes \<Rightarrow> nat \<Rightarrow> bool" where
  "bit_at bs k = bit (bs ! (k div 8)) (k mod 8)"

definition lbase :: "esc_fmmu \<Rightarrow> nat" where
  "lbase f = 8 * unat (fu_logical_address f) + unat (fu_logical_start_bit f)"

definition pbase :: "esc_fmmu \<Rightarrow> nat" where
  "pbase f = 8 * fu_physical f + unat (fu_physical_start_bit f)"

definition nbits :: "esc_fmmu \<Rightarrow> nat" where
  "nbits f = unat (fu_bit_length f)"

text \<open>Neither the FMMU nor the datagram runs past the end of the logical address space.\<close>

definition no_wrap :: "esc_fmmu \<Rightarrow> nat \<Rightarrow> nat \<Rightarrow> bool" where
  "no_wrap f start len \<longleftrightarrow> lbase f + nbits f + 7 < 8 * 2 ^ 32 \<and> start + len < 2 ^ 32"

lemma bit_at_update:
  assumes "i < length bs" and "doff < 8"
  shows "bit_at (bs[i := copy_bit src soff (bs ! i) doff]) k =
    (if k = 8 * i + doff then bit src soff else bit_at bs k)"
proof (cases "k div 8 = i")
  case True
  have b: "bit (copy_bit src soff (bs ! i) doff) m = (if m = doff then bit src soff else bit (bs ! i) m)" if "m < 8" for m
    using that assms(2) unfolding copy_bit_def Let_def
    by (auto simp: bit_or_iff bit_and_iff bit_not_iff bit_push_bit_iff bit_drop_bit_eq bit_1_iff bit_exp_iff)
  have "k = 8 * i + k mod 8" using True by (metis div_mult_mod_eq mult.commute)
  then show ?thesis using True b [of "k mod 8"] assms(1) by (auto simp: bit_at_def)
next
  case False
  then have "k \<noteq> 8 * i + doff" using assms(2) by auto
  with False show ?thesis by (simp add: bit_at_def)
qed

lemma good_fmmu_small: "good_fmmu f \<Longrightarrow> unat (fu_bit_length f) \<le> 524288"
  unfolding good_fmmu_def by linarith

lemma div8_bounds: "(l div 8 < (s :: nat)) = (l < 8 * s)" "(s \<le> l div 8) = (8 * s \<le> l)"
  by (simp_all add: div_less_iff_less_mult less_eq_div_iff_mult_less_eq mult.commute)

lemma bit_position:
  fixes l s :: nat
  assumes "8 * s \<le> l"
  shows "8 * ((l - 8 * s) div 8) + l mod 8 = l - 8 * s"
proof -
  obtain k where "l = 8 * s + k" using assms le_Suc_ex by blast
  then show ?thesis by simp
qed

text \<open>One turn of the loop in bit addresses.\<close>

lemma fmmu_bit_addresses:
  assumes f: "good_fmmu f" and b: "b < nbits f" and nw: "no_wrap f (unat start) (unat len)"
    and fr: "length frame = unat len" and mem: "length mem = ESC_MEMORY_SIZE"
  defines "l \<equiv> lbase f + b" and "p \<equiv> pbase f + b"
  defines "i \<equiv> (l - 8 * unat start) div 8"
  shows "fmmu_bit f read start (start + len) b (hit, frame, mem) =
    (if l < 8 * unat start \<or> 8 * (unat start + unat len) \<le> l then Some (hit, frame, mem)
     else if read then Some (True, frame[i := copy_bit (mem ! (p div 8)) (p mod 8) (frame ! i) (l mod 8)], mem)
     else Some (True, frame, mem[p div 8 := copy_bit (frame ! i) (l mod 8) (mem ! (p div 8)) (p mod 8)]))"
proof -
  let ?lb = "ucast (fu_logical_start_bit f) + of_nat b :: u32"
  let ?pb = "ucast (fu_physical_start_bit f) + of_nat b :: u32"
  have bn: "b < unat (fu_bit_length f)" using b by (simp add: nbits_def)
  have b32: "unat (of_nat b :: u32) = b"
    by (rule unat_of_nat_small) (use f bn in \<open>simp add: good_fmmu_def\<close>)
  have lb: "unat ?lb = unat (fu_logical_start_bit f) + b"
  proof -
    have "unat (ucast (fu_logical_start_bit f) :: u32) + unat (of_nat b :: u32) < 2 ^ 32"
      using good_fmmu_small [OF f] bn b32 unat_u8 [of "fu_logical_start_bit f"] by (simp add: unat_ucast_u8)
    then show ?thesis using unat_add_small [of "ucast (fu_logical_start_bit f) :: u32" "of_nat b"] b32
      by (simp add: unat_ucast_u8)
  qed
  note pb = physical_bit_value [OF f bn]
  have lbyte: "unat (fu_logical_address f + ?lb div 8) = l div 8"
  proof -
    have "unat (fu_logical_address f) + unat (?lb div 8) < 2 ^ 32"
      using nw b by (simp add: div8_of_bits lb no_wrap_def lbase_def nbits_def) linarith
    then have "unat (fu_logical_address f + ?lb div 8) = unat (fu_logical_address f) + unat (?lb div 8)"
      using unat_add_small [of "fu_logical_address f" "?lb div 8"] by simp
    then show ?thesis by (simp add: div8_of_bits lb l_def lbase_def)
  qed
  have stop: "unat (start + len) = unat start + unat len"
    using unat_add_small [of start len] nw by (simp add: no_wrap_def)
  have pbyte: "fu_physical f + unat (?pb div 8) = p div 8" by (simp add: div8_of_bits pb p_def pbase_def)
  have offs: "unat (?lb mod 8) = l mod 8" "unat (?pb mod 8) = p mod 8"
    by (simp_all add: div8_of_bits lb pb l_def p_def lbase_def pbase_def add.assoc)
  have out: "fu_logical_address f + ?lb div 8 < start \<or> start + len \<le> fu_logical_address f + ?lb div 8 \<longleftrightarrow>
      l < 8 * unat start \<or> 8 * (unat start + unat len) \<le> l"
    unfolding word_less_nat_alt word_le_nat_alt lbyte stop by (simp only: div8_bounds)
  have fbyte: "unat (fu_logical_address f + ?lb div 8 - start) = i \<and> i < length frame"
    if "\<not> (l < 8 * unat start \<or> 8 * (unat start + unat len) \<le> l)"
  proof -
    have "start \<le> fu_logical_address f + ?lb div 8" using that lbyte by (simp add: word_le_nat_alt div8_bounds not_less)
    then have "unat (fu_logical_address f + ?lb div 8 - start) = l div 8 - unat start"
      by (simp only: unat_diff lbyte)
    then show ?thesis using that fr by (simp add: i_def) linarith
  qed
  have inmem: "p div 8 < length mem" using physical_byte_bound [OF f bn] pbyte mem by simp
  show ?thesis
    using out fbyte inmem by (simp add: fmmu_bit_def pbyte offs Let_def)
qed

definition moved :: "esc_fmmu \<Rightarrow> nat \<Rightarrow> nat \<Rightarrow> nat \<Rightarrow> bool" where
  "moved f start len n \<longleftrightarrow> (\<exists>b < n. 8 * start \<le> lbase f + b \<and> lbase f + b < 8 * (start + len))"

lemma moved_Suc: "moved f start len (Suc n) \<longleftrightarrow>
    moved f start len n \<or> (8 * start \<le> lbase f + n \<and> lbase f + n < 8 * (start + len))"
  by (auto simp: moved_def less_Suc_eq)

text \<open>The frame after reading the first \<open>n\<close> bits of an FMMU, and the memory after writing them.\<close>

definition read_upto :: "esc_fmmu \<Rightarrow> nat \<Rightarrow> bytes \<Rightarrow> bytes \<Rightarrow> nat \<Rightarrow> bytes \<Rightarrow> bool" where
  "read_upto f start frame mem n frame' \<longleftrightarrow> length frame' = length frame \<and>
     (\<forall>k < 8 * length frame. bit_at frame' k =
        (if lbase f \<le> 8 * start + k \<and> 8 * start + k < lbase f + n
         then bit_at mem (pbase f + (8 * start + k - lbase f)) else bit_at frame k))"

definition write_upto :: "esc_fmmu \<Rightarrow> nat \<Rightarrow> bytes \<Rightarrow> bytes \<Rightarrow> nat \<Rightarrow> bytes \<Rightarrow> bool" where
  "write_upto f start frame mem n mem' \<longleftrightarrow> length mem' = length mem \<and>
     (\<forall>p < 8 * length mem. bit_at mem' p =
        (if pbase f \<le> p \<and> p < pbase f + n \<and> 8 * start \<le> lbase f + (p - pbase f)
            \<and> lbase f + (p - pbase f) < 8 * (start + length frame)
         then bit_at frame (lbase f + (p - pbase f) - 8 * start) else bit_at mem p))"

lemma bit_loop_reads:
  assumes f: "good_fmmu f" and nw: "no_wrap f (unat start) (unat len)"
    and fr: "length frame = unat len" and mem: "length mem = ESC_MEMORY_SIZE"
  shows "n \<le> nbits f \<Longrightarrow> \<exists>frame'. for_upto (fmmu_bit f True start (start + len)) n (False, frame, mem) =
      Some (moved f (unat start) (unat len) n, frame', mem) \<and> read_upto f (unat start) frame mem n frame'"
proof (induction n)
  case 0
  show ?case by (rule exI [of _ frame]) (auto simp: moved_def read_upto_def)
next
  case (Suc n)
  then obtain fr1 where one: "for_upto (fmmu_bit f True start (start + len)) n (False, frame, mem) =
      Some (moved f (unat start) (unat len) n, fr1, mem)" "read_upto f (unat start) frame mem n fr1" by auto
  let ?l = "lbase f + n" and ?p = "pbase f + n"
  let ?i = "(?l - 8 * unat start) div 8"
  have fr1: "length fr1 = unat len" using one(2) fr by (simp add: read_upto_def)
  note step = fmmu_bit_addresses [OF f _ nw fr1 mem, of n True "moved f (unat start) (unat len) n"]
  show ?case
  proof (cases "?l < 8 * unat start \<or> 8 * (unat start + unat len) \<le> ?l")
    case True
    then have "read_upto f (unat start) frame mem (Suc n) fr1"
      using one(2) fr by (auto simp: read_upto_def less_Suc_eq)
    moreover have "moved f (unat start) (unat len) (Suc n) = moved f (unat start) (unat len) n"
      using True by (auto simp: moved_Suc)
    ultimately show ?thesis using one(1) step Suc.prems True by auto
  next
    case False
    let ?fr2 = "fr1[?i := copy_bit (mem ! (?p div 8)) (?p mod 8) (fr1 ! ?i) (?l mod 8)]"
    have i: "?i < length fr1" "8 * ?i + ?l mod 8 = ?l - 8 * unat start"
      using False fr1 bit_position [of "unat start" ?l] by (simp_all add: div8_bounds not_less not_le) linarith
    have "bit_at ?fr2 k = (if k = ?l - 8 * unat start then bit_at mem ?p else bit_at fr1 k)" for k
      using bit_at_update [OF i(1), of "?l mod 8" "mem ! (?p div 8)" "?p mod 8" k] i(2) by (simp add: bit_at_def)
    then have "read_upto f (unat start) frame mem (Suc n) ?fr2"
      using one(2) False by (auto simp: read_upto_def less_Suc_eq)
    moreover have "moved f (unat start) (unat len) (Suc n)" using False by (auto simp: moved_Suc)
    ultimately show ?thesis using one(1) step Suc.prems False by auto
  qed
qed

lemma bit_loop_writes:
  assumes f: "good_fmmu f" and nw: "no_wrap f (unat start) (unat len)"
    and fr: "length frame = unat len" and mem: "length mem = ESC_MEMORY_SIZE"
  shows "n \<le> nbits f \<Longrightarrow> \<exists>mem'. for_upto (fmmu_bit f False start (start + len)) n (False, frame, mem) =
      Some (moved f (unat start) (unat len) n, frame, mem') \<and> write_upto f (unat start) frame mem n mem'"
proof (induction n)
  case 0
  show ?case by (rule exI [of _ mem]) (auto simp: moved_def write_upto_def)
next
  case (Suc n)
  then obtain m1 where one: "for_upto (fmmu_bit f False start (start + len)) n (False, frame, mem) =
      Some (moved f (unat start) (unat len) n, frame, m1)" "write_upto f (unat start) frame mem n m1" by auto
  let ?l = "lbase f + n" and ?p = "pbase f + n"
  let ?i = "(?l - 8 * unat start) div 8"
  have m1: "length m1 = ESC_MEMORY_SIZE" using one(2) mem by (simp add: write_upto_def)
  note step = fmmu_bit_addresses [OF f _ nw fr m1, of n False "moved f (unat start) (unat len) n"]
  show ?case
  proof (cases "?l < 8 * unat start \<or> 8 * (unat start + unat len) \<le> ?l")
    case True
    then have "write_upto f (unat start) frame mem (Suc n) m1"
      using one(2) fr by (auto simp: write_upto_def less_Suc_eq)
    moreover have "moved f (unat start) (unat len) (Suc n) = moved f (unat start) (unat len) n"
      using True by (auto simp: moved_Suc)
    ultimately show ?thesis using one(1) step Suc.prems True by auto
  next
    case False
    let ?m2 = "m1[?p div 8 := copy_bit (frame ! ?i) (?l mod 8) (m1 ! (?p div 8)) (?p mod 8)]"
    have p: "?p div 8 < length m1"
    proof -
      have "n < unat (fu_bit_length f)" using Suc.prems by (simp add: nbits_def)
      with f show ?thesis unfolding good_fmmu_def pbase_def m1 by linarith
    qed
    have i: "8 * ?i + ?l mod 8 = ?l - 8 * unat start" using False by (intro bit_position) linarith
    have src: "bit (frame ! ?i) (?l mod 8) = bit_at frame (?l - 8 * unat start)"
      using arg_cong [OF i, of "bit_at frame"] by (simp add: bit_at_def)
    have "bit_at ?m2 k = (if k = ?p then bit_at frame (?l - 8 * unat start) else bit_at m1 k)" for k
      using bit_at_update [OF p, of "?p mod 8" "frame ! ?i" "?l mod 8" k] src by simp
    then have "write_upto f (unat start) frame mem (Suc n) ?m2"
      using one(2) False fr by (auto simp: write_upto_def less_Suc_eq)
    moreover have "moved f (unat start) (unat len) (Suc n)" using False by (auto simp: moved_Suc)
    ultimately show ?thesis using one(1) step Suc.prems False by auto
  qed
qed

lemma bit_at_poke:
  assumes "off + length d \<le> length b" and "k < 8 * length b"
  shows "bit_at (poke b off d) k = (if 8 * off \<le> k \<and> k < 8 * (off + length d) then bit_at d (k - 8 * off) else bit_at b k)"
proof -
  have k: "k div 8 < length b" using assms(2) by (simp add: div8_bounds)
  show ?thesis
  proof (cases "8 * off \<le> k \<and> k < 8 * (off + length d)")
    case True
    then obtain j where j: "k = 8 * off + j" using le_Suc_ex by blast
    then have "j div 8 < length d" using True by (simp add: div8_bounds)
    then show ?thesis using True j k assms(1) by (simp add: bit_at_def nth_poke)
  next
    case False
    then have "\<not> (off \<le> k div 8 \<and> k div 8 < off + length d)" by (simp only: div8_bounds) auto
    then show ?thesis using False k assms(1) by (auto simp: bit_at_def nth_poke)
  qed
qed

lemma bit_at_peek: "off + n \<le> length b \<Longrightarrow> k < 8 * n \<Longrightarrow> bit_at (peek b off n) k = bit_at b (8 * off + k)"
  by (simp add: bit_at_def peek_def div8_bounds)

lemma bit_at_window:
  "off + n \<le> length b \<Longrightarrow> src + n \<le> length m \<Longrightarrow> k < 8 * length b \<Longrightarrow>
   bit_at (poke b off (peek m src n)) k =
     (if 8 * off \<le> k \<and> k < 8 * (off + n) then bit_at m (8 * src + (k - 8 * off)) else bit_at b k)"
  by (auto simp: bit_at_poke bit_at_peek)

lemma length_window:
  "off + n \<le> length b \<Longrightarrow> src + n \<le> length m \<Longrightarrow> length (poke b off (peek m src n)) = length b"
  by simp

lemma aligned_facts:
  fixes start len :: u32
  assumes nw: "no_wrap f (unat start) (unat len)"
    and al: "fu_logical_start_bit f = 0" "fu_physical_start_bit f = 0" "fu_bit_length f mod 8 = 0"
  shows "nbits f = 8 * unat (fu_bit_length f div 8)" and "lbase f = 8 * unat (fu_logical_address f)"
    and "pbase f = 8 * fu_physical f" and "unat (start + len) = unat start + unat len"
    and "unat (fu_logical_address f + fu_bit_length f div 8) = unat (fu_logical_address f) + unat (fu_bit_length f div 8)"
proof -
  have "unat (fu_bit_length f) mod 8 = 0" using arg_cong [OF al(3), of unat] by (simp only: div8_of_bits) simp
  then show n: "nbits f = 8 * unat (fu_bit_length f div 8)" by (simp add: nbits_def div8_of_bits) presburger
  show l: "lbase f = 8 * unat (fu_logical_address f)" and "pbase f = 8 * fu_physical f"
    using al by (simp_all add: lbase_def pbase_def)
  show "unat (start + len) = unat start + unat len"
    using unat_add_small [of start len] nw by (simp add: no_wrap_def)
  show "unat (fu_logical_address f + fu_bit_length f div 8) = unat (fu_logical_address f) + unat (fu_bit_length f div 8)"
    using unat_add_small [of "fu_logical_address f" "fu_bit_length f div 8"] nw n l by (simp add: no_wrap_def)
qed

text \<open>The byte ranges of the fast path, from the logical and from the physical side.\<close>

lemma byte_ranges:
  fixes a n b z ph lo hi k p :: nat
  assumes "lo = max a b" and "hi = min (a + n) (b + z)" and "lo < hi"
  shows "k < 8 * n \<Longrightarrow> (8 * (lo - a) \<le> k \<and> k < 8 * (lo - a + (hi - lo))) = (8 * b \<le> 8 * a + k \<and> 8 * a + k < 8 * b + 8 * z)"
    and "8 * (lo - a) \<le> k \<Longrightarrow> 8 * (ph + (lo - b)) + (k - 8 * (lo - a)) = 8 * ph + (8 * a + k - 8 * b)"
    and "(8 * (ph + (lo - b)) \<le> p \<and> p < 8 * (ph + (lo - b) + (hi - lo))) =
      (8 * ph \<le> p \<and> p < 8 * ph + 8 * z \<and> 8 * a \<le> 8 * b + (p - 8 * ph) \<and> 8 * b + (p - 8 * ph) < 8 * (a + n))"
    and "8 * (ph + (lo - b)) \<le> p \<Longrightarrow> 8 * (lo - a) + (p - 8 * (ph + (lo - b))) = 8 * b + (p - 8 * ph) - 8 * a"
  using assms by (cases "a \<le> b"; cases "a + n \<le> b + z"; simp add: max_def min_def; arith)+

lemma overlap_iff:
  fixes a n b z :: nat
  shows "(\<exists>k < 8 * z. 8 * a \<le> 8 * b + k \<and> 8 * b + k < 8 * (a + n)) \<longleftrightarrow> max a b < min (a + n) (b + z)"
proof
  show "max a b < min (a + n) (b + z) \<Longrightarrow> \<exists>k < 8 * z. 8 * a \<le> 8 * b + k \<and> 8 * b + k < 8 * (a + n)"
    by (rule exI [of _ "8 * (max a b - b)"]) (auto simp: max_def min_def split: if_splits)
qed auto

text \<open>The fast path moves the same bits as the loop would.\<close>

lemma bytes_move:
  fixes start len :: u32
  assumes f: "good_fmmu f" and nw: "no_wrap f (unat start) (unat len)"
    and al: "fu_logical_start_bit f = 0" "fu_physical_start_bit f = 0" "fu_bit_length f mod 8 = 0"
    and fr: "length frame = unat len" and mem: "length (em_mem e) = ESC_MEMORY_SIZE"
  shows "\<exists>frame'. copyFmmu_bytes f True start (start + len) frame e = Some (moved f (unat start) (unat len) (nbits f), frame', e)
      \<and> read_upto f (unat start) frame (em_mem e) (nbits f) frame'"
    and "\<exists>mem'. copyFmmu_bytes f False start (start + len) frame e =
        Some (moved f (unat start) (unat len) (nbits f), frame,
          if moved f (unat start) (unat len) (nbits f) then touch_watchdog (e\<lparr>em_mem := mem'\<rparr>) else e\<lparr>em_mem := mem'\<rparr>)
      \<and> write_upto f (unat start) frame (em_mem e) (nbits f) mem'"
proof -
  let ?la = "fu_logical_address f" and ?sz = "fu_bit_length f div 8"
  let ?lo = "max start ?la" and ?hi = "min (start + len) (?la + ?sz)"
  let ?a = "unat start" and ?n = "unat len" and ?b = "unat ?la" and ?z = "unat ?sz"
  let ?l = "max ?a ?b" and ?h = "min (?a + ?n) (?b + ?z)"
  let ?fp = "?l - ?a" and ?pp = "fu_physical f + (?l - ?b)" and ?c = "?h - ?l"
  note al = aligned_facts [OF nw al]
  have lo: "unat ?lo = ?l" and hi: "unat ?hi = ?h" by (simp_all add: unat_max_min al(4,5))
  have moved: "moved f ?a ?n (nbits f) \<longleftrightarrow> ?l < ?h"
    unfolding moved_def al(1,2) by (rule overlap_iff)
  have hilo: "?hi \<le> ?lo \<longleftrightarrow> \<not> ?l < ?h" by (simp only: word_le_nat_alt lo hi not_less)
  have same: "read_upto f ?a frame (em_mem e) (nbits f) frame" "write_upto f ?a frame (em_mem e) (nbits f) (em_mem e)"
    if "\<not> ?l < ?h" using that unfolding read_upto_def write_upto_def al(1,2,3) fr by auto
  have diffs: "unat (?hi - ?lo) = ?c" "unat (?lo - start) = ?fp" "unat (?lo - ?la) = ?l - ?b" if "?l < ?h"
  proof -
    have "?lo < ?hi" using that by (simp only: word_less_nat_alt lo hi)
    from aligned_ranges(1,2,3) [OF this] show "unat (?hi - ?lo) = ?c" "unat (?lo - start) = ?fp" "unat (?lo - ?la) = ?l - ?b"
      by (simp_all only: lo hi)
  qed
  have bounds: "?fp + ?c \<le> length frame" "?pp + ?c \<le> length (em_mem e)" if "?l < ?h"
  proof -
    have "fu_physical f + ?z \<le> ESC_MEMORY_SIZE" using f unfolding good_fmmu_def div8_of_bits by linarith
    then show "?fp + ?c \<le> length frame" "?pp + ?c \<le> length (em_mem e)" using that fr mem by auto
  qed
  show "\<exists>frame'. copyFmmu_bytes f True start (start + len) frame e = Some (moved f ?a ?n (nbits f), frame', e)
      \<and> read_upto f ?a frame (em_mem e) (nbits f) frame'"
  proof (cases "?l < ?h")
    case True
    let ?fr = "poke frame ?fp (peek (em_mem e) ?pp ?c)"
    note r = byte_ranges(1) [OF refl refl True] byte_ranges(2) [OF refl refl True, where ph = "fu_physical f"]
    have fits: "k < 8 * ?n \<Longrightarrow> 8 * ?b \<le> 8 * ?a + k \<and> 8 * ?a + k < 8 * ?b + 8 * ?z \<Longrightarrow> 8 * ?fp \<le> k" for k
      using r(1) [of k] by blast
    have "bit_at ?fr k = (if 8 * ?b \<le> 8 * ?a + k \<and> 8 * ?a + k < 8 * ?b + 8 * ?z
        then bit_at (em_mem e) (8 * fu_physical f + (8 * ?a + k - 8 * ?b)) else bit_at frame k)" if "k < 8 * length frame" for k
      unfolding bit_at_window [OF bounds [OF True] that]
      by (rule if_cong [OF r(1) arg_cong [OF r(2)] refl]) (use that fr fits in \<open>simp_all only:\<close>)
    then have "read_upto f ?a frame (em_mem e) (nbits f) ?fr"
      unfolding read_upto_def al(1,2,3) using length_window [OF bounds [OF True]] by (intro conjI allI impI)
    then show ?thesis
      unfolding copyFmmu_bytes_def Let_def hilo diffs [OF True] moved
        mem_read_Some [OF bounds(2) [OF True]] mem_read_Some [OF bounds(1) [OF True]]
      using True bounds [OF True] by (simp add: mem_write_def)
  qed (use same moved hilo in \<open>auto simp: copyFmmu_bytes_def\<close>)
  show "\<exists>mem'. copyFmmu_bytes f False start (start + len) frame e =
        Some (moved f ?a ?n (nbits f), frame,
          if moved f ?a ?n (nbits f) then touch_watchdog (e\<lparr>em_mem := mem'\<rparr>) else e\<lparr>em_mem := mem'\<rparr>)
      \<and> write_upto f ?a frame (em_mem e) (nbits f) mem'"
  proof (cases "?l < ?h")
    case True
    let ?m = "poke (em_mem e) ?pp (peek frame ?fp ?c)"
    note r = byte_ranges(3,4) [OF refl refl True, where ph = "fu_physical f"]
    have "bit_at ?m p = (if 8 * fu_physical f \<le> p \<and> p < 8 * fu_physical f + 8 * ?z
          \<and> 8 * ?a \<le> 8 * ?b + (p - 8 * fu_physical f) \<and> 8 * ?b + (p - 8 * fu_physical f) < 8 * (?a + ?n)
        then bit_at frame (8 * ?b + (p - 8 * fu_physical f) - 8 * ?a) else bit_at (em_mem e) p)"
      if "p < 8 * length (em_mem e)" for p
      unfolding bit_at_window [OF bounds(2,1) [OF True] that]
      by (rule if_cong [OF r(1) arg_cong [OF r(2)] refl]) (use r(1) [of p] in blast)
    then have "write_upto f ?a frame (em_mem e) (nbits f) ?m"
      unfolding write_upto_def al(1,2,3) fr using length_window [OF bounds(2,1) [OF True]] by (intro conjI allI impI)
    moreover have "copyFmmu_bytes f False start (start + len) frame e = Some (True, frame, touch_watchdog (e\<lparr>em_mem := ?m\<rparr>))"
      unfolding copyFmmu_bytes_def Let_def hilo diffs [OF True] mem_read_Some [OF bounds(1) [OF True]]
      using True bounds [OF True] by (simp add: mem_write_def)
    ultimately show ?thesis using True moved by auto
  next
    case False
    then have "\<not> moved f ?a ?n (nbits f)" "?hi \<le> ?lo" using moved hilo by blast+
    then show ?thesis
      using same(2) [OF False] by (intro exI [of _ "em_mem e"]) (simp only: copyFmmu_bytes_def Let_def if_True if_False, simp)
  qed
qed

lemma bits_move:
  fixes start len :: u32
  assumes f: "good_fmmu f" and nw: "no_wrap f (unat start) (unat len)"
    and fr: "length frame = unat len" and mem: "length (em_mem e) = ESC_MEMORY_SIZE"
  shows "\<exists>frame'. copyFmmu_bits f True start (start + len) frame e = Some (moved f (unat start) (unat len) (nbits f), frame', e)
      \<and> read_upto f (unat start) frame (em_mem e) (nbits f) frame'"
    and "\<exists>mem'. copyFmmu_bits f False start (start + len) frame e =
        Some (moved f (unat start) (unat len) (nbits f), frame,
          if moved f (unat start) (unat len) (nbits f) then touch_watchdog (e\<lparr>em_mem := mem'\<rparr>) else e\<lparr>em_mem := mem'\<rparr>)
      \<and> write_upto f (unat start) frame (em_mem e) (nbits f) mem'"
  using bit_loop_reads [OF f nw fr mem, of "nbits f"] bit_loop_writes [OF f nw fr mem, of "nbits f"]
  by (auto simp: copyFmmu_bits_def nbits_def Let_def)

text \<open>(C26) An FMMU moves exactly the bits its registers map, byte-aligned or not: a logical read puts
  the mapped memory bits into the frame and leaves the other bits of the frame and the memory alone, a
  logical write does the reverse, and the datagram counts as served exactly when a mapped bit lies in it.\<close>

theorem fmmu_moves_mapped_bits:
  assumes "good_fmmu f" and "no_wrap f (unat (dg_address header)) (unat (dg_len header))"
    and "length frame = unat (dg_len header)" and "length (em_mem e) = ESC_MEMORY_SIZE"
  shows "(\<exists>frame'. copyFmmu f True header frame e =
        Some (moved f (unat (dg_address header)) (unat (dg_len header)) (nbits f), frame', e)
      \<and> read_upto f (unat (dg_address header)) frame (em_mem e) (nbits f) frame')
    \<and> (\<exists>mem'. copyFmmu f False header frame e =
        Some (moved f (unat (dg_address header)) (unat (dg_len header)) (nbits f), frame,
          (if moved f (unat (dg_address header)) (unat (dg_len header)) (nbits f) then touch_watchdog else (\<lambda>e. e))
            (e\<lparr>em_mem := mem'\<rparr>))
      \<and> write_upto f (unat (dg_address header)) frame (em_mem e) (nbits f) mem')"
proof -
  let ?len = "ucast (dg_len header) :: u32"
  have nw: "no_wrap f (unat (dg_address header)) (unat ?len)" and fr: "length frame = unat ?len"
    using assms(2,3) by (simp_all add: unat_dg_len)
  note loop = bits_move [OF assms(1) nw fr assms(4)]
  note bytes = bytes_move [OF assms(1) nw _ _ _ fr assms(4)]
  show ?thesis
  proof (cases "fu_logical_start_bit f = 0 \<and> fu_physical_start_bit f = 0 \<and> fu_bit_length f mod 8 = 0")
    case True
    then show ?thesis using bytes by (simp add: copyFmmu_def Let_def unat_dg_len if_distribR)
  next
    case False
    then show ?thesis using loop by (auto simp: copyFmmu_def Let_def unat_dg_len if_distribR)
  qed
qed

text \<open>An FMMU that puts three bits, from bit 1 of memory byte \<open>0x1000\<close>, at bit 6 of logical byte 16.\<close>

definition odd_fmmu :: esc_fmmu where
  "odd_fmmu = \<lparr>fu_logical_address = 16, fu_physical = 0x1000, fu_bit_length = 3, fu_logical_start_bit = 6,
     fu_physical_start_bit = 1, fu_is_input = True\<rparr>"

theorem fmmu_moves_mapped_bits_witness:
  "\<exists>frame'. copyFmmu odd_fmmu True \<lparr>dg_command = 10, dg_index = 0, dg_address = 16, dg_len = 2, dg_reserved = 0,
      dg_circulating = 0, dg_multiple = 0, dg_irq = 0\<rparr> [0, 0] fresh_esc = Some (True, frame', fresh_esc)
    \<and> read_upto odd_fmmu 16 [0, 0] (em_mem fresh_esc) 3 frame'"
proof -
  have "moved odd_fmmu 16 2 3" unfolding moved_def odd_fmmu_def lbase_def by (rule exI [of _ 0]) simp
  moreover have "good_fmmu odd_fmmu" "no_wrap odd_fmmu 16 2" "nbits odd_fmmu = 3"
    by (simp_all add: good_fmmu_def odd_fmmu_def no_wrap_def nbits_def lbase_def)
  ultimately show ?thesis
    using fmmu_moves_mapped_bits [of odd_fmmu "\<lparr>dg_command = 10, dg_index = 0, dg_address = 16, dg_len = 2, dg_reserved = 0,
      dg_circulating = 0, dg_multiple = 0, dg_irq = 0\<rparr>" "[0, 0]" fresh_esc]
    by (simp add: fresh_esc_def new_esc_config)
qed

section \<open>Mailbox handshake\<close>

text \<open>
  What the controller means by a mailbox: a place for one message, full or not. It is read off the status byte and the
  area of a sync manager.
\<close>

definition mailbox_box :: "emu \<Rightarrow> esc_sm \<Rightarrow> bool \<times> bytes" where
  "mailbox_box e s =
     (reg8 e (sm_status_at (sy_registers s)) AND SM_STATUS_MAILBOX \<noteq> 0, peek (em_mem e) (unat (sy_address s)) (unat (sy_size s)))"

definition apart :: "esc_sm \<Rightarrow> esc_sm \<Rightarrow> bool" where
  "apart s s' \<longleftrightarrow> unat (sy_address s) + unat (sy_size s) \<le> unat (sy_address s')
     \<or> unat (sy_address s') + unat (sy_size s') \<le> unat (sy_address s)"

text \<open>A configured mailbox: in the RAM, not its last byte, and not overlapping another sync manager.\<close>

definition mailbox_sm :: "emu \<Rightarrow> esc_sm \<Rightarrow> bool" where
  "mailbox_sm e s \<longleftrightarrow> s \<in> set (em_syncs e) \<and> (\<forall>s' \<in> set (em_syncs e). s' = s \<or> apart s s')
     \<and> 0x1000 \<le> unat (sy_address s) \<and> 0 < sy_size s \<and> unat (sy_address s) + unat (sy_size s) \<le> 0xFFFF
     \<and> reg8 e (sm_control_at (sy_registers s)) AND 0x3 \<noteq> 0"

text \<open>The abstract mailbox: the result, the caller's buffer and the place after an access to the bytes from \<open>k\<close> on. A read of
  an empty and a write of a full mailbox are refused; the access that touches the last byte empties or fills it.\<close>

fun box_step :: "bool \<Rightarrow> nat \<Rightarrow> bytes \<Rightarrow> bool \<times> bytes \<Rightarrow> int \<times> bytes \<times> bool \<times> bytes" where
  "box_step read k d (full, content) =
     (let last_byte = (k + length d = length content)
      in if read \<noteq> full then (- EAGAIN, d, full, content)
         else if read then (int (length d), peek content k (length d), \<not> last_byte, content)
         else (int (length d), d, last_byte, poke content k d))"

lemma sm_access_selects:
  assumes "s \<in> set syncs" and "\<forall>s' \<in> set syncs. s' = s \<or> apart s s'" and "0 < n"
    and "unat (sy_address s) \<le> unat a" and "unat a + n \<le> unat (sy_address s) + unat (sy_size s)" and "access_code access AND sy_access s \<noteq> 0"
  shows "sm_access a buffer access n e syncs = sm_access a buffer access n e [s]"
  using assms(1,2)
proof (induction syncs)
  case (Cons s' syncs)
  show ?case
  proof (cases "s' = s")
    case False
    have "apart s s'" using Cons.prems(2) False by auto
    then have "unat a < unat (sy_address s') \<or> unat a + n > unat (sy_address s') + unat (sy_size s')"
      using assms(3-5) unfolding apart_def by linarith
    then have "sm_access a buffer access n e (s' # syncs) = sm_access a buffer access n e syncs"
      by (simp add: Let_def)
    then show ?thesis using Cons False by auto
  qed (use assms(4-6) in \<open>simp add: Let_def\<close>)
qed simp

lemma mailbox_address:
  assumes "mailbox_sm e s" and "k \<le> unat (sy_size s)"
  shows "unat (sy_address s + of_nat k) = unat (sy_address s) + k"
proof -
  have "unat (sy_address s) + k < 2 ^ 16" using assms by (simp add: mailbox_sm_def)
  then show ?thesis using unat_add_small [of "sy_address s" "of_nat k"] by (simp add: unat_of_nat_small)
qed

lemma mailbox_access:
  assumes wf: "wf_emu e" and s: "mailbox_sm e s" and right: "access_code access AND sy_access s \<noteq> 0"
    and d: "d \<noteq> []" "k + length d \<le> unat (sy_size s)"
  defines "st \<equiv> sm_status_at (sy_registers s)" and "a \<equiv> unat (sy_address s) + k" and "last_byte \<equiv> (k + length d = unat (sy_size s))"
  shows "computeInternalMemoryAccess (sy_address s + of_nat k) d access e =
    (if (access = PDI_READ \<or> access = ECAT_READ) \<noteq> fst (mailbox_box e s) then (- EAGAIN, d, e)
     else if access = PDI_READ \<or> access = ECAT_READ
     then (int (length d), peek (em_mem e) a (length d), if last_byte then set_reg e st [reg8 e st AND NOT SM_STATUS_MAILBOX] else e)
     else let e = set_reg e a d in (int (length d), d, if last_byte then set_reg e st [reg8 e st OR SM_STATUS_MAILBOX] else e))"
proof -
  let ?a = "sy_address s + of_nat k"
  have a: "unat ?a = a" using mailbox_address [OF s, of k] d(2) by (simp add: a_def)
  have ram: "0x1000 \<le> a" and fit: "a + length d \<le> 0xFFFF" and last: "(a + length d = unat (sy_address s) + unat (sy_size s)) = last_byte"
    using s d(2) by (auto simp: mailbox_sm_def a_def last_byte_def)
  have n: "min (length d) (0xFFFF - a) = length d" using fit by simp
  have inside: "unat (sy_address s) \<le> a" "a + length d \<le> unat (sy_address s) + unat (sy_size s)"
    using d(2) by (simp_all add: a_def)
  have sel: "sm_access ?a d access (length d) e (em_syncs e) = sm_access ?a d access (length d) e [s]"
    by (rule sm_access_selects) (use s right d(1) inside in \<open>simp_all add: mailbox_sm_def a\<close>)
  have out: "copy_out ?a (length d) d e = peek (em_mem e) a (length d)"
    using fit wf_length [OF wf] by (simp add: copy_out_def poke_all a)
  have cin: "copy_in ?a (length d) d e = set_reg e a d" by (simp add: copy_in_def a)
  have ctl: "reg8 e (sm_control_at (sy_registers s)) AND 0x3 \<noteq> 0" using s by (simp add: mailbox_sm_def)
  have "computeInternalMemoryAccess ?a d access e = the (sm_access ?a d access (length d) e [s])"
    using ram right inside by (simp add: computeInternalMemoryAccess_def a n sel Let_def)
  also have "\<dots> = (if (access = PDI_READ \<or> access = ECAT_READ) \<noteq> fst (mailbox_box e s) then (- EAGAIN, d, e)
     else if access = PDI_READ \<or> access = ECAT_READ
     then (int (length d), peek (em_mem e) a (length d), if last_byte then set_reg e st [reg8 e st AND NOT SM_STATUS_MAILBOX] else e)
     else let e = set_reg e a d in (int (length d), d, if last_byte then set_reg e st [reg8 e st OR SM_STATUS_MAILBOX] else e))"
    using right ctl inside last by (cases "reg8 e st AND SM_STATUS_MAILBOX = 0")
      (simp_all add: Let_def mailbox_box_def out cin a st_def)
  finally show ?thesis .
qed

text \<open>Register bytes and the buffer do not touch each other.\<close>

lemma set_reg_read:
  "a + length d \<le> length (em_mem e) \<Longrightarrow> p < length (em_mem e) \<Longrightarrow>
   reg8 (set_reg e a d) p = (if a \<le> p \<and> p < a + length d then d ! (p - a) else reg8 e p)"
  by (simp add: reg8_def set_reg_def nth_poke)

lemma mailbox_registers:
  assumes "wf_emu e" and "mailbox_sm e s"
  shows "sm_status_at (sy_registers s) < 0x1000" and "sm_control_at (sy_registers s) < 0x1000"
  using assms by (auto simp: wf_emu_def mailbox_sm_def)

lemma mailbox_status_write:
  assumes wf: "wf_emu e" and s: "mailbox_sm e s"
  shows "mailbox_box (set_reg e (sm_status_at (sy_registers s)) [v]) s = (v AND SM_STATUS_MAILBOX \<noteq> 0, snd (mailbox_box e s))"
    and "mailbox_sm (set_reg e (sm_status_at (sy_registers s)) [v]) s"
    and "wf_emu (set_reg e (sm_status_at (sy_registers s)) [v])"
proof -
  note regs = mailbox_registers [OF wf s]
  have len: "length (em_mem e) = ESC_MEMORY_SIZE" using wf by (rule wf_length)
  have "peek (poke (em_mem e) (sm_status_at (sy_registers s)) [v]) (unat (sy_address s)) (unat (sy_size s)) =
      peek (em_mem e) (unat (sy_address s)) (unat (sy_size s))"
    by (rule peek_poke_after) (use s regs len in \<open>auto simp: mailbox_sm_def\<close>)
  then show "mailbox_box (set_reg e (sm_status_at (sy_registers s)) [v]) s = (v AND SM_STATUS_MAILBOX \<noteq> 0, snd (mailbox_box e s))"
    using regs len by (simp add: mailbox_box_def set_reg_read) (simp add: set_reg_def)
  show "mailbox_sm (set_reg e (sm_status_at (sy_registers s)) [v]) s"
    using s regs len by (simp add: mailbox_sm_def set_reg_read) (simp add: set_reg_def)
  show "wf_emu (set_reg e (sm_status_at (sy_registers s)) [v])" by (rule wf_set_reg [OF wf]) (use regs in simp)
qed

lemma poke_within_peek:
  assumes "k + length d \<le> n" and "a + n \<le> length b"
  shows "peek (poke b (a + k) d) a n = poke (peek b a n) k d"
proof (rule nth_equalityI)
  show "peek (poke b (a + k) d) a n ! i = poke (peek b a n) k d ! i" if "i < length (peek (poke b (a + k) d) a n)" for i
  proof -
    have i: "i < n" using that assms by (simp add: peek_def)
    then show ?thesis using assms by (simp add: nth_poke) (simp add: peek_def nth_poke)
  qed
qed (use assms in simp)

lemma mailbox_buffer_write:
  assumes wf: "wf_emu e" and s: "mailbox_sm e s" and fit: "k + length d \<le> unat (sy_size s)"
  defines "e' \<equiv> set_reg e (unat (sy_address s) + k) d"
  shows "wf_emu e'" and "mailbox_sm e' s" and "mailbox_box e' s = (fst (mailbox_box e s), poke (snd (mailbox_box e s)) k d)"
proof -
  note regs = mailbox_registers [OF wf s]
  have room: "unat (sy_address s) + k + length d \<le> length (em_mem e)" "unat (sy_address s) + unat (sy_size s) \<le> length (em_mem e)"
    using s fit wf_length [OF wf] by (simp_all add: mailbox_sm_def)
  show "wf_emu e'" unfolding e'_def by (rule wf_set_reg [OF wf]) (use room wf_length [OF wf] in simp)
  show "mailbox_sm e' s"
    using s regs room wf_length [OF wf] by (simp add: e'_def mailbox_sm_def set_reg_read) (simp add: set_reg_def)
  show "mailbox_box e' s = (fst (mailbox_box e s), poke (snd (mailbox_box e s)) k d)"
    using s regs room wf_length [OF wf] poke_within_peek [OF fit room(2)]
    by (simp add: e'_def mailbox_box_def mailbox_sm_def set_reg_read) (simp add: set_reg_def)
qed

lemma status_bit_set: "(x OR (8 :: u8)) AND 8 \<noteq> 0" "(x AND NOT 8) AND (8 :: u8) = 0"
proof -
  have "(x OR (8 :: u8)) AND 8 = 8" by (rule bit_word_eqI) (auto simp: bit_and_iff bit_or_iff)
  then show "(x OR (8 :: u8)) AND 8 \<noteq> 0" by simp
  show "(x AND NOT 8) AND (8 :: u8) = 0" by (simp add: and.assoc)
qed

text \<open>(C27) A mailbox sync manager refines a one-place buffer, from the master's and from the slave's side alike, for accesses to
  the whole area or to a part of it: a write is refused while the mailbox is full and a read while it is empty, and a
  refused access changes nothing; a write stores its bytes and fills the mailbox when it reaches the last byte; a read
  gives the bytes stored and empties it when it reaches the last byte.\<close>

theorem mailbox_refines_one_place_buffer:
  assumes "wf_emu e" and "mailbox_sm e s" and "access_code access AND sy_access s \<noteq> 0"
    and "d \<noteq> []" and "k + length d \<le> unat (sy_size s)"
    and "box_step (access = PDI_READ \<or> access = ECAT_READ) k d (mailbox_box e s) = (rc, d', box')"
  shows "\<exists>e'. computeInternalMemoryAccess (sy_address s + of_nat k) d access e = (rc, d', e')
    \<and> mailbox_box e' s = box' \<and> wf_emu e' \<and> mailbox_sm e' s"
proof -
  let ?st = "sm_status_at (sy_registers s)" and ?a = "unat (sy_address s) + k"
  obtain full content where box: "mailbox_box e s = (full, content)" by fastforce
  have content: "length content = unat (sy_size s)" "peek content k (length d) = peek (em_mem e) ?a (length d)"
    using box assms(2,5) wf_length [OF assms(1)] by (auto simp: mailbox_box_def mailbox_sm_def peek_def take_drop ac_simps)
  note acc = mailbox_access [OF assms(1-5)]
  note buf = mailbox_buffer_write [OF assms(1,2,5)]
  note clr = mailbox_status_write [OF assms(1,2), of "reg8 e ?st AND NOT SM_STATUS_MAILBOX"]
  note fill = mailbox_status_write [OF buf(1,2), of "reg8 (set_reg e ?a d) ?st OR SM_STATUS_MAILBOX"]
  note step = assms(6) [unfolded box]
  show ?thesis
  proof (cases "(access = PDI_READ \<or> access = ECAT_READ) = full")
    case False
    then show ?thesis using acc assms(1,2) step by (auto simp: box Let_def)
  next
    case True
    then show ?thesis
      using acc assms(1,2) step content buf clr fill status_bit_set(2) [of "reg8 e ?st"]
      by (cases full; cases "k + length d = unat (sy_size s)") (auto simp: box status_bit_set Let_def)
  qed
qed

definition demo_sm :: esc_sm where
  "demo_sm = \<lparr>sy_access = 0x09, sy_address = 0x1000, sy_size = 2, sy_registers = 0\<rparr>"

definition demo_mailbox :: emu where
  "demo_mailbox = (set_reg fresh_esc 0x804 [0x26, 0x00])\<lparr>em_syncs := [demo_sm]\<rparr>"

lemma demo_mailbox_ok: "wf_emu demo_mailbox" "mailbox_sm demo_mailbox demo_sm" "fst (mailbox_box demo_mailbox demo_sm) = False"
    "length (snd (mailbox_box demo_mailbox demo_sm)) = 2"
  by (simp_all add: demo_mailbox_def demo_sm_def wf_emu_def mailbox_sm_def mailbox_box_def set_reg_def reg8_def
      fresh_esc_def new_esc_config nth_poke)

theorem mailbox_refines_one_place_buffer_witness:
  "\<exists>e1 e2 b. computeInternalMemoryAccess 0x1000 [7] ECAT_WRITE demo_mailbox = (1, [7], e1) \<and> mailbox_box e1 demo_sm = (False, [7, b])
    \<and> computeInternalMemoryAccess 0x1001 [9] ECAT_WRITE e1 = (1, [9], e2) \<and> mailbox_box e2 demo_sm = (True, [7, 9])"
proof -
  obtain x b where box: "mailbox_box demo_mailbox demo_sm = (False, [x, b])"
    using demo_mailbox_ok(3,4) by (cases "mailbox_box demo_mailbox demo_sm") (auto simp: length_Suc_conv numeral_2_eq_2)
  have right: "access_code ECAT_WRITE AND sy_access demo_sm \<noteq> 0" and size: "unat (sy_size demo_sm) = 2" by (simp_all add: demo_sm_def)
  obtain e1 where e1: "computeInternalMemoryAccess (sy_address demo_sm + of_nat 0) [7] ECAT_WRITE demo_mailbox = (1, [7], e1)"
      "mailbox_box e1 demo_sm = (False, [7, b])" "wf_emu e1" "mailbox_sm e1 demo_sm"
    using mailbox_refines_one_place_buffer [OF demo_mailbox_ok(1,2) right, of "[7]" 0 1 "[7]" "(False, [7, b])"] size box
    by (auto simp: poke_def)
  obtain e2 where e2: "computeInternalMemoryAccess (sy_address demo_sm + of_nat 1) [9] ECAT_WRITE e1 = (1, [9], e2)"
      "mailbox_box e2 demo_sm = (True, [7, 9])"
    using mailbox_refines_one_place_buffer [OF e1(3,4) right, of "[9]" 1 1 "[9]" "(True, [7, 9])"] size e1(2)
    by (auto simp: poke_def)
  show ?thesis using e1(1,2) e2 by (auto simp: demo_sm_def)
qed

section \<open>Process-data watchdog\<close>

lemma reg_set_same:
  "a + 2 \<le> length (em_mem e) \<Longrightarrow> reg16 (set_reg e a (le16 v)) a = v"
  "a + 1 \<le> length (em_mem e) \<Longrightarrow> reg8 (set_reg e a [w]) a = w"
  by (simp_all add: reg16_def reg8_def set_reg_def nth_poke)

lemma reg_set_other:
  assumes "a + length d \<le> length (em_mem e)"
  shows "b + 2 \<le> a \<or> a + length d \<le> b \<Longrightarrow> b + 2 \<le> length (em_mem e) \<Longrightarrow> reg16 (set_reg e a d) b = reg16 e b"
    and "b + 1 \<le> a \<or> a + length d \<le> b \<Longrightarrow> b + 1 \<le> length (em_mem e) \<Longrightarrow> reg8 (set_reg e a d) b = reg8 e b"
  using assms by (auto simp: reg16_def reg8_def set_reg_def nth_poke peek_poke_before peek_poke_after)

lemma set_reg_length: "a + length d \<le> length (em_mem e) \<Longrightarrow> length (em_mem (set_reg e a d)) = length (em_mem e)"
  by (simp add: set_reg_def)

lemma now_regs: "reg16 (snd (esc_now e)) a = reg16 e a" "reg8 (snd (esc_now e)) a = reg8 e a"
    "length (em_mem (snd (esc_now e))) = length (em_mem e)"
  by (simp_all add: esc_now_def reg16_def reg8_def)

text \<open>The expiry counter stops at 255.\<close>

definition count_expiry :: "emu \<Rightarrow> emu" where
  "count_expiry e = (if reg8 e 0x442 < 0xFF then set_reg e 0x442 [reg8 e 0x442 + 1] else e)"

lemma count_expiry_regs:
  assumes len: "length (em_mem e) = ESC_MEMORY_SIZE"
  shows "length (em_mem (count_expiry e)) = ESC_MEMORY_SIZE" and "reg16 (count_expiry e) 0x440 = reg16 e 0x440"
    and "reg16 (count_expiry e) 0x130 = reg16 e 0x130" and "reg8 (count_expiry e) 0x141 = reg8 e 0x141"
    and "unat (reg8 (count_expiry e) 0x442) = min 255 (unat (reg8 e 0x442) + 1)"
proof -
  show "unat (reg8 (count_expiry e) 0x442) = min 255 (unat (reg8 e 0x442) + 1)"
  proof (cases "reg8 e 0x442 < 0xFF")
    case True
    then have "unat (reg8 e 0x442) + unat (1 :: u8) < 2 ^ LENGTH(8)" by (simp add: word_less_nat_alt)
    then have "unat (reg8 e 0x442 + 1) = unat (reg8 e 0x442) + 1" using unat_add_small by fastforce
    then show ?thesis using True len by (simp add: count_expiry_def reg_set_same word_less_nat_alt)
  next
    case False
    then have "unat (reg8 e 0x442) = 255" using unat_u8 [of "reg8 e 0x442"] by (simp add: word_less_nat_alt)
    then show ?thesis using False by (simp add: count_expiry_def)
  qed
qed (use len in \<open>simp_all add: count_expiry_def reg_set_other set_reg_length\<close>)

text \<open>The process-data watchdog: with outputs configured and a non-zero period, a check in time
  reports it healthy; the first check after the period reports the expiry, counts it (saturating) and, in
  device emulation, drops the AL status to SAFE-OP with the error flag and the watchdog code.\<close>

theorem watchdog_reports_expiry:
  assumes "wf_emu e" and "em_has_output_fmmu e" and "pdoWatchdog e \<noteq> 0"
  shows "if fst (esc_now e) < em_lastLogicalWrite e + pdoWatchdog e then reg16 (checkWatchdog e) 0x440 = 1
    else if reg16 e 0x440 = 1 then
      reg16 (checkWatchdog e) 0x440 = 0
      \<and> unat (reg8 (checkWatchdog e) 0x442) = min 255 (unat (reg8 e 0x442) + 1)
      \<and> (if reg8 e 0x141 AND 1 \<noteq> 0
         then reg16 (checkWatchdog e) 0x134 = 0x1B \<and> reg16 (checkWatchdog e) 0x130 = (reg16 e 0x130 AND 0xFFF0) OR 0x14
         else reg16 (checkWatchdog e) 0x130 = reg16 e 0x130)
    else checkWatchdog e = snd (esc_now e)"
proof -
  let ?e = "snd (esc_now e)"
  have len: "length (em_mem e) = ESC_MEMORY_SIZE" using assms(1) by (rule wf_length)
  have last: "em_lastLogicalWrite ?e = em_lastLogicalWrite e" by (simp add: esc_now_def)
  have chk: "checkWatchdog e =
      (if fst (esc_now e) < em_lastLogicalWrite e + pdoWatchdog e then set_reg ?e 0x440 (le16 1)
       else if reg16 e 0x440 = 1 then
         let e2 = count_expiry (set_reg ?e 0x440 (le16 0))
         in if reg8 e2 0x141 AND 0x01 \<noteq> 0
            then set_reg (set_reg e2 0x130 (le16 ((reg16 e2 0x130 AND 0xFFF0) OR 4 OR AL_STATUS_ERR_IND))) 0x134 (le16 0x1B)
            else e2
       else ?e)"
    using assms(2,3) by (simp add: checkWatchdog_def count_expiry_def split_def Let_def last now_regs)
  let ?e1 = "set_reg ?e 0x440 (le16 0)"
  let ?e2 = "count_expiry ?e1"
  have e1: "length (em_mem ?e1) = ESC_MEMORY_SIZE" "reg16 ?e1 0x440 = 0" "reg8 ?e1 0x442 = reg8 e 0x442"
      "reg16 ?e1 0x130 = reg16 e 0x130" "reg8 ?e1 0x141 = reg8 e 0x141"
    using len by (simp_all add: reg_set_same reg_set_other now_regs set_reg_length)
  note e2 = count_expiry_regs [OF e1(1)]
  show ?thesis
    using len e1 e2 by (simp add: chk reg_set_same reg_set_other set_reg_length now_regs Let_def)
qed

lemma new_esc_clock: "ck_now (em_clock (EmulatedESC_new ck)) = ck_now ck"
proof -
  have keep: "em_clock (set_regs ws e) = em_clock e" for ws e
    by (induction ws arbitrary: e) (auto simp: set_regs_def set_reg_def)
  show ?thesis by (simp add: EmulatedESC_new_def Let_def keep) (simp add: set_reg_def keep power_on_def esc_now_def Let_def)
qed

definition watched_esc :: emu where
  "watched_esc = (set_reg (set_reg (set_reg fresh_esc 0x400 (le16 1)) 0x420 (le16 1)) 0x440 (le16 1))
     \<lparr>em_has_output_fmmu := True, em_lastLogicalWrite := -200\<rparr>"

lemma watched_facts: "wf_emu watched_esc" "em_has_output_fmmu watched_esc" "pdoWatchdog watched_esc = 120"
    "reg16 watched_esc 0x440 = 1" "fst (esc_now watched_esc) = 0" "em_lastLogicalWrite watched_esc = -200"
proof -
  have len: "length (em_mem fresh_esc) = ESC_MEMORY_SIZE" by (simp add: fresh_esc_def new_esc_config)
  have "wf_emu (set_reg (set_reg (set_reg fresh_esc 0x400 (le16 1)) 0x420 (le16 1)) 0x440 (le16 1))"
    by (simp add: wf_set_reg new_esc_wf fresh_esc_def)
  then show "wf_emu watched_esc" by (simp add: watched_esc_def wf_emu_def)
  have upd: "reg16 (e\<lparr>em_has_output_fmmu := x, em_lastLogicalWrite := y\<rparr>) a = reg16 e a" for e x y a
    by (simp add: reg16_def)
  have r: "reg16 watched_esc 0x420 = 1" "reg16 watched_esc 0x400 = 1" "reg16 watched_esc 0x440 = 1"
    by (simp_all add: watched_esc_def upd reg_set_same reg_set_other set_reg_length len)
  then show "pdoWatchdog watched_esc = 120" "reg16 watched_esc 0x440 = 1" by (simp_all add: pdoWatchdog_def)
  have "ck_now (em_clock fresh_esc) = (\<lambda>_. 0)"
    by (simp add: fresh_esc_def new_esc_clock still_clock_def)
  then show "fst (esc_now watched_esc) = 0" by (simp add: watched_esc_def esc_now_def set_reg_def)
qed (simp_all add: watched_esc_def)

theorem watchdog_reports_expiry_witness: "reg16 (checkWatchdog watched_esc) 0x440 = 0"
  using watchdog_reports_expiry [OF watched_facts(1,2)] by (simp add: watched_facts)

end
