(* ===== verification/MailboxMsg.thy ===== *)
theory MailboxMsg
  imports Wire ObjectDict
begin

text \<open>
  What both ends of the EtherCAT mailbox share: the result of processing a message, the session
  counter, the constants of the CoE protocol, the layout of a CoE message and the encoding of the
  length of a segment (\<open>lib/include/kickcat/Mailbox.h\<close>, \<open>lib/include/kickcat/CoE/protocol.h\<close>,
  \<open>lib/src/CoE/protocol.cc\<close>).

  The code lays a chain of packed structures over the buffer of a message: the mailbox header, the
  CoE header and a service header of four bytes, then the payload. \<open>overlay\<close> reads a buffer as
  such a frame and \<open>frame_bytes\<close> is the buffer of a frame; the locale \<open>mailbox_service\<close> shows that
  they are inverse, for both service headers, so that writing a field through its pointer is a
  record update of the frame. A buffer too short for the structures gives \<open>None\<close>.
\<close>

section \<open>Constants\<close>

datatype ProcessingResult = NOOP | CONTINUE | FINALIZE | FINALIZE_AND_KEEP

definition nextCounter :: "u8 \<Rightarrow> u8" where
  "nextCounter counter = (let counter = counter + 1 in if counter > 7 then 1 else counter)"

definition ERR :: "4 word" where [simp]: "ERR = 0x00"
definition CoE :: "4 word" where [simp]: "CoE = 0x03"

definition UNSUPPORTED_PROTOCOL :: u16 where [simp]: "UNSUPPORTED_PROTOCOL = 0x02"
definition INVALID_HEADER :: u16 where [simp]: "INVALID_HEADER = 0x05"
definition SIZE_TOO_SHORT :: u16 where [simp]: "SIZE_TOO_SHORT = 0x06"
definition NO_MORE_MEMORY :: u16 where [simp]: "NO_MORE_MEMORY = 0x07"

definition GATEWAY_MESSAGE_MASK :: u16 where [simp]: "GATEWAY_MESSAGE_MASK = 0x8000"

definition EMERGENCY :: "4 word" where [simp]: "EMERGENCY = 0x01"
definition SDO_REQUEST :: "4 word" where [simp]: "SDO_REQUEST = 0x02"
definition SDO_RESPONSE :: "4 word" where [simp]: "SDO_RESPONSE = 0x03"
definition TxPDO_REQUEST :: "4 word" where [simp]: "TxPDO_REQUEST = 0x04"
definition RxPDO_REQUEST :: "4 word" where [simp]: "RxPDO_REQUEST = 0x05"
definition TxPDO_REMOTE_REQUEST :: "4 word" where [simp]: "TxPDO_REMOTE_REQUEST = 0x06"
definition RxPDO_REMOTE_REQUEST :: "4 word" where [simp]: "RxPDO_REMOTE_REQUEST = 0x07"
definition SDO_INFORMATION :: "4 word" where [simp]: "SDO_INFORMATION = 0x08"

definition REQ_DOWNLOAD_SEGMENTED :: "3 word" where [simp]: "REQ_DOWNLOAD_SEGMENTED = 0x00"
definition REQ_DOWNLOAD :: "3 word" where [simp]: "REQ_DOWNLOAD = 0x01"
definition REQ_UPLOAD :: "3 word" where [simp]: "REQ_UPLOAD = 0x02"
definition REQ_UPLOAD_SEGMENTED :: "3 word" where [simp]: "REQ_UPLOAD_SEGMENTED = 0x03"
definition REQ_ABORT :: "3 word" where [simp]: "REQ_ABORT = 0x04"
definition RESP_UPLOAD_SEGMENTED :: "3 word" where [simp]: "RESP_UPLOAD_SEGMENTED = 0x00"
definition RESP_DOWNLOAD_SEGMENTED :: "3 word" where [simp]: "RESP_DOWNLOAD_SEGMENTED = 0x01"
definition RESP_UPLOAD :: "3 word" where [simp]: "RESP_UPLOAD = 0x02"
definition RESP_DOWNLOAD :: "3 word" where [simp]: "RESP_DOWNLOAD = 0x03"

definition GET_OD_LIST_REQ :: "7 word" where [simp]: "GET_OD_LIST_REQ = 0x01"
definition GET_OD_LIST_RESP :: "7 word" where [simp]: "GET_OD_LIST_RESP = 0x02"
definition GET_OD_REQ :: "7 word" where [simp]: "GET_OD_REQ = 0x03"
definition GET_OD_RESP :: "7 word" where [simp]: "GET_OD_RESP = 0x04"
definition GET_ED_REQ :: "7 word" where [simp]: "GET_ED_REQ = 0x05"
definition GET_ED_RESP :: "7 word" where [simp]: "GET_ED_RESP = 0x06"
definition SDO_INFO_ERROR_REQ :: "7 word" where [simp]: "SDO_INFO_ERROR_REQ = 0x07"

definition TOGGLE_BIT_NOT_ALTERNATED :: u32 where [simp]: "TOGGLE_BIT_NOT_ALTERNATED = 0x05030000"
definition COMMAND_SPECIFIER_INVALID :: u32 where [simp]: "COMMAND_SPECIFIER_INVALID = 0x05040001"
definition UNSUPPORTED_ACCESS :: u32 where [simp]: "UNSUPPORTED_ACCESS = 0x06010000"
definition READ_WRITE_ONLY_ACCESS :: u32 where [simp]: "READ_WRITE_ONLY_ACCESS = 0x06010001"
definition WRITE_READ_ONLY_ACCESS :: u32 where [simp]: "WRITE_READ_ONLY_ACCESS = 0x06010002"
definition OBJECT_DOES_NOT_EXIST :: u32 where [simp]: "OBJECT_DOES_NOT_EXIST = 0x06020000"
definition DATA_TYPE_LENGTH_MISMATCH :: u32 where [simp]: "DATA_TYPE_LENGTH_MISMATCH = 0x06070010"
definition DATA_TYPE_LENGTH_TOO_HIGH :: u32 where [simp]: "DATA_TYPE_LENGTH_TOO_HIGH = 0x06070012"
definition SUBINDEX_DOES_NOT_EXIST :: u32 where [simp]: "SUBINDEX_DOES_NOT_EXIST = 0x06090011"
definition GENERAL_ERROR :: u32 where [simp]: "GENERAL_ERROR = 0x08000000"

section \<open>Frames laid over a buffer\<close>

record 's mbx_frame =
  mf_header :: mailbox_header
  mf_coe :: coe_header
  mf_service :: 's
  mf_payload :: bytes

type_synonym sdo_frame = "service_data mbx_frame"
type_synonym info_frame = "service_data_info mbx_frame"

definition overlay :: "(bytes \<Rightarrow> 's) \<Rightarrow> bytes \<Rightarrow> 's mbx_frame option" where
  "overlay dec d =
     (if 12 \<le> length d
      then Some \<lparr>mf_header = dec_mailbox_header (peek d 0 6), mf_coe = dec_coe_header (peek d 6 2),
                 mf_service = dec (peek d 8 4), mf_payload = drop 12 d\<rparr>
      else None)"

definition frame_bytes :: "('s \<Rightarrow> bytes) \<Rightarrow> 's mbx_frame \<Rightarrow> bytes" where
  "frame_bytes enc f =
     enc_mailbox_header (mf_header f) @ enc_coe_header (mf_coe f) @ enc (mf_service f) @ mf_payload f"

abbreviation "sdo_overlay \<equiv> overlay dec_service_data"
abbreviation "sdo_bytes \<equiv> frame_bytes enc_service_data"
abbreviation "info_overlay \<equiv> overlay dec_service_data_info"
abbreviation "info_bytes \<equiv> frame_bytes enc_service_data_info"

text \<open>The first structures alone, for the code that looks no further.\<close>

definition header_of :: "bytes \<Rightarrow> mailbox_header option" where
  "header_of d = map_option dec_mailbox_header (mem_read d 0 6)"

definition coe_of :: "bytes \<Rightarrow> coe_header option" where
  "coe_of d = map_option dec_coe_header (mem_read d 6 2)"

lemma peek_pieces:
  assumes "length a = n"
  shows "off + k \<le> n \<Longrightarrow> peek (a @ b) off k = peek a off k"
    and "n \<le> off \<Longrightarrow> peek (a @ b) off k = peek b (off - n) k"
  using assms by (simp_all add: peek_def)

locale mailbox_service = packed enc dec 4 for enc :: "'s \<Rightarrow> bytes" and dec
begin

lemma length_frame_bytes [simp]: "length (frame_bytes enc f) = 12 + length (mf_payload f)"
  by (simp add: frame_bytes_def mh.length_enc coe.length_enc length_enc)

lemma overlay_frame [simp]: "overlay dec (frame_bytes enc f) = Some f"
proof -
  have "peek (frame_bytes enc f) 0 6 = enc_mailbox_header (mf_header f)"
    "peek (frame_bytes enc f) 6 2 = enc_coe_header (mf_coe f)"
    "peek (frame_bytes enc f) 8 4 = enc (mf_service f)"
    "drop 12 (frame_bytes enc f) = mf_payload f"
    by (simp_all add: frame_bytes_def peek_def mh.length_enc coe.length_enc length_enc)
  then show ?thesis
    by (simp add: overlay_def mh.dec_enc coe.dec_enc dec_enc)
qed

lemma header_frame [simp]: "header_of (frame_bytes enc f) = Some (mf_header f)"
  by (simp add: header_of_def frame_bytes_def peek_def mem_read_def mh.length_enc mh.dec_enc)

lemma coe_frame [simp]: "coe_of (frame_bytes enc f) = Some (mf_coe f)"
  by (simp add: coe_of_def frame_bytes_def peek_def mem_read_def mh.length_enc coe.length_enc coe.dec_enc)

lemma frame_overlay:
  assumes "overlay dec d = Some f"
  shows "frame_bytes enc f = d"
proof -
  from assms have d: "12 \<le> length d" by (auto simp: overlay_def split: if_splits)
  have "peek d 0 6 @ peek d 6 2 @ peek d 8 4 @ drop 12 d = d"
  proof -
    have "d = take 6 d @ take 2 (drop 6 d) @ take 4 (drop 8 d) @ drop 12 d"
      using append_take_drop_id [of 6 d] append_take_drop_id [of 2 "drop 6 d"] append_take_drop_id [of 4 "drop 8 d"]
      by simp
    then show ?thesis by (simp add: peek_def)
  qed
  with assms d show ?thesis
    by (auto simp: overlay_def frame_bytes_def mh.enc_dec coe.enc_dec enc_dec split: if_splits)
qed

lemma overlay_Some: "12 \<le> length d \<Longrightarrow> \<exists>f. overlay dec d = Some f \<and> frame_bytes enc f = d \<and> length (mf_payload f) = length d - 12"
  by (metis frame_overlay length_frame_bytes overlay_def add_diff_cancel_left' option.distinct(1))

end

interpretation sdo: mailbox_service enc_service_data dec_service_data
  by unfold_locales

interpretation info: mailbox_service enc_service_data_info dec_service_data_info
  by unfold_locales

text \<open>
  The data of a segment starts one byte after the service header and runs over the index and the
  subindex into the payload.
\<close>

lemma segment_area:
  "drop 9 (sdo_bytes f) = le16 (sd_index (mf_service f)) @ [sd_subindex (mf_service f)] @ mf_payload f"
  by (simp add: frame_bytes_def mh.length_enc coe.length_enc) (simp add: enc_service_data_def drop_Cons')

section \<open>Length of a segment\<close>

definition segmentDataSize :: "service_data \<Rightarrow> u8" where
  "segmentDataSize sdo = push_bit 1 (ucast (sd_block_size sdo)) OR ucast (sd_transfer_type sdo)"

definition segmentDataLength :: "u16 \<Rightarrow> service_data \<Rightarrow> u32" where
  "segmentDataLength mailbox_len sdo =
     (if mailbox_len = 10 then 7 - ucast (segmentDataSize sdo) else ucast mailbox_len - 3)"

definition setSegmentLength :: "service_data \<Rightarrow> u32 \<Rightarrow> u16 \<times> service_data" where
  "setSegmentLength sdo chunk =
     (let seg_data_size = (if chunk < 7 then ucast (7 - chunk) else 0 :: u8);
          mailbox_len = (if chunk < 7 then 10 else ucast (3 + chunk))
      in (mailbox_len, sdo\<lparr>sd_transfer_type := ucast (seg_data_size AND 1),
                           sd_block_size := ucast (drop_bit 1 seg_data_size AND 3)\<rparr>))"

lemma setSegmentLength_fields [simp]:
  "sd_command (snd (setSegmentLength sdo c)) = sd_command sdo"
  "sd_complete_access (snd (setSegmentLength sdo c)) = sd_complete_access sdo"
  "sd_size_indicator (snd (setSegmentLength sdo c)) = sd_size_indicator sdo"
  "sd_index (snd (setSegmentLength sdo c)) = sd_index sdo"
  "sd_subindex (snd (setSegmentLength sdo c)) = sd_subindex sdo"
  by (simp_all add: setSegmentLength_def Let_def)

lemma setSegmentLength_len:
  assumes "n \<le> 65532"
  shows "unat (fst (setSegmentLength sdo (of_nat n))) = (if n < 7 then 10 else n + 3)"
proof -
  have "(of_nat n < (7 :: u32)) = (n < 7)"
    using assms by (simp add: word_less_nat_alt unat_of_nat_small)
  moreover have "unat (ucast (3 + of_nat n :: u32) :: u16) = n + 3"
    using assms by (simp add: unsigned_ucast_eq take_bit_nat_eq_self unat_word_ariths unat_of_nat_small)
  ultimately show ?thesis by (auto simp: setSegmentLength_def Let_def)
qed

text \<open>The length a segment was given is the length its receiver finds.\<close>

lemma segment_length_roundtrip:
  assumes "n \<le> 65532"
    and "sd_block_size s = sd_block_size (snd (setSegmentLength sdo (of_nat n)))"
    and "sd_transfer_type s = sd_transfer_type (snd (setSegmentLength sdo (of_nat n)))"
  shows "segmentDataLength (fst (setSegmentLength sdo (of_nat n))) s = of_nat n"
proof (cases "n < 7")
  case True
  then have "n \<in> {0, 1, 2, 3, 4, 5, 6}" by auto
  then show ?thesis
    unfolding segmentDataLength_def segmentDataSize_def assms(2,3)
    by (auto simp: setSegmentLength_def Let_def)
next
  case False
  define r where "r = fst (setSegmentLength sdo (of_nat n))"
  have r: "unat r = n + 3" using setSegmentLength_len [OF assms(1), of sdo] False by (simp add: r_def)
  have lt: "\<not> of_nat n < (7 :: u32)"
    using assms False by (simp add: word_less_nat_alt unat_of_nat_small)
  have "ucast r - 3 = (of_nat n :: u32)"
    using r by (metis add_diff_cancel_right' of_nat_add of_nat_numeral of_nat_unat)
  moreover have "7 - ucast (segmentDataSize s) = (of_nat n :: u32)" if "r = 10"
  proof -
    have "n = 7" using r that by simp
    then show ?thesis using lt by (simp add: segmentDataSize_def assms(2,3) setSegmentLength_def Let_def)
  qed
  ultimately show ?thesis unfolding segmentDataLength_def r_def [symmetric] by simp
qed

end
