(* ===== verification/SdoServer.thy ===== *)
theory SdoServer
  imports MailboxMsg SlaveIO
begin

text \<open>
  The slave side of the mailbox: the messages of \<open>lib/src/CoE/mailbox/response.cc\<close> and the
  response mailbox of \<open>lib/src/Mailbox.cc\<close> that dispatches them.

  Conventions. A position \<open>(o, e)\<close> in the dictionary stands for the pointer to an entry. The
  callbacks an application attaches to an entry are a parameter: lists of transformers of the heap
  that holds the values. An operation returns what the code returns, the message, the replies it
  pushed on \<open>to_send_\<close> and the heap; \<open>None\<close> is an access outside a buffer, a null pointer or an
  uncaught exception.
\<close>

section \<open>SDO messages\<close>

record hooks =
  hk_before :: "nat \<times> nat \<Rightarrow> (u16 \<Rightarrow> heap \<Rightarrow> heap) list"
  hk_after :: "nat \<times> nat \<Rightarrow> (u16 \<Rightarrow> heap \<Rightarrow> heap) list"

definition beforeHooks :: "hooks \<Rightarrow> u16 \<Rightarrow> nat \<times> nat \<Rightarrow> heap \<Rightarrow> heap" where
  "beforeHooks hk access pos = fold (\<lambda>callback. callback access) (hk_before hk pos)"

definition afterHooks :: "hooks \<Rightarrow> u16 \<Rightarrow> nat \<times> nat \<Rightarrow> heap \<Rightarrow> heap" where
  "afterHooks hk access pos = fold (\<lambda>callback. callback access) (hk_after hk pos)"

text \<open>
  \<open>sv_payload\<close> is the distance of \<open>payload_\<close> from the first byte after the service header;
  \<open>sv_data\<close> is empty once the buffer was moved into a reply.
\<close>

record sdo_message =
  sv_data :: bytes
  sv_payload :: nat
  sv_segmented_entry :: "(nat \<times> nat) option"
  sv_segmented_offset :: u32
  sv_segmented_toggle :: bool

type_synonym sdo_result = "(ProcessingResult \<times> sdo_message \<times> bytes list \<times> heap) option"

definition SDOMessage_new :: "bytes \<Rightarrow> sdo_message" where
  "SDOMessage_new raw_message =
     \<lparr>sv_data = raw_message, sv_payload = 0, sv_segmented_entry = None, sv_segmented_offset = 0,
      sv_segmented_toggle = False\<rparr>"

definition entry_of :: "dictionary \<Rightarrow> nat \<times> nat \<Rightarrow> entry" where
  "entry_of dict pos = entry_at dict (fst pos) (snd pos)"

definition value_size :: "entry \<Rightarrow> u32" where
  "value_size entry = (ucast (en_bitlen entry) + 7) div 8"

definition entry_load :: "entry \<Rightarrow> nat \<Rightarrow> nat \<Rightarrow> heap \<Rightarrow> bytes option" where
  "entry_load entry off n h = (case en_data entry of None \<Rightarrow> None | Some p \<Rightarrow> load (fst p, snd p + off) n h)"

definition entry_store :: "entry \<Rightarrow> nat \<Rightarrow> bytes \<Rightarrow> heap \<Rightarrow> heap option" where
  "entry_store entry off d h = (case en_data entry of None \<Rightarrow> None | Some p \<Rightarrow> store (fst p, snd p + off) d h)"

definition moved_out :: "ProcessingResult \<Rightarrow> sdo_message \<Rightarrow> sdo_frame \<Rightarrow> heap \<Rightarrow> sdo_result" where
  "moved_out r m f h = Some (r, m\<lparr>sv_data := []\<rparr>, [sdo_bytes f], h)"

definition set_len :: "u16 \<Rightarrow> 's mbx_frame \<Rightarrow> 's mbx_frame" where
  "set_len len f = f\<lparr>mf_header := (mf_header f)\<lparr>mh_len := len\<rparr>\<rparr>"

definition set_service :: "4 word \<Rightarrow> 's mbx_frame \<Rightarrow> 's mbx_frame" where
  "set_service service f = f\<lparr>mf_coe := (mf_coe f)\<lparr>coe_service := service\<rparr>\<rparr>"

definition set_command :: "3 word \<Rightarrow> sdo_frame \<Rightarrow> sdo_frame" where
  "set_command command f = f\<lparr>mf_service := (mf_service f)\<lparr>sd_command := command\<rparr>\<rparr>"

definition put_payload :: "nat \<Rightarrow> bytes \<Rightarrow> 's mbx_frame \<Rightarrow> 's mbx_frame option" where
  "put_payload off d f = do { payload \<leftarrow> mem_write (mf_payload f) off d; Some (f\<lparr>mf_payload := payload\<rparr>) }"

definition SDO_abort :: "u32 \<Rightarrow> sdo_message \<Rightarrow> sdo_frame \<Rightarrow> heap \<Rightarrow> sdo_result" where
  "SDO_abort code m f h = do {
     let f = set_command REQ_ABORT (set_service SDO_REQUEST f);
     f \<leftarrow> put_payload (sv_payload m) (le32 code) f;
     moved_out FINALIZE m f h
   }"

definition isUploadAuthorized :: "entry \<Rightarrow> bool" where
  "isUploadAuthorized entry \<longleftrightarrow> en_access entry AND ACCESS_READ \<noteq> 0"

definition isDownloadAuthorized :: "entry \<Rightarrow> bool" where
  "isDownloadAuthorized entry \<longleftrightarrow> en_access entry AND ACCESS_WRITE \<noteq> 0"

definition SDO_upload :: "hooks \<Rightarrow> dictionary \<Rightarrow> nat \<times> nat \<Rightarrow> sdo_message \<Rightarrow> sdo_frame \<Rightarrow> heap \<Rightarrow> sdo_result" where
  "SDO_upload hk dict pos m f h =
     (let entry = entry_of dict pos
      in if \<not> isUploadAuthorized entry then SDO_abort READ_WRITE_ONLY_ACCESS m f h
         else do {
           let h = beforeHooks hk ACCESS_READ pos h;
           let size = value_size entry;
           let f = set_command RESP_UPLOAD (set_service SDO_RESPONSE (set_len 10 f));
           let f = f\<lparr>mf_service := (mf_service f)\<lparr>sd_size_indicator := 1\<rparr>\<rparr>;
           if size \<le> 4 then do {
             let f = f\<lparr>mf_service := (mf_service f)\<lparr>sd_transfer_type := 1, sd_block_size := ucast (4 - size)\<rparr>\<rparr>;
             v \<leftarrow> entry_load entry 0 (unat size) h;
             f \<leftarrow> put_payload (sv_payload m) v f;
             moved_out FINALIZE m f (afterHooks hk ACCESS_READ pos h)
           } else do {
             let f = f\<lparr>mf_service := (mf_service f)\<lparr>sd_transfer_type := 0\<rparr>\<rparr>;
             f \<leftarrow> put_payload (sv_payload m) (le32 size) f;
             let single_frame_max = of_nat (length (sv_data m)) - 16;
             if size \<le> single_frame_max then do {
               let f = set_len (mh_len (mf_header f) + ucast size) f;
               v \<leftarrow> entry_load entry 0 (unat size) h;
               f \<leftarrow> put_payload (sv_payload m + 4) v f;
               moved_out FINALIZE m f (afterHooks hk ACCESS_READ pos h)
             } else
               moved_out FINALIZE_AND_KEEP
                 (m\<lparr>sv_segmented_entry := Some pos, sv_segmented_offset := 0, sv_segmented_toggle := False\<rparr>) f h
           }
         })"

text \<open>
  The loop of a complete upload over the subindices still to send: \<open>Some code\<close> when the transfer
  is aborted, together with the size, the frame and the heap reached.
\<close>

fun uploadComplete_loop ::
  "hooks \<Rightarrow> dictionary \<Rightarrow> nat \<Rightarrow> nat \<Rightarrow> u64 \<Rightarrow> nat list \<Rightarrow> u32 \<Rightarrow> nat \<Rightarrow> sdo_frame \<Rightarrow> heap
     \<Rightarrow> (u32 option \<times> u32 \<times> sdo_frame \<times> heap) option" where
  "uploadComplete_loop hk dict ob skip_offset capacity [] last_pos payload f h = Some (None, last_pos, f, h)"
| "uploadComplete_loop hk dict ob skip_offset capacity (i # rest) last_pos payload f h =
     (if length (ob_entries (dict ! ob)) \<le> i then Some (Some UNSUPPORTED_ACCESS, last_pos, f, h)
      else let entry = entry_of dict (ob, i)
      in if \<not> isUploadAuthorized entry then Some (Some READ_WRITE_ONLY_ACCESS, last_pos, f, h)
      else let entry_size = unat (value_size entry);
               entry_byte = unat (en_bitoff entry) div 8
      in if entry_byte < skip_offset \<or> capacity < of_nat (4 + (entry_byte - skip_offset) + entry_size)
         then Some (Some GENERAL_ERROR, last_pos, f, h)
      else do {
        let entry_off = entry_byte - skip_offset;
        let h = beforeHooks hk ACCESS_READ (ob, i) h;
        v \<leftarrow> entry_load entry 0 entry_size h;
        f \<leftarrow> put_payload (payload + 4 + entry_off) v f;
        uploadComplete_loop hk dict ob skip_offset capacity rest (of_nat (entry_size + entry_off)) payload f
          (afterHooks hk ACCESS_READ (ob, i) h)
      })"

definition SDO_uploadComplete :: "hooks \<Rightarrow> dictionary \<Rightarrow> nat \<Rightarrow> sdo_message \<Rightarrow> sdo_frame \<Rightarrow> heap \<Rightarrow> sdo_result" where
  "SDO_uploadComplete hk dict ob m f h = do {
     let f = f\<lparr>mf_service := (mf_service f)\<lparr>sd_size_indicator := 1, sd_transfer_type := 0\<rparr>\<rparr>;
     let entries = ob_entries (dict ! ob);
     let subindex = unat (sd_subindex (mf_service f));
     if entries = [] \<or> length entries \<le> subindex \<or> en_data (entries ! 0) = None
     then SDO_abort SUBINDEX_DOES_NOT_EXIST m f h
     else do {
       count \<leftarrow> entry_load (entries ! 0) 0 1 h;
       let skip_offset = unat (en_bitoff (entries ! subindex)) div 8;
       let capacity = of_nat (length (sv_data m)) - 16;
       (stop, size, f, h) \<leftarrow> uploadComplete_loop hk dict ob skip_offset capacity
          [subindex ..< Suc (unat (hd count))] 0 (sv_payload m) f h;
       case stop of
         Some code \<Rightarrow> SDO_abort code m f h
       | None \<Rightarrow> do {
           f \<leftarrow> put_payload (sv_payload m) (le32 size) f;
           moved_out FINALIZE m (set_command RESP_UPLOAD (set_service SDO_RESPONSE (set_len (10 + ucast size) f))) h
         }
     }
   }"

definition SDO_download :: "hooks \<Rightarrow> dictionary \<Rightarrow> nat \<times> nat \<Rightarrow> sdo_message \<Rightarrow> sdo_frame \<Rightarrow> heap \<Rightarrow> sdo_result" where
  "SDO_download hk dict pos m f h =
     (let entry = entry_of dict pos
      in if \<not> isDownloadAuthorized entry then SDO_abort WRITE_READ_ONLY_ACCESS m f h
         else do {
           let h = beforeHooks hk ACCESS_WRITE pos h;
           (size, m) \<leftarrow>
             (if sd_transfer_type (mf_service f) \<noteq> 0 then Some (4 - ucast (sd_block_size (mf_service f)), m)
              else do {
                raw \<leftarrow> mem_read (mf_payload f) (sv_payload m) 4;
                Some (from_le raw, m\<lparr>sv_payload := sv_payload m + 4\<rparr>)
              });
           if size \<noteq> value_size entry then SDO_abort DATA_TYPE_LENGTH_MISMATCH m f h
           else if sd_transfer_type (mf_service f) = 0 \<and> ucast (mh_len (mf_header f)) - 10 < size
           then moved_out FINALIZE_AND_KEEP
             (m\<lparr>sv_segmented_entry := Some pos, sv_segmented_offset := 0, sv_segmented_toggle := False\<rparr>)
             (set_command RESP_DOWNLOAD (set_service SDO_RESPONSE f)) h
           else do {
             v \<leftarrow> mem_read (mf_payload f) (sv_payload m) (unat size);
             h \<leftarrow> entry_store entry 0 v h;
             moved_out FINALIZE m (set_command RESP_DOWNLOAD (set_service SDO_RESPONSE f))
               (afterHooks hk ACCESS_WRITE pos h)
           }
         })"

text \<open>
  The loop of a complete download, on the entries from \<open>subindex\<close> on: \<open>current\<close> is the distance of
  \<open>current_offset\<close> from \<open>start_offset\<close>.
\<close>

function downloadComplete_loop ::
  "hooks \<Rightarrow> dictionary \<Rightarrow> nat \<Rightarrow> nat \<Rightarrow> u32 \<Rightarrow> nat \<Rightarrow> nat \<Rightarrow> nat \<Rightarrow> sdo_frame \<Rightarrow> heap
     \<Rightarrow> (u32 option \<times> heap) option" where
  "downloadComplete_loop hk dict ob skip_offset msg_size start current subindex f h =
     (if \<not> current < unat msg_size then Some (None, h)
      else if length (ob_entries (dict ! ob)) \<le> subindex then Some (Some UNSUPPORTED_ACCESS, h)
      else let entry = entry_of dict (ob, subindex)
      in if \<not> isDownloadAuthorized entry then Some (Some WRITE_READ_ONLY_ACCESS, h)
      else let entry_size = unat (value_size entry);
               entry_off = unat (en_bitoff entry) div 8
      in if entry_off < skip_offset \<or> length (mf_payload f) < start + (entry_off - skip_offset) + entry_size
         then Some (Some GENERAL_ERROR, h)
      else let current = entry_off - skip_offset
      in (case mem_read (mf_payload f) (start + current) entry_size of
            None \<Rightarrow> None
          | Some v \<Rightarrow>
            (case entry_store entry 0 v (beforeHooks hk ACCESS_WRITE (ob, subindex) h) of
               None \<Rightarrow> None
             | Some h \<Rightarrow> downloadComplete_loop hk dict ob skip_offset msg_size start (current + entry_size)
                  (Suc subindex) f (afterHooks hk ACCESS_WRITE (ob, subindex) h))))"
  by pat_completeness auto
termination
  by (relation "measure (\<lambda>(hk, dict, ob, skip, size, start, current, subindex, f, h).
        length (ob_entries (dict ! ob)) - subindex)") auto

declare downloadComplete_loop.simps [simp del]

definition SDO_downloadComplete :: "hooks \<Rightarrow> dictionary \<Rightarrow> nat \<Rightarrow> sdo_message \<Rightarrow> sdo_frame \<Rightarrow> heap \<Rightarrow> sdo_result" where
  "SDO_downloadComplete hk dict ob m f h = do {
     let entries = ob_entries (dict ! ob);
     let subindex = unat (sd_subindex (mf_service f));
     if entries = [] \<or> length entries \<le> subindex \<or> en_data (entries ! 0) = None
     then SDO_abort SUBINDEX_DOES_NOT_EXIST m f h
     else do {
       raw \<leftarrow> mem_read (mf_payload f) (sv_payload m) 4;
       let msg_size = from_le raw;
       let capacity = (of_nat (length (sv_data m)) - 16 :: u64);
       if capacity < ucast msg_size then SDO_abort DATA_TYPE_LENGTH_TOO_HIGH m f h
       else do {
         let start = sv_payload m + 4;
         let skip_offset = unat (en_bitoff (entries ! subindex)) div 8;
         (current, h) \<leftarrow>
           (if subindex = 0 then do {
              let h = beforeHooks hk ACCESS_WRITE (ob, 0) h;
              v \<leftarrow> mem_read (mf_payload f) start 1;
              h \<leftarrow> entry_store (entries ! 0) 0 v h;
              Some (1, afterHooks hk ACCESS_WRITE (ob, 0) h)
            } else Some (0, h));
         (stop, h) \<leftarrow> downloadComplete_loop hk dict ob skip_offset msg_size start current 1 f h;
         case stop of
           Some code \<Rightarrow> SDO_abort code m f h
         | None \<Rightarrow> moved_out FINALIZE m (set_command RESP_DOWNLOAD (set_service SDO_RESPONSE (set_len 10 f))) h
       }
     }
   }"

text \<open>The mailbox error reply, which makes room for its structures when the request is too short.\<close>

definition replyError :: "bytes \<Rightarrow> u16 \<Rightarrow> bytes" where
  "replyError raw_message code =
     (let raw = raw_message @ replicate (10 - length raw_message) 0;
          header = (dec_mailbox_header (peek raw 0 6))\<lparr>mh_type := ERR, mh_len := 4\<rparr>
      in poke (poke raw 0 (enc_mailbox_header header)) 6 (enc_mailbox_error \<lparr>me_type = 0x1, me_detail = code\<rparr>))"

definition SDO_process :: "hooks \<Rightarrow> dictionary option \<Rightarrow> sdo_message \<Rightarrow> heap \<Rightarrow> sdo_result" where
  "SDO_process hk dictionary m h =
     (if sv_segmented_entry m \<noteq> None then Some (NOOP, m, [], h)
      else do {
        header \<leftarrow> header_of (sv_data m);
        if mh_len header < 10
        then Some (FINALIZE, m\<lparr>sv_data := []\<rparr>, [replyError (sv_data m) SIZE_TOO_SHORT], h)
        else do {
          dict \<leftarrow> dictionary;
          f \<leftarrow> sdo_overlay (sv_data m);
          let sdo = mf_service f;
          case findObject dict (sd_index sdo) (sd_subindex sdo) of
            (None, _) \<Rightarrow> SDO_abort OBJECT_DOES_NOT_EXIST m f h
          | (Some ob, None) \<Rightarrow> SDO_abort SUBINDEX_DOES_NOT_EXIST m f h
          | (Some ob, Some e) \<Rightarrow>
              if sd_complete_access sdo = 1 \<and> sd_subindex sdo > 1 then SDO_abort UNSUPPORTED_ACCESS m f h
              else if sd_complete_access sdo = 1 \<and> sd_command sdo = REQ_UPLOAD then SDO_uploadComplete hk dict ob m f h
              else if sd_complete_access sdo = 1 \<and> sd_command sdo = REQ_DOWNLOAD then SDO_downloadComplete hk dict ob m f h
              else if sd_command sdo = REQ_UPLOAD then SDO_upload hk dict (ob, e) m f h
              else if sd_command sdo = REQ_DOWNLOAD then SDO_download hk dict (ob, e) m f h
              else Some (NOOP, m, [], h)
        }
      })"

text \<open>The fresh reply to a segment: a zeroed buffer of the size of the request.\<close>

definition segment_reply :: "nat \<Rightarrow> sdo_frame option" where
  "segment_reply n = do {
     f \<leftarrow> sdo_overlay (replicate n 0);
     Some (f\<lparr>mf_header := (mf_header f)\<lparr>mh_type := CoE\<rparr>\<rparr>)
   }"

definition segment_abort :: "u32 \<Rightarrow> sdo_message \<Rightarrow> sdo_frame \<Rightarrow> heap \<Rightarrow> sdo_result" where
  "segment_abort code m f h = do {
     f \<leftarrow> put_payload 0 (le32 code) (set_command REQ_ABORT (set_service SDO_REQUEST f));
     Some (FINALIZE, m\<lparr>sv_segmented_entry := None\<rparr>, [sdo_bytes f], h)
   }"

definition toggle_bit :: "bool \<Rightarrow> 1 word" where
  "toggle_bit b = (if b then 1 else 0)"

definition uploadSegment ::
  "hooks \<Rightarrow> dictionary \<Rightarrow> nat \<times> nat \<Rightarrow> bytes \<Rightarrow> sdo_message \<Rightarrow> sdo_frame \<Rightarrow> heap \<Rightarrow> sdo_result" where
  "uploadSegment hk dict pos raw m f h = do {
     resp \<leftarrow> segment_reply (length raw);
     if sd_complete_access (mf_service f) \<noteq> toggle_bit (sv_segmented_toggle m)
     then segment_abort TOGGLE_BIT_NOT_ALTERNATED m resp h
     else do {
       let entry = entry_of dict pos;
       let total = value_size entry;
       let remaining = total - sv_segmented_offset m;
       let max_seg = of_nat (length raw) - 9;
       let chunk = (if max_seg < remaining then max_seg else remaining);
       v \<leftarrow> entry_load entry (unat (sv_segmented_offset m)) (unat chunk) h;
       buffer \<leftarrow> mem_write (sdo_bytes resp) 9 v;
       resp \<leftarrow> sdo_overlay buffer;
       let sdo = (mf_service resp)\<lparr>sd_command := RESP_UPLOAD_SEGMENTED,
                    sd_complete_access := toggle_bit (sv_segmented_toggle m)\<rparr>;
       let (len, sdo) = setSegmentLength sdo chunk;
       let offset = sv_segmented_offset m + chunk;
       let is_last = (offset = total);
       let sdo = sdo\<lparr>sd_size_indicator := (if is_last then 1 else 0)\<rparr>;
       let resp = set_len len (set_service SDO_RESPONSE (resp\<lparr>mf_service := sdo\<rparr>));
       let m = m\<lparr>sv_segmented_offset := offset, sv_segmented_toggle := \<not> sv_segmented_toggle m\<rparr>;
       if is_last
       then Some (FINALIZE, m\<lparr>sv_segmented_entry := None\<rparr>, [sdo_bytes resp], afterHooks hk ACCESS_READ pos h)
       else Some (FINALIZE_AND_KEEP, m, [sdo_bytes resp], h)
     }
   }"

definition downloadSegment ::
  "hooks \<Rightarrow> dictionary \<Rightarrow> nat \<times> nat \<Rightarrow> bytes \<Rightarrow> sdo_message \<Rightarrow> sdo_frame \<Rightarrow> heap \<Rightarrow> sdo_result" where
  "downloadSegment hk dict pos raw m f h = do {
     resp \<leftarrow> segment_reply (length raw);
     let sdo = mf_service f;
     if sd_complete_access sdo \<noteq> toggle_bit (sv_segmented_toggle m)
     then segment_abort TOGGLE_BIT_NOT_ALTERNATED m resp h
     else do {
       let entry = entry_of dict pos;
       let size = segmentDataLength (mh_len (mf_header f)) sdo;
       if value_size entry < sv_segmented_offset m + size
       then segment_abort DATA_TYPE_LENGTH_MISMATCH m resp h
       else do {
         seg \<leftarrow> mem_read raw 9 (unat size);
         h \<leftarrow> entry_store entry (unat (sv_segmented_offset m)) seg h;
         let resp = resp\<lparr>mf_service := (mf_service resp)\<lparr>sd_command := RESP_DOWNLOAD_SEGMENTED,
                           sd_complete_access := toggle_bit (sv_segmented_toggle m)\<rparr>\<rparr>;
         let resp = set_len 3 (set_service SDO_RESPONSE resp);
         let m = m\<lparr>sv_segmented_offset := sv_segmented_offset m + size,
                    sv_segmented_toggle := \<not> sv_segmented_toggle m\<rparr>;
         if sd_size_indicator sdo \<noteq> 0
         then Some (FINALIZE, m\<lparr>sv_segmented_entry := None\<rparr>, [sdo_bytes resp], afterHooks hk ACCESS_WRITE pos h)
         else Some (FINALIZE_AND_KEEP, m, [sdo_bytes resp], h)
       }
     }
   }"

definition SDO_process_raw :: "hooks \<Rightarrow> dictionary option \<Rightarrow> bytes \<Rightarrow> sdo_message \<Rightarrow> heap \<Rightarrow> sdo_result" where
  "SDO_process_raw hk dictionary raw m h =
     (case sv_segmented_entry m of
        None \<Rightarrow> Some (NOOP, m, [], h)
      | Some pos \<Rightarrow> do {
          dict \<leftarrow> dictionary;
          f \<leftarrow> sdo_overlay raw;
          if mh_type (mf_header f) \<noteq> CoE \<or> coe_service (mf_coe f) \<noteq> SDO_REQUEST \<or> mh_len (mf_header f) < 10
          then Some (NOOP, m, [], h)
          else if sd_command (mf_service f) = REQ_DOWNLOAD_SEGMENTED then downloadSegment hk dict pos raw m f h
          else if sd_command (mf_service f) \<noteq> REQ_UPLOAD_SEGMENTED then Some (NOOP, m, [], h)
          else uploadSegment hk dict pos raw m f h
        })"

section \<open>SDO information messages\<close>

definition NUMBER :: u16 where [simp]: "NUMBER = 0x00"
definition ACCESS_ALL :: u16 where [simp]: "ACCESS_ALL = 0x03ff"
definition ACCESS_RxPDO :: u16 where [simp]: "ACCESS_RxPDO = 0x40"
definition ACCESS_TxPDO :: u16 where [simp]: "ACCESS_TxPDO = 0x80"
definition ACCESS_BACKUP :: u16 where [simp]: "ACCESS_BACKUP = 0x100"
definition ACCESS_SETTING :: u16 where [simp]: "ACCESS_SETTING = 0x200"

fun object_code :: "ObjectCode \<Rightarrow> u8" where
  "object_code NIL = 0x00"
| "object_code DOMAIN = 0x02"
| "object_code DEFTYPE = 0x05"
| "object_code DEFSTRUCT = 0x06"
| "object_code VAR = 0x07"
| "object_code ARRAY = 0x08"
| "object_code RECORD = 0x09"

type_synonym info_result = "(ProcessingResult \<times> bytes list) option"

definition set_opcode :: "7 word \<Rightarrow> info_frame \<Rightarrow> info_frame" where
  "set_opcode opcode f = f\<lparr>mf_service := (mf_service f)\<lparr>si_opcode := opcode\<rparr>\<rparr>"

definition info_abort :: "u32 \<Rightarrow> info_frame \<Rightarrow> info_result" where
  "info_abort code f = do {
     let f = f\<lparr>mf_service := (mf_service f)\<lparr>si_opcode := SDO_INFO_ERROR_REQ, si_incomplete := 0, si_fragments_left := 0\<rparr>\<rparr>;
     f \<leftarrow> put_payload 0 (le32 code) f;
     Some (FINALIZE, [info_bytes f])
   }"

text \<open>\<open>object.entries.at(0)\<close> throws when an object has no entry.\<close>

definition first_access :: "object \<Rightarrow> u16 option" where
  "first_access ob = (case ob_entries ob of [] \<Rightarrow> None | e # _ \<Rightarrow> Some (en_access e))"

primrec od_select :: "u16 \<Rightarrow> dictionary \<Rightarrow> u16 list option" where
  "od_select access_check [] = Some []"
| "od_select access_check (ob # rest) = do {
     access \<leftarrow> first_access ob;
     indexes \<leftarrow> od_select access_check rest;
     Some (if access AND access_check \<noteq> 0 then ob_index ob # indexes else indexes)
   }"

fun fill_fragment :: "nat \<Rightarrow> u16 list \<Rightarrow> u16 \<Rightarrow> nat \<Rightarrow> bytes \<Rightarrow> (u16 list \<times> u16 \<times> bytes) option" where
  "fill_fragment limit [] len off payload = Some ([], len, payload)"
| "fill_fragment limit (w # ws) len off payload =
     (if unat len + 2 \<le> limit then do {
        payload \<leftarrow> mem_write payload off (le16 w);
        fill_fragment limit ws (len + 2) (off + 2) payload
      } else Some (w # ws, len, payload))"

fun od_fragments :: "nat \<Rightarrow> u16 list \<Rightarrow> info_frame \<Rightarrow> bytes list option" where
  "od_fragments 0 words f = Some []"
| "od_fragments (Suc left) words f = do {
     let sdo = (mf_service f)\<lparr>si_fragments_left := of_nat left\<rparr>;
     let sdo = (if si_fragments_left sdo \<noteq> 0 then sdo\<lparr>si_incomplete := 1\<rparr> else sdo);
     (words, len, payload) \<leftarrow> fill_fragment (length (info_bytes f) - 6) words (mh_len (mf_header f)) 0 (mf_payload f);
     let reply = set_len len (f\<lparr>mf_service := sdo, mf_payload := payload\<rparr>);
     let f = f\<lparr>mf_header := (mf_header f)\<lparr>mh_count := ucast (nextCounter (ucast (mh_count (mf_header f))))\<rparr>\<rparr>;
     replies \<leftarrow> od_fragments left words f;
     Some (info_bytes reply # replies)
   }"

definition requiered_fragments :: "nat \<Rightarrow> nat \<Rightarrow> u16" where
  "requiered_fragments total_size data_size =
     of_nat (total_size div data_size) + (if total_size mod data_size \<noteq> 0 then 1 else 0)"

definition fillList :: "dictionary \<Rightarrow> u16 \<Rightarrow> u16 \<Rightarrow> info_frame \<Rightarrow> info_result" where
  "fillList dict list_type access_check f = do {
     indexes \<leftarrow> od_select access_check dict;
     let to_reply = list_type # indexes;
     replies \<leftarrow> od_fragments (unat (requiered_fragments (2 * length to_reply) (length (info_bytes f)))) to_reply f;
     Some (FINALIZE, replies)
   }"

definition od_count :: "u16 \<Rightarrow> dictionary \<Rightarrow> u16 option" where
  "od_count access dict = map_option (\<lambda>indexes. of_nat (length indexes)) (od_select access dict)"

definition processODList :: "dictionary \<Rightarrow> info_frame \<Rightarrow> info_result" where
  "processODList dict f = do {
     let f = set_opcode GET_OD_LIST_RESP (set_len 6 f);
     raw \<leftarrow> mem_read (mf_payload f) 0 2;
     let list_type = from_le raw;
     if list_type = NUMBER then do {
       rxpdo_size \<leftarrow> od_count ACCESS_RxPDO dict;
       txpdo_size \<leftarrow> od_count ACCESS_TxPDO dict;
       backup_size \<leftarrow> od_count ACCESS_BACKUP dict;
       settings_size \<leftarrow> od_count ACCESS_SETTING dict;
       f \<leftarrow> put_payload 2 (le16 (of_nat (length dict)) @ le16 rxpdo_size @ le16 txpdo_size
              @ le16 backup_size @ le16 settings_size) f;
       Some (FINALIZE, [info_bytes (set_len (mh_len (mf_header f) + 12) f)])
     }
     else if list_type = 1 then fillList dict list_type ACCESS_ALL f
     else if list_type = 2 then fillList dict list_type ACCESS_RxPDO f
     else if list_type = 3 then fillList dict list_type ACCESS_TxPDO f
     else if list_type = 4 then fillList dict list_type ACCESS_BACKUP f
     else if list_type = 5 then fillList dict list_type ACCESS_SETTING f
     else Some (FINALIZE, [])
   }"

definition char_bytes :: "string \<Rightarrow> bytes" where
  "char_bytes s = map of_char s"

text \<open>A name is cut to the room that is left in the reply.\<close>

definition put_name :: "nat \<Rightarrow> string \<Rightarrow> info_frame \<Rightarrow> info_frame option" where
  "put_name width name f = do {
     let offset = 12 + width;
     let room = (if offset < length (info_bytes f) then length (info_bytes f) - offset else 0);
     let name_len = (if room < length name then room else length name);
     f \<leftarrow> put_payload width (char_bytes (take name_len name)) f;
     Some (set_len (mh_len (mf_header f) + of_nat (width + name_len)) f)
   }"

definition processOD :: "dictionary \<Rightarrow> info_frame \<Rightarrow> info_result" where
  "processOD dict f = do {
     let f = set_opcode GET_OD_RESP (set_len 6 f);
     raw \<leftarrow> mem_read (mf_payload f) 0 2;
     case findObject dict (from_le raw) 0 of
       (Some ob, Some e) \<Rightarrow> do {
         let object = dict ! ob;
         f \<leftarrow> put_payload 2 (le16 (en_type (entry_of dict (ob, e))) @ [en_subindex (last (ob_entries object))]
                @ [object_code (ob_code object)]) f;
         f \<leftarrow> put_name 6 (ob_name object) f;
         Some (FINALIZE, [info_bytes f])
       }
     | _ \<Rightarrow> info_abort OBJECT_DOES_NOT_EXIST f
   }"

definition processED :: "dictionary \<Rightarrow> info_frame \<Rightarrow> info_result" where
  "processED dict f = do {
     let f = set_opcode GET_ED_RESP (set_len 6 f);
     raw \<leftarrow> mem_read (mf_payload f) 0 3;
     case findObject dict (from_le (take 2 raw)) (raw ! 2) of
       (Some ob, Some e) \<Rightarrow> do {
         let entry = entry_of dict (ob, e);
         f \<leftarrow> put_payload 3 ([0] @ le16 (en_type entry) @ le16 (en_bitlen entry) @ le16 (en_access entry)) f;
         f \<leftarrow> put_name 10 (en_description entry) f;
         Some (FINALIZE, [info_bytes f])
       }
     | _ \<Rightarrow> info_abort SUBINDEX_DOES_NOT_EXIST f
   }"

definition info_process :: "dictionary option \<Rightarrow> bytes \<Rightarrow> info_result" where
  "info_process dictionary data = do {
     f \<leftarrow> info_overlay data;
     let opcode = si_opcode (mf_service f);
     if opcode = GET_OD_LIST_REQ then do { dict \<leftarrow> dictionary; processODList dict f }
     else if opcode = GET_OD_REQ then do { dict \<leftarrow> dictionary; processOD dict f }
     else if opcode = GET_ED_REQ then do { dict \<leftarrow> dictionary; processED dict f }
     else info_abort COMMAND_SPECIFIER_INVALID f
   }"

section \<open>Response mailbox\<close>

datatype rmsg = SdoMsg sdo_message | SdoInfoMsg bytes | MailboxErrorMsg bytes u16

definition createSDOMessage :: "bytes \<Rightarrow> rmsg option option" where
  "createSDOMessage raw_message = do {
     header \<leftarrow> header_of raw_message;
     if mh_type header \<noteq> CoE then Some None
     else do {
       coe \<leftarrow> coe_of raw_message;
       let service = coe_service coe;
       if service = SDO_REQUEST then Some (Some (SdoMsg (SDOMessage_new raw_message)))
       else if service \<in> set [EMERGENCY, SDO_RESPONSE, TxPDO_REQUEST, RxPDO_REQUEST, TxPDO_REMOTE_REQUEST, RxPDO_REMOTE_REQUEST]
       then Some None
       else if service = SDO_INFORMATION then Some (Some (SdoInfoMsg raw_message))
       else Some (Some (MailboxErrorMsg raw_message INVALID_HEADER))
     }
   }"

type_synonym rmsg_result = "(ProcessingResult \<times> rmsg \<times> bytes list \<times> heap) option"

fun rmsg_process :: "hooks \<Rightarrow> dictionary option \<Rightarrow> rmsg \<Rightarrow> heap \<Rightarrow> rmsg_result" where
  "rmsg_process hk dictionary (SdoMsg m) h =
     do { (r, m, replies, h) \<leftarrow> SDO_process hk dictionary m h; Some (r, SdoMsg m, replies, h) }"
| "rmsg_process hk dictionary (SdoInfoMsg data) h =
     do { (r, replies) \<leftarrow> info_process dictionary data; Some (r, SdoInfoMsg data, replies, h) }"
| "rmsg_process hk dictionary (MailboxErrorMsg data error) h =
     Some (FINALIZE, MailboxErrorMsg [] error, [replyError data INVALID_HEADER], h)"

fun rmsg_process_raw :: "hooks \<Rightarrow> dictionary option \<Rightarrow> bytes \<Rightarrow> rmsg \<Rightarrow> heap \<Rightarrow> rmsg_result" where
  "rmsg_process_raw hk dictionary raw (SdoMsg m) h =
     do { (r, m, replies, h) \<leftarrow> SDO_process_raw hk dictionary raw m h; Some (r, SdoMsg m, replies, h) }"
| "rmsg_process_raw hk dictionary raw m h = Some (NOOP, m, [], h)"

record response_mailbox =
  rb_config :: mbx_config
  rb_max_msgs :: u16
  rb_factories :: "(bytes \<Rightarrow> rmsg option option) list"
  rb_dictionary :: "dictionary option"
  rb_to_process :: "rmsg list"
  rb_to_send :: "bytes list"
  rb_last_sent :: bytes
  rb_repeat :: bytes

definition Mailbox_new :: "u16 \<Rightarrow> u16 \<Rightarrow> response_mailbox" where
  "Mailbox_new max_allocated_ram_by_msg max_msgs =
     \<lparr>rb_config = \<lparr>mc_in = SM_NONE, mc_out = SM_NONE, mc_max_allocated_ram_by_msg = max_allocated_ram_by_msg\<rparr>,
      rb_max_msgs = max_msgs, rb_factories = [], rb_dictionary = None, rb_to_process = [], rb_to_send = [],
      rb_last_sent = [], rb_repeat = []\<rparr>"

definition enableCoE :: "dictionary \<Rightarrow> response_mailbox \<Rightarrow> response_mailbox" where
  "enableCoE dict mb = mb\<lparr>rb_dictionary := Some dict, rb_factories := rb_factories mb @ [createSDOMessage]\<rparr>"

text \<open>Both loops over \<open>to_process_\<close> stop at the first message that takes the event.\<close>

fun run_messages :: "(rmsg \<Rightarrow> heap \<Rightarrow> rmsg_result) \<Rightarrow> rmsg list \<Rightarrow> heap \<Rightarrow> (bool \<times> rmsg list \<times> bytes list \<times> heap) option" where
  "run_messages step [] h = Some (False, [], [], h)"
| "run_messages step (m # ms) h = do {
     (state, m, replies, h) \<leftarrow> step m h;
     case state of
       NOOP \<Rightarrow> do {
         (taken, ms, replies', h) \<leftarrow> run_messages step ms h;
         Some (taken, m # ms, replies @ replies', h)
       }
     | CONTINUE \<Rightarrow> Some (True, m # ms, replies, h)
     | FINALIZE_AND_KEEP \<Rightarrow> Some (True, m # ms, replies, h)
     | FINALIZE \<Rightarrow> Some (True, ms, replies, h)
   }"

fun try_factories :: "(bytes \<Rightarrow> rmsg option option) list \<Rightarrow> bytes \<Rightarrow> rmsg option option" where
  "try_factories [] raw = Some None"
| "try_factories (factory # rest) raw = do {
     msg \<leftarrow> factory raw;
     case msg of Some m \<Rightarrow> Some (Some m) | None \<Rightarrow> try_factories rest raw
   }"

definition handleMessage :: "hooks \<Rightarrow> bytes \<Rightarrow> response_mailbox \<Rightarrow> heap \<Rightarrow> (response_mailbox \<times> heap) option" where
  "handleMessage hk raw mb h = do {
     (taken, ms, replies, h) \<leftarrow> run_messages (rmsg_process_raw hk (rb_dictionary mb) raw) (rb_to_process mb) h;
     let mb = mb\<lparr>rb_to_process := ms, rb_to_send := rb_to_send mb @ replies\<rparr>;
     if taken then Some (mb, h)
     else if unat (rb_max_msgs mb) \<le> length ms
     then Some (mb\<lparr>rb_to_send := rb_to_send mb @ [replyError raw NO_MORE_MEMORY]\<rparr>, h)
     else do {
       msg \<leftarrow> try_factories (rb_factories mb) raw;
       case msg of
         Some m \<Rightarrow> Some (mb\<lparr>rb_to_process := ms @ [m]\<rparr>, h)
       | None \<Rightarrow> Some (mb\<lparr>rb_to_send := rb_to_send mb @ [replyError raw UNSUPPORTED_PROTOCOL]\<rparr>, h)
     }
   }"

definition Mailbox_process :: "hooks \<Rightarrow> response_mailbox \<Rightarrow> heap \<Rightarrow> (response_mailbox \<times> heap) option" where
  "Mailbox_process hk mb h = do {
     (taken, ms, replies, h) \<leftarrow> run_messages (rmsg_process hk (rb_dictionary mb)) (rb_to_process mb) h;
     Some (mb\<lparr>rb_to_process := ms, rb_to_send := rb_to_send mb @ replies\<rparr>, h)
   }"

definition popReply :: "response_mailbox \<Rightarrow> bytes \<times> response_mailbox" where
  "popReply mb = (case rb_to_send mb of [] \<Rightarrow> ([], mb) | msg # rest \<Rightarrow> (msg, mb\<lparr>rb_to_send := rest\<rparr>))"

definition processRequest :: "hooks \<Rightarrow> bytes \<Rightarrow> response_mailbox \<Rightarrow> heap \<Rightarrow> (bytes \<times> response_mailbox \<times> heap) option" where
  "processRequest hk raw mb h = do {
     (mb, h) \<leftarrow> handleMessage hk raw mb h;
     (mb, h) \<leftarrow> Mailbox_process hk mb h;
     let (reply, mb) = popReply mb;
     Some (reply, mb, h)
   }"

section \<open>Exchange with the slave controller\<close>

definition SM_STATUS_IRQ_READ :: u8 where [simp]: "SM_STATUS_IRQ_READ = 0x02"
definition SM_STATUS_MAILBOX :: u8 where [simp]: "SM_STATUS_MAILBOX = 0x08"
definition SM_ACTIVATE_REPEAT_REQ :: u8 where [simp]: "SM_ACTIVATE_REPEAT_REQ = 0x02"

definition Mailbox_receive ::
  "'e esc_ops \<Rightarrow> hooks \<Rightarrow> response_mailbox \<Rightarrow> heap \<Rightarrow> 'e \<Rightarrow> (response_mailbox \<times> heap \<times> 'e) option" where
  "Mailbox_receive ops hk mb h e =
     (let mbx_out = mc_out (rb_config mb);
          (rc, raw, e) = esc_read ops (addressSM (sc_index mbx_out)) (replicate 8 (esc_uninit ops)) e
      in if sm_status (dec_sm_register raw) AND SM_STATUS_MAILBOX = 0 then Some (mb, h, e)
         else let (read_bytes, raw_message, e) =
                esc_read ops (sc_start_address mbx_out) (replicate (unat (sc_length mbx_out)) 0) e
         in if read_bytes \<noteq> uint (sc_length mbx_out) then Some (mb, h, e)
            else do { (mb, h) \<leftarrow> handleMessage hk raw_message mb h; Some (mb, h, e) })"

definition repeat_last ::
  "'e esc_ops \<Rightarrow> nat \<Rightarrow> sm_register \<Rightarrow> response_mailbox \<Rightarrow> 'e \<Rightarrow> 'e option" where
  "repeat_last ops fuel sync mb e =
     (let mbx_in = mc_in (rb_config mb)
      in do {
        e \<leftarrow> (if sm_status sync AND SM_STATUS_MAILBOX \<noteq> 0
             then do { e \<leftarrow> deactivateSm ops fuel mbx_in e; activateSm ops fuel mbx_in e } else Some e);
        let (rc, e) = esc_write ops (sc_start_address mbx_in) (rb_repeat mb) e;
        let (rc, e) = esc_write ops (addressSM (sc_index mbx_in) + 7) [sm_activate sync AND SM_ACTIVATE_REPEAT_REQ] e;
        Some e
      })"

definition Mailbox_send :: "'e esc_ops \<Rightarrow> nat \<Rightarrow> response_mailbox \<Rightarrow> 'e \<Rightarrow> (response_mailbox \<times> 'e) option" where
  "Mailbox_send ops fuel mb e =
     (let mbx_in = mc_in (rb_config mb);
          (rc, raw, e) = esc_read ops (addressSM (sc_index mbx_in)) (replicate 8 (esc_uninit ops)) e;
          sync = dec_sm_register raw;
          (mb, e) = (if sm_status sync AND SM_STATUS_IRQ_READ \<noteq> 0
                     then (mb\<lparr>rb_repeat := rb_last_sent mb\<rparr>, snd (esc_write ops (sc_start_address mbx_in) [0] e))
                     else (mb, e))
      in if sm_activate sync AND SM_ACTIVATE_REPEAT_REQ \<noteq> sm_pdi_control sync AND SM_ACTIVATE_REPEAT_REQ
         then do { e \<leftarrow> repeat_last ops fuel sync mb e; Some (mb, e) }
         else if sm_status sync AND SM_STATUS_MAILBOX \<noteq> 0 then Some (mb, e)
         else case rb_to_send mb of
                [] \<Rightarrow> Some (mb, e)
              | msg # rest \<Rightarrow>
                  let (written_bytes, e) = esc_write ops (sc_start_address mbx_in) msg e
                  in if 0 < written_bytes then Some (mb\<lparr>rb_last_sent := msg, rb_to_send := rest\<rparr>, e)
                     else Some (mb, e))"
end
