(* ===== verification/SdoClient.thy ===== *)
theory SdoClient
  imports SdoServer
begin

text \<open>
  The master side of the mailbox: the messages of \<open>lib/src/CoE/mailbox/request.cc\<close>, the gateway
  messages and the request mailbox of \<open>lib/src/Mailbox.cc\<close>.

  A message keeps pointers to the application's buffer and to its size; the model keeps that
  buffer and that size in the message, with the distance \<open>client_data_\<close> has advanced. Messages are
  shared between the queues and the application: the mailbox holds all messages it created in
  \<open>qb_messages\<close> and a pointer is an index into it. The clock is read by the caller and given as an
  argument. \<open>None\<close> is an access outside a buffer.
\<close>

section \<open>Abstract message\<close>

definition SUCCESS :: u32 where [simp]: "SUCCESS = 0x000"
definition RUNNING :: u32 where [simp]: "RUNNING = 0x001"
definition TIMEDOUT :: u32 where [simp]: "TIMEDOUT = 0x002"
definition COE_WRONG_SERVICE :: u32 where [simp]: "COE_WRONG_SERVICE = 0x101"
definition COE_UNKNOWN_SERVICE :: u32 where [simp]: "COE_UNKNOWN_SERVICE = 0x102"
definition COE_CLIENT_BUFFER_TOO_SMALL :: u32 where [simp]: "COE_CLIENT_BUFFER_TOO_SMALL = 0x103"
definition COE_SEGMENT_BAD_TOGGLE_BIT :: u32 where [simp]: "COE_SEGMENT_BAD_TOGGLE_BIT = 0x104"

record abstract_message =
  am_data :: bytes
  am_status :: u32
  am_timeout :: int

definition AbstractMessage_new :: "u16 \<Rightarrow> int \<Rightarrow> int \<Rightarrow> abstract_message" where
  "AbstractMessage_new mailbox_size timeout now =
     \<lparr>am_data = replicate (max (unat mailbox_size) 6) 0, am_status = RUNNING,
      am_timeout = (if timeout \<noteq> 0 then timeout + now else timeout)\<rparr>"

definition message_status :: "int \<Rightarrow> abstract_message \<Rightarrow> abstract_message" where
  "message_status current_time m =
     (if am_status m = RUNNING \<and> am_timeout m \<noteq> 0 \<and> am_timeout m < current_time then m\<lparr>am_status := TIMEDOUT\<rparr> else m)"

definition put_header :: "(mailbox_header \<Rightarrow> mailbox_header) \<Rightarrow> bytes \<Rightarrow> bytes" where
  "put_header upd d = poke d 0 (enc_mailbox_header (upd (dec_mailbox_header (peek d 0 6))))"

definition setCounter :: "u8 \<Rightarrow> abstract_message \<Rightarrow> abstract_message" where
  "setCounter counter m = m\<lparr>am_data := put_header (\<lambda>hdr. hdr\<lparr>mh_count := ucast (counter AND 0x7)\<rparr>) (am_data m)\<rparr>"

definition setAddress :: "u16 \<Rightarrow> abstract_message \<Rightarrow> abstract_message" where
  "setAddress address m = m\<lparr>am_data := put_header (\<lambda>hdr. hdr\<lparr>mh_address := address\<rparr>) (am_data m)\<rparr>"

section \<open>SDO requests\<close>

record sdo_request =
  cl_base :: abstract_message
  cl_data :: bytes
  cl_pos :: nat
  cl_data_size :: u32
  cl_buffer_size :: u32
  cl_download_remaining :: u32

definition with_frame :: "sdo_frame \<Rightarrow> sdo_request \<Rightarrow> sdo_request" where
  "with_frame f m = m\<lparr>cl_base := (cl_base m)\<lparr>am_data := sdo_bytes f\<rparr>\<rparr>"

definition with_status :: "u32 \<Rightarrow> sdo_request \<Rightarrow> sdo_request" where
  "with_status status m = m\<lparr>cl_base := (cl_base m)\<lparr>am_status := status\<rparr>\<rparr>"

definition SDORequest_new ::
  "u16 \<Rightarrow> u16 \<Rightarrow> u8 \<Rightarrow> bool \<Rightarrow> u8 \<Rightarrow> bytes \<Rightarrow> u32 \<Rightarrow> int \<Rightarrow> int \<Rightarrow> sdo_request option" where
  "SDORequest_new mailbox_size index subindex CA request data data_size timeout now = do {
     let base = AbstractMessage_new mailbox_size timeout now;
     let m = \<lparr>cl_base = base, cl_data = data, cl_pos = 0, cl_data_size = data_size, cl_buffer_size = data_size,
              cl_download_remaining = 0\<rparr>;
     f \<leftarrow> sdo_overlay (am_data base);
     let f = f\<lparr>mf_header := (mf_header f)\<lparr>mh_len := 10, mh_priority := 0, mh_channel := 0, mh_type := CoE\<rparr>,
               mf_coe := (mf_coe f)\<lparr>coe_number := 0, coe_service := SDO_REQUEST\<rparr>,
               mf_service := \<lparr>sd_size_indicator = 0, sd_transfer_type = 0, sd_block_size = 0,
                  sd_complete_access = toggle_bit CA, sd_command = ucast (request AND 0x7), sd_index = index, sd_subindex = subindex\<rparr>\<rparr>;
     if request = ucast REQ_DOWNLOAD then
       if data_size \<le> 4 then do {
         let f = f\<lparr>mf_service := (mf_service f)\<lparr>sd_transfer_type := 1, sd_size_indicator := 1,
                    sd_block_size := ucast ((4 - data_size) AND 0x3)\<rparr>\<rparr>;
         d \<leftarrow> mem_read data 0 (unat data_size);
         f \<leftarrow> put_payload 0 d f;
         Some (with_frame f m)
       } else if unat data_size + 16 \<le> length (am_data base) then do {
         let f = set_len (mh_len (mf_header f) + ucast data_size) f;
         d \<leftarrow> mem_read data 0 (unat data_size);
         f \<leftarrow> put_payload 0 (le32 data_size) f;
         f \<leftarrow> put_payload 4 d f;
         Some (with_frame f m)
       } else do {
         let f = f\<lparr>mf_service := (mf_service f)\<lparr>sd_size_indicator := 1\<rparr>\<rparr>;
         f \<leftarrow> put_payload 0 (le32 data_size) f;
         Some (with_frame f (m\<lparr>cl_download_remaining := data_size\<rparr>))
       }
     else Some (with_frame f m)
   }"

type_synonym sdo_request_result = "(ProcessingResult \<times> sdo_request) option"

definition processUpload :: "sdo_frame \<Rightarrow> sdo_frame \<Rightarrow> sdo_request \<Rightarrow> sdo_request_result" where
  "processUpload own r m =
     (let sdo = mf_service r
      in if sd_command sdo \<noteq> RESP_UPLOAD then Some (FINALIZE, with_status COE_WRONG_SERVICE m)
         else if sd_transfer_type sdo = 1 then do {
           let size = 4 - ucast (sd_block_size sdo);
           if cl_data_size m < size then Some (FINALIZE, with_status COE_CLIENT_BUFFER_TOO_SMALL m)
           else do {
             d \<leftarrow> mem_read (mf_payload r) 0 (unat size);
             data \<leftarrow> mem_write (cl_data m) (cl_pos m) d;
             Some (FINALIZE, with_status SUCCESS (m\<lparr>cl_data := data, cl_data_size := size\<rparr>))
           }
         }
         else if mh_len (mf_header r) < 10 then Some (FINALIZE, with_status COE_WRONG_SERVICE m)
         else do {
           raw \<leftarrow> mem_read (mf_payload r) 0 4;
           let complete_size = from_le raw;
           if cl_data_size m < complete_size then Some (FINALIZE, with_status COE_CLIENT_BUFFER_TOO_SMALL m)
           else if complete_size \<le> ucast (mh_len (mf_header r)) - 10 then do {
             d \<leftarrow> mem_read (mf_payload r) 4 (unat complete_size);
             data \<leftarrow> mem_write (cl_data m) (cl_pos m) d;
             Some (FINALIZE, with_status SUCCESS (m\<lparr>cl_data := data, cl_data_size := complete_size\<rparr>))
           } else
             let own = set_len 10 (set_service SDO_REQUEST own);
                 own = own\<lparr>mf_service := (mf_service own)\<lparr>sd_command := REQ_UPLOAD_SEGMENTED, sd_complete_access := 0,
                            sd_block_size := 0, sd_transfer_type := 0, sd_size_indicator := 0\<rparr>\<rparr>
             in Some (CONTINUE, with_status RUNNING (with_frame own (m\<lparr>cl_data_size := 0\<rparr>)))
         })"

definition processUploadSegmented :: "bytes \<Rightarrow> sdo_frame \<Rightarrow> sdo_frame \<Rightarrow> sdo_request \<Rightarrow> sdo_request_result" where
  "processUploadSegmented received own r m =
     (let sdo = mf_service r
      in if sd_command sdo \<noteq> RESP_UPLOAD_SEGMENTED then Some (FINALIZE, with_status COE_WRONG_SERVICE m)
         else if sd_complete_access sdo \<noteq> sd_complete_access (mf_service own)
         then Some (FINALIZE, with_status COE_SEGMENT_BAD_TOGGLE_BIT m)
         else if mh_len (mf_header r) < 10 then Some (FINALIZE, with_status COE_WRONG_SERVICE m)
         else do {
           let size = segmentDataLength (mh_len (mf_header r)) sdo;
           if cl_buffer_size m - cl_data_size m < size
           then Some (FINALIZE, with_status COE_CLIENT_BUFFER_TOO_SMALL m)
           else do {
             d \<leftarrow> mem_read received 9 (unat size);
             data \<leftarrow> mem_write (cl_data m) (cl_pos m) d;
             let m = m\<lparr>cl_data := data, cl_pos := cl_pos m + unat size, cl_data_size := cl_data_size m + size\<rparr>;
             if sd_size_indicator sdo \<noteq> 0 then Some (FINALIZE, with_status SUCCESS m)
             else
               let own = own\<lparr>mf_service := (mf_service own)\<lparr>sd_complete_access := NOT (sd_complete_access (mf_service own))\<rparr>\<rparr>
               in Some (CONTINUE, with_frame own m)
           }
         })"

definition prepareDownloadSegment :: "sdo_frame \<Rightarrow> sdo_request \<Rightarrow> sdo_request option" where
  "prepareDownloadSegment own m = do {
     let max_seg = of_nat (length (am_data (cl_base m))) - 9;
     let chunk = (if max_seg < cl_download_remaining m then max_seg else cl_download_remaining m);
     buffer \<leftarrow> (if chunk < 7 then mem_write (sdo_bytes own) 9 (replicate 7 0) else Some (sdo_bytes own));
     d \<leftarrow> mem_read (cl_data m) (cl_pos m) (unat chunk);
     buffer \<leftarrow> mem_write buffer 9 d;
     own \<leftarrow> sdo_overlay buffer;
     let m = m\<lparr>cl_pos := cl_pos m + unat chunk, cl_download_remaining := cl_download_remaining m - chunk\<rparr>;
     let sdo = (mf_service own)\<lparr>sd_command := REQ_DOWNLOAD_SEGMENTED\<rparr>;
     let (len, sdo) = setSegmentLength sdo chunk;
     let sdo = sdo\<lparr>sd_size_indicator := (if cl_download_remaining m = 0 then 1 else 0)\<rparr>;
     Some (with_frame (set_len len (set_service SDO_REQUEST (own\<lparr>mf_service := sdo\<rparr>))) m)
   }"

definition processDownload :: "sdo_frame \<Rightarrow> sdo_frame \<Rightarrow> sdo_request \<Rightarrow> sdo_request_result" where
  "processDownload own r m =
     (if sd_command (mf_service r) \<noteq> RESP_DOWNLOAD then Some (FINALIZE, with_status COE_WRONG_SERVICE m)
      else if cl_download_remaining m = 0 then Some (FINALIZE, with_status SUCCESS m)
      else do {
        m \<leftarrow> prepareDownloadSegment (own\<lparr>mf_service := (mf_service own)\<lparr>sd_complete_access := 0\<rparr>\<rparr>) m;
        Some (CONTINUE, with_status RUNNING m)
      })"

definition processDownloadSegmented :: "sdo_frame \<Rightarrow> sdo_frame \<Rightarrow> sdo_request \<Rightarrow> sdo_request_result" where
  "processDownloadSegmented own r m =
     (if sd_command (mf_service r) \<noteq> RESP_DOWNLOAD_SEGMENTED then Some (FINALIZE, with_status COE_WRONG_SERVICE m)
      else if sd_complete_access (mf_service r) \<noteq> sd_complete_access (mf_service own)
      then Some (FINALIZE, with_status COE_SEGMENT_BAD_TOGGLE_BIT m)
      else if cl_download_remaining m = 0 then Some (FINALIZE, with_status SUCCESS m)
      else do {
        m \<leftarrow> prepareDownloadSegment
          (own\<lparr>mf_service := (mf_service own)\<lparr>sd_complete_access := NOT (sd_complete_access (mf_service own))\<rparr>\<rparr>) m;
        Some (CONTINUE, m)
      })"

definition SDORequest_process :: "bytes \<Rightarrow> sdo_request \<Rightarrow> sdo_request_result" where
  "SDORequest_process received m = do {
     r \<leftarrow> sdo_overlay received;
     own \<leftarrow> sdo_overlay (am_data (cl_base m));
     let header = mf_header r;
     let sdo = mf_service r;
     let command = sd_command (mf_service own);
     if mh_address header AND GATEWAY_MESSAGE_MASK \<noteq> 0 then Some (NOOP, m)
     else if mh_type header \<noteq> CoE then Some (NOOP, m)
     else if coe_service (mf_coe r) \<noteq> SDO_REQUEST \<and> coe_service (mf_coe r) \<noteq> SDO_RESPONSE then Some (NOOP, m)
     else if (command = REQ_UPLOAD \<or> command = REQ_DOWNLOAD)
        \<and> (sd_index sdo \<noteq> sd_index (mf_service own) \<or> sd_subindex sdo \<noteq> sd_subindex (mf_service own))
     then Some (NOOP, m)
     else if sd_command sdo = REQ_ABORT then do {
       raw \<leftarrow> mem_read (mf_payload r) 0 4;
       Some (FINALIZE, with_status (from_le raw) m)
     }
     else if length (am_data (cl_base m)) < 6 + unat (mh_len header)
     then Some (FINALIZE, with_status COE_WRONG_SERVICE m)
     else if command = REQ_UPLOAD then processUpload own r m
     else if command = REQ_UPLOAD_SEGMENTED then processUploadSegmented received own r m
     else if command = REQ_DOWNLOAD then processDownload own r m
     else if command = REQ_DOWNLOAD_SEGMENTED then processDownloadSegmented own r m
     else Some (FINALIZE, with_status COE_UNKNOWN_SERVICE m)
   }"

section \<open>SDO information requests\<close>

record info_request =
  ci_base :: abstract_message
  ci_data :: bytes
  ci_pos :: nat
  ci_data_size :: u32
  ci_already_received_size :: u32

definition info_status :: "u32 \<Rightarrow> info_request \<Rightarrow> info_request" where
  "info_status status m = m\<lparr>ci_base := (ci_base m)\<lparr>am_status := status\<rparr>\<rparr>"

definition InfoRequest_new ::
  "u16 \<Rightarrow> u8 \<Rightarrow> bytes \<Rightarrow> u32 \<Rightarrow> u32 \<Rightarrow> int \<Rightarrow> int \<Rightarrow> info_request option" where
  "InfoRequest_new mailbox_size request data data_size request_payload_size timeout now = do {
     let base = AbstractMessage_new mailbox_size timeout now;
     f \<leftarrow> info_overlay (am_data base);
     let f = f\<lparr>mf_header := (mf_header f)\<lparr>mh_len := ucast (6 + request_payload_size), mh_priority := 0, mh_channel := 0,
                 mh_type := CoE, mh_reserved := 0\<rparr>,
               mf_coe := \<lparr>coe_number = 0, coe_reserved = 0, coe_service = SDO_INFORMATION\<rparr>,
               mf_service := \<lparr>si_opcode = ucast (request AND 0x7F), si_incomplete = 0, si_reserved = 0, si_fragments_left = 0\<rparr>\<rparr>;
     d \<leftarrow> mem_read data 0 (unat request_payload_size);
     f \<leftarrow> put_payload 0 d f;
     Some \<lparr>ci_base = base\<lparr>am_data := info_bytes f\<rparr>, ci_data = data, ci_pos = 0, ci_data_size = data_size,
           ci_already_received_size = 0\<rparr>
   }"

definition processResponse :: "info_frame \<Rightarrow> 7 word \<Rightarrow> info_request \<Rightarrow> (ProcessingResult \<times> info_request) option" where
  "processResponse r expected_opcode m =
     (if si_opcode (mf_service r) \<noteq> expected_opcode then Some (FINALIZE, info_status COE_WRONG_SERVICE m)
      else
        let size = int (unat (mh_len (mf_header r))) - 6;
            remaining_size = sint (ci_data_size m - ci_already_received_size m)
        in if size < 0 then Some (FINALIZE, info_status GENERAL_ERROR m)
           else do {
             m \<leftarrow> (if remaining_size < size then Some (info_status COE_CLIENT_BUFFER_TOO_SMALL m)
                   else do {
                     d \<leftarrow> mem_read (mf_payload r) 0 (nat size);
                     data \<leftarrow> mem_write (ci_data m) (ci_pos m) d;
                     Some (m\<lparr>ci_data := data, ci_pos := ci_pos m + nat size\<rparr>)
                   });
             let m = m\<lparr>ci_already_received_size := ci_already_received_size m + of_int size\<rparr>;
             if 0 < si_fragments_left (mf_service r) then Some (FINALIZE_AND_KEEP, m)
             else if am_status (ci_base m) = RUNNING
             then Some (FINALIZE, info_status SUCCESS (m\<lparr>ci_data_size := ci_already_received_size m\<rparr>))
             else Some (FINALIZE, m)
           })"

definition InfoRequest_process :: "bytes \<Rightarrow> info_request \<Rightarrow> (ProcessingResult \<times> info_request) option" where
  "InfoRequest_process received m = do {
     r \<leftarrow> info_overlay received;
     own \<leftarrow> info_overlay (am_data (ci_base m));
     let opcode = si_opcode (mf_service own);
     if mh_address (mf_header r) AND GATEWAY_MESSAGE_MASK \<noteq> 0 then Some (NOOP, m)
     else if mh_type (mf_header r) \<noteq> CoE then Some (NOOP, m)
     else if coe_service (mf_coe r) \<noteq> SDO_INFORMATION then Some (NOOP, m)
     else if si_opcode (mf_service r) = SDO_INFO_ERROR_REQ then do {
       raw \<leftarrow> mem_read (mf_payload r) 0 4;
       Some (FINALIZE, info_status (from_le raw) m)
     }
     else if opcode = GET_OD_LIST_REQ then processResponse r GET_OD_LIST_RESP m
     else if opcode = GET_OD_REQ then processResponse r GET_OD_RESP m
     else if opcode = GET_ED_REQ then processResponse r GET_ED_RESP m
     else Some (FINALIZE, info_status COE_UNKNOWN_SERVICE m)
   }"

section \<open>Emergencies, stray messages and gateway messages\<close>

record emergency =
  eg_error_code :: u16
  eg_error_register :: u8
  eg_data :: bytes

definition dec_emergency :: "bytes \<Rightarrow> emergency" where
  "dec_emergency bs = \<lparr>eg_error_code = get16 bs 0, eg_error_register = bs ! 2, eg_data = peek bs 3 5\<rparr>"

definition Emergency_process :: "bytes \<Rightarrow> (ProcessingResult \<times> emergency list) option" where
  "Emergency_process received = do {
     header \<leftarrow> header_of received;
     if mh_type header \<noteq> CoE then Some (NOOP, [])
     else do {
       coe \<leftarrow> coe_of received;
       if coe_service coe \<noteq> EMERGENCY then Some (NOOP, [])
       else do {
         raw \<leftarrow> mem_read received 8 8;
         Some (FINALIZE_AND_KEEP, [dec_emergency raw])
       }
     }
   }"

definition Check_process :: "bytes \<Rightarrow> abstract_message \<Rightarrow> (ProcessingResult \<times> abstract_message) option" where
  "Check_process received m = do {
     header \<leftarrow> header_of received;
     if mh_type header = ERR then Some (NOOP, m)
     else if mh_type header = CoE then do {
       coe \<leftarrow> coe_of received;
       if coe_service coe = SDO_REQUEST then do {
         r \<leftarrow> sdo_overlay received;
         if sd_command (mf_service r) = REQ_ABORT then Some (NOOP, m)
         else Some (FINALIZE_AND_KEEP, m\<lparr>am_status := SUCCESS\<rparr>)
       } else Some (NOOP, m)
     }
     else Some (FINALIZE_AND_KEEP, m\<lparr>am_status := SUCCESS\<rparr>)
   }"

record gateway_message =
  gw_base :: abstract_message
  gw_address :: u16
  gw_gateway_index :: u16

definition GatewayMessage_new :: "u16 \<Rightarrow> bytes \<Rightarrow> u16 \<Rightarrow> int \<Rightarrow> int \<Rightarrow> gateway_message option" where
  "GatewayMessage_new mailbox_size raw_message gateway_index timeout now = do {
     let base = AbstractMessage_new mailbox_size timeout now;
     header \<leftarrow> header_of raw_message;
     let size = 6 + unat (mh_len header);
     let size = (if length (am_data base) < size then length (am_data base) else size);
     d \<leftarrow> mem_read raw_message 0 size;
     data \<leftarrow> mem_write (am_data base) 0 d;
     header \<leftarrow> header_of data;
     Some \<lparr>gw_base = setAddress (GATEWAY_MESSAGE_MASK OR gateway_index) (base\<lparr>am_data := data\<rparr>),
           gw_address = mh_address header, gw_gateway_index = gateway_index\<rparr>
   }"

definition GatewayMessage_reply :: "bytes \<Rightarrow> u16 \<Rightarrow> gateway_message option" where
  "GatewayMessage_reply reply gateway_index = do {
     header \<leftarrow> header_of reply;
     Some \<lparr>gw_base = \<lparr>am_data = reply, am_status = SUCCESS, am_timeout = 0\<rparr>,
           gw_address = mh_address header, gw_gateway_index = gateway_index\<rparr>
   }"

definition Gateway_process :: "bytes \<Rightarrow> gateway_message \<Rightarrow> (ProcessingResult \<times> gateway_message) option" where
  "Gateway_process received m = do {
     header \<leftarrow> header_of received;
     own \<leftarrow> header_of (am_data (gw_base m));
     if mh_address header \<noteq> mh_address own then Some (NOOP, m)
     else do {
       let size = unat (mh_len header) + 6;
       if length (am_data (gw_base m)) < size then Some (NOOP, m)
       else do {
         d \<leftarrow> mem_read received 0 size;
         let base = setAddress (gw_address m) ((gw_base m)\<lparr>am_data := d\<rparr>);
         Some (FINALIZE, m\<lparr>gw_base := base\<lparr>am_status := SUCCESS\<rparr>\<rparr>)
       }
     }
   }"

section \<open>Request mailbox\<close>

datatype qmsg = SdoReq sdo_request | InfoReq info_request | GatewayReq gateway_message
  | EmergencyReq abstract_message | CheckReq abstract_message

fun qmsg_base :: "qmsg \<Rightarrow> abstract_message" where
  "qmsg_base (SdoReq m) = cl_base m"
| "qmsg_base (InfoReq m) = ci_base m"
| "qmsg_base (GatewayReq m) = gw_base m"
| "qmsg_base (EmergencyReq m) = m"
| "qmsg_base (CheckReq m) = m"

fun qmsg_map_base :: "(abstract_message \<Rightarrow> abstract_message) \<Rightarrow> qmsg \<Rightarrow> qmsg" where
  "qmsg_map_base g (SdoReq m) = SdoReq (m\<lparr>cl_base := g (cl_base m)\<rparr>)"
| "qmsg_map_base g (InfoReq m) = InfoReq (m\<lparr>ci_base := g (ci_base m)\<rparr>)"
| "qmsg_map_base g (GatewayReq m) = GatewayReq (m\<lparr>gw_base := g (gw_base m)\<rparr>)"
| "qmsg_map_base g (EmergencyReq m) = EmergencyReq (g m)"
| "qmsg_map_base g (CheckReq m) = CheckReq (g m)"

fun qmsg_process :: "bytes \<Rightarrow> qmsg \<Rightarrow> (ProcessingResult \<times> qmsg \<times> emergency list) option" where
  "qmsg_process raw (SdoReq m) = do { (r, m) \<leftarrow> SDORequest_process raw m; Some (r, SdoReq m, []) }"
| "qmsg_process raw (InfoReq m) = do { (r, m) \<leftarrow> InfoRequest_process raw m; Some (r, InfoReq m, []) }"
| "qmsg_process raw (GatewayReq m) = do { (r, m) \<leftarrow> Gateway_process raw m; Some (r, GatewayReq m, []) }"
| "qmsg_process raw (EmergencyReq m) = do { (r, es) \<leftarrow> Emergency_process raw; Some (r, EmergencyReq m, es) }"
| "qmsg_process raw (CheckReq m) = do { (r, m) \<leftarrow> Check_process raw m; Some (r, CheckReq m, []) }"

record request_mailbox =
  qb_recv_offset :: u16
  qb_recv_size :: u16
  qb_send_offset :: u16
  qb_send_size :: u16
  qb_counter :: u8
  qb_to_send :: "nat list"
  qb_to_process :: "nat list"
  qb_emergencies :: "emergency list"
  qb_messages :: "qmsg list"

definition generateSMConfig :: "request_mailbox \<Rightarrow> sm_register \<times> sm_register" where
  "generateSMConfig mb =
     (\<lparr>sm_start_address = qb_recv_offset mb, sm_length = qb_recv_size mb, sm_control = 0x26, sm_status = 0x00,
       sm_activate = 0x01, sm_pdi_control = 0x00\<rparr>,
      \<lparr>sm_start_address = qb_send_offset mb, sm_length = qb_send_size mb, sm_control = 0x22, sm_status = 0x00,
       sm_activate = 0x01, sm_pdi_control = 0x00\<rparr>)"

text \<open>A new message gets the next counter and is queued; its index is the pointer returned.\<close>

definition enqueue :: "qmsg \<Rightarrow> request_mailbox \<Rightarrow> nat \<times> request_mailbox" where
  "enqueue msg mb =
     (let counter = nextCounter (qb_counter mb)
      in (length (qb_messages mb),
          mb\<lparr>qb_counter := counter, qb_messages := qb_messages mb @ [qmsg_map_base (setCounter counter) msg],
             qb_to_send := qb_to_send mb @ [length (qb_messages mb)]\<rparr>))"

definition createSDO ::
  "u16 \<Rightarrow> u8 \<Rightarrow> bool \<Rightarrow> u8 \<Rightarrow> bytes \<Rightarrow> u32 \<Rightarrow> int \<Rightarrow> int \<Rightarrow> request_mailbox \<Rightarrow> (string + nat \<times> request_mailbox) option" where
  "createSDO index subindex CA request data data_size timeout now mb =
     (if qb_recv_size mb = 0 then Some (Inl ''This mailbox is inactive'')
      else do {
        sdo \<leftarrow> SDORequest_new (qb_recv_size mb) index subindex CA request data data_size timeout now;
        Some (Inr (enqueue (SdoReq sdo) mb))
      })"

definition createGatewayMessage ::
  "bytes \<Rightarrow> int \<Rightarrow> u16 \<Rightarrow> int \<Rightarrow> int \<Rightarrow> request_mailbox \<Rightarrow> ((nat \<times> request_mailbox) option) option" where
  "createGatewayMessage raw_message raw_message_size gateway_index timeout now mb =
     (if raw_message_size < 6 then Some None
      else if uint (qb_recv_size mb) < raw_message_size then Some None
      else do {
        header \<leftarrow> header_of raw_message;
        if raw_message_size < 6 + uint (mh_len header) then Some None
        else do {
          msg \<leftarrow> GatewayMessage_new (qb_recv_size mb) raw_message gateway_index timeout now;
          Some (Some (enqueue (GatewayReq msg) mb))
        }
      })"

definition createSDOInfo ::
  "u8 \<Rightarrow> bytes \<Rightarrow> bytes \<Rightarrow> u32 \<Rightarrow> int \<Rightarrow> int \<Rightarrow> request_mailbox \<Rightarrow> (string + nat \<times> request_mailbox) option" where
  "createSDOInfo request payload data data_size timeout now mb =
     (if qb_recv_size mb = 0 then Some (Inl ''This mailbox is inactive'')
      else do {
        data \<leftarrow> mem_write data 0 payload;
        sdo \<leftarrow> InfoRequest_new (qb_recv_size mb) request data data_size (of_nat (length payload)) timeout now;
        Some (Inr (enqueue (InfoReq sdo) mb))
      })"

definition createSDOInfoGetODList where
  "createSDOInfoGetODList ty = createSDOInfo (ucast GET_OD_LIST_REQ) (le16 ty)"

definition createSDOInfoGetOD where
  "createSDOInfoGetOD index = createSDOInfo (ucast GET_OD_REQ) (le16 index)"

definition createSDOInfoGetED where
  "createSDOInfoGetED index subindex value_info = createSDOInfo (ucast GET_ED_REQ) (le16 index @ [subindex] @ [value_info])"

text \<open>\<open>send\<close> on an empty queue is undefined.\<close>

definition request_send :: "int \<Rightarrow> request_mailbox \<Rightarrow> (nat \<times> request_mailbox) option" where
  "request_send now mb = (case qb_to_send mb of
     [] \<Rightarrow> None
   | i # rest \<Rightarrow>
       let message = qmsg_map_base (message_status now) (qb_messages mb ! i);
           mb = mb\<lparr>qb_to_send := rest, qb_messages := (qb_messages mb)[i := message]\<rparr>
       in Some (i, if am_status (qmsg_base message) = RUNNING then mb\<lparr>qb_to_process := qb_to_process mb @ [i]\<rparr> else mb))"

definition timed_out :: "int \<Rightarrow> request_mailbox \<Rightarrow> nat \<Rightarrow> bool" where
  "timed_out current_time mb i \<longleftrightarrow>
     am_status (message_status current_time (qmsg_base (qb_messages mb ! i))) = TIMEDOUT"

definition drop_timed_out :: "int \<Rightarrow> request_mailbox \<Rightarrow> request_mailbox" where
  "drop_timed_out current_time mb =
     mb\<lparr>qb_messages := fold (\<lambda>i msgs. msgs[i := qmsg_map_base (message_status current_time) (msgs ! i)])
           (qb_to_process mb) (qb_messages mb),
        qb_to_process := filter (\<lambda>i. \<not> timed_out current_time mb i) (qb_to_process mb)\<rparr>"

text \<open>The message is offered in turn to the waiting requests, until one does not answer \<open>NOOP\<close>.\<close>

fun offer :: "bytes \<Rightarrow> nat \<Rightarrow> request_mailbox \<Rightarrow> nat list \<Rightarrow> ((ProcessingResult \<times> nat \<times> nat) option \<times> request_mailbox) option" where
  "offer raw k mb [] = Some (None, mb)"
| "offer raw k mb (i # rest) = do {
     (state, msg, es) \<leftarrow> qmsg_process raw (qb_messages mb ! i);
     let mb = mb\<lparr>qb_messages := (qb_messages mb)[i := msg], qb_emergencies := qb_emergencies mb @ es\<rparr>;
     if state = NOOP then offer raw (Suc k) mb rest else Some (Some (state, k, i), mb)
   }"

definition erase_at :: "nat \<Rightarrow> 'a list \<Rightarrow> 'a list" where
  "erase_at k xs = take k xs @ drop (Suc k) xs"

definition request_receive :: "bytes \<Rightarrow> int \<Rightarrow> request_mailbox \<Rightarrow> (bool \<times> request_mailbox) option" where
  "request_receive raw current_time mb = do {
     let mb = drop_timed_out current_time mb;
     (taken, mb) \<leftarrow> offer raw 0 mb (qb_to_process mb);
     case taken of
       None \<Rightarrow> Some (False, mb)
     | Some (state, k, i) \<Rightarrow>
         let gone = mb\<lparr>qb_to_process := erase_at k (qb_to_process mb)\<rparr>
         in if state = CONTINUE then
              let counter = nextCounter (qb_counter mb)
              in Some (True, gone\<lparr>qb_counter := counter,
                   qb_messages := (qb_messages mb)[i := qmsg_map_base (setCounter counter) (qb_messages mb ! i)],
                   qb_to_send := qb_to_send mb @ [i]\<rparr>)
            else if state = FINALIZE then Some (True, gone)
            else Some (True, mb)
   }"

text \<open>A gateway request served at once by the dictionary of a response mailbox.\<close>

definition serveGatewayRequest ::
  "hooks \<Rightarrow> bytes \<Rightarrow> int \<Rightarrow> u16 \<Rightarrow> response_mailbox \<Rightarrow> heap \<Rightarrow> (gateway_message option \<times> response_mailbox \<times> heap) option" where
  "serveGatewayRequest hk raw_message raw_message_size gateway_index mb h =
     (if raw_message_size < 6 then Some (None, mb, h)
      else do {
        request \<leftarrow> mem_read raw_message 0 (nat raw_message_size);
        (reply, mb, h) \<leftarrow> processRequest hk request mb h;
        if length reply < 6 \<or> 65535 < length reply then Some (None, mb, h)
        else do { msg \<leftarrow> GatewayMessage_reply reply gateway_index; Some (Some msg, mb, h) }
      })"
end
