(* ===== verification/SdoTransfer.thy ===== *)
theory SdoTransfer
  imports SdoClient
begin

text \<open>
  The two ends of the mailbox together: a master's SDO request, the slave's answer, and the
  segments that follow, up to the value in the application's buffer or in the object dictionary.
\<close>

section \<open>One exchange\<close>

text \<open>
  The master sends the message at the head of its queue, the slave handles and processes it, and
  the master receives the reply.
\<close>

definition exchange ::
  "hooks \<Rightarrow> int \<Rightarrow> request_mailbox \<times> response_mailbox \<times> heap \<Rightarrow> (request_mailbox \<times> response_mailbox \<times> heap) option" where
  "exchange hk now = (\<lambda>(q, s, h). do {
     (i, q) \<leftarrow> request_send now q;
     (reply, s, h) \<leftarrow> processRequest hk (am_data (qmsg_base (qb_messages q ! i))) s h;
     (taken, q) \<leftarrow> request_receive reply now q;
     Some (q, s, h)
   })"

fun exchanges ::
  "nat \<Rightarrow> hooks \<Rightarrow> int \<Rightarrow> request_mailbox \<times> response_mailbox \<times> heap \<Rightarrow> (request_mailbox \<times> response_mailbox \<times> heap) option" where
  "exchanges 0 hk now st = (if qb_to_send (fst st) = [] then Some st else None)"
| "exchanges (Suc n) hk now st =
     (if qb_to_send (fst st) = [] then Some st else do { st \<leftarrow> exchange hk now st; exchanges n hk now st })"

lemma exchanges_more: "exchanges n hk now st = Some st' \<Longrightarrow> n \<le> k \<Longrightarrow> exchanges k hk now st = Some st'"
proof (induction n arbitrary: st k)
  case 0
  then show ?case by (cases k) (auto split: if_splits)
next
  case (Suc n)
  then obtain k' where "k = Suc k'" "n \<le> k'" by (cases k) auto
  with Suc show ?case by (auto split: if_splits simp: bind_eq_Some_conv)
qed

section \<open>The slave's side\<close>

definition server_ready :: "dictionary \<Rightarrow> response_mailbox \<Rightarrow> bool" where
  "server_ready dict s \<longleftrightarrow> rb_dictionary s = Some dict \<and> rb_factories s = [createSDOMessage]
     \<and> 0 < unat (rb_max_msgs s) \<and> rb_to_send s = []"

text \<open>The messages a slave keeps after one was processed.\<close>

definition keeps :: "ProcessingResult \<Rightarrow> sdo_message \<Rightarrow> rmsg list" where
  "keeps r m = (if r = FINALIZE then [] else [SdoMsg m])"

lemma processRequest_fresh:
  assumes "server_ready dict s" and "rb_to_process s = []"
    and "createSDOMessage raw = Some (Some (SdoMsg (SDOMessage_new raw)))"
    and "SDO_process hk (Some dict) (SDOMessage_new raw) h = Some (r, m, [reply], h')"
    and "r = FINALIZE \<or> r = FINALIZE_AND_KEEP"
  shows "processRequest hk raw s h = Some (reply, s\<lparr>rb_to_process := keeps r m\<rparr>, h')"
  using assms
  by (auto simp: processRequest_def handleMessage_def Mailbox_process_def popReply_def server_ready_def keeps_def)

lemma processRequest_segment:
  assumes "server_ready dict s" and "rb_to_process s = [SdoMsg m]"
    and "SDO_process_raw hk (Some dict) raw m h = Some (r, m', [reply], h')"
    and "r = FINALIZE \<or> r = FINALIZE_AND_KEEP \<and> sv_segmented_entry m' \<noteq> None"
  shows "processRequest hk raw s h = Some (reply, s\<lparr>rb_to_process := keeps r m'\<rparr>, h')"
  using assms
  by (auto simp: processRequest_def handleMessage_def Mailbox_process_def popReply_def server_ready_def keeps_def
      SDO_process_def)

section \<open>The master's side\<close>

definition client_ready :: "nat \<Rightarrow> sdo_request \<Rightarrow> request_mailbox \<Rightarrow> bool" where
  "client_ready i m q \<longleftrightarrow> qb_to_send q = [i] \<and> qb_to_process q = [] \<and> i < length (qb_messages q)
     \<and> qb_messages q ! i = SdoReq m"

definition client_done :: "nat \<Rightarrow> sdo_request \<Rightarrow> request_mailbox \<Rightarrow> bool" where
  "client_done i m q \<longleftrightarrow> qb_to_send q = [] \<and> qb_to_process q = [] \<and> i < length (qb_messages q)
     \<and> qb_messages q ! i = SdoReq m"

definition live :: "int \<Rightarrow> sdo_request \<Rightarrow> bool" where
  "live now m \<longleftrightarrow> am_status (cl_base m) = RUNNING \<and> (am_timeout (cl_base m) = 0 \<or> now \<le> am_timeout (cl_base m))"

lemma live_status: "live now m \<Longrightarrow> message_status now (cl_base m) = cl_base m"
  by (auto simp: live_def message_status_def)

definition counted :: "u8 \<Rightarrow> sdo_request \<Rightarrow> sdo_request" where
  "counted c m = m\<lparr>cl_base := setCounter c (cl_base m)\<rparr>"

lemma exchange_client:
  assumes q: "client_ready i m q" and m: "live now m"
    and s: "processRequest hk (am_data (cl_base m)) s h = Some (reply, s', h')"
    and p: "SDORequest_process reply m = Some (r, m')" and r: "r = FINALIZE \<or> r = CONTINUE"
  shows "\<exists>q'. exchange hk now (q, s, h) = Some (q', s', h')
    \<and> (if r = FINALIZE then client_done i m' q' else \<exists>c. client_ready i (counted c m') q')"
proof -
  let ?msgs = "qb_messages q"
  have i: "?msgs ! i = SdoReq m" "i < length ?msgs" "qb_to_send q = [i]" "qb_to_process q = []"
    using q by (auto simp: client_ready_def)
  have same: "qmsg_map_base (message_status now) (SdoReq m) = SdoReq m"
    using live_status [OF m] by simp
  have run: "am_status (cl_base m) = RUNNING" using m by (simp add: live_def)
  have nt: "\<not> timed_out now q' i" if "qb_messages q' ! i = SdoReq m" for q'
    using that live_status [OF m] run by (simp add: timed_out_def)
  have upd: "?msgs[i := SdoReq m] = ?msgs" using i by (metis list_update_id)
  define q1 where "q1 = q\<lparr>qb_to_send := [], qb_to_process := [i]\<rparr>"
  have send: "request_send now q = Some (i, q1)"
    using i same run upd by (simp add: request_send_def q1_def)
  have d: "drop_timed_out now q1 = q1"
    using i same nt [of q1] upd by (simp add: drop_timed_out_def q1_def)
  show ?thesis
    using r i s send d p
    by (auto simp: exchange_def request_receive_def q1_def erase_at_def client_done_def client_ready_def counted_def Let_def)
qed

text \<open>The counter is a field of the mailbox header.\<close>

context mailbox_service
begin

lemma put_header_frame [simp]:
  "put_header g (frame_bytes enc f) = frame_bytes enc (f\<lparr>mf_header := g (mf_header f)\<rparr>)"
  by (simp add: put_header_def frame_bytes_def poke_def peek_def mh.length_enc mh.dec_enc)

end

definition own_frame :: "sdo_request \<Rightarrow> sdo_frame \<Rightarrow> bool" where
  "own_frame m f \<longleftrightarrow> am_data (cl_base m) = sdo_bytes f"

lemma own_frame_counted:
  "own_frame m f \<Longrightarrow> own_frame (counted c m) (f\<lparr>mf_header := (mf_header f)\<lparr>mh_count := ucast (c AND 7)\<rparr>\<rparr>)"
  by (simp add: own_frame_def counted_def setCounter_def)

lemma counted_fields [simp]:
  "cl_data (counted c m) = cl_data m" "cl_pos (counted c m) = cl_pos m" "cl_data_size (counted c m) = cl_data_size m"
  "cl_buffer_size (counted c m) = cl_buffer_size m" "cl_download_remaining (counted c m) = cl_download_remaining m"
  "live now (counted c m) = live now m"
  by (simp_all add: counted_def live_def setCounter_def)

definition request_header :: "sdo_frame \<Rightarrow> bool" where
  "request_header f \<longleftrightarrow> mh_type (mf_header f) = CoE \<and> mh_address (mf_header f) = 0 \<and> coe_service (mf_coe f) = SDO_REQUEST"

lemma create_request:
  "request_header f \<Longrightarrow> createSDOMessage (sdo_bytes f) = Some (Some (SdoMsg (SDOMessage_new (sdo_bytes f))))"
  by (simp add: createSDOMessage_def request_header_def)

section \<open>Uploads\<close>

definition no_callbacks :: "hooks \<Rightarrow> nat \<times> nat \<Rightarrow> bool" where
  "no_callbacks hk pos \<longleftrightarrow> hk_before hk pos = [] \<and> hk_after hk pos = []"

lemma no_callbacks_apply [simp]:
  "no_callbacks hk pos \<Longrightarrow> beforeHooks hk a pos h = h" "no_callbacks hk pos \<Longrightarrow> afterHooks hk a pos h = h"
  by (simp_all add: no_callbacks_def beforeHooks_def afterHooks_def)

text \<open>What is asked of an upload: the entry exists, may be read and holds \<open>v\<close>.\<close>

definition readable :: "hooks \<Rightarrow> dictionary \<Rightarrow> heap \<Rightarrow> u16 \<Rightarrow> u8 \<Rightarrow> nat \<times> nat \<Rightarrow> bytes \<Rightarrow> bool" where
  "readable hk dict h index subindex pos v \<longleftrightarrow>
     findObject dict index subindex = (Some (fst pos), Some (snd pos)) \<and> isUploadAuthorized (entry_of dict pos)
     \<and> no_callbacks hk pos \<and> unat (value_size (entry_of dict pos)) = length v
     \<and> entry_load (entry_of dict pos) 0 (length v) h = Some v"

lemma value_size_bound: "unat (value_size e) \<le> 8192"
proof -
  have "unat (ucast (en_bitlen e) :: u32) < 65536"
    using unsigned_less [of "en_bitlen e", where ?'a = nat] by (simp add: unsigned_ucast_eq take_bit_nat_eq_self)
  then have "unat (ucast (en_bitlen e) + 7 :: u32) = unat (ucast (en_bitlen e) :: u32) + 7"
    by (simp add: unat_word_ariths)
  then show ?thesis
    using \<open>unat (ucast (en_bitlen e) :: u32) < 65536\<close> by (simp add: value_size_def unat_div)
qed

lemma readable_length:
  assumes "readable hk dict h index subindex pos v"
  shows "length v \<le> 8192" and "value_size (entry_of dict pos) = of_nat (length v)"
proof -
  show "length v \<le> 8192" using assms value_size_bound [of "entry_of dict pos"] by (simp add: readable_def)
  show "value_size (entry_of dict pos) = of_nat (length v)"
    using assms by (metis readable_def of_nat_unat ucast_id)
qed

definition upload_frame :: "u16 \<Rightarrow> u8 \<Rightarrow> sdo_frame \<Rightarrow> bool" where
  "upload_frame index subindex f \<longleftrightarrow> request_header f \<and> mh_len (mf_header f) = 10 \<and> 4 \<le> length (mf_payload f)
     \<and> length (mf_payload f) \<le> 65523
     \<and> sd_command (mf_service f) = REQ_UPLOAD \<and> sd_complete_access (mf_service f) = 0
     \<and> sd_index (mf_service f) = index \<and> sd_subindex (mf_service f) = subindex"

text \<open>The slave's answer to the first request, by the size of the value.\<close>

definition upload_answer :: "bytes \<Rightarrow> sdo_frame \<Rightarrow> sdo_frame" where
  "upload_answer v f =
     (let f = set_command RESP_UPLOAD (set_service SDO_RESPONSE (set_len 10 f));
          f = f\<lparr>mf_service := (mf_service f)\<lparr>sd_size_indicator := 1\<rparr>\<rparr>
      in if length v \<le> 4
         then f\<lparr>mf_service := (mf_service f)\<lparr>sd_transfer_type := 1, sd_block_size := of_nat (4 - length v)\<rparr>,
                mf_payload := poke (mf_payload f) 0 v\<rparr>
         else let f = f\<lparr>mf_service := (mf_service f)\<lparr>sd_transfer_type := 0\<rparr>,
                        mf_payload := poke (mf_payload f) 0 (le32 (of_nat (length v)))\<rparr>
         in if length v + 4 \<le> length (mf_payload f)
            then (set_len (10 + of_nat (length v)) f)\<lparr>mf_payload := poke (mf_payload f) 4 v\<rparr>
            else f)"

definition segmented :: "nat \<times> nat \<Rightarrow> nat \<Rightarrow> bool \<Rightarrow> sdo_message \<Rightarrow> bool" where
  "segmented pos k toggle m \<longleftrightarrow>
     sv_segmented_entry m = Some pos \<and> sv_segmented_offset m = of_nat k \<and> sv_segmented_toggle m = toggle"

lemma of_nat_le_word:
  "a < 2 ^ LENGTH('w) \<Longrightarrow> b < 2 ^ LENGTH('w) \<Longrightarrow> (of_nat a \<le> (of_nat b :: 'w::len word)) = (a \<le> b)"
  "a < 2 ^ LENGTH('w) \<Longrightarrow> b < 2 ^ LENGTH('w) \<Longrightarrow> (of_nat a < (of_nat b :: 'w::len word)) = (a < b)"
  by (simp_all add: word_le_nat_alt word_less_nat_alt unat_of_nat_small)

lemma of_nat_eq_word:
  "a < 2 ^ LENGTH('w) \<Longrightarrow> b < 2 ^ LENGTH('w) \<Longrightarrow> (of_nat a = (of_nat b :: 'w::len word)) = (a = b)"
  by (metis unat_of_nat_small)

lemma server_upload:
  assumes f: "upload_frame index subindex f" and v: "readable hk dict h index subindex pos v"
  shows "\<exists>m. SDO_process hk (Some dict) (SDOMessage_new (sdo_bytes f)) h =
      Some (if length v \<le> 4 \<or> length v + 4 \<le> length (mf_payload f) then FINALIZE else FINALIZE_AND_KEEP,
            m, [sdo_bytes (upload_answer v f)], h)
    \<and> (length v \<le> 4 \<or> length v + 4 \<le> length (mf_payload f) \<or> segmented pos 0 False m)"
proof -
  note len = readable_length [OF v]
  let ?e = "entry_of dict pos"
  have size4: "(of_nat (length v) \<le> (4 :: u32)) = (length v \<le> 4)"
    using len of_nat_le_word(1) [where 'w = 32, of "length v" 4] by simp
  have block: "ucast (4 - of_nat (length v) :: u32) = (of_nat (4 - length v) :: 2 word)" if "length v \<le> 4"
  proof -
    have "length v = 0 \<or> length v = 1 \<or> length v = 2 \<or> length v = 3 \<or> length v = 4" using that by linarith
    then show ?thesis by auto
  qed
  have single: "(of_nat (length v) \<le> (of_nat (12 + length (mf_payload f)) - 16 :: u32)) =
      (length v + 4 \<le> length (mf_payload f))"
  proof -
    define q where "q = length (mf_payload f) - 4"
    have q: "length (mf_payload f) = q + 4" "q < 65536"
      using f unfolding q_def upload_frame_def by linarith+
    have "of_nat (12 + length (mf_payload f)) - 16 = (of_nat q :: u32)" by (simp add: q)
    then show ?thesis using of_nat_le_word(1) [where 'w = 32, of "length v" q] len(1) q by simp
  qed
  have found: "findObject dict index subindex = (Some (fst pos), Some (snd pos))" "isUploadAuthorized ?e"
    "no_callbacks hk pos" "entry_load ?e 0 (length v) h = Some v" "unat (value_size ?e) = length v"
    using v by (auto simp: readable_def)
  have start: "SDO_process hk (Some dict) (SDOMessage_new (sdo_bytes f)) h =
      SDO_upload hk dict pos (SDOMessage_new (sdo_bytes f)) f h"
    using f found by (simp add: SDO_process_def SDOMessage_new_def upload_frame_def request_header_def)
  have narrow: "ucast (of_nat (length v) :: u32) = (of_nat (length v) :: u16)"
    by (metis of_nat_unat found(5) len(2))
  show ?thesis
    using f found len(2) size4 block single narrow unfolding start
    by (auto simp: SDO_upload_def upload_frame_def upload_answer_def moved_out_def put_payload_def SDOMessage_new_def
        set_len_def set_service_def set_command_def segmented_def Let_def)
qed

text \<open>The application's buffer holds the value and its size was set.\<close>

definition delivered :: "bytes \<Rightarrow> sdo_request \<Rightarrow> bool" where
  "delivered v m \<longleftrightarrow> am_status (cl_base m) = SUCCESS \<and> unat (cl_data_size m) = length v
     \<and> length v \<le> length (cl_data m) \<and> take (length v) (cl_data m) = v"

definition room_for :: "nat \<Rightarrow> sdo_request \<Rightarrow> bool" where
  "room_for n m \<longleftrightarrow> n \<le> unat (cl_buffer_size m) \<and> unat (cl_buffer_size m) \<le> length (cl_data m)"

definition upload_segment_frame :: "bool \<Rightarrow> nat \<Rightarrow> sdo_frame \<Rightarrow> bool" where
  "upload_segment_frame toggle n f \<longleftrightarrow> request_header f \<and> mh_len (mf_header f) = 10 \<and> length (mf_payload f) + 12 = n
     \<and> sd_command (mf_service f) = REQ_UPLOAD_SEGMENTED \<and> sd_complete_access (mf_service f) = toggle_bit toggle"

text \<open>The master between two segments, with \<open>k\<close> bytes of \<open>v\<close> received.\<close>

definition receiving :: "int \<Rightarrow> bytes \<Rightarrow> nat \<Rightarrow> bool \<Rightarrow> nat \<Rightarrow> sdo_request \<Rightarrow> bool" where
  "receiving now v k toggle n m \<longleftrightarrow> live now m \<and> room_for (length v) m \<and> k \<le> length v
     \<and> take k (cl_data m) = take k v \<and> cl_pos m = k \<and> cl_data_size m = of_nat k
     \<and> (\<exists>f. own_frame m f \<and> upload_segment_frame toggle n f)"

lemma client_upload:
  assumes f: "upload_frame index subindex f" and m: "own_frame m f" "live now m" "cl_pos m = 0"
    and b: "cl_data_size m = cl_buffer_size m" "room_for (length v) m" and v: "v \<noteq> []" "length v \<le> 8192"
  shows "\<exists>r m'. SDORequest_process (sdo_bytes (upload_answer v f)) m = Some (r, m')
    \<and> (if length v \<le> 4 \<or> length v + 4 \<le> length (mf_payload f) then r = FINALIZE \<and> delivered v m'
       else r = CONTINUE \<and> receiving now v 0 False (length (mf_payload f) + 12) m')"
proof -
  note frame = f [unfolded upload_frame_def request_header_def]
  note room = b [unfolded room_for_def]
  have own: "sdo_overlay (am_data (cl_base m)) = Some f" "length (am_data (cl_base m)) = length (mf_payload f) + 12"
    using m(1) by (simp_all add: own_frame_def)
  have size: "unat (of_nat (length v) :: u32) = length v"
    using v(2) by (simp add: unat_of_nat_small)
  have fits: "\<not> cl_data_size m < of_nat (length v)" "length v \<le> length (cl_data m)"
    using room by (simp_all add: word_less_nat_alt size)
  consider "length v \<le> 4" | "\<not> length v \<le> 4" "length v + 4 \<le> length (mf_payload f)"
    | "\<not> length v \<le> 4" "\<not> length v + 4 \<le> length (mf_payload f)" by blast
  then show ?thesis
  proof cases
    case 1
    have "4 - ucast (of_nat (4 - length v) :: 2 word) = (of_nat (length v) :: u32)"
    proof -
      have "length v = 1 \<or> length v = 2 \<or> length v = 3 \<or> length v = 4"
        using 1 v(1) by (cases "length v") (simp, linarith)
      then show ?thesis by auto
    qed
    then show ?thesis
      using 1 own frame fits size
      by (auto simp: SDORequest_process_def upload_answer_def processUpload_def set_len_def set_service_def
          set_command_def delivered_def with_status_def m(3) poke_def Let_def peek_def)
  next
    case 2
    define p where "p = poke (poke (mf_payload f) 0 (le32 (of_nat (length v)))) 4 v"
    have p: "peek p 0 4 = le32 (of_nat (length v))" "peek p 4 (length v) = v" "length p = length (mf_payload f)"
      using 2 frame by (simp_all add: p_def peek_poke_before)
    have len: "unat (10 + of_nat (length v) :: u16) = 10 + length v"
      using v(2) by (simp add: unat_word_ariths unat_of_nat_small)
    then have "ucast (10 + of_nat (length v) :: u16) = (of_nat (10 + length v) :: u32)"
      by (metis of_nat_unat)
    then have data_len: "ucast (10 + of_nat (length v) :: u16) - 10 = (of_nat (length v) :: u32)"
      by simp
    have ge: "\<not> (10 + of_nat (length v) :: u16) < 10"
      by (simp add: word_less_nat_alt len)
    have answer: "upload_answer v f = (set_len (10 + of_nat (length v)) (f\<lparr>mf_coe := (mf_coe f)\<lparr>coe_service := SDO_RESPONSE\<rparr>,
        mf_service := (mf_service f)\<lparr>sd_command := RESP_UPLOAD, sd_size_indicator := 1, sd_transfer_type := 0\<rparr>\<rparr>))\<lparr>mf_payload := p\<rparr>"
      using 2 frame by (simp add: upload_answer_def set_len_def set_service_def set_command_def p_def Let_def)
    show ?thesis
      using 2 own frame fits size p data_len ge len
      by (auto simp: SDORequest_process_def answer processUpload_def set_len_def delivered_def with_status_def m(3)
          poke_def Let_def)
  next
    case 3
    define p where "p = poke (mf_payload f) 0 (le32 (of_nat (length v)))"
    have p: "peek p 0 4 = le32 (of_nat (length v))" "length p = length (mf_payload f)"
      using frame by (simp_all add: p_def)
    have more: "\<not> of_nat (length v) \<le> (0 :: u32)"
      using size v(1) by (metis length_0_conv unat_0 word_le_0_iff)
    have answer: "upload_answer v f = f\<lparr>mf_header := (mf_header f)\<lparr>mh_len := 10\<rparr>, mf_coe := (mf_coe f)\<lparr>coe_service := SDO_RESPONSE\<rparr>,
        mf_service := (mf_service f)\<lparr>sd_command := RESP_UPLOAD, sd_size_indicator := 1, sd_transfer_type := 0\<rparr>, mf_payload := p\<rparr>"
      using 3 frame by (simp add: upload_answer_def set_len_def set_service_def set_command_def p_def Let_def)
    show ?thesis
      using 3 own frame fits p more m(2,3) b(2)
      by (auto simp: SDORequest_process_def answer processUpload_def set_len_def set_service_def with_status_def
          with_frame_def receiving_def room_for_def live_def own_frame_def request_header_def toggle_bit_def
          upload_segment_frame_def Let_def)
  qed
qed

section \<open>Segments\<close>

lemma load_part:
  "load p n h = Some v \<Longrightarrow> k + c \<le> n \<Longrightarrow> load (fst p, snd p + k) c h = Some (peek v k c)"
  by (auto simp: load_def bind_eq_Some_conv mem_read_eq_Some_iff peek_def take_drop min_def add.commute add.left_commute)

lemma entry_load_part:
  "entry_load e 0 n h = Some v \<Longrightarrow> k + c \<le> n \<Longrightarrow> entry_load e k c h = Some (peek v k c)"
  by (auto simp: entry_load_def dest: load_part [where k = k and c = c] split: option.splits)

text \<open>Writing the data of a segment leaves the headers and the first byte of the service header.\<close>

lemma overlay_fields:
  assumes "overlay dec d = Some g"
  shows "mf_header g = dec_mailbox_header (peek d 0 6)" "mf_coe g = dec_coe_header (peek d 6 2)"
    "mf_service g = dec (peek d 8 4)" "mf_payload g = drop 12 d"
  using assms by (auto simp: overlay_def split: if_splits)

lemma poke_segment:
  assumes "length d + 9 \<le> length (sdo_bytes f)"
  shows "\<exists>g. sdo_overlay (poke (sdo_bytes f) 9 d) = Some g \<and> mf_header g = mf_header f \<and> mf_coe g = mf_coe f
    \<and> sd_command (mf_service g) = sd_command (mf_service f)
    \<and> sd_complete_access (mf_service g) = sd_complete_access (mf_service f)
    \<and> length (mf_payload g) = length (mf_payload f) \<and> take (length d) (drop 9 (sdo_bytes g)) = d"
proof -
  let ?b = "poke (sdo_bytes f) 9 d"
  have len: "length ?b = 12 + length (mf_payload f)" using assms by simp
  then obtain g where g: "sdo_overlay ?b = Some g" "sdo_bytes g = ?b"
    using sdo.overlay_Some [of ?b] by auto
  have "peek ?b 0 6 = peek (sdo_bytes f) 0 6" "peek ?b 6 2 = peek (sdo_bytes f) 6 2"
    using assms by (simp_all add: peek_poke_before)
  moreover have "peek ?b 8 4 ! 0 = peek (sdo_bytes f) 8 4 ! 0"
    using assms by (simp add: peek_def)
  moreover note overlay_fields(1-3) [OF g(1)] overlay_fields(1-3) [OF sdo.overlay_frame [of f]]
  ultimately have "mf_header g = mf_header f" "mf_coe g = mf_coe f" "sd_command (mf_service g) = sd_command (mf_service f)"
    "sd_complete_access (mf_service g) = sd_complete_access (mf_service f)"
    by (simp_all add: dec_service_data_def Let_def)
  moreover have "length (mf_payload g) = length (mf_payload f)"
    by (metis sdo.length_frame_bytes add_left_cancel g(2) len)
  moreover have "take (length d) (drop 9 (sdo_bytes g)) = d" using assms by (simp add: g(2) poke_def)
  ultimately show ?thesis using g(1) by blast
qed

lemma segment_bytes_eq:
  "sd_index (mf_service g) = sd_index (mf_service f) \<Longrightarrow> sd_subindex (mf_service g) = sd_subindex (mf_service f)
   \<Longrightarrow> mf_payload g = mf_payload f \<Longrightarrow> drop 9 (sdo_bytes g) = drop 9 (sdo_bytes f)"
  by (simp add: segment_area)

lemma segment_reply_frame:
  assumes "12 \<le> n"
  obtains f where "segment_reply n = Some f" "mh_type (mf_header f) = CoE" "mh_address (mf_header f) = 0"
    "length (mf_payload f) = n - 12"
proof -
  have "peek (replicate n 0) 0 6 = replicate 6 (0 :: u8)" using assms by (simp add: peek_def)
  moreover have "dec_mailbox_header (replicate 6 0) = \<lparr>mh_len = 0, mh_address = 0, mh_channel = 0, mh_priority = 0,
      mh_type = 0, mh_count = 0, mh_reserved = 0\<rparr>"
    by (simp add: dec_mailbox_header_def peek_def from_le_def numeral_eq_Suc Let_def)
  ultimately show ?thesis
    using assms that by (auto simp: segment_reply_def overlay_def)
qed

text \<open>A segment of either direction: its length field tells how much of the segment area is data.\<close>

definition carries :: "sdo_frame \<Rightarrow> bytes \<Rightarrow> bool" where
  "carries f d \<longleftrightarrow> segmentDataLength (mh_len (mf_header f)) (mf_service f) = of_nat (length d)
     \<and> 10 \<le> unat (mh_len (mf_header f)) \<and> 6 + unat (mh_len (mf_header f)) \<le> length (sdo_bytes f)
     \<and> length d + 9 \<le> length (sdo_bytes f) \<and> peek (sdo_bytes f) 9 (length d) = d"

lemma carriesI:
  assumes g: "sdo_overlay (poke (sdo_bytes f) 9 d) = Some g" and n: "length d + 9 \<le> length (sdo_bytes f)"
    "16 \<le> length (sdo_bytes f)" "length (sdo_bytes f) \<le> 65535"
    and r: "mh_len (mf_header r) = fst (setSegmentLength s (of_nat (length d)))"
    "sd_block_size (mf_service r) = sd_block_size (snd (setSegmentLength s (of_nat (length d))))"
    "sd_transfer_type (mf_service r) = sd_transfer_type (snd (setSegmentLength s (of_nat (length d))))"
    "sd_index (mf_service r) = sd_index (mf_service g)" "sd_subindex (mf_service r) = sd_subindex (mf_service g)"
    "mf_payload r = mf_payload g"
  shows "carries r d"
proof -
  obtain g' where g': "sdo_overlay (poke (sdo_bytes f) 9 d) = Some g'" "length (mf_payload g') = length (mf_payload f)"
    "take (length d) (drop 9 (sdo_bytes g')) = d"
    using poke_segment [OF n(1)] by blast
  have "g' = g" using g g' by simp
  have len: "length (sdo_bytes r) = length (sdo_bytes f)" using g' r \<open>g' = g\<close> by simp
  have small: "length d \<le> 65532" using n by linarith
  have u: "unat (mh_len (mf_header r)) = (if length d < 7 then 10 else length d + 3)"
    unfolding r(1) by (rule setSegmentLength_len [OF small])
  have "peek (sdo_bytes r) 9 (length d) = d"
    using g'(3) \<open>g' = g\<close> segment_bytes_eq [OF r(4,5,6)] by (simp add: peek_def)
  moreover have "segmentDataLength (mh_len (mf_header r)) (mf_service r) = of_nat (length d)"
    unfolding r(1) by (rule segment_length_roundtrip [OF small r(2,3)])
  moreover have "6 + unat (mh_len (mf_header r)) \<le> length (sdo_bytes r)"
    unfolding u len using n by (cases "length d < 7") simp_all
  moreover have "10 \<le> unat (mh_len (mf_header r))"
    unfolding u by (cases "length d < 7") simp_all
  ultimately show ?thesis using n(1) by (simp add: carries_def len [unfolded sdo.length_frame_bytes])
qed

text \<open>The number of bytes of the next segment, in a mailbox of \<open>n\<close> bytes.\<close>

definition chunk_size :: "nat \<Rightarrow> nat \<Rightarrow> nat" where
  "chunk_size n remaining = (if n - 9 < remaining then n - 9 else remaining)"

lemma chunk_word0:
  assumes "16 \<le> n" "n \<le> 65535" "r \<le> 2 ^ 32 - 1"
  shows "(if of_nat n - 9 < (of_nat r :: u32) then of_nat n - 9 else of_nat r) = (of_nat (chunk_size n r) :: u32)"
proof -
  have "of_nat n - 9 = (of_nat (n - 9) :: u32)" using assms by (simp add: of_nat_diff)
  moreover have "(of_nat (n - 9) < (of_nat r :: u32)) = (n - 9 < r)"
    by (rule of_nat_le_word) (use assms in simp_all)
  ultimately show ?thesis by (simp only: chunk_size_def if_distrib [of of_nat])
qed

lemma chunk_word:
  assumes "16 \<le> n" "n \<le> 65535" "k \<le> bound" "bound \<le> 2 ^ 32 - 1"
  shows "(if of_nat n - 9 < of_nat bound - (of_nat k :: u32) then of_nat n - 9 else of_nat bound - of_nat k) =
    (of_nat (chunk_size n (bound - k)) :: u32)"
proof -
  have "of_nat bound - of_nat k = (of_nat (bound - k) :: u32)" using assms by (simp add: of_nat_diff)
  then show ?thesis using chunk_word0 [of n "bound - k"] assms by (simp only:)
qed

definition upload_segment_answer :: "bool \<Rightarrow> bool \<Rightarrow> bytes \<Rightarrow> nat \<Rightarrow> sdo_frame \<Rightarrow> bool" where
  "upload_segment_answer toggle is_last d n r \<longleftrightarrow> mh_type (mf_header r) = CoE \<and> mh_address (mf_header r) = 0
     \<and> coe_service (mf_coe r) = SDO_RESPONSE \<and> sd_command (mf_service r) = RESP_UPLOAD_SEGMENTED
     \<and> sd_complete_access (mf_service r) = toggle_bit toggle \<and> sd_size_indicator (mf_service r) = (if is_last then 1 else 0)
     \<and> length (mf_payload r) + 12 = n \<and> carries r d"

lemma server_upload_segment:
  assumes f: "upload_segment_frame toggle n f" and n: "16 \<le> n" "n \<le> 65535"
    and v: "readable hk dict h index subindex pos v" and m: "segmented pos k toggle m" and k: "k < length v"
  defines "c \<equiv> chunk_size n (length v - k)"
  shows "\<exists>r m'. SDO_process_raw hk (Some dict) (sdo_bytes f) m h =
      Some (if k + c = length v then FINALIZE else FINALIZE_AND_KEEP, m', [sdo_bytes r], h)
    \<and> upload_segment_answer toggle (k + c = length v) (peek v k c) n r
    \<and> (k + c = length v \<or> segmented pos (k + c) (\<not> toggle) m')"
proof -
  note frame = f [unfolded upload_segment_frame_def request_header_def]
  note seg = m [unfolded segmented_def]
  note len = readable_length [OF v]
  have c: "k + c \<le> length v" "c + 9 \<le> n" using n k by (auto simp: c_def chunk_size_def)
  have total: "unat (value_size (entry_of dict pos)) = length v"
    and load: "entry_load (entry_of dict pos) 0 (length v) h = Some v" and cb: "no_callbacks hk pos"
    using v by (simp_all add: readable_def)
  obtain r0 where r0: "segment_reply n = Some r0" "mh_type (mf_header r0) = CoE" "mh_address (mf_header r0) = 0"
    "length (mf_payload r0) = n - 12"
    using segment_reply_frame [of n] n by auto
  have d: "length (peek v k c) = c" using c by simp
  have n0: "length (peek v k c) + 9 \<le> length (sdo_bytes r0)" using c d r0 n by simp
  obtain g where g: "sdo_overlay (poke (sdo_bytes r0) 9 (peek v k c)) = Some g" "mf_header g = mf_header r0"
    "mf_coe g = mf_coe r0" "length (mf_payload g) = n - 12"
    using poke_segment [OF n0] r0 by auto
  define s where "s = (mf_service g)\<lparr>sd_command := RESP_UPLOAD_SEGMENTED, sd_complete_access := toggle_bit toggle\<rparr>"
  define r where "r = set_len (fst (setSegmentLength s (of_nat c))) (set_service SDO_RESPONSE (g\<lparr>mf_service :=
      (snd (setSegmentLength s (of_nat c)))\<lparr>sd_size_indicator := (if k + c = length v then 1 else 0)\<rparr>\<rparr>))"
  have chunk: "(if of_nat n - 9 < of_nat (length v) - (of_nat k :: u32) then of_nat n - 9 else of_nat (length v) - of_nat k) = (of_nat c :: u32)"
    using chunk_word [of n k "length v"] n k len by (simp add: c_def)
  have last: "(of_nat k + of_nat c = (of_nat (length v) :: u32)) = (k + c = length v)"
    using of_nat_eq_word [where 'w = 32, of "k + c" "length v"] c(1) len(1) by simp
  have carried: "carries r (peek v k c)"
    by (rule carriesI [where s = s, OF g(1) n0])
      (use r0 n d in \<open>simp_all add: r_def set_len_def set_service_def s_def\<close>)
  have words: "unat (of_nat c :: u32) = c" "unat (of_nat k :: u32) = k"
    using c len by (simp_all add: unat_of_nat_small)
  have part: "entry_load (entry_of dict pos) k c h = Some (peek v k c)"
    by (rule entry_load_part [OF load c(1)])
  have start: "SDO_process_raw hk (Some dict) (sdo_bytes f) m h = uploadSegment hk dict pos (sdo_bytes f) m f h"
    using frame seg by (simp add: SDO_process_raw_def)
  have size: "length (sdo_bytes f) = n" using frame by simp
  have written: "mem_write (sdo_bytes r0) 9 (peek v k c) = Some (poke (sdo_bytes r0) 9 (peek v k c))"
    using n0 by (simp add: add.commute del: sdo.length_frame_bytes)
  have toggles: "sd_complete_access (mf_service f) = toggle_bit toggle" using frame by blast
  have state: "sv_segmented_entry m = Some pos" "sv_segmented_offset m = of_nat k" "sv_segmented_toggle m = toggle"
    using seg by blast+
  have "SDO_process_raw hk (Some dict) (sdo_bytes f) m h =
      Some (if k + c = length v then FINALIZE else FINALIZE_AND_KEEP,
        (let m = m\<lparr>sv_segmented_offset := of_nat k + of_nat c, sv_segmented_toggle := \<not> toggle\<rparr>
         in if k + c = length v then m\<lparr>sv_segmented_entry := None\<rparr> else m), [sdo_bytes r], h)"
    unfolding start uploadSegment_def size Let_def r_def s_def len(2) state(2,3) chunk last
    by (simp add: r0(1) toggles words part written g(1) cb split_def del: sdo.length_frame_bytes)
  then show ?thesis
    using carried g r0 n seg
    by (auto simp: upload_segment_answer_def segmented_def r_def s_def set_len_def set_service_def Let_def)
qed

lemma NOT_toggle_bit [simp]: "NOT (toggle_bit b) = toggle_bit (\<not> b)"
  by (cases b) (simp_all add: toggle_bit_def)

lemma receiving_counted: "receiving now v k toggle n m \<Longrightarrow> receiving now v k toggle n (counted c m)"
  unfolding receiving_def by (fastforce simp: room_for_def upload_segment_frame_def request_header_def intro: own_frame_counted)

lemma take_poke:
  "take k xs = take k v \<Longrightarrow> k + c \<le> length v \<Longrightarrow> k + c \<le> length xs \<Longrightarrow>
   take (k + c) (poke xs k (peek v k c)) = take (k + c) v"
  by (simp add: poke_def peek_def take_add)

lemma client_upload_segment:
  assumes m: "receiving now v k toggle n m" and r: "upload_segment_answer toggle is_last (peek v k c) n r"
    and c: "k + c \<le> length v" and v: "length v \<le> 8192" and last: "is_last = (k + c = length v)"
  shows "\<exists>m'. SDORequest_process (sdo_bytes r) m = Some (if is_last then FINALIZE else CONTINUE, m')
    \<and> (if is_last then delivered v m' else receiving now v (k + c) (\<not> toggle) n m')"
proof -
  obtain f where f: "own_frame m f" "upload_segment_frame toggle n f" using m by (auto simp: receiving_def)
  note frame = f(2) [unfolded upload_segment_frame_def request_header_def]
  note answer = r [unfolded upload_segment_answer_def]
  have carried: "segmentDataLength (mh_len (mf_header r)) (mf_service r) = of_nat c" "\<not> mh_len (mf_header r) < 10"
    "6 + unat (mh_len (mf_header r)) \<le> n" "mem_read (sdo_bytes r) 9 c = Some (peek v k c)"
    using answer c by (auto simp: carries_def word_less_nat_alt mem_read_def)
  have own: "sdo_overlay (am_data (cl_base m)) = Some f" "length (am_data (cl_base m)) = n"
    using f(1) frame by (simp_all add: own_frame_def)
  have state: "cl_pos m = k" "cl_data_size m = of_nat k" "take k (cl_data m) = take k v"
    "length v \<le> unat (cl_buffer_size m)" "unat (cl_buffer_size m) \<le> length (cl_data m)" "live now m"
    using m by (auto simp: receiving_def room_for_def)
  have words: "unat (of_nat c :: u32) = c" "unat (of_nat k :: u32) = k" "unat (of_nat (k + c) :: u32) = k + c"
    using c v unat_of_nat_small [where 'w = 32, of "k + c"] by (simp_all add: unat_of_nat_small)
  have "unat (cl_buffer_size m - of_nat k) = unat (cl_buffer_size m) - k"
    using state c words by (simp add: unat_sub_if')
  then have room: "\<not> cl_buffer_size m - of_nat k < of_nat c"
    using state c words by (simp add: word_less_nat_alt)
  have d: "take (k + c) (poke (cl_data m) k (peek v k c)) = take (k + c) v"
    using state c by (intro take_poke) simp_all
  have len: "length (poke (cl_data m) k (peek v k c)) = length (cl_data m)" "k + c \<le> length (cl_data m)"
    using state c by simp_all
  define m' where "m' = m\<lparr>cl_data := poke (cl_data m) k (peek v k c), cl_pos := k + c, cl_data_size := of_nat k + of_nat c\<rparr>"
  have step: "SDORequest_process (sdo_bytes r) m = processUploadSegmented (sdo_bytes r) f r m"
    using own frame answer carried by (simp add: SDORequest_process_def)
  have "SDORequest_process (sdo_bytes r) m =
      (if is_last then Some (FINALIZE, with_status SUCCESS m')
       else Some (CONTINUE, with_frame (f\<lparr>mf_service := (mf_service f)\<lparr>sd_complete_access := toggle_bit (\<not> toggle)\<rparr>\<rparr>) m'))"
    using answer frame carried(2,4) room len c unfolding step processUploadSegmented_def carried(1) state(1,2) words Let_def
    by (simp add: m'_def state(1,2) words)
  moreover have "delivered v (with_status SUCCESS m')" if is_last
    using that last d len words(3) [unfolded of_nat_add] by (simp add: delivered_def with_status_def m'_def)
  moreover have "receiving now v (k + c) (\<not> toggle) n
      (with_frame (f\<lparr>mf_service := (mf_service f)\<lparr>sd_complete_access := toggle_bit (\<not> toggle)\<rparr>\<rparr>) m')"
    using state d len c frame
    by (auto simp: receiving_def room_for_def live_def with_frame_def m'_def own_frame_def upload_segment_frame_def request_header_def)
  ultimately show ?thesis by auto
qed

lemma upload_segments:
  assumes n: "16 \<le> n" "n \<le> 65535" and v: "readable hk dict h index subindex pos v"
    and "client_ready i m q" "receiving now v k toggle n m"
    and "server_ready dict s" "rb_to_process s = [SdoMsg sm]" "segmented pos k toggle sm" and "k < length v"
  shows "\<exists>q' m'. exchanges (Suc ((length v - k) div (n - 9))) hk now (q, s, h) = Some (q', s\<lparr>rb_to_process := []\<rparr>, h)
    \<and> client_done i m' q' \<and> delivered v m'"
  using assms(4-)
proof (induction "length v - k" arbitrary: k toggle m q s sm rule: less_induct)
  case less
  let ?c = "chunk_size n (length v - k)"
  have c: "k + ?c \<le> length v" using less.prems(6) by (auto simp: chunk_size_def)
  obtain f where f: "own_frame m f" "upload_segment_frame toggle n f" using less.prems by (auto simp: receiving_def)
  obtain r sm' where srv: "SDO_process_raw hk (Some dict) (sdo_bytes f) sm h =
      Some (if k + ?c = length v then FINALIZE else FINALIZE_AND_KEEP, sm', [sdo_bytes r], h)"
    "upload_segment_answer toggle (k + ?c = length v) (peek v k ?c) n r"
    "k + ?c = length v \<or> segmented pos (k + ?c) (\<not> toggle) sm'"
    using server_upload_segment [OF f(2) n v less.prems(5,6)] by blast
  obtain m' where cli: "SDORequest_process (sdo_bytes r) m = Some (if k + ?c = length v then FINALIZE else CONTINUE, m')"
    "if k + ?c = length v then delivered v m' else receiving now v (k + ?c) (\<not> toggle) n m'"
    using client_upload_segment [OF less.prems(2) srv(2) c readable_length(1) [OF v] refl] by blast
  have req: "processRequest hk (am_data (cl_base m)) s h = Some (sdo_bytes r,
      s\<lparr>rb_to_process := keeps (if k + ?c = length v then FINALIZE else FINALIZE_AND_KEEP) sm'\<rparr>, h)"
    using processRequest_segment [OF less.prems(3,4) srv(1)] srv(3) f(1)
    by (auto simp: own_frame_def segmented_def)
  have live: "live now m" using less.prems by (simp add: receiving_def)
  obtain q' where q': "exchange hk now (q, s, h) = Some (q',
      s\<lparr>rb_to_process := keeps (if k + ?c = length v then FINALIZE else FINALIZE_AND_KEEP) sm'\<rparr>, h)"
    "if k + ?c = length v then client_done i m' q' else \<exists>c. client_ready i (counted c m') q'"
    using exchange_client [OF less.prems(1) live req cli(1)] by (cases "k + ?c = length v") auto
  have queue: "qb_to_send q \<noteq> []" using less.prems by (simp add: client_ready_def)
  show ?case
  proof (cases "k + ?c = length v")
    case True
    have "exchanges x hk now (q', s', h') = Some (q', s', h')" for x s' h'
      using q'(2) True by (cases x) (simp_all add: client_done_def)
    then show ?thesis using True q' queue cli(2) by (auto simp: keeps_def)
  next
    case False
    then have c': "?c = n - 9" using less.prems by (auto simp: chunk_size_def split: if_splits)
    then have less': "length v - (k + ?c) < length v - k" "k + ?c < length v" using False c n by linarith+
    obtain cc where ready: "client_ready i (counted cc m') q'" using q'(2) False by auto
    let ?s = "s\<lparr>rb_to_process := keeps FINALIZE_AND_KEEP sm'\<rparr>"
    have "\<exists>q'' m''. exchanges (Suc ((length v - (k + ?c)) div (n - 9))) hk now (q', ?s, h) =
        Some (q'', ?s\<lparr>rb_to_process := []\<rparr>, h) \<and> client_done i m'' q'' \<and> delivered v m''"
      by (rule less.hyps [OF less'(1) ready _ _ _ _ less'(2)])
        (use cli(2) False less.prems(3) srv(3) in \<open>auto simp: keeps_def server_ready_def intro: receiving_counted\<close>)
    moreover have "(length v - k) div (n - 9) = Suc ((length v - (k + ?c)) div (n - 9))"
      using less'(2) n unfolding c' by (subst le_div_geq) (simp_all add: diff_diff_left)
    ultimately show ?thesis using False q'(1) queue by auto
  qed
qed

section \<open>A whole upload\<close>

lemma zero_frame:
  assumes "12 \<le> n"
  shows "\<exists>f. sdo_overlay (replicate n 0) = Some f \<and> mh_address (mf_header f) = 0 \<and> length (mf_payload f) = n - 12"
proof -
  have "peek (replicate n 0) 0 6 = replicate 6 (0 :: u8)" using assms by (simp add: peek_def)
  then show ?thesis
    using assms by (simp add: overlay_def dec_mailbox_header_def peek_def from_le_def numeral_eq_Suc Let_def)
qed

definition idle_master :: "request_mailbox \<Rightarrow> bool" where
  "idle_master q \<longleftrightarrow> 16 \<le> unat (qb_recv_size q) \<and> qb_to_send q = [] \<and> qb_to_process q = []"

definition idle_slave :: "dictionary \<Rightarrow> response_mailbox \<Rightarrow> bool" where
  "idle_slave dict s \<longleftrightarrow> server_ready dict s \<and> rb_to_process s = []"

lemma enqueue_ready:
  assumes "qb_to_send q = []" "qb_to_process q = []"
  shows "\<exists>i c q'. enqueue (SdoReq m) q = (i, q') \<and> client_ready i (counted c m) q'"
  using assms by (auto simp: enqueue_def client_ready_def counted_def Let_def nth_append)

lemma fresh_request:
  assumes "16 \<le> unat n"
  obtains f where "sdo_overlay (am_data (AbstractMessage_new n timeout now)) = Some f"
    "mh_address (mf_header f) = 0" "length (mf_payload f) = unat n - 12"
    "length (am_data (AbstractMessage_new n timeout now)) = unat n"
proof -
  have "max (unat n) 6 = unat n" using assms by simp
  then show ?thesis using that zero_frame [of "unat n"] assms by (auto simp: AbstractMessage_new_def)
qed

lemma unat_u16_le: "unat (n :: u16) \<le> 65535"
  using unsigned_less [of n, where ?'a = nat] by simp

lemma live_new: "0 \<le> timeout \<Longrightarrow> cl_base m = (AbstractMessage_new n timeout now)\<lparr>am_data := d\<rparr> \<Longrightarrow> live now m"
  by (simp add: live_def AbstractMessage_new_def)

lemma createSDO_upload:
  assumes q: "idle_master q" and "0 \<le> timeout"
  shows "\<exists>i q' m f. createSDO index subindex False (ucast REQ_UPLOAD) buffer data_size timeout now q = Some (Inr (i, q'))
    \<and> client_ready i m q' \<and> own_frame m f \<and> upload_frame index subindex f \<and> live now m \<and> cl_pos m = 0
    \<and> length (mf_payload f) + 12 = unat (qb_recv_size q)
    \<and> cl_data m = buffer \<and> cl_data_size m = data_size \<and> cl_buffer_size m = data_size"
proof -
  have n: "16 \<le> unat (qb_recv_size q)" "qb_recv_size q \<noteq> 0" using q by (auto simp: idle_master_def)
  obtain f0 where f0: "sdo_overlay (am_data (AbstractMessage_new (qb_recv_size q) timeout now)) = Some f0"
    "mh_address (mf_header f0) = 0" "length (mf_payload f0) = unat (qb_recv_size q) - 12"
    by (rule fresh_request [OF n(1)])
  obtain m f where new: "SDORequest_new (qb_recv_size q) index subindex False (ucast REQ_UPLOAD) buffer data_size timeout now = Some m"
    "own_frame m f" "upload_frame index subindex f" "live now m" "cl_pos m = 0"
    "length (mf_payload f) + 12 = unat (qb_recv_size q)"
    "cl_data m = buffer" "cl_data_size m = data_size" "cl_buffer_size m = data_size"
    using f0 n unat_u16_le [of "qb_recv_size q"] assms(2)
    by (simp add: SDORequest_new_def Let_def own_frame_def with_frame_def upload_frame_def request_header_def toggle_bit_def
        live_def AbstractMessage_new_def)
  obtain i c q' where "enqueue (SdoReq m) q = (i, q')" "client_ready i (counted c m) q'"
    using enqueue_ready [of q m] q by (auto simp: idle_master_def)
  moreover have "own_frame (counted c m) (f\<lparr>mf_header := (mf_header f)\<lparr>mh_count := ucast (c AND 7)\<rparr>\<rparr>)"
    by (rule own_frame_counted [OF new(2)])
  moreover have "upload_frame index subindex (f\<lparr>mf_header := (mf_header f)\<lparr>mh_count := ucast (c AND 7)\<rparr>\<rparr>)"
    using new(3) by (simp add: upload_frame_def request_header_def)
  ultimately show ?thesis
    using new n(2) by (auto simp: createSDO_def intro!: exI [where x = "counted c m"] exI [where x = "f\<lparr>mf_header := (mf_header f)\<lparr>mh_count := ucast (c AND 7)\<rparr>\<rparr>"])
qed

lemma idle_slave_again: "idle_slave dict s \<Longrightarrow> s\<lparr>rb_to_process := []\<rparr> = s"
  by (simp add: idle_slave_def)

lemma exchanges_done: "client_done i m q \<Longrightarrow> exchanges x hk now (q, s, h) = Some (q, s, h)"
  by (cases x) (simp_all add: client_done_def)

lemma upload_run:
  assumes s: "idle_slave dict s" and v: "readable hk dict h index subindex pos v" "v \<noteq> []"
    and m: "client_ready i m q" "own_frame m f" "upload_frame index subindex f" "live now m" "cl_pos m = 0"
    and b: "cl_data_size m = cl_buffer_size m" "room_for (length v) m"
    and n: "length (mf_payload f) + 12 = n"
  shows "\<exists>q' m'. exchanges (2 + length v div (n - 9)) hk now (q, s, h) = Some (q', s, h)
    \<and> client_done i m' q' \<and> delivered v m'"
proof -
  let ?single = "length v \<le> 4 \<or> length v + 4 \<le> length (mf_payload f)"
  have ready: "server_ready dict s" "rb_to_process s = []" using s by (simp_all add: idle_slave_def)
  obtain sm where srv: "SDO_process hk (Some dict) (SDOMessage_new (sdo_bytes f)) h =
      Some (if ?single then FINALIZE else FINALIZE_AND_KEEP, sm, [sdo_bytes (upload_answer v f)], h)"
    "?single \<or> segmented pos 0 False sm"
    using server_upload [OF m(3) v(1)] by blast
  have hdr: "request_header f" using m(3) by (simp add: upload_frame_def)
  have req: "processRequest hk (am_data (cl_base m)) s h = Some (sdo_bytes (upload_answer v f),
      s\<lparr>rb_to_process := keeps (if ?single then FINALIZE else FINALIZE_AND_KEEP) sm\<rparr>, h)"
    using processRequest_fresh [OF ready create_request [OF hdr] srv(1)] m(2) by (simp add: own_frame_def)
  obtain r m' where cli: "SDORequest_process (sdo_bytes (upload_answer v f)) m = Some (r, m')"
    "if ?single then r = FINALIZE \<and> delivered v m' else r = CONTINUE \<and> receiving now v 0 False n m'"
    using client_upload [OF m(3,2,4,5) b v(2) readable_length(1) [OF v(1)]] unfolding n by blast
  have r: "r = FINALIZE \<or> r = CONTINUE" using cli(2) by (auto split: if_splits)
  obtain q' where q': "exchange hk now (q, s, h) = Some (q',
      s\<lparr>rb_to_process := keeps (if ?single then FINALIZE else FINALIZE_AND_KEEP) sm\<rparr>, h)"
    "if r = FINALIZE then client_done i m' q' else \<exists>c. client_ready i (counted c m') q'"
    using exchange_client [OF m(1,4) req cli(1) r] by blast
  have queue: "qb_to_send q \<noteq> []" using m(1) by (simp add: client_ready_def)
  show ?thesis
  proof (cases ?single)
    case True
    then have "client_done i m' q'" "delivered v m'" using q'(2) cli(2) by auto
    moreover have "exchanges (Suc x) hk now (q, s, h) = Some (q', s, h)" for x
      using True q'(1) queue idle_slave_again [OF s] exchanges_done [OF \<open>client_done i m' q'\<close>] by (simp add: keeps_def)
    ultimately show ?thesis by (metis add_2_eq_Suc)
  next
    case False
    then obtain c where c: "client_ready i (counted c m') q'" using q'(2) cli(2) by auto
    let ?s = "s\<lparr>rb_to_process := [SdoMsg sm]\<rparr>"
    have n': "16 \<le> n" "n \<le> 65535" using m(3) n by (simp_all add: upload_frame_def)
    have ready': "server_ready dict ?s" using ready by (simp add: server_ready_def)
    have rcv: "receiving now v 0 False n m'" and seg: "segmented pos 0 False sm" using cli(2) srv(2) False by auto
    obtain q'' m'' where "exchanges (Suc ((length v - 0) div (n - 9))) hk now (q', ?s, h) = Some (q'', ?s\<lparr>rb_to_process := []\<rparr>, h)"
      "client_done i m'' q''" "delivered v m''"
      using upload_segments [OF n' v(1) c receiving_counted [OF rcv] ready' _ seg] v(2) by (auto simp del: exchanges.simps)
    then show ?thesis using q'(1) queue False idle_slave_again [OF s] by (auto simp: keeps_def)
  qed
qed

lemma upload_whole:
  assumes "idle_master q" and "idle_slave dict s" and "readable hk dict h index subindex pos v" and "v \<noteq> []"
    and "0 \<le> timeout" and "length v \<le> unat data_size" and "unat data_size \<le> length buffer"
  shows "\<exists>i q0 q' m.
    createSDO index subindex False (ucast REQ_UPLOAD) buffer data_size timeout now q = Some (Inr (i, q0))
    \<and> exchanges (2 + length v div (unat (qb_recv_size q) - 9)) hk now (q0, s, h) = Some (q', s, h)
    \<and> client_done i m q' \<and> delivered v m"
proof -
  obtain i q0 m f where new: "createSDO index subindex False (ucast REQ_UPLOAD) buffer data_size timeout now q = Some (Inr (i, q0))"
    "client_ready i m q0" "own_frame m f" "upload_frame index subindex f" "live now m" "cl_pos m = 0"
    "length (mf_payload f) + 12 = unat (qb_recv_size q)"
    "cl_data m = buffer" "cl_data_size m = data_size" "cl_buffer_size m = data_size"
    using createSDO_upload [OF assms(1,5)] by blast
  have "cl_data_size m = cl_buffer_size m" "room_for (length v) m"
    using new assms by (simp_all add: room_for_def)
  then obtain q' m' where "exchanges (2 + length v div (unat (qb_recv_size q) - 9)) hk now (q0, s, h) = Some (q', s, h)"
    "client_done i m' q'" "delivered v m'"
    using upload_run [OF assms(2,3,4) new(2-6) _ _ new(7)] by blast
  then show ?thesis using new(1) by blast
qed

section \<open>Downloads\<close>

lemma poke_append:
  assumes "off + length a + length b \<le> length d"
  shows "poke (poke d off a) (off + length a) b = poke d off (a @ b)"
  using assms by (simp add: poke_def add.commute add.left_commute)

lemma entry_store_append:
  assumes "entry_store e 0 a h = Some h1"
  shows "entry_store e (length a) b h1 = entry_store e 0 (a @ b) h"
proof -
  obtain p d where d: "en_data e = Some p" "hp_blocks h (fst p) = Some d" "snd p + length a \<le> length d"
    "h1 = h\<lparr>hp_blocks := (hp_blocks h)(fst p \<mapsto> poke d (snd p) a)\<rparr>"
    using assms by (auto simp: entry_store_def store_def bind_eq_Some_conv mem_write_eq_Some_iff split: option.splits)
  show ?thesis
    using d poke_append [of "snd p" a b d]
    by (cases "snd p + length a + length b \<le> length d") (auto simp: entry_store_def store_def mem_write_def)
qed

text \<open>What is asked of a download: the entry exists, may be written and has the size of \<open>v\<close>.\<close>

definition writable :: "hooks \<Rightarrow> dictionary \<Rightarrow> heap \<Rightarrow> u16 \<Rightarrow> u8 \<Rightarrow> nat \<times> nat \<Rightarrow> bytes \<Rightarrow> bool" where
  "writable hk dict h index subindex pos v \<longleftrightarrow>
     findObject dict index subindex = (Some (fst pos), Some (snd pos)) \<and> isDownloadAuthorized (entry_of dict pos)
     \<and> no_callbacks hk pos \<and> unat (value_size (entry_of dict pos)) = length v
     \<and> entry_load (entry_of dict pos) 0 (length v) h \<noteq> None"

lemma writable_length:
  assumes "writable hk dict h index subindex pos v"
  shows "length v \<le> 8192" and "value_size (entry_of dict pos) = of_nat (length v)"
proof -
  show "length v \<le> 8192" using assms value_size_bound [of "entry_of dict pos"] by (simp add: writable_def)
  show "value_size (entry_of dict pos) = of_nat (length v)"
    using assms by (metis writable_def of_nat_unat ucast_id)
qed

lemma entry_store_room:
  assumes "entry_load e 0 n h \<noteq> None" "length d \<le> n"
  shows "\<exists>h'. entry_store e 0 d h = Some h'"
proof -
  obtain p b where "en_data e = Some p" "hp_blocks h (fst p) = Some b" "snd p + n \<le> length b"
    using assms(1) by (auto simp: entry_load_def load_def mem_read_def bind_eq_Some_conv split: option.splits if_splits)
  then show ?thesis using assms(2) by (simp add: entry_store_def store_def)
qed

lemma entry_store_Nil:
  assumes "entry_load e 0 n h \<noteq> None"
  shows "entry_store e 0 [] h = Some h"
proof -
  obtain p d where "en_data e = Some p" "hp_blocks h (fst p) = Some d" "snd p \<le> length d"
    using assms by (auto simp: entry_load_def load_def mem_read_def bind_eq_Some_conv split: option.splits if_splits)
  then show ?thesis by (simp add: entry_store_def store_def fun_upd_idem)
qed

definition download_frame :: "u16 \<Rightarrow> u8 \<Rightarrow> bytes \<Rightarrow> sdo_frame \<Rightarrow> bool" where
  "download_frame index subindex v f \<longleftrightarrow> request_header f \<and> 4 \<le> length (mf_payload f) \<and> length (mf_payload f) \<le> 65523
     \<and> sd_command (mf_service f) = REQ_DOWNLOAD \<and> sd_complete_access (mf_service f) = 0
     \<and> sd_index (mf_service f) = index \<and> sd_subindex (mf_service f) = subindex
     \<and> (if length v \<le> 4
        then mh_len (mf_header f) = 10 \<and> sd_transfer_type (mf_service f) = 1
             \<and> sd_block_size (mf_service f) = of_nat (4 - length v) \<and> peek (mf_payload f) 0 (length v) = v
        else sd_transfer_type (mf_service f) = 0 \<and> peek (mf_payload f) 0 4 = le32 (of_nat (length v))
             \<and> (if length v + 4 \<le> length (mf_payload f)
                then mh_len (mf_header f) = 10 + of_nat (length v) \<and> peek (mf_payload f) 4 (length v) = v
                else mh_len (mf_header f) = 10))"

definition download_answer :: "sdo_frame \<Rightarrow> sdo_frame" where
  "download_answer f = set_command RESP_DOWNLOAD (set_service SDO_RESPONSE f)"

lemma block_size_value:
  "0 < n \<Longrightarrow> n \<le> 4 \<Longrightarrow> 4 - ucast (of_nat (4 - n) :: 2 word) = (of_nat n :: u32)"
proof -
  assume "0 < n" "n \<le> 4"
  then have "n = 1 \<or> n = 2 \<or> n = 3 \<or> n = 4" by linarith
  then show ?thesis by auto
qed

lemma single_frame_len:
  assumes "n \<le> 8192"
  shows "unat (10 + of_nat n :: u16) = 10 + n" and "ucast (10 + of_nat n :: u16) - 10 = (of_nat n :: u32)"
    and "\<not> (10 + of_nat n :: u16) < 10"
proof -
  show len: "unat (10 + of_nat n :: u16) = 10 + n"
    using assms by (simp add: unat_word_ariths unat_of_nat_small)
  then have "ucast (10 + of_nat n :: u16) = (of_nat (10 + n) :: u32)" by (metis of_nat_unat)
  then show "ucast (10 + of_nat n :: u16) - 10 = (of_nat n :: u32)" by simp
  show "\<not> (10 + of_nat n :: u16) < 10" by (simp add: word_less_nat_alt len)
qed

lemma server_download:
  assumes f: "download_frame index subindex v f" and w: "writable hk dict h index subindex pos v" and v: "v \<noteq> []"
    and st: "entry_store (entry_of dict pos) 0 v h = Some h'"
  defines "single \<equiv> length v \<le> 4 \<or> length v + 4 \<le> length (mf_payload f)"
  shows "\<exists>m. SDO_process hk (Some dict) (SDOMessage_new (sdo_bytes f)) h =
      Some (if single then FINALIZE else FINALIZE_AND_KEEP, m, [sdo_bytes (download_answer f)], if single then h' else h)
    \<and> (single \<or> segmented pos 0 False m)"
proof -
  note len = writable_length [OF w]
  note frame = f [unfolded download_frame_def request_header_def]
  have found: "findObject dict index subindex = (Some (fst pos), Some (snd pos))" "isDownloadAuthorized (entry_of dict pos)"
    "no_callbacks hk pos" "unat (value_size (entry_of dict pos)) = length v"
    using w by (auto simp: writable_def)
  have size: "unat (of_nat (length v) :: u32) = length v" using len by (simp add: unat_of_nat_small)
  have ten: "\<not> mh_len (mf_header f) < 10"
    using frame single_frame_len(3) [OF len(1)] by (cases "length v \<le> 4"; cases "length v + 4 \<le> length (mf_payload f)") auto
  have start: "SDO_process hk (Some dict) (SDOMessage_new (sdo_bytes f)) h =
      SDO_download hk dict pos (SDOMessage_new (sdo_bytes f)) f h"
    using frame found ten by (simp add: SDO_process_def SDOMessage_new_def)
  have pos: "0 < length v" using v by simp
  consider "length v \<le> 4" | "\<not> length v \<le> 4" "length v + 4 \<le> length (mf_payload f)"
    | "\<not> length v \<le> 4" "\<not> length v + 4 \<le> length (mf_payload f)" by blast
  then show ?thesis
  proof cases
    case 1
    have "mem_read (mf_payload f) 0 (length v) = Some v" using frame 1 by simp
    then show ?thesis
      using 1 frame found size st block_size_value [OF pos 1] len(2) unfolding start
      by (simp add: SDO_download_def single_def download_answer_def moved_out_def SDOMessage_new_def)
  next
    case 2
    have rd: "mem_read (mf_payload f) 4 (length v) = Some v" "mem_read (mf_payload f) 0 4 = Some (le32 (of_nat (length v)))"
      using frame 2 by simp_all
    show ?thesis
      using 2 frame found size st len(2) rd single_frame_len(2) [OF len(1)] unfolding start
      by (simp add: SDO_download_def single_def download_answer_def moved_out_def SDOMessage_new_def)
  next
    case 3
    have rd: "mem_read (mf_payload f) 0 4 = Some (le32 (of_nat (length v)))" using frame 3 by simp
    have more: "0 < (of_nat (length v) :: u32)" using size pos by (simp add: word_less_nat_alt)
    show ?thesis
      using 3 frame found len(2) rd more unfolding start
      by (simp add: SDO_download_def single_def download_answer_def moved_out_def SDOMessage_new_def segmented_def)
  qed
qed

text \<open>The master with a segment ready: \<open>k\<close> bytes of \<open>v\<close> were acknowledged.\<close>

definition download_segment_frame :: "bool \<Rightarrow> bool \<Rightarrow> bytes \<Rightarrow> nat \<Rightarrow> sdo_frame \<Rightarrow> bool" where
  "download_segment_frame toggle is_last d n f \<longleftrightarrow> request_header f \<and> length (mf_payload f) + 12 = n
     \<and> sd_command (mf_service f) = REQ_DOWNLOAD_SEGMENTED \<and> sd_complete_access (mf_service f) = toggle_bit toggle
     \<and> sd_size_indicator (mf_service f) = (if is_last then 1 else 0) \<and> carries f d"

definition sending :: "int \<Rightarrow> bytes \<Rightarrow> nat \<Rightarrow> bool \<Rightarrow> nat \<Rightarrow> sdo_request \<Rightarrow> bool" where
  "sending now v k toggle n m \<longleftrightarrow> live now m \<and> k \<le> length v
     \<and> (let c = chunk_size n (length v - k)
        in cl_download_remaining m = of_nat (length v - (k + c)) \<and> cl_pos m = k + c
           \<and> peek (cl_data m) 0 (length v) = v \<and> length v \<le> length (cl_data m)
           \<and> (\<exists>f. own_frame m f \<and> download_segment_frame toggle (k + c = length v) (peek v k c) n f))"

lemma prepare_sends:
  assumes m: "live now m" "cl_download_remaining m = of_nat (length v - k)" "cl_pos m = k"
    "peek (cl_data m) 0 (length v) = v" "length v \<le> length (cl_data m)" "length (am_data (cl_base m)) = n"
    and g: "mh_type (mf_header g) = CoE" "mh_address (mf_header g) = 0" "length (mf_payload g) + 12 = n"
    "sd_complete_access (mf_service g) = toggle_bit toggle"
    and k: "k \<le> length v" "length v \<le> 8192" and n: "16 \<le> n" "n \<le> 65535"
  shows "\<exists>m'. prepareDownloadSegment g m = Some m' \<and> sending now v k toggle n m'"
proof -
  define c where "c = chunk_size n (length v - k)"
  define d where "d = peek v k c"
  have c: "k + c \<le> length v" "c + 9 \<le> n" using n k by (auto simp: c_def chunk_size_def)
  have d: "length d = c" "mem_read (cl_data m) k c = Some d"
  proof -
    show "length d = c" using c by (simp add: d_def)
    have "peek (cl_data m) k c = peek (peek (cl_data m) 0 (length v)) k c"
      using c by (simp add: peek_def take_drop min_def)
    then show "mem_read (cl_data m) k c = Some d" using m(4,5) c by (simp add: d_def)
  qed
  have small: "length v - k \<le> 2 ^ 32 - 1" using k by simp
  have chunk: "(if of_nat n - 9 < (of_nat (length v - k) :: u32) then of_nat n - 9 else of_nat (length v - k)) = (of_nat c :: u32)"
    unfolding c_def by (rule chunk_word0 [OF n small])
  have words: "unat (of_nat c :: u32) = c" using c k by (simp add: unat_of_nat_small)
  have rest: "of_nat (length v - k) - of_nat c = (of_nat (length v - (k + c)) :: u32)"
    using c by (simp add: of_nat_diff)
  have none: "(of_nat (length v - (k + c)) = (0 :: u32)) = (k + c = length v)"
    using of_nat_eq_word [where 'w = 32, of "length v - (k + c)" 0] c k by auto
  have gn: "length (sdo_bytes g) = n" using g by simp
  obtain b g1 where b: "(if of_nat c < (7 :: u32) then mem_write (sdo_bytes g) 9 (replicate 7 0) else Some (sdo_bytes g)) = Some b"
    "sdo_bytes g1 = b" "mf_header g1 = mf_header g" "mf_coe g1 = mf_coe g"
    "sd_complete_access (mf_service g1) = sd_complete_access (mf_service g)" "length (mf_payload g1) = length (mf_payload g)"
  proof (cases "of_nat c < (7 :: u32)")
    case True
    have z: "length (replicate 7 (0 :: u8)) + 9 \<le> length (sdo_bytes g)" using gn n by simp
    show ?thesis using poke_segment [OF z] True gn n that sdo.frame_overlay by auto
  qed (use that in auto)
  have g1n: "length d + 9 \<le> length (sdo_bytes g1)" using b(6) d c g by simp
  obtain g2 where g2: "sdo_overlay (poke (sdo_bytes g1) 9 d) = Some g2" "mf_header g2 = mf_header g" "mf_coe g2 = mf_coe g"
    "sd_complete_access (mf_service g2) = toggle_bit toggle" "length (mf_payload g2) = length (mf_payload g)"
    using poke_segment [OF g1n] b g by auto
  have wr: "mem_write b 9 d = Some (poke (sdo_bytes g1) 9 d)"
    using g1n by (simp add: b(2) [symmetric] mem_write_def add.commute del: sdo.length_frame_bytes)
  define sd where "sd = (mf_service g2)\<lparr>sd_command := REQ_DOWNLOAD_SEGMENTED\<rparr>"
  define r where "r = set_len (fst (setSegmentLength sd (of_nat c))) (set_service SDO_REQUEST (g2\<lparr>mf_service :=
      (snd (setSegmentLength sd (of_nat c)))\<lparr>sd_size_indicator := (if k + c = length v then 1 else 0)\<rparr>\<rparr>))"
  have carried: "carries r d"
    by (rule carriesI [where s = sd, OF g2(1) g1n])
      (use b(6) g n d(1) in \<open>simp_all add: r_def set_len_def set_service_def sd_def\<close>)
  have "prepareDownloadSegment g m =
      Some (with_frame r (m\<lparr>cl_pos := k + c, cl_download_remaining := of_nat (length v - (k + c))\<rparr>))"
    unfolding prepareDownloadSegment_def Let_def m(2,3,6) chunk b(1)
    by (simp add: words d(2) wr g2(1) m(2,3) rest none split_def r_def sd_def del: of_nat_diff)
  moreover have "download_segment_frame toggle (k + c = length v) d n r"
    using carried g2 g by (simp add: download_segment_frame_def request_header_def r_def set_len_def set_service_def sd_def)
  ultimately show ?thesis
    using m(1,4,5) k(1) unfolding sending_def Let_def c_def [symmetric] d_def [symmetric]
    by (auto simp: with_frame_def live_def own_frame_def)
qed

lemma sending_counted: "sending now v k toggle n m \<Longrightarrow> sending now v k toggle n (counted c m)"
proof -
  assume m: "sending now v k toggle n m"
  have "download_segment_frame toggle l d n (f\<lparr>mf_header := (mf_header f)\<lparr>mh_count := x\<rparr>\<rparr>)"
    if "download_segment_frame toggle l d n f" for l d f x
    using that by (simp add: download_segment_frame_def request_header_def carries_def peek_def segment_area)
  with m show ?thesis unfolding sending_def Let_def by (fastforce intro: own_frame_counted)
qed

lemma client_download:
  assumes f: "download_frame index subindex v f" and m: "own_frame m f" "live now m"
    and v: "v \<noteq> []" "length v \<le> 8192" and n: "length (mf_payload f) + 12 = n"
    and r: "cl_download_remaining m = (if length v \<le> 4 \<or> length v + 4 \<le> length (mf_payload f) then 0 else of_nat (length v))"
    and b: "cl_pos m = 0" "peek (cl_data m) 0 (length v) = v" "length v \<le> length (cl_data m)"
  shows "\<exists>r m'. SDORequest_process (sdo_bytes (download_answer f)) m = Some (r, m')
    \<and> (if length v \<le> 4 \<or> length v + 4 \<le> length (mf_payload f) then r = FINALIZE \<and> am_status (cl_base m') = SUCCESS
       else r = CONTINUE \<and> sending now v 0 False n m')"
proof -
  note frame = f [unfolded download_frame_def request_header_def]
  have own: "sdo_overlay (am_data (cl_base m)) = Some f" "length (am_data (cl_base m)) = n"
    using m(1) n by (simp_all add: own_frame_def)
  have len: "6 + unat (mh_len (mf_header f)) \<le> n"
    using frame single_frame_len(1) [OF v(2)] n
    by (cases "length v \<le> 4"; cases "length v + 4 \<le> length (mf_payload f)") auto
  have start: "SDORequest_process (sdo_bytes (download_answer f)) m = processDownload f (download_answer f) m"
    using frame own len
    by (simp add: SDORequest_process_def download_answer_def set_command_def set_service_def)
  have cmd: "sd_command (mf_service (download_answer f)) = RESP_DOWNLOAD"
    by (simp add: download_answer_def set_command_def)
  show ?thesis
  proof (cases "length v \<le> 4 \<or> length v + 4 \<le> length (mf_payload f)")
    case True
    then show ?thesis using r unfolding start by (simp add: processDownload_def cmd with_status_def)
  next
    case False
    have "of_nat (length v) \<noteq> (0 :: u32)"
      using of_nat_eq_word [where 'w = 32, of "length v" 0] v by simp
    moreover have "16 \<le> n" "n \<le> 65535" using frame n by simp_all
    moreover obtain m' where "prepareDownloadSegment (f\<lparr>mf_service := (mf_service f)\<lparr>sd_complete_access := 0\<rparr>\<rparr>) m = Some m'"
      "sending now v 0 False n m'"
      using prepare_sends [OF m(2), of v 0 n "f\<lparr>mf_service := (mf_service f)\<lparr>sd_complete_access := 0\<rparr>\<rparr>" False]
        r b own n frame v False by (auto simp: toggle_bit_def)
    moreover have "sending now v 0 False n (with_status RUNNING m')"
      using \<open>sending now v 0 False n m'\<close>
      by (auto simp: sending_def with_status_def live_def own_frame_def Let_def)
    ultimately show ?thesis using False r unfolding start by (simp add: processDownload_def cmd)
  qed
qed

definition download_segment_answer :: "bool \<Rightarrow> nat \<Rightarrow> sdo_frame \<Rightarrow> bool" where
  "download_segment_answer toggle n r \<longleftrightarrow> mh_type (mf_header r) = CoE \<and> mh_address (mf_header r) = 0
     \<and> coe_service (mf_coe r) = SDO_RESPONSE \<and> sd_command (mf_service r) = RESP_DOWNLOAD_SEGMENTED
     \<and> sd_complete_access (mf_service r) = toggle_bit toggle \<and> mh_len (mf_header r) = 3"

lemma server_download_segment:
  assumes f: "download_segment_frame toggle is_last (peek v k c) n f" and n: "16 \<le> n"
    and w: "writable hk dict h index subindex pos v" and m: "segmented pos k toggle m"
    and c: "k + c \<le> length v" and last: "is_last = (k + c = length v)"
    and h: "entry_store (entry_of dict pos) 0 (take k v) h = Some h1"
    and h2: "entry_store (entry_of dict pos) 0 (take (k + c) v) h = Some h2"
  shows "\<exists>r m'. SDO_process_raw hk (Some dict) (sdo_bytes f) m h1 =
      Some (if is_last then FINALIZE else FINALIZE_AND_KEEP, m', [sdo_bytes r], h2)
    \<and> download_segment_answer toggle n r \<and> (is_last \<or> segmented pos (k + c) (\<not> toggle) m')"
proof -
  note frame = f [unfolded download_segment_frame_def request_header_def]
  note len = writable_length [OF w]
  have cb: "no_callbacks hk pos" using w by (simp add: writable_def)
  have state: "sv_segmented_entry m = Some pos" "sv_segmented_offset m = of_nat k" "sv_segmented_toggle m = toggle"
    using m by (auto simp: segmented_def)
  have carried: "segmentDataLength (mh_len (mf_header f)) (mf_service f) = of_nat c" "\<not> mh_len (mf_header f) < 10"
    "mem_read (sdo_bytes f) 9 c = Some (peek v k c)"
    using frame c by (auto simp: carries_def word_less_nat_alt mem_read_def)
  have words: "unat (of_nat c :: u32) = c" "unat (of_nat k :: u32) = k"
    using c len by (simp_all add: unat_of_nat_small)
  have fits: "\<not> of_nat (length v) < of_nat k + (of_nat c :: u32)"
    using of_nat_le_word(2) [where 'w = 32, of "length v" "k + c"] c len by simp
  have st: "entry_store (entry_of dict pos) k (peek v k c) h1 = Some h2"
  proof -
    have "length (take k v) = k" "take k v @ peek v k c = take (k + c) v"
      using c by (simp_all add: peek_def take_add)
    then show ?thesis using entry_store_append [OF h, of "peek v k c"] h2 by simp
  qed
  obtain r0 where r0: "segment_reply n = Some r0" "mh_type (mf_header r0) = CoE" "mh_address (mf_header r0) = 0"
    using segment_reply_frame [of n] n by auto
  have size: "length (sdo_bytes f) = n" using frame by simp
  have toggles: "sd_complete_access (mf_service f) = toggle_bit toggle" using frame by blast
  have start: "SDO_process_raw hk (Some dict) (sdo_bytes f) m h1 = downloadSegment hk dict pos (sdo_bytes f) m f h1"
    using frame state carried by (simp add: SDO_process_raw_def)
  define r where "r = set_len 3 (set_service SDO_RESPONSE (r0\<lparr>mf_service := (mf_service r0)\<lparr>
      sd_command := RESP_DOWNLOAD_SEGMENTED, sd_complete_access := toggle_bit toggle\<rparr>\<rparr>))"
  have ind: "(sd_size_indicator (mf_service f) \<noteq> 0) = is_last" using frame by auto
  have "SDO_process_raw hk (Some dict) (sdo_bytes f) m h1 =
      Some (if is_last then FINALIZE else FINALIZE_AND_KEEP,
        (let m = m\<lparr>sv_segmented_offset := of_nat k + of_nat c, sv_segmented_toggle := \<not> toggle\<rparr>
         in if is_last then m\<lparr>sv_segmented_entry := None\<rparr> else m), [sdo_bytes r], h2)"
    unfolding start downloadSegment_def size Let_def r_def len(2) state(2,3) carried(1) ind
    by (simp add: r0(1) toggles words fits carried(3) st cb)
  then show ?thesis
    using r0 state by (auto simp: download_segment_answer_def segmented_def r_def set_len_def set_service_def Let_def)
qed

lemma client_download_segment:
  assumes m: "sending now v k toggle n m" and r: "download_segment_answer toggle n r"
    and n: "16 \<le> n" "n \<le> 65535" and v: "length v \<le> 8192"
  defines "c \<equiv> chunk_size n (length v - k)"
  shows "\<exists>m'. SDORequest_process (sdo_bytes r) m = Some (if k + c = length v then FINALIZE else CONTINUE, m')
    \<and> (if k + c = length v then am_status (cl_base m') = SUCCESS else sending now v (k + c) (\<not> toggle) n m')"
proof -
  note answer = r [unfolded download_segment_answer_def]
  have k: "k \<le> length v" using m by (simp add: sending_def)
  have c: "k + c \<le> length v" using k by (auto simp: c_def chunk_size_def)
  obtain f where f: "own_frame m f" "download_segment_frame toggle (k + c = length v) (peek v k c) n f"
    "cl_download_remaining m = of_nat (length v - (k + c))" "cl_pos m = k + c" "peek (cl_data m) 0 (length v) = v"
    "length v \<le> length (cl_data m)" "live now m"
    using m unfolding sending_def Let_def c_def [symmetric] by blast
  note frame = f(2) [unfolded download_segment_frame_def request_header_def]
  have own: "sdo_overlay (am_data (cl_base m)) = Some f" "length (am_data (cl_base m)) = n"
    using f(1) frame by (simp_all add: own_frame_def)
  have start: "SDORequest_process (sdo_bytes r) m = processDownloadSegmented f r m"
    using own frame answer n by (simp add: SDORequest_process_def)
  have none: "(of_nat (length v - (k + c)) = (0 :: u32)) = (k + c = length v)"
    using of_nat_eq_word [where 'w = 32, of "length v - (k + c)" 0] c v by auto
  show ?thesis
  proof (cases "k + c = length v")
    case True
    then show ?thesis
      using answer frame f(3) none unfolding start by (simp add: processDownloadSegmented_def with_status_def)
  next
    case False
    obtain m' where "prepareDownloadSegment (f\<lparr>mf_service := (mf_service f)\<lparr>sd_complete_access := toggle_bit (\<not> toggle)\<rparr>\<rparr>) m = Some m'"
      "sending now v (k + c) (\<not> toggle) n m'"
      using prepare_sends [OF f(7,3,4,5,6) own(2), of "f\<lparr>mf_service := (mf_service f)\<lparr>sd_complete_access := toggle_bit (\<not> toggle)\<rparr>\<rparr>" "\<not> toggle"]
        frame c v n by auto
    moreover have "cl_download_remaining m \<noteq> 0" unfolding f(3) none by (rule False)
    ultimately show ?thesis
      using answer frame False unfolding start by (simp add: processDownloadSegmented_def)
  qed
qed

lemma download_segments:
  assumes n: "16 \<le> n" "n \<le> 65535" and w: "writable hk dict h index subindex pos v"
    and h': "entry_store (entry_of dict pos) 0 v h = Some h'"
    and "client_ready i m q" "sending now v k toggle n m"
    and "server_ready dict s" "rb_to_process s = [SdoMsg sm]" "segmented pos k toggle sm" and "k < length v"
    and "entry_store (entry_of dict pos) 0 (take k v) h = Some h1"
  shows "\<exists>q' m'. exchanges (Suc ((length v - k) div (n - 9))) hk now (q, s, h1) = Some (q', s\<lparr>rb_to_process := []\<rparr>, h')
    \<and> client_done i m' q' \<and> am_status (cl_base m') = SUCCESS"
  using assms(5-)
proof (induction "length v - k" arbitrary: k toggle m q s sm h1 rule: less_induct)
  case less
  let ?c = "chunk_size n (length v - k)"
  have c: "k + ?c \<le> length v" using less.prems(6) by (auto simp: chunk_size_def)
  obtain f where f: "own_frame m f" "download_segment_frame toggle (k + ?c = length v) (peek v k ?c) n f" "live now m"
    using less.prems(2) by (auto simp: sending_def Let_def)
  have room: "entry_load (entry_of dict pos) 0 (length v) h \<noteq> None" using w by (simp add: writable_def)
  obtain h2 where h2: "entry_store (entry_of dict pos) 0 (take (k + ?c) v) h = Some h2"
    using entry_store_room [OF room, of "take (k + ?c) v"] by auto
  obtain r sm' where srv: "SDO_process_raw hk (Some dict) (sdo_bytes f) sm h1 =
      Some (if k + ?c = length v then FINALIZE else FINALIZE_AND_KEEP, sm', [sdo_bytes r], h2)"
    "download_segment_answer toggle n r" "k + ?c = length v \<or> segmented pos (k + ?c) (\<not> toggle) sm'"
    using server_download_segment [OF f(2) n(1) w less.prems(5) c refl less.prems(7) h2] by blast
  obtain m' where cli: "SDORequest_process (sdo_bytes r) m = Some (if k + ?c = length v then FINALIZE else CONTINUE, m')"
    "if k + ?c = length v then am_status (cl_base m') = SUCCESS else sending now v (k + ?c) (\<not> toggle) n m'"
    using client_download_segment [OF less.prems(2) srv(2) n writable_length(1) [OF w]] by blast
  have req: "processRequest hk (am_data (cl_base m)) s h1 = Some (sdo_bytes r,
      s\<lparr>rb_to_process := keeps (if k + ?c = length v then FINALIZE else FINALIZE_AND_KEEP) sm'\<rparr>, h2)"
    using processRequest_segment [OF less.prems(3,4) srv(1)] srv(3) f(1)
    by (auto simp: own_frame_def segmented_def)
  obtain q' where q': "exchange hk now (q, s, h1) = Some (q',
      s\<lparr>rb_to_process := keeps (if k + ?c = length v then FINALIZE else FINALIZE_AND_KEEP) sm'\<rparr>, h2)"
    "if k + ?c = length v then client_done i m' q' else \<exists>c. client_ready i (counted c m') q'"
    using exchange_client [OF less.prems(1) f(3) req cli(1)] by (cases "k + ?c = length v") auto
  have queue: "qb_to_send q \<noteq> []" using less.prems by (simp add: client_ready_def)
  show ?case
  proof (cases "k + ?c = length v")
    case True
    then have "h2 = h'" using h2 h' by simp
    then show ?thesis using True q' queue cli(2) exchanges_done by (auto simp: keeps_def)
  next
    case False
    then have c': "?c = n - 9" using less.prems by (auto simp: chunk_size_def split: if_splits)
    then have less': "length v - (k + ?c) < length v - k" "k + ?c < length v" using False c n by linarith+
    obtain cc where ready: "client_ready i (counted cc m') q'" using q'(2) False by auto
    let ?s = "s\<lparr>rb_to_process := keeps FINALIZE_AND_KEEP sm'\<rparr>"
    have "\<exists>q'' m''. exchanges (Suc ((length v - (k + ?c)) div (n - 9))) hk now (q', ?s, h2) =
        Some (q'', ?s\<lparr>rb_to_process := []\<rparr>, h') \<and> client_done i m'' q'' \<and> am_status (cl_base m'') = SUCCESS"
      by (rule less.hyps [OF less'(1) ready _ _ _ _ less'(2) h2])
        (use cli(2) False less.prems(3) srv(3) in \<open>auto simp: keeps_def server_ready_def intro: sending_counted\<close>)
    moreover have "(length v - k) div (n - 9) = Suc ((length v - (k + ?c)) div (n - 9))"
      using less'(2) n unfolding c' by (subst le_div_geq) (simp_all add: diff_diff_left)
    ultimately show ?thesis using False q'(1) queue by auto
  qed
qed

lemma createSDO_download:
  assumes q: "idle_master q" and "0 \<le> timeout" and v: "v \<noteq> []" "length v \<le> 8192"
    and b: "unat data_size = length v" "length v \<le> length buffer" "take (length v) buffer = v"
  shows "\<exists>i q' m f. createSDO index subindex False (ucast REQ_DOWNLOAD) buffer data_size timeout now q = Some (Inr (i, q'))
    \<and> client_ready i m q' \<and> own_frame m f \<and> download_frame index subindex v f \<and> live now m \<and> cl_pos m = 0
    \<and> length (mf_payload f) + 12 = unat (qb_recv_size q) \<and> cl_data m = buffer
    \<and> cl_download_remaining m = (if length v \<le> 4 \<or> length v + 4 \<le> length (mf_payload f) then 0 else of_nat (length v))"
proof -
  have n: "16 \<le> unat (qb_recv_size q)" "qb_recv_size q \<noteq> 0" using q by (auto simp: idle_master_def)
  obtain f0 where f0: "sdo_overlay (am_data (AbstractMessage_new (qb_recv_size q) timeout now)) = Some f0"
    "mh_address (mf_header f0) = 0" "length (mf_payload f0) = unat (qb_recv_size q) - 12"
    "length (am_data (AbstractMessage_new (qb_recv_size q) timeout now)) = unat (qb_recv_size q)"
    by (rule fresh_request [OF n(1)])
  have size: "data_size = of_nat (length v)" using b(1) by (metis of_nat_unat ucast_id)
  have size4: "(of_nat (length v) \<le> (4 :: u32)) = (length v \<le> 4)"
    using v(2) of_nat_le_word(1) [where 'w = 32, of "length v" 4] by simp
  have usize: "unat (of_nat (length v) :: u32) = length v" using b(1) size by simp
  have narrow: "ucast (of_nat (length v) :: u32) = (of_nat (length v) :: u16)" by (metis of_nat_unat usize)
  have rd: "mem_read buffer 0 (length v) = Some v" using b by (simp add: peek_def)
  have block: "ucast ((4 - of_nat (length v)) AND 3 :: u32) = (of_nat (4 - length v) :: 2 word)" if "length v \<le> 4"
  proof -
    have "length v = 0 \<or> length v = 1 \<or> length v = 2 \<or> length v = 3 \<or> length v = 4" using that by linarith
    then show ?thesis by auto
  qed
  have nn: "unat (qb_recv_size q) \<le> 65535" by (rule unat_u16_le)
  let ?base = "AbstractMessage_new (qb_recv_size q) timeout now"
  let ?new = "SDORequest_new (qb_recv_size q) index subindex False (ucast REQ_DOWNLOAD) buffer data_size timeout now"
  define f1 where "f1 = f0\<lparr>mf_header := (mf_header f0)\<lparr>mh_len := 10, mh_priority := 0, mh_channel := 0, mh_type := CoE\<rparr>,
      mf_coe := (mf_coe f0)\<lparr>coe_number := 0, coe_service := SDO_REQUEST\<rparr>,
      mf_service := \<lparr>sd_size_indicator = 0, sd_transfer_type = 0, sd_block_size = 0,
         sd_complete_access = 0, sd_command = REQ_DOWNLOAD, sd_index = index, sd_subindex = subindex\<rparr>\<rparr>"
  define m0 where "m0 = \<lparr>cl_base = ?base, cl_data = buffer, cl_pos = 0, cl_data_size = data_size, cl_buffer_size = data_size,
      cl_download_remaining = 0\<rparr>"
  have base: "live now (with_frame f m0)" "own_frame (with_frame f m0) f" "cl_pos (with_frame f m0) = 0"
    "cl_data (with_frame f m0) = buffer" for f
    using assms(2) by (simp_all add: with_frame_def m0_def live_def own_frame_def AbstractMessage_new_def)
  have new: "?new = (if length v \<le> 4 then do {
        f \<leftarrow> put_payload 0 v (f1\<lparr>mf_service := (mf_service f1)\<lparr>sd_transfer_type := 1, sd_size_indicator := 1,
                    sd_block_size := ucast ((4 - of_nat (length v) :: u32) AND 0x3)\<rparr>\<rparr>);
        Some (with_frame f m0) }
      else if length v + 16 \<le> unat (qb_recv_size q) then do {
        f \<leftarrow> put_payload 0 (le32 (of_nat (length v))) (set_len (10 + of_nat (length v)) f1);
        f \<leftarrow> put_payload 4 v f;
        Some (with_frame f m0) }
      else do {
        f \<leftarrow> put_payload 0 (le32 (of_nat (length v))) (f1\<lparr>mf_service := (mf_service f1)\<lparr>sd_size_indicator := 1\<rparr>\<rparr>);
        Some (with_frame f (m0\<lparr>cl_download_remaining := of_nat (length v)\<rparr>)) })"
    using f0 rd unfolding f1_def m0_def size
    by (simp add: SDORequest_new_def Let_def toggle_bit_def size4 usize narrow set_len_def)
  have "\<exists>m f. ?new = Some m \<and> own_frame m f \<and> download_frame index subindex v f \<and> live now m \<and> cl_pos m = 0
    \<and> length (mf_payload f) + 12 = unat (qb_recv_size q) \<and> cl_data m = buffer
    \<and> cl_download_remaining m = (if length v \<le> 4 \<or> length v + 4 \<le> length (mf_payload f) then 0 else of_nat (length v))"
  proof -
    have p: "length (mf_payload f1) = unat (qb_recv_size q) - 12" "4 \<le> length (mf_payload f1)" "length (mf_payload f1) \<le> 65523"
      using f0 n nn by (simp_all add: f1_def)
    consider "length v \<le> 4" | "\<not> length v \<le> 4" "length v + 16 \<le> unat (qb_recv_size q)"
      | "\<not> length v \<le> 4" "\<not> length v + 16 \<le> unat (qb_recv_size q)" by blast
    then show ?thesis
    proof cases
      case 1
      define f where "f = f1\<lparr>mf_service := (mf_service f1)\<lparr>sd_transfer_type := 1, sd_size_indicator := 1,
          sd_block_size := of_nat (4 - length v)\<rparr>, mf_payload := poke (mf_payload f1) 0 v\<rparr>"
      have "?new = Some (with_frame f m0)" unfolding new using 1 p by (simp add: put_payload_def f_def block del: of_nat_diff)
      moreover have "download_frame index subindex v f"
        using 1 p f0 by (simp add: download_frame_def request_header_def f_def f1_def)
      moreover have "length (mf_payload f) + 12 = unat (qb_recv_size q)" using 1 p n by (simp add: f_def)
      moreover have "cl_download_remaining (with_frame f m0) = 0" by (simp add: with_frame_def m0_def)
      ultimately show ?thesis using base 1 by auto
    next
      case 2
      define f where "f = (set_len (10 + of_nat (length v)) f1)\<lparr>mf_payload :=
          poke (poke (mf_payload f1) 0 (le32 (of_nat (length v)))) 4 v\<rparr>"
      have fit: "length v + 4 \<le> length (mf_payload f1)" using 2 p n by linarith
      have "?new = Some (with_frame f m0)" unfolding new using 2 p by (simp add: put_payload_def f_def set_len_def)
      moreover have "download_frame index subindex v f"
        using 2(1) fit p(2,3) f0(2) by (simp add: download_frame_def request_header_def f_def f1_def set_len_def peek_poke_before)
      moreover have "length (mf_payload f) + 12 = unat (qb_recv_size q)" using 2 p n by (simp add: f_def)
      moreover have "cl_download_remaining (with_frame f m0) = 0" by (simp add: with_frame_def m0_def)
      moreover have "length v + 4 \<le> length (mf_payload f)" using 2 p n by (simp add: f_def)
      ultimately show ?thesis using base by auto
    next
      case 3
      define f where "f = f1\<lparr>mf_service := (mf_service f1)\<lparr>sd_size_indicator := 1\<rparr>,
          mf_payload := poke (mf_payload f1) 0 (le32 (of_nat (length v)))\<rparr>"
      let ?m = "with_frame f (m0\<lparr>cl_download_remaining := of_nat (length v)\<rparr>)"
      have unfit: "\<not> length v + 4 \<le> length (mf_payload f1)" using 3 p n by linarith
      have "?new = Some ?m" unfolding new using 3 p by (simp add: put_payload_def f_def)
      moreover have "download_frame index subindex v f"
        using 3(1) unfit p(2,3) f0(2) by (simp add: download_frame_def request_header_def f_def f1_def)
      moreover have "length (mf_payload f) + 12 = unat (qb_recv_size q)" using p n by (simp add: f_def)
      moreover have "live now ?m" "own_frame ?m f" "cl_pos ?m = 0" "cl_data ?m = buffer" "cl_download_remaining ?m = of_nat (length v)"
        using base [of f] by (simp_all add: with_frame_def live_def own_frame_def)
      moreover have "\<not> length v + 4 \<le> length (mf_payload f)" using 3 p n by (simp add: f_def)
      ultimately show ?thesis using 3(1) by (intro exI [where x = ?m] exI [where x = f]) simp
    qed
  qed
  then obtain m f where m: "?new = Some m" "own_frame m f" "download_frame index subindex v f" "live now m" "cl_pos m = 0"
    "length (mf_payload f) + 12 = unat (qb_recv_size q)" "cl_data m = buffer"
    "cl_download_remaining m = (if length v \<le> 4 \<or> length v + 4 \<le> length (mf_payload f) then 0 else of_nat (length v))"
    by blast
  obtain i c q' where q': "enqueue (SdoReq m) q = (i, q')" "client_ready i (counted c m) q'"
    using enqueue_ready [of q m] q by (auto simp: idle_master_def)
  let ?f = "f\<lparr>mf_header := (mf_header f)\<lparr>mh_count := ucast (c AND 7)\<rparr>\<rparr>"
  have "own_frame (counted c m) ?f" "download_frame index subindex v ?f"
    using own_frame_counted [OF m(2)] m(3) by (simp_all add: download_frame_def request_header_def)
  then show ?thesis
    using m q' n(2) by (intro exI [where x = i] exI [where x = q'] exI [where x = "counted c m"] exI [where x = ?f])
      (simp add: createSDO_def)
qed

lemma download_run:
  assumes s: "idle_slave dict s" and w: "writable hk dict h index subindex pos v" and v: "v \<noteq> []"
    and m: "client_ready i m q" "own_frame m f" "download_frame index subindex v f" "live now m" "cl_pos m = 0"
    and b: "peek (cl_data m) 0 (length v) = v" "length v \<le> length (cl_data m)"
    and r: "cl_download_remaining m = (if length v \<le> 4 \<or> length v + 4 \<le> length (mf_payload f) then 0 else of_nat (length v))"
    and n: "length (mf_payload f) + 12 = n" and h': "entry_store (entry_of dict pos) 0 v h = Some h'"
  shows "\<exists>q' m'. exchanges (2 + length v div (n - 9)) hk now (q, s, h) = Some (q', s, h')
    \<and> client_done i m' q' \<and> am_status (cl_base m') = SUCCESS"
proof -
  let ?single = "length v \<le> 4 \<or> length v + 4 \<le> length (mf_payload f)"
  have ready: "server_ready dict s" "rb_to_process s = []" using s by (simp_all add: idle_slave_def)
  obtain sm where srv: "SDO_process hk (Some dict) (SDOMessage_new (sdo_bytes f)) h =
      Some (if ?single then FINALIZE else FINALIZE_AND_KEEP, sm, [sdo_bytes (download_answer f)], if ?single then h' else h)"
    "?single \<or> segmented pos 0 False sm"
    using server_download [OF m(3) w v h'] by blast
  have hdr: "request_header f" using m(3) by (simp add: download_frame_def)
  have req: "processRequest hk (am_data (cl_base m)) s h = Some (sdo_bytes (download_answer f),
      s\<lparr>rb_to_process := keeps (if ?single then FINALIZE else FINALIZE_AND_KEEP) sm\<rparr>, if ?single then h' else h)"
    using processRequest_fresh [OF ready create_request [OF hdr] srv(1)] m(2) by (simp add: own_frame_def)
  obtain r m' where cli: "SDORequest_process (sdo_bytes (download_answer f)) m = Some (r, m')"
    "if ?single then r = FINALIZE \<and> am_status (cl_base m') = SUCCESS else r = CONTINUE \<and> sending now v 0 False n m'"
    using client_download [OF m(3,2,4) v writable_length(1) [OF w] n r m(5) b] by blast
  have r': "r = FINALIZE \<or> r = CONTINUE" using cli(2) by (auto split: if_splits)
  obtain q' where q': "exchange hk now (q, s, h) = Some (q',
      s\<lparr>rb_to_process := keeps (if ?single then FINALIZE else FINALIZE_AND_KEEP) sm\<rparr>, if ?single then h' else h)"
    "if r = FINALIZE then client_done i m' q' else \<exists>c. client_ready i (counted c m') q'"
    using exchange_client [OF m(1,4) req cli(1) r'] by blast
  have queue: "qb_to_send q \<noteq> []" using m(1) by (simp add: client_ready_def)
  show ?thesis
  proof (cases ?single)
    case True
    then have done': "client_done i m' q'" "am_status (cl_base m') = SUCCESS" using q'(2) cli(2) by auto
    have "exchanges (Suc x) hk now (q, s, h) = Some (q', s, h')" for x
      using True q'(1) queue idle_slave_again [OF s] exchanges_done [OF done'(1)] by (simp add: keeps_def)
    then show ?thesis using done' by (metis add_2_eq_Suc)
  next
    case False
    then obtain c where c: "client_ready i (counted c m') q'" using q'(2) cli(2) by auto
    let ?s = "s\<lparr>rb_to_process := [SdoMsg sm]\<rparr>"
    have n': "16 \<le> n" "n \<le> 65535" using m(3) n by (simp_all add: download_frame_def)
    have ready': "server_ready dict ?s" using ready by (simp add: server_ready_def)
    have snd: "sending now v 0 False n m'" and seg: "segmented pos 0 False sm" using cli(2) srv(2) False by auto
    have h0: "entry_store (entry_of dict pos) 0 (take 0 v) h = Some h"
      using w entry_store_Nil [of "entry_of dict pos" "length v" h] by (simp add: writable_def)
    obtain q'' m'' where "exchanges (Suc ((length v - 0) div (n - 9))) hk now (q', ?s, h) = Some (q'', ?s\<lparr>rb_to_process := []\<rparr>, h')"
      "client_done i m'' q''" "am_status (cl_base m'') = SUCCESS"
      using download_segments [OF n' w h' c sending_counted [OF snd] ready' _ seg _ h0] v by (auto simp del: exchanges.simps)
    then show ?thesis using q'(1) queue False idle_slave_again [OF s] by (auto simp: keeps_def)
  qed
qed

lemma download_whole:
  assumes "idle_master q" and "idle_slave dict s" and "writable hk dict h index subindex pos v" and "v \<noteq> []"
    and "0 \<le> timeout" and "unat data_size = length v" and "take (length v) buffer = v"
  shows "\<exists>i q0 q' m h'.
    createSDO index subindex False (ucast REQ_DOWNLOAD) buffer data_size timeout now q = Some (Inr (i, q0))
    \<and> exchanges (2 + length v div (unat (qb_recv_size q) - 9)) hk now (q0, s, h) = Some (q', s, h')
    \<and> client_done i m q' \<and> am_status (cl_base m) = SUCCESS \<and> entry_store (entry_of dict pos) 0 v h = Some h'"
proof -
  have len: "length v \<le> length buffer" using arg_cong [OF assms(7), of length] by simp
  obtain h' where h': "entry_store (entry_of dict pos) 0 v h = Some h'"
    using entry_store_room [of "entry_of dict pos" "length v" h v] assms(3) by (auto simp: writable_def)
  obtain i q0 m f where new: "createSDO index subindex False (ucast REQ_DOWNLOAD) buffer data_size timeout now q = Some (Inr (i, q0))"
    "client_ready i m q0" "own_frame m f" "download_frame index subindex v f" "live now m" "cl_pos m = 0"
    "length (mf_payload f) + 12 = unat (qb_recv_size q)" "cl_data m = buffer"
    "cl_download_remaining m = (if length v \<le> 4 \<or> length v + 4 \<le> length (mf_payload f) then 0 else of_nat (length v))"
    using createSDO_download [OF assms(1,5,4) writable_length(1) [OF assms(3)] assms(6) len assms(7)] by blast
  have "peek (cl_data m) 0 (length v) = v" "length v \<le> length (cl_data m)"
    using new(8) assms(7) len by (simp_all add: peek_def)
  then obtain q' m' where "exchanges (2 + length v div (unat (qb_recv_size q) - 9)) hk now (q0, s, h) = Some (q', s, h')"
    "client_done i m' q'" "am_status (cl_base m') = SUCCESS"
    using download_run [OF assms(2,3,4) new(2-6) _ _ new(9,7) h'] by blast
  then show ?thesis using new(1) h' by blast
qed

section \<open>An example pair\<close>

text \<open>A variable of nine bytes, a slave with a mailbox for it and a master with mailboxes of 16 bytes.\<close>

definition ex_dict :: dictionary where
  "ex_dict = [\<lparr>ob_index = 0x2000, ob_code = VAR, ob_name = ''counter'', ob_entries =
     [\<lparr>en_subindex = 0, en_bitlen = 72, en_bitoff = 0, en_access = 0x3F, en_type = 0x0A, en_description = ''counter'',
       en_data = Some (0, 0), en_is_mapped = False\<rparr>]\<rparr>]"

definition ex_heap :: "bytes \<Rightarrow> heap" where
  "ex_heap v = \<lparr>hp_fresh = 1, hp_blocks = [0 \<mapsto> v]\<rparr>"

definition ex_value :: bytes where
  "ex_value = [1, 2, 3, 4, 5, 6, 7, 8, 9]"

lemma ex_value_length [simp]: "length ex_value = 9" "ex_value \<noteq> []"
  by (simp_all add: ex_value_def)

definition ex_hooks :: hooks where
  "ex_hooks = \<lparr>hk_before = \<lambda>_. [], hk_after = \<lambda>_. []\<rparr>"

definition ex_slave :: response_mailbox where
  "ex_slave = enableCoE ex_dict (Mailbox_new 64 1)"

definition ex_master :: request_mailbox where
  "ex_master = \<lparr>qb_recv_offset = 0x1000, qb_recv_size = 16, qb_send_offset = 0x1080, qb_send_size = 16, qb_counter = 0,
     qb_to_send = [], qb_to_process = [], qb_emergencies = [], qb_messages = []\<rparr>"

lemma ex_ready: "idle_master ex_master" "idle_slave ex_dict ex_slave"
  by (simp_all add: idle_master_def ex_master_def idle_slave_def ex_slave_def enableCoE_def Mailbox_new_def server_ready_def)

lemma ex_size: "unat (qb_recv_size ex_master) = 16"
  by (simp add: ex_master_def)

lemma ex_entry:
  assumes "length v = 9"
  shows "readable ex_hooks ex_dict (ex_heap v) 0x2000 0 (0, 0) v"
    and "isUploadAuthorized (entry_of ex_dict (0, 0))"
  using assms
  by (simp_all add: readable_def ex_dict_def ex_heap_def ex_hooks_def findObject_def entry_of_def entry_at_def
      no_callbacks_def isUploadAuthorized_def value_size_def entry_load_def load_def peek_def)

lemma ex_writes:
  "length v = 9 \<Longrightarrow> length w = 9 \<Longrightarrow> writable ex_hooks ex_dict (ex_heap w) 0x2000 0 (0, 0) v"
  by (simp add: writable_def ex_dict_def ex_heap_def ex_hooks_def findObject_def entry_of_def entry_at_def
      no_callbacks_def isDownloadAuthorized_def value_size_def entry_load_def load_def)

text \<open>(C34)
  An SDO upload between an idle master and an idle slave delivers the value: for every readable
  entry without callbacks, whatever its size and the size of the mailbox (expedited, single-frame or
  segmented), the request ends successfully within \<open>2 + size div (mailbox size - 9)\<close> exchanges, the
  application's buffer starts with the value of the entry, its size is the size of the value, and
  the slave is idle again with its dictionary unchanged.
\<close>

theorem sdo_upload_delivers:
  assumes "idle_master q" and "idle_slave dict s" and "readable hk dict h index subindex pos v" and "v \<noteq> []"
    and "0 \<le> timeout" and "length v \<le> unat data_size" and "unat data_size \<le> length buffer"
  shows "\<exists>i q0 q' m.
    createSDO index subindex False (ucast REQ_UPLOAD) buffer data_size timeout now q = Some (Inr (i, q0))
    \<and> exchanges (2 + length v div (unat (qb_recv_size q) - 9)) hk now (q0, s, h) = Some (q', s, h)
    \<and> client_done i m q' \<and> am_status (cl_base m) = SUCCESS
    \<and> unat (cl_data_size m) = length v \<and> take (length v) (cl_data m) = v"
  using upload_whole [OF assms] unfolding delivered_def by blast

theorem sdo_upload_delivers_witness:
  "\<exists>i q0 q' m. createSDO 0x2000 0 False (ucast REQ_UPLOAD) (replicate 12 0) 12 0 0 ex_master = Some (Inr (i, q0))
    \<and> exchanges 3 ex_hooks 0 (q0, ex_slave, ex_heap ex_value) = Some (q', ex_slave, ex_heap ex_value)
    \<and> client_done i m q' \<and> am_status (cl_base m) = SUCCESS
    \<and> unat (cl_data_size m) = 9 \<and> take 9 (cl_data m) = ex_value"
  using sdo_upload_delivers [OF ex_ready ex_entry(1) [of ex_value], of 0 12 "replicate 12 0" 0]
  by (simp add: ex_size del: exchanges.simps)

text \<open>(C35)
  An SDO download stores the value: for every writable entry without callbacks of the size of the
  value, whatever that size and the size of the mailbox, the request ends successfully within
  \<open>2 + size div (mailbox size - 9)\<close> exchanges, the heap is the old one with the value written at the
  entry and nothing else, and the slave is idle again.
\<close>

theorem sdo_download_stores:
  assumes "idle_master q" and "idle_slave dict s" and "writable hk dict h index subindex pos v" and "v \<noteq> []"
    and "0 \<le> timeout" and "unat data_size = length v" and "take (length v) buffer = v"
  shows "\<exists>i q0 q' m h'.
    createSDO index subindex False (ucast REQ_DOWNLOAD) buffer data_size timeout now q = Some (Inr (i, q0))
    \<and> exchanges (2 + length v div (unat (qb_recv_size q) - 9)) hk now (q0, s, h) = Some (q', s, h')
    \<and> client_done i m q' \<and> am_status (cl_base m) = SUCCESS \<and> entry_store (entry_of dict pos) 0 v h = Some h'"
  using assms by (rule download_whole)

theorem sdo_download_stores_witness:
  "\<exists>i q0 q' m h'. createSDO 0x2000 0 False (ucast REQ_DOWNLOAD) ex_value 9 0 0 ex_master = Some (Inr (i, q0))
    \<and> exchanges 3 ex_hooks 0 (q0, ex_slave, ex_heap (replicate 9 0)) = Some (q', ex_slave, h')
    \<and> client_done i m q' \<and> am_status (cl_base m) = SUCCESS
    \<and> entry_store (entry_of ex_dict (0, 0)) 0 ex_value (ex_heap (replicate 9 0)) = Some h'"
  using sdo_download_stores [OF ex_ready ex_writes [of ex_value "replicate 9 0"],
      of 0 9 ex_value 0]
  by (simp add: ex_size del: exchanges.simps)

lemma entry_load_store:
  "entry_store e 0 v h = Some h' \<Longrightarrow> entry_load e 0 (length v) h' = Some v"
  by (auto simp: entry_store_def entry_load_def load_store_same split: option.splits)

text \<open>(C36)
  What was written is what is read: after an SDO download of a value to a writable and readable
  entry, an SDO upload of the same entry by any idle master returns that value.
\<close>

theorem sdo_write_then_read:
  assumes "idle_master q1" and "idle_master q2" and "idle_slave dict s"
    and "writable hk dict h index subindex pos v" and "isUploadAuthorized (entry_of dict pos)" and "v \<noteq> []"
    and "0 \<le> timeout" and "unat data_size = length v" and "take (length v) source = v" and "length v \<le> length dest"
  shows "\<exists>i1 q1' r1 h' i2 q2' r2 m.
    createSDO index subindex False (ucast REQ_DOWNLOAD) source data_size timeout now q1 = Some (Inr (i1, q1'))
    \<and> exchanges (2 + length v div (unat (qb_recv_size q1) - 9)) hk now (q1', s, h) = Some (r1, s, h')
    \<and> createSDO index subindex False (ucast REQ_UPLOAD) dest data_size timeout now q2 = Some (Inr (i2, q2'))
    \<and> exchanges (2 + length v div (unat (qb_recv_size q2) - 9)) hk now (q2', s, h') = Some (r2, s, h')
    \<and> client_done i2 m r2 \<and> am_status (cl_base m) = SUCCESS \<and> take (unat (cl_data_size m)) (cl_data m) = v"
proof -
  obtain i1 q1' r1 h' where d: "createSDO index subindex False (ucast REQ_DOWNLOAD) source data_size timeout now q1 = Some (Inr (i1, q1'))"
    "exchanges (2 + length v div (unat (qb_recv_size q1) - 9)) hk now (q1', s, h) = Some (r1, s, h')"
    "entry_store (entry_of dict pos) 0 v h = Some h'"
    using download_whole [OF assms(1,3,4,6-9)] by blast
  have "readable hk dict h' index subindex pos v"
    using assms(4,5) entry_load_store [OF d(3)] by (simp add: writable_def readable_def)
  then obtain i2 q2' r2 m where
    "createSDO index subindex False (ucast REQ_UPLOAD) dest data_size timeout now q2 = Some (Inr (i2, q2'))"
    "exchanges (2 + length v div (unat (qb_recv_size q2) - 9)) hk now (q2', s, h') = Some (r2, s, h')"
    "client_done i2 m r2" "delivered v m"
    using upload_whole [OF assms(2,3) _ assms(6,7), of hk h' index subindex pos data_size dest now] assms(8,10) by auto
  then show ?thesis using d unfolding delivered_def by metis
qed

theorem sdo_write_then_read_witness:
  "\<exists>i1 q1' r1 h' i2 q2' r2 m.
    createSDO 0x2000 0 False (ucast REQ_DOWNLOAD) ex_value 9 0 0 ex_master = Some (Inr (i1, q1'))
    \<and> exchanges 3 ex_hooks 0 (q1', ex_slave, ex_heap (replicate 9 0)) = Some (r1, ex_slave, h')
    \<and> createSDO 0x2000 0 False (ucast REQ_UPLOAD) (replicate 9 0) 9 0 0 ex_master = Some (Inr (i2, q2'))
    \<and> exchanges 3 ex_hooks 0 (q2', ex_slave, h') = Some (r2, ex_slave, h')
    \<and> client_done i2 m r2 \<and> am_status (cl_base m) = SUCCESS
    \<and> take (unat (cl_data_size m)) (cl_data m) = ex_value"
  using sdo_write_then_read [OF ex_ready(1) ex_ready(1) ex_ready(2) ex_writes [of ex_value "replicate 9 0"]
      ex_entry(2) [of "replicate 9 0"], of 0 9 ex_value "replicate 9 0" 0]
  by (simp add: ex_size del: exchanges.simps)

end
