(* ===== verification/SdoFaults.thy ===== *)
theory SdoFaults
  imports SdoTransfer
begin

text \<open>
  How the mailbox behaves when a request cannot be served: refusals and their abort codes, the
  code lost when a download has the wrong size, a request no handler takes, the list of objects
  that does not fit one frame, and the memory safety of the SDO server.
\<close>

section \<open>Refused requests\<close>

text \<open>The abort a slave answers with to a plain SDO request, if any.\<close>

definition refusal :: "dictionary \<Rightarrow> sdo_frame \<Rightarrow> u32 option" where
  "refusal dict f =
     (let sdo = mf_service f in
      case findObject dict (sd_index sdo) (sd_subindex sdo) of
        (None, _) \<Rightarrow> Some OBJECT_DOES_NOT_EXIST
      | (Some ob, None) \<Rightarrow> Some SUBINDEX_DOES_NOT_EXIST
      | (Some ob, Some e) \<Rightarrow>
          if sd_command sdo = REQ_UPLOAD \<and> \<not> isUploadAuthorized (entry_of dict (ob, e)) then Some READ_WRITE_ONLY_ACCESS
          else if sd_command sdo = REQ_DOWNLOAD \<and> \<not> isDownloadAuthorized (entry_of dict (ob, e)) then Some WRITE_READ_ONLY_ACCESS
          else None)"

definition abort_answer :: "u32 \<Rightarrow> sdo_frame \<Rightarrow> sdo_frame" where
  "abort_answer code f = (set_command REQ_ABORT (set_service SDO_REQUEST f))\<lparr>mf_payload := poke (mf_payload f) 0 (le32 code)\<rparr>"

definition plain_request :: "sdo_frame \<Rightarrow> bool" where
  "plain_request f \<longleftrightarrow> request_header f \<and> 10 \<le> mh_len (mf_header f) \<and> 4 \<le> length (mf_payload f)
     \<and> sd_complete_access (mf_service f) = 0
     \<and> (sd_command (mf_service f) = REQ_UPLOAD \<or> sd_command (mf_service f) = REQ_DOWNLOAD)"

lemma server_refuses:
  assumes f: "plain_request f" and code: "refusal dict f = Some code"
  shows "\<exists>m. SDO_process hk (Some dict) (SDOMessage_new (sdo_bytes f)) h =
    Some (FINALIZE, m, [sdo_bytes (abort_answer code f)], h)"
proof -
  have abort: "SDO_abort code (SDOMessage_new (sdo_bytes f)) f h =
      Some (FINALIZE, SDOMessage_new (sdo_bytes f)\<lparr>sv_data := []\<rparr>, [sdo_bytes (abort_answer code f)], h)" for code
    using f by (simp add: SDO_abort_def SDOMessage_new_def put_payload_def moved_out_def abort_answer_def plain_request_def
        set_command_def set_service_def)
  show ?thesis
    using f code abort
    by (auto simp: SDO_process_def SDOMessage_new_def plain_request_def refusal_def Let_def SDO_upload_def SDO_download_def
        not_less [symmetric] split: option.splits prod.splits if_splits)
qed

lemma client_aborted:
  assumes m: "own_frame m f" and f: "plain_request f"
  shows "SDORequest_process (sdo_bytes (abort_answer code f)) m = Some (FINALIZE, with_status code m)"
  using assms
  by (auto simp: SDORequest_process_def own_frame_def abort_answer_def set_command_def set_service_def plain_request_def
      request_header_def)

lemma refused_run:
  assumes s: "idle_slave dict s" and m: "client_ready i m q" "own_frame m f" "live now m"
    and f: "plain_request f" "refusal dict f = Some code"
  shows "\<exists>q'. exchanges 1 hk now (q, s, h) = Some (q', s, h) \<and> client_done i (with_status code m) q'"
proof -
  have ready: "server_ready dict s" "rb_to_process s = []" using s by (simp_all add: idle_slave_def)
  obtain sm where srv: "SDO_process hk (Some dict) (SDOMessage_new (sdo_bytes f)) h =
      Some (FINALIZE, sm, [sdo_bytes (abort_answer code f)], h)"
    using server_refuses [OF f] by blast
  have hdr: "request_header f" using f(1) by (simp add: plain_request_def)
  have req: "processRequest hk (am_data (cl_base m)) s h = Some (sdo_bytes (abort_answer code f), s, h)"
    using processRequest_fresh [OF ready create_request [OF hdr] srv] m(2) idle_slave_again [OF s]
    by (simp add: own_frame_def keeps_def)
  obtain q' where "exchange hk now (q, s, h) = Some (q', s, h)" "client_done i (with_status code m) q'"
    using exchange_client [OF m(1,3) req client_aborted [OF m(2) f(1)]] by auto
  moreover have "qb_to_send q \<noteq> []" using m(1) by (simp add: client_ready_def)
  ultimately show ?thesis by (auto simp: client_done_def)
qed

text \<open>(C37)
  A refused upload tells the master why: when the object or the subindex does not exist or the
  entry may not be read, one exchange ends the request with exactly the corresponding CoE abort
  code as its status, leaves the application's buffer as it was and changes nothing in the slave.
\<close>

theorem sdo_refusal_reported:
  assumes "idle_master q" and "idle_slave dict s" and "0 \<le> timeout"
    and "(case findObject dict index subindex of
            (None, _) \<Rightarrow> code = OBJECT_DOES_NOT_EXIST
          | (Some ob, None) \<Rightarrow> code = SUBINDEX_DOES_NOT_EXIST
          | (Some ob, Some e) \<Rightarrow> \<not> isUploadAuthorized (entry_of dict (ob, e)) \<and> code = READ_WRITE_ONLY_ACCESS)"
  shows "\<exists>i q0 q' m.
    createSDO index subindex False (ucast REQ_UPLOAD) buffer data_size timeout now q = Some (Inr (i, q0))
    \<and> exchanges 1 hk now (q0, s, h) = Some (q', s, h)
    \<and> client_done i m q' \<and> am_status (cl_base m) = code \<and> cl_data m = buffer \<and> cl_data_size m = data_size"
proof -
  obtain i q0 m f where new: "createSDO index subindex False (ucast REQ_UPLOAD) buffer data_size timeout now q = Some (Inr (i, q0))"
    "client_ready i m q0" "own_frame m f" "upload_frame index subindex f" "live now m"
    "cl_data m = buffer" "cl_data_size m = data_size"
    using createSDO_upload [OF assms(1,3)] by blast
  have "plain_request f" "refusal dict f = Some code"
    using new(4) assms(4)
    by (auto simp: plain_request_def refusal_def upload_frame_def Let_def split: option.splits prod.splits)
  then obtain q' where "exchanges 1 hk now (q0, s, h) = Some (q', s, h)" "client_done i (with_status code m) q'"
    using refused_run [OF assms(2) new(2,3,5)] by blast
  then show ?thesis using new(1,6,7) by (intro exI [where x = i] exI [where x = q0] exI [where x = q'] exI [where x = "with_status code m"])
      (simp add: with_status_def)
qed

theorem sdo_refusal_reported_witness:
  "\<exists>i q0 q' m. createSDO 0x6000 0 False (ucast REQ_UPLOAD) [7, 7] 2 0 0 ex_master = Some (Inr (i, q0))
    \<and> exchanges 1 ex_hooks 0 (q0, ex_slave, ex_heap ex_value) = Some (q', ex_slave, ex_heap ex_value)
    \<and> client_done i m q' \<and> am_status (cl_base m) = OBJECT_DOES_NOT_EXIST \<and> cl_data m = [7, 7] \<and> cl_data_size m = 2"
proof -
  have "findObject ex_dict 0x6000 0 = (None, None)" by (simp add: ex_dict_def findObject_def)
  then show ?thesis
    by (intro sdo_refusal_reported [OF ex_ready]) simp_all
qed

section \<open>A download of the wrong size\<close>

text \<open>
  The size read from a non-expedited request moves \<open>payload_\<close> behind it before the size is checked,
  so the abort code lands after the size in the reply.
\<close>

definition misplaced_abort :: "u32 \<Rightarrow> sdo_frame \<Rightarrow> sdo_frame" where
  "misplaced_abort code f = (set_command REQ_ABORT (set_service SDO_REQUEST f))\<lparr>mf_payload := poke (mf_payload f) 4 (le32 code)\<rparr>"

lemma server_mismatch:
  assumes f: "download_frame index subindex v f" "8 \<le> length (mf_payload f)" and v: "4 < length v" "length v \<le> 8192"
    and o: "findObject dict index subindex = (Some (fst pos), Some (snd pos))" "isDownloadAuthorized (entry_of dict pos)"
    "no_callbacks hk pos" and size: "unat (value_size (entry_of dict pos)) \<noteq> length v"
  shows "\<exists>m. SDO_process hk (Some dict) (SDOMessage_new (sdo_bytes f)) h =
    Some (FINALIZE, m, [sdo_bytes (misplaced_abort DATA_TYPE_LENGTH_MISMATCH f)], h)"
proof -
  note frame = f(1) [unfolded download_frame_def request_header_def]
  have ten: "\<not> mh_len (mf_header f) < 10"
    using frame v single_frame_len(3) [OF v(2)] by (cases "length v + 4 \<le> length (mf_payload f)") auto
  have rd: "mem_read (mf_payload f) 0 4 = Some (le32 (of_nat (length v)))" "sd_transfer_type (mf_service f) = 0"
    using frame v(1) by simp_all
  have ne: "of_nat (length v) \<noteq> value_size (entry_of dict pos)"
    using size v(2) unat_of_nat_small [where 'w = 32, of "length v"] by auto
  have start: "SDO_process hk (Some dict) (SDOMessage_new (sdo_bytes f)) h =
      SDO_download hk dict pos (SDOMessage_new (sdo_bytes f)) f h"
    using frame o ten by (simp add: SDO_process_def SDOMessage_new_def)
  show ?thesis
    using f(2) rd ne o unfolding start
    by (simp add: SDO_download_def SDO_abort_def SDOMessage_new_def put_payload_def moved_out_def misplaced_abort_def
        set_command_def set_service_def)
qed

text \<open>
  A download whose size differs from the entry's is refused without touching the dictionary, but the
  master is told the wrong reason: for a value of more than four bytes the reply carries the declared
  size where the abort code belongs, and the status of the request is that size instead of
  \<open>DATA_TYPE_LENGTH_MISMATCH\<close>.
\<close>

theorem sdo_size_mismatch_misreported:
  assumes "idle_master q" and "20 \<le> unat (qb_recv_size q)" and "idle_slave dict s" and "0 \<le> timeout"
    and "findObject dict index subindex = (Some (fst pos), Some (snd pos))" and "isDownloadAuthorized (entry_of dict pos)"
    and "no_callbacks hk pos" and "4 < length v" and "length v \<le> 8192" and "unat (value_size (entry_of dict pos)) \<noteq> length v"
    and "unat data_size = length v" and "take (length v) buffer = v"
  shows "\<exists>i q0 q' m.
    createSDO index subindex False (ucast REQ_DOWNLOAD) buffer data_size timeout now q = Some (Inr (i, q0))
    \<and> exchanges 1 hk now (q0, s, h) = Some (q', s, h)
    \<and> client_done i m q' \<and> am_status (cl_base m) = data_size \<and> am_status (cl_base m) \<noteq> DATA_TYPE_LENGTH_MISMATCH"
proof -
  have len: "length v \<le> length buffer" using arg_cong [OF assms(12), of length] by simp
  have v: "v \<noteq> []" using assms(8) by auto
  obtain i q0 m f where new: "createSDO index subindex False (ucast REQ_DOWNLOAD) buffer data_size timeout now q = Some (Inr (i, q0))"
    "client_ready i m q0" "own_frame m f" "download_frame index subindex v f" "live now m"
    "length (mf_payload f) + 12 = unat (qb_recv_size q)"
    using createSDO_download [OF assms(1,4) v assms(9,11) len assms(12)] by blast
  have ready: "server_ready dict s" "rb_to_process s = []" using assms(3) by (simp_all add: idle_slave_def)
  have hdr: "request_header f" using new(4) by (simp add: download_frame_def)
  have p: "8 \<le> length (mf_payload f)" using new(6) assms(2) by linarith
  obtain sm where srv: "SDO_process hk (Some dict) (SDOMessage_new (sdo_bytes f)) h =
      Some (FINALIZE, sm, [sdo_bytes (misplaced_abort DATA_TYPE_LENGTH_MISMATCH f)], h)"
    using server_mismatch [OF new(4) p assms(8,9,5,6,7,10)] by blast
  have req: "processRequest hk (am_data (cl_base m)) s h = Some (sdo_bytes (misplaced_abort DATA_TYPE_LENGTH_MISMATCH f), s, h)"
    using processRequest_fresh [OF ready create_request [OF hdr] srv] new(3) idle_slave_again [OF assms(3)]
    by (simp add: own_frame_def keeps_def)
  have size: "of_nat (length v) = data_size" using assms(11) by (metis of_nat_unat ucast_id)
  have cli: "SDORequest_process (sdo_bytes (misplaced_abort DATA_TYPE_LENGTH_MISMATCH f)) m = Some (FINALIZE, with_status data_size m)"
    using new(3,4) assms(8) p size
    by (simp add: SDORequest_process_def own_frame_def misplaced_abort_def set_command_def set_service_def download_frame_def
        request_header_def peek_poke_before)
  obtain q' where "exchange hk now (q0, s, h) = Some (q', s, h)" "client_done i (with_status data_size m) q'"
    using exchange_client [OF new(2,5) req cli] by auto
  moreover have "qb_to_send q0 \<noteq> []" using new(2) by (simp add: client_ready_def)
  moreover have "data_size \<noteq> DATA_TYPE_LENGTH_MISMATCH" using assms(9,11) by auto
  ultimately show ?thesis using new(1)
    by (intro exI [where x = i] exI [where x = q0] exI [where x = q'] exI [where x = "with_status data_size m"])
      (auto simp: with_status_def client_done_def)
qed

theorem sdo_size_mismatch_misreported_witness:
  "\<exists>i q0 q' m. createSDO 0x2000 0 False (ucast REQ_DOWNLOAD) [1, 2, 3, 4, 5, 6] 6 0 0 (ex_master\<lparr>qb_recv_size := 32\<rparr>) = Some (Inr (i, q0))
    \<and> exchanges 1 ex_hooks 0 (q0, ex_slave, ex_heap ex_value) = Some (q', ex_slave, ex_heap ex_value)
    \<and> client_done i m q' \<and> am_status (cl_base m) = 6 \<and> am_status (cl_base m) \<noteq> DATA_TYPE_LENGTH_MISMATCH"
  by (intro sdo_size_mismatch_misreported [where dict = ex_dict and pos = "(0, 0)" and v = "[1, 2, 3, 4, 5, 6]"] ex_ready)
    (simp_all add: idle_master_def ex_master_def ex_dict_def findObject_def entry_of_def entry_at_def isDownloadAuthorized_def
      no_callbacks_def ex_hooks_def value_size_def)

section \<open>A request no handler takes\<close>



section \<open>The list of objects\<close>

definition words_bytes :: "u16 list \<Rightarrow> bytes" where
  "words_bytes ws = concat (map le16 ws)"

lemma length_words_bytes [simp]: "length (words_bytes ws) = 2 * length ws"
  by (induction ws) (simp_all add: words_bytes_def)

lemma words_bytes_Cons: "words_bytes (w # ws) = le16 w @ words_bytes ws"
  by (simp add: words_bytes_def)

lemma fill_fragment_spec:
  assumes "unat len + 2 * length ws \<le> 65535 \<or> limit \<le> 65535" and "off + (limit - unat len) \<le> length payload" and "unat len \<le> limit"
  defines "m \<equiv> min (length ws) ((limit - unat len) div 2)"
  shows "fill_fragment limit ws len off payload =
    Some (drop m ws, len + of_nat (2 * m), poke payload off (words_bytes (take m ws)))"
  using assms(1-3) unfolding m_def
proof (induction ws arbitrary: len off payload)
  case Nil
  then show ?case by (simp add: words_bytes_def)
next
  case (Cons w ws)
  show ?case
  proof (cases "unat len + 2 \<le> limit")
    case False
    then have "(limit - unat len) div 2 = 0" by simp
    then show ?thesis using False by (simp add: words_bytes_def)
  next
    case True
    have len: "unat (len + 2) = unat len + 2"
      using Cons.prems(1) True unat_add_small [of len "2 :: u16"] by auto
    let ?k = "(limit - unat len) div 2"
    have k: "?k = Suc ((limit - unat (len + 2)) div 2)" using True unfolding len by (subst le_div_geq) simp_all
    let ?m = "min (length ws) ((limit - unat (len + 2)) div 2)"
    have m: "min (length (w # ws)) ?k = Suc ?m" unfolding k by simp
    have fit: "off + 2 \<le> length payload" using Cons.prems(2) True by linarith
    have "fill_fragment limit ws (len + 2) (off + 2) (poke payload off (le16 w)) =
        Some (drop ?m ws, len + 2 + of_nat (2 * ?m), poke (poke payload off (le16 w)) (off + 2) (words_bytes (take ?m ws)))"
      by (rule Cons.IH) (use Cons.prems len True fit in auto)
    moreover have "poke (poke payload off (le16 w)) (off + 2) (words_bytes (take ?m ws)) =
        poke payload off (words_bytes (take (Suc ?m) (w # ws)))"
    proof -
      have "2 * ?m \<le> limit - unat (len + 2)" by linarith
      then have "off + 2 + 2 * ?m \<le> length payload" using Cons.prems(2) True len by linarith
      then show ?thesis using poke_append [of off "le16 w" "words_bytes (take ?m ws)" payload]
        by (simp add: words_bytes_Cons)
    qed
    ultimately show ?thesis using True fit unfolding m by (simp add: algebra_simps)
  qed
qed

lemma od_fragments_one:
  "od_fragments 1 ws f = do {
     (ws, len, payload) \<leftarrow> fill_fragment (length (info_bytes f) - 6) ws (mh_len (mf_header f)) 0 (mf_payload f);
     Some [info_bytes (set_len len (f\<lparr>mf_service := (mf_service f)\<lparr>si_fragments_left := 0\<rparr>, mf_payload := payload\<rparr>))] }"
  by (simp add: Let_def One_nat_def [symmetric] del: One_nat_def) (simp add: Let_def)

text \<open>
  The list of objects in one frame: when the list (its type and the indexes selected) takes at most
  as many bytes as the mailbox has, the slave sends a single reply marked as the last fragment. It
  carries the first \<open>(n - 12) div 2\<close> words of the list only, so that the last indexes are lost when
  the list does not fit behind the twelve bytes of headers.
\<close>

theorem od_list_single_reply:
  assumes "14 \<le> n" and "n \<le> 65535" and "length (info_bytes f) = n" and "peek (mf_payload f) 0 2 = le16 1"
    and "od_select ACCESS_ALL dict = Some indexes" and "2 * Suc (length indexes) \<le> n"
  defines "m \<equiv> min (Suc (length indexes)) ((n - 12) div 2)"
  shows "\<exists>r. processODList dict f = Some (FINALIZE, [info_bytes r])
    \<and> si_opcode (mf_service r) = GET_OD_LIST_RESP \<and> si_fragments_left (mf_service r) = 0
    \<and> unat (mh_len (mf_header r)) = 6 + 2 * m \<and> take (2 * m) (mf_payload r) = words_bytes (take m (1 # indexes))"
proof -
  have p: "length (mf_payload f) = n - 12" using assms(1,3) by simp
  define g where "g = set_opcode GET_OD_LIST_RESP (set_len 6 f)"
  have g: "mf_payload g = mf_payload f" "mh_len (mf_header g) = 6" "length (info_bytes g) = n"
    using assms(1) p by (simp_all add: g_def set_opcode_def set_len_def)
  let ?ws = "1 # indexes"
  have room: "6 \<le> n - 6" "n - 6 \<le> 65535" using assms(1,2) by linarith+
  have fill: "fill_fragment (n - 6) ?ws 6 0 (mf_payload f) =
      Some (drop m ?ws, 6 + of_nat (2 * m), poke (mf_payload f) 0 (words_bytes (take m ?ws)))"
    using fill_fragment_spec [of "6 :: u16" ?ws "n - 6" 0 "mf_payload f"] room p
    by (simp add: m_def del: fill_fragment.simps)
  have frags: "unat (requiered_fragments (2 * length ?ws) n) = 1"
  proof (cases "2 * length ?ws = n")
    case True
    then show ?thesis by (simp add: requiered_fragments_def)
  next
    case False
    then have "2 * length ?ws < n" using assms(6) by simp
    then show ?thesis by (simp add: requiered_fragments_def)
  qed
  define r where "r = set_len (6 + of_nat (2 * m)) (g\<lparr>mf_service := (mf_service g)\<lparr>si_fragments_left := 0\<rparr>,
      mf_payload := poke (mf_payload f) 0 (words_bytes (take m ?ws))\<rparr>)"
  have "processODList dict f = fillList dict 1 ACCESS_ALL g"
    using assms(1,4) p by (simp add: processODList_def g_def set_opcode_def set_len_def)
  also have "\<dots> = Some (FINALIZE, [info_bytes r])"
    using assms(5) frags fill g unfolding fillList_def
    by (simp add: r_def Let_def od_fragments_one del: info.length_frame_bytes fill_fragment.simps)
  finally have run: "processODList dict f = Some (FINALIZE, [info_bytes r])" .
  have m: "2 * m \<le> n - 12" "m \<le> length ?ws" unfolding m_def by (simp_all add: min_def) linarith
  have "unat (6 + of_nat (2 * m) :: u16) = 6 + 2 * m"
    using m(1) assms(2) unat_add_small [of "6 :: u16" "of_nat (2 * m)"] unat_of_nat_small [where 'w = 16, of "2 * m"] by simp
  moreover have "take (2 * m) (mf_payload r) = words_bytes (take m ?ws)"
    using m p by (simp add: r_def set_len_def poke_def)
  ultimately show ?thesis
    using run by (intro exI [where x = r]) (simp add: r_def g_def set_len_def set_opcode_def)
qed

definition ex_three :: dictionary where
  "ex_three = [ex_dict ! 0, (ex_dict ! 0)\<lparr>ob_index := 0x2001\<rparr>, (ex_dict ! 0)\<lparr>ob_index := 0x2002\<rparr>]"

definition ex_list_request :: info_frame where
  "ex_list_request = \<lparr>mf_header = \<lparr>mh_len = 8, mh_address = 0, mh_channel = 0, mh_priority = 0, mh_type = CoE, mh_count = 1,
       mh_reserved = 0\<rparr>, mf_coe = \<lparr>coe_number = 0, coe_reserved = 0, coe_service = SDO_INFORMATION\<rparr>,
     mf_service = \<lparr>si_opcode = GET_OD_LIST_REQ, si_incomplete = 0, si_reserved = 0, si_fragments_left = 0\<rparr>,
     mf_payload = le16 1 @ [0, 0]\<rparr>"

theorem od_list_single_reply_witness:
  "\<exists>r. processODList ex_three ex_list_request = Some (FINALIZE, [info_bytes r])
    \<and> si_opcode (mf_service r) = GET_OD_LIST_RESP \<and> si_fragments_left (mf_service r) = 0
    \<and> unat (mh_len (mf_header r)) = 10 \<and> take 4 (mf_payload r) = words_bytes [1, 0x2000]"
proof -
  have "od_select ACCESS_ALL ex_three = Some [0x2000, 0x2001, 0x2002]"
    by (simp add: ex_three_def ex_dict_def first_access_def)
  then show ?thesis
    using od_list_single_reply [of 16 ex_list_request ex_three "[0x2000, 0x2001, 0x2002]"]
    by (simp add: ex_list_request_def peek_def)
qed

section \<open>Memory safety of the SDO server\<close>

text \<open>
  The storage of the values: an operation may change what the blocks hold, never which blocks there
  are nor their sizes. An entry is backed when its pointer has room for its value, and the first
  entry of an object for the byte that counts the others.
\<close>

definition same_shape :: "heap \<Rightarrow> heap \<Rightarrow> bool" where
  "same_shape h h' \<longleftrightarrow> (\<forall>b. map_option length (hp_blocks h b) = map_option length (hp_blocks h' b))"

lemma same_shape_refl [simp]: "same_shape h h" by (simp add: same_shape_def)

lemma same_shape_trans: "same_shape a b \<Longrightarrow> same_shape b c \<Longrightarrow> same_shape a c"
  by (simp add: same_shape_def)

lemma same_shape_load: "same_shape h h' \<Longrightarrow> (load p n h = None) = (load p n h' = None)"
proof -
  assume "same_shape h h'"
  then have "map_option length (hp_blocks h (fst p)) = map_option length (hp_blocks h' (fst p))"
    by (simp add: same_shape_def)
  then show ?thesis
    by (cases "hp_blocks h (fst p)"; cases "hp_blocks h' (fst p)") (simp_all add: load_def mem_read_def)
qed

lemma same_shape_entry_load: "same_shape h h' \<Longrightarrow> (entry_load e off n h = None) = (entry_load e off n h' = None)"
  using same_shape_load by (auto simp: entry_load_def split: option.splits)

lemma entry_store_shape: "entry_store e off d h = Some h' \<Longrightarrow> same_shape h h'"
  by (auto simp: entry_store_def store_def same_shape_def bind_eq_Some_conv mem_write_eq_Some_iff split: option.splits)

definition backed :: "dictionary \<Rightarrow> heap \<Rightarrow> bool" where
  "backed dict h \<longleftrightarrow> (\<forall>ob \<in> set dict. \<forall>e \<in> set (ob_entries ob). entry_load e 0 (unat (value_size e)) h \<noteq> None)
     \<and> (\<forall>ob \<in> set dict. ob_entries ob \<noteq> [] \<longrightarrow> entry_load (hd (ob_entries ob)) 0 1 h \<noteq> None)"

lemma backed_shape: "backed dict h \<Longrightarrow> same_shape h h' \<Longrightarrow> backed dict h'"
  using same_shape_entry_load unfolding backed_def by blast

definition keep_shape :: "hooks \<Rightarrow> bool" where
  "keep_shape hk \<longleftrightarrow> (\<forall>pos callback a h. callback \<in> set (hk_before hk pos) \<union> set (hk_after hk pos) \<longrightarrow> same_shape h (callback a h))"

lemma fold_shape:
  "(\<And>callback a h. callback \<in> set cs \<Longrightarrow> same_shape h (callback a h)) \<Longrightarrow> same_shape h (fold (\<lambda>callback. callback a) cs h)"
proof (induction cs arbitrary: h)
  case (Cons c cs)
  have "same_shape h (c a h)" using Cons.prems by simp
  moreover have "same_shape (c a h) (fold (\<lambda>callback. callback a) cs (c a h))" using Cons by simp
  ultimately show ?case by (simp add: same_shape_trans)
qed simp

lemma hooks_shape:
  assumes "keep_shape hk"
  shows "same_shape h (beforeHooks hk a pos h)" "same_shape h (afterHooks hk a pos h)"
  using assms unfolding beforeHooks_def afterHooks_def keep_shape_def by (intro fold_shape, blast)+

lemma findObject_in:
  assumes "findObject dict index subindex = (Some ob, Some e)"
  shows "dict ! ob \<in> set dict" "entry_of dict (ob, e) \<in> set (ob_entries (dict ! ob))"
  using assms by (auto simp: findObject_def entry_of_def entry_at_def find_pos_Some split: option.splits)

text \<open>A result of the server: it exists, keeps the shape of the heap and replies with the buffer it was given.\<close>

definition safe :: "nat \<Rightarrow> heap \<Rightarrow> sdo_result \<Rightarrow> bool" where
  "safe n h res \<longleftrightarrow> (case res of None \<Rightarrow> False
     | Some (r, m, replies, h') \<Rightarrow> same_shape h h' \<and> length replies \<le> 1 \<and> list_all (\<lambda>reply. length reply = n) replies)"

lemma safe_moved_out: "safe n h (moved_out r m f h') \<longleftrightarrow> same_shape h h' \<and> length (mf_payload f) + 12 = n"
  by (auto simp: safe_def moved_out_def)

lemma set_fields [simp]:
  "mf_payload (set_len l f) = mf_payload f" "mf_payload (set_service sv f) = mf_payload f" "mf_payload (set_command c g) = mf_payload g"
  by (simp_all add: set_len_def set_service_def set_command_def)

lemma put_payload_ok:
  "off + length d \<le> length (mf_payload f) \<Longrightarrow> put_payload off d f = Some (f\<lparr>mf_payload := poke (mf_payload f) off d\<rparr>)"
  by (simp add: put_payload_def)

lemma abort_safe:
  assumes "same_shape h h'" "sv_payload m + 4 \<le> length (mf_payload f)" "length (mf_payload f) + 12 = n"
  shows "safe n h (SDO_abort code m f h')"
  using assms by (simp add: SDO_abort_def put_payload_ok safe_moved_out)

lemma entry_loaded:
  assumes "backed dict h" "ob \<in> set dict" "e \<in> set (ob_entries ob)" "same_shape h h'"
  obtains v where "entry_load e 0 (unat (value_size e)) h' = Some v" "length v = unat (value_size e)"
proof -
  have "entry_load e 0 (unat (value_size e)) h' \<noteq> None"
    using assms same_shape_entry_load unfolding backed_def by blast
  then show ?thesis
    using that by (auto simp: entry_load_def load_def bind_eq_Some_conv mem_read_eq_Some_iff split: option.splits)
qed

lemma unat_minus_16:
  assumes "16 \<le> n" "n < 2 ^ LENGTH('w)"
  shows "unat (of_nat n - 16 :: 'w::len word) = n - 16"
proof -
  have "of_nat n - 16 = (of_nat (n - 16) :: 'w word)" using assms by (simp add: of_nat_diff)
  then show ?thesis using assms unat_of_nat_small [where 'w = 'w, of "n - 16"] by simp
qed

lemma upload_safe:
  assumes b: "backed dict h" and hk: "keep_shape hk" and o: "findObject dict index subindex = (Some ob, Some e)"
    and f: "length (mf_payload f) + 12 = n" "20 \<le> n" "n \<le> 65535" and m: "sv_payload m = 0" "length (sv_data m) = n"
  shows "safe n h (SDO_upload hk dict (ob, e) m f h)"
proof -
  let ?e = "entry_of dict (ob, e)"
  let ?h = "beforeHooks hk ACCESS_READ (ob, e) h"
  have h: "same_shape h ?h" "same_shape h (afterHooks hk ACCESS_READ (ob, e) ?h)"
    using hooks_shape [OF hk] same_shape_trans by blast+
  obtain v where v: "entry_load ?e 0 (unat (value_size ?e)) ?h = Some v" "length v = unat (value_size ?e)"
    by (rule entry_loaded [OF b findObject_in [OF o] h(1)])
  have small: "length v \<le> 4" if "value_size ?e \<le> 4"
    using that v(2) by (simp add: word_le_nat_alt)
  have single: "length v + 4 \<le> length (mf_payload f)" if "value_size ?e \<le> of_nat n - 16"
  proof -
    have "unat (value_size ?e) \<le> n - 16"
      using that f unat_minus_16 [of n, where 'w = 32] by (simp add: word_le_nat_alt)
    then show ?thesis using v(2) f by linarith
  qed
  show ?thesis
  proof (cases "isUploadAuthorized ?e")
    case False
    then show ?thesis using f m by (simp add: SDO_upload_def abort_safe)
  next
    case True
    then show ?thesis
      using v h m f small single
      by (auto simp: SDO_upload_def Let_def put_payload_ok safe_moved_out m(2))
  qed
qed

lemma entry_stored:
  assumes "backed dict h" "ob \<in> set dict" "e \<in> set (ob_entries ob)" "same_shape h h'" "length v = unat (value_size e)"
  obtains h'' where "entry_store e 0 v h' = Some h''" "same_shape h h''"
proof -
  have "entry_load e 0 (unat (value_size e)) h' \<noteq> None"
    using assms same_shape_entry_load unfolding backed_def by blast
  then obtain h'' where "entry_store e 0 v h' = Some h''"
    using entry_store_room [of e "unat (value_size e)" h' v] assms(5) by auto
  then show ?thesis using that entry_store_shape same_shape_trans assms(4) by blast
qed

lemma download_safe:
  assumes b: "backed dict h" and hk: "keep_shape hk" and o: "findObject dict index subindex = (Some ob, Some e)"
    and f: "length (mf_payload f) + 12 = n" "20 \<le> n" "n \<le> 65535" "10 \<le> unat (mh_len (mf_header f))" "6 + unat (mh_len (mf_header f)) \<le> n"
    and m: "sv_payload m = 0"
  shows "safe n h (SDO_download hk dict (ob, e) m f h)"
proof (cases "isDownloadAuthorized (entry_of dict (ob, e))")
  case False
  then show ?thesis using f m by (simp add: SDO_download_def abort_safe)
next
  case True
  let ?e = "entry_of dict (ob, e)"
  let ?h = "beforeHooks hk ACCESS_WRITE (ob, e) h"
  let ?s = "mf_service f"
  have h: "same_shape h ?h" using hooks_shape [OF hk] by blast
  have after: "same_shape h (afterHooks hk a pos h'')" if "same_shape h h''" for a pos h''
    using that hooks_shape [OF hk] same_shape_trans by blast
  have four: "unat (4 - ucast (sd_block_size ?s) :: u32) \<le> 4"
    using unsigned_less [of "sd_block_size ?s", where ?'a = nat]
    by (simp add: unat_sub_if' unsigned_ucast_eq take_bit_nat_eq_self)
  have len: "unat (ucast (mh_len (mf_header f)) - 10 :: u32) = unat (mh_len (mf_header f)) - 10"
    using f(4) unsigned_less [of "mh_len (mf_header f)", where ?'a = nat]
    by (simp add: unat_sub_if' unsigned_ucast_eq take_bit_nat_eq_self)
  have stored: "\<exists>h''. entry_store ?e 0 v ?h = Some h'' \<and> same_shape h h''" if "length v = unat (value_size ?e)" for v
    using entry_stored [OF b findObject_in [OF o] h that] by blast
  show ?thesis
  proof (cases "sd_transfer_type ?s = 0")
    case False
    define size where "size = (4 - ucast (sd_block_size ?s) :: u32)"
    have rd: "mem_read (mf_payload f) 0 (unat size) = Some (peek (mf_payload f) 0 (unat size))"
      "length (peek (mf_payload f) 0 (unat size)) = unat size"
      using four f by (simp_all add: size_def)
    show ?thesis
    proof (cases "size = value_size ?e")
      case False
      then show ?thesis
        using True \<open>sd_transfer_type ?s \<noteq> 0\<close> h f m
        by (simp add: SDO_download_def size_def [symmetric] abort_safe)
    next
      case eq: True
      then obtain h'' where "entry_store ?e 0 (peek (mf_payload f) 0 (unat size)) ?h = Some h''" "same_shape h h''"
        using stored [of "peek (mf_payload f) 0 (unat size)"] rd by auto
      then show ?thesis
        using True \<open>sd_transfer_type ?s \<noteq> 0\<close> eq rd f m after
        by (simp add: SDO_download_def size_def [symmetric] safe_moved_out)
    qed
  next
    case zero: True
    define size where "size = (get32 (mf_payload f) 0 :: u32)"
    have hd: "mem_read (mf_payload f) 0 4 = Some (peek (mf_payload f) 0 4)" using f by simp
    consider "size \<noteq> value_size ?e" | "size = value_size ?e" "ucast (mh_len (mf_header f)) - 10 < size"
      | "size = value_size ?e" "\<not> ucast (mh_len (mf_header f)) - 10 < size" by blast
    then show ?thesis
    proof cases
      case 1
      then show ?thesis using True zero hd h f m
        by (simp add: SDO_download_def size_def [symmetric] abort_safe)
    next
      case 2
      then show ?thesis using True zero hd h f m
        by (simp add: SDO_download_def size_def [symmetric] safe_moved_out)
    next
      case 3
      then have fit: "4 + unat size \<le> length (mf_payload f)"
        using len f unfolding word_less_nat_alt by linarith
      then have rd: "mem_read (mf_payload f) 4 (unat size) = Some (peek (mf_payload f) 4 (unat size))"
        "length (peek (mf_payload f) 4 (unat size)) = unat size" by simp_all
      obtain h'' where "entry_store ?e 0 (peek (mf_payload f) 4 (unat size)) ?h = Some h''" "same_shape h h''"
        using stored [of "peek (mf_payload f) 4 (unat size)"] rd 3(1) by auto
      then show ?thesis using True zero hd h f m 3 rd after
        by (simp add: SDO_download_def size_def [symmetric] safe_moved_out)
    qed
  qed
qed

lemma entry_in: "dict ! ob \<in> set dict \<Longrightarrow> i < length (ob_entries (dict ! ob)) \<Longrightarrow> entry_of dict (ob, i) \<in> set (ob_entries (dict ! ob))"
  by (simp add: entry_of_def entry_at_def)

lemma capacity_room:
  "\<not> (of_nat n - 16 :: u64) < of_nat x \<Longrightarrow> x < 2 ^ 64 \<Longrightarrow> 20 \<le> n \<Longrightarrow> n \<le> 65535 \<Longrightarrow> x \<le> n - 16"
  using unat_minus_16 [of n, where 'w = 64] unat_of_nat_small [where 'w = 64, of x] by (simp add: word_less_nat_alt)

lemma uploadComplete_loop_safe:
  assumes b: "backed dict h" and hk: "keep_shape hk" and o: "dict ! ob \<in> set dict"
    and n: "20 \<le> n" "n \<le> 65535" and "length (mf_payload f) + 12 = n" and "same_shape h h'"
  shows "\<exists>stop reached f' h''. uploadComplete_loop hk dict ob skip (of_nat n - 16) is start 0 f h' = Some (stop, reached, f', h'')
    \<and> length (mf_payload f') + 12 = n \<and> same_shape h h''"
  using assms(6-)
proof (induction "is" arbitrary: start f h')
  case Nil
  then show ?case by simp
next
  case (Cons i rest)
  let ?e = "entry_of dict (ob, i)"
  let ?size = "unat (value_size ?e)" and ?byte = "unat (en_bitoff ?e) div 8"
  show ?case
  proof (cases "length (ob_entries (dict ! ob)) \<le> i \<or> \<not> isUploadAuthorized ?e \<or> ?byte < skip
      \<or> (of_nat n - 16 :: u64) < of_nat (4 + (?byte - skip) + ?size)")
    case True
    then show ?thesis using Cons.prems by (auto simp: Let_def)
  next
    case False
    have "4 + (?byte - skip) + ?size < 2 ^ 64"
      using value_size_bound [of ?e] unat_u16_le [of "en_bitoff ?e"] by simp
    then have room: "4 + (?byte - skip) + ?size \<le> n - 16"
      using False by (intro capacity_room [OF _ _ n]) blast+
    have h1: "same_shape h (beforeHooks hk ACCESS_READ (ob, i) h')"
      using Cons.prems(2) hooks_shape [OF hk] same_shape_trans by blast
    have i: "i < length (ob_entries (dict ! ob))" using False by simp
    obtain v where v: "entry_load ?e 0 ?size (beforeHooks hk ACCESS_READ (ob, i) h') = Some v" "length v = ?size"
      by (rule entry_loaded [OF b o entry_in [OF o i] h1])
    define f1 where "f1 = f\<lparr>mf_payload := poke (mf_payload f) (4 + (?byte - skip)) v\<rparr>"
    have put: "put_payload (0 + 4 + (?byte - skip)) v f = Some f1" "length (mf_payload f1) + 12 = n"
      using room v(2) Cons.prems(1) n by (simp_all add: put_payload_ok f1_def)
    have h2: "same_shape h (afterHooks hk ACCESS_READ (ob, i) (beforeHooks hk ACCESS_READ (ob, i) h'))"
      using h1 hooks_shape [OF hk] same_shape_trans by blast
    show ?thesis
      using Cons.IH [OF put(2) h2] False v(1) put(1)
      by (simp add: Let_def del: of_nat_diff Nat.add_diff_assoc Nat.add_diff_assoc2)
  qed
qed

lemma downloadComplete_loop_safe:
  assumes b: "backed dict h" and hk: "keep_shape hk" and o: "dict ! ob \<in> set dict" and "same_shape h h'"
  shows "\<exists>stop h''. downloadComplete_loop hk dict ob skip msg_size start current subindex f h' = Some (stop, h'') \<and> same_shape h h''"
  using assms(4)
proof (induction "length (ob_entries (dict ! ob)) - subindex" arbitrary: subindex current h' rule: less_induct)
  case less
  let ?e = "entry_of dict (ob, subindex)"
  let ?size = "unat (value_size ?e)" and ?off = "unat (en_bitoff ?e) div 8"
  show ?case
  proof (cases "\<not> current < unat msg_size \<or> length (ob_entries (dict ! ob)) \<le> subindex \<or> \<not> isDownloadAuthorized ?e
      \<or> ?off < skip \<or> length (mf_payload f) < start + (?off - skip) + ?size")
    case True
    then show ?thesis using less.prems by (subst downloadComplete_loop.simps) (auto simp: Let_def)
  next
    case False
    have i: "subindex < length (ob_entries (dict ! ob))" using False by simp
    have h1: "same_shape h (beforeHooks hk ACCESS_WRITE (ob, subindex) h')"
      using less.prems hooks_shape [OF hk] same_shape_trans by blast
    let ?v = "peek (mf_payload f) (start + (?off - skip)) ?size"
    have rd: "mem_read (mf_payload f) (start + (?off - skip)) ?size = Some ?v" "length ?v = ?size"
    proof -
      have "start + (?off - skip) + ?size \<le> length (mf_payload f)" using False by linarith
      then show "mem_read (mf_payload f) (start + (?off - skip)) ?size = Some ?v" "length ?v = ?size"
        by (rule mem_read_Some, rule length_peek)
    qed
    obtain h2 where h2: "entry_store ?e 0 ?v (beforeHooks hk ACCESS_WRITE (ob, subindex) h') = Some h2" "same_shape h h2"
      by (rule entry_stored [OF b o entry_in [OF o i] h1 rd(2)])
    have h3: "same_shape h (afterHooks hk ACCESS_WRITE (ob, subindex) h2)"
      using h2(2) hooks_shape [OF hk] same_shape_trans by blast
    have smaller: "length (ob_entries (dict ! ob)) - Suc subindex < length (ob_entries (dict ! ob)) - subindex"
      using i by linarith
    obtain stop h'' where "downloadComplete_loop hk dict ob skip msg_size start (?off - skip + ?size) (Suc subindex) f
        (afterHooks hk ACCESS_WRITE (ob, subindex) h2) = Some (stop, h'')" "same_shape h h''"
      using less.hyps [OF smaller h3] by blast
    then show ?thesis using False rd(1) h2(1)
      by (subst downloadComplete_loop.simps) (simp add: Let_def del: Nat.add_diff_assoc Nat.add_diff_assoc2)
  qed
qed

lemma first_byte:
  assumes "backed dict h" "ob \<in> set dict" "ob_entries ob \<noteq> []"
  shows "\<exists>c. entry_load (ob_entries ob ! 0) 0 1 h = Some [c]"
proof -
  have "entry_load (ob_entries ob ! 0) 0 1 h \<noteq> None"
    using assms unfolding backed_def by (simp add: hd_conv_nth)
  then obtain x where x: "entry_load (ob_entries ob ! 0) 0 1 h = Some x" by auto
  then have "length x = 1"
    by (auto simp: entry_load_def load_def bind_eq_Some_conv mem_read_eq_Some_iff split: option.splits)
  then show ?thesis using x by (auto simp: length_Suc_conv)
qed

lemma uploadComplete_safe:
  assumes b: "backed dict h" and hk: "keep_shape hk" and o: "dict ! ob \<in> set dict"
    and f: "length (mf_payload f) + 12 = n" "20 \<le> n" "n \<le> 65535" and m: "sv_payload m = 0" "length (sv_data m) = n"
  shows "safe n h (SDO_uploadComplete hk dict ob m f h)"
proof -
  let ?es = "ob_entries (dict ! ob)" and ?sub = "unat (sd_subindex (mf_service f))"
  let ?f = "f\<lparr>mf_service := (mf_service f)\<lparr>sd_size_indicator := 1, sd_transfer_type := 0\<rparr>\<rparr>"
  show ?thesis
  proof (cases "?es = [] \<or> length ?es \<le> ?sub \<or> en_data (?es ! 0) = None")
    case True
    then show ?thesis using f m by (auto simp: SDO_uploadComplete_def intro!: abort_safe)
  next
    case False
    obtain c where c: "entry_load (?es ! 0) 0 1 h = Some [c]" using first_byte [OF b o] False by blast
    have "length (mf_payload ?f) + 12 = n" using f by simp
    from uploadComplete_loop_safe [OF b hk o f(2,3) this same_shape_refl]
    obtain stop reached f' h'' where run: "uploadComplete_loop hk dict ob (unat (en_bitoff (?es ! ?sub)) div 8) (of_nat n - 16)
        [?sub ..< Suc (unat c)] 0 0 ?f h = Some (stop, reached, f', h'')"
      "length (mf_payload f') + 12 = n" "same_shape h h''" by blast
    show ?thesis
      using False c run f m
      by (cases stop) (auto simp: SDO_uploadComplete_def Let_def put_payload_ok safe_moved_out simp del: upt_Suc intro!: abort_safe)
  qed
qed

lemma downloadComplete_safe:
  assumes b: "backed dict h" and hk: "keep_shape hk" and o: "dict ! ob \<in> set dict"
    and f: "length (mf_payload f) + 12 = n" "20 \<le> n" "n \<le> 65535" and m: "sv_payload m = 0" "length (sv_data m) = n"
  shows "safe n h (SDO_downloadComplete hk dict ob m f h)"
proof -
  let ?es = "ob_entries (dict ! ob)" and ?sub = "unat (sd_subindex (mf_service f))"
  let ?msg = "get32 (mf_payload f) 0"
  show ?thesis
  proof (cases "?es = [] \<or> length ?es \<le> ?sub \<or> en_data (?es ! 0) = None \<or> (of_nat n - 16 :: u64) < ucast ?msg")
    case True
    have rd: "mem_read (mf_payload f) 0 4 = Some (peek (mf_payload f) 0 4)" using f by simp
    have "SDO_downloadComplete hk dict ob m f h = SDO_abort
        (if ?es = [] \<or> length ?es \<le> ?sub \<or> en_data (?es ! 0) = None then SUBINDEX_DOES_NOT_EXIST else DATA_TYPE_LENGTH_TOO_HIGH) m f h"
      using True rd m by (auto simp: SDO_downloadComplete_def Let_def)
    then show ?thesis using f m by (simp add: abort_safe)
  next
    case False
    let ?h = "beforeHooks hk ACCESS_WRITE (ob, 0) h"
    have h: "same_shape h ?h" using hooks_shape [OF hk] by blast
    have "entry_load (?es ! 0) 0 1 ?h \<noteq> None"
      using first_byte [OF b o] False same_shape_entry_load [OF h] by (metis option.distinct(1))
    then obtain h2 where h2: "entry_store (?es ! 0) 0 (peek (mf_payload f) 4 1) ?h = Some h2"
      using entry_store_room [of "?es ! 0" 1 ?h "peek (mf_payload f) 4 1"] f by auto
    define h1 where "h1 = (if ?sub = 0 then afterHooks hk ACCESS_WRITE (ob, 0) h2 else h)"
    have shape: "same_shape h h1"
      using same_shape_trans [OF same_shape_trans [OF h entry_store_shape [OF h2]] hooks_shape(2) [OF hk]]
      by (simp add: h1_def)
    obtain stop h'' where run: "downloadComplete_loop hk dict ob (unat (en_bitoff (?es ! ?sub)) div 8) ?msg 4 (if ?sub = 0 then 1 else 0) 1 f h1
        = Some (stop, h'')" "same_shape h h''"
      using downloadComplete_loop_safe [OF b hk o shape] by blast
    have rd: "mem_read (mf_payload f) 0 4 = Some (peek (mf_payload f) 0 4)"
      "mem_read (mf_payload f) 4 1 = Some (peek (mf_payload f) 4 1)" using f by simp_all
    have "SDO_downloadComplete hk dict ob m f h = (case stop of
           Some code \<Rightarrow> SDO_abort code m f h''
         | None \<Rightarrow> moved_out FINALIZE m (set_command RESP_DOWNLOAD (set_service SDO_RESPONSE (set_len 10 f))) h'')"
      using False run(1) rd h2 m by (cases "?sub = 0") (auto simp: SDO_downloadComplete_def Let_def h1_def)
    then show ?thesis using run(2) f m by (auto simp: safe_moved_out split: option.splits intro!: abort_safe)
  qed
qed

lemma length_replyError: "10 \<le> length raw \<Longrightarrow> length (replyError raw code) = length raw"
  by (simp add: replyError_def Let_def mh.length_enc me.length_enc)

section \<open>Sessions of the SDO server\<close>

text \<open>
  A message of the master the transport may hand over: it holds the fixed part of an SDO and its
  declared length lies within it.
\<close>

definition acceptable :: "bytes \<Rightarrow> bool" where
  "acceptable raw \<longleftrightarrow> 20 \<le> length raw \<and> length raw \<le> 65535
     \<and> 6 + unat (mh_len (dec_mailbox_header (peek raw 0 6))) \<le> length raw"

text \<open>
  The life of an SDO message of the slave: it is created for a request, processed, and given the
  later messages of the master for as long as it is kept; in between the application may write the
  storage of the entries, not free it.
\<close>

inductive sdo_session :: "hooks \<Rightarrow> dictionary \<Rightarrow> sdo_message \<Rightarrow> heap \<Rightarrow> bool" for hk dict where
  Request: "backed dict h \<Longrightarrow> acceptable raw \<Longrightarrow> sdo_session hk dict (SDOMessage_new raw) h"
| Process: "sdo_session hk dict m h \<Longrightarrow> SDO_process hk (Some dict) m h = Some (r, m', replies, h') \<Longrightarrow> r \<noteq> FINALIZE
    \<Longrightarrow> sdo_session hk dict m' h'"
| Segment: "sdo_session hk dict m h \<Longrightarrow> acceptable raw \<Longrightarrow> SDO_process_raw hk (Some dict) raw m h = Some (r, m', replies, h')
    \<Longrightarrow> r \<noteq> FINALIZE \<Longrightarrow> sdo_session hk dict m' h'"
| Application: "sdo_session hk dict m h \<Longrightarrow> same_shape h h' \<Longrightarrow> sdo_session hk dict m h'"

text \<open>
  What such a message holds: its own buffer until it is processed; during a segmented transfer an
  entry of the dictionary and an offset within its value.
\<close>

definition entry_listed :: "dictionary \<Rightarrow> nat \<times> nat \<Rightarrow> bool" where
  "entry_listed dict pos \<longleftrightarrow> dict ! fst pos \<in> set dict \<and> entry_of dict pos \<in> set (ob_entries (dict ! fst pos))"

definition sound_message :: "dictionary \<Rightarrow> sdo_message \<Rightarrow> bool" where
  "sound_message dict m \<longleftrightarrow> (case sv_segmented_entry m of
       None \<Rightarrow> sv_payload m = 0 \<and> acceptable (sv_data m)
     | Some pos \<Rightarrow> entry_listed dict pos \<and> unat (sv_segmented_offset m) \<le> unat (value_size (entry_of dict pos)))"

definition kept_sound :: "dictionary \<Rightarrow> sdo_result \<Rightarrow> bool" where
  "kept_sound dict res \<longleftrightarrow> (case res of None \<Rightarrow> True | Some (r, m, _) \<Rightarrow> r \<noteq> FINALIZE \<longrightarrow> sound_message dict m)"

lemma kept_sound_simps [simp]:
  "kept_sound dict None" "kept_sound dict (Some (r, m, rest)) \<longleftrightarrow> r = FINALIZE \<or> sound_message dict m"
  "kept_sound dict (moved_out r m f h) \<longleftrightarrow> r = FINALIZE \<or> sound_message dict (m\<lparr>sv_data := []\<rparr>)"
  by (auto simp: kept_sound_def moved_out_def)

lemma kept_sound_bind: "(\<And>x. a = Some x \<Longrightarrow> kept_sound dict (f x)) \<Longrightarrow> kept_sound dict (a \<bind> f)"
  by (cases a) simp_all

lemma kept_sound_abort [simp]: "kept_sound dict (SDO_abort code m f h)" "kept_sound dict (segment_abort code m f h)"
  by (simp_all add: SDO_abort_def segment_abort_def kept_sound_bind)

lemma transfer_kept_sound:
  assumes "entry_listed dict pos"
  shows "kept_sound dict (SDO_upload hk dict pos m f h)" "kept_sound dict (SDO_download hk dict pos m f h)"
    "kept_sound dict (SDO_uploadComplete hk dict ob m f h)" "kept_sound dict (SDO_downloadComplete hk dict ob m f h)"
  using assms
  by (auto simp: SDO_upload_def SDO_download_def SDO_uploadComplete_def SDO_downloadComplete_def Let_def sound_message_def
      intro!: kept_sound_bind split: option.split)

lemma process_safe:
  assumes b: "backed dict h" and hk: "keep_shape hk" and m: "sound_message dict m"
  shows "safe (length (sv_data m)) h (SDO_process hk (Some dict) m h)" (is ?safe)
    and "kept_sound dict (SDO_process hk (Some dict) m h)" (is ?kept)
proof -
  have noop: "safe n h (Some (NOOP, m, [], h))" for n by (simp add: safe_def)
  have "?safe \<and> ?kept"
  proof (cases "sv_segmented_entry m")
    case (Some pos)
    then show ?thesis using m by (simp add: SDO_process_def noop)
  next
    case None
    define raw where "raw = sv_data m"
    have raw: "20 \<le> length raw" "length raw \<le> 65535" "6 + unat (mh_len (dec_mailbox_header (peek raw 0 6))) \<le> length raw"
      and p: "sv_payload m = 0" "length (sv_data m) = length raw"
      using m None by (simp_all add: sound_message_def acceptable_def raw_def)
    have header: "header_of raw = Some (dec_mailbox_header (peek raw 0 6))" using raw by (simp add: header_of_def)
    obtain f where f0: "sdo_overlay raw = Some f" "length (mf_payload f) = length raw - 12"
      using sdo.overlay_Some [of raw] raw by auto
    have f: "length (mf_payload f) + 12 = length raw" using f0 raw by linarith
    have hdr: "mf_header f = dec_mailbox_header (peek raw 0 6)" by (rule overlay_fields(1) [OF f0(1)])
    show ?thesis
    proof (cases "mh_len (mf_header f) < 10")
      case True
      then show ?thesis
        using header hdr raw None by (simp add: SDO_process_def raw_def [symmetric] safe_def length_replyError)
    next
      case False
      then have len: "10 \<le> unat (mh_len (mf_header f))" by (simp add: word_less_nat_alt)
      let ?idx = "sd_index (mf_service f)" and ?sub = "sd_subindex (mf_service f)"
      have abort: "safe (length raw) h (SDO_abort code m f h)" for code using f raw p by (simp add: abort_safe)
      note start = SDO_process_def [of hk "Some dict" m h, folded raw_def]
      consider x where "findObject dict ?idx ?sub = (None, x)" | ob where "findObject dict ?idx ?sub = (Some ob, None)"
        | ob e where "findObject dict ?idx ?sub = (Some ob, Some e)"
        by (cases "findObject dict ?idx ?sub"; cases "fst (findObject dict ?idx ?sub)"; cases "snd (findObject dict ?idx ?sub)") auto
      then show ?thesis
      proof cases
        case 3
        note o = this
        have listed: "entry_listed dict (ob, e)" using findObject_in [OF o] by (simp add: entry_listed_def)
        have "safe (length raw) h (SDO_uploadComplete hk dict ob m f h)" "safe (length raw) h (SDO_downloadComplete hk dict ob m f h)"
          by (rule uploadComplete_safe downloadComplete_safe; use b hk raw f p findObject_in [OF o] in simp)+
        moreover have "safe (length raw) h (SDO_upload hk dict (ob, e) m f h)"
          by (rule upload_safe [OF b hk o f raw(1,2) p])
        moreover have "safe (length raw) h (SDO_download hk dict (ob, e) m f h)"
          using download_safe [OF b hk o f raw(1,2) len] raw(3) hdr p by simp
        ultimately show ?thesis
          unfolding start raw_def [symmetric]
          using o abort noop None False header hdr f0 m transfer_kept_sound [OF listed] by (simp add: Let_def)
      qed (unfold start raw_def [symmetric], use abort None False header hdr f0 in \<open>simp_all add: Let_def\<close>)
    qed
  qed
  then show ?safe ?kept by blast+
qed

lemma segment_length:
  assumes "10 \<le> unat len"
  shows "unat (segmentDataLength len sdo) + 3 \<le> unat len"
proof (cases "len = 10")
  case True
  obtain b where b: "sd_block_size sdo = of_nat b" "b \<in> {0, 1, 2, 3}"
    by (rule word_nat_cases [of "sd_block_size sdo"]) fastforce
  obtain t where t: "sd_transfer_type sdo = of_nat t" "t \<in> {0, 1}"
    by (rule word_nat_cases [of "sd_transfer_type sdo"]) fastforce
  from b t have "unat (7 - ucast (segmentDataSize sdo) :: u32) \<le> 7" by (auto simp: segmentDataSize_def)
  then show ?thesis using True by (simp add: segmentDataLength_def)
next
  case False
  have "unat (ucast len - 3 :: u32) = unat len - 3"
    using assms unsigned_less [of len, where ?'a = nat] by (simp add: unat_sub_if' unsigned_ucast_eq take_bit_nat_eq_self)
  then show ?thesis using False assms by (simp add: segmentDataLength_def)
qed

lemma entry_part_loaded:
  assumes "backed dict h" "entry_listed dict pos" "off + n \<le> unat (value_size (entry_of dict pos))"
  obtains v where "entry_load (entry_of dict pos) off n h = Some v" "length v = n"
proof -
  obtain v where "entry_load (entry_of dict pos) 0 (unat (value_size (entry_of dict pos))) h = Some v"
    "length v = unat (value_size (entry_of dict pos))"
    using entry_loaded [OF assms(1) _ _ same_shape_refl] assms(2) by (auto simp: entry_listed_def)
  then have "entry_load (entry_of dict pos) off n h = Some (peek v off n)" "length (peek v off n) = n"
    using entry_load_part [of _ "length v" h v off n] assms(3) by simp_all
  then show ?thesis by (rule that)
qed

lemma entry_part_stored:
  assumes "backed dict h" "entry_listed dict pos" "off + length d \<le> unat (value_size (entry_of dict pos))"
  obtains h' where "entry_store (entry_of dict pos) off d h = Some h'" "same_shape h h'"
proof -
  obtain v where "entry_load (entry_of dict pos) off (length d) h = Some v" by (rule entry_part_loaded [OF assms])
  then obtain h' where "entry_store (entry_of dict pos) off d h = Some h'"
    by (auto simp: entry_load_def entry_store_def load_def store_def bind_eq_Some_conv mem_read_eq_Some_iff split: option.splits)
  then show ?thesis using that entry_store_shape by blast
qed

lemma segment_abort_safe:
  "16 \<le> n \<Longrightarrow> length (mf_payload f) = n - 12 \<Longrightarrow> safe n h (segment_abort code m f h)"
  by (simp add: segment_abort_def put_payload_ok safe_def)

lemma upload_segment_safe:
  assumes b: "backed dict h" and hk: "keep_shape hk" and raw: "acceptable raw" and pos: "entry_listed dict pos"
    and m: "sv_segmented_entry m = Some pos" "unat (sv_segmented_offset m) \<le> unat (value_size (entry_of dict pos))"
  shows "safe (length raw) h (uploadSegment hk dict pos raw m f h) \<and> kept_sound dict (uploadSegment hk dict pos raw m f h)"
proof -
  have n: "20 \<le> length raw" "length raw \<le> 65535" using raw by (simp_all add: acceptable_def)
  obtain r0 where r0: "segment_reply (length raw) = Some r0" "length (mf_payload r0) = length raw - 12"
    using segment_reply_frame [of "length raw"] n by auto
  let ?total = "value_size (entry_of dict pos)" and ?off = "sv_segmented_offset m"
  let ?max = "of_nat (length raw) - 9 :: u32"
  define chunk where "chunk = (if ?max < ?total - ?off then ?max else ?total - ?off)"
  have rest: "unat (?total - ?off) = unat ?total - unat ?off" using m(2) by (simp add: unat_sub_if')
  have max: "unat ?max = length raw - 9"
  proof -
    have "?max = of_nat (length raw - 9)" using n by (simp add: of_nat_diff)
    then show ?thesis using n unat_of_nat_small [where 'w = 32, of "length raw - 9"] by simp
  qed
  have chunk: "unat ?off + unat chunk \<le> unat ?total" "9 + unat chunk \<le> length raw"
    using m(2) rest max n by (auto simp: chunk_def word_less_nat_alt)
  obtain v where v: "entry_load (entry_of dict pos) (unat ?off) (unat chunk) h = Some v" "length v = unat chunk"
    by (rule entry_part_loaded [OF b pos chunk(1)])
  have room: "length v + 9 \<le> length (sdo_bytes r0)" using v chunk r0 n by simp
  obtain g where g: "sdo_overlay (poke (sdo_bytes r0) 9 v) = Some g" "length (mf_payload g) = length raw - 12"
    using poke_segment [OF room] r0 by auto
  have written: "mem_write (sdo_bytes r0) 9 v = Some (poke (sdo_bytes r0) 9 v)"
    using room by (simp add: add.commute del: sdo.length_frame_bytes)
  have sum: "unat (?off + chunk) = unat ?off + unat chunk"
    using chunk(1) value_size_bound [of "entry_of dict pos"] by (simp add: unat_word_ariths)
  have sound: "sound_message dict (m\<lparr>sv_segmented_offset := ?off + chunk, sv_segmented_toggle := t\<rparr>)" for t
    using m pos chunk sum by (simp add: sound_message_def)
  show ?thesis
  proof (cases "sd_complete_access (mf_service f) = toggle_bit (sv_segmented_toggle m)")
    case False
    then show ?thesis using r0 n by (simp add: uploadSegment_def segment_abort_safe)
  next
    case True
    then show ?thesis
      using n sound hooks_shape(2) [OF hk]
      by (simp add: uploadSegment_def Let_def r0 chunk_def [symmetric] v written g split_def safe_def)
  qed
qed

lemma download_segment_safe:
  assumes b: "backed dict h" and hk: "keep_shape hk" and raw: "acceptable raw" and pos: "entry_listed dict pos"
    and f: "sdo_overlay raw = Some f" "10 \<le> unat (mh_len (mf_header f))"
    and m: "sv_segmented_entry m = Some pos" "unat (sv_segmented_offset m) \<le> unat (value_size (entry_of dict pos))"
  shows "safe (length raw) h (downloadSegment hk dict pos raw m f h) \<and> kept_sound dict (downloadSegment hk dict pos raw m f h)"
proof -
  have n: "20 \<le> length raw" "length raw \<le> 65535" using raw by (simp_all add: acceptable_def)
  obtain r0 where r0: "segment_reply (length raw) = Some r0" "length (mf_payload r0) = length raw - 12"
    using segment_reply_frame [of "length raw"] n by auto
  let ?total = "value_size (entry_of dict pos)" and ?off = "sv_segmented_offset m"
  define size where "size = segmentDataLength (mh_len (mf_header f)) (mf_service f)"
  have size: "9 + unat size \<le> length raw"
    using segment_length [OF f(2), of "mf_service f"] raw overlay_fields(1) [OF f(1)] by (simp add: acceptable_def size_def)
  have sum: "unat (?off + size) = unat ?off + unat size"
    using size n m(2) value_size_bound [of "entry_of dict pos"] by (simp add: unat_word_ariths)
  have seg: "mem_read raw 9 (unat size) = Some (peek raw 9 (unat size))" "length (peek raw 9 (unat size)) = unat size"
    using size by simp_all
  show ?thesis
  proof (cases "sd_complete_access (mf_service f) = toggle_bit (sv_segmented_toggle m) \<and> \<not> ?total < ?off + size")
    case False
    then have "\<exists>code. downloadSegment hk dict pos raw m f h = segment_abort code m r0 h"
      by (auto simp: downloadSegment_def Let_def r0 size_def)
    then show ?thesis using segment_abort_safe r0(2) n by fastforce
  next
    case True
    then have fits: "unat ?off + length (peek raw 9 (unat size)) \<le> unat ?total"
      using sum seg(2) by (simp add: word_less_nat_alt)
    obtain h' where h': "entry_store (entry_of dict pos) (unat ?off) (peek raw 9 (unat size)) h = Some h'" "same_shape h h'"
      by (rule entry_part_stored [OF b pos fits])
    have "sound_message dict (m\<lparr>sv_segmented_offset := ?off + size, sv_segmented_toggle := t\<rparr>)" for t
      using m pos fits sum seg(2) by (simp add: sound_message_def)
    moreover have "same_shape h (afterHooks hk ACCESS_WRITE pos h')" for a
      using h'(2) hooks_shape(2) [OF hk] same_shape_trans by blast
    ultimately show ?thesis
      using True n h'(2) by (simp add: downloadSegment_def Let_def r0 size_def [symmetric] seg h'(1) safe_def)
  qed
qed

lemma process_raw_safe:
  assumes b: "backed dict h" and hk: "keep_shape hk" and m: "sound_message dict m" and raw: "acceptable raw"
  shows "safe (length raw) h (SDO_process_raw hk (Some dict) raw m h)" (is ?safe)
    and "kept_sound dict (SDO_process_raw hk (Some dict) raw m h)" (is ?kept)
proof -
  have noop: "safe (length raw) h (Some (NOOP, m, [], h))" by (simp add: safe_def)
  have "?safe \<and> ?kept"
  proof (cases "sv_segmented_entry m")
    case None
    then show ?thesis using m noop by (simp add: SDO_process_raw_def)
  next
    case (Some pos)
    then have pos: "entry_listed dict pos" "unat (sv_segmented_offset m) \<le> unat (value_size (entry_of dict pos))"
      using m by (simp_all add: sound_message_def)
    obtain f where f: "sdo_overlay raw = Some f" using sdo.overlay_Some [of raw] raw by (auto simp: acceptable_def)
    have "10 \<le> unat (mh_len (mf_header f))" if "\<not> mh_len (mf_header f) < 10" using that by (simp add: word_less_nat_alt)
    then show ?thesis
      using upload_segment_safe [OF b hk raw pos(1) Some pos(2)] download_segment_safe [OF b hk raw pos(1) f _ Some pos(2)] noop m
      by (auto simp: SDO_process_raw_def Some f)
  qed
  then show ?safe ?kept by blast+
qed

lemma session_sound:
  assumes "sdo_session hk dict m h" "keep_shape hk"
  shows "backed dict h \<and> sound_message dict m"
  using assms(1)
proof induction
  case (Request h raw)
  then show ?case by (simp add: sound_message_def SDOMessage_new_def)
next
  case (Process m h r m' replies h')
  then show ?case using process_safe [OF _ assms(2)] backed_shape by (fastforce simp: safe_def)
next
  case (Segment m h raw r m' replies h')
  then show ?case using process_raw_safe [OF _ assms(2)] backed_shape by (fastforce simp: safe_def)
next
  case (Application m h h')
  then show ?case using backed_shape by blast
qed

lemma safe_result:
  "safe n h res \<Longrightarrow> \<exists>r m replies h'. res = Some (r, m, replies, h') \<and> same_shape h h' \<and> length replies \<le> 1
     \<and> list_all (\<lambda>reply. length reply = n) replies"
  by (auto simp: safe_def split: option.splits)

text \<open>(C39) No SDO transfer makes the slave touch memory it should not. At every point of a session, which may
  be in the middle of a segmented upload or download, the message in hand is processed without
  leaving the message, the mailbox buffer or the storage of the entries, and so is whatever the
  master sends next. There is at most one reply, of the size of the message answered, and the storage
  keeps its shape. This holds for messages of at least 20 bytes whose declared length lies within
  them, over a dictionary whose entries are all backed by storage of their size, with callbacks that
  do not free or resize storage.
\<close>

theorem sdo_session_stays_in_memory:
  assumes "keep_shape hk" and "sdo_session hk dict m h" and "acceptable raw"
  shows "(\<exists>r m' replies h'. SDO_process hk (Some dict) m h = Some (r, m', replies, h')
      \<and> same_shape h h' \<and> length replies \<le> 1 \<and> list_all (\<lambda>reply. length reply = length (sv_data m)) replies)
    \<and> (\<exists>r m' replies h'. SDO_process_raw hk (Some dict) raw m h = Some (r, m', replies, h')
      \<and> same_shape h h' \<and> length replies \<le> 1 \<and> list_all (\<lambda>reply. length reply = length raw) replies)"
  using session_sound [OF assms(2,1)] process_safe(1) [OF _ assms(1)] process_raw_safe(1) [OF _ assms(1) _ assms(3)] safe_result
  by blast

text \<open>A segmented upload of nine bytes through a mailbox of 20: the request, then a segment.\<close>

definition ex_transfer :: "3 word \<Rightarrow> sdo_frame" where
  "ex_transfer command = \<lparr>mf_header = \<lparr>mh_len = 10, mh_address = 0, mh_channel = 0, mh_priority = 0, mh_type = CoE,
       mh_count = 1, mh_reserved = 0\<rparr>, mf_coe = \<lparr>coe_number = 0, coe_reserved = 0, coe_service = SDO_REQUEST\<rparr>,
     mf_service = \<lparr>sd_size_indicator = 0, sd_transfer_type = 0, sd_block_size = 0, sd_complete_access = 0,
       sd_command = command, sd_index = 0x2000, sd_subindex = 0\<rparr>, mf_payload = replicate 8 0\<rparr>"

lemma ex_acceptable: "acceptable (sdo_bytes (ex_transfer command))"
  using overlay_fields(1) [OF sdo.overlay_frame [of "ex_transfer command"]]
  by (simp add: acceptable_def ex_transfer_def)

theorem sdo_session_stays_in_memory_witness:
  "\<exists>m. segmented (0, 0) 0 False m
    \<and> (\<exists>r m' replies h'. SDO_process_raw ex_hooks (Some ex_dict) (sdo_bytes (ex_transfer REQ_UPLOAD_SEGMENTED)) m (ex_heap ex_value)
          = Some (r, m', replies, h')
      \<and> same_shape (ex_heap ex_value) h' \<and> length replies \<le> 1 \<and> list_all (\<lambda>reply. length reply = 20) replies)"
proof -
  have backed: "backed ex_dict (ex_heap ex_value)"
    by (simp add: backed_def ex_dict_def ex_heap_def entry_load_def load_def value_size_def)
  have hooks: "keep_shape ex_hooks" by (simp add: keep_shape_def ex_hooks_def)
  have "upload_frame 0x2000 0 (ex_transfer REQ_UPLOAD)"
    by (simp add: upload_frame_def request_header_def ex_transfer_def)
  from server_upload [OF this ex_entry(1) [of ex_value]]
  obtain m replies where m: "SDO_process ex_hooks (Some ex_dict) (SDOMessage_new (sdo_bytes (ex_transfer REQ_UPLOAD))) (ex_heap ex_value)
      = Some (FINALIZE_AND_KEEP, m, replies, ex_heap ex_value)" "segmented (0, 0) 0 False m"
    by (auto simp: ex_transfer_def)
  have "sdo_session ex_hooks ex_dict m (ex_heap ex_value)"
    by (rule sdo_session.Process [OF sdo_session.Request [OF backed ex_acceptable] m(1)]) simp
  from sdo_session_stays_in_memory [OF hooks this ex_acceptable [of REQ_UPLOAD_SEGMENTED]]
  show ?thesis using m(2) by (auto simp: ex_transfer_def)
qed

end
