(* ===== verification/Link.thy ===== *)
theory Link
  imports Frames
begin

text \<open>
  The master's link layer: \<open>lib/master/src/Link.cc\<close> and \<open>lib/master/include/kickcat/Link.h\<close>.

  A \<open>link\<close> record is the object: the frame being filled (also the one the redundancy socket is
  read into), the frame the nominal socket is read into, the window \<open>[index_queue, index_head)\<close>
  of datagram indices in flight (8-bit counters that wrap), the 256 callback slots, the mapping
  of the logical frames and the 16 event slots. The two sockets, the clock and the application
  are the environment: a socket is a record of functions on the state \<open>'w\<close> of that environment,
  and a callback of the application is a function on it too (callbacks do not re-enter the link).

  Every operation that touches frame memory returns an option: \<open>None\<close> is an access outside a
  frame, or the call of a callback slot that was never filled. An exception is a value: the
  message, beside the state the throwing call leaves behind.
\<close>

section \<open>Environment\<close>

text \<open>\<open>sk_read\<close> gives the value returned and the bytes stored in the buffer it was passed.\<close>

record 'w socket =
  sk_write :: "bytes \<Rightarrow> 'w \<Rightarrow> int \<times> 'w"
  sk_read :: "'w \<Rightarrow> (int \<times> bytes) \<times> 'w"
  sk_setTimeout :: "int \<Rightarrow> 'w \<Rightarrow> 'w"

record 'w link_env =
  socket_nominal :: "'w socket"
  socket_redundancy :: "'w socket"
  env_now :: "'w \<Rightarrow> int \<times> 'w"
  redundancyActivated :: "'w \<Rightarrow> 'w"

definition SocketNull :: "'w socket" where
  "SocketNull = \<lparr>sk_write = (\<lambda>data w. (int (length data), w)), sk_read = (\<lambda>w. ((0, []), w)),
     sk_setTimeout = (\<lambda>t w. w)\<rparr>"

definition PRIMARY_IF_MAC :: bytes where
  "PRIMARY_IF_MAC = [0xCA, 0xDE, 0xCA, 0xDE, 0xDE, 0xFF]"

definition SECONDARY_IF_MAC :: bytes where
  "SECONDARY_IF_MAC = [0x03, 0x02, 0x02, 0x02, 0xFF, 0xFF]"

lemma length_MAC [simp]: "length PRIMARY_IF_MAC = 6" "length SECONDARY_IF_MAC = 6"
  by (simp_all add: PRIMARY_IF_MAC_def SECONDARY_IF_MAC_def)

section \<open>The link object\<close>

datatype DatagramState = LOST | SEND_ERROR | INVALID_WKC | NO_HANDLER | OK

type_synonym 'w process = "datagram_header \<Rightarrow> bytes \<Rightarrow> u16 \<Rightarrow> 'w \<Rightarrow> DatagramState \<times> 'w"
type_synonym 'w on_error = "DatagramState \<Rightarrow> 'w \<Rightarrow> string option \<times> 'w"
type_synonym 'w on_event = "'w \<Rightarrow> string option \<times> 'w"

record 'w callbacks =
  cb_status :: DatagramState
  cb_process :: "'w process option"
  cb_error :: "'w on_error option"

record 'w irq_slot =
  ev_callback :: "'w on_event"
  ev_armed :: bool

record lf_entry =
  contribution :: u16
  input_offset :: int
  input_size :: int

record logical_frame =
  lf_address :: u32
  logical_size :: int
  pdo_size :: int
  lf_entries :: "lf_entry list"

record 'w link =
  index_queue :: u8
  index_head :: u8
  sent_frame :: u8
  callbacks_of :: "'w callbacks list"
  logical_mapping :: "logical_frame list"
  irqs :: "'w irq_slot list"
  is_redundancy_activated :: bool
  frame_nominal :: frame
  src_nominal :: bytes
  frame_redundancy :: frame
  src_redundancy :: bytes
  lk_timeout :: int

definition Link_new :: "bytes \<Rightarrow> bytes \<Rightarrow> 'w link" where
  "Link_new nominal redundancy = \<lparr>
     index_queue = 0, index_head = 0, sent_frame = 0,
     callbacks_of = replicate 256 \<lparr>cb_status = LOST, cb_process = None, cb_error = None\<rparr>,
     logical_mapping = [],
     irqs = replicate 16 \<lparr>ev_callback = (\<lambda>w. (None, w)), ev_armed = True\<rparr>,
     is_redundancy_activated = False,
     frame_nominal = Frame_new, src_nominal = take 6 nominal,
     frame_redundancy = Frame_new, src_redundancy = take 6 redundancy,
     lk_timeout = 2000000\<rparr>"

definition setLogicalMapping :: "logical_frame list \<Rightarrow> 'w link \<Rightarrow> 'w link" where
  "setLogicalMapping mapping l = l\<lparr>logical_mapping := mapping\<rparr>"

definition Link_setTimeout :: "int \<Rightarrow> 'w link \<Rightarrow> 'w link" where
  "Link_setTimeout timeout l = l\<lparr>lk_timeout := timeout\<rparr>"

definition isStale :: "u8 \<Rightarrow> 'w link \<Rightarrow> bool" where
  "isStale index l =
     (let in_flight = index_head l - index_queue l in index - index_queue l \<ge> in_flight)"

section \<open>Sending\<close>

definition write_on :: "'w socket \<Rightarrow> bytes \<Rightarrow> nat \<Rightarrow> frame \<Rightarrow> 'w \<Rightarrow> (bool \<times> frame \<times> 'w) option" where
  "write_on sock src to_write f w = (let f = setSourceMAC src f in do {
     data \<leftarrow> mem_read (fr_data f) 0 to_write;
     let (written, w) = sk_write sock data w;
     Some (written = int to_write, f, w)
   })"

definition set_status :: "DatagramState \<Rightarrow> u8 \<Rightarrow> 'w link \<Rightarrow> 'w link" where
  "set_status st i l = l\<lparr>callbacks_of :=
     (callbacks_of l)[unat i := (callbacks_of l ! unat i)\<lparr>cb_status := st\<rparr>]\<rparr>"

definition sendFrame :: "'w link_env \<Rightarrow> 'w link \<Rightarrow> 'w \<Rightarrow> ('w link \<times> 'w) option" where
  "sendFrame e l w = do {
     let datagrams = fr_counter (frame_nominal l);
     (to_write, f) \<leftarrow> finalize (frame_nominal l);
     (sent_nominal, f, w) \<leftarrow> write_on (socket_nominal e) PRIMARY_IF_MAC to_write f w;
     (sent_redundancy, f, w) \<leftarrow> write_on (socket_redundancy e) SECONDARY_IF_MAC to_write f w;
     let l = l\<lparr>frame_nominal := clear f,
               frame_redundancy := resetContext (clear (frame_redundancy l))\<rparr>;
     if sent_nominal \<or> sent_redundancy
     then Some (l\<lparr>sent_frame := sent_frame l + 1\<rparr>, w)
     else Some (fold (\<lambda>i l. set_status SEND_ERROR (index_head l - of_nat i - 1) l) [0..<datagrams] l, w)
   }"

definition addDatagramToFrame ::
    "u8 \<Rightarrow> Command \<Rightarrow> u32 \<Rightarrow> bytes option \<Rightarrow> u16 \<Rightarrow> 'w link \<Rightarrow> 'w link option" where
  "addDatagramToFrame index command address data data_size l = do {
     f \<leftarrow> addDatagram index command address data data_size (frame_nominal l);
     Some (l\<lparr>frame_nominal := f\<rparr>)
   }"

definition TOO_MANY :: string where
  "TOO_MANY = ''Too many datagrams in flight. Max is 255''"

definition Link_addDatagram :: "'w link_env \<Rightarrow> Command \<Rightarrow> u32 \<Rightarrow> bytes option \<Rightarrow> u16
    \<Rightarrow> 'w process \<Rightarrow> 'w on_error \<Rightarrow> 'w link \<Rightarrow> 'w \<Rightarrow> (string option \<times> 'w link \<times> 'w) option" where
  "Link_addDatagram e command address data data_size process error l w =
     (if index_queue l = index_head l + 1 then Some (Some TOO_MANY, l, w)
      else do {
        let needed_space = datagram_size data_size;
        space \<leftarrow> freeSpace (frame_nominal l);
        (l, w) \<leftarrow> (if space < int (unat needed_space) then sendFrame e l w else Some (l, w));
        l \<leftarrow> addDatagramToFrame (index_head l) command address data data_size l;
        let l = l\<lparr>callbacks_of := (callbacks_of l)[unat (index_head l) :=
                    \<lparr>cb_status = LOST, cb_process = Some process, cb_error = Some error\<rparr>],
                  index_head := index_head l + 1\<rparr>;
        full \<leftarrow> isFull (frame_nominal l);
        (l, w) \<leftarrow> (if full then sendFrame e l w else Some (l, w));
        Some (None, l, w)
      })"

definition finalizeDatagrams :: "'w link_env \<Rightarrow> 'w link \<Rightarrow> 'w \<Rightarrow> ('w link \<times> 'w) option" where
  "finalizeDatagrams e l w =
     (if fr_counter (frame_nominal l) \<noteq> 0 then sendFrame e l w else Some (l, w))"

section \<open>Merging the two copies of a datagram\<close>

text \<open>
  The buffers are what the code's pointers see: the bytes of the frame from the datagram's data
  on. A negative \<open>int32_t\<close> converted to \<open>size_t\<close> is beyond any buffer.
\<close>

definition to_size :: "int \<Rightarrow> nat option" where
  "to_size n = (if n < 0 then None else Some (nat n))"

definition memcpy_at :: "bytes \<Rightarrow> bytes \<Rightarrow> nat \<Rightarrow> nat \<Rightarrow> bytes option" where
  "memcpy_at dst src off n = do { d \<leftarrow> mem_read src off n; mem_write dst off d }"

definition or_at :: "bytes \<Rightarrow> bytes \<Rightarrow> nat \<Rightarrow> nat \<Rightarrow> bytes option" where
  "or_at dst src off n = do {
     a \<leftarrow> mem_read dst off n;
     b \<leftarrow> mem_read src off n;
     mem_write dst off (map2 (OR) a b)
   }"

fun splice_inputs :: "lf_entry list \<Rightarrow> u16 \<Rightarrow> u16 \<Rightarrow> bytes \<Rightarrow> bytes \<Rightarrow> bytes option" where
  "splice_inputs [] acc wkc_redundancy data_nominal data_redundancy = Some data_nominal"
| "splice_inputs (entry # entries) acc wkc_redundancy data_nominal data_redundancy =
     (if acc \<ge> wkc_redundancy then Some data_nominal
      else let acc = acc + contribution entry in
        if input_offset entry \<ge> 0 then do {
          n \<leftarrow> to_size (input_size entry);
          data_nominal \<leftarrow> memcpy_at data_nominal data_redundancy (nat (input_offset entry)) n;
          splice_inputs entries acc wkc_redundancy data_nominal data_redundancy
        }
        else splice_inputs entries acc wkc_redundancy data_nominal data_redundancy)"

definition mergeSplitLRW :: "logical_frame \<Rightarrow> bytes \<Rightarrow> bytes \<Rightarrow> u16 \<Rightarrow> u16 \<Rightarrow> bytes option" where
  "mergeSplitLRW desc data_nominal data_redundancy wkc_nominal wkc_redundancy =
     (if wkc_redundancy = 0 then Some data_nominal
      else if wkc_nominal = 0 then do {
        n \<leftarrow> to_size (logical_size desc);
        memcpy_at data_nominal data_redundancy 0 n
      }
      else do {
        data_nominal \<leftarrow> splice_inputs (lf_entries desc) 0 wkc_redundancy data_nominal data_redundancy;
        if pdo_size desc < logical_size desc
        then do {
          off \<leftarrow> to_size (pdo_size desc);
          or_at data_nominal data_redundancy off (nat (logical_size desc - pdo_size desc))
        }
        else Some data_nominal
      })"

definition single_segment :: "nat \<Rightarrow> bytes \<Rightarrow> bytes \<Rightarrow> u16 \<Rightarrow> u16 \<Rightarrow> bytes option" where
  "single_segment len data_nominal data_redundancy wkc_nominal wkc_redundancy =
     (if wkc_nominal = 0 \<and> wkc_redundancy \<noteq> 0 then memcpy_at data_nominal data_redundancy 0 len
      else Some data_nominal)"

definition merge_data :: "logical_frame list \<Rightarrow> datagram_header \<Rightarrow> bytes \<Rightarrow> bytes \<Rightarrow> u16 \<Rightarrow> u16
    \<Rightarrow> bytes option" where
  "merge_data mapping h data_nominal data_redundancy wkc_nominal wkc_redundancy =
     (let len = unat (dg_len h) in
      case command_of (dg_command h) of
        None \<Rightarrow> Some data_nominal
      | Some c \<Rightarrow>
          if c \<in> {NOP, BRD, APRD, FPRD, LRD, BRW} then or_at data_nominal data_redundancy 0 len
          else if c = LRW then
            (case find (\<lambda>d. lf_address d = dg_address h) mapping of
               Some desc \<Rightarrow>
                 if int len = logical_size desc
                 then mergeSplitLRW desc data_nominal data_redundancy wkc_nominal wkc_redundancy
                 else single_segment len data_nominal data_redundancy wkc_nominal wkc_redundancy
             | None \<Rightarrow> single_segment len data_nominal data_redundancy wkc_nominal wkc_redundancy)
          else if c \<in> {APRW, FPRW}
          then single_segment len data_nominal data_redundancy wkc_nominal wkc_redundancy
          else Some data_nominal)"

section \<open>Receiving\<close>

definition Link_read :: "'w link_env \<Rightarrow> 'w link \<Rightarrow> 'w \<Rightarrow> ('w link \<times> 'w) option" where
  "Link_read e l w = do {
     let (t, w) = env_now e w;
     let deadline = t + lk_timeout l;
     let w = sk_setTimeout (socket_redundancy e) (lk_timeout l) w;
     let ((ret, received), w) = sk_read (socket_redundancy e) w;
     (_, f) \<leftarrow> readFrame ret received (frame_nominal l);
     let (t, w) = env_now e w;
     let w = sk_setTimeout (socket_nominal e) (max (deadline - t) 0) w;
     let ((ret, received), w) = sk_read (socket_nominal e) w;
     (_, g) \<leftarrow> readFrame ret received (frame_redundancy l);
     Some (l\<lparr>frame_nominal := f, frame_redundancy := g\<rparr>, w)
   }"

definition resetFrameContext :: "'w link \<Rightarrow> 'w link" where
  "resetFrameContext l = l\<lparr>frame_nominal := resetContext (frame_nominal l),
     frame_redundancy := resetContext (frame_redundancy l)\<rparr>"

definition Link_isDatagramAvailable :: "'w link \<Rightarrow> bool" where
  "Link_isDatagramAvailable l \<longleftrightarrow>
     fr_available (frame_nominal l) \<or> fr_available (frame_redundancy l)"

text \<open>What the returned pointers designate: header, data and working counter of a datagram.\<close>

definition pointed :: "frame \<Rightarrow> nat \<Rightarrow> nat \<Rightarrow> u16 \<Rightarrow> dgram" where
  "pointed f h d wkc = \<lparr>d_header = datagram_at f h,
     d_payload = peek (fr_data f) d (unat (dg_len (datagram_at f h))), d_wkc = wkc\<rparr>"

definition merge_pair :: "logical_frame list \<Rightarrow> frame \<Rightarrow> nat \<Rightarrow> nat \<Rightarrow> u16 \<Rightarrow> frame \<Rightarrow> nat \<Rightarrow> nat \<Rightarrow> u16
    \<Rightarrow> frame option" where
  "merge_pair mapping f hn dn wkc_nominal g hr dr wkc_redundancy = do {
     let header = (datagram_at f hn)\<lparr>dg_irq := dg_irq (datagram_at f hn) OR dg_irq (datagram_at g hr)\<rparr>;
     b \<leftarrow> mem_write (fr_data f) hn (enc_datagram_header header);
     d \<leftarrow> merge_data mapping header (drop dn b) (drop dr (fr_data g)) wkc_nominal wkc_redundancy;
     Some (f\<lparr>fr_data := take dn b @ d\<rparr>)
   }"

definition Link_nextDatagram :: "'w link \<Rightarrow> (dgram \<times> bool \<times> 'w link) option" where
  "Link_nextDatagram l =
     (let nom = fr_available (frame_nominal l); red = fr_available (frame_redundancy l) in
      if \<not> nom \<and> red then do {
        ((h, d, wkc), g) \<leftarrow> nextDatagram (frame_redundancy l);
        Some (pointed g h d wkc, False, l\<lparr>frame_redundancy := g\<rparr>)
      }
      else if nom \<and> \<not> red then do {
        ((h, d, wkc), f) \<leftarrow> nextDatagram (frame_nominal l);
        Some (pointed f h d wkc, False, l\<lparr>frame_nominal := f\<rparr>)
      }
      else do {
        ((hn, dn, wkc_nominal), f) \<leftarrow> nextDatagram (frame_nominal l);
        ((hr, dr, wkc_redundancy), g) \<leftarrow> nextDatagram (frame_redundancy l);
        let l = l\<lparr>frame_nominal := f, frame_redundancy := g\<rparr>;
        let index_nominal = dg_index (datagram_at f hn);
        let index_redundancy = dg_index (datagram_at g hr);
        if index_nominal \<noteq> index_redundancy then
          (if index_redundancy - index_queue l < index_nominal - index_queue l
           then Some (pointed g hr dr wkc_redundancy, True, l)
           else Some (pointed f hn dn wkc_nominal, True, l))
        else if isStale index_nominal l then Some (pointed f hn dn wkc_nominal, False, l)
        else do {
          f \<leftarrow> merge_pair (logical_mapping l) f hn dn wkc_nominal g hr dr wkc_redundancy;
          Some (pointed f hn dn (wkc_nominal + wkc_redundancy), False, l\<lparr>frame_nominal := f\<rparr>)
        }
      })"

section \<open>Processing\<close>

text \<open>The body of the inner loop of \<open>processDatagrams\<close>, on its local \<open>irq\<close> and \<open>stale_frame\<close>.\<close>

definition dispatch :: "dgram \<Rightarrow> u16 \<Rightarrow> bool \<Rightarrow> 'w link \<Rightarrow> 'w \<Rightarrow> (u16 \<times> bool \<times> 'w link \<times> 'w) option" where
  "dispatch d irq stale_frame l w =
     (let index = dg_index (d_header d) in
      if isStale index l then Some (irq, True, l, w)
      else let irq = irq OR dg_irq (d_header d); callback = callbacks_of l ! unat index in
        if cb_status callback = OK then Some (irq, stale_frame, l, w)
        else do {
          process \<leftarrow> cb_process callback;
          let (status, w) = process (d_header d) (d_payload d) (d_wkc d) w;
          Some (irq, stale_frame, set_status status index l, w)
        })"

text \<open>Datagrams that may still be extracted: what bounds the inner loop.\<close>

definition unread :: "frame \<Rightarrow> nat" where
  "unread f = (if fr_available f then Suc (length (fr_data f) - the (fr_next f)) else 0)"

definition link_unread :: "'w link \<Rightarrow> nat" where
  "link_unread l = unread (frame_nominal l) + unread (frame_redundancy l)"

lemma nextDatagram_unread:
  assumes "nextDatagram f = Some (r, g)" and "fr_available f"
  shows "unread g < unread f"
  using assms
  by (auto simp: nextDatagram_def unread_def resetContext_def Let_def mem_read_eq_Some_iff
      bind_eq_Some_conv split: if_splits)

lemma merge_data_length:
  "merge_data m h a b v w = Some c \<Longrightarrow> length c = length a"
proof -
  have memcpy: "memcpy_at x y off n = Some z \<Longrightarrow> length z = length x" for x y off n z
    by (auto simp: memcpy_at_def mem_write_eq_Some_iff bind_eq_Some_conv)
  have or_len: "or_at x y off n = Some z \<Longrightarrow> length z = length x" for x y off n z
    by (auto simp: or_at_def mem_write_eq_Some_iff bind_eq_Some_conv)
  have splice: "splice_inputs es acc v a b = Some c \<Longrightarrow> length c = length a" for es acc v a b c
    by (induction es acc v a b rule: splice_inputs.induct)
      (auto simp: Let_def bind_eq_Some_conv split: if_splits dest: memcpy)
  have split_lrw: "mergeSplitLRW d a b v w = Some c \<Longrightarrow> length c = length a" for d
    by (auto simp: mergeSplitLRW_def bind_eq_Some_conv split: if_splits dest!: memcpy or_len splice)
  have single: "single_segment n a b v w = Some c \<Longrightarrow> length c = length a" for n
    by (auto simp: single_segment_def split: if_splits dest: memcpy)
  assume "merge_data m h a b v w = Some c"
  then show ?thesis
    by (auto simp: merge_data_def Let_def split: option.splits if_splits dest: or_len split_lrw single)
qed

lemma nextDatagram_inside:
  assumes "nextDatagram f = Some ((h, d, wkc), g)"
  shows "fr_next f = Some h" "d = h + 10" "fr_data g = fr_data f"
    "d + unat (dg_len (datagram_at f h)) + 2 \<le> length (fr_data f)" "datagram_at g h = datagram_at f h"
  using assms
  by (auto simp: nextDatagram_def resetContext_def Let_def mem_read_eq_Some_iff datagram_at_def
      bind_eq_Some_conv split: if_splits)

lemma merge_pair_shape:
  assumes "merge_pair m f hn dn v g hr dr u = Some k" and "dn \<le> length (fr_data f)"
  obtains b where "k = f\<lparr>fr_data := b\<rparr>" "length b = length (fr_data f)"
proof -
  obtain h d where w: "hn + length (enc_datagram_header h) \<le> length (fr_data f)"
      and k: "k = f\<lparr>fr_data := take dn (poke (fr_data f) hn (enc_datagram_header h)) @ d\<rparr>"
      and d: "length d = length (drop dn (poke (fr_data f) hn (enc_datagram_header h)))"
    using assms(1)
    unfolding merge_pair_def Let_def bind_eq_Some_conv mem_write_eq_Some_iff
    by (blast dest: merge_data_length)
  show thesis using w d assms(2) by (intro that [OF k]) simp
qed

lemma unread_merged:
  "merge_pair m f hn dn v g hr dr u = Some k \<Longrightarrow> dn \<le> length (fr_data f) \<Longrightarrow> unread k = unread f"
  by (erule merge_pair_shape) (simp_all add: unread_def)

lemma Link_nextDatagram_unread:
  assumes "Link_nextDatagram l = Some (d, pair, l')" and "Link_isDatagramAvailable l"
  shows "link_unread l' < link_unread l"
proof -
  have both: "unread k + unread g < unread f0 + unread g0"
    if "nextDatagram f0 = Some ((hn, dn, v), f)" "nextDatagram g0 = Some ((hr, dr, u), g)"
      "fr_available f0" "fr_available g0"
      "k = f \<or> merge_pair m f hn dn v g hr dr u = Some k" for f0 g0 hn dn v f hr dr u g k m
  proof -
    have "dn \<le> length (fr_data f)" using nextDatagram_inside [OF that(1)] by simp
    then have "unread k = unread f" using that(5) unread_merged by blast
    then show ?thesis using nextDatagram_unread that by (metis add_strict_mono)
  qed
  show ?thesis
    using assms
    by (auto simp: Link_nextDatagram_def Link_isDatagramAvailable_def link_unread_def Let_def
        bind_eq_Some_conv split: if_splits intro: both dest: nextDatagram_unread)
qed

lemma set_status_frames [simp]:
  "frame_nominal (set_status st i l) = frame_nominal l"
  "frame_redundancy (set_status st i l) = frame_redundancy l"
  "link_unread (set_status st i l) = link_unread l"
  by (simp_all add: set_status_def link_unread_def)

lemma dispatch_unread: "dispatch d irq stale l w = Some (irq', stale', l', w') \<Longrightarrow> link_unread l' = link_unread l"
  by (auto simp: dispatch_def Let_def bind_eq_Some_conv case_prod_beta split: if_splits)

text \<open>The inner loop: extract and dispatch while a datagram is available.\<close>

function drain_link :: "u16 \<Rightarrow> bool \<Rightarrow> bool \<Rightarrow> 'w link \<Rightarrow> 'w
    \<Rightarrow> (u16 \<times> bool \<times> bool \<times> 'w link \<times> 'w) option" where
  "drain_link irq stale_frame dropped_datagram l w =
     (if Link_isDatagramAvailable l then do {
        (d, dropped_pair, l) \<leftarrow> Link_nextDatagram l;
        (irq, stale_frame, l, w) \<leftarrow> dispatch d irq stale_frame l w;
        drain_link irq stale_frame (dropped_datagram \<or> dropped_pair) l w
      }
      else Some (irq, stale_frame, dropped_datagram, l, w))"
  by pat_completeness auto
termination
  by (relation "measure (\<lambda>(irq, stale, dropped, l, w). link_unread l)")
    (auto dest!: Link_nextDatagram_unread dispatch_unread)

declare drain_link.simps [simp del]

text \<open>
  The outer loop, on the number of frames still to read and on \<open>stale_budget\<close>: a read that
  met a stale or desynchronized frame is repeated while the budget lasts.
\<close>

function read_frames :: "'w link_env \<Rightarrow> nat \<Rightarrow> nat \<Rightarrow> u16 \<Rightarrow> 'w link \<Rightarrow> 'w
    \<Rightarrow> (u16 \<times> 'w link \<times> 'w) option" where
  "read_frames e remaining stale_budget irq l w =
     (if remaining = 0 then Some (irq, l, w)
      else do {
        (l, w) \<leftarrow> Link_read e l w;
        (irq, stale_frame, dropped_datagram, l, w) \<leftarrow> drain_link irq False False l w;
        if (stale_frame \<or> dropped_datagram) \<and> stale_budget > 0
        then read_frames e remaining (stale_budget - 1) irq l w
        else read_frames e (remaining - 1) stale_budget irq l w
      })"
  by pat_completeness auto
termination
  by (relation "measure (\<lambda>(e, remaining, budget, irq, l, w). remaining + budget)") auto

declare read_frames.simps [simp del]

text \<open>The loop over the window that calls the error callbacks; the last exception is kept.\<close>

lemma window_step: "i \<noteq> head \<Longrightarrow> unat (head - (i + 1)) < unat (head - i :: u8)"
proof -
  assume "i \<noteq> head"
  then have "head - i \<noteq> 0" by simp
  then have "unat (head - i - 1) = unat (head - i) - 1" and "0 < unat (head - i)"
    by (simp_all add: unat_gt_0 unat_minus_one)
  then show ?thesis by (simp add: diff_diff_eq)
qed

function report_errors :: "u8 \<Rightarrow> u8 \<Rightarrow> 'w callbacks list \<Rightarrow> string option \<Rightarrow> 'w
    \<Rightarrow> (string option \<times> 'w) option" where
  "report_errors i head cbs client_exception w =
     (if i = head then Some (client_exception, w)
      else if cb_status (cbs ! unat i) \<noteq> OK then do {
        error \<leftarrow> cb_error (cbs ! unat i);
        let (thrown, w) = error (cb_status (cbs ! unat i)) w;
        report_errors (i + 1) head cbs (if thrown = None then client_exception else thrown) w
      }
      else report_errors (i + 1) head cbs client_exception w)"
  by pat_completeness auto
termination
  by (relation "measure (\<lambda>(i, head, cbs, x, w). unat (head - i))") (auto simp: window_step)

declare report_errors.simps [simp del]

text \<open>An exception of an event callback leaves the loop.\<close>

fun check_events :: "u16 \<Rightarrow> 'w irq_slot list \<Rightarrow> 'w \<Rightarrow> string option \<times> 'w irq_slot list \<times> 'w" where
  "check_events irq [] w = (None, [], w)"
| "check_events irq (event # events) w =
     (if irq AND 1 \<noteq> 0 then
        (if ev_armed event then
           (let event = event\<lparr>ev_armed := False\<rparr>; (thrown, w) = ev_callback event w in
            if thrown \<noteq> None then (thrown, event # events, w)
            else let (x, events, w) = check_events (drop_bit 1 irq) events w in (x, event # events, w))
         else let (x, events, w) = check_events (drop_bit 1 irq) events w in (x, event # events, w))
      else let (x, events, w) = check_events (drop_bit 1 irq) events w
           in (x, event\<lparr>ev_armed := True\<rparr> # events, w))"

definition checkEcatEvents :: "u16 \<Rightarrow> 'w link \<Rightarrow> 'w \<Rightarrow> string option \<times> 'w link \<times> 'w" where
  "checkEcatEvents irq l w =
     (let (x, events, w) = check_events irq (irqs l) w in (x, l\<lparr>irqs := events\<rparr>, w))"

definition processDatagrams :: "'w link_env \<Rightarrow> 'w link \<Rightarrow> 'w \<Rightarrow> (string option \<times> 'w link \<times> 'w) option" where
  "processDatagrams e l w = do {
     (l, w) \<leftarrow> finalizeDatagrams e l w;
     let waiting_frame = unat (sent_frame l);
     let l = l\<lparr>sent_frame := 0\<rparr>;
     (irq, l, w) \<leftarrow> read_frames e waiting_frame waiting_frame 0 l w;
     (client_exception, w) \<leftarrow> report_errors (index_queue l) (index_head l) (callbacks_of l) None w;
     let l = resetFrameContext (l\<lparr>index_queue := index_head l\<rparr>);
     if client_exception \<noteq> None then Some (client_exception, l, w)
     else Some (checkEcatEvents irq l w)
   }"

text \<open>The mask of a set of events; a null \<open>std::function\<close> is \<open>None\<close>.\<close>

definition EMPTY_CALLBACK :: string where
  "EMPTY_CALLBACK = ''attachEcatEventCallback: empty callback''"

function attach_bits :: "nat \<Rightarrow> u16 \<Rightarrow> 'w on_event \<Rightarrow> 'w irq_slot list \<Rightarrow> 'w irq_slot list" where
  "attach_bits index m callback events =
     (if m = 0 then events
      else attach_bits (index + 1) (drop_bit 1 m) callback
             (if m AND 1 \<noteq> 0 then events[index := (events ! index)\<lparr>ev_callback := callback\<rparr>] else events))"
  by pat_completeness auto
termination
proof (relation "measure (\<lambda>(index, m, callback, events). unat m)")
  fix m :: u16
  assume "m \<noteq> 0"
  then show "((index + 1, drop_bit 1 m, callback, cs), index, m, callback, events)
      \<in> measure (\<lambda>(index, m, callback, events). unat m)" for index callback cs events
    using unat_gt_0 [of m] by (simp add: unat_drop_bit_eq drop_bit_eq_div unat_div)
qed simp

declare attach_bits.simps [simp del]

definition attachEcatEventCallback :: "u16 \<Rightarrow> 'w on_event option \<Rightarrow> 'w link \<Rightarrow> string option \<times> 'w link" where
  "attachEcatEventCallback ecat_event callback l =
     (case callback of
        None \<Rightarrow> (Some EMPTY_CALLBACK, l)
      | Some f \<Rightarrow> (None, l\<lparr>irqs := attach_bits 0 ecat_event f (irqs l)\<rparr>))"

section \<open>Synchronous exchange and redundancy check\<close>

definition checkRedundancyNeeded :: "'w link_env \<Rightarrow> 'w link \<Rightarrow> 'w \<Rightarrow> ('w link \<times> 'w) option" where
  "checkRedundancyNeeded e l w = do {
     frame \<leftarrow> addDatagram 0 BRD (createAddress 0 0) None 1 Frame_new;
     (to_write, frame) \<leftarrow> finalize (setSourceMAC SECONDARY_IF_MAC frame);
     data \<leftarrow> mem_read (fr_data frame) 0 to_write;
     let (written, w) = sk_write (socket_redundancy e) data w;
     let frame = clear frame;
     let w = sk_setTimeout (socket_nominal e) (lk_timeout l) w;
     let w = sk_setTimeout (socket_redundancy e) (lk_timeout l) w;
     let ((ret, received), w) = sk_read (socket_nominal e) w;
     (ret, frame) \<leftarrow> readFrame ret received frame;
     (lost, frame, w) \<leftarrow>
       (if ret < 0 then do {
          let ((ret, received), w) = sk_read (socket_redundancy e) w;
          (ret, frame) \<leftarrow> readFrame ret received frame;
          Some (ret < 0, frame, w)
        }
        else Some (False, frame, w));
     if lost then Some (l, w)
     else do {
       ((h, d, wkc), frame) \<leftarrow> nextDatagram frame;
       if wkc \<noteq> 0 then Some (l\<lparr>is_redundancy_activated := True\<rparr>, redundancyActivated e w)
       else Some (l, w)
     }
   }"

definition CANT_WRITE :: string where "CANT_WRITE = ''Can't write to interface''"
definition NOTHING_READ :: string where
  "NOTHING_READ = ''WriteThenRead was not able to read anything on both interfaces''"
definition INVALID_TYPE :: string where "INVALID_TYPE = ''Invalid frame type''"
definition WRONG_SIZE :: string where "WRONG_SIZE = ''Wrong number of bytes read''"

text \<open>One pass of the lambda of \<open>writeThenRead\<close>: an exception, or whether nothing was read.\<close>

definition write_read :: "'w socket \<Rightarrow> 'w socket \<Rightarrow> bytes \<Rightarrow> nat \<Rightarrow> frame \<Rightarrow> 'w
    \<Rightarrow> ((string + nat) \<times> frame \<times> 'w) option" where
  "write_read from to src to_write f w = do {
     let f = setSourceMAC src f;
     data \<leftarrow> mem_read (fr_data f) 0 to_write;
     let (written, w) = sk_write from data w;
     if written < int to_write then Some (Inl CANT_WRITE, f, w)
     else do {
       let ((ret, received), w) = sk_read to w;
       b \<leftarrow> mem_write (fr_data f) 0 received;
       let f = f\<lparr>fr_data := b\<rparr>;
       if ret \<le> 0 then do {
         let ((ret, received), w) = sk_read from w;
         b \<leftarrow> mem_write (fr_data f) 0 received;
         let f = f\<lparr>fr_data := b\<rparr>;
         Some (Inr (if ret \<le> 0 then 1 else 0), f, w)
       }
       else Some (Inr 0, f, w)
     }
   }"

definition writeThenRead :: "'w link_env \<Rightarrow> 'w link \<Rightarrow> frame \<Rightarrow> 'w \<Rightarrow> (string option \<times> frame \<times> 'w) option" where
  "writeThenRead e l f w = do {
     let w = sk_setTimeout (socket_nominal e) (lk_timeout l) w;
     let w = sk_setTimeout (socket_redundancy e) (lk_timeout l) w;
     (to_write, f) \<leftarrow> finalize f;
     (first, f, w) \<leftarrow> write_read (socket_nominal e) (socket_redundancy e) PRIMARY_IF_MAC to_write f w;
     case first of
       Inl x \<Rightarrow> Some (Some x, f, w)
     | Inr errors \<Rightarrow> do {
         (second, f, w) \<leftarrow> write_read (socket_redundancy e) (socket_nominal e) SECONDARY_IF_MAC to_write f w;
         case second of
           Inl x \<Rightarrow> Some (Some x, f, w)
         | Inr errors' \<Rightarrow>
             if errors + errors' > 1 then Some (Some NOTHING_READ, f, w)
             else if get16 (fr_data f) 12 \<noteq> ETH_ETHERCAT_TYPE then Some (Some INVALID_TYPE, f, w)
             else let current_size = unat (eh_len (frame_header f)) + ETH_HEADER_SIZE + ETHERCAT_HEADER_SIZE;
                      current_size = (if current_size < ETH_MIN_SIZE then ETH_MIN_SIZE else current_size)
               in if current_size \<noteq> to_write then Some (Some WRONG_SIZE, f, w)
                  else Some (None, setIsDatagramAvailable f, w)
       }
   }"

end
