(* ===== verification/LinkBehaviour.thy ===== *)
theory LinkBehaviour
  imports Link
begin

text \<open>
  What the link guarantees to the datagrams it carries.

  \<open>evolves\<close> is the relation between two states of a link while replies are dispatched: the
  window does not move, only slots inside it change, and only their status, by the value their
  own \<open>process\<close> callback returned; a slot that is \<open>OK\<close> stays so. It holds whatever the sockets
  deliver. \<open>report_errors\<close> is then a fold over the window, and the event slots are edge triggered.
\<close>

section \<open>Dispatching replies\<close>

definition own_status :: "'w callbacks \<Rightarrow> u8 \<Rightarrow> DatagramState \<Rightarrow> bool" where
  "own_status c index st \<longleftrightarrow>
     (\<exists>p h d wkc w. cb_process c = Some p \<and> dg_index h = index \<and> st = fst (p h d wkc w))"

definition slot_evolves :: "bool \<Rightarrow> u8 \<Rightarrow> 'w callbacks \<Rightarrow> 'w callbacks \<Rightarrow> bool" where
  "slot_evolves stale index c c' \<longleftrightarrow>
     cb_process c' = cb_process c \<and> cb_error c' = cb_error c
     \<and> (stale \<longrightarrow> c' = c) \<and> (cb_status c = OK \<longrightarrow> c' = c)
     \<and> (cb_status c' = cb_status c \<or> own_status c index (cb_status c'))"

definition evolves :: "'w link \<Rightarrow> 'w link \<Rightarrow> bool" where
  "evolves l l' \<longleftrightarrow>
     index_queue l' = index_queue l \<and> index_head l' = index_head l \<and> sent_frame l' = sent_frame l
     \<and> irqs l' = irqs l \<and> logical_mapping l' = logical_mapping l \<and> lk_timeout l' = lk_timeout l
     \<and> length (callbacks_of l') = length (callbacks_of l)
     \<and> (\<forall>i. slot_evolves (isStale i l) i (callbacks_of l ! unat i) (callbacks_of l' ! unat i))"

lemma own_status_cong: "cb_process c = cb_process c' \<Longrightarrow> own_status c = own_status c'"
  by (intro ext) (simp add: own_status_def)

lemma slot_evolves_trans:
  "slot_evolves s i a b \<Longrightarrow> slot_evolves s i b c \<Longrightarrow> slot_evolves s i a c"
  using own_status_cong [of a b] by (auto simp: slot_evolves_def)

lemma evolves_refl [simp]: "evolves l l"
  by (simp add: evolves_def slot_evolves_def)

lemma evolves_trans: "evolves a b \<Longrightarrow> evolves b c \<Longrightarrow> evolves a c"
  by (auto simp: evolves_def isStale_def intro: slot_evolves_trans)

lemma evolves_frames:
  "evolves l (l\<lparr>frame_nominal := f, frame_redundancy := g\<rparr>)" "evolves l (l\<lparr>frame_nominal := f\<rparr>)"
  "evolves l (l\<lparr>frame_redundancy := g\<rparr>)" "evolves l (l\<lparr>frame_redundancy := g, frame_nominal := f\<rparr>)"
  by (simp_all add: evolves_def slot_evolves_def)

lemma evolves_set_status:
  assumes "\<not> isStale index l" and "cb_status (callbacks_of l ! unat index) \<noteq> OK"
    and "own_status (callbacks_of l ! unat index) index st"
  shows "evolves l (set_status st index l)"
proof -
  have "slot_evolves (isStale i l) i (callbacks_of l ! unat i)
      ((callbacks_of l)[unat index := (callbacks_of l ! unat index)\<lparr>cb_status := st\<rparr>] ! unat i)" for i
  proof (cases "unat index < length (callbacks_of l) \<and> i = index")
    case False
    then have "(callbacks_of l)[unat index := (callbacks_of l ! unat index)\<lparr>cb_status := st\<rparr>] ! unat i
        = callbacks_of l ! unat i"
      by (cases "unat index = unat i") (auto simp: list_update_beyond dest: unsigned_word_eqI)
    then show ?thesis by (simp add: slot_evolves_def)
  qed (use assms in \<open>simp add: slot_evolves_def\<close>)
  then show ?thesis by (simp add: evolves_def set_status_def)
qed

lemma dispatch_evolves:
  assumes "dispatch d irq stale l w = Some (irq', stale', l', w')"
  shows "evolves l l'"
proof (cases "isStale (dg_index (d_header d)) l
    \<or> cb_status (callbacks_of l ! unat (dg_index (d_header d))) = OK")
  case True
  then show ?thesis using assms by (auto simp: dispatch_def Let_def split: if_splits)
next
  case False
  let ?i = "dg_index (d_header d)"
  obtain p where p: "cb_process (callbacks_of l ! unat ?i) = Some p"
      and l': "l' = set_status (fst (p (d_header d) (d_payload d) (d_wkc d) w)) ?i l"
    using assms False by (auto simp: dispatch_def Let_def bind_eq_Some_conv case_prod_beta)
  have "own_status (callbacks_of l ! unat ?i) ?i (fst (p (d_header d) (d_payload d) (d_wkc d) w))"
    using p by (auto simp: own_status_def)
  then show ?thesis using False l' evolves_set_status by blast
qed

lemma next_evolves: "Link_nextDatagram l = Some (d, pair, l') \<Longrightarrow> evolves l l'"
  by (auto simp: Link_nextDatagram_def Let_def bind_eq_Some_conv evolves_frames split: if_splits)

lemma drain_evolves:
  "drain_link irq stale dropped l w = Some (irq', stale', dropped', l', w') \<Longrightarrow> evolves l l'"
proof (induction irq stale dropped l w rule: drain_link.induct)
  case (1 irq stale dropped l w)
  show ?case
  proof (cases "Link_isDatagramAvailable l")
    case True
    then obtain d pair l1 irq2 stale2 l2 w2 where
        1: "Link_nextDatagram l = Some (d, pair, l1)"
      and 2: "dispatch d irq stale l1 w = Some (irq2, stale2, l2, w2)"
      and 3: "drain_link irq2 stale2 (dropped \<or> pair) l2 w2 = Some (irq', stale', dropped', l', w')"
      using "1.prems" by (subst (asm) drain_link.simps) (auto simp: bind_eq_Some_conv)
    have "evolves l2 l'" using "1.IH" [OF True 1] 2 3 by blast
    then show ?thesis using next_evolves [OF 1] dispatch_evolves [OF 2] evolves_trans by blast
  qed (use "1.prems" in \<open>subst (asm) drain_link.simps, simp\<close>)
qed

lemma read_evolves: "Link_read e l w = Some (l', w') \<Longrightarrow> evolves l l'"
  by (auto simp: Link_read_def Let_def bind_eq_Some_conv case_prod_beta evolves_frames)

lemma read_frames_evolves:
  "read_frames e n budget irq l w = Some (irq', l', w') \<Longrightarrow> evolves l l'"
proof (induction e n budget irq l w rule: read_frames.induct)
  case (1 e n budget irq l w)
  show ?case
  proof (cases "n = 0")
    case False
    then obtain l1 w1 irq2 stale dropped l2 w2 where
        1: "Link_read e l w = Some (l1, w1)"
      and 2: "drain_link irq False False l1 w1 = Some (irq2, stale, dropped, l2, w2)"
      and 3: "(if (stale \<or> dropped) \<and> budget > 0 then read_frames e n (budget - 1) irq2 l2 w2
               else read_frames e (n - 1) budget irq2 l2 w2) = Some (irq', l', w')"
      using "1.prems" by (subst (asm) read_frames.simps) (auto simp: bind_eq_Some_conv)
    have "evolves l2 l'"
      using "1.IH" [OF False 1 refl 2 refl refl refl refl] 3 by (auto split: if_splits)
    then show ?thesis using read_evolves [OF 1] drain_evolves [OF 2] evolves_trans by blast
  qed (use "1.prems" in \<open>subst (asm) read_frames.simps, simp\<close>)
qed

section \<open>Reporting errors\<close>

definition window :: "u8 \<Rightarrow> u8 \<Rightarrow> u8 list" where
  "window queue head = map (\<lambda>k. queue + of_nat k) [0..<unat (head - queue)]"

lemma window_empty [simp]: "window i i = []"
  by (simp add: window_def)

lemma window_Cons: "i \<noteq> head \<Longrightarrow> window i head = i # window (i + 1) head"
proof -
  assume "i \<noteq> head"
  then have nz: "head - i \<noteq> 0" by simp
  then have n: "unat (head - i) = Suc (unat (head - (i + 1)))"
    using unat_minus_one [OF nz] unat_gt_0 [of "head - i"] by (simp add: diff_diff_eq)
  show ?thesis
    unfolding window_def n upt_conv_Cons [OF zero_less_Suc] map_Suc_upt [symmetric]
    by (simp add: comp_def ac_simps)
qed

lemma mem_window: "i \<in> set (window (index_queue l) (index_head l)) \<longleftrightarrow> \<not> isStale i l"
proof -
  have "(\<exists>k < unat (index_head l - index_queue l). i = index_queue l + of_nat k)
      \<longleftrightarrow> unat (i - index_queue l) < unat (index_head l - index_queue l)"
  proof
    assume "unat (i - index_queue l) < unat (index_head l - index_queue l)"
    then show "\<exists>k < unat (index_head l - index_queue l). i = index_queue l + of_nat k"
      by (intro exI [of _ "unat (i - index_queue l)"]) simp
  next
    assume "\<exists>k < unat (index_head l - index_queue l). i = index_queue l + of_nat k"
    then obtain k where k: "k < unat (index_head l - index_queue l)" "i = index_queue l + of_nat k" by blast
    then have "k < 2 ^ 8" using unsigned_less [of "index_head l - index_queue l", where ?'a = nat] by simp
    then show "unat (i - index_queue l) < unat (index_head l - index_queue l)"
      using k by (simp add: unat_of_nat_small)
  qed
  then show ?thesis
    by (auto simp: window_def isStale_def not_le word_less_nat_alt)
qed

text \<open>Calling the error callback of a slot: the exception kept and the environment after it.\<close>

definition notify :: "'w callbacks list \<Rightarrow> u8 \<Rightarrow> string option \<times> 'w \<Rightarrow> string option \<times> 'w" where
  "notify cbs i = (\<lambda>(x, w).
     let (thrown, w') = the (cb_error (cbs ! unat i)) (cb_status (cbs ! unat i)) w
     in (if thrown = None then x else thrown, w'))"

definition failed :: "'w callbacks list \<Rightarrow> u8 \<Rightarrow> bool" where
  "failed cbs i \<longleftrightarrow> cb_status (cbs ! unat i) \<noteq> OK"

lemma report_errors_fold:
  assumes "list_all (\<lambda>i. cb_error (cbs ! unat i) \<noteq> None) (window i head)"
  shows "report_errors i head cbs x w = Some (fold (notify cbs) (filter (failed cbs) (window i head)) (x, w))"
  using assms
proof (induction i head cbs x w rule: report_errors.induct)
  case (1 i head cbs x w)
  show ?case
  proof (cases "i = head")
    case True
    then show ?thesis by (simp add: report_errors.simps)
  next
    case False
    then obtain err where err: "cb_error (cbs ! unat i) = Some err"
      and rest: "list_all (\<lambda>i. cb_error (cbs ! unat i) \<noteq> None) (window (i + 1) head)"
      using "1.prems" by (auto simp: window_Cons)
    obtain t w1 where t: "err (cb_status (cbs ! unat i)) w = (t, w1)" by fastforce
    have failed: "failed cbs i \<longleftrightarrow> cb_status (cbs ! unat i) \<noteq> OK" by (simp add: failed_def)
    have notify: "notify cbs i (x, w) = (if t = None then x else t, w1)"
      using err t by (simp add: notify_def)
    show ?thesis
      using False "1.IH"(1) [OF False _ err refl t [symmetric] rest] "1.IH"(2) [OF False _ rest] err t
      by (subst report_errors.simps) (auto simp: window_Cons failed notify)
  qed
qed

section \<open>Splicing the copies of a split ring\<close>

definition input_block :: "lf_entry \<Rightarrow> nat set" where
  "input_block entry =
     (if input_offset entry \<ge> 0
      then {nat (input_offset entry) ..< nat (input_offset entry) + nat (input_size entry)} else {})"

text \<open>The input blocks lie in the process data, and a slave that has one counts in the working counter.\<close>

definition wf_entry :: "nat \<Rightarrow> lf_entry \<Rightarrow> bool" where
  "wf_entry limit entry \<longleftrightarrow> (input_offset entry \<ge> 0 \<longrightarrow>
     input_size entry \<ge> 0 \<and> nat (input_offset entry) + nat (input_size entry) \<le> limit
     \<and> contribution entry \<noteq> 0)"

definition wkc_sum :: "lf_entry list \<Rightarrow> nat" where
  "wkc_sum es = sum_list (map (\<lambda>entry. unat (contribution entry)) es)"

lemma wkc_sum_simps [simp]:
  "wkc_sum [] = 0" "wkc_sum (x # xs) = unat (contribution x) + wkc_sum xs"
  by (simp_all add: wkc_sum_def)

lemma memcpy_at_bytes:
  assumes "off + n \<le> length dst" and "off + n \<le> length src"
  shows "\<exists>d. memcpy_at dst src off n = Some d \<and> length d = length dst
    \<and> (\<forall>j < length dst. d ! j = (if off \<le> j \<and> j < off + n then src ! j else dst ! j))"
  using assms by (auto simp: memcpy_at_def nth_poke peek_def)

lemma or_at_bytes:
  assumes "off + n \<le> length dst" and "off + n \<le> length src"
  shows "\<exists>d. or_at dst src off n = Some d \<and> length d = length dst
    \<and> (\<forall>j < length dst. d ! j = (if off \<le> j \<and> j < off + n then dst ! j OR src ! j else dst ! j))"
  using assms by (auto simp: or_at_def nth_poke peek_def)

lemma no_block: "wf_entry limit entry \<Longrightarrow> contribution entry = 0 \<Longrightarrow> input_block entry = {}"
  by (auto simp: wf_entry_def input_block_def)

lemma no_blocks:
  "list_all (wf_entry limit) es \<Longrightarrow> wkc_sum es = 0 \<Longrightarrow> (\<Union>(input_block ` set es)) = {}"
proof (induction es)
  case (Cons x xs)
  then have "input_block x = {}" using no_block by (auto simp: unat_eq_zero)
  then show ?case using Cons by simp
qed simp

lemma splice_inputs_bytes:
  assumes "list_all (wf_entry limit) before" and "limit \<le> length nom" and "limit \<le> length red"
    and "unat acc + wkc_sum before = unat wr"
  shows "\<exists>d. splice_inputs (before @ after) acc wr nom red = Some d \<and> length d = length nom
    \<and> (\<forall>j < length nom. d ! j = (if j \<in> \<Union>(input_block ` set before) then red ! j else nom ! j))"
  using assms
proof (induction before arbitrary: acc nom)
  case Nil
  then have "splice_inputs after acc wr nom red = Some nom"
    by (cases after) (simp_all add: word_le_nat_alt)
  then show ?case by simp
next
  case (Cons x xs)
  have wfx: "wf_entry limit x" and wfxs: "list_all (wf_entry limit) xs" using Cons.prems by simp_all
  show ?case
  proof (cases "wr \<le> acc")
    case True
    then have "wkc_sum (x # xs) = 0" using Cons.prems(4) by (simp add: word_le_nat_alt)
    then have none: "\<Union>(input_block ` set (x # xs)) = {}" by (rule no_blocks [OF Cons.prems(1)])
    show ?thesis using True unfolding none by simp
  next
    case False
    let ?acc = "acc + contribution x"
    have sum: "unat ?acc + wkc_sum xs = unat wr"
      using Cons.prems(4) unat_add_small [of acc "contribution x"] unsigned_less [of wr, where ?'a = nat] by simp
    show ?thesis
    proof (cases "input_offset x \<ge> 0")
      case True
      let ?off = "nat (input_offset x)" and ?n = "nat (input_size x)"
      have fit: "?off + ?n \<le> limit" "input_size x \<ge> 0" using wfx True by (simp_all add: wf_entry_def)
      obtain d where d: "memcpy_at nom red ?off ?n = Some d" "length d = length nom"
          "\<forall>j < length nom. d ! j = (if ?off \<le> j \<and> j < ?off + ?n then red ! j else nom ! j)"
        using memcpy_at_bytes [of ?off ?n nom red] fit Cons.prems by auto
      obtain d' where d': "splice_inputs (xs @ after) ?acc wr d red = Some d'" "length d' = length d"
          "\<forall>j < length d. d' ! j = (if j \<in> \<Union>(input_block ` set xs) then red ! j else d ! j)"
        using Cons.IH [OF wfxs _ _ sum, of d] Cons.prems d(2) by auto
      have "splice_inputs ((x # xs) @ after) acc wr nom red = Some d'"
        using False True d(1) d'(1) fit by (simp add: to_size_def)
      then show ?thesis using d(2,3) d'(2,3) True by (auto simp: input_block_def)
    next
      case no: False
      then show ?thesis using Cons.IH [OF wfxs _ _ sum, of nom] Cons.prems False by (simp add: input_block_def)
    qed
  qed
qed

section \<open>Events\<close>

abbreviation silent :: "'w irq_slot \<Rightarrow> bool" where
  "silent slot \<equiv> \<forall>w. fst (ev_callback slot w) = None"

definition fire :: "'w irq_slot list \<Rightarrow> nat \<Rightarrow> 'w \<Rightarrow> 'w" where
  "fire slots i w = snd (ev_callback (slots ! i) w)"

definition armed_after :: "u16 \<Rightarrow> nat \<Rightarrow> 'w irq_slot \<Rightarrow> 'w irq_slot" where
  "armed_after irq i slot = slot\<lparr>ev_armed := \<not> bit irq i\<rparr>"

lemma and_one_bit: "irq AND 1 \<noteq> 0 \<longleftrightarrow> bit (irq :: u16) 0"
  by (simp add: and_one_eq bit_0 odd_iff_mod_2_eq_one)

lemma map2_upt_Suc: "map2 f [Suc 0..<Suc n] xs = map2 (\<lambda>i. f (Suc i)) [0..<n] xs"
  by (simp add: map_Suc_upt [symmetric] zip_map1 comp_def case_prod_beta del: upt_Suc)

lemma filter_upt_Suc: "filter P [Suc 0..<Suc n] = map Suc (filter (\<lambda>i. P (Suc i)) [0..<n])"
  by (simp add: map_Suc_upt [symmetric] filter_map comp_def del: upt_Suc)

lemma check_events_spec:
  assumes "list_all silent slots"
  shows "check_events irq slots w =
    (None, map2 (armed_after irq) [0..<length slots] slots,
     fold (fire slots) (filter (\<lambda>i. bit irq i \<and> ev_armed (slots ! i)) [0..<length slots]) w)"
  using assms
proof (induction slots arbitrary: irq w)
  case (Cons s ss)
  let ?n = "length ss"
  let ?P = "\<lambda>slots irq i. bit irq i \<and> ev_armed (slots ! i)"
  have upt: "[0..<length (s # ss)] = 0 # [Suc 0..<Suc ?n]" by (simp add: upt_conv_Cons del: upt_Suc)
  have slots: "map2 (armed_after irq) [0..<length (s # ss)] (s # ss)
      = armed_after irq 0 s # map2 (armed_after (drop_bit 1 irq)) [0..<?n] ss"
    unfolding upt by (simp add: map2_upt_Suc armed_after_def bit_drop_bit_eq del: upt_Suc)
  have fires: "fold (fire (s # ss)) (filter (?P (s # ss) irq) [0..<length (s # ss)]) v
      = fold (fire ss) (filter (?P ss (drop_bit 1 irq)) [0..<?n])
          (if bit irq 0 \<and> ev_armed s then snd (ev_callback s v) else v)" for v
  proof -
    have f: "fire (s # ss) (Suc i) = fire ss i" for i by (simp add: fire_def fun_eq_iff)
    have z: "fire (s # ss) 0 v = snd (ev_callback s v)" by (simp add: fire_def)
    show ?thesis
      unfolding upt by (simp add: filter_upt_Suc fold_map comp_def f z bit_drop_bit_eq del: upt_Suc)
  qed
  show ?case
    using Cons.prems Cons.IH [of "drop_bit 1 irq"] unfolding slots fires
    by (simp add: and_one_bit Let_def case_prod_beta armed_after_def)
qed simp

section \<open>Properties\<close>

text \<open>(C29) Whatever the sockets deliver, reading the frames of a cycle leaves the window of indices as it
  was and only settles slots inside it: a slot outside the window, or one that is already \<open>OK\<close>, is
  not touched, no callback is replaced, and a status that changed is one that the slot's own
  \<open>process\<close> callback returned for a datagram bearing the slot's index.\<close>

theorem link_replies_monotone:
  assumes "read_frames e n budget irq l w = Some (irq', l', w')"
  shows "index_queue l' = index_queue l \<and> index_head l' = index_head l
    \<and> (let c = callbacks_of l ! unat i; c' = callbacks_of l' ! unat i in
        (if isStale i l \<or> cb_status c = OK then c' = c else True)
        \<and> cb_process c' = cb_process c \<and> cb_error c' = cb_error c
        \<and> (cb_status c' = cb_status c \<or> own_status c i (cb_status c')))"
  using read_frames_evolves [OF assms] by (auto simp: evolves_def slot_evolves_def Let_def)

definition silent_env :: "unit link_env" where
  "silent_env = \<lparr>socket_nominal = SocketNull, socket_redundancy = SocketNull, env_now = (\<lambda>w. (0, w)),
     redundancyActivated = id\<rparr>"

lemma silent_read: "Link_read silent_env l w = Some (l, w)"
  by (simp add: Link_read_def silent_env_def SocketNull_def readFrame_def Let_def)

theorem link_replies_monotone_witness:
  "\<exists>l'. read_frames silent_env 1 1 0 (Link_new PRIMARY_IF_MAC SECONDARY_IF_MAC) () = Some (0, l', ())
    \<and> index_queue l' = 0 \<and> cb_status (callbacks_of l' ! 3) = LOST"
proof -
  let ?l = "Link_new PRIMARY_IF_MAC SECONDARY_IF_MAC :: unit link"
  have "drain_link 0 False False ?l () = Some (0, False, False, ?l, ())"
    by (subst drain_link.simps)
      (simp add: Link_isDatagramAvailable_def Link_new_def Frame_new_def resetContext_def Let_def)
  then have r: "read_frames silent_env 1 1 0 ?l () = Some (0, ?l, ())"
    by (subst read_frames.simps) (simp add: silent_read read_frames.simps)
  have "isStale 3 ?l" "cb_status (callbacks_of ?l ! unat (3 :: u8)) = LOST" by (simp_all add: isStale_def Link_new_def)
  then show ?thesis
    using r link_replies_monotone [OF r, of 3] by (simp add: Link_new_def Let_def)
qed

text \<open>(C30) Splicing the two copies of a logical read-write datagram on a split ring: when the slaves
  \<open>before\<close> the break account for the working counter of the redundancy copy, the result holds their
  input blocks from that copy, the bytes behind the process data are the union of both copies, every
  other byte is the nominal one, and nothing is accessed outside the two buffers.\<close>

theorem mergeSplitLRW_rebuilds:
  assumes "lf_entries desc = before @ after" and "unat wkc_redundancy = wkc_sum before"
    and "wkc_nominal \<noteq> 0" and "wkc_redundancy \<noteq> 0"
    and "pdo_size desc = int pdo" and "logical_size desc = int total_size" and "pdo \<le> total_size"
    and "total_size \<le> length nominal" and "total_size \<le> length redundancy"
    and "list_all (wf_entry pdo) before"
  shows "\<exists>d. mergeSplitLRW desc nominal redundancy wkc_nominal wkc_redundancy = Some d
    \<and> length d = length nominal
    \<and> (\<forall>j < length nominal. d ! j =
        (if j \<in> \<Union>(input_block ` set before) then redundancy ! j
         else if pdo \<le> j \<and> j < total_size then nominal ! j OR redundancy ! j
         else nominal ! j))"
proof -
  obtain d where d: "splice_inputs (before @ after) 0 wkc_redundancy nominal redundancy = Some d"
      "length d = length nominal"
      "\<forall>j < length nominal. d ! j = (if j \<in> \<Union>(input_block ` set before) then redundancy ! j else nominal ! j)"
    using splice_inputs_bytes [OF assms(10), of nominal redundancy 0 wkc_redundancy after] assms by auto
  obtain d' where d': "or_at d redundancy pdo (total_size - pdo) = Some d'" "length d' = length d"
      "\<forall>j < length d. d' ! j = (if pdo \<le> j \<and> j < pdo + (total_size - pdo) then d ! j OR redundancy ! j else d ! j)"
    using or_at_bytes [of pdo "total_size - pdo" d redundancy] assms d(2) by auto
  have low: "j < pdo" if "j \<in> \<Union>(input_block ` set before)" for j
    using that assms(10) by (auto simp: list_all_iff input_block_def wf_entry_def split: if_splits)
  have diff: "nat (int total_size - int pdo) = total_size - pdo" by simp
  have m: "mergeSplitLRW desc nominal redundancy wkc_nominal wkc_redundancy
      = (if pdo < total_size then Some d' else Some d)"
    using assms d(1) d'(1) by (simp add: mergeSplitLRW_def to_size_def diff)
  show ?thesis
  proof (cases "pdo < total_size")
    case True
    then show ?thesis
      using m d(2,3) d'(2,3) low by (intro exI [of _ d']) (auto dest: low)
  next
    case False
    then show ?thesis using m d(2,3) assms(7) by (intro exI [of _ d]) auto
  qed
qed

theorem mergeSplitLRW_rebuilds_witness:
  "mergeSplitLRW \<lparr>lf_address = 0, logical_size = 3, pdo_size = 2, lf_entries =
      [\<lparr>contribution = 1, input_offset = 0, input_size = 1\<rparr>, \<lparr>contribution = 3, input_offset = 1, input_size = 1\<rparr>]\<rparr>
     [0, 5, 1, 9] [7, 0, 2, 8] 3 1 = Some [7, 5, 3, 9]"
proof -
  let ?a = "\<lparr>contribution = 1, input_offset = 0, input_size = 1\<rparr> :: lf_entry"
  let ?b = "\<lparr>contribution = 3, input_offset = 1, input_size = 1\<rparr> :: lf_entry"
  let ?d = "\<lparr>lf_address = 0, logical_size = 3, pdo_size = 2, lf_entries = [?a, ?b]\<rparr>"
  obtain d where d: "mergeSplitLRW ?d [0, 5, 1, 9] [7, 0, 2, 8] 3 1 = Some d" "length d = 4"
      "\<forall>j < 4. d ! j = (if j \<in> \<Union>(input_block ` set [?a]) then [7, 0, 2, 8] ! j
         else if 2 \<le> j \<and> j < 3 then [0, 5, 1, 9] ! j OR [7, 0, 2, 8] ! j else [0, 5, 1, 9] ! j)"
    using mergeSplitLRW_rebuilds [of ?d "[?a]" "[?b]" 1 3 2 3 "[0, 5, 1, 9]" "[7, 0, 2, 8]"]
    by (auto simp: wf_entry_def)
  have "d ! 0 = 7" "d ! 1 = 5" "d ! 2 = 3" "d ! 3 = 9"
    using d(3) by (auto simp: input_block_def)
  then show ?thesis using d(1,2) by (auto simp: length_4)
qed

text \<open>Events are triggered by their rising edges only: after events have been checked against the
  word \<open>irq\<close>, checking them against \<open>irq'\<close> calls exactly the callbacks of the bits that are set in
  \<open>irq'\<close> and were clear in \<open>irq\<close>, in ascending order and once each (callbacks that throw aside).\<close>

theorem events_on_rising_edges:
  assumes "list_all silent (irqs l)" and "length (irqs l) = 16"
    and "checkEcatEvents irq l w = (x, l1, w1)"
  shows "x = None \<and> (\<exists>l2. checkEcatEvents irq' l1 w1 =
    (None, l2, fold (fire (irqs l)) (filter (\<lambda>i. bit irq' i \<and> \<not> bit irq i) [0..<16]) w1))"
proof -
  have l1: "x = None" "irqs l1 = map2 (armed_after irq) [0..<16] (irqs l)"
    using assms check_events_spec [OF assms(1), of irq w] by (auto simp: checkEcatEvents_def)
  have nth: "irqs l1 ! i = armed_after irq i (irqs l ! i)" if "i < 16" for i
    using that assms(2) l1(2) by simp
  have "list_all silent (irqs l1)" "length (irqs l1) = 16"
    using assms(1,2) nth l1(2) by (auto simp: list_all_length armed_after_def)
  note second = check_events_spec [OF this(1), of irq' w1, unfolded this(2)]
  have "filter (\<lambda>i. bit irq' i \<and> ev_armed (irqs l1 ! i)) [0..<16]
      = filter (\<lambda>i. bit irq' i \<and> \<not> bit irq i) [0..<16]"
    using nth by (intro filter_cong) (auto simp: armed_after_def)
  moreover have "fold (fire (irqs l1)) js v = fold (fire (irqs l)) js v" if "list_all (\<lambda>i. i < 16) js" for js v
    using that nth by (induction js arbitrary: v) (simp_all add: fire_def armed_after_def)
  ultimately show ?thesis
    using second l1(1) by (auto simp: checkEcatEvents_def list_all_iff)
qed

theorem events_on_rising_edges_witness:
  "\<exists>l2. checkEcatEvents 0x6 (fst (snd (checkEcatEvents 0x2 ((Link_new [] [])\<lparr>irqs :=
        replicate 16 \<lparr>ev_callback = (\<lambda>n. (None, Suc n)), ev_armed = True\<rparr>\<rparr>) 0))) 1 = (None, l2, 2)"
proof -
  let ?l = "(Link_new [] [])\<lparr>irqs := replicate 16 \<lparr>ev_callback = (\<lambda>n. (None, Suc n)), ev_armed = True\<rparr>\<rparr>"
  have c: "checkEcatEvents 0x2 ?l 0 = (None, fst (snd (checkEcatEvents 0x2 ?l 0)), 1)"
    by (simp add: checkEcatEvents_def Link_new_def numeral_eq_Suc Let_def bit_simps and_one_bit)
  have "filter (\<lambda>i. bit (0x6 :: u16) i \<and> \<not> bit (0x2 :: u16) i) [0..<16] = [2]"
    by (simp add: upt_positions bit_simps)
  then show ?thesis
    using events_on_rising_edges [OF _ _ c, of "0x6"] by (simp add: fire_def list_all_iff numeral_2_eq_2)
qed

end
