(* ===== verification/LinkExchange.thy ===== *)
theory LinkExchange
  imports LinkBehaviour
begin

text \<open>
  A whole cycle of the link: datagrams are added, sent in as many frames as they need, and
  processed when the frames come back.

  \<open>link_ok l ds\<close> is the invariant of a link that is being filled: \<open>ds\<close> are the datagrams of the
  frame in preparation. It holds for a new link and every operation keeps it. The network of the
  cycle is a ring on the nominal interface: what comes back is what was sent, transformed by a
  function on frames that keeps their structure.
\<close>

section \<open>Frames on the wire\<close>

definition wire_frame :: "bytes \<Rightarrow> dgram list \<Rightarrow> bool" where
  "wire_frame data ds \<longleftrightarrow>
     (\<exists>h. at data 14 (enc_ethercat_header h) \<and> length data = max 60 (16 + unat (eh_len h)))
     \<and> at data 12 (le16 ETH_ETHERCAT_TYPE) \<and> at data 16 (layout ds) \<and> chained ds
     \<and> list_all wf_dgram ds \<and> length data \<le> ETH_MAX_SIZE"

lemma setSourceMAC_select [simp]:
  "fr_next (setSourceMAC m f) = fr_next f" "fr_last (setSourceMAC m f) = fr_last f"
  "fr_counter (setSourceMAC m f) = fr_counter f" "fr_available (setSourceMAC m f) = fr_available f"
  by (simp_all add: setSourceMAC_def)

lemma length_setSourceMAC [simp]:
  "length (fr_data f) = 1518 \<Longrightarrow> length m = 6 \<Longrightarrow> length (fr_data (setSourceMAC m f)) = 1518"
  by (simp add: setSourceMAC_def)

lemma at_setSourceMAC:
  "at (fr_data f) off xs \<Longrightarrow> 12 \<le> off \<Longrightarrow> length m = 6 \<Longrightarrow> at (fr_data (setSourceMAC m f)) off xs"
  by (auto simp: setSourceMAC_def dest: at_bound intro!: at_poke_disjoint)

lemma carries_clear:
  assumes "length (fr_data f) = 1518" and "at (fr_data f) 12 (le16 ETH_ETHERCAT_TYPE)"
    and "fr_next f = Some 16" and "fr_last f = 16" and "fr_counter f = 0"
  shows "carries (clear f) []"
proof -
  have "frame_header (clear f) = (frame_header f)\<lparr>eh_len := 0\<rparr>"
    using assms by (simp add: clear_def)
  then show ?thesis
    using assms by (auto simp: carries_def clear_def intro!: at_before_set_frame_header)
qed

text \<open>The frame between \<open>finalize\<close> and \<open>clear\<close>: sealed, whatever its source address.\<close>

definition sealed :: "frame \<Rightarrow> nat \<Rightarrow> dgram list \<Rightarrow> bool" where
  "sealed g n ds \<longleftrightarrow> length (fr_data g) = 1518 \<and> at (fr_data g) 12 (le16 ETH_ETHERCAT_TYPE)
     \<and> at (fr_data g) 16 (layout ds) \<and> at (fr_data g) 14 (enc_ethercat_header (frame_header g))
     \<and> n = max 60 (16 + unat (eh_len (frame_header g))) \<and> 16 + length (layout ds) \<le> n \<and> n \<le> 1514
     \<and> chained ds \<and> list_all wf_dgram ds
     \<and> fr_next g = Some 16 \<and> fr_last g = 16 \<and> fr_counter g = 0 \<and> \<not> fr_available g"

lemma sealed_finalize:
  assumes c: "carries f ds" and ne: "ds \<noteq> []"
  shows "\<exists>n g. finalize f = Some (n, g) \<and> sealed g n (seal ds)"
proof -
  have eh: "unat (eh_len (frame_header f)) = length (layout ds)" and bound: "length (layout ds) \<le> 1498"
    using c by (simp_all add: carries_def)
  obtain g where g: "finalize f = Some (max 60 (16 + length (layout ds)), g)"
      "length (fr_data g) = ETH_MAX_SIZE" "at (fr_data g) 16 (layout (seal ds))"
      "at (fr_data g) 12 (le16 ETH_ETHERCAT_TYPE)" "fr_next g = Some 16" "fr_last g = 16"
      "fr_counter g = 0" "\<not> fr_available g" "frame_header g = frame_header f"
    using carries_finalize [OF assms] by (auto simp: at_append)
  have "at (fr_data g) 14 (enc_ethercat_header (frame_header g))"
    using at_frame_header [of "fr_data g" "frame_header g" g] g(2) by simp
  moreover have "chained (seal ds)" "list_all wf_dgram (seal ds)"
    using assms by (auto simp: carries_def intro!: chained_seal wf_seal)
  ultimately show ?thesis
    using g eh bound by (intro exI [of _ "max 60 (16 + length (layout ds))"] exI [of _ g]) (simp add: sealed_def)
qed

lemma sealed_MAC: "sealed g n ds \<Longrightarrow> length m = 6 \<Longrightarrow> sealed (setSourceMAC m g) n ds"
proof -
  assume g: "sealed g n ds" and m: "length m = 6"
  then have "frame_header (setSourceMAC m g) = frame_header g"
    by (intro frame_header_cong) (simp add: sealed_def setSourceMAC_def peek_poke_after)
  then show ?thesis using g m by (auto simp: sealed_def intro: at_setSourceMAC)
qed

lemma sealed_wire: "sealed g n ds \<Longrightarrow> wire_frame (take n (fr_data g)) ds \<and> length (take n (fr_data g)) = n"
  by (auto simp: sealed_def wire_frame_def eh.length_enc intro!: at_take)

lemma sealed_clear: "sealed g n ds \<Longrightarrow> carries (clear g) []"
  by (auto simp: sealed_def intro: carries_clear)

lemma clear_select [simp]:
  "fr_available (clear f) = fr_available f" "fr_next (clear f) = fr_next f"
  by (simp_all add: clear_def)

section \<open>The invariant of the link\<close>

definition slot_filled :: "'w callbacks \<Rightarrow> bool" where
  "slot_filled c \<longleftrightarrow> cb_process c \<noteq> None \<and> cb_error c \<noteq> None"

definition idle_frame :: "frame \<Rightarrow> bool" where
  "idle_frame f \<longleftrightarrow> length (fr_data f) = 1518 \<and> fr_next f = Some 16 \<and> \<not> fr_available f"

definition link_ok :: "'w link \<Rightarrow> dgram list \<Rightarrow> bool" where
  "link_ok l ds \<longleftrightarrow>
     carries (frame_nominal l) ds \<and> \<not> fr_available (frame_nominal l)
     \<and> idle_frame (frame_redundancy l)
     \<and> length (callbacks_of l) = 256 \<and> length (irqs l) = 16
     \<and> length ds \<le> unat (index_head l - index_queue l)
     \<and> list_all (\<lambda>i. slot_filled (callbacks_of l ! unat i)) (window (index_queue l) (index_head l))"

lemma idle_clear: "length (fr_data f) = 1518 \<Longrightarrow> idle_frame (resetContext (clear f))"
  by (simp add: idle_frame_def resetContext_def clear_def)

lemma link_ok_new: "link_ok (Link_new a b) []"
  using carries_new by (simp add: link_ok_def Link_new_def idle_frame_def carries_def Frame_new_def
      resetContext_def Let_def)

lemma write_on_sealed:
  assumes "sealed g n ds" and "length m = 6"
  shows "\<exists>sent w'. write_on s m n g w = Some (sent, setSourceMAC m g, w')
    \<and> (sent, w') = (let r = sk_write s (take n (fr_data (setSourceMAC m g))) w in (fst r = int n, snd r))"
  using sealed_MAC [OF assms] assms(2)
  by (auto simp: write_on_def sealed_def Let_def case_prod_beta peek_def)

lemma fold_set_status:
  "index_head (fold (\<lambda>i l. set_status st (f i l) l) is l) = index_head l"
  "index_queue (fold (\<lambda>i l. set_status st (f i l) l) is l) = index_queue l"
  "frame_nominal (fold (\<lambda>i l. set_status st (f i l) l) is l) = frame_nominal l"
  "frame_redundancy (fold (\<lambda>i l. set_status st (f i l) l) is l) = frame_redundancy l"
  "irqs (fold (\<lambda>i l. set_status st (f i l) l) is l) = irqs l"
  "length (callbacks_of (fold (\<lambda>i l. set_status st (f i l) l) is l)) = length (callbacks_of l)"
  by (induction "is" arbitrary: l) (simp_all add: set_status_def)

lemma fold_set_status_filled:
  "slot_filled (callbacks_of (fold (\<lambda>i l. set_status st (f i l) l) is l) ! k) \<longleftrightarrow> slot_filled (callbacks_of l ! k)"
proof (induction "is" arbitrary: l)
  case (Cons i "is")
  have "slot_filled (callbacks_of (set_status st (f i l) l) ! k) \<longleftrightarrow> slot_filled (callbacks_of l ! k)"
    by (cases "unat (f i l) < length (callbacks_of l)")
      (auto simp: set_status_def slot_filled_def nth_list_update list_update_beyond)
  then show ?case using Cons by simp
qed simp

text \<open>What \<open>sendFrame\<close> hands to the two sockets, and the link it leaves.\<close>

lemma sendFrame_detail:
  assumes "link_ok l ds" and "ds \<noteq> []"
  obtains n d1 d2 f where "wire_frame d1 (seal ds)" "length d1 = n" "wire_frame d2 (seal ds)" "length d2 = n"
    and "link_ok (l\<lparr>frame_nominal := f, frame_redundancy := resetContext (clear (frame_redundancy l))\<rparr>) []"
    and "\<And>w r1 w1 r2 w2. sk_write (socket_nominal e) d1 w = (r1, w1)
      \<Longrightarrow> sk_write (socket_redundancy e) d2 w1 = (r2, w2)
      \<Longrightarrow> sendFrame e l w = (let l' = l\<lparr>frame_nominal := f,
             frame_redundancy := resetContext (clear (frame_redundancy l))\<rparr>
           in Some (if r1 = int n \<or> r2 = int n then l'\<lparr>sent_frame := sent_frame l + 1\<rparr>
              else fold (\<lambda>i l. set_status SEND_ERROR (index_head l - of_nat i - 1) l) [0..<length ds] l', w2))"
proof -
  have c: "carries (frame_nominal l) ds" using assms by (simp add: link_ok_def)
  obtain n g where g: "finalize (frame_nominal l) = Some (n, g)" "sealed g n (seal ds)"
    using sealed_finalize [OF c assms(2)] by blast
  let ?g1 = "setSourceMAC PRIMARY_IF_MAC g" and ?g2 = "setSourceMAC SECONDARY_IF_MAC (setSourceMAC PRIMARY_IF_MAC g)"
  have g1: "sealed ?g1 n (seal ds)" and g2: "sealed ?g2 n (seal ds)"
    using sealed_MAC [OF g(2)] sealed_MAC [of ?g1 n "seal ds" SECONDARY_IF_MAC] by simp_all
  have "idle_frame (resetContext (clear (frame_redundancy l)))"
    using assms(1) by (intro idle_clear) (simp add: link_ok_def idle_frame_def)
  moreover have "\<not> fr_available g" using g(2) by (simp add: sealed_def)
  ultimately have ok: "link_ok (l\<lparr>frame_nominal := clear ?g2,
      frame_redundancy := resetContext (clear (frame_redundancy l))\<rparr>) []"
    using assms sealed_clear [OF g2] by (simp add: link_ok_def)
  show thesis
  proof (rule that [OF _ _ _ _ ok])
    show "wire_frame (take n (fr_data ?g1)) (seal ds)" "length (take n (fr_data ?g1)) = n"
      "wire_frame (take n (fr_data ?g2)) (seal ds)" "length (take n (fr_data ?g2)) = n"
      using sealed_wire [OF g1] sealed_wire [OF g2] by simp_all
    fix w r1 w1 r2 w2
    assume w: "sk_write (socket_nominal e) (take n (fr_data ?g1)) w = (r1, w1)"
      "sk_write (socket_redundancy e) (take n (fr_data ?g2)) w1 = (r2, w2)"
    have "write_on (socket_nominal e) PRIMARY_IF_MAC n g w = Some (r1 = int n, ?g1, w1)"
      using write_on_sealed [OF g(2), of PRIMARY_IF_MAC "socket_nominal e" w] w(1) by (auto simp: Let_def)
    moreover have "write_on (socket_redundancy e) SECONDARY_IF_MAC n ?g1 w1 = Some (r2 = int n, ?g2, w2)"
      using write_on_sealed [OF g1, of SECONDARY_IF_MAC "socket_redundancy e" w1] w(2) by (auto simp: Let_def)
    moreover have "fr_counter (frame_nominal l) = length ds" using c by (simp add: carries_def)
    ultimately show "sendFrame e l w = (let l' = l\<lparr>frame_nominal := clear ?g2,
             frame_redundancy := resetContext (clear (frame_redundancy l))\<rparr>
           in Some (if r1 = int n \<or> r2 = int n then l'\<lparr>sent_frame := sent_frame l + 1\<rparr>
              else fold (\<lambda>i l. set_status SEND_ERROR (index_head l - of_nat i - 1) l) [0..<length ds] l', w2))"
      using g(1) unfolding sendFrame_def Let_def by simp
  qed
qed

lemma link_ok_marked:
  "link_ok l [] \<Longrightarrow> link_ok (fold (\<lambda>i l. set_status st (f i l) l) js l) []"
  by (simp add: link_ok_def fold_set_status fold_set_status_filled)

lemma sendFrame_ok:
  assumes "link_ok l ds" and "ds \<noteq> []"
  shows "\<exists>l' w'. sendFrame e l w = Some (l', w') \<and> link_ok l' []
    \<and> index_head l' = index_head l \<and> index_queue l' = index_queue l"
proof (rule sendFrame_detail [OF assms, where e = e])
  fix n d1 d2 f
  assume ok: "link_ok (l\<lparr>frame_nominal := f,
        frame_redundancy := resetContext (clear (frame_redundancy l))\<rparr>) []"
    and send: "\<And>w r1 w1 r2 w2. sk_write (socket_nominal e) d1 w = (r1, w1)
      \<Longrightarrow> sk_write (socket_redundancy e) d2 w1 = (r2, w2)
      \<Longrightarrow> sendFrame e l w = (let l' = l\<lparr>frame_nominal := f,
             frame_redundancy := resetContext (clear (frame_redundancy l))\<rparr>
           in Some (if r1 = int n \<or> r2 = int n then l'\<lparr>sent_frame := sent_frame l + 1\<rparr>
              else fold (\<lambda>i l. set_status SEND_ERROR (index_head l - of_nat i - 1) l) [0..<length ds] l', w2))"
  obtain r1 w1 r2 w2 where "sk_write (socket_nominal e) d1 w = (r1, w1)"
      "sk_write (socket_redundancy e) d2 w1 = (r2, w2)" by fastforce
  note sent = send [OF this]
  show ?thesis
  proof (cases "r1 = int n \<or> r2 = int n")
    case True
    then show ?thesis using sent ok by (simp add: link_ok_def)
  next
    case False
    then show ?thesis
      using sent link_ok_marked [OF ok, of SEND_ERROR "\<lambda>i l. index_head l - of_nat i - 1"]
      by (simp add: fold_set_status)
  qed
qed

section \<open>Filling a link\<close>

record 'w ask =
  a_command :: Command
  a_address :: u32
  a_data :: "bytes option"
  a_size :: u16
  a_process :: "'w process"
  a_error :: "'w on_error"

definition good_ask :: "'w ask \<Rightarrow> bool" where
  "good_ask r \<longleftrightarrow> payload_of (a_command r) (a_data r) (a_size r) \<noteq> None \<and> unat (a_size r) \<le> 1486"

definition ask_on :: "'w link_env \<Rightarrow> 'w ask \<Rightarrow> 'w link \<Rightarrow> 'w \<Rightarrow> (string option \<times> 'w link \<times> 'w) option" where
  "ask_on e r l w = Link_addDatagram e (a_command r) (a_address r) (a_data r) (a_size r) (a_process r) (a_error r) l w"

fun ask_all :: "'w link_env \<Rightarrow> 'w ask list \<Rightarrow> 'w link \<Rightarrow> 'w \<Rightarrow> (string option \<times> 'w link \<times> 'w) option" where
  "ask_all e [] l w = Some (None, l, w)"
| "ask_all e (r # rs) l w = do {
     (x, l, w) \<leftarrow> ask_on e r l w;
     if x \<noteq> None then Some (x, l, w) else ask_all e rs l w
   }"

definition asked :: "'w ask \<Rightarrow> frame \<Rightarrow> 'w link \<Rightarrow> 'w link" where
  "asked r f l = l\<lparr>frame_nominal := f,
     callbacks_of := (callbacks_of l)[unat (index_head l) :=
       \<lparr>cb_status = LOST, cb_process = Some (a_process r), cb_error = Some (a_error r)\<rparr>],
     index_head := index_head l + 1\<rparr>"

abbreviation request_of :: "u8 \<Rightarrow> 'w ask \<Rightarrow> request" where
  "request_of index r \<equiv> (index, a_command r, a_address r, a_data r, a_size r)"

lemma datagram_size_unat: "unat n \<le> 1486 \<Longrightarrow> unat (datagram_size n) = 12 + unat n"
  by (simp add: datagram_size_def unat_word_ariths)

text \<open>
  The contract between the operations that fill a link and a network: \<open>inv rs l ds w\<close> says that
  the asks \<open>rs\<close> are in flight and \<open>ds\<close> are the datagrams not sent yet. Sending empties the frame
  and appending adds one ask; then any number of asks up to 255 is accepted.
\<close>

locale link_filling =
  fixes e :: "'w link_env"
    and inv :: "'w ask list \<Rightarrow> 'w link \<Rightarrow> dgram list \<Rightarrow> 'w \<Rightarrow> bool"
  assumes inv_ok: "inv rs l ds w \<Longrightarrow> link_ok l ds"
    and inv_window: "inv rs l ds w \<Longrightarrow> unat (index_head l - index_queue l) = length rs"
    and inv_send: "inv rs l ds w \<Longrightarrow> ds \<noteq> [] \<Longrightarrow> \<exists>l' w'. sendFrame e l w = Some (l', w') \<and> inv rs l' [] w'"
    and inv_append: "inv rs l ds w \<Longrightarrow> length rs < 255 \<Longrightarrow> carries f (ds @ [d]) \<Longrightarrow> \<not> fr_available f
      \<Longrightarrow> answers (request_of (index_head l) r) d \<Longrightarrow> inv (rs @ [r]) (asked r f l) (ds @ [d]) w"
begin

lemma ask_step:
  assumes "inv rs l ds w" and "length rs < 255" and "good_ask r"
    and fit: "length (layout ds) + 12 + unat (a_size r) \<le> 1498"
  shows "\<exists>f d. addDatagramToFrame (index_head l) (a_command r) (a_address r) (a_data r) (a_size r) l
      = Some (l\<lparr>frame_nominal := f\<rparr>) \<and> carries f (ds @ [d])
    \<and> inv (rs @ [r]) (asked r f l) (ds @ [d]) w"
proof -
  have ok: "link_ok l ds" using inv_ok [OF assms(1)] .
  obtain p where p: "payload_of (a_command r) (a_data r) (a_size r) = Some p"
    using assms(3) by (auto simp: good_ask_def)
  let ?d = "\<lparr>d_header = added_header (frame_nominal l) (index_head l) (a_command r) (a_address r) (a_size r),
      d_payload = p, d_wkc = 0\<rparr>"
  obtain f where f: "addDatagram (index_head l) (a_command r) (a_address r) (a_data r) (a_size r) (frame_nominal l)
      = Some f" "carries f (ds @ [?d])"
    using carries_add [OF _ p fit, of "frame_nominal l" "index_head l" "a_address r"] ok
    by (auto simp: link_ok_def)
  have "fr_available f = fr_available (frame_nominal l)"
    using f(1) by (auto simp: addDatagram_def Let_def bind_eq_Some_conv)
  moreover have "answers (request_of (index_head l) r) ?d"
    using p fit by (simp add: added_header_def len_field)
  ultimately have "inv (rs @ [r]) (asked r f l) (ds @ [?d]) w"
    using inv_append [OF assms(1,2) f(2)] ok by (simp add: link_ok_def)
  then show ?thesis using f by (auto simp: addDatagramToFrame_def)
qed

lemma ask_accepted:
  assumes i: "inv rs l ds w" and n: "length rs < 255" and r: "good_ask r"
  shows "\<exists>l' ds' w'. ask_on e r l w = Some (None, l', w') \<and> inv (rs @ [r]) l' ds' w'"
proof -
  have ok: "link_ok l ds" using inv_ok [OF i] .
  have space: "freeSpace (frame_nominal l) = Some (1498 - int (length (layout ds)))"
    using ok carries_freeSpace by (simp add: link_ok_def)
  have need: "unat (datagram_size (a_size r)) = 12 + unat (a_size r)" "unat (a_size r) \<le> 1486"
    using r datagram_size_unat by (auto simp: good_ask_def)
  have room: "index_queue l \<noteq> index_head l + 1"
  proof
    assume "index_queue l = index_head l + 1"
    then have "index_head l - index_queue l = - 1" by simp
    moreover have "unat (- 1 :: u8) = 255" by (simp add: unsigned_minus_1_eq_mask mask_eq_exp_minus_1)
    ultimately show False using inv_window [OF i] n by simp
  qed
  obtain l1 ds1 w1 where 1: "(if 1498 - int (length (layout ds)) < int (12 + unat (a_size r))
        then sendFrame e l w else Some (l, w)) = Some (l1, w1)" "inv rs l1 ds1 w1"
      "length (layout ds1) + 12 + unat (a_size r) \<le> 1498"
  proof (cases "1498 - int (length (layout ds)) < int (12 + unat (a_size r))")
    case True
    moreover have "int (12 + unat (a_size r)) \<le> 1498" using need(2) by linarith
    ultimately have "ds \<noteq> []" by (cases ds) auto
    then show thesis using inv_send [OF i] True need that [of _ _ "[]"] by auto
  next
    case False
    then have "length (layout ds) + 12 + unat (a_size r) \<le> 1498" by linarith
    then show thesis using i that [of l w ds] unfolding if_not_P [OF False] by blast
  qed
  obtain f d where 2: "addDatagramToFrame (index_head l1) (a_command r) (a_address r) (a_data r) (a_size r) l1
      = Some (l1\<lparr>frame_nominal := f\<rparr>)" "carries f (ds1 @ [d])" "inv (rs @ [r]) (asked r f l1) (ds1 @ [d]) w1"
    using ask_step [OF 1(2) n r 1(3)] by blast
  obtain full where full: "isFull f = Some full"
    using carries_freeSpace [OF 2(2)] by (cases "15 \<le> fr_counter f") (simp_all add: isFull_def)
  obtain l2 ds2 w2 where 3: "(if full then sendFrame e (asked r f l1) w1 else Some (asked r f l1, w1)) = Some (l2, w2)"
      "inv (rs @ [r]) l2 ds2 w2"
    using inv_send [OF 2(3)] 2(3) by (cases full) auto
  have "ask_on e r l w = Some (None, l2, w2)"
    using room space need(1) 1(1) 2(1) full 3(1)
    unfolding ask_on_def Link_addDatagram_def Let_def asked_def by (cases full) simp_all
  then show ?thesis using 3(2) by blast
qed

lemma ask_all_accepted:
  "inv rs l ds w \<Longrightarrow> length rs + length qs \<le> 255 \<Longrightarrow> list_all good_ask qs
    \<Longrightarrow> \<exists>l' ds' w'. ask_all e qs l w = Some (None, l', w') \<and> inv (rs @ qs) l' ds' w'"
proof (induction qs arbitrary: rs l ds w)
  case (Cons r qs)
  then obtain l1 ds1 w1 where "ask_on e r l w = Some (None, l1, w1)" "inv (rs @ [r]) l1 ds1 w1"
    using ask_accepted [of rs l ds w r] by auto
  then show ?case using Cons.IH [of "rs @ [r]" l1 ds1 w1] Cons.prems by simp
qed auto

end


lemma window_snoc:
  assumes "unat (head - queue :: u8) < 255"
  shows "window queue (head + 1) = window queue head @ [head]"
    and "unat (head + 1 - queue) = Suc (unat (head - queue))"
proof -
  have "unat ((head - queue) + 1) = unat (head - queue) + 1"
    using assms by (subst unat_add_small) simp_all
  then show n: "unat (head + 1 - queue) = Suc (unat (head - queue))" by (simp add: algebra_simps)
  show "window queue (head + 1) = window queue head @ [head]"
    unfolding window_def n by simp
qed

lemma window_mem_unat: "i \<in> set (window queue head) \<Longrightarrow> unat (i - queue) < unat (head - queue)"
  using mem_window [of i "undefined\<lparr>index_queue := queue, index_head := head\<rparr>"]
  by (simp add: isStale_def word_less_nat_alt not_le)

lemma head_not_in_window: "head \<notin> set (window queue head)"
  using window_mem_unat by blast

lemma link_ok_asked:
  assumes "link_ok l ds" and "unat (index_head l - index_queue l) < 255"
    and "carries f (ds @ [d])" and "\<not> fr_available f"
  shows "link_ok (asked r f l) (ds @ [d])"
proof -
  have "unat i \<noteq> unat (index_head l)" if "i \<in> set (window (index_queue l) (index_head l))" for i
    using that head_not_in_window unsigned_word_eqI by blast
  moreover have "unat (index_head l) < 256" using unsigned_less [of "index_head l", where ?'a = nat] by simp
  ultimately show ?thesis
    using assms window_snoc [OF assms(2)]
    by (auto simp: link_ok_def asked_def list_all_iff slot_filled_def nth_list_update)
qed

text \<open>Whatever the sockets do, filling a link keeps its invariant.\<close>

interpretation any_net: link_filling e
  "\<lambda>rs l ds w. link_ok l ds \<and> unat (index_head l - index_queue l) = length rs" for e
proof unfold_locales
  fix rs :: "'a ask list" and l :: "'a link" and ds and w :: 'a
  assume "link_ok l ds \<and> unat (index_head l - index_queue l) = length rs" and "ds \<noteq> []"
  then show "\<exists>l' w'. sendFrame e l w = Some (l', w')
      \<and> link_ok l' [] \<and> unat (index_head l' - index_queue l') = length rs"
    using sendFrame_ok [of l ds e w] by auto
next
  fix rs :: "'a ask list" and l :: "'a link" and ds and w :: 'a and f d and r :: "'a ask"
  assume "link_ok l ds \<and> unat (index_head l - index_queue l) = length rs" "length rs < 255"
    "carries f (ds @ [d])" "\<not> fr_available f" "answers (request_of (index_head l) r) d"
  then show "link_ok (asked r f l) (ds @ [d])
      \<and> unat (index_head (asked r f l) - index_queue (asked r f l)) = length (rs @ [r])"
    using link_ok_asked [of l ds f d r] window_snoc(2) [of "index_head l" "index_queue l"] by (simp add: asked_def)
qed auto

section \<open>Receiving the frames of a cycle\<close>

lemma readFrame_wire:
  assumes "wire_frame data ds" and "idle_frame f"
  obtains g where "readFrame (int (length data)) data f = Some (int (length data), g)"
    and "at (fr_data g) 16 (layout ds)" and "fr_next g = Some 16" and "fr_available g"
    and "length (fr_data g) = 1518"
proof -
  obtain h where h: "at data 14 (enc_ethercat_header h)" "length data = max 60 (16 + unat (eh_len h))"
    and ty: "at data 12 (le16 ETH_ETHERCAT_TYPE)" and ds: "at data 16 (layout ds)" and len: "length data \<le> 1518"
    using assms(1) by (auto simp: wire_frame_def)
  have f: "length (fr_data f) = 1518" "fr_next f = Some 16" using assms(2) by (simp_all add: idle_frame_def)
  let ?b = "poke (fr_data f) 0 data"
  let ?g = "setIsDatagramAvailable (clear (f\<lparr>fr_data := ?b\<rparr>))"
  have hdr: "frame_header (f\<lparr>fr_data := ?b\<rparr>) = h"
    using at_poke_start [OF h(1), of "fr_data f"] f len at_frame_header by auto
  have "get16 ?b 12 = ETH_ETHERCAT_TYPE"
    using at_peek [OF at_poke_start [OF ty, of "fr_data f"]] f len by simp
  then have "readFrame (int (length data)) data f = Some (int (length data), ?g)"
    using f len h(2) hdr by (auto simp: readFrame_def Let_def max_def)
  moreover have "at (fr_data ?g) 16 (layout ds)"
    using at_poke_start [OF ds, of "fr_data f"] f len
    by (auto simp: setIsDatagramAvailable_def clear_def intro!: at_set_frame_header)
  ultimately show thesis
    using f len by (intro that [of ?g]) (simp_all add: setIsDatagramAvailable_def clear_def)
qed

text \<open>
  What dispatching one datagram does to the slots: its \<open>process\<close> callback runs on its header, data
  and working counter, and gives the slot its status.
\<close>

definition settle :: "dgram \<Rightarrow> u16 \<times> 'w callbacks list \<times> 'w \<Rightarrow> u16 \<times> 'w callbacks list \<times> 'w" where
  "settle d = (\<lambda>(irq, cbs, w).
     let i = unat (dg_index (d_header d));
         (st, w) = the (cb_process (cbs ! i)) (d_header d) (d_payload d) (d_wkc d) w
     in (irq OR dg_irq (d_header d), cbs[i := (cbs ! i)\<lparr>cb_status := st\<rparr>], w))"

abbreviation slot_of :: "dgram \<Rightarrow> nat" where "slot_of d \<equiv> unat (dg_index (d_header d))"

definition waiting :: "'w callbacks list \<Rightarrow> dgram \<Rightarrow> bool" where
  "waiting cbs d \<longleftrightarrow> slot_of d < length cbs \<and> cb_status (cbs ! slot_of d) \<noteq> OK \<and> cb_process (cbs ! slot_of d) \<noteq> None"

lemma settle_others:
  assumes "slot_of e \<noteq> slot_of d"
  shows "waiting (fst (snd (settle d (irq, cbs, w)))) e \<longleftrightarrow> waiting cbs e"
  using assms by (simp add: settle_def waiting_def Let_def case_prod_beta)

lemma dispatch_waiting:
  assumes "\<not> isStale (dg_index (d_header d)) l" and "waiting (callbacks_of l) d"
  shows "dispatch d irq stale l w = (let (irq, cbs, w) = settle d (irq, callbacks_of l, w)
    in Some (irq, stale, l\<lparr>callbacks_of := cbs\<rparr>, w))"
  using assms by (auto simp: dispatch_def settle_def waiting_def set_status_def Let_def case_prod_beta)

lemma drain_settles:
  assumes "chained ds" and "list_all wf_dgram ds" and "at (fr_data (frame_redundancy l)) pos (layout ds)"
    and "fr_next (frame_redundancy l) = Some pos" and "fr_available (frame_redundancy l)"
    and "\<not> fr_available (frame_nominal l)"
    and "list_all (\<lambda>d. \<not> isStale (dg_index (d_header d)) l) ds" and "distinct (map slot_of ds)"
    and "list_all (waiting (callbacks_of l)) ds"
  shows "drain_link irq False False l w = (let (irq, cbs, w) = fold settle ds (irq, callbacks_of l, w)
    in Some (irq, False, False, l\<lparr>callbacks_of := cbs,
         frame_redundancy := resetContext (frame_redundancy l)\<rparr>, w))"
  using assms
proof (induction ds arbitrary: l pos irq w rule: chained.induct)
  case (2 d)
  have d: "at (fr_data (frame_redundancy l)) pos (enc_dgram d)" "wf_dgram d" using "2.prems" by simp_all
  note next_d = nextDatagram_at [OF "2.prems"(4) this]
  let ?l = "l\<lparr>frame_redundancy := resetContext (frame_redundancy l)\<rparr>"
  have ptr: "pointed (resetContext (frame_redundancy l)) pos (pos + 10) (d_wkc d) = d"
    using next_d(2,3) by (simp add: pointed_def datagram_at_def resetContext_def)
  have n: "Link_nextDatagram l = Some (d, False, ?l)"
    using "2.prems" next_d(1) ptr by (simp add: Link_nextDatagram_def Let_def)
  obtain irq' cbs' w' where s: "settle d (irq, callbacks_of l, w) = (irq', cbs', w')" by (cases "settle d (irq, callbacks_of l, w)")
  have p: "dispatch d irq False ?l w = Some (irq', False, ?l\<lparr>callbacks_of := cbs'\<rparr>, w')"
    using "2.prems" s dispatch_waiting [of d ?l] by (simp add: isStale_def)
  have stop: "\<not> Link_isDatagramAvailable (?l\<lparr>callbacks_of := cbs'\<rparr>)"
    using "2.prems" by (simp add: Link_isDatagramAvailable_def resetContext_def)
  show ?case
    using "2.prems" n p s stop
    by (subst drain_link.simps) (simp add: Link_isDatagramAvailable_def drain_link.simps [of irq'])
next
  case (3 d e es)
  let ?g = "(frame_redundancy l)\<lparr>fr_next := Some (pos + length (enc_dgram d))\<rparr>"
  have d: "at (fr_data (frame_redundancy l)) pos (enc_dgram d)" "wf_dgram d"
    using "3.prems" by (simp_all add: at_append)
  note next_d = nextDatagram_at [OF "3.prems"(4) this]
  let ?l = "l\<lparr>frame_redundancy := ?g\<rparr>"
  have ptr: "pointed ?g pos (pos + 10) (d_wkc d) = d"
    using next_d(2,3) by (simp add: pointed_def datagram_at_def)
  have n: "Link_nextDatagram l = Some (d, False, ?l)"
    using "3.prems" next_d(1) ptr by (simp add: Link_nextDatagram_def Let_def)
  obtain irq' cbs' w' where s: "settle d (irq, callbacks_of l, w) = (irq', cbs', w')" by (cases "settle d (irq, callbacks_of l, w)")
  let ?m = "?l\<lparr>callbacks_of := cbs'\<rparr>"
  have p: "dispatch d irq False ?l w = Some (irq', False, ?m, w')"
    using "3.prems" s dispatch_waiting [of d ?l] by (simp add: isStale_def)
  have "slot_of x \<noteq> slot_of d" if "x \<in> set (e # es)" for x
    using that "3.prems"(8) by (auto simp: image_iff)
  then have "list_all (waiting cbs') (e # es)"
    using "3.prems"(9) settle_others [of _ d irq "callbacks_of l" w] s by (auto simp: list_all_iff)
  then have "drain_link irq' False False ?m w' = (let (irq, cbs, w) = fold settle (e # es) (irq', callbacks_of ?m, w')
      in Some (irq, False, False, ?m\<lparr>callbacks_of := cbs,
           frame_redundancy := resetContext (frame_redundancy ?m)\<rparr>, w))"
    using "3.prems" by (intro "3.IH" [where pos = "pos + length (enc_dgram d)"])
      (simp_all add: at_append isStale_def)
  moreover have "resetContext ?g = resetContext (frame_redundancy l)" by (simp add: resetContext_def)
  ultimately show ?case
    using "3.prems"(5) n p s
    by (subst drain_link.simps) (simp add: Link_isDatagramAvailable_def Let_def case_prod_beta)
qed simp


section \<open>A ring on the nominal interface\<close>

text \<open>
  The environment holds the frames on their way back and the state of the application. Writing
  puts the frame through the ring; reading takes the oldest one, or times out.
\<close>

type_synonym 'a net = "bytes list \<times> 'a"

definition ring_socket :: "(bytes \<Rightarrow> bytes) \<Rightarrow> 'a net socket" where
  "ring_socket ring = \<lparr>sk_write = (\<lambda>data (q, a). (int (length data), (q @ [ring data], a))),
     sk_read = (\<lambda>(q, a). case q of [] \<Rightarrow> ((- 11, []), (q, a)) | d # ds \<Rightarrow> ((int (length d), d), (ds, a))),
     sk_setTimeout = (\<lambda>t w. w)\<rparr>"

definition ring_env :: "(bytes \<Rightarrow> bytes) \<Rightarrow> int \<Rightarrow> 'a net link_env" where
  "ring_env ring t = \<lparr>socket_nominal = ring_socket ring, socket_redundancy = SocketNull,
     env_now = (\<lambda>w. (t, w)), redundancyActivated = id\<rparr>"

text \<open>The slaves answer each datagram in place: the frame keeps its structure and the indices.\<close>

definition ring_like :: "(bytes \<Rightarrow> bytes) \<Rightarrow> (dgram \<Rightarrow> dgram) \<Rightarrow> bool" where
  "ring_like ring respond \<longleftrightarrow>
     (\<forall>data ds. wire_frame data ds \<longrightarrow> wire_frame (ring data) (map respond ds))
     \<and> (\<forall>d. dg_index (d_header (respond d)) = dg_index (d_header d))"

text \<open>A callback of the application sees its own state, not the frames on the wire.\<close>

definition lift_process :: "'a process \<Rightarrow> 'a net process" where
  "lift_process p h d wkc = (\<lambda>(q, a). (fst (p h d wkc a), (q, snd (p h d wkc a))))"

definition numbered :: "u8 \<Rightarrow> 'w ask list \<Rightarrow> request list" where
  "numbered queue rs = map (\<lambda>k. request_of (queue + of_nat k) (rs ! k)) [0..<length rs]"

definition slot_for :: "'w ask \<Rightarrow> 'w callbacks" where
  "slot_for r = \<lparr>cb_status = LOST, cb_process = Some (a_process r), cb_error = Some (a_error r)\<rparr>"

definition ring_inv :: "(dgram \<Rightarrow> dgram) \<Rightarrow> 'a \<Rightarrow> 'a net ask list \<Rightarrow> 'a net link \<Rightarrow> dgram list \<Rightarrow> 'a net \<Rightarrow> bool" where
  "ring_inv respond a rs l ds w \<longleftrightarrow>
     link_ok l ds \<and> unat (index_head l - index_queue l) = length rs \<and> snd w = a
     \<and> (\<exists>dss. list_all2 (\<lambda>fr es. wire_frame fr (map respond (seal es))) (fst w) dss
          \<and> list_all (\<lambda>es. es \<noteq> []) dss \<and> sent_frame l = of_nat (length dss)
          \<and> list_all2 answers (numbered (index_queue l) rs) (concat dss @ ds))
     \<and> (\<forall>k < length rs. callbacks_of l ! unat (index_queue l + of_nat k) = slot_for (rs ! k))"

lemma numbered_snoc: "numbered q (rs @ [r]) = numbered q rs @ [request_of (q + of_nat (length rs)) r]"
  by (simp add: numbered_def nth_append)

lemma window_end:
  assumes "unat (head - queue :: u8) = n" shows "queue + of_nat n = head"
  unfolding assms [symmetric] by simp

lemma ring_inv_send:
  assumes ring: "ring_like ring respond" and i: "ring_inv respond a rs l ds w" and ne: "ds \<noteq> []"
  shows "\<exists>l' w'. sendFrame (ring_env ring t) l w = Some (l', w') \<and> ring_inv respond a rs l' [] w'
    \<and> index_queue l' = index_queue l \<and> index_head l' = index_head l \<and> callbacks_of l' = callbacks_of l"
proof -
  have ok: "link_ok l ds" using i by (simp add: ring_inv_def)
  obtain q where w: "w = (q, a)" using i by (cases w) (simp add: ring_inv_def)
  obtain dss where dss: "list_all2 (\<lambda>fr es. wire_frame fr (map respond (seal es))) q dss"
      "list_all (\<lambda>es. es \<noteq> []) dss" "sent_frame l = of_nat (length dss)"
      "list_all2 answers (numbered (index_queue l) rs) (concat dss @ ds)"
    using i by (auto simp: ring_inv_def w)
  show ?thesis
  proof (rule sendFrame_detail [OF ok ne, where e = "ring_env ring t"])
    fix n d1 d2 f
    let ?l = "l\<lparr>frame_nominal := f, frame_redundancy := resetContext (clear (frame_redundancy l))\<rparr>"
    assume d1: "wire_frame d1 (seal ds)" "length d1 = n" and d2: "length d2 = n" and ok': "link_ok ?l []"
      and send: "\<And>w r1 w1 r2 w2. sk_write (socket_nominal (ring_env ring t)) d1 w = (r1, w1)
        \<Longrightarrow> sk_write (socket_redundancy (ring_env ring t)) d2 w1 = (r2, w2)
        \<Longrightarrow> sendFrame (ring_env ring t) l w = (let l' = ?l
           in Some (if r1 = int n \<or> r2 = int n then l'\<lparr>sent_frame := sent_frame l + 1\<rparr>
              else fold (\<lambda>i l. set_status SEND_ERROR (index_head l - of_nat i - 1) l) [0..<length ds] l', w2))"
    let ?l' = "?l\<lparr>sent_frame := sent_frame l + 1\<rparr>"
    have "sendFrame (ring_env ring t) l w = Some (?l', (q @ [ring d1], a))"
      using send [of w "int n" "(q @ [ring d1], a)" "int n" "(q @ [ring d1], a)"] d1 d2
      by (simp add: ring_env_def ring_socket_def SocketNull_def w)
    moreover have "wire_frame (ring d1) (map respond (seal ds))"
      using ring d1(1) by (simp add: ring_like_def)
    then have "ring_inv respond a rs ?l' [] (q @ [ring d1], a)"
      using ok' i dss ne
      by (auto simp: ring_inv_def link_ok_def intro!: exI [of _ "dss @ [ds]"] list_all2_appendI)
    ultimately show ?thesis by (intro exI [of _ ?l'] exI [of _ "(q @ [ring d1], a)"]) simp
  qed
qed

lemma ring_inv_append:
  assumes i: "ring_inv respond a rs l ds w" and n: "length rs < 255"
    and f: "carries f (ds @ [d])" "\<not> fr_available f" and d: "answers (request_of (index_head l) r) d"
  shows "ring_inv respond a (rs @ [r]) (asked r f l) (ds @ [d]) w"
proof -
  have ok: "link_ok l ds" and win: "unat (index_head l - index_queue l) = length rs"
    using i by (simp_all add: ring_inv_def)
  have head: "index_queue l + of_nat (length rs) = index_head l" using window_end [OF win] .
  have ok': "link_ok (asked r f l) (ds @ [d])" using link_ok_asked [OF ok _ f] win n by simp
  have slots: "callbacks_of (asked r f l) ! unat (index_queue l + of_nat k) = slot_for ((rs @ [r]) ! k)"
    if "k < Suc (length rs)" for k
  proof (cases "k = length rs")
    case True
    have "unat (index_head l) < length (callbacks_of l)"
      using ok unsigned_less [of "index_head l", where ?'a = nat] by (simp add: link_ok_def)
    then show ?thesis using True head by (simp add: asked_def slot_for_def nth_append)
  next
    case False
    then have k: "k < length rs" using that by simp
    then have "index_queue l + of_nat k \<in> set (window (index_queue l) (index_head l))"
      using win by (auto simp: window_def)
    then have "unat (index_queue l + of_nat k) \<noteq> unat (index_head l)"
      using head_not_in_window unsigned_word_eqI by metis
    then show ?thesis using i k by (simp add: asked_def ring_inv_def nth_append)
  qed
  obtain dss where "list_all2 (\<lambda>fr es. wire_frame fr (map respond (seal es))) (fst w) dss"
      "list_all (\<lambda>es. es \<noteq> []) dss" "sent_frame l = of_nat (length dss)"
      "list_all2 answers (numbered (index_queue l) rs) (concat dss @ ds)"
    using i by (auto simp: ring_inv_def)
  moreover have "list_all2 answers (numbered (index_queue l) (rs @ [r])) ((concat dss @ ds) @ [d])"
    using calculation(4) d unfolding numbered_snoc head by (intro list_all2_appendI) simp_all
  ultimately show ?thesis
    using ok' slots i win window_snoc(2) [of "index_head l" "index_queue l"] n
    unfolding ring_inv_def by (intro conjI exI [of _ dss]) (simp_all add: asked_def)
qed

lemma ring_filling:
  assumes "ring_like ring respond"
  shows "link_filling (ring_env ring t) (ring_inv respond a)"
proof
  show "ring_inv respond a rs l ds w \<Longrightarrow> link_ok l ds" for rs l ds w by (simp add: ring_inv_def)
  show "ring_inv respond a rs l ds w \<Longrightarrow> unat (index_head l - index_queue l) = length rs" for rs l ds w
    by (simp add: ring_inv_def)
next
  fix rs l ds w
  assume i: "ring_inv respond a rs l ds w" "ds \<noteq> []"
  show "\<exists>l' w'. sendFrame (ring_env ring t) l w = Some (l', w') \<and> ring_inv respond a rs l' [] w'"
    using ring_inv_send [OF assms i, of t] by (elim exE conjE) (intro exI conjI)
next
  fix rs l ds w f d and r :: "'a net ask"
  assume "ring_inv respond a rs l ds w" "length rs < 255" "carries f (ds @ [d])" "\<not> fr_available f"
    "answers (request_of (index_head l) r) d"
  then show "ring_inv respond a (rs @ [r]) (asked r f l) (ds @ [d]) w" by (rule ring_inv_append)
qed


text \<open>Lifted callbacks: the frames still queued play no role in what the datagrams settle.\<close>

definition lifted :: "'a net callbacks list \<Rightarrow> dgram \<Rightarrow> bool" where
  "lifted cbs d \<longleftrightarrow> (\<exists>p. cb_process (cbs ! slot_of d) = Some (lift_process p))"

lemma settle_kept:
  assumes "settle d (irq, cbs, w) = (irq', cbs', w')"
  shows "cb_process (cbs' ! k) = cb_process (cbs ! k)" "length cbs' = length cbs"
    "cb_error (cbs' ! k) = cb_error (cbs ! k)" "k \<noteq> slot_of d \<Longrightarrow> cbs' ! k = cbs ! k"
proof -
  have cbs': "\<exists>st. cbs' = cbs[slot_of d := (cbs ! slot_of d)\<lparr>cb_status := st\<rparr>]"
    using assms by (auto simp: settle_def Let_def case_prod_beta)
  show "cb_process (cbs' ! k) = cb_process (cbs ! k)" "length cbs' = length cbs"
    "cb_error (cbs' ! k) = cb_error (cbs ! k)" "k \<noteq> slot_of d \<Longrightarrow> cbs' ! k = cbs ! k"
    using cbs' by (cases "slot_of d < length cbs \<and> k = slot_of d"; auto simp: list_update_beyond nth_list_update not_less)+
qed

lemma settle_lifted:
  assumes "lifted cbs d"
  shows "\<exists>irq' cbs' a'. \<forall>q. settle d (irq, cbs, (q, a)) = (irq', cbs', (q, a'))"
proof -
  obtain p where "cb_process (cbs ! slot_of d) = Some (lift_process p)"
    using assms by (auto simp: lifted_def)
  then show ?thesis by (simp add: settle_def Let_def lift_process_def case_prod_beta)
qed

lemma fold_settle_lifted:
  "list_all (lifted cbs) ds \<Longrightarrow>
    \<exists>irq' cbs' a'. \<forall>q. fold settle ds (irq, cbs, (q, a)) = (irq', cbs', (q, a'))"
proof (induction ds arbitrary: irq cbs a)
  case (Cons d ds)
  have "lifted cbs d" using Cons.prems by simp
  then obtain irq1 cbs1 a1 where s: "\<And>q. settle d (irq, cbs, (q, a)) = (irq1, cbs1, (q, a1))"
    using settle_lifted [of cbs d irq a] by blast
  have "cb_process (cbs1 ! k) = cb_process (cbs ! k)" for k
    using settle_kept(1) [OF s] .
  then have "list_all (lifted cbs1) ds" using Cons.prems by (auto simp: lifted_def list_all_iff)
  then show ?case using Cons.IH [of cbs1 irq1 a1] s by simp
qed simp

lemma fold_settle_kept:
  assumes "fold settle ds (irq, cbs, w) = (irq', cbs', w')"
  shows "length cbs' = length cbs \<and> cb_process (cbs' ! k) = cb_process (cbs ! k)
    \<and> cb_error (cbs' ! k) = cb_error (cbs ! k) \<and> (k \<notin> slot_of ` set ds \<longrightarrow> cbs' ! k = cbs ! k)"
  using assms
proof (induction ds arbitrary: irq cbs w)
  case (Cons d ds)
  obtain irq1 cbs1 w1 where s: "settle d (irq, cbs, w) = (irq1, cbs1, w1)" by (cases "settle d (irq, cbs, w)")
  have "length cbs' = length cbs1 \<and> cb_process (cbs' ! k) = cb_process (cbs1 ! k)
    \<and> cb_error (cbs' ! k) = cb_error (cbs1 ! k) \<and> (k \<notin> slot_of ` set ds \<longrightarrow> cbs' ! k = cbs1 ! k)"
    using Cons.IH [of irq1 cbs1 w1] Cons.prems s by simp
  then show ?case using settle_kept(1,3,4) [OF s, of k] settle_kept(2) [OF s] by auto
qed simp

lemma read_frames_settles:
  assumes "list_all2 wire_frame frs dss"
    and "idle_frame (frame_redundancy l)" and "\<not> fr_available (frame_nominal l)"
    and "list_all (\<lambda>d. \<not> isStale (dg_index (d_header d)) l) (concat dss)"
    and "distinct (map slot_of (concat dss))" and "list_all (waiting (callbacks_of l)) (concat dss)"
    and "list_all (lifted (callbacks_of l)) (concat dss)"
    and "fold settle (concat dss) (irq, callbacks_of l, ([], a)) = (irq', cbs', ([], a'))"
  shows "\<exists>f. read_frames (ring_env ring t) (length frs) budget irq l (frs, a) =
      Some (irq', l\<lparr>callbacks_of := cbs', frame_redundancy := f\<rparr>, ([], a')) \<and> idle_frame f"
  using assms
proof (induction frs arbitrary: dss l irq a)
  case Nil
  then have "irq' = irq" "cbs' = callbacks_of l" "a' = a" by simp_all
  then show ?case
    using Nil.prems(2) by (intro exI [of _ "frame_redundancy l"]) (simp add: read_frames.simps [of _ 0])
next
  case (Cons fr frs)
  obtain es ess where dss: "dss = es # ess" and fr: "wire_frame fr es" and rest: "list_all2 wire_frame frs ess"
    using Cons.prems(1) by (auto simp: list_all2_Cons1)
  obtain g where g: "readFrame (int (length fr)) fr (frame_redundancy l) = Some (int (length fr), g)"
      "at (fr_data g) 16 (layout es)" "fr_next g = Some 16" "fr_available g" "length (fr_data g) = 1518"
    using readFrame_wire [OF fr Cons.prems(2)] .
  let ?l = "l\<lparr>frame_nominal := frame_nominal l, frame_redundancy := g\<rparr>"
  have read: "Link_read (ring_env ring t) l (fr # frs, a) = Some (?l, (frs, a))"
    using g(1) by (simp add: Link_read_def ring_env_def ring_socket_def SocketNull_def readFrame_def [of 0] Let_def)
  have es: "chained es" "list_all wf_dgram es" using fr by (simp_all add: wire_frame_def)
  obtain irq1 cbs1 a1 where s: "\<And>q. fold settle es (irq, callbacks_of l, (q, a)) = (irq1, cbs1, (q, a1))"
    using fold_settle_lifted [of "callbacks_of l" es irq a] Cons.prems(7) dss by auto
  let ?m = "?l\<lparr>callbacks_of := cbs1, frame_redundancy := resetContext g\<rparr>"
  have drain: "drain_link irq False False ?l (frs, a) = Some (irq1, False, False, ?m, (frs, a1))"
    using drain_settles [of es ?l 16 irq "(frs, a)"] es g Cons.prems s
    by (simp add: dss isStale_def)
  have other: "cbs1 ! slot_of d = callbacks_of l ! slot_of d" if "d \<in> set (concat ess)" for d
    using that Cons.prems(5) fold_settle_kept [OF s, of "slot_of d"] dss by auto
  have len1: "length cbs1 = length (callbacks_of l)" using fold_settle_kept [OF s] by blast
  have "idle_frame (frame_redundancy ?m)" using g by (simp add: idle_frame_def resetContext_def)
  moreover have "list_all (waiting (callbacks_of ?m)) (concat ess)" "list_all (lifted (callbacks_of ?m)) (concat ess)"
    using Cons.prems(6,7) other len1 by (auto simp: dss list_all_iff waiting_def lifted_def)
  moreover have "fold settle (concat ess) (irq1, callbacks_of ?m, ([], a1)) = (irq', cbs', ([], a'))"
    using Cons.prems(8) s by (simp add: dss)
  ultimately obtain f where f: "read_frames (ring_env ring t) (length frs) budget irq1 ?m (frs, a1) =
      Some (irq', ?m\<lparr>callbacks_of := cbs', frame_redundancy := f\<rparr>, ([], a'))" "idle_frame f"
    using Cons.IH [OF rest, of ?m irq1 a1] Cons.prems by (auto simp: dss isStale_def)
  then show ?case
    using read drain by (subst read_frames.simps) auto
qed


section \<open>A whole cycle\<close>

lemma sent_frame_count:
  assumes "list_all (\<lambda>es. es \<noteq> []) dss" and "length (concat dss) \<le> 255"
  shows "unat (of_nat (length dss) :: u8) = length dss"
proof -
  have "length dss \<le> length (concat dss)"
    using assms(1)
  proof (induction dss)
    case (Cons es dss)
    then have "1 \<le> length es" by (cases es) simp_all
    then show ?case using Cons by simp
  qed simp
  then show ?thesis using assms(2) by (intro unat_of_nat_small) simp
qed

text \<open>The answered datagrams keep the indices the requests were given: consecutive, hence distinct.\<close>

lemma answers_index:
  assumes "list_all2 answers (numbered q rs) ds"
  shows "map (\<lambda>d. dg_index (d_header d)) ds = map (\<lambda>k. q + of_nat k) [0..<length rs]"
proof -
  have "length ds = length rs" using assms by (simp add: list_all2_conv_all_nth numbered_def)
  then show ?thesis
    using assms by (intro nth_equalityI) (auto simp: list_all2_conv_all_nth numbered_def)
qed

lemma numbered_distinct:
  assumes "n \<le> 255"
  shows "distinct (map (\<lambda>k. unat ((q :: u8) + of_nat k)) [0..<n])"
proof -
  have "k = k'" if "k < n" "k' < n" "unat (q + of_nat k) = unat (q + of_nat k')" for k k'
  proof -
    have "q + of_nat k = q + of_nat k'" using that(3) by (rule unsigned_word_eqI)
    then have "unat (of_nat k :: u8) = unat (of_nat k' :: u8)" by (simp only: add_left_cancel)
    then show ?thesis using that(1,2) assms unat_of_nat_small [where ?'w = 8] by simp
  qed
  then show ?thesis by (auto simp: distinct_map intro!: inj_onI)
qed


lemma finalize_ring:
  assumes "ring_like ring respond" and "ring_inv respond a rs l ds w"
  shows "\<exists>l' w'. finalizeDatagrams (ring_env ring t) l w = Some (l', w') \<and> ring_inv respond a rs l' [] w'
    \<and> index_queue l' = index_queue l \<and> index_head l' = index_head l \<and> callbacks_of l' = callbacks_of l"
proof (cases "ds = []")
  case True
  then have "fr_counter (frame_nominal l) = 0" using assms(2) by (simp add: ring_inv_def link_ok_def carries_def)
  then show ?thesis using assms(2) True by (simp add: finalizeDatagrams_def)
next
  case False
  then have "fr_counter (frame_nominal l) \<noteq> 0" using assms(2) by (simp add: ring_inv_def link_ok_def carries_def)
  then show ?thesis using ring_inv_send [OF assms False] by (simp add: finalizeDatagrams_def)
qed

lemma link_ok_after:
  assumes "link_ok l []" and "idle_frame f" and "length cbs = 256"
  shows "link_ok (resetFrameContext (l\<lparr>sent_frame := 0, callbacks_of := cbs, frame_redundancy := f,
    index_queue := index_head l\<rparr>)) []"
proof -
  have "resetContext (frame_nominal l) = frame_nominal l"
    using assms(1) by (simp add: link_ok_def carries_def resetContext_def)
  then show ?thesis
    using assms by (auto simp: link_ok_def resetFrameContext_def idle_frame_def resetContext_def)
qed

text \<open>The datagrams of the cycle as they were sent, frame after frame.\<close>

lemma ring_inv_sent:
  assumes "ring_inv respond a rs l [] w" and "length rs \<le> 255" and "ring_like ring respond"
  obtains frs dss where "w = (frs, a)" "list_all2 wire_frame frs (map (map respond) dss)"
    "unat (sent_frame l) = length frs" "list_all2 answers (numbered (index_queue l) rs) (concat dss)"
proof -
  obtain frs where w: "w = (frs, a)" using assms(1) by (cases w) (simp add: ring_inv_def)
  obtain dss where dss: "list_all2 (\<lambda>fr es. wire_frame fr (map respond (seal es))) frs dss"
      "list_all (\<lambda>es. es \<noteq> []) dss" "sent_frame l = of_nat (length dss)"
      "list_all2 answers (numbered (index_queue l) rs) (concat dss)"
    using assms(1) by (auto simp: ring_inv_def w)
  have len: "length (concat dss) = length rs"
    using list_all2_lengthD [OF dss(4)] by (simp add: numbered_def)
  have "list_all2 wire_frame frs (map (map respond) (map seal dss))"
    using dss(1) by (simp add: list_all2_map2)
  moreover have "unat (sent_frame l) = length frs"
    using sent_frame_count [OF dss(2)] len assms(2) dss(1,3) by (simp add: list_all2_lengthD)
  moreover have "list_all2 answers rs ds \<Longrightarrow> concat dss = ds \<Longrightarrow> list_all2 answers rs (concat (map seal dss))" for rs ds
  proof (induction dss arbitrary: rs ds)
    case (Cons es dss)
    then obtain qs qs' where "rs = qs @ qs'" "list_all2 answers qs es" "list_all2 answers qs' (concat dss)"
      by (auto simp: list_all2_append2)
    then show ?case using Cons.IH [of qs' "concat dss"] answers_seal by (auto intro: list_all2_appendI)
  qed simp
  ultimately show thesis using that [OF w, of "map seal dss"] dss(4) by blast
qed


lemma process_ring:
  assumes ring: "ring_like ring respond" and i: "ring_inv respond a rs l pending w" and n: "length rs \<le> 255"
    and lift: "list_all (\<lambda>r. \<exists>p. a_process r = lift_process p) rs"
  shows "\<exists>ds irq cbs a1 l2. list_all2 answers (numbered (index_queue l) rs) ds
    \<and> fold settle (map respond ds) (0, callbacks_of l, ([], a)) = (irq, cbs, ([], a1))
    \<and> processDatagrams (ring_env ring t) l w =
        Some (let (x, w2) = fold (notify cbs) (filter (failed cbs) (window (index_queue l) (index_head l))) (None, ([], a1))
              in if x \<noteq> None then (x, l2, w2) else checkEcatEvents irq l2 w2)
    \<and> link_ok l2 [] \<and> index_queue l2 = index_head l \<and> index_head l2 = index_head l \<and> sent_frame l2 = 0"
proof -
  obtain l1 w1 where fin: "finalizeDatagrams (ring_env ring t) l w = Some (l1, w1)" and i1: "ring_inv respond a rs l1 [] w1"
      and same: "index_queue l1 = index_queue l" "index_head l1 = index_head l" "callbacks_of l1 = callbacks_of l"
    using finalize_ring [OF ring i] by blast
  obtain frs dss where w1: "w1 = (frs, a)" "list_all2 wire_frame frs (map (map respond) dss)"
      "unat (sent_frame l1) = length frs" "list_all2 answers (numbered (index_queue l1) rs) (concat dss)"
    using ring_inv_sent [OF i1 n ring] .
  let ?ds = "concat dss" and ?es = "concat (map (map respond) dss)" and ?l = "l1\<lparr>sent_frame := 0\<rparr>"
  have es: "?es = map respond ?ds" by (simp add: map_concat)
  have win: "unat (index_head l1 - index_queue l1) = length rs" using i1 by (simp add: ring_inv_def)
  have idx: "map (\<lambda>d. dg_index (d_header d)) ?es = map (\<lambda>k. index_queue l1 + of_nat k) [0..<length rs]"
    using answers_index [OF w1(4)] ring unfolding es by (simp add: ring_like_def comp_def)
  then have slots: "map slot_of ?es = map (\<lambda>k. unat (index_queue l1 + of_nat k)) [0..<length rs]"
    by (metis (no_types, lifting) comp_apply list.map_comp map_eq_conv)
  have fresh: "list_all (\<lambda>d. \<not> isStale (dg_index (d_header d)) ?l) ?es"
  proof -
    have "set (map (\<lambda>d. dg_index (d_header d)) ?es) = set (window (index_queue l1) (index_head l1))"
      unfolding idx window_def win ..
    then show ?thesis using mem_window [of _ ?l] by (auto simp: list_all_iff)
  qed
  have slot: "callbacks_of l1 ! unat (index_queue l1 + of_nat k) = slot_for (rs ! k)" if "k < length rs" for k
    using i1 that by (simp add: ring_inv_def)
  have filled: "\<exists>k < length rs. callbacks_of l1 ! slot_of d = slot_for (rs ! k)" if "d \<in> set ?es" for d
  proof -
    have "slot_of d \<in> set (map slot_of ?es)" using that by simp
    then show ?thesis unfolding slots using slot by auto
  qed
  have cb256: "length (callbacks_of l1) = 256" using i1 by (simp add: ring_inv_def link_ok_def)
  have waits: "list_all (waiting (callbacks_of ?l)) ?es" "list_all (lifted (callbacks_of ?l)) ?es"
    using filled lift cb256 unsigned_less [where ?'a = nat and ?'b = 8]
    by (fastforce simp: list_all_iff waiting_def lifted_def slot_for_def list_all_length)+
  obtain irq cbs a1 where s: "\<And>q. fold settle ?es (0, callbacks_of l1, (q, a)) = (irq, cbs, (q, a1))"
    using fold_settle_lifted [of "callbacks_of l1" ?es 0 a] waits(2) by auto
  obtain f where f: "read_frames (ring_env ring t) (length frs) (length frs) 0 ?l (frs, a) =
      Some (irq, ?l\<lparr>callbacks_of := cbs, frame_redundancy := f\<rparr>, ([], a1))" "idle_frame f"
    using read_frames_settles [OF w1(2), of ?l 0 a irq cbs a1 ring t "length frs"] i1 fresh waits
      numbered_distinct [OF n, of "index_queue l1"] s slots by (auto simp: ring_inv_def link_ok_def)
  have kept: "length cbs = 256" using fold_settle_kept [OF s] cb256 by auto
  have "cb_error (cbs ! unat i) \<noteq> None" if "i \<in> set (window (index_queue l1) (index_head l1))" for i
  proof -
    have "cb_error (cbs ! unat i) = cb_error (callbacks_of l1 ! unat i)"
      using fold_settle_kept [OF s, of "unat i"] by blast
    then show ?thesis using that slot by (auto simp: window_def win slot_for_def)
  qed
  then have report: "report_errors (index_queue l1) (index_head l1) cbs None ([], a1)
      = Some (fold (notify cbs) (filter (failed cbs) (window (index_queue l1) (index_head l1))) (None, ([], a1)))"
    by (intro report_errors_fold) (simp add: list_all_iff)
  let ?l2 = "resetFrameContext (l1\<lparr>sent_frame := 0, callbacks_of := cbs, frame_redundancy := f,
    index_queue := index_head l1\<rparr>)"
  have "link_ok ?l2 []" using link_ok_after [OF _ f(2) kept] i1 by (simp add: ring_inv_def)
  moreover have "processDatagrams (ring_env ring t) l w =
      Some (let (x, w2) = fold (notify cbs) (filter (failed cbs) (window (index_queue l1) (index_head l1))) (None, ([], a1))
            in if x \<noteq> None then (x, ?l2, w2) else checkEcatEvents irq ?l2 w2)"
    using fin f(1) w1(1,3) report by (auto simp: processDatagrams_def Let_def case_prod_beta)
  ultimately show ?thesis
    using w1(4) s es same
    by (intro exI [of _ ?ds] exI [of _ irq] exI [of _ cbs] exI [of _ a1] exI [of _ ?l2])
      (simp add: resetFrameContext_def)
qed


section \<open>Properties\<close>

lemma sendFrame_queue: "sendFrame e l w = Some (l', w') \<Longrightarrow> index_queue l' = index_queue l"
  by (auto simp: sendFrame_def Let_def bind_eq_Some_conv fold_set_status split: if_splits)

lemma ask_queue:
  assumes "ask_on e r l w = Some (x, l', w')"
  shows "index_queue l' = index_queue l"
proof (cases "index_queue l = index_head l + 1")
  case False
  then obtain c l1 w1 f full where
      1: "(if c then sendFrame e l w else Some (l, w)) = Some (l1, w1)"
    and 2: "(if full then sendFrame e (asked r f l1) w1 else Some (asked r f l1, w1)) = Some (l', w')"
    using assms unfolding ask_on_def Link_addDatagram_def addDatagramToFrame_def Let_def asked_def
    by (simp add: bind_eq_Some_conv case_prod_beta cong: if_cong) (elim exE conjE, fastforce)
  have "index_queue l1 = index_queue l" using 1 sendFrame_queue by (cases c) auto
  moreover have "index_queue l' = index_queue (asked r f l1)" using 2 sendFrame_queue by (cases full) auto
  ultimately show ?thesis by (simp add: asked_def)
qed (use assms in \<open>simp add: ask_on_def Link_addDatagram_def\<close>)

lemma ask_all_queue: "ask_all e rs l w = Some (x, l', w') \<Longrightarrow> index_queue l' = index_queue l"
proof (induction rs arbitrary: l w)
  case (Cons r rs)
  then obtain y l1 w1 where 1: "ask_on e r l w = Some (y, l1, w1)"
      "(if y \<noteq> None then Some (y, l1, w1) else ask_all e rs l1 w1) = Some (x, l', w')"
    by (auto simp: bind_eq_Some_conv)
  then show ?case using Cons.IH [of l1 w1] ask_queue [OF 1(1)] by (cases y) auto
qed simp

definition quiet :: "Command \<Rightarrow> 'w ask" where
  "quiet command = \<lparr>a_command = command, a_address = 0, a_data = Some [1], a_size = 1,
     a_process = (\<lambda>h d wkc w. (OK, w)), a_error = (\<lambda>st w. (None, w))\<rparr>"

text \<open>Whatever the sockets answer, a link that respects its invariant accepts datagrams of up to
  1486 bytes as long as fewer than 255 are in flight: no access leaves a frame, frames are sent
  when the next datagram does not fit, and the invariant holds again. The 256th is refused.\<close>

theorem link_accepts_until_full:
  assumes "link_ok l ds" and "list_all good_ask rs"
    and "unat (index_head l - index_queue l) + length rs = 255"
  shows "\<exists>l' ds' w'. ask_all e rs l w = Some (None, l', w') \<and> link_ok l' ds'
    \<and> ask_on e r l' w' = Some (Some TOO_MANY, l', w')"
proof -
  obtain l' ds' w' where a: "ask_all e rs l w = Some (None, l', w')" "link_ok l' ds'"
      "unat (index_head l' - index_queue l') = unat (index_head l - index_queue l) + length rs"
    using any_net.ask_all_accepted [of l ds "replicate (unat (index_head l - index_queue l)) r" rs e w] assms
    by auto
  have "index_queue l' + of_nat 255 = index_head l'" using window_end a(3) assms(3) by metis
  moreover have "(of_nat 255 :: u8) = - 1" by simp
  ultimately have "index_queue l' = index_head l' + 1" by (metis add.commute diff_add_cancel uminus_add_conv_diff add_minus_cancel)
  then have "ask_on e r l' w' = Some (Some TOO_MANY, l', w')"
    by (simp add: ask_on_def Link_addDatagram_def)
  then show ?thesis using a by blast
qed


theorem link_accepts_until_full_witness:
  "\<exists>l' ds' w'. ask_all silent_env (replicate 255 (quiet FPRD)) (Link_new PRIMARY_IF_MAC SECONDARY_IF_MAC) ()
      = Some (None, l', w') \<and> link_ok l' ds' \<and> ask_on silent_env (quiet BWR) l' w' = Some (Some TOO_MANY, l', w')"
proof (rule link_accepts_until_full [OF link_ok_new])
  show "list_all good_ask (replicate 255 (quiet FPRD :: unit ask))"
    by (simp add: list_all_iff good_ask_def quiet_def payload_of_def)
qed (simp add: Link_new_def)

text \<open>(C28) A cycle on a ring: up to 255 datagrams are accepted, sent in as many frames as they need, and
  when the frames have gone round, \<open>processDatagrams\<close> gives every datagram, in the order of the
  requests and once, to its own callback with the header, data and working counter the ring left in
  it; then the error callback of every datagram that is not \<open>OK\<close> is called once, in order, with its
  status, the last exception is rethrown, otherwise the events are checked; and the link is ready
  for the next cycle. No access leaves a frame.\<close>

theorem link_cycle_delivers:
  assumes "link_ok l []" and "index_queue l = index_head l" and "sent_frame l = 0"
    and "ring_like ring respond" and "length rs \<le> 255" and "list_all good_ask rs"
    and "list_all (\<lambda>r. \<exists>p. a_process r = lift_process p) rs"
  shows "\<exists>l1 w1 ds irq cbs a1 l2. ask_all (ring_env ring t) rs l ([], a) = Some (None, l1, w1)
    \<and> length (callbacks_of l1) = 256 \<and> (\<forall>k < length rs. callbacks_of l1 ! unat (index_queue l + of_nat k) = slot_for (rs ! k))
    \<and> list_all2 answers (numbered (index_queue l) rs) ds
    \<and> fold settle (map respond ds) (0, callbacks_of l1, ([], a)) = (irq, cbs, ([], a1))
    \<and> processDatagrams (ring_env ring t) l1 w1 =
        Some (let (x, w2) = fold (notify cbs) (filter (failed cbs)
                  (window (index_queue l) (index_queue l + of_nat (length rs)))) (None, ([], a1))
              in if x \<noteq> None then (x, l2, w2) else checkEcatEvents irq l2 w2)
    \<and> link_ok l2 [] \<and> index_queue l2 = index_head l2 \<and> sent_frame l2 = 0"
proof -
  have i: "ring_inv respond a [] l [] ([], a)"
    using assms by (auto simp: ring_inv_def numbered_def)
  obtain l1 ds1 w1 where 1: "ask_all (ring_env ring t) rs l ([], a) = Some (None, l1, w1)"
      "ring_inv respond a rs l1 ds1 w1"
    using link_filling.ask_all_accepted [OF ring_filling [OF assms(4)] i, of rs t] assms(5,6) by auto
  have q: "index_queue l1 = index_queue l" using ask_all_queue [OF 1(1)] .
  have "unat (index_head l1 - index_queue l1) = length rs" using 1(2) by (simp add: ring_inv_def)
  then have h: "index_head l1 = index_queue l + of_nat (length rs)" using window_end q by metis
  have slots: "length (callbacks_of l1) = 256 \<and> (\<forall>k < length rs. callbacks_of l1 ! unat (index_queue l + of_nat k) = slot_for (rs ! k))"
    using 1(2) q by (simp add: ring_inv_def link_ok_def)
  obtain ds irq cbs a1 l2 where "list_all2 answers (numbered (index_queue l1) rs) ds"
      "fold settle (map respond ds) (0, callbacks_of l1, ([], a)) = (irq, cbs, ([], a1))"
      "processDatagrams (ring_env ring t) l1 w1 =
        Some (let (x, w2) = fold (notify cbs) (filter (failed cbs) (window (index_queue l1) (index_head l1))) (None, ([], a1))
              in if x \<noteq> None then (x, l2, w2) else checkEcatEvents irq l2 w2)"
      "link_ok l2 []" "index_queue l2 = index_head l1" "index_head l2 = index_head l1" "sent_frame l2 = 0"
    using process_ring [OF assms(4) 1(2) assms(5,7), of t] by blast
  then show ?thesis
    using 1(1) slots unfolding q h
    by (intro exI [of _ l1] exI [of _ w1] exI [of _ ds] exI [of _ irq] exI [of _ cbs] exI [of _ a1] exI [of _ l2]) simp
qed


definition probe :: "nat net ask" where
  "probe = \<lparr>a_command = FPRD, a_address = 0x1301000, a_data = None, a_size = 2,
     a_process = lift_process (\<lambda>h d wkc n. (if wkc = 0 then INVALID_WKC else OK, n + 1)),
     a_error = (\<lambda>st (q, n). (Some ''lost'', (q, n + 10)))\<rparr>"

theorem link_cycle_delivers_witness:
  "\<exists>l1 w1 l2. ask_all (ring_env id 0) [probe, probe] (Link_new PRIMARY_IF_MAC SECONDARY_IF_MAC) ([], 0) = Some (None, l1, w1)
    \<and> processDatagrams (ring_env id 0) l1 w1 = Some (Some ''lost'', l2, ([], 22)) \<and> link_ok l2 []"
proof -
  let ?l = "Link_new PRIMARY_IF_MAC SECONDARY_IF_MAC :: nat net link"
  have start: "index_queue ?l = 0" "index_head ?l = 0" "sent_frame ?l = 0" by (simp_all add: Link_new_def)
  have pre: "good_ask probe" "\<exists>p. a_process probe = lift_process p"
    by (auto simp: probe_def good_ask_def payload_of_def)
  have win: "window 0 2 = [0, 1 :: u8]" by (simp add: window_def upt_positions)
  obtain l1 w1 ds irq cbs a1 l2 where
      1: "ask_all (ring_env id 0) [probe, probe] ?l ([], 0) = Some (None, l1, w1)"
    and 2: "\<forall>k < 2. callbacks_of l1 ! unat (0 + of_nat k :: u8) = slot_for ([probe, probe] ! k)"
    and 3: "list_all2 answers (numbered 0 [probe, probe]) ds"
    and 4: "fold settle (map id ds) (0, callbacks_of l1, ([], 0)) = (irq, cbs, ([], a1))"
    and 5: "processDatagrams (ring_env id 0) l1 w1 =
        Some (let (x, w2) = fold (notify cbs) (filter (failed cbs) (window 0 2)) (None, ([], a1))
              in if x \<noteq> None then (x, l2, w2) else checkEcatEvents irq l2 w2)"
    and 6: "link_ok l2 []" and 7: "length (callbacks_of l1) = 256"
    using link_cycle_delivers [OF link_ok_new, of PRIMARY_IF_MAC SECONDARY_IF_MAC id id "[probe, probe]" 0 0]
    by (auto simp: start ring_like_def pre)
  obtain d0 d1 where ds: "ds = [d0, d1]" "dg_index (d_header d0) = 0" "dg_index (d_header d1) = 1"
      "d_wkc d0 = 0" "d_wkc d1 = 0"
    using 3 by (auto simp: numbered_def list_all2_Cons1 probe_def)
  have c: "callbacks_of l1 ! 0 = slot_for probe" "callbacks_of l1 ! 1 = slot_for probe"
    using 2 by (auto dest: spec [of _ 0] spec [of _ 1])
  have "a1 = 2" "cb_status (cbs ! 0) = INVALID_WKC" "cb_status (cbs ! 1) = INVALID_WKC"
      "cb_error (cbs ! 0) = Some (a_error probe)" "cb_error (cbs ! 1) = Some (a_error probe)"
    using 4 c 7 ds
    by (auto simp: settle_def slot_for_def lift_process_def probe_def Let_def nth_list_update)
  then show ?thesis
    using 1 5 6 by (auto simp: win failed_def notify_def probe_def)
qed

end
