(* ===== verification/EmuNetwork.thy ===== *)
theory EmuNetwork
  imports Frames EmuESC
begin

text \<open>
  The emulated segment (\<open>lib/slave/src/EmulatedNetwork.cc\<close>, \<open>EmulatedNetwork.h\<close>): slaves wired
  through their four ports, the master's injection points, the order in which a frame meets the
  processing units of the slaves, the receive-time offsets, and the routing of a frame.

  A node's controller is the entry of the same position in \<open>nw_escs\<close>; \<open>nw_fwd\<close> are the forwarding
  delays of the controllers. \<open>NO_NODE\<close> is \<open>None\<close>. An index outside the nodes, the ports or the frame
  gives \<open>None\<close>. The local clock of a controller, which is computed in floating point, and the
  readings of the wall clock are arguments.
\<close>

section \<open>Topology\<close>

definition PORT_ORDER :: "nat list" where
  "PORT_ORDER = [0, 3, 1, 2]"

definition indexInOrder :: "nat \<Rightarrow> nat" where
  "indexInOrder port = (case List.find (\<lambda>i. PORT_ORDER ! i = port) [0..<4] of None \<Rightarrow> 0 | Some i \<Rightarrow> i)"

definition isPhysicalWrite :: "u8 \<Rightarrow> bool" where
  "isPhysicalWrite command = (case command_of command of
     Some c \<Rightarrow> c \<in> {BWR, BRW, APWR, APRW, FPWR, FPRW} | None \<Rightarrow> False)"

definition CABLE_DELAY :: int where
  [simp]: "CABLE_DELAY = 0"

record net_port =
  peer_node :: "nat option"
  peer_port :: nat
  to_master :: bool
  port_up :: bool

definition open_port :: net_port where
  "open_port = \<lparr>peer_node = None, peer_port = 0, to_master = False, port_up = True\<rparr>"

type_synonym net_ports = "net_port list"

record hop =
  hop_node :: nat
  port0_closed :: bool

record network =
  nw_ports :: "net_ports list"
  nw_escs :: "emu list"
  nw_fwd :: "int list"
  injection_node :: "nat option"
  injection_port :: nat
  redundancy_node :: "nat option"
  redundancy_port :: nat
  order_nominal :: "hop list"
  order_redundancy :: "hop list"
  recv_offset :: "int list list"
  epu_offset :: "int list"
  custom_topology :: bool
  ring_intact :: bool
  dirty :: bool

definition no_ports :: net_ports where
  "no_ports = replicate 4 open_port"

definition wire :: "nat \<Rightarrow> nat \<Rightarrow> net_port" where
  "wire node port = \<lparr>peer_node = Some node, peer_port = port, to_master = False, port_up = True\<rparr>"

definition set_port :: "nat \<Rightarrow> nat \<Rightarrow> net_port \<Rightarrow> net_ports list \<Rightarrow> net_ports list option" where
  "set_port node port p ns =
     (if node < length ns \<and> port < length (ns ! node) then Some (ns[node := (ns ! node)[port := p]]) else None)"

definition get_port :: "nat \<Rightarrow> nat \<Rightarrow> net_ports list \<Rightarrow> net_port option" where
  "get_port node port ns =
     (if node < length ns \<and> port < length (ns ! node) then Some (ns ! node ! port) else None)"

fun chain :: "nat list \<Rightarrow> net_ports list \<Rightarrow> net_ports list option" where
  "chain [] ns = Some ns"
| "chain (i # is) ns = do {
     ns \<leftarrow> set_port i 1 (wire (i + 1) 0) ns;
     ns \<leftarrow> set_port (i + 1) 0 (wire i 1) ns;
     chain is ns
   }"

definition buildLine :: "network \<Rightarrow> network option" where
  "buildLine n = do {
     ns \<leftarrow> chain [0..<length (nw_ports n) - 1] (replicate (length (nw_ports n)) no_ports);
     Some (n\<lparr>nw_ports := ns, injection_node := Some 0, injection_port := 0, redundancy_node := None,
        custom_topology := False, dirty := True\<rparr>)
   }"

definition EmulatedNetwork_new :: "emu list \<Rightarrow> int list \<Rightarrow> network option" where
  "EmulatedNetwork_new slaves delays = buildLine \<lparr>nw_ports = replicate (length slaves) no_ports,
     nw_escs = slaves, nw_fwd = delays, injection_node = Some 0, injection_port = 0,
     redundancy_node = None, redundancy_port = 0, order_nominal = [], order_redundancy = [],
     recv_offset = [], epu_offset = [], custom_topology = False, ring_intact = False, dirty = True\<rparr>"

definition connect :: "nat \<Rightarrow> nat \<Rightarrow> nat \<Rightarrow> nat \<Rightarrow> network \<Rightarrow> network option" where
  "connect node_a port_a node_b port_b n = do {
     let ns = (if custom_topology n then nw_ports n else replicate (length (nw_ports n)) no_ports);
     ns \<leftarrow> set_port node_a port_a (wire node_b port_b) ns;
     ns \<leftarrow> set_port node_b port_b (wire node_a port_a) ns;
     Some (n\<lparr>nw_ports := ns, custom_topology := True, dirty := True\<rparr>)
   }"

definition setInjection :: "nat option \<Rightarrow> nat \<Rightarrow> network \<Rightarrow> network" where
  "setInjection node port n = n\<lparr>injection_node := node, injection_port := port, dirty := True\<rparr>"

definition setRedundancyInjection :: "nat option \<Rightarrow> nat \<Rightarrow> network \<Rightarrow> network" where
  "setRedundancyInjection node port n = n\<lparr>redundancy_node := node, redundancy_port := port, dirty := True\<rparr>"

definition hasRedundancy :: "network \<Rightarrow> bool" where
  "hasRedundancy n \<longleftrightarrow> redundancy_node n \<noteq> None"

section \<open>The walk of a frame\<close>

text \<open>
  The local variables a walk threads through: the passages so far, the exit (node and port) and the
  budget. The ports of a node are visited in the processing order from the entry port on.
\<close>

type_synonym walk = "hop list \<times> nat option \<times> nat \<times> nat"

definition ports_after :: "nat \<Rightarrow> nat list" where
  "ports_after entry = map (\<lambda>k. PORT_ORDER ! ((indexInOrder entry + k) mod 4)) [1..<4]"

fun walk_ports :: "(nat \<Rightarrow> nat \<Rightarrow> walk \<Rightarrow> (bool \<times> walk) option) \<Rightarrow> net_ports list \<Rightarrow> nat \<Rightarrow> nat list \<Rightarrow> walk
    \<Rightarrow> (bool \<times> walk) option" where
  "walk_ports recurse ns node [] s = Some (False, s)"
| "walk_ports recurse ns node (p # ps) (order, exit_node, exit_port, budget) = do {
     port \<leftarrow> get_port node p ns;
     if to_master port then Some (True, (order, Some node, p, budget))
     else case (if port_up port then peer_node port else None) of
       Some peer \<Rightarrow> do {
         (left, (order, exit_node, exit_port, budget)) \<leftarrow>
           recurse peer (peer_port port) (order, exit_node, exit_port, budget);
         if left then Some (True, (order, exit_node, exit_port, budget))
         else walk_ports recurse ns node ps
           ((if p = 0 then order @ [\<lparr>hop_node = node, port0_closed = False\<rparr>] else order),
            exit_node, exit_port, budget)
       }
     | None \<Rightarrow> walk_ports recurse ns node ps
         ((if p = 0 then order @ [\<lparr>hop_node = node, port0_closed = True\<rparr>] else order),
          exit_node, exit_port, budget)
   }"

text \<open>The fuel bounds the depth of the recursion; a walk never nests deeper than its budget.\<close>

fun walkFrame :: "nat \<Rightarrow> net_ports list \<Rightarrow> nat \<Rightarrow> nat \<Rightarrow> walk \<Rightarrow> (bool \<times> walk) option" where
  "walkFrame fuel ns node entry_port (order, exit_node, exit_port, budget) =
     (if budget = 0 then Some (True, (order, exit_node, exit_port, budget))
      else case fuel of
        0 \<Rightarrow> None
      | Suc fuel \<Rightarrow>
          walk_ports (walkFrame fuel ns) ns node (ports_after entry_port)
            ((if entry_port = 0 then order @ [\<lparr>hop_node = node, port0_closed = False\<rparr>] else order),
             exit_node, exit_port, budget - 1))"

declare walkFrame.simps [simp del]

section \<open>Receive times\<close>

type_synonym times = "int list list \<times> int list \<times> bool list"

definition set_recv :: "nat \<Rightarrow> nat \<Rightarrow> int \<Rightarrow> int list list \<Rightarrow> int list list option" where
  "set_recv node port t rs =
     (if node < length rs \<and> port < length (rs ! node) then Some (rs[node := (rs ! node)[port := t]]) else None)"

fun time_ports :: "(nat \<Rightarrow> nat \<Rightarrow> int \<Rightarrow> times \<Rightarrow> (int \<times> times) option) \<Rightarrow> net_ports list \<Rightarrow> int \<Rightarrow> nat \<Rightarrow> nat list
    \<Rightarrow> int \<Rightarrow> times \<Rightarrow> (int \<times> times) option" where
  "time_ports recurse ns fwd node [] t s = Some (t, s)"
| "time_ports recurse ns fwd node (p # ps) t (rs, es, visited) = do {
     port \<leftarrow> get_port node p ns;
     if to_master port then Some (t, (rs, es, visited))
     else case (if port_up port then peer_node port else None) of
       Some peer \<Rightarrow>
         (if peer < length visited then
            (if \<not> visited ! peer then do {
               (t, (rs, es, visited)) \<leftarrow> recurse peer (peer_port port) (t + CABLE_DELAY) (rs, es, visited);
               let t = t + CABLE_DELAY;
               rs \<leftarrow> set_recv node p t rs;
               let es = (if p = 0 then es[node := t] else es);
               time_ports recurse ns fwd node ps (t + fwd) (rs, es, visited)
             }
             else time_ports recurse ns fwd node ps t (rs, es, visited))
          else None)
     | None \<Rightarrow> time_ports recurse ns fwd node ps t (rs, (if p = 0 then es[node := t] else es), visited)
   }"

text \<open>The fuel bounds the depth of the recursion, which visits a new node at every level.\<close>

fun buildReceiveTimes :: "nat \<Rightarrow> net_ports list \<Rightarrow> int list \<Rightarrow> nat \<Rightarrow> nat \<Rightarrow> int \<Rightarrow> times \<Rightarrow> (int \<times> times) option" where
  "buildReceiveTimes fuel ns fwds node entry_port t_in (rs, es, visited) =
     (if node \<ge> length visited \<or> node \<ge> length fwds then None
      else if visited ! node then Some (t_in, (rs, es, visited))
      else case fuel of
        0 \<Rightarrow> None
      | Suc fuel \<Rightarrow> do {
          rs \<leftarrow> set_recv node entry_port t_in rs;
          let es = (if entry_port = 0 then es[node := t_in] else es);
          let fwd = fwds ! node;
          time_ports (buildReceiveTimes fuel ns fwds) ns fwd node (ports_after entry_port) (t_in + fwd)
            (rs, es, visited[node := True])
        })"

declare buildReceiveTimes.simps [simp del]

section \<open>Rebuilding\<close>

definition port_linked :: "net_port \<Rightarrow> bool" where
  "port_linked port \<longleftrightarrow> to_master port \<or> (peer_node port \<noteq> None \<and> port_up port)"

fun dl_status :: "nat \<Rightarrow> net_ports \<Rightarrow> u16" where
  "dl_status p [] = 0"
| "dl_status p (port # ports) =
     (if port_linked port then push_bit (4 + p) 1 OR push_bit (9 + 2 * p) 1 else push_bit (8 + 2 * p) 1)
     OR dl_status (p + 1) ports"

definition computeDlStatus :: "network \<Rightarrow> network" where
  "computeDlStatus n = n\<lparr>nw_escs := map2 (\<lambda>ports esc. snd (emu_write 0x110 (le16 (dl_status 0 ports)) esc))
     (nw_ports n) (nw_escs n)\<rparr>"

definition isValidInjection :: "nat option \<Rightarrow> nat \<Rightarrow> network \<Rightarrow> bool" where
  "isValidInjection node port n \<longleftrightarrow> (case node of None \<Rightarrow> False | Some i \<Rightarrow> i < length (nw_ports n)) \<and> port < 4"

definition mark_master :: "nat option \<Rightarrow> nat \<Rightarrow> net_ports list \<Rightarrow> net_ports list" where
  "mark_master node port ns = (case node of None \<Rightarrow> ns
     | Some i \<Rightarrow> ns[i := (ns ! i)[port := (ns ! i ! port)\<lparr>to_master := True\<rparr>]])"

definition rebuild :: "network \<Rightarrow> network option" where
  "rebuild n = do {
     let has_nominal = isValidInjection (injection_node n) (injection_port n) n;
     let has_redundancy = isValidInjection (redundancy_node n) (redundancy_port n) n;
     let ns = map (map (\<lambda>p. p\<lparr>to_master := False\<rparr>)) (nw_ports n);
     let ns = (if has_nominal then mark_master (injection_node n) (injection_port n) ns else ns);
     let ns = (if has_redundancy then mark_master (redundancy_node n) (redundancy_port n) ns else ns);
     let count = length ns;
     let walk_budget = 2 * 4 * (count + 1);
     (nominal, exit_node, exit_port) \<leftarrow>
       (if has_nominal then do {
          (_, (order, exit_node, exit_port, budget)) \<leftarrow>
            walkFrame (Suc walk_budget) ns (the (injection_node n)) (injection_port n) ([], None, 0, walk_budget);
          Some (order, exit_node, exit_port)
        }
        else Some ([], None, 0));
     (redundant, intact) \<leftarrow>
       (if has_redundancy then do {
          (_, (order, exit)) \<leftarrow> walkFrame (Suc walk_budget) ns (the (redundancy_node n)) (redundancy_port n)
            ([], exit_node, exit_port, walk_budget);
          Some (order, exit_node = redundancy_node n \<and> exit_port = redundancy_port n)
        }
        else Some ([], False));
     let times = (replicate count (replicate 4 0), replicate count 0, replicate count False);
     (_, times) \<leftarrow> (if has_nominal
       then buildReceiveTimes (Suc count) ns (nw_fwd n) (the (injection_node n)) (injection_port n) 0 times
       else Some (0, times));
     (_, (rs, es, visited)) \<leftarrow> (if has_redundancy
       then buildReceiveTimes (Suc count) ns (nw_fwd n) (the (redundancy_node n)) (redundancy_port n) 0 times
       else Some (0, times));
     Some ((computeDlStatus (n\<lparr>nw_ports := ns, order_nominal := nominal, order_redundancy := redundant,
       ring_intact := intact, recv_offset := rs, epu_offset := es\<rparr>))\<lparr>dirty := False\<rparr>)
   }"

fun set_link_ports :: "nat \<Rightarrow> nat \<Rightarrow> bool \<Rightarrow> nat list \<Rightarrow> net_ports list \<Rightarrow> net_ports list option" where
  "set_link_ports a b up [] ns = Some ns"
| "set_link_ports a b up (p # ps) ns = do {
     port \<leftarrow> get_port a p ns;
     if peer_node port = Some b then do {
       ns \<leftarrow> set_port a p (port\<lparr>port_up := up\<rparr>) ns;
       other \<leftarrow> get_port b (peer_port port) ns;
       ns \<leftarrow> set_port b (peer_port port) (other\<lparr>port_up := up\<rparr>) ns;
       set_link_ports a b up ps ns
     }
     else set_link_ports a b up ps ns
   }"

definition setLinkState :: "nat \<Rightarrow> nat \<Rightarrow> bool \<Rightarrow> network \<Rightarrow> network option" where
  "setLinkState node_a node_b up n =
     (if node_a \<ge> length (nw_ports n) \<or> node_b \<ge> length (nw_ports n) then Some n
      else do {
        ns \<leftarrow> set_link_ports node_a node_b up [0, 1, 2, 3] (nw_ports n);
        rebuild (n\<lparr>nw_ports := ns\<rparr>)
      })"

section \<open>Routing a frame\<close>

definition set_esc :: "nat \<Rightarrow> emu \<Rightarrow> network \<Rightarrow> network" where
  "set_esc node e n = n\<lparr>nw_escs := (nw_escs n)[node := e]\<rparr>"

definition writeReceiveTimes :: "(nat \<Rightarrow> int \<Rightarrow> int) \<Rightarrow> nat \<Rightarrow> int \<Rightarrow> network \<Rightarrow> network option" where
  "writeReceiveTimes localClock node base n =
     (if node < length (nw_escs n) \<and> node < length (recv_offset n) \<and> node < length (epu_offset n) then
        let ports_raw = concat (map (\<lambda>off. le32 (of_int (localClock node (base + off)))) (recv_offset n ! node));
            e = snd (emu_write 0x900 ports_raw (nw_escs n ! node));
            epu = le64 (of_int (localClock node (base + epu_offset n ! node)));
            e = snd (emu_write 0x918 epu e)
        in Some (set_esc node e n)
      else None)"

fun latch_all :: "(nat \<Rightarrow> int \<Rightarrow> int) \<Rightarrow> hop list \<Rightarrow> int \<Rightarrow> network \<Rightarrow> network option" where
  "latch_all localClock [] base n = Some n"
| "latch_all localClock (h # hs) base n = do {
     n \<leftarrow> writeReceiveTimes localClock (hop_node h) base n;
     latch_all localClock hs base n
   }"

text \<open>The passages of one datagram; the first component says that a controller destroyed the frame.\<close>

fun run_hops :: "hop list \<Rightarrow> datagram_header \<Rightarrow> bytes \<Rightarrow> u16 \<Rightarrow> network
    \<Rightarrow> (bool \<times> datagram_header \<times> bytes \<times> u16 \<times> network) option" where
  "run_hops [] header data wkc n = Some (False, header, data, wkc, n)"
| "run_hops (h # hs) header data wkc n =
     (if port0_closed h \<and> dg_circulating header \<noteq> 0 then Some (True, header, data, wkc, n)
      else do {
        let header = (if port0_closed h then header\<lparr>dg_circulating := 1\<rparr> else header);
        e \<leftarrow> (if hop_node h < length (nw_escs n) then Some (nw_escs n ! hop_node h) else None);
        (header, data, wkc, e) \<leftarrow> processDatagram header data wkc e;
        run_hops hs header data wkc (set_esc (hop_node h) e n)
      })"

text \<open>One turn of the loop of \<open>route\<close>, on the datagram the pointers designate.\<close>

definition route_datagram :: "(nat \<Rightarrow> int \<Rightarrow> int) \<Rightarrow> int \<Rightarrow> hop list \<Rightarrow> bool \<Rightarrow> dgram \<Rightarrow> network
    \<Rightarrow> (bool \<times> dgram \<times> network) option" where
  "route_datagram localClock base order destroyed d n = do {
     let offset = (ucast (drop_bit 16 (dg_address (d_header d))) :: u16);
     let latch = (isPhysicalWrite (dg_command (d_header d)) \<and> offset = 0x900);
     (now_destroyed, header, data, wkc, n) \<leftarrow> run_hops order (d_header d) (d_payload d) (d_wkc d) n;
     let destroyed = (destroyed \<or> now_destroyed);
     n \<leftarrow> (if \<not> destroyed \<and> latch then latch_all localClock order base n else Some n);
     Some (destroyed, \<lparr>d_header = header, d_payload = data, d_wkc = wkc\<rparr>, n)
   }"

definition left_in :: "frame \<Rightarrow> nat" where
  "left_in f = (case fr_next f of None \<Rightarrow> 0 | Some next \<Rightarrow> Suc (length (fr_data f) - next))"

lemma peekDatagram_left:
  assumes "peekDatagram f = Some (Some (h, d, w), g)"
  shows "left_in g < left_in f" "fr_data g = fr_data f" "d = h + 10" "w = d + unat (dg_len (datagram_at g h))"
  using assms
  by (auto simp: peekDatagram_def left_in_def Let_def mem_read_eq_Some_iff bind_eq_Some_conv datagram_at_def
      split: option.splits if_splits)

lemma route_step_left:
  assumes "peekDatagram f = Some (Some (h, d, w), g)"
    and "mem_read (fr_data g) d (unat (dg_len (datagram_at g h))) = Some payload"
    and "mem_read (fr_data g) w 2 = Some raw" and "length (d_payload e) = length payload"
  shows "left_in (g\<lparr>fr_data := poke (fr_data g) h (enc_dgram e)\<rparr>) < left_in f"
  using peekDatagram_left [OF assms(1)] assms(2-4)
  by (auto simp: left_in_def mem_read_eq_Some_iff split: option.splits)

text \<open>The readings of the wall clock are numbered by the datagrams of the frame.\<close>

function route_loop :: "(nat \<Rightarrow> int \<Rightarrow> int) \<Rightarrow> (nat \<Rightarrow> int) \<Rightarrow> nat \<Rightarrow> hop list \<Rightarrow> bool \<Rightarrow> frame \<Rightarrow> network
    \<Rightarrow> (bool \<times> frame \<times> network) option" where
  "route_loop localClock epoch k order destroyed f n =
     (case peekDatagram f of
        None \<Rightarrow> None
      | Some (None, g) \<Rightarrow> Some (destroyed, g, n)
      | Some (Some (h, d, w), g) \<Rightarrow>
          (case mem_read (fr_data g) d (unat (dg_len (datagram_at g h))) of None \<Rightarrow> None | Some payload \<Rightarrow>
             case mem_read (fr_data g) w 2 of None \<Rightarrow> None | Some raw_wkc \<Rightarrow>
               case route_datagram localClock (epoch k) order destroyed
                   \<lparr>d_header = datagram_at g h, d_payload = payload, d_wkc = from_le raw_wkc\<rparr> n of
                 None \<Rightarrow> None
               | Some (destroyed, e, n) \<Rightarrow>
                   if length (d_payload e) = length payload
                   then route_loop localClock epoch (Suc k) order destroyed
                     (g\<lparr>fr_data := poke (fr_data g) h (enc_dgram e)\<rparr>) n
                   else None))"
  by pat_completeness auto
termination
  by (relation "measure (\<lambda>(localClock, epoch, k, order, destroyed, f, n). left_in f)")
    (auto intro: route_step_left)

declare route_loop.simps [simp del]

text \<open>The result says whether the frame is delivered back to the master.\<close>

definition route :: "(nat \<Rightarrow> int \<Rightarrow> int) \<Rightarrow> (nat \<Rightarrow> int) \<Rightarrow> bool \<Rightarrow> frame \<Rightarrow> network
    \<Rightarrow> (bool \<times> frame \<times> network) option" where
  "route localClock epoch redundancy f n = do {
     n \<leftarrow> (if dirty n then rebuild n else Some n);
     let order = (if redundancy then order_redundancy n else order_nominal n);
     (destroyed, f, n) \<leftarrow> route_loop localClock epoch 0 order False (resetContext f) n;
     Some (\<not> destroyed, f, n)
   }"

section \<open>Every rebuild ends\<close>

definition wf_port :: "nat \<Rightarrow> net_port \<Rightarrow> bool" where
  "wf_port count p \<longleftrightarrow> peer_port p < 4 \<and> (case peer_node p of None \<Rightarrow> True | Some j \<Rightarrow> j < count)"

definition wf_wiring :: "net_ports list \<Rightarrow> bool" where
  "wf_wiring ns \<longleftrightarrow> list_all (\<lambda>ps. length ps = 4 \<and> list_all (wf_port (length ns)) ps) ns"

lemma wf_port_flags [simp]:
  "wf_port k (p\<lparr>to_master := b\<rparr>) = wf_port k p" "wf_port k (p\<lparr>port_up := b\<rparr>) = wf_port k p"
  by (simp_all add: wf_port_def)

lemma ports_after_range: "p \<in> set (ports_after entry) \<Longrightarrow> p < 4"
proof -
  have "PORT_ORDER ! (m mod 4) < 4" for m
  proof -
    have "m mod 4 \<in> {0, 1, 2, 3}" using mod_less_divisor [of 4 m] by auto
    then show ?thesis by (auto simp: PORT_ORDER_def)
  qed
  then show "p \<in> set (ports_after entry) \<Longrightarrow> p < 4" by (auto simp: ports_after_def)
qed

lemma wiring_port:
  assumes "wf_wiring ns" and "node < length ns" and "p < 4"
  obtains port where "get_port node p ns = Some port" "peer_port port < 4"
    "\<And>j. peer_node port = Some j \<Longrightarrow> j < length ns"
proof -
  have "length (ns ! node) = 4" and "wf_port (length ns) (ns ! node ! p)"
    using assms by (auto simp: wf_wiring_def list_all_length)
  then show thesis using assms by (intro that [of "ns ! node ! p"]) (auto simp: get_port_def wf_port_def)
qed

abbreviation walk_budget :: "walk \<Rightarrow> nat" where
  "walk_budget s \<equiv> snd (snd (snd s))"

definition hops_in :: "nat \<Rightarrow> hop list \<Rightarrow> bool" where
  "hops_in count order \<longleftrightarrow> list_all (\<lambda>h. hop_node h < count) order"

lemma hops_in_simps [simp]:
  "hops_in count []" "hops_in count (order @ [h]) \<longleftrightarrow> hops_in count order \<and> hop_node h < count"
  by (auto simp: hops_in_def)

lemma walk_ports_total:
  assumes rec_ok: "\<And>peer pp s. peer < length ns \<Longrightarrow> pp < 4 \<Longrightarrow> walk_budget s \<le> fuel \<Longrightarrow> hops_in (length ns) (fst s)
      \<Longrightarrow> \<exists>left s'. recurse peer pp s = Some (left, s') \<and> walk_budget s' \<le> walk_budget s \<and> hops_in (length ns) (fst s')"
    and wf: "wf_wiring ns" and node: "node < length ns"
  shows "list_all (\<lambda>p. p < 4) ps \<Longrightarrow> walk_budget s \<le> fuel \<Longrightarrow> hops_in (length ns) (fst s)
    \<Longrightarrow> \<exists>left s'. walk_ports recurse ns node ps s = Some (left, s') \<and> walk_budget s' \<le> walk_budget s
      \<and> hops_in (length ns) (fst s')"
proof (induction ps arbitrary: s)
  case (Cons p ps)
  obtain order en ep b where s: "s = (order, en, ep, b)" by (cases s)
  obtain port where port: "get_port node p ns = Some port" "peer_port port < 4"
      "\<And>j. peer_node port = Some j \<Longrightarrow> j < length ns"
    using wiring_port [OF wf node, of p] Cons.prems by auto
  show ?case
  proof (cases "to_master port")
    case no: False
    show ?thesis
    proof (cases "if port_up port then peer_node port else None")
      case None
      then show ?thesis
        using no port(1) Cons.IH [of "(if p = 0 then order @ [\<lparr>hop_node = node, port0_closed = True\<rparr>] else order, en, ep, b)"]
          Cons.prems node by (auto simp: s)
    next
      case (Some peer)
      then have "peer < length ns" using port(3) by (auto split: if_splits)
      then obtain left o2 en2 ep2 b2 where r: "recurse peer (peer_port port) (order, en, ep, b) = Some (left, (o2, en2, ep2, b2))"
          "b2 \<le> b" "hops_in (length ns) o2"
        using rec_ok [of peer "peer_port port" s] port(2) Cons.prems(2,3) by (auto simp: s)
      show ?thesis
        using no port(1) Some r Cons.prems node
          Cons.IH [of "(if p = 0 then o2 @ [\<lparr>hop_node = node, port0_closed = False\<rparr>] else o2, en2, ep2, b2)"]
        by (cases left) (auto simp: s)
    qed
  qed (use port(1) s Cons.prems in auto)
qed auto

lemma walkFrame_total:
  assumes "wf_wiring ns"
  shows "node < length ns \<Longrightarrow> entry < 4 \<Longrightarrow> walk_budget s \<le> fuel \<Longrightarrow> hops_in (length ns) (fst s)
    \<Longrightarrow> \<exists>left s'. walkFrame fuel ns node entry s = Some (left, s') \<and> walk_budget s' \<le> walk_budget s
      \<and> hops_in (length ns) (fst s')"
proof (induction fuel arbitrary: node entry s)
  case 0
  then show ?case by (cases s) (auto simp: walkFrame.simps)
next
  case (Suc fuel)
  obtain order en ep b where s: "s = (order, en, ep, b)" by (cases s)
  have ports: "list_all (\<lambda>p. p < 4) (ports_after entry)" using ports_after_range by (auto simp: list_all_iff)
  let ?s = "(if entry = 0 then order @ [\<lparr>hop_node = node, port0_closed = False\<rparr>] else order, en, ep, b - 1)"
  have b: "walk_budget ?s \<le> fuel" "hops_in (length ns) (fst ?s)" using Suc.prems s by simp_all
  have "\<exists>left s'. walk_ports (walkFrame fuel ns) ns node (ports_after entry) ?s = Some (left, s')
      \<and> walk_budget s' \<le> walk_budget ?s \<and> hops_in (length ns) (fst s')"
    by (rule walk_ports_total [where fuel = fuel, OF _ assms Suc.prems(1) ports b]) (rule Suc.IH)
  then show ?case using Suc.prems(4) by (cases "b = 0") (auto simp: s walkFrame.simps)
qed

text \<open>The receive times: every nested call visits a node that was not visited before.\<close>

definition unvisited :: "times \<Rightarrow> nat" where
  "unvisited s = length (filter Not (snd (snd s)))"

definition sized :: "nat \<Rightarrow> times \<Rightarrow> bool" where
  "sized k s \<longleftrightarrow> (case s of (rs, es, visited) \<Rightarrow>
     length rs = k \<and> list_all (\<lambda>r. length r = 4) rs \<and> length es = k \<and> length visited = k)"

lemma set_recv_sized:
  assumes "sized k (rs, es, visited)" and "node < k" and "p < 4"
  shows "\<exists>rs'. set_recv node p t rs = Some rs' \<and> (\<forall>es'. length es' = k \<longrightarrow> sized k (rs', es', visited))"
proof -
  have "length (rs ! node) = 4" using assms by (auto simp: sized_def list_all_length)
  then have "set_recv node p t rs = Some (rs[node := (rs ! node)[p := t]])"
    using assms by (simp add: set_recv_def sized_def)
  moreover have "list_all (\<lambda>r. length r = 4) (rs[node := (rs ! node)[p := t]])"
    using assms \<open>length (rs ! node) = 4\<close> by (auto simp: sized_def list_all_length nth_list_update)
  ultimately show ?thesis using assms by (simp add: sized_def)
qed

lemma time_ports_total:
  assumes rec_ok: "\<And>peer pp t s. peer < length ns \<Longrightarrow> pp < 4 \<Longrightarrow> sized (length ns) s \<Longrightarrow> unvisited s \<le> fuel
      \<Longrightarrow> \<exists>t' s'. recurse peer pp t s = Some (t', s') \<and> sized (length ns) s' \<and> unvisited s' \<le> unvisited s"
    and wf: "wf_wiring ns" and node: "node < length ns"
  shows "list_all (\<lambda>p. p < 4) ps \<Longrightarrow> sized (length ns) s \<Longrightarrow> unvisited s \<le> fuel
    \<Longrightarrow> \<exists>t' s'. time_ports recurse ns fwd node ps t s = Some (t', s') \<and> sized (length ns) s' \<and> unvisited s' \<le> unvisited s"
proof (induction ps arbitrary: t s)
  case (Cons p ps)
  obtain rs es vs where s: "s = (rs, es, vs)" by (cases s)
  obtain port where port: "get_port node p ns = Some port" "peer_port port < 4"
      "\<And>j. peer_node port = Some j \<Longrightarrow> j < length ns"
    using wiring_port [OF wf node, of p] Cons.prems by auto
  have p: "list_all (\<lambda>p. p < 4) ps" "p < 4" using Cons.prems by simp_all
  have skip: "sized (length ns) (rs, if p = 0 then es[node := u] else es, vs)" for u
    using Cons.prems(2) by (simp add: s sized_def)
  show ?case
  proof (cases "to_master port")
    case no: False
    show ?thesis
    proof (cases "if port_up port then peer_node port else None")
      case None
      then show ?thesis
        using no port(1) Cons.IH [OF p(1) skip [of t], of t] Cons.prems(3) by (simp add: s unvisited_def)
    next
      case (Some peer)
      then have peer: "peer < length ns" using port(3) by (auto split: if_splits)
      then have pv: "peer < length vs" using Cons.prems(2) by (simp add: s sized_def)
      show ?thesis
      proof (cases "vs ! peer")
        case True
        then show ?thesis
          using no port(1) Some pv Cons.IH [OF p(1), of s t] Cons.prems by (simp add: s)
      next
        case False
        obtain t2 rs2 es2 vs2 where r: "recurse peer (peer_port port) (t + CABLE_DELAY) s = Some (t2, (rs2, es2, vs2))"
            "sized (length ns) (rs2, es2, vs2)" "unvisited (rs2, es2, vs2) \<le> unvisited s"
          using rec_ok [OF peer port(2) Cons.prems(2,3), of "t + CABLE_DELAY"] by auto
        have "length (if p = 0 then es2[node := t2 + CABLE_DELAY] else es2) = length ns"
          using r(2) by (simp add: sized_def)
        then obtain rs3 where rs3: "set_recv node p (t2 + CABLE_DELAY) rs2 = Some rs3"
            "sized (length ns) (rs3, if p = 0 then es2[node := t2 + CABLE_DELAY] else es2, vs2)"
          using set_recv_sized [OF r(2) node p(2), of "t2 + CABLE_DELAY"] by blast
        show ?thesis
          using no port(1) Some pv False r(1,3) rs3(1) Cons.prems(3)
            Cons.IH [OF p(1) rs3(2), of "t2 + CABLE_DELAY + fwd"] by (auto simp: s unvisited_def Let_def)
      qed
    qed
  qed (use port(1) s Cons.prems in auto)
qed auto

lemma count_unvisited:
  "i < length vs \<Longrightarrow> \<not> vs ! i \<Longrightarrow> length (filter Not (vs[i := True])) < length (filter Not vs)"
proof (induction vs arbitrary: i)
  case (Cons v vs)
  then show ?case by (cases i) auto
qed simp

lemma buildReceiveTimes_total:
  assumes "wf_wiring ns" and "length fwds = length ns"
  shows "node < length ns \<Longrightarrow> entry < 4 \<Longrightarrow> sized (length ns) s \<Longrightarrow> unvisited s \<le> fuel
    \<Longrightarrow> \<exists>t' s'. buildReceiveTimes fuel ns fwds node entry t s = Some (t', s')
      \<and> sized (length ns) s' \<and> unvisited s' \<le> unvisited s"
proof (induction fuel arbitrary: node entry t s)
  case 0
  obtain rs es vs where s: "s = (rs, es, vs)" by (cases s)
  have "vs ! node" using 0 by (auto simp: s unvisited_def sized_def filter_empty_conv)
  then show ?case using 0 assms(2) by (simp add: s buildReceiveTimes.simps sized_def)
next
  case (Suc fuel)
  obtain rs es vs where s: "s = (rs, es, vs)" by (cases s)
  have len: "length vs = length ns" using Suc.prems(3) by (simp add: s sized_def)
  show ?case
  proof (cases "vs ! node")
    case True
    then show ?thesis using Suc.prems assms(2) len by (simp add: s buildReceiveTimes.simps)
  next
    case False
    have "length (if entry = 0 then es[node := t] else es) = length ns"
      using Suc.prems(3) by (simp add: s sized_def)
    then obtain rs2 where rs2: "set_recv node entry t rs = Some rs2"
        "sized (length ns) (rs2, if entry = 0 then es[node := t] else es, vs)"
      using set_recv_sized [OF Suc.prems(3) [unfolded s] Suc.prems(1,2), of t] by blast
    let ?s = "(rs2, if entry = 0 then es[node := t] else es, vs[node := True])"
    have sz: "sized (length ns) ?s" using rs2(2) by (simp add: sized_def)
    have cnt: "unvisited ?s < unvisited s"
      using count_unvisited [of node vs] False Suc.prems(1) len by (simp add: unvisited_def s)
    have ports: "list_all (\<lambda>p. p < 4) (ports_after entry)" using ports_after_range by (auto simp: list_all_iff)
    have "\<exists>t' s'. time_ports (buildReceiveTimes fuel ns fwds) ns (fwds ! node) node (ports_after entry) (t + fwds ! node) ?s
        = Some (t', s') \<and> sized (length ns) s' \<and> unvisited s' \<le> unvisited ?s"
    proof (rule time_ports_total [where fuel = fuel, OF _ assms(1) Suc.prems(1) ports sz])
      show "unvisited ?s \<le> fuel" using cnt Suc.prems(4) by simp
    qed (rule Suc.IH)
    then show ?thesis
      using False Suc.prems(1) len rs2(1) assms(2) cnt by (auto simp: s buildReceiveTimes.simps Let_def)
  qed
qed


text \<open>The wiring as \<open>rebuild\<close> leaves it: only the master ports are marked anew.\<close>

definition marked :: "network \<Rightarrow> net_ports list" where
  "marked n =
     (let ns = map (map (\<lambda>p. p\<lparr>to_master := False\<rparr>)) (nw_ports n);
          ns = (if isValidInjection (injection_node n) (injection_port n) n
                then mark_master (injection_node n) (injection_port n) ns else ns)
      in if isValidInjection (redundancy_node n) (redundancy_port n) n
         then mark_master (redundancy_node n) (redundancy_port n) ns else ns)"

lemma wf_unmarked: "wf_wiring ns \<Longrightarrow> wf_wiring (map (map (\<lambda>p. p\<lparr>to_master := False\<rparr>)) ns)"
  by (auto simp: wf_wiring_def list_all_iff)

lemma length_mark_master [simp]: "length (mark_master node port ns) = length ns"
  by (cases node) (simp_all add: mark_master_def)

lemma wf_mark_master:
  assumes "wf_wiring ns"
  shows "wf_wiring (mark_master node port ns)"
proof (cases node)
  case (Some i)
  show ?thesis
  proof (cases "i < length ns")
    case True
    let ?ps = "(ns ! i)[port := (ns ! i ! port)\<lparr>to_master := True\<rparr>]"
    have "length ?ps = 4 \<and> list_all (wf_port (length ns)) ?ps"
      using assms True
      by (cases "port < 4") (auto simp: wf_wiring_def list_all_length nth_list_update list_update_beyond)
    then show ?thesis
      using assms True by (auto simp: wf_wiring_def mark_master_def Some list_all_length nth_list_update)
  qed (use assms in \<open>simp add: mark_master_def Some list_update_beyond\<close>)
qed (use assms in \<open>simp add: mark_master_def\<close>)

lemma wf_marked: "wf_wiring (nw_ports n) \<Longrightarrow> wf_wiring (marked n) \<and> length (marked n) = length (nw_ports n)"
  by (simp add: marked_def Let_def wf_mark_master wf_unmarked)

lemma computeDlStatus_select [simp]:
  "nw_ports (computeDlStatus n) = nw_ports n" "order_nominal (computeDlStatus n) = order_nominal n"
  "order_redundancy (computeDlStatus n) = order_redundancy n" "ring_intact (computeDlStatus n) = ring_intact n"
  "injection_node (computeDlStatus n) = injection_node n" "injection_port (computeDlStatus n) = injection_port n"
  "redundancy_node (computeDlStatus n) = redundancy_node n" "redundancy_port (computeDlStatus n) = redundancy_port n"
  "nw_fwd (computeDlStatus n) = nw_fwd n" "custom_topology (computeDlStatus n) = custom_topology n"
  "length (nw_ports n) = length (nw_escs n) \<Longrightarrow> length (nw_escs (computeDlStatus n)) = length (nw_escs n)"
  by (simp_all add: computeDlStatus_def)

text \<open>The walk from an injection point, when there is one.\<close>

definition walk_from :: "network \<Rightarrow> nat option \<Rightarrow> nat \<Rightarrow> nat option \<Rightarrow> nat \<Rightarrow> (bool \<times> walk) option" where
  "walk_from n node port en ep =
     (if isValidInjection node port n
      then walkFrame (Suc (2 * 4 * (length (nw_ports n) + 1))) (marked n) (the node) port
             ([], en, ep, 2 * 4 * (length (nw_ports n) + 1))
      else Some (False, ([], en, ep, 0)))"

definition times_from :: "network \<Rightarrow> nat option \<Rightarrow> nat \<Rightarrow> times \<Rightarrow> (int \<times> times) option" where
  "times_from n node port s =
     (if isValidInjection node port n
      then buildReceiveTimes (Suc (length (nw_ports n))) (marked n) (nw_fwd n) (the node) port 0 s
      else Some (0, s))"

lemma rebuild_parts:
  assumes wf: "wf_wiring (nw_ports n)" and fwd: "length (nw_fwd n) = length (nw_ports n)"
    and w1: "walk_from n (injection_node n) (injection_port n) None 0 = Some (l1, (order1, en, ep, b1))"
    and w2: "walk_from n (redundancy_node n) (redundancy_port n) en ep = Some (l2, (order2, en2, ep2, b2))"
  shows "\<exists>n'. rebuild n = Some n' \<and> nw_ports n' = marked n \<and> order_nominal n' = order1 \<and> order_redundancy n' = order2
    \<and> ring_intact n' = (isValidInjection (redundancy_node n) (redundancy_port n) n
        \<and> en = redundancy_node n \<and> ep = redundancy_port n)
    \<and> injection_node n' = injection_node n \<and> injection_port n' = injection_port n
    \<and> redundancy_node n' = redundancy_node n \<and> redundancy_port n' = redundancy_port n
    \<and> nw_fwd n' = nw_fwd n \<and> \<not> dirty n' \<and> custom_topology n' = custom_topology n
    \<and> (length (nw_escs n) = length (nw_ports n) \<longrightarrow> length (nw_escs n') = length (nw_escs n))"
proof -
  let ?k = "length (nw_ports n)"
  let ?t0 = "(replicate ?k (replicate 4 0), replicate ?k 0, replicate ?k False)"
  have wfm: "wf_wiring (marked n)" "length (marked n) = ?k" using wf_marked [OF wf] by simp_all
  have sz: "sized ?k ?t0" "unvisited ?t0 \<le> Suc ?k" by (simp_all add: sized_def unvisited_def list_all_iff)
  have times: "\<exists>t s'. times_from n node port s = Some (t, s') \<and> sized ?k s' \<and> unvisited s' \<le> Suc ?k"
    if "sized ?k s" "unvisited s \<le> Suc ?k" for node port s
  proof (cases "isValidInjection node port n")
    case True
    then have "the node < ?k" "port < 4" by (auto simp: isValidInjection_def split: option.splits)
    then show ?thesis
      using buildReceiveTimes_total [OF wfm(1), of "nw_fwd n" "the node" port s "Suc ?k" 0] that True wfm(2) fwd
      by (fastforce simp: times_from_def)
  qed (use that in \<open>simp add: times_from_def\<close>)
  obtain t1 s1 where t1: "times_from n (injection_node n) (injection_port n) ?t0 = Some (t1, s1)"
      "sized ?k s1" "unvisited s1 \<le> Suc ?k"
    using times [OF sz] by blast
  obtain t2 rs es vs where t2: "times_from n (redundancy_node n) (redundancy_port n) s1 = Some (t2, (rs, es, vs))"
    using times [OF t1(2,3)] by (metis prod.collapse)
  define n' where "n' = (computeDlStatus (n\<lparr>nw_ports := marked n, order_nominal := order1, order_redundancy := order2,
      ring_intact := (isValidInjection (redundancy_node n) (redundancy_port n) n
        \<and> en = redundancy_node n \<and> ep = redundancy_port n), recv_offset := rs, epu_offset := es\<rparr>))\<lparr>dirty := False\<rparr>"
  have ns: "(let has_nominal = isValidInjection (injection_node n) (injection_port n) n;
      ns = map (map (\<lambda>p. p\<lparr>to_master := False\<rparr>)) (nw_ports n) in
      if isValidInjection (redundancy_node n) (redundancy_port n) n
      then mark_master (redundancy_node n) (redundancy_port n)
        (if has_nominal then mark_master (injection_node n) (injection_port n) ns else ns)
      else if has_nominal then mark_master (injection_node n) (injection_port n) ns else ns) = marked n"
    by (simp add: marked_def Let_def)
  have "rebuild n = Some n'"
    using w1 w2 t1(1) t2
    unfolding rebuild_def walk_from_def times_from_def Let_def ns [unfolded Let_def] wfm(2) n'_def
    by (auto split: if_splits)
  then show ?thesis
    by (intro exI [of _ n']) (auto simp: n'_def wfm)
qed


lemma walk_from_total:
  assumes "wf_wiring (nw_ports n)"
  obtains left order en' ep' b where "walk_from n node port en ep = Some (left, (order, en', ep', b))"
    "hops_in (length (nw_ports n)) order"
proof (cases "isValidInjection node port n")
  case True
  then have "the node < length (marked n)" "port < 4"
    using wf_marked [OF assms] by (auto simp: isValidInjection_def split: option.splits)
  then show thesis
    using walkFrame_total [of "marked n" "the node" port "([], en, ep, 2 * 4 * (length (nw_ports n) + 1))"
        "Suc (2 * 4 * (length (nw_ports n) + 1))"] wf_marked [OF assms] True that
    by (fastforce simp: walk_from_def)
qed (use that in \<open>simp add: walk_from_def\<close>)

lemma rebuild_total:
  assumes "wf_wiring (nw_ports n)" and "length (nw_fwd n) = length (nw_ports n)"
  shows "\<exists>n'. rebuild n = Some n' \<and> \<not> dirty n' \<and> nw_ports n' = marked n
    \<and> hops_in (length (nw_ports n)) (order_nominal n') \<and> hops_in (length (nw_ports n)) (order_redundancy n')"
proof -
  obtain l1 o1 en ep b1 where w1: "walk_from n (injection_node n) (injection_port n) None 0 = Some (l1, (o1, en, ep, b1))"
      "hops_in (length (nw_ports n)) o1"
    using walk_from_total [OF assms(1)] .
  obtain l2 o2 en2 ep2 b2 where w2: "walk_from n (redundancy_node n) (redundancy_port n) en ep = Some (l2, (o2, en2, ep2, b2))"
      "hops_in (length (nw_ports n)) o2"
    using walk_from_total [OF assms(1)] .
  show ?thesis using rebuild_parts [OF assms w1(1) w2(1)] w1(2) w2(2) by auto
qed

section \<open>Lines and rings\<close>

definition line_node :: "nat \<Rightarrow> (nat \<Rightarrow> bool) \<Rightarrow> bool \<Rightarrow> bool \<Rightarrow> nat \<Rightarrow> net_ports" where
  "line_node n up head tail i =
     [if i = 0 then open_port\<lparr>to_master := head\<rparr> else (wire (i - 1) 1)\<lparr>port_up := up (i - 1)\<rparr>,
      if i = n - 1 then open_port\<lparr>to_master := tail\<rparr> else (wire (i + 1) 0)\<lparr>port_up := up i\<rparr>,
      open_port, open_port]"

text \<open>\<open>n\<close> slaves in a row; \<open>up i\<close> says whether the wire between \<open>i\<close> and \<open>i + 1\<close> is intact, \<open>head\<close> and
  \<open>tail\<close> whether the master is attached to the ends.\<close>

definition line :: "nat \<Rightarrow> (nat \<Rightarrow> bool) \<Rightarrow> bool \<Rightarrow> bool \<Rightarrow> net_ports list" where
  "line n up head tail = map (line_node n up head tail) [0..<n]"

lemma line_simps [simp]:
  "length (line n up head tail) = n" "i < n \<Longrightarrow> line n up head tail ! i = line_node n up head tail i"
  by (simp_all add: line_def)

lemma length_line_node [simp]: "length (line_node n up head tail i) = 4"
  by (simp add: line_node_def)

lemma get_port_line:
  "i < n \<Longrightarrow> p < 4 \<Longrightarrow> get_port i p (line n up head tail) = Some (line_node n up head tail i ! p)"
  by (simp add: get_port_def)

lemma ports_after_ends: "ports_after 0 = [3, 1, 2]" "ports_after 1 = [2, 0, 3]"
  by (simp_all add: ports_after_def indexInOrder_def PORT_ORDER_def upt_rec)

definition passes :: "nat \<Rightarrow> hop" where
  "passes i = \<lparr>hop_node = i, port0_closed = False\<rparr>"

definition turns :: "nat \<Rightarrow> hop" where
  "turns i = \<lparr>hop_node = i, port0_closed = True\<rparr>"


lemma line_ports:
  "line_node n up head tail i ! 3 = open_port" "line_node n up head tail i ! 2 = open_port"
  "line_node n up head tail i ! 0 = (if i = 0 then open_port\<lparr>to_master := head\<rparr> else (wire (i - 1) 1)\<lparr>port_up := up (i - 1)\<rparr>)"
  "line_node n up head tail i ! 1 = (if i = n - 1 then open_port\<lparr>to_master := tail\<rparr> else (wire (i + 1) 0)\<lparr>port_up := up i\<rparr>)"
  by (simp_all add: line_node_def)

lemma right_node:
  assumes "i < n"
  shows "walk_ports recurse (line n up head tail) i (ports_after 0) (order, en, ep, b) =
    (if i = n - 1 then Some (if tail then (True, (order, Some i, 1, b)) else (False, (order, en, ep, b)))
     else if up i then recurse (i + 1) 0 (order, en, ep, b) else Some (False, (order, en, ep, b)))"
proof -
  have get: "get_port i 3 (line n up head tail) = Some open_port" "get_port i 2 (line n up head tail) = Some open_port"
      "get_port i 1 (line n up head tail) = Some (if i = n - 1 then open_port\<lparr>to_master := tail\<rparr>
        else (wire (i + 1) 0)\<lparr>port_up := up i\<rparr>)"
    using assms by (simp_all only: get_port_line line_ports)
  show ?thesis
    unfolding ports_after_ends walk_ports.simps get
    by (cases "recurse (i + 1) 0 (order, en, ep, b)") (auto simp: open_port_def wire_def)
qed

lemma left_node:
  assumes "i < n"
  shows "walk_ports recurse (line n up head tail) i (ports_after 1) (order, en, ep, b) =
    (if i = 0 then Some (if head then (True, (order, Some 0, 0, b)) else (False, (order @ [turns 0], en, ep, b)))
     else if up (i - 1) then do {
       (left, (order, en, ep, b)) \<leftarrow> recurse (i - 1) 1 (order, en, ep, b);
       Some (left, (if left then order else order @ [passes i], en, ep, b))
     }
     else Some (False, (order @ [turns i], en, ep, b)))"
proof -
  have get: "get_port i 3 (line n up head tail) = Some open_port" "get_port i 2 (line n up head tail) = Some open_port"
      "get_port i 0 (line n up head tail) = Some (if i = 0 then open_port\<lparr>to_master := head\<rparr>
        else (wire (i - 1) 1)\<lparr>port_up := up (i - 1)\<rparr>)"
    using assms by (simp_all only: get_port_line line_ports)
  show ?thesis
    unfolding ports_after_ends walk_ports.simps get
    by (cases "recurse (i - 1) 1 (order, en, ep, b)")
      (auto simp: open_port_def wire_def turns_def passes_def)
qed

lemma walkFrame_step:
  "0 < b \<Longrightarrow> walkFrame (Suc fuel) ns node entry (order, en, ep, b) =
    walk_ports (walkFrame fuel ns) ns node (ports_after entry)
      (if entry = 0 then order @ [passes node] else order, en, ep, b - 1)"
  by (simp add: walkFrame.simps passes_def)

text \<open>A frame entering node \<open>i\<close> by port 0 meets every slave up to the break or the end, then turns
  back, or leaves by the tail.\<close>

lemma walk_right:
  assumes "m < n" and "m = n - 1 \<or> \<not> up m"
  shows "i + d = m \<Longrightarrow> (\<forall>j. i \<le> j \<and> j < m \<longrightarrow> up j) \<Longrightarrow> d < fuel \<Longrightarrow> d < b
    \<Longrightarrow> walkFrame fuel (line n up head tail) i 0 (order, en, ep, b) =
      Some (tail \<and> m = n - 1, (order @ map passes [i..<Suc m],
        if tail \<and> m = n - 1 then Some m else en, if tail \<and> m = n - 1 then 1 else ep, b - Suc d))"
proof (induction d arbitrary: i fuel b order)
  case 0
  then obtain f where f: "fuel = Suc f" by (cases fuel) auto
  show ?case using 0 assms by (auto simp: f walkFrame_step right_node)
next
  case (Suc d)
  then obtain f where f: "fuel = Suc f" by (cases fuel) auto
  have i: "i < n" "i \<noteq> n - 1" "up i" "[i..<Suc m] = i # [Suc i..<Suc m]"
    using Suc.prems assms by (auto simp: upt_conv_Cons)
  have next_node: "walkFrame f (line n up head tail) (i + 1) 0 (order @ [passes i], en, ep, b - 1) =
      Some (tail \<and> m = n - 1, ((order @ [passes i]) @ map passes [i + 1..<Suc m],
        if tail \<and> m = n - 1 then Some m else en, if tail \<and> m = n - 1 then 1 else ep, b - 1 - Suc d))"
    using Suc.prems by (intro Suc.IH) (auto simp: f)
  show ?case
    using Suc.prems(4) i(1-3) next_node unfolding i(4)
    by (simp add: f walkFrame_step right_node)
qed

text \<open>A frame entering node \<open>i\<close> by port 1 streams to the head; when it finds a break instead, it is
  processed on its way back.\<close>

lemma walk_left:
  assumes "m = 0 \<or> \<not> up (m - 1)"
  shows "m + d = i \<Longrightarrow> i < n \<Longrightarrow> (\<forall>j. m \<le> j \<and> j < i \<longrightarrow> up j) \<Longrightarrow> d < fuel \<Longrightarrow> d < b
    \<Longrightarrow> walkFrame fuel (line n up head tail) i 1 (order, en, ep, b) =
      (if head \<and> m = 0 then Some (True, (order, Some 0, 0, b - Suc d))
       else Some (False, (order @ turns m # map passes [Suc m..<Suc i], en, ep, b - Suc d)))"
proof (induction d arbitrary: i fuel b)
  case 0
  then obtain f where f: "fuel = Suc f" by (cases fuel) auto
  show ?case using 0 assms left_node [of i n] by (auto simp: f walkFrame_step)
next
  case (Suc d)
  then obtain f where f: "fuel = Suc f" by (cases fuel) auto
  have i: "i \<noteq> 0" "up (i - 1)" "[Suc m..<Suc i] = [Suc m..<Suc (i - 1)] @ [i]"
    using Suc.prems by auto
  have next_node: "walkFrame f (line n up head tail) (i - 1) 1 (order, en, ep, b - 1) =
      (if head \<and> m = 0 then Some (True, (order, Some 0, 0, b - 1 - Suc d))
       else Some (False, (order @ turns m # map passes [Suc m..<Suc (i - 1)], en, ep, b - 1 - Suc d)))"
    using Suc.prems by (intro Suc.IH) (auto simp: f)
  show ?case
    using Suc.prems(2,5) i(1,2) next_node left_node [of i n] unfolding i(3)
    by (simp add: f walkFrame_step)
qed


text \<open>The wiring the constructor builds, and what the other operations make of a line.\<close>

definition partial_line :: "nat \<Rightarrow> nat \<Rightarrow> net_ports list" where
  "partial_line n k = map (\<lambda>i.
     [if 0 < i \<and> i \<le> k then wire (i - 1) 1 else open_port, if i < k then wire (i + 1) 0 else open_port,
      open_port, open_port]) [0..<n]"

lemma chain_partial: "k + d = n - 1 \<Longrightarrow> chain [k..<n - 1] (partial_line n k) = Some (partial_line n (n - 1))"
proof (induction d arbitrary: k)
  case (Suc d)
  have len: "length (partial_line n j) = n" "i < n \<Longrightarrow> length (partial_line n j ! i) = 4" for i j
    by (simp_all add: partial_line_def)
  have k: "k < n" "Suc k < n" using Suc.prems by simp_all
  let ?ns = "(partial_line n k)[k := (partial_line n k ! k)[1 := wire (k + 1) 0]]"
  have 1: "set_port k 1 (wire (k + 1) 0) (partial_line n k) = Some ?ns"
    using k len by (simp add: set_port_def)
  have "length (?ns ! Suc k) = 4" using k len by simp
  then have 2: "set_port (k + 1) 0 (wire k 1) ?ns = Some (?ns[Suc k := (?ns ! Suc k)[0 := wire k 1]])"
    using k len by (simp add: set_port_def)
  have 3: "?ns[Suc k := (?ns ! Suc k)[0 := wire k 1]] = partial_line n (Suc k)"
  proof (rule nth_equalityI)
    fix i assume "i < length (?ns[Suc k := (?ns ! Suc k)[0 := wire k 1]])"
    then have "i < n" by (simp add: len)
    then show "?ns[Suc k := (?ns ! Suc k)[0 := wire k 1]] ! i = partial_line n (Suc k) ! i"
      using k by (cases "i = k"; cases "i = Suc k") (auto simp: partial_line_def nth_list_update le_Suc_eq less_Suc_eq)
  qed (simp add: len)
  have "[k..<n - 1] = k # [Suc k..<n - 1]" using Suc.prems by (simp add: upt_conv_Cons)
  then show ?case using 1 2 3 Suc.IH [of "Suc k"] Suc.prems by simp
qed simp

lemma partial_line_ends:
  "partial_line n 0 = replicate n no_ports" "partial_line n (n - 1) = line n (\<lambda>i. True) False False"
proof -
  show "partial_line n 0 = replicate n no_ports"
    by (intro nth_equalityI) (simp_all add: partial_line_def no_ports_def numeral_eq_Suc)
  show "partial_line n (n - 1) = line n (\<lambda>i. True) False False"
    by (intro nth_equalityI) (auto simp: partial_line_def line_node_def open_port_def wire_def)
qed

lemma new_is_line:
  assumes "slaves \<noteq> []" and "length delays = length slaves"
  shows "\<exists>n. EmulatedNetwork_new slaves delays = Some n \<and> nw_ports n = line (length slaves) (\<lambda>i. True) False False
    \<and> injection_node n = Some 0 \<and> injection_port n = 0 \<and> redundancy_node n = None \<and> nw_fwd n = delays
    \<and> nw_escs n = slaves"
  using chain_partial [of 0 "length slaves - 1" "length slaves"] partial_line_ends [of "length slaves"]
  by (simp add: EmulatedNetwork_new_def buildLine_def)

lemma wf_line: "wf_wiring (line n up head tail)"
  by (auto simp: wf_wiring_def wf_port_def list_all_iff line_def line_node_def open_port_def wire_def)

lemma unmark_line: "map (map (\<lambda>p. p\<lparr>to_master := False\<rparr>)) (line n up head tail) = line n up False False"
  by (auto simp: line_def line_node_def open_port_def wire_def)

lemma mark_head: "0 < n \<Longrightarrow> mark_master (Some 0) 0 (line n up False tail) = line n up True tail"
  by (intro nth_equalityI) (auto simp: mark_master_def nth_list_update line_node_def)

lemma mark_tail: "0 < n \<Longrightarrow> mark_master (Some (n - 1)) 1 (line n up head False) = line n up head True"
  by (intro nth_equalityI) (auto simp: mark_master_def nth_list_update line_node_def)

lemma set_link_line:
  assumes "Suc k < n"
  shows "set_link_ports k (Suc k) b [0, 1, 2, 3] (line n up head tail) = Some (line n (up(k := b)) head tail)"
proof -
  let ?L = "line n up head tail"
  let ?M = "?L[k := (?L ! k)[1 := (wire (k + 1) 0)\<lparr>port_up := b\<rparr>]]"
  let ?N = "?M[Suc k := (?M ! Suc k)[0 := (wire k 1)\<lparr>port_up := b\<rparr>]]"
  have N: "?N = line n (up(k := b)) head tail"
  proof (rule nth_equalityI)
    fix i assume "i < length ?N"
    then show "?N ! i = line n (up(k := b)) head tail ! i"
      using assms by (cases "i = k"; cases "i = Suc k") (auto simp: line_node_def nth_list_update)
  qed simp
  have ports: "get_port k 0 ?L = Some (line_node n up head tail k ! 0)"
      "get_port k 1 ?L = Some ((wire (k + 1) 0)\<lparr>port_up := up k\<rparr>)"
    using assms by (simp_all add: get_port_line line_node_def)
  have first: "peer_node (line_node n up head tail k ! 0) \<noteq> Some (Suc k)"
    by (auto simp: line_node_def open_port_def wire_def)
  have last: "get_port k p (line n v head tail) = Some open_port" if "p = 2 \<or> p = 3" for p v
    using that assms by (auto simp: get_port_line line_node_def)
  have m: "set_port k 1 ((wire (k + 1) 0)\<lparr>port_up := b\<rparr>) ?L = Some ?M" using assms by (simp add: set_port_def)
  have g: "get_port (Suc k) 0 ?M = Some ((wire k 1)\<lparr>port_up := up k\<rparr>)"
    using assms by (simp add: get_port_def line_node_def)
  have n: "set_port (Suc k) 0 ((wire k 1)\<lparr>port_up := b\<rparr>) ?M = Some ?N" using assms by (simp add: set_port_def)
  show ?thesis
    using ports first m g n last unfolding N by (simp add: wire_def open_port_def)
qed


lemma rebuild_line:
  assumes line: "nw_ports n = line k up h t" and k: "0 < k" and fwd: "length (nw_fwd n) = k"
    and inj: "injection_node n = Some 0" "injection_port n = 0"
    and red: "redundancy_node n = Some (k - 1)" "redundancy_port n = 1"
    and m: "m < k" "m = k - 1 \<or> \<not> up m" "\<forall>j. j < m \<longrightarrow> up j"
    and q: "q < k" "q = 0 \<or> \<not> up (q - 1)" "\<forall>j. q \<le> j \<and> j < k - 1 \<longrightarrow> up j"
  shows "\<exists>n'. rebuild n = Some n' \<and> nw_ports n' = line k up True True \<and> \<not> dirty n'
    \<and> order_nominal n' = map passes [0..<Suc m]
    \<and> order_redundancy n' = (if q = 0 then [] else turns q # map passes [Suc q..<k])
    \<and> ring_intact n' = (m = k - 1)
    \<and> injection_node n' = Some 0 \<and> injection_port n' = 0 \<and> redundancy_node n' = Some (k - 1)
    \<and> redundancy_port n' = 1 \<and> nw_fwd n' = nw_fwd n"
proof -
  let ?b = "2 * 4 * (k + 1)"
  have valid: "isValidInjection (Some 0) 0 n" "isValidInjection (Some (k - 1)) 1 n"
    using line k by (simp_all add: isValidInjection_def)
  have marked: "marked n = line k up True True"
    using valid line inj red k mark_head [of k up False] mark_tail [of k up True]
    by (simp add: marked_def Let_def unmark_line)
  have w1: "walk_from n (Some 0) 0 None 0 =
      Some (m = k - 1, (map passes [0..<Suc m], if m = k - 1 then Some m else None, if m = k - 1 then 1 else 0, ?b - Suc m))"
    using walk_right [where up = up, OF m(1,2), of 0 m "Suc ?b" ?b True True "[]" None 0] m valid(1) line
    by (simp add: walk_from_def marked)
  have q_range: "Suc (k - 1) = k" using k by simp
  obtain l2 en2 ep2 b2 where w2: "walk_from n (Some (k - 1)) 1 (if m = k - 1 then Some m else None) (if m = k - 1 then 1 else 0) =
      Some (l2, (if q = 0 then [] else turns q # map passes [Suc q..<k], en2, ep2, b2))"
    using walk_left [where up = up, OF q(2), of "k - 1 - q" "k - 1" k "Suc ?b" ?b True True "[]"
        "if m = k - 1 then Some m else None" "if m = k - 1 then 1 else 0"] q k valid(2) line
    by (cases "q = 0") (auto simp: walk_from_def marked q_range)
  obtain n' where "rebuild n = Some n'" "nw_ports n' = marked n" "order_nominal n' = map passes [0..<Suc m]"
      "order_redundancy n' = (if q = 0 then [] else turns q # map passes [Suc q..<k])"
      "ring_intact n' = (isValidInjection (redundancy_node n) (redundancy_port n) n
        \<and> (if m = k - 1 then Some m else None) = redundancy_node n \<and> (if m = k - 1 then 1 else 0) = redundancy_port n)"
      "injection_node n' = injection_node n" "injection_port n' = injection_port n"
      "redundancy_node n' = redundancy_node n" "redundancy_port n' = redundancy_port n"
      "nw_fwd n' = nw_fwd n" "\<not> dirty n'"
    using rebuild_parts [of n, unfolded inj red, OF _ _ w1 w2] wf_line line fwd inj red by auto
  then show ?thesis using marked inj red valid(2) by (intro exI [of _ n']) auto
qed

section \<open>Routing, datagram by datagram\<close>

fun route_list :: "(nat \<Rightarrow> int \<Rightarrow> int) \<Rightarrow> (nat \<Rightarrow> int) \<Rightarrow> nat \<Rightarrow> hop list \<Rightarrow> bool \<Rightarrow> dgram list \<Rightarrow> network
    \<Rightarrow> (bool \<times> dgram list \<times> network) option" where
  "route_list localClock epoch k order destroyed [] n = Some (destroyed, [], n)"
| "route_list localClock epoch k order destroyed (d # ds) n = do {
     (destroyed, e, n) \<leftarrow> route_datagram localClock (epoch k) order destroyed d n;
     if length (d_payload e) = length (d_payload d) then do {
       (destroyed, es, n) \<leftarrow> route_list localClock epoch (Suc k) order destroyed ds n;
       Some (destroyed, e # es, n)
     }
     else None
   }"

definition same_frame_fields :: "datagram_header \<Rightarrow> datagram_header \<Rightarrow> bool" where
  "same_frame_fields h h' \<longleftrightarrow> dg_command h' = dg_command h \<and> dg_index h' = dg_index h \<and> dg_len h' = dg_len h
     \<and> dg_multiple h' = dg_multiple h"

lemma request_header:
  "processEcatRequest h d w e = Some (h', d', w', e') \<Longrightarrow> same_frame_fields h h'"
  by (auto simp: processEcatRequest_def Let_def same_frame_fields_def next_position_def bind_eq_Some_conv
      split: prod.splits option.splits Command.splits)

lemma run_hops_header:
  "run_hops hs h d w n = Some (x, h', d', w', n') \<Longrightarrow> same_frame_fields h h'"
proof (induction hs arbitrary: h d w n)
  case (Cons p hs)
  show ?case
  proof (cases "port0_closed p \<and> dg_circulating h \<noteq> 0")
    case False
    let ?h = "if port0_closed p then h\<lparr>dg_circulating := 1\<rparr> else h"
    obtain e h1 d1 w1 e1 where 1: "processDatagram ?h d w e = Some (h1, d1, w1, e1)"
        "run_hops hs h1 d1 w1 (set_esc (hop_node p) e1 n) = Some (x, h', d', w', n')"
      using Cons.prems False by (auto simp: Let_def bind_eq_Some_conv simp del: run_hops.simps(1))
    have "same_frame_fields ?h h1"
      using 1(1) request_header by (auto simp: processDatagram_def bind_eq_Some_conv)
    then show ?thesis using Cons.IH [OF 1(2)] by (auto simp: same_frame_fields_def split: if_splits)
  qed (use Cons.prems in \<open>auto simp: same_frame_fields_def\<close>)
qed (simp add: same_frame_fields_def)

lemma route_datagram_header:
  "route_datagram lc base order x d n = Some (x', e, n') \<Longrightarrow> same_frame_fields (d_header d) (d_header e)"
  by (auto simp: route_datagram_def Let_def bind_eq_Some_conv dest!: run_hops_header)

lemma route_list_shape:
  assumes "route_list lc ep k order x ds n = Some (x', es, n')" and "list_all wf_dgram ds"
  shows "list_all2 (\<lambda>d e. same_frame_fields (d_header d) (d_header e)) ds es \<and> list_all wf_dgram es
    \<and> length (layout es) = length (layout ds)"
  using assms
proof (induction ds arbitrary: k x n es)
  case (Cons d ds)
  obtain x1 e n1 es1 where 1: "route_datagram lc (ep k) order x d n = Some (x1, e, n1)"
      "length (d_payload e) = length (d_payload d)"
      "route_list lc ep (Suc k) order x1 ds n1 = Some (x', es1, n')" "es = e # es1"
    using Cons.prems(1) by (auto simp: bind_eq_Some_conv split: if_splits)
  have "wf_dgram e"
    using route_datagram_header [OF 1(1)] 1(2) Cons.prems(2) by (simp add: wf_dgram_def same_frame_fields_def)
  then show ?case
    using Cons.IH [OF 1(3)] Cons.prems(2) 1 route_datagram_header [OF 1(1)] by simp
qed simp

lemma chained_same:
  "list_all2 (\<lambda>d e. same_frame_fields (d_header d) (d_header e)) ds es \<Longrightarrow> chained ds \<Longrightarrow> chained es"
proof (induction ds arbitrary: es rule: chained.induct)
  case (3 d d' ds)
  then show ?case by (auto simp: list_all2_Cons1 same_frame_fields_def)
qed (auto simp: list_all2_Cons1 same_frame_fields_def)

lemma peekDatagram_at:
  assumes "fr_next f = Some pos" and "at (fr_data f) pos (enc_dgram d)" and "wf_dgram d"
  shows "peekDatagram f = Some (Some (pos, pos + 10, pos + 10 + length (d_payload d)),
      f\<lparr>fr_next := if dg_multiple (d_header d) = 0 then None else Some (pos + length (enc_dgram d))\<rparr>)"
proof -
  have "at (fr_data f) pos (enc_datagram_header (d_header d))"
    using assms(2) by (simp add: enc_dgram_def at_append)
  then have "mem_read (fr_data f) pos 10 = Some (enc_datagram_header (d_header d))"
    by (rule at_mem_read) (simp add: dg.length_enc)
  then show ?thesis
    using assms(1,3) by (simp add: peekDatagram_def dg.dec_enc wf_dgram_def Let_def)
qed

lemma route_loop_layout:
  assumes "chained ds" and "list_all wf_dgram ds" and "at (fr_data f) pos (layout ds)" and "fr_next f = Some pos"
  shows "route_loop lc ep k order x f n = map_option (\<lambda>(x', es, n').
      (x', f\<lparr>fr_data := poke (fr_data f) pos (layout es), fr_next := None\<rparr>, n')) (route_list lc ep k order x ds n)"
  using assms
proof (induction ds arbitrary: f pos k x n)
  case (Cons d ds)
  have d: "at (fr_data f) pos (enc_dgram d)" "wf_dgram d" using Cons.prems by (simp_all add: at_append)
  note ptr = nextDatagram_at [OF Cons.prems(4) d]
  define g where "g = f\<lparr>fr_next := if dg_multiple (d_header d) = 0 then None else Some (pos + length (enc_dgram d))\<rparr>"
  have peek: "peekDatagram f = Some (Some (pos, pos + 10, pos + 10 + length (d_payload d)), g)"
    unfolding g_def by (rule peekDatagram_at [OF Cons.prems(4) d])
  have gd: "fr_data g = fr_data f" by (simp add: g_def)
  have bound: "pos + 12 + length (d_payload d) \<le> length (fr_data f)" using at_bound [OF d(1)] by simp
  have hdr: "datagram_at g pos = d_header d" using ptr(2) by (simp add: datagram_at_def gd)
  have len: "unat (dg_len (d_header d)) = length (d_payload d)" using d(2) by (simp add: wf_dgram_def)
  have pay: "mem_read (fr_data g) (pos + 10) (unat (dg_len (d_header d))) = Some (d_payload d)"
    using ptr(3) bound len by (simp add: gd)
  have wkc: "mem_read (fr_data g) (pos + 10 + length (d_payload d)) 2 = Some (le16 (d_wkc d))"
    using d(1) by (intro at_mem_read) (simp_all add: enc_dgram_def at_append dg.length_enc gd)
  have whole: "\<lparr>d_header = d_header d, d_payload = d_payload d, d_wkc = d_wkc d\<rparr> = d" by simp
  show ?case
  proof (cases "route_datagram lc (ep k) order x d n")
    case None
    then show ?thesis
      by (subst route_loop.simps) (simp add: peek hdr pay wkc whole)
  next
    case (Some r)
    obtain x1 e n1 where r: "r = (x1, e, n1)" by (cases r)
    let ?f = "g\<lparr>fr_data := poke (fr_data f) pos (enc_dgram e)\<rparr>"
    have step: "route_loop lc ep k order x f n =
        (if length (d_payload e) = length (d_payload d) then route_loop lc ep (Suc k) order x1 ?f n1 else None)"
      using Some by (subst route_loop.simps) (simp add: peek hdr pay [unfolded gd] wkc [unfolded gd] r gd whole)
    show ?thesis
    proof (cases "length (d_payload e) = length (d_payload d)")
      case same: True
      show ?thesis
      proof (cases "ds = []")
        case True
        then have "dg_multiple (d_header d) = 0" using Cons.prems(1) by simp
        then show ?thesis
          using step same Some r True
          by (simp add: g_def route_loop.simps [of lc ep "Suc k"] peekDatagram_def)
      next
        case False
        then have m: "dg_multiple (d_header d) = 1" "chained ds" using Cons.prems(1) by (cases ds; simp)+
        have rest: "at (fr_data ?f) (pos + length (enc_dgram d)) (layout ds)"
          using Cons.prems(3) same bound by (auto simp: at_append intro!: at_poke_disjoint)
        have "route_loop lc ep (Suc k) order x1 ?f n1 = map_option (\<lambda>(x', es, n').
            (x', ?f\<lparr>fr_data := poke (fr_data ?f) (pos + length (enc_dgram d)) (layout es), fr_next := None\<rparr>, n'))
            (route_list lc ep (Suc k) order x1 ds n1)"
          using Cons.IH [OF m(2) _ rest] Cons.prems(2) m(1) by (simp add: g_def)
        moreover have "poke (poke (fr_data f) pos (enc_dgram e)) (pos + length (enc_dgram d)) (layout es)
            = poke (fr_data f) pos (enc_dgram e @ layout es)"
          if "route_list lc ep (Suc k) order x1 ds n1 = Some (x', es, n')" for x' es n'
          using route_list_shape [OF that] Cons.prems(2) at_bound [OF Cons.prems(3)] same
          by (intro poke_poke_adjacent) simp_all
        ultimately show ?thesis
          using step same Some r m(1)
          by (cases "route_list lc ep (Suc k) order x1 ds n1") (auto simp: g_def split: prod.splits)
      qed
    qed (use step Some r in simp)
  qed
qed simp

section \<open>Properties\<close>

text \<open>(C33) Recomputing the layout of a segment always ends, for every wiring whose peers exist, cyclic
  ones included: the walks stop within their budget, the receive times visit each node once, and the
  computed orders name existing slaves only.\<close>

theorem rebuild_terminates:
  assumes "wf_wiring (nw_ports n)" and "length (nw_fwd n) = length (nw_ports n)"
  shows "\<exists>n'. rebuild n = Some n' \<and> \<not> dirty n'
    \<and> hops_in (length (nw_ports n)) (order_nominal n') \<and> hops_in (length (nw_ports n)) (order_redundancy n')"
  using rebuild_total [OF assms] by blast

theorem rebuild_terminates_witness:
  "\<exists>n'. rebuild \<lparr>nw_ports = [[wire 1 1, wire 1 0, open_port, open_port], [wire 0 1, wire 0 0, open_port, open_port]],
      nw_escs = [], nw_fwd = [300, 300], injection_node = Some 0, injection_port = 2, redundancy_node = None,
      redundancy_port = 0, order_nominal = [], order_redundancy = [], recv_offset = [], epu_offset = [],
      custom_topology = True, ring_intact = False, dirty = True\<rparr> = Some n' \<and> hops_in 2 (order_nominal n')"
  using rebuild_terminates [of "\<lparr>nw_ports = [[wire 1 1, wire 1 0, open_port, open_port],
      [wire 0 1, wire 0 0, open_port, open_port]],
      nw_escs = [], nw_fwd = [300, 300], injection_node = Some 0, injection_port = 2, redundancy_node = None,
      redundancy_port = 0, order_nominal = [], order_redundancy = [], recv_offset = [], epu_offset = [],
      custom_topology = True, ring_intact = False, dirty = True\<rparr>"]
  by (auto simp: wf_wiring_def wf_port_def wire_def open_port_def numeral_2_eq_2)

text \<open>(C31) Breaking a wire of a closed ring splits the slaves between the two injection points: the
  nominal frame is processed by the slaves before the break, the redundancy frame by those behind it
  (turning at the closed port), so every slave processes a datagram exactly once; healing the wire
  closes the ring again, the nominal frame then meets all slaves and the redundancy frame none.\<close>

theorem ring_break_partitions:
  assumes "length delays = length slaves" and "Suc k < length slaves"
  shows "\<exists>n0 n1 n2. EmulatedNetwork_new slaves delays = Some n0
    \<and> setLinkState k (Suc k) False (setRedundancyInjection (Some (length slaves - 1)) 1 n0) = Some n1
    \<and> order_nominal n1 = map passes [0..<Suc k]
    \<and> order_redundancy n1 = turns (Suc k) # map passes [Suc (Suc k)..<length slaves] \<and> \<not> ring_intact n1
    \<and> map hop_node (order_nominal n1 @ order_redundancy n1) = [0..<length slaves]
    \<and> setLinkState k (Suc k) True n1 = Some n2
    \<and> order_nominal n2 = map passes [0..<length slaves] \<and> order_redundancy n2 = [] \<and> ring_intact n2"
proof -
  let ?c = "length slaves"
  have c: "0 < ?c" "slaves \<noteq> []" using assms(2) by (auto simp del: length_greater_0_conv)
  obtain n0 where n0: "EmulatedNetwork_new slaves delays = Some n0" "nw_ports n0 = line ?c (\<lambda>i. True) False False"
      "injection_node n0 = Some 0" "injection_port n0 = 0" "nw_fwd n0 = delays"
    using new_is_line [of slaves delays] assms c by auto
  let ?n = "setRedundancyInjection (Some (?c - 1)) 1 n0"
  have link1: "setLinkState k (Suc k) False ?n = rebuild (?n\<lparr>nw_ports := line ?c ((\<lambda>i. True)(k := False)) False False\<rparr>)"
    using set_link_line [OF assms(2), of False "\<lambda>i. True" False False] n0(2) assms(2)
    by (simp add: setLinkState_def setRedundancyInjection_def)
  obtain n1 where n1: "setLinkState k (Suc k) False ?n = Some n1"
      "nw_ports n1 = line ?c ((\<lambda>i. True)(k := False)) True True"
      "order_nominal n1 = map passes [0..<Suc k]"
      "order_redundancy n1 = turns (Suc k) # map passes [Suc (Suc k)..<?c]" "\<not> ring_intact n1"
      "injection_node n1 = Some 0" "injection_port n1 = 0" "redundancy_node n1 = Some (?c - 1)"
      "redundancy_port n1 = 1" "nw_fwd n1 = delays"
    using rebuild_line [of "?n\<lparr>nw_ports := line ?c ((\<lambda>i. True)(k := False)) False False\<rparr>" ?c
        "(\<lambda>i. True)(k := False)" False False k "Suc k"] n0 assms c unfolding link1
    by (auto simp: setRedundancyInjection_def)
  have link2: "setLinkState k (Suc k) True n1 = rebuild (n1\<lparr>nw_ports := line ?c (\<lambda>i. True) True True\<rparr>)"
    using set_link_line [OF assms(2), of True "(\<lambda>i. True)(k := False)" True True] n1(2) assms(2)
    by (simp add: setLinkState_def fun_upd_idem)
  obtain n2 where n2: "setLinkState k (Suc k) True n1 = Some n2"
      "order_nominal n2 = map passes [0..<?c]" "order_redundancy n2 = []" "ring_intact n2"
    using rebuild_line [of "n1\<lparr>nw_ports := line ?c (\<lambda>i. True) True True\<rparr>" ?c "\<lambda>i. True" True True "?c - 1" 0]
      n1 assms c unfolding link2 by auto
  have nodes: "map hop_node (order_nominal n1 @ order_redundancy n1) = [0..<?c]"
  proof -
    have "[0..<?c] = [0..<Suc k] @ [Suc k..<?c]"
      using assms(2) by (metis le_add_diff_inverse less_imp_le upt_add_eq_append zero_le)
    also have "[Suc k..<?c] = Suc k # [Suc (Suc k)..<?c]" using assms(2) by (rule upt_conv_Cons)
    finally show ?thesis unfolding n1(3,4) by (simp add: comp_def passes_def turns_def del: upt_Suc)
  qed
  show ?thesis using n0(1) n1(1,3-5) n2 nodes by blast
qed


definition still_esc :: emu where
  "still_esc = EmulatedESC_new \<lparr>ck_now = (\<lambda>k. 0), ck_now_calls = 0, ck_local = (\<lambda>k. 0), ck_local_calls = 0\<rparr>"

theorem ring_break_partitions_witness:
  "\<exists>n0 n1. EmulatedNetwork_new (replicate 3 still_esc) [300, 300, 300] = Some n0
    \<and> setLinkState 0 1 False (setRedundancyInjection (Some 2) 1 n0) = Some n1
    \<and> order_nominal n1 = [passes 0] \<and> order_redundancy n1 = [turns 1, passes 2]"
  using ring_break_partitions [of "[300, 300, 300]" "replicate 3 still_esc" 0] by (auto simp: numeral_eq_Suc)


text \<open>(C32) Routing a frame refines passing its datagrams, one after the other, through the slaves of the
  order: the in-place loop over the frame returns exactly when that list function does, the frame
  then holds the answered datagrams in place of the sent ones, still chained, with their lengths and
  the commands and indices of the requests, and the frame is delivered unless a slave destroyed it.\<close>

theorem route_refines_list:
  assumes "chained ds" and "list_all wf_dgram ds" and "at (fr_data f) FIRST_DATAGRAM (layout ds)" and "\<not> dirty n"
  shows "case route_list localClock epoch 0 (if redundancy then order_redundancy n else order_nominal n) False ds n of
      None \<Rightarrow> route localClock epoch redundancy f n = None
    | Some (destroyed, es, n') \<Rightarrow>
        route localClock epoch redundancy f n = Some (\<not> destroyed,
          (resetContext f)\<lparr>fr_data := poke (fr_data f) FIRST_DATAGRAM (layout es), fr_next := None\<rparr>, n')
        \<and> chained es \<and> list_all wf_dgram es
        \<and> list_all2 (\<lambda>d e. same_frame_fields (d_header d) (d_header e)) ds es"
proof -
  have next16: "fr_next (resetContext f) = Some 16" "fr_data (resetContext f) = fr_data f"
    by (simp_all add: resetContext_def)
  note loop = route_loop_layout [of ds "resetContext f" 16 localClock epoch 0
      "if redundancy then order_redundancy n else order_nominal n" False n]
  show ?thesis
    using loop assms next16
      route_list_shape [of localClock epoch 0 "if redundancy then order_redundancy n else order_nominal n" False ds n]
      chained_same [of ds]
    by (auto simp: route_def Let_def split: option.splits)
qed


definition lone_dgram :: dgram where
  "lone_dgram = \<lparr>d_header = \<lparr>dg_command = 7, dg_index = 5, dg_address = 0x01300000, dg_len = 2, dg_reserved = 0,
     dg_circulating = 0, dg_multiple = 0, dg_irq = 0\<rparr>, d_payload = [0, 0], d_wkc = 0\<rparr>"

definition lone_frame :: frame where
  "lone_frame = \<lparr>fr_data = replicate 16 0 @ layout [lone_dgram], fr_last = 16, fr_next = None, fr_counter = 0,
     fr_available = False\<rparr>"

definition no_slaves :: network where
  "no_slaves = \<lparr>nw_ports = [], nw_escs = [], nw_fwd = [], injection_node = Some 0, injection_port = 0,
     redundancy_node = None, redundancy_port = 0, order_nominal = [], order_redundancy = [], recv_offset = [],
     epu_offset = [], custom_topology = False, ring_intact = False, dirty = False\<rparr>"

theorem route_refines_list_witness:
  "\<exists>g. route (\<lambda>node t. t) (\<lambda>k. 0) False lone_frame no_slaves = Some (True, g, no_slaves)
    \<and> fr_data g = fr_data lone_frame"
proof -
  have f: "at (fr_data lone_frame) FIRST_DATAGRAM (layout [lone_dgram])"
    by (simp add: lone_frame_def at_def peek_def)
  have d: "chained [lone_dgram]" "list_all wf_dgram [lone_dgram]" by (simp_all add: lone_dgram_def wf_dgram_def)
  have same: "poke (fr_data lone_frame) 16 (layout [lone_dgram]) = fr_data lone_frame"
    by (simp add: lone_frame_def poke_def)
  have "route_list (\<lambda>node t. t) (\<lambda>k. 0) 0 [] False [lone_dgram] no_slaves = Some (False, [lone_dgram], no_slaves)"
    by (simp add: route_datagram_def Let_def)
  then show ?thesis
    using route_refines_list [OF d f, of no_slaves "\<lambda>node t. t" "\<lambda>k. 0" False] same
    by (simp add: no_slaves_def)
qed

end
