(* ===== verification/DS402.thy ===== *)
theory DS402
  imports Prelude
begin

text \<open>
  The CiA 402 drive profile: the master's state machine that enables, disables and recovers a motor
  (\<open>lib/src/CoE/CiA/DS402/StateMachine.cc\<close>), the drive object that feeds it from the process image
  (\<open>lib/master/src/CoE/CiA/DS402/Drive.cc\<close>) and the motor emulated on the slave side
  (\<open>lib/simulation/include/kickcat/simulation/devices/Ds402Motor.h\<close>).

  \<open>now()\<close> is the environment's: one update takes a record with the value each of its call sites
  reads. The two sides only share a status word and a control word, so the contract of a conforming
  drive is a locale, the closed loop is studied inside it, and the emulated motor interprets it.
  The plant of the motor and the conversions to SI units are floating point and are left out.
\<close>

section \<open>Status and control words\<close>

definition OFF_STATE :: u16 where "OFF_STATE = 0x40"
definition READY_TO_SWITCH_ON_STATE :: u16 where "READY_TO_SWITCH_ON_STATE = 0x11"
definition ON_STATE :: u16 where "ON_STATE = 0x37"
definition FAULT_STATE :: u16 where "FAULT_STATE = 0x08"

definition SHUTDOWN :: u16 where "SHUTDOWN = 0x0006"
definition ENABLE_OPERATION :: u16 where "ENABLE_OPERATION = 0x000F"
definition FAULT_RESET :: u16 where "FAULT_RESET = 0x0080"
definition DISABLE_VOLTAGE :: u16 where "DISABLE_VOLTAGE = 0x0000"

lemmas status_words = OFF_STATE_def READY_TO_SWITCH_ON_STATE_def ON_STATE_def FAULT_STATE_def
lemmas control_words = SHUTDOWN_def ENABLE_OPERATION_def FAULT_RESET_def DISABLE_VOLTAGE_def

text \<open>The comparison the code writes as \<open>(word & value) == value\<close>.\<close>

abbreviation shows_state :: "u16 \<Rightarrow> u16 \<Rightarrow> bool" where
  "shows_state w v \<equiv> w AND v = v"

section \<open>The master's state machine\<close>

text \<open>Durations in nanoseconds.\<close>

definition MOTOR_RESET_DELAY :: int where "MOTOR_RESET_DELAY = 100000000"
definition MOTOR_INIT_TIMEOUT :: int where "MOTOR_INIT_TIMEOUT = 2000000000"
definition FAULT_RESET_HALF_PERIOD :: int where "FAULT_RESET_HALF_PERIOD = 50000000"
definition STABILIZATION_DELAY :: int where "STABILIZATION_DELAY = 100000000"

lemmas ds402_delays = MOTOR_RESET_DELAY_def MOTOR_INIT_TIMEOUT_def FAULT_RESET_HALF_PERIOD_def
  STABILIZATION_DELAY_def

datatype command = CMD_NONE | CMD_ENABLE | CMD_DISABLE

datatype motor_state = M_OFF | M_SAFE_RESET | M_PREPARE_TO_SWITCH_ON | M_SWITCH_ON | M_ON | M_FAULT

record sm =
  sm_command :: command
  sm_state :: motor_state
  sm_start :: int
  sm_control :: u16
  sm_status :: u16
  sm_toggle :: int
  sm_fault_reset :: bool
  sm_was_faulted :: bool
  sm_stabilizing :: bool
  sm_stab :: int

definition StateMachine_new :: sm where
  "StateMachine_new = \<lparr>sm_command = CMD_NONE, sm_state = M_OFF, sm_start = 0, sm_control = 0, sm_status = 0,
     sm_toggle = 0, sm_fault_reset = False, sm_was_faulted = False, sm_stabilizing = False, sm_stab = 0\<rparr>"

text \<open>The readings of \<open>now()\<close> in one update, in the order of the call sites: the start of the motor,
  the first \<open>elapsed_time\<close> of the state, the mark that restarts a delay, the timeout.\<close>

record readings =
  rd_start :: int
  rd_elapsed :: int
  rd_mark :: int
  rd_timeout :: int

definition enable_off :: "readings \<Rightarrow> sm \<Rightarrow> sm" where
  "enable_off r s =
     (let s = s\<lparr>sm_start := rd_start r\<rparr>
      in if shows_state (sm_status s) FAULT_STATE
         then let s = s\<lparr>sm_was_faulted := True, sm_stabilizing := False\<rparr>;
                  s = (if rd_elapsed r - sm_toggle s \<ge> FAULT_RESET_HALF_PERIOD
                       then s\<lparr>sm_fault_reset := \<not> sm_fault_reset s, sm_toggle := rd_mark r\<rparr>
                       else s)
              in s\<lparr>sm_control := (if sm_fault_reset s then FAULT_RESET else 0)\<rparr>
         else if sm_was_faulted s
         then let s = s\<lparr>sm_control := 0\<rparr>
              in if \<not> sm_stabilizing s
                 then s\<lparr>sm_stabilizing := True, sm_stab := rd_elapsed r\<rparr>
                 else if rd_elapsed r - sm_stab s \<ge> STABILIZATION_DELAY
                 then s\<lparr>sm_state := M_SAFE_RESET, sm_was_faulted := False, sm_stabilizing := False\<rparr>
                 else s
         else s\<lparr>sm_state := M_SAFE_RESET\<rparr>)"

definition enable_state :: "readings \<Rightarrow> sm \<Rightarrow> sm" where
  "enable_state r s =
     (case sm_state s of
        M_OFF \<Rightarrow> enable_off r s
      | M_SAFE_RESET \<Rightarrow>
          let s = s\<lparr>sm_control := SHUTDOWN\<rparr>
          in if rd_elapsed r - sm_start s > MOTOR_RESET_DELAY then s\<lparr>sm_state := M_PREPARE_TO_SWITCH_ON\<rparr> else s
      | M_PREPARE_TO_SWITCH_ON \<Rightarrow>
          let s = s\<lparr>sm_control := SHUTDOWN\<rparr>
          in if shows_state (sm_status s) READY_TO_SWITCH_ON_STATE then s\<lparr>sm_state := M_SWITCH_ON\<rparr> else s
      | M_SWITCH_ON \<Rightarrow>
          let s = s\<lparr>sm_control := ENABLE_OPERATION\<rparr>
          in if shows_state (sm_status s) ON_STATE then s\<lparr>sm_state := M_ON, sm_command := CMD_NONE\<rparr> else s
      | M_ON \<Rightarrow> s
      | M_FAULT \<Rightarrow> s\<lparr>sm_state := M_OFF\<rparr>)"

definition enable_fault :: "sm \<Rightarrow> sm" where
  "enable_fault s =
     (if sm_state s \<noteq> M_OFF \<and> sm_state s \<noteq> M_FAULT \<and> shows_state (sm_status s) FAULT_STATE
      then s\<lparr>sm_state := M_OFF\<rparr> else s)"

definition enable_timeout :: "readings \<Rightarrow> sm \<Rightarrow> sm" where
  "enable_timeout r s =
     (if sm_state s \<noteq> M_ON \<and> sm_state s \<noteq> M_FAULT \<and> sm_state s \<noteq> M_OFF
         \<and> rd_timeout r - sm_start s > MOTOR_INIT_TIMEOUT
      then s\<lparr>sm_state := M_OFF\<rparr> else s)"

definition StateMachine_update :: "readings \<Rightarrow> u16 \<Rightarrow> sm \<Rightarrow> sm" where
  "StateMachine_update r status_word s =
     (let s = s\<lparr>sm_status := status_word\<rparr>
      in case sm_command s of
           CMD_ENABLE \<Rightarrow> enable_timeout r (enable_fault (enable_state r s))
         | CMD_DISABLE \<Rightarrow>
             let s = s\<lparr>sm_control := DISABLE_VOLTAGE\<rparr>
             in if shows_state (sm_status s) OFF_STATE
                then s\<lparr>sm_state := M_OFF, sm_command := CMD_NONE\<rparr> else s
         | CMD_NONE \<Rightarrow>
             if shows_state (sm_status s) FAULT_STATE then s\<lparr>sm_state := M_FAULT\<rparr> else s)"

definition sm_enable :: "sm \<Rightarrow> sm" where
  "sm_enable s = s\<lparr>sm_command := CMD_ENABLE\<rparr>"

definition sm_disable :: "sm \<Rightarrow> sm" where
  "sm_disable s = s\<lparr>sm_command := CMD_DISABLE\<rparr>"

definition isEnabled :: "sm \<Rightarrow> bool" where
  "isEnabled s \<longleftrightarrow> sm_state s = M_ON"

definition isFaulted :: "sm \<Rightarrow> bool" where
  "isFaulted s \<longleftrightarrow> shows_state (sm_status s) FAULT_STATE"

section \<open>The emulated motor\<close>

definition SWITCH_ON_DISABLED :: u16 where "SWITCH_ON_DISABLED = 0x40"
definition READY :: u16 where "READY = 0x31"
definition SWITCHED_ON :: u16 where "SWITCHED_ON = 0x33"
definition OPERATION_ENABLED :: u16 where "OPERATION_ENABLED = 0x37"

lemmas motor_states = SWITCH_ON_DISABLED_def READY_def SWITCHED_ON_def OPERATION_ENABLED_def

lemma motor_distinct:
  "SWITCH_ON_DISABLED \<noteq> READY" "SWITCH_ON_DISABLED \<noteq> SWITCHED_ON" "SWITCH_ON_DISABLED \<noteq> OPERATION_ENABLED"
  "READY \<noteq> SWITCHED_ON" "READY \<noteq> OPERATION_ENABLED" "SWITCHED_ON \<noteq> OPERATION_ENABLED"
  by (simp_all add: motor_states)

definition stepStateMachine :: "u16 \<Rightarrow> u16 \<Rightarrow> u16" where
  "stepStateMachine control_word v =
     (if control_word AND 0x0002 = 0 then SWITCH_ON_DISABLED
      else let cmd = control_word AND 0x000F
           in if cmd = 0x0006
              then (if v = SWITCH_ON_DISABLED \<or> v = SWITCHED_ON \<or> v = OPERATION_ENABLED \<or> v = READY
                    then READY else v)
              else if cmd = 0x0007
              then (if v = READY \<or> v = OPERATION_ENABLED then SWITCHED_ON else v)
              else if cmd = 0x000F
              then (if v = READY \<or> v = SWITCHED_ON then OPERATION_ENABLED else v)
              else v)"

text \<open>The entries of the dictionary the motor binds. A cell that is not mapped is \<open>None\<close>, the null
  pointer of the code; \<open>found\<close> tells which entries the dictionary has.\<close>

record motor_cells =
  mc_control :: "u16 option"
  mc_status :: "u16 option"
  mc_mode :: "u8 option"
  mc_mode_display :: "u8 option"

record motor =
  mo_bound :: bool
  mo_value :: u16
  mo_cells :: motor_cells

definition Ds402Motor_new :: motor where
  "Ds402Motor_new = \<lparr>mo_bound = False, mo_value = SWITCH_ON_DISABLED,
     mo_cells = \<lparr>mc_control = None, mc_status = None, mc_mode = None, mc_mode_display = None\<rparr>\<rparr>"

definition rebind :: "'a option option \<Rightarrow> 'a option \<Rightarrow> 'a option" where
  "rebind found cell = (case found of None \<Rightarrow> cell | Some p \<Rightarrow> p)"

record found_cells =
  fd_control :: "u16 option option"
  fd_status :: "u16 option option"
  fd_mode :: "u8 option option"
  fd_mode_display :: "u8 option option"

definition motor_bind :: "found_cells \<Rightarrow> motor \<Rightarrow> motor" where
  "motor_bind fd m =
     (let c = mo_cells m;
          c = \<lparr>mc_control = rebind (fd_control fd) (mc_control c), mc_status = rebind (fd_status fd) (mc_status c),
               mc_mode = rebind (fd_mode fd) (mc_mode c),
               mc_mode_display = rebind (fd_mode_display fd) (mc_mode_display c)\<rparr>
      in m\<lparr>mo_cells := c, mo_bound := mc_control c \<noteq> None \<and> mc_status c \<noteq> None\<rparr>)"

text \<open>One step of the device. The first argument is whether the slave is in SAFE-OP or OPERATIONAL.\<close>

definition motor_step :: "bool \<Rightarrow> found_cells \<Rightarrow> motor \<Rightarrow> motor" where
  "motor_step mapped fd m =
     (if \<not> mapped then m\<lparr>mo_bound := False\<rparr>
      else let m = (if \<not> mo_bound m then motor_bind fd m else m)
           in if \<not> mo_bound m then m
              else let v = stepStateMachine (the (mc_control (mo_cells m))) (mo_value m);
                       c = (mo_cells m)\<lparr>mc_status := Some v\<rparr>;
                       c = (if mc_mode_display c \<noteq> None \<and> mc_mode c \<noteq> None
                            then c\<lparr>mc_mode_display := mc_mode c\<rparr> else c)
                   in m\<lparr>mo_value := v, mo_cells := c\<rparr>)"

section \<open>Safety of the state machine\<close>

text \<open>Every word of the control field the master ever sends.\<close>

definition sm_ok :: "sm \<Rightarrow> bool" where
  "sm_ok s \<longleftrightarrow> sm_control s \<in> {0, SHUTDOWN, ENABLE_OPERATION, FAULT_RESET}
     \<and> (sm_control s = FAULT_RESET \<longrightarrow> sm_fault_reset s)
     \<and> (sm_stabilizing s \<longrightarrow> sm_was_faulted s)"

inductive_set sm_reachable :: "sm set" where
  start: "StateMachine_new \<in> sm_reachable"
| update: "s \<in> sm_reachable \<Longrightarrow> StateMachine_update r w s \<in> sm_reachable"
| enable: "s \<in> sm_reachable \<Longrightarrow> sm_enable s \<in> sm_reachable"
| disable: "s \<in> sm_reachable \<Longrightarrow> sm_disable s \<in> sm_reachable"

lemma sm_ok_enable_state: "sm_ok s \<Longrightarrow> sm_ok (enable_state r s)"
  by (simp add: sm_ok_def enable_state_def enable_off_def Let_def control_words split: motor_state.split)

lemma sm_ok_update: "sm_ok s \<Longrightarrow> sm_ok (StateMachine_update r w s)"
proof -
  assume "sm_ok s"
  then have "sm_ok (s\<lparr>sm_status := w\<rparr>)" by (simp add: sm_ok_def)
  from sm_ok_enable_state [OF this, of r] \<open>sm_ok s\<close> show ?thesis
    by (simp add: StateMachine_update_def Let_def sm_ok_def enable_fault_def enable_timeout_def
        control_words split: command.split)
qed

lemma sm_reachable_ok: "s \<in> sm_reachable \<Longrightarrow> sm_ok s"
proof (induction rule: sm_reachable.induct)
  case start
  show ?case by (simp add: sm_ok_def StateMachine_new_def FAULT_RESET_def)
next
  case (update s r w)
  from update.IH show ?case by (rule sm_ok_update)
next
  case (enable s)
  then show ?case by (simp add: sm_ok_def sm_enable_def)
next
  case (disable s)
  then show ?case by (simp add: sm_ok_def sm_disable_def)
qed

section \<open>Time\<close>

text \<open>Cycle \<open>n\<close> runs between the instants \<open>T n\<close> and \<open>T (n + 1)\<close>: every reading of its update lies
  there, and it takes more than nothing and at most \<open>d\<close>.\<close>

definition in_cycle :: "int \<Rightarrow> int \<Rightarrow> readings \<Rightarrow> bool" where
  "in_cycle t t' r \<longleftrightarrow> t \<le> rd_start r \<and> rd_start r \<le> rd_elapsed r \<and> rd_elapsed r \<le> rd_mark r
     \<and> rd_mark r \<le> rd_timeout r \<and> rd_timeout r \<le> t'"

definition paced :: "int \<Rightarrow> (nat \<Rightarrow> int) \<Rightarrow> (nat \<Rightarrow> readings) \<Rightarrow> bool" where
  "paced d T r \<longleftrightarrow>
     (\<forall>n. T n < T (Suc n) \<and> T (Suc n) \<le> T n + d \<and> in_cycle (T n) (T (Suc n)) (r n))"

lemma pacedD:
  assumes "paced d T r"
  shows "T n < T (Suc n)" "T (Suc n) \<le> T n + d" "in_cycle (T n) (T (Suc n)) (r n)"
  using assms by (simp_all add: paced_def)

lemma paced_unbounded:
  assumes "paced d T r"
  shows "T n + int k \<le> T (n + k)"
proof (induction k)
  case (Suc k)
  then show ?case using pacedD(1) [OF assms, of "n + k"] by simp
qed simp

text \<open>A phase that can only be left for \<open>Q\<close>, and is left in the first cycle after the instant \<open>L\<close>,
  ends in time.\<close>

lemma phase_ends:
  assumes pace: "paced d T r" and start: "P n"
    and step: "\<And>m. n \<le> m \<Longrightarrow> P m \<Longrightarrow> P (Suc m) \<or> Q (Suc m)"
    and leave: "\<And>m. n \<le> m \<Longrightarrow> P m \<Longrightarrow> L < T m \<Longrightarrow> Q (Suc m)"
  shows "\<exists>m. n < m \<and> Q m \<and> T m \<le> max (T n) L + 2 * d"
proof -
  define k where "k = (LEAST k. Q (Suc (n + k)))"
  have "\<exists>k. Q (Suc (n + k))"
  proof (rule ccontr)
    assume none: "\<nexists>k. Q (Suc (n + k))"
    have "P (n + j)" for j
    proof (induction j)
      case 0
      then show ?case using start by simp
    next
      case (Suc j)
      then show ?case using step [of "n + j"] none by auto
    qed
    then have "P (n + nat (max 0 (L - T n + 1)))" .
    moreover have "L < T (n + nat (max 0 (L - T n + 1)))"
      using paced_unbounded [OF pace, of n "nat (max 0 (L - T n + 1))"] by linarith
    ultimately show False using leave [of "n + nat (max 0 (L - T n + 1))"] none by auto
  qed
  then have q: "Q (Suc (n + k))" and before: "\<And>j. j < k \<Longrightarrow> \<not> Q (Suc (n + j))"
    unfolding k_def by (auto intro: LeastI_ex dest: not_less_Least)
  have p: "j \<le> k \<Longrightarrow> P (n + j)" for j
  proof (induction j)
    case 0
    then show ?case using start by simp
  next
    case (Suc j)
    then have "P (n + j)" "\<not> Q (Suc (n + j))" using before by auto
    then show ?case using step [of "n + j"] by auto
  qed
  have "T (n + k) \<le> max (T n) L + d"
  proof (cases k)
    case 0
    then show ?thesis using pacedD(1,2) [OF pace, of n] by simp
  next
    case (Suc j)
    then have "P (n + j)" "\<not> Q (Suc (n + j))" using p before by auto
    then have "T (n + j) \<le> L" using leave [of "n + j"] by force
    then show ?thesis using pacedD(2) [OF pace, of "n + j"] Suc by simp
  qed
  then have "T (Suc (n + k)) \<le> max (T n) L + 2 * d"
    using pacedD(2) [OF pace, of "n + k"] by simp
  then show ?thesis using q by (intro exI [of _ "Suc (n + k)"]) simp
qed

section \<open>A conforming drive\<close>

text \<open>The closed loop of a state machine and a drive with the given status word and reaction to a
  control word: in one cycle the machine reads the status word, then the drive the control word.\<close>

definition closed_loop :: "('m \<Rightarrow> u16) \<Rightarrow> (u16 \<Rightarrow> 'm \<Rightarrow> 'm) \<Rightarrow> readings \<Rightarrow> sm \<times> 'm \<Rightarrow> sm \<times> 'm" where
  "closed_loop status obey r x =
     (let s = StateMachine_update r (status (snd x)) (fst x) in (s, obey (sm_control s) (snd x)))"

primrec closed_run :: "('m \<Rightarrow> u16) \<Rightarrow> (u16 \<Rightarrow> 'm \<Rightarrow> 'm) \<Rightarrow> (nat \<Rightarrow> readings) \<Rightarrow> sm \<times> 'm \<Rightarrow> nat \<Rightarrow> sm \<times> 'm" where
  "closed_run status obey r x 0 = x"
| "closed_run status obey r x (Suc n) = closed_loop status obey (r n) (closed_run status obey r x n)"

text \<open>A machine that is enabling, with timestamps from the past.\<close>

definition enabling :: "int \<Rightarrow> sm \<Rightarrow> bool" where
  "enabling t s \<longleftrightarrow> sm_command s = CMD_ENABLE \<and> sm_start s \<le> t \<and> sm_stab s \<le> t \<and> sm_state s \<noteq> M_ON"

definition enabling_at :: "('m \<Rightarrow> bool) \<Rightarrow> (nat \<Rightarrow> int) \<Rightarrow> (nat \<Rightarrow> sm \<times> 'm) \<Rightarrow> nat \<Rightarrow> bool" where
  "enabling_at sound T X n \<longleftrightarrow> enabling (T n) (fst (X n)) \<and> sound (snd (X n))"

definition running :: "sm \<Rightarrow> bool" where
  "running s \<longleftrightarrow> sm_command s = CMD_NONE \<and> sm_state s = M_ON \<and> sm_control s = ENABLE_OPERATION"

definition running_at :: "('m \<Rightarrow> u16) \<Rightarrow> ('m \<Rightarrow> bool) \<Rightarrow> (nat \<Rightarrow> sm \<times> 'm) \<Rightarrow> nat \<Rightarrow> bool" where
  "running_at status sound X n \<longleftrightarrow>
     running (fst (X n)) \<and> sound (snd (X n)) \<and> shows_state (status (snd (X n))) ON_STATE"

lemma ON_READY: "shows_state w ON_STATE \<Longrightarrow> shows_state w READY_TO_SWITCH_ON_STATE"
proof -
  assume "shows_state w ON_STATE"
  then have "w AND (ON_STATE AND 0x11) = ON_STATE AND 0x11" by (metis and.assoc)
  then show ?thesis by (simp add: status_words)
qed

text \<open>What the state machine expects of the drive at the other end: it does not fault, SHUTDOWN makes it
  ready, ENABLE OPERATION brings a ready drive to operation, and removing the voltage switches it off.\<close>

locale conforming_drive =
  fixes status :: "'m \<Rightarrow> u16"
    and obey :: "u16 \<Rightarrow> 'm \<Rightarrow> 'm"
    and sound :: "'m \<Rightarrow> bool"
  assumes sound_obey: "sound m \<Longrightarrow> sound (obey w m)"
    and no_fault: "sound m \<Longrightarrow> \<not> shows_state (status m) FAULT_STATE"
    and obey_shutdown: "sound m \<Longrightarrow> shows_state (status (obey SHUTDOWN m)) READY_TO_SWITCH_ON_STATE"
    and obey_enable: "sound m \<Longrightarrow> shows_state (status m) READY_TO_SWITCH_ON_STATE
      \<Longrightarrow> shows_state (status (obey ENABLE_OPERATION m)) ON_STATE"
    and obey_disable: "sound m \<Longrightarrow> shows_state (status (obey DISABLE_VOLTAGE m)) OFF_STATE"
begin

lemma update_state [simp]:
  assumes "sound m" and "sm_command s = CMD_ENABLE"
  shows "StateMachine_update r (status m) s = enable_timeout r (enable_state r (s\<lparr>sm_status := status m\<rparr>))"
proof -
  have "sm_status (enable_state r (s\<lparr>sm_status := status m\<rparr>)) = status m"
    by (simp add: enable_state_def enable_off_def Let_def split: motor_state.split)
  then have "enable_fault (enable_state r (s\<lparr>sm_status := status m\<rparr>)) = enable_state r (s\<lparr>sm_status := status m\<rparr>)"
    using no_fault [OF assms(1)] by (simp add: enable_fault_def)
  then show ?thesis using assms(2) by (simp add: StateMachine_update_def)
qed

text \<open>What one cycle does to an enabling machine, by state. The cycle runs from \<open>t\<close> to \<open>t'\<close>.\<close>

lemma loop_off:
  assumes e: "enabling t s" and m: "sound m" and r: "in_cycle t t' r" and d: "t' - t \<le> MOTOR_INIT_TIMEOUT"
    and off: "sm_state s = M_OFF" and x: "closed_loop status obey r (s, m) = (s', m')"
  shows "sound m' \<and> enabling t' s'
    \<and> (sm_state s' = M_SAFE_RESET \<and> t \<le> sm_start s'
       \<or> sm_state s' = M_OFF \<and> sm_was_faulted s \<and> sm_was_faulted s' \<and> sm_stabilizing s'
         \<and> (sm_stabilizing s \<longrightarrow> sm_stab s' = sm_stab s \<and> t < sm_stab s + STABILIZATION_DELAY))"
proof -
  have u: "s' = enable_timeout r (enable_off r (s\<lparr>sm_status := status m\<rparr>))" and m': "sound m'"
    using x e m off sound_obey by (auto simp: closed_loop_def Let_def enabling_def enable_state_def)
  have "rd_timeout r - rd_start r \<le> MOTOR_INIT_TIMEOUT" using r d by (simp add: in_cycle_def)
  then show ?thesis
    using u m' e r off no_fault [OF m]
    by (auto simp: enabling_def in_cycle_def enable_off_def enable_timeout_def Let_def)
qed

lemma loop_sequence:
  assumes e: "enabling t s" and m: "sound m" and r: "in_cycle t t' r" and t: "t \<le> t'"
    and st: "sm_state s \<in> {M_SAFE_RESET, M_PREPARE_TO_SWITCH_ON, M_SWITCH_ON}"
    and x: "closed_loop status obey r (s, m) = (s', m')"
  shows "sound m'
    \<and> (enabling t' s' \<and> sm_state s' \<in> {M_SAFE_RESET, M_PREPARE_TO_SWITCH_ON, M_SWITCH_ON}
         \<and> sm_start s' = sm_start s \<and> t \<le> sm_start s + MOTOR_INIT_TIMEOUT
       \<or> enabling t' s' \<and> sm_state s' = M_OFF \<and> sm_start s + MOTOR_INIT_TIMEOUT < t'
       \<or> running s' \<and> shows_state (status m') ON_STATE)"
proof -
  define u where "u = enable_state r (s\<lparr>sm_status := status m\<rparr>)"
  have s': "s' = enable_timeout r u" and m': "m' = obey (sm_control s') m"
    using x e m by (auto simp: u_def closed_loop_def Let_def enabling_def)
  show ?thesis
  proof (cases "sm_state u = M_ON")
    case True
    then have on: "shows_state (status m) ON_STATE" and u: "sm_command u = CMD_NONE" "sm_control u = ENABLE_OPERATION"
      using st by (auto simp: u_def enable_state_def Let_def split: if_splits)
    have "s' = u" using True s' by (simp add: enable_timeout_def)
    then show ?thesis
      using True u m' sound_obey [OF m] obey_enable [OF m ON_READY [OF on]] by (simp add: running_def)
  next
    case False
    then have u: "sm_state u \<in> {M_SAFE_RESET, M_PREPARE_TO_SWITCH_ON, M_SWITCH_ON}" "sm_start u = sm_start s"
        "sm_stab u = sm_stab s" "sm_command u = CMD_ENABLE"
      using st e by (auto simp: u_def enable_state_def Let_def enabling_def split: if_splits)
    show ?thesis
      using u m' s' e r t sound_obey [OF m] by (auto simp: enable_timeout_def enabling_def in_cycle_def)
  qed
qed

lemma loop_reset:
  assumes e: "enabling t s" and m: "sound m" and r: "in_cycle t t' r"
    and soon: "t' \<le> sm_start s + MOTOR_INIT_TIMEOUT"
    and st: "sm_state s = M_SAFE_RESET" and x: "closed_loop status obey r (s, m) = (s', m')"
  shows "sm_start s' = sm_start s \<and> shows_state (status m') READY_TO_SWITCH_ON_STATE
    \<and> (sm_state s' = M_SAFE_RESET \<and> t \<le> sm_start s + MOTOR_RESET_DELAY \<or> sm_state s' = M_PREPARE_TO_SWITCH_ON)"
  using assms obey_shutdown [OF m]
  by (auto simp: closed_loop_def Let_def enabling_def in_cycle_def enable_state_def enable_timeout_def
      split: if_splits)

lemma loop_prepare:
  assumes e: "enabling t s" and m: "sound m" and r: "in_cycle t t' r"
    and soon: "t' \<le> sm_start s + MOTOR_INIT_TIMEOUT" and rdy: "shows_state (status m) READY_TO_SWITCH_ON_STATE"
    and st: "sm_state s = M_PREPARE_TO_SWITCH_ON" and x: "closed_loop status obey r (s, m) = (s', m')"
  shows "sm_start s' = sm_start s \<and> shows_state (status m') READY_TO_SWITCH_ON_STATE \<and> sm_state s' = M_SWITCH_ON"
  using assms obey_shutdown [OF m]
  by (auto simp: closed_loop_def Let_def enabling_def in_cycle_def enable_state_def enable_timeout_def
      split: if_splits)

lemma loop_switch_on:
  assumes e: "enabling t s" and m: "sound m" and r: "in_cycle t t' r"
    and soon: "t' \<le> sm_start s + MOTOR_INIT_TIMEOUT" and rdy: "shows_state (status m) READY_TO_SWITCH_ON_STATE"
    and st: "sm_state s = M_SWITCH_ON" and x: "closed_loop status obey r (s, m) = (s', m')"
  shows "sm_start s' = sm_start s \<and> shows_state (status m') ON_STATE
    \<and> (if shows_state (status m) ON_STATE then running s' else sm_state s' = M_SWITCH_ON)"
  using assms obey_enable [OF m rdy]
  by (auto simp: closed_loop_def Let_def enabling_def in_cycle_def enable_state_def enable_timeout_def running_def
      split: if_splits)

lemma loop_running:
  assumes "running s" and "sound m" and "shows_state (status m) ON_STATE"
    and "closed_loop status obey r (s, m) = (s', m')"
  shows "running s' \<and> sound m' \<and> shows_state (status m') ON_STATE"
  using assms no_fault [OF assms(2)] sound_obey [OF assms(2)] obey_enable [OF assms(2) ON_READY]
  by (auto simp: closed_loop_def Let_def running_def StateMachine_update_def)

lemma loop_fault:
  assumes "enabling t s" and "sound m" and "in_cycle t t' r" and "t \<le> t'" and "sm_state s = M_FAULT"
    and "closed_loop status obey r (s, m) = (s', m')"
  shows "enabling t' s' \<and> sound m' \<and> sm_state s' = M_OFF"
  using assms sound_obey [OF assms(2)]
  by (auto simp: closed_loop_def Let_def enabling_def enable_state_def enable_timeout_def)

text \<open>Runs: every phase of the enabling sequence ends in bounded time.\<close>

lemma phase_sequence:
  assumes run: "\<And>n. closed_loop status obey (r n) (X n) = X (Suc n)" and pace: "paced d T r"
    and e: "enabling_at sound T X n"
    and st: "sm_state (fst (X n)) \<in> {M_SAFE_RESET, M_PREPARE_TO_SWITCH_ON, M_SWITCH_ON}"
  shows "\<exists>m>n. (enabling_at sound T X m \<and> sm_state (fst (X m)) = M_OFF \<or> running_at status sound X m)
    \<and> T m \<le> T n + MOTOR_INIT_TIMEOUT + 2 * d"
proof -
  define P where "P m \<longleftrightarrow> enabling_at sound T X m \<and> sm_start (fst (X m)) = sm_start (fst (X n))
    \<and> sm_state (fst (X m)) \<in> {M_SAFE_RESET, M_PREPARE_TO_SWITCH_ON, M_SWITCH_ON}" for m
  define Q where "Q m \<longleftrightarrow> enabling_at sound T X m \<and> sm_state (fst (X m)) = M_OFF \<or> running_at status sound X m" for m
  have next_cycle: "(P (Suc m) \<and> T m \<le> sm_start (fst (X n)) + MOTOR_INIT_TIMEOUT) \<or> Q (Suc m)" if "P m" for m
  proof -
    have "enabling (T m) (fst (X m))" "sound (snd (X m))"
      "sm_state (fst (X m)) \<in> {M_SAFE_RESET, M_PREPARE_TO_SWITCH_ON, M_SWITCH_ON}"
      "sm_start (fst (X m)) = sm_start (fst (X n))"
      using that by (simp_all add: P_def enabling_at_def)
    moreover have "closed_loop status obey (r m) (fst (X m), snd (X m)) = (fst (X (Suc m)), snd (X (Suc m)))"
      using run [of m] by simp
    ultimately show ?thesis
      using loop_sequence [of "T m" "fst (X m)" "snd (X m)" "T (Suc m)" "r m" "fst (X (Suc m))" "snd (X (Suc m))"]
        pacedD(1,3) [OF pace, of m]
      by (auto simp: P_def Q_def enabling_at_def running_at_def)
  qed
  have "\<exists>m>n. Q m \<and> T m \<le> max (T n) (sm_start (fst (X n)) + MOTOR_INIT_TIMEOUT) + 2 * d"
    by (rule phase_ends [OF pace, where P = P]) (use e st next_cycle in \<open>force simp: P_def\<close>)+
  moreover have "max (T n) (sm_start (fst (X n)) + MOTOR_INIT_TIMEOUT) \<le> T n + MOTOR_INIT_TIMEOUT"
    using e by (auto simp: enabling_at_def enabling_def MOTOR_INIT_TIMEOUT_def)
  ultimately show ?thesis unfolding Q_def by force
qed

lemma phase_off_waiting:
  assumes run: "\<And>n. closed_loop status obey (r n) (X n) = X (Suc n)" and pace: "paced d T r"
    and d: "d \<le> MOTOR_INIT_TIMEOUT"
    and e: "enabling_at sound T X n" and st: "sm_state (fst (X n)) = M_OFF" and wait: "sm_stabilizing (fst (X n))"
  shows "\<exists>m>n. (enabling_at sound T X m \<and> sm_state (fst (X m)) = M_SAFE_RESET \<and> T m \<le> sm_start (fst (X m)) + d)
    \<and> T m \<le> T n + STABILIZATION_DELAY + 2 * d"
proof -
  define P where "P m \<longleftrightarrow> enabling_at sound T X m \<and> sm_state (fst (X m)) = M_OFF
    \<and> sm_stabilizing (fst (X m)) \<and> sm_stab (fst (X m)) = sm_stab (fst (X n))" for m
  define Q where "Q m \<longleftrightarrow> enabling_at sound T X m \<and> sm_state (fst (X m)) = M_SAFE_RESET
    \<and> T m \<le> sm_start (fst (X m)) + d" for m
  have next_cycle: "(P (Suc m) \<and> T m < sm_stab (fst (X n)) + STABILIZATION_DELAY) \<or> Q (Suc m)" if "P m" for m
  proof -
    obtain s v s' v' where xs: "X m = (s, v)" "X (Suc m) = (s', v')" by (meson surj_pair)
    then have "enabling (T m) s" "sound v" "sm_state s = M_OFF" "closed_loop status obey (r m) (s, v) = (s', v')"
      using that run [of m] by (simp_all add: P_def enabling_at_def)
    from loop_off [OF this(1,2) pacedD(3) [OF pace, of m] _ this(3,4)] show ?thesis
      using that pacedD(1,2) [OF pace, of m] d by (auto simp: P_def Q_def enabling_at_def xs)
  qed
  have "\<exists>m>n. Q m \<and> T m \<le> max (T n) (sm_stab (fst (X n)) + STABILIZATION_DELAY) + 2 * d"
    by (rule phase_ends [OF pace, where P = P]) (use e st wait next_cycle in \<open>force simp: P_def\<close>)+
  moreover have "max (T n) (sm_stab (fst (X n)) + STABILIZATION_DELAY) \<le> T n + STABILIZATION_DELAY"
    using e by (auto simp: enabling_at_def enabling_def STABILIZATION_DELAY_def)
  ultimately show ?thesis unfolding Q_def by force
qed

lemma phase_off:
  assumes run: "\<And>n. closed_loop status obey (r n) (X n) = X (Suc n)" and pace: "paced d T r"
    and d: "d \<le> MOTOR_INIT_TIMEOUT" and e: "enabling_at sound T X n" and st: "sm_state (fst (X n)) = M_OFF"
  shows "\<exists>m>n. (enabling_at sound T X m \<and> sm_state (fst (X m)) = M_SAFE_RESET \<and> T m \<le> sm_start (fst (X m)) + d)
    \<and> T m \<le> T n + STABILIZATION_DELAY + 3 * d"
proof -
  obtain s v s' v' where xs: "X n = (s, v)" "X (Suc n) = (s', v')" by (meson surj_pair)
  then have "enabling (T n) s" "sound v" "sm_state s = M_OFF" "closed_loop status obey (r n) (s, v) = (s', v')"
    using e st run [of n] by (simp_all add: enabling_at_def)
  note off = loop_off [OF this(1,2) pacedD(3) [OF pace, of n] _ this(3,4)]
  have t: "T (Suc n) \<le> T n + d" "T n < T (Suc n)" using pacedD [OF pace] by auto
  show ?thesis
  proof (cases "sm_state s' = M_SAFE_RESET")
    case True
    then show ?thesis using off t d
      by (intro exI [of _ "Suc n"]) (auto simp: enabling_at_def xs STABILIZATION_DELAY_def)
  next
    case False
    then have "enabling_at sound T X (Suc n)" "sm_state (fst (X (Suc n))) = M_OFF" "sm_stabilizing (fst (X (Suc n)))"
      using off t d by (auto simp: enabling_at_def xs)
    from phase_off_waiting [OF run pace d this] obtain m where
      "Suc n < m" "enabling_at sound T X m" "sm_state (fst (X m)) = M_SAFE_RESET" "T m \<le> sm_start (fst (X m)) + d"
      "T m \<le> T (Suc n) + STABILIZATION_DELAY + 2 * d" by blast
    then show ?thesis using t by (intro exI [of _ m]) simp
  qed
qed

lemma phase_reset:
  assumes run: "\<And>n. closed_loop status obey (r n) (X n) = X (Suc n)" and pace: "paced d T r"
    and d: "MOTOR_RESET_DELAY + 2 * d \<le> MOTOR_INIT_TIMEOUT" and e: "enabling_at sound T X n"
    and st: "sm_state (fst (X n)) = M_SAFE_RESET" and fresh: "T n \<le> sm_start (fst (X n)) + d"
  shows "\<exists>m>n. (enabling_at sound T X m \<and> sm_state (fst (X m)) = M_PREPARE_TO_SWITCH_ON
      \<and> shows_state (status (snd (X m))) READY_TO_SWITCH_ON_STATE
      \<and> T m \<le> sm_start (fst (X m)) + MOTOR_RESET_DELAY + 2 * d) \<and> T m \<le> T n + MOTOR_RESET_DELAY + 2 * d"
proof -
  define s0 where "s0 = sm_start (fst (X n))"
  define P where "P m \<longleftrightarrow> enabling_at sound T X m \<and> sm_state (fst (X m)) = M_SAFE_RESET
    \<and> sm_start (fst (X m)) = s0 \<and> T m \<le> s0 + MOTOR_RESET_DELAY + d" for m
  define Q where "Q m \<longleftrightarrow> enabling_at sound T X m \<and> sm_state (fst (X m)) = M_PREPARE_TO_SWITCH_ON
    \<and> shows_state (status (snd (X m))) READY_TO_SWITCH_ON_STATE
    \<and> T m \<le> sm_start (fst (X m)) + MOTOR_RESET_DELAY + 2 * d" for m
  have next_cycle: "(P (Suc m) \<and> T m \<le> s0 + MOTOR_RESET_DELAY) \<or> Q (Suc m)" if "P m" for m
  proof -
    obtain s v s' v' where xs: "X m = (s, v)" "X (Suc m) = (s', v')" by (meson surj_pair)
    then have en: "enabling (T m) s" "sound v" "sm_state s = M_SAFE_RESET" "closed_loop status obey (r m) (s, v) = (s', v')"
        "sm_start s = s0" "T m \<le> s0 + MOTOR_RESET_DELAY + d"
      using that run [of m] by (simp_all add: P_def enabling_at_def)
    have soon: "T (Suc m) \<le> sm_start s + MOTOR_INIT_TIMEOUT" "T m \<le> T (Suc m)" "T (Suc m) \<le> T m + d"
      using en(5,6) d pacedD(1,2) [OF pace, of m] by auto
    have "sm_start s' = s0" "shows_state (status v') READY_TO_SWITCH_ON_STATE"
        "sm_state s' = M_SAFE_RESET \<and> T m \<le> s0 + MOTOR_RESET_DELAY \<or> sm_state s' = M_PREPARE_TO_SWITCH_ON"
      using loop_reset [OF en(1,2) pacedD(3) [OF pace, of m] soon(1) en(3,4)] en(5) by auto
    moreover have "sound v'" "enabling (T (Suc m)) s'"
      using loop_sequence [OF en(1,2) pacedD(3) [OF pace, of m] soon(2) _ en(4)] en(3) calculation
      by (auto simp: running_def)
    ultimately show ?thesis using soon en(6) by (auto simp: P_def Q_def enabling_at_def xs)
  qed
  have "\<exists>m>n. Q m \<and> T m \<le> max (T n) (s0 + MOTOR_RESET_DELAY) + 2 * d"
    by (rule phase_ends [OF pace, where P = P])
      (use e st fresh next_cycle in \<open>force simp: P_def s0_def MOTOR_RESET_DELAY_def\<close>)+
  moreover have "max (T n) (s0 + MOTOR_RESET_DELAY) \<le> T n + MOTOR_RESET_DELAY"
    using e by (auto simp: enabling_at_def enabling_def s0_def MOTOR_RESET_DELAY_def)
  ultimately show ?thesis unfolding Q_def by force
qed

lemma enabling_next:
  assumes run: "\<And>n. closed_loop status obey (r n) (X n) = X (Suc n)" and pace: "paced d T r"
    and e: "enabling_at sound T X n"
    and st: "sm_state (fst (X n)) \<in> {M_SAFE_RESET, M_PREPARE_TO_SWITCH_ON, M_SWITCH_ON}"
    and st': "sm_state (fst (X (Suc n))) \<noteq> M_ON"
  shows "enabling_at sound T X (Suc n)"
proof -
  obtain s v s' v' where xs: "X n = (s, v)" "X (Suc n) = (s', v')" by (meson surj_pair)
  then have "enabling (T n) s" "sound v" "closed_loop status obey (r n) (s, v) = (s', v')"
      "sm_state s \<in> {M_SAFE_RESET, M_PREPARE_TO_SWITCH_ON, M_SWITCH_ON}"
    using e st run [of n] by (simp_all add: enabling_at_def)
  from loop_sequence [OF this(1,2) pacedD(3) [OF pace] _ this(4,3)] show ?thesis
    using st' pacedD(1) [OF pace, of n] by (auto simp: enabling_at_def xs running_def)
qed

lemma phase_switch_on:
  assumes run: "\<And>n. closed_loop status obey (r n) (X n) = X (Suc n)" and pace: "paced d T r"
    and e: "enabling_at sound T X n" and st: "sm_state (fst (X n)) = M_SWITCH_ON"
    and rdy: "shows_state (status (snd (X n))) READY_TO_SWITCH_ON_STATE"
    and soon: "T n + d \<le> sm_start (fst (X n)) + MOTOR_INIT_TIMEOUT"
  shows "running_at status sound X (Suc n)
    \<or> enabling_at sound T X (Suc n) \<and> sm_state (fst (X (Suc n))) = M_SWITCH_ON
      \<and> shows_state (status (snd (X (Suc n)))) ON_STATE \<and> sm_start (fst (X (Suc n))) = sm_start (fst (X n))"
    and "shows_state (status (snd (X n))) ON_STATE \<Longrightarrow> running_at status sound X (Suc n)"
proof -
  obtain s v s' v' where xs: "X n = (s, v)" "X (Suc n) = (s', v')" by (meson surj_pair)
  then have en: "enabling (T n) s" "sound v" "closed_loop status obey (r n) (s, v) = (s', v')"
      "sm_state s = M_SWITCH_ON" "shows_state (status v) READY_TO_SWITCH_ON_STATE"
      "T (Suc n) \<le> sm_start s + MOTOR_INIT_TIMEOUT"
    using e st run [of n] rdy soon pacedD(2) [OF pace, of n] by (simp_all add: enabling_at_def)
  note on = loop_switch_on [OF en(1,2) pacedD(3) [OF pace, of n] en(6,5,4,3)]
  have v': "sound v'" using en(2,3) sound_obey by (auto simp: closed_loop_def Let_def)
  show "running_at status sound X (Suc n)" if "shows_state (status (snd (X n))) ON_STATE"
    using on v' that by (simp add: running_at_def xs)
  show "running_at status sound X (Suc n)
    \<or> enabling_at sound T X (Suc n) \<and> sm_state (fst (X (Suc n))) = M_SWITCH_ON
      \<and> shows_state (status (snd (X (Suc n)))) ON_STATE \<and> sm_start (fst (X (Suc n))) = sm_start (fst (X n))"
  proof (cases "shows_state (status v) ON_STATE")
    case True
    then show ?thesis using on v' by (simp add: running_at_def xs)
  next
    case False
    then have "sm_state s' = M_SWITCH_ON" using on by simp
    then show ?thesis using on enabling_next [OF run pace e] st by (simp add: xs)
  qed
qed

lemma phase_finish:
  assumes run: "\<And>n. closed_loop status obey (r n) (X n) = X (Suc n)" and pace: "paced d T r"
    and e: "enabling_at sound T X n" and st: "sm_state (fst (X n)) = M_PREPARE_TO_SWITCH_ON"
    and rdy: "shows_state (status (snd (X n))) READY_TO_SWITCH_ON_STATE"
    and soon: "T n + 3 * d \<le> sm_start (fst (X n)) + MOTOR_INIT_TIMEOUT"
  shows "\<exists>m>n. running_at status sound X m \<and> T m \<le> T n + 3 * d"
proof -
  have t: "T (Suc k) \<le> T k + d" "T k < T (Suc k)" for k using pacedD [OF pace] by auto
  then have d: "0 \<le> d" by (metis add_le_same_cancel1 dual_order.strict_trans1 less_le_not_le linorder_not_less)
  obtain s v s' v' where xs: "X n = (s, v)" "X (Suc n) = (s', v')" by (meson surj_pair)
  have "enabling (T n) s" "sound v" "closed_loop status obey (r n) (s, v) = (s', v')"
      "sm_state s = M_PREPARE_TO_SWITCH_ON" "shows_state (status v) READY_TO_SWITCH_ON_STATE"
      "T (Suc n) \<le> sm_start s + MOTOR_INIT_TIMEOUT"
    using e st run [of n] rdy soon t [of n] d xs by (simp_all add: enabling_at_def)
  from loop_prepare [OF this(1,2) pacedD(3) [OF pace, of n] this(6,5,4,3)]
  have 1: "sm_state (fst (X (Suc n))) = M_SWITCH_ON" "shows_state (status (snd (X (Suc n)))) READY_TO_SWITCH_ON_STATE"
      "sm_start (fst (X (Suc n))) = sm_start (fst (X n))"
    by (simp_all add: xs)
  then have e1: "enabling_at sound T X (Suc n)" using enabling_next [OF run pace e] st by simp
  from phase_switch_on(1) [OF run pace e1 1(1,2)] 1(3) soon t [of n] d
  consider (on) "running_at status sound X (Suc (Suc n))"
    | (wait) "enabling_at sound T X (Suc (Suc n))" "sm_state (fst (X (Suc (Suc n)))) = M_SWITCH_ON"
        "shows_state (status (snd (X (Suc (Suc n))))) ON_STATE"
        "sm_start (fst (X (Suc (Suc n)))) = sm_start (fst (X n))"
    by force
  then show ?thesis
  proof cases
    case on
    then show ?thesis using t [of n] t [of "Suc n"] d by (intro exI [of _ "Suc (Suc n)"]) simp
  next
    case wait
    have "running_at status sound X (Suc (Suc (Suc n)))"
      using phase_switch_on(2) [OF run pace wait(1,2) ON_READY [OF wait(3)] _ wait(3)] wait(4) soon
        t [of n] t [of "Suc n"] by simp
    then show ?thesis
      using t [of n] t [of "Suc n"] t [of "Suc (Suc n)"] by (intro exI [of _ "Suc (Suc (Suc n))"]) simp
  qed
qed

text \<open>From OFF, then from any state.\<close>

lemma off_to_running:
  assumes run: "\<And>n. closed_loop status obey (r n) (X n) = X (Suc n)" and pace: "paced d T r"
    and d: "MOTOR_RESET_DELAY + 5 * d \<le> MOTOR_INIT_TIMEOUT"
    and e: "enabling_at sound T X n" and st: "sm_state (fst (X n)) = M_OFF"
  shows "\<exists>m>n. running_at status sound X m \<and> T m \<le> T n + STABILIZATION_DELAY + MOTOR_RESET_DELAY + 8 * d"
proof -
  have "T 0 < T (Suc 0)" "T (Suc 0) \<le> T 0 + d" using pacedD [OF pace] by auto
  then have d0: "0 \<le> d" by simp
  have "d \<le> MOTOR_INIT_TIMEOUT" "MOTOR_RESET_DELAY + 2 * d \<le> MOTOR_INIT_TIMEOUT"
    using d d0 by (simp_all add: MOTOR_RESET_DELAY_def)
  note ds = this
  obtain a where a: "n < a" "enabling_at sound T X a" "sm_state (fst (X a)) = M_SAFE_RESET"
      "T a \<le> sm_start (fst (X a)) + d" "T a \<le> T n + STABILIZATION_DELAY + 3 * d"
    using phase_off [OF run pace ds(1) e st] by blast
  obtain b where b: "a < b" "enabling_at sound T X b" "sm_state (fst (X b)) = M_PREPARE_TO_SWITCH_ON"
      "shows_state (status (snd (X b))) READY_TO_SWITCH_ON_STATE"
      "T b \<le> sm_start (fst (X b)) + MOTOR_RESET_DELAY + 2 * d" "T b \<le> T a + MOTOR_RESET_DELAY + 2 * d"
    using phase_reset [OF run pace ds(2) a(2,3,4)] by blast
  have "T b + 3 * d \<le> sm_start (fst (X b)) + MOTOR_INIT_TIMEOUT" using b(5) d by simp
  from phase_finish [OF run pace b(2,3,4) this] obtain c where "b < c" "running_at status sound X c" "T c \<le> T b + 3 * d"
    by blast
  then show ?thesis using a b by (intro exI [of _ c]) simp
qed

lemma enabling_succeeds:
  assumes run: "\<And>n. closed_loop status obey (r n) (X n) = X (Suc n)" and pace: "paced d T r"
    and d: "MOTOR_RESET_DELAY + 5 * d \<le> MOTOR_INIT_TIMEOUT" and e: "enabling_at sound T X n"
  shows "\<exists>m>n. running_at status sound X m
    \<and> T m \<le> T n + MOTOR_INIT_TIMEOUT + STABILIZATION_DELAY + MOTOR_RESET_DELAY + 10 * d"
proof -
  have t: "T n < T (Suc n)" "T (Suc n) \<le> T n + d" using pacedD [OF pace] by auto
  have "\<exists>m\<ge>n. (enabling_at sound T X m \<and> sm_state (fst (X m)) = M_OFF \<or> running_at status sound X m)
    \<and> T m \<le> T n + MOTOR_INIT_TIMEOUT + 2 * d"
  proof (cases "sm_state (fst (X n))")
    case M_OFF
    then show ?thesis using e t by (intro exI [of _ n]) (auto simp: MOTOR_INIT_TIMEOUT_def)
  next
    case M_FAULT
    obtain s v s' v' where xs: "X n = (s, v)" "X (Suc n) = (s', v')" by (meson surj_pair)
    then have "enabling (T (Suc n)) s' \<and> sound v' \<and> sm_state s' = M_OFF"
      using loop_fault [OF _ _ pacedD(3) [OF pace, of n], of s v s' v'] e run [of n] t M_FAULT
      by (simp add: enabling_at_def)
    then show ?thesis using t by (intro exI [of _ "Suc n"]) (auto simp: enabling_at_def xs MOTOR_INIT_TIMEOUT_def)
  next
    case M_ON
    then show ?thesis using e by (simp add: enabling_at_def enabling_def)
  qed (use phase_sequence [OF run pace e] in \<open>force dest: less_imp_le\<close>)+
  then obtain m where m: "n \<le> m" "T m \<le> T n + MOTOR_INIT_TIMEOUT + 2 * d"
      "enabling_at sound T X m \<and> sm_state (fst (X m)) = M_OFF \<or> running_at status sound X m" by blast
  show ?thesis
  proof (cases "enabling_at sound T X m \<and> sm_state (fst (X m)) = M_OFF")
    case True
    then obtain k where "m < k" "running_at status sound X k"
        "T k \<le> T m + STABILIZATION_DELAY + MOTOR_RESET_DELAY + 8 * d"
      using off_to_running [OF run pace d] by blast
    then show ?thesis using m by (intro exI [of _ k]) simp
  next
    case False
    then have "running_at status sound X m" "m \<noteq> n"
      using m e by (auto simp: running_at_def running_def enabling_at_def enabling_def)
    then show ?thesis using m t by (intro exI [of _ m]) (auto simp: ds402_delays)
  qed
qed

lemma running_stays:
  assumes run: "\<And>n. closed_loop status obey (r n) (X n) = X (Suc n)" and "running_at status sound X n"
  shows "running_at status sound X (n + k)"
proof (induction k)
  case (Suc k)
  obtain s v s' v' where xs: "X (n + k) = (s, v)" "X (Suc (n + k)) = (s', v')" by (meson surj_pair)
  then show ?case
    using Suc loop_running [of s v "r (n + k)" s' v'] run [of "n + k"] by (simp add: running_at_def)
qed (use assms in simp)

lemma disable_succeeds:
  assumes run: "\<And>n. closed_loop status obey (r n) (X n) = X (Suc n)"
    and "sm_command (fst (X n)) = CMD_DISABLE" and "sound (snd (X n))"
  shows "sm_state (fst (X (n + 2 + k))) = M_OFF \<and> sm_control (fst (X (n + 2 + k))) = DISABLE_VOLTAGE
    \<and> shows_state (status (snd (X (n + 2 + k)))) OFF_STATE"
proof -
  define off where "off m \<longleftrightarrow> sm_state (fst (X m)) = M_OFF \<and> sm_control (fst (X m)) = DISABLE_VOLTAGE
    \<and> sm_command (fst (X m)) = CMD_NONE \<and> sound (snd (X m)) \<and> shows_state (status (snd (X m))) OFF_STATE" for m
  have keep: "off (Suc m)" if "off m" for m
    using that no_fault [of "snd (X m)"] sound_obey [of "snd (X m)"] obey_disable [of "snd (X m)"]
    by (simp add: off_def run [symmetric] closed_loop_def Let_def StateMachine_update_def)
  define mid where "mid \<longleftrightarrow> sm_control (fst (X (Suc n))) = DISABLE_VOLTAGE \<and> sm_command (fst (X (Suc n))) = CMD_DISABLE
    \<and> sound (snd (X (Suc n))) \<and> shows_state (status (snd (X (Suc n)))) OFF_STATE"
  have "off (Suc n) \<or> mid"
    using assms(2,3) sound_obey [of "snd (X n)"] obey_disable [of "snd (X n)"]
    by (simp add: off_def mid_def run [symmetric] closed_loop_def Let_def StateMachine_update_def)
  moreover have "off (Suc (Suc n))" if mid
    using that sound_obey [of "snd (X (Suc n))"] obey_disable [of "snd (X (Suc n))"]
    unfolding off_def mid_def run [of "Suc n", symmetric] closed_loop_def Let_def StateMachine_update_def by simp
  ultimately have "off (n + 2)" using keep by auto
  then have "off (n + 2 + k)" by (induction k) (auto intro: keep)
  then show ?thesis by (simp add: off_def)
qed

end

section \<open>The emulated motor conforms\<close>

definition motor_status :: "motor \<Rightarrow> u16" where
  "motor_status m = (case mc_status (mo_cells m) of None \<Rightarrow> 0 | Some w \<Rightarrow> w)"

text \<open>The master writes the control word into the process image, then the device steps.\<close>

definition motor_obey :: "found_cells \<Rightarrow> u16 \<Rightarrow> motor \<Rightarrow> motor" where
  "motor_obey fd w m = motor_step True fd (m\<lparr>mo_cells := (mo_cells m)\<lparr>mc_control := Some w\<rparr>\<rparr>)"

definition motor_sound :: "motor \<Rightarrow> bool" where
  "motor_sound m \<longleftrightarrow> mo_bound m \<and> mc_control (mo_cells m) \<noteq> None \<and> mc_status (mo_cells m) = Some (mo_value m)
     \<and> mo_value m \<in> {SWITCH_ON_DISABLED, READY, SWITCHED_ON, OPERATION_ENABLED}"

lemma motor_obey_value:
  assumes "motor_sound m"
  shows "mo_value (motor_obey fd w m) = stepStateMachine w (mo_value m)"
    and "motor_status (motor_obey fd w m) = stepStateMachine w (mo_value m)"
    and "mo_bound (motor_obey fd w m)" and "mc_control (mo_cells (motor_obey fd w m)) \<noteq> None"
    and "mc_status (mo_cells (motor_obey fd w m)) = Some (stepStateMachine w (mo_value m))"
  using assms by (simp_all add: motor_sound_def motor_obey_def motor_step_def motor_status_def Let_def)

lemma stepStateMachine_closed:
  assumes "v \<in> {SWITCH_ON_DISABLED, READY, SWITCHED_ON, OPERATION_ENABLED}"
  shows "stepStateMachine w v \<in> {SWITCH_ON_DISABLED, READY, SWITCHED_ON, OPERATION_ENABLED}"
  using assms by (auto simp: stepStateMachine_def Let_def)

lemma motor_sound_value:
  "motor_sound m \<Longrightarrow> motor_status m = mo_value m"
  "motor_sound m \<Longrightarrow> mo_value m \<in> {SWITCH_ON_DISABLED, READY, SWITCHED_ON, OPERATION_ENABLED}"
  by (simp_all add: motor_sound_def motor_status_def)

interpretation emu_motor: conforming_drive motor_status "motor_obey fd" motor_sound for fd
proof
  fix m w
  assume m: "motor_sound m"
  note v = motor_sound_value [OF m]
  show "motor_sound (motor_obey fd w m)"
    using motor_obey_value [OF m] stepStateMachine_closed [OF v(2)] by (simp add: motor_sound_def)
  show "\<not> shows_state (motor_status m) FAULT_STATE"
    using v by (auto simp: motor_states status_words)
  show "shows_state (motor_status (motor_obey fd SHUTDOWN m)) READY_TO_SWITCH_ON_STATE"
    using v(2) by (auto simp: motor_obey_value [OF m] stepStateMachine_def motor_states status_words control_words)
  show "shows_state (motor_status (motor_obey fd DISABLE_VOLTAGE m)) OFF_STATE"
    by (simp add: motor_obey_value [OF m] stepStateMachine_def motor_states status_words control_words)
  show "shows_state (motor_status (motor_obey fd ENABLE_OPERATION m)) ON_STATE"
    if "shows_state (motor_status m) READY_TO_SWITCH_ON_STATE"
    using that v by (auto simp: motor_obey_value [OF m] stepStateMachine_def motor_states status_words control_words)
qed

section \<open>Properties\<close>

lemma shows_ON_value:
  "motor_sound m \<Longrightarrow> shows_state (motor_status m) ON_STATE \<Longrightarrow> mo_value m = OPERATION_ENABLED"
  using motor_sound_value [of m] by (auto simp: motor_states status_words)

lemma shows_OFF_value:
  "motor_sound m \<Longrightarrow> shows_state (motor_status m) OFF_STATE \<Longrightarrow> mo_value m = SWITCH_ON_DISABLED"
  using motor_sound_value [of m] by (auto simp: motor_states status_words)

lemma closed_run_sound:
  "motor_sound m \<Longrightarrow> motor_sound (snd (closed_run motor_status (motor_obey fd) r (s, m) n))"
  by (induction n) (auto simp: closed_loop_def Let_def emu_motor.sound_obey)

text \<open>(C40) Enabling succeeds in bounded time, unless the machine still counts the motor as on. In every other state of the
  machine (off, in the middle of a sequence, in fault, with the stabilization delay pending) and in every state of
  the motor, once \<open>enable()\<close> is called and the machine is cycled with no cycle longer than 380 ms, the machine
  reports the motor enabled, with the motor in operation, within 2.2 s and ten cycles, and from then on in every cycle.
\<close>

theorem ds402_enabling_succeeds:
  assumes "paced d T r" and "MOTOR_RESET_DELAY + 5 * d \<le> MOTOR_INIT_TIMEOUT"
    and "sm_state s \<noteq> M_ON" and "sm_start s \<le> T 0" and "sm_stab s \<le> T 0" and "motor_sound m"
  shows "\<exists>k. T k \<le> T 0 + 2200000000 + 10 * d
    \<and> (\<forall>j. isEnabled (fst (closed_run motor_status (motor_obey fd) r (sm_enable s, m) (k + j)))
         \<and> mo_value (snd (closed_run motor_status (motor_obey fd) r (sm_enable s, m) (k + j))) = OPERATION_ENABLED)"
proof -
  let ?X = "closed_run motor_status (motor_obey fd) r (sm_enable s, m)"
  have run: "\<And>n. closed_loop motor_status (motor_obey fd) (r n) (?X n) = ?X (Suc n)" by simp
  have "enabling_at motor_sound T ?X 0" using assms(3-6) by (simp add: enabling_at_def enabling_def sm_enable_def)
  from emu_motor.enabling_succeeds [where X = ?X, OF run assms(1,2) this] obtain k where
    k: "running_at motor_status motor_sound ?X k" "T k \<le> T 0 + 2200000000 + 10 * d"
    by (auto simp: ds402_delays)
  have "running_at motor_status motor_sound ?X (k + j)" for j
    by (rule emu_motor.running_stays [where X = ?X, OF run k(1)])
  then show ?thesis
    using k(2) by (intro exI [of _ k]) (auto simp: running_at_def running_def isEnabled_def shows_ON_value)
qed

definition even_readings :: "nat \<Rightarrow> readings" where
  "even_readings n = \<lparr>rd_start = 1000000 * int n, rd_elapsed = 1000000 * int n, rd_mark = 1000000 * int n, rd_timeout = 1000000 * int n\<rparr>"

definition no_cells :: found_cells where
  "no_cells = \<lparr>fd_control = None, fd_status = None, fd_mode = None, fd_mode_display = None\<rparr>"

definition motor_in :: "u16 \<Rightarrow> motor" where
  "motor_in v = \<lparr>mo_bound = True, mo_value = v,
     mo_cells = \<lparr>mc_control = Some 0, mc_status = Some v, mc_mode = None, mc_mode_display = None\<rparr>\<rparr>"

theorem ds402_enabling_succeeds_witness:
  "\<exists>k. 1000000 * int k \<le> 2200000000 + 10 * 1000000
    \<and> (\<forall>j. isEnabled (fst (closed_run motor_status (motor_obey no_cells) even_readings
               (sm_enable (StateMachine_new\<lparr>sm_state := M_FAULT\<rparr>), motor_in SWITCH_ON_DISABLED) (k + j)))
         \<and> mo_value (snd (closed_run motor_status (motor_obey no_cells) even_readings
               (sm_enable (StateMachine_new\<lparr>sm_state := M_FAULT\<rparr>), motor_in SWITCH_ON_DISABLED) (k + j))) = OPERATION_ENABLED)"
proof -
  have "paced 1000000 (\<lambda>n. 1000000 * int n) even_readings" by (simp add: paced_def in_cycle_def even_readings_def)
  moreover have "motor_sound (motor_in SWITCH_ON_DISABLED)" by (simp add: motor_in_def motor_sound_def)
  ultimately show ?thesis
    using ds402_enabling_succeeds [of 1000000 "\<lambda>n. 1000000 * int n" even_readings "StateMachine_new\<lparr>sm_state := M_FAULT\<rparr>"
        "motor_in SWITCH_ON_DISABLED" no_cells]
    by (simp add: ds402_delays StateMachine_new_def)
qed

text \<open>What the machine does with an \<open>enable()\<close> that finds it in the state ON: nothing, whatever its control word.\<close>

lemma enable_in_ON:
  assumes "\<not> shows_state w FAULT_STATE" and "sm_command s = CMD_ENABLE" and "sm_state s = M_ON"
  shows "StateMachine_update r w s = s\<lparr>sm_status := w\<rparr>"
  using assms by (simp add: StateMachine_update_def enable_state_def enable_fault_def enable_timeout_def)

lemma voltage_removed:
  assumes "motor_sound m"
  shows "mo_value (motor_obey fd DISABLE_VOLTAGE m) = SWITCH_ON_DISABLED"
  using assms by (simp add: motor_obey_value stepStateMachine_def control_words)

text \<open>An \<open>enable()\<close> during the shutdown is lost. The machine leaves ON only when the drive has reported that it is off: when an
  application disables a running motor and enables it again one update later, the machine stays in ON, keeps sending the
  word that removes the voltage and reports the motor enabled, in every later cycle, while the motor is switched off.\<close>

theorem ds402_reenable_lost:
  assumes "running s" and "motor_sound m" and "mo_value m = OPERATION_ENABLED"
    and "x = closed_loop motor_status (motor_obey fd) r (sm_disable s, m)"
    and "y = closed_run motor_status (motor_obey fd) rs (sm_enable (fst x), snd x) k"
  shows "isEnabled (fst y) \<and> sm_control (fst y) = DISABLE_VOLTAGE \<and> mo_value (snd y) = SWITCH_ON_DISABLED"
proof -
  let ?y = "closed_run motor_status (motor_obey fd) rs (sm_enable (fst x), snd x)"
  have x: "sm_state (fst x) = M_ON" "sm_control (fst x) = DISABLE_VOLTAGE" "snd x = motor_obey fd DISABLE_VOLTAGE m"
    using assms(1-4) by (simp_all add: closed_loop_def sm_disable_def running_def motor_sound_value(1)
        StateMachine_update_def Let_def motor_states status_words)
  have sound: "motor_sound (snd (?y n))" for n
    by (rule closed_run_sound) (simp add: x(3) emu_motor.sound_obey [OF assms(2)])
  have "sm_command (fst (?y n)) = CMD_ENABLE \<and> sm_state (fst (?y n)) = M_ON \<and> sm_control (fst (?y n)) = DISABLE_VOLTAGE
      \<and> mo_value (snd (?y n)) = SWITCH_ON_DISABLED" for n
  proof (induction n)
    case 0
    then show ?case using x voltage_removed [OF assms(2)] by (simp add: sm_enable_def)
  next
    case (Suc n)
    have up: "StateMachine_update (rs n) (motor_status (snd (?y n))) (fst (?y n)) = (fst (?y n))\<lparr>sm_status := motor_status (snd (?y n))\<rparr>"
      using Suc.IH by (intro enable_in_ON emu_motor.no_fault sound) simp_all
    then show ?case using Suc.IH voltage_removed [OF sound] by (simp add: closed_loop_def Let_def)
  qed
  then show ?thesis using assms(5) by (simp add: isEnabled_def)
qed

theorem ds402_reenable_lost_witness:
  "let s = StateMachine_new\<lparr>sm_state := M_ON, sm_control := ENABLE_OPERATION\<rparr>;
       x = closed_loop motor_status (motor_obey no_cells) (even_readings 0) (sm_disable s, motor_in OPERATION_ENABLED);
       y = closed_run motor_status (motor_obey no_cells) even_readings (sm_enable (fst x), snd x) 1000000
   in isEnabled (fst y) \<and> sm_control (fst y) = DISABLE_VOLTAGE \<and> mo_value (snd y) = SWITCH_ON_DISABLED"
  unfolding Let_def
  by (rule ds402_reenable_lost [OF _ _ _ refl refl]) (simp_all add: running_def StateMachine_new_def motor_in_def motor_sound_def)

text \<open>Disabling succeeds in two cycles: whatever the states of the machine and the motor, two cycles
  after \<open>disable\<close> the machine is off, the control word removes the voltage and the motor has switched
  off, and they stay so.
\<close>

theorem ds402_disable_succeeds:
  assumes "motor_sound m"
  shows "sm_state (fst (closed_run motor_status (motor_obey fd) r (sm_disable s, m) (2 + j))) = M_OFF
    \<and> sm_control (fst (closed_run motor_status (motor_obey fd) r (sm_disable s, m) (2 + j))) = DISABLE_VOLTAGE
    \<and> mo_value (snd (closed_run motor_status (motor_obey fd) r (sm_disable s, m) (2 + j))) = SWITCH_ON_DISABLED"
proof -
  let ?X = "closed_run motor_status (motor_obey fd) r (sm_disable s, m)"
  have run: "\<And>n. closed_loop motor_status (motor_obey fd) (r n) (?X n) = ?X (Suc n)" by simp
  have disabled: "sm_command (fst (?X 0)) = CMD_DISABLE" by (simp add: sm_disable_def)
  have "sm_state (fst (?X (2 + j))) = M_OFF \<and> sm_control (fst (?X (2 + j))) = DISABLE_VOLTAGE
    \<and> shows_state (motor_status (snd (?X (2 + j)))) OFF_STATE"
    using emu_motor.disable_succeeds [where X = ?X and n = 0 and k = j, OF run disabled] assms
    by (simp only: closed_run.simps(1) snd_conv add_0)
  moreover have "motor_sound (snd (?X (2 + j)))" by (rule closed_run_sound [OF assms])
  ultimately show ?thesis using shows_OFF_value by blast
qed

theorem ds402_disable_succeeds_witness:
  "sm_state (fst (closed_run motor_status
       (motor_obey \<lparr>fd_control = None, fd_status = None, fd_mode = None, fd_mode_display = None\<rparr>)
       (\<lambda>n. \<lparr>rd_start = 0, rd_elapsed = 0, rd_mark = 0, rd_timeout = 0\<rparr>)
       (sm_disable StateMachine_new,
        \<lparr>mo_bound = True, mo_value = OPERATION_ENABLED,
         mo_cells = \<lparr>mc_control = Some 0, mc_status = Some OPERATION_ENABLED, mc_mode = None,
                     mc_mode_display = None\<rparr>\<rparr>) (2 + 1))) = M_OFF"
  using ds402_disable_succeeds [of
      "\<lparr>mo_bound = True, mo_value = OPERATION_ENABLED,
        mo_cells = \<lparr>mc_control = Some 0, mc_status = Some OPERATION_ENABLED, mc_mode = None,
                    mc_mode_display = None\<rparr>\<rparr>"
      "\<lparr>fd_control = None, fd_status = None, fd_mode = None, fd_mode_display = None\<rparr>"
      "\<lambda>n. \<lparr>rd_start = 0, rd_elapsed = 0, rd_mark = 0, rd_timeout = 0\<rparr>" StateMachine_new 1]
  by (simp add: motor_sound_def)

text \<open>The emulated motor cannot be energized by a shortcut.\<close>

definition prepared :: "u16 list \<Rightarrow> bool" where
  "prepared ws \<longleftrightarrow> (\<exists>as w bs. ws = as @ w # bs \<and> w AND 0x0F = 0x06 \<and> (\<forall>b\<in>set bs. b AND 0x02 \<noteq> 0))"

lemma prepared_snoc: "w AND 0x02 \<noteq> 0 \<Longrightarrow> prepared ws \<Longrightarrow> prepared (ws @ [w])"
proof -
  assume w: "w AND 0x02 \<noteq> 0" and "prepared ws"
  then obtain as u bs where "ws = as @ u # bs" "u AND 0x0F = 0x06" "\<forall>b\<in>set bs. b AND 0x02 \<noteq> 0"
    by (auto simp: prepared_def)
  then show ?thesis
    using w unfolding prepared_def by (intro exI [of _ as] exI [of _ u] exI [of _ "bs @ [w]"]) auto
qed

lemma prepared_shutdown: "w AND 0x0F = 0x06 \<Longrightarrow> prepared (ws @ [w])"
  unfolding prepared_def by (intro exI [of _ ws] exI [of _ w] exI [of _ "[]"]) simp

lemma energized_prepared:
  "fold stepStateMachine ws SWITCH_ON_DISABLED \<in> {SWITCH_ON_DISABLED, READY, SWITCHED_ON, OPERATION_ENABLED}
   \<and> (fold stepStateMachine ws SWITCH_ON_DISABLED \<noteq> SWITCH_ON_DISABLED \<longrightarrow> prepared ws)"
proof (induction ws rule: rev_induct)
  case (snoc w ws)
  define v where "v = fold stepStateMachine ws SWITCH_ON_DISABLED"
  have v: "v \<in> {SWITCH_ON_DISABLED, READY, SWITCHED_ON, OPERATION_ENABLED}" "v \<noteq> SWITCH_ON_DISABLED \<Longrightarrow> prepared ws"
    using snoc by (auto simp: v_def)
  have "prepared (ws @ [w])" if "stepStateMachine w v \<noteq> SWITCH_ON_DISABLED"
  proof (cases "w AND 0x0F = 0x06")
    case False
    then have "w AND 0x02 \<noteq> 0" "v \<noteq> SWITCH_ON_DISABLED"
      using that by (auto simp: stepStateMachine_def Let_def motor_states split: if_splits)
    then show ?thesis using v(2) by (simp add: prepared_snoc)
  qed (rule prepared_shutdown)
  then show ?case using stepStateMachine_closed [OF v(1), of w] by (simp add: v_def)
qed simp

text \<open>The emulated motor honours the prerequisites of CiA 402: whatever control words it is sent, it is
  only ever in operation when a SHUTDOWN command was followed by an ENABLE OPERATION command with the
  voltage enabled in every word since.
\<close>

theorem motor_no_shortcut:
  assumes "fold stepStateMachine ws SWITCH_ON_DISABLED = OPERATION_ENABLED"
  shows "\<exists>as w bs v cs. ws = as @ w # bs @ v # cs \<and> w AND 0x0F = 0x06 \<and> v AND 0x0F = 0x0F
    \<and> (\<forall>b\<in>set (bs @ v # cs). b AND 0x02 \<noteq> 0)"
  using assms
proof (induction ws rule: rev_induct)
  case Nil
  then show ?case by (simp add: motor_states)
next
  case (snoc w ws)
  define v where "v = fold stepStateMachine ws SWITCH_ON_DISABLED"
  have op: "stepStateMachine w v = OPERATION_ENABLED" using snoc.prems by (simp add: v_def)
  then have voltage: "w AND 0x02 \<noteq> 0" by (auto simp: stepStateMachine_def motor_states split: if_splits)
  show ?case
  proof (cases "v = OPERATION_ENABLED")
    case True
    then obtain as u bs x cs where "ws = as @ u # bs @ x # cs" "u AND 0x0F = 0x06" "x AND 0x0F = 0x0F"
        "\<forall>b\<in>set (bs @ x # cs). b AND 0x02 \<noteq> 0"
      using snoc.IH by (auto simp: v_def)
    then show ?thesis using voltage
      by (intro exI [of _ as] exI [of _ u] exI [of _ bs] exI [of _ x] exI [of _ "cs @ [w]"]) auto
  next
    case False
    then have cmd: "w AND 0x0F = 0x0F" and "v \<noteq> SWITCH_ON_DISABLED"
      using op by (auto simp: stepStateMachine_def Let_def motor_distinct split: if_split_asm)
    then have "prepared ws" using energized_prepared [of ws] by (simp add: v_def)
    then obtain as u bs where "ws = as @ u # bs" "u AND 0x0F = 0x06" "\<forall>b\<in>set bs. b AND 0x02 \<noteq> 0"
      by (auto simp: prepared_def)
    then show ?thesis using voltage cmd
      by (intro exI [of _ as] exI [of _ u] exI [of _ bs] exI [of _ w] exI [of _ "[]"]) auto
  qed
qed

theorem motor_no_shortcut_witness:
  "\<exists>as w bs v cs. [0, SHUTDOWN, ENABLE_OPERATION] = as @ w # bs @ v # cs \<and> w AND 0x0F = 0x06 \<and> v AND 0x0F = 0x0F
    \<and> (\<forall>b\<in>set (bs @ v # cs). b AND 0x02 \<noteq> 0)"
proof (rule motor_no_shortcut)
  have "stepStateMachine 0 SWITCH_ON_DISABLED = SWITCH_ON_DISABLED"
    "stepStateMachine SHUTDOWN SWITCH_ON_DISABLED = READY"
    "stepStateMachine ENABLE_OPERATION READY = OPERATION_ENABLED"
    by code_simp+
  then show "fold stepStateMachine [0, SHUTDOWN, ENABLE_OPERATION] SWITCH_ON_DISABLED = OPERATION_ENABLED"
    by simp
qed

text \<open>A faulted drive is never commanded into operation: an update in the enabling command that sees
  the fault bit ends in OFF whatever the state, once there every control word is neutral or a fault
  reset, and the machine reports a drive enabled only from SWITCH ON, with the status word of a drive
  in operation and without fault.
\<close>

theorem ds402_fault_blocks_enable:
  "(sm_command s = CMD_ENABLE \<and> shows_state w FAULT_STATE \<longrightarrow>
      sm_state (StateMachine_update r w s) = M_OFF
      \<and> (sm_state s = M_OFF \<longrightarrow> sm_control (StateMachine_update r w s) \<in> {0, FAULT_RESET}))
   \<and> (\<not> isEnabled s \<and> isEnabled (StateMachine_update r w s) \<longrightarrow>
      sm_state s = M_SWITCH_ON \<and> shows_state w ON_STATE \<and> \<not> shows_state w FAULT_STATE
      \<and> sm_command s = CMD_ENABLE \<and> sm_command (StateMachine_update r w s) = CMD_NONE)"
proof -
  define u where "u = enable_state r (s\<lparr>sm_status := w\<rparr>)"
  have w: "sm_status u = w"
    by (simp add: u_def enable_state_def enable_off_def Let_def split: motor_state.split)
  have st: "shows_state w FAULT_STATE \<Longrightarrow> sm_state u = M_OFF \<or> sm_state u \<noteq> M_FAULT"
    by (cases "sm_state s") (auto simp: u_def enable_state_def enable_off_def Let_def)
  have on: "sm_state u = M_ON \<Longrightarrow> sm_state s = M_SWITCH_ON \<and> shows_state w ON_STATE \<and> sm_command u = CMD_NONE
      \<or> sm_state s = M_ON"
    by (cases "sm_state s") (auto simp: u_def enable_state_def enable_off_def Let_def split: if_splits)
  have ctl: "sm_state s = M_OFF \<Longrightarrow> shows_state w FAULT_STATE \<Longrightarrow> sm_control u \<in> {0, FAULT_RESET}"
    by (auto simp: u_def enable_state_def enable_off_def Let_def)
  show ?thesis
  proof (cases "sm_command s")
    case CMD_ENABLE
    then have "StateMachine_update r w s = enable_timeout r (enable_fault u)"
      by (simp add: StateMachine_update_def u_def)
    then show ?thesis using CMD_ENABLE w st on ctl
      by (auto simp: enable_timeout_def enable_fault_def isEnabled_def split: if_splits)
  qed (auto simp: StateMachine_update_def Let_def isEnabled_def split: if_splits)
qed

theorem ds402_fault_blocks_enable_witness:
  "sm_state (StateMachine_update \<lparr>rd_start = 5, rd_elapsed = 6, rd_mark = 7, rd_timeout = 8\<rparr> 0x1F
     (StateMachine_new\<lparr>sm_command := CMD_ENABLE, sm_state := M_SWITCH_ON\<rparr>)) = M_OFF"
  using ds402_fault_blocks_enable [of "StateMachine_new\<lparr>sm_command := CMD_ENABLE, sm_state := M_SWITCH_ON\<rparr>" "0x1F"
      "\<lparr>rd_start = 5, rd_elapsed = 6, rd_mark = 7, rd_timeout = 8\<rparr>"]
  by (simp add: StateMachine_new_def FAULT_STATE_def)

section \<open>Recovering from a fault\<close>

text \<open>A run against a faulted drive. A rising edge of the fault reset bit is what acknowledges a fault.\<close>

primrec status_run :: "(nat \<Rightarrow> readings) \<Rightarrow> (nat \<Rightarrow> u16) \<Rightarrow> sm \<Rightarrow> nat \<Rightarrow> sm" where
  "status_run r w s 0 = s"
| "status_run r w s (Suc n) = StateMachine_update (r n) (w n) (status_run r w s n)"

definition faulted :: "int \<Rightarrow> sm \<Rightarrow> bool" where
  "faulted t s \<longleftrightarrow> sm_command s = CMD_ENABLE \<and> sm_state s = M_OFF \<and> sm_toggle s \<le> t
     \<and> sm_control s = (if sm_fault_reset s then FAULT_RESET else 0)"

lemma update_faulted:
  assumes "sm_command s = CMD_ENABLE" and "sm_state s = M_OFF" and "sm_toggle s \<le> t" and "in_cycle t t' r"
    and "shows_state w FAULT_STATE"
  defines "s' \<equiv> StateMachine_update r w s"
  shows "faulted t' s'
    \<and> (if rd_elapsed r - sm_toggle s \<ge> FAULT_RESET_HALF_PERIOD
       then sm_fault_reset s' = (\<not> sm_fault_reset s) \<and> sm_toggle s' = rd_mark r
       else sm_fault_reset s' = sm_fault_reset s \<and> sm_toggle s' = sm_toggle s)"
  using assms
  by (simp add: s'_def StateMachine_update_def enable_state_def enable_off_def Let_def enable_fault_def
      enable_timeout_def faulted_def in_cycle_def)

lemma toggle_comes:
  assumes pace: "paced d T r" and w: "\<And>n. shows_state (w n) FAULT_STATE" and f: "faulted (T n) (status_run r w s n)"
  shows "\<exists>m\<ge>n. faulted (T m) (status_run r w s m) \<and> faulted (T (Suc m)) (status_run r w s (Suc m))
    \<and> sm_fault_reset (status_run r w s m) = sm_fault_reset (status_run r w s n)
    \<and> sm_fault_reset (status_run r w s (Suc m)) \<noteq> sm_fault_reset (status_run r w s n)
    \<and> T (Suc m) \<le> T n + FAULT_RESET_HALF_PERIOD + 2 * d"
proof -
  let ?S = "status_run r w s"
  define P where "P m \<longleftrightarrow> faulted (T m) (?S m) \<and> sm_fault_reset (?S m) = sm_fault_reset (?S n)
    \<and> sm_toggle (?S m) = sm_toggle (?S n)" for m
  define Q where "Q k \<longleftrightarrow> (\<exists>m\<ge>n. k = Suc m \<and> P m \<and> faulted (T k) (?S k)
    \<and> sm_fault_reset (?S k) \<noteq> sm_fault_reset (?S n))" for k
  have step: "(P (Suc m) \<and> T m < sm_toggle (?S n) + FAULT_RESET_HALF_PERIOD) \<or> Q (Suc m)" if "P m" "n \<le> m" for m
  proof -
    have "sm_command (?S m) = CMD_ENABLE" "sm_state (?S m) = M_OFF" "sm_toggle (?S m) \<le> T m"
      using that by (simp_all add: P_def faulted_def)
    from update_faulted [OF this pacedD(3) [OF pace, of m] w [of m]] show ?thesis
      using that pacedD(3) [OF pace, of m] by (auto simp: P_def Q_def in_cycle_def split: if_splits)
  qed
  have "\<exists>k>n. Q k \<and> T k \<le> max (T n) (sm_toggle (?S n) + FAULT_RESET_HALF_PERIOD) + 2 * d"
    by (rule phase_ends [OF pace, where P = P]) (use f step in \<open>force simp: P_def\<close>)+
  moreover have "max (T n) (sm_toggle (?S n) + FAULT_RESET_HALF_PERIOD) \<le> T n + FAULT_RESET_HALF_PERIOD"
    using f by (auto simp: faulted_def FAULT_RESET_HALF_PERIOD_def)
  ultimately show ?thesis unfolding Q_def P_def by force
qed

lemma rising_edge_comes:
  assumes pace: "paced d T r" and w: "\<And>n. shows_state (w n) FAULT_STATE" and f: "faulted (T n) (status_run r w s n)"
  shows "\<exists>m\<ge>n. sm_control (status_run r w s m) = 0 \<and> sm_control (status_run r w s (Suc m)) = FAULT_RESET
    \<and> T (Suc m) \<le> T n + 2 * FAULT_RESET_HALF_PERIOD + 4 * d"
proof -
  let ?S = "status_run r w s"
  obtain a where a: "n \<le> a" "faulted (T a) (?S a)" "faulted (T (Suc a)) (?S (Suc a))"
      "sm_fault_reset (?S a) = sm_fault_reset (?S n)" "sm_fault_reset (?S (Suc a)) \<noteq> sm_fault_reset (?S n)"
      "T (Suc a) \<le> T n + FAULT_RESET_HALF_PERIOD + 2 * d"
    using toggle_comes [OF assms] by auto
  obtain b where b: "Suc a \<le> b" "faulted (T b) (?S b)" "faulted (T (Suc b)) (?S (Suc b))"
      "sm_fault_reset (?S b) = sm_fault_reset (?S (Suc a))" "sm_fault_reset (?S (Suc b)) \<noteq> sm_fault_reset (?S (Suc a))"
      "T (Suc b) \<le> T (Suc a) + FAULT_RESET_HALF_PERIOD + 2 * d"
    using toggle_comes [OF pace w a(3)] by auto
  have pos: "0 \<le> FAULT_RESET_HALF_PERIOD" "0 \<le> d"
    using pacedD(1,2) [OF pace, of 0] by (simp_all add: FAULT_RESET_HALF_PERIOD_def)
  show ?thesis
  proof (cases "sm_fault_reset (?S n)")
    case True
    then show ?thesis using a b pos by (intro exI [of _ b]) (auto simp: faulted_def)
  next
    case False
    then show ?thesis using a pos by (intro exI [of _ a]) (auto simp: faulted_def)
  qed
qed

text \<open>A fault is acknowledged again and again, but not too fast. While a drive stays faulted the enabling
  machine stays in OFF, it inverts the fault reset bit at most once per half period (the timestamps of
  two successive changes are at least 50 ms apart), and from every cycle on a rising edge of that bit is
  sent within 100 ms and four cycles.
\<close>

theorem ds402_fault_reset_pulses:
  assumes "paced d T r" and "\<And>n. shows_state (w n) FAULT_STATE"
    and "sm_command s = CMD_ENABLE" and "sm_state s = M_OFF" and "sm_toggle s \<le> T 0"
  shows "sm_state (status_run r w s n) = M_OFF
    \<and> (sm_fault_reset (status_run r w s (Suc n)) \<noteq> sm_fault_reset (status_run r w s n) \<longrightarrow>
        sm_toggle (status_run r w s n) + FAULT_RESET_HALF_PERIOD \<le> sm_toggle (status_run r w s (Suc n)))
    \<and> (\<exists>m>n. sm_control (status_run r w s m) = 0 \<and> sm_control (status_run r w s (Suc m)) = FAULT_RESET
        \<and> T (Suc m) \<le> T (Suc n) + 2 * FAULT_RESET_HALF_PERIOD + 4 * d)"
proof -
  let ?S = "status_run r w s"
  have off: "sm_command (?S k) = CMD_ENABLE \<and> sm_state (?S k) = M_OFF \<and> sm_toggle (?S k) \<le> T k" for k
  proof (induction k)
    case (Suc k)
    then have "faulted (T (Suc k)) (?S (Suc k))"
      using update_faulted [OF _ _ _ pacedD(3) [OF assms(1), of k] assms(2) [of k], of "?S k"] by simp
    then show ?case by (simp add: faulted_def)
  qed (use assms in simp)
  then have "sm_command (?S n) = CMD_ENABLE" "sm_state (?S n) = M_OFF" "sm_toggle (?S n) \<le> T n" by auto
  note upd = update_faulted [OF this pacedD(3) [OF assms(1), of n] assms(2) [of n]]
  then have f: "faulted (T (Suc n)) (?S (Suc n))" by simp
  have "sm_toggle (?S n) + FAULT_RESET_HALF_PERIOD \<le> sm_toggle (?S (Suc n))"
    if "sm_fault_reset (?S (Suc n)) \<noteq> sm_fault_reset (?S n)"
    using upd that pacedD(3) [OF assms(1), of n] by (auto simp: in_cycle_def split: if_splits)
  then show ?thesis
    using off rising_edge_comes [OF assms(1,2) f] by (auto simp: Suc_le_eq)
qed

theorem ds402_fault_reset_pulses_witness:
  "\<exists>m>0. sm_control (status_run (\<lambda>n. \<lparr>rd_start = 1000000 * int n, rd_elapsed = 1000000 * int n,
        rd_mark = 1000000 * int n, rd_timeout = 1000000 * int n\<rparr>) (\<lambda>n. 0x08)
        (StateMachine_new\<lparr>sm_command := CMD_ENABLE\<rparr>) m) = 0"
  using ds402_fault_reset_pulses [of 1000000 "\<lambda>n. 1000000 * int n"
      "\<lambda>n. \<lparr>rd_start = 1000000 * int n, rd_elapsed = 1000000 * int n, rd_mark = 1000000 * int n,
            rd_timeout = 1000000 * int n\<rparr>" "\<lambda>n. 0x08" "StateMachine_new\<lparr>sm_command := CMD_ENABLE\<rparr>" 0]
  by (auto simp: paced_def in_cycle_def FAULT_STATE_def StateMachine_new_def)

section \<open>The drive object\<close>

record drive_input =
  di_status_word :: u16
  di_mode_display :: u8
  di_actual_position :: u32
  di_actual_velocity :: u32
  di_actual_torque :: u16
  di_error_code :: u16

record drive_output =
  do_control_word :: u16
  do_mode :: u8
  do_target_position :: u32
  do_target_velocity :: u32
  do_target_torque :: u16

text \<open>The process image of the slave; \<open>None\<close> is a pointer the mapping has not set yet.\<close>

record drive_image =
  im_output :: "drive_output option"
  im_input :: "drive_input option"

record drive =
  dr_attached :: bool
  dr_sm :: sm
  dr_mode :: u8

definition NO_MODE :: u8 where "NO_MODE = 0xFF"

definition Drive_new :: drive where
  "Drive_new = \<lparr>dr_attached = False, dr_sm = StateMachine_new, dr_mode = NO_MODE\<rparr>"

datatype drive_error = ATTACH_BEFORE_MAPPING

definition Drive_attach :: "drive \<Rightarrow> drive_image \<Rightarrow> drive_error + drive \<times> drive_image" where
  "Drive_attach dr im =
     (case (im_output im, im_input im) of
        (Some out, Some inp) \<Rightarrow>
          Inr (dr\<lparr>dr_attached := True\<rparr>,
               im\<lparr>im_output := Some (out\<lparr>do_control_word := 0, do_mode := dr_mode dr,
                    do_target_position := di_actual_position inp, do_target_velocity := 0,
                    do_target_torque := 0\<rparr>)\<rparr>)
      | _ \<Rightarrow> Inl ATTACH_BEFORE_MAPPING)"

text \<open>An update dereferences both pointers; \<open>None\<close> is an update before \<open>attach\<close>.\<close>

definition Drive_update :: "readings \<Rightarrow> drive \<Rightarrow> drive_image \<Rightarrow> (drive \<times> drive_image) option" where
  "Drive_update r dr im =
     (if \<not> dr_attached dr then None
      else case (im_output im, im_input im) of
        (Some out, Some inp) \<Rightarrow>
          let s = StateMachine_update r (di_status_word inp) (dr_sm dr)
          in Some (dr\<lparr>dr_sm := s\<rparr>, im\<lparr>im_output := Some (out\<lparr>do_control_word := sm_control s\<rparr>)\<rparr>)
      | _ \<Rightarrow> None)"

definition Drive_destroy :: "drive \<Rightarrow> drive_image \<Rightarrow> drive_image" where
  "Drive_destroy dr im =
     (if \<not> dr_attached dr then im
      else case (im_output im, im_input im) of
        (Some out, Some inp) \<Rightarrow>
          im\<lparr>im_output := Some (out\<lparr>do_control_word := DISABLE_VOLTAGE,
             do_target_position := di_actual_position inp, do_target_velocity := 0, do_target_torque := 0\<rparr>)\<rparr>
      | _ \<Rightarrow> im)"

text \<open>The cycle of an application that sets no target: the inputs arrive, the drive is commanded and updated.\<close>

datatype drive_op = Enable | Disable | Cycle readings drive_input

fun drive_do :: "drive_op \<Rightarrow> drive \<times> drive_image \<Rightarrow> (drive \<times> drive_image) option" where
  "drive_do Enable (dr, im) = Some (dr\<lparr>dr_sm := sm_enable (dr_sm dr)\<rparr>, im)"
| "drive_do Disable (dr, im) = Some (dr\<lparr>dr_sm := sm_disable (dr_sm dr)\<rparr>, im)"
| "drive_do (Cycle r inp) (dr, im) = Drive_update r dr (im\<lparr>im_input := Some inp\<rparr>)"

fun drive_ops :: "drive_op list \<Rightarrow> drive \<times> drive_image \<Rightarrow> (drive \<times> drive_image) option" where
  "drive_ops [] x = Some x"
| "drive_ops (p # ps) x = Option.bind (drive_do p x) (drive_ops ps)"

text \<open>The image an attached drive holds: where the motor was when it was attached, and no motion.\<close>

definition holding :: "u8 \<Rightarrow> u32 \<Rightarrow> drive \<times> drive_image \<Rightarrow> bool" where
  "holding mode pos x \<longleftrightarrow> dr_attached (fst x) \<and> im_input (snd x) \<noteq> None
     \<and> sm_ok (dr_sm (fst x))
     \<and> (\<exists>out. im_output (snd x) = Some out \<and> do_mode out = mode \<and> do_target_position out = pos
          \<and> do_target_velocity out = 0 \<and> do_target_torque out = 0
          \<and> do_control_word out \<in> {0, SHUTDOWN, ENABLE_OPERATION, FAULT_RESET})"

lemma holding_do:
  assumes "holding mode pos x"
  shows "\<exists>y. drive_do p x = Some y \<and> holding mode pos y"
proof -
  obtain dr im where x: "x = (dr, im)" by (cases x)
  show ?thesis
  proof (cases p)
    case (Cycle r inp)
    define s where "s = StateMachine_update r (di_status_word inp) (dr_sm dr)"
    obtain out where out: "im_output im = Some out" "dr_attached dr" using assms x by (auto simp: holding_def)
    have s: "sm_ok s"
      using assms x unfolding s_def by (intro sm_ok_update) (simp add: holding_def)
    then have "sm_control s \<in> {0, SHUTDOWN, ENABLE_OPERATION, FAULT_RESET}" by (simp add: sm_ok_def)
    moreover have "drive_do p x = Some (dr\<lparr>dr_sm := s\<rparr>, im\<lparr>im_input := Some inp,
        im_output := Some (out\<lparr>do_control_word := sm_control s\<rparr>)\<rparr>)"
      using out by (simp add: x Cycle Drive_update_def Let_def s_def)
    ultimately show ?thesis
      using assms x out s by (simp add: holding_def)
  qed (use assms x in \<open>simp_all add: holding_def sm_enable_def sm_disable_def sm_ok_def\<close>)
qed

lemma holding_ops: "holding mode pos x \<Longrightarrow> \<exists>y. drive_ops ps x = Some y \<and> holding mode pos y"
proof (induction ps arbitrary: x)
  case (Cons p ps)
  then obtain y where "drive_do p x = Some y" "holding mode pos y" using holding_do by blast
  then show ?case using Cons.IH by simp
qed simp

lemma holding_attach:
  assumes "Drive_attach dr im = Inr x" and "sm_ok (dr_sm dr)" and "im_input im = Some inp"
  shows "holding (dr_mode dr) (di_actual_position inp) x"
  using assms by (auto simp: Drive_attach_def holding_def split: option.splits)

text \<open>A drive holds its position until it is told otherwise. Attaching fails exactly when the process
  image is not mapped; after it, whatever the application enables, disables and cycles, with whatever
  inputs, the outputs keep the mode that was configured, the position measured when the drive was
  attached and no velocity and no torque, and the control word is one of the four commands.
\<close>

theorem drive_holds_position:
  assumes "im_output im \<noteq> None" and "im_input im = Some inp" and "sm_ok (dr_sm dr)"
  shows "\<exists>x y out. Drive_attach dr im = Inr x \<and> drive_ops ps x = Some y \<and> im_output (snd y) = Some out
    \<and> do_mode out = dr_mode dr \<and> do_target_position out = di_actual_position inp
    \<and> do_target_velocity out = 0 \<and> do_target_torque out = 0
    \<and> do_control_word out \<in> {0, SHUTDOWN, ENABLE_OPERATION, FAULT_RESET}"
proof -
  obtain x where x: "Drive_attach dr im = Inr x" using assms by (auto simp: Drive_attach_def)
  then show ?thesis
    using holding_ops [OF holding_attach [OF x assms(3,2)], of ps] by (auto simp: holding_def)
qed

theorem drive_holds_position_witness:
  "\<exists>x y out. Drive_attach Drive_new
        \<lparr>im_output = Some \<lparr>do_control_word = 7, do_mode = 0, do_target_position = 1, do_target_velocity = 2,
                           do_target_torque = 3\<rparr>,
         im_input = Some \<lparr>di_status_word = 0x40, di_mode_display = 0, di_actual_position = 1234,
                          di_actual_velocity = 0, di_actual_torque = 0, di_error_code = 0\<rparr>\<rparr> = Inr x
    \<and> drive_ops [Enable] x = Some y \<and> im_output (snd y) = Some out
    \<and> do_target_position out = 1234 \<and> do_target_velocity out = 0 \<and> do_target_torque out = 0"
proof -
  let ?inp = "\<lparr>di_status_word = 0x40, di_mode_display = 0, di_actual_position = 1234,
    di_actual_velocity = 0, di_actual_torque = 0, di_error_code = 0\<rparr> :: drive_input"
  let ?out = "\<lparr>do_control_word = 7, do_mode = 0, do_target_position = 1, do_target_velocity = 2,
    do_target_torque = 3\<rparr> :: drive_output"
  have "sm_ok (dr_sm Drive_new)"
    by (simp add: Drive_new_def StateMachine_new_def sm_ok_def FAULT_RESET_def)
  from drive_holds_position [of "\<lparr>im_output = Some ?out, im_input = Some ?inp\<rparr>" ?inp Drive_new "[Enable]",
      OF _ _ this]
  obtain x y out where "Drive_attach Drive_new \<lparr>im_output = Some ?out, im_input = Some ?inp\<rparr> = Inr x"
    "drive_ops [Enable] x = Some y" "im_output (snd y) = Some out" "do_target_position out = 1234"
    "do_target_velocity out = 0" "do_target_torque out = 0"
    by auto
  then show ?thesis by blast
qed

end
