(* ===== verification/Bus.thy ===== *)
theory Bus
  imports Link SdoClient SII
begin

text \<open>
  The master: \<open>lib/master/src/Bus.cc\<close>, \<open>lib/master/src/Slave.cc\<close>.

  The bus talks to the network through the virtual functions of \<open>AbstractLink\<close>. They are the record
  \<open>bus_env\<close>: a frame exchanged at once (\<open>writeThenRead\<close>), the datagrams of a cycle and what came back for
  each of them (\<open>processDatagrams\<close>), the clock and the sleeps. Datagrams wait in a queue with their
  callbacks, functions on the state of the bus; the local variables a callback captures by reference
  are the \<open>scratch\<close> part of that state. The client's buffer is a list of bytes, a pointer into it an offset.

  An operation gives its value or the exception it throws, with the state it leaves: the sum type
  \<open>exn + 'a\<close>. \<open>None\<close> is an invalid memory access, or a loop that never ends.
\<close>

section \<open>Slaves\<close>

record pi_mapping =
  pi_data :: "nat option"
  pi_size :: int
  pi_bsize :: int
  pi_sync_manager :: int
  pi_address :: u32

record mslave =
  sv_address :: u16
  sv_al_status :: u8
  sv_al_status_code :: u16
  sv_mailbox :: request_mailbox
  sv_can_read :: bool
  sv_can_write :: bool
  sv_mailbox_bootstrap :: request_mailbox
  sv_dl_status :: u16
  sv_sii :: sii
  sv_static :: bool
  sv_input :: pi_mapping
  sv_output :: pi_mapping
  sv_error_counters :: bytes
  sv_previous_errors_sum :: int
  sv_esc :: bytes
  sv_dc_received_time :: "int list"
  sv_dc_ecat_received_time :: int
  sv_delay :: int
  sv_dc_time_offset :: int

definition PIMapping_new :: pi_mapping where
  "PIMapping_new = \<lparr>pi_data = None, pi_size = 0, pi_bsize = 0, pi_sync_manager = 0, pi_address = 0\<rparr>"

definition request_Mailbox_new :: request_mailbox where
  "request_Mailbox_new = \<lparr>qb_recv_offset = 0, qb_recv_size = 0, qb_send_offset = 0, qb_send_size = 0,
     qb_counter = 0, qb_to_send = [], qb_to_process = [], qb_emergencies = [], qb_messages = []\<rparr>"

definition SII_new :: sii where
  "SII_new = \<lparr>sii_info = replicate INFO_SIZE 0, sii_strings = [], sii_general = replicate GENERAL_SIZE 0,
     sii_fmmus = [], sii_syncManagers = [], sii_TxPDO = [], sii_RxPDO = [], sii_dc = [], sii_dataTypes = [],
     sii_unknown = []\<rparr>"

definition ESC_DESCRIPTION_SIZE :: nat where [simp]: "ESC_DESCRIPTION_SIZE = 10"
definition ERROR_COUNTERS_SIZE :: nat where [simp]: "ERROR_COUNTERS_SIZE = 20"

definition Slave_default :: mslave where
  "Slave_default = \<lparr>sv_address = 0, sv_al_status = 0, sv_al_status_code = 0, sv_mailbox = request_Mailbox_new,
     sv_can_read = False, sv_can_write = False, sv_mailbox_bootstrap = request_Mailbox_new, sv_dl_status = 0,
     sv_sii = SII_new, sv_static = False, sv_input = PIMapping_new, sv_output = PIMapping_new,
     sv_error_counters = replicate ERROR_COUNTERS_SIZE 0, sv_previous_errors_sum = 0,
     sv_esc = replicate ESC_DESCRIPTION_SIZE 0, sv_dc_received_time = replicate 4 0,
     sv_dc_ecat_received_time = 0, sv_delay = 0, sv_dc_time_offset = 0\<rparr>"

definition mailbox_protocol :: "mslave \<Rightarrow> u16" where
  "mailbox_protocol s = get16 (sii_info (sv_sii s)) 56"

definition esc_fmmus :: "mslave \<Rightarrow> u8" where
  "esc_fmmus s = sv_esc s ! 4"

definition Slave_parseSII :: "bytes \<Rightarrow> mslave \<Rightarrow> (string + mslave) option" where
  "Slave_parseSII data s = do {
     r \<leftarrow> SII_parse data (sv_sii s);
     case r of
       Inl e \<Rightarrow> Some (Inl e)
     | Inr p \<Rightarrow>
         let info = sii_info p
         in Some (Inr (s\<lparr>sv_sii := p,
              sv_mailbox := (sv_mailbox s)\<lparr>qb_recv_offset := get16 info 48, qb_recv_size := get16 info 50,
                 qb_send_offset := get16 info 52, qb_send_size := get16 info 54\<rparr>,
              sv_mailbox_bootstrap := (sv_mailbox_bootstrap s)\<lparr>qb_recv_offset := get16 info 40,
                 qb_recv_size := get16 info 42, qb_send_offset := get16 info 44, qb_send_size := get16 info 46\<rparr>\<rparr>))
   }"

definition computeErrorCounters :: "mslave \<Rightarrow> int" where
  "computeErrorCounters s =
     (\<Sum>i\<leftarrow>[0..<4]. uint (sv_error_counters s ! (2 * i)) + uint (sv_error_counters s ! (2 * i + 1))
        + uint (sv_error_counters s ! (16 + i)))"

definition computeRelativeErrorCounters :: "mslave \<Rightarrow> int \<times> mslave" where
  "computeRelativeErrorCounters s =
     (let current_error_sum = computeErrorCounters s
      in (current_error_sum - sv_previous_errors_sum s, s\<lparr>sv_previous_errors_sum := current_error_sum\<rparr>))"

definition checkAbsoluteErrorCounters :: "int \<Rightarrow> mslave \<Rightarrow> bool" where
  "checkAbsoluteErrorCounters max_absolute_errors s \<longleftrightarrow> computeErrorCounters s > max_absolute_errors"

text \<open>The bits of the DL status: physical link of port \<open>p\<close>, communication on port \<open>p\<close>.\<close>

definition physicalLink :: "u16 \<Rightarrow> nat \<Rightarrow> bool" where
  "physicalLink dl port \<longleftrightarrow> port < 4 \<and> bit dl (4 + port)"

definition communication :: "u16 \<Rightarrow> nat \<Rightarrow> bool" where
  "communication dl port \<longleftrightarrow> port < 4 \<and> bit dl (9 + 2 * port)"

definition countOpenPorts :: "mslave \<Rightarrow> nat" where
  "countOpenPorts s = length (filter (communication (sv_dl_status s)) [0..<4])"

definition isDCSupport :: "mslave \<Rightarrow> bool" where
  "isDCSupport s \<longleftrightarrow> get16 (sv_esc s) 8 AND 0x0004 \<noteq> 0"

definition portTime :: "u8 \<Rightarrow> mslave \<Rightarrow> string + int" where
  "portTime port s =
     (if port \<ge> 4 then Inl ''port value shall be < 4'' else Inr (sv_dc_received_time s ! unat port))"

definition portDelta :: "u8 \<Rightarrow> u8 \<Rightarrow> mslave \<Rightarrow> string + int" where
  "portDelta port_a port_b s =
     (case portTime port_a s of
        Inl e \<Rightarrow> Inl e
      | Inr a \<Rightarrow>
          (case portTime port_b s of
             Inl e \<Rightarrow> Inl e
           | Inr b \<Rightarrow> Inr (if a - b < 0 then a - b + 2 ^ 32 else a - b)))"

definition activePorts :: "mslave \<Rightarrow> u8" where
  "activePorts s =
     (if physicalLink (sv_dl_status s) 0 then 0x1 else 0) OR (if physicalLink (sv_dl_status s) 1 then 0x2 else 0)
     OR (if physicalLink (sv_dl_status s) 2 then 0x4 else 0) OR (if physicalLink (sv_dl_status s) 3 then 0x8 else 0)"

definition prevPort :: "u8 \<Rightarrow> mslave \<Rightarrow> u8" where
  "prevPort port s =
     (let active = activePorts s
      in if port = 0 then
           (if active AND 0x4 \<noteq> 0 then 2 else if active AND 0x2 \<noteq> 0 then 1 else if active AND 0x8 \<noteq> 0 then 3 else port)
         else if port = 1 then
           (if active AND 0x8 \<noteq> 0 then 3 else if active AND 0x1 \<noteq> 0 then 0 else if active AND 0x4 \<noteq> 0 then 2 else port)
         else if port = 2 then
           (if active AND 0x2 \<noteq> 0 then 1 else if active AND 0x8 \<noteq> 0 then 3 else if active AND 0x1 \<noteq> 0 then 0 else port)
         else if port = 3 then
           (if active AND 0x1 \<noteq> 0 then 0 else if active AND 0x4 \<noteq> 0 then 2 else if active AND 0x2 \<noteq> 0 then 1 else port)
         else port)"

definition findSlaveByAddress :: "mslave list \<Rightarrow> u16 \<Rightarrow> nat option" where
  "findSlaveByAddress slaves address =
     map_option fst (find (\<lambda>(i, s). sv_address s = address) (enumerate 0 slaves))"

section \<open>The bus\<close>

record block_io =
  bi_iomap :: "nat option"
  bi_offset :: u32
  bi_size :: int
  bi_slave :: nat

record mbx_status =
  st_byte_offset :: u32
  st_bit_position :: u8
  st_slave :: nat

record pi_frame =
  pf_description :: logical_frame
  pf_inputs :: "block_io list"
  pf_outputs :: "block_io list"
  pf_read_status :: "mbx_status list"
  pf_write_status :: "mbx_status list"
  pf_wkc_read_adjust :: u16
  pf_expected_lrw_wkc :: u16
  pf_output_buffer :: bytes

record scratch =
  lo_wkc :: u16
  lo_flag :: bool
  lo_words :: "u32 list list"
  lo_state :: DatagramState
  lo_time :: u64

record bus =
  bs_slaves :: "mslave list"
  bs_iomap :: bytes
  bs_pi_frames :: "pi_frame list"
  bs_tiny_wait :: int
  bs_big_wait :: int
  bs_irq_mask :: u16
  bs_dc_slave :: "nat option"
  bs_last_ref_time :: u64
  bs_last_ref_valid :: bool
  bs_mailbox_status :: u8
  bs_scratch :: scratch

definition Bus_new :: "bytes \<Rightarrow> bus" where
  "Bus_new iomap = \<lparr>bs_slaves = [], bs_iomap = iomap, bs_pi_frames = [], bs_tiny_wait = 200000,
     bs_big_wait = 10000000, bs_irq_mask = 0, bs_dc_slave = None, bs_last_ref_time = 0, bs_last_ref_valid = False,
     bs_mailbox_status = 0, bs_scratch = \<lparr>lo_wkc = 0, lo_flag = False, lo_words = [], lo_state = LOST, lo_time = 0\<rparr>\<rparr>"

section \<open>The link as the bus sees it\<close>

datatype exn = Error string | ErrorDatagram string DatagramState | ErrorAL u16 | ErrorCoE u32 | SystemError string

type_synonym dreq = "Command \<times> u32 \<times> bytes option \<times> u16"

text \<open>What came back for a datagram; a reply carries the time at which its callback runs.\<close>

datatype reply = NoReply DatagramState | Reply bytes u16 int

record 'n bus_env =
  be_writeThenRead :: "dreq list \<Rightarrow> 'n \<Rightarrow> (string + (bytes \<times> u16) list) \<times> 'n"
  be_exchange :: "dreq list \<Rightarrow> 'n \<Rightarrow> reply list \<times> 'n"
  be_now :: "'n \<Rightarrow> int \<times> 'n"
  be_since_ecat_epoch :: "'n \<Rightarrow> int \<times> 'n"
  be_sleep :: "int \<Rightarrow> 'n \<Rightarrow> 'n"
  be_setLogicalMapping :: "logical_frame list \<Rightarrow> 'n \<Rightarrow> 'n"
  be_attachEcatEventCallback :: "u16 \<Rightarrow> 'n \<Rightarrow> 'n"

record pending =
  pd_request :: dreq
  pd_process :: "bytes \<Rightarrow> u16 \<Rightarrow> int \<Rightarrow> bus \<Rightarrow> (DatagramState \<times> bus) option"
  pd_error :: "DatagramState \<Rightarrow> bus \<Rightarrow> exn option \<times> bus"

record 'n master =
  mt_bus :: bus
  mt_queue :: "pending list"
  mt_net :: 'n

type_synonym ('n, 'a) act = "'n master \<Rightarrow> ((exn + 'a) \<times> 'n master) option"

text \<open>Sequencing: an exception leaves the operation with the state reached.\<close>

definition retE :: "'a \<Rightarrow> ('n, 'a) act" where
  "retE x m = Some (Inr x, m)"

definition throwE :: "exn \<Rightarrow> ('n, 'a) act" where
  "throwE e m = Some (Inl e, m)"

definition bindE :: "('n, 'a) act \<Rightarrow> ('a \<Rightarrow> ('n, 'b) act) \<Rightarrow> ('n, 'b) act" where
  "bindE f g m = do {
     (r, m) \<leftarrow> f m;
     case r of Inl e \<Rightarrow> Some (Inl e, m) | Inr x \<Rightarrow> g x m
   }"

definition thenE :: "('n, 'a) act \<Rightarrow> ('n, 'b) act \<Rightarrow> ('n, 'b) act" where
  "thenE f g = bindE f (\<lambda>_. g)"

fun seqE :: "('n, unit) act list \<Rightarrow> ('n, unit) act" where
  "seqE [] = retE ()"
| "seqE (f # fs) = thenE f (seqE fs)"

definition busE :: "(bus \<Rightarrow> 'a) \<Rightarrow> ('n, 'a) act" where
  "busE f m = Some (Inr (f (mt_bus m)), m)"

definition updE :: "(bus \<Rightarrow> bus) \<Rightarrow> ('n, unit) act" where
  "updE f m = Some (Inr (), m\<lparr>mt_bus := f (mt_bus m)\<rparr>)"

definition nowE :: "'n bus_env \<Rightarrow> ('n, int) act" where
  "nowE env m = (let (t, n) = be_now env (mt_net m) in Some (Inr t, m\<lparr>mt_net := n\<rparr>))"

definition epochE :: "'n bus_env \<Rightarrow> ('n, int) act" where
  "epochE env m = (let (t, n) = be_since_ecat_epoch env (mt_net m) in Some (Inr t, m\<lparr>mt_net := n\<rparr>))"

definition sleepE :: "'n bus_env \<Rightarrow> int \<Rightarrow> ('n, unit) act" where
  "sleepE env d m = Some (Inr (), m\<lparr>mt_net := be_sleep env d (mt_net m)\<rparr>)"

definition checkE :: "bool \<Rightarrow> exn \<Rightarrow> ('n, unit) act" where
  "checkE c e = (if c then retE () else throwE e)"

text \<open>The slave an operation works on, by its position.\<close>

definition slave_at :: "nat \<Rightarrow> bus \<Rightarrow> mslave" where
  "slave_at i b = bs_slaves b ! i"

definition upd_slave :: "nat \<Rightarrow> (mslave \<Rightarrow> mslave) \<Rightarrow> bus \<Rightarrow> bus" where
  "upd_slave i f b = b\<lparr>bs_slaves := (bs_slaves b)[i := f (bs_slaves b ! i)]\<rparr>"

definition upd_scratch :: "(scratch \<Rightarrow> scratch) \<Rightarrow> bus \<Rightarrow> bus" where
  "upd_scratch f b = b\<lparr>bs_scratch := f (bs_scratch b)\<rparr>"

text \<open>\<open>addDatagram\<close> refuses a datagram when 255 are in flight; \<open>processDatagrams\<close> gives every reply to its
  callback, then reports the datagrams that are not \<open>OK\<close> and throws the last exception of the reports.\<close>

definition link_add :: "pending \<Rightarrow> ('n, unit) act" where
  "link_add p m =
     (if length (mt_queue m) \<ge> 255 then Some (Inl (Error TOO_MANY), m)
      else Some (Inr (), m\<lparr>mt_queue := mt_queue m @ [p]\<rparr>))"

fun settle_all :: "pending list \<Rightarrow> reply list \<Rightarrow> bus \<Rightarrow> (DatagramState list \<times> bus) option" where
  "settle_all [] rs b = Some ([], b)"
| "settle_all (p # ps) [] b = do { (sts, b) \<leftarrow> settle_all ps [] b; Some (LOST # sts, b) }"
| "settle_all (p # ps) (NoReply st # rs) b = do { (sts, b) \<leftarrow> settle_all ps rs b; Some (st # sts, b) }"
| "settle_all (p # ps) (Reply data wkc t # rs) b = do {
     (st, b) \<leftarrow> pd_process p data wkc t b;
     (sts, b) \<leftarrow> settle_all ps rs b;
     Some (st # sts, b)
   }"

fun report_all :: "pending list \<Rightarrow> DatagramState list \<Rightarrow> exn option \<Rightarrow> bus \<Rightarrow> exn option \<times> bus" where
  "report_all (p # ps) (st # sts) thrown b =
     (if st = OK then report_all ps sts thrown b
      else let (x, b) = pd_error p st b
           in report_all ps sts (if x = None then thrown else x) b)"
| "report_all _ _ thrown b = (thrown, b)"

definition link_process :: "'n bus_env \<Rightarrow> ('n, unit) act" where
  "link_process env m =
     (let q = mt_queue m; (replies, n) = be_exchange env (map pd_request q) (mt_net m)
      in do {
        (sts, b) \<leftarrow> settle_all q replies (mt_bus m);
        let (thrown, b) = report_all q sts None b;
        let m = m\<lparr>mt_bus := b, mt_queue := [], mt_net := n\<rparr>;
        case thrown of None \<Rightarrow> Some (Inr (), m) | Some e \<Rightarrow> Some (Inl e, m)
      })"

text \<open>The \<open>process\<close> callback that only checks the working counter of a single slave.\<close>

definition expect_one :: "bytes \<Rightarrow> u16 \<Rightarrow> int \<Rightarrow> bus \<Rightarrow> (DatagramState \<times> bus) option" where
  "expect_one data wkc t b = Some (if wkc \<noteq> 1 then INVALID_WKC else OK, b)"

definition on_one :: "(bytes \<Rightarrow> bus \<Rightarrow> bus) \<Rightarrow> bytes \<Rightarrow> u16 \<Rightarrow> int \<Rightarrow> bus \<Rightarrow> (DatagramState \<times> bus) option" where
  "on_one f data wkc t b = (if wkc \<noteq> 1 then Some (INVALID_WKC, b) else Some (OK, f data b))"

type_synonym on_err = "DatagramState \<Rightarrow> bus \<Rightarrow> exn option \<times> bus"

definition throw_always :: "exn \<Rightarrow> on_err" where
  "throw_always e st b = (Some e, b)"

definition throw_state :: "string \<Rightarrow> on_err" where
  "throw_state msg st b = (Some (ErrorDatagram msg st), b)"

definition log_only :: on_err where
  "log_only st b = (None, b)"

definition INVALID_WORKING_COUNTER :: exn where
  "INVALID_WORKING_COUNTER = Error ''Invalid working counter''"

section \<open>Broadcasts, detection and addresses\<close>

definition sync_frame :: "'n bus_env \<Rightarrow> dreq list \<Rightarrow> ('n, (bytes \<times> u16) list) act" where
  "sync_frame env reqs m =
     (let (r, n) = be_writeThenRead env reqs (mt_net m); m = m\<lparr>mt_net := n\<rparr>
      in case r of Inl e \<Rightarrow> Some (Inl (Error e), m) | Inr rs \<Rightarrow> Some (Inr rs, m))"

definition first_wkc :: "(bytes \<times> u16) list \<Rightarrow> ('n, u16) act" where
  "first_wkc rs m = (case rs of [] \<Rightarrow> None | (data, wkc) # _ \<Rightarrow> Some (Inr wkc, m))"

definition broadcastRead :: "'n bus_env \<Rightarrow> u16 \<Rightarrow> u16 \<Rightarrow> ('n, u16) act" where
  "broadcastRead env ADO data_size =
     bindE (sync_frame env [(BRD, createAddress 0 ADO, None, data_size)]) first_wkc"

definition broadcastWrite :: "'n bus_env \<Rightarrow> u16 \<Rightarrow> bytes \<Rightarrow> ('n, u16) act" where
  "broadcastWrite env ADO data =
     bindE (sync_frame env [(BWR, createAddress 0 ADO, Some data, of_nat (length data))]) first_wkc"

definition drop_result :: "('n, 'a) act \<Rightarrow> ('n, unit) act" where
  "drop_result f = thenE f (retE ())"

definition broadcast_all :: "'n bus_env \<Rightarrow> u16 \<Rightarrow> bytes \<Rightarrow> ('n, unit) act" where
  "broadcast_all env ADO data =
     bindE (broadcastWrite env ADO data) (\<lambda>wkc.
     bindE (busE bs_slaves) (\<lambda>slaves. checkE (unat wkc = length slaves) INVALID_WORKING_COUNTER))"

text \<open>Any exception of the broadcast means that no slave was found.\<close>

definition detectSlaves :: "'n bus_env \<Rightarrow> ('n, nat) act" where
  "detectSlaves env m = do {
     (r, m) \<leftarrow> broadcastRead env 0x0000 1 m;
     case r of
       Inl e \<Rightarrow> Some (Inr 0, m)
     | Inr wkc \<Rightarrow>
         thenE (updE (\<lambda>b. b\<lparr>bs_slaves := take (unat wkc) (bs_slaves b)
                  @ replicate (unat wkc - length (bs_slaves b)) Slave_default\<rparr>))
               (busE (\<lambda>b. length (bs_slaves b))) m
   }"

definition attachE :: "'n bus_env \<Rightarrow> u16 \<Rightarrow> ('n, unit) act" where
  "attachE env event m = Some (Inr (), m\<lparr>mt_net := be_attachEcatEventCallback env event (mt_net m)\<rparr>)"

definition enableIRQ :: "'n bus_env \<Rightarrow> u16 \<Rightarrow> ('n, unit) act" where
  "enableIRQ env event =
     thenE (attachE env event)
     (thenE (updE (\<lambda>b. b\<lparr>bs_irq_mask := bs_irq_mask b OR event\<rparr>))
     (bindE (busE bs_irq_mask) (\<lambda>m. broadcast_all env 0x200 (le16 m))))"

definition disableIRQ :: "'n bus_env \<Rightarrow> u16 \<Rightarrow> ('n, unit) act" where
  "disableIRQ env event =
     thenE (attachE env event)
     (thenE (updE (\<lambda>b. b\<lparr>bs_irq_mask := bs_irq_mask b AND NOT event\<rparr>))
     (bindE (busE bs_irq_mask) (\<lambda>m. broadcast_all env 0x200 (le16 m))))"

definition clearErrorCounters :: "'n bus_env \<Rightarrow> ('n, unit) act" where
  "clearErrorCounters env = broadcast_all env 0x300 (replicate 20 0)"

text \<open>The durations are integers of nanoseconds: their division truncates towards zero.\<close>

definition quot_trunc :: "int \<Rightarrow> int \<Rightarrow> int" where
  "quot_trunc a b = (if a < 0 then - (- a div b) else a div b)"

definition computeWatchdogDivider :: "int \<Rightarrow> u16" where
  "computeWatchdogDivider precision = of_int (quot_trunc precision 40 - 2)"

definition computeWatchdogTime :: "int \<Rightarrow> int \<Rightarrow> exn + u16" where
  "computeWatchdogTime watchdog precision =
     (let wdg_time = quot_trunc watchdog precision
      in if wdg_time < 0 \<or> wdg_time > 65535 then Inl (Error ''Invalid watchdog'') else Inr (of_int wdg_time))"

definition resetSlaves :: "'n bus_env \<Rightarrow> int \<Rightarrow> ('n, unit) act" where
  "resetSlaves env watchdog =
     thenE (seqE [
       drop_result (broadcastWrite env 0x101 (replicate 1 0)),
       clearErrorCounters env,
       drop_result (broadcastWrite env 0x600 (replicate 256 0)),
       drop_result (broadcastWrite env 0x800 (replicate 128 0)),
       drop_result (broadcastWrite env 0x910 (replicate 8 0)),
       drop_result (broadcastWrite env 0x981 (replicate 1 0)),
       drop_result (broadcastWrite env 0x980 (replicate 2 0)),
       drop_result (broadcastWrite env 0x200 (replicate 2 0)),
       drop_result (broadcastWrite env 0x442 (replicate 2 0)),
       drop_result (broadcastWrite env 0x930 (le16 0x1000)),
       drop_result (broadcastWrite env 0x934 (le16 0x0c00)),
       drop_result (broadcastRead env 0x9AE 1),
       drop_result (broadcastRead env 0x110 1),
       drop_result (broadcastRead env 0x130 1)])
     (case computeWatchdogTime watchdog 100000 of
        Inl e \<Rightarrow> throwE e
      | Inr wdg_time \<Rightarrow> seqE [
          drop_result (broadcastWrite env 0x400 (le16 (computeWatchdogDivider 100000))),
          drop_result (broadcastWrite env 0x410 (le16 wdg_time)),
          drop_result (broadcastWrite env 0x420 (le16 wdg_time)),
          drop_result (broadcastWrite env 0x500 (replicate 2 0))])"

text \<open>The frame of \<open>setAddresses\<close> is sent when it is full: fifteen datagrams, or no room for another.\<close>

definition frame_full :: "dreq list \<Rightarrow> bool" where
  "frame_full reqs \<longleftrightarrow> length reqs \<ge> MAX_ETHERCAT_DATAGRAMS
     \<or> 1498 - (\<Sum>r\<leftarrow>reqs. int (unat (datagram_size (snd (snd (snd r)))))) < int (unat (datagram_size 0))"

definition address_frame :: "'n bus_env \<Rightarrow> dreq list \<Rightarrow> ('n, unit) act" where
  "address_frame env reqs =
     bindE (sync_frame env reqs) (\<lambda>rs. checkE (list_all (\<lambda>(data, wkc). wkc = 1) rs) INVALID_WORKING_COUNTER)"

fun setAddresses_from :: "'n bus_env \<Rightarrow> nat \<Rightarrow> nat \<Rightarrow> dreq list \<Rightarrow> ('n, unit) act" where
  "setAddresses_from env i 0 reqs = (if reqs \<noteq> [] then address_frame env reqs else retE ())"
| "setAddresses_from env i (Suc k) reqs =
     (let address = of_nat (i + 1001);
          reqs = reqs @ [(APWR, createAddress (0 - of_nat i) 0x0010, Some (le16 address), 2)]
      in thenE (updE (upd_slave i (\<lambda>s. s\<lparr>sv_address := address\<rparr>)))
           (if frame_full reqs then thenE (address_frame env reqs) (setAddresses_from env (Suc i) k [])
            else setAddresses_from env (Suc i) k reqs))"

definition setAddresses :: "'n bus_env \<Rightarrow> ('n, unit) act" where
  "setAddresses env = bindE (busE bs_slaves) (\<lambda>slaves. setAddresses_from env 0 (length slaves) [])"

section \<open>States\<close>

text \<open>States are the values of the enumeration; a state read from a slave may be any byte.\<close>

definition BUS_INIT :: u8 where [simp]: "BUS_INIT = 0x01"
definition BUS_PRE_OP :: u8 where [simp]: "BUS_PRE_OP = 0x02"

definition requestState :: "'n bus_env \<Rightarrow> u8 \<Rightarrow> ('n, unit) act" where
  "requestState env request = broadcast_all env 0x120 (le16 (ucast (request OR 0x10)))"

definition requestState_slave :: "'n bus_env \<Rightarrow> nat \<Rightarrow> u8 \<Rightarrow> ('n, unit) act" where
  "requestState_slave env i request =
     thenE (updE (upd_scratch (\<lambda>l. l\<lparr>lo_wkc := 0\<rparr>)))
     (bindE (busE (slave_at i)) (\<lambda>s.
      thenE (link_add \<lparr>pd_request = (FPWR, createAddress (sv_address s) 0x120, Some (le16 (ucast (request OR 0x10))), 2),
                       pd_process = (\<lambda>data w t b. Some (OK, upd_scratch (\<lambda>l. l\<lparr>lo_wkc := w\<rparr>) b)),
                       pd_error = log_only\<rparr>)
      (thenE (link_process env)
      (bindE (busE (\<lambda>b. lo_wkc (bs_scratch b))) (\<lambda>wkc. checkE (wkc = 1) INVALID_WORKING_COUNTER)))))"

definition sendGetALStatus :: "nat \<Rightarrow> on_err \<Rightarrow> ('n, unit) act" where
  "sendGetALStatus i error =
     thenE (updE (upd_slave i (\<lambda>s. s\<lparr>sv_al_status := 0\<rparr>)))
     (bindE (busE (slave_at i)) (\<lambda>s.
      link_add \<lparr>pd_request = (FPRD, createAddress (sv_address s) 0x130, None, 6),
                pd_process = on_one (\<lambda>data. upd_slave i (\<lambda>s. s\<lparr>sv_al_status := data ! 0, sv_al_status_code := get16 data 4\<rparr>)),
                pd_error = error\<rparr>))"

definition getCurrentState :: "'n bus_env \<Rightarrow> nat \<Rightarrow> ('n, u8) act" where
  "getCurrentState env i =
     thenE (sendGetALStatus i log_only)
     (thenE (link_process env)
     (bindE (busE (slave_at i)) (\<lambda>s.
        if sv_al_status s AND 0x10 \<noteq> 0
        then (if sv_al_status_code s = 0 then retE (sv_al_status s AND 0xF) else throwE (ErrorAL (sv_al_status_code s)))
        else retE (sv_al_status s))))"

fun all_in_state :: "'n bus_env \<Rightarrow> u8 \<Rightarrow> nat list \<Rightarrow> ('n, bool) act" where
  "all_in_state env request [] = retE True"
| "all_in_state env request (i # is) =
     bindE (getCurrentState env i) (\<lambda>state. if state \<noteq> request then retE False else all_in_state env request is)"

text \<open>One round of \<open>waitForState\<close>: whether the state is reached, a timeout is an exception.\<close>

definition wait_round :: "'n bus_env \<Rightarrow> ('n, unit) act \<Rightarrow> ('n, bool) act \<Rightarrow> int \<Rightarrow> int \<Rightarrow> ('n, bool) act" where
  "wait_round env background_task reached start timeout =
     thenE background_task
     (bindE reached (\<lambda>ok.
        if ok then retE True
        else bindE (nowE env) (\<lambda>t. if t - start > timeout then throwE (Error ''Timeout'') else retE False)))"

partial_function (option) wait_loop ::
    "'n bus_env \<Rightarrow> ('n, unit) act \<Rightarrow> ('n, bool) act \<Rightarrow> int \<Rightarrow> int \<Rightarrow> 'n master \<Rightarrow> ((exn + unit) \<times> 'n master) option" where
  [code]: "wait_loop env background_task reached start timeout m = do {
     (r, m) \<leftarrow> wait_round env background_task reached start timeout m;
     (case r of
        Inl e \<Rightarrow> Some (Inl e, m)
      | Inr ok \<Rightarrow> (if ok then Some (Inr (), m) else wait_loop env background_task reached start timeout m))
   }"

definition waitForState :: "'n bus_env \<Rightarrow> u8 \<Rightarrow> int \<Rightarrow> ('n, unit) act \<Rightarrow> ('n, unit) act" where
  "waitForState env request timeout background_task =
     bindE (nowE env) (\<lambda>start.
       wait_loop env background_task
         (bindE (busE bs_slaves) (\<lambda>slaves. all_in_state env request [0..<length slaves])) start timeout)"

definition waitForState_slave :: "'n bus_env \<Rightarrow> nat \<Rightarrow> u8 \<Rightarrow> int \<Rightarrow> ('n, unit) act \<Rightarrow> ('n, unit) act" where
  "waitForState_slave env i request timeout background_task =
     bindE (nowE env) (\<lambda>start.
       wait_loop env background_task
         (bindE (getCurrentState env i) (\<lambda>state. retE (state = request))) start timeout)"

section \<open>Descriptions\<close>

definition for_slaves :: "(nat \<Rightarrow> mslave \<Rightarrow> ('n, unit) act) \<Rightarrow> ('n, unit) act" where
  "for_slaves f = bindE (busE bs_slaves) (\<lambda>slaves.
     seqE (map (\<lambda>i. bindE (busE (slave_at i)) (f i)) [0..<length slaves]))"

definition fetchESC :: "'n bus_env \<Rightarrow> ('n, unit) act" where
  "fetchESC env =
     thenE (for_slaves (\<lambda>i s. link_add
       \<lparr>pd_request = (FPRD, createAddress (sv_address s) 0x0000, None, 10),
        pd_process = on_one (\<lambda>data. upd_slave i (\<lambda>s. s\<lparr>sv_esc := peek data 0 10\<rparr>)),
        pd_error = throw_state ''Error while fetching Slave ESC description''\<rparr>))
     (link_process env)"

definition sendGetDLStatus :: "nat \<Rightarrow> on_err \<Rightarrow> ('n, unit) act" where
  "sendGetDLStatus i error =
     bindE (busE (slave_at i)) (\<lambda>s.
      link_add \<lparr>pd_request = (FPRD, createAddress (sv_address s) 0x110, None, 2),
                pd_process = on_one (\<lambda>data. upd_slave i (\<lambda>s. s\<lparr>sv_dl_status := get16 data 0\<rparr>)),
                pd_error = error\<rparr>)"

definition fetchDL :: "'n bus_env \<Rightarrow> ('n, unit) act" where
  "fetchDL env =
     thenE (for_slaves (\<lambda>i s. sendGetDLStatus i (throw_state ''Error fetching DL status''))) (link_process env)"

definition sendRefreshErrorCounters :: "on_err \<Rightarrow> ('n, unit) act" where
  "sendRefreshErrorCounters error =
     for_slaves (\<lambda>i s. link_add
       \<lparr>pd_request = (FPRD, createAddress (sv_address s) 0x300, None, 20),
        pd_process = on_one (\<lambda>data. upd_slave i (\<lambda>s. s\<lparr>sv_error_counters := peek data 0 20\<rparr>)),
        pd_error = error\<rparr>)"

definition sendNop :: "on_err \<Rightarrow> ('n, unit) act" where
  "sendNop error = link_add \<lparr>pd_request = (NOP, 0, None, 1), pd_process = (\<lambda>data wkc t b. Some (OK, b)), pd_error = error\<rparr>"

definition configureMailboxes :: "'n bus_env \<Rightarrow> ('n, unit) act" where
  "configureMailboxes env =
     thenE (for_slaves (\<lambda>i s.
       if mailbox_protocol s \<noteq> 0
       then let (sm0, sm1) = generateSMConfig (sv_mailbox s)
            in link_add \<lparr>pd_request = (FPWR, createAddress (sv_address s) 0x800,
                            Some (enc_sm_register sm0 @ enc_sm_register sm1), 16),
                         pd_process = expect_one, pd_error = throw_always INVALID_WORKING_COUNTER\<rparr>
       else retE ()))
     (link_process env)"

section \<open>EEPROM\<close>

definition eeprom_request :: "u16 \<Rightarrow> u16 \<Rightarrow> bytes" where
  "eeprom_request command address = le16 command @ le16 address @ le16 0"

fun eeprom_poll :: "'n bus_env \<Rightarrow> nat \<Rightarrow> ('n, bool) act" where
  "eeprom_poll env 0 = retE False"
| "eeprom_poll env (Suc k) =
     bindE (busE bs_tiny_wait) (\<lambda>wait.
     thenE (sleepE env wait)
     (thenE (for_slaves (\<lambda>i s. link_add
        \<lparr>pd_request = (FPRD, createAddress (sv_address s) 0x502, None, 2),
         pd_process = on_one (\<lambda>data b. if get16 data 0 AND 0x8000 \<noteq> 0 then upd_scratch (\<lambda>l. l\<lparr>lo_flag := False\<rparr>) b else b),
         pd_error = throw_always (Error ''Error while fetching eeprom state'')\<rparr>))
     (thenE (updE (upd_scratch (\<lambda>l. l\<lparr>lo_flag := True\<rparr>)))
     (\<lambda>m. do {
        (r, m) \<leftarrow> link_process env m;
        case r of
          Inl e \<Rightarrow> Some (Inr False, m)
        | Inr _ \<Rightarrow> if lo_flag (bs_scratch (mt_bus m)) then Some (Inr True, m) else eeprom_poll env k m
      }))))"

definition areEepromReady :: "'n bus_env \<Rightarrow> ('n, bool) act" where
  "areEepromReady env = eeprom_poll env 10"

text \<open>The callback \<open>apply\<close> of \<open>readEeprom\<close> gets the position of the slave and the word read.\<close>

definition readEeprom :: "'n bus_env \<Rightarrow> u16 \<Rightarrow> nat list \<Rightarrow> (nat \<Rightarrow> u32 \<Rightarrow> bus \<Rightarrow> bus) \<Rightarrow> ('n, unit) act" where
  "readEeprom env address slaves apply_word =
     thenE (broadcast_all env 0x502 (eeprom_request 0x0100 address))
     (bindE (areEepromReady env) (\<lambda>ready.
      thenE (checkE ready (Error ''Timeout''))
      (thenE (seqE (map (\<lambda>i. bindE (busE (slave_at i)) (\<lambda>s. link_add
          \<lparr>pd_request = (FPRD, createAddress (sv_address s) 0x508, None, 4),
           pd_process = on_one (\<lambda>data. apply_word i (get32 data 0)),
           pd_error = throw_state ''Error while fetching eeprom data''\<rparr>)) slaves))
      (link_process env))))"

text \<open>A slave is done when one half of the last double word read is \<open>0xFFFF\<close>, past the header.\<close>

definition eeprom_done :: "u32 list \<Rightarrow> bool" where
  "eeprom_done words \<longleftrightarrow>
     (drop_bit 16 (last words) = 0xFFFF \<or> last words AND 0xFFFF = 0xFFFF) \<and> length words > 32"

definition push_word :: "nat \<Rightarrow> u32 \<Rightarrow> bus \<Rightarrow> bus" where
  "push_word i w = upd_scratch (\<lambda>l. l\<lparr>lo_words := (lo_words l)[i := lo_words l ! i @ [w]]\<rparr>)"

partial_function (option) fetch_words ::
    "'n bus_env \<Rightarrow> u16 \<Rightarrow> nat list \<Rightarrow> 'n master \<Rightarrow> ((exn + unit) \<times> 'n master) option" where
  [code]: "fetch_words env pos slaves m =
     (if slaves = [] then Some (Inr (), m)
      else do {
        (r, m) \<leftarrow> readEeprom env pos slaves push_word m;
        (case r of
           Inl e \<Rightarrow> Some (Inl e, m)
         | Inr _ \<Rightarrow> fetch_words env (pos + 2)
             (filter (\<lambda>i. \<not> eeprom_done (lo_words (bs_scratch (mt_bus m)) ! i)) slaves) m)
      })"

definition words_to_bytes :: "u32 list \<Rightarrow> bytes" where
  "words_to_bytes words = concat (map le32 words)"

definition parse_slave :: "nat \<Rightarrow> ('n, unit) act" where
  "parse_slave i m = do {
     r \<leftarrow> Slave_parseSII (words_to_bytes (lo_words (bs_scratch (mt_bus m)) ! i)) (slave_at i (mt_bus m));
     case r of
       Inl e \<Rightarrow> Some (Inl (Error e), m)
     | Inr s \<Rightarrow> updE (upd_slave i (\<lambda>_. s)) m
   }"

definition fetchEeprom :: "'n bus_env \<Rightarrow> ('n, unit) act" where
  "fetchEeprom env =
     bindE (busE bs_slaves) (\<lambda>slaves.
     thenE (updE (upd_scratch (\<lambda>l. l\<lparr>lo_words := replicate (length slaves) []\<rparr>)))
     (thenE (fetch_words env 0 [0..<length slaves])
            (seqE (map parse_slave [0..<length slaves]))))"

definition isEepromAcknowledged :: "'n bus_env \<Rightarrow> nat \<Rightarrow> ('n, bool) act" where
  "isEepromAcknowledged env i =
     thenE (updE (upd_scratch (\<lambda>l. l\<lparr>lo_flag := True\<rparr>)))
     (bindE (busE (slave_at i)) (\<lambda>s.
      thenE (link_add \<lparr>pd_request = (FPRD, createAddress (sv_address s) 0x502, None, 2),
         pd_process = on_one (\<lambda>data b. if get16 data 0 AND 0x2000 \<noteq> 0 then upd_scratch (\<lambda>l. l\<lparr>lo_flag := False\<rparr>) b else b),
         pd_error = throw_always (Error ''Error while fetching eeprom state'')\<rparr>)
      (thenE (link_process env) (busE (\<lambda>b. lo_flag (bs_scratch b))))))"

definition write_round :: "'n bus_env \<Rightarrow> nat \<Rightarrow> u16 \<Rightarrow> int \<Rightarrow> ('n, bool) act" where
  "write_round env i address start_time =
     bindE (busE (slave_at i)) (\<lambda>s.
     thenE (link_add \<lparr>pd_request = (FPWR, createAddress (sv_address s) 0x502, Some (eeprom_request 0x0201 address), 6),
                      pd_process = expect_one, pd_error = throw_state ''Error while writing eeprom data''\<rparr>)
     (thenE (link_process env)
     (bindE (isEepromAcknowledged env i) (\<lambda>acknowledged.
      bindE (busE bs_big_wait) (\<lambda>wait.
      thenE (sleepE env wait)
      (bindE (nowE env) (\<lambda>t.
         if t - start_time > 10 * wait then throwE (Error ''Timeout acknowledge write eeprom'') else retE acknowledged)))))))"

partial_function (option) write_loop ::
    "'n bus_env \<Rightarrow> nat \<Rightarrow> u16 \<Rightarrow> int \<Rightarrow> 'n master \<Rightarrow> ((exn + unit) \<times> 'n master) option" where
  [code]: "write_loop env i address start_time m = do {
     (r, m) \<leftarrow> write_round env i address start_time m;
     (case r of
        Inl e \<Rightarrow> Some (Inl e, m)
      | Inr acknowledged \<Rightarrow> (if acknowledged then Some (Inr (), m) else write_loop env i address start_time m))
   }"

definition writeEeprom :: "'n bus_env \<Rightarrow> nat \<Rightarrow> u16 \<Rightarrow> bytes \<Rightarrow> ('n, unit) act" where
  "writeEeprom env i address data =
     thenE (checkE (length data \<le> 2) (Error ''Can't write more than 2 bytes to eeprom data''))
     (bindE (areEepromReady env) (\<lambda>ready.
      thenE (checkE ready (Error ''Timeout eeprom busy''))
      (bindE (busE (slave_at i)) (\<lambda>s.
       thenE (link_add \<lparr>pd_request = (FPWR, createAddress (sv_address s) 0x508, Some data, of_nat (length data)),
                        pd_process = expect_one, pd_error = throw_state ''Error while writing eeprom data''\<rparr>)
       (thenE (link_process env)
       (bindE (nowE env) (\<lambda>start_time.
        thenE (write_loop env i address start_time)
        (bindE (areEepromReady env) (\<lambda>ready. checkE ready (Error ''Timeout eeprom busy''))))))))))"

end
