(* ===== verification/BusMailbox.thy ===== *)
theory BusMailbox
  imports Bus
begin

text \<open>
  The mailboxes as the master drives them: the checks and exchanges of \<open>lib/master/src/Bus.cc\<close>, SDO
  transfers, emulated complete access and \<open>mapPDO\<close> of \<open>lib/master/src/CoE.cc\<close>, and gateway messages.

  A message in flight is the pair of the position of its slave and its index in that slave's mailbox.
\<close>

section \<open>Checking and exchanging\<close>

definition upd_mailbox :: "nat \<Rightarrow> (request_mailbox \<Rightarrow> request_mailbox) \<Rightarrow> bus \<Rightarrow> bus" where
  "upd_mailbox i f = upd_slave i (\<lambda>s. s\<lparr>sv_mailbox := f (sv_mailbox s)\<rparr>)"

definition mailbox_full :: "u8 \<Rightarrow> u16 \<Rightarrow> bool \<Rightarrow> bool" where
  "mailbox_full state wkc stable_value = (if wkc \<noteq> 1 then stable_value else state AND 0x08 = 0x08)"

definition sendMailboxesReadChecks :: "on_err \<Rightarrow> ('n, unit) act" where
  "sendMailboxesReadChecks error =
     for_slaves (\<lambda>i s.
       if mailbox_protocol s = 0 then retE ()
       else link_add \<lparr>pd_request = (FPRD, createAddress (sv_address s) 0x80D, None, 1),
              pd_process = (\<lambda>data wkc t b. Some (OK, upd_slave i (\<lambda>s. s\<lparr>sv_can_read := mailbox_full (data ! 0) wkc False\<rparr>) b)),
              pd_error = error\<rparr>)"

definition sendMailboxesWriteChecks :: "on_err \<Rightarrow> ('n, unit) act" where
  "sendMailboxesWriteChecks error =
     for_slaves (\<lambda>i s.
       if mailbox_protocol s = 0 then retE ()
       else link_add \<lparr>pd_request = (FPRD, createAddress (sv_address s) 0x805, None, 1),
              pd_process = (\<lambda>data wkc t b. Some (OK, upd_slave i (\<lambda>s. s\<lparr>sv_can_write := \<not> mailbox_full (data ! 0) wkc True\<rparr>) b)),
              pd_error = error\<rparr>)"

definition checkMailboxes :: "'n bus_env \<Rightarrow> on_err \<Rightarrow> ('n, unit) act" where
  "checkMailboxes env error =
     thenE (sendMailboxesWriteChecks error) (thenE (sendMailboxesReadChecks error) (link_process env))"

definition send_message :: "nat \<Rightarrow> int \<Rightarrow> ('n, bytes) act" where
  "send_message i t m = do {
     (k, mb) \<leftarrow> request_send t (sv_mailbox (slave_at i (mt_bus m)));
     Some (Inr (am_data (qmsg_base (qb_messages mb ! k))), m\<lparr>mt_bus := upd_mailbox i (\<lambda>_. mb) (mt_bus m)\<rparr>)
   }"

definition sendWriteMessages :: "'n bus_env \<Rightarrow> on_err \<Rightarrow> ('n, unit) act" where
  "sendWriteMessages env error =
     for_slaves (\<lambda>i s.
       if sv_can_write s \<and> qb_to_send (sv_mailbox s) \<noteq> []
       then bindE (nowE env) (\<lambda>t. bindE (send_message i t) (\<lambda>data.
              link_add \<lparr>pd_request = (FPWR, createAddress (sv_address s) (qb_recv_offset (sv_mailbox s)), Some data,
                           of_nat (length data)),
                        pd_process = expect_one, pd_error = error\<rparr>))
       else retE ())"

definition receive_message :: "nat \<Rightarrow> bytes \<Rightarrow> u16 \<Rightarrow> int \<Rightarrow> bus \<Rightarrow> (DatagramState \<times> bus) option" where
  "receive_message i data wkc t b =
     (if wkc \<noteq> 1 then Some (INVALID_WKC, b)
      else do {
        (handled, mb) \<leftarrow> request_receive data t (sv_mailbox (slave_at i b));
        Some (if handled then OK else NO_HANDLER, upd_mailbox i (\<lambda>_. mb) b)
      })"

definition sendReadMessages :: "on_err \<Rightarrow> ('n, unit) act" where
  "sendReadMessages error =
     for_slaves (\<lambda>i s.
       if sv_can_read s
       then link_add \<lparr>pd_request = (FPRD, createAddress (sv_address s) (qb_send_offset (sv_mailbox s)), None,
                         qb_send_size (sv_mailbox s)),
                      pd_process = receive_message i, pd_error = error\<rparr>
       else retE ())"

definition processMessages :: "'n bus_env \<Rightarrow> on_err \<Rightarrow> ('n, unit) act" where
  "processMessages env error =
     thenE (sendWriteMessages env error) (thenE (sendReadMessages error) (link_process env))"

section \<open>SDO transfers\<close>

definition message_at :: "nat \<Rightarrow> nat \<Rightarrow> bus \<Rightarrow> qmsg" where
  "message_at i k b = qb_messages (sv_mailbox (slave_at i b)) ! k"

text \<open>\<open>status()\<close> of a message: it looks at the clock, and remembers that the message timed out.\<close>

definition status_of :: "'n bus_env \<Rightarrow> nat \<Rightarrow> nat \<Rightarrow> ('n, u32) act" where
  "status_of env i k =
     bindE (nowE env) (\<lambda>t.
     thenE (updE (upd_mailbox i (\<lambda>mb. mb\<lparr>qb_messages :=
              (qb_messages mb)[k := qmsg_map_base (message_status t) (qb_messages mb ! k)]\<rparr>)))
           (busE (\<lambda>b. am_status (qmsg_base (message_at i k b)))))"

definition message_round :: "'n bus_env \<Rightarrow> ('n, unit) act" where
  "message_round env =
     thenE (checkMailboxes env (throw_state ''error while checking mailboxes''))
     (thenE (processMessages env (throw_state ''error while process mailboxes''))
     (bindE (busE bs_tiny_wait) (sleepE env)))"

partial_function (option) message_loop ::
    "'n bus_env \<Rightarrow> nat \<Rightarrow> nat \<Rightarrow> 'n master \<Rightarrow> ((exn + unit) \<times> 'n master) option" where
  [code]: "message_loop env i k m = do {
     (st, m) \<leftarrow> status_of env i k m;
     (if st = Inr RUNNING
      then do {
        (r, m) \<leftarrow> message_round env m;
        (case r of Inl e \<Rightarrow> Some (Inl e, m) | Inr _ \<Rightarrow> message_loop env i k m)
      }
      else Some (Inr (), m))
   }"

definition waitForMessage :: "'n bus_env \<Rightarrow> nat \<Rightarrow> nat \<Rightarrow> ('n, unit) act" where
  "waitForMessage env i k =
     thenE (message_loop env i k)
     (bindE (status_of env i k) (\<lambda>st. checkE (st \<noteq> TIMEDOUT) (Error ''Error while reading SDO - Timeout'')))"

datatype access = PARTIAL | COMPLETE | EMULATE_COMPLETE

text \<open>A transfer of the client's buffer: the buffer and the size the message leaves in \<open>*data_size\<close>.\<close>

definition sdo_transfer :: "'n bus_env \<Rightarrow> nat \<Rightarrow> u16 \<Rightarrow> u8 \<Rightarrow> bool \<Rightarrow> u8 \<Rightarrow> bytes \<Rightarrow> u32 \<Rightarrow> int \<Rightarrow> ('n, bytes \<times> u32) act" where
  "sdo_transfer env i index subindex CA request data data_size timeout =
     bindE (nowE env) (\<lambda>t m. do {
       r \<leftarrow> createSDO index subindex CA request data data_size timeout t (sv_mailbox (slave_at i (mt_bus m)));
       case r of
         Inl e \<Rightarrow> Some (Inl (Error e), m)
       | Inr (k, mb) \<Rightarrow>
           thenE (updE (upd_mailbox i (\<lambda>_. mb)))
           (thenE (waitForMessage env i k)
           (bindE (status_of env i k) (\<lambda>st.
              if st \<noteq> SUCCESS then throwE (ErrorCoE st)
              else busE (\<lambda>b. case message_at i k b of SdoReq q \<Rightarrow> (cl_data q, cl_data_size q) | _ \<Rightarrow> ([], 0))))) m
     })"

text \<open>The loop of the emulated complete access, on the 16-bit counter of the code.\<close>

partial_function (option) emulate_loop ::
    "'n bus_env \<Rightarrow> nat \<Rightarrow> u16 \<Rightarrow> int \<Rightarrow> u16 \<Rightarrow> bytes \<Rightarrow> u32 \<Rightarrow> u32 \<Rightarrow> int \<Rightarrow> 'n master
      \<Rightarrow> ((exn + (bytes \<times> u32)) \<times> 'n master) option" where
  [code]: "emulate_loop env i index object_size n data data_size already_read timeout m =
     (if uint n > object_size then Some (Inr (data, already_read), m)
      else if data_size - already_read = 0
      then Some (Inl (Error ''Error while reading SDO - client buffer too small''), m)
      else do {
        (r, m) \<leftarrow> sdo_transfer env i index (ucast n) False (ucast REQ_UPLOAD) (drop (unat already_read) data)
                    (data_size - already_read) timeout m;
        (case r of
           Inl e \<Rightarrow> Some (Inl e, m)
         | Inr dn \<Rightarrow> emulate_loop env i index object_size (n + 1) (take (unat already_read) data @ fst dn)
             data_size (already_read + snd dn) timeout m)
      })"

definition readSDO :: "'n bus_env \<Rightarrow> nat \<Rightarrow> u16 \<Rightarrow> u8 \<Rightarrow> access \<Rightarrow> bytes \<Rightarrow> u32 \<Rightarrow> int \<Rightarrow> ('n, bytes \<times> u32) act" where
  "readSDO env i index subindex CA data data_size timeout =
     (if CA = PARTIAL \<or> CA = COMPLETE
      then sdo_transfer env i index subindex (CA = COMPLETE) (ucast REQ_UPLOAD) data data_size timeout
      else bindE (sdo_transfer env i index 0 False (ucast REQ_UPLOAD) (replicate 4 0) 4 timeout) (\<lambda>(object, _).
             emulate_loop env i index (sint (get32 object 0)) 1 data data_size 0 timeout))"

definition writeSDO :: "'n bus_env \<Rightarrow> nat \<Rightarrow> u16 \<Rightarrow> u8 \<Rightarrow> access \<Rightarrow> bytes \<Rightarrow> u32 \<Rightarrow> int \<Rightarrow> ('n, unit) act" where
  "writeSDO env i index subindex CA data data_size timeout =
     (if CA = PARTIAL \<or> CA = COMPLETE
      then drop_result (sdo_transfer env i index subindex (CA = COMPLETE) (ucast REQ_DOWNLOAD) data data_size timeout)
      else throwE (SystemError ''Emulated complete access not supported for write''))"

definition ONE_SECOND :: int where "ONE_SECOND = 1000000000"

definition mapPDO :: "'n bus_env \<Rightarrow> nat \<Rightarrow> u16 \<Rightarrow> u32 list \<Rightarrow> u16 \<Rightarrow> ('n, unit) act" where
  "mapPDO env i pdo_map mapping sm_map =
     seqE ([writeSDO env i pdo_map 0 PARTIAL [0] 1 ONE_SECOND]
       @ map (\<lambda>j. writeSDO env i pdo_map (of_nat j + 1) PARTIAL (le32 (mapping ! j)) 4 ONE_SECOND) [0..<length mapping]
       @ [writeSDO env i pdo_map 0 PARTIAL [of_nat (length mapping)] 1 ONE_SECOND,
          writeSDO env i sm_map 0 PARTIAL [0] 1 ONE_SECOND,
          writeSDO env i sm_map 1 PARTIAL (le16 pdo_map) 2 ONE_SECOND,
          writeSDO env i sm_map 0 PARTIAL [1] 1 ONE_SECOND])"

section \<open>Gateway messages\<close>

text \<open>A request to the master is answered at once by its own mailbox, given with its storage; any other is
  queued in the mailbox of the slave it names.\<close>

datatype gateway_handle = Queued nat nat | Served gateway_message

definition addGatewayMessage ::
    "'n bus_env \<Rightarrow> hooks \<Rightarrow> bytes \<Rightarrow> int \<Rightarrow> u16 \<Rightarrow> (response_mailbox \<times> heap) option
      \<Rightarrow> ('n, gateway_handle option \<times> (response_mailbox \<times> heap) option) act" where
  "addGatewayMessage env hk raw_message raw_message_size gateway_index mm =
     (if raw_message_size < 6 then retE (None, mm)
      else bindE (nowE env) (\<lambda>t m. do {
        header \<leftarrow> header_of raw_message;
        if mh_address header = 0
        then (case mm of
                None \<Rightarrow> Some (Inr (None, mm), m)
              | Some (mb, h) \<Rightarrow> do {
                  (msg, mb, h) \<leftarrow> serveGatewayRequest hk raw_message raw_message_size gateway_index mb h;
                  Some (Inr (map_option Served msg, Some (mb, h)), m)
                })
        else case findSlaveByAddress (bs_slaves (mt_bus m)) (mh_address header) of
               None \<Rightarrow> Some (Inr (None, mm), m)
             | Some i \<Rightarrow> do {
                 made \<leftarrow> createGatewayMessage raw_message raw_message_size gateway_index 20000000 t
                           (sv_mailbox (slave_at i (mt_bus m)));
                 case made of
                   None \<Rightarrow> Some (Inr (None, mm), m)
                 | Some (k, mb) \<Rightarrow>
                     Some (Inr (Some (Queued i k), mm), m\<lparr>mt_bus := upd_mailbox i (\<lambda>_. mb) (mt_bus m)\<rparr>)
               }
      }))"

end
