(* ===== verification/BusMapping.thy ===== *)
theory BusMapping
  imports BusMailbox
begin

text \<open>
  Process data as the master maps and exchanges it (\<open>lib/master/src/Bus.cc\<close>): sizes of the process
  images, layout of the logical frames, programming of FMMUs and sync managers, cyclic exchange.
\<close>

section \<open>Sizes\<close>

definition bits_to_bytes :: "int \<Rightarrow> int" where
  "bits_to_bytes bits = bits div 8 + (if bits mod 8 \<noteq> 0 then 1 else 0)"

text \<open>The mapping of a direction: \<open>True\<close> for the outputs.\<close>

definition upd_mapping :: "nat \<Rightarrow> bool \<Rightarrow> (pi_mapping \<Rightarrow> pi_mapping) \<Rightarrow> bus \<Rightarrow> bus" where
  "upd_mapping i out f = upd_slave i (\<lambda>s.
     if out then s\<lparr>sv_output := f (sv_output s)\<rparr> else s\<lparr>sv_input := f (sv_input s)\<rparr>)"

definition mapping_of :: "bool \<Rightarrow> mslave \<Rightarrow> pi_mapping" where
  "mapping_of out s = (if out then sv_output s else sv_input s)"

text \<open>Every fourth byte of a mapping object is a length in bits.\<close>

definition object_bits :: "bytes \<Rightarrow> u32 \<Rightarrow> int" where
  "object_bits object object_size = (\<Sum>k\<leftarrow>[0..<(unat object_size + 3) div 4]. uint (object ! (4 * k)))"

definition map_pdo_object :: "'n bus_env \<Rightarrow> nat \<Rightarrow> bool \<Rightarrow> u16 \<Rightarrow> ('n, unit) act" where
  "map_pdo_object env i out index =
     bindE (readSDO env i index 1 EMULATE_COMPLETE (replicate 512 0) 512 ONE_SECOND) (\<lambda>(object, object_size).
       updE (upd_mapping i out (\<lambda>p. p\<lparr>pi_size := pi_size p + object_bits object object_size\<rparr>)))"

definition map_sync_manager :: "'n bus_env \<Rightarrow> nat \<Rightarrow> nat \<Rightarrow> u8 \<Rightarrow> ('n, unit) act" where
  "map_sync_manager env i k sm =
     (if sm \<le> 2 then retE ()
      else let out = (sm = 3)
           in thenE (updE (upd_mapping i out (\<lambda>p. p\<lparr>pi_sync_manager := int k, pi_size := 0\<rparr>)))
              (bindE (readSDO env i (0x1C10 + of_nat k) 1 EMULATE_COMPLETE (replicate 256 0) 256 ONE_SECOND) (\<lambda>(mapped, map_size).
               thenE (seqE (map (\<lambda>j. map_pdo_object env i out (get16 mapped (2 * j))) [0..<unat map_size div 2]))
                     (updE (upd_mapping i out (\<lambda>p. p\<lparr>pi_bsize := bits_to_bytes (pi_size p)\<rparr>))))))"

definition sii_bits :: "pdo_mapping list \<Rightarrow> int" where
  "sii_bits PDOs = (\<Sum>pdo\<leftarrow>PDOs. \<Sum>e\<leftarrow>pm_entries pdo. uint (pe_bitlen e))"

text \<open>The last sync manager of the type is the one used.\<close>

definition sii_sync_manager :: "u8 \<Rightarrow> sm_entry list \<Rightarrow> int" where
  "sii_sync_manager type sms =
     fold (\<lambda>(i, sm) found. if se_type sm = type then int i else found) (enumerate 0 sms) (-1)"

definition siiMapping :: "nat \<Rightarrow> bool \<Rightarrow> ('n, unit) act" where
  "siiMapping i out =
     bindE (busE (slave_at i)) (\<lambda>s.
       let PDOs = (if out then sii_RxPDO (sv_sii s) else sii_TxPDO (sv_sii s));
           size = sii_bits PDOs;
           sm = sii_sync_manager (if out then 3 else 4) (sii_syncManagers (sv_sii s))
       in thenE (updE (upd_mapping i out (\<lambda>p. p\<lparr>pi_sync_manager := sm, pi_size := size, pi_bsize := bits_to_bytes size\<rparr>)))
                (checkE (\<not> (sm = -1 \<and> size \<noteq> 0)) (Error ''Invalid SyncManager configuration'')))"

definition detect_slave :: "'n bus_env \<Rightarrow> nat \<Rightarrow> mslave \<Rightarrow> ('n, unit) act" where
  "detect_slave env i s =
     (if sv_static s
      then updE (upd_slave i (\<lambda>s. s\<lparr>sv_input := (sv_input s)\<lparr>pi_size := pi_bsize (sv_input s) * 8\<rparr>,
                                   sv_output := (sv_output s)\<lparr>pi_size := pi_bsize (sv_output s) * 8\<rparr>\<rparr>))
      else if mailbox_protocol s AND 0x04 \<noteq> 0
      then bindE (readSDO env i 0x1C00 1 EMULATE_COMPLETE (replicate 512 0) 512 ONE_SECOND) (\<lambda>(sm, sm_size).
             seqE (map (\<lambda>k. map_sync_manager env i k (sm ! k)) [0..<unat sm_size]))
      else thenE (siiMapping i True) (siiMapping i False))"

definition detectMapping :: "'n bus_env \<Rightarrow> ('n, unit) act" where
  "detectMapping env = for_slaves (detect_slave env)"

definition configureMailboxStatusCheck :: "u8 \<Rightarrow> ('n, unit) act" where
  "configureMailboxStatusCheck mode =
     (if mode = 0 then updE (\<lambda>b. b\<lparr>bs_mailbox_status := mode\<rparr>)
      else let required_fmmus = (if mode AND 1 \<noteq> 0 \<and> mode AND 2 \<noteq> 0 then 4 else 3)
           in thenE (for_slaves (\<lambda>i s.
                  if mailbox_protocol s = 0 then retE ()
                  else checkE (\<not> esc_fmmus s < required_fmmus) (Error ''Insufficient FMMUs for mailbox status mapping'')))
                (updE (\<lambda>b. b\<lparr>bs_mailbox_status := mode\<rparr>)))"

section \<open>Layout of the logical frames\<close>

definition MAX_PI :: nat where [simp]: "MAX_PI = 1486"

definition PIFrame_new :: "u32 \<Rightarrow> pi_frame" where
  "PIFrame_new address = \<lparr>pf_description = \<lparr>lf_address = address, logical_size = 0, pdo_size = 0, lf_entries = []\<rparr>,
     pf_inputs = [], pf_outputs = [], pf_read_status = [], pf_write_status = [], pf_wkc_read_adjust = 0,
     pf_expected_lrw_wkc = 0, pf_output_buffer = []\<rparr>"

text \<open>The frames already closed, the current one, with the slaves that have a mailbox in it, and the address.\<close>

record frame_layout =
  ly_closed :: "(pi_frame \<times> nat list) list"
  ly_frame :: pi_frame
  ly_mbx :: "nat list"
  ly_address :: u32

definition close_frame :: "u32 \<Rightarrow> pi_frame \<Rightarrow> pi_frame" where
  "close_frame address f = f\<lparr>pf_description := (pf_description f)\<lparr>logical_size := sint (address - lf_address (pf_description f))\<rparr>\<rparr>"

definition new_frame :: "frame_layout \<Rightarrow> frame_layout" where
  "new_frame ly =
     (let address = of_nat (Suc (length (ly_closed ly))) * of_nat MAX_PI
      in \<lparr>ly_closed = ly_closed ly @ [(close_frame (ly_address ly) (ly_frame ly), ly_mbx ly)],
          ly_frame = PIFrame_new address, ly_mbx = [], ly_address = address\<rparr>)"

definition block_size :: "mslave \<Rightarrow> int" where
  "block_size s = max (pi_bsize (sv_input s)) (pi_bsize (sv_output s))"

definition overflows :: "mslave \<Rightarrow> frame_layout \<Rightarrow> bool" where
  "overflows s ly \<longleftrightarrow> unat (ly_address ly + of_int (block_size s)) > Suc (length (ly_closed ly)) * MAX_PI"

definition add_blocks :: "nat \<Rightarrow> mslave \<Rightarrow> u32 \<Rightarrow> pi_frame \<Rightarrow> pi_frame" where
  "add_blocks i s offset f =
     (let block = (\<lambda>size. \<lparr>bi_iomap = None, bi_offset = offset, bi_size = size, bi_slave = i\<rparr>)
      in f\<lparr>pf_inputs := pf_inputs f @ (if pi_bsize (sv_input s) > 0 then [block (pi_bsize (sv_input s))] else []),
           pf_outputs := pf_outputs f @ (if pi_bsize (sv_output s) > 0 then [block (pi_bsize (sv_output s))] else [])\<rparr>)"

definition at_address :: "u32 \<Rightarrow> mslave \<Rightarrow> mslave" where
  "at_address address s = s\<lparr>sv_input := (sv_input s)\<lparr>pi_address := address\<rparr>,
     sv_output := (sv_output s)\<lparr>pi_address := address\<rparr>\<rparr>"

definition place_slave :: "nat \<Rightarrow> mslave \<Rightarrow> frame_layout \<Rightarrow> mslave \<times> frame_layout" where
  "place_slave i s ly =
     (let ly = (if overflows s ly then new_frame ly else ly);
          address = ly_address ly
      in (at_address address s,
          ly\<lparr>ly_frame := add_blocks i s (address - lf_address (pf_description (ly_frame ly))) (ly_frame ly),
             ly_mbx := ly_mbx ly @ (if mailbox_protocol s \<noteq> 0 then [i] else []),
             ly_address := address + of_int (block_size s)\<rparr>))"

fun place_slaves :: "nat \<Rightarrow> mslave list \<Rightarrow> frame_layout \<Rightarrow> mslave list \<times> frame_layout" where
  "place_slaves i [] ly = ([], ly)"
| "place_slaves i (s # ss) ly =
     (let (s, ly) = place_slave i s ly; (ss, ly) = place_slaves (Suc i) ss ly in (s # ss, ly))"

definition pdo_frame :: "pi_frame \<Rightarrow> pi_frame" where
  "pdo_frame f = f\<lparr>pf_description := (pf_description f)\<lparr>pdo_size := logical_size (pf_description f)\<rparr>\<rparr>"

text \<open>The layout of the process data: the slaves with their logical addresses, the frames with the slaves
  that have a mailbox in them.\<close>

definition layout_slaves :: "mslave list \<Rightarrow> mslave list \<times> (pi_frame \<times> nat list) list" where
  "layout_slaves slaves =
     (let (slaves, ly) = place_slaves 0 slaves
            \<lparr>ly_closed = [], ly_frame = PIFrame_new 0, ly_mbx = [], ly_address = 0\<rparr>
      in (slaves, map (\<lambda>(f, mbx). (pdo_frame f, mbx))
            (ly_closed ly @ [(close_frame (ly_address ly) (ly_frame ly), ly_mbx ly)])))"

subsection \<open>Mailbox status bits\<close>

definition FMMU_BYTE_SEPARATION :: u32 where "FMMU_BYTE_SEPARATION = 3"

definition status_entries :: "u32 \<Rightarrow> nat list \<Rightarrow> mbx_status list" where
  "status_entries offset mbx =
     map (\<lambda>(j, i). \<lparr>st_byte_offset = offset + of_nat (j div 8), st_bit_position = of_nat (j mod 8), st_slave = i\<rparr>)
       (enumerate 0 mbx)"

definition status_bytes :: "nat list \<Rightarrow> u32" where
  "status_bytes mbx = (of_nat (length mbx) + 7) div 8"

definition extend_frame :: "u8 \<Rightarrow> mslave list \<Rightarrow> pi_frame \<Rightarrow> nat list \<Rightarrow> pi_frame" where
  "extend_frame mode slaves f mbx =
     (if mode = 0 \<or> mbx = [] then f
      else
        let offset = of_int (pdo_size (pf_description f));
            (f, offset) = (if mode AND 1 \<noteq> 0
               then (f\<lparr>pf_read_status := pf_read_status f @ status_entries (offset + FMMU_BYTE_SEPARATION) mbx\<rparr>,
                     offset + FMMU_BYTE_SEPARATION + status_bytes mbx)
               else (f, offset));
            (f, offset) = (if mode AND 2 \<noteq> 0
               then (f\<lparr>pf_write_status := pf_write_status f @ status_entries (offset + FMMU_BYTE_SEPARATION) mbx\<rparr>,
                     offset + FMMU_BYTE_SEPARATION + status_bytes mbx)
               else (f, offset))
        in f\<lparr>pf_description := (pf_description f)\<lparr>logical_size := sint offset\<rparr>,
             pf_wkc_read_adjust := of_nat (length (filter (\<lambda>i. pi_bsize (sv_input (slaves ! i)) = 0) mbx))\<rparr>)"

subsection \<open>Expected working counters\<close>

definition entry_new :: lf_entry where
  "entry_new = \<lparr>contribution = 0, input_offset = -1, input_size = 0\<rparr>"

definition count_input :: "block_io \<Rightarrow> lf_entry list \<Rightarrow> lf_entry list" where
  "count_input bio es = es[bi_slave bio := \<lparr>contribution = contribution (es ! bi_slave bio) + 1,
     input_offset = sint (bi_offset bio), input_size = bi_size bio\<rparr>]"

definition count_output :: "block_io \<Rightarrow> lf_entry list \<Rightarrow> lf_entry list" where
  "count_output bio es = es[bi_slave bio := (es ! bi_slave bio)\<lparr>contribution := contribution (es ! bi_slave bio) + 2\<rparr>]"

definition count_status :: "mslave list \<Rightarrow> mbx_status \<Rightarrow> lf_entry list \<times> bool list \<Rightarrow> lf_entry list \<times> bool list" where
  "count_status slaves ms x =
     (let (es, counted) = x; i = st_slave ms
      in if pi_bsize (sv_input (slaves ! i)) = 0 \<and> \<not> counted ! i
         then (es[i := (es ! i)\<lparr>contribution := contribution (es ! i) + 1\<rparr>], counted[i := True])
         else (es, counted))"

definition entries_by_position :: "mslave list \<Rightarrow> pi_frame \<Rightarrow> lf_entry list" where
  "entries_by_position slaves f =
     (let es = replicate (length slaves) entry_new;
          es = fold count_input (pf_inputs f) es;
          es = fold count_output (pf_outputs f) es
      in fst (fold (count_status slaves) (pf_read_status f @ pf_write_status f) (es, replicate (length slaves) False)))"

definition expect_frame :: "mslave list \<Rightarrow> pi_frame \<Rightarrow> pi_frame" where
  "expect_frame slaves f =
     (let entries = filter (\<lambda>e. contribution e > 0) (entries_by_position slaves f)
      in f\<lparr>pf_output_buffer := replicate (nat (logical_size (pf_description f))) 0,
           pf_description := (pf_description f)\<lparr>lf_entries := entries\<rparr>,
           pf_expected_lrw_wkc := (\<Sum>e\<leftarrow>entries. contribution e)\<rparr>)"

definition layout_frames :: "u8 \<Rightarrow> mslave list \<Rightarrow> mslave list \<times> pi_frame list" where
  "layout_frames mode slaves =
     (let (slaves, frames) = layout_slaves slaves
      in (slaves, map (\<lambda>(f, mbx). expect_frame slaves (extend_frame mode slaves f mbx)) frames))"

subsection \<open>Client buffer\<close>

definition required_size :: "pi_frame list \<Rightarrow> int" where
  "required_size frames = (\<Sum>f\<leftarrow>frames. (\<Sum>b\<leftarrow>pf_inputs f. bi_size b) + (\<Sum>b\<leftarrow>pf_outputs f. bi_size b))"

text \<open>Blocks get consecutive areas of the client's buffer, their slaves the same pointer.\<close>

fun attach_blocks :: "bool \<Rightarrow> nat \<Rightarrow> block_io list \<Rightarrow> mslave list \<Rightarrow> block_io list \<times> nat \<times> mslave list" where
  "attach_blocks out pos [] slaves = ([], pos, slaves)"
| "attach_blocks out pos (bio # bios) slaves =
     (let i = bi_slave bio; s = slaves ! i;
          s = (if out then s\<lparr>sv_output := (sv_output s)\<lparr>pi_data := Some pos\<rparr>\<rparr>
               else s\<lparr>sv_input := (sv_input s)\<lparr>pi_data := Some pos\<rparr>\<rparr>);
          (bios, end_pos, slaves) = attach_blocks out (pos + nat (bi_size bio)) bios (slaves[i := s])
      in (bio\<lparr>bi_iomap := Some pos\<rparr> # bios, end_pos, slaves))"

fun attach_frames :: "bool \<Rightarrow> nat \<Rightarrow> pi_frame list \<Rightarrow> mslave list \<Rightarrow> pi_frame list \<times> nat \<times> mslave list" where
  "attach_frames out pos [] slaves = ([], pos, slaves)"
| "attach_frames out pos (f # fs) slaves =
     (let (bios, pos, slaves) = attach_blocks out pos (if out then pf_outputs f else pf_inputs f) slaves;
          (fs, pos, slaves) = attach_frames out pos fs slaves
      in ((if out then f\<lparr>pf_outputs := bios\<rparr> else f\<lparr>pf_inputs := bios\<rparr>) # fs, pos, slaves))"

definition attach_client :: "pi_frame list \<Rightarrow> mslave list \<Rightarrow> pi_frame list \<times> mslave list" where
  "attach_client frames slaves =
     (let (frames, pos, slaves) = attach_frames False 0 frames slaves;
          (frames, pos, slaves) = attach_frames True pos frames slaves
      in (frames, slaves))"

section \<open>Programming the slaves\<close>

definition pi_sm_register :: "bool \<Rightarrow> u16 \<Rightarrow> pi_mapping \<Rightarrow> sm_register" where
  "pi_sm_register out start_address mapping =
     \<lparr>sm_start_address = start_address, sm_length = of_int (pi_bsize mapping),
      sm_control = (if out then 0x64 else 0x20), sm_status = 0, sm_activate = 1, sm_pdi_control = 0\<rparr>"

definition pi_fmmu_register :: "bool \<Rightarrow> u16 \<Rightarrow> pi_mapping \<Rightarrow> fmmu_register" where
  "pi_fmmu_register out start_address mapping =
     \<lparr>fm_logical_address = pi_address mapping, fm_length = of_int (pi_bsize mapping), fm_logical_start_bit = 0,
      fm_logical_stop_bit = 7, fm_physical_address = start_address, fm_physical_start_bit = 0,
      fm_type = (if out then 2 else 1), fm_activate = 1, fm_reserved0 = 0, fm_reserved1 = 0, fm_reserved2 = 0\<rparr>"

text \<open>\<open>syncManagers[sync_manager]\<close> outside of the vector is undefined.\<close>

definition prepareDatagrams :: "bool \<Rightarrow> nat \<Rightarrow> mslave \<Rightarrow> ('n, unit) act" where
  "prepareDatagrams out i s =
     (let mapping = mapping_of out s
      in if pi_bsize mapping = 0 then retE ()
         else (\<lambda>m. if pi_sync_manager mapping < 0 \<or> int (length (sii_syncManagers (sv_sii s))) \<le> pi_sync_manager mapping
                   then None
                   else let start_address = se_start_address (sii_syncManagers (sv_sii s) ! nat (pi_sync_manager mapping))
                        in thenE (link_add
                             \<lparr>pd_request = (FPWR, createAddress (sv_address s) (0x800 + of_int (pi_sync_manager mapping * 8)),
                                Some (enc_sm_register (pi_sm_register out start_address mapping)), 8),
                              pd_process = expect_one, pd_error = throw_always INVALID_WORKING_COUNTER\<rparr>)
                           (link_add
                             \<lparr>pd_request = (FPWR, createAddress (sv_address s) (if out then 0x600 else 0x610),
                                Some (enc_fmmu_register (pi_fmmu_register out start_address mapping)), 16),
                              pd_process = expect_one, pd_error = throw_always INVALID_WORKING_COUNTER\<rparr>) m))"

definition configureFMMUs :: "'n bus_env \<Rightarrow> ('n, unit) act" where
  "configureFMMUs env =
     thenE (for_slaves (\<lambda>i s. thenE (prepareDatagrams False i s) (prepareDatagrams True i s))) (link_process env)"

definition bit_fmmu_register :: "u32 \<Rightarrow> u16 \<Rightarrow> mbx_status \<Rightarrow> fmmu_register" where
  "bit_fmmu_register address physical_address entry =
     \<lparr>fm_logical_address = address + st_byte_offset entry, fm_length = 1, fm_logical_start_bit = st_bit_position entry,
      fm_logical_stop_bit = st_bit_position entry, fm_physical_address = physical_address, fm_physical_start_bit = 3,
      fm_type = 1, fm_activate = 1, fm_reserved0 = 0, fm_reserved1 = 0, fm_reserved2 = 0\<rparr>"

definition configureBitFMMU :: "pi_frame \<Rightarrow> mbx_status list \<Rightarrow> u16 \<Rightarrow> u16 \<Rightarrow> ('n, unit) act" where
  "configureBitFMMU f entries physical_address fmmu_reg_offset =
     seqE (map (\<lambda>entry. bindE (busE (slave_at (st_slave entry))) (\<lambda>s. link_add
       \<lparr>pd_request = (FPWR, createAddress (sv_address s) (0x600 + fmmu_reg_offset),
          Some (enc_fmmu_register (bit_fmmu_register (lf_address (pf_description f)) physical_address entry)), 16),
        pd_process = expect_one,
        pd_error = throw_state ''Invalid working counter while programming mailbox status FMMU''\<rparr>)) entries)"

definition configureMailboxFMMUs :: "'n bus_env \<Rightarrow> ('n, unit) act" where
  "configureMailboxFMMUs env =
     bindE (busE bs_mailbox_status) (\<lambda>mode.
     bindE (busE bs_pi_frames) (\<lambda>frames.
     thenE (seqE (map (\<lambda>f.
       let read_check = mode AND 1 \<noteq> 0; write_check = mode AND 2 \<noteq> 0
       in thenE (if read_check then configureBitFMMU f (pf_read_status f) 0x80D 0x20 else retE ())
                (if write_check then configureBitFMMU f (pf_write_status f) 0x805 (if read_check then 0x30 else 0x20)
                 else retE ())) frames))
     (link_process env)))"

text \<open>\<open>None\<close> is the call without a size, which trusts the buffer.\<close>

definition set_layout :: "bus \<Rightarrow> bus" where
  "set_layout b = (let (slaves, frames) = layout_frames (bs_mailbox_status b) (bs_slaves b)
                   in b\<lparr>bs_slaves := slaves, bs_pi_frames := frames\<rparr>)"

definition set_pointers :: "bus \<Rightarrow> bus" where
  "set_pointers b = (let (frames, slaves) = attach_client (bs_pi_frames b) (bs_slaves b)
                     in b\<lparr>bs_slaves := slaves, bs_pi_frames := frames\<rparr>)"

definition createMapping :: "'n bus_env \<Rightarrow> nat option \<Rightarrow> ('n, unit) act" where
  "createMapping env iomap_size =
     thenE (detectMapping env)
     (thenE (updE set_layout)
     (thenE (\<lambda>m. Some (Inr (), m\<lparr>mt_net := be_setLogicalMapping env (map pf_description (bs_pi_frames (mt_bus m))) (mt_net m)\<rparr>))
     (bindE (busE (\<lambda>b. required_size (bs_pi_frames b))) (\<lambda>required.
      thenE (checkE (case iomap_size of None \<Rightarrow> True | Some n \<Rightarrow> required \<le> int n)
               (Error ''createMapping: iomap buffer too small for the process image''))
      (thenE (updE set_pointers)
      (thenE (configureFMMUs env)
      (bindE (busE bs_mailbox_status) (\<lambda>mode. if mode \<noteq> 0 then configureMailboxFMMUs env else retE ()))))))))"

section \<open>Cyclic exchange\<close>

definition store_input :: "bytes \<Rightarrow> block_io \<Rightarrow> bus \<Rightarrow> bus option" where
  "store_input data input b = do {
     pos \<leftarrow> bi_iomap input;
     d \<leftarrow> mem_read data (unat (bi_offset input)) (nat (bi_size input));
     iomap \<leftarrow> mem_write (bs_iomap b) pos d;
     Some (b\<lparr>bs_iomap := iomap\<rparr>)
   }"

fun store_inputs :: "bytes \<Rightarrow> block_io list \<Rightarrow> bus \<Rightarrow> bus option" where
  "store_inputs data [] b = Some b"
| "store_inputs data (input # inputs) b = do { b \<leftarrow> store_input data input b; store_inputs data inputs b }"

definition status_bit :: "bytes \<Rightarrow> mbx_status \<Rightarrow> bool option" where
  "status_bit data ms = do {
     d \<leftarrow> mem_read data (unat (st_byte_offset ms)) 1;
     Some (bit (d ! 0) (unat (st_bit_position ms)))
   }"

fun store_read_status :: "bytes \<Rightarrow> mbx_status list \<Rightarrow> bus \<Rightarrow> bus option" where
  "store_read_status data [] b = Some b"
| "store_read_status data (ms # mss) b = do {
     v \<leftarrow> status_bit data ms;
     store_read_status data mss (upd_slave (st_slave ms) (\<lambda>s. s\<lparr>sv_can_read := v\<rparr>) b)
   }"

fun store_write_status :: "bytes \<Rightarrow> mbx_status list \<Rightarrow> bus \<Rightarrow> bus option" where
  "store_write_status data [] b = Some b"
| "store_write_status data (ms # mss) b = do {
     v \<leftarrow> status_bit data ms;
     store_write_status data mss (upd_slave (st_slave ms) (\<lambda>s. s\<lparr>sv_can_write := \<not> v\<rparr>) b)
   }"

definition store_frame :: "pi_frame \<Rightarrow> bytes \<Rightarrow> bus \<Rightarrow> bus option" where
  "store_frame f data b = do {
     b \<leftarrow> store_inputs data (pf_inputs f) b;
     b \<leftarrow> store_read_status data (pf_read_status f) b;
     store_write_status data (pf_write_status f) b
   }"

text \<open>The callbacks refer to the frame by its position.\<close>

definition process_lrd :: "nat \<Rightarrow> bytes \<Rightarrow> u16 \<Rightarrow> int \<Rightarrow> bus \<Rightarrow> (DatagramState \<times> bus) option" where
  "process_lrd fi data wkc t b = do {
     let f = bs_pi_frames b ! fi;
     b \<leftarrow> store_frame f data b;
     let expected_wkc = of_nat (length (pf_inputs f)) + pf_wkc_read_adjust f;
     Some (if wkc \<noteq> expected_wkc then INVALID_WKC else OK, b)
   }"

definition process_lwr :: "nat \<Rightarrow> bytes \<Rightarrow> u16 \<Rightarrow> int \<Rightarrow> bus \<Rightarrow> (DatagramState \<times> bus) option" where
  "process_lwr fi data wkc t b =
     Some (if unat wkc \<noteq> length (pf_outputs (bs_pi_frames b ! fi)) then INVALID_WKC else OK, b)"

definition process_lrw :: "nat \<Rightarrow> bytes \<Rightarrow> u16 \<Rightarrow> int \<Rightarrow> bus \<Rightarrow> (DatagramState \<times> bus) option" where
  "process_lrw fi data wkc t b =
     (let f = bs_pi_frames b ! fi
      in if wkc \<noteq> pf_expected_lrw_wkc f then Some (INVALID_WKC, b)
         else do { b \<leftarrow> store_frame f data b; Some (OK, b) })"

definition for_frames :: "(nat \<Rightarrow> pi_frame \<Rightarrow> ('n, unit) act) \<Rightarrow> ('n, unit) act" where
  "for_frames g = bindE (busE bs_pi_frames) (\<lambda>frames. seqE (map (\<lambda>fi. bindE (busE (\<lambda>b. bs_pi_frames b ! fi)) (g fi)) [0..<length frames]))"

definition sendLogicalRead :: "on_err \<Rightarrow> ('n, unit) act" where
  "sendLogicalRead error = for_frames (\<lambda>fi f. link_add
     \<lparr>pd_request = (LRD, lf_address (pf_description f), None, of_int (logical_size (pf_description f))),
      pd_process = process_lrd fi, pd_error = error\<rparr>)"

text \<open>The blocks of the outputs are gathered in the buffer of the frame.\<close>

fun gather_outputs :: "bytes \<Rightarrow> block_io list \<Rightarrow> bytes \<Rightarrow> bytes option" where
  "gather_outputs iomap [] buffer = Some buffer"
| "gather_outputs iomap (output # outputs) buffer = do {
     pos \<leftarrow> bi_iomap output;
     d \<leftarrow> mem_read iomap pos (nat (bi_size output));
     buffer \<leftarrow> mem_write buffer (unat (bi_offset output)) d;
     gather_outputs iomap outputs buffer
   }"

definition fill_buffer :: "nat \<Rightarrow> ('n, bytes) act" where
  "fill_buffer fi m = do {
     let b = mt_bus m;
     let f = bs_pi_frames b ! fi;
     buffer \<leftarrow> gather_outputs (bs_iomap b) (pf_outputs f) (pf_output_buffer f);
     Some (Inr buffer, m\<lparr>mt_bus := b\<lparr>bs_pi_frames := (bs_pi_frames b)[fi := f\<lparr>pf_output_buffer := buffer\<rparr>]\<rparr>\<rparr>)
   }"

definition capture_ref :: "bytes \<Rightarrow> u16 \<Rightarrow> int \<Rightarrow> bus \<Rightarrow> (DatagramState \<times> bus) option" where
  "capture_ref data wkc t b =
     (if wkc = 0 then Some (INVALID_WKC, b\<lparr>bs_last_ref_valid := False\<rparr>)
      else Some (OK, b\<lparr>bs_last_ref_time := get64 data 0, bs_last_ref_valid := True\<rparr>))"

definition sendDriftCompensation :: "'n bus_env \<Rightarrow> on_err \<Rightarrow> ('n, unit) act" where
  "sendDriftCompensation env error =
     bindE (epochE env) (\<lambda>now.
     bindE (busE (\<lambda>b. slave_at (the (bs_dc_slave b)) b)) (\<lambda>s. link_add
       \<lparr>pd_request = (FRMW, createAddress (sv_address s) 0x910, Some (le64 (of_int now)), 8),
        pd_process = capture_ref, pd_error = error\<rparr>))"

definition drift_if_dc :: "'n bus_env \<Rightarrow> on_err \<Rightarrow> ('n, unit) act" where
  "drift_if_dc env error = bindE (busE bs_dc_slave) (\<lambda>dc. if dc \<noteq> None then sendDriftCompensation env error else retE ())"

definition sendLogicalWrite :: "'n bus_env \<Rightarrow> on_err \<Rightarrow> ('n, unit) act" where
  "sendLogicalWrite env error =
     thenE (for_frames (\<lambda>fi f. bindE (fill_buffer fi) (\<lambda>buffer. link_add
       \<lparr>pd_request = (LWR, lf_address (pf_description f), Some buffer, of_int (pdo_size (pf_description f))),
        pd_process = process_lwr fi, pd_error = error\<rparr>)))
     (drift_if_dc env error)"

definition sendLogicalReadWrite :: "'n bus_env \<Rightarrow> on_err \<Rightarrow> ('n, unit) act" where
  "sendLogicalReadWrite env error =
     thenE (for_frames (\<lambda>fi f. bindE (fill_buffer fi) (\<lambda>buffer. link_add
       \<lparr>pd_request = (LRW, lf_address (pf_description f), Some buffer, of_int (logical_size (pf_description f))),
        pd_process = process_lrw fi, pd_error = error\<rparr>)))
     (drift_if_dc env error)"

definition processDataRead :: "'n bus_env \<Rightarrow> on_err \<Rightarrow> ('n, unit) act" where
  "processDataRead env error = thenE (sendLogicalRead error) (link_process env)"

definition processDataWrite :: "'n bus_env \<Rightarrow> on_err \<Rightarrow> ('n, unit) act" where
  "processDataWrite env error = thenE (sendLogicalWrite env error) (link_process env)"

definition processDataReadWrite :: "'n bus_env \<Rightarrow> on_err \<Rightarrow> ('n, unit) act" where
  "processDataReadWrite env error = thenE (sendLogicalReadWrite env error) (link_process env)"

section \<open>Initialization\<close>

text \<open>The handlers of emergencies and stray messages that every CoE mailbox keeps waiting.\<close>

definition push_process :: "qmsg \<Rightarrow> request_mailbox \<Rightarrow> request_mailbox" where
  "push_process msg mb = mb\<lparr>qb_messages := qb_messages mb @ [msg], qb_to_process := qb_to_process mb @ [length (qb_messages mb)]\<rparr>"

definition install_handlers :: "int \<Rightarrow> mslave \<Rightarrow> mslave" where
  "install_handlers t s =
     (let message = (\<lambda>mb. AbstractMessage_new (qb_recv_size mb) 0 t);
          s = (if mailbox_protocol s AND 0x04 \<noteq> 0
               then s\<lparr>sv_mailbox := push_process (EmergencyReq (message (sv_mailbox s))) (sv_mailbox s)\<rparr> else s)
      in if mailbox_protocol s AND 0x1F \<noteq> 0
         then s\<lparr>sv_mailbox := push_process (CheckReq (message (sv_mailbox s))) (sv_mailbox s)\<rparr> else s)"

definition Bus_init :: "'n bus_env \<Rightarrow> int \<Rightarrow> ('n, unit) act" where
  "Bus_init env watchdog =
     bindE (detectSlaves env) (\<lambda>n.
     thenE (checkE (n \<noteq> 0) (Error ''No slave detected''))
     (thenE (seqE [
        resetSlaves env watchdog, setAddresses env, fetchESC env, fetchDL env,
        requestState env BUS_INIT, waitForState env BUS_INIT 5000000000 (retE ()),
        fetchEeprom env, configureMailboxes env,
        requestState env BUS_PRE_OP, waitForState env BUS_PRE_OP 3000000000 (retE ()),
        checkMailboxes env (throw_state ''init error while cleaning slaves mailboxes''),
        processMessages env (throw_state ''init error while cleaning slaves mailboxes'')])
     (bindE (nowE env) (\<lambda>t. updE (\<lambda>b. b\<lparr>bs_slaves := map (install_handlers t) (bs_slaves b)\<rparr>)))))"

end
