(* ===== verification/BusLayout.thy ===== *)
theory BusLayout
  imports BusMapping
begin

text \<open>
  What \<open>createMapping\<close> lays out. The specification is next-fit packing: slaves are put in the current
  group while it holds at most 1486 bytes, otherwise they open the next one. The frames the code
  builds are those groups, with every block at the sum of the sizes before it, and the client's
  buffer is divided between the blocks.
\<close>

section \<open>Next-fit packing\<close>

definition group_size :: "(nat \<Rightarrow> nat) \<Rightarrow> nat list \<Rightarrow> nat" where
  "group_size sz g = (\<Sum>i\<leftarrow>g. sz i)"

definition next_fit :: "(nat \<Rightarrow> nat) \<Rightarrow> nat \<Rightarrow> nat list list \<times> nat list \<Rightarrow> nat list list \<times> nat list" where
  "next_fit sz i x =
     (let (gs, cur) = x
      in if group_size sz cur + sz i \<le> MAX_PI then (gs, cur @ [i]) else (gs @ [cur], [i]))"

definition packing :: "(nat \<Rightarrow> nat) \<Rightarrow> nat \<Rightarrow> nat list list \<times> nat list" where
  "packing sz n = fold (next_fit sz) [0..<n] ([], [])"

definition groups :: "(nat \<Rightarrow> nat) \<Rightarrow> nat \<Rightarrow> nat list list" where
  "groups sz n = fst (packing sz n) @ [snd (packing sz n)]"

fun offsets :: "(nat \<Rightarrow> nat) \<Rightarrow> nat \<Rightarrow> nat list \<Rightarrow> (nat \<times> nat) list" where
  "offsets sz pos [] = []"
| "offsets sz pos (i # is) = (i, pos) # offsets sz (pos + sz i) is"

definition group_addresses :: "(nat \<Rightarrow> nat) \<Rightarrow> nat list list \<Rightarrow> nat list" where
  "group_addresses sz gs = concat (map (\<lambda>(k, g). map (\<lambda>(i, pos). MAX_PI * k + pos) (offsets sz 0 g)) (enumerate 0 gs))"

lemma group_size_simps [simp]:
  "group_size sz [] = 0" "group_size sz (i # g) = sz i + group_size sz g"
  "group_size sz (g @ h) = group_size sz g + group_size sz h"
  by (simp_all add: group_size_def)

lemma offsets_append: "offsets sz pos (g @ h) = offsets sz pos g @ offsets sz (pos + group_size sz g) h"
  by (induction g arbitrary: pos) (simp_all add: add.assoc)

lemma map_fst_offsets [simp]: "map fst (offsets sz pos g) = g"
  by (induction g arbitrary: pos) simp_all

lemma length_offsets [simp]: "length (offsets sz pos g) = length g"
  by (induction g arbitrary: pos) simp_all

lemma offsets_bound: "(i, o') \<in> set (offsets sz pos g) \<Longrightarrow> pos \<le> o' \<and> o' + sz i \<le> pos + group_size sz g"
  by (induction g arbitrary: pos) fastforce+

lemma packing_Suc: "packing sz (Suc n) = next_fit sz n (packing sz n)"
  by (simp add: packing_def)

lemma packing_0 [simp]: "packing sz 0 = ([], [])"
  by (simp add: packing_def)

lemma groups_concat: "concat (groups sz n) = [0..<n]"
proof (induction n)
  case (Suc n)
  then show ?case
    by (cases "packing sz n") (auto simp: groups_def packing_Suc next_fit_def Let_def)
qed (simp add: groups_def)

lemma groups_fit:
  assumes "\<And>i. i < n \<Longrightarrow> sz i \<le> MAX_PI"
  shows "\<forall>g \<in> set (groups sz n). group_size sz g \<le> MAX_PI"
  using assms
proof (induction n)
  case (Suc n)
  then have "\<forall>g \<in> set (groups sz n). group_size sz g \<le> MAX_PI" "sz n \<le> MAX_PI" by auto
  then show ?case
    by (cases "packing sz n") (auto simp: groups_def packing_Suc next_fit_def Let_def)
qed (simp add: groups_def)

lemma groups_length: "length (groups sz n) \<le> Suc n"
proof (induction n)
  case (Suc n)
  then show ?case
    by (cases "packing sz n") (auto simp: groups_def packing_Suc next_fit_def Let_def)
qed (simp add: groups_def)

section \<open>The code builds the packing\<close>

definition in_size :: "mslave list \<Rightarrow> nat \<Rightarrow> int" where
  "in_size slaves i = pi_bsize (sv_input (slaves ! i))"

definition out_size :: "mslave list \<Rightarrow> nat \<Rightarrow> int" where
  "out_size slaves i = pi_bsize (sv_output (slaves ! i))"

definition slot_size :: "mslave list \<Rightarrow> nat \<Rightarrow> nat" where
  "slot_size slaves i = nat (block_size (slaves ! i))"

definition blocks :: "(nat \<Rightarrow> int) \<Rightarrow> (nat \<times> nat) list \<Rightarrow> block_io list" where
  "blocks len ps = map (\<lambda>(i, pos). \<lparr>bi_iomap = None, bi_offset = of_nat pos, bi_size = len i, bi_slave = i\<rparr>)
     (filter (\<lambda>(i, pos). len i > 0) ps)"

definition group_frame :: "mslave list \<Rightarrow> nat \<Rightarrow> nat list \<Rightarrow> pi_frame" where
  "group_frame slaves k g = (PIFrame_new (of_nat (MAX_PI * k)))
     \<lparr>pf_inputs := blocks (in_size slaves) (offsets (slot_size slaves) 0 g),
      pf_outputs := blocks (out_size slaves) (offsets (slot_size slaves) 0 g)\<rparr>"

definition with_mailbox :: "mslave list \<Rightarrow> nat list \<Rightarrow> nat list" where
  "with_mailbox slaves g = filter (\<lambda>i. mailbox_protocol (slaves ! i) \<noteq> 0) g"

definition closed_group :: "mslave list \<Rightarrow> nat \<times> nat list \<Rightarrow> pi_frame \<times> nat list" where
  "closed_group slaves x = (let (k, g) = x
     in (close_frame (of_nat (MAX_PI * k + group_size (slot_size slaves) g)) (group_frame slaves k g), with_mailbox slaves g))"

definition layout_of :: "mslave list \<Rightarrow> nat list list \<times> nat list \<Rightarrow> frame_layout" where
  "layout_of slaves x = (let (gs, cur) = x
     in \<lparr>ly_closed = map (closed_group slaves) (enumerate 0 gs), ly_frame = group_frame slaves (length gs) cur,
         ly_mbx = with_mailbox slaves cur,
         ly_address = of_nat (MAX_PI * length gs + group_size (slot_size slaves) cur)\<rparr>)"

text \<open>A slave with sizes that fit in a frame.\<close>

definition fits :: "mslave \<Rightarrow> bool" where
  "fits s \<longleftrightarrow> 0 \<le> pi_bsize (sv_input s) \<and> 0 \<le> pi_bsize (sv_output s) \<and> block_size s \<le> int MAX_PI"

lemma group_frame_snoc:
  "add_blocks i (slaves ! i) (of_nat (group_size (slot_size slaves) g)) (group_frame slaves k g) = group_frame slaves k (g @ [i])"
  by (simp add: add_blocks_def group_frame_def Let_def offsets_append blocks_def in_size_def out_size_def)

lemma group_frame_Nil: "PIFrame_new (of_nat (MAX_PI * k)) = group_frame slaves k []"
  by (simp add: group_frame_def blocks_def PIFrame_new_def)

lemma with_mailbox_snoc:
  "with_mailbox slaves (g @ [i]) = with_mailbox slaves g @ (if mailbox_protocol (slaves ! i) \<noteq> 0 then [i] else [])"
  by (simp add: with_mailbox_def)

lemma block_size_word: "fits s \<Longrightarrow> (of_int (block_size s) :: u32) = of_nat (nat (block_size s))"
proof -
  assume "fits s"
  then have "block_size s = int (nat (block_size s))" by (auto simp: fits_def block_size_def)
  then show ?thesis by (metis of_int_of_nat_eq)
qed

lemma slot_fits: "fits (slaves ! i) \<Longrightarrow> slot_size slaves i \<le> MAX_PI"
  by (auto simp: slot_size_def fits_def)

lemma place_slave_layout:
  assumes s: "fits (slaves ! i)" and k: "length gs \<le> 65536" and c: "group_size (slot_size slaves) cur \<le> MAX_PI"
  shows "place_slave i (slaves ! i) (layout_of slaves (gs, cur)) =
    (let x = next_fit (slot_size slaves) i (gs, cur)
     in (at_address (of_nat (MAX_PI * length (fst x) + group_size (slot_size slaves) (snd x) - slot_size slaves i)) (slaves ! i),
         layout_of slaves x))"
proof -
  let ?k = "length gs" and ?z = "slot_size slaves i" and ?c = "group_size (slot_size slaves) cur"
  have z: "?z \<le> 1486" "of_int (block_size (slaves ! i)) = (of_nat ?z :: u32)"
    using s block_size_word [OF s] by (auto simp: slot_size_def fits_def)
  have k': "1486 * ?k \<le> 1486 * 65536" using k by simp
  have nat_addr: "unat (of_nat (1486 * ?k + ?c) + of_nat ?z :: u32) = 1486 * ?k + ?c + ?z"
  proof -
    have "1486 * ?k + ?c + ?z < 2 ^ 32" using k' z(1) c by simp
    then have "unat (of_nat (1486 * ?k + ?c + ?z) :: u32) = 1486 * ?k + ?c + ?z"
      by (simp add: unsigned_of_nat take_bit_nat_eq_self del: of_nat_add)
    then show ?thesis by simp
  qed
  have over: "overflows (slaves ! i) (layout_of slaves (gs, cur)) \<longleftrightarrow> \<not> ?c + ?z \<le> MAX_PI"
    using nat_addr by (auto simp: overflows_def layout_of_def z(2))
  show ?thesis
  proof (cases "?c + ?z \<le> MAX_PI")
    case True
    then have "lf_address (pf_description (group_frame slaves ?k cur)) = of_nat (1486 * ?k)"
      by (simp add: group_frame_def PIFrame_new_def)
    then show ?thesis
      using True over z(2) group_frame_snoc [of i slaves cur ?k]
      by (simp add: place_slave_def Let_def layout_of_def next_fit_def with_mailbox_snoc add.assoc)
  next
    case False
    have addr: "(of_nat (Suc ?k) * of_nat MAX_PI :: u32) = of_nat (MAX_PI * Suc ?k)"
      by (simp only: of_nat_mult mult.commute)
    have fresh: "new_frame (layout_of slaves (gs, cur)) =
        \<lparr>ly_closed = map (closed_group slaves) (enumerate 0 (gs @ [cur])), ly_frame = group_frame slaves (Suc ?k) [],
         ly_mbx = [], ly_address = of_nat (MAX_PI * Suc ?k)\<rparr>"
      unfolding new_frame_def Let_def
      by (simp add: layout_of_def closed_group_def enumerate_append_eq group_frame_Nil [symmetric] algebra_simps)
    have "lf_address (pf_description (group_frame slaves (Suc ?k) [])) = of_nat (MAX_PI * Suc ?k)"
      by (simp add: group_frame_def PIFrame_new_def)
    then show ?thesis
      using False over z(2) fresh group_frame_snoc [of i slaves "[]" "Suc ?k"] with_mailbox_snoc [of slaves "[]" i]
      by (simp add: place_slave_def Let_def layout_of_def next_fit_def with_mailbox_def)
  qed
qed

lemma place_slaves_append:
  "place_slaves i (ss @ ts) ly =
     (let (ss, ly) = place_slaves i ss ly; (ts, ly) = place_slaves (i + length ss) ts ly in (ss @ ts, ly))"
  by (induction ss arbitrary: i ly) (auto simp: Let_def case_prod_beta)

lemma length_place_slaves: "length (fst (place_slaves i ss ly)) = length ss"
  by (induction ss arbitrary: i ly) (auto simp: Let_def case_prod_beta)

text \<open>The addresses of the slaves, in order.\<close>

definition addresses :: "mslave list \<Rightarrow> nat \<Rightarrow> nat list" where
  "addresses slaves n = group_addresses (slot_size slaves) (groups (slot_size slaves) n)"

lemma group_addresses_snoc:
  "group_addresses sz (gs @ [g]) = group_addresses sz gs @ map (\<lambda>(i, pos). MAX_PI * length gs + pos) (offsets sz 0 g)"
  by (simp add: group_addresses_def enumerate_append_eq)

lemma length_group_addresses: "length (group_addresses sz gs) = length (concat gs)"
  by (induction gs rule: rev_induct) (simp_all add: group_addresses_snoc, simp add: group_addresses_def)

lemma length_addresses [simp]: "length (addresses slaves n) = n"
  by (simp add: addresses_def length_group_addresses groups_concat)

lemma addresses_Suc:
  "addresses slaves (Suc n) = addresses slaves n @
     (let x = next_fit (slot_size slaves) n (packing (slot_size slaves) n)
      in [MAX_PI * length (fst x) + group_size (slot_size slaves) (snd x) - slot_size slaves n])"
proof -
  obtain gs cur where p: "packing (slot_size slaves) n = (gs, cur)" by (cases "packing (slot_size slaves) n")
  show ?thesis
    by (auto simp: addresses_def groups_def packing_Suc p next_fit_def Let_def group_addresses_snoc offsets_append)
qed

lemma place_slaves_layout:
  assumes "\<forall>s \<in> set slaves. fits s" and "length slaves \<le> 65535" and "n \<le> length slaves"
  shows "place_slaves 0 (take n slaves) (layout_of slaves ([], [])) =
    (map2 (\<lambda>a. at_address (of_nat a)) (addresses slaves n) (take n slaves), layout_of slaves (packing (slot_size slaves) n))"
  using assms(3)
proof (induction n)
  case 0
  then show ?case by simp
next
  case (Suc n)
  obtain gs cur where p: "packing (slot_size slaves) n = (gs, cur)" by (cases "packing (slot_size slaves) n")
  have "slot_size slaves i \<le> MAX_PI" if "i < n" for i
    using assms(1) Suc.prems that by (intro slot_fits) simp
  then have "group_size (slot_size slaves) cur \<le> MAX_PI"
    using groups_fit [of n "slot_size slaves"] by (simp add: groups_def p)
  moreover have "length gs \<le> 65536"
    using groups_length [of "slot_size slaves" n] Suc.prems assms(2) by (simp add: groups_def p)
  moreover have "fits (slaves ! n)" using assms(1) Suc.prems by simp
  ultimately have "place_slave n (slaves ! n) (layout_of slaves (gs, cur)) =
    (let x = next_fit (slot_size slaves) n (gs, cur)
     in (at_address (of_nat (MAX_PI * length (fst x) + group_size (slot_size slaves) (snd x) - slot_size slaves n)) (slaves ! n),
         layout_of slaves x))"
    by (intro place_slave_layout)
  moreover have "take (Suc n) slaves = take n slaves @ [slaves ! n]" "length (take n slaves) = n"
    using Suc.prems by (simp_all add: take_Suc_conv_app_nth)
  ultimately show ?case
    using Suc.IH Suc.prems addresses_Suc [of slaves n]
    by (simp add: place_slaves_append Let_def p packing_Suc)
qed

text \<open>The frames of a packing, closed.\<close>

definition pdo_group :: "mslave list \<Rightarrow> nat \<times> nat list \<Rightarrow> pi_frame \<times> nat list" where
  "pdo_group slaves x = (let (f, mbx) = closed_group slaves x in (pdo_frame f, mbx))"

lemma layout_slaves_packing:
  assumes "\<forall>s \<in> set slaves. fits s" and "length slaves \<le> 65535"
  shows "layout_slaves slaves =
    (map2 (\<lambda>a. at_address (of_nat a)) (addresses slaves (length slaves)) slaves,
     map (pdo_group slaves) (enumerate 0 (groups (slot_size slaves) (length slaves))))"
proof -
  obtain gs cur where p: "packing (slot_size slaves) (length slaves) = (gs, cur)"
    by (cases "packing (slot_size slaves) (length slaves)")
  have start: "\<lparr>ly_closed = [], ly_frame = PIFrame_new 0, ly_mbx = [], ly_address = 0\<rparr> = layout_of slaves ([], [])"
    using group_frame_Nil [of 0 slaves] by (simp add: layout_of_def with_mailbox_def)
  show ?thesis
    unfolding layout_slaves_def start using place_slaves_layout [OF assms order_refl]
    by (simp add: p groups_def layout_of_def enumerate_append_eq closed_group_def pdo_group_def case_prod_beta)
qed

section \<open>Disjointness\<close>

text \<open>Slaves with their logical addresses.\<close>

definition placed :: "(nat \<Rightarrow> nat) \<Rightarrow> nat list list \<Rightarrow> (nat \<times> nat) list" where
  "placed sz gs = concat (map (\<lambda>(k, g). map (\<lambda>(i, pos). (i, MAX_PI * k + pos)) (offsets sz 0 g)) (enumerate 0 gs))"

lemma placed_snoc: "placed sz (gs @ [g]) = placed sz gs @ map (\<lambda>(i, pos). (i, MAX_PI * length gs + pos)) (offsets sz 0 g)"
  by (simp add: placed_def enumerate_append_eq)

lemma placed_Nil [simp]: "placed sz [] = []"
  by (simp add: placed_def)

lemma map_fst_placed: "map fst (placed sz gs) = concat gs"
proof (induction gs rule: rev_induct)
  case (snoc g gs)
  have "map fst (map (\<lambda>(i, pos). (i, MAX_PI * length gs + pos)) (offsets sz 0 g)) = map fst (offsets sz 0 g)"
    by (simp add: case_prod_beta del: map_fst_offsets)
  then show ?case using snoc by (simp only: placed_snoc map_append concat_append map_fst_offsets) simp
qed simp

lemma map_snd_placed: "map snd (placed sz gs) = group_addresses sz gs"
  by (induction gs rule: rev_induct)
    (simp_all add: placed_snoc group_addresses_snoc case_prod_beta, simp add: group_addresses_def)

lemma sorted_offsets: "sorted_wrt (\<lambda>x y. snd x + sz (fst x) \<le> snd y) (offsets sz pos g)"
proof (induction g arbitrary: pos)
  case (Cons i g)
  then show ?case using offsets_bound [of _ _ sz "pos + sz i" g] by fastforce
qed simp

lemma placed_bound:
  assumes "\<forall>g \<in> set gs. group_size sz g \<le> MAX_PI" and "(i, a) \<in> set (placed sz gs)"
  shows "a + sz i \<le> MAX_PI * length gs"
  using assms
proof (induction gs rule: rev_induct)
  case (snoc g gs)
  then show ?case using offsets_bound [of i _ sz 0 g] by (fastforce simp: placed_snoc)
qed simp

lemma sorted_placed:
  assumes "\<forall>g \<in> set gs. group_size sz g \<le> MAX_PI"
  shows "sorted_wrt (\<lambda>x y. snd x + sz (fst x) \<le> snd y) (placed sz gs)"
  using assms
proof (induction gs rule: rev_induct)
  case (snoc g gs)
  have "snd x + sz (fst x) \<le> MAX_PI * length gs" if "x \<in> set (placed sz gs)" for x
    using placed_bound [of gs sz "fst x" "snd x"] snoc.prems that by simp
  then show ?case
    using snoc sorted_offsets [of sz 0 g]
    by (fastforce simp: placed_snoc sorted_wrt_append sorted_wrt_map case_prod_beta)
qed simp

lemma nth_placed:
  assumes "concat gs = [0..<n]" and "i < n"
  shows "placed sz gs ! i = (i, group_addresses sz gs ! i)"
proof -
  have len: "length (placed sz gs) = n" using map_fst_placed [of sz gs] assms(1) by (metis length_map length_upt minus_nat.diff_0)
  then have "fst (placed sz gs ! i) = i"
    using map_fst_placed [of sz gs] assms by (metis nth_map nth_upt add_0)
  moreover have "snd (placed sz gs ! i) = group_addresses sz gs ! i"
    using map_snd_placed [of sz gs] assms len by (metis nth_map)
  ultimately show ?thesis by (metis prod.collapse)
qed

lemma addresses_ordered:
  assumes "\<forall>s \<in> set slaves. fits s" and "i < j" and "j < length slaves"
  shows "addresses slaves (length slaves) ! i + slot_size slaves i \<le> addresses slaves (length slaves) ! j"
proof -
  let ?gs = "groups (slot_size slaves) (length slaves)"
  have fit: "\<forall>g \<in> set ?gs. group_size (slot_size slaves) g \<le> MAX_PI"
    using assms(1) by (intro groups_fit slot_fits) simp
  have "length (placed (slot_size slaves) ?gs) = length slaves"
    using map_fst_placed [of "slot_size slaves" ?gs] groups_concat [of "slot_size slaves" "length slaves"]
    by (metis length_map length_upt minus_nat.diff_0)
  then show ?thesis
    using sorted_placed [OF fit] assms(2,3) nth_placed [OF groups_concat, of _ "length slaves" "slot_size slaves"]
    by (auto simp: sorted_wrt_iff_nth_less addresses_def)
qed

lemma addresses_bound:
  assumes "\<forall>s \<in> set slaves. fits s" and "length slaves \<le> 65535" and "i < length slaves"
  shows "addresses slaves (length slaves) ! i + slot_size slaves i \<le> 1486 * 65536"
proof -
  let ?gs = "groups (slot_size slaves) (length slaves)"
  have fit: "\<forall>g \<in> set ?gs. group_size (slot_size slaves) g \<le> MAX_PI"
    using assms(1) by (intro groups_fit slot_fits) simp
  have len: "length (placed (slot_size slaves) ?gs) = length slaves"
    using map_fst_placed [of "slot_size slaves" ?gs] groups_concat [of "slot_size slaves" "length slaves"]
    by (metis length_map length_upt minus_nat.diff_0)
  have "(i, addresses slaves (length slaves) ! i) \<in> set (placed (slot_size slaves) ?gs)"
    using nth_placed [OF groups_concat assms(3)] nth_mem [of i "placed (slot_size slaves) ?gs"] len assms(3)
    by (simp add: addresses_def)
  from placed_bound [OF fit this] show ?thesis
    using groups_length [of "slot_size slaves" "length slaves"] assms(2) by simp
qed

section \<open>The process image\<close>

lemma sint_small: "n < 2 ^ 31 \<Longrightarrow> sint (of_nat n :: u32) = int n"
  by (simp add: signed_of_nat signed_take_bit_int_eq_self)

lemma pdo_group_fields:
  assumes "group_size (slot_size slaves) g \<le> MAX_PI"
  shows "pf_description (fst (pdo_group slaves (k, g))) =
      \<lparr>lf_address = of_nat (MAX_PI * k), logical_size = int (group_size (slot_size slaves) g),
       pdo_size = int (group_size (slot_size slaves) g), lf_entries = []\<rparr>"
    and "pf_inputs (fst (pdo_group slaves (k, g))) = blocks (in_size slaves) (offsets (slot_size slaves) 0 g)"
    and "pf_outputs (fst (pdo_group slaves (k, g))) = blocks (out_size slaves) (offsets (slot_size slaves) 0 g)"
    and "snd (pdo_group slaves (k, g)) = with_mailbox slaves g"
    and "pf_read_status (fst (pdo_group slaves (k, g))) = []" "pf_write_status (fst (pdo_group slaves (k, g))) = []"
    and "pf_wkc_read_adjust (fst (pdo_group slaves (k, g))) = 0"
proof -
  have "sint (of_nat (group_size (slot_size slaves) g) :: u32) = int (group_size (slot_size slaves) g)"
    using assms by (intro sint_small) simp
  then show "pf_description (fst (pdo_group slaves (k, g))) =
      \<lparr>lf_address = of_nat (MAX_PI * k), logical_size = int (group_size (slot_size slaves) g),
       pdo_size = int (group_size (slot_size slaves) g), lf_entries = []\<rparr>"
    by (simp add: pdo_group_def closed_group_def pdo_frame_def close_frame_def group_frame_def PIFrame_new_def)
qed (simp_all add: pdo_group_def closed_group_def pdo_frame_def close_frame_def group_frame_def PIFrame_new_def)

text \<open>A block of a frame: the size of its slave's mapping, at the slave's address, inside the frame.\<close>

definition block_ok :: "(mslave \<Rightarrow> pi_mapping) \<Rightarrow> mslave list \<Rightarrow> logical_frame \<Rightarrow> block_io \<Rightarrow> bool" where
  "block_ok dir slaves d bio \<longleftrightarrow>
     bi_slave bio < length slaves \<and> 0 < bi_size bio \<and> bi_size bio = pi_bsize (dir (slaves ! bi_slave bio))
     \<and> pi_address (dir (slaves ! bi_slave bio)) = lf_address d + bi_offset bio
     \<and> int (unat (bi_offset bio)) + bi_size bio \<le> logical_size d"

lemma at_address_simps [simp]:
  "pi_address (sv_input (at_address a s)) = a" "pi_address (sv_output (at_address a s)) = a"
  "pi_bsize (sv_input (at_address a s)) = pi_bsize (sv_input s)" "pi_bsize (sv_output (at_address a s)) = pi_bsize (sv_output s)"
  "mailbox_protocol (at_address a s) = mailbox_protocol s" "block_size (at_address a s) = block_size s"
  by (simp_all add: at_address_def mailbox_protocol_def block_size_def)

lemma placed_in_group:
  assumes "k < length gs" and "(i, pos) \<in> set (offsets sz 0 (gs ! k))"
  shows "(i, MAX_PI * k + pos) \<in> set (placed sz gs)"
proof -
  have "(k, gs ! k) \<in> set (enumerate 0 gs)" using assms(1) by (simp add: in_set_enumerate_eq)
  then show ?thesis using assms(2) unfolding placed_def by force
qed

lemma address_in_group:
  assumes "concat gs = [0..<n]" and "k < length gs" and "(i, pos) \<in> set (offsets sz 0 (gs ! k))"
  shows "i < n \<and> group_addresses sz gs ! i = MAX_PI * k + pos"
proof -
  have "(i, MAX_PI * k + pos) \<in> set (placed sz gs)" using placed_in_group assms(2,3) .
  then obtain j where j: "j < length (placed sz gs)" "placed sz gs ! j = (i, MAX_PI * k + pos)"
    by (auto simp: in_set_conv_nth)
  have "length (placed sz gs) = n" using map_fst_placed [of sz gs] assms(1) by (metis length_map length_upt minus_nat.diff_0)
  then show ?thesis using j nth_placed [OF assms(1), of j sz] by auto
qed

lemma group_block_ok:
  assumes fit: "\<forall>s \<in> set slaves. fits s" and n: "length slaves \<le> 65535"
    and gs: "gs = groups (slot_size slaves) (length slaves)" and k: "k < length gs"
    and ss: "ss = map2 (\<lambda>a. at_address (of_nat a)) (addresses slaves (length slaves)) slaves"
    and d: "lf_address d = of_nat (MAX_PI * k)" "logical_size d = int (group_size (slot_size slaves) (gs ! k))"
    and dir: "(dir, len) \<in> {(sv_input, in_size slaves), (sv_output, out_size slaves)}"
    and b: "bio \<in> set (blocks len (offsets (slot_size slaves) 0 (gs ! k)))"
  shows "block_ok dir ss d bio"
proof -
  obtain i pos where bio: "bio = \<lparr>bi_iomap = None, bi_offset = of_nat pos, bi_size = len i, bi_slave = i\<rparr>"
      and ip: "(i, pos) \<in> set (offsets (slot_size slaves) 0 (gs ! k))" and pos: "0 < len i"
    using b by (auto simp: blocks_def)
  have i: "i < length slaves" "addresses slaves (length slaves) ! i = MAX_PI * k + pos"
    using address_in_group [OF _ k ip, of "length slaves"] groups_concat [of "slot_size slaves" "length slaves"] gs
    by (auto simp: addresses_def)
  have "len i \<le> int (slot_size slaves i)"
    using dir fit i(1) nth_mem [OF i(1)] by (auto simp: slot_size_def block_size_def in_size_def out_size_def fits_def)
  moreover have "pos + slot_size slaves i \<le> group_size (slot_size slaves) (gs ! k)" using offsets_bound [OF ip] by simp
  moreover have "group_size (slot_size slaves) (gs ! k) \<le> MAX_PI"
    using groups_fit [of "length slaves" "slot_size slaves"] slot_fits fit k gs by simp
  moreover from this calculation(2) have "unat (of_nat pos :: u32) = pos"
    by (simp add: unsigned_of_nat take_bit_nat_eq_self)
  ultimately show ?thesis
    using dir i pos d by (auto simp: block_ok_def bio ss in_size_def out_size_def)
qed

text \<open>The three parts of the layout: order of the slaves, contents of a frame, slaves of the frames.\<close>

lemma layout_ordered:
  assumes "\<forall>s \<in> set slaves. fits s" and "length slaves \<le> 65535" and "i < j" and "j < length slaves"
    and ss: "ss = map2 (\<lambda>a. at_address (of_nat a)) (addresses slaves (length slaves)) slaves"
  shows "int (unat (pi_address (sv_input (ss ! i)))) + block_size (ss ! i) \<le> int (unat (pi_address (sv_input (ss ! j))))"
proof -
  let ?a = "addresses slaves (length slaves)" and ?sz = "slot_size slaves"
  have "?a ! i + ?sz i \<le> ?a ! j" "?a ! j + ?sz j \<le> 1486 * 65536" "?a ! i + ?sz i \<le> 1486 * 65536"
    using addresses_ordered [OF assms(1,3,4)] addresses_bound [OF assms(1,2)] assms(3,4) by auto
  moreover from this have "unat (of_nat (?a ! i) :: u32) = ?a ! i" "unat (of_nat (?a ! j) :: u32) = ?a ! j"
    by (simp_all add: unsigned_of_nat take_bit_nat_eq_self)
  moreover have "block_size (slaves ! i) \<le> int (?sz i)" by (simp add: slot_size_def)
  ultimately show ?thesis using assms(3,4) by (simp add: ss)
qed

lemma layout_frame_ok:
  assumes fit: "\<forall>s \<in> set slaves. fits s" and n: "length slaves \<le> 65535"
    and k: "k < length (groups (slot_size slaves) (length slaves))"
    and ss: "ss = map2 (\<lambda>a. at_address (of_nat a)) (addresses slaves (length slaves)) slaves"
    and f: "f = fst (pdo_group slaves (k, groups (slot_size slaves) (length slaves) ! k))"
  shows "lf_address (pf_description f) = of_nat (1486 * k)
    \<and> 0 \<le> logical_size (pf_description f) \<and> logical_size (pf_description f) \<le> 1486
    \<and> list_all (block_ok sv_input ss (pf_description f)) (pf_inputs f)
    \<and> list_all (block_ok sv_output ss (pf_description f)) (pf_outputs f)"
proof -
  let ?gs = "groups (slot_size slaves) (length slaves)"
  have g: "group_size (slot_size slaves) (?gs ! k) \<le> MAX_PI"
    using groups_fit [of "length slaves" "slot_size slaves"] slot_fits fit k by simp
  note fields = pdo_group_fields [OF g, of k]
  have "list_all (block_ok sv_input ss (pf_description f)) (pf_inputs f)"
    unfolding f fields(1,2) list_all_iff
    using group_block_ok [OF fit n refl k ss, where dir = sv_input and len = "in_size slaves"] by simp
  moreover have "list_all (block_ok sv_output ss (pf_description f)) (pf_outputs f)"
    unfolding f fields(1,3) list_all_iff
    using group_block_ok [OF fit n refl k ss, where dir = sv_output and len = "out_size slaves"] by simp
  ultimately show ?thesis using g by (simp add: f fields(1))
qed

lemma map_slave_blocks: "map bi_slave (blocks len (offsets sz pos g)) = filter (\<lambda>i. 0 < len i) g"
proof -
  have "map bi_slave (blocks len ps) = filter (\<lambda>i. 0 < len i) (map fst ps)" for ps
    by (induction ps) (auto simp: blocks_def)
  then show ?thesis by (metis map_fst_offsets)
qed

lemma layout_blocks:
  assumes sel: "\<And>k g. group_size (slot_size slaves) g \<le> MAX_PI \<Longrightarrow>
      sel (fst (pdo_group slaves (k, g))) = blocks len (offsets (slot_size slaves) 0 g)"
    and fit: "\<forall>g \<in> set gs. group_size (slot_size slaves) g \<le> MAX_PI"
  shows "concat (map (\<lambda>(f, _). map bi_slave (sel f)) (map (pdo_group slaves) (enumerate j gs))) = filter (\<lambda>i. 0 < len i) (concat gs)"
  using fit
proof (induction gs arbitrary: j)
  case (Cons g gs)
  have "(\<lambda>(f, _). map bi_slave (sel f)) (pdo_group slaves (j, g)) = filter (\<lambda>i. 0 < len i) g"
    using sel [of g j] Cons.prems map_slave_blocks by (simp add: case_prod_beta)
  then show ?case using Cons by simp
qed simp

text \<open>(C4) The process image is laid out soundly. For slaves whose process data fit in a frame,
  \<open>createMapping\<close> gives every slave one logical range, the ranges of different slaves do not overlap,
  frame k starts at address 1486 k and covers at most 1486 bytes, and the inputs (outputs) of the frames,
  taken in order, are exactly the slaves that have inputs (outputs), each as one block inside its frame,
  at the logical address and with the size its FMMU is programmed with.\<close>

theorem process_image_layout:
  assumes "\<forall>s \<in> set slaves. fits s" and "length slaves \<le> 65535" and "layout_slaves slaves = (ss, fs)"
  shows "length ss = length slaves
    \<and> (\<forall>i j. i < j \<and> j < length ss \<longrightarrow>
         int (unat (pi_address (sv_input (ss ! i)))) + block_size (ss ! i) \<le> int (unat (pi_address (sv_input (ss ! j)))))
    \<and> (\<forall>k < length fs. lf_address (pf_description (fst (fs ! k))) = of_nat (1486 * k)
         \<and> 0 \<le> logical_size (pf_description (fst (fs ! k))) \<and> logical_size (pf_description (fst (fs ! k))) \<le> 1486
         \<and> list_all (block_ok sv_input ss (pf_description (fst (fs ! k)))) (pf_inputs (fst (fs ! k)))
         \<and> list_all (block_ok sv_output ss (pf_description (fst (fs ! k)))) (pf_outputs (fst (fs ! k))))
    \<and> concat (map (\<lambda>(f, _). map bi_slave (pf_inputs f)) fs) = filter (\<lambda>i. 0 < pi_bsize (sv_input (ss ! i))) [0..<length ss]
    \<and> concat (map (\<lambda>(f, _). map bi_slave (pf_outputs f)) fs) = filter (\<lambda>i. 0 < pi_bsize (sv_output (ss ! i))) [0..<length ss]"
proof -
  let ?sz = "slot_size slaves" and ?n = "length slaves"
  let ?gs = "groups ?sz ?n"
  have ss: "ss = map2 (\<lambda>a. at_address (of_nat a)) (addresses slaves ?n) slaves" and fs: "fs = map (pdo_group slaves) (enumerate 0 ?gs)"
    using layout_slaves_packing [OF assms(1,2)] assms(3) by auto
  have fit: "\<forall>g \<in> set ?gs. group_size ?sz g \<le> MAX_PI" using assms(1) by (intro groups_fit slot_fits) simp
  have "filter (\<lambda>i. 0 < pi_bsize (sv_input (ss ! i))) [0..<?n] = filter (\<lambda>i. 0 < in_size slaves i) [0..<?n]"
    "filter (\<lambda>i. 0 < pi_bsize (sv_output (ss ! i))) [0..<?n] = filter (\<lambda>i. 0 < out_size slaves i) [0..<?n]"
    by (auto intro!: filter_cong simp: ss in_size_def out_size_def)
  moreover have "concat (map (\<lambda>(f, _). map bi_slave (pf_inputs f)) fs) = filter (\<lambda>i. 0 < in_size slaves i) [0..<?n]"
    "concat (map (\<lambda>(f, _). map bi_slave (pf_outputs f)) fs) = filter (\<lambda>i. 0 < out_size slaves i) [0..<?n]"
    using layout_blocks [OF pdo_group_fields(2) fit] layout_blocks [OF pdo_group_fields(3) fit] groups_concat [of ?sz ?n]
    by (simp_all add: fs)
  moreover have "fs ! k = pdo_group slaves (k, ?gs ! k)" if "k < length ?gs" for k
    using that by (simp add: fs nth_enumerate_eq)
  moreover have "length ss = ?n" "length fs = length ?gs" by (simp_all add: ss fs)
  ultimately show ?thesis
    using layout_ordered [OF assms(1,2) _ _ ss] layout_frame_ok [OF assms(1,2) _ ss refl] by simp
qed

end
