(* ===== verification/BusExchange.thy ===== *)
theory BusExchange
  imports BusLayout
begin

text \<open>
  Cyclic process data. \<open>mapped\<close> is the invariant that \<open>createMapping\<close> establishes and every exchange
  keeps: the blocks have disjoint areas of the client's buffer, inside it, and lie inside their frames.
  Under it an exchange accesses nothing outside its buffers, sends what the client wrote and stores
  what came back.
\<close>

section \<open>Areas of the client's buffer\<close>

definition area_start :: "block_io \<Rightarrow> nat" where "area_start b = the (bi_iomap b)"
definition area_size :: "block_io \<Rightarrow> nat" where "area_size b = nat (bi_size b)"

definition spans :: "nat \<Rightarrow> nat \<Rightarrow> block_io list \<Rightarrow> bool" where
  "spans lo hi bs \<longleftrightarrow> lo \<le> hi \<and> sorted_wrt (\<lambda>a b. area_start a + area_size a \<le> area_start b) bs
     \<and> (\<forall>b \<in> set bs. bi_iomap b \<noteq> None \<and> lo \<le> area_start b \<and> area_start b + area_size b \<le> hi)"

lemma spans_append:
  "spans lo mid bs \<Longrightarrow> spans mid hi cs \<Longrightarrow> spans lo hi (bs @ cs)"
  unfolding spans_def sorted_wrt_append by fastforce

lemma spans_Nil [simp]: "spans lo hi [] \<longleftrightarrow> lo \<le> hi"
  by (simp add: spans_def)

lemma spans_appendD: "spans lo hi (bs @ cs) \<Longrightarrow> spans lo hi bs \<and> spans lo hi cs"
  unfolding spans_def sorted_wrt_append by auto

definition total_bytes :: "block_io list \<Rightarrow> nat" where
  "total_bytes bs = (\<Sum>b\<leftarrow>bs. area_size b)"

text \<open>Attaching only sets pointers.\<close>

definition same_block :: "block_io \<Rightarrow> block_io \<Rightarrow> bool" where
  "same_block a b \<longleftrightarrow> bi_offset a = bi_offset b \<and> bi_size a = bi_size b \<and> bi_slave a = bi_slave b"

lemma attach_blocks_spans:
  assumes "attach_blocks out pos bs slaves = (cs, pos', slaves')"
  shows "spans pos pos' cs \<and> pos' = pos + total_bytes bs \<and> list_all2 same_block bs cs \<and> length slaves' = length slaves"
  using assms
proof (induction bs arbitrary: pos slaves cs pos' slaves')
  case Nil
  then show ?case by (simp add: total_bytes_def)
next
  case (Cons b bs)
  obtain ds p sl where rest: "attach_blocks out (pos + nat (bi_size b)) bs
      (slaves[bi_slave b := (if out then (slaves ! bi_slave b)\<lparr>sv_output := (sv_output (slaves ! bi_slave b))\<lparr>pi_data := Some pos\<rparr>\<rparr>
         else (slaves ! bi_slave b)\<lparr>sv_input := (sv_input (slaves ! bi_slave b))\<lparr>pi_data := Some pos\<rparr>\<rparr>)]) = (ds, p, sl)"
    by (metis prod_cases3)
  then have eq: "cs = b\<lparr>bi_iomap := Some pos\<rparr> # ds" "pos' = p" "slaves' = sl"
    using Cons.prems by (auto simp: Let_def)
  have ih: "spans (pos + nat (bi_size b)) p ds" "p = pos + nat (bi_size b) + total_bytes bs" "list_all2 same_block bs ds"
      "length sl = length slaves"
    using Cons.IH [OF rest] by auto
  moreover have "spans pos (pos + nat (bi_size b)) [b\<lparr>bi_iomap := Some pos\<rparr>]"
    by (simp add: spans_def area_start_def area_size_def)
  moreover have "same_block b (b\<lparr>bi_iomap := Some pos\<rparr>)" by (simp add: same_block_def)
  ultimately show ?case
    using spans_append [of pos "pos + nat (bi_size b)" "[b\<lparr>bi_iomap := Some pos\<rparr>]" p ds]
    by (simp add: eq total_bytes_def area_size_def)
qed

definition same_frame :: "bool \<Rightarrow> pi_frame \<Rightarrow> pi_frame \<Rightarrow> bool" where
  "same_frame out f g \<longleftrightarrow> (\<exists>cs. list_all2 same_block (if out then pf_outputs f else pf_inputs f) cs
     \<and> g = (if out then f\<lparr>pf_outputs := cs\<rparr> else f\<lparr>pf_inputs := cs\<rparr>))"

abbreviation blocks_in :: "bool \<Rightarrow> pi_frame list \<Rightarrow> block_io list" where
  "blocks_in out fs \<equiv> concat (map (\<lambda>f. if out then pf_outputs f else pf_inputs f) fs)"

lemma attach_frames_spans:
  assumes "attach_frames out pos fs slaves = (gs, pos', slaves')"
  shows "spans pos pos' (blocks_in out gs) \<and> pos' = pos + total_bytes (blocks_in out fs)
    \<and> list_all2 (same_frame out) fs gs \<and> length slaves' = length slaves"
  using assms
proof (induction fs arbitrary: pos slaves gs pos' slaves')
  case Nil
  then show ?case by (simp add: total_bytes_def)
next
  case (Cons f fs)
  obtain cs p sl where first: "attach_blocks out pos (if out then pf_outputs f else pf_inputs f) slaves = (cs, p, sl)"
    by (metis prod_cases3)
  obtain hs p' sl' where rest: "attach_frames out p fs sl = (hs, p', sl')" by (metis prod_cases3)
  have eq: "gs = (if out then f\<lparr>pf_outputs := cs\<rparr> else f\<lparr>pf_inputs := cs\<rparr>) # hs" "pos' = p'" "slaves' = sl'"
    using Cons.prems first rest by (auto simp: Let_def)
  note a = attach_blocks_spans [OF first] and b = Cons.IH [OF rest]
  show ?case
    using a b spans_append [of pos p cs p' "blocks_in out hs"]
    by (auto simp: eq total_bytes_def same_frame_def)
qed

lemma same_frame_other:
  "same_frame True f g \<Longrightarrow> pf_inputs g = pf_inputs f" "same_frame False f g \<Longrightarrow> pf_outputs g = pf_outputs f"
  by (auto simp: same_frame_def)

lemma attach_client_spans:
  assumes "attach_client fs slaves = (gs, slaves')"
  shows "spans 0 (total_bytes (blocks_in False fs) + total_bytes (blocks_in True fs)) (blocks_in False gs @ blocks_in True gs)
    \<and> length slaves' = length slaves
    \<and> list_all2 (\<lambda>f g. list_all2 same_block (pf_inputs f) (pf_inputs g) \<and> list_all2 same_block (pf_outputs f) (pf_outputs g)
        \<and> g = f\<lparr>pf_inputs := pf_inputs g, pf_outputs := pf_outputs g\<rparr>) fs gs"
proof -
  obtain hs p sl where ins: "attach_frames False 0 fs slaves = (hs, p, sl)" by (metis prod_cases3)
  obtain p' where outs: "attach_frames True p hs sl = (gs, p', slaves')"
    using assms ins by (cases "attach_frames True p hs sl") (auto simp: attach_client_def Let_def)
  note a = attach_frames_spans [OF ins] and b = attach_frames_spans [OF outs]
  have "list_all2 (\<lambda>f h. pf_outputs h = pf_outputs f) fs hs" "list_all2 (\<lambda>h g. pf_inputs g = pf_inputs h) hs gs"
    using a b same_frame_other by (auto elim: list_all2_mono)
  then have "map pf_outputs hs = map pf_outputs fs" "map pf_inputs gs = map pf_inputs hs"
    by (auto simp: list_all2_conv_all_nth intro: nth_equalityI)
  then have same: "blocks_in True hs = blocks_in True fs" "blocks_in False gs = blocks_in False hs" by simp_all
  have "list_all2 (\<lambda>f g. list_all2 same_block (pf_inputs f) (pf_inputs g) \<and> list_all2 same_block (pf_outputs f) (pf_outputs g)
        \<and> g = f\<lparr>pf_inputs := pf_inputs g, pf_outputs := pf_outputs g\<rparr>) fs gs"
    by (rule list_all2_trans [OF _ conjunct1 [OF conjunct2 [OF conjunct2 [OF a]]] conjunct1 [OF conjunct2 [OF conjunct2 [OF b]]]])
      (auto simp: same_frame_def)
  then show ?thesis
    using a b same spans_append [of 0 p "blocks_in False gs" p' "blocks_in True gs"] by auto
qed

section \<open>Copying blocks\<close>

text \<open>Copies of \<open>n\<close> bytes from offset \<open>p\<close> to offset \<open>q\<close>, one after the other.\<close>

fun copy_all :: "(nat \<times> nat \<times> nat) list \<Rightarrow> 'a list \<Rightarrow> 'a list \<Rightarrow> 'a list option" where
  "copy_all [] src dst = Some dst"
| "copy_all ((p, q, n) # cs) src dst = do {
     d \<leftarrow> mem_read src p n;
     dst \<leftarrow> mem_write dst q d;
     copy_all cs src dst
   }"

lemma nth_peek: "off + n \<le> length b \<Longrightarrow> j < n \<Longrightarrow> peek b off n ! j = b ! (off + j)"
  by (simp add: peek_def)

lemma copy_all_spec:
  assumes "\<forall>(p, q, n) \<in> set cs. p + n \<le> length src \<and> q + n \<le> length dst"
    and "sorted_wrt (\<lambda>(p, q, n) (p', q', n'). q + n \<le> q') cs"
  shows "\<exists>dst'. copy_all cs src dst = Some dst' \<and> length dst' = length dst
    \<and> (\<forall>(p, q, n) \<in> set cs. \<forall>j < n. dst' ! (q + j) = src ! (p + j))
    \<and> (\<forall>k < length dst. (\<forall>(p, q, n) \<in> set cs. k < q \<or> q + n \<le> k) \<longrightarrow> dst' ! k = dst ! k)"
  using assms
proof (induction cs arbitrary: dst)
  case (Cons c cs)
  obtain p q n where c: "c = (p, q, n)" by (metis prod_cases3)
  have b: "p + n \<le> length src" "q + n \<le> length dst" using Cons.prems by (auto simp: c)
  let ?d = "poke dst q (peek src p n)"
  have len: "length ?d = length dst" using b by simp
  obtain dst' where dst': "copy_all cs src ?d = Some dst'" "length dst' = length dst"
      "\<forall>(p, q, n) \<in> set cs. \<forall>j < n. dst' ! (q + j) = src ! (p + j)"
      "\<forall>k < length dst. (\<forall>(p, q, n) \<in> set cs. k < q \<or> q + n \<le> k) \<longrightarrow> dst' ! k = ?d ! k"
    using Cons.IH [of ?d] Cons.prems unfolding len by auto
  have own: "dst' ! (q + j) = src ! (p + j)" if "j < n" for j
  proof -
    have "\<forall>(p', q', n') \<in> set cs. q + n \<le> q'" using Cons.prems(2) by (simp add: c)
    then have "\<forall>(p', q', n') \<in> set cs. q + j < q' \<or> q' + n' \<le> q + j"
      using that by (auto elim!: ballE)
    moreover have "q + j < length dst" using b that by simp
    ultimately have "dst' ! (q + j) = ?d ! (q + j)" using dst'(4) by blast
    then show ?thesis using b that by (simp add: nth_poke nth_peek)
  qed
  have other: "dst' ! k = dst ! k" if "k < length dst" "k < q \<or> q + n \<le> k" "\<forall>(p, q, n) \<in> set cs. k < q \<or> q + n \<le> k" for k
  proof -
    have "dst' ! k = ?d ! k" using dst'(4) that by blast
    then show ?thesis using b that by simp
  qed
  have "copy_all (c # cs) src dst = Some dst'" using b dst'(1) by (simp add: c)
  moreover have "\<forall>(p, q, n) \<in> set (c # cs). \<forall>j < n. dst' ! (q + j) = src ! (p + j)" using own dst'(3) by (simp add: c)
  moreover have "\<forall>k < length dst. (\<forall>(p, q, n) \<in> set (c # cs). k < q \<or> q + n \<le> k) \<longrightarrow> dst' ! k = dst ! k"
    using other by (simp add: c)
  ultimately show ?case using dst'(2) by blast
qed simp

definition store_copy :: "block_io \<Rightarrow> nat \<times> nat \<times> nat" where
  "store_copy b = (unat (bi_offset b), area_start b, area_size b)"

definition gather_copy :: "block_io \<Rightarrow> nat \<times> nat \<times> nat" where
  "gather_copy b = (area_start b, unat (bi_offset b), area_size b)"

lemma store_inputs_copies:
  "\<forall>x \<in> set bs. bi_iomap x \<noteq> None \<Longrightarrow>
   store_inputs data bs b = map_option (\<lambda>iomap. b\<lparr>bs_iomap := iomap\<rparr>) (copy_all (map store_copy bs) data (bs_iomap b))"
proof (induction bs arbitrary: b)
  case (Cons x bs)
  then obtain pos where "bi_iomap x = Some pos" by auto
  moreover have "store_inputs data bs = (\<lambda>b. map_option (\<lambda>iomap. b\<lparr>bs_iomap := iomap\<rparr>) (copy_all (map store_copy bs) data (bs_iomap b)))"
    using Cons by (intro ext) simp
  ultimately show ?case
    by (cases "mem_read data (unat (bi_offset x)) (nat (bi_size x))";
        cases "mem_write (bs_iomap b) pos (peek data (unat (bi_offset x)) (nat (bi_size x)))")
      (auto simp: store_input_def store_copy_def [of x] area_start_def [of x] area_size_def [of x] mem_read_eq_Some_iff)
qed simp

lemma gather_outputs_copies:
  "\<forall>x \<in> set bs. bi_iomap x \<noteq> None \<Longrightarrow> gather_outputs iomap bs buffer = copy_all (map gather_copy bs) iomap buffer"
proof (induction bs arbitrary: buffer)
  case (Cons x bs)
  then obtain pos where "bi_iomap x = Some pos" by auto
  moreover have "gather_outputs iomap bs = copy_all (map gather_copy bs) iomap" using Cons by (intro ext) simp
  ultimately show ?case by (simp add: gather_copy_def [of x] area_start_def [of x] area_size_def [of x])
qed simp

section \<open>The invariant of a mapped bus\<close>

definition frame_mapped :: "nat \<Rightarrow> pi_frame \<Rightarrow> bool" where
  "frame_mapped n f \<longleftrightarrow> (let d = pf_description f
     in 0 \<le> pdo_size d \<and> pdo_size d \<le> logical_size d \<and> logical_size d < 65536
      \<and> length (pf_output_buffer f) = nat (logical_size d)
      \<and> (\<forall>b \<in> set (pf_inputs f) \<union> set (pf_outputs f). unat (bi_offset b) + area_size b \<le> nat (pdo_size d))
      \<and> sorted_wrt (\<lambda>a b. unat (bi_offset a) + area_size a \<le> unat (bi_offset b)) (pf_outputs f)
      \<and> (\<forall>ms \<in> set (pf_read_status f) \<union> set (pf_write_status f).
           unat (st_byte_offset ms) < nat (logical_size d) \<and> st_slave ms < n))"

definition mapped :: "bus \<Rightarrow> bool" where
  "mapped b \<longleftrightarrow> spans 0 (length (bs_iomap b)) (blocks_in False (bs_pi_frames b) @ blocks_in True (bs_pi_frames b))
     \<and> list_all (frame_mapped (length (bs_slaves b))) (bs_pi_frames b)"

text \<open>What an exchange may change of a slave: the flags of its mailbox.\<close>

definition same_slaves :: "mslave list \<Rightarrow> mslave list \<Rightarrow> bool" where
  "same_slaves = list_all2 (\<lambda>s t. \<exists>r w. t = s\<lparr>sv_can_read := r, sv_can_write := w\<rparr>)"

lemma same_slaves_refl [simp]: "same_slaves ss ss"
  unfolding same_slaves_def
proof (rule list.rel_refl)
  show "\<exists>r w. s = s\<lparr>sv_can_read := r, sv_can_write := w\<rparr>" for s :: mslave
    by (intro exI [of _ "sv_can_read s"] exI [of _ "sv_can_write s"]) simp
qed

lemma same_slaves_trans: "same_slaves a b \<Longrightarrow> same_slaves b c \<Longrightarrow> same_slaves a c"
  unfolding same_slaves_def by (rule list_all2_trans) (auto, blast)

lemma same_slaves_update:
  assumes "\<And>s. \<exists>r w. g s = s\<lparr>sv_can_read := r, sv_can_write := w\<rparr>"
  shows "same_slaves ss (ss[i := g (ss ! i)])"
proof -
  have "\<exists>r w. ss[i := g (ss ! i)] ! k = (ss ! k)\<lparr>sv_can_read := r, sv_can_write := w\<rparr>" if "k < length ss" for k
    using assms [of "ss ! i"] that same_slaves_refl [of "[ss ! k]"] by (cases "k = i") (auto simp: same_slaves_def)
  then show ?thesis by (simp add: same_slaves_def list_all2_conv_all_nth)
qed

lemma flag_updates:
  "\<exists>r w. s\<lparr>sv_can_read := v\<rparr> = s\<lparr>sv_can_read := r, sv_can_write := w\<rparr>"
  "\<exists>r w. s\<lparr>sv_can_write := v\<rparr> = s\<lparr>sv_can_read := r, sv_can_write := w\<rparr>"
  by (intro exI [of _ v] exI [of _ "sv_can_write s"], simp)
    (intro exI [of _ "sv_can_read s"] exI [of _ v], simp)

lemma same_slaves_flags:
  "same_slaves (bs_slaves b) (bs_slaves (upd_slave i (\<lambda>s. s\<lparr>sv_can_read := v\<rparr>) b))"
  "same_slaves (bs_slaves b) (bs_slaves (upd_slave i (\<lambda>s. s\<lparr>sv_can_write := v\<rparr>) b))"
  using same_slaves_update [OF flag_updates(1)] same_slaves_update [OF flag_updates(2)] by (simp_all add: upd_slave_def)

lemma same_slaves_length: "same_slaves ss ts \<Longrightarrow> length ts = length ss"
  by (auto simp: same_slaves_def dest: list_all2_lengthD)

section \<open>Storing a reply\<close>

definition inside :: "block_io list \<Rightarrow> nat \<Rightarrow> bool" where
  "inside bs k \<longleftrightarrow> (\<exists>b \<in> set bs. area_start b \<le> k \<and> k < area_start b + area_size b)"

lemma inside_append: "inside (bs @ cs) k \<longleftrightarrow> inside bs k \<or> inside cs k"
  by (auto simp: inside_def)

lemma spans_apart_left:
  assumes "spans lo hi (bs @ cs)" and "x \<in> set bs" and "j < area_size x"
  shows "\<not> inside cs (area_start x + j)" and "area_start x + j < hi"
proof -
  have "area_start x + area_size x \<le> area_start c" if "c \<in> set cs" for c
    using assms(1,2) that by (simp add: spans_def sorted_wrt_append)
  then show "\<not> inside cs (area_start x + j)" using assms(3) unfolding inside_def by fastforce
  have "area_start x + area_size x \<le> hi" using assms(1,2) by (simp add: spans_def)
  then show "area_start x + j < hi" using assms(3) by simp
qed

lemma spans_apart_right:
  assumes "spans lo hi (bs @ cs)" and "x \<in> set cs" and "j < area_size x"
  shows "\<not> inside bs (area_start x + j)" and "area_start x + j < hi"
proof -
  have "area_start c + area_size c \<le> area_start x" if "c \<in> set bs" for c
    using assms(1,2) that by (simp add: spans_def sorted_wrt_append)
  then show "\<not> inside bs (area_start x + j)" unfolding inside_def by fastforce
  have "area_start x + area_size x \<le> hi" using assms(1,2) by (simp add: spans_def)
  then show "area_start x + j < hi" using assms(3) by simp
qed

lemma store_inputs_spec:
  assumes "spans 0 (length (bs_iomap b)) bs" and "\<forall>x \<in> set bs. unat (bi_offset x) + area_size x \<le> length data"
  shows "\<exists>io. store_inputs data bs b = Some (b\<lparr>bs_iomap := io\<rparr>) \<and> length io = length (bs_iomap b)
    \<and> (\<forall>x \<in> set bs. \<forall>j < area_size x. io ! (area_start x + j) = data ! (unat (bi_offset x) + j))
    \<and> (\<forall>k < length (bs_iomap b). \<not> inside bs k \<longrightarrow> io ! k = bs_iomap b ! k)"
proof -
  have 1: "\<forall>(p, q, n) \<in> set (map store_copy bs). p + n \<le> length data \<and> q + n \<le> length (bs_iomap b)"
    using assms by (auto simp: store_copy_def spans_def)
  have 2: "sorted_wrt (\<lambda>(p, q, n) (p', q', n'). q + n \<le> q') (map store_copy bs)"
    using assms(1) by (simp add: sorted_wrt_map store_copy_def spans_def)
  obtain io where io: "copy_all (map store_copy bs) data (bs_iomap b) = Some io" "length io = length (bs_iomap b)"
      "\<forall>(p, q, n) \<in> set (map store_copy bs). \<forall>j < n. io ! (q + j) = data ! (p + j)"
      "\<forall>k < length (bs_iomap b). (\<forall>(p, q, n) \<in> set (map store_copy bs). k < q \<or> q + n \<le> k) \<longrightarrow> io ! k = bs_iomap b ! k"
    using copy_all_spec [OF 1 2] by blast
  have "store_inputs data bs b = Some (b\<lparr>bs_iomap := io\<rparr>)"
    using store_inputs_copies [of bs data b] io(1) assms(1) by (simp add: spans_def)
  moreover have "\<forall>k < length (bs_iomap b). \<not> inside bs k \<longrightarrow> io ! k = bs_iomap b ! k"
    using io(4) by (auto simp: inside_def store_copy_def not_less not_le)
  ultimately show ?thesis using io(2,3) by (auto simp: store_copy_def)
qed

lemma status_bit_Some: "unat (st_byte_offset ms) < length data \<Longrightarrow> \<exists>v. status_bit data ms = Some v"
  by (simp add: status_bit_def)

lemma store_read_status_spec:
  "\<forall>ms \<in> set mss. unat (st_byte_offset ms) < length data \<Longrightarrow>
   \<exists>ss. store_read_status data mss b = Some (b\<lparr>bs_slaves := ss\<rparr>) \<and> same_slaves (bs_slaves b) ss"
proof (induction mss arbitrary: b)
  case Nil
  then show ?case by (intro exI [of _ "bs_slaves b"]) simp
next
  case (Cons ms mss)
  obtain v where v: "status_bit data ms = Some v" using status_bit_Some [of ms data] Cons.prems by auto
  let ?b = "upd_slave (st_slave ms) (\<lambda>s. s\<lparr>sv_can_read := v\<rparr>) b"
  have "same_slaves (bs_slaves b) (bs_slaves ?b)"
    by (rule same_slaves_flags)
  then show ?case
    using Cons.IH [of ?b] Cons.prems v same_slaves_trans by (fastforce simp: upd_slave_def)
qed

lemma store_write_status_spec:
  "\<forall>ms \<in> set mss. unat (st_byte_offset ms) < length data \<Longrightarrow>
   \<exists>ss. store_write_status data mss b = Some (b\<lparr>bs_slaves := ss\<rparr>) \<and> same_slaves (bs_slaves b) ss"
proof (induction mss arbitrary: b)
  case Nil
  then show ?case by (intro exI [of _ "bs_slaves b"]) simp
next
  case (Cons ms mss)
  obtain v where v: "status_bit data ms = Some v" using status_bit_Some [of ms data] Cons.prems by auto
  let ?b = "upd_slave (st_slave ms) (\<lambda>s. s\<lparr>sv_can_write := \<not> v\<rparr>) b"
  have "same_slaves (bs_slaves b) (bs_slaves ?b)"
    by (rule same_slaves_flags)
  then show ?case
    using Cons.IH [of ?b] Cons.prems v same_slaves_trans by (fastforce simp: upd_slave_def)
qed

lemma store_frame_spec:
  assumes "spans 0 (length (bs_iomap b)) (pf_inputs f)" and "frame_mapped n f"
    and "nat (logical_size (pf_description f)) \<le> length data"
  shows "\<exists>io ss. store_frame f data b = Some (b\<lparr>bs_iomap := io, bs_slaves := ss\<rparr>) \<and> length io = length (bs_iomap b)
    \<and> same_slaves (bs_slaves b) ss
    \<and> (\<forall>x \<in> set (pf_inputs f). \<forall>j < area_size x. io ! (area_start x + j) = data ! (unat (bi_offset x) + j))
    \<and> (\<forall>k < length (bs_iomap b). \<not> inside (pf_inputs f) k \<longrightarrow> io ! k = bs_iomap b ! k)"
proof -
  let ?d = "pf_description f"
  have le: "nat (pdo_size ?d) \<le> length data" using assms(2,3) by (auto simp: frame_mapped_def Let_def)
  have "\<forall>x \<in> set (pf_inputs f). unat (bi_offset x) + area_size x \<le> length data"
    using assms(2) le unfolding frame_mapped_def Let_def by (meson UnI1 order_trans)
  from store_inputs_spec [OF assms(1) this] obtain io where io: "store_inputs data (pf_inputs f) b = Some (b\<lparr>bs_iomap := io\<rparr>)"
      "length io = length (bs_iomap b)"
      "\<forall>x \<in> set (pf_inputs f). \<forall>j < area_size x. io ! (area_start x + j) = data ! (unat (bi_offset x) + j)"
      "\<forall>k < length (bs_iomap b). \<not> inside (pf_inputs f) k \<longrightarrow> io ! k = bs_iomap b ! k" by blast
  have st: "\<forall>ms \<in> set (pf_read_status f). unat (st_byte_offset ms) < length data"
      "\<forall>ms \<in> set (pf_write_status f). unat (st_byte_offset ms) < length data"
    using assms(2,3) unfolding frame_mapped_def Let_def by (meson UnI1 UnI2 order_less_le_trans)+
  obtain s1 where s1: "store_read_status data (pf_read_status f) (b\<lparr>bs_iomap := io\<rparr>) = Some (b\<lparr>bs_iomap := io, bs_slaves := s1\<rparr>)"
      "same_slaves (bs_slaves b) s1"
    using store_read_status_spec [OF st(1), of "b\<lparr>bs_iomap := io\<rparr>"] by auto
  obtain s2 where s2: "store_write_status data (pf_write_status f) (b\<lparr>bs_iomap := io, bs_slaves := s1\<rparr>)
      = Some (b\<lparr>bs_iomap := io, bs_slaves := s2\<rparr>)" "same_slaves s1 s2"
    using store_write_status_spec [OF st(2), of "b\<lparr>bs_iomap := io, bs_slaves := s1\<rparr>"] by auto
  show ?thesis
    using io s1 s2 same_slaves_trans [OF s1(2) s2(2)]
    by (intro exI [of _ io] exI [of _ s2]) (simp add: store_frame_def)
qed

section \<open>A cycle\<close>

text \<open>A link that answers every datagram with as many bytes as it carries, or reports that it is lost.\<close>

definition answers_sized :: "dreq \<Rightarrow> reply \<Rightarrow> bool" where
  "answers_sized req r = (case r of Reply data wkc t \<Rightarrow> length data = unat (snd (snd (snd req))) | NoReply st \<Rightarrow> st \<noteq> OK)"

definition sized_env :: "'n bus_env \<Rightarrow> bool" where
  "sized_env env \<longleftrightarrow> (\<forall>reqs n. list_all2 answers_sized reqs (fst (be_exchange env reqs n)))"

text \<open>The datagram of a frame, with the buffer it carries.\<close>

definition lrw_pending :: "on_err \<Rightarrow> nat \<Rightarrow> pi_frame \<Rightarrow> pending" where
  "lrw_pending error fi f =
     \<lparr>pd_request = (LRW, lf_address (pf_description f), Some (pf_output_buffer f), of_int (logical_size (pf_description f))),
      pd_process = process_lrw fi, pd_error = error\<rparr>"

text \<open>What the byte at offset \<open>j\<close> of an input block becomes.\<close>

definition received :: "pi_frame \<Rightarrow> reply \<Rightarrow> block_io \<Rightarrow> bytes \<Rightarrow> nat \<Rightarrow> u8" where
  "received f r x io j =
     (case r of
        Reply data wkc t \<Rightarrow> if wkc = pf_expected_lrw_wkc f then data ! (unat (bi_offset x) + j) else io ! (area_start x + j)
      | NoReply st \<Rightarrow> io ! (area_start x + j))"

definition lrw_state :: "pi_frame \<Rightarrow> reply \<Rightarrow> DatagramState" where
  "lrw_state f r = (case r of Reply data wkc t \<Rightarrow> if wkc = pf_expected_lrw_wkc f then OK else INVALID_WKC | NoReply st \<Rightarrow> st)"

lemma process_lrw_spec:
  assumes f: "f = bs_pi_frames b ! fi" and "spans 0 (length (bs_iomap b)) (pf_inputs f)" and "frame_mapped n f"
    and r: "answers_sized (pd_request (lrw_pending error fi f)) (Reply data wkc t)"
  shows "\<exists>io ss. process_lrw fi data wkc t b = Some (lrw_state f (Reply data wkc t), b\<lparr>bs_iomap := io, bs_slaves := ss\<rparr>)
    \<and> length io = length (bs_iomap b) \<and> same_slaves (bs_slaves b) ss
    \<and> (\<forall>x \<in> set (pf_inputs f). \<forall>j < area_size x. io ! (area_start x + j) = received f (Reply data wkc t) x (bs_iomap b) j)
    \<and> (\<forall>k < length (bs_iomap b). \<not> inside (pf_inputs f) k \<longrightarrow> io ! k = bs_iomap b ! k)"
proof (cases "wkc = pf_expected_lrw_wkc f")
  case True
  have bounds: "0 \<le> logical_size (pf_description f)" "logical_size (pf_description f) < 65536"
    using assms(3) by (auto simp: frame_mapped_def Let_def)
  then have "unat (of_int (logical_size (pf_description f)) :: u16) = nat (logical_size (pf_description f))"
    by (simp add: unsigned_of_int take_bit_int_eq_self)
  then have "nat (logical_size (pf_description f)) \<le> length data"
    using r by (simp add: answers_sized_def lrw_pending_def)
  from store_frame_spec [OF assms(2,3) this] obtain io ss where
      "store_frame f data b = Some (b\<lparr>bs_iomap := io, bs_slaves := ss\<rparr>)" "length io = length (bs_iomap b)"
      "same_slaves (bs_slaves b) ss"
      "\<forall>x \<in> set (pf_inputs f). \<forall>j < area_size x. io ! (area_start x + j) = data ! (unat (bi_offset x) + j)"
      "\<forall>k < length (bs_iomap b). \<not> inside (pf_inputs f) k \<longrightarrow> io ! k = bs_iomap b ! k" by blast
  then show ?thesis
    using True
    by (intro exI [of _ io] exI [of _ ss]) (simp add: process_lrw_def f [symmetric] Let_def lrw_state_def received_def)
next
  case False
  then show ?thesis
    by (intro exI [of _ "bs_iomap b"] exI [of _ "bs_slaves b"])
      (simp add: process_lrw_def f [symmetric] Let_def lrw_state_def received_def)
qed

lemma settle_lrw:
  assumes "spans 0 (length (bs_iomap b)) (concat (map (\<lambda>fi. pf_inputs (bs_pi_frames b ! fi)) ks))"
    and "\<forall>fi \<in> set ks. frame_mapped n (bs_pi_frames b ! fi)"
    and "list_all2 (\<lambda>fi. answers_sized (pd_request (lrw_pending error fi (bs_pi_frames b ! fi)))) ks rs"
  shows "\<exists>io ss. settle_all (map (\<lambda>fi. lrw_pending error fi (bs_pi_frames b ! fi)) ks) rs b =
      Some (map2 (\<lambda>fi. lrw_state (bs_pi_frames b ! fi)) ks rs, b\<lparr>bs_iomap := io, bs_slaves := ss\<rparr>)
    \<and> length io = length (bs_iomap b) \<and> same_slaves (bs_slaves b) ss
    \<and> list_all2 (\<lambda>fi r. \<forall>x \<in> set (pf_inputs (bs_pi_frames b ! fi)). \<forall>j < area_size x.
         io ! (area_start x + j) = received (bs_pi_frames b ! fi) r x (bs_iomap b) j) ks rs
    \<and> (\<forall>k < length (bs_iomap b). \<not> inside (concat (map (\<lambda>fi. pf_inputs (bs_pi_frames b ! fi)) ks)) k \<longrightarrow> io ! k = bs_iomap b ! k)"
  using assms
proof (induction ks arbitrary: b rs)
  case Nil
  then show ?case by (intro exI [of _ "bs_iomap b"] exI [of _ "bs_slaves b"]) simp
next
  case (Cons fi ks)
  let ?f = "bs_pi_frames b ! fi" and ?rest = "concat (map (\<lambda>fi. pf_inputs (bs_pi_frames b ! fi)) ks)"
  obtain r rs' where rs: "rs = r # rs'" "answers_sized (pd_request (lrw_pending error fi ?f)) r"
      "list_all2 (\<lambda>fi. answers_sized (pd_request (lrw_pending error fi (bs_pi_frames b ! fi)))) ks rs'"
    using Cons.prems(3) by (auto simp: list_all2_Cons1)
  have sp: "spans 0 (length (bs_iomap b)) (pf_inputs ?f)" "spans 0 (length (bs_iomap b)) ?rest"
    using spans_appendD [OF Cons.prems(1) [simplified]] by simp_all
  obtain io1 s1 where 1: "length io1 = length (bs_iomap b)" "same_slaves (bs_slaves b) s1"
      "\<forall>x \<in> set (pf_inputs ?f). \<forall>j < area_size x. io1 ! (area_start x + j) = received ?f r x (bs_iomap b) j"
      "\<forall>k < length (bs_iomap b). \<not> inside (pf_inputs ?f) k \<longrightarrow> io1 ! k = bs_iomap b ! k"
      "\<And>ps. settle_all (lrw_pending error fi ?f # ps) (r # rs') b =
        Option.bind (settle_all ps rs' (b\<lparr>bs_iomap := io1, bs_slaves := s1\<rparr>)) (\<lambda>(sts, b). Some (lrw_state ?f r # sts, b))"
  proof (cases r)
    case (Reply data wkc t)
    obtain io1 s1 where p: "process_lrw fi data wkc t b = Some (lrw_state ?f r, b\<lparr>bs_iomap := io1, bs_slaves := s1\<rparr>)"
        "length io1 = length (bs_iomap b)" "same_slaves (bs_slaves b) s1"
        "\<forall>x \<in> set (pf_inputs ?f). \<forall>j < area_size x. io1 ! (area_start x + j) = received ?f r x (bs_iomap b) j"
        "\<forall>k < length (bs_iomap b). \<not> inside (pf_inputs ?f) k \<longrightarrow> io1 ! k = bs_iomap b ! k"
      using process_lrw_spec [OF refl sp(1) _ rs(2) [unfolded Reply], of n] Cons.prems(2) Reply by auto
    have "settle_all (lrw_pending error fi ?f # ps) (r # rs') b =
        Option.bind (settle_all ps rs' (b\<lparr>bs_iomap := io1, bs_slaves := s1\<rparr>)) (\<lambda>(sts, b). Some (lrw_state ?f r # sts, b))" for ps
      using p(1) by (simp add: lrw_pending_def Reply)
    then show thesis by (rule that [OF p(2-5)])
  next
    case (NoReply st)
    then show thesis
      using that [of "bs_iomap b" "bs_slaves b"] by (simp add: received_def lrw_state_def)
  qed
  let ?b = "b\<lparr>bs_iomap := io1, bs_slaves := s1\<rparr>"
  obtain io s2 where 2: "settle_all (map (\<lambda>fi. lrw_pending error fi (bs_pi_frames b ! fi)) ks) rs' ?b =
      Some (map2 (\<lambda>fi. lrw_state (bs_pi_frames b ! fi)) ks rs', b\<lparr>bs_iomap := io, bs_slaves := s2\<rparr>)"
      "length io = length (bs_iomap b)" "same_slaves s1 s2"
      "list_all2 (\<lambda>fi r. \<forall>x \<in> set (pf_inputs (bs_pi_frames b ! fi)). \<forall>j < area_size x.
         io ! (area_start x + j) = received (bs_pi_frames b ! fi) r x io1 j) ks rs'"
      "\<forall>k < length (bs_iomap b). \<not> inside ?rest k \<longrightarrow> io ! k = io1 ! k"
    using Cons.IH [of ?b rs'] sp(2) Cons.prems(2) rs(3) 1(1) by auto
  have own: "io ! (area_start x + j) = received ?f r x (bs_iomap b) j" if "x \<in> set (pf_inputs ?f)" "j < area_size x" for x j
  proof -
    have "\<not> inside ?rest (area_start x + j)" "area_start x + j < length (bs_iomap b)"
      using spans_apart_left [OF Cons.prems(1) [simplified] that] by simp_all
    then show ?thesis using 2(5) 1(3) that by simp
  qed
  have keep: "received (bs_pi_frames b ! fi') r' x io1 j = received (bs_pi_frames b ! fi') r' x (bs_iomap b) j"
    if "fi' \<in> set ks" "x \<in> set (pf_inputs (bs_pi_frames b ! fi'))" "j < area_size x" for fi' r' x j
  proof -
    have "x \<in> set ?rest" using that by auto
    then have "\<not> inside (pf_inputs ?f) (area_start x + j)" "area_start x + j < length (bs_iomap b)"
      using spans_apart_right [OF Cons.prems(1) [simplified] _ that(3)] by simp_all
    then show ?thesis using 1(4) by (simp add: received_def split: reply.split)
  qed
  have "list_all2 (\<lambda>fi r. \<forall>x \<in> set (pf_inputs (bs_pi_frames b ! fi)). \<forall>j < area_size x.
         io ! (area_start x + j) = received (bs_pi_frames b ! fi) r x (bs_iomap b) j) ks rs'"
    using 2(4) by (rule list.rel_mono_strong) (simp add: keep)
  moreover have "\<forall>k < length (bs_iomap b). \<not> inside (pf_inputs ?f @ ?rest) k \<longrightarrow> io ! k = bs_iomap b ! k"
    using 1(4) 2(5) by (simp add: inside_append)
  ultimately show ?case
    using 1(2,5) 2(1,2) own same_slaves_trans [OF 1(2) 2(3)] rs(1)
    by (intro exI [of _ io] exI [of _ s2]) simp
qed

subsection \<open>Gathering the outputs\<close>

lemma gather_outputs_spec:
  assumes "spans 0 (length io) (pf_outputs f)" and "frame_mapped n f"
  shows "\<exists>buf. gather_outputs io (pf_outputs f) (pf_output_buffer f) = Some buf
    \<and> length buf = length (pf_output_buffer f)
    \<and> (\<forall>x \<in> set (pf_outputs f). \<forall>j < area_size x. buf ! (unat (bi_offset x) + j) = io ! (area_start x + j))"
proof -
  have size: "nat (pdo_size (pf_description f)) \<le> length (pf_output_buffer f)"
    using assms(2) by (simp add: frame_mapped_def Let_def nat_mono)
  have in_frame: "\<forall>b \<in> set (pf_outputs f). unat (bi_offset b) + area_size b \<le> nat (pdo_size (pf_description f))"
    and sorted: "sorted_wrt (\<lambda>a b. unat (bi_offset a) + area_size a \<le> unat (bi_offset b)) (pf_outputs f)"
    using assms(2) by (simp_all add: frame_mapped_def Let_def)
  have 1: "\<forall>(p, q, n) \<in> set (map gather_copy (pf_outputs f)). p + n \<le> length io \<and> q + n \<le> length (pf_output_buffer f)"
    using assms(1) in_frame size by (fastforce simp: gather_copy_def spans_def)
  have 2: "sorted_wrt (\<lambda>(p, q, n) (p', q', n'). q + n \<le> q') (map gather_copy (pf_outputs f))"
    using sorted by (simp add: sorted_wrt_map gather_copy_def)
  obtain buf where "copy_all (map gather_copy (pf_outputs f)) io (pf_output_buffer f) = Some buf"
      "length buf = length (pf_output_buffer f)"
      "\<forall>(p, q, n) \<in> set (map gather_copy (pf_outputs f)). \<forall>j < n. buf ! (q + j) = io ! (p + j)"
    using copy_all_spec [OF 1 2] by blast
  then show ?thesis
    using gather_outputs_copies [of "pf_outputs f" io "pf_output_buffer f"] assms(1)
    by (auto simp: gather_copy_def spans_def)
qed

definition filled :: "bytes \<Rightarrow> pi_frame \<Rightarrow> pi_frame" where
  "filled io f = f\<lparr>pf_output_buffer := the (gather_outputs io (pf_outputs f) (pf_output_buffer f))\<rparr>"

lemma filled_simps [simp]:
  "pf_inputs (filled io f) = pf_inputs f" "pf_outputs (filled io f) = pf_outputs f"
  "pf_description (filled io f) = pf_description f" "pf_expected_lrw_wkc (filled io f) = pf_expected_lrw_wkc f"
  "pf_read_status (filled io f) = pf_read_status f" "pf_write_status (filled io f) = pf_write_status f"
  by (simp_all add: filled_def)

lemma received_filled [simp]: "received (filled io f) = received f" "lrw_state (filled io f) = lrw_state f"
  by (auto simp: received_def lrw_state_def fun_eq_iff split: reply.split)

lemma filled_mapped:
  assumes "spans 0 (length io) (pf_outputs f)" and "frame_mapped n f"
  shows "frame_mapped n (filled io f)"
proof -
  have "length (pf_output_buffer (filled io f)) = length (pf_output_buffer f)"
    using gather_outputs_spec [OF assms] by (auto simp: filled_def)
  then show ?thesis using assms(2) by (simp add: frame_mapped_def Let_def)
qed

text \<open>The state after the first \<open>k\<close> frames were queued.\<close>

lemma seqE_append: "seqE (fs @ gs) = thenE (seqE fs) (seqE gs)"
proof (induction fs)
  case Nil
  then show ?case by (simp add: thenE_def bindE_def retE_def fun_eq_iff)
next
  case (Cons f fs)
  have "thenE f (thenE (seqE fs) (seqE gs)) m = thenE (thenE f (seqE fs)) (seqE gs) m" for m
    by (cases "f m") (auto simp: thenE_def bindE_def split: sum.split)
  then show ?case by (simp add: Cons fun_eq_iff)
qed

definition queue_lrw :: "on_err \<Rightarrow> nat \<Rightarrow> ('n, unit) act" where
  "queue_lrw error fi = bindE (busE (\<lambda>b. bs_pi_frames b ! fi)) (\<lambda>f. bindE (fill_buffer fi) (\<lambda>buffer. link_add
       \<lparr>pd_request = (LRW, lf_address (pf_description f), Some buffer, of_int (logical_size (pf_description f))),
        pd_process = process_lrw fi, pd_error = error\<rparr>))"

lemma queue_lrw_step:
  assumes "gather_outputs (bs_iomap (mt_bus m)) (pf_outputs f) (pf_output_buffer f) \<noteq> None"
    and "bs_pi_frames (mt_bus m) ! fi = f" and "length (mt_queue m) < 255"
  shows "queue_lrw error fi m = Some (Inr (), m\<lparr>mt_bus := (mt_bus m)\<lparr>bs_pi_frames := (bs_pi_frames (mt_bus m))[fi := filled (bs_iomap (mt_bus m)) f]\<rparr>,
      mt_queue := mt_queue m @ [lrw_pending error fi (filled (bs_iomap (mt_bus m)) f)]\<rparr>)"
  using assms by (auto simp: queue_lrw_def bindE_def busE_def fill_buffer_def link_add_def lrw_pending_def filled_def Let_def)

lemma after_fill_step:
  assumes "k < length fs"
  shows "(map g (take k fs) @ drop k fs) ! k = fs ! k"
    and "(map g (take k fs) @ drop k fs)[k := g (fs ! k)] = map g (take (Suc k) fs) @ drop (Suc k) fs"
  using assms by (simp_all add: nth_append list_update_append take_Suc_conv_app_nth Cons_nth_drop_Suc [symmetric])

lemma queue_frames:
  assumes "\<forall>f \<in> set (bs_pi_frames (mt_bus m)). gather_outputs (bs_iomap (mt_bus m)) (pf_outputs f) (pf_output_buffer f) \<noteq> None"
    and "k \<le> length (bs_pi_frames (mt_bus m))" and "length (mt_queue m) + k \<le> 255"
  shows "seqE (map (queue_lrw error) [0..<k]) m = Some (Inr (),
    m\<lparr>mt_bus := (mt_bus m)\<lparr>bs_pi_frames := map (filled (bs_iomap (mt_bus m))) (take k (bs_pi_frames (mt_bus m))) @ drop k (bs_pi_frames (mt_bus m))\<rparr>,
      mt_queue := mt_queue m @ map (\<lambda>fi. lrw_pending error fi (filled (bs_iomap (mt_bus m)) (bs_pi_frames (mt_bus m) ! fi))) [0..<k]\<rparr>)"
  using assms(2,3)
proof (induction k)
  case 0
  then show ?case by (simp add: retE_def)
next
  case (Suc k)
  let ?fs = "bs_pi_frames (mt_bus m)" and ?io = "bs_iomap (mt_bus m)"
  let ?m = "m\<lparr>mt_bus := (mt_bus m)\<lparr>bs_pi_frames := map (filled ?io) (take k ?fs) @ drop k ?fs\<rparr>,
      mt_queue := mt_queue m @ map (\<lambda>fi. lrw_pending error fi (filled ?io (?fs ! fi))) [0..<k]\<rparr>"
  have "seqE (map (queue_lrw error) [0..<k]) m = Some (Inr (), ?m)" using Suc by simp
  moreover have "queue_lrw error k ?m = Some (Inr (), ?m\<lparr>mt_bus := (mt_bus ?m)\<lparr>bs_pi_frames := (bs_pi_frames (mt_bus ?m))[k := filled ?io (?fs ! k)]\<rparr>,
      mt_queue := mt_queue ?m @ [lrw_pending error k (filled ?io (?fs ! k))]\<rparr>)"
    using queue_lrw_step [of ?m "?fs ! k" k error] Suc.prems assms(1) after_fill_step(1) [of k ?fs] by simp
  ultimately show ?case
    using Suc.prems after_fill_step(2) [of k ?fs "filled ?io"] by (simp add: seqE_append thenE_def bindE_def retE_def)
qed

lemma sendLogicalReadWrite_queues:
  assumes "\<forall>f \<in> set (bs_pi_frames (mt_bus m)). gather_outputs (bs_iomap (mt_bus m)) (pf_outputs f) (pf_output_buffer f) \<noteq> None"
    and "length (mt_queue m) + length (bs_pi_frames (mt_bus m)) \<le> 255" and "bs_dc_slave (mt_bus m) = None"
  shows "sendLogicalReadWrite env error m = Some (Inr (),
    m\<lparr>mt_bus := (mt_bus m)\<lparr>bs_pi_frames := map (filled (bs_iomap (mt_bus m))) (bs_pi_frames (mt_bus m))\<rparr>,
      mt_queue := mt_queue m @ map (\<lambda>fi. lrw_pending error fi (filled (bs_iomap (mt_bus m)) (bs_pi_frames (mt_bus m) ! fi)))
        [0..<length (bs_pi_frames (mt_bus m))]\<rparr>)"
proof -
  have "sendLogicalReadWrite env error m =
      thenE (seqE (map (queue_lrw error) [0..<length (bs_pi_frames (mt_bus m))])) (drift_if_dc env error) m"
    by (simp add: sendLogicalReadWrite_def for_frames_def queue_lrw_def [abs_def] thenE_def bindE_def busE_def)
  then show ?thesis
    using queue_frames [OF assms(1) le_refl assms(2)] assms(3)
    by (simp add: thenE_def bindE_def drift_if_dc_def busE_def retE_def)
qed

subsection \<open>The whole cycle\<close>

definition lrw_request :: "pi_frame \<Rightarrow> dreq" where
  "lrw_request f = (LRW, lf_address (pf_description f), Some (pf_output_buffer f), of_int (logical_size (pf_description f)))"

text \<open>The frame that is sent carries, at the place of every output, the bytes of its slave's area.\<close>

definition carries_outputs :: "bytes \<Rightarrow> pi_frame \<Rightarrow> pi_frame \<Rightarrow> bool" where
  "carries_outputs io f g \<longleftrightarrow> g = f\<lparr>pf_output_buffer := pf_output_buffer g\<rparr>
     \<and> length (pf_output_buffer g) = nat (logical_size (pf_description f))
     \<and> (\<forall>x \<in> set (pf_outputs f). \<forall>j < area_size x. pf_output_buffer g ! (unat (bi_offset x) + j) = io ! (area_start x + j))"

definition stores_inputs :: "bytes \<Rightarrow> bytes \<Rightarrow> pi_frame \<Rightarrow> reply \<Rightarrow> bool" where
  "stores_inputs io io' f r \<longleftrightarrow>
     (\<forall>x \<in> set (pf_inputs f). \<forall>j < area_size x. io' ! (area_start x + j) = received f r x io j)"

lemma all2_upt: "list_all2 (\<lambda>fi. P (xs ! fi)) [0..<length xs] ys = list_all2 P xs ys"
  using list_all2_map1 [of P "(!) xs" "[0..<length xs]" ys] by (simp add: map_nth)

lemma map_upt: "map (\<lambda>fi. g (xs ! fi)) [0..<length xs] = map g xs"
  using map_map [of g "(!) xs" "[0..<length xs]"] by (simp add: map_nth comp_def)

lemma map2_upt: "map2 (\<lambda>fi. g (xs ! fi)) [0..<length xs] ys = map2 g xs ys"
  using zip_map1 [of "(!) xs" "[0..<length xs]" ys] by (simp add: map_nth comp_def split_beta)

lemma all2_map2: "list_all2 (\<lambda>x y. g x y = c) xs ys \<Longrightarrow> \<forall>z \<in> set (map2 g xs ys). z = c"
  by (auto simp: list_all2_iff)

lemma pd_error_lrw [simp]: "pd_error (lrw_pending error fi f) = error"
  by (simp add: lrw_pending_def)

lemma report_keeps_bus: "\<forall>p \<in> set ps. \<forall>st b. snd (pd_error p st b) = b \<Longrightarrow> snd (report_all ps sts x b) = b"
proof (induction ps arbitrary: sts x)
  case (Cons p ps)
  then show ?case by (cases sts) (simp_all add: Let_def split_beta)
qed simp

lemma report_returns_bus: "\<forall>p \<in> set ps. \<forall>st b. snd (pd_error p st b) = b \<Longrightarrow> \<exists>y. report_all ps sts x b = (y, b)"
  by (metis prod.collapse report_keeps_bus)

lemma report_all_ok: "\<forall>st \<in> set sts. st = OK \<Longrightarrow> report_all ps sts x b = (x, b)"
  by (induction ps sts x b rule: report_all.induct) auto

lemma spans_member: "spans lo hi (concat bss) \<Longrightarrow> bs \<in> set bss \<Longrightarrow> spans lo hi bs"
  by (auto simp: in_set_conv_decomp dest!: spans_appendD)

lemma mapped_frame:
  assumes "mapped b" and "f \<in> set (bs_pi_frames b)"
  shows "frame_mapped (length (bs_slaves b)) f" and "spans 0 (length (bs_iomap b)) (pf_outputs f)"
proof -
  show "frame_mapped (length (bs_slaves b)) f" using assms by (simp add: mapped_def list_all_iff)
  have "spans 0 (length (bs_iomap b)) (blocks_in True (bs_pi_frames b))"
    using assms(1) spans_appendD unfolding mapped_def by blast
  then show "spans 0 (length (bs_iomap b)) (pf_outputs f)" by (rule spans_member) (use assms(2) in auto)
qed

lemma mapped_inputs: "mapped b \<Longrightarrow> spans 0 (length (bs_iomap b)) (concat (map pf_inputs (bs_pi_frames b)))"
  unfolding mapped_def by (elim conjE) (drule spans_appendD, simp)

lemma filled_carries:
  assumes "mapped b" and "f \<in> set (bs_pi_frames b)"
  shows "carries_outputs (bs_iomap b) f (filled (bs_iomap b) f)"
    and "gather_outputs (bs_iomap b) (pf_outputs f) (pf_output_buffer f) \<noteq> None"
proof -
  note f = mapped_frame [OF assms]
  obtain buf where buf: "gather_outputs (bs_iomap b) (pf_outputs f) (pf_output_buffer f) = Some buf"
      "length buf = length (pf_output_buffer f)"
      "\<forall>x \<in> set (pf_outputs f). \<forall>j < area_size x. buf ! (unat (bi_offset x) + j) = bs_iomap b ! (area_start x + j)"
    using gather_outputs_spec [OF f(2,1)] by blast
  then show "carries_outputs (bs_iomap b) f (filled (bs_iomap b) f)"
    using f(1) by (simp add: carries_outputs_def filled_def frame_mapped_def Let_def)
  show "gather_outputs (bs_iomap b) (pf_outputs f) (pf_output_buffer f) \<noteq> None" using buf(1) by simp
qed

lemma mapped_filled:
  assumes "mapped b" and "same_slaves (bs_slaves b) ss" and "length io = length (bs_iomap b)"
  shows "mapped (b\<lparr>bs_iomap := io, bs_slaves := ss, bs_pi_frames := map (filled (bs_iomap b)) (bs_pi_frames b)\<rparr>)"
proof -
  have "list_all (frame_mapped (length ss)) (map (filled (bs_iomap b)) (bs_pi_frames b))"
    using filled_mapped [OF mapped_frame(2,1)] assms(1) same_slaves_length [OF assms(2)] by (simp add: list_all_iff)
  then show ?thesis using assms(1,3) by (simp add: mapped_def comp_def)
qed

text \<open>(C2) A cycle of process data. On a mapped bus with no distributed clock in use and at most 255 frames,
  \<open>processDataReadWrite\<close> sends one LRW per frame in order, each with the bytes the client wrote for every slave with outputs. For every reply with the expected working
  counter the inputs of the frame's slaves appear in their areas of the client's buffer; for a lost datagram
  or a wrong counter they keep their values. Nothing else of the buffer changes, no access leaves a buffer, the
  queue is empty afterwards, the mapping stays sound, and no error is raised when every frame is answered.\<close>

theorem process_data_cycle:
  assumes "mapped (mt_bus m)" and "mt_queue m = []" and "length (bs_pi_frames (mt_bus m)) \<le> 255"
    and "bs_dc_slave (mt_bus m) = None" and "sized_env env" and "\<forall>st b. snd (error st b) = b"
  shows "\<exists>r fs rs n io ss.
      processDataReadWrite env error m =
        Some (r, m\<lparr>mt_bus := (mt_bus m)\<lparr>bs_iomap := io, bs_slaves := ss, bs_pi_frames := fs\<rparr>, mt_queue := [], mt_net := n\<rparr>)
    \<and> be_exchange env (map lrw_request fs) (mt_net m) = (rs, n)
    \<and> list_all2 (carries_outputs (bs_iomap (mt_bus m))) (bs_pi_frames (mt_bus m)) fs
    \<and> list_all2 (stores_inputs (bs_iomap (mt_bus m)) io) (bs_pi_frames (mt_bus m)) rs
    \<and> (\<forall>k < length (bs_iomap (mt_bus m)). \<not> inside (blocks_in False (bs_pi_frames (mt_bus m))) k \<longrightarrow> io ! k = bs_iomap (mt_bus m) ! k)
    \<and> same_slaves (bs_slaves (mt_bus m)) ss
    \<and> mapped ((mt_bus m)\<lparr>bs_iomap := io, bs_slaves := ss, bs_pi_frames := fs\<rparr>)
    \<and> (list_all2 (\<lambda>f r. lrw_state f r = OK) (bs_pi_frames (mt_bus m)) rs \<longrightarrow> r = Inr ())"
proof -
  let ?b = "mt_bus m"
  let ?fs = "map (filled (bs_iomap ?b)) (bs_pi_frames ?b)" and ?n = "length (bs_pi_frames ?b)"
  let ?b2 = "?b\<lparr>bs_pi_frames := ?fs\<rparr>"
  let ?q = "map (\<lambda>fi. lrw_pending error fi (bs_pi_frames ?b2 ! fi)) [0..<length ?fs]"
  have q: "map (\<lambda>fi. lrw_pending error fi (filled (bs_iomap ?b) (bs_pi_frames ?b ! fi))) [0..<?n] = ?q" by simp
  have send: "sendLogicalReadWrite env error m = Some (Inr (), m\<lparr>mt_bus := ?b2, mt_queue := ?q\<rparr>)"
    using sendLogicalReadWrite_queues [of m env error] filled_carries(2) assms(1-4) q by simp
  obtain rs n where ex: "be_exchange env (map pd_request ?q) (mt_net m) = (rs, n)" by fastforce
  have reqs: "map pd_request ?q = map lrw_request ?fs"
    using map_upt [of lrw_request ?fs] by (simp add: lrw_pending_def lrw_request_def comp_def)
  have sized: "list_all2 (\<lambda>fi. answers_sized (pd_request (lrw_pending error fi (bs_pi_frames ?b2 ! fi)))) [0..<length ?fs] rs"
    using assms(5) [unfolded sized_env_def, rule_format, of "map pd_request ?q" "mt_net m"]
    unfolding ex fst_conv list_all2_map1 .
  have sp: "spans 0 (length (bs_iomap ?b2)) (concat (map (\<lambda>fi. pf_inputs (bs_pi_frames ?b2 ! fi)) [0..<length ?fs]))"
    using mapped_inputs [OF assms(1)] map_upt [of pf_inputs ?fs] by (simp add: comp_def)
  have fm: "\<forall>fi \<in> set [0..<length ?fs]. frame_mapped (length (bs_slaves ?b)) (bs_pi_frames ?b2 ! fi)"
    using filled_mapped [OF mapped_frame(2,1)] assms(1) by simp
  obtain io ss where st: "settle_all ?q rs ?b2 =
      Some (map2 (\<lambda>fi. lrw_state (bs_pi_frames ?b2 ! fi)) [0..<length ?fs] rs, ?b2\<lparr>bs_iomap := io, bs_slaves := ss\<rparr>)"
      "length io = length (bs_iomap ?b2)" "same_slaves (bs_slaves ?b2) ss"
      "list_all2 (\<lambda>fi r. \<forall>x \<in> set (pf_inputs (bs_pi_frames ?b2 ! fi)). \<forall>j < area_size x.
         io ! (area_start x + j) = received (bs_pi_frames ?b2 ! fi) r x (bs_iomap ?b2) j) [0..<length ?fs] rs"
      "\<forall>k < length (bs_iomap ?b2). \<not> inside (concat (map (\<lambda>fi. pf_inputs (bs_pi_frames ?b2 ! fi)) [0..<length ?fs])) k
         \<longrightarrow> io ! k = bs_iomap ?b2 ! k"
    using settle_lrw [OF sp fm sized] by (elim exE conjE) (rule that)
  have ins: "concat (map (\<lambda>fi. pf_inputs (bs_pi_frames ?b2 ! fi)) [0..<length ?fs]) = blocks_in False (bs_pi_frames ?b)"
    using map_upt [of pf_inputs ?fs] by (simp add: comp_def)
  have stores: "list_all2 (stores_inputs (bs_iomap ?b) io) (bs_pi_frames ?b) rs"
    using st(4) all2_upt [of "\<lambda>f r. \<forall>x \<in> set (pf_inputs f). \<forall>j < area_size x.
         io ! (area_start x + j) = received f r x (bs_iomap ?b) j" ?fs rs]
    by (simp add: list_all2_map1 stores_inputs_def [abs_def])
  have states: "\<forall>st \<in> set (map2 (\<lambda>fi. lrw_state (bs_pi_frames ?b2 ! fi)) [0..<length ?fs] rs). st = OK"
    if "list_all2 (\<lambda>f r. lrw_state f r = OK) (bs_pi_frames ?b) rs"
    using all2_map2 [of lrw_state OK ?fs rs] map2_upt [of lrw_state ?fs rs] that by (simp add: list_all2_map1)
  obtain x where rep: "report_all ?q (map2 (\<lambda>fi. lrw_state (bs_pi_frames ?b2 ! fi)) [0..<length ?fs] rs) None
      (?b2\<lparr>bs_iomap := io, bs_slaves := ss\<rparr>) = (x, ?b2\<lparr>bs_iomap := io, bs_slaves := ss\<rparr>)"
    by (rule exE [OF report_returns_bus [of ?q]]) (simp_all add: assms(6))
  have ok: "x = None" if "list_all2 (\<lambda>f r. lrw_state f r = OK) (bs_pi_frames ?b) rs"
    using report_all_ok [OF states [OF that], of ?q None "?b2\<lparr>bs_iomap := io, bs_slaves := ss\<rparr>"] unfolding rep by simp
  let ?r = "case x of None \<Rightarrow> Inr () | Some e \<Rightarrow> Inl e"
  let ?b' = "?b\<lparr>bs_iomap := io, bs_slaves := ss, bs_pi_frames := ?fs\<rparr>"
  have "processDataReadWrite env error m = Some (?r, m\<lparr>mt_bus := ?b', mt_queue := [], mt_net := n\<rparr>)"
    using send ex st(1) rep by (simp add: processDataReadWrite_def thenE_def bindE_def link_process_def split: option.split)
  moreover have "list_all2 (carries_outputs (bs_iomap ?b)) (bs_pi_frames ?b) ?fs"
    using filled_carries(1) [OF assms(1)] by (simp add: list_all2_map2 list.rel_refl_strong)
  moreover have "mapped ?b'" using mapped_filled [OF assms(1), of ss io] st(2,3) by simp
  ultimately show ?thesis
    using ex reqs stores st(3,5) ins ok
    by (intro exI [of _ ?r] exI [of _ ?fs] exI [of _ rs] exI [of _ n] exI [of _ io] exI [of _ ss]) (auto simp: comp_def)
qed

end
