(* ===== verification/BusReady.thy ===== *)
theory BusReady
  imports BusExchange
begin

text \<open>
  What \<open>createMapping\<close> leaves behind: the frames it lays out, extends by mailbox status bits and attaches to
  the client's buffer satisfy the invariant \<open>mapped\<close> that the cyclic exchange relies on, and the working counters
  the three commands expect agree with each other.
\<close>

section \<open>Mailbox status bits\<close>

definition status_len :: "nat list \<Rightarrow> nat" where
  "status_len mbx = (length mbx + 7) div 8"

lemma status_bytes_len: "length mbx \<le> 65535 \<Longrightarrow> status_bytes mbx = of_nat (status_len mbx)"
proof -
  assume "length mbx \<le> 65535"
  then have "unat (of_nat (length mbx + 7) :: u32) = length mbx + 7"
    by (simp add: unsigned_of_nat take_bit_nat_eq_self del: of_nat_add)
  then have "(of_nat (length mbx + 7) :: u32) div 8 = of_nat ((length mbx + 7) div 8)"
    by (simp add: word_arith_nat_div del: of_nat_add)
  then show ?thesis by (simp add: status_bytes_def status_len_def)
qed

lemma status_len_bound: "length mbx \<le> 65535 \<Longrightarrow> status_len mbx \<le> 8192"
  by (simp add: status_len_def)

lemma status_entries_bound:
  assumes "ms \<in> set (status_entries (of_nat q) mbx)" and "q + status_len mbx < 2 ^ 31"
  shows "unat (st_byte_offset ms) < q + status_len mbx" and "st_slave ms \<in> set mbx"
proof -
  obtain j i where ms: "st_byte_offset ms = of_nat (q + j div 8)" "st_slave ms = i" and j: "j < length mbx" "i = mbx ! j"
    using assms(1) by (auto simp: status_entries_def in_set_enumerate_eq)
  then have "j div 8 < status_len mbx" by (simp add: status_len_def)
  moreover from this have "unat (st_byte_offset ms) = q + j div 8"
    using assms(2) unfolding ms(1) by (simp add: unsigned_of_nat take_bit_nat_eq_self del: of_nat_add)
  ultimately show "unat (st_byte_offset ms) < q + status_len mbx" by simp
  show "st_slave ms \<in> set mbx" using ms j by simp
qed

text \<open>The extension of a frame of \<open>p\<close> bytes: where the two status areas start and where the frame ends.\<close>

definition status_end :: "u8 \<Rightarrow> nat list \<Rightarrow> nat \<Rightarrow> nat" where
  "status_end mode mbx p =
     (if mode = 0 \<or> mbx = [] then p
      else p + (if mode AND 1 \<noteq> 0 then 3 + status_len mbx else 0) + (if mode AND 2 \<noteq> 0 then 3 + status_len mbx else 0))"

lemma extend_frame_fields:
  "pf_inputs (extend_frame mode slaves f mbx) = pf_inputs f"
  "pf_outputs (extend_frame mode slaves f mbx) = pf_outputs f"
  "pdo_size (pf_description (extend_frame mode slaves f mbx)) = pdo_size (pf_description f)"
  "lf_address (pf_description (extend_frame mode slaves f mbx)) = lf_address (pf_description f)"
  by (simp_all add: extend_frame_def Let_def)

lemma extend_frame_status:
  assumes f: "pdo_size (pf_description f) = int p" "logical_size (pf_description f) = int p" "p \<le> 1486"
      "pf_read_status f = []" "pf_write_status f = []"
    and mbx: "length mbx \<le> 65535" and g: "g = extend_frame mode slaves f mbx"
  shows "logical_size (pf_description g) = int (status_end mode mbx p)"
    and "\<forall>ms \<in> set (pf_read_status g) \<union> set (pf_write_status g).
        unat (st_byte_offset ms) < status_end mode mbx p \<and> st_slave ms \<in> set mbx"
proof -
  note len = status_bytes_len [OF mbx] status_len_bound [OF mbx]
  have off: "of_nat q + FMMU_BYTE_SEPARATION = of_nat (q + 3)" for q by (simp add: FMMU_BYTE_SEPARATION_def)
  have sint: "sint (of_nat q :: u32) = int q" if "q \<le> 1486 + 2 * (3 + 8192)" for q using sint_small that by simp
  show "logical_size (pf_description g) = int (status_end mode mbx p)"
    using f len(2) by (simp add: g extend_frame_def Let_def status_end_def off len(1) sint del: of_nat_add flip: of_nat_add)
  define w where "w = (if mode AND 1 \<noteq> 0 then p + 3 + status_len mbx else p)"
  have rd: "pf_read_status g = (if mode \<noteq> 0 \<and> mbx \<noteq> [] \<and> mode AND 1 \<noteq> 0 then status_entries (of_nat (p + 3)) mbx else [])"
    using f by (simp add: g extend_frame_def Let_def off del: of_nat_add)
  have wr: "pf_write_status g = (if mode \<noteq> 0 \<and> mbx \<noteq> [] \<and> mode AND 2 \<noteq> 0 then status_entries (of_nat (w + 3)) mbx else [])"
    using f by (simp add: g extend_frame_def Let_def w_def off len(1) del: of_nat_add flip: of_nat_add)
  have w: "w \<le> p + 3 + status_len mbx" by (simp add: w_def)
  show "\<forall>ms \<in> set (pf_read_status g) \<union> set (pf_write_status g).
        unat (st_byte_offset ms) < status_end mode mbx p \<and> st_slave ms \<in> set mbx"
  proof
    fix ms
    assume "ms \<in> set (pf_read_status g) \<union> set (pf_write_status g)"
    then consider "mode \<noteq> 0" "mbx \<noteq> []" "mode AND 1 \<noteq> 0" "ms \<in> set (status_entries (of_nat (p + 3)) mbx)"
      | "mode \<noteq> 0" "mbx \<noteq> []" "mode AND 2 \<noteq> 0" "ms \<in> set (status_entries (of_nat (w + 3)) mbx)"
      using rd wr by (auto split: if_splits)
    then show "unat (st_byte_offset ms) < status_end mode mbx p \<and> st_slave ms \<in> set mbx"
    proof cases
      case 1
      then show ?thesis
        using status_entries_bound [OF 1(4)] f(3) len(2) by (simp add: status_end_def)
    next
      case 2
      then show ?thesis
        using status_entries_bound [OF 2(4)] f(3) len(2) w by (simp add: status_end_def w_def split: if_splits)
    qed
  qed
qed

lemma status_end_bound:
  assumes "length mbx \<le> 65535" and "p \<le> 1486"
  shows "p \<le> status_end mode mbx p" and "status_end mode mbx p < 65536"
  using status_len_bound [OF assms(1)] assms(2) by (simp_all add: status_end_def)

section \<open>The mapped bus\<close>

lemma sorted_blocks:
  assumes "\<forall>i \<in> set g. 0 \<le> len i \<and> nat (len i) \<le> sz i" and "pos + group_size sz g < 2 ^ 31"
  shows "sorted_wrt (\<lambda>a b. unat (bi_offset a) + area_size a \<le> unat (bi_offset b)) (blocks len (offsets sz pos g))"
  using assms
proof (induction g arbitrary: pos)
  case (Cons i g)
  have rest: "sorted_wrt (\<lambda>a b. unat (bi_offset a) + area_size a \<le> unat (bi_offset b)) (blocks len (offsets sz (pos + sz i) g))"
    using Cons by simp
  have "unat (of_nat pos :: u32) + nat (len i) \<le> unat (bi_offset b)" if b: "b \<in> set (blocks len (offsets sz (pos + sz i) g))" for b
  proof -
    obtain j q where q: "bi_offset b = of_nat q" "(j, q) \<in> set (offsets sz (pos + sz i) g)"
      using b by (auto simp: blocks_def)
    then have "pos + sz i \<le> q" "q < 2 ^ 31" using offsets_bound [OF q(2)] Cons.prems(2) by auto
    moreover have "nat (len i) \<le> sz i" using Cons.prems(1) by simp
    ultimately show ?thesis by (simp add: q(1) unsigned_of_nat take_bit_nat_eq_self)
  qed
  then show ?case using rest by (simp add: blocks_def area_size_def)
qed (simp add: blocks_def)

lemma expect_frame_fields [simp]:
  "pf_inputs (expect_frame slaves f) = pf_inputs f" "pf_outputs (expect_frame slaves f) = pf_outputs f"
  "pf_read_status (expect_frame slaves f) = pf_read_status f" "pf_write_status (expect_frame slaves f) = pf_write_status f"
  "pdo_size (pf_description (expect_frame slaves f)) = pdo_size (pf_description f)"
  "logical_size (pf_description (expect_frame slaves f)) = logical_size (pf_description f)"
  "lf_address (pf_description (expect_frame slaves f)) = lf_address (pf_description f)"
  "length (pf_output_buffer (expect_frame slaves f)) = nat (logical_size (pf_description f))"
  by (simp_all add: expect_frame_def Let_def)

lemma group_members:
  assumes "g \<in> set (groups sz n)"
  shows "set g \<subseteq> {..<n}" and "length g \<le> n"
proof -
  obtain hs ks where gs: "groups sz n = hs @ g # ks" using assms by (auto simp: in_set_conv_decomp)
  then have "concat hs @ g @ concat ks = [0..<n]" using groups_concat [of sz n] by simp
  from arg_cong [OF this, of set] arg_cong [OF this, of length] show "set g \<subseteq> {..<n}" "length g \<le> n"
    by (auto simp: atLeast0LessThan)
qed

lemma slot_bounds:
  assumes "\<forall>s \<in> set slaves. fits s" and "i < length slaves"
  shows "0 \<le> in_size slaves i \<and> nat (in_size slaves i) \<le> slot_size slaves i"
    and "0 \<le> out_size slaves i \<and> nat (out_size slaves i) \<le> slot_size slaves i"
  using assms nth_mem [OF assms(2)] by (auto simp: fits_def in_size_def out_size_def slot_size_def block_size_def nat_mono)

lemma blocks_inside:
  assumes "b \<in> set (blocks len (offsets sz pos g))" and "\<forall>i \<in> set g. nat (len i) \<le> sz i" and "pos + group_size sz g < 2 ^ 31"
  shows "unat (bi_offset b) + area_size b \<le> pos + group_size sz g"
proof -
  obtain i q where b: "bi_offset b = of_nat q" "bi_size b = len i" and q: "(i, q) \<in> set (offsets sz pos g)"
    using assms(1) by (auto simp: blocks_def)
  have "i \<in> set g" using q map_fst_offsets [of sz pos g] by (metis fst_conv image_eqI list.set_map)
  then have "nat (len i) \<le> sz i" "q + sz i \<le> pos + group_size sz g" using assms(2) offsets_bound [OF q] by auto
  then show ?thesis using assms(3) b by (simp add: area_size_def unsigned_of_nat take_bit_nat_eq_self)
qed

lemma group_frame_mapped:
  assumes fit: "\<forall>s \<in> set slaves. fits s" and n: "length slaves \<le> 65535"
    and g: "g \<in> set (groups (slot_size slaves) (length slaves))"
    and f: "f = expect_frame ss (extend_frame mode ss (fst (pdo_group slaves (k, g))) (snd (pdo_group slaves (k, g))))"
  shows "frame_mapped (length slaves) f"
proof -
  let ?p = "group_size (slot_size slaves) g" and ?mbx = "with_mailbox slaves g"
  have p: "?p \<le> 1486" using groups_fit [of "length slaves" "slot_size slaves"] slot_fits fit g by auto
  then have "?p \<le> MAX_PI" by simp
  note fields = pdo_group_fields [OF this, of k]
  note member = group_members [OF g]
  have mbx: "length ?mbx \<le> 65535" "set ?mbx \<subseteq> {..<length slaves}"
    using member n le_trans [OF length_filter_le, of g 65535] by (auto simp: with_mailbox_def)
  have size: "logical_size (pf_description f) = int (status_end mode ?mbx ?p)"
    and status: "\<forall>ms \<in> set (pf_read_status f) \<union> set (pf_write_status f).
        unat (st_byte_offset ms) < status_end mode ?mbx ?p \<and> st_slave ms \<in> set ?mbx"
    using extend_frame_status [OF _ _ p _ _ mbx(1) refl, of "fst (pdo_group slaves (k, g))" mode ss]
    by (simp_all add: f fields)
  have io: "pf_inputs f = blocks (in_size slaves) (offsets (slot_size slaves) 0 g)"
      "pf_outputs f = blocks (out_size slaves) (offsets (slot_size slaves) 0 g)"
      "pdo_size (pf_description f) = int ?p"
    by (simp_all add: f extend_frame_fields fields)
  have bounds: "\<forall>i \<in> set g. 0 \<le> in_size slaves i \<and> nat (in_size slaves i) \<le> slot_size slaves i"
      "\<forall>i \<in> set g. 0 \<le> out_size slaves i \<and> nat (out_size slaves i) \<le> slot_size slaves i"
    using slot_bounds [OF fit] member(1) by auto
  have "\<forall>b \<in> set (pf_inputs f) \<union> set (pf_outputs f). unat (bi_offset b) + area_size b \<le> ?p"
    using blocks_inside [of _ "in_size slaves" "slot_size slaves" 0 g] blocks_inside [of _ "out_size slaves" "slot_size slaves" 0 g]
      bounds p by (auto simp: io)
  moreover have "sorted_wrt (\<lambda>a b. unat (bi_offset a) + area_size a \<le> unat (bi_offset b)) (pf_outputs f)"
    unfolding io using bounds(2) p by (intro sorted_blocks) auto
  moreover have "length (pf_output_buffer f) = nat (logical_size (pf_description f))" by (simp add: f)
  moreover note status_end_bound [OF mbx(1) p, of mode]
  ultimately show ?thesis
    using status mbx(2) by (auto simp: frame_mapped_def Let_def size io(3))
qed

lemma same_block_size: "list_all2 same_block bs cs \<Longrightarrow> total_bytes cs = total_bytes bs"
  by (induction bs cs rule: list_all2_induct) (simp_all add: total_bytes_def same_block_def area_size_def)

lemma frame_mapped_attached:
  assumes "frame_mapped n f" and "list_all2 same_block (pf_inputs f) (pf_inputs g)"
    and "list_all2 same_block (pf_outputs f) (pf_outputs g)" and "g = f\<lparr>pf_inputs := pf_inputs g, pf_outputs := pf_outputs g\<rparr>"
  shows "frame_mapped n g"
proof -
  have same: "pf_description g = pf_description f" "pf_output_buffer g = pf_output_buffer f"
      "pf_read_status g = pf_read_status f" "pf_write_status g = pf_write_status f"
    by (subst assms(4), simp)+
  have key: "map (\<lambda>b. (unat (bi_offset b), area_size b)) cs = map (\<lambda>b. (unat (bi_offset b), area_size b)) bs"
    if "list_all2 same_block bs cs" for bs cs
    using that by (induction bs cs rule: list_all2_induct) (simp_all add: same_block_def area_size_def)
  have inside: "(\<forall>b \<in> set cs. unat (bi_offset b) + area_size b \<le> k) \<longleftrightarrow> (\<forall>b \<in> set bs. unat (bi_offset b) + area_size b \<le> k)"
    if "list_all2 same_block bs cs" for bs cs k
    using arg_cong [OF key [OF that], of "list_all (\<lambda>(o', s). o' + s \<le> k)"] by (simp add: list_all_iff)
  have "sorted_wrt (\<lambda>(o1, s1) (o2, s2). o1 + s1 \<le> o2) (map (\<lambda>b. (unat (bi_offset b), area_size b)) (pf_outputs g))
      = sorted_wrt (\<lambda>(o1, s1) (o2, s2). o1 + s1 \<le> o2) (map (\<lambda>b. (unat (bi_offset b), area_size b)) (pf_outputs f))"
    using key [OF assms(3)] by simp
  then show ?thesis
    using assms(1) inside [OF assms(2)] inside [OF assms(3)] by (simp add: frame_mapped_def Let_def same sorted_wrt_map ball_Un)
qed

lemma required_total:
  assumes "\<forall>f \<in> set fs. \<forall>b \<in> set (pf_inputs f) \<union> set (pf_outputs f). 0 \<le> bi_size b"
  shows "required_size fs = int (total_bytes (blocks_in False fs) + total_bytes (blocks_in True fs))"
proof -
  have sum: "(\<Sum>b\<leftarrow>bs. bi_size b) = int (total_bytes bs)" if "\<forall>b \<in> set bs. 0 \<le> bi_size b" for bs
    using that by (induction bs) (simp_all add: total_bytes_def area_size_def)
  show ?thesis
    using assms by (induction fs) (simp_all add: required_size_def sum total_bytes_def)
qed

lemma spans_mono: "spans lo mid bs \<Longrightarrow> mid \<le> hi \<Longrightarrow> spans lo hi bs"
  by (auto simp: spans_def)

lemma layout_frames_mapped:
  assumes "\<forall>s \<in> set slaves. fits s" and "length slaves \<le> 65535" and "layout_frames mode slaves = (ss, fs)"
  shows "length ss = length slaves" and "\<forall>f \<in> set fs. frame_mapped (length slaves) f"
    and "\<forall>f \<in> set fs. \<forall>b \<in> set (pf_inputs f) \<union> set (pf_outputs f). 0 \<le> bi_size b"
    and "length fs \<le> Suc (length slaves)"
proof -
  let ?gs = "groups (slot_size slaves) (length slaves)"
  have ss: "ss = map2 (\<lambda>a. at_address (of_nat a)) (addresses slaves (length slaves)) slaves"
    and fs: "fs = map (\<lambda>x. expect_frame ss (extend_frame mode ss (fst (pdo_group slaves x)) (snd (pdo_group slaves x)))) (enumerate 0 ?gs)"
    using layout_slaves_packing [OF assms(1,2)] assms(3) by (auto simp: layout_frames_def split_beta)
  have fit: "\<forall>g \<in> set ?gs. group_size (slot_size slaves) g \<le> MAX_PI" using assms(1) by (intro groups_fit slot_fits) simp
  show "length ss = length slaves" by (simp add: ss)
  show "\<forall>f \<in> set fs. frame_mapped (length slaves) f"
    using group_frame_mapped [OF assms(1,2)] by (auto simp: fs in_set_enumerate_eq)
  show "\<forall>f \<in> set fs. \<forall>b \<in> set (pf_inputs f) \<union> set (pf_outputs f). 0 \<le> bi_size b"
    using fit by (auto simp: fs extend_frame_fields in_set_enumerate_eq pdo_group_fields blocks_def)
  show "length fs \<le> Suc (length slaves)" using groups_length [of "slot_size slaves" "length slaves"] by (simp add: fs)
qed

lemma set_pointers_mapped:
  assumes "\<forall>s \<in> set (bs_slaves b). fits s" and "length (bs_slaves b) \<le> 65535"
    and "required_size (bs_pi_frames (set_layout b)) \<le> int (length (bs_iomap b))"
  shows "mapped (set_pointers (set_layout b))"
proof -
  obtain ss fs where l: "layout_frames (bs_mailbox_status b) (bs_slaves b) = (ss, fs)" by fastforce
  then have b1: "set_layout b = b\<lparr>bs_slaves := ss, bs_pi_frames := fs\<rparr>" by (simp add: set_layout_def)
  obtain gs ts where a: "attach_client fs ss = (gs, ts)" by fastforce
  note lay = layout_frames_mapped [OF assms(1,2) l] and att = attach_client_spans [OF a]
  have len: "total_bytes (blocks_in False fs) + total_bytes (blocks_in True fs) \<le> length (bs_iomap b)"
    using assms(3) required_total [OF lay(3)] by (simp add: b1)
  have "list_all (frame_mapped (length ts)) gs"
    unfolding list_all_length
  proof (intro allI impI)
    fix k
    assume k: "k < length gs"
    have all: "list_all2 (\<lambda>f g. list_all2 same_block (pf_inputs f) (pf_inputs g) \<and> list_all2 same_block (pf_outputs f) (pf_outputs g)
        \<and> g = f\<lparr>pf_inputs := pf_inputs g, pf_outputs := pf_outputs g\<rparr>) fs gs" using att by simp
    have "frame_mapped (length ts) (fs ! k)" using lay(1,2) att k list_all2_lengthD [OF all] by simp
    then show "frame_mapped (length ts) (gs ! k)"
      using list_all2_nthD2 [OF all k] by (elim conjE) (rule frame_mapped_attached)
  qed
  moreover have "spans 0 (length (bs_iomap b)) (blocks_in False gs @ blocks_in True gs)"
    by (rule spans_mono [OF conjunct1 [OF att] len])
  ultimately show ?thesis using a by (simp add: b1 set_pointers_def mapped_def)
qed

section \<open>Programming leaves the mapping alone\<close>

text \<open>A pending datagram whose callbacks keep the bus, and operations that queue only such datagrams.\<close>

definition inert :: "pending \<Rightarrow> bool" where
  "inert p \<longleftrightarrow> (\<forall>data wkc t b st b'. pd_process p data wkc t b = Some (st, b') \<longrightarrow> b' = b)
     \<and> (\<forall>st b. snd (pd_error p st b) = b)"

definition quiet :: "('n, 'a) act \<Rightarrow> bool" where
  "quiet f \<longleftrightarrow> (\<forall>m r m'. list_all inert (mt_queue m) \<and> f m = Some (r, m')
     \<longrightarrow> mt_bus m' = mt_bus m \<and> list_all inert (mt_queue m'))"

lemma settle_inert: "list_all inert ps \<Longrightarrow> settle_all ps rs b = Some (sts, b') \<Longrightarrow> b' = b"
proof (induction ps rs b arbitrary: sts rule: settle_all.induct)
  case (4 p ps data wkc t rs b)
  then obtain st b1 sts' where p: "pd_process p data wkc t b = Some (st, b1)" and r: "settle_all ps rs b1 = Some (sts', b')"
    by (auto split: bind_splits)
  have "b1 = b" using 4(2) p by (simp add: inert_def)
  then show ?case using 4 p r by (auto simp: inert_def)
qed (auto split: bind_splits)

lemma quiet_link_process: "quiet (link_process env)"
  unfolding quiet_def
proof (intro allI impI)
  fix m :: "'a master" and r m'
  assume a: "list_all inert (mt_queue m) \<and> link_process env m = Some (r, m')"
  obtain rs n where ex: "be_exchange env (map pd_request (mt_queue m)) (mt_net m) = (rs, n)" by fastforce
  obtain sts b where s: "settle_all (mt_queue m) rs (mt_bus m) = Some (sts, b)"
    using a ex by (cases "settle_all (mt_queue m) rs (mt_bus m)") (auto simp: link_process_def Let_def)
  have b: "b = mt_bus m" using settle_inert s a by blast
  obtain x where "report_all (mt_queue m) sts None b = (x, b)"
    using report_returns_bus [of "mt_queue m" sts None b] a by (auto simp: list_all_iff inert_def)
  then show "mt_bus m' = mt_bus m \<and> list_all inert (mt_queue m')"
    using a ex s b by (cases x) (auto simp: link_process_def Let_def)
qed

lemma bindE_Some:
  assumes "bindE f g m = Some (r, m')"
  obtains e m1 where "f m = Some (Inl e, m1)" "r = Inl e" "m' = m1"
  | x m1 where "f m = Some (Inr x, m1)" "g x m1 = Some (r, m')"
proof (cases "f m")
  case None
  then show thesis using assms by (simp add: bindE_def)
next
  case (Some y)
  obtain a m1 where y: "y = (a, m1)" by (cases y)
  show thesis
  proof (cases a)
    case (Inl e)
    then have "f m = Some (Inl e, m1)" using Some y by simp
    moreover from this have "r = Inl e" "m' = m1" using assms by (simp_all add: bindE_def)
    ultimately show thesis by (rule that(1))
  next
    case (Inr x)
    then have "f m = Some (Inr x, m1)" using Some y by simp
    moreover from this have "g x m1 = Some (r, m')" using assms by (simp add: bindE_def)
    ultimately show thesis by (rule that(2))
  qed
qed

lemma bindE_simps:
  "bindE (busE f) g m = g (f (mt_bus m)) m" "thenE (updE u) h m = h (m\<lparr>mt_bus := u (mt_bus m)\<rparr>)"
  "thenE (checkE c e) h m = (if c then h m else Some (Inl e, m))"
  "thenE (\<lambda>m. Some (Inr y, k m)) h m = h (k m)"
  by (simp_all add: bindE_def thenE_def busE_def updE_def checkE_def retE_def throwE_def)

lemma thenE_Inr: "f m = Some (Inr x, m1) \<Longrightarrow> thenE f g m = g m1"
  by (simp add: thenE_def bindE_def)

lemma quietD: "quiet f \<Longrightarrow> list_all inert (mt_queue m) \<Longrightarrow> f m = Some (r, m') \<Longrightarrow> mt_bus m' = mt_bus m \<and> list_all inert (mt_queue m')"
  unfolding quiet_def by blast

lemma quiet_bind:
  assumes "quiet f" and "\<And>x. quiet (g x)"
  shows "quiet (bindE f g)"
  unfolding quiet_def
proof (intro allI impI, elim conjE)
  fix m r m'
  assume q: "list_all inert (mt_queue m)" and "bindE f g m = Some (r, m')"
  from this(2) show "mt_bus m' = mt_bus m \<and> list_all inert (mt_queue m')"
  proof (cases rule: bindE_Some)
    case (1 e m1)
    then show ?thesis using quietD [OF assms(1) q 1(1)] by simp
  next
    case (2 x m1)
    have m1: "mt_bus m1 = mt_bus m" "list_all inert (mt_queue m1)" using quietD [OF assms(1) q 2(1)] by simp_all
    then show ?thesis using quietD [OF assms(2) m1(2) 2(2)] by simp
  qed
qed

lemma quiet_then: "quiet f \<Longrightarrow> quiet g \<Longrightarrow> quiet (thenE f g)"
  unfolding thenE_def by (intro quiet_bind)

lemma quiet_ret [simp]: "quiet (retE x)" and quiet_bus [simp]: "quiet (busE g)"
  by (simp_all add: quiet_def retE_def busE_def)

lemma quiet_None [simp]: "quiet (\<lambda>m. None)"
  by (simp add: quiet_def)

lemma quiet_seq: "\<forall>f \<in> set fs. quiet f \<Longrightarrow> quiet (seqE fs)"
  by (induction fs) (simp_all add: quiet_then)

lemma quiet_add: "inert p \<Longrightarrow> quiet (link_add p)"
  by (auto simp: quiet_def link_add_def)

lemma inert_expect_one [simp]:
  "inert \<lparr>pd_request = q, pd_process = expect_one, pd_error = throw_always e\<rparr>"
  "inert \<lparr>pd_request = q, pd_process = expect_one, pd_error = throw_state s\<rparr>"
  by (simp_all add: inert_def expect_one_def throw_always_def throw_state_def)

lemma quiet_prepareDatagrams: "quiet (prepareDatagrams out i s)"
proof (cases "pi_sync_manager (mapping_of out s) < 0 \<or> int (length (sii_syncManagers (sv_sii s))) \<le> pi_sync_manager (mapping_of out s)")
  case True
  then show ?thesis by (simp add: prepareDatagrams_def Let_def)
next
  case False
  then show ?thesis by (simp add: prepareDatagrams_def Let_def quiet_then quiet_add)
qed

lemma quiet_configureFMMUs: "quiet (configureFMMUs env)"
  unfolding configureFMMUs_def for_slaves_def
  by (intro quiet_then quiet_bind quiet_seq quiet_link_process) (auto intro!: quiet_bind quiet_then quiet_prepareDatagrams)

lemma quiet_configureMailboxFMMUs: "quiet (configureMailboxFMMUs env)"
  unfolding configureMailboxFMMUs_def configureBitFMMU_def Let_def
  by (intro quiet_then quiet_bind quiet_link_process quiet_bus quiet_seq)
    (auto intro!: quiet_bind quiet_then quiet_seq quiet_add)

text \<open>(C3) \<open>createMapping\<close> establishes the invariant of the cyclic exchange. When it returns without an error, for
  slaves whose process data fit in a frame and a client buffer of the announced size, the blocks have disjoint
  areas inside the client's buffer and lie inside their frames, without overlap of the outputs, and the mailbox
  status bits lie inside the frames: with \<open>process_data_cycle\<close>, no cycle ever accesses memory outside its buffers.\<close>

theorem create_mapping_sound:
  assumes "createMapping env (Some (length (bs_iomap (mt_bus m1)))) m = Some (Inr (), m')"
    and "detectMapping env m = Some (Inr (), m1)" and "mt_queue m1 = []"
    and "\<forall>s \<in> set (bs_slaves (mt_bus m1)). fits s" and "length (bs_slaves (mt_bus m1)) \<le> 65535"
  shows "mapped (mt_bus m') \<and> mt_bus m' = set_pointers (set_layout (mt_bus m1))"
proof -
  let ?b = "set_layout (mt_bus m1)"
  let ?m = "m1\<lparr>mt_net := be_setLogicalMapping env (map pf_description (bs_pi_frames ?b)) (mt_net m1), mt_bus := set_pointers ?b\<rparr>"
  let ?rest = "thenE (configureFMMUs env)
      (bindE (busE bs_mailbox_status) (\<lambda>mode. if mode \<noteq> 0 then configureMailboxFMMUs env else retE ()))"
  have all: "createMapping env (Some (length (bs_iomap (mt_bus m1)))) m =
      (if required_size (bs_pi_frames ?b) \<le> int (length (bs_iomap (mt_bus m1))) then ?rest ?m
       else Some (Inl (Error ''createMapping: iomap buffer too small for the process image''),
         m1\<lparr>mt_bus := ?b, mt_net := be_setLogicalMapping env (map pf_description (bs_pi_frames ?b)) (mt_net m1)\<rparr>))"
    using assms(2) by (simp add: createMapping_def thenE_Inr bindE_simps)
  then have req: "required_size (bs_pi_frames ?b) \<le> int (length (bs_iomap (mt_bus m1)))" and rest: "?rest ?m = Some (Inr (), m')"
    using assms(1) by (simp_all split: if_splits)
  have q: "quiet ?rest"
    by (intro quiet_then quiet_bind) (simp_all add: quiet_configureFMMUs quiet_configureMailboxFMMUs)
  have "mt_bus m' = set_pointers ?b"
    using quietD [OF q _ rest] assms(3) by simp
  then show ?thesis using set_pointers_mapped [OF assms(4,5) req] by simp
qed

end
