(* ===== verification/BusCounters.thy ===== *)
theory BusCounters
  imports BusReady
begin

text \<open>
  The working counters a master expects of the three logical commands: what the layout computes slave by slave
  for LRW is what LRD and LWR expect together.
\<close>

definition sum_contributions :: "lf_entry list \<Rightarrow> u16" where
  "sum_contributions es = (\<Sum>e\<leftarrow>es. contribution e)"

lemma sum_contributions_update:
  "i < length es \<Longrightarrow> sum_contributions (es[i := e]) = sum_contributions es + (contribution e - contribution (es ! i))"
proof (induction es arbitrary: i)
  case (Cons x es)
  then show ?case by (cases i) (simp_all add: sum_contributions_def)
qed simp

lemma sum_contributions_filter: "sum_contributions (filter (\<lambda>e. contribution e > 0) es) = sum_contributions es"
  by (induction es) (auto simp: sum_contributions_def word_gt_0)

lemma length_counts [simp]:
  "length (count_input b es) = length es" "length (count_output b es) = length es"
  "length (fst (count_status ss ms x)) = length (fst x)" "length (snd (count_status ss ms x)) = length (snd x)"
  by (auto simp: count_input_def count_output_def count_status_def Let_def split: prod.split)

lemma count_inputs_sum:
  "\<forall>b \<in> set bs. bi_slave b < length es \<Longrightarrow>
   sum_contributions (fold count_input bs es) = sum_contributions es + of_nat (length bs) \<and> length (fold count_input bs es) = length es"
proof (induction bs arbitrary: es)
  case (Cons b bs)
  then show ?case by (auto simp: sum_contributions_update count_input_def [of b])
qed simp

lemma count_outputs_sum:
  "\<forall>b \<in> set bs. bi_slave b < length es \<Longrightarrow>
   sum_contributions (fold count_output bs es) = sum_contributions es + 2 * of_nat (length bs) \<and> length (fold count_output bs es) = length es"
proof (induction bs arbitrary: es)
  case (Cons b bs)
  then show ?case by (auto simp: sum_contributions_update count_output_def [of b] algebra_simps)
qed simp

text \<open>The slaves whose status bits add to the counter: without inputs, not counted before.\<close>

definition uncounted :: "mslave list \<Rightarrow> bool list \<Rightarrow> nat set \<Rightarrow> nat set" where
  "uncounted ss counted I = {i \<in> I. pi_bsize (sv_input (ss ! i)) = 0 \<and> \<not> counted ! i}"

lemma count_status_sum:
  assumes "length es = length counted" and "\<forall>ms \<in> set mss. st_slave ms < length counted"
  shows "sum_contributions (fst (fold (count_status ss) mss (es, counted))) =
    sum_contributions es + of_nat (card (uncounted ss counted (st_slave ` set mss)))"
  using assms
proof (induction mss arbitrary: es counted)
  case Nil
  then show ?case by (simp add: uncounted_def)
next
  case (Cons ms mss)
  let ?i = "st_slave ms" and ?S = "st_slave ` set mss"
  show ?case
  proof (cases "pi_bsize (sv_input (ss ! ?i)) = 0 \<and> \<not> counted ! ?i")
    case True
    let ?es = "es[?i := (es ! ?i)\<lparr>contribution := contribution (es ! ?i) + 1\<rparr>]" and ?c = "counted[?i := True]"
    have step: "count_status ss ms (es, counted) = (?es, ?c)" using True by (simp add: count_status_def Let_def)
    have i: "?i < length counted" "?i < length es" using Cons.prems by auto
    have "uncounted ss ?c ?S = uncounted ss counted (insert ?i ?S) - {?i}"
      using i by (auto simp: uncounted_def nth_list_update)
    moreover have "?i \<in> uncounted ss counted (insert ?i ?S)" "finite (uncounted ss counted (insert ?i ?S))"
      using True by (auto simp: uncounted_def)
    ultimately have card: "card (uncounted ss counted (insert ?i ?S)) = Suc (card (uncounted ss ?c ?S))"
      by (metis card_Suc_Diff1)
    have "sum_contributions (fst (fold (count_status ss) mss (?es, ?c)))
        = sum_contributions ?es + of_nat (card (uncounted ss ?c ?S))"
      using Cons by simp
    then show ?thesis using i step by (simp add: card sum_contributions_update)
  next
    case False
    then have "uncounted ss counted (insert ?i ?S) = uncounted ss counted ?S" by (auto simp: uncounted_def)
    moreover have "count_status ss ms (es, counted) = (es, counted)" using False by (auto simp: count_status_def Let_def)
    ultimately show ?thesis using Cons by simp
  qed
qed

lemma expected_lrw_wkc:
  assumes "\<forall>b \<in> set (pf_inputs f) \<union> set (pf_outputs f). bi_slave b < length ss"
    and "\<forall>ms \<in> set (pf_read_status f) \<union> set (pf_write_status f). st_slave ms < length ss"
  shows "pf_expected_lrw_wkc (expect_frame ss f) =
    of_nat (length (pf_inputs f)) + 2 * of_nat (length (pf_outputs f))
      + of_nat (card (uncounted ss (replicate (length ss) False) (st_slave ` (set (pf_read_status f) \<union> set (pf_write_status f)))))"
proof -
  let ?e0 = "replicate (length ss) entry_new"
  let ?e1 = "fold count_input (pf_inputs f) ?e0"
  let ?e2 = "fold count_output (pf_outputs f) ?e1"
  have 0: "sum_contributions ?e0 = 0" by (induction ss) (simp_all add: sum_contributions_def entry_new_def)
  have 1: "sum_contributions ?e1 = of_nat (length (pf_inputs f))" "length ?e1 = length ss"
    using count_inputs_sum [of "pf_inputs f" ?e0] assms(1) 0 by simp_all
  have 2: "sum_contributions ?e2 = of_nat (length (pf_inputs f)) + 2 * of_nat (length (pf_outputs f))" "length ?e2 = length ss"
    using count_outputs_sum [of "pf_outputs f" ?e1] assms(1) 1 by simp_all
  have "sum_contributions (entries_by_position ss f) = sum_contributions ?e2
      + of_nat (card (uncounted ss (replicate (length ss) False) (st_slave ` set (pf_read_status f @ pf_write_status f))))"
    unfolding entries_by_position_def Let_def using assms(2) 2(2) by (intro count_status_sum) auto
  then show ?thesis
    using 2(1) sum_contributions_filter [of "entries_by_position ss f"]
    by (simp add: expect_frame_def Let_def sum_contributions_def)
qed

lemma map_st_slave: "map st_slave (status_entries off mbx) = mbx"
  by (simp add: status_entries_def comp_def split_beta)

text \<open>The slaves with status bits in an extended frame.\<close>

lemma extended_status:
  assumes "mode = 0 \<or> mode AND 1 \<noteq> 0 \<or> mode AND 2 \<noteq> 0" and "pf_read_status f = []" "pf_write_status f = []" "pf_wkc_read_adjust f = 0"
    and g: "g = extend_frame mode ss f mbx"
  shows "st_slave ` (set (pf_read_status g) \<union> set (pf_write_status g)) = (if mode = 0 then {} else set mbx)"
    and "pf_wkc_read_adjust g = of_nat (if mode = 0 then 0 else length (filter (\<lambda>i. pi_bsize (sv_input (ss ! i)) = 0) mbx))"
proof -
  have img: "st_slave ` set (status_entries off mbx) = set mbx" for off
    using map_st_slave [of off mbx] by (metis list.set_map)
  show "st_slave ` (set (pf_read_status g) \<union> set (pf_write_status g)) = (if mode = 0 then {} else set mbx)"
    using assms(1-3) by (auto simp: g extend_frame_def Let_def img image_Un)
  show "pf_wkc_read_adjust g = of_nat (if mode = 0 then 0 else length (filter (\<lambda>i. pi_bsize (sv_input (ss ! i)) = 0) mbx))"
    using assms(4) by (auto simp: g extend_frame_def Let_def)
qed

lemma all2_ball: "list_all2 (\<lambda>x y. P x \<longrightarrow> P y) xs ys \<Longrightarrow> \<forall>x \<in> set xs. P x \<Longrightarrow> \<forall>y \<in> set ys. P y"
  by (induction xs ys rule: list_all2_induct) auto

lemma group_distinct: "g \<in> set (groups sz n) \<Longrightarrow> distinct g"
  using groups_concat [of sz n] distinct_upt [of 0 n] distinct_concat_iff [of "groups sz n"] by auto

lemma group_counters:
  assumes fit: "\<forall>s \<in> set slaves. fits s" and n: "length slaves \<le> 65535"
    and g: "g \<in> set (groups (slot_size slaves) (length slaves))" and len: "length ss = length slaves"
    and mode: "mode = 0 \<or> mode AND 1 \<noteq> 0 \<or> mode AND 2 \<noteq> 0"
    and f: "f = expect_frame ss (extend_frame mode ss (fst (pdo_group slaves (k, g))) (snd (pdo_group slaves (k, g))))"
  shows "pf_expected_lrw_wkc f = of_nat (length (pf_inputs f)) + pf_wkc_read_adjust f + 2 * of_nat (length (pf_outputs f))"
proof -
  let ?h = "extend_frame mode ss (fst (pdo_group slaves (k, g))) (with_mailbox slaves g)"
  have "group_size (slot_size slaves) g \<le> MAX_PI" using groups_fit [of "length slaves" "slot_size slaves"] slot_fits fit g by auto
  note fields = pdo_group_fields [OF this, of k]
  note member = group_members [OF g]
  have mbx: "set (with_mailbox slaves g) \<subseteq> {..<length ss}" "distinct (with_mailbox slaves g)"
    using member(1) group_distinct [OF g] len by (auto simp: with_mailbox_def)
  note status = extended_status [OF mode fields(5,6,7) refl, of ss "with_mailbox slaves g"]
  have "\<forall>b \<in> set (pf_inputs ?h) \<union> set (pf_outputs ?h). bi_slave b \<in> set g"
    using map_slave_blocks [of "in_size slaves" "slot_size slaves" 0 g] map_slave_blocks [of "out_size slaves" "slot_size slaves" 0 g]
    by (auto simp: extend_frame_fields fields dest!: arg_cong [of _ _ set])
  then have io: "\<forall>b \<in> set (pf_inputs ?h) \<union> set (pf_outputs ?h). bi_slave b < length ss" using member(1) len by auto
  have st: "\<forall>ms \<in> set (pf_read_status ?h) \<union> set (pf_write_status ?h). st_slave ms < length ss"
    using status(1) mbx(1) by (auto split: if_splits)
  have "uncounted ss (replicate (length ss) False) (set (with_mailbox slaves g))
      = set (filter (\<lambda>i. pi_bsize (sv_input (ss ! i)) = 0) (with_mailbox slaves g))"
    using mbx(1) by (auto simp: uncounted_def)
  then have "card (uncounted ss (replicate (length ss) False) (set (with_mailbox slaves g)))
      = length (filter (\<lambda>i. pi_bsize (sv_input (ss ! i)) = 0) (with_mailbox slaves g))"
    using distinct_card [OF distinct_filter [OF mbx(2)]] by (metis (no_types, lifting))
  moreover have "uncounted ss (replicate (length ss) False) {} = {}" by (simp add: uncounted_def)
  ultimately have "pf_expected_lrw_wkc (expect_frame ss ?h) =
      of_nat (length (pf_inputs ?h)) + 2 * of_nat (length (pf_outputs ?h)) + pf_wkc_read_adjust ?h"
    using expected_lrw_wkc [OF io st] status by simp
  moreover have "pf_wkc_read_adjust (expect_frame ss ?h) = pf_wkc_read_adjust ?h" by (simp add: expect_frame_def Let_def)
  ultimately show ?thesis by (simp add: f fields(4))
qed

text \<open>(C5) The expected working counters agree. For every frame of a mapping, with or without mailbox status bits, the
  counter LRW must return (a sum over the slaves: one for reading, two for writing) is the counter LRD must
  return (the inputs, plus the slaves that answer only with their status bits) plus twice the one of LWR. So the
  three commands agree on which slaves have answered, and the sum that attributes slaves to ring segments is the
  one the cyclic check uses.\<close>

theorem working_counters_agree:
  assumes "\<forall>s \<in> set (bs_slaves b). fits s" and "length (bs_slaves b) \<le> 65535" and "bs_mailbox_status b < 4"
  shows "\<forall>f \<in> set (bs_pi_frames (set_pointers (set_layout b))).
    pf_expected_lrw_wkc f = of_nat (length (pf_inputs f)) + pf_wkc_read_adjust f + 2 * of_nat (length (pf_outputs f))"
proof -
  let ?P = "\<lambda>f. pf_expected_lrw_wkc f = of_nat (length (pf_inputs f)) + pf_wkc_read_adjust f + 2 * of_nat (length (pf_outputs f))"
  have mode: "bs_mailbox_status b = 0 \<or> bs_mailbox_status b AND 1 \<noteq> 0 \<or> bs_mailbox_status b AND 2 \<noteq> 0"
  proof -
    have "unat (bs_mailbox_status b) < 4" using assms(3) by (simp add: word_less_nat_alt)
    then have "unat (bs_mailbox_status b) \<in> {0, 1, 2, 3}" by auto
    then have "bs_mailbox_status b \<in> {0, 1, 2, 3}" by (auto simp: word_unat_eq_iff)
    then show ?thesis by auto
  qed
  obtain ss fs where l: "layout_frames (bs_mailbox_status b) (bs_slaves b) = (ss, fs)" by fastforce
  obtain gs ts where a: "attach_client fs ss = (gs, ts)" by fastforce
  have len: "length ss = length (bs_slaves b)" using layout_frames_mapped(1) [OF assms(1,2) l] .
  have "\<forall>f \<in> set fs. ?P f"
    using layout_slaves_packing [OF assms(1,2)] l group_counters [OF assms(1,2) _ len mode refl]
    by (auto simp: layout_frames_def split_beta in_set_enumerate_eq)
  moreover have "list_all2 (\<lambda>f g. list_all2 same_block (pf_inputs f) (pf_inputs g) \<and> list_all2 same_block (pf_outputs f) (pf_outputs g)
      \<and> g = f\<lparr>pf_inputs := pf_inputs g, pf_outputs := pf_outputs g\<rparr>) fs gs"
    using attach_client_spans [OF a] by simp
  then have "list_all2 (\<lambda>f g. ?P f \<longrightarrow> ?P g) fs gs"
  proof (rule list_all2_mono)
    fix f g
    assume fg: "list_all2 same_block (pf_inputs f) (pf_inputs g) \<and> list_all2 same_block (pf_outputs f) (pf_outputs g)
      \<and> g = f\<lparr>pf_inputs := pf_inputs g, pf_outputs := pf_outputs g\<rparr>"
    then have "length (pf_inputs g) = length (pf_inputs f)" "length (pf_outputs g) = length (pf_outputs f)"
      by (auto dest: list_all2_lengthD)
    moreover have "pf_expected_lrw_wkc g = pf_expected_lrw_wkc f" "pf_wkc_read_adjust g = pf_wkc_read_adjust f"
      by (subst conjunct2 [OF conjunct2 [OF fg]], simp)+
    ultimately show "?P f \<longrightarrow> ?P g" by simp
  qed
  ultimately have "\<forall>g \<in> set gs. ?P g"
    by (rule all2_ball [rotated])
  then show ?thesis using l a by (simp add: set_layout_def set_pointers_def)
qed

section \<open>A bus with one slave\<close>

text \<open>A link on which one slave answers every datagram, and a bus with a slave that has two bytes of inputs and two of
  outputs, mapped on a buffer of four bytes.\<close>

definition echo_env :: "unit bus_env" where
  "echo_env = \<lparr>be_writeThenRead = (\<lambda>reqs n. (Inr (map (\<lambda>(c, a, d, l). (case d of None \<Rightarrow> replicate (unat l) 0 | Some bs \<Rightarrow> bs, 1)) reqs), n)),
     be_exchange = (\<lambda>reqs n. (map (\<lambda>(c, a, d, l). Reply (replicate (unat l) 7) (if c = LRW then 3 else 1) 0) reqs, n)),
     be_now = (\<lambda>n. (0, n)), be_since_ecat_epoch = (\<lambda>n. (0, n)), be_sleep = (\<lambda>d n. n),
     be_setLogicalMapping = (\<lambda>d n. n), be_attachEcatEventCallback = (\<lambda>e n. n)\<rparr>"

definition io_slave :: mslave where
  "io_slave = Slave_default\<lparr>sv_address := 1001, sv_static := True,
     sv_sii := SII_new\<lparr>sii_syncManagers := replicate 4 \<lparr>se_start_address = 0x1000, se_length = 2, se_control_register = 0,
       se_status_register = 0, se_enable = 1, se_type = 3\<rparr>\<rparr>,
     sv_input := PIMapping_new\<lparr>pi_bsize := 2, pi_sync_manager := 3\<rparr>,
     sv_output := PIMapping_new\<lparr>pi_bsize := 2, pi_sync_manager := 2\<rparr>\<rparr>"

definition one_slave :: "unit master" where
  "one_slave = \<lparr>mt_bus = (Bus_new [1, 2, 3, 4])\<lparr>bs_slaves := [io_slave]\<rparr>, mt_queue = [], mt_net = ()\<rparr>"

lemma io_slave_fits: "fits io_slave"
  by (simp add: fits_def block_size_def io_slave_def PIMapping_new_def Slave_default_def)

lemma one_slave_simps [simp]:
  "bs_slaves (mt_bus one_slave) = [io_slave]" "bs_iomap (mt_bus one_slave) = [1, 2, 3, 4]" "mt_queue one_slave = []"
  "bs_mailbox_status (mt_bus one_slave) = 0" "bs_dc_slave (mt_bus one_slave) = None"
  by (simp_all add: one_slave_def Bus_new_def)

theorem process_image_layout_witness:
  "length (fst (layout_slaves [io_slave, io_slave])) = 2
   \<and> concat (map (\<lambda>(f, _). map bi_slave (pf_inputs f)) (snd (layout_slaves [io_slave, io_slave]))) = [0, 1]"
proof -
  let ?ss = "fst (layout_slaves [io_slave, io_slave])" and ?fs = "snd (layout_slaves [io_slave, io_slave])"
  have p: "length ?ss = length [io_slave, io_slave]"
    "concat (map (\<lambda>(f, _). map bi_slave (pf_inputs f)) ?fs) = filter (\<lambda>i. 0 < pi_bsize (sv_input (?ss ! i))) [0..<length ?ss]"
    using process_image_layout [of "[io_slave, io_slave]" ?ss ?fs] io_slave_fits by simp_all
  have f: "filter (\<lambda>i. 0 < pi_bsize (sv_input (?ss ! i))) [0..<length ?ss] = [0, 1]" by code_simp
  show ?thesis using p(1) trans [OF p(2) f] by simp
qed

theorem working_counters_agree_witness:
  "let f = bs_pi_frames (set_pointers (set_layout (mt_bus one_slave))) ! 0
   in pf_expected_lrw_wkc f = of_nat (length (pf_inputs f)) + pf_wkc_read_adjust f + 2 * of_nat (length (pf_outputs f))
    \<and> pf_expected_lrw_wkc f = 3"
proof -
  let ?fs = "bs_pi_frames (set_pointers (set_layout (mt_bus one_slave)))"
  have "0 < length ?fs" "pf_expected_lrw_wkc (?fs ! 0) = 3" by code_simp+
  then show ?thesis using working_counters_agree [of "mt_bus one_slave"] io_slave_fits by (simp add: Let_def)
qed

theorem create_mapping_sound_witness:
  "\<exists>m'. createMapping echo_env (Some 4) one_slave = Some (Inr (), m') \<and> mapped (mt_bus m')"
proof -
  let ?s = "io_slave\<lparr>sv_input := (sv_input io_slave)\<lparr>pi_size := 16\<rparr>, sv_output := (sv_output io_slave)\<lparr>pi_size := 16\<rparr>\<rparr>"
  let ?m = "one_slave\<lparr>mt_bus := (mt_bus one_slave)\<lparr>bs_slaves := [?s]\<rparr>\<rparr>"
  have d: "detectMapping echo_env one_slave = Some (Inr (), ?m)"
    by (simp add: detectMapping_def for_slaves_def bindE_simps detect_slave_def slave_at_def io_slave_def Slave_default_def
        PIMapping_new_def thenE_def bindE_def busE_def updE_def retE_def upd_slave_def)
  have "map_option fst (createMapping echo_env (Some 4) one_slave) = Some (Inr ())" by code_simp
  then obtain m' where c: "createMapping echo_env (Some 4) one_slave = Some (Inr (), m')" by auto
  have four: "length (bs_iomap (mt_bus ?m)) = 4" by simp
  have "fits ?s" using io_slave_fits by (simp add: fits_def block_size_def)
  then have "mapped (mt_bus m')" by (intro conjunct1 [OF create_mapping_sound [OF c [folded four] d]]) simp_all
  then show ?thesis using c by blast
qed

lemma echo_sized: "sized_env echo_env"
  by (auto simp: sized_env_def echo_env_def answers_sized_def list_all2_conv_all_nth split_beta)

theorem process_data_cycle_witness:
  "\<exists>r fs rs n io ss.
      processDataReadWrite echo_env log_only (one_slave\<lparr>mt_bus := set_pointers (set_layout (mt_bus one_slave))\<rparr>) =
        Some (r, one_slave\<lparr>mt_bus := (set_pointers (set_layout (mt_bus one_slave)))\<lparr>bs_iomap := io, bs_slaves := ss, bs_pi_frames := fs\<rparr>,
          mt_queue := [], mt_net := n\<rparr>)
    \<and> be_exchange echo_env (map lrw_request fs) () = (rs, n)
    \<and> list_all2 (stores_inputs [1, 2, 3, 4] io) (bs_pi_frames (set_pointers (set_layout (mt_bus one_slave)))) rs"
proof -
  let ?m = "one_slave\<lparr>mt_bus := set_pointers (set_layout (mt_bus one_slave))\<rparr>"
  have "required_size (bs_pi_frames (set_layout (mt_bus one_slave))) \<le> int (length (bs_iomap (mt_bus one_slave)))" by code_simp
  then have "mapped (mt_bus ?m)" using set_pointers_mapped [of "mt_bus one_slave"] io_slave_fits by simp
  moreover have "length (bs_pi_frames (mt_bus ?m)) \<le> 255" "bs_dc_slave (mt_bus ?m) = None" "bs_iomap (mt_bus ?m) = [1, 2, 3, 4]" by code_simp+
  moreover have "\<forall>st b. snd (log_only st b) = b" by (simp add: log_only_def)
  ultimately show ?thesis
    using process_data_cycle [of ?m echo_env log_only] echo_sized by simp metis
qed

end
