(* ===== verification/BusFaults.thy ===== *)
theory BusFaults
  imports BusCounters
begin

text \<open>
  Where the master does not do what it is meant to: a message that waits in a mailbox at start-up, and
  buses with more slaves than datagrams in flight.
\<close>

section \<open>Queueing a datagram per slave\<close>

lemma seq_queue:
  assumes "\<And>i m. i \<in> set is \<Longrightarrow> mt_bus m = b \<Longrightarrow> length (mt_queue m) + length (q i) \<le> 255 \<Longrightarrow>
      f i m = Some (Inr (), m\<lparr>mt_queue := mt_queue m @ q i\<rparr>)"
    and "mt_bus m = b" and "length (mt_queue m) + length (concat (map q is)) \<le> 255"
  shows "seqE (map f is) m = Some (Inr (), m\<lparr>mt_queue := mt_queue m @ concat (map q is)\<rparr>)"
  using assms
proof (induction "is" arbitrary: m)
  case Nil
  then show ?case by (simp add: retE_def)
next
  case (Cons i js)
  let ?m = "m\<lparr>mt_queue := mt_queue m @ q i\<rparr>"
  have "f i m = Some (Inr (), ?m)" using Cons.prems by simp
  moreover have "seqE (map f js) ?m = Some (Inr (), ?m\<lparr>mt_queue := mt_queue ?m @ concat (map q js)\<rparr>)"
    using Cons.prems by (intro Cons.IH) simp_all
  ultimately show ?case by (simp add: thenE_Inr)
qed

text \<open>A bus of more than 255 slaves cannot be initialized: \<open>fetchESC\<close> queues one datagram for every slave
  before it processes any of them, and the link refuses the 256th.\<close>

theorem fetchESC_too_many_slaves:
  assumes "255 < length (bs_slaves (mt_bus m))" and "mt_queue m = []"
  shows "\<exists>m'. fetchESC env m = Some (Inl (Error TOO_MANY), m')"
proof -
  let ?f = "\<lambda>i. bindE (busE (slave_at i)) (\<lambda>s. link_add
       \<lparr>pd_request = (FPRD, createAddress (sv_address s) 0x0000, None, 10),
        pd_process = on_one (\<lambda>data. upd_slave i (\<lambda>s. s\<lparr>sv_esc := peek data 0 10\<rparr>)),
        pd_error = throw_state ''Error while fetching Slave ESC description''\<rparr>)"
  let ?q = "\<lambda>i. [\<lparr>pd_request = (FPRD, createAddress (sv_address (slave_at i (mt_bus m))) 0x0000, None, 10),
        pd_process = on_one (\<lambda>data. upd_slave i (\<lambda>s. s\<lparr>sv_esc := peek data 0 10\<rparr>)),
        pd_error = throw_state ''Error while fetching Slave ESC description''\<rparr>]"
  let ?n = "length (bs_slaves (mt_bus m))"
  let ?m = "m\<lparr>mt_queue := concat (map ?q [0..<255])\<rparr>"
  have split: "[0..<?n] = [0..<255] @ 255 # [256..<?n]"
    using assms(1) upt_add_eq_append [of 0 255 "?n - 255"] upt_conv_Cons [of 255 ?n] by simp
  have len: "length (concat (map ?q is)) = length is" for "is" by (induction "is") simp_all
  have "seqE (map ?f [0..<255]) m = Some (Inr (), m\<lparr>mt_queue := mt_queue m @ concat (map ?q [0..<255])\<rparr>)"
    by (rule seq_queue [of _ "mt_bus m"]) (use assms(2) len [of "[0..<255]"] in \<open>simp_all add: bindE_simps link_add_def\<close>)
  then have first: "seqE (map ?f [0..<255]) m = Some (Inr (), ?m)" using assms(2) by simp
  have "?f 255 ?m = Some (Inl (Error TOO_MANY), ?m)"
    using len [of "[0..<255]"] by (simp add: bindE_simps link_add_def)
  then have "seqE (map ?f (255 # [256..<?n])) ?m = Some (Inl (Error TOO_MANY), ?m)"
    by (simp add: thenE_def bindE_def)
  then have "seqE (map ?f [0..<?n]) m = Some (Inl (Error TOO_MANY), ?m)"
    unfolding split map_append seqE_append using first by (simp add: thenE_Inr)
  then show ?thesis
    by (simp add: fetchESC_def for_slaves_def thenE_def bindE_def busE_def)
qed

theorem fetchESC_too_many_slaves_witness:
  "\<exists>m'. fetchESC echo_env (one_slave\<lparr>mt_bus := (mt_bus one_slave)\<lparr>bs_slaves := replicate 256 io_slave\<rparr>\<rparr>) = Some (Inl (Error TOO_MANY), m')"
  by (rule fetchESC_too_many_slaves) simp_all

section \<open>A message that waits at start-up\<close>

definition no_requests :: "bus \<Rightarrow> bool" where
  "no_requests b \<longleftrightarrow> (\<forall>s \<in> set (bs_slaves b). qb_to_send (sv_mailbox s) = [] \<and> qb_to_process (sv_mailbox s) = [])"

lemma request_receive_idle: "qb_to_process mb = [] \<Longrightarrow> request_receive data t mb = Some (False, mb)"
  by (simp add: request_receive_def drop_timed_out_def)

lemma receive_message_idle:
  assumes "no_requests b" and "i < length (bs_slaves b)"
  shows "receive_message i data 1 t b = Some (NO_HANDLER, b)"
proof -
  have "qb_to_process (sv_mailbox (bs_slaves b ! i)) = []" using assms by (simp add: no_requests_def)
  then show ?thesis
    by (simp add: receive_message_def slave_at_def request_receive_idle upd_mailbox_def upd_slave_def)
qed

definition answered :: "reply \<Rightarrow> bool" where
  "answered r = (case r of Reply data wkc t \<Rightarrow> wkc = 1 | NoReply st \<Rightarrow> False)"

lemma settle_idle:
  assumes "no_requests b" and "\<forall>p \<in> set ps. \<exists>i < length (bs_slaves b). pd_process p = receive_message i"
    and "list_all answered rs" and "length rs = length ps"
  shows "settle_all ps rs b = Some (replicate (length ps) NO_HANDLER, b)"
  using assms(2-4)
proof (induction ps arbitrary: rs)
  case (Cons p ps)
  then obtain r rs' where rs: "rs = r # rs'" by (cases rs) auto
  then obtain data t where r: "r = Reply data 1 t" using Cons.prems(2) by (cases r) (auto simp: answered_def)
  obtain i where "i < length (bs_slaves b)" "pd_process p = receive_message i" using Cons.prems(1) by auto
  then show ?case using Cons rs r receive_message_idle [OF assms(1)] by simp
qed simp

lemma report_no_handler:
  assumes "\<forall>p \<in> set ps. pd_error p = throw_state msg" and "ps \<noteq> []"
  shows "report_all ps (replicate (length ps) NO_HANDLER) x b = (Some (ErrorDatagram msg NO_HANDLER), b)"
  using assms
proof (induction ps arbitrary: x)
  case (Cons p ps)
  then show ?case by (cases "ps = []") (simp_all add: throw_state_def)
qed simp

lemma seq_quietly: "\<forall>i \<in> set is. f i m = Some (Inr (), m) \<Longrightarrow> seqE (map f is) m = Some (Inr (), m)"
  by (induction "is") (simp_all add: retE_def thenE_Inr)

text \<open>A message that waits in the mailbox of a slave at start-up aborts \<open>init\<close>. Its last step, meant to clear
  the mailboxes, reads the messages while no handler is installed yet: whenever some slave has a message waiting
  and all of them are read, the step throws NO_HANDLER, whatever the messages are.\<close>

theorem init_pending_message_aborts:
  assumes "no_requests (mt_bus m)" and "mt_queue m = []" and "length (bs_slaves (mt_bus m)) \<le> 255"
    and "\<exists>s \<in> set (bs_slaves (mt_bus m)). sv_can_read s"
    and "\<And>reqs n. list_all answered (fst (be_exchange env reqs n)) \<and> length (fst (be_exchange env reqs n)) = length reqs"
  shows "\<exists>m'. processMessages env (throw_state msg) m = Some (Inl (ErrorDatagram msg NO_HANDLER), m')"
proof -
  let ?b = "mt_bus m" and ?n = "length (bs_slaves (mt_bus m))"
  let ?p = "\<lambda>i s. \<lparr>pd_request = (FPRD, createAddress (sv_address s) (qb_send_offset (sv_mailbox s)), None,
                         qb_send_size (sv_mailbox s)), pd_process = receive_message i, pd_error = throw_state msg\<rparr>"
  let ?q = "\<lambda>i. if sv_can_read (slave_at i ?b) then [?p i (slave_at i ?b)] else []"
  let ?ps = "concat (map ?q [0..<?n])" and ?rs = "fst (be_exchange env (map pd_request (concat (map ?q [0..<?n]))) (mt_net m))"
  have idle: "qb_to_send (sv_mailbox (slave_at i ?b)) = []" if "i < ?n" for i
    using assms(1) that by (simp add: no_requests_def slave_at_def)
  have w: "sendWriteMessages env (throw_state msg) m = Some (Inr (), m)"
    unfolding sendWriteMessages_def for_slaves_def bindE_simps by (rule seq_quietly) (simp add: idle bindE_simps retE_def)
  have "length (concat (map ?q js)) \<le> length js" for js by (induction js) simp_all
  from this [of "[0..<?n]"] have len: "length ?ps \<le> 255" using assms(3) by (simp add: del: length_concat)
  have "seqE (map (\<lambda>i. bindE (busE (slave_at i)) (\<lambda>s. if sv_can_read s then link_add (?p i s) else retE ())) [0..<?n]) m
      = Some (Inr (), m\<lparr>mt_queue := mt_queue m @ ?ps\<rparr>)"
    by (rule seq_queue [of _ ?b]) (use len assms(2) in \<open>auto simp: bindE_simps link_add_def retE_def\<close>)
  then have r: "sendReadMessages (throw_state msg) m = Some (Inr (), m\<lparr>mt_queue := ?ps\<rparr>)"
    using assms(2) by (simp add: sendReadMessages_def for_slaves_def bindE_simps)
  have ps: "\<forall>p \<in> set ?ps. (\<exists>i < ?n. pd_process p = receive_message i) \<and> pd_error p = throw_state msg" by auto
  obtain i where i: "i < ?n" "sv_can_read (slave_at i ?b)" using assms(4) by (auto simp: in_set_conv_nth slave_at_def)
  then have "?q i \<in> set (map ?q [0..<?n])" "?q i \<noteq> []" by simp_all
  then have ne: "?ps \<noteq> []" unfolding concat_eq_Nil_conv by blast
  have "settle_all ?ps ?rs ?b = Some (replicate (length ?ps) NO_HANDLER, ?b)"
    using ps assms(5) by (intro settle_idle [OF assms(1)]) auto
  moreover have "report_all ?ps (replicate (length ?ps) NO_HANDLER) None ?b = (Some (ErrorDatagram msg NO_HANDLER), ?b)"
    using ps ne by (intro report_no_handler) auto
  ultimately have "\<exists>m'. link_process env (m\<lparr>mt_queue := ?ps\<rparr>) = Some (Inl (ErrorDatagram msg NO_HANDLER), m')"
    by (simp add: link_process_def Let_def split_beta del: length_concat)
  then show ?thesis using w r by (simp add: processMessages_def thenE_Inr)
qed

definition reads_env :: "unit bus_env" where
  "reads_env = echo_env\<lparr>be_exchange := (\<lambda>reqs n. (map (\<lambda>_. Reply [] 1 0) reqs, n))\<rparr>"

theorem init_pending_message_aborts_witness:
  "\<exists>m'. processMessages reads_env (throw_state ''clear'')
      (one_slave\<lparr>mt_bus := (mt_bus one_slave)\<lparr>bs_slaves := [io_slave\<lparr>sv_can_read := True\<rparr>]\<rparr>\<rparr>)
    = Some (Inl (ErrorDatagram ''clear'' NO_HANDLER), m')"
  by (rule init_pending_message_aborts)
    (simp_all add: no_requests_def io_slave_def Slave_default_def request_Mailbox_new_def reads_env_def list_all_iff answered_def)

end
