(* ===== verification/BusStates.thy ===== *)
theory BusStates
  imports BusReady
begin

text \<open>
  Waiting for the slaves (\<open>Bus::waitForState\<close>): with a clock that advances the wait ends, and when it ends well
  every slave answered with the state in the last round.
\<close>

text \<open>The request for the AL status of a slave, and the state that an answer reports: with the error bit, and no error code,
  the state below it; with an error code none.\<close>

definition status_read :: "u16 \<Rightarrow> dreq" where
  "status_read address = (FPRD, createAddress address 0x130, None, 6)"

definition reported :: "bytes \<Rightarrow> u8 option" where
  "reported data = (if data ! 0 AND 0x10 = 0 then Some (data ! 0)
     else if get16 data 4 = 0 then Some (data ! 0 AND 0xF) else None)"

text \<open>A round of questions: from the state \<open>n\<close> of the network to \<open>n'\<close> the slaves of these addresses are asked one after the
  other, and each question comes back from exactly one slave with the requested state.\<close>

fun answered :: "'n bus_env \<Rightarrow> u8 \<Rightarrow> u16 list \<Rightarrow> 'n \<Rightarrow> 'n \<Rightarrow> bool" where
  "answered env st [] n n' \<longleftrightarrow> n' = n"
| "answered env st (a # stations) n n' \<longleftrightarrow> (\<exists>data t rs n1. be_exchange env [status_read a] n = (Reply data 1 t # rs, n1)
     \<and> reported data = Some st \<and> answered env st stations n1 n')"

text \<open>The state after one slave was asked.\<close>

abbreviation stations :: "'n master \<Rightarrow> u16 list" where
  "stations m \<equiv> map sv_address (bs_slaves (mt_bus m))"

definition asked :: "'n master \<Rightarrow> 'n master \<Rightarrow> bool" where
  "asked m m' \<longleftrightarrow> mt_queue m' = [] \<and> stations m' = stations m"

lemma upd_slave_slaves [simp]:
  "bs_slaves (upd_slave i f b) = (bs_slaves b)[i := f (bs_slaves b ! i)]"
  by (simp add: upd_slave_def)

lemma map_update_same: "g y = g (xs ! i) \<Longrightarrow> map g (xs[i := y]) = map g xs"
  by (metis list_update_id map_update)

text \<open>What an answer to one question changes: nothing unless it came from exactly one slave.\<close>

definition taken :: "(bytes \<Rightarrow> bus \<Rightarrow> bus) \<Rightarrow> reply list \<Rightarrow> bus \<Rightarrow> bus" where
  "taken f rs b = (case rs of Reply data wkc t # _ \<Rightarrow> if wkc = 1 then f data b else b | _ \<Rightarrow> b)"

lemma link_process_one:
  assumes "mt_queue m = [p]" and "pd_process p = on_one f" and "pd_error p = log_only"
    and "be_exchange env [pd_request p] (mt_net m) = (rs, n)"
  shows "link_process env m = Some (Inr (), m\<lparr>mt_bus := taken f rs (mt_bus m), mt_queue := [], mt_net := n\<rparr>)"
proof -
  obtain st where s: "settle_all [p] rs (mt_bus m) = Some ([st], taken f rs (mt_bus m))"
  proof (cases rs)
    case (Cons r rs')
    then show thesis
    proof (cases r)
      case (Reply data wkc t)
      then show thesis using Cons assms(2) that by (cases "wkc = 1") (simp_all add: on_one_def taken_def)
    qed (use Cons that in \<open>simp add: taken_def\<close>)
  qed (use that in \<open>simp add: taken_def\<close>)
  have "report_all [p] [st] None (taken f rs (mt_bus m)) = (None, taken f rs (mt_bus m))"
    using assms(3) by (cases "st = OK") (simp_all add: log_only_def)
  then show ?thesis using assms(1,4) s by (simp add: link_process_def)
qed

lemma getCurrentState_spec:
  assumes "mt_queue m = []" and "i < length (bs_slaves (mt_bus m))"
  shows "\<exists>r m'. getCurrentState env i m = Some (r, m') \<and> asked m m'
    \<and> mt_net m' = snd (be_exchange env [status_read (stations m ! i)] (mt_net m))
    \<and> (\<forall>st. r = Inr st \<and> st \<noteq> 0 \<longrightarrow> answered env st [stations m ! i] (mt_net m) (mt_net m'))"
proof -
  let ?b = "upd_slave i (\<lambda>s. s\<lparr>sv_al_status := 0\<rparr>) (mt_bus m)"
  let ?g = "\<lambda>data s. s\<lparr>sv_al_status := data ! 0, sv_al_status_code := get16 data 4\<rparr>"
  let ?p = "\<lparr>pd_request = status_read (stations m ! i), pd_process = on_one (\<lambda>data. upd_slave i (?g data)), pd_error = log_only\<rparr>"
  let ?m = "m\<lparr>mt_bus := ?b, mt_queue := [?p]\<rparr>"
  obtain rs n where ex: "be_exchange env [status_read (stations m ! i)] (mt_net m) = (rs, n)" by fastforce
  define m' where "m' = m\<lparr>mt_bus := taken (\<lambda>data. upd_slave i (?g data)) rs ?b, mt_queue := [], mt_net := n\<rparr>"
  have s: "sendGetALStatus i log_only m = Some (Inr (), ?m)"
    using assms by (simp add: sendGetALStatus_def bindE_simps link_add_def slave_at_def status_read_def)
  have l: "link_process env ?m = Some (Inr (), m')"
    using link_process_one [of ?m ?p "\<lambda>data. upd_slave i (?g data)" env rs n] ex by (simp add: m'_def)
  have a: "asked m m'"
    using assms(2) by (auto simp: m'_def taken_def asked_def map_update_same split: list.splits reply.splits)
  let ?s = "bs_slaves (mt_bus m') ! i"
  let ?r = "if sv_al_status ?s AND 0x10 = 0 then Inr (sv_al_status ?s)
    else if sv_al_status_code ?s = 0 then Inr (sv_al_status ?s AND 0xF) else Inl (ErrorAL (sv_al_status_code ?s))"
  have r: "getCurrentState env i m = Some (?r, m')"
    using s l by (simp add: getCurrentState_def thenE_Inr bindE_simps slave_at_def retE_def throwE_def)
  have "answered env st [stations m ! i] (mt_net m) (mt_net m')" if st: "?r = Inr st" "st \<noteq> 0" for st
  proof -
    have nz: "sv_al_status ?s \<noteq> 0" using st by (auto split: if_splits)
    obtain data wkc t rs' where rs: "rs = Reply data wkc t # rs'" "wkc = 1"
      using nz assms(2) by (auto simp: m'_def taken_def split: list.splits reply.splits if_splits)
    then have "sv_al_status ?s = data ! 0" "sv_al_status_code ?s = get16 data 4"
      using assms(2) by (simp_all add: m'_def taken_def)
    then have "reported data = Some st" using st(1) by (auto simp: reported_def split: if_splits)
    then show ?thesis using ex rs by (auto simp: m'_def)
  qed
  with r a ex show ?thesis by (intro exI [of _ ?r] exI [of _ m']) (auto simp: m'_def)
qed

text \<open>A clock: reading it takes time, exchanging does not turn it back.\<close>

definition advancing :: "'n bus_env \<Rightarrow> ('n \<Rightarrow> int) \<Rightarrow> bool" where
  "advancing env clk \<longleftrightarrow> (\<forall>n. fst (be_now env n) = clk n \<and> clk n < clk (snd (be_now env n)))
     \<and> (\<forall>reqs n. clk n \<le> clk (snd (be_exchange env reqs n)))"

lemma exchange_later: "advancing env clk \<Longrightarrow> clk n \<le> clk (snd (be_exchange env reqs n))"
  by (simp add: advancing_def)

lemma all_in_state_spec:
  assumes "advancing env clk"
  shows "mt_queue m = [] \<Longrightarrow> set is \<subseteq> {..<length (bs_slaves (mt_bus m))} \<Longrightarrow>
    \<exists>r m'. all_in_state env st is m = Some (r, m') \<and> asked m m' \<and> clk (mt_net m) \<le> clk (mt_net m')
    \<and> (r = Inr True \<and> st \<noteq> 0 \<longrightarrow> answered env st (map ((!) (stations m)) is) (mt_net m) (mt_net m'))"
proof (induction "is" arbitrary: m)
  case Nil
  then show ?case by (simp add: retE_def asked_def)
next
  case (Cons i js)
  have i: "i < length (bs_slaves (mt_bus m))" using Cons.prems(2) by simp
  obtain r m1 where g: "getCurrentState env i m = Some (r, m1)" "asked m m1"
      "\<forall>st. r = Inr st \<and> st \<noteq> 0 \<longrightarrow> answered env st [stations m ! i] (mt_net m) (mt_net m1)" "clk (mt_net m) \<le> clk (mt_net m1)"
    using getCurrentState_spec [OF Cons.prems(1) i, of env] exchange_later [OF assms] by metis
  show ?case
  proof (cases "r = Inr st")
    case True
    have same: "length (bs_slaves (mt_bus m1)) = length (bs_slaves (mt_bus m))"
      using arg_cong [of _ _ length, OF conjunct2 [OF g(2) [unfolded asked_def]]] by simp
    obtain r' m' where ih: "all_in_state env st js m1 = Some (r', m')" "asked m1 m'" "clk (mt_net m1) \<le> clk (mt_net m')"
        "r' = Inr True \<and> st \<noteq> 0 \<longrightarrow> answered env st (map ((!) (stations m1)) js) (mt_net m1) (mt_net m')"
      using Cons.IH [of m1] g(2) Cons.prems(2) same by (auto simp: asked_def)
    have "all_in_state env st (i # js) m = Some (r', m')" using g(1) ih(1) True by (simp add: bindE_def)
    moreover have "answered env st (map ((!) (stations m)) (i # js)) (mt_net m) (mt_net m')" if "r' = Inr True" "st \<noteq> 0"
      using g(2,3) ih(4) True that by (auto simp: asked_def)
    ultimately show ?thesis using g(2,4) ih(2,3) by (intro exI [of _ r'] exI [of _ m']) (auto simp: asked_def)
  next
    case False
    then obtain r' where "all_in_state env st (i # js) m = Some (r', m1)" "r' \<noteq> Inr True"
      using g(1) by (cases r) (auto simp: bindE_def retE_def)
    then show ?thesis using g by (intro exI [of _ r'] exI [of _ m1]) auto
  qed
qed

text \<open>The whole bus was asked in one round that began after the time \<open>t\<close>.\<close>

definition round_after :: "'n bus_env \<Rightarrow> ('n \<Rightarrow> int) \<Rightarrow> int \<Rightarrow> u8 \<Rightarrow> 'n master \<Rightarrow> bool" where
  "round_after env clk t st m \<longleftrightarrow> (\<exists>n. t \<le> clk n \<and> answered env st (stations m) n (mt_net m))"

text \<open>A background task that ends, leaves no datagram behind and does not turn the clock back.\<close>

definition harmless :: "('n \<Rightarrow> int) \<Rightarrow> ('n, unit) act \<Rightarrow> bool" where
  "harmless clk task \<longleftrightarrow> (\<forall>m. mt_queue m = [] \<longrightarrow>
     (\<exists>r m'. task m = Some (r, m') \<and> mt_queue m' = [] \<and> clk (mt_net m) \<le> clk (mt_net m')))"

lemma wait_round_spec:
  assumes q: "mt_queue m = []" and clk: "advancing env clk" and task: "harmless clk background_task"
    and reached: "reached = bindE (busE bs_slaves) (\<lambda>slaves. all_in_state env st [0..<length slaves])"
  shows "\<exists>r m'. wait_round env background_task reached start timeout m = Some (r, m') \<and> mt_queue m' = []
    \<and> (r = Inr True \<and> st \<noteq> 0 \<longrightarrow> round_after env clk (clk (mt_net m)) st m')
    \<and> (r = Inr False \<longrightarrow> clk (mt_net m) \<le> start + timeout \<and> clk (mt_net m) < clk (mt_net m'))"
proof -
  obtain r1 m1 where t: "background_task m = Some (r1, m1)" "mt_queue m1 = []" "clk (mt_net m) \<le> clk (mt_net m1)"
    using task q unfolding harmless_def by blast
  show ?thesis
  proof (cases r1)
    case (Inl e)
    then show ?thesis using t by (intro exI [of _ "Inl e"] exI [of _ m1]) (simp add: wait_round_def thenE_def bindE_def)
  next
    case (Inr u)
    let ?is = "[0..<length (bs_slaves (mt_bus m1))]"
    have every: "map ((!) (stations m1)) ?is = stations m1" using map_nth [of "stations m1"] by simp
    obtain r2 m2 where a: "all_in_state env st ?is m1 = Some (r2, m2)" "asked m1 m2" "clk (mt_net m1) \<le> clk (mt_net m2)"
        "r2 = Inr True \<and> st \<noteq> 0 \<longrightarrow> answered env st (map ((!) (stations m1)) ?is) (mt_net m1) (mt_net m2)"
      using all_in_state_spec [OF clk t(2), of ?is st] by (auto simp: atLeast0LessThan)
    have reach: "reached m1 = Some (r2, m2)" using a(1) by (simp add: reached bindE_simps)
    consider e where "r2 = Inl e" | "r2 = Inr True" | "r2 = Inr False" by (cases r2) auto
    then show ?thesis
    proof cases
      case 1
      then show ?thesis using t Inr reach a(2)
        by (intro exI [of _ "Inl e"] exI [of _ m2]) (simp add: wait_round_def thenE_def bindE_def asked_def)
    next
      case 2
      have "round_after env clk (clk (mt_net m)) st m2" if "st \<noteq> 0"
        using a(2,4) 2 that t(3) unfolding every round_after_def asked_def by metis
      then show ?thesis using t Inr reach a 2
        by (intro exI [of _ "Inr True"] exI [of _ m2]) (simp add: wait_round_def thenE_def bindE_def retE_def asked_def)
    next
      case 3
      let ?m = "m2\<lparr>mt_net := snd (be_now env (mt_net m2))\<rparr>"
      have now: "fst (be_now env (mt_net m2)) = clk (mt_net m2)" "clk (mt_net m2) < clk (mt_net ?m)"
        using clk by (auto simp: advancing_def)
      let ?r = "if clk (mt_net m2) - start > timeout then Inl (Error ''Timeout'') else Inr False"
      have "wait_round env background_task reached start timeout m = Some (?r, ?m)"
        using t Inr reach 3 now by (simp add: wait_round_def thenE_def bindE_def nowE_def throwE_def retE_def split_beta)
      then show ?thesis using t a now(2) by (intro exI [of _ ?r] exI [of _ ?m]) (auto simp: asked_def)
    qed
  qed
qed

lemma round_after_earlier: "round_after env clk t st m \<Longrightarrow> t' \<le> t \<Longrightarrow> round_after env clk t' st m"
  unfolding round_after_def using order_trans by blast

lemma wait_loop_returns:
  assumes clk: "advancing env clk" and task: "harmless clk background_task"
    and reached: "reached = bindE (busE bs_slaves) (\<lambda>slaves. all_in_state env st [0..<length slaves])"
  shows "mt_queue m = [] \<Longrightarrow> \<exists>r m'. wait_loop env background_task reached start timeout m = Some (r, m')
    \<and> (r = Inr () \<and> st \<noteq> 0 \<longrightarrow> round_after env clk (clk (mt_net m)) st m')"
proof (induction "nat (start + timeout + 1 - clk (mt_net m))" arbitrary: m rule: less_induct)
  case less
  obtain r m1 where w: "wait_round env background_task reached start timeout m = Some (r, m1)" "mt_queue m1 = []"
      "r = Inr True \<and> st \<noteq> 0 \<longrightarrow> round_after env clk (clk (mt_net m)) st m1"
      "r = Inr False \<longrightarrow> clk (mt_net m) \<le> start + timeout \<and> clk (mt_net m) < clk (mt_net m1)"
    using wait_round_spec [OF less.prems clk task reached] by blast
  consider e where "r = Inl e" | "r = Inr True" | "r = Inr False" by (cases r) auto
  then show ?case
  proof cases
    case 3
    then have "nat (start + timeout + 1 - clk (mt_net m1)) < nat (start + timeout + 1 - clk (mt_net m))" using w(4) by simp
    then obtain r' m' where "wait_loop env background_task reached start timeout m1 = Some (r', m')"
        "r' = Inr () \<and> st \<noteq> 0 \<longrightarrow> round_after env clk (clk (mt_net m1)) st m'"
      using less.hyps [OF _ w(2)] by blast
    then show ?thesis using 3 w(1,4) round_after_earlier [of env clk "clk (mt_net m1)" st m' "clk (mt_net m)"]
      by (auto simp: wait_loop.simps [of _ _ _ _ _ m])
  qed (use w in \<open>simp_all add: wait_loop.simps [of _ _ _ _ _ m]\<close>)
qed

text \<open>(C6) Waiting for a state always ends, and soundly. When the clock advances with every reading and the background task
  ends, \<open>waitForState\<close> returns or throws. When it returns from waiting for a state (other than INVALID), then in a round of
  questions that began after the call every slave of the bus was asked and its answer, of working counter 1, reported the
  state with no error code; a lost answer never counts.\<close>

theorem waitForState_sound:
  assumes "mt_queue m = []" and "advancing env clk" and "harmless clk background_task"
  shows "\<exists>r m'. waitForState env st timeout background_task m = Some (r, m')
    \<and> (r = Inr () \<and> st \<noteq> 0 \<longrightarrow>
         (\<exists>n. clk (mt_net m) < clk n \<and> answered env st (map sv_address (bs_slaves (mt_bus m'))) n (mt_net m')))"
proof -
  let ?reached = "bindE (busE bs_slaves) (\<lambda>slaves. all_in_state env st [0..<length slaves])"
  let ?m = "m\<lparr>mt_net := snd (be_now env (mt_net m))\<rparr>"
  have later: "clk (mt_net m) < clk (mt_net ?m)" using assms(2) by (simp add: advancing_def)
  have "waitForState env st timeout background_task m =
      wait_loop env background_task ?reached (fst (be_now env (mt_net m))) timeout ?m"
    by (simp add: waitForState_def bindE_def nowE_def split_beta)
  moreover obtain r m' where "wait_loop env background_task ?reached (fst (be_now env (mt_net m))) timeout ?m = Some (r, m')"
      "r = Inr () \<and> st \<noteq> 0 \<longrightarrow> round_after env clk (clk (mt_net ?m)) st m'"
    using wait_loop_returns [OF assms(2,3) refl, of ?m st "fst (be_now env (mt_net m))" timeout] assms(1) by auto
  ultimately show ?thesis
    using later by (intro exI [of _ r] exI [of _ m']) (auto simp: round_after_def intro: order_less_le_trans)
qed

text \<open>A clock that ticks at every reading, and slaves that are in OP.\<close>

definition ticking_env :: "int bus_env" where
  "ticking_env = \<lparr>be_writeThenRead = (\<lambda>reqs n. (Inr [], n)), be_exchange = (\<lambda>reqs n. (map (\<lambda>_. Reply [8, 0, 0, 0, 0, 0] 1 0) reqs, n)),
     be_now = (\<lambda>n. (n, n + 1)), be_since_ecat_epoch = (\<lambda>n. (n, n)), be_sleep = (\<lambda>d n. n + d),
     be_setLogicalMapping = (\<lambda>d n. n), be_attachEcatEventCallback = (\<lambda>e n. n)\<rparr>"

theorem waitForState_sound_witness:
  "\<exists>m'. waitForState ticking_env 8 1000 (retE ())
        \<lparr>mt_bus = (Bus_new [])\<lparr>bs_slaves := [Slave_default, Slave_default]\<rparr>, mt_queue = [], mt_net = 0\<rparr> = Some (Inr (), m')
    \<and> (\<exists>n. 0 < n \<and> answered ticking_env 8 (map sv_address (bs_slaves (mt_bus m'))) n (mt_net m'))"
proof -
  let ?m = "\<lparr>mt_bus = (Bus_new [])\<lparr>bs_slaves := [Slave_default, Slave_default]\<rparr>, mt_queue = [], mt_net = 0 :: int\<rparr>"
  have "map_option fst (waitForState ticking_env 8 1000 (retE ()) ?m) = Some (Inr ())" by code_simp
  then show ?thesis
    using waitForState_sound [of ?m ticking_env id "retE ()" 8 1000]
    by (auto simp: advancing_def harmless_def ticking_env_def retE_def)
qed

end
