(* ===== verification/BusDC.thy ===== *)
theory BusDC
  imports BusStates
begin

text \<open>
  Distributed clocks of the master (\<open>lib/master/src/dc.cc\<close>) and the topology they are based on
  (\<open>lib/master/src/Diagnostics.cc\<close>). Durations are integers of nanoseconds. A lookup in one of the code's maps
  gives 0 for a key that is missing. Entry ports are the ports of the lowest time, in the order of the code.
\<close>

section \<open>Topology\<close>

record topo_state =
  tp_topology :: "u16 \<Rightarrow> u16 option"
  tp_last_seen :: u16
  tp_branches :: "u16 list"

definition NO_OPEN_PORT :: exn where
  "NO_OPEN_PORT = Error ''No open port on a slave - it should not exist in the bus''"

definition topo_step :: "mslave \<Rightarrow> topo_state \<Rightarrow> exn + topo_state" where
  "topo_step s st =
     (let open_ports = countOpenPorts s;
          st = st\<lparr>tp_topology := (tp_topology st)(sv_address s \<mapsto> tp_last_seen st)\<rparr>
      in if open_ports = 0 then Inl NO_OPEN_PORT
         else if open_ports = 1 then
           (case tp_branches st of
              [] \<Rightarrow> Inr (st\<lparr>tp_last_seen := sv_address s\<rparr>)
            | b # rest \<Rightarrow> Inr (st\<lparr>tp_last_seen := b, tp_branches := rest\<rparr>))
         else if open_ports = 2 then Inr (st\<lparr>tp_last_seen := sv_address s\<rparr>)
         else Inr (st\<lparr>tp_last_seen := sv_address s, tp_branches := replicate (open_ports - 2) (sv_address s) @ tp_branches st\<rparr>))"

fun topo_walk :: "mslave list \<Rightarrow> topo_state \<Rightarrow> exn + topo_state" where
  "topo_walk [] st = Inr st"
| "topo_walk (s # ss) st = (case topo_step s st of Inl e \<Rightarrow> Inl e | Inr st \<Rightarrow> topo_walk ss st)"

definition OUT_OF_RANGE :: exn where "OUT_OF_RANGE = SystemError ''out_of_range''"

definition getTopology :: "mslave list \<Rightarrow> exn + (u16 \<Rightarrow> u16 option)" where
  "getTopology slaves =
     (case slaves of
        [] \<Rightarrow> Inl OUT_OF_RANGE
      | s # _ \<Rightarrow>
          (case topo_walk slaves \<lparr>tp_topology = Map.empty, tp_last_seen = sv_address s, tp_branches = []\<rparr> of
             Inl e \<Rightarrow> Inl e
           | Inr st \<Rightarrow> Inr (tp_topology st)))"

section \<open>Propagation delays\<close>

definition at_or_0 :: "(u16 \<Rightarrow> 'a::zero option) \<Rightarrow> u16 \<Rightarrow> 'a" where
  "at_or_0 f k = (case f k of None \<Rightarrow> 0 | Some v \<Rightarrow> v)"

text \<open>Consumes a port of a parent; gives the port and the ports that are left.\<close>

definition parentPort :: "u8 \<Rightarrow> u8 \<times> u8" where
  "parentPort b =
     (if b AND 8 \<noteq> 0 then (3, b AND NOT 8)
      else if b AND 2 \<noteq> 0 then (1, b AND NOT 2)
      else if b AND 4 \<noteq> 0 then (2, b AND NOT 4)
      else if b AND 1 \<noteq> 0 then (0, b AND NOT 1)
      else (0, b))"

definition active_port_numbers :: "mslave \<Rightarrow> nat list" where
  "active_port_numbers s = filter (\<lambda>p. bit (activePorts s) p) [0, 3, 1, 2]"

text \<open>Without an active port the code reads an array that was never written.\<close>

definition entry_port :: "mslave \<Rightarrow> nat option" where
  "entry_port s =
     (case active_port_numbers s of
        [] \<Rightarrow> None
      | p # ps \<Rightarrow> Some (fold (\<lambda>q best. if sv_dc_received_time s ! q < sv_dc_received_time s ! best then q else best) ps p))"

partial_function (option) dc_parent :: "mslave list \<Rightarrow> (u16 \<Rightarrow> u16 option) \<Rightarrow> u16 \<Rightarrow> nat option option" where
  [code]: "dc_parent slaves topology parent_address =
     (if parent_address = 0 then Some None
      else
        let candidate = findSlaveByAddress slaves parent_address
        in if candidate \<noteq> None \<and> isDCSupport (slaves ! the candidate) then Some candidate
           else if parent_address = at_or_0 topology parent_address then Some None
           else dc_parent slaves topology (at_or_0 topology parent_address))"

record dc_state =
  ds_slaves :: "mslave list"
  ds_consumed :: "u16 \<Rightarrow> u8 option"
  ds_entry :: "u16 \<Rightarrow> nat option"
  ds_parenthold :: u16

definition is_first_child :: "mslave list \<Rightarrow> (u16 \<Rightarrow> u16 option) \<Rightarrow> nat \<Rightarrow> nat \<Rightarrow> bool" where
  "is_first_child slaves topology parent i \<longleftrightarrow>
     \<not> (\<exists>j \<in> set [Suc parent..<i]. isDCSupport (slaves ! j)
          \<and> at_or_0 topology (sv_address (slaves ! j)) = sv_address (slaves ! parent))"

text \<open>All ports are below 4, so the error of \<open>portDelta\<close> is never reached.\<close>

definition port_delta :: "mslave \<Rightarrow> u8 \<Rightarrow> u8 \<Rightarrow> int" where
  "port_delta s a b = (case portDelta a b s of Inr d \<Rightarrow> d | Inl _ \<Rightarrow> 0)"

definition entry_of :: "dc_state \<Rightarrow> u16 \<Rightarrow> u8" where
  "entry_of st a = (case ds_entry st a of None \<Rightarrow> 0 | Some p \<Rightarrow> of_nat p)"

text \<open>The delay of slave \<open>i\<close> with its parent; the port of the parent it consumes is given back.\<close>

definition child_delay :: "(u16 \<Rightarrow> u16 option) \<Rightarrow> nat \<Rightarrow> nat \<Rightarrow> nat \<Rightarrow> dc_state \<Rightarrow> int \<times> u8" where
  "child_delay topology i port parent st =
     (let s = ds_slaves st ! i; p = ds_slaves st ! parent;
          (parent_port, left) = parentPort (at_or_0 (ds_consumed st) (sv_address p));
          parent_port = (if countOpenPorts p = 1 then entry_of st (sv_address p) else parent_port);
          parent_port_to_prev_delta = port_delta p parent_port (prevPort parent_port p);
          entry_to_prev_delta = (if countOpenPorts s > 1 then port_delta s (prevPort (of_nat port) s) (of_nat port) else 0);
          parent_prev_to_entry_delta = (if \<not> is_first_child (ds_slaves st) topology parent i
             then port_delta p (prevPort parent_port p) (entry_of st (sv_address p)) else 0);
          entry_to_prev_delta = (if entry_to_prev_delta > parent_port_to_prev_delta then - entry_to_prev_delta else entry_to_prev_delta);
          prop_delay = quot_trunc (parent_port_to_prev_delta - entry_to_prev_delta) 2
      in (prop_delay + parent_prev_to_entry_delta + sv_delay p, left))"

definition dc_slave_step :: "nat \<Rightarrow> int \<Rightarrow> (u16 \<Rightarrow> u16 option) \<Rightarrow> nat \<Rightarrow> dc_state \<Rightarrow> dc_state option" where
  "dc_slave_step dc master_time topology i st = do {
     let s = ds_slaves st ! i;
     let s = s\<lparr>sv_dc_time_offset := master_time - sv_dc_ecat_received_time s\<rparr>;
     port \<leftarrow> entry_port s;
     let st = st\<lparr>ds_slaves := (ds_slaves st)[i := s], ds_entry := (ds_entry st)(sv_address s \<mapsto> port),
          ds_consumed := (ds_consumed st)(sv_address s \<mapsto> at_or_0 (ds_consumed st) (sv_address s) AND NOT (push_bit port 1))\<rparr>;
     let parent_address = at_or_0 topology (sv_address s);
     parent \<leftarrow> (if parent_address \<noteq> sv_address s then dc_parent (ds_slaves st) topology parent_address else Some None);
     let (delay, st) = (case parent of
         Some p \<Rightarrow>
           (if i \<noteq> dc
            then let (d, left) = child_delay topology i port p st
                 in (d, st\<lparr>ds_consumed := (ds_consumed st)(sv_address (ds_slaves st ! p) \<mapsto> left)\<rparr>)
            else (0, st))
       | None \<Rightarrow> (0, st));
     Some (st\<lparr>ds_slaves := (ds_slaves st)[i := (ds_slaves st ! i)\<lparr>sv_delay := delay\<rparr>], ds_parenthold := 0\<rparr>)
   }"

definition other_slave_step :: "(u16 \<Rightarrow> u16 option) \<Rightarrow> nat \<Rightarrow> dc_state \<Rightarrow> dc_state" where
  "other_slave_step topology i st =
     (let s = ds_slaves st ! i;
          parent_address = at_or_0 topology (sv_address s);
          st = (if parent_address \<noteq> 0 \<and> parent_address \<noteq> at_or_0 topology parent_address
                then (case findSlaveByAddress (ds_slaves st) parent_address of
                        Some p \<Rightarrow> if countOpenPorts (ds_slaves st ! p) > 2 then st\<lparr>ds_parenthold := parent_address\<rparr> else st
                      | None \<Rightarrow> st)
                else st)
      in if ds_parenthold st \<noteq> 0 \<and> countOpenPorts s = 1
         then st\<lparr>ds_consumed := (ds_consumed st)(ds_parenthold st \<mapsto> snd (parentPort (at_or_0 (ds_consumed st) (ds_parenthold st)))),
                 ds_parenthold := 0\<rparr>
         else st)"

fun dc_walk :: "nat \<Rightarrow> int \<Rightarrow> (u16 \<Rightarrow> u16 option) \<Rightarrow> nat list \<Rightarrow> dc_state \<Rightarrow> dc_state option" where
  "dc_walk dc master_time topology [] st = Some st"
| "dc_walk dc master_time topology (i # is) st = do {
     st \<leftarrow> (if isDCSupport (ds_slaves st ! i) then dc_slave_step dc master_time topology i st
            else Some (other_slave_step topology i st));
     dc_walk dc master_time topology is st
   }"

definition initial_dc_state :: "nat \<Rightarrow> int \<Rightarrow> mslave list \<Rightarrow> dc_state" where
  "initial_dc_state dc master_time slaves =
     \<lparr>ds_slaves = slaves[dc := (slaves ! dc)\<lparr>sv_dc_time_offset := master_time - sv_dc_ecat_received_time (slaves ! dc), sv_delay := 0\<rparr>],
      ds_consumed = fold (\<lambda>s c. c(sv_address s \<mapsto> activePorts s)) slaves Map.empty, ds_entry = Map.empty, ds_parenthold = 0\<rparr>"

definition delays :: "nat \<Rightarrow> int \<Rightarrow> (u16 \<Rightarrow> u16 option) \<Rightarrow> mslave list \<Rightarrow> mslave list option" where
  "delays dc master_time topology slaves =
     map_option ds_slaves (dc_walk dc master_time topology [0..<length slaves] (initial_dc_state dc master_time slaves))"

definition computePropagationDelay :: "'n bus_env \<Rightarrow> int \<Rightarrow> ('n, unit) act" where
  "computePropagationDelay env master_time =
     bindE (busE (\<lambda>b. getTopology (bs_slaves b))) (\<lambda>r. case r of
       Inl e \<Rightarrow> throwE e
     | Inr topology \<Rightarrow>
         thenE (\<lambda>m. do {
             dc \<leftarrow> bs_dc_slave (mt_bus m);
             slaves \<leftarrow> delays dc master_time topology (bs_slaves (mt_bus m));
             Some (Inr (), m\<lparr>mt_bus := (mt_bus m)\<lparr>bs_slaves := slaves\<rparr>\<rparr>)
           })
         (thenE (for_slaves (\<lambda>i s. if isDCSupport s
            then link_add \<lparr>pd_request = (FPWR, createAddress (sv_address s) 0x928, Some (le32 (of_int (sv_delay s))), 4),
                           pd_process = expect_one, pd_error = throw_state ''Error while applying slave DC delay''\<rparr>
            else retE ()))
         (link_process env)))"

section \<open>Enabling the clocks\<close>

definition fetchReceivedTimes :: "'n bus_env \<Rightarrow> ('n, unit) act" where
  "fetchReceivedTimes env =
     thenE (for_slaves (\<lambda>i s.
       thenE (link_add \<lparr>pd_request = (FPRD, createAddress (sv_address s) 0x900, None, 16),
                pd_process = on_one (\<lambda>data. upd_slave i (\<lambda>s. s\<lparr>sv_dc_received_time := map (\<lambda>k. uint (get32 data (4 * k))) [0..<4]\<rparr>)),
                pd_error = throw_state ''Error while fetching slave DC received times''\<rparr>)
             (link_add \<lparr>pd_request = (FPRD, createAddress (sv_address s) 0x918, None, 8),
                pd_process = on_one (\<lambda>data. upd_slave i (\<lambda>s. s\<lparr>sv_dc_ecat_received_time := sint (get64 data 0)\<rparr>)),
                pd_error = throw_state ''Error while fetching slave DC received times''\<rparr>)))
     (link_process env)"

definition applyMasterTime :: "'n bus_env \<Rightarrow> ('n, unit) act" where
  "applyMasterTime env =
     thenE (for_slaves (\<lambda>i s. if \<not> isDCSupport s then retE ()
       else link_add \<lparr>pd_request = (FPWR, createAddress (sv_address s) 0x920, Some (le64 (of_int (sv_dc_time_offset s))), 8),
                      pd_process = expect_one, pd_error = throw_state ''Error while applying slave DC offset''\<rparr>))
     (link_process env)"

definition select_dc_slave :: "bus \<Rightarrow> bus" where
  "select_dc_slave b =
     (case find (\<lambda>i. isDCSupport (bs_slaves b ! i)) [0..<length (bs_slaves b)] of
        Some i \<Rightarrow> b\<lparr>bs_dc_slave := Some i\<rparr>
      | None \<Rightarrow> b)"

fun drift_rounds :: "'n bus_env \<Rightarrow> nat \<Rightarrow> ('n, unit) act" where
  "drift_rounds env 0 = retE ()"
| "drift_rounds env (Suc k) =
     thenE (sendDriftCompensation env (throw_state ''Error while doing static drift compensation''))
     (thenE (link_process env) (drift_rounds env k))"

text \<open>The network time, with at most three attempts. The variables are in the scratch state: the time, whether it was
  acquired, and the state of the last failure.\<close>

definition read_network_time :: "'n bus_env \<Rightarrow> ('n, unit) act" where
  "read_network_time env =
     bindE (busE (\<lambda>b. slave_at (the (bs_dc_slave b)) b)) (\<lambda>s.
     thenE (link_add \<lparr>pd_request = (FPRD, createAddress (sv_address s) 0x910, None, 8),
              pd_process = on_one (\<lambda>data. upd_scratch (\<lambda>l. l\<lparr>lo_time := get64 data 0, lo_flag := True\<rparr>)),
              pd_error = (\<lambda>st b. (None, upd_scratch (\<lambda>l. l\<lparr>lo_state := st\<rparr>) b))\<rparr>)
     (link_process env))"

fun network_time_attempts :: "'n bus_env \<Rightarrow> nat \<Rightarrow> ('n, unit) act" where
  "network_time_attempts env 0 = retE ()"
| "network_time_attempts env (Suc k) =
     bindE (busE (\<lambda>b. lo_flag (bs_scratch b))) (\<lambda>acquired.
       if acquired then retE () else thenE (read_network_time env) (network_time_attempts env k))"

definition dc_start_time :: "u64 \<Rightarrow> int \<Rightarrow> int \<Rightarrow> int \<Rightarrow> int" where
  "dc_start_time network_time cycle_time shift_cycle start_delay =
     quot_trunc (sint network_time) cycle_time * cycle_time + cycle_time + shift_cycle + start_delay"

definition enableDC :: "'n bus_env \<Rightarrow> int \<Rightarrow> int \<Rightarrow> int \<Rightarrow> ('n, int) act" where
  "enableDC env cycle_time shift_cycle start_delay =
     thenE (updE select_dc_slave)
     (bindE (busE bs_dc_slave) (\<lambda>dc.
      thenE (checkE (dc \<noteq> None) (Error ''No dc slave found''))
      (bindE (epochE env) (\<lambda>t.
       thenE (seqE [
         drop_result (broadcastWrite env 0x900 [0]),
         fetchReceivedTimes env, computePropagationDelay env t, applyMasterTime env,
         drop_result (broadcastWrite env 0x934 (le16 0x0c00)),
         drop_result (broadcastWrite env 0x930 (le16 0x1000)),
         drift_rounds env 15000,
         drop_result (broadcastWrite env 0x9A0 (le32 (of_int cycle_time))),
         updE (upd_scratch (\<lambda>l. l\<lparr>lo_time := 0, lo_flag := False, lo_state := LOST\<rparr>)),
         network_time_attempts env 3])
       (bindE (busE bs_scratch) (\<lambda>l.
        thenE (checkE (lo_flag l) (ErrorDatagram ''Error while reading DC system time to compute the SYNC0 start time'' (lo_state l)))
        (\<lambda>m. if cycle_time = 0 then None
             else let start_time = dc_start_time (lo_time l) cycle_time shift_cycle start_delay
                  in thenE (seqE [
                       drop_result (broadcastWrite env 0x990 (le64 (of_int start_time))),
                       drop_result (broadcastWrite env 0x981 [3]),
                       updE (\<lambda>b. b\<lparr>bs_last_ref_valid := False\<rparr>)])
                     (bindE (nowE env) (\<lambda>monotonic.
                      bindE (epochE env) (\<lambda>ecat.
                      retE (monotonic + (start_time - start_delay - shift_cycle - ecat))))) m)))))))"

text \<open>What \<open>sync\<close> asks of the timer.\<close>

datatype timer_call = SyncTo u64 | Coast

definition Bus_sync :: "bus \<Rightarrow> timer_call \<times> bus" where
  "Bus_sync b = (if bs_last_ref_valid b then (SyncTo (bs_last_ref_time b), b\<lparr>bs_last_ref_valid := False\<rparr>) else (Coast, b))"

section \<open>Checking the synchronization\<close>

text \<open>The slaves that are checked: with distributed clocks, other than the reference. The differences read are in
  the scratch state, one list per slave, and \<open>lo_flag\<close> is set by a datagram that fails.\<close>

definition checked_slaves :: "bus \<Rightarrow> nat list" where
  "checked_slaves b = filter (\<lambda>i. isDCSupport (bs_slaves b ! i) \<and> bs_dc_slave b \<noteq> Some i) [0..<length (bs_slaves b)]"

definition sync_pending :: "mslave list \<Rightarrow> nat \<Rightarrow> nat \<Rightarrow> pending" where
  "sync_pending slaves k i =
     \<lparr>pd_request = (FPRD, createAddress (sv_address (slaves ! i)) 0x92C, None, 4),
      pd_process = on_one (\<lambda>data. upd_scratch (\<lambda>l. l\<lparr>lo_words := (lo_words l)[k := [get32 data 0]]\<rparr>)),
      pd_error = (\<lambda>st b. (None, upd_scratch (\<lambda>l. l\<lparr>lo_flag := True\<rparr>) b))\<rparr>"

definition drift_of :: "u32 \<Rightarrow> int" where
  "drift_of time_diff_raw = uint (time_diff_raw AND 0x7FFFFFFF)"

definition isDCSynchronized :: "'n bus_env \<Rightarrow> int \<Rightarrow> ('n, bool) act" where
  "isDCSynchronized env threshold =
     bindE (busE bs_dc_slave) (\<lambda>dc. if dc = None then retE False
     else bindE (busE checked_slaves) (\<lambda>is.
       thenE (updE (upd_scratch (\<lambda>l. l\<lparr>lo_flag := False, lo_words := replicate (length is) [0]\<rparr>)))
       (bindE (busE bs_slaves) (\<lambda>slaves.
        thenE (seqE (map (\<lambda>(k, i). link_add (sync_pending slaves k i)) (enumerate 0 is)))
        (thenE (link_process env)
        (busE (\<lambda>b. \<not> lo_flag (bs_scratch b)
           \<and> list_all (\<lambda>ws. \<not> drift_of (hd ws) > threshold) (lo_words (bs_scratch b)))))))))"

end
