(* ===== verification/BusClocks.thy ===== *)
theory BusClocks
  imports BusDC BusCounters
begin

text \<open>
  What the distributed clocks rest on: the topology of a segment is the tree it is wired as, the delays of a line
  are the distances from the reference clock, the start time is a cycle boundary in the future, and the check
  of the synchronization is sound.
\<close>

section \<open>The topology is the tree of the wiring\<close>

datatype dev_tree = Dev mslave "dev_tree list"

fun preorder :: "dev_tree \<Rightarrow> mslave list" where
  "preorder (Dev s ts) = s # concat (map preorder ts)"

fun parents :: "u16 \<Rightarrow> dev_tree \<Rightarrow> (u16 \<times> u16) list" where
  "parents p (Dev s ts) = (sv_address s, p) # concat (map (parents (sv_address s)) ts)"

text \<open>Every slave has a port open towards its parent and one for each child.\<close>

fun wired :: "dev_tree \<Rightarrow> bool" where
  "wired (Dev s ts) \<longleftrightarrow> countOpenPorts s = Suc (length ts) \<and> list_all wired ts"

definition upd_all :: "(u16 \<Rightarrow> u16 option) \<Rightarrow> (u16 \<times> u16) list \<Rightarrow> u16 \<Rightarrow> u16 option" where
  "upd_all m xs = fold (\<lambda>(a, p) m. m(a \<mapsto> p)) xs m"

lemma upd_all_simps [simp]:
  "upd_all m [] = m" "upd_all m ((a, p) # xs) = upd_all (m(a \<mapsto> p)) xs" "upd_all m (xs @ ys) = upd_all (upd_all m xs) ys"
  by (simp_all add: upd_all_def)

abbreviation TS :: "(u16 \<Rightarrow> u16 option) \<Rightarrow> u16 \<Rightarrow> u16 list \<Rightarrow> topo_state" where
  "TS m p st \<equiv> \<lparr>tp_topology = m, tp_last_seen = p, tp_branches = st\<rparr>"

text \<open>Walking a tree leaves the slave whose next child comes, as long as one is on the stack.\<close>

definition walks :: "dev_tree \<Rightarrow> bool" where
  "walks t \<longleftrightarrow> (\<forall>m p st rest. \<exists>l. (st \<noteq> [] \<longrightarrow> l = hd st)
     \<and> topo_walk (preorder t @ rest) (TS m p st) = topo_walk rest (TS (upd_all m (parents p t)) l (tl st)))"

lemma walks_forest:
  assumes "ts \<noteq> []" and "\<forall>t \<in> set ts. walks t"
  shows "\<exists>l. (st \<noteq> [] \<longrightarrow> l = hd st)
    \<and> topo_walk (concat (map preorder ts) @ rest) (TS m a (replicate (length ts - 1) a @ st))
      = topo_walk rest (TS (upd_all m (concat (map (parents a) ts))) l (tl st))"
  using assms
proof (induction ts arbitrary: m)
  case (Cons t ts)
  show ?case
  proof (cases "ts = []")
    case True
    then show ?thesis using Cons.prems(2) unfolding walks_def by simp
  next
    case False
    let ?st = "replicate (length ts - 1) a @ st"
    have st: "replicate (length (t # ts) - 1) a @ st = a # ?st" using False by (cases ts) simp_all
    have "walks t" using Cons.prems by simp
    then obtain l where "l = hd (a # ?st)" and l: "topo_walk (preorder t @ concat (map preorder ts) @ rest) (TS m a (a # ?st))
        = topo_walk (concat (map preorder ts) @ rest) (TS (upd_all m (parents a t)) l (tl (a # ?st)))"
      unfolding walks_def by (metis list.discI)
    then show ?thesis
      using Cons.IH [OF False, of "upd_all m (parents a t)"] Cons.prems(2) unfolding st by auto
  qed
qed simp

lemma wired_walks: "wired t \<Longrightarrow> walks t"
proof (induction t)
  case (Dev s ts)
  have ports: "countOpenPorts s = Suc (length ts)" and sub: "\<forall>t \<in> set ts. walks t"
    using Dev by (auto simp: list_all_iff)
  let ?a = "sv_address s"
  show ?case
    unfolding walks_def
  proof (intro allI)
    fix m :: "u16 \<Rightarrow> u16 option" and p st rest
    let ?m = "m(?a \<mapsto> p)"
    show "\<exists>l. (st \<noteq> [] \<longrightarrow> l = hd st) \<and> topo_walk (preorder (Dev s ts) @ rest) (TS m p st)
        = topo_walk rest (TS (upd_all m (parents p (Dev s ts))) l (tl st))"
    proof (cases "ts = []")
      case True
      then show ?thesis using ports by (cases st) (auto simp: topo_step_def)
    next
      case False
      then have "topo_step s (TS m p st) = Inr (TS ?m ?a (replicate (length ts - 1) ?a @ st))"
        using ports by (cases "length ts = 1") (auto simp: topo_step_def Let_def)
      then show ?thesis using walks_forest [OF False sub, of st rest ?m ?a] by simp
    qed
  qed
qed

lemma upd_all_map_of: "distinct (map fst xs) \<Longrightarrow> upd_all m xs = m ++ map_of xs"
proof (induction xs arbitrary: m)
  case (Cons x xs)
  obtain a b where x: "x = (a, b)" by fastforce
  then have "map_of xs a = None" using Cons.prems by (simp add: map_of_eq_None_iff)
  then show ?case using Cons x by (auto simp: fun_eq_iff map_add_def split: option.split)
qed simp

lemma map_fst_parents: "map fst (parents p t) = map sv_address (preorder t)"
proof (induction t arbitrary: p)
  case (Dev s ts)
  then show ?case by (induction ts) simp_all
qed

lemma topology_of_tree:
  assumes "wired (Dev s ts)" and "distinct (map sv_address (preorder (Dev s ts)))"
  shows "getTopology (preorder (Dev s ts)) = Inr (map_of (parents (sv_address s) (Dev s ts)))"
proof -
  let ?t = "Dev s ts"
  obtain l where "topo_walk (preorder ?t @ []) (TS Map.empty (sv_address s) [])
      = topo_walk [] (TS (upd_all Map.empty (parents (sv_address s) ?t)) l (tl []))"
    using wired_walks [OF assms(1)] unfolding walks_def by meson
  moreover have "distinct (map fst (parents (sv_address s) ?t))" using assms(2) unfolding map_fst_parents .
  ultimately have "topo_walk (preorder ?t) (TS Map.empty (sv_address s) []) = Inr (TS (map_of (parents (sv_address s) ?t)) l [])"
    by (simp add: upd_all_map_of del: parents.simps)
  then show ?thesis by (simp add: getTopology_def del: parents.simps)
qed

text \<open>(C10) The topology is the tree of the wiring. For slaves wired as any tree (every slave has an open port to its parent
  and one per child) and numbered in the order a frame passes them, \<open>getTopology\<close> gives every slave the address of
  its parent in the tree, and the first slave its own.\<close>

theorem getTopology_is_tree:
  assumes "wired (Dev s ts)" and "distinct (map sv_address (preorder (Dev s ts)))"
  shows "getTopology (preorder (Dev s ts)) = Inr (map_of (parents (sv_address s) (Dev s ts)))"
  using assms by (rule topology_of_tree)

section \<open>Delays of a line\<close>

text \<open>A line of slaves with distributed clocks. The frame reaches slave \<open>k\<close> at time \<open>a k\<close> and passes it again on the way
  back, as long after the turning point as it passed before it. Every slave reads these times on a clock of its own.\<close>

definition line_slave :: "nat \<Rightarrow> (nat \<Rightarrow> int) \<Rightarrow> (nat \<Rightarrow> int) \<Rightarrow> nat \<Rightarrow> mslave \<Rightarrow> bool" where
  "line_slave n a off k s \<longleftrightarrow>
     sv_address s = of_nat (1001 + k) \<and> isDCSupport s
     \<and> activePorts s = (if k = n then 1 else 3) \<and> countOpenPorts s = (if k = n then 1 else 2)
     \<and> sv_dc_received_time s ! 0 = a k + off k
     \<and> (k < n \<longrightarrow> sv_dc_received_time s ! 1 = 2 * a n - a k + off k)"

definition line_bus :: "nat \<Rightarrow> (nat \<Rightarrow> int) \<Rightarrow> (nat \<Rightarrow> int) \<Rightarrow> mslave list \<Rightarrow> bool" where
  "line_bus n a off slaves \<longleftrightarrow> length slaves = Suc n \<and> n < 60000 \<and> mono a \<and> (\<forall>k \<le> n. line_slave n a off k (slaves ! k))"

definition line_topology :: "nat \<Rightarrow> (u16 \<Rightarrow> u16 option) \<Rightarrow> bool" where
  "line_topology n topology \<longleftrightarrow> (\<forall>k \<le> n. topology (of_nat (1001 + k)) = Some (of_nat (1001 + (k - 1))))"

lemma line_address:
  "k < 60000 \<Longrightarrow> j < 60000 \<Longrightarrow> (of_nat (1001 + k) :: u16) = of_nat (1001 + j) \<longleftrightarrow> k = j"
  "k < 60000 \<Longrightarrow> (of_nat (1001 + k) :: u16) \<noteq> 0"
proof -
  have u: "unat (of_nat (1001 + i) :: u16) = 1001 + i" if "i < 60000" for i
    using that by (simp add: unsigned_of_nat take_bit_nat_eq_self del: of_nat_add)
  show "(of_nat (1001 + k) :: u16) = of_nat (1001 + j) \<longleftrightarrow> k = j" if "k < 60000" "j < 60000"
    using u [OF that(1)] u [OF that(2)] by (metis add_left_cancel)
  show "(of_nat (1001 + k) :: u16) \<noteq> 0" if "k < 60000"
    using u [OF that] by (metis add_is_0 unsigned_0 zero_neq_numeral)
qed

subsection \<open>The topology of a line\<close>

fun chain :: "mslave list \<Rightarrow> dev_tree" where
  "chain (s # t # ss) = Dev s [chain (t # ss)]"
| "chain (s # []) = Dev s []"
| "chain [] = Dev Slave_default []"

lemma preorder_chain: "ss \<noteq> [] \<Longrightarrow> preorder (chain ss) = ss"
  by (induction ss rule: chain.induct) simp_all

lemma parents_chain: "ss \<noteq> [] \<Longrightarrow> parents p (chain ss) = zip (map sv_address ss) (p # map sv_address (butlast ss))"
  by (induction ss arbitrary: p rule: chain.induct) simp_all

lemma wired_chain:
  "ss \<noteq> [] \<Longrightarrow> \<forall>k < length ss. countOpenPorts (ss ! k) = (if Suc k = length ss then 1 else 2) \<Longrightarrow> wired (chain ss)"
proof (induction ss rule: chain.induct)
  case (1 s t ss)
  have "\<forall>k < length (t # ss). countOpenPorts ((t # ss) ! k) = (if Suc k = length (t # ss) then 1 else 2)"
    using 1(3) by (metis Suc_less_eq length_Cons nat.inject nth_Cons_Suc)
  moreover have "countOpenPorts s = 2" using 1(3) [rule_format, of 0] by simp
  ultimately show ?case using 1 by simp
qed simp_all

lemma line_addresses:
  assumes "line_bus n a off slaves"
  shows "map sv_address slaves = map (\<lambda>k. of_nat (1001 + k)) [0..<Suc n]" and "distinct (map sv_address slaves)"
proof -
  have s: "length slaves = Suc n" "n < 60000" "\<And>k. k \<le> n \<Longrightarrow> sv_address (slaves ! k) = of_nat (1001 + k)"
    using assms by (auto simp: line_bus_def line_slave_def)
  show m: "map sv_address slaves = map (\<lambda>k. of_nat (1001 + k)) [0..<Suc n]"
    using s by (intro nth_equalityI) (simp_all del: upt_Suc of_nat_add)
  have "inj_on (\<lambda>k. of_nat (1001 + k) :: u16) {0..<Suc n}"
    using line_address(1) s(2) by (auto simp: inj_on_def simp del: of_nat_add)
  then show "distinct (map sv_address slaves)" unfolding m by (simp add: distinct_map del: upt_Suc of_nat_add)
qed

lemma line_getTopology:
  assumes "line_bus n a off slaves"
  shows "\<exists>topology. getTopology slaves = Inr topology \<and> line_topology n topology"
proof -
  note addr = line_addresses [OF assms]
  have ne: "slaves \<noteq> []" and len: "length slaves = Suc n" using assms by (auto simp: line_bus_def)
  obtain s ts where c: "chain slaves = Dev s ts" by (cases "chain slaves")
  have "wired (chain slaves)"
    using assms ne by (intro wired_chain) (auto simp: line_bus_def line_slave_def)
  then have w: "wired (Dev s ts)" by (simp only: c)
  have d: "distinct (map sv_address (preorder (Dev s ts)))"
    using addr(2) preorder_chain [OF ne] by (simp only: c)
  have "getTopology slaves = Inr (map_of (parents (sv_address s) (chain slaves)))"
    using topology_of_tree [OF w d] preorder_chain [OF ne] by (simp only: c)
  moreover have s: "s = slaves ! 0" using preorder_chain [OF ne] by (simp add: c) (metis nth_Cons_0)
  moreover have "map_of (parents (sv_address s) (chain slaves)) (of_nat (1001 + k)) = Some (of_nat (1001 + (k - 1)))" if k: "k \<le> n" for k
  proof (rule map_of_is_SomeI)
    have z: "parents (sv_address s) (chain slaves) = zip (map sv_address slaves) (sv_address s # map sv_address (butlast slaves))"
      by (rule parents_chain [OF ne])
    then show "distinct (map fst (parents (sv_address s) (chain slaves)))" using addr(2) len by simp
    have nth: "sv_address (slaves ! j) = of_nat (1001 + j)" if "j \<le> n" for j
      using assms that by (simp add: line_bus_def line_slave_def)
    have "(sv_address s # map sv_address (butlast slaves)) ! k = of_nat (1001 + (k - 1))"
      using k len by (cases k) (simp_all add: s nth nth_butlast del: of_nat_add)
    then have "zip (map sv_address slaves) (sv_address s # map sv_address (butlast slaves)) ! k = (of_nat (1001 + k), of_nat (1001 + (k - 1)))"
      using k len nth [OF k] by (simp del: of_nat_add)
    moreover have "k < length (zip (map sv_address slaves) (sv_address s # map sv_address (butlast slaves)))" using k len by simp
    ultimately show "(of_nat (1001 + k), of_nat (1001 + (k - 1))) \<in> set (parents (sv_address s) (chain slaves))"
      unfolding z by (metis nth_mem)
  qed
  ultimately show ?thesis by (auto simp: line_topology_def)
qed

subsection \<open>Walking the line\<close>

lemma clock_updates [simp]:
  "activePorts (s\<lparr>sv_dc_time_offset := x, sv_delay := d\<rparr>) = activePorts s"
  "countOpenPorts (s\<lparr>sv_dc_time_offset := x, sv_delay := d\<rparr>) = countOpenPorts s"
  "isDCSupport (s\<lparr>sv_dc_time_offset := x, sv_delay := d\<rparr>) = isDCSupport s"
  "activePorts (s\<lparr>sv_dc_time_offset := x\<rparr>) = activePorts s"
  "countOpenPorts (s\<lparr>sv_dc_time_offset := x\<rparr>) = countOpenPorts s"
  "isDCSupport (s\<lparr>sv_dc_time_offset := x\<rparr>) = isDCSupport s"
  "activePorts (s\<lparr>sv_delay := d\<rparr>) = activePorts s"
  "countOpenPorts (s\<lparr>sv_delay := d\<rparr>) = countOpenPorts s"
  "isDCSupport (s\<lparr>sv_delay := d\<rparr>) = isDCSupport s"
  by (simp_all add: activePorts_def countOpenPorts_def isDCSupport_def)

lemma line_slave_updates [simp]:
  "line_slave n a off k (s\<lparr>sv_dc_time_offset := x\<rparr>) = line_slave n a off k s"
  "line_slave n a off k (s\<lparr>sv_delay := d\<rparr>) = line_slave n a off k s"
  by (simp_all add: line_slave_def)

lemma entry_port_line:
  assumes "line_slave n a off k s" and "mono a" and "k \<le> n"
  shows "entry_port s = Some 0"
proof (cases "k = n")
  case True
  then show ?thesis using assms(1) by (simp add: line_slave_def entry_port_def active_port_numbers_def)
next
  case False
  then have ports: "activePorts s = 3" using assms(1) by (simp add: line_slave_def)
  have bits: "bit (3 :: u8) 0" "\<not> bit (3 :: u8) 3" "bit (3 :: u8) (Suc 0)" "\<not> bit (3 :: u8) 2" by code_simp+
  have "a k \<le> a n" using assms(2,3) by (rule monoD)
  then have "\<not> sv_dc_received_time s ! 1 < sv_dc_received_time s ! 0" using assms(1,3) False by (simp add: line_slave_def)
  then show ?thesis by (simp add: entry_port_def active_port_numbers_def ports bits)
qed

lemma prevPort_line: "activePorts s = 3 \<Longrightarrow> prevPort 0 s = 1 \<and> prevPort 1 s = 0"
  by (simp add: prevPort_def Let_def)

lemma find_line:
  assumes "length slaves = Suc n" and "n < 60000" and "\<forall>k \<le> n. line_slave n a off k (slaves ! k)" and "j \<le> n"
  shows "findSlaveByAddress slaves (of_nat (1001 + j)) = Some j"
proof -
  have nth: "enumerate 0 slaves ! i = (i, slaves ! i)" if "i \<le> n" for i
    using that assms(1) by (simp add: nth_enumerate_eq)
  have "find (\<lambda>(i, s). sv_address s = of_nat (1001 + j)) (enumerate 0 slaves) = Some (j, slaves ! j)"
    unfolding find_Some_iff
  proof (intro exI [of _ j] conjI allI impI)
    fix i assume "i < j"
    then show "\<not> (\<lambda>(i, s). sv_address s = of_nat (1001 + j)) (enumerate 0 slaves ! i)"
      using assms line_address(1) [of i j] nth [of i] by (simp add: line_slave_def del: of_nat_add)
  qed (use assms nth [of j] in \<open>simp_all add: line_slave_def del: of_nat_add\<close>)
  then show ?thesis by (simp add: findSlaveByAddress_def)
qed

text \<open>After the slaves before \<open>k\<close>: they have their delays, and the last of them has its outgoing port left.\<close>

definition line_inv :: "nat \<Rightarrow> (nat \<Rightarrow> int) \<Rightarrow> (nat \<Rightarrow> int) \<Rightarrow> nat \<Rightarrow> dc_state \<Rightarrow> bool" where
  "line_inv n a off k st \<longleftrightarrow> length (ds_slaves st) = Suc n
     \<and> (\<forall>j \<le> n. line_slave n a off j (ds_slaves st ! j))
     \<and> (\<forall>j < k. j \<le> n \<longrightarrow> sv_delay (ds_slaves st ! j) = a j - a 0)
     \<and> (\<forall>j. k \<le> j \<and> j \<le> n \<longrightarrow> ds_consumed st (of_nat (1001 + j)) = Some (if j = n then 1 else 3))
     \<and> (0 < k \<and> k \<le> n \<longrightarrow> ds_consumed st (of_nat (1001 + (k - 1))) = Some 2)"

lemma port_delta_line:
  assumes "line_slave n a off k s" and "mono a" and "k < n"
  shows "port_delta s 1 0 = 2 * (a n - a k)"
proof -
  have "a k \<le> a n" using assms(2,3) by (simp add: monoD)
  then show ?thesis using assms(1,3) by (simp add: port_delta_def portDelta_def portTime_def line_slave_def word_le_nat_alt)
qed

lemma quot_trunc_2: "0 \<le> x \<Longrightarrow> quot_trunc (2 * x) 2 = x"
  by (simp add: quot_trunc_def)

lemma child_delay_line:
  assumes st: "length (ds_slaves st) = Suc n" "\<forall>j \<le> n. line_slave n a off j (ds_slaves st ! j)" and mono: "mono a"
    and p: "p < n" "sv_delay (ds_slaves st ! p) = a p - a 0" "ds_consumed st (of_nat (1001 + p)) = Some 2"
  shows "child_delay topology (Suc p) 0 p st = (a (Suc p) - a 0, 0)"
proof -
  let ?s = "ds_slaves st ! Suc p" and ?p = "ds_slaves st ! p"
  have ls: "line_slave n a off (Suc p) ?s" and lp: "line_slave n a off p ?p" using st(2) p(1) by auto
  have ports: "activePorts ?p = 3" "countOpenPorts ?p = 2" "sv_address ?p = of_nat (1001 + p)" using lp p(1) by (auto simp: line_slave_def)
  have pp: "parentPort (at_or_0 (ds_consumed st) (sv_address ?p)) = (1, 0)"
    unfolding ports(3) at_or_0_def p(3) by code_simp
  have le: "a p \<le> a (Suc p)" "a (Suc p) \<le> a n" using mono p(1) by (auto simp: monoD)
  have own: "(if countOpenPorts ?s > 1 then port_delta ?s (prevPort (of_nat 0) ?s) (of_nat 0) else 0) = 2 * (a n - a (Suc p))"
  proof (cases "Suc p = n")
    case True
    then show ?thesis using ls by (simp add: line_slave_def)
  next
    case False
    then have "activePorts ?s = 3" "countOpenPorts ?s = 2" "Suc p < n" using ls p(1) by (auto simp: line_slave_def)
    then show ?thesis using port_delta_line [OF ls mono] prevPort_line [of ?s] by simp
  qed
  have first: "is_first_child (ds_slaves st) topology p (Suc p)" by (simp add: is_first_child_def)
  have "port_delta ?p 1 (prevPort 1 ?p) = 2 * (a n - a p)" using port_delta_line [OF lp mono p(1)] prevPort_line [OF ports(1)] by simp
  moreover have "quot_trunc (2 * (a n - a p) - 2 * (a n - a (Suc p))) 2 = a (Suc p) - a p"
    using quot_trunc_2 [of "a (Suc p) - a p"] le by (simp add: algebra_simps)
  ultimately show ?thesis
    unfolding child_delay_def Let_def pp split_conv own using ports(2) first le p(2) by simp
qed

lemma at_or_0_Some: "f k = Some v \<Longrightarrow> at_or_0 f k = v"
  by (simp add: at_or_0_def)

lemma line_step:
  assumes inv: "line_inv n a off k st" and k: "k \<le> n" "n < 60000" and mono: "mono a" and topo: "line_topology n topology"
  shows "\<exists>st'. dc_slave_step 0 master_time topology k st = Some st' \<and> line_inv n a off (Suc k) st'"
proof -
  let ?s = "(ds_slaves st ! k)\<lparr>sv_dc_time_offset := master_time - sv_dc_ecat_received_time (ds_slaves st ! k)\<rparr>"
  let ?A = "\<lambda>j. of_nat (1001 + j) :: u16"
  let ?c = "(if k = n then 1 else 3 :: u8) AND NOT (push_bit 0 1)"
  let ?st = "st\<lparr>ds_slaves := (ds_slaves st)[k := ?s], ds_entry := (ds_entry st)(?A k \<mapsto> 0), ds_consumed := (ds_consumed st)(?A k \<mapsto> ?c)\<rparr>"
  have len: "length (ds_slaves st) = Suc n" and ls: "\<forall>j \<le> n. line_slave n a off j (ds_slaves st ! j)"
    using inv by (auto simp: line_inv_def)
  have addr: "sv_address ?s = ?A k" using ls k(1) by (simp add: line_slave_def)
  have entry: "entry_port ?s = Some 0" using entry_port_line [of n a off k ?s] ls k(1) mono by simp
  have cons: "at_or_0 (ds_consumed st) (?A k) = (if k = n then 1 else 3)"
    using inv k(1) by (intro at_or_0_Some) (auto simp: line_inv_def)
  have ls': "\<forall>j \<le> n. line_slave n a off j (ds_slaves ?st ! j)" using ls len k(1) by (auto simp: nth_list_update)
  have parent: "at_or_0 topology (?A k) = ?A (k - 1)" using topo k(1) by (intro at_or_0_Some) (simp add: line_topology_def)
  have c2: "k < n \<Longrightarrow> ?c = 2" by simp
  show ?thesis
  proof (cases k)
    case 0
    let ?st' = "?st\<lparr>ds_slaves := (ds_slaves ?st)[k := (ds_slaves ?st ! k)\<lparr>sv_delay := 0\<rparr>], ds_parenthold := 0\<rparr>"
    have "dc_slave_step 0 master_time topology k st = Some ?st'"
      using entry addr cons parent 0 by (simp add: dc_slave_step_def Let_def del: of_nat_add)
    moreover have "line_inv n a off (Suc k) ?st'"
      using inv ls' c2 line_address(1) [of _ 0] k 0 len by (auto simp: line_inv_def nth_list_update simp del: of_nat_add)
    ultimately show ?thesis by blast
  next
    case (Suc p)
    have p: "p < n" "p \<le> n" using k(1) Suc by simp_all
    have pk: "p \<noteq> k" "p < 60000" "k < 60000" "p = k - 1" "0 < k" using k Suc by simp_all
    have neq: "?A p \<noteq> ?A k" "?A p \<noteq> 0" using line_address(1) [of p k] line_address(2) [of p] pk(1-3) by (simp_all del: of_nat_add)
    have par: "dc_parent (ds_slaves ?st) topology (?A p) = Some (Some p)"
      using find_line [of "ds_slaves ?st" n a off p] len k(2) ls' p(2) neq(2)
      by (subst dc_parent.simps) (simp add: line_slave_def del: of_nat_add)
    have "ds_consumed ?st (?A p) = Some 2" using inv Suc k(1) neq(1) by (auto simp: line_inv_def simp del: of_nat_add)
    moreover have "sv_delay (ds_slaves ?st ! p) = a p - a 0" using inv Suc p by (simp add: line_inv_def)
    ultimately have child: "child_delay topology (Suc p) 0 p ?st = (a (Suc p) - a 0, 0)"
      using child_delay_line [OF _ ls' mono p(1)] len by simp
    let ?st' = "?st\<lparr>ds_consumed := (ds_consumed ?st)(?A p \<mapsto> 0),
      ds_slaves := (ds_slaves ?st)[k := (ds_slaves ?st ! k)\<lparr>sv_delay := a k - a 0\<rparr>], ds_parenthold := 0\<rparr>"
    have "sv_address (ds_slaves ?st ! p) = ?A p" using ls' p(2) by (simp add: line_slave_def)
    then have "dc_slave_step 0 master_time topology k st = Some ?st'"
      using entry addr cons parent par child neq Suc by (simp add: dc_slave_step_def Let_def del: of_nat_add)
    moreover have "line_inv n a off (Suc k) ?st'"
      using inv ls' c2 line_address(1) [of _ p] line_address(1) [of _ k] k Suc len neq
      by (auto simp: line_inv_def nth_list_update simp del: of_nat_add)
    ultimately show ?thesis by blast
  qed
qed

lemma line_walk:
  assumes "n < 60000" and "mono a" and "line_topology n topology"
  shows "line_inv n a off k st \<Longrightarrow> k \<le> Suc n \<Longrightarrow>
    \<exists>st'. dc_walk 0 master_time topology [k..<Suc n] st = Some st' \<and> line_inv n a off (Suc n) st'"
proof (induction "Suc n - k" arbitrary: k st)
  case 0
  then show ?case by simp
next
  case (Suc d)
  then have k: "k \<le> n" by simp
  obtain st1 where st1: "dc_slave_step 0 master_time topology k st = Some st1" "line_inv n a off (Suc k) st1"
    using line_step [OF Suc.prems(1) k assms] by blast
  have "isDCSupport (ds_slaves st ! k)" using Suc.prems(1) k by (simp add: line_inv_def line_slave_def)
  then have "dc_walk 0 master_time topology [k..<Suc n] st = dc_walk 0 master_time topology [Suc k..<Suc n] st1"
    using st1(1) k by (simp add: upt_conv_Cons del: upt_Suc)
  moreover have "\<exists>st'. dc_walk 0 master_time topology [Suc k..<Suc n] st1 = Some st' \<and> line_inv n a off (Suc n) st'"
    by (rule Suc.hyps(1)) (use Suc.hyps(2) st1(2) k in simp_all)
  ultimately show ?case by simp
qed

lemma fold_consumed:
  assumes "distinct (map sv_address slaves)" and "s \<in> set slaves"
  shows "fold (\<lambda>s c. c(sv_address s \<mapsto> activePorts s)) slaves m (sv_address s) = Some (activePorts s)"
  using assms
proof (induction slaves arbitrary: m)
  case (Cons x xs)
  have keep: "fold (\<lambda>s c. c(sv_address s \<mapsto> activePorts s)) ys m' b = m' b" if "b \<notin> sv_address ` set ys" for ys m' b
    using that by (induction ys arbitrary: m') auto
  show ?case
  proof (cases "s = x")
    case True
    then show ?thesis using Cons.prems keep [of "sv_address x" xs] by (simp del: fun_upd_apply) simp
  next
    case False
    then show ?thesis using Cons by simp
  qed
qed simp

lemma line_inv_initial:
  assumes "line_bus n a off slaves"
  shows "line_inv n a off 0 (initial_dc_state 0 master_time slaves)"
proof -
  have b: "length slaves = Suc n" "\<forall>k \<le> n. line_slave n a off k (slaves ! k)" using assms by (auto simp: line_bus_def)
  have "ds_consumed (initial_dc_state 0 master_time slaves) (of_nat (1001 + j)) = Some (if j = n then 1 else 3)" if j: "j \<le> n" for j
  proof -
    have "sv_address (slaves ! j) = of_nat (1001 + j)" "activePorts (slaves ! j) = (if j = n then 1 else 3)" "slaves ! j \<in> set slaves"
      using b j by (auto simp: line_slave_def)
    then show ?thesis
      using fold_consumed [OF line_addresses(2) [OF assms], of "slaves ! j" Map.empty] by (simp add: initial_dc_state_def)
  qed
  moreover have "line_slave n a off j (ds_slaves (initial_dc_state 0 master_time slaves) ! j)" if "j \<le> n" for j
    using b that by (cases j) (simp_all add: initial_dc_state_def)
  ultimately show ?thesis using b by (simp add: line_inv_def initial_dc_state_def)
qed

lemma line_delays:
  assumes "line_bus n a off slaves" and "line_topology n topology"
  shows "\<exists>ss. delays 0 master_time topology slaves = Some ss \<and> length ss = Suc n \<and> (\<forall>k \<le> n. sv_delay (ss ! k) = a k - a 0)"
proof -
  have b: "length slaves = Suc n" "n < 60000" "mono a" using assms(1) by (auto simp: line_bus_def)
  obtain st where "dc_walk 0 master_time topology [0..<Suc n] (initial_dc_state 0 master_time slaves) = Some st" "line_inv n a off (Suc n) st"
    using line_walk [OF b(2,3) assms(2) line_inv_initial [OF assms(1)]] by blast
  then show ?thesis using b(1) by (auto simp: delays_def line_inv_def simp del: upt_Suc)
qed

section \<open>Programming always ends\<close>

text \<open>Operations whose datagrams keep the bus and whose callbacks always return.\<close>

definition steady :: "pending \<Rightarrow> bool" where
  "steady p \<longleftrightarrow> (\<forall>data wkc t b. \<exists>st. pd_process p data wkc t b = Some (st, b)) \<and> (\<forall>st b. snd (pd_error p st b) = b)"

definition calm :: "('n, 'a) act \<Rightarrow> bool" where
  "calm f \<longleftrightarrow> (\<forall>m. list_all steady (mt_queue m) \<longrightarrow>
     (\<exists>r m'. f m = Some (r, m') \<and> mt_bus m' = mt_bus m \<and> list_all steady (mt_queue m')))"

lemma settle_steady: "list_all steady ps \<Longrightarrow> \<exists>sts. settle_all ps rs b = Some (sts, b)"
proof (induction ps arbitrary: rs)
  case step: (Cons p ps)
  then have ih: "\<exists>sts. settle_all ps qs b = Some (sts, b)" for qs by simp
  show ?case
  proof (cases rs)
    case Nil
    then show ?thesis using ih [of "[]"] by auto
  next
    case (Cons r rs')
    show ?thesis
    proof (cases r)
      case (NoReply st)
      then show ?thesis using Cons ih [of rs'] by auto
    next
      case (Reply data wkc t)
      have "steady p" using step.prems by simp
      then obtain st where "pd_process p data wkc t b = Some (st, b)" unfolding steady_def by blast
      then show ?thesis using Reply Cons ih [of rs'] by auto
    qed
  qed
qed simp

lemma calm_link_process: "calm (link_process env)"
  unfolding calm_def
proof (intro allI impI)
  fix m :: "'a master"
  assume q: "list_all steady (mt_queue m)"
  obtain rs n where ex: "be_exchange env (map pd_request (mt_queue m)) (mt_net m) = (rs, n)" by fastforce
  obtain sts where s: "settle_all (mt_queue m) rs (mt_bus m) = Some (sts, mt_bus m)" using settle_steady [OF q] by blast
  obtain x where "report_all (mt_queue m) sts None (mt_bus m) = (x, mt_bus m)"
    using report_returns_bus [of "mt_queue m" sts None "mt_bus m"] q by (auto simp: list_all_iff steady_def)
  then show "\<exists>r m'. link_process env m = Some (r, m') \<and> mt_bus m' = mt_bus m \<and> list_all steady (mt_queue m')"
    using ex s by (cases x) (simp_all add: link_process_def)
qed

lemma calmD: "calm f \<Longrightarrow> list_all steady (mt_queue m) \<Longrightarrow> \<exists>r m'. f m = Some (r, m') \<and> mt_bus m' = mt_bus m \<and> list_all steady (mt_queue m')"
  unfolding calm_def by blast

lemma calm_bind:
  fixes f :: "('n, 'a) act"
  assumes "calm f" and "\<And>x. calm (g x)"
  shows "calm (bindE f g)"
  unfolding calm_def
proof (intro allI impI)
  fix m :: "'n master"
  assume "list_all steady (mt_queue m)"
  then obtain r m1 where f: "f m = Some (r, m1)" "mt_bus m1 = mt_bus m" "list_all steady (mt_queue m1)"
    using assms(1) unfolding calm_def by blast
  show "\<exists>r m'. bindE f g m = Some (r, m') \<and> mt_bus m' = mt_bus m \<and> list_all steady (mt_queue m')"
  proof (cases r)
    case (Inl e)
    then show ?thesis using f by (simp add: bindE_def)
  next
    case (Inr x)
    then show ?thesis using f calmD [OF assms(2) f(3), of x] by (simp add: bindE_def)
  qed
qed

lemma calm_then: "calm f \<Longrightarrow> calm g \<Longrightarrow> calm (thenE f g)"
  unfolding thenE_def by (intro calm_bind)

lemma calm_ret [simp]: "calm (retE x)" and calm_bus [simp]: "calm (busE g)"
  by (simp_all add: calm_def retE_def busE_def)

lemma calm_seq: "\<forall>f \<in> set fs. calm f \<Longrightarrow> calm (seqE fs)"
  by (induction fs) (simp_all add: calm_then)

lemma calm_add: "steady p \<Longrightarrow> calm (link_add p)"
  by (auto simp: calm_def link_add_def)

lemma steady_expect_one [simp]:
  "steady \<lparr>pd_request = q, pd_process = expect_one, pd_error = throw_state s\<rparr>"
  by (simp add: steady_def expect_one_def throw_state_def)

text \<open>(C11) The propagation delays of a line are the distances from the reference clock. For any line of slaves with
  distributed clocks, whatever the cables and whatever each slave's own clock shows, \<open>computePropagationDelay\<close>
  returns and leaves in every slave the time a frame takes from the first slave to it, as long as no receive time
  wrapped around between the two passes of the frame.\<close>

theorem propagation_delays_of_line:
  assumes "line_bus n a off (bs_slaves (mt_bus m))" and "bs_dc_slave (mt_bus m) = Some 0" and "mt_queue m = []"
  shows "\<exists>r m'. computePropagationDelay env master_time m = Some (r, m')
    \<and> length (bs_slaves (mt_bus m')) = Suc n \<and> (\<forall>k \<le> n. sv_delay (bs_slaves (mt_bus m') ! k) = a k - a 0)"
proof -
  obtain topology where t: "getTopology (bs_slaves (mt_bus m)) = Inr topology" "line_topology n topology"
    using line_getTopology [OF assms(1)] by blast
  obtain ss where ss: "delays 0 master_time topology (bs_slaves (mt_bus m)) = Some ss" "length ss = Suc n" "\<forall>k \<le> n. sv_delay (ss ! k) = a k - a 0"
    using line_delays [OF assms(1) t(2)] by blast
  let ?m = "m\<lparr>mt_bus := (mt_bus m)\<lparr>bs_slaves := ss\<rparr>\<rparr>"
  let ?rest = "thenE (for_slaves (\<lambda>i s. if isDCSupport s
            then link_add \<lparr>pd_request = (FPWR, createAddress (sv_address s) 0x928, Some (le32 (of_int (sv_delay s))), 4),
                           pd_process = expect_one, pd_error = throw_state ''Error while applying slave DC delay''\<rparr>
            else retE ()))
         (link_process env)"
  have "computePropagationDelay env master_time m = ?rest ?m"
    using t(1) ss(1) assms(2) by (simp add: computePropagationDelay_def bindE_simps thenE_Inr)
  moreover have "calm ?rest"
    unfolding for_slaves_def by (intro calm_then calm_bind calm_seq calm_link_process) (auto intro!: calm_bind calm_add)
  then obtain r m' where "?rest ?m = Some (r, m')" "mt_bus m' = mt_bus ?m"
    using calmD [of ?rest ?m] assms(3) by auto
  ultimately show ?thesis using ss(2,3) by (intro exI [of _ r] exI [of _ m']) simp
qed

section \<open>Start time\<close>

text \<open>SYNC0 starts at a cycle boundary of the network time, in the future: without shift and delay the start time is the
  first multiple of the cycle after the network time that was read.\<close>

theorem dc_start_time_next_cycle:
  assumes "0 < cycle_time" and "0 \<le> sint network_time"
  shows "\<exists>k. dc_start_time network_time cycle_time shift_cycle start_delay = k * cycle_time + shift_cycle + start_delay
    \<and> sint network_time < k * cycle_time \<and> k * cycle_time \<le> sint network_time + cycle_time"
proof -
  let ?k = "sint network_time div cycle_time"
  have d: "sint network_time = ?k * cycle_time + sint network_time mod cycle_time" by (simp add: div_mult_mod_eq)
  have r: "0 \<le> sint network_time mod cycle_time" "sint network_time mod cycle_time < cycle_time" using assms(1) by simp_all
  have "dc_start_time network_time cycle_time shift_cycle start_delay = (?k + 1) * cycle_time + shift_cycle + start_delay"
    using assms(2) by (simp add: dc_start_time_def quot_trunc_def algebra_simps)
  moreover have "sint network_time < (?k + 1) * cycle_time" "(?k + 1) * cycle_time \<le> sint network_time + cycle_time"
    unfolding distrib_right using d r by linarith+
  ultimately show ?thesis by blast
qed

theorem dc_start_time_next_cycle_witness:
  "dc_start_time 2500001 1000000 500000 100 = 3500100
   \<and> (\<exists>k. dc_start_time 2500001 1000000 500000 100 = k * 1000000 + 500000 + 100
        \<and> sint (2500001 :: u64) < k * 1000000 \<and> k * 1000000 \<le> sint (2500001 :: u64) + 1000000)"
proof
  show "dc_start_time 2500001 1000000 500000 100 = 3500100" by code_simp
  have "0 \<le> sint (2500001 :: u64)" by code_simp
  then show "\<exists>k. dc_start_time 2500001 1000000 500000 100 = k * 1000000 + 500000 + 100
        \<and> sint (2500001 :: u64) < k * 1000000 \<and> k * 1000000 \<le> sint (2500001 :: u64) + 1000000"
    by (intro dc_start_time_next_cycle) simp_all
qed

section \<open>The check of the synchronization\<close>

definition sync_state :: "reply \<Rightarrow> DatagramState" where
  "sync_state r = (case r of Reply data wkc t \<Rightarrow> if wkc = 1 then OK else INVALID_WKC | NoReply st \<Rightarrow> st)"

definition sync_word :: "reply \<Rightarrow> u32 list \<Rightarrow> u32 list" where
  "sync_word r ws = (case r of Reply data wkc t \<Rightarrow> if wkc = 1 then [get32 data 0] else ws | NoReply st \<Rightarrow> ws)"

definition in_sync :: "int \<Rightarrow> reply \<Rightarrow> bool" where
  "in_sync threshold r = (case r of Reply data wkc t \<Rightarrow> wkc = 1 \<and> drift_of (get32 data 0) \<le> threshold | NoReply st \<Rightarrow> False)"

lemma sync_simps [simp]:
  "sync_state (NoReply st) = st" "sync_word (NoReply st) ws = ws" "\<not> in_sync threshold (NoReply st)"
  "sync_state (Reply data wkc t) = (if wkc = 1 then OK else INVALID_WKC)"
  "sync_word (Reply data wkc t) ws = (if wkc = 1 then [get32 data 0] else ws)"
  "in_sync threshold (Reply data wkc t) \<longleftrightarrow> wkc = 1 \<and> drift_of (get32 data 0) \<le> threshold"
  by (simp_all add: sync_state_def sync_word_def in_sync_def)

lemma sync_words_good:
  "length ws = length rs \<Longrightarrow> \<forall>r \<in> set rs. sync_state r = OK \<and> r \<noteq> NoReply OK \<Longrightarrow>
   list_all (\<lambda>ws. \<not> drift_of (hd ws) > threshold) (map2 sync_word rs ws) = list_all (in_sync threshold) rs"
proof (induction rs arbitrary: ws)
  case (Cons r rs)
  then obtain w ws' where "ws = w # ws'" by (cases ws) auto
  then show ?case using Cons by (cases r) (auto split: if_splits)
qed simp

lemma out_of_sync: "r \<in> set rs \<Longrightarrow> sync_state r \<noteq> OK \<Longrightarrow> \<not> list_all (in_sync threshold) rs"
  by (cases r) (auto simp: list_all_iff intro!: bexI [of _ r] split: if_splits)

lemma settle_sync:
  "length rs = length is \<Longrightarrow> length ws = length is \<Longrightarrow> lo_words (bs_scratch b) = us @ ws \<Longrightarrow>
   settle_all (map (\<lambda>(k, i). sync_pending ss k i) (enumerate (length us) is)) rs b =
     Some (map sync_state rs, b\<lparr>bs_scratch := (bs_scratch b)\<lparr>lo_words := us @ map2 sync_word rs ws\<rparr>\<rparr>)"
proof (induction "is" arbitrary: rs ws us b)
  case Nil
  then show ?case by simp
next
  case (Cons i js)
  obtain r rs' where rs: "rs = r # rs'" using Cons.prems(1) by (cases rs) auto
  obtain w ws' where ws: "ws = w # ws'" using Cons.prems(2) by (cases ws) auto
  let ?b = "b\<lparr>bs_scratch := (bs_scratch b)\<lparr>lo_words := (us @ [sync_word r w]) @ ws'\<rparr>\<rparr>"
  have ih: "settle_all (map (\<lambda>(k, i). sync_pending ss k i) (enumerate (length (us @ [sync_word r w])) js)) rs' ?b =
     Some (map sync_state rs', ?b\<lparr>bs_scratch := (bs_scratch ?b)\<lparr>lo_words := (us @ [sync_word r w]) @ map2 sync_word rs' ws'\<rparr>\<rparr>)"
    using Cons.prems rs ws by (intro Cons.IH) simp_all
  have same: "b\<lparr>bs_scratch := (bs_scratch b)\<lparr>lo_words := us @ w # ws'\<rparr>\<rparr> = b" using Cons.prems(3) ws by simp
  show ?case
  proof (cases r)
    case (NoReply st)
    then show ?thesis using ih same by (simp add: rs ws)
  next
    case (Reply data wkc t)
    have "pd_process (sync_pending ss (length us) i) data wkc t b = Some (sync_state r, ?b)"
      using Cons.prems(3) same by (cases "wkc = 1") (simp_all add: sync_pending_def on_one_def upd_scratch_def Reply ws)
    then show ?thesis using ih by (simp add: rs ws Reply)
  qed
qed

lemma report_sync:
  "length sts = length ps \<Longrightarrow> \<forall>p \<in> set ps. pd_error p = (\<lambda>st b. (None, upd_scratch (\<lambda>l. l\<lparr>lo_flag := True\<rparr>) b)) \<Longrightarrow>
   report_all ps sts x b = (x, if \<forall>st \<in> set sts. st = OK then b else upd_scratch (\<lambda>l. l\<lparr>lo_flag := True\<rparr>) b)"
proof (induction ps arbitrary: sts b)
  case (Cons p ps)
  then obtain st sts' where "sts = st # sts'" by (cases sts) auto
  then show ?case using Cons by (auto simp: upd_scratch_def)
qed simp

lemma link_process_quiet:
  assumes "mt_queue m = q" and "be_exchange env (map pd_request q) (mt_net m) = (rs, n)"
    and "settle_all q rs (mt_bus m) = Some (sts, b)" and "report_all q sts None b = (None, b')"
  shows "link_process env m = Some (Inr (), m\<lparr>mt_bus := b', mt_queue := [], mt_net := n\<rparr>)"
  using assms by (simp add: link_process_def)

text \<open>The check of the synchronization is exact. \<open>isDCSynchronized\<close> always returns, and says yes if and only if the
  status of every slave with distributed clocks other than the reference was read and its difference to the
  reference, sign aside, is within the threshold.\<close>

theorem isDCSynchronized_exact:
  assumes q: "mt_queue m = []" and dc: "bs_dc_slave (mt_bus m) \<noteq> None" and len: "length (checked_slaves (mt_bus m)) \<le> 255"
    and ex: "be_exchange env (map (\<lambda>i. (FPRD, createAddress (sv_address (bs_slaves (mt_bus m) ! i)) 0x92C, None, 4)) (checked_slaves (mt_bus m))) (mt_net m) = (rs, n)"
    and rs: "length rs = length (checked_slaves (mt_bus m))" "NoReply OK \<notin> set rs"
  shows "\<exists>m'. isDCSynchronized env threshold m = Some (Inr (list_all (in_sync threshold) rs), m')"
proof -
  let ?b = "mt_bus m" and ?is = "checked_slaves (mt_bus m)"
  let ?before = "upd_scratch (\<lambda>l. l\<lparr>lo_flag := False, lo_words := replicate (length ?is) [0]\<rparr>) ?b"
  let ?q = "map (\<lambda>(k, i). sync_pending (bs_slaves ?b) k i) (enumerate 0 ?is)"
  let ?m = "m\<lparr>mt_bus := ?before, mt_queue := ?q\<rparr>"
  let ?ws = "map2 sync_word rs (replicate (length ?is) [0])"
  let ?after = "?before\<lparr>bs_scratch := (bs_scratch ?before)\<lparr>lo_words := ?ws\<rparr>\<rparr>"
  let ?ok = "\<forall>st \<in> set (map sync_state rs). st = OK"
  let ?judge = "\<lambda>b. \<not> lo_flag (bs_scratch b) \<and> list_all (\<lambda>ws. \<not> drift_of (hd ws) > threshold) (lo_words (bs_scratch b))"
  have lenq: "length (concat (map (\<lambda>(k, i). [sync_pending (bs_slaves ?b) k i]) xs)) = length xs" for xs :: "(nat \<times> nat) list"
    by (induction xs) auto
  have single: "concat (map (\<lambda>(k, i). [sync_pending (bs_slaves ?b) k i]) xs) = map (\<lambda>(k, i). sync_pending (bs_slaves ?b) k i) xs" for xs
    by (induction xs) auto
  have queued: "seqE (map (\<lambda>(k, i). link_add (sync_pending (bs_slaves ?b) k i)) xs) (m\<lparr>mt_bus := ?before\<rparr>)
      = Some (Inr (), m\<lparr>mt_bus := ?before, mt_queue := map (\<lambda>(k, i). sync_pending (bs_slaves ?b) k i) xs\<rparr>)" if "length xs \<le> 255" for xs
  proof (use that in \<open>induction xs rule: rev_induct\<close>)
    case Nil
    then show ?case using q by (simp add: retE_def)
  next
    case (snoc x xs)
    then show ?case by (cases x) (simp add: BusExchange.seqE_append thenE_def bindE_def link_add_def retE_def)
  qed
  have words: "lo_words (bs_scratch ?before) = [] @ replicate (length ?is) [0]" by (simp add: upd_scratch_def)
  have st: "settle_all ?q rs ?before = Some (map sync_state rs, ?after)"
    using settle_sync [OF rs(1) _ words, of "bs_slaves ?b"] by simp
  have rep: "report_all ?q (map sync_state rs) None ?after = (None, if ?ok then ?after else upd_scratch (\<lambda>l. l\<lparr>lo_flag := True\<rparr>) ?after)"
    using rs(1) by (intro report_sync) (auto simp: sync_pending_def)
  have reqs: "map pd_request ?q = map (\<lambda>i. (FPRD, createAddress (sv_address (bs_slaves ?b ! i)) 0x92C, None, 4)) ?is"
    by (intro nth_equalityI) (simp_all add: sync_pending_def nth_enumerate_eq)
  let ?final = "m\<lparr>mt_bus := if ?ok then ?after else upd_scratch (\<lambda>l. l\<lparr>lo_flag := True\<rparr>) ?after, mt_queue := [], mt_net := n\<rparr>"
  have lp: "link_process env ?m = Some (Inr (), ?final)"
  proof -
    have "link_process env ?m = Some (Inr (), ?m\<lparr>mt_bus := if ?ok then ?after else upd_scratch (\<lambda>l. l\<lparr>lo_flag := True\<rparr>) ?after, mt_queue := [], mt_net := n\<rparr>)"
      using ex reqs st by (intro link_process_quiet [OF _ _ _ rep]) simp_all
    then show ?thesis by simp
  qed
  have "(\<not> lo_flag (bs_scratch (mt_bus ?final)) \<and> list_all (\<lambda>ws. \<not> drift_of (hd ws) > threshold) (lo_words (bs_scratch (mt_bus ?final))))
      = list_all (in_sync threshold) rs"
  proof (cases ?ok)
    case True
    then show ?thesis
      using sync_words_good [of "replicate (length ?is) [0]" rs threshold] rs by (auto simp: upd_scratch_def)
  next
    case False
    then show ?thesis using out_of_sync [of _ rs threshold] by (auto simp: upd_scratch_def)
  qed
  then have answer: "busE ?judge ?final = Some (Inr (list_all (in_sync threshold) rs), ?final)" by (simp only: busE_def)
  have queue: "seqE (map (\<lambda>(k, i). link_add (sync_pending (bs_slaves ?b) k i)) (enumerate 0 ?is)) (m\<lparr>mt_bus := ?before\<rparr>) = Some (Inr (), ?m)"
    using queued [of "enumerate 0 ?is"] len by simp
  let ?fill = "seqE (map (\<lambda>(k, i). link_add (sync_pending (bs_slaves ?b) k i)) (enumerate 0 ?is))"
  have "isDCSynchronized env threshold m = thenE ?fill (thenE (link_process env) (busE ?judge))
        (m\<lparr>mt_bus := ?before\<rparr>)"
    using dc by (auto simp add: isDCSynchronized_def bindE_def thenE_def busE_def updE_def upd_scratch_def)
  also have "\<dots> = Some (Inr (list_all (in_sync threshold) rs), ?final)"
    unfolding thenE_Inr [of ?fill, OF queue] thenE_Inr [of "link_process env", OF lp] by (rule answer)
  finally show ?thesis by blast
qed

section \<open>Concrete buses\<close>

text \<open>A slave with distributed clocks, its address, the ports that are linked and open, and its receive times.\<close>

definition clock_slave :: "u16 \<Rightarrow> u16 \<Rightarrow> int list \<Rightarrow> mslave" where
  "clock_slave address dl_status ticks = Slave_default\<lparr>sv_address := address, sv_dl_status := dl_status,
     sv_dc_received_time := ticks, sv_esc := (sv_esc Slave_default)[8 := 4]\<rparr>"

text \<open>Port 0 alone, ports 0 and 1, and ports 0, 1 and 3, with their links.\<close>

definition wired_bus :: dev_tree where
  "wired_bus = Dev (clock_slave 1001 0x8AB0 []) [Dev (clock_slave 1002 0x0210 []) [],
     Dev (clock_slave 1003 0x0A30 []) [Dev (clock_slave 1004 0x0210 []) []]]"

theorem getTopology_is_tree_witness:
  "\<exists>topology. getTopology (preorder wired_bus) = Inr topology
    \<and> map topology [1001, 1002, 1003, 1004] = [Some 1001, Some 1001, Some 1001, Some 1003]"
proof -
  have d: "wired_bus = Dev (clock_slave 1001 0x8AB0 []) [Dev (clock_slave 1002 0x0210 []) [],
     Dev (clock_slave 1003 0x0A30 []) [Dev (clock_slave 1004 0x0210 []) []]]" by (rule wired_bus_def)
  have "countOpenPorts (clock_slave 1001 0x8AB0 []) = 3" "countOpenPorts (clock_slave 1002 0x0210 []) = 1"
    "countOpenPorts (clock_slave 1003 0x0A30 []) = 2" "countOpenPorts (clock_slave 1004 0x0210 []) = 1" by code_simp+
  then have "wired wired_bus" "distinct (map sv_address (preorder wired_bus))" by (simp_all add: d clock_slave_def)
  then have "getTopology (preorder wired_bus) = Inr (map_of (parents (sv_address (clock_slave 1001 0x8AB0 [])) wired_bus))"
    unfolding d by (rule getTopology_is_tree)
  moreover have "map (map_of (parents (sv_address (clock_slave 1001 0x8AB0 [])) wired_bus)) [1001, 1002, 1003, 1004]
      = [Some 1001, Some 1001, Some 1001, Some 1003]" by (simp add: d clock_slave_def)
  ultimately show ?thesis by (intro exI conjI)
qed

definition line_master :: "mslave list \<Rightarrow> unit master" where
  "line_master slaves = \<lparr>mt_bus = (Bus_new [])\<lparr>bs_slaves := slaves, bs_dc_slave := Some 0\<rparr>, mt_queue = [], mt_net = ()\<rparr>"

definition three_in_line :: "mslave list" where
  "three_in_line = [clock_slave 1001 0x0A30 [5000, 5700, 0, 0], clock_slave 1002 0x0A30 [100, 600, 0, 0], clock_slave 1003 0x0210 [77, 0, 0, 0]]"

theorem propagation_delays_of_line_witness:
  "\<exists>r m'. computePropagationDelay echo_env 0 (line_master three_in_line) = Some (r, m')
    \<and> map sv_delay (bs_slaves (mt_bus m')) = [0, 100, 350]"
proof -
  let ?a = "\<lambda>k. if k = 0 then 0 else if k = 1 then 100 else (350 :: int)" and ?off = "\<lambda>k. if k = 0 then 5000 else if k = 1 then 0 else (-273 :: int)"
  have "line_slave 2 ?a ?off 0 (three_in_line ! 0)" "line_slave 2 ?a ?off 1 (three_in_line ! 1)" "line_slave 2 ?a ?off 2 (three_in_line ! 2)"
    by code_simp+
  then have "\<forall>k \<le> 2. line_slave 2 ?a ?off k (three_in_line ! k)" by (auto simp: le_Suc_eq numeral_2_eq_2)
  moreover have "length three_in_line = Suc 2" by (simp add: three_in_line_def)
  ultimately have "line_bus 2 ?a ?off (bs_slaves (mt_bus (line_master three_in_line)))"
    by (auto simp: line_bus_def line_master_def mono_def)
  then obtain r m' where m': "computePropagationDelay echo_env 0 (line_master three_in_line) = Some (r, m')"
      "length (bs_slaves (mt_bus m')) = Suc 2" "\<forall>k \<le> 2. sv_delay (bs_slaves (mt_bus m') ! k) = ?a k - ?a 0"
    using propagation_delays_of_line [of 2 ?a ?off "line_master three_in_line" echo_env 0] by (auto simp: line_master_def)
  then have "sv_delay (bs_slaves (mt_bus m') ! 0) = 0" "sv_delay (bs_slaves (mt_bus m') ! 1) = 100" "sv_delay (bs_slaves (mt_bus m') ! 2) = 350"
    by auto
  then have "map sv_delay (bs_slaves (mt_bus m')) = [0, 100, 350]"
    using m'(2) by (auto simp: numeral_2_eq_2 length_Suc_conv)
  then show ?thesis by (intro exI conjI) (rule m'(1))
qed

theorem isDCSynchronized_exact_witness:
  "\<exists>m'. isDCSynchronized echo_env 0x7070707 (line_master three_in_line) = Some (Inr True, m')"
proof -
  let ?rs = "[Reply [7, 7, 7, 7] 1 0, Reply [7, 7, 7, 7] 1 0]"
  have four: "replicate 4 (7 :: u8) = [7, 7, 7, 7]" by (simp add: numeral_eq_Suc)
  have c: "checked_slaves (mt_bus (line_master three_in_line)) = [1, 2]" by code_simp
  have ex: "be_exchange echo_env (map (\<lambda>i. (FPRD, createAddress (sv_address (bs_slaves (mt_bus (line_master three_in_line)) ! i)) 0x92C, None, 4))
      (checked_slaves (mt_bus (line_master three_in_line)))) (mt_net (line_master three_in_line)) = (?rs, ())"
    unfolding c by (simp add: echo_env_def line_master_def four)
  have "list_all (in_sync 0x7070707) ?rs" by code_simp
  moreover have "\<exists>m'. isDCSynchronized echo_env 0x7070707 (line_master three_in_line) = Some (Inr (list_all (in_sync 0x7070707) ?rs), m')"
    by (rule isDCSynchronized_exact [OF _ _ _ ex]) (unfold c, simp_all add: line_master_def)
  ultimately show ?thesis by (simp only: simp_thms)
qed

end
