(* ===== verification/BusGateway.thy ===== *)
theory BusGateway
  imports BusMailbox
begin

text \<open>
  Two clients of the bus: the sequencer that spreads the mailbox operations over the cycles of an application
  (\<open>lib/master/src/MailboxSequencer.cc\<close>) and the gateway that forwards the mailbox requests of an external network to
  the slaves and returns their replies (\<open>lib/master/src/Gateway.cc\<close>). The socket of the gateway is its environment: what
  it received is an argument, what it sends is a result.
\<close>

section \<open>Sequencer\<close>

record sequencer =
  sq_period :: int
  sq_counter :: int
  sq_phase :: int

definition MailboxSequencer_new :: "int \<Rightarrow> sequencer" where
  "MailboxSequencer_new period = \<lparr>sq_period = period, sq_counter = 0, sq_phase = 0\<rparr>"

text \<open>The operation whose turn it is, if any, and the state in which it is called; the phase moves on when it returned.\<close>

definition sequencer_turn :: "u8 \<Rightarrow> sequencer \<Rightarrow> int option \<times> sequencer" where
  "sequencer_turn mode sq =
     (let counter = sq_counter sq + 1
      in if counter < sq_period sq then (None, sq\<lparr>sq_counter := counter\<rparr>)
         else let phase = (if (sq_phase sq = 0 \<and> mode AND 1 \<noteq> 0) \<or> (sq_phase sq = 2 \<and> mode AND 2 \<noteq> 0)
                           then (sq_phase sq + 1) mod 4 else sq_phase sq)
              in (Some phase, sq\<lparr>sq_counter := 0, sq_phase := phase\<rparr>))"

definition advance :: "sequencer \<Rightarrow> sequencer" where
  "advance sq = sq\<lparr>sq_phase := (sq_phase sq + 1) mod 4\<rparr>"

definition phase_operation :: "'n bus_env \<Rightarrow> on_err \<Rightarrow> int \<Rightarrow> ('n, unit) act" where
  "phase_operation env error phase =
     (if phase = 0 then sendMailboxesReadChecks error
      else if phase = 1 then sendReadMessages error
      else if phase = 2 then sendMailboxesWriteChecks error
      else if phase = 3 then sendWriteMessages env error
      else retE ())"

definition sequencer_step :: "'n bus_env \<Rightarrow> on_err \<Rightarrow> sequencer \<Rightarrow> 'n master \<Rightarrow> ((exn + unit) \<times> sequencer \<times> 'n master) option" where
  "sequencer_step env error sq m =
     (case sequencer_turn (bs_mailbox_status (mt_bus m)) sq of
        (None, sq) \<Rightarrow> Some (Inr (), sq, m)
      | (Some phase, sq) \<Rightarrow> do {
          (r, m) \<leftarrow> phase_operation env error phase m;
          case r of Inl e \<Rightarrow> Some (Inl e, sq, m) | Inr _ \<Rightarrow> Some (Inr (), advance sq, m)
        })"

section \<open>Gateway\<close>

text \<open>The message behind a handle. A request that is queued is a gateway message of the mailbox of its slave.\<close>

definition handle_message :: "bus \<Rightarrow> gateway_handle \<Rightarrow> gateway_message option" where
  "handle_message b h =
     (case h of
        Served g \<Rightarrow> Some g
      | Queued i k \<Rightarrow> (case message_at i k b of GatewayReq g \<Rightarrow> Some g | _ \<Rightarrow> None))"

definition handle_status :: "'n bus_env \<Rightarrow> gateway_handle \<Rightarrow> ('n, u32) act" where
  "handle_status env h =
     (case h of
        Queued i k \<Rightarrow> status_of env i k
      | Served g \<Rightarrow> bindE (nowE env) (\<lambda>t. retE (am_status (message_status t (gw_base g)))))"

text \<open>What \<open>recv\<close> left: the size it returned, the whole buffer of an Ethernet payload and the index of the requester.\<close>

definition fetchRequest ::
    "'n bus_env \<Rightarrow> hooks \<Rightarrow> int \<Rightarrow> bytes \<Rightarrow> u16 \<Rightarrow> (response_mailbox \<times> heap) option \<Rightarrow> gateway_handle list
      \<Rightarrow> ('n, gateway_handle list \<times> (response_mailbox \<times> heap) option) act" where
  "fetchRequest env hk frame_size frame index mm pending =
     (if frame_size < 0 then retE (pending, mm)
      else if frame_size < 8 then retE (pending, mm)
      else if eh_type (dec_ethercat_header (peek frame 0 2)) \<noteq> 5 then retE (pending, mm)
      else let raw_message_size = 6 + uint (mh_len (dec_mailbox_header (peek frame 2 6)));
               max_message_size = frame_size - 2
           in if raw_message_size > max_message_size then retE (pending, mm)
              else bindE (addGatewayMessage env hk (drop 2 frame) raw_message_size index mm) (\<lambda>(msg, mm).
                     case msg of None \<Rightarrow> retE (pending, mm) | Some h \<Rightarrow> retE (pending @ [h], mm)))"

text \<open>The reply of a message. The reserved bit of the header is not written: it is the one of the buffer on the stack.\<close>

definition reply_frame :: "bytes \<Rightarrow> gateway_message \<Rightarrow> bytes \<times> u16" where
  "reply_frame buffer g =
     (let data = am_data (gw_base g); reply_size = min (length data) 1498
      in (enc_ethercat_header ((dec_ethercat_header (peek buffer 0 2))\<lparr>eh_type := 5, eh_len := of_nat reply_size\<rparr>)
            @ take reply_size data,
          gw_gateway_index g))"

fun processPendingRequests :: "'n bus_env \<Rightarrow> bytes \<Rightarrow> gateway_handle list \<Rightarrow> ('n, (bytes \<times> u16) list \<times> gateway_handle list) act" where
  "processPendingRequests env buffer [] = retE ([], [])"
| "processPendingRequests env buffer (h # hs) =
     bindE (handle_status env h) (\<lambda>status.
     bindE (busE (\<lambda>b. handle_message b h)) (\<lambda>msg.
     bindE (processPendingRequests env buffer hs) (\<lambda>(sent, kept).
       if status = RUNNING then retE (sent, h # kept)
       else if status \<noteq> SUCCESS then retE (sent, kept)
       else case msg of
              None \<Rightarrow> (\<lambda>m. None)
            | Some g \<Rightarrow> retE (reply_frame buffer g # sent, kept))))"

section \<open>The schedule of the sequencer\<close>

fun turns :: "u8 \<Rightarrow> nat \<Rightarrow> sequencer \<Rightarrow> int option list \<times> sequencer" where
  "turns mode 0 sq = ([], sq)"
| "turns mode (Suc n) sq =
     (let (turn, sq) = sequencer_turn mode sq; (ts, sq) = turns mode n (if turn = None then sq else advance sq) in (turn # ts, sq))"

text \<open>The operations of a round: the checks that are mapped to the process data are left out.\<close>

definition round_of :: "u8 \<Rightarrow> int list" where
  "round_of mode = (if mode AND 1 \<noteq> 0 then [1] else [0, 1]) @ (if mode AND 2 \<noteq> 0 then [3] else [2, 3])"

definition spaced :: "nat \<Rightarrow> int list \<Rightarrow> int option list" where
  "spaced period ops = concat (map (\<lambda>op. replicate (period - 1) None @ [Some op]) ops)"

lemma turns_add: "turns mode (m + n) sq = (let (ts, sq) = turns mode m sq; (us, sq) = turns mode n sq in (ts @ us, sq))"
  by (induction m arbitrary: sq) (auto simp: Let_def split: prod.splits)

lemma turns_idle:
  "c + n < p \<Longrightarrow> turns mode n \<lparr>sq_period = int p, sq_counter = int c, sq_phase = ph\<rparr>
    = (replicate n None, \<lparr>sq_period = int p, sq_counter = int (c + n), sq_phase = ph\<rparr>)"
proof (induction n arbitrary: c)
  case (Suc n)
  have "sequencer_turn mode \<lparr>sq_period = int p, sq_counter = int c, sq_phase = ph\<rparr>
      = (None, \<lparr>sq_period = int p, sq_counter = int (Suc c), sq_phase = ph\<rparr>)"
    using Suc.prems by (simp add: sequencer_turn_def)
  then show ?case using Suc.IH [of "Suc c"] Suc.prems by simp
qed simp

lemma turns_period:
  assumes "0 < p"
  shows "turns mode p \<lparr>sq_period = int p, sq_counter = 0, sq_phase = ph\<rparr> =
    (let ph' = (if (ph = 0 \<and> mode AND 1 \<noteq> 0) \<or> (ph = 2 \<and> mode AND 2 \<noteq> 0) then (ph + 1) mod 4 else ph)
     in (replicate (p - 1) None @ [Some ph'], \<lparr>sq_period = int p, sq_counter = 0, sq_phase = (ph' + 1) mod 4\<rparr>))"
proof -
  have p: "p = (p - 1) + 1" using assms by simp
  have "turns mode (p - 1) \<lparr>sq_period = int p, sq_counter = 0, sq_phase = ph\<rparr>
      = (replicate (p - 1) None, \<lparr>sq_period = int p, sq_counter = int (p - 1), sq_phase = ph\<rparr>)"
    using turns_idle [of 0 "p - 1" p mode ph] assms by simp
  then show ?thesis
    by (subst p, subst turns_add) (use assms in \<open>simp add: sequencer_turn_def advance_def Let_def of_nat_diff\<close>)
qed

lemma turns_round:
  assumes "0 < p"
  shows "turns mode (length (round_of mode) * p) (MailboxSequencer_new (int p)) = (spaced p (round_of mode), MailboxSequencer_new (int p))"
  unfolding MailboxSequencer_new_def round_of_def spaced_def
  by (cases "mode AND 1 = 0"; cases "mode AND 2 = 0") (simp_all add: turns_add turns_period [OF assms] Let_def)

text \<open>(C8) The sequencer serves the mailbox operations in turn. Called once per cycle, it runs one operation every \<open>period\<close>
  cycles and none in between, always in the order read check, read, write check, write, and leaves out exactly the
  checks that the process data already carry; so every operation that is needed runs once per round.\<close>

theorem sequencer_round_robin:
  assumes "0 < p"
  shows "turns mode (k * (length (round_of mode) * p)) (MailboxSequencer_new (int p))
    = (concat (replicate k (spaced p (round_of mode))), MailboxSequencer_new (int p))"
  by (induction k) (simp_all add: turns_add turns_round [OF assms] Let_def)

theorem sequencer_round_robin_witness:
  "fst (turns 1 12 (MailboxSequencer_new 2))
   = concat (replicate 2 [None, Some 1, None, Some 2, None, Some 3])"
proof -
  have r: "round_of 1 = [1, 2, 3]" by code_simp
  show ?thesis using sequencer_round_robin [of 2 1 2] by (simp add: r spaced_def)
qed

section \<open>The requests of the gateway\<close>

text \<open>A handle the bus gave out: a message in the mailbox of its slave, or a reply that is already complete.\<close>

definition good_handle :: "bus \<Rightarrow> gateway_handle \<Rightarrow> bool" where
  "good_handle b h \<longleftrightarrow>
     (case h of
        Served g \<Rightarrow> am_status (gw_base g) = SUCCESS
      | Queued i k \<Rightarrow> i < length (bs_slaves b) \<and> k < length (qb_messages (sv_mailbox (bs_slaves b ! i)))) \<and> handle_message b h \<noteq> None"

definition status_in :: "bus \<Rightarrow> gateway_handle \<Rightarrow> u32" where
  "status_in b h = am_status (gw_base (the (handle_message b h)))"

definition reply_in :: "bytes \<Rightarrow> bus \<Rightarrow> gateway_handle \<Rightarrow> bytes \<times> u16" where
  "reply_in buffer b h = reply_frame buffer (the (handle_message b h))"

definition kept_others :: "gateway_handle set \<Rightarrow> bus \<Rightarrow> bus \<Rightarrow> bool" where
  "kept_others H b b' \<longleftrightarrow> (\<forall>h. h \<notin> H \<longrightarrow> good_handle b h \<longrightarrow> good_handle b' h \<and> handle_message b' h = handle_message b h)"

lemma kept_others_trans: "kept_others H b b' \<Longrightarrow> kept_others H' b' b'' \<Longrightarrow> kept_others (H \<union> H') b b''"
  by (simp add: kept_others_def)

lemma kept_others_refl: "kept_others H b b"
  by (simp add: kept_others_def)

definition polled :: "int \<Rightarrow> nat \<Rightarrow> nat \<Rightarrow> bus \<Rightarrow> bus" where
  "polled t i k = upd_mailbox i (\<lambda>mb. mb\<lparr>qb_messages := (qb_messages mb)[k := qmsg_map_base (message_status t) (qb_messages mb ! k)]\<rparr>)"

lemma polled_shape:
  assumes "i < length (bs_slaves b)"
  shows "length (bs_slaves (polled t i k b)) = length (bs_slaves b)"
    "length (qb_messages (sv_mailbox (bs_slaves (polled t i k b) ! j))) = length (qb_messages (sv_mailbox (bs_slaves b ! j)))"
    "k < length (qb_messages (sv_mailbox (bs_slaves b ! i))) \<Longrightarrow>
     message_at j l (polled t i k b) = (if j = i \<and> l = k then qmsg_map_base (message_status t) (message_at i k b) else message_at j l b)"
  using assms by (auto simp: polled_def upd_mailbox_def upd_slave_def message_at_def slave_at_def nth_list_update)

lemma poll_queued:
  assumes "good_handle b (Queued i k)"
  shows "good_handle (polled t i k b) (Queued i k)" "kept_others {Queued i k} b (polled t i k b)"
    "am_status (qmsg_base (message_at i k (polled t i k b))) = status_in (polled t i k b) (Queued i k)"
proof -
  have r: "i < length (bs_slaves b)" "k < length (qb_messages (sv_mailbox (bs_slaves b ! i)))" using assms by (simp_all add: good_handle_def)
  obtain g where g: "message_at i k b = GatewayReq g"
    using assms by (auto simp: good_handle_def handle_message_def split: qmsg.splits)
  note shape = polled_shape [OF r(1)] polled_shape(3) [OF r]
  show "good_handle (polled t i k b) (Queued i k)" using r g by (simp add: good_handle_def handle_message_def shape)
  show "am_status (qmsg_base (message_at i k (polled t i k b))) = status_in (polled t i k b) (Queued i k)"
    using g by (simp add: status_in_def handle_message_def shape)
  have "good_handle (polled t i k b) h \<and> handle_message (polled t i k b) h = handle_message b h" if "h \<noteq> Queued i k" "good_handle b h" for h
    using that by (cases h) (auto simp: good_handle_def handle_message_def shape)
  then show "kept_others {Queued i k} b (polled t i k b)" by (simp add: kept_others_def)
qed

lemma poll_handle:
  assumes "good_handle (mt_bus m) h"
  shows "\<exists>m'. handle_status env h m = Some (Inr (status_in (mt_bus m') h), m') \<and> good_handle (mt_bus m') h \<and> kept_others {h} (mt_bus m) (mt_bus m')"
proof -
  obtain t n where now: "be_now env (mt_net m) = (t, n)" by fastforce
  show ?thesis
  proof (cases h)
    case (Served g)
    let ?m = "m\<lparr>mt_net := n\<rparr>"
    have "am_status (gw_base g) = SUCCESS" using assms Served by (simp add: good_handle_def)
    then have "handle_status env h m = Some (Inr (status_in (mt_bus ?m) h), ?m)"
      using now by (simp add: Served handle_status_def bindE_def nowE_def retE_def status_in_def handle_message_def message_status_def)
    then show ?thesis using assms kept_others_refl [of "{h}" "mt_bus m"] by (intro exI [of _ ?m]) simp
  next
    case (Queued i k)
    let ?m = "m\<lparr>mt_bus := polled t i k (mt_bus m), mt_net := n\<rparr>"
    note q = poll_queued [OF assms [unfolded Queued], of t]
    have "handle_status env h m = Some (Inr (status_in (mt_bus ?m) h), ?m)"
      using q(3) now by (simp add: Queued handle_status_def status_of_def bindE_def thenE_def nowE_def updE_def busE_def flip: polled_def)
    then show ?thesis using q(1,2) by (intro exI [of _ ?m]) (simp add: Queued)
  qed
qed

text \<open>What the gateway keeps of its pending requests: handles the bus gave out, no queued message twice.\<close>

definition gateway_inv :: "bus \<Rightarrow> gateway_handle list \<Rightarrow> bool" where
  "gateway_inv b hs \<longleftrightarrow> list_all (good_handle b) hs \<and> distinct (filter (\<lambda>h. case h of Queued _ _ \<Rightarrow> True | Served _ \<Rightarrow> False) hs)"

lemma gateway_inv_Cons:
  assumes "gateway_inv b (h # hs)" and "kept_others {h} b b'" and "good_handle b' h"
  shows "gateway_inv b' hs"
proof -
  have "good_handle b' h'" if "h' \<in> set hs" for h'
    using assms that by (cases "h' = h") (auto simp: gateway_inv_def kept_others_def list_all_iff)
  then show ?thesis using assms(1) by (auto simp: gateway_inv_def list_all_iff split: if_splits)
qed

lemma kept_handle:
  assumes "gateway_inv b (h # hs)" and "good_handle b1 h" and "kept_others (set hs) b1 b2"
  shows "good_handle b2 h \<and> handle_message b2 h = handle_message b1 h"
proof (cases h)
  case (Served g)
  then show ?thesis using assms(2) by (simp add: good_handle_def handle_message_def)
next
  case (Queued i k)
  then have "h \<notin> set hs" using assms(1) by (auto simp: gateway_inv_def)
  then show ?thesis using assms(2,3) by (simp add: kept_others_def)
qed

lemma pending_settled:
  fixes m :: "'n master"
  assumes "gateway_inv (mt_bus m) hs"
  shows "\<exists>m'. processPendingRequests env buffer hs m
      = Some (Inr (map (reply_in buffer (mt_bus m')) (filter (\<lambda>h. status_in (mt_bus m') h = SUCCESS) hs),
                   filter (\<lambda>h. status_in (mt_bus m') h = RUNNING) hs), m')
    \<and> list_all (good_handle (mt_bus m')) hs \<and> kept_others (set hs) (mt_bus m) (mt_bus m')"
  using assms
proof (induction hs arbitrary: m)
  case Nil
  then show ?case by (simp add: retE_def kept_others_refl)
next
  case (Cons h hs)
  obtain m1 where m1: "handle_status env h m = Some (Inr (status_in (mt_bus m1) h), m1)" "good_handle (mt_bus m1) h" "kept_others {h} (mt_bus m) (mt_bus m1)"
    using poll_handle [of m h env] Cons.prems by (auto simp: gateway_inv_def)
  obtain m' where m': "processPendingRequests env buffer hs m1
      = Some (Inr (map (reply_in buffer (mt_bus m')) (filter (\<lambda>h. status_in (mt_bus m') h = SUCCESS) hs),
                   filter (\<lambda>h. status_in (mt_bus m') h = RUNNING) hs), m')"
      "list_all (good_handle (mt_bus m')) hs" "kept_others (set hs) (mt_bus m1) (mt_bus m')"
    using Cons.IH [OF gateway_inv_Cons [OF Cons.prems m1(3,2)]] by blast
  have same: "good_handle (mt_bus m') h" "handle_message (mt_bus m') h = handle_message (mt_bus m1) h"
    using kept_handle [OF Cons.prems m1(2) m'(3)] by blast+
  then have st: "status_in (mt_bus m1) h = status_in (mt_bus m') h" by (simp add: status_in_def)
  have msg: "handle_message (mt_bus m1) h = Some (the (handle_message (mt_bus m') h))" using same by (auto simp: good_handle_def)
  have "processPendingRequests env buffer (h # hs) m
      = Some (Inr (map (reply_in buffer (mt_bus m')) (filter (\<lambda>h. status_in (mt_bus m') h = SUCCESS) (h # hs)),
                   filter (\<lambda>h. status_in (mt_bus m') h = RUNNING) (h # hs)), m')"
    using m1(1) m'(1) st msg by (simp add: bindE_def busE_def retE_def reply_in_def SUCCESS_def RUNNING_def)
  moreover have "kept_others (set (h # hs)) (mt_bus m) (mt_bus m')" using kept_others_trans [OF m1(3) m'(3)] by simp
  ultimately show ?case using m'(2) same by auto
qed

text \<open>(C7) The gateway answers every request once. Polling the pending requests always returns. It sends, in order and to the
  requester of each, the reply of exactly the requests that have succeeded, drops the failed ones, and keeps exactly
  those that still run.\<close>

theorem gateway_answers_once:
  assumes "gateway_inv (mt_bus m) hs"
  shows "\<exists>sent kept m'. processPendingRequests env buffer hs m = Some (Inr (sent, kept), m') \<and> gateway_inv (mt_bus m') kept
    \<and> sent = map (reply_in buffer (mt_bus m')) (filter (\<lambda>h. status_in (mt_bus m') h = SUCCESS) hs)
    \<and> kept = filter (\<lambda>h. status_in (mt_bus m') h = RUNNING) hs"
proof -
  obtain m' where m': "processPendingRequests env buffer hs m
      = Some (Inr (map (reply_in buffer (mt_bus m')) (filter (\<lambda>h. status_in (mt_bus m') h = SUCCESS) hs),
                   filter (\<lambda>h. status_in (mt_bus m') h = RUNNING) hs), m')" "list_all (good_handle (mt_bus m')) hs"
    using pending_settled [OF assms] by blast
  have "distinct (filter P (filter Q hs))" if "distinct (filter P hs)" for P Q
  proof -
    have "filter P (filter Q hs) = filter Q (filter P hs)" by (simp add: conj_commute)
    then show ?thesis using that by (simp only: distinct_filter)
  qed
  then have "gateway_inv (mt_bus m') (filter (\<lambda>h. status_in (mt_bus m') h = RUNNING) hs)"
    using assms m'(2) unfolding gateway_inv_def by (simp add: list_all_iff)
  then show ?thesis using m'(1) by blast
qed

section \<open>New requests\<close>

lemma gateway_message_created:
  assumes "6 \<le> raw_size" and "nat raw_size \<le> length raw"
  shows "\<exists>r. createGatewayMessage raw raw_size index timeout t mb = Some r
    \<and> (case r of None \<Rightarrow> True
       | Some (k, mb') \<Rightarrow> k = length (qb_messages mb) \<and> (\<exists>g. qb_messages mb' = qb_messages mb @ [GatewayReq g]))"
proof -
  have raw: "6 \<le> length raw" using assms by linarith
  define header where "header = dec_mailbox_header (peek raw 0 6)"
  have h: "header_of raw = Some header" using raw by (simp add: header_of_def header_def)
  show ?thesis
  proof (cases "uint (qb_recv_size mb) < raw_size \<or> raw_size < 6 + uint (mh_len header)")
    case True
    then have "createGatewayMessage raw raw_size index timeout t mb = Some None"
      using assms(1) h by (elim disjE) (simp_all add: createGatewayMessage_def)
    then show ?thesis by simp
  next
    case False
    let ?base = "AbstractMessage_new (qb_recv_size mb) timeout t"
    define size where "size = (let n = 6 + unat (mh_len header) in if length (am_data ?base) < n then length (am_data ?base) else n)"
    have unat_int: "int (unat (mh_len header)) = uint (mh_len header)" by simp
    have "6 + unat (mh_len header) \<le> length raw" using False assms(2) unat_int by linarith
    then have size: "size \<le> length raw" "size \<le> length (am_data ?base)" by (auto simp: size_def Let_def)
    then obtain data where data: "mem_write (am_data ?base) 0 (peek raw 0 size) = Some data" "length data = length (am_data ?base)"
      by (simp add: mem_write_eq_Some_iff)
    have "6 \<le> length data" using data(2) by (simp add: AbstractMessage_new_def)
    then have "header_of data = Some (dec_mailbox_header (peek data 0 6))" by (simp add: header_of_def)
    then obtain g where "GatewayMessage_new (qb_recv_size mb) raw index timeout t = Some g"
      using h size data(1) by (auto simp: GatewayMessage_new_def Let_def size_def split: if_splits)
    then have "createGatewayMessage raw raw_size index timeout t mb = Some (Some (enqueue (GatewayReq g) mb))"
      using False assms(1) h by (simp add: createGatewayMessage_def)
    then show ?thesis by (simp add: enqueue_def Let_def)
  qed
qed

text \<open>A new request joins the pending ones without disturbing them.\<close>

lemma enqueued_handle:
  assumes "i < length (bs_slaves b)" and "qb_messages mb = qb_messages (sv_mailbox (bs_slaves b ! i)) @ [GatewayReq g]"
    and "gateway_inv b pending"
  shows "gateway_inv (upd_mailbox i (\<lambda>_. mb) b) (pending @ [Queued i (length (qb_messages (sv_mailbox (bs_slaves b ! i))))])"
proof -
  let ?k = "length (qb_messages (sv_mailbox (bs_slaves b ! i)))" and ?b = "upd_mailbox i (\<lambda>_. mb) b"
  have boxes: "sv_mailbox (bs_slaves ?b ! j) = (if j = i then mb else sv_mailbox (bs_slaves b ! j))" "length (bs_slaves ?b) = length (bs_slaves b)" for j
    using assms(1) by (auto simp: upd_mailbox_def upd_slave_def nth_list_update)
  have "message_at i ?k ?b = GatewayReq g" by (simp add: message_at_def slave_at_def boxes assms(2))
  then have new: "good_handle ?b (Queued i ?k)" using assms(1) by (simp add: good_handle_def handle_message_def boxes assms(2))
  have old: "good_handle ?b h" if "good_handle b h" for h
    using that by (cases h) (auto simp: good_handle_def handle_message_def message_at_def slave_at_def boxes assms(2) nth_append)
  have "Queued i ?k \<notin> set pending" using assms(3) by (auto simp: gateway_inv_def list_all_iff good_handle_def)
  then show ?thesis using new old assms(3) by (auto simp: gateway_inv_def list_all_iff)
qed

lemma find_slave_less: "findSlaveByAddress ss a = Some i \<Longrightarrow> i < length ss"
proof -
  assume "findSlaveByAddress ss a = Some i"
  then obtain s where "find (\<lambda>(i, s). sv_address s = a) (enumerate 0 ss) = Some (i, s)" by (auto simp: findSlaveByAddress_def)
  then have "(i, s) \<in> set (enumerate 0 ss)" by (auto simp: find_Some_iff in_set_conv_nth)
  then show ?thesis by (simp add: in_set_enumerate_eq)
qed

lemma fetch_request_keeps:
  fixes m :: "'n master"
  assumes "length frame = 1500" and "frame_size \<le> 1500" and "gateway_inv (mt_bus m) pending"
  shows "\<exists>pending' m'. fetchRequest env hk frame_size frame index None pending m = Some (Inr (pending', None), m') \<and> gateway_inv (mt_bus m') pending'
    \<and> (pending' = pending \<or> (\<exists>h. pending' = pending @ [h]))"
proof -
  define raw_size where "raw_size = 6 + uint (mh_len (dec_mailbox_header (peek frame 2 6)))"
  show ?thesis
  proof (cases "frame_size < 8 \<or> eh_type (dec_ethercat_header (peek frame 0 2)) \<noteq> 5 \<or> raw_size > frame_size - 2")
    case True
    then have "fetchRequest env hk frame_size frame index None pending m = Some (Inr (pending, None), m)"
      by (auto simp: fetchRequest_def Let_def retE_def raw_size_def)
    then show ?thesis using assms(3) by blast
  next
    case False
    then have f: "fetchRequest env hk frame_size frame index None pending
        = bindE (addGatewayMessage env hk (drop 2 frame) raw_size index None) (\<lambda>(msg, mm).
            case msg of None \<Rightarrow> retE (pending, mm) | Some h \<Rightarrow> retE (pending @ [h], mm))"
      by (simp add: fetchRequest_def Let_def raw_size_def)
    have r: "6 \<le> raw_size" "nat raw_size \<le> length (drop 2 frame)" using False assms(1,2) by (auto simp: raw_size_def)
    define header where "header = dec_mailbox_header (peek (drop 2 frame) 0 6)"
    have h: "header_of (drop 2 frame) = Some header" using assms(1) by (simp add: header_of_def header_def)
    obtain t n where now: "be_now env (mt_net m) = (t, n)" by fastforce
    let ?m = "m\<lparr>mt_net := n\<rparr>"
    show ?thesis
    proof (cases "mh_address header = 0 \<or> findSlaveByAddress (bs_slaves (mt_bus m)) (mh_address header) = None")
      case True
      then have "addGatewayMessage env hk (drop 2 frame) raw_size index None m = Some (Inr (None, None), ?m)"
        using r h now by (auto simp: addGatewayMessage_def bindE_def nowE_def)
      then have "fetchRequest env hk frame_size frame index None pending m = Some (Inr (pending, None), ?m)"
        by (simp add: f bindE_def retE_def)
      then show ?thesis using assms(3) by force
    next
      case False
      then obtain i where i: "mh_address header \<noteq> 0" "findSlaveByAddress (bs_slaves (mt_bus m)) (mh_address header) = Some i" by auto
      note less = find_slave_less [OF i(2)]
      let ?mb = "sv_mailbox (bs_slaves (mt_bus m) ! i)"
      obtain c where c: "createGatewayMessage (drop 2 frame) raw_size index 20000000 t ?mb = Some c"
          "case c of None \<Rightarrow> True | Some (k, mb') \<Rightarrow> k = length (qb_messages ?mb) \<and> (\<exists>g. qb_messages mb' = qb_messages ?mb @ [GatewayReq g])"
        using gateway_message_created [OF r] by blast
      have a: "addGatewayMessage env hk (drop 2 frame) raw_size index None m =
          (case c of None \<Rightarrow> Some (Inr (None, None), ?m)
           | Some (k, mb) \<Rightarrow> Some (Inr (Some (Queued i k), None), ?m\<lparr>mt_bus := upd_mailbox i (\<lambda>_. mb) (mt_bus m)\<rparr>))"
        using r h now i c(1) by (simp add: addGatewayMessage_def bindE_def nowE_def slave_at_def split: option.split prod.split)
      show ?thesis
      proof (cases c)
        case None
        then have "fetchRequest env hk frame_size frame index None pending m = Some (Inr (pending, None), ?m)"
          using a by (simp add: f bindE_def retE_def)
        then show ?thesis using assms(3) by force
      next
        case (Some kmb)
        then obtain k mb g where k: "c = Some (k, mb)" "k = length (qb_messages ?mb)" "qb_messages mb = qb_messages ?mb @ [GatewayReq g]"
          using c(2) by (cases kmb) auto
        then have "fetchRequest env hk frame_size frame index None pending m
            = Some (Inr (pending @ [Queued i k], None), ?m\<lparr>mt_bus := upd_mailbox i (\<lambda>_. mb) (mt_bus m)\<rparr>)"
          using a by (simp add: f bindE_def retE_def)
        then show ?thesis using enqueued_handle [OF less k(3) assms(3)] k(2) by force
      qed
    qed
  qed
qed

section \<open>A gateway on a concrete bus\<close>

definition gateway_bus :: bus where
  "gateway_bus = (Bus_new [])\<lparr>bs_slaves := [Slave_default\<lparr>sv_address := 1001, sv_mailbox := request_Mailbox_new\<lparr>qb_messages :=
     map GatewayReq [\<lparr>gw_base = \<lparr>am_data = [1, 2, 3, 4, 5, 6, 7, 8], am_status = SUCCESS, am_timeout = 0\<rparr>, gw_address = 1001, gw_gateway_index = 9\<rparr>,
       \<lparr>gw_base = \<lparr>am_data = [1, 2, 3, 4, 5, 6], am_status = RUNNING, am_timeout = 50\<rparr>, gw_address = 1001, gw_gateway_index = 10\<rparr>,
       \<lparr>gw_base = \<lparr>am_data = [1, 2, 3, 4, 5, 6], am_status = RUNNING, am_timeout = 200\<rparr>, gw_address = 1001, gw_gateway_index = 11\<rparr>]\<rparr>\<rparr>]\<rparr>"

definition gateway_master :: "unit master" where
  "gateway_master = \<lparr>mt_bus = gateway_bus, mt_queue = [], mt_net = ()\<rparr>"

definition clock_env :: "unit bus_env" where
  "clock_env = \<lparr>be_writeThenRead = (\<lambda>reqs n. (Inr [], n)), be_exchange = (\<lambda>reqs n. ([], n)), be_now = (\<lambda>n. (100, n)),
     be_since_ecat_epoch = (\<lambda>n. (0, n)), be_sleep = (\<lambda>d n. n), be_setLogicalMapping = (\<lambda>d n. n), be_attachEcatEventCallback = (\<lambda>e n. n)\<rparr>"

theorem gateway_answers_once_witness:
  "\<exists>sent m'. processPendingRequests clock_env [0, 0] [Queued 0 0, Queued 0 1, Queued 0 2] gateway_master = Some (Inr (sent, [Queued 0 2]), m')
    \<and> gateway_inv (mt_bus m') [Queued 0 2] \<and> length sent = 1"
proof -
  have "gateway_inv (mt_bus gateway_master) [Queued 0 0, Queued 0 1, Queued 0 2]" by code_simp
  from gateway_answers_once [OF this, of clock_env "[0, 0]"]
  obtain sent kept m' where r: "processPendingRequests clock_env [0, 0] [Queued 0 0, Queued 0 1, Queued 0 2] gateway_master = Some (Inr (sent, kept), m')"
      "gateway_inv (mt_bus m') kept" by blast
  have "map_option (\<lambda>(r, m). case r of Inr (sent, kept) \<Rightarrow> (length sent, kept) | Inl _ \<Rightarrow> (0, []))
      (processPendingRequests clock_env [0, 0] [Queued 0 0, Queued 0 1, Queued 0 2] gateway_master) = Some (1, [Queued 0 2])" by code_simp
  then have "length sent = 1" "kept = [Queued 0 2]" unfolding r(1) by simp_all
  then show ?thesis using r by blast
qed

end
