(* ===== verification/SIIBuild.thy ===== *)
theory SIIBuild
  imports Bus
begin

text \<open>
  Building the EEPROM image of a device from its ESI description (\<open>lib/src/ESI/SIIBuilder.cc\<close>), and the part of the
  description it reads (\<open>lib/include/kickcat/ESI/Device.h\<close>). An optional part of which only the presence matters is a
  truth value; a signed 32-bit number is an integer, and a cast to a narrower type keeps its low bits. The two areas
  that the code copies as a whole, \<open>info\<close> and \<open>general\<close>, are raw bytes, written field by field.
\<close>

section \<open>The device description\<close>

record sm_info =
  si_type :: u8
  si_default_size :: u16
  si_start_address :: u16
  si_control_byte :: u8
  si_enable :: u8

record coe_details =
  cd_sdo_info :: bool
  cd_pdo_assign :: bool
  cd_pdo_config :: bool
  cd_pdo_upload :: bool
  cd_complete_access :: bool

record esi_mailbox =
  em_coe :: "coe_details option"
  em_eoe :: bool
  em_foe :: bool
  em_soe :: bool
  em_aoe :: bool
  em_voe :: bool

record esi_entry =
  xe_index :: u16
  xe_subindex :: u8
  xe_bit_len :: u16
  xe_name :: bytes
  xe_data_type :: string

record esi_pdo =
  ep_index :: u16
  ep_name :: bytes
  ep_sm :: "int option"
  ep_fixed :: bool
  ep_entries :: "esi_entry list"

record esi_category =
  ec_cat_no :: int
  ec_data :: bytes
  ec_data_string :: "bytes option"
  ec_data_uint :: "int option"
  ec_data_udint :: "int option"

record esi_eeprom =
  ee_raw_data :: bytes
  ee_byte_size :: "int option"
  ee_config_data :: bytes
  ee_bootstrap :: bytes
  ee_categories :: "esi_category list"

text \<open>A cycle or shift time is its value and, if given, its factor; \<open>sync0\<close> and \<open>sync1\<close> are the first two of the four.\<close>

record op_mode =
  om_name :: bytes
  om_desc :: bytes
  om_assign_activate :: u32
  om_cycle_sync0 :: "(int \<times> int option) option"
  om_cycle_sync1 :: "(int \<times> int option) option"
  om_shift_sync0 :: "int option"
  om_shift_sync1 :: "int option"

record device =
  dv_type :: bytes
  dv_product_code :: u32
  dv_revision_no :: u32
  dv_serial_no :: u32
  dv_name :: bytes
  dv_group_type :: bytes
  dv_vendor_id :: u32
  dv_sync_managers :: "sm_info list"
  dv_fmmus :: "u8 list"
  dv_mailbox :: "esi_mailbox option"
  dv_rx_pdos :: "esi_pdo list"
  dv_tx_pdos :: "esi_pdo list"
  dv_eeprom :: "esi_eeprom option"
  dv_dc :: "op_mode list option"

section \<open>Building the structure\<close>

text \<open>\<open>BASIC_TYPES\<close>: the basic types of an ESI file and their codes.\<close>

definition BASIC_TYPES :: "(string \<times> u16) list" where
  "BASIC_TYPES =
     [(''BOOL'', 0x01), (''BYTE'', 0x1E), (''WORD'', 0x1F), (''DWORD'', 0x20), (''SINT'', 0x02), (''INT'', 0x03),
      (''INT24'', 0x10), (''DINT'', 0x04), (''INT40'', 0x12), (''INT48'', 0x13), (''INT56'', 0x14), (''LINT'', 0x15),
      (''USINT'', 0x05), (''UINT'', 0x06), (''UINT24'', 0x16), (''UDINT'', 0x07), (''UINT40'', 0x18), (''UINT48'', 0x19),
      (''UINT56'', 0x1A), (''ULINT'', 0x1B), (''REAL'', 0x08), (''LREAL'', 0x11), (''BIT2'', 0x31), (''BIT3'', 0x32),
      (''BIT4'', 0x33), (''BIT5'', 0x34), (''BIT6'', 0x35), (''BIT7'', 0x36), (''BIT8'', 0x37)]"

definition coeTypeFromLabel :: "string \<Rightarrow> u16 option" where
  "coeTypeFromLabel label = map_of BASIC_TYPES label"

definition entry_data_type :: "esi_entry \<Rightarrow> u8" where
  "entry_data_type e =
     (if xe_index e \<noteq> 0 then (case coeTypeFromLabel (xe_data_type e) of Some ty \<Rightarrow> ucast ty | None \<Rightarrow> 0) else 0)"

fun build_entries :: "esi_entry list \<Rightarrow> sii \<Rightarrow> pdo_entry list \<times> sii" where
  "build_entries [] s = ([], s)"
| "build_entries (e # es) s =
     (let (name, s) = registerString (xe_name e) s;
          pe = \<lparr>pe_index = xe_index e, pe_subindex = xe_subindex e, pe_name = name, pe_data_type = entry_data_type e,
                pe_bitlen = ucast (xe_bit_len e), pe_flags = 0\<rparr>;
          (pes, s) = build_entries es s
      in (pe # pes, s))"

fun buildMappings :: "esi_pdo list \<Rightarrow> sii \<Rightarrow> pdo_mapping list \<times> sii" where
  "buildMappings [] s = ([], s)"
| "buildMappings (p # ps) s =
     (let (name, s) = registerString (ep_name p) s;
          (entries, s) = build_entries (ep_entries p) s;
          m = \<lparr>pm_index = ep_index p, pm_sync_manager = (case ep_sm p of Some k \<Rightarrow> of_int k | None \<Rightarrow> 0xFF),
               pm_synchronization = 0, pm_name_index = name, pm_flags = 0, pm_entries = entries\<rparr>;
          (ms, s) = buildMappings ps s
      in (m # ms, s))"

definition standard_mailbox :: "sm_info \<Rightarrow> bytes \<Rightarrow> bytes" where
  "standard_mailbox m info =
     (if si_type m = 1 then poke (poke info 48 (le16 (si_start_address m))) 50 (le16 (si_default_size m))
      else if si_type m = 2 then poke (poke info 52 (le16 (si_start_address m))) 54 (le16 (si_default_size m))
      else info)"

definition protocol_word :: "esi_mailbox \<Rightarrow> u16" where
  "protocol_word mb =
     (if em_aoe mb then 0x01 else 0) OR (if em_eoe mb then 0x02 else 0) OR (if em_coe mb \<noteq> None then 0x04 else 0)
     OR (if em_foe mb then 0x08 else 0) OR (if em_soe mb then 0x10 else 0) OR (if em_voe mb then 0x20 else 0)"

definition size_word :: "esi_eeprom option \<Rightarrow> u16" where
  "size_word ee =
     (case ee of
        Some e \<Rightarrow> (case ee_byte_size e of Some n \<Rightarrow> if n \<ge> 128 then of_int (n div 128 - 1) else 0x000F | None \<Rightarrow> 0x000F)
      | None \<Rightarrow> 0x000F)"

text \<open>The information area, one part after the other. A bootstrap area of eight bytes is copied to the four words at offset 40.\<close>

definition config_area :: "esi_eeprom option \<Rightarrow> bytes \<Rightarrow> bytes" where
  "config_area ee info =
     (case ee of
        Some e \<Rightarrow> if ee_config_data e \<noteq> [] then poke info 0 (take (min (length (ee_config_data e)) 14) (ee_config_data e)) else info
      | None \<Rightarrow> info)"

definition identity_area :: "device \<Rightarrow> bytes \<Rightarrow> bytes" where
  "identity_area d info =
     (let info = poke info 14 (le16 0);
          info = poke info 16 (le32 (dv_vendor_id d));
          info = poke info 20 (le32 (dv_product_code d));
          info = poke info 24 (le32 (dv_revision_no d))
      in poke info 28 (le32 (dv_serial_no d)))"

definition bootstrap_area :: "esi_eeprom option \<Rightarrow> bytes \<Rightarrow> bytes" where
  "bootstrap_area ee info =
     (case ee of
        Some e \<Rightarrow>
          let b = ee_bootstrap e
          in if length b \<ge> 8
             then poke (poke (poke (poke info 40 (le16 (get16 b 0))) 42 (le16 (get16 b 2))) 44 (le16 (get16 b 4))) 46 (le16 (get16 b 6))
             else info
      | None \<Rightarrow> info)"

definition protocol_area :: "esi_mailbox option \<Rightarrow> bytes \<Rightarrow> bytes" where
  "protocol_area mb info = (case mb of Some mb \<Rightarrow> poke info 56 (le16 (protocol_word mb)) | None \<Rightarrow> info)"

definition build_info :: "device \<Rightarrow> bytes" where
  "build_info d =
     (let info = config_area (dv_eeprom d) (replicate INFO_SIZE 0);
          info = identity_area d info;
          info = fold standard_mailbox (dv_sync_managers d) info;
          info = bootstrap_area (dv_eeprom d) info;
          info = protocol_area (dv_mailbox d) info;
          info = poke info 124 (le16 (size_word (dv_eeprom d)))
      in poke info 126 (le16 1))"

definition coe_byte :: "coe_details \<Rightarrow> u8" where
  "coe_byte c = 1 OR (if cd_sdo_info c then 2 else 0) OR (if cd_pdo_assign c then 4 else 0) OR (if cd_pdo_config c then 8 else 0)
     OR (if cd_pdo_upload c then 16 else 0) OR (if cd_complete_access c then 32 else 0)"

text \<open>The general area and the strings it names.\<close>

definition mailbox_details :: "esi_mailbox option \<Rightarrow> bytes \<Rightarrow> bytes" where
  "mailbox_details mailbox g =
     (case mailbox of
        None \<Rightarrow> g
      | Some mb \<Rightarrow>
          let g = (case em_coe mb of Some c \<Rightarrow> g[5 := coe_byte c] | None \<Rightarrow> g);
              g = (if em_foe mb then g[6 := 1] else g);
              g = (if em_eoe mb then g[7 := 1] else g)
          in if em_soe mb then g[8 := 1] else g)"

definition build_general :: "device \<Rightarrow> sii \<Rightarrow> sii" where
  "build_general d s =
     (let (device_name_id, s) = registerString (if dv_name d = [] then dv_type d else dv_name d) s;
          (group_info_id, s) = registerString (dv_group_type d) s;
          (device_order_id, s) = registerString (dv_type d) s;
          g = (sii_general s)[3 := device_name_id, 0 := group_info_id, 14 := group_info_id, 2 := device_order_id]
      in s\<lparr>sii_general := mailbox_details (dv_mailbox d) g\<rparr>)"

definition build_sync_manager :: "sm_info \<Rightarrow> sm_entry" where
  "build_sync_manager m =
     \<lparr>se_start_address = si_start_address m, se_length = si_default_size m, se_control_register = si_control_byte m,
      se_status_register = 0, se_enable = si_enable m, se_type = si_type m\<rparr>"

definition dc_fields :: "op_mode \<Rightarrow> bytes" where
  "dc_fields op =
     (let el = replicate 24 0;
          el = (case om_cycle_sync0 op of Some (v, _) \<Rightarrow> poke el 0x00 (le32 (of_int v)) | None \<Rightarrow> el);
          el = (case om_shift_sync0 op of Some v \<Rightarrow> poke el 0x04 (le32 (of_int v)) | None \<Rightarrow> el);
          el = (case om_shift_sync1 op of Some v \<Rightarrow> poke el 0x08 (le32 (of_int v)) | None \<Rightarrow> el);
          el = (case om_cycle_sync1 op of Some (_, Some f) \<Rightarrow> poke el 0x0C (le16 (of_int f)) | _ \<Rightarrow> el);
          el = poke el 0x0E (le16 (ucast (om_assign_activate op)))
      in case om_cycle_sync0 op of Some (_, Some f) \<Rightarrow> poke el 0x10 (le16 (of_int f)) | _ \<Rightarrow> el)"

definition dc_element :: "op_mode \<Rightarrow> sii \<Rightarrow> bytes \<times> sii" where
  "dc_element op s =
     (let (name, s) = registerString (om_name op) s;
          (desc, s) = registerString (om_desc op) s
      in ((dc_fields op)[0x12 := name, 0x13 := desc], s))"

fun build_dc :: "op_mode list \<Rightarrow> sii \<Rightarrow> sii" where
  "build_dc [] s = s"
| "build_dc (op # ops) s = (let (el, s) = dc_element op s in build_dc ops (s\<lparr>sii_dc := sii_dc s @ el\<rparr>))"

definition build_category :: "esi_category \<Rightarrow> raw_category" where
  "build_category c =
     \<lparr>rc_type = of_int (ec_cat_no c),
      rc_data = (if ec_data c \<noteq> [] then ec_data c
                 else case ec_data_string c of Some t \<Rightarrow> t
                 | None \<Rightarrow> (case ec_data_uint c of Some v \<Rightarrow> le16 (of_int v)
                 | None \<Rightarrow> (case ec_data_udint c of Some v \<Rightarrow> le32 (of_int v)
                 | None \<Rightarrow> [])))\<rparr>"

definition buildSII :: "device \<Rightarrow> sii" where
  "buildSII d =
     (let s = SII_new\<lparr>sii_strings := [[]]\<rparr>;
          s = s\<lparr>sii_info := build_info d\<rparr>;
          s = build_general d s;
          s = s\<lparr>sii_fmmus := dv_fmmus d, sii_syncManagers := map build_sync_manager (dv_sync_managers d)\<rparr>;
          (tx, s) = buildMappings (dv_tx_pdos d) s;
          s = s\<lparr>sii_TxPDO := tx\<rparr>;
          (rx, s) = buildMappings (dv_rx_pdos d) s;
          s = s\<lparr>sii_RxPDO := rx\<rparr>;
          s = (case dv_dc d of Some ops \<Rightarrow> build_dc ops s | None \<Rightarrow> s)
      in case dv_eeprom d of
           Some e \<Rightarrow> s\<lparr>sii_unknown := map build_category (ee_categories e)\<rparr>
         | None \<Rightarrow> s)"

definition buildEepromImage :: "device \<Rightarrow> bytes" where
  "buildEepromImage d =
     (case dv_eeprom d of
        Some e \<Rightarrow> if ee_raw_data e \<noteq> [] then ee_raw_data e else SII_serialize (buildSII d)
      | None \<Rightarrow> SII_serialize (buildSII d))"

section \<open>The pool of strings\<close>

text \<open>All names a description uses, in the order they are registered. The pool holds distinct non-empty names of the description,
  so 255 different names are never refused.\<close>

definition pdo_names :: "esi_pdo list \<Rightarrow> bytes list" where
  "pdo_names ps = concat (map (\<lambda>p. ep_name p # map xe_name (ep_entries p)) ps)"

definition names :: "device \<Rightarrow> bytes list" where
  "names d = [if dv_name d = [] then dv_type d else dv_name d, dv_group_type d, dv_type d]
     @ pdo_names (dv_tx_pdos d) @ pdo_names (dv_rx_pdos d)
     @ (case dv_dc d of Some ops \<Rightarrow> concat (map (\<lambda>op. [om_name op, om_desc op]) ops) | None \<Rightarrow> [])"

definition pooled :: "bytes set \<Rightarrow> sii \<Rightarrow> bool" where
  "pooled N s \<longleftrightarrow> (\<exists>ys. sii_strings s = [] # ys \<and> distinct ys \<and> [] \<notin> set ys \<and> set ys \<subseteq> N)"

definition grows :: "sii \<Rightarrow> sii \<Rightarrow> bool" where
  "grows s s' \<longleftrightarrow> (\<exists>zs. s' = s\<lparr>sii_strings := sii_strings s @ zs\<rparr>)"

definition named :: "sii \<Rightarrow> u8 \<Rightarrow> bytes \<Rightarrow> bool" where
  "named s i t \<longleftrightarrow> getString s i = t \<and> (i = 0 \<or> unat i < length (sii_strings s))"

lemma grows_refl [simp]: "grows s s"
  unfolding grows_def by (rule exI [of _ "[]"]) simp

lemma grows_trans [trans]: "grows s t \<Longrightarrow> grows t u \<Longrightarrow> grows s u"
  unfolding grows_def by auto

lemma grows_named: "grows s s' \<Longrightarrow> named s i t \<Longrightarrow> named s' i t"
  by (auto simp: grows_def named_def getString_def nth_append)

lemma grows_same:
  assumes "grows s s'"
  shows "sii_info s' = sii_info s" "sii_general s' = sii_general s" "sii_fmmus s' = sii_fmmus s" "sii_syncManagers s' = sii_syncManagers s"
    "sii_TxPDO s' = sii_TxPDO s" "sii_RxPDO s' = sii_RxPDO s" "sii_dc s' = sii_dc s" "sii_dataTypes s' = sii_dataTypes s" "sii_unknown s' = sii_unknown s"
  using assms by (auto simp: grows_def)

lemma pooled_length: "finite N \<Longrightarrow> card N \<le> 255 \<Longrightarrow> pooled N s \<Longrightarrow> length (sii_strings s) \<le> 256"
proof -
  assume N: "finite N" "card N \<le> 255" and "pooled N s"
  then obtain ys where ys: "sii_strings s = [] # ys" "distinct ys" "set ys \<subseteq> N" by (auto simp: pooled_def)
  then have "length ys \<le> 255" using card_mono [OF N(1) ys(3)] N(2) by (simp add: distinct_card)
  then show ?thesis using ys(1) by simp
qed

lemma find_SomeD: "find P xs = Some x \<Longrightarrow> x \<in> set xs \<and> P x"
  by (induction xs) (auto split: if_splits)

lemma register_pooled:
  assumes N: "finite N" "card N \<le> 255" and p: "pooled N s" and t: "t = [] \<or> t \<in> N" and r: "registerString t s = (i, s')"
  shows "pooled N s' \<and> grows s s' \<and> named s' i t"
proof -
  obtain ys where ys: "sii_strings s = [] # ys" "distinct ys" "[] \<notin> set ys" "set ys \<subseteq> N" using p by (auto simp: pooled_def)
  have same: "s\<lparr>sii_strings := [] # ys\<rparr> = s" using ys(1) by simp
  show ?thesis
  proof (cases "t = []")
    case True
    then show ?thesis using r p ys by (auto simp: registerString_def named_def getString_def same)
  next
    case False
    then have t: "t \<in> N" using t by simp
    show ?thesis
    proof (cases "find (\<lambda>k. ([] # ys) ! k = t) [1..<length ([] # ys)]")
      case (Some k)
      then have k: "1 \<le> k" "k < length ([] # ys)" "([] # ys) ! k = t" by (auto dest!: find_SomeD simp del: upt_Suc)
      have "k \<le> 255" using pooled_length [OF N p] k(2) ys(1) by simp
      then have "unat (of_nat k :: u8) = k" by (intro unat_of_nat_small) simp
      moreover have "i = of_nat k" "s' = s" using r False Some ys(1) by (simp_all add: registerString_def same)
      ultimately show ?thesis using k p ys(1) by (auto simp: named_def getString_def word_unat_eq_iff)
    next
      case None
      have absent: "t \<notin> set ys"
      proof
        assume "t \<in> set ys"
        then obtain k where "k < length ys" "ys ! k = t" by (auto simp: in_set_conv_nth)
        then have "Suc k \<in> set [1..<length ([] # ys)]" "([] # ys) ! Suc k = t" by auto
        then show False using None unfolding find_None_iff by blast
      qed
      have "card (insert t (set ys)) \<le> card N" using ys(4) t N(1) by (intro card_mono) auto
      then have len: "length ys < 255" using absent ys(2) N(2) by (simp add: distinct_card)
      then have "unat (of_nat (Suc (length ys)) :: u8) = Suc (length ys)" by (intro unat_of_nat_small) simp
      moreover have "i = of_nat (Suc (length ys))" "s' = s\<lparr>sii_strings := sii_strings s @ [t]\<rparr>"
        using r False None ys(1) len by (simp_all add: registerString_def)
      ultimately show ?thesis
        using ys absent t False by (auto simp: pooled_def grows_def named_def getString_def word_unat_eq_iff)
    qed
  qed
qed

section \<open>What the mappings hold\<close>

definition entry_as :: "sii \<Rightarrow> esi_entry \<Rightarrow> pdo_entry \<Rightarrow> bool" where
  "entry_as s e pe \<longleftrightarrow> pe_index pe = xe_index e \<and> pe_subindex pe = xe_subindex e \<and> pe_bitlen pe = ucast (xe_bit_len e)
     \<and> pe_data_type pe = entry_data_type e \<and> named s (pe_name pe) (xe_name e)"

definition mapping_as :: "sii \<Rightarrow> esi_pdo \<Rightarrow> pdo_mapping \<Rightarrow> bool" where
  "mapping_as s p m \<longleftrightarrow> pm_index m = ep_index p \<and> pm_sync_manager m = (case ep_sm p of Some k \<Rightarrow> of_int k | None \<Rightarrow> 0xFF)
     \<and> named s (pm_name_index m) (ep_name p) \<and> list_all2 (entry_as s) (ep_entries p) (pm_entries m)"

lemma grows_entry: "grows s s' \<Longrightarrow> entry_as s e pe \<Longrightarrow> entry_as s' e pe"
  by (simp add: entry_as_def grows_named)

lemma grows_mapping: "grows s s' \<Longrightarrow> mapping_as s p m \<Longrightarrow> mapping_as s' p m"
  unfolding mapping_as_def using grows_entry by (auto intro: grows_named elim!: list_all2_mono)

lemma entry_as_new:
  "named s i (xe_name e) \<Longrightarrow> entry_as s e \<lparr>pe_index = xe_index e, pe_subindex = xe_subindex e, pe_name = i,
     pe_data_type = entry_data_type e, pe_bitlen = ucast (xe_bit_len e), pe_flags = 0\<rparr>"
  by (simp add: entry_as_def)

lemma mapping_as_new:
  "named s i (ep_name p) \<Longrightarrow> list_all2 (entry_as s) (ep_entries p) pes \<Longrightarrow>
   mapping_as s p \<lparr>pm_index = ep_index p, pm_sync_manager = (case ep_sm p of Some k \<Rightarrow> of_int k | None \<Rightarrow> 0xFF),
     pm_synchronization = 0, pm_name_index = i, pm_flags = 0, pm_entries = pes\<rparr>"
  by (simp add: mapping_as_def)

lemma entries_pooled:
  assumes N: "finite N" "card N \<le> 255"
  shows "pooled N s \<Longrightarrow> set (map xe_name es) - {[]} \<subseteq> N \<Longrightarrow> build_entries es s = (pes, s') \<Longrightarrow>
    pooled N s' \<and> grows s s' \<and> list_all2 (entry_as s') es pes"
proof (induction es arbitrary: s pes s')
  case (Cons e es)
  obtain i t where r: "registerString (xe_name e) s = (i, t)" by fastforce
  obtain pes' u where b: "build_entries es t = (pes', u)" by fastforce
  have one: "pooled N t" "grows s t" "named t i (xe_name e)"
    using register_pooled [OF N Cons.prems(1) _ r] Cons.prems(2) by auto
  have rest: "pooled N u" "grows t u" "list_all2 (entry_as u) es pes'" using Cons.IH [OF one(1) _ b] Cons.prems(2) by auto
  show ?case
    using Cons.prems(3) r b rest one entry_as_new [OF grows_named [OF rest(2) one(3)]] grows_trans [OF one(2) rest(2)] by auto
qed simp

lemma mappings_pooled:
  assumes N: "finite N" "card N \<le> 255"
  shows "pooled N s \<Longrightarrow> set (pdo_names ps) - {[]} \<subseteq> N \<Longrightarrow> buildMappings ps s = (ms, s') \<Longrightarrow>
    pooled N s' \<and> grows s s' \<and> list_all2 (mapping_as s') ps ms"
proof (induction ps arbitrary: s ms s')
  case (Cons p ps)
  obtain i t where r: "registerString (ep_name p) s = (i, t)" by fastforce
  obtain pes u where b: "build_entries (ep_entries p) t = (pes, u)" by fastforce
  obtain ms' v where m: "buildMappings ps u = (ms', v)" by fastforce
  have one: "pooled N t" "grows s t" "named t i (ep_name p)"
    using register_pooled [OF N Cons.prems(1) _ r] Cons.prems(2) by (auto simp: pdo_names_def)
  have two: "pooled N u" "grows t u" "list_all2 (entry_as u) (ep_entries p) pes"
    using entries_pooled [OF N one(1) _ b] Cons.prems(2) by (auto simp: pdo_names_def)
  have rest: "pooled N v" "grows u v" "list_all2 (mapping_as v) ps ms'"
    using Cons.IH [OF two(1) _ m] Cons.prems(2) by (auto simp: pdo_names_def)
  have "list_all2 (entry_as v) (ep_entries p) pes" using two(3) by (rule list_all2_mono) (rule grows_entry [OF rest(2)])
  then show ?case
    using Cons.prems(3) r b m rest mapping_as_new [OF grows_named [OF grows_trans [OF two(2) rest(2)] one(3)]] grows_trans [OF one(2) grows_trans [OF two(2) rest(2)]]
    by auto
qed (simp add: pdo_names_def)

lemma length_dc_fields [simp]: "length (dc_fields op) = 24"
  by (simp add: dc_fields_def Let_def split: option.split prod.split)

lemma dc_element_pooled:
  assumes N: "finite N" "card N \<le> 255" and p: "pooled N s" and n: "{om_name op, om_desc op} - {[]} \<subseteq> N" and e: "dc_element op s = (el, s')"
  shows "pooled N s' \<and> grows s s' \<and> length el = 24 \<and> named s' (el ! 0x12) (om_name op) \<and> named s' (el ! 0x13) (om_desc op)"
proof -
  obtain i t where r: "registerString (om_name op) s = (i, t)" by fastforce
  obtain j u where q: "registerString (om_desc op) t = (j, u)" by fastforce
  have one: "pooled N t" "grows s t" "named t i (om_name op)" using register_pooled [OF N p _ r] n by auto
  have two: "pooled N u" "grows t u" "named u j (om_desc op)" using register_pooled [OF N one(1) _ q] n by auto
  have "s' = u" "el = (dc_fields op)[0x12 := i, 0x13 := j]" using e r q by (simp_all add: dc_element_def)
  then show ?thesis using two grows_trans [OF one(2) two(2)] grows_named [OF two(2) one(3)] by simp
qed

definition element_as :: "sii \<Rightarrow> op_mode \<Rightarrow> bytes \<Rightarrow> bool" where
  "element_as s op el \<longleftrightarrow> length el = 24 \<and> (\<forall>k < 18. el ! k = dc_fields op ! k)
     \<and> named s (el ! 18) (om_name op) \<and> named s (el ! 19) (om_desc op)"

lemma grows_element: "grows s s' \<Longrightarrow> element_as s op el \<Longrightarrow> element_as s' op el"
  by (simp add: element_as_def grows_named)

lemma dc_pooled:
  assumes N: "finite N" "card N \<le> 255"
  shows "pooled N s \<Longrightarrow> set (concat (map (\<lambda>op. [om_name op, om_desc op]) ops)) - {[]} \<subseteq> N \<Longrightarrow>
    \<exists>els t. build_dc ops s = t\<lparr>sii_dc := sii_dc s @ concat els\<rparr> \<and> pooled N t \<and> grows s t \<and> list_all2 (element_as t) ops els"
proof (induction ops arbitrary: s)
  case Nil
  have "s = s\<lparr>sii_dc := sii_dc s @ concat []\<rparr>" by simp
  then show ?case using Nil.prems(1) by (intro exI [of _ "[]"] exI [of _ s]) simp
next
  case (Cons op ops)
  obtain el t where e: "dc_element op s = (el, t)" by fastforce
  have t: "pooled N t" "grows s t" "element_as t op el"
    using dc_element_pooled [OF N Cons.prems(1) _ e] Cons.prems(2) e
    by (auto simp: element_as_def dc_element_def split: prod.splits)
  let ?t = "t\<lparr>sii_dc := sii_dc s @ el\<rparr>"
  have dc: "sii_dc t = sii_dc s" using grows_same [OF t(2)] by simp
  have "pooled N ?t" using t(1) by (simp add: pooled_def)
  then obtain els u where u: "build_dc ops ?t = u\<lparr>sii_dc := (sii_dc s @ el) @ concat els\<rparr>" "pooled N u" "grows ?t u" "list_all2 (element_as u) ops els"
    using Cons.IH [of ?t] Cons.prems(2) by auto
  let ?u = "u\<lparr>sii_dc := sii_dc s\<rparr>"
  obtain zs where "u = ?t\<lparr>sii_strings := sii_strings ?t @ zs\<rparr>" using u(3) unfolding grows_def by blast
  then have "?u = t\<lparr>sii_strings := sii_strings t @ zs\<rparr>" using dc by (cases t) simp
  then have g: "grows t ?u" unfolding grows_def by blast
  have as: "element_as ?u = element_as u" by (intro ext) (simp add: element_as_def named_def getString_def)
  have "build_dc (op # ops) s = ?u\<lparr>sii_dc := sii_dc s @ concat (el # els)\<rparr>" using e dc u(1) by simp
  moreover have "pooled N ?u" using u(2) by (simp add: pooled_def)
  moreover have "list_all2 (element_as ?u) (op # ops) (el # els)" using u(4) grows_element [OF g t(3)] by (simp add: as)
  ultimately show ?case using grows_trans [OF t(2) g] by blast
qed

lemma mailbox_details_keep [simp]: "length (mailbox_details mb g) = length g" "k < 5 \<Longrightarrow> mailbox_details mb g ! k = g ! k"
  by (simp_all add: mailbox_details_def Let_def split: option.split)

lemma general_pooled:
  assumes N: "finite N" "card N \<le> 255" and p: "pooled N s"
    and n: "set [if dv_name d = [] then dv_type d else dv_name d, dv_group_type d, dv_type d] - {[]} \<subseteq> N" and len: "length (sii_general s) = 32"
  shows "\<exists>t g. build_general d s = t\<lparr>sii_general := g\<rparr> \<and> pooled N t \<and> grows s t \<and> length g = 32
    \<and> named t (g ! 3) (if dv_name d = [] then dv_type d else dv_name d) \<and> named t (g ! 0) (dv_group_type d) \<and> named t (g ! 2) (dv_type d)"
proof -
  define name where "name = (if dv_name d = [] then dv_type d else dv_name d)"
  have n: "name = [] \<or> name \<in> N" "dv_group_type d = [] \<or> dv_group_type d \<in> N" "dv_type d = [] \<or> dv_type d \<in> N"
    using n unfolding name_def [symmetric] by auto
  obtain i t where r1: "registerString name s = (i, t)" by fastforce
  obtain j u where r2: "registerString (dv_group_type d) t = (j, u)" by fastforce
  obtain k v where r3: "registerString (dv_type d) u = (k, v)" by fastforce
  have one: "pooled N t" "grows s t" "named t i name" using register_pooled [OF N p n(1) r1] by auto
  have two: "pooled N u" "grows t u" "named u j (dv_group_type d)" using register_pooled [OF N one(1) n(2) r2] by auto
  have three: "pooled N v" "grows u v" "named v k (dv_type d)" using register_pooled [OF N two(1) n(3) r3] by auto
  have g: "grows s v" by (rule grows_trans [OF one(2) grows_trans [OF two(2) three(2)]])
  have l: "length (sii_general v) = 32" using grows_same(2) [OF g] len by simp
  have nm: "named v i name" "named v j (dv_group_type d)"
    using grows_named [OF grows_trans [OF two(2) three(2)] one(3)] grows_named [OF three(2) two(3)] by blast+
  let ?g = "mailbox_details (dv_mailbox d) ((sii_general v)[3 := i, 0 := j, 14 := j, 2 := k])"
  have "build_general d s = v\<lparr>sii_general := ?g\<rparr>" unfolding build_general_def name_def [symmetric] r1 r2 r3 Let_def prod.case by (rule refl)
  moreover have "length ?g = 32" "?g ! 3 = i" "?g ! 0 = j" "?g ! 2 = k" using l by simp_all
  ultimately show ?thesis using g three nm by (intro exI [of _ v] exI [of _ ?g]) (simp flip: name_def)
qed

section \<open>The information area\<close>

lemma standard_mailbox_keeps:
  "length info = 128 \<Longrightarrow> length (standard_mailbox m info) = 128"
  "length info = 128 \<Longrightarrow> off + n \<le> 48 \<Longrightarrow> peek (standard_mailbox m info) off n = peek info off n"
  by (simp_all add: standard_mailbox_def peek_poke_before)

lemma standard_mailboxes_keep:
  "length info = 128 \<Longrightarrow> length (fold standard_mailbox ms info) = 128
    \<and> (\<forall>off n. off + n \<le> 48 \<longrightarrow> peek (fold standard_mailbox ms info) off n = peek info off n)"
  by (induction ms arbitrary: info) (simp_all add: standard_mailbox_keeps)

lemma areas_keep:
  assumes "length info = 128"
  shows "length (config_area ee info) = 128" "length (identity_area d info) = 128" "length (bootstrap_area ee info) = 128"
    "length (protocol_area mb info) = 128"
    "off + n \<le> 40 \<Longrightarrow> peek (bootstrap_area ee info) off n = peek info off n" "off + n \<le> 56 \<Longrightarrow> peek (protocol_area mb info) off n = peek info off n"
  using assms
  by (simp_all add: config_area_def identity_area_def bootstrap_area_def protocol_area_def Let_def peek_poke_before split: option.split)

lemma build_info_identity:
  "length (build_info d) = 128" "get32 (build_info d) 16 = dv_vendor_id d" "get32 (build_info d) 20 = dv_product_code d"
  "get32 (build_info d) 24 = dv_revision_no d" "get32 (build_info d) 28 = dv_serial_no d"
proof -
  let ?c = "config_area (dv_eeprom d) (replicate 128 0)"
  let ?id = "identity_area d ?c"
  let ?m = "fold standard_mailbox (dv_sync_managers d) ?id"
  have c: "length ?c = 128" by (simp add: areas_keep)
  then have i: "length ?id = 128" by (simp add: areas_keep)
  have m: "length ?m = 128" "off + n \<le> 48 \<Longrightarrow> peek ?m off n = peek ?id off n" for off n
    using standard_mailboxes_keep [OF i] by blast+
  show "length (build_info d) = 128" using m(1) by (simp add: build_info_def areas_keep)
  have low: "peek (build_info d) off n = peek ?id off n" if "off + n \<le> 40" for off n
    using m that by (simp add: build_info_def peek_poke_before areas_keep)
  show "get32 (build_info d) 16 = dv_vendor_id d" "get32 (build_info d) 20 = dv_product_code d"
    "get32 (build_info d) 24 = dv_revision_no d" "get32 (build_info d) 28 = dv_serial_no d"
    using c by (simp_all add: low identity_area_def peek_poke_before)
qed

section \<open>The whole structure\<close>

text \<open>Names keep their meaning as long as the pool is only extended.\<close>

definition later :: "sii \<Rightarrow> sii \<Rightarrow> bool" where
  "later s s' \<longleftrightarrow> (\<exists>zs. sii_strings s' = sii_strings s @ zs)"

lemma later_same: "sii_strings s' = sii_strings s \<Longrightarrow> later s s'"
  by (simp add: later_def)

lemma later_grows: "grows s s' \<Longrightarrow> later s s'"
  by (auto simp: later_def grows_def)

lemma later_trans: "later s t \<Longrightarrow> later t u \<Longrightarrow> later s u"
  by (auto simp: later_def)

lemma later_named: "later s s' \<Longrightarrow> named s i t \<Longrightarrow> named s' i t"
  by (auto simp: later_def named_def getString_def nth_append)

lemma later_mappings: "later s s' \<Longrightarrow> list_all2 (mapping_as s) ps ms \<Longrightarrow> list_all2 (mapping_as s') ps ms"
  by (erule list_all2_mono) (auto simp: mapping_as_def entry_as_def intro: later_named elim!: list_all2_mono)

lemma later_elements: "later s s' \<Longrightarrow> list_all2 (element_as s) ops els \<Longrightarrow> list_all2 (element_as s') ops els"
  by (erule list_all2_mono) (auto simp: element_as_def intro: later_named)

lemma pooled_same: "sii_strings s' = sii_strings s \<Longrightarrow> pooled N s' = pooled N s"
  by (simp add: pooled_def)

definition op_modes :: "device \<Rightarrow> op_mode list" where
  "op_modes d = (case dv_dc d of Some ops \<Rightarrow> ops | None \<Rightarrow> [])"

definition vendor_categories :: "device \<Rightarrow> raw_category list" where
  "vendor_categories d = (case dv_eeprom d of Some e \<Rightarrow> map build_category (ee_categories e) | None \<Rightarrow> [])"

definition describes :: "device \<Rightarrow> sii \<Rightarrow> bool" where
  "describes d s \<longleftrightarrow>
     get32 (sii_info s) 16 = dv_vendor_id d \<and> get32 (sii_info s) 20 = dv_product_code d
     \<and> get32 (sii_info s) 24 = dv_revision_no d \<and> get32 (sii_info s) 28 = dv_serial_no d
     \<and> named s (sii_general s ! 3) (if dv_name d = [] then dv_type d else dv_name d)
     \<and> named s (sii_general s ! 0) (dv_group_type d) \<and> named s (sii_general s ! 2) (dv_type d)
     \<and> sii_syncManagers s = map build_sync_manager (dv_sync_managers d)
     \<and> list_all2 (mapping_as s) (dv_tx_pdos d) (sii_TxPDO s) \<and> list_all2 (mapping_as s) (dv_rx_pdos d) (sii_RxPDO s)
     \<and> (\<exists>els. sii_dc s = concat els \<and> list_all2 (element_as s) (op_modes d) els)
     \<and> sii_unknown s = vendor_categories d"

lemma buildSII_describes:
  assumes N: "finite N" "card N \<le> 255" and n: "set (names d) - {[]} \<subseteq> N"
  shows "describes d (buildSII d) \<and> pooled N (buildSII d) \<and> sii_info (buildSII d) = build_info d \<and> length (sii_general (buildSII d)) = 32
    \<and> sii_fmmus (buildSII d) = dv_fmmus d \<and> sii_dataTypes (buildSII d) = []"
proof -
  define s0 where "s0 = SII_new\<lparr>sii_strings := [[]], sii_info := build_info d\<rparr>"
  have s0: "pooled N s0" "length (sii_general s0) = 32" "sii_info s0 = build_info d" "sii_dc s0 = []" "sii_dataTypes s0 = []" "sii_unknown s0 = []"
    by (simp_all add: s0_def SII_new_def pooled_def)
  have sub: "set [if dv_name d = [] then dv_type d else dv_name d, dv_group_type d, dv_type d] - {[]} \<subseteq> N"
    "set (pdo_names (dv_tx_pdos d)) - {[]} \<subseteq> N" "set (pdo_names (dv_rx_pdos d)) - {[]} \<subseteq> N"
    "set (concat (map (\<lambda>op. [om_name op, om_desc op]) (op_modes d))) - {[]} \<subseteq> N"
    using n by (auto simp: names_def op_modes_def split: option.splits if_splits)
  obtain t1 g where t1: "build_general d s0 = t1\<lparr>sii_general := g\<rparr>" "pooled N t1" "grows s0 t1" "length g = 32"
      "named t1 (g ! 3) (if dv_name d = [] then dv_type d else dv_name d)" "named t1 (g ! 0) (dv_group_type d)" "named t1 (g ! 2) (dv_type d)"
    using general_pooled [OF N s0(1) sub(1) s0(2)] by blast
  define s1 where "s1 = t1\<lparr>sii_general := g, sii_fmmus := dv_fmmus d, sii_syncManagers := map build_sync_manager (dv_sync_managers d)\<rparr>"
  have p1: "pooled N s1" using t1(2) by (simp add: s1_def pooled_def)
  obtain tx t2 where t2: "buildMappings (dv_tx_pdos d) s1 = (tx, t2)" by fastforce
  note m2 = mappings_pooled [OF N p1 sub(2) t2]
  define s2 where "s2 = t2\<lparr>sii_TxPDO := tx\<rparr>"
  have p2: "pooled N s2" using m2 by (simp add: s2_def pooled_def)
  obtain rx t3 where t3: "buildMappings (dv_rx_pdos d) s2 = (rx, t3)" by fastforce
  note m3 = mappings_pooled [OF N p2 sub(3) t3]
  define s3 where "s3 = t3\<lparr>sii_RxPDO := rx\<rparr>"
  have p3: "pooled N s3" using m3 by (simp add: s3_def pooled_def)
  obtain els t4 where t4: "build_dc (op_modes d) s3 = t4\<lparr>sii_dc := sii_dc s3 @ concat els\<rparr>" "pooled N t4" "grows s3 t4" "list_all2 (element_as t4) (op_modes d) els"
    using dc_pooled [OF N p3 sub(4)] by blast
  have body: "buildSII d = (case dv_eeprom d of
      Some e \<Rightarrow> (case dv_dc d of Some ops \<Rightarrow> build_dc ops s3 | None \<Rightarrow> s3)\<lparr>sii_unknown := map build_category (ee_categories e)\<rparr>
    | None \<Rightarrow> (case dv_dc d of Some ops \<Rightarrow> build_dc ops s3 | None \<Rightarrow> s3))"
    by (simp only: buildSII_def Let_def s0_def [symmetric] t1(1) s1_def [symmetric] t2 prod.case s2_def [symmetric] t3 s3_def [symmetric])
  have dcs: "(case dv_dc d of Some ops \<Rightarrow> build_dc ops s3 | None \<Rightarrow> s3) = t4\<lparr>sii_dc := sii_dc s3 @ concat els\<rparr>"
    unfolding t4(1) [symmetric] by (simp add: op_modes_def split: option.split)
  note g2 = conjunct1 [OF conjunct2 [OF m2]] and g3 = conjunct1 [OF conjunct2 [OF m3]]
  have fields: "sii_info t4 = build_info d" "sii_general t4 = g" "sii_fmmus t4 = dv_fmmus d" "sii_syncManagers t4 = map build_sync_manager (dv_sync_managers d)"
    "sii_TxPDO t4 = tx" "sii_RxPDO t4 = rx" "sii_dataTypes t4 = []" "sii_unknown t4 = []" "sii_dc s3 = []"
    using grows_same [OF t1(3)] grows_same [OF g2] grows_same [OF g3] grows_same [OF t4(3)] s0 by (simp_all add: s1_def s2_def s3_def)
  have s: "buildSII d = t4\<lparr>sii_dc := concat els, sii_unknown := vendor_categories d\<rparr>"
    unfolding body dcs using fields(8,9) by (cases t4) (simp add: vendor_categories_def split: option.split)
  have l4: "later t4 (buildSII d)" by (rule later_same) (simp add: s)
  have l3: "later t3 (buildSII d)"
    by (rule later_trans [OF later_trans [OF later_same later_grows [OF t4(3)]] l4]) (simp add: s3_def)
  have l2: "later t2 (buildSII d)"
    by (rule later_trans [OF later_trans [OF later_same later_grows [OF g3]] l3]) (simp add: s2_def)
  have l1: "later t1 (buildSII d)"
    by (rule later_trans [OF later_trans [OF later_same later_grows [OF g2]] l2]) (simp add: s1_def)
  have "pooled N (buildSII d)" using t4(2) by (simp add: s pooled_def)
  moreover have "list_all2 (mapping_as (buildSII d)) (dv_tx_pdos d) tx" "list_all2 (mapping_as (buildSII d)) (dv_rx_pdos d) rx"
      "list_all2 (element_as (buildSII d)) (op_modes d) els"
    using later_mappings [OF l2] later_mappings [OF l3] later_elements [OF l4] m2 m3 t4(4) by blast+
  moreover have "named (buildSII d) (g ! 3) (if dv_name d = [] then dv_type d else dv_name d)"
      "named (buildSII d) (g ! 0) (dv_group_type d)" "named (buildSII d) (g ! 2) (dv_type d)"
    by (rule later_named [OF l1], rule t1)+
  moreover have "sii_info (buildSII d) = build_info d" "sii_general (buildSII d) = g" "sii_fmmus (buildSII d) = dv_fmmus d"
      "sii_syncManagers (buildSII d) = map build_sync_manager (dv_sync_managers d)" "sii_TxPDO (buildSII d) = tx" "sii_RxPDO (buildSII d) = rx"
      "sii_dc (buildSII d) = concat els" "sii_dataTypes (buildSII d) = []" "sii_unknown (buildSII d) = vendor_categories d"
    using fields by (simp_all add: s)
  ultimately show ?thesis using t1(4) unfolding describes_def by (auto simp only: build_info_identity)
qed

section \<open>The image of a device\<close>

text \<open>A description whose parts fit the format: names of at most 255 bytes, at most 255 different ones, PDOs of at most 255
  entries, categories below 64 KiB, vendor categories of whole words under numbers of their own.\<close>

definition buildable :: "device \<Rightarrow> bool" where
  "buildable d \<longleftrightarrow>
     (case dv_eeprom d of Some e \<Rightarrow> ee_raw_data e = [] | None \<Rightarrow> True)
     \<and> list_all (\<lambda>r. rc_type r \<notin> known_categories \<and> even (length (rc_data r)) \<and> length (rc_data r) < 65536) (vendor_categories d)
     \<and> list_all (\<lambda>t. length t \<le> 255) (names d) \<and> length (remdups (filter (\<lambda>t. t \<noteq> []) (names d))) \<le> 255
     \<and> list_all (\<lambda>p. length (ep_entries p) \<le> 255) (dv_tx_pdos d) \<and> list_all (\<lambda>p. length (ep_entries p) \<le> 255) (dv_rx_pdos d)
     \<and> length (dv_fmmus d) < 65535 \<and> 8 * length (dv_sync_managers d) < 65536 \<and> 24 * length (op_modes d) < 65536"

lemma mapping_sizes:
  "list_all2 (mapping_as s) ps ms \<Longrightarrow> list_all (\<lambda>p. length (ep_entries p) \<le> 255) ps \<Longrightarrow> list_all (\<lambda>m. length (pm_entries m) \<le> 255) ms"
  by (induction rule: list_all2_induct) (auto simp: mapping_as_def dest!: list_all2_lengthD)

lemma elements_size: "list_all2 (element_as s) ops els \<Longrightarrow> length (concat els) = 24 * length ops"
  by (induction rule: list_all2_induct) (auto simp: element_as_def)

lemma strings_section_size: "list_all (\<lambda>x. length x \<le> 255) strs \<Longrightarrow> length strs \<le> 256 \<Longrightarrow> length (strings_section strs) < 65536"
proof -
  assume short: "list_all (\<lambda>x. length x \<le> 255) strs" and few: "length strs \<le> 256"
  have "length (concat (map string_data xs)) \<le> 256 * length xs" if "list_all (\<lambda>x. length x \<le> 255) xs" for xs
    using that by (induction xs) (auto simp: string_data_def)
  moreover have "list_all (\<lambda>x. length x \<le> 255) (tl strs)" using short by (cases strs) auto
  ultimately have "length (concat (map string_data (tl strs))) \<le> 256 * length (tl strs)" by blast
  then show ?thesis using few even_pad(2) [of "of_nat (length strs - 1) # concat (map string_data (tl strs))"]
    by (simp add: strings_section_def)
qed

lemma buildable_wf:
  assumes "buildable d"
  shows "wf_sii (buildSII d)" "describes d (buildSII d)" "sii_fmmus (buildSII d) = dv_fmmus d"
proof -
  let ?N = "set (filter (\<lambda>t. t \<noteq> []) (names d))"
  have "card ?N \<le> 255" using assms by (simp add: buildable_def length_remdups_card_conv del: set_filter)
  then have b: "describes d (buildSII d)" "pooled ?N (buildSII d)" "sii_info (buildSII d) = build_info d" "length (sii_general (buildSII d)) = 32"
      "sii_fmmus (buildSII d) = dv_fmmus d" "sii_dataTypes (buildSII d) = []"
    using buildSII_describes [of ?N d] by auto
  then obtain els where els: "sii_dc (buildSII d) = concat els" "list_all2 (element_as (buildSII d)) (op_modes d) els"
    by (auto simp: describes_def)
  obtain ys where ys: "sii_strings (buildSII d) = [] # ys" "set ys \<subseteq> ?N" using b(2) by (auto simp: pooled_def)
  have short: "list_all (\<lambda>x. length x \<le> 255) (sii_strings (buildSII d))" using ys assms by (auto simp: buildable_def list_all_iff)
  have few: "length (sii_strings (buildSII d)) \<le> 256" using pooled_length [OF _ \<open>card ?N \<le> 255\<close> b(2)] by simp
  have "wf_strings (sii_strings (buildSII d))" using ys short few strings_section_size [OF short few] by (simp add: wf_strings_def)
  moreover have "list_all (\<lambda>m. length (pm_entries m) \<le> 255) (sii_TxPDO (buildSII d))" "list_all (\<lambda>m. length (pm_entries m) \<le> 255) (sii_RxPDO (buildSII d))"
    using b(1) assms mapping_sizes unfolding describes_def buildable_def by blast+
  moreover have "length (sii_dc (buildSII d)) = 24 * length (op_modes d)" using els elements_size by simp
  ultimately show "wf_sii (buildSII d)"
    using b assms by (simp add: wf_sii_def buildable_def describes_def build_info_identity)
  show "describes d (buildSII d)" "sii_fmmus (buildSII d) = dv_fmmus d" by (fact b)+
qed

lemma settled_describes: "length (sii_info s) = 128 \<Longrightarrow> describes d s \<Longrightarrow> describes d (settled s)"
proof -
  assume len: "length (sii_info s) = 128" and d: "describes d s"
  have info: "peek (sii_info (settled s)) off n = peek (sii_info s) off n" if "16 \<le> off" for off n
    using len that by (simp add: settled_def peek_poke_after)
  have pos: "0 < unat i" if "i \<noteq> 0" for i :: u8 using that by (simp add: unat_gt_0)
  have "named (settled s) = named s" by (intro ext) (auto simp: named_def getString_def settled_def dest: pos)
  moreover have fields: "sii_general (settled s) = sii_general s" "sii_syncManagers (settled s) = sii_syncManagers s" "sii_TxPDO (settled s) = sii_TxPDO s"
      "sii_RxPDO (settled s) = sii_RxPDO s" "sii_dc (settled s) = sii_dc s" "sii_unknown (settled s) = sii_unknown s"
    by (simp_all add: settled_def)
  moreover from calculation(1) have "entry_as (settled s) = entry_as s" by (intro ext) (simp add: entry_as_def)
  ultimately have "mapping_as (settled s) = mapping_as s" "element_as (settled s) = element_as s" "named (settled s) = named s"
    by (intro ext; simp add: mapping_as_def element_as_def)+
  then show ?thesis using d unfolding describes_def by (simp only: info numeral_le_iff semiring_norm fields)
qed

text \<open>(C19) The image built for a device describes the device. For every description that fits the format, parsing the built
  image gives a structure whose identity, names, sync managers, PDO mappings with their entries, clock modes and
  vendor categories are those of the description, with every index of a name resolving to that name, and whose
  checksum is right.\<close>

theorem built_image_describes:
  assumes "buildable d"
  shows "\<exists>s. SII_parse (buildEepromImage d) s0 = Some (Inr s) \<and> describes d s \<and> sii_fmmus s = pad_even (dv_fmmus d)
    \<and> get16 (sii_info s) 14 = computeInfoCRC (sii_info s)"
proof -
  note b = buildable_wf [OF assms]
  have len: "length (sii_info (buildSII d)) = 128" using b(1) by (simp add: wf_sii_def)
  have "buildEepromImage d = SII_serialize (buildSII d)"
    using assms by (auto simp: buildEepromImage_def buildable_def split: option.splits)
  then have "SII_parse (buildEepromImage d) s0 = Some (Inr (settled (buildSII d)))" using parse_serialized [OF b(1)] by simp
  moreover have "computeInfoCRC (sii_info (settled (buildSII d))) = computeInfoCRC (sii_info (buildSII d))"
    using len by (simp add: computeInfoCRC_def settled_def poke_def)
  ultimately show ?thesis
    using settled_describes [OF len b(2)] len b(3) by (auto simp: settled_def)
qed

section \<open>Concrete devices\<close>

definition small_device :: device where
  "small_device = \<lparr>dv_type = [69, 75], dv_product_code = 0x44, dv_revision_no = 3, dv_serial_no = 7, dv_name = [], dv_group_type = [71],
     dv_vendor_id = 0x6A5, dv_sync_managers = [\<lparr>si_type = 1, si_default_size = 128, si_start_address = 0x1000, si_control_byte = 0x26, si_enable = 1\<rparr>],
     dv_fmmus = [1, 2, 3], dv_mailbox = Some \<lparr>em_coe = None, em_eoe = True, em_foe = False, em_soe = False, em_aoe = False, em_voe = False\<rparr>,
     dv_rx_pdos = [], dv_tx_pdos = [\<lparr>ep_index = 0x1A00, ep_name = [84], ep_sm = Some 3, ep_fixed = False,
       ep_entries = [\<lparr>xe_index = 0x6000, xe_subindex = 1, xe_bit_len = 16, xe_name = [84], xe_data_type = ''UINT''\<rparr>]\<rparr>],
     dv_eeprom = None, dv_dc = Some [\<lparr>om_name = [68], om_desc = [], om_assign_activate = 0x300, om_cycle_sync0 = Some (0, Some 1),
       om_cycle_sync1 = None, om_shift_sync0 = None, om_shift_sync1 = None\<rparr>]\<rparr>"

theorem built_image_describes_witness:
  "\<exists>s. SII_parse (buildEepromImage small_device) SII_new = Some (Inr s) \<and> describes small_device s \<and> sii_fmmus s = [1, 2, 3, 0]"
proof -
  have "buildable small_device"
    by (simp add: buildable_def small_device_def vendor_categories_def names_def pdo_names_def op_modes_def)
  then obtain s where "SII_parse (buildEepromImage small_device) SII_new = Some (Inr s)" "describes small_device s"
      "sii_fmmus s = pad_even (dv_fmmus small_device)"
    using built_image_describes [of small_device SII_new] by blast
  moreover have "pad_even (dv_fmmus small_device) = [1, 2, 3, 0]" by code_simp
  ultimately show ?thesis by (intro exI [of _ s] conjI) simp_all
qed

text \<open>A device with two vendor categories, the first of an odd length.\<close>

definition odd_device :: device where
  "odd_device = small_device\<lparr>dv_eeprom := Some \<lparr>ee_raw_data = [], ee_byte_size = None, ee_config_data = [], ee_bootstrap = [],
     ee_categories = [\<lparr>ec_cat_no = 0x801, ec_data = [1, 2, 3], ec_data_string = None, ec_data_uint = None, ec_data_udint = None\<rparr>,
                      \<lparr>ec_cat_no = 0x802, ec_data = [9, 9], ec_data_string = None, ec_data_uint = None, ec_data_udint = None\<rparr>]\<rparr>\<rparr>"

text \<open>A vendor category of an odd number of bytes breaks the image: its size is written in words, rounded down, but all of
  its bytes follow, so that everything after it is read one byte off. Of two vendor categories the first loses its last
  byte and the second is gone.\<close>

theorem odd_category_breaks_image:
  "sii_unknown (buildSII odd_device) = [\<lparr>rc_type = 0x801, rc_data = [1, 2, 3]\<rparr>, \<lparr>rc_type = 0x802, rc_data = [9, 9]\<rparr>]
   \<and> map_option (map_sum id sii_unknown) (SII_parse (buildEepromImage odd_device) SII_new)
     = Some (Inr [\<lparr>rc_type = 0x801, rc_data = [1, 2]\<rparr>])"
proof
  show "sii_unknown (buildSII odd_device) = [\<lparr>rc_type = 0x801, rc_data = [1, 2, 3]\<rparr>, \<lparr>rc_type = 0x802, rc_data = [9, 9]\<rparr>]"
    by code_simp
  show "map_option (map_sum id sii_unknown) (SII_parse (buildEepromImage odd_device) SII_new) = Some (Inr [\<lparr>rc_type = 0x801, rc_data = [1, 2]\<rparr>])"
    by code_simp
qed

end
