(* ===== verification/ESIObjects.thy ===== *)
theory ESIObjects
  imports SIIBuild
begin

text \<open>
  The objects that the ESI parser adds to the dictionary of a device from its PDO lists (\<open>lib/src/ESI/Parser.cc\<close>): the objects the
  PDO entries refer to, the mapping objects and the assignment objects of the sync managers. The values of new entries
  are allocated on the heap of the dictionary. A \<open>std::map\<close> is a list ordered by its keys, an exception is \<open>Inl\<close>, an access to
  storage that does not exist \<open>None\<close>.
\<close>

section \<open>Mapping and assignment objects\<close>

definition toMappingWord :: "u16 \<Rightarrow> u8 \<Rightarrow> u8 \<Rightarrow> u32" where
  "toMappingWord index subindex bitlen = push_bit 16 (ucast index) OR push_bit 8 (ucast subindex) OR ucast bitlen"

definition fromMappingWord :: "u32 \<Rightarrow> u16 \<times> u8 \<times> u8" where
  "fromMappingWord w = (ucast (drop_bit 16 w), ucast (drop_bit 8 w), ucast w)"

definition text_of :: "bytes \<Rightarrow> string" where
  "text_of bs = map (\<lambda>b. char_of (unat b)) bs"

fun decimal :: "nat \<Rightarrow> string" where
  "decimal n = (if n < 10 then [char_of (48 + n)] else decimal (n div 10) @ [char_of (48 + n mod 10)])"

definition ACCESS_WRITE_PREOP :: u16 where [simp]: "ACCESS_WRITE_PREOP = 0x08"
definition ACCESS_MAP_Rx :: u16 where [simp]: "ACCESS_MAP_Rx = 0x40"
definition ACCESS_MAP_Tx :: u16 where [simp]: "ACCESS_MAP_Tx = 0x80"

definition with_data :: "bytes \<Rightarrow> entry \<Rightarrow> heap \<Rightarrow> entry \<times> heap" where
  "with_data d e h = (let (p, h) = alloc d h in (e\<lparr>en_data := Some p\<rparr>, h))"

fun mapping_entries :: "u16 \<Rightarrow> nat \<Rightarrow> u16 \<Rightarrow> esi_entry list \<Rightarrow> heap \<Rightarrow> string + entry list \<times> heap" where
  "mapping_entries access i bitoff [] h = Inr ([], h)"
| "mapping_entries access i bitoff (e # es) h =
     (if xe_bit_len e > 0xFF then Inl ''ESI: PDO entry BitLen > 255 cannot fit in mapping word''
      else let (entry, h) = with_data (le32 (toMappingWord (xe_index e) (xe_subindex e) (ucast (xe_bit_len e))))
                 (Entry_new (of_nat (i + 1)) 32 bitoff access 0x0007
                   (if xe_name e \<noteq> [] then text_of (xe_name e) else ''Entry '' @ decimal (i + 1))) h
           in case mapping_entries access (i + 1) (bitoff + 32) es h of
                Inl x \<Rightarrow> Inl x
              | Inr (entries, h) \<Rightarrow> Inr (entry # entries, h))"

definition buildMappingObject :: "esi_pdo \<Rightarrow> bool \<Rightarrow> heap \<Rightarrow> string + object \<times> heap" where
  "buildMappingObject pdo is_rx h =
     (if length (ep_entries pdo) > 0xFF then Inl ''ESI: PDO has more than 255 entries (cannot synthesize mapping)''
      else let map_access = (if ep_fixed pdo then ACCESS_READ else ACCESS_READ OR ACCESS_WRITE_PREOP);
               (subindex0, h) = with_data [of_nat (length (ep_entries pdo))] (Entry_new 0 8 0 map_access 0x0005 ''Number of entries'') h
           in case mapping_entries map_access 0 8 (ep_entries pdo) h of
                Inl x \<Rightarrow> Inl x
              | Inr (entries, h) \<Rightarrow>
                  Inr (\<lparr>ob_index = ep_index pdo, ob_code = RECORD,
                        ob_name = (if ep_name pdo \<noteq> [] then text_of (ep_name pdo) else if is_rx then ''RxPDO Mapping'' else ''TxPDO Mapping''),
                        ob_entries = subindex0 # entries\<rparr>, h))"

fun assignment_entries :: "nat \<Rightarrow> u16 \<Rightarrow> esi_pdo list \<Rightarrow> heap \<Rightarrow> entry list \<times> heap" where
  "assignment_entries i bitoff [] h = ([], h)"
| "assignment_entries i bitoff (p # ps) h =
     (let (entry, h) = with_data (le16 (ep_index p))
            (Entry_new (of_nat (i + 1)) 16 bitoff (ACCESS_READ OR ACCESS_WRITE_PREOP) 0x0006 (''PDO '' @ decimal (i + 1))) h;
          (entries, h) = assignment_entries (i + 1) (bitoff + 16) ps h
      in (entry # entries, h))"

definition buildAssignmentObject :: "esi_pdo list \<Rightarrow> u16 \<Rightarrow> bool \<Rightarrow> heap \<Rightarrow> string + object \<times> heap" where
  "buildAssignmentObject pdos index is_rx h =
     (if length pdos > 0xFF then Inl ''ESI: more than 255 PDOs assigned to a SyncManager''
      else let (subindex0, h) = with_data [of_nat (length pdos)]
                 (Entry_new 0 8 0 (ACCESS_READ OR ACCESS_WRITE_PREOP) 0x0005 ''Number of assigned PDOs'') h;
               (entries, h) = assignment_entries 0 8 pdos h
           in Inr (\<lparr>ob_index = index, ob_code = ARRAY, ob_name = (if is_rx then ''RxPDO assign'' else ''TxPDO assign''),
                    ob_entries = subindex0 # entries\<rparr>, h))"

section \<open>Objects the PDO entries refer to\<close>

record field =
  fd_bitlen :: u16
  fd_name :: bytes
  fd_type :: u16
  fd_writable :: bool

definition Field_new :: field where
  "Field_new = \<lparr>fd_bitlen = 0, fd_name = [], fd_type = 0, fd_writable = False\<rparr>"

text \<open>\<open>f\<close> applied to the value of a key, a new one if there is none.\<close>

fun adjust :: "'k::linorder \<Rightarrow> 'v \<Rightarrow> ('v \<Rightarrow> 'v) \<Rightarrow> ('k \<times> 'v) list \<Rightarrow> ('k \<times> 'v) list" where
  "adjust k d f [] = [(k, f d)]"
| "adjust k d f ((k', v) # kvs) =
     (if k < k' then (k, f d) # (k', v) # kvs else if k = k' then (k, f v) # kvs else (k', v) # adjust k d f kvs)"

type_synonym targets = "(u16 \<times> (u8 \<times> field) list) list"

definition field_type :: "esi_entry \<Rightarrow> u16" where
  "field_type e =
     (case coeTypeFromLabel (xe_data_type e) of
        Some ty \<Rightarrow> ty
      | None \<Rightarrow> if xe_bit_len e = 1 then 0x0001 else if xe_bit_len e \<le> 8 then 0x0005 else if xe_bit_len e \<le> 16 then 0x0006
                else if xe_bit_len e \<le> 32 then 0x0007 else 0x001B)"

definition update_field :: "bool \<Rightarrow> esi_entry \<Rightarrow> field \<Rightarrow> field" where
  "update_field is_rx e fd = \<lparr>fd_bitlen = xe_bit_len e, fd_name = xe_name e, fd_type = field_type e, fd_writable = (fd_writable fd \<or> is_rx)\<rparr>"

definition dictionaryContains :: "dictionary \<Rightarrow> u16 \<Rightarrow> bool" where
  "dictionaryContains dict index \<longleftrightarrow> list_ex (\<lambda>ob. ob_index ob = index) dict"

definition collect_entry :: "dictionary \<Rightarrow> bool \<Rightarrow> esi_entry \<Rightarrow> targets \<Rightarrow> targets" where
  "collect_entry dict is_rx e targets =
     (if xe_index e = 0 \<or> dictionaryContains dict (xe_index e) then targets
      else adjust (xe_index e) [] (adjust (xe_subindex e) Field_new (update_field is_rx e)) targets)"

definition collect_pdos :: "dictionary \<Rightarrow> bool \<Rightarrow> esi_pdo list \<Rightarrow> targets \<Rightarrow> targets" where
  "collect_pdos dict is_rx pdos targets = fold (collect_entry dict is_rx) (concat (map ep_entries pdos)) targets"

definition accessOf :: "field \<Rightarrow> u16" where
  "accessOf fd = (if fd_writable fd then ACCESS_READ OR ACCESS_WRITE OR ACCESS_MAP_Rx else ACCESS_READ OR ACCESS_MAP_Tx)"

fun record_fields :: "u16 \<Rightarrow> (u8 \<times> field) list \<Rightarrow> entry list" where
  "record_fields bitoff [] = []"
| "record_fields bitoff ((sub, fd) # fds) =
     (if sub = 0 then record_fields bitoff fds
      else Entry_new sub (fd_bitlen fd) bitoff (accessOf fd) (fd_type fd) (text_of (fd_name fd)) # record_fields (bitoff + fd_bitlen fd) fds)"

definition target_object :: "u16 \<times> (u8 \<times> field) list \<Rightarrow> heap \<Rightarrow> object \<times> heap" where
  "target_object = (\<lambda>(index, fds) h.
     let max_sub = fold max (map fst fds) 0
     in if max_sub = 0
        then let fd = the (map_of fds 0)
             in (\<lparr>ob_index = index, ob_code = VAR, ob_name = text_of (fd_name fd),
                  ob_entries = [Entry_new 0 (fd_bitlen fd) 0 (accessOf fd) (fd_type fd) (text_of (fd_name fd))]\<rparr>, h)
        else let (count, h) = with_data [max_sub] (Entry_new 0 8 0 ACCESS_READ 0x0005 ''Number of entries'') h
             in (\<lparr>ob_index = index, ob_code = RECORD, ob_name = ''PDO data'', ob_entries = count # record_fields 8 fds\<rparr>, h))"

fun target_objects :: "targets \<Rightarrow> heap \<Rightarrow> object list \<times> heap" where
  "target_objects [] h = ([], h)"
| "target_objects (t # ts) h = (let (ob, h) = target_object t h; (obs, h) = target_objects ts h in (ob # obs, h))"

definition synthesizePdoTargetObjects :: "esi_pdo list \<Rightarrow> esi_pdo list \<Rightarrow> dictionary \<Rightarrow> heap \<Rightarrow> dictionary \<times> heap" where
  "synthesizePdoTargetObjects rx tx dict h =
     (let (obs, h) = target_objects (collect_pdos dict False tx (collect_pdos dict True rx [])) h in (dict @ obs, h))"

section \<open>Mapping and assignment of a device\<close>

text \<open>Comparing the slots of two objects after the first: of 32 bits for a mapping, read as words.\<close>

fun mapping_slots_agree :: "entry list \<Rightarrow> entry list \<Rightarrow> heap \<Rightarrow> bool option" where
  "mapping_slots_agree (l # ls) (r # rs) h =
     (case (en_data l, en_data r) of
        (Some p, Some q) \<Rightarrow>
          if en_bitlen l \<noteq> 32 \<or> en_bitlen r \<noteq> 32 then Some False
          else do { a \<leftarrow> load p 4 h; b \<leftarrow> load q 4 h; if a \<noteq> b then Some False else mapping_slots_agree ls rs h }
      | _ \<Rightarrow> Some False)"
| "mapping_slots_agree _ _ h = Some True"

definition mappingsAgree :: "object \<Rightarrow> object \<Rightarrow> heap \<Rightarrow> bool option" where
  "mappingsAgree lhs rhs h =
     (if length (ob_entries lhs) \<noteq> length (ob_entries rhs) then Some False
      else mapping_slots_agree (tl (ob_entries lhs)) (tl (ob_entries rhs)) h)"

fun assignment_slots_agree :: "entry list \<Rightarrow> entry list \<Rightarrow> heap \<Rightarrow> bool option" where
  "assignment_slots_agree (l # ls) (r # rs) h =
     (case (en_data l, en_data r) of
        (Some p, Some q) \<Rightarrow> do { a \<leftarrow> load p 2 h; b \<leftarrow> load q 2 h; if a \<noteq> b then Some False else assignment_slots_agree ls rs h }
      | _ \<Rightarrow> Some False)"
| "assignment_slots_agree _ _ h = Some True"

definition assignmentsAgree :: "object \<Rightarrow> object \<Rightarrow> heap \<Rightarrow> bool option" where
  "assignmentsAgree lhs rhs h =
     (if length (ob_entries lhs) \<noteq> length (ob_entries rhs) then Some False
      else assignment_slots_agree (tl (ob_entries lhs)) (tl (ob_entries rhs)) h)"

fun pad_entries :: "entry \<Rightarrow> u16 \<Rightarrow> nat list \<Rightarrow> heap \<Rightarrow> entry list \<times> heap" where
  "pad_entries template bitoff [] h = ([], h)"
| "pad_entries template bitoff (sub # subs) h =
     (let (e, h) = with_data (replicate ((unat (en_bitlen template) + 7) div 8) 0)
            (Entry_new (of_nat sub) (en_bitlen template) bitoff (en_access template) (en_type template) (''Entry '' @ decimal sub)) h;
          (es, h) = pad_entries template (bitoff + en_bitlen template) subs h
      in (e # es, h))"

definition padToCapacity :: "object \<Rightarrow> nat \<Rightarrow> heap \<Rightarrow> object \<times> heap" where
  "padToCapacity ob capacity h =
     (if ob_entries ob = [] then (ob, h)
      else let template = last (ob_entries ob);
               (es, h) = pad_entries template (en_bitoff template + en_bitlen template) [length (ob_entries ob)..<capacity] h
           in (ob\<lparr>ob_entries := ob_entries ob @ es\<rparr>, h))"

fun delete_entries :: "entry list \<Rightarrow> heap \<Rightarrow> heap option" where
  "delete_entries [] h = Some h"
| "delete_entries (e # es) h = do { h \<leftarrow> Entry_delete e h; delete_entries es h }"

text \<open>The new object takes the place of the old one, whose entries are destroyed; an object that is not used is destroyed.\<close>

definition replace_object :: "nat \<Rightarrow> object \<Rightarrow> dictionary \<times> heap \<Rightarrow> (dictionary \<times> heap) option" where
  "replace_object k ob = (\<lambda>(dict, h). do {
     let (padded, h) = padToCapacity ob (length (ob_entries (dict ! k))) h;
     h \<leftarrow> delete_entries (ob_entries (dict ! k)) h;
     Some (dict[k := padded], h)
   })"

definition discard_object :: "object \<Rightarrow> dictionary \<times> heap \<Rightarrow> (dictionary \<times> heap) option" where
  "discard_object ob = (\<lambda>(dict, h). do { h \<leftarrow> delete_entries (ob_entries ob) h; Some (dict, h) })"

definition synthesize_mapping :: "bool \<Rightarrow> esi_pdo \<Rightarrow> dictionary \<times> heap \<Rightarrow> (dictionary \<times> heap) option" where
  "synthesize_mapping is_rx pdo = (\<lambda>(dict, h).
     case buildMappingObject pdo is_rx h of
       Inl _ \<Rightarrow> Some (dict, h)
     | Inr (ob, h) \<Rightarrow>
         (case find_pos (\<lambda>o'. ob_index o' = ep_index pdo) dict of
            None \<Rightarrow> Some (dict @ [ob], h)
          | Some k \<Rightarrow>
              if ep_entries pdo = [] then discard_object ob (dict, h)
              else do {
                agree \<leftarrow> mappingsAgree (dict ! k) ob h;
                if agree then discard_object ob (dict, h) else replace_object k ob (dict, h)
              }))"

fun synthesize_mappings :: "bool \<Rightarrow> esi_pdo list \<Rightarrow> dictionary \<times> heap \<Rightarrow> (dictionary \<times> heap) option" where
  "synthesize_mappings is_rx [] s = Some s"
| "synthesize_mappings is_rx (p # ps) s = do { s \<leftarrow> synthesize_mapping is_rx p s; synthesize_mappings is_rx ps s }"

definition assigned_sms :: "esi_pdo list \<Rightarrow> int list" where
  "assigned_sms pdos = fold (\<lambda>p sms. case ep_sm p of Some sm \<Rightarrow> if sm \<in> set sms then sms else sms @ [sm] | None \<Rightarrow> sms) pdos []"

definition synthesize_assignment :: "bool \<Rightarrow> esi_pdo list \<Rightarrow> int \<Rightarrow> dictionary \<times> heap \<Rightarrow> (string + dictionary \<times> heap) option" where
  "synthesize_assignment is_rx pdos sm = (\<lambda>(dict, h).
     let obj_index = of_int (0x1C10 + sm)
     in case buildAssignmentObject (filter (\<lambda>p. ep_sm p = Some sm) pdos) obj_index is_rx h of
          Inl x \<Rightarrow> Some (Inl x)
        | Inr (ob, h) \<Rightarrow>
            map_option Inr
              (case find_pos (\<lambda>o'. ob_index o' = obj_index) dict of
                 None \<Rightarrow> Some (dict @ [ob], h)
               | Some k \<Rightarrow> do {
                   agree \<leftarrow> assignmentsAgree (dict ! k) ob h;
                   if agree then discard_object ob (dict, h) else replace_object k ob (dict, h)
                 }))"

fun synthesize_assignments :: "bool \<Rightarrow> esi_pdo list \<Rightarrow> int list \<Rightarrow> dictionary \<times> heap \<Rightarrow> (string + dictionary \<times> heap) option" where
  "synthesize_assignments is_rx pdos [] s = Some (Inr s)"
| "synthesize_assignments is_rx pdos (sm # sms) s = do {
     r \<leftarrow> synthesize_assignment is_rx pdos sm s;
     case r of Inl x \<Rightarrow> Some (Inl x) | Inr s \<Rightarrow> synthesize_assignments is_rx pdos sms s
   }"

text \<open>A mapping word whose subindex does not exist is moved to the only entry of its object that has its length.\<close>

definition is_mapping :: "u16 \<Rightarrow> bool" where
  "is_mapping index \<longleftrightarrow> (0x1600 \<le> index \<and> index \<le> 0x17FF) \<or> (0x1A00 \<le> index \<and> index \<le> 0x1BFF)"

definition retarget_entry :: "dictionary \<Rightarrow> entry \<Rightarrow> heap \<Rightarrow> heap option" where
  "retarget_entry dict e h =
     (case en_data e of
        None \<Rightarrow> Some h
      | Some p \<Rightarrow>
          if en_subindex e = 0 \<or> en_bitlen e \<noteq> 32 then Some h
          else do {
            raw \<leftarrow> load p 4 h;
            let (index, sub, bits) = fromMappingWord (from_le raw);
            (if index = 0 then Some h
             else case findObject dict index sub of
                    (Some k, None) \<Rightarrow>
                      let ob = dict ! k;
                          candidates = filter (\<lambda>te. (en_subindex te \<ge> 1 \<or> ob_code ob = VAR) \<and> en_bitlen te = ucast bits) (ob_entries ob)
                      in (case candidates of
                            [te] \<Rightarrow> store p (le32 (toMappingWord index (en_subindex te) bits)) h
                          | _ \<Rightarrow> Some h)
                  | _ \<Rightarrow> Some h)
          })"

fun retarget_entries :: "dictionary \<Rightarrow> entry list \<Rightarrow> heap \<Rightarrow> heap option" where
  "retarget_entries dict [] h = Some h"
| "retarget_entries dict (e # es) h = do { h \<leftarrow> retarget_entry dict e h; retarget_entries dict es h }"

definition retarget_mappings :: "dictionary \<Rightarrow> heap \<Rightarrow> heap option" where
  "retarget_mappings dict h = retarget_entries dict (concat (map ob_entries (filter (\<lambda>ob. is_mapping (ob_index ob)) dict))) h"

definition synthesizePdoMappingObjects :: "esi_pdo list \<Rightarrow> esi_pdo list \<Rightarrow> dictionary \<times> heap \<Rightarrow> (string + dictionary \<times> heap) option" where
  "synthesizePdoMappingObjects rx tx s = do {
     s \<leftarrow> synthesize_mappings True rx s;
     s \<leftarrow> synthesize_mappings False tx s;
     r \<leftarrow> synthesize_assignments True rx (assigned_sms rx) s;
     case r of
       Inl x \<Rightarrow> Some (Inl x)
     | Inr s \<Rightarrow> do {
         r \<leftarrow> synthesize_assignments False tx (assigned_sms tx) s;
         case r of
           Inl x \<Rightarrow> Some (Inl x)
         | Inr (dict, h) \<Rightarrow> do { h \<leftarrow> retarget_mappings dict h; Some (Inr (dict, h)) }
       }
   }"

section \<open>Mapping words\<close>

lemma mapping_word_roundtrip: "fromMappingWord (toMappingWord index subindex bitlen) = (index, subindex, bitlen)"
proof -
  let ?w = "toMappingWord index subindex bitlen"
  have "ucast (drop_bit 16 ?w) = index" unfolding toMappingWord_def by (rule bit_word_eqI) (auto simp: bit_simps dest: bit_imp_le_length)
  moreover have "ucast (drop_bit 8 ?w) = subindex" unfolding toMappingWord_def by (rule bit_word_eqI) (auto simp: bit_simps dest: bit_imp_le_length)
  moreover have "ucast ?w = bitlen" unfolding toMappingWord_def by (rule bit_word_eqI) (auto simp: bit_simps dest: bit_imp_le_length)
  ultimately show ?thesis by (simp add: fromMappingWord_def)
qed

section \<open>Ordered maps\<close>

lemma adjust_keys: "set (map fst (adjust k d f xs)) = insert k (set (map fst xs))"
  by (induction k d f xs rule: adjust.induct) auto

lemma adjust_sorted: "sorted_wrt (<) (map fst xs) \<Longrightarrow> sorted_wrt (<) (map fst (adjust k d f xs))"
proof (induction k d f xs rule: adjust.induct)
  case (2 k d f k' v kvs)
  then show ?case using adjust_keys [of k d f kvs] by auto
qed simp

lemma adjust_map_of:
  "sorted_wrt (<) (map fst xs) \<Longrightarrow> map_of (adjust k d f xs) = (map_of xs)(k \<mapsto> f (case map_of xs k of None \<Rightarrow> d | Some v \<Rightarrow> v))"
proof (induction k d f xs rule: adjust.induct)
  case (2 k d f k' v kvs)
  have "map_of kvs k = None" if "k < k'" using 2(2) that by (auto simp: map_of_eq_None_iff)
  then show ?case using 2 by (auto simp: fun_eq_iff)
qed auto

section \<open>What the targets hold\<close>

definition ordered_targets :: "targets \<Rightarrow> bool" where
  "ordered_targets T \<longleftrightarrow> sorted_wrt (<) (map fst T) \<and> (\<forall>(i, fds) \<in> set T. fds \<noteq> [] \<and> sorted_wrt (<) (map fst fds))"

definition target_of :: "targets \<Rightarrow> u16 \<Rightarrow> u8 \<Rightarrow> field option" where
  "target_of T i s = (case map_of T i of None \<Rightarrow> None | Some fds \<Rightarrow> map_of fds s)"

definition skipped :: "dictionary \<Rightarrow> esi_entry \<Rightarrow> bool" where
  "skipped dict e \<longleftrightarrow> xe_index e = 0 \<or> dictionaryContains dict (xe_index e)"

lemma collect_entry_ordered:
  assumes "ordered_targets T"
  shows "ordered_targets (collect_entry dict is_rx e T)"
proof (cases "skipped dict e")
  case False
  let ?g = "adjust (xe_subindex e) Field_new (update_field is_rx e)"
  have c: "collect_entry dict is_rx e T = adjust (xe_index e) [] ?g T" using False by (simp add: collect_entry_def skipped_def)
  have s: "sorted_wrt (<) (map fst T)" using assms by (simp add: ordered_targets_def)
  have "fds \<noteq> [] \<and> sorted_wrt (<) (map fst fds)" if "(i, fds) \<in> set (adjust (xe_index e) [] ?g T)" for i fds
  proof -
    have "map_of (adjust (xe_index e) [] ?g T) i = Some fds"
      using that adjust_sorted [OF s] by (intro map_of_is_SomeI) (auto simp: strict_sorted_iff)
    then have "map_of T i = Some fds \<or> fds = ?g [] \<or> (\<exists>v. map_of T i = Some v \<and> fds = ?g v)"
      by (auto simp: adjust_map_of [OF s] split: if_splits option.splits)
    moreover have "?g v \<noteq> []" for v using adjust_keys [of "xe_subindex e" Field_new "update_field is_rx e" v] by auto
    moreover have "v \<noteq> [] \<and> sorted_wrt (<) (map fst v)" if "map_of T i = Some v" for v
      using assms map_of_SomeD [OF that] by (auto simp: ordered_targets_def)
    ultimately show ?thesis by (auto intro: adjust_sorted)
  qed
  then show ?thesis unfolding c ordered_targets_def using adjust_sorted [OF s] by auto
qed (simp add: collect_entry_def skipped_def assms)

lemma collect_entry_target:
  assumes "ordered_targets T" and "\<not> skipped dict e"
  shows "target_of (collect_entry dict is_rx e T) i s =
    (if i = xe_index e \<and> s = xe_subindex e
     then Some (update_field is_rx e (case target_of T i s of None \<Rightarrow> Field_new | Some fd \<Rightarrow> fd)) else target_of T i s)"
proof -
  have s: "sorted_wrt (<) (map fst T)" using assms by (simp add: ordered_targets_def)
  have "sorted_wrt (<) (map fst fds)" if "map_of T i = Some fds" for fds
    using assms(1) map_of_SomeD [OF that] by (auto simp: ordered_targets_def)
  then show ?thesis
    using assms(2) by (auto simp: target_of_def collect_entry_def skipped_def adjust_map_of [OF s] adjust_map_of split: option.splits)
qed

lemma collect_entry_skip: "skipped dict e \<Longrightarrow> collect_entry dict is_rx e T = T"
  by (simp add: collect_entry_def skipped_def)

text \<open>All entries in the order they are collected, with the direction of their PDO.\<close>

definition collect_all :: "dictionary \<Rightarrow> (bool \<times> esi_entry) list \<Rightarrow> targets \<Rightarrow> targets" where
  "collect_all dict es T = fold (\<lambda>(is_rx, e). collect_entry dict is_rx e) es T"

lemma collect_all_ordered: "ordered_targets T \<Longrightarrow> ordered_targets (collect_all dict es T)"
  by (induction es arbitrary: T) (auto simp: collect_all_def collect_entry_ordered)

lemma collect_all_target:
  assumes "ordered_targets T"
  shows "target_of (collect_all dict es T) i s \<noteq> None \<longleftrightarrow>
      target_of T i s \<noteq> None \<or> (\<exists>(r, e) \<in> set es. \<not> skipped dict e \<and> xe_index e = i \<and> xe_subindex e = s)"
    and "target_of (collect_all dict es T) i s = Some fd \<Longrightarrow> target_of T i s = Some fd \<or>
      (\<exists>(r, e) \<in> set es. \<not> skipped dict e \<and> xe_index e = i \<and> xe_subindex e = s \<and> fd_bitlen fd = xe_bit_len e)"
proof -
  show "target_of (collect_all dict es T) i s \<noteq> None \<longleftrightarrow>
      target_of T i s \<noteq> None \<or> (\<exists>(r, e) \<in> set es. \<not> skipped dict e \<and> xe_index e = i \<and> xe_subindex e = s)"
    using assms
  proof (induction es arbitrary: T)
    case (Cons re es)
    obtain r e where re: "re = (r, e)" by fastforce
    note ih = Cons.IH [OF collect_entry_ordered [OF Cons.prems, of dict r e]]
    show ?case
    proof (cases "skipped dict e")
      case True
      then show ?thesis using ih by (auto simp: re collect_all_def collect_entry_skip)
    next
      case False
      then show ?thesis using ih collect_entry_target [OF Cons.prems False, of r i s] by (auto simp: re collect_all_def)
    qed
  qed (simp add: collect_all_def)
  show "target_of (collect_all dict es T) i s = Some fd \<Longrightarrow> target_of T i s = Some fd \<or>
      (\<exists>(r, e) \<in> set es. \<not> skipped dict e \<and> xe_index e = i \<and> xe_subindex e = s \<and> fd_bitlen fd = xe_bit_len e)"
    using assms
  proof (induction es arbitrary: T)
    case (Cons re es)
    obtain r e where re: "re = (r, e)" by fastforce
    note ih = Cons.IH [OF _ collect_entry_ordered [OF Cons.prems(2), of dict r e]]
    show ?case
    proof (cases "skipped dict e")
      case True
      then show ?thesis using ih Cons.prems(1) by (auto simp: re collect_all_def collect_entry_skip)
    next
      case False
      then show ?thesis using ih Cons.prems(1) collect_entry_target [OF Cons.prems(2) False, of r i s]
        by (auto simp: re collect_all_def update_field_def split: if_splits)
    qed
  qed (simp add: collect_all_def)
qed

section \<open>Target objects\<close>

definition resolves :: "entry list \<Rightarrow> u8 \<Rightarrow> field \<Rightarrow> bool" where
  "resolves es s fd \<longleftrightarrow> (\<exists>p. find_pos (\<lambda>e. en_subindex e = s) es = Some p \<and> en_bitlen (es ! p) = fd_bitlen fd \<and> en_access (es ! p) = accessOf fd)"

lemma resolves_Cons: "resolves es s fd \<Longrightarrow> en_subindex x \<noteq> s \<Longrightarrow> resolves (x # es) s fd"
  unfolding resolves_def by (elim exE conjE, rule_tac x = "Suc p" in exI) simp

lemma resolves_here: "en_subindex x = s \<Longrightarrow> en_bitlen x = fd_bitlen fd \<Longrightarrow> en_access x = accessOf fd \<Longrightarrow> resolves (x # es) s fd"
  by (simp add: resolves_def)

lemma record_fields_find:
  assumes "sorted_wrt (<) (map fst fds)" and "map_of fds s = Some fd" and "s \<noteq> 0"
  shows "resolves (record_fields off fds) s fd"
  using assms
proof (induction fds arbitrary: off)
  case (Cons x fds)
  obtain s' fd' where x: "x = (s', fd')" by fastforce
  show ?case
  proof (cases "s' = s")
    case True
    then show ?thesis using Cons.prems by (simp add: x Entry_new_def resolves_here)
  next
    case False
    then have "resolves (record_fields off' fds) s fd" for off' using Cons by (auto simp: x)
    then show ?thesis using False by (simp add: x Entry_new_def resolves_Cons)
  qed
qed simp

lemma max_subindex_zero: "fold max (map fst fds) m = (0 :: u8) \<longleftrightarrow> m = 0 \<and> (\<forall>x \<in> set fds. fst x = 0)"
proof (induction fds arbitrary: m)
  case (Cons x fds)
  have "max (fst x) m = 0 \<longleftrightarrow> m = 0 \<and> fst x = 0" by (auto simp: max_def word_le_0_iff)
  then show ?case using Cons by auto
qed simp

lemma target_object_resolves:
  assumes "sorted_wrt (<) (map fst fds)" and "map_of fds s = Some fd"
  shows "ob_index (fst (target_object (i, fds) h)) = i"
    and "\<exists>p. find_pos (\<lambda>e. en_subindex e = s) (ob_entries (fst (target_object (i, fds) h))) = Some p"
    and "s \<noteq> 0 \<or> (\<forall>x \<in> set fds. fst x = 0) \<Longrightarrow> resolves (ob_entries (fst (target_object (i, fds) h))) s fd"
proof -
  let ?ob = "fst (target_object (i, fds) h)"
  show "ob_index ?ob = i" by (simp add: target_object_def Let_def with_data_def alloc_def)
  have key: "(s, fd) \<in> set fds" using assms(2) by (rule map_of_SomeD)
  have "(\<exists>p. find_pos (\<lambda>e. en_subindex e = s) (ob_entries ?ob) = Some p)
      \<and> (s \<noteq> 0 \<or> (\<forall>x \<in> set fds. fst x = 0) \<longrightarrow> resolves (ob_entries ?ob) s fd)"
  proof (cases "fold max (map fst fds) 0 = 0")
    case True
    then have "s = 0" using key unfolding max_subindex_zero by auto
    then have "ob_entries ?ob = [Entry_new 0 (fd_bitlen fd) 0 (accessOf fd) (fd_type fd) (text_of (fd_name fd))]"
      using True assms(2) by (simp add: target_object_def)
    then show ?thesis using \<open>s = 0\<close> by (simp add: Entry_new_def resolves_here)
  next
    case False
    then obtain c where c: "ob_entries ?ob = c # record_fields 8 fds" "en_subindex c = 0"
      by (simp add: target_object_def Let_def with_data_def alloc_def Entry_new_def)
    show ?thesis
    proof (cases "s = 0")
      case True
      then show ?thesis using False c unfolding max_subindex_zero by auto
    next
      case False
      then have "resolves (ob_entries ?ob) s fd" using c record_fields_find [OF assms False] by (simp add: resolves_Cons)
      then show ?thesis by (auto simp: resolves_def)
    qed
  qed
  then show "\<exists>p. find_pos (\<lambda>e. en_subindex e = s) (ob_entries ?ob) = Some p"
    and "s \<noteq> 0 \<or> (\<forall>x \<in> set fds. fst x = 0) \<Longrightarrow> resolves (ob_entries ?ob) s fd" by blast+
qed

lemma target_objects_find:
  assumes "sorted_wrt (<) (map fst T)" and "map_of T i = Some fds"
  shows "\<exists>p h'. find_pos (\<lambda>ob. ob_index ob = i) (fst (target_objects T h)) = Some p \<and> fst (target_objects T h) ! p = fst (target_object (i, fds) h')"
  using assms
proof (induction T arbitrary: h)
  case (Cons x T)
  obtain i' fds' where x: "x = (i', fds')" by fastforce
  obtain ob h1 where o: "target_object x h = (ob, h1)" by fastforce
  obtain obs h2 where os: "target_objects T h1 = (obs, h2)" by fastforce
  have idx: "ob_index ob = i'" using o by (auto simp: x target_object_def Let_def with_data_def alloc_def split: if_splits)
  show ?case
  proof (cases "i' = i")
    case True
    then have "fds' = fds" using Cons.prems by (simp add: x)
    then have "ob = fst (target_object (i, fds) h)" using o True by (simp add: x)
    then show ?thesis using o os idx True by auto
  next
    case False
    then obtain p h' where "find_pos (\<lambda>ob. ob_index ob = i) obs = Some p" "obs ! p = fst (target_object (i, fds) h')"
      using Cons.IH [of h1] Cons.prems os by (auto simp: x)
    then have "find_pos (\<lambda>ob. ob_index ob = i) (ob # obs) = Some (Suc p)" "(ob # obs) ! Suc p = fst (target_object (i, fds) h')"
      using False idx by simp_all
    then show ?thesis using o os by auto
  qed
qed simp

lemma find_pos_append: "\<not> list_ex P xs \<Longrightarrow> find_pos P (xs @ ys) = map_option (\<lambda>p. length xs + p) (find_pos P ys)"
  by (cases "find_pos P ys"; induction xs) simp_all

definition all_entries :: "esi_pdo list \<Rightarrow> esi_pdo list \<Rightarrow> (bool \<times> esi_entry) list" where
  "all_entries rx tx = map (Pair True) (concat (map ep_entries rx)) @ map (Pair False) (concat (map ep_entries tx))"

lemma collect_pdos_all:
  "collect_pdos dict False tx (collect_pdos dict True rx []) = collect_all dict (all_entries rx tx) []"
  by (simp add: collect_pdos_def collect_all_def all_entries_def fold_map comp_def)

text \<open>(C20) Every PDO entry gets an object. After \<open>synthesizePdoTargetObjects\<close> the declared objects are untouched, and an entry that
  refers to an undeclared object finds it, under its subindex, readable and mappable and with the length of the
  entry; unless it is a subindex 0 of an object with further fields, which then finds the number of entries.\<close>

theorem pdo_targets_resolve:
  assumes s: "synthesizePdoTargetObjects rx tx dict h = (dict', h')"
    and e: "(r, e) \<in> set (all_entries rx tx)" "xe_index e \<noteq> 0" "\<not> dictionaryContains dict (xe_index e)"
    and agree: "\<forall>(r', e') \<in> set (all_entries rx tx). xe_index e' = xe_index e \<and> xe_subindex e' = xe_subindex e \<longrightarrow> xe_bit_len e' = xe_bit_len e"
  shows "take (length dict) dict' = dict \<and> (\<exists>ob_pos e_pos. findObject dict' (xe_index e) (xe_subindex e) = (Some ob_pos, Some e_pos)
    \<and> (xe_subindex e \<noteq> 0 \<or> (\<forall>(r', e') \<in> set (all_entries rx tx). xe_index e' = xe_index e \<longrightarrow> xe_subindex e' = 0)
       \<longrightarrow> en_bitlen (entry_at dict' ob_pos e_pos) = xe_bit_len e \<and> en_access (entry_at dict' ob_pos e_pos) AND 0x07 = 0x07
           \<and> en_access (entry_at dict' ob_pos e_pos) AND 0xC0 \<noteq> 0))"
proof -
  let ?T = "collect_all dict (all_entries rx tx) []" and ?i = "xe_index e" and ?s = "xe_subindex e"
  obtain obs where obs: "fst (target_objects ?T h) = obs" "dict' = dict @ obs"
    using s unfolding synthesizePdoTargetObjects_def collect_pdos_all by (auto split: prod.splits)
  have empty: "ordered_targets []" "target_of [] i s = None" for i s by (simp_all add: ordered_targets_def target_of_def)
  note ord = collect_all_ordered [OF empty(1), of dict "all_entries rx tx"]
  have "target_of ?T ?i ?s \<noteq> None" using e collect_all_target(1) [OF empty(1)] by (auto simp: empty skipped_def)
  then obtain fd fds where fd: "map_of ?T ?i = Some fds" "map_of fds ?s = Some fd" "target_of ?T ?i ?s = Some fd"
    by (auto simp: target_of_def split: option.splits)
  have bits: "fd_bitlen fd = xe_bit_len e" using collect_all_target(2) [OF empty(1) fd(3)] agree by (auto simp: empty)
  have sorted: "sorted_wrt (<) (map fst ?T)" "sorted_wrt (<) (map fst fds)"
    using ord map_of_SomeD [OF fd(1)] by (auto simp: ordered_targets_def)
  obtain p h1 where p: "find_pos (\<lambda>ob. ob_index ob = ?i) obs = Some p" "obs ! p = fst (target_object (?i, fds) h1)"
    using target_objects_find [OF sorted(1) fd(1), of h] obs(1) by auto
  have o: "find_pos (\<lambda>ob. ob_index ob = ?i) dict' = Some (length dict + p)" "dict' ! (length dict + p) = fst (target_object (?i, fds) h1)"
    using e(3) p by (simp_all add: obs(2) find_pos_append dictionaryContains_def)
  obtain q where q: "find_pos (\<lambda>e. en_subindex e = ?s) (ob_entries (fst (target_object (?i, fds) h1))) = Some q"
    using target_object_resolves(2) [OF sorted(2) fd(2)] by blast
  have f: "findObject dict' ?i ?s = (Some (length dict + p), Some q)" using o q by (simp add: findObject_def)
  have "en_bitlen (entry_at dict' (length dict + p) q) = xe_bit_len e \<and> en_access (entry_at dict' (length dict + p) q) = accessOf fd"
    if c: "?s \<noteq> 0 \<or> (\<forall>(r', e') \<in> set (all_entries rx tx). xe_index e' = ?i \<longrightarrow> xe_subindex e' = 0)"
  proof -
    have "?s \<noteq> 0 \<or> (\<forall>x \<in> set fds. fst x = 0)"
    proof (rule disjCI)
      assume "\<not> (\<forall>x \<in> set fds. fst x = 0)"
      then obtain s' where "s' \<noteq> 0" "s' \<in> fst ` set fds" by auto
      then have "target_of ?T ?i s' \<noteq> None" using fd(1) by (auto simp: target_of_def map_of_eq_None_iff)
      then show "?s \<noteq> 0" using collect_all_target(1) [OF empty(1)] c \<open>s' \<noteq> 0\<close> by (auto simp: empty)
    qed
    then have "resolves (ob_entries (fst (target_object (?i, fds) h1))) ?s fd" using target_object_resolves(3) [OF sorted(2) fd(2)] by blast
    then show ?thesis using q bits o(2) by (auto simp: resolves_def entry_at_def)
  qed
  moreover have "accessOf fd AND 0x07 = 0x07" "accessOf fd AND 0xC0 \<noteq> 0" by (simp_all add: accessOf_def)
  ultimately show ?thesis using f by (intro conjI exI) (auto simp: obs(2))
qed

section \<open>What a mapping object says\<close>

definition reads_as :: "heap \<Rightarrow> bytes \<Rightarrow> entry \<Rightarrow> bool" where
  "reads_as h d e \<longleftrightarrow> (\<exists>p. en_data e = Some p \<and> load p (length d) h = Some d)"

lemma with_data_reads:
  assumes "with_data d e h = (e', h')" and "wf_heap h"
  shows "e' = e\<lparr>en_data := en_data e'\<rparr>" "reads_as h' d e'" "wf_heap h'" "load q n h = Some v \<Longrightarrow> load q n h' = Some v"
proof -
  obtain p where p: "alloc d h = (p, h')" "e' = e\<lparr>en_data := Some p\<rparr>" using assms(1) by (auto simp: with_data_def split: prod.splits)
  show "e' = e\<lparr>en_data := en_data e'\<rparr>" using p(2) by simp
  show "reads_as h' d e'" using p load_alloc_new [OF p(1)] by (simp add: reads_as_def)
  show "wf_heap h'" by (rule wf_alloc [OF assms(2) p(1)])
  show "load q n h = Some v \<Longrightarrow> load q n h' = Some v" by (rule load_alloc_old [OF assms(2) p(1)])
qed

lemma mapping_entries_decode:
  assumes "mapping_entries access i bitoff es h = Inr (entries, h')" and "wf_heap h"
  shows "length entries = length es \<and> wf_heap h' \<and> (\<forall>q n v. load q n h = Some v \<longrightarrow> load q n h' = Some v)
    \<and> (\<forall>k < length es. en_subindex (entries ! k) = of_nat (i + k + 1) \<and> en_bitlen (entries ! k) = 32
        \<and> reads_as h' (le32 (toMappingWord (xe_index (es ! k)) (xe_subindex (es ! k)) (ucast (xe_bit_len (es ! k))))) (entries ! k))"
  using assms
proof (induction es arbitrary: i bitoff h entries)
  case Nil
  then show ?case by simp
next
  case (Cons e es)
  let ?word = "le32 (toMappingWord (xe_index e) (xe_subindex e) (ucast (xe_bit_len e)))"
  let ?name = "if xe_name e \<noteq> [] then text_of (xe_name e) else ''Entry '' @ decimal (i + 1)"
  let ?e = "Entry_new (of_nat (i + 1)) 32 bitoff access 0x0007 ?name"
  obtain entry h1 where w: "with_data ?word ?e h = (entry, h1)" by fastforce
  note wd = with_data_reads [OF w Cons.prems(2)]
  have m: "\<not> xe_bit_len e > 0xFF" "\<exists>es'. mapping_entries access (i + 1) (bitoff + 32) es h1 = Inr (es', h') \<and> entries = entry # es'"
    using Cons.prems(1) unfolding mapping_entries.simps w Let_def prod.case by (auto split: if_splits sum.splits)
  then obtain es' where es': "mapping_entries access (i + 1) (bitoff + 32) es h1 = Inr (es', h')" "entries = entry # es'" by blast
  note ih = Cons.IH [OF es'(1) wd(3)]
  have here: "en_subindex entry = of_nat (i + 1)" "en_bitlen entry = 32" by (subst wd(1), simp add: Entry_new_def)+
  have "reads_as h' ?word entry" using wd(2) ih unfolding reads_as_def by blast
  then show ?case using ih here es'(2) wd(4) by (auto simp: nth_Cons' less_Suc_eq_0_disj split: nat.splits)
qed

text \<open>A mapping object says what its PDO says. The object built for a PDO has one slot
  per entry, in order; the word in each slot decodes to the index, the subindex and the length of the entry. Building it
  changes no other value.\<close>

theorem mapping_object_decodes:
  assumes "buildMappingObject pdo is_rx h = Inr (ob, h')" and "wf_heap h" and "k < length (ep_entries pdo)"
  shows "ob_index ob = ep_index pdo \<and> length (ob_entries ob) = Suc (length (ep_entries pdo))
    \<and> reads_as h' [of_nat (length (ep_entries pdo))] (ob_entries ob ! 0)
    \<and> en_subindex (ob_entries ob ! Suc k) = of_nat (Suc k)
    \<and> (\<exists>w. reads_as h' (le32 w) (ob_entries ob ! Suc k)
         \<and> fromMappingWord w = (xe_index (ep_entries pdo ! k), xe_subindex (ep_entries pdo ! k), ucast (xe_bit_len (ep_entries pdo ! k))))
    \<and> (\<forall>q n v. load q n h = Some v \<longrightarrow> load q n h' = Some v)"
proof -
  let ?es = "ep_entries pdo"
  define access where "access = (if ep_fixed pdo then ACCESS_READ else ACCESS_READ OR ACCESS_WRITE_PREOP)"
  obtain c h1 where w: "with_data [of_nat (length ?es)] (Entry_new 0 8 0 access 0x0005 ''Number of entries'') h = (c, h1)" by fastforce
  note wd = with_data_reads [OF w assms(2)]
  obtain entries where m: "mapping_entries access 0 8 ?es h1 = Inr (entries, h')" "ob_index ob = ep_index pdo" "ob_entries ob = c # entries"
    using assms(1) unfolding buildMappingObject_def access_def [symmetric] w Let_def prod.case by (auto split: if_splits sum.splits)
  note d = mapping_entries_decode [OF m(1) wd(3)]
  have "reads_as h' [of_nat (length ?es)] c" using wd(2) d unfolding reads_as_def by blast
  moreover have "en_subindex (entries ! k) = of_nat (Suc k)" using d assms(3) by simp
  moreover have "reads_as h' (le32 (toMappingWord (xe_index (?es ! k)) (xe_subindex (?es ! k)) (ucast (xe_bit_len (?es ! k))))) (entries ! k)"
    using d assms(3) by blast
  ultimately show ?thesis using m d wd(4) mapping_word_roundtrip by (auto simp: m(3))
qed

section \<open>A concrete device\<close>

definition no_heap :: heap where
  "no_heap = \<lparr>hp_fresh = 0, hp_blocks = Map.empty\<rparr>"

definition analog_pdo :: esi_pdo where
  "analog_pdo = \<lparr>ep_index = 0x1A00, ep_name = [], ep_sm = Some 3, ep_fixed = False,
     ep_entries = [\<lparr>xe_index = 0x3001, xe_subindex = 1, xe_bit_len = 8, xe_name = [83], xe_data_type = ''USINT''\<rparr>,
                   \<lparr>xe_index = 0, xe_subindex = 0, xe_bit_len = 8, xe_name = [], xe_data_type = []\<rparr>,
                   \<lparr>xe_index = 0x3001, xe_subindex = 2, xe_bit_len = 16, xe_name = [86], xe_data_type = ''INT''\<rparr>]\<rparr>"

theorem pdo_targets_resolve_witness:
  "\<exists>ob_pos e_pos. findObject (fst (synthesizePdoTargetObjects [] [analog_pdo] [] no_heap)) 0x3001 2 = (Some ob_pos, Some e_pos)
    \<and> en_bitlen (entry_at (fst (synthesizePdoTargetObjects [] [analog_pdo] [] no_heap)) ob_pos e_pos) = 16"
proof -
  let ?e = "\<lparr>xe_index = 0x3001, xe_subindex = 2, xe_bit_len = 16, xe_name = [86], xe_data_type = ''INT''\<rparr>"
  obtain dict h where s: "synthesizePdoTargetObjects [] [analog_pdo] [] no_heap = (dict, h)" by fastforce
  have "(False, ?e) \<in> set (all_entries [] [analog_pdo])" by (simp add: all_entries_def analog_pdo_def)
  moreover have "\<forall>(r', e') \<in> set (all_entries [] [analog_pdo]). xe_index e' = xe_index ?e \<and> xe_subindex e' = xe_subindex ?e \<longrightarrow> xe_bit_len e' = xe_bit_len ?e"
    by (simp add: all_entries_def analog_pdo_def)
  ultimately show ?thesis using pdo_targets_resolve [OF s, of False ?e] by (auto simp: s dictionaryContains_def)
qed

theorem mapping_object_decodes_witness:
  "\<exists>ob h' w. buildMappingObject analog_pdo False no_heap = Inr (ob, h') \<and> reads_as h' (le32 w) (ob_entries ob ! 3)
    \<and> fromMappingWord w = (0x3001, 2, 16)"
proof -
  have "case buildMappingObject analog_pdo False no_heap of Inr _ \<Rightarrow> True | Inl _ \<Rightarrow> False" by code_simp
  then obtain ob h' where b: "buildMappingObject analog_pdo False no_heap = Inr (ob, h')" by (auto split: sum.splits)
  have "wf_heap no_heap" by (simp add: wf_heap_def no_heap_def)
  from mapping_object_decodes [OF b this, of 2] obtain w where "reads_as h' (le32 w) (ob_entries ob ! 3)" "fromMappingWord w = (0x3001, 2, 16)"
    by (auto simp: analog_pdo_def numeral_3_eq_3)
  then show ?thesis using b by blast
qed

end
