(* ===== verification/EmuEeprom.thy ===== *)
theory EmuEeprom
  imports Checksums "HOL-Library.Monad_Syntax"
begin

text \<open>
  The EEPROM of a slave emulated by its processor: the command protocol of the slave controller
  (\<open>lib/slave/src/AbstractEmulatedEEPROM.cc\<close>), the default content (\<open>lib/slave/src/EEPROM/EEPROM_factory.cc\<close>) and its copy in the
  flash of an XMC4800 (\<open>lib/slave/src/EEPROM/XMC4800EEPROM.cc\<close>). The flash itself and the memory-mapped registers are the
  environment: the flash is a record of operations, the values of the registers are arguments, and the registers
  written are the result. An access outside the EEPROM gives \<open>None\<close>. Addresses in the flash are relative to the sector
  that holds the copy, and waiting for the flash to finish is left out.
\<close>

section \<open>Flash\<close>

record 'f flash_env =
  fe_mem :: "'f \<Rightarrow> nat \<Rightarrow> u8"
  fe_erase_sector :: "'f \<Rightarrow> 'f"
  fe_clear_status :: "'f \<Rightarrow> 'f"
  fe_enter_page_mode :: "'f \<Rightarrow> 'f"
  fe_load_page :: "u32 \<Rightarrow> u32 \<Rightarrow> 'f \<Rightarrow> 'f"
  fe_write_page :: "nat \<Rightarrow> 'f \<Rightarrow> 'f"

definition PAGE_SIZE_BYTE :: nat where [simp]: "PAGE_SIZE_BYTE = 256"
definition PAGE_SIZE_UINT64 :: nat where [simp]: "PAGE_SIZE_UINT64 = 32"
definition EEPROM_MAX_SIZE_BYTE :: nat where [simp]: "EEPROM_MAX_SIZE_BYTE = 4088"
definition EEPROM_MAX_SIZE_WORD :: nat where [simp]: "EEPROM_MAX_SIZE_WORD = 2044"
definition EEPROM_WRITE_TIMEOUT :: int where [simp]: "EEPROM_WRITE_TIMEOUT = 400000000"

record emulated_eeprom =
  em_words :: "u16 list"
  em_adler_checksum :: u32
  em_shall_write :: bool
  em_last_write :: int
  em_load_default :: bool
  em_page_cursor :: nat
  em_page_index :: nat

definition XMC4800EEPROM_new :: emulated_eeprom where
  "XMC4800EEPROM_new = \<lparr>em_words = replicate EEPROM_MAX_SIZE_WORD 0, em_adler_checksum = 0, em_shall_write = False, em_last_write = 0,
     em_load_default = False, em_page_cursor = 0, em_page_index = 0\<rparr>"

definition word_bytes :: "u16 list \<Rightarrow> bytes" where
  "word_bytes ws = concat (map le16 ws)"

definition flash_bytes :: "'f flash_env \<Rightarrow> nat \<Rightarrow> nat \<Rightarrow> 'f \<Rightarrow> bytes" where
  "flash_bytes fe off n f = map (\<lambda>k. fe_mem fe f (off + k)) [0..<n]"

definition readFlash :: "'f flash_env \<Rightarrow> 'f \<Rightarrow> emulated_eeprom \<Rightarrow> emulated_eeprom" where
  "readFlash fe f e =
     e\<lparr>em_adler_checksum := from_le (flash_bytes fe 0 4 f),
       em_words := map (\<lambda>k. from_le (flash_bytes fe (8 + 2 * k) 2 f)) [0..<EEPROM_MAX_SIZE_WORD]\<rparr>"

definition load_groups :: "'f flash_env \<Rightarrow> bytes \<Rightarrow> nat \<Rightarrow> 'f \<Rightarrow> 'f" where
  "load_groups fe data n f = fold (\<lambda>i f. fe_load_page fe (get32 data (8 * i)) (get32 data (8 * i + 4)) f) [0..<n] f"

text \<open>\<open>write\<close>: fills the current page; a page that is full is written and the next one started.\<close>

definition write_chunk :: "'f flash_env \<Rightarrow> bytes \<Rightarrow> nat \<Rightarrow> emulated_eeprom \<Rightarrow> 'f \<Rightarrow> (nat \<times> emulated_eeprom \<times> 'f) option" where
  "write_chunk fe data size_byte e f =
     (let size_uint64 = size_byte div 8;
          remaining = PAGE_SIZE_UINT64 - em_page_cursor e
      in if size_uint64 < remaining
         then (if length data < 8 * size_uint64 then None
               else Some (size_byte, e\<lparr>em_page_cursor := em_page_cursor e + size_uint64\<rparr>, load_groups fe data size_uint64 f))
         else (if length data < 8 * remaining then None
               else let f = load_groups fe data remaining f;
                        f = fe_write_page fe (em_page_index e * PAGE_SIZE_BYTE) f;
                        f = fe_enter_page_mode fe (fe_clear_status fe f)
                    in Some (remaining * 8, e\<lparr>em_page_cursor := 0, em_page_index := em_page_index e + 1\<rparr>, f)))"

partial_function (option) write_words :: "'f flash_env \<Rightarrow> nat \<Rightarrow> emulated_eeprom \<Rightarrow> 'f \<Rightarrow> (emulated_eeprom \<times> 'f) option" where
  [code]: "write_words fe written e f =
     (if written div 2 < length (em_words e) then do {
        (n, e, f) \<leftarrow> write_chunk fe (drop (2 * (written div 2)) (word_bytes (em_words e))) (2 * length (em_words e) - written) e f;
        write_words fe (written + n) e f
      } else Some (e, f))"

definition writeLastPage :: "'f flash_env \<Rightarrow> emulated_eeprom \<Rightarrow> 'f \<Rightarrow> emulated_eeprom \<times> 'f" where
  "writeLastPage fe e f =
     (if em_page_cursor e \<noteq> 0
      then let remaining = PAGE_SIZE_UINT64 - em_page_cursor e;
               f = ((fe_load_page fe 0xFF 0xFF) ^^ remaining) f
           in (e\<lparr>em_page_cursor := 0, em_page_index := em_page_index e + 1\<rparr>, fe_write_page fe (em_page_index e * PAGE_SIZE_BYTE) f)
      else (e, f))"

text \<open>The checksum is written as eight bytes from a variable of four: the other four are what follows it in memory.\<close>

definition writeFlash :: "'f flash_env \<Rightarrow> bytes \<Rightarrow> emulated_eeprom \<Rightarrow> 'f \<Rightarrow> (emulated_eeprom \<times> 'f) option" where
  "writeFlash fe after_checksum e f = do {
     let e = e\<lparr>em_shall_write := False\<rparr>;
     let f = fe_erase_sector fe f;
     let e = e\<lparr>em_adler_checksum := adler32Sum (take EEPROM_MAX_SIZE_BYTE (word_bytes (em_words e)))\<rparr>;
     let f = fe_enter_page_mode fe (fe_clear_status fe f);
     (_, e, f) \<leftarrow> write_chunk fe (le32 (em_adler_checksum e) @ after_checksum) 8 e f;
     (e, f) \<leftarrow> write_words fe 0 e f;
     Some (writeLastPage fe e f)
   }"

section \<open>Start\<close>

text \<open>The information area of the default content.\<close>

definition createMinimalEEPROM :: bytes where
  "createMinimalEEPROM = foldl (\<lambda>d (off, w). poke d off (le16 w)) (replicate 128 0)
     [(0, 0x0280), (2, 0x6E00), (4, 0xFF), (6, 0xFF), (14, 0xB6), (124, 0x1F)]"

definition loadFromFlash :: "'f flash_env \<Rightarrow> 'f \<Rightarrow> emulated_eeprom \<Rightarrow> emulated_eeprom" where
  "loadFromFlash fe f e =
     (let e = readFlash fe f e
      in if adler32Sum (word_bytes (em_words e)) \<noteq> em_adler_checksum e then e\<lparr>em_load_default := True\<rparr> else e)"

text \<open>The control register as it was read, with its command cleared, is written back.\<close>

definition eeprom_init :: "'f flash_env \<Rightarrow> u16 \<Rightarrow> 'f \<Rightarrow> emulated_eeprom \<Rightarrow> (u16 \<times> bytes) list \<times> emulated_eeprom" where
  "eeprom_init fe control f e =
     (let e = e\<lparr>em_words := replicate (length (em_words e)) 0xFFFF\<rparr>;
          e = loadFromFlash fe f e;
          e = (if em_load_default e
               then let w = replicate (length (em_words e)) 0xFFFF;
                        w = map (\<lambda>k. from_le (peek createMinimalEEPROM (2 * k) 2)) [0..<64] @ drop 64 w
                    in e\<lparr>em_words := w\<rparr>
               else e)
      in ([(0x502, le16 (control AND NOT 0x0700))], e))"

section \<open>Commands\<close>

text \<open>The registers a call reads: event, control, address, data. \<open>RELOAD\<close> polls the event register until it is loaded.\<close>

record eeprom_registers =
  er_al_event :: u32
  er_control :: u16
  er_address :: u32
  er_data :: bytes
  er_polls :: "u32 list"

fun poll_loading :: "u32 list \<Rightarrow> unit option" where
  "poll_loading [] = None"
| "poll_loading (v # vs) = (if v AND 0x1000 \<noteq> 0 then poll_loading vs else Some ())"

definition eeprom_read_command :: "u32 \<Rightarrow> emulated_eeprom \<Rightarrow> (u16 \<times> bytes) list option" where
  "eeprom_read_command address e =
     (if address + 4 > of_nat (length (em_words e)) then Some []
      else if unat address + 4 > length (em_words e) then None
      else Some [(0x508, word_bytes (peek (em_words e) (unat address) 4)), (0x502, le16 0x0100)])"

definition eeprom_write_command :: "u32 \<Rightarrow> bytes \<Rightarrow> int \<Rightarrow> emulated_eeprom \<Rightarrow> ((u16 \<times> bytes) list \<times> emulated_eeprom) option" where
  "eeprom_write_command address data now e =
     (if unat address \<ge> length (em_words e) then None
      else Some ([(0x502, le16 0x0200)],
        e\<lparr>em_words := (em_words e)[unat address := get16 data 0], em_shall_write := True, em_last_write := (now div 1000000) * 1000000\<rparr>))"

definition reload_words :: "emulated_eeprom \<Rightarrow> nat \<Rightarrow> nat \<Rightarrow> bytes" where
  "reload_words e low high = le32 (ucast (em_words e ! low) + push_bit 16 (ucast (em_words e ! high)))"

definition eeprom_reload_command :: "u32 list \<Rightarrow> emulated_eeprom \<Rightarrow> (u16 \<times> bytes) list option" where
  "eeprom_reload_command polls e =
     (if length (em_words e) < 64 then None
      else do {
        _ \<leftarrow> poll_loading polls;
        Some [(0x508, reload_words e 0 1), (0x50C, reload_words e 2 3), (0x502, le16 0x0400),
              (0x508, reload_words e 4 5), (0x50C, reload_words e 6 7), (0x502, le16 0x0400)]
      })"

definition processFlash :: "'f flash_env \<Rightarrow> bytes \<Rightarrow> int \<Rightarrow> emulated_eeprom \<Rightarrow> 'f \<Rightarrow> (emulated_eeprom \<times> 'f) option" where
  "processFlash fe after_checksum now e f =
     (if \<not> em_shall_write e \<or> now - em_last_write e < EEPROM_WRITE_TIMEOUT then Some (e, f)
      else writeFlash fe after_checksum e f)"

definition eeprom_process ::
    "'f flash_env \<Rightarrow> bytes \<Rightarrow> int \<Rightarrow> eeprom_registers \<Rightarrow> emulated_eeprom \<Rightarrow> 'f \<Rightarrow> ((u16 \<times> bytes) list \<times> emulated_eeprom \<times> 'f) option" where
  "eeprom_process fe after_checksum now r e f = do {
     (e, f) \<leftarrow> processFlash fe after_checksum now e f;
     (if er_al_event r AND 0x20 = 0 then Some ([], e, f)
      else let command = er_control r AND 0x0700
           in if command = 0x0100 then map_option (\<lambda>out. (out, e, f)) (eeprom_read_command (er_address r) e)
              else if command = 0x0200 then map_option (\<lambda>(out, e). (out, e, f)) (eeprom_write_command (er_address r) (er_data r) now e)
              else if command = 0x0400 then map_option (\<lambda>out. (out, e, f)) (eeprom_reload_command (er_polls r) e)
              else Some ([], e, f))
   }"

section \<open>What the flash does\<close>

text \<open>The behaviour the code relies on: loading collects the bytes of a page, which entering the page mode empties; writing a
  complete page changes these 256 bytes and nothing else; erasing sets the whole sector to one value.\<close>

definition flash_laws :: "'f flash_env \<Rightarrow> ('f \<Rightarrow> bytes) \<Rightarrow> u8 \<Rightarrow> bool" where
  "flash_laws fe page erased \<longleftrightarrow>
     (\<forall>f. fe_mem fe (fe_enter_page_mode fe f) = fe_mem fe f \<and> page (fe_enter_page_mode fe f) = []
        \<and> fe_mem fe (fe_clear_status fe f) = fe_mem fe f \<and> fe_mem fe (fe_erase_sector fe f) = (\<lambda>_. erased)
        \<and> (\<forall>lo hi. fe_mem fe (fe_load_page fe lo hi f) = fe_mem fe f \<and> page (fe_load_page fe lo hi f) = page f @ le32 lo @ le32 hi)
        \<and> (\<forall>a. length (page f) = 256 \<longrightarrow>
             fe_mem fe (fe_write_page fe a f) = (\<lambda>i. if a \<le> i \<and> i < a + 256 then page f ! (i - a) else fe_mem fe f i)))"

text \<open>The stream \<open>C\<close> written since the erasure, from page \<open>start\<close> on.\<close>

definition streamed :: "'f flash_env \<Rightarrow> ('f \<Rightarrow> bytes) \<Rightarrow> u8 \<Rightarrow> nat \<Rightarrow> bytes \<Rightarrow> emulated_eeprom \<Rightarrow> 'f \<Rightarrow> bool" where
  "streamed fe page erased start C e f \<longleftrightarrow>
     start \<le> em_page_index e \<and> em_page_cursor e < 32 \<and> length C = 256 * (em_page_index e - start) + 8 * em_page_cursor e
     \<and> page f = drop (256 * (em_page_index e - start)) C
     \<and> fe_mem fe f = (\<lambda>i. if 256 * start \<le> i \<and> i < 256 * em_page_index e then C ! (i - 256 * start) else erased)"

lemma load_groups_page:
  assumes "flash_laws fe page erased" and "8 * n \<le> length data"
  shows "fe_mem fe (load_groups fe data n f) = fe_mem fe f \<and> page (load_groups fe data n f) = page f @ take (8 * n) data"
  using assms(2)
proof (induction n)
  case 0
  then show ?case by (simp add: load_groups_def)
next
  case (Suc n)
  let ?f = "load_groups fe data n f"
  have step: "load_groups fe data (Suc n) f = fe_load_page fe (get32 data (8 * n)) (get32 data (8 * n + 4)) ?f" by (simp add: load_groups_def)
  have "take (8 * Suc n) data = take (8 * n) data @ peek data (8 * n) 4 @ peek data (8 * n + 4) 4"
    using take_add [of "8 * n" 8 data] take_add [of 4 4 "drop (8 * n) data"] by (simp add: peek_def add.commute)
  moreover have "le32 (get32 data (8 * n)) = peek data (8 * n) 4" "le32 (get32 data (8 * n + 4)) = peek data (8 * n + 4) 4"
    using Suc.prems by simp_all
  moreover have "fe_mem fe ?f = fe_mem fe f \<and> page ?f = page f @ take (8 * n) data" using Suc by simp
  ultimately show ?case using assms(1) unfolding step flash_laws_def by (simp del: mult_Suc_right)
qed

lemma write_chunk_streams:
  assumes laws: "flash_laws fe page erased" and s: "streamed fe page erased start C e f" and size: "8 dvd size_byte" "size_byte \<le> length data" "0 < size_byte"
  shows "\<exists>n e' f'. write_chunk fe data size_byte e f = Some (n, e', f') \<and> 8 dvd n \<and> 0 < n \<and> n \<le> size_byte
    \<and> streamed fe page erased start (C @ take n data) e' f' \<and> em_words e' = em_words e \<and> em_adler_checksum e' = em_adler_checksum e"
proof -
  let ?rem = "32 - em_page_cursor e"
  have c: "em_page_cursor e < 32" using s by (simp add: streamed_def)
  show ?thesis
  proof (cases "size_byte div 8 < ?rem")
    case True
    have l: "8 * (size_byte div 8) = size_byte" using size(1) by simp
    let ?e = "e\<lparr>em_page_cursor := em_page_cursor e + size_byte div 8\<rparr>" and ?f = "load_groups fe data (size_byte div 8) f"
    have "write_chunk fe data size_byte e f = Some (size_byte, ?e, ?f)" using True l size(2) by (simp add: write_chunk_def Let_def)
    moreover have "streamed fe page erased start (C @ take size_byte data) ?e ?f"
      using s True load_groups_page [OF laws, of "size_byte div 8" data f] l size(2) by (auto simp: streamed_def nth_append fun_eq_iff)
    ultimately show ?thesis using size by auto
  next
    case False
    let ?e = "e\<lparr>em_page_cursor := 0, em_page_index := em_page_index e + 1\<rparr>" and ?f = "load_groups fe data ?rem f"
    let ?w = "fe_write_page fe (em_page_index e * 256) ?f"
    have fits: "8 * ?rem \<le> size_byte" using False size(1) by auto
    have "write_chunk fe data size_byte e f = Some (?rem * 8, ?e, fe_enter_page_mode fe (fe_clear_status fe ?w))"
      using False fits size(2) by (simp add: write_chunk_def Let_def)
    moreover have "streamed fe page erased start (C @ take (?rem * 8) data) ?e (fe_enter_page_mode fe (fe_clear_status fe ?w))"
    proof -
      define D where "D = C @ take (?rem * 8) data"
      have p: "page ?f = drop (256 * (em_page_index e - start)) D" "fe_mem fe ?f = fe_mem fe f"
        using load_groups_page [OF laws, of ?rem data f] fits size(2) s by (auto simp: D_def streamed_def mult.commute)
      have l: "length D = 256 * (em_page_index e - start) + 256" "start \<le> em_page_index e"
        using s c fits size(2) by (auto simp: D_def streamed_def)
      then have "length (page ?f) = 256" using p(1) by simp
      then have m: "fe_mem fe ?w = (\<lambda>i. if em_page_index e * 256 \<le> i \<and> i < em_page_index e * 256 + 256 then page ?f ! (i - em_page_index e * 256) else fe_mem fe f i)"
        using laws unfolding flash_laws_def p(2) [symmetric] by blast
      have "fe_mem fe ?w i = (if 256 * start \<le> i \<and> i < 256 * Suc (em_page_index e) then D ! (i - 256 * start) else erased)" for i
      proof -
        consider "256 * em_page_index e \<le> i" "i < 256 * em_page_index e + 256" | "i < 256 * em_page_index e" | "256 * em_page_index e + 256 \<le> i" by linarith
        then show ?thesis
        proof cases
          case 1
          then have "256 * (em_page_index e - start) + (i - em_page_index e * 256) = i - 256 * start" "256 * start \<le> i" using l(2) by auto
          then show ?thesis using 1 l by (simp add: m p(1))
        next
          case 2
          then show ?thesis using s l(2) by (auto simp: D_def m streamed_def nth_append)
        next
          case 3
          then show ?thesis using s l(2) by (auto simp: m streamed_def)
        qed
      qed
      then show ?thesis using laws l unfolding D_def [symmetric] by (auto simp: streamed_def flash_laws_def Suc_diff_le)
    qed
    ultimately show ?thesis using fits c by auto
  qed
qed

lemma length_word_bytes [simp]: "length (word_bytes ws) = 2 * length ws"
  by (induction ws) (simp_all add: word_bytes_def)

lemma write_words_streams:
  assumes laws: "flash_laws fe page erased"
  shows "streamed fe page erased start C e f \<Longrightarrow> 8 dvd written \<Longrightarrow> 8 dvd 2 * length (em_words e) \<Longrightarrow> written \<le> 2 * length (em_words e) \<Longrightarrow>
    \<exists>e' f'. write_words fe written e f = Some (e', f') \<and> streamed fe page erased start (C @ drop written (word_bytes (em_words e))) e' f'
      \<and> em_words e' = em_words e \<and> em_adler_checksum e' = em_adler_checksum e"
proof (induction "2 * length (em_words e) - written" arbitrary: C e f written rule: less_induct)
  case less
  have even: "2 * (written div 2) = written" using less.prems(2) by (auto dest: dvd_trans [of 2 8])
  show ?case
  proof (cases "written div 2 < length (em_words e)")
    case False
    then have "written = 2 * length (em_words e)" using less.prems(4) even by linarith
    then show ?thesis using less.prems(1) by (subst write_words.simps) simp
  next
    case True
    let ?data = "drop written (word_bytes (em_words e))" and ?size = "2 * length (em_words e) - written"
    have size: "8 dvd ?size" "?size \<le> length ?data" "0 < ?size" using less.prems True even by auto
    obtain n e1 f1 where c: "write_chunk fe ?data ?size e f = Some (n, e1, f1)" "8 dvd n" "0 < n" "n \<le> ?size"
        "streamed fe page erased start (C @ take n ?data) e1 f1" "em_words e1 = em_words e" "em_adler_checksum e1 = em_adler_checksum e"
      using write_chunk_streams [OF laws less.prems(1) size] by blast
    have "\<exists>e' f'. write_words fe (written + n) e1 f1 = Some (e', f')
        \<and> streamed fe page erased start ((C @ take n ?data) @ drop (written + n) (word_bytes (em_words e1))) e' f'
        \<and> em_words e' = em_words e1 \<and> em_adler_checksum e' = em_adler_checksum e1"
      using c less.prems by (intro less.hyps) auto
    moreover have "take n ?data @ drop (written + n) (word_bytes (em_words e)) = ?data"
      using append_take_drop_id [of n ?data] by (simp add: add.commute)
    ultimately show ?thesis using c True even by (subst write_words.simps) (auto simp: append.assoc)
  qed
qed

lemma writeFlash_streams:
  assumes laws: "flash_laws fe page erased" and e: "length (em_words e) = 2044" "em_page_cursor e = 0" and after: "length after_checksum = 4"
  shows "\<exists>e' f'. writeFlash fe after_checksum e f = Some (e', f') \<and> em_words e' = em_words e \<and> em_page_cursor e' = 0 \<and> em_page_index e' = em_page_index e + 16
    \<and> fe_mem fe f' = (\<lambda>i. if 256 * em_page_index e \<le> i \<and> i < 256 * em_page_index e + 4096
        then (le32 (adler32Sum (word_bytes (em_words e))) @ after_checksum @ word_bytes (em_words e)) ! (i - 256 * em_page_index e) else erased)"
proof -
  let ?sum = "adler32Sum (word_bytes (em_words e))"
  let ?e = "e\<lparr>em_shall_write := False, em_adler_checksum := ?sum\<rparr>"
  let ?f = "fe_enter_page_mode fe (fe_clear_status fe (fe_erase_sector fe f))"
  have s0: "streamed fe page erased (em_page_index e) [] ?e ?f"
  proof -
    have "fe_mem fe ?f = (\<lambda>_. erased)" "page ?f = []" using laws by (simp_all add: flash_laws_def)
    then show ?thesis using e(2) by (auto simp: streamed_def fun_eq_iff)
  qed
  obtain n e1 f1 where c: "write_chunk fe (le32 ?sum @ after_checksum) 8 ?e ?f = Some (n, e1, f1)" "8 dvd n" "0 < n" "n \<le> 8"
      "streamed fe page erased (em_page_index e) ([] @ take n (le32 ?sum @ after_checksum)) e1 f1" "em_words e1 = em_words ?e"
    using write_chunk_streams [OF laws s0, of 8 "le32 ?sum @ after_checksum"] after by auto
  have "n = 8" using c(2-4) by (auto dest: dvd_imp_le)
  then have s1: "streamed fe page erased (em_page_index e) (le32 ?sum @ after_checksum) e1 f1" using c(5) after by simp
  obtain e2 f2 where w: "write_words fe 0 e1 f1 = Some (e2, f2)"
      "streamed fe page erased (em_page_index e) ((le32 ?sum @ after_checksum) @ drop 0 (word_bytes (em_words e1))) e2 f2" "em_words e2 = em_words e1"
    using write_words_streams [OF laws s1, of 0] c(6) e(1) by auto
  define C where "C = le32 ?sum @ after_checksum @ word_bytes (em_words e)"
  have s2: "streamed fe page erased (em_page_index e) C e2 f2" using w(2) c(6) by (simp add: C_def)
  have "length C = 4096" using after e(1) by (simp add: C_def)
  then have "4096 = 256 * (em_page_index e2 - em_page_index e) + 8 * em_page_cursor e2" "em_page_cursor e2 < 32" "em_page_index e \<le> em_page_index e2"
    using s2 by (simp_all add: streamed_def)
  moreover from this have "em_page_index e2 - em_page_index e = 16" by linarith
  ultimately have ends: "em_page_cursor e2 = 0" "em_page_index e2 = em_page_index e + 16" by linarith+
  have "writeFlash fe after_checksum e f = Some (e2, f2)"
    using c(1) w(1) e(1) ends(1) by (simp add: writeFlash_def writeLastPage_def Let_def)
  moreover have "fe_mem fe f2 = (\<lambda>i. if 256 * em_page_index e \<le> i \<and> i < 256 * em_page_index e + 4096 then C ! (i - 256 * em_page_index e) else erased)"
    using s2 ends(2) by (simp add: streamed_def)
  ultimately show ?thesis using w(3) c(6) ends by (auto simp: C_def)
qed

section \<open>Saving and starting\<close>

lemma words_word_bytes: "k < length ws \<Longrightarrow> get16 (word_bytes ws) (2 * k) = ws ! k"
proof (induction ws arbitrary: k)
  case (Cons w ws)
  then show ?case by (cases k) (simp_all add: word_bytes_def peek_def)
qed simp

text \<open>(C21) What is saved is what the next start finds. Saving the EEPROM for the first time since the start ends, and a start
  after it reads exactly the saved words, with a checksum that matches.\<close>

theorem eeprom_save_restores:
  assumes "flash_laws fe page erased" and "length (em_words e) = 2044" and "em_page_cursor e = 0" and "em_page_index e = 0"
    and "length after_checksum = 4"
  shows "\<exists>e' f'. writeFlash fe after_checksum e f = Some (e', f')
    \<and> em_words (loadFromFlash fe f' XMC4800EEPROM_new) = em_words e \<and> \<not> em_load_default (loadFromFlash fe f' XMC4800EEPROM_new)"
proof -
  define C where "C = le32 (adler32Sum (word_bytes (em_words e))) @ after_checksum @ word_bytes (em_words e)"
  have len: "length C = 4096" using assms(2,5) by (simp add: C_def)
  obtain e' f' where w: "writeFlash fe after_checksum e f = Some (e', f')" "fe_mem fe f' = (\<lambda>i. if i < 4096 then C ! i else erased)"
    using writeFlash_streams [OF assms(1-3,5), of f, unfolded assms(4) mult_0_right add_0 diff_zero] unfolding C_def by (auto simp only: le0 simp_thms)
  have b: "flash_bytes fe off n f' = peek C off n" if "off + n \<le> 4096" for off n
    using that len by (intro nth_equalityI) (auto simp: flash_bytes_def w(2) peek_def)
  have sum: "from_le (flash_bytes fe 0 4 f') = adler32Sum (word_bytes (em_words e))" by (simp add: b C_def peek_def)
  have "peek C (8 + 2 * k) 2 = peek (word_bytes (em_words e)) (2 * k) 2" for k using assms(5) by (simp add: C_def peek_def)
  then have "map (\<lambda>k. from_le (flash_bytes fe (8 + 2 * k) 2 f')) [0..<2044] = em_words e"
    using assms(2) by (intro nth_equalityI) (simp_all add: b words_word_bytes)
  then show ?thesis using w(1) sum by (simp add: loadFromFlash_def readFlash_def Let_def XMC4800EEPROM_new_def)
qed





section \<open>Commands of the master\<close>

text \<open>A word written by a command is the one a later read returns, and the reads of the other words are unchanged.\<close>

theorem eeprom_write_then_read:
  assumes "unat address + 4 \<le> length (em_words e)" and "length (em_words e) < 2 ^ 32"
  shows "\<exists>out e'. eeprom_write_command address data now e = Some (out, e') \<and> em_shall_write e'
    \<and> eeprom_read_command address e'
        = Some [(0x508, le16 (get16 data 0) @ word_bytes (peek (em_words e) (unat address + 1) 3)), (0x502, le16 0x0100)]"
proof -
  let ?a = "unat address" and ?w = "em_words e"
  have "unat (address + 4) = ?a + 4" using assms by (subst unat_plus_if') auto
  moreover have "unat (of_nat (length ?w) :: u32) = length ?w" using assms(2) by (intro unat_of_nat_small) simp
  ultimately have ok: "\<not> address + 4 > of_nat (length ?w)" using assms(1) by (simp add: word_less_nat_alt)
  have "peek (?w[?a := get16 data 0]) ?a 4 = get16 data 0 # peek ?w (?a + 1) 3"
    using assms(1) by (intro nth_equalityI) (auto simp: peek_def nth_list_update nth_Cons')
  then show ?thesis
    using assms(1) ok by (auto simp: eeprom_write_command_def eeprom_read_command_def word_bytes_def)
qed

section \<open>A flash\<close>

text \<open>An array of bytes with a buffer for a page, as the reference manual describes it.\<close>

definition array_flash :: "((nat \<Rightarrow> u8) \<times> bytes) flash_env" where
  "array_flash = \<lparr>fe_mem = fst, fe_erase_sector = (\<lambda>(m, p). (\<lambda>_. 0, p)), fe_clear_status = id, fe_enter_page_mode = (\<lambda>(m, p). (m, [])),
     fe_load_page = (\<lambda>lo hi (m, p). (m, p @ le32 lo @ le32 hi)),
     fe_write_page = (\<lambda>a (m, p). (\<lambda>i. if a \<le> i \<and> i < a + 256 then p ! (i - a) else m i, p))\<rparr>"

lemma array_flash_laws: "flash_laws array_flash snd 0"
  by (auto simp: flash_laws_def array_flash_def)

theorem eeprom_save_restores_witness:
  "\<exists>e' f'. writeFlash array_flash [1, 2, 3, 4] (XMC4800EEPROM_new\<lparr>em_words := replicate 2044 0x1234\<rparr>) ((\<lambda>_. 0), []) = Some (e', f')
    \<and> em_words (loadFromFlash array_flash f' XMC4800EEPROM_new) = replicate 2044 0x1234
    \<and> \<not> em_load_default (loadFromFlash array_flash f' XMC4800EEPROM_new)"
  using eeprom_save_restores [OF array_flash_laws, of "XMC4800EEPROM_new\<lparr>em_words := replicate 2044 0x1234\<rparr>" "[1, 2, 3, 4]" "((\<lambda>_. 0), [])"]
  by (simp add: XMC4800EEPROM_new_def)


end
