(* ===== verification/MasterOD.thy ===== *)
theory MasterOD
  imports Bus
begin

text \<open>
  The object dictionary of the master (\<open>lib/master/src/MasterOD.cc\<close>): its identity and one configuration object per slave, filled
  from the EEPROM of the slave. A string is the bytes of its characters; a pointer to an entry is the position of its
  object and of the entry.
\<close>

section \<open>Objects\<close>

text \<open>An entry to add: subindex, length, offset, type, description and the bytes that \<open>memcpy\<close> reads. All are read-only.\<close>

type_synonym entry_spec = "u8 \<times> u16 \<times> u16 \<times> u16 \<times> string \<times> bytes"

fun add_entries :: "entry_spec list \<Rightarrow> object \<Rightarrow> heap \<Rightarrow> (object \<times> heap) option" where
  "add_entries [] ob h = Some (ob, h)"
| "add_entries ((sub, bitlen, bitoff, ty, description, data) # specs) ob h = do {
     (ob, h) \<leftarrow> addEntry sub bitlen bitoff ACCESS_READ ty description data ob h;
     add_entries specs ob h
   }"

definition c_str :: "bytes \<Rightarrow> bytes" where
  "c_str t = t @ [0]"

definition string_bits :: "bytes \<Rightarrow> u16" where
  "string_bits t = of_nat (length t * 8)"

record master_identity =
  id_device_type :: u32
  id_device_name :: bytes
  id_hardware_version :: bytes
  id_software_version :: bytes
  id_vendor_id :: u32
  id_product_code :: u32
  id_revision :: u32
  id_serial_number :: u32

definition identity_objects :: "master_identity \<Rightarrow> (u16 \<times> ObjectCode \<times> string \<times> entry_spec list) list" where
  "identity_objects i =
     [(0x1000, VAR, ''Device Type'', [(0, 32, 0, 0x0007, ''Device Type'', le32 (id_device_type i))])]
     @ (if id_device_name i \<noteq> []
        then [(0x1008, VAR, ''Manufacturer Device Name'', [(0, string_bits (id_device_name i), 0, 0x0009, ''Device Name'', c_str (id_device_name i))])] else [])
     @ (if id_hardware_version i \<noteq> []
        then [(0x1009, VAR, ''Manufacturer Hardware Version'', [(0, string_bits (id_hardware_version i), 0, 0x0009, ''Hardware Version'', c_str (id_hardware_version i))])] else [])
     @ (if id_software_version i \<noteq> []
        then [(0x100A, VAR, ''Manufacturer Software Version'', [(0, string_bits (id_software_version i), 0, 0x0009, ''Software Version'', c_str (id_software_version i))])] else [])
     @ [(0x1018, RECORD, ''Identity Object'',
         [(0, 8, 0, 0x0005, ''Number of Entries'', [4]), (1, 32, 16, 0x0007, ''Vendor ID'', le32 (id_vendor_id i)),
          (2, 32, 48, 0x0007, ''Product Code'', le32 (id_product_code i)), (3, 32, 80, 0x0007, ''Revision Number'', le32 (id_revision i)),
          (4, 32, 112, 0x0007, ''Serial Number'', le32 (id_serial_number i))])]"

fun build_objects :: "(u16 \<times> ObjectCode \<times> string \<times> entry_spec list) list \<Rightarrow> heap \<Rightarrow> (object list \<times> heap) option" where
  "build_objects [] h = Some ([], h)"
| "build_objects ((index, code, name, specs) # os) h = do {
     (ob, h) \<leftarrow> add_entries specs \<lparr>ob_index = index, ob_code = code, ob_name = name, ob_entries = []\<rparr> h;
     (obs, h) \<leftarrow> build_objects os h;
     Some (ob # obs, h)
   }"

definition createDictionary :: "master_identity \<Rightarrow> heap \<Rightarrow> (dictionary \<times> heap) option" where
  "createDictionary i h = build_objects (identity_objects i) h"

section \<open>Slaves\<close>

definition hex_digit :: "nat \<Rightarrow> u8" where
  "hex_digit n = of_nat (if n < 10 then 48 + n else 55 + n)"

text \<open>The name of a slave, or a label with its address in four hexadecimal digits.\<close>

definition Slave_name :: "mslave \<Rightarrow> bytes" where
  "Slave_name s =
     (let t = getString (sv_sii s) (sii_general (sv_sii s) ! 3)
      in if t \<noteq> [] then t
         else [83, 108, 97, 118, 101, 32, 64, 48, 120] @ map (\<lambda>k. hex_digit (unat (drop_bit k (sv_address s) AND 0xF))) [12, 8, 4, 0])"

definition Slave_type :: "mslave \<Rightarrow> bytes" where
  "Slave_type s = getString (sv_sii s) (sii_general (sv_sii s) ! 2)"

definition port_physics :: "mslave \<Rightarrow> u16" where
  "port_physics s =
     (let ports = get16 (sii_general (sv_sii s)) 16; port = (\<lambda>k. drop_bit (4 * k) ports AND 0xF)
      in port 0 OR push_bit 4 (port 1) OR push_bit 8 (port 2) OR push_bit 12 (port 3))"

fun place_entries :: "u16 \<Rightarrow> (u8 \<times> u16 \<times> u16 \<times> string \<times> bytes) list \<Rightarrow> entry_spec list" where
  "place_entries bit_offset [] = []"
| "place_entries bit_offset ((sub, bitlen, ty, description, data) # es) =
     (sub, bitlen, bit_offset, ty, description, data) # place_entries (bit_offset + bitlen) es"

definition slave_entries :: "mslave \<Rightarrow> (u8 \<times> u16 \<times> u16 \<times> string \<times> bytes) list" where
  "slave_entries s =
     (let info = sii_info (sv_sii s)
      in [(0, 8, 0x0005, ''Number of Entries'', [40]),
          (1, 16, 0x0006, ''Fixed Station Address'', le16 (sv_address s)),
          (2, string_bits (Slave_type s), 0x0009, ''Type'', c_str (Slave_type s)),
          (3, string_bits (Slave_name s), 0x0009, ''Name'', c_str (Slave_name s)),
          (4, 32, 0x0007, ''Device Type'', le32 0),
          (5, 32, 0x0007, ''Vendor Id'', le32 (get32 info 16)),
          (6, 32, 0x0007, ''Product Code'', le32 (get32 info 20)),
          (7, 32, 0x0007, ''Revision Number'', le32 (get32 info 24)),
          (8, 32, 0x0007, ''Serial Number'', le32 (get32 info 28)),
          (33, 16, 0x0006, ''Mailbox Out Size'', le16 (get16 info 50)),
          (34, 16, 0x0006, ''Mailbox In Size'', le16 (get16 info 54)),
          (35, 8, 0x0005, ''Link Status'', [0]),
          (36, 8, 0x0005, ''Link Preset'', [0]),
          (37, 8, 0x0005, ''Flags'', [0]),
          (38, 16, 0x0006, ''Port Physics'', le16 (port_physics s)),
          (39, 16, 0x0006, ''Mailbox Protocols Supported'', le16 (get16 info 56)),
          (40, 8, 0x0001, ''Diag History Object Supported'', [0])])"

definition slave_object :: "nat \<Rightarrow> mslave \<Rightarrow> u16 \<times> ObjectCode \<times> string \<times> entry_spec list" where
  "slave_object i s = (0x8000 + of_nat i, RECORD, ''Slave Configuration'', place_entries 0 (slave_entries s))"

text \<open>The entries behind the pointers of a \<open>ConfigurationData\<close>: address, vendor, product, revision, serial number, mailbox sizes.\<close>

definition configuration_entries :: "nat list" where
  "configuration_entries = [1, 5, 6, 7, 8, 9, 10]"

text \<open>The index of the slaves is a \<open>uint16_t\<close>: on 65536 slaves or more the loop does not end, the outcome \<open>None\<close>.\<close>

definition populate :: "mslave list \<Rightarrow> dictionary \<Rightarrow> heap \<Rightarrow> (exn + dictionary \<times> (nat \<times> nat list) list \<times> heap) option" where
  "populate slaves dict h =
     (if list_ex (\<lambda>ob. ob_index ob AND 0xFF00 = 0x8000) dict
      then Some (Inl (Error ''MasterOD::populate called twice on the same dictionary''))
      else if 0x10000 \<le> length slaves then None
      else do {
        (obs, h) \<leftarrow> build_objects (map (\<lambda>(i, s). slave_object i s) (enumerate 0 slaves)) h;
        Some (Inr (dict @ obs, map (\<lambda>i. (length dict + i, configuration_entries)) [0..<length slaves], h))
      })"

section \<open>The values of the entries\<close>

text \<open>A specification whose bytes are there, and the value its entry has.\<close>

definition spec_size :: "entry_spec \<Rightarrow> nat" where
  "spec_size = (\<lambda>(sub, bitlen, bitoff, ty, description, data). let size = (unat bitlen + 7) div 8 in if size = 0 then 1 else size)"

definition spec_ok :: "entry_spec \<Rightarrow> bool" where
  "spec_ok sp \<longleftrightarrow> (case sp of (sub, bitlen, bitoff, ty, description, data) \<Rightarrow> spec_size sp \<le> length data)"

definition has_value :: "heap \<Rightarrow> entry_spec \<Rightarrow> entry \<Rightarrow> bool" where
  "has_value h sp e \<longleftrightarrow> (case sp of (sub, bitlen, bitoff, ty, description, data) \<Rightarrow>
     en_subindex e = sub \<and> en_bitlen e = bitlen \<and> en_access e = ACCESS_READ
     \<and> (\<exists>p. en_data e = Some p \<and> load p (spec_size sp) h = Some (take (spec_size sp) data)))"

definition keeps_loads :: "heap \<Rightarrow> heap \<Rightarrow> bool" where
  "keeps_loads h h' \<longleftrightarrow> (\<forall>q n v. load q n h = Some v \<longrightarrow> load q n h' = Some v)"

lemma keeps_value: "keeps_loads h h' \<Longrightarrow> has_value h sp e \<Longrightarrow> has_value h' sp e"
  by (auto simp: keeps_loads_def has_value_def split: prod.splits)

lemma addEntry_value:
  assumes "spec_ok (sub, bitlen, bitoff, ty, description, data)" and "wf_heap h"
  shows "\<exists>e h'. addEntry sub bitlen bitoff ACCESS_READ ty description data ob h = Some (ob\<lparr>ob_entries := ob_entries ob @ [e]\<rparr>, h')
    \<and> has_value h' (sub, bitlen, bitoff, ty, description, data) e \<and> wf_heap h' \<and> keeps_loads h h'"
proof -
  define size where "size = spec_size (sub, bitlen, bitoff, ty, description, data)"
  obtain p h1 where a: "alloc (replicate size 0) h = (p, h1)" by fastforce
  have data: "mem_read data 0 size = Some (take size data)" using assms(1) by (simp add: spec_ok_def size_def peek_def)
  have block: "hp_blocks h1 (fst p) = Some (replicate size 0)" "snd p = 0" "hp_blocks h (fst p) = None"
    using a assms(2) by (auto simp: alloc_def wf_heap_def)
  have len: "length (take size data) = size" using assms(1) by (simp add: spec_ok_def size_def)
  then obtain h2 where s: "store p (take size data) h1 = Some h2" using block by (simp add: store_def)
  have "load q n h2 = Some v" if l: "load q n h = Some v" for q n v
  proof -
    have "fst q \<noteq> fst p" using l block(3) by (auto simp: load_def)
    then show ?thesis using load_store_other [OF s] load_alloc_old [OF assms(2) a l] by simp
  qed
  then have keep: "keeps_loads h h2" by (simp add: keeps_loads_def)
  have "wf_heap h2" using wf_alloc [OF assms(2) a] s by (auto simp: store_def wf_heap_def bind_eq_Some_conv split: if_splits)
  moreover have "load p size h2 = Some (take size data)" using load_store_same [OF s] len by simp
  moreover have "addEntry sub bitlen bitoff ACCESS_READ ty description data ob h
      = Some (ob\<lparr>ob_entries := ob_entries ob @ [(Entry_new sub bitlen bitoff ACCESS_READ ty description)\<lparr>en_data := Some p\<rparr>]\<rparr>, h2)"
    using a data s by (simp add: addEntry_def Let_def size_def spec_size_def)
  ultimately show ?thesis
    using keep by (intro exI [of _ "(Entry_new sub bitlen bitoff ACCESS_READ ty description)\<lparr>en_data := Some p\<rparr>"] exI [of _ h2])
      (simp add: has_value_def Entry_new_def size_def)
qed

lemma add_entries_values:
  assumes "list_all spec_ok specs" and "wf_heap h"
  shows "\<exists>es h'. add_entries specs ob h = Some (ob\<lparr>ob_entries := ob_entries ob @ es\<rparr>, h') \<and> list_all2 (has_value h') specs es \<and> wf_heap h' \<and> keeps_loads h h'"
  using assms
proof (induction specs arbitrary: ob h)
  case Nil
  have "ob = ob\<lparr>ob_entries := ob_entries ob @ []\<rparr>" by simp
  then show ?case using Nil.prems(2) by (intro exI [of _ "[]"] exI [of _ h]) (simp add: keeps_loads_def)
next
  case (Cons sp specs)
  obtain sub bitlen bitoff ty description data where sp: "sp = (sub, bitlen, bitoff, ty, description, data)" by (cases sp) auto
  obtain e h1 where e: "addEntry sub bitlen bitoff ACCESS_READ ty description data ob h = Some (ob\<lparr>ob_entries := ob_entries ob @ [e]\<rparr>, h1)"
      "has_value h1 sp e" "wf_heap h1" "keeps_loads h h1"
    using addEntry_value [of sub bitlen bitoff ty description data h ob] Cons.prems by (auto simp: sp)
  obtain es h2 where es: "add_entries specs (ob\<lparr>ob_entries := ob_entries ob @ [e]\<rparr>) h1 = Some (ob\<lparr>ob_entries := (ob_entries ob @ [e]) @ es\<rparr>, h2)"
      "list_all2 (has_value h2) specs es" "wf_heap h2" "keeps_loads h1 h2"
    using Cons.IH [of h1 "ob\<lparr>ob_entries := ob_entries ob @ [e]\<rparr>"] Cons.prems e(3) by auto
  have "add_entries (sp # specs) ob h = Some (ob\<lparr>ob_entries := ob_entries ob @ (e # es)\<rparr>, h2)" using e(1) es(1) by (simp add: sp)
  moreover have "list_all2 (has_value h2) (sp # specs) (e # es)" using es(2) keeps_value [OF es(4) e(2)] by simp
  moreover have "keeps_loads h h2" using e(4) es(4) by (simp add: keeps_loads_def)
  ultimately show ?case using es(3) by blast
qed

definition object_as :: "heap \<Rightarrow> u16 \<times> ObjectCode \<times> string \<times> entry_spec list \<Rightarrow> object \<Rightarrow> bool" where
  "object_as h os ob \<longleftrightarrow> (case os of (index, code, name, specs) \<Rightarrow> ob_index ob = index \<and> list_all2 (has_value h) specs (ob_entries ob))"

lemma keeps_object: "keeps_loads h h' \<Longrightarrow> object_as h os ob \<Longrightarrow> object_as h' os ob"
  unfolding object_as_def by (auto intro: keeps_value elim!: list_all2_mono split: prod.splits)

lemma build_objects_values:
  assumes "\<forall>(index, code, name, specs) \<in> set os. list_all spec_ok specs" and "wf_heap h"
  shows "\<exists>obs h'. build_objects os h = Some (obs, h') \<and> list_all2 (object_as h') os obs \<and> wf_heap h' \<and> keeps_loads h h'"
  using assms
proof (induction os arbitrary: h)
  case Nil
  then show ?case by (simp add: keeps_loads_def)
next
  case (Cons x os)
  obtain index code name specs where x: "x = (index, code, name, specs)" by (cases x) auto
  let ?ob = "\<lparr>ob_index = index, ob_code = code, ob_name = name, ob_entries = []\<rparr>"
  obtain es h1 where es: "add_entries specs ?ob h = Some (?ob\<lparr>ob_entries := es\<rparr>, h1)" "list_all2 (has_value h1) specs es" "wf_heap h1" "keeps_loads h h1"
    using add_entries_values [of specs h ?ob] Cons.prems by (auto simp: x)
  obtain obs h2 where obs: "build_objects os h1 = Some (obs, h2)" "list_all2 (object_as h2) os obs" "wf_heap h2" "keeps_loads h1 h2"
    using Cons.IH [OF _ es(3)] Cons.prems(1) by auto
  have "object_as h2 x (?ob\<lparr>ob_entries := es\<rparr>)"
    using es(2) keeps_value [OF obs(4)] by (auto simp: object_as_def x elim!: list_all2_mono)
  moreover have "keeps_loads h h2" using es(4) obs(4) by (simp add: keeps_loads_def)
  ultimately show ?case using es(1) obs by (auto simp: x)
qed

section \<open>The configuration of the slaves\<close>

definition value_of :: "heap \<Rightarrow> entry \<Rightarrow> bytes option" where
  "value_of h e = (case en_data e of Some p \<Rightarrow> load p ((unat (en_bitlen e) + 7) div 8) h | None \<Rightarrow> None)"

lemma has_value_of:
  "has_value h (sub, bitlen, bitoff, ty, description, data) e \<Longrightarrow> 0 < unat bitlen \<Longrightarrow> length data = (unat bitlen + 7) div 8 \<Longrightarrow> value_of h e = Some data"
proof -
  assume v: "has_value h (sub, bitlen, bitoff, ty, description, data) e" and pos: "0 < unat bitlen" and len: "length data = (unat bitlen + 7) div 8"
  have "(unat bitlen + 7) div 8 \<noteq> 0" using pos by (simp add: div_eq_0_iff)
  then have "spec_size (sub, bitlen, bitoff, ty, description, data) = length data" using len by (simp add: spec_size_def Let_def)
  then show ?thesis using v len by (auto simp: has_value_def value_of_def)
qed

lemma string_spec_ok: "length t \<le> 8191 \<Longrightarrow> spec_ok (sub, string_bits t, bitoff, ty, description, c_str t)"
proof -
  assume "length t \<le> 8191"
  then have "unat (of_nat (length t * 8) :: u16) = length t * 8" by (intro unat_of_nat_small) simp
  then show ?thesis by (auto simp: spec_ok_def spec_size_def string_bits_def c_str_def Let_def)
qed

definition short_names :: "mslave \<Rightarrow> bool" where
  "short_names s \<longleftrightarrow> length (Slave_name s) \<le> 8191 \<and> length (Slave_type s) \<le> 8191"

lemma slave_specs_ok: "short_names s \<Longrightarrow> list_all spec_ok (place_entries 0 (slave_entries s))"
  by (simp add: slave_entries_def Let_def string_spec_ok short_names_def) (simp add: spec_ok_def spec_size_def)

definition configuration_values :: "mslave \<Rightarrow> bytes list" where
  "configuration_values s =
     (let info = sii_info (sv_sii s)
      in [le16 (sv_address s), le32 (get32 info 16), le32 (get32 info 20), le32 (get32 info 24), le32 (get32 info 28), le16 (get16 info 50), le16 (get16 info 54)])"

lemma entry_read:
  assumes "list_all2 (has_value h) (place_entries bit_offset es) xs" and "k < length es" and "es ! k = (sub, bitlen, ty, description, data)"
    and "0 < unat bitlen" and "length data = (unat bitlen + 7) div 8"
  shows "value_of h (xs ! k) = Some data"
  using assms
proof (induction es arbitrary: bit_offset xs k)
  case (Cons e es)
  obtain sub' bitlen' ty' description' data' where e: "e = (sub', bitlen', ty', description', data')" by (cases e) auto
  obtain x xs' where xs: "xs = x # xs'" "has_value h (sub', bitlen', bit_offset, ty', description', data') x"
      "list_all2 (has_value h) (place_entries (bit_offset + bitlen') es) xs'"
    using Cons.prems(1) by (auto simp: e list_all2_Cons1)
  show ?case
  proof (cases k)
    case 0
    then show ?thesis using has_value_of [OF xs(2)] Cons.prems by (simp add: e xs(1))
  next
    case (Suc j)
    then show ?thesis using Cons.IH [OF xs(3), of j] Cons.prems by (simp add: xs(1))
  qed
qed simp

lemma configuration_read:
  assumes "list_all2 (has_value h) (place_entries 0 (slave_entries s)) es"
  shows "map (\<lambda>k. value_of h (es ! k)) configuration_entries = map Some (configuration_values s)"
proof -
  note read = entry_read [OF assms]
  have "value_of h (es ! 1) = Some (le16 (sv_address s))"
    by (rule read [where k = 1 and sub = 1 and bitlen = 16 and ty = "0x0006" and description = "''Fixed Station Address''"]) (simp_all add: slave_entries_def Let_def)
  moreover have "value_of h (es ! 5) = Some (le32 (get32 (sii_info (sv_sii s)) 16))"
    by (rule read [where k = 5 and sub = 5 and bitlen = 32 and ty = "0x0007" and description = "''Vendor Id''"]) (simp_all add: slave_entries_def Let_def)
  moreover have "value_of h (es ! 6) = Some (le32 (get32 (sii_info (sv_sii s)) 20))"
    by (rule read [where k = 6 and sub = 6 and bitlen = 32 and ty = "0x0007" and description = "''Product Code''"]) (simp_all add: slave_entries_def Let_def)
  moreover have "value_of h (es ! 7) = Some (le32 (get32 (sii_info (sv_sii s)) 24))"
    by (rule read [where k = 7 and sub = 7 and bitlen = 32 and ty = "0x0007" and description = "''Revision Number''"]) (simp_all add: slave_entries_def Let_def)
  moreover have "value_of h (es ! 8) = Some (le32 (get32 (sii_info (sv_sii s)) 28))"
    by (rule read [where k = 8 and sub = 8 and bitlen = 32 and ty = "0x0007" and description = "''Serial Number''"]) (simp_all add: slave_entries_def Let_def)
  moreover have "value_of h (es ! 9) = Some (le16 (get16 (sii_info (sv_sii s)) 50))"
    by (rule read [where k = 9 and sub = 33 and bitlen = 16 and ty = "0x0006" and description = "''Mailbox Out Size''"]) (simp_all add: slave_entries_def Let_def)
  moreover have "value_of h (es ! 10) = Some (le16 (get16 (sii_info (sv_sii s)) 54))"
    by (rule read [where k = 10 and sub = 34 and bitlen = 16 and ty = "0x0006" and description = "''Mailbox In Size''"]) (simp_all add: slave_entries_def Let_def)
  ultimately show ?thesis by (simp only: configuration_entries_def configuration_values_def list.map Let_def)
qed

text \<open>(C9) The dictionary of the master describes its slaves. On a dictionary that has no slave objects yet, \<open>populate\<close> returns and
  keeps everything that is there; the configuration data of every slave point to the entries of an object of its own,
  and the values they read are the address of the slave and the identity and mailbox sizes of its EEPROM.\<close>

theorem master_od_describes_slaves:
  assumes "wf_heap h" and "\<not> list_ex (\<lambda>ob. ob_index ob AND 0xFF00 = 0x8000) dict" and "list_all short_names slaves"
    and "length slaves < 0x10000"
  shows "\<exists>dict' config h'. populate slaves dict h = Some (Inr (dict', config, h')) \<and> take (length dict) dict' = dict \<and> keeps_loads h h'
    \<and> length config = length slaves
    \<and> (\<forall>i < length slaves. let ob = dict' ! fst (config ! i) in ob_index ob = 0x8000 + of_nat i
        \<and> map (\<lambda>k. value_of h' (ob_entries ob ! k)) (snd (config ! i)) = map Some (configuration_values (slaves ! i)))"
proof -
  let ?os = "map (\<lambda>(i, s). slave_object i s) (enumerate 0 slaves)"
  have "\<forall>(index, code, name, specs) \<in> set ?os. list_all spec_ok specs"
    using assms(3) slave_specs_ok by (auto simp: slave_object_def in_set_enumerate_eq list_all_length)
  then obtain obs h' where b: "build_objects ?os h = Some (obs, h')" "list_all2 (object_as h') ?os obs" "keeps_loads h h'"
    using build_objects_values [OF _ assms(1), of ?os] by blast
  let ?config = "map (\<lambda>i. (length dict + i, configuration_entries)) [0..<length slaves]"
  have p: "populate slaves dict h = Some (Inr (dict @ obs, ?config, h'))" using assms(2,4) b(1) by (simp add: populate_def)
  have "ob_index (obs ! i) = 0x8000 + of_nat i \<and> map (\<lambda>k. value_of h' (ob_entries (obs ! i) ! k)) configuration_entries = map Some (configuration_values (slaves ! i))"
    if "i < length slaves" for i
  proof -
    have "object_as h' (slave_object i (slaves ! i)) (obs ! i)"
      using list_all2_nthD [OF b(2), of i] that by (simp add: nth_enumerate_eq)
    then show ?thesis by (auto simp: object_as_def slave_object_def intro: configuration_read)
  qed
  then show ?thesis using p b(3) by (intro exI conjI) (auto simp: Let_def)
qed

theorem master_od_describes_slaves_witness:
  "\<exists>dict' config h'. populate [Slave_default\<lparr>sv_address := 1001\<rparr>] [] \<lparr>hp_fresh = 0, hp_blocks = Map.empty\<rparr> = Some (Inr (dict', config, h'))
    \<and> length config = 1"
proof -
  have "list_all short_names [Slave_default\<lparr>sv_address := 1001\<rparr>]"
    by (simp add: short_names_def Slave_name_def Slave_type_def Slave_default_def SII_new_def getString_def)
  then show ?thesis
    using master_od_describes_slaves [of "\<lparr>hp_fresh = 0, hp_blocks = Map.empty\<rparr>" "[]" "[Slave_default\<lparr>sv_address := 1001\<rparr>]"]
    by (auto simp: wf_heap_def)
qed

end
