(* ===== verification/Spec2Isabelle.thy ===== *)
theory Spec2Isabelle
  imports Frames Checksums RingQueue SII PdoMapping ESM EscBehaviour SdoFaults LinkExchange EmuNetwork DS402 BusFaults BusClocks BusGateway
    ESIObjects EmuEeprom MasterOD
begin

text \<open>
  A verification library for KickCAT, an EtherCAT stack in C++: a master that exchanges Ethernet
  frames full of datagrams with a ring of slaves, the slave side of the protocol, and an emulated
  slave controller used for simulation. All paths below are under \<open>src/\<close>.

  \<^bold>\<open>The program and its parts.\<close> The master asks for register and memory accesses through the link
  (\<open>lib/master/src/Link.cc\<close>), which packs datagrams into frames (\<open>lib/src/Frame.cc\<close>), sends them on a
  nominal and a redundancy socket and gives every reply to the callback of its request. On the slave
  side a controller (\<open>EmulatedESC.cc\<close>, or hardware behind \<open>AbstractESC\<close>) answers datagrams on its
  memory; sync managers guard the areas used by process data and mailboxes; the state machine
  (\<open>ESM.cc\<close>, \<open>ESMStates.cc\<close>) follows the master's requests, the PDO class maps process images onto the
  object dictionary (\<open>OD.cc\<close>), and the mailbox (\<open>Mailbox.cc\<close>, \<open>CoE/mailbox\<close>) serves SDO requests, whose
  client side is in the master's mailbox. The bus (\<open>lib/master/src/Bus.cc\<close>) detects and configures the slaves and
  exchanges the process data cyclically. The EEPROM image (SII) describes a slave.

  \<^bold>\<open>Conventions.\<close> Memory is a list of bytes, a pointer an offset into it. \<open>None\<close> is an access outside a
  buffer, through a null pointer or to an empty callback, i.e. undefined behaviour of the C++ code;
  an error or exception of the code is a value of a sum or of an \<open>option\<close> beside the state it leaves.
  Machine integers keep their width (\<open>u8\<close>, \<open>u16\<close>, \<open>u32\<close>, bit fields as \<open>n word\<close>) wherever wrap-around
  matters. Sockets, clocks, the application's callbacks and the hardware behind the virtual functions
  are parameters. Log output is left out.

  \<^bold>\<open>Theories.\<close>
  \<^item> \<open>Prelude\<close>: buffers (\<open>peek\<close>, \<open>poke\<close>, \<open>mem_read\<close>, \<open>mem_write\<close>, \<open>at\<close>), little-endian integers, and the
    locale \<open>packed\<close> of fixed-width structures.
  \<^item> \<open>Wire\<close>: the packed headers of \<open>protocol.h\<close> and \<open>CoE/protocol.h\<close>, each an interpretation of \<open>packed\<close>.
  \<^item> \<open>Frames\<close>: \<open>Frame.cc\<close>. The relation \<open>carries\<close> abstracts a frame to its list of datagrams; adding
    refines appending, and what is written is what the other side reads.
  \<^item> \<open>Checksums\<close>: CRC-32 against polynomial division, burst detection, Adler-32 against its sums.
  \<^item> \<open>RingQueue\<close>: \<open>Ring.h\<close>, \<open>LockedRing.h\<close>, \<open>SBufQueue.h\<close>. The ring implements the locale
    \<open>bounded_queue\<close>; no interleaving of producer and consumer loses or shares a buffer.
  \<^item> \<open>SII\<close>: \<open>SIIParser.cc\<close>. Parsing always ends with a result or one of two errors, and gives back what
    was serialized.
  \<^item> \<open>ObjectDict\<close>: \<open>OD.h\<close>, \<open>OD.cc\<close> with the storage of the entries as an explicit heap.
  \<^item> \<open>SlaveIO\<close>: \<open>AbstractESC.cc\<close>, \<open>PDO.cc\<close>, the sync-manager part of \<open>Mailbox.cc\<close>. The locale \<open>esc_device\<close>
    is the contract of the controller interface.
  \<^item> \<open>PdoMapping\<close>: which dictionaries the mapping loops of \<open>PDO.cc\<close> get through (\<open>mappable\<close>), that they
    return on them, and that storage is sound and only the process images are written.
  \<^item> \<open>ESM\<close>: the slave's state machine, a step function whose reachable states are an inductive set:
    the AL status is consistent, no state is skipped, a slave with outputs is not in OP before they
    were validated, errors stay latched, an expired watchdog leaves OP.
  \<^item> \<open>EmuESC\<close>, \<open>EscBehaviour\<close>: \<open>EmulatedESC.cc\<close>, which interprets \<open>esc_device\<close>. In every run
    (\<open>esc_run\<close>) memory accesses are refused or copy what they report, and requests stay in memory; the
    runs execute the internal logic only on FMMUs and EEPROM addresses that fit, since two bounds
    checks that wrap are shown to let an access escape. An FMMU moves exactly the mapped bits; a
    mailbox sync manager is a one-place buffer, for whole and partial accesses; the watchdog reports
    an expiry.
  \<^item> \<open>MailboxMsg\<close>, \<open>SdoServer\<close>, \<open>SdoClient\<close>: \<open>CoE/mailbox/response.cc\<close>, \<open>request.cc\<close> and \<open>Mailbox.cc\<close>.
    The locale \<open>mailbox_service\<close> is the layout of a message over a buffer.
  \<^item> \<open>SdoTransfer\<close>, \<open>SdoFaults\<close>: client and server together, message by message. Uploads and downloads
    deliver in every transfer mode; refusals are reported; at every point of a session
    (\<open>sdo_session\<close>), segmented transfers included, the server stays in memory; two defects are shown.
  \<^item> \<open>Link\<close>, \<open>LinkBehaviour\<close>, \<open>LinkExchange\<close>: \<open>Link.cc\<close>. Dispatching replies only settles slots of the
    window (\<open>evolves\<close>), whatever the sockets deliver; the copies of a split ring are spliced; events
    fire on rising edges; the locale \<open>link_filling\<close> is the contract between filling a link and a
    network, interpreted for arbitrary sockets, and a whole cycle on a ring delivers every datagram.
  \<^item> \<open>EmuNetwork\<close>: \<open>EmulatedNetwork.cc\<close>. Any wiring is laid out in bounded time; breaking a wire of a ring
    partitions the slaves between the injection points; routing a frame refines passing its
    datagrams through the controllers of the order.
  \<^item> \<open>DS402\<close>: the CiA 402 drive profile (\<open>CoE/CiA/DS402/StateMachine.cc\<close>, \<open>Drive.cc\<close>) and the emulated motor
    (\<open>Ds402Motor.h\<close>). The locale \<open>conforming_drive\<close> is what the state machine expects of a drive; in
    closed loop with the motor, which interprets it, enabling and disabling succeed in bounded time,
    except that an \<open>enable()\<close> during the shutdown is shown to be lost; faults are acknowledged at the documented rate; a drive holds its position until told otherwise.
  \<^item> \<open>Bus\<close>, \<open>BusMailbox\<close>, \<open>BusMapping\<close>: the master (\<open>Bus.cc\<close>, \<open>CoE.cc\<close>, \<open>Slave.cc\<close>) over the interface of a link: detection,
    addressing, states, EEPROM, mailboxes and SDO transfers, process data mapping and exchange, \<open>init\<close>.
  \<^item> \<open>BusLayout\<close>, \<open>BusExchange\<close>, \<open>BusReady\<close>, \<open>BusCounters\<close>: the layout of the logical frames refines next-fit packing;
    \<open>mapped\<close> is the invariant that \<open>createMapping\<close> establishes and every cycle keeps, and under which a
    cycle sends the client's outputs and stores the inputs; the expected working counters agree.
  \<^item> \<open>BusStates\<close>, \<open>BusFaults\<close>: waiting for a state ends, and returns only after every slave
    answered with the state in the last round; two defects of the master are shown.
  \<^item> \<open>BusDC\<close>, \<open>BusClocks\<close>: distributed clocks (\<open>dc.cc\<close>, \<open>Diagnostics.cc\<close>): the topology is the tree of the wiring, the delays
    of a line are the travel times of a frame, the synchronization check is exact, SYNC0 starts at the next cycle.
  \<^item> \<open>BusGateway\<close>: \<open>MailboxSequencer.cc\<close>, \<open>Gateway.cc\<close>, two clients of the bus. The sequencer serves the mailbox
    operations in turn; the gateway answers every request once.
  \<^item> \<open>MasterOD\<close>: \<open>MasterOD.cc\<close>, the dictionary of the master; its objects hold the identity of the slaves.
  \<^item> \<open>SIIBuild\<close>, \<open>ESIObjects\<close>: \<open>ESI/SIIBuilder.cc\<close> and what \<open>ESI/Parser.cc\<close> does after reading the document: the EEPROM image of a
    described device parses to its description; the objects synthesized from the PDO lists make every entry resolve.
  \<^item> \<open>EmuEeprom\<close>: the EEPROM emulated on the XMC4800 (\<open>AbstractEmulatedEEPROM.cc\<close>, \<open>EEPROM/XMC4800EEPROM.cc\<close>) over a flash
    driver: the first save is what the next start reads, and a second one is lost.

  \<^bold>\<open>Bounds and fuel.\<close> Loops are structural or come with a termination proof (\<open>drain_link\<close> by the bytes
  still unread, \<open>read_frames\<close> by the frames and the stale budget left, \<open>report_errors\<close> by the window).
  Fuel is used where the end depends on the environment: \<open>drain\<close> takes the number of datagrams of a
  frame, \<open>exchanges\<close> the number of mailbox exchanges (2 + size div (n - 9) are shown to be enough for a
  mailbox of n bytes), the mapping loops of \<open>PDO.cc\<close> the number of tests (256 are
  shown to be enough), \<open>pdi_wait\<close> the number of polls of a register that the controller changes, \<open>walkFrame\<close> and
  \<open>buildReceiveTimes\<close> the depth of their recursion (the walk budget and the number of nodes).

  \<^bold>\<open>Not modelled.\<close> The reading of ESI documents (through the third-party XML library), the hardware drivers, sockets,
  threads and timers of the OS layer, string conversions and printing, bindings, tools and examples.
  The floating-point clock drift of the emulated controller, plant of the emulated motor and
  unit conversions of the drive.
\<close>

end
